(* ===== verification/Prelude.thy ===== *)
theory Prelude
  imports Main "HOL-Library.Word" "HOL-Library.Code_Target_Nat" "HOL-Library.Code_Target_Int"
begin

text \<open>
  Shared vocabulary of the development: the exceptions the code can raise, results of fallible
  code, machine integers, the list operation behind every bounded queue of the program
  (\<open>keep_last\<close>), and the printing of integers in decimal as \<open>std::to_string\<close> and
  \<open>snprintf\<close> do it.
\<close>

section \<open>Exceptions and results\<close>

text \<open>
  What a C++ operation of the program can end with instead of a value.
  \<open>Undefined_behaviour\<close> stands for a call outside the contract of the standard library
  (such as \<open>front()\<close> of an empty container), which the language leaves open.
\<close>

datatype exn =
    Runtime_error string
  | Overflow_error
  | System_error string
  | Client_error
  | Undefined_behaviour string

type_synonym 'a result = "exn + 'a"

definition bind_result :: "'a result \<Rightarrow> ('a \<Rightarrow> 'b result) \<Rightarrow> 'b result" where
  "bind_result r f = (case r of Inl e \<Rightarrow> Inl e | Inr x \<Rightarrow> f x)"

lemma bind_result_simps [simp]:
  "bind_result (Inl e) f = Inl e"
  "bind_result (Inr x) f = f x"
  by (simp_all add: bind_result_def)

lemma bind_result_Inr_iff:
  "bind_result r f = Inr y \<longleftrightarrow> (\<exists>x. r = Inr x \<and> f x = Inr y)"
  by (cases r) auto

section \<open>Machine integers\<close>

type_synonym c_int = "32 word"
type_synonym size_t = "64 word"

text \<open>The implicit conversion of an \<open>int\<close> operand that is compared with a \<open>size_t\<close>.\<close>

definition int_to_size :: "c_int \<Rightarrow> size_t" where
  "int_to_size n = scast n"

lemma uint_int_to_size: "uint (int_to_size n) = take_bit 64 (sint n)"
  unfolding int_to_size_def by transfer (simp add: min_def)

lemma int_to_size_nonneg: "0 \<le> sint n \<Longrightarrow> unat (int_to_size n) = nat (sint n)"
proof -
  assume n: "0 \<le> sint n"
  have lt: "sint n < 2 ^ 31"
    using sint_lt [of n] by simp
  have "uint (int_to_size n) = sint n mod 2 ^ 64"
    by (simp add: uint_int_to_size take_bit_eq_mod)
  also have "\<dots> = sint n"
    using n lt by simp
  finally show ?thesis
    by (simp add: unat_eq_nat_uint)
qed

lemma int_to_size_neg: "sint n < 0 \<Longrightarrow> 2 ^ 63 \<le> unat (int_to_size n)"
proof -
  assume n: "sint n < 0"
  have ge: "- (2 ^ 31) \<le> sint n"
    using sint_ge [of n] by simp
  have "uint (int_to_size n) = sint n mod 2 ^ 64"
    by (simp add: uint_int_to_size take_bit_eq_mod)
  also have "\<dots> = (sint n + 2 ^ 64) mod 2 ^ 64"
    by (simp only: mod_add_self2)
  also have "\<dots> = sint n + 2 ^ 64"
    using n ge by (intro mod_pos_pos_trivial) simp_all
  finally have "uint (int_to_size n) = sint n + 2 ^ 64" .
  then have "2 ^ 63 \<le> uint (int_to_size n)"
    using ge by simp
  then have "nat (2 ^ 63) \<le> nat (uint (int_to_size n))"
    by (rule nat_mono)
  then show ?thesis
    unfolding unat_eq_nat_uint by (simp only: nat_numeral nat_power_eq zero_le_numeral)
qed

section \<open>The last elements of a list\<close>

definition keep_last :: "nat \<Rightarrow> 'a list \<Rightarrow> 'a list" where
  "keep_last n xs = drop (length xs - n) xs"

lemma length_keep_last [simp]: "length (keep_last n xs) = min n (length xs)"
  by (simp add: keep_last_def)

lemma keep_last_short [simp]: "length xs \<le> n \<Longrightarrow> keep_last n xs = xs"
  by (simp add: keep_last_def)

lemma keep_last_append_singleton:
  "keep_last n (keep_last n xs @ [x]) = keep_last n (xs @ [x])"
  by (cases "length xs \<le> n") (auto simp: keep_last_def Suc_diff_le not_le)

lemma keep_last_append:
  "keep_last n (keep_last n xs @ ys) = keep_last n (xs @ ys)"
proof (induction ys rule: rev_induct)
  case Nil
  show ?case by (simp add: keep_last_def)
next
  case (snoc y ys)
  then show ?case
    by (metis append.assoc keep_last_append_singleton)
qed

lemma set_keep_last: "set (keep_last n xs) \<subseteq> set xs"
  by (simp add: keep_last_def set_drop_subset)

lemma keep_last_map: "keep_last n (map f xs) = map f (keep_last n xs)"
  by (simp add: keep_last_def drop_map)

section \<open>Decimal numerals\<close>

definition digit_char :: "nat \<Rightarrow> char" where
  "digit_char d = char_of (48 + d)"

definition is_digit :: "char \<Rightarrow> bool" where
  "is_digit c \<longleftrightarrow> (48::nat) \<le> of_char c \<and> of_char c \<le> (57::nat)"

definition digit_val :: "char \<Rightarrow> nat" where
  "digit_val c = of_char c - 48"

fun dec_string :: "nat \<Rightarrow> string" where
  "dec_string n =
     (if n < 10 then [digit_char n] else dec_string (n div 10) @ [digit_char (n mod 10)])"

declare dec_string.simps [simp del]

definition dec_value :: "string \<Rightarrow> nat" where
  "dec_value s = foldl (\<lambda>a c. 10 * a + digit_val c) 0 s"

lemma of_char_digit_char: "d < 10 \<Longrightarrow> of_char (digit_char d) = (48 + d :: nat)"
  by (simp add: digit_char_def)

lemma is_digit_char [simp]: "d < 10 \<Longrightarrow> is_digit (digit_char d)"
  by (simp add: is_digit_def of_char_digit_char)

lemma digit_val_char [simp]: "d < 10 \<Longrightarrow> digit_val (digit_char d) = d"
  by (simp add: digit_val_def of_char_digit_char)

lemma dec_value_Nil [simp]: "dec_value [] = 0"
  by (simp add: dec_value_def)

lemma dec_value_snoc [simp]: "dec_value (s @ [c]) = 10 * dec_value s + digit_val c"
  by (simp add: dec_value_def)

lemma dec_value_single [simp]: "dec_value [c] = digit_val c"
  by (simp add: dec_value_def)

lemma dec_value_dec_string [simp]: "dec_value (dec_string n) = n"
proof (induction n rule: dec_string.induct)
  case (1 n)
  then show ?case
    by (subst dec_string.simps) simp
qed

lemma dec_string_digits: "list_all is_digit (dec_string n)"
proof (induction n rule: dec_string.induct)
  case (1 n)
  then show ?case
    by (subst dec_string.simps) simp
qed

lemma dec_string_nonempty [simp]: "dec_string n \<noteq> []"
  by (subst dec_string.simps) simp

lemma dec_string_inject [simp]: "dec_string m = dec_string n \<longleftrightarrow> m = n"
  by (metis dec_value_dec_string)

end
