(* ===== verification/Op.thy ===== *)
theory Op
  imports Prelude "HOL-Library.Char_ord"
begin

text \<open>
  \<open>op.h\<close> and \<open>op.cpp\<close>: the operations of the rosbridge protocol, their names on the wire and
  their classification. The enumeration is ordered as declared (\<open>std::set<OP>\<close> compares the
  enumerators as integers).
\<close>

section \<open>The enumeration\<close>

datatype op =
    ServiceAdvertiseOp
  | ServiceUnadvertiseOp
  | ServiceCallOp
  | ServiceResponseOp
  | TopicAdvertiseOp
  | TopicUnadvertiseOp
  | TopicSubscribeOp
  | TopicUnsubscribeOp
  | TopicPublishOp
  | InvalidOp

fun op_code :: "op \<Rightarrow> nat" where
  "op_code ServiceAdvertiseOp = 0"
| "op_code ServiceUnadvertiseOp = 1"
| "op_code ServiceCallOp = 2"
| "op_code ServiceResponseOp = 3"
| "op_code TopicAdvertiseOp = 4"
| "op_code TopicUnadvertiseOp = 5"
| "op_code TopicSubscribeOp = 6"
| "op_code TopicUnsubscribeOp = 7"
| "op_code TopicPublishOp = 8"
| "op_code InvalidOp = 9"

lemma op_code_inject: "op_code a = op_code b \<longleftrightarrow> a = b"
  by (cases a; cases b) simp_all

instantiation op :: linorder
begin

definition less_eq_op :: "op \<Rightarrow> op \<Rightarrow> bool" where
  "less_eq_op a b \<longleftrightarrow> op_code a \<le> op_code b"

definition less_op :: "op \<Rightarrow> op \<Rightarrow> bool" where
  "less_op a b \<longleftrightarrow> op_code a < op_code b"

instance
  by standard (auto simp: less_eq_op_def less_op_def op_code_inject)

end

section \<open>Names\<close>

definition stringToOP :: "string \<Rightarrow> op" where
  "stringToOP s =
     (if s = ''advertise_service'' then ServiceAdvertiseOp
      else if s = ''unadvertise_service'' then ServiceUnadvertiseOp
      else if s = ''call_service'' then ServiceCallOp
      else if s = ''service_response'' then ServiceResponseOp
      else if s = ''advertise'' then TopicAdvertiseOp
      else if s = ''unadvertise'' then TopicUnadvertiseOp
      else if s = ''publish'' then TopicPublishOp
      else if s = ''subscribe'' then TopicSubscribeOp
      else if s = ''unsubscribe'' then TopicUnsubscribeOp
      else InvalidOp)"

text \<open>The enumerators cover the switch, so the exception after it is not reached.\<close>

fun op_to_string :: "op \<Rightarrow> string" where
  "op_to_string ServiceAdvertiseOp = ''advertise_service''"
| "op_to_string ServiceUnadvertiseOp = ''unadvertise_service''"
| "op_to_string ServiceCallOp = ''call_service''"
| "op_to_string ServiceResponseOp = ''service_response''"
| "op_to_string TopicAdvertiseOp = ''advertise''"
| "op_to_string TopicUnadvertiseOp = ''unadvertise''"
| "op_to_string TopicSubscribeOp = ''subscribe''"
| "op_to_string TopicUnsubscribeOp = ''unsubscribe''"
| "op_to_string TopicPublishOp = ''publish''"
| "op_to_string InvalidOp = ''_''"

definition isTopicOP :: "op \<Rightarrow> bool" where
  "isTopicOP x \<longleftrightarrow>
     x \<in> set [TopicAdvertiseOp, TopicUnadvertiseOp, TopicSubscribeOp, TopicUnsubscribeOp,
              TopicPublishOp]"

definition isServiceOP :: "op \<Rightarrow> bool" where
  "isServiceOP x \<longleftrightarrow>
     x \<in> set [ServiceAdvertiseOp, ServiceUnadvertiseOp, ServiceCallOp, ServiceResponseOp]"

section \<open>Properties\<close>

lemma stringToOP_to_string [simp]: "stringToOP (op_to_string x) = x"
  by (cases x) (simp_all add: stringToOP_def)

lemma op_to_string_inject: "op_to_string x = op_to_string y \<longleftrightarrow> x = y"
  by (metis stringToOP_to_string)

lemma stringToOP_eq:
  "x \<noteq> InvalidOp \<Longrightarrow> stringToOP s = x \<longleftrightarrow> s = op_to_string x"
  by (cases x) (auto simp: stringToOP_def)

lemma op_class_simps [simp]:
  "isTopicOP TopicAdvertiseOp" "isTopicOP TopicUnadvertiseOp" "isTopicOP TopicSubscribeOp"
  "isTopicOP TopicUnsubscribeOp" "isTopicOP TopicPublishOp"
  "isServiceOP ServiceAdvertiseOp" "isServiceOP ServiceUnadvertiseOp"
  "isServiceOP ServiceCallOp" "isServiceOP ServiceResponseOp"
  "\<not> isTopicOP InvalidOp" "\<not> isServiceOP InvalidOp"
  "\<not> isTopicOP ServiceAdvertiseOp" "\<not> isTopicOP ServiceUnadvertiseOp"
  "\<not> isTopicOP ServiceCallOp" "\<not> isTopicOP ServiceResponseOp"
  "\<not> isServiceOP TopicAdvertiseOp" "\<not> isServiceOP TopicUnadvertiseOp"
  "\<not> isServiceOP TopicSubscribeOp" "\<not> isServiceOP TopicUnsubscribeOp"
  "\<not> isServiceOP TopicPublishOp"
  by (simp_all add: isTopicOP_def isServiceOP_def)

text \<open>The names of the operations are read back, and exactly the texts that are none of the nine
  names of the protocol read as invalid.\<close>

lemma op_names_round_trip:
  "stringToOP (op_to_string x) = x \<and>
   (stringToOP s = InvalidOp) = (s \<notin> op_to_string ` (UNIV - {InvalidOp}))"
proof
  show "(stringToOP s = InvalidOp) = (s \<notin> op_to_string ` (UNIV - {InvalidOp}))"
    using stringToOP_eq [of "stringToOP s" s] stringToOP_eq by auto
qed simp

text \<open>Every operation is a topic operation, a service operation or the invalid one, and only one of
  these; the classes are the two halves of the enumeration.\<close>

lemma op_classes:
  "isServiceOP x = (x \<le> ServiceResponseOp) \<and>
   isTopicOP x = (ServiceResponseOp < x \<and> x < InvalidOp) \<and>
   (\<not> isTopicOP x \<and> \<not> isServiceOP x) = (x = InvalidOp)"
  by (cases x) (simp_all add: less_eq_op_def less_op_def)

end
