(* ===== verification/Binary64.thy ===== *)
theory Binary64
  imports Prelude Complex_Main
begin

text \<open>
  The C++ type \<open>double\<close> and the three pieces of the C library that the JSON code uses on it:
  \<open>strtod\<close>, and \<open>snprintf\<close> with the formats \<open>%.f\<close> and \<open>%.17g\<close>. A finite double is
  a sign, an integer mantissa and a binary exponent, in IEEE binary64 range; conversions are
  exact rational arithmetic on naturals followed by one rounding to nearest, ties to even, as
  the C library does in the default rounding mode. The locale is the "C" locale (the program
  never calls \<open>setlocale\<close>), so the decimal point is the full stop.
  \<open>strtod\<close> is modelled on the strings the JSON scanner passes to it, which are made of decimal
  digits, signs, exponent letters and decimal points (no white space, hexadecimal or \<open>nan\<close>).
  The main lemma says that 17 significant digits identify every double.
\<close>

section \<open>Doubles\<close>

datatype double = Fin bool nat int | Infinite bool | Not_a_number

fun double_wf :: "double \<Rightarrow> bool" where
  "double_wf (Fin s m e) \<longleftrightarrow>
     m < 2 ^ 53 \<and> -1074 \<le> e \<and> e \<le> 971 \<and> (e = -1074 \<or> 2 ^ 52 \<le> m)"
| "double_wf (Infinite s) \<longleftrightarrow> True"
| "double_wf Not_a_number \<longleftrightarrow> True"

fun is_finite :: "double \<Rightarrow> bool" where
  "is_finite (Fin s m e) \<longleftrightarrow> True"
| "is_finite (Infinite s) \<longleftrightarrow> False"
| "is_finite Not_a_number \<longleftrightarrow> False"

text \<open>\<open>==\<close> on doubles: the two zeros are equal, a NaN equals nothing.\<close>

fun double_eq :: "double \<Rightarrow> double \<Rightarrow> bool" where
  "double_eq (Fin s m e) (Fin s' m' e') \<longleftrightarrow>
     m = 0 \<and> m' = 0 \<or> s = s' \<and> m = m' \<and> e = e'"
| "double_eq (Infinite s) (Infinite s') \<longleftrightarrow> s = s'"
| "double_eq _ _ \<longleftrightarrow> False"

section \<open>Rounding a positive rational\<close>

text \<open>\<open>n / d\<close> to the nearest natural, ties to even.\<close>

definition round_half_even :: "nat \<Rightarrow> nat \<Rightarrow> nat" where
  "round_half_even n d =
     (let q = n div d; r = n mod d
      in if 2 * r < d then q else if d < 2 * r then q + 1 else if even q then q else q + 1)"

fun bit_len :: "nat \<Rightarrow> nat" where
  "bit_len n = (if n = 0 then 0 else Suc (bit_len (n div 2)))"

declare bit_len.simps [simp del]

text \<open>The floor of the binary logarithm of \<open>n / d\<close>.\<close>

definition flog2 :: "nat \<Rightarrow> nat \<Rightarrow> int" where
  "flog2 n d =
     (let k = int (bit_len n) - int (bit_len d)
      in if (if 0 \<le> k then d * 2 ^ nat k \<le> n else d \<le> n * 2 ^ nat (- k)) then k else k - 1)"

text \<open>\<open>n / (d * 2 ^ e)\<close>, rounded.\<close>

definition scale2 :: "nat \<Rightarrow> nat \<Rightarrow> int \<Rightarrow> nat" where
  "scale2 n d e =
     (if 0 \<le> e then round_half_even n (d * 2 ^ nat e) else round_half_even (n * 2 ^ nat (- e)) d)"

definition double_of_ratio :: "bool \<Rightarrow> nat \<Rightarrow> nat \<Rightarrow> double" where
  "double_of_ratio s n d =
     (if n = 0 then Fin s 0 (-1074)
      else let e = max (-1074) (flog2 n d - 52); q = scale2 n d e;
               (m, e') = (if q = 2 ^ 53 then (2 ^ 52, e + 1) else (q, e))
           in if 971 < e' then Infinite s else Fin s m e')"

text \<open>\<open>static_cast<double>\<close> of an \<open>int\<close>.\<close>

definition double_of_int :: "int \<Rightarrow> double" where
  "double_of_int i = double_of_ratio (i < 0) (nat \<bar>i\<bar>) 1"

text \<open>The decimal number \<open>n * 10 ^ x\<close>.\<close>

definition double_of_dec :: "bool \<Rightarrow> nat \<Rightarrow> int \<Rightarrow> double" where
  "double_of_dec s n x =
     (if 0 \<le> x then double_of_ratio s (n * 10 ^ nat x) 1 else double_of_ratio s n (10 ^ nat (- x)))"

section \<open>\<open>strtod\<close>\<close>

fun scan_sign :: "string \<Rightarrow> bool \<times> string" where
  "scan_sign [] = (False, [])"
| "scan_sign (c # s) =
     (if c = CHR ''-'' then (True, s) else if c = CHR ''+'' then (False, s) else (False, c # s))"

fun scan_fraction :: "string \<Rightarrow> string \<times> string" where
  "scan_fraction [] = ([], [])"
| "scan_fraction (c # s) =
     (if c = CHR ''.'' then (takeWhile is_digit s, dropWhile is_digit s) else ([], c # s))"

fun scan_exponent :: "string \<Rightarrow> int \<times> string" where
  "scan_exponent [] = (0, [])"
| "scan_exponent (c # s) =
     (if c = CHR ''e'' \<or> c = CHR ''E''
      then let (neg, t) = scan_sign s; ds = takeWhile is_digit t
           in if ds = [] then (0, c # s)
              else (if neg then - int (dec_value ds) else int (dec_value ds), dropWhile is_digit t)
      else (0, c # s))"

text \<open>
  The value and the part of the string from \<open>endptr\<close> on; without a conversion, zero and the
  whole string.
\<close>

definition strtod :: "string \<Rightarrow> double \<times> string" where
  "strtod s =
     (let (neg, s1) = scan_sign s;
          ip = takeWhile is_digit s1;
          (fp, s3) = scan_fraction (dropWhile is_digit s1)
      in if ip = [] \<and> fp = [] then (Fin False 0 (-1074), s)
         else let (x, s4) = scan_exponent s3
              in (double_of_dec neg (dec_value (ip @ fp)) (x - int (length fp)), s4))"

section \<open>\<open>snprintf\<close> with \<open>%.f\<close> and \<open>%.17g\<close>\<close>

text \<open>The magnitude of a finite double as a fraction.\<close>

definition mag_num :: "nat \<Rightarrow> int \<Rightarrow> nat" where
  "mag_num m e = (if 0 \<le> e then m * 2 ^ nat e else m)"

definition mag_den :: "int \<Rightarrow> nat" where
  "mag_den e = (if 0 \<le> e then 1 else 2 ^ nat (- e))"

function scale_up :: "nat \<Rightarrow> nat \<Rightarrow> nat" where
  "scale_up n d = (if n = 0 \<or> d \<le> n then 0 else Suc (scale_up (10 * n) d))"
  by pat_completeness auto
termination
  by (relation "measure (\<lambda>(n, d). d - n)") auto

declare scale_up.simps [simp del]

text \<open>The floor of the decimal logarithm of \<open>n / d\<close>.\<close>

definition flog10 :: "nat \<Rightarrow> nat \<Rightarrow> int" where
  "flog10 n d =
     (if d \<le> n then int (length (dec_string (n div d))) - 1 else - int (scale_up n d))"

text \<open>The 17 significant digits and the decimal exponent of the first one.\<close>

definition digits17 :: "nat \<Rightarrow> nat \<Rightarrow> nat \<times> int" where
  "digits17 n d =
     (let x = flog10 n d;
          k = (if x \<le> 16 then round_half_even (n * 10 ^ nat (16 - x)) d
               else round_half_even n (d * 10 ^ nat (x - 16)))
      in if k = 10 ^ 17 then (10 ^ 16, x + 1) else (k, x))"

definition strip_zeros :: "string \<Rightarrow> string" where
  "strip_zeros s = rev (dropWhile (\<lambda>c. c = CHR ''0'') (rev s))"

definition with_fraction :: "string \<Rightarrow> string \<Rightarrow> string" where
  "with_fraction ip fp = (let f = strip_zeros fp in if f = [] then ip else ip @ ''.'' @ f)"

definition format_exponent :: "int \<Rightarrow> string" where
  "format_exponent x =
     ''e'' @ (if x < 0 then ''-'' else ''+'') @ (if \<bar>x\<bar> < 10 then ''0'' else []) @
     dec_string (nat \<bar>x\<bar>)"

definition format_17g :: "nat \<Rightarrow> nat \<Rightarrow> string" where
  "format_17g n d =
     (let (k, x) = digits17 n d; ds = dec_string k
      in if -4 \<le> x \<and> x < 17
         then if 0 \<le> x then with_fraction (take (nat x + 1) ds) (drop (nat x + 1) ds)
              else with_fraction ''0'' (replicate (nat (- x) - 1) (CHR ''0'') @ ds)
         else with_fraction (take 1 ds) (drop 1 ds) @ format_exponent x)"

text \<open>
  The number branch of \<open>value::to_str\<close>: an integer below \<open>2 ^ 53\<close> prints with \<open>%.f\<close>,
  anything else with \<open>%.17g\<close>. (A \<open>value\<close> never holds an infinity or a NaN.)
\<close>

fun double_str :: "double \<Rightarrow> string" where
  "double_str (Fin s m e) =
     (let n = mag_num m e; d = mag_den e
      in (if s then ''-'' else []) @
         (if n < 2 ^ 53 * d \<and> n mod d = 0 then dec_string (n div d) else format_17g n d))"
| "double_str (Infinite s) = (if s then ''-inf'' else ''inf'')"
| "double_str Not_a_number = ''nan''"


section \<open>Rounding and logarithms\<close>

lemma round_half_even_close:
  assumes "0 < d" and "\<bar>real n / real d - real k\<bar> < 1 / 2"
  shows "round_half_even n d = k"
proof -
  define q r where "q = n div d" and "r = n mod d"
  have n: "int n = int q * int d + int r" and r: "r < d"
    using assms(1) by (simp_all add: q_def r_def flip: of_nat_mult of_nat_add)
  have "real n = real q * real d + real r"
    using n by (metis of_int_add of_int_mult of_int_of_nat_eq)
  then have "\<bar>(real q - real k) * real d + real r\<bar> < real d / 2"
    using assms by (simp add: field_simps abs_if split: if_splits)
  then have "2 * \<bar>(real q - real k) * real d + real r\<bar> < real d"
    by simp
  then have "real_of_int (2 * \<bar>(int q - int k) * int d + int r\<bar>) < real_of_int (int d)"
    by simp
  then have close: "2 * \<bar>(int q - int k) * int d + int r\<bar> < int d"
    by (simp only: of_int_less_iff)
  have far: "y \<le> x \<Longrightarrow> 2 * \<bar>x\<bar> < y \<Longrightarrow> False" and far': "x < - y \<Longrightarrow> 2 * \<bar>x\<bar> < y \<Longrightarrow> False"
    for x y :: int
    by arith+
  have "k = q \<or> k = q + 1"
  proof (rule ccontr)
    assume "\<not> ?thesis"
    then consider "int q - int k \<ge> 1" | "int q - int k \<le> - 2"
      by linarith
    then show False
    proof cases
      case 1
      then have "1 * int d \<le> (int q - int k) * int d"
        by (intro mult_right_mono) auto
      then have "int d \<le> (int q - int k) * int d + int r"
        by simp
      then show False using close by (rule far)
    next
      case 2
      then have "(int q - int k) * int d \<le> - 2 * int d"
        by (intro mult_right_mono) auto
      then have "(int q - int k) * int d + int r < - int d"
        using r by simp
      then show False using close by (rule far')
    qed
  qed
  then show ?thesis
    using close r by (auto simp: round_half_even_def Let_def algebra_simps simp flip: q_def r_def)
qed

lemma round_half_even_error:
  assumes "0 < d"
  shows "\<bar>real (round_half_even n d) - real n / real d\<bar> \<le> 1 / 2"
proof -
  define q r where "q = n div d" and "r = n mod d"
  have "n = q * d + r" and r: "r < d"
    using assms by (simp_all add: q_def r_def)
  then have "real n / real d = real q + real r / real d"
    using assms by (simp add: field_simps)
  moreover have "2 * r \<le> d \<Longrightarrow> real r / real d \<le> 1 / 2"
    using assms by (simp add: field_simps)
  moreover have "d \<le> 2 * r \<Longrightarrow> 1 / 2 \<le> real r / real d"
    using assms by (simp add: field_simps)
  moreover have "0 \<le> real r / real d" "real r / real d < 1"
    using assms r by simp_all
  ultimately show ?thesis
    unfolding round_half_even_def Let_def q_def [symmetric] r_def [symmetric]
    by (cases "2 * r < d"; cases "d < 2 * r") auto
qed

lemma bit_len_bounds: "0 < n \<Longrightarrow> 2 ^ (bit_len n - 1) \<le> n \<and> n < 2 ^ bit_len n \<and> 0 < bit_len n"
proof (induction n rule: bit_len.induct)
  case (1 n)
  have step: "bit_len n = Suc (bit_len (n div 2))"
    using "1.prems" by (subst bit_len.simps) simp
  show ?case
  proof (cases "n div 2 = 0")
    case True
    then have "n = 1" using "1.prems" by linarith
    moreover have "bit_len 1 = 1" by (simp add: bit_len.simps)
    ultimately show ?thesis by simp
  next
    case False
    with 1 have IH: "2 ^ (bit_len (n div 2) - 1) \<le> n div 2" "n div 2 < 2 ^ bit_len (n div 2)"
      "0 < bit_len (n div 2)"
      by auto
    then obtain j where j: "bit_len (n div 2) = Suc j"
      by (cases "bit_len (n div 2)") auto
    show ?thesis
      using IH by (simp add: step j) linarith
  qed
qed

lemma powi_nat: "0 \<le> k \<Longrightarrow> (b::real) powi k = b ^ nat k"
  by (simp add: power_int_def)

lemma powi_neg_nat: "k \<le> 0 \<Longrightarrow> (b::real) powi k = 1 / b ^ nat (- k)"
  by (cases "k = 0") (simp_all add: power_int_def field_simps)

lemma powi_neg_int: "(b::real) powi (- int i) = 1 / b ^ i"
  by (simp add: power_int_minus field_simps)

lemma powi_less_imp: "1 < (b::real) \<Longrightarrow> b powi i < b powi (j + 1) \<Longrightarrow> i \<le> j"
  using power_int_increasing [of "j + 1" i b] by (meson leI less_le_trans order_less_irrefl zless_iff_Suc_zadd add1_zle_eq less_imp_le)

lemma flog2_bounds:
  assumes "0 < n" "0 < d"
  shows "2 powi flog2 n d \<le> real n / real d \<and> real n / real d < 2 powi (flog2 n d + 1)"
proof -
  define k where "k = int (bit_len n) - int (bit_len d)"
  define b where "b \<longleftrightarrow> (if 0 \<le> k then d * 2 ^ nat k \<le> n else d \<le> n * 2 ^ nat (- k))"
  have fl: "flog2 n d = (if b then k else k - 1)"
    by (simp add: flog2_def k_def b_def Let_def)
  have b: "b \<longleftrightarrow> 2 powi k \<le> real n / real d"
  proof (cases "0 \<le> k")
    case True
    then have "2 powi k \<le> real n / real d \<longleftrightarrow> real (d * 2 ^ nat k) \<le> real n"
      using assms by (simp add: powi_nat field_simps)
    then show ?thesis
      using True unfolding b_def by (simp only: of_nat_le_iff if_True)
  next
    case False
    then have "2 powi k \<le> real n / real d \<longleftrightarrow> real d \<le> real (n * 2 ^ nat (- k))"
      using assms by (simp add: powi_neg_nat field_simps)
    then show ?thesis
      using False unfolding b_def by (simp only: of_nat_le_iff if_False)
  qed
  note nb = bit_len_bounds [OF assms(1)] and db = bit_len_bounds [OF assms(2)]
  have "real n < 2 ^ bit_len n" "2 ^ (bit_len n - 1) \<le> real n"
    "real d < 2 ^ bit_len d" "2 ^ (bit_len d - 1) \<le> real d"
    using nb db by (metis of_nat_less_iff of_nat_le_iff of_nat_numeral of_nat_power)+
  then have nr: "real n < 2 powi int (bit_len n)" "2 powi (int (bit_len n) - 1) \<le> real n"
    and dr: "real d < 2 powi int (bit_len d)" "2 powi (int (bit_len d) - 1) \<le> real d"
    using nb db by (simp_all add: powi_nat nat_diff_distrib)
  have "real n / real d < 2 powi int (bit_len n) / 2 powi (int (bit_len d) - 1)"
    using nr dr assms by (intro frac_less) auto
  then have up: "real n / real d < 2 powi (k + 1)"
    by (simp add: k_def power_int_diff power_int_add)
  have "2 powi (int (bit_len n) - 1) / 2 powi int (bit_len d) \<le> real n / real d"
    using nr dr assms by (intro frac_le) auto
  then have lo: "2 powi (k - 1) \<le> real n / real d"
    by (simp add: k_def power_int_diff power_int_add field_simps)
  show ?thesis
    using up lo b by (auto simp: fl)
qed

lemma flog2_unique:
  assumes "0 < n" "0 < d" "2 powi k \<le> real n / real d" "real n / real d < 2 powi (k + 1)"
  shows "flog2 n d = k"
proof (rule antisym)
  note fl = flog2_bounds [OF assms(1,2)]
  show "flog2 n d \<le> k"
    by (rule powi_less_imp [of 2]) (use fl assms in linarith)+
  show "k \<le> flog2 n d"
    by (rule powi_less_imp [of 2]) (use fl assms in linarith)+
qed

lemma scale2_close:
  assumes "0 < d" "\<bar>real n / real d - real k * 2 powi e\<bar> < 2 powi e / 2"
  shows "scale2 n d e = k"
proof (cases "0 \<le> e")
  case True
  have "\<bar>real n / real (d * 2 ^ nat e) - real k\<bar> < 1 / 2"
  proof -
    have "real n / real (d * 2 ^ nat e) - real k = (real n / real d - real k * 2 powi e) / 2 powi e"
      using assms(1) True by (simp add: powi_nat [of e] diff_divide_distrib)
    then show ?thesis
      using assms(2) by (simp add: abs_divide divide_less_eq)
  qed
  then show ?thesis
    using assms(1) True by (simp add: scale2_def round_half_even_close)
next
  case False
  have "\<bar>real (n * 2 ^ nat (- e)) / real d - real k\<bar> < 1 / 2"
  proof -
    have "real (n * 2 ^ nat (- e)) / real d - real k = (real n / real d - real k * 2 powi e) / 2 powi e"
      using assms(1) False by (simp add: powi_neg_nat [of e] field_simps)
    then show ?thesis
      using assms(2) by (simp add: abs_divide divide_less_eq)
  qed
  then show ?thesis
    using assms(1) False by (simp add: scale2_def round_half_even_close)
qed

section \<open>Correct rounding finds the double close to a rational\<close>

lemma close_bounds: "\<bar>y - v\<bar> < p / 2 \<Longrightarrow> (y::real) < v + p \<and> v < y + p / 2"
  by arith

lemma double_of_ratio_same_exponent:
  assumes "0 < n" "0 < d" "double_wf (Fin s m e)"
    and close: "\<bar>real n / real d - real m * 2 powi e\<bar> < 2 powi e / 2"
    and lo: "e = -1074 \<or> 2 ^ 52 * 2 powi e \<le> real n / real d"
  shows "double_of_ratio s n d = Fin s m e"
proof -
  have m: "real m + 1 \<le> 2 ^ 53"
    using assms(3) by (simp add: Suc_le_eq flip: of_nat_Suc)
  have "real n / real d < (real m + 1) * 2 powi e"
    using close_bounds [OF close] by (simp only: distrib_right mult_1)
  also have "\<dots> \<le> 2 ^ 53 * 2 powi e"
    using m by (intro mult_right_mono) auto
  also have "\<dots> = 2 powi (52 + e + 1)"
    by (simp add: power_int_add)
  finally have hi: "real n / real d < 2 powi (52 + e + 1)" .
  have e: "max (-1074) (flog2 n d - 52) = e"
  proof (cases "2 ^ 52 * 2 powi e \<le> real n / real d")
    case True
    then have "flog2 n d = 52 + e"
      using hi assms by (intro flog2_unique) (simp_all add: power_int_add)
    then show ?thesis using assms(3) by auto
  next
    case False
    then have "2 powi flog2 n d < (2::real) powi (51 + e + 1)"
      using flog2_bounds [OF assms(1,2)] by (simp add: power_int_add)
    then have "flog2 n d \<le> 51 + e"
      by (intro powi_less_imp [of 2]) simp_all
    then show ?thesis using False lo by auto
  qed
  have "scale2 n d e = m"
    using assms(2) close by (rule scale2_close)
  then show ?thesis
    using assms(1,3) e by (auto simp: double_of_ratio_def)
qed

lemma double_of_ratio_binade_below:
  assumes "0 < n" "0 < d" "-1074 < e" "e \<le> 971"
    and close: "2 ^ 52 * 2 powi e - real n / real d < 2 powi e / 4"
    and hi: "real n / real d < 2 ^ 52 * 2 powi e"
  shows "double_of_ratio s n d = Fin s (2 ^ 52) e"
proof -
  define p where "p = (2::real) powi e"
  have p: "0 < p" by (simp add: p_def)
  have half: "2 powi (e - 1) = p / 2"
    by (simp add: p_def power_int_diff)
  have y: "2 ^ 52 * p - real n / real d < p / 4" "real n / real d < 2 ^ 52 * p"
    using close hi by (simp_all add: p_def)
  have "flog2 n d = 51 + e"
  proof (rule flog2_unique [OF assms(1,2)])
    have "2 powi (51 + e) = 2 ^ 51 * p"
      by (simp add: p_def power_int_add)
    also have "\<dots> \<le> 2 ^ 52 * p - p / 4"
      using p by simp
    also have "\<dots> \<le> real n / real d"
      using y(1) by linarith
    finally show "2 powi (51 + e) \<le> real n / real d" .
    show "real n / real d < 2 powi (51 + e + 1)"
      using y(2) by (simp add: p_def power_int_add)
  qed
  then have e: "max (-1074) (flog2 n d - 52) = e - 1"
    using assms(3) by simp
  have "scale2 n d (e - 1) = 2 ^ 53"
  proof (rule scale2_close [OF assms(2)])
    have "real (2 ^ 53) * 2 powi (e - 1) = 2 ^ 52 * p"
      by (simp add: half)
    then show "\<bar>real n / real d - real (2 ^ 53) * 2 powi (e - 1)\<bar> < 2 powi (e - 1) / 2"
      using y by (simp add: half abs_less_iff)
  qed
  then show ?thesis
    using assms e by (simp add: double_of_ratio_def)
qed

lemma double_of_ratio_close:
  assumes "0 < n" "0 < d" "double_wf (Fin s m e)"
    and close: "\<bar>real n / real d - real m * 2 powi e\<bar> < 2 powi e / 2"
    and close': "m = 2 ^ 52 \<Longrightarrow> real m * 2 powi e - real n / real d < 2 powi e / 4"
  shows "double_of_ratio s n d = Fin s m e"
proof (cases "e = -1074 \<or> 2 ^ 52 * 2 powi e \<le> real n / real d")
  case True
  with assms show ?thesis by (intro double_of_ratio_same_exponent)
next
  case False
  then have hi: "real n / real d < 2 ^ 52 * 2 powi e" and e: "-1074 < e" "e \<le> 971" and "2 ^ 52 \<le> m"
    using assms(3) by auto
  have "real m * 2 powi e < real n / real d + 2 powi e / 2"
    using close_bounds [OF close] by (rule conjunct2)
  also have "\<dots> < (2 ^ 52 + 1) * 2 powi e"
    using hi zero_less_power_int [of "2::real" e] by (simp only: distrib_right mult_1) linarith
  finally have "real m < 2 ^ 52 + 1"
    by (simp only: mult_less_cancel_right) auto
  then have "real m < real (2 ^ 52 + 1)"
    by simp
  then have "m < 2 ^ 52 + 1"
    by (simp only: of_nat_less_iff)
  with \<open>2 ^ 52 \<le> m\<close> have m: "m = 2 ^ 52" by linarith
  with close' have "2 ^ 52 * 2 powi e - real n / real d < 2 powi e / 4"
    by simp
  with assms(1,2) e hi show ?thesis
    unfolding m by (intro double_of_ratio_binade_below)
qed

lemma double_of_ratio_wf: "0 < d \<Longrightarrow> double_wf (double_of_ratio s n d)"
proof (cases "n = 0")
  case True
  then show ?thesis by (simp add: double_of_ratio_def)
next
  case False
  assume d: "0 < d"
  define e where "e = max (-1074) (flog2 n d - 52)"
  define y where "y = real n / real d"
  have fl: "2 powi flog2 n d \<le> y" "y < 2 powi (flog2 n d + 1)"
    using flog2_bounds [of n d] False d by (simp_all add: y_def)
  have "2 powi (flog2 n d + 1) \<le> (2::real) powi (e + 53)"
    by (rule power_int_increasing) (simp_all add: e_def)
  then have "y < 2 ^ 53 * 2 powi e"
    using fl(2) by (simp add: power_int_add)
  moreover have "\<bar>real (scale2 n d e) - y / 2 powi e\<bar> \<le> 1 / 2"
  proof (cases "0 \<le> e")
    case True
    then show ?thesis
      using round_half_even_error [of "d * 2 ^ nat e" n] d
      by (simp add: scale2_def y_def powi_nat)
  next
    case False
    then show ?thesis
      using round_half_even_error [of d "n * 2 ^ nat (- e)"] d
      by (simp add: scale2_def y_def powi_neg_nat)
  qed
  ultimately have "real (scale2 n d e) < 2 ^ 53 + 1"
    by (smt (verit) field_sum_of_halves mult.commute pos_divide_less_eq zero_less_power_int)
  then have "real (scale2 n d e) < real (2 ^ 53 + 1)"
    by (simp only: of_nat_add of_nat_power of_nat_numeral of_nat_1)
  then have hi: "scale2 n d e \<le> 2 ^ 53"
    by (simp only: of_nat_less_iff)
  have lo: "2 ^ 52 \<le> scale2 n d e" if "e \<noteq> -1074"
  proof -
    have "e = flog2 n d - 52" using that by (auto simp: e_def)
    then have "2 powi (e + 52) \<le> y" using fl(1) by simp
    then have "2 ^ 52 \<le> y / 2 powi e" by (simp add: power_int_add field_simps)
    then have "2 ^ 52 - 1 / 2 \<le> real (scale2 n d e)"
      using \<open>\<bar>real (scale2 n d e) - y / 2 powi e\<bar> \<le> 1 / 2\<close> by linarith
    then have "real (2 ^ 52) < real (scale2 n d e + 1)"
      by (simp only: of_nat_add of_nat_power of_nat_numeral of_nat_1)
    then show ?thesis by (simp only: of_nat_less_iff)
  qed
  have "-1074 \<le> e" by (simp add: e_def)
  then show ?thesis
    using False hi lo by (auto simp: double_of_ratio_def Let_def simp flip: e_def)
qed

lemma double_of_dec_wf: "double_wf (double_of_dec s n x)"
  by (simp add: double_of_dec_def double_of_ratio_wf)

lemma strtod_wf: "double_wf (fst (strtod s))"
  by (auto simp: strtod_def Let_def double_of_dec_wf split: prod.splits)

lemma double_of_dec_close:
  assumes "0 < n" "double_wf (Fin s m e)"
    and "\<bar>real n * 10 powi x - real m * 2 powi e\<bar> < 2 powi e / 2"
    and "m = 2 ^ 52 \<Longrightarrow> real m * 2 powi e - real n * 10 powi x < 2 powi e / 4"
  shows "double_of_dec s n x = Fin s m e"
proof (cases "0 \<le> x")
  case True
  then have "real (n * 10 ^ nat x) / real 1 = real n * 10 powi x"
    by (simp add: powi_nat)
  with True assms show ?thesis
    unfolding double_of_dec_def by (simp only: if_True) (rule double_of_ratio_close, simp_all)
next
  case False
  then have "real n / real (10 ^ nat (- x)) = real n * 10 powi x"
    by (simp add: powi_neg_nat)
  with False assms show ?thesis
    unfolding double_of_dec_def by (simp only: if_False) (rule double_of_ratio_close, simp_all)
qed

section \<open>Decimal digits\<close>

lemma dec_value_append: "dec_value (s @ t) = dec_value s * 10 ^ length t + dec_value t"
proof (induction t rule: rev_induct)
  case Nil
  show ?case by simp
next
  case (snoc c t)
  have "dec_value (s @ t @ [c]) = 10 * dec_value (s @ t) + digit_val c"
    by (metis append.assoc dec_value_snoc)
  with snoc show ?case by (simp add: algebra_simps)
qed

lemma dec_value_zeros [simp]: "dec_value (replicate k (CHR ''0'')) = 0"
proof (induction k)
  case (Suc k)
  have "dec_value (replicate (Suc k) (CHR ''0'')) = dec_value (replicate k (CHR ''0'') @ [CHR ''0''])"
    by (simp add: replicate_append_same)
  with Suc show ?case by (simp only: dec_value_snoc) (simp add: digit_val_def)
qed simp

lemma dec_string_bounds: "n < 10 ^ length (dec_string n) \<and> (0 < n \<longrightarrow> 10 ^ (length (dec_string n) - 1) \<le> n)"
proof (induction n rule: dec_string.induct)
  case (1 n)
  show ?case
  proof (cases "n < 10")
    case True
    then show ?thesis by (subst (1 2) dec_string.simps) simp
  next
    case False
    define l where "l = length (dec_string (n div 10))"
    have l: "length (dec_string n) = Suc l" "0 < l"
      using False by (simp_all add: l_def dec_string.simps [of n])
    have IH: "n div 10 < 10 ^ l" "10 ^ (l - 1) \<le> n div 10"
      using False "1.IH" by (auto simp: l_def)
    obtain j where j: "l = Suc j" using l(2) by (cases l) auto
    have "n < 10 * 10 ^ l" using IH(1) by linarith
    moreover have "10 * 10 ^ j \<le> n" using IH(2) unfolding j by simp
    ultimately show ?thesis by (simp only: l j) simp
  qed
qed

lemma length_dec_string: "10 ^ j \<le> n \<Longrightarrow> n < 10 ^ Suc j \<Longrightarrow> length (dec_string n) = Suc j"
proof -
  assume n: "10 ^ j \<le> n" "n < 10 ^ Suc j"
  define l where "l = length (dec_string n)"
  have "0 < n" using n(1) by (metis less_le_trans zero_less_power zero_less_numeral)
  then have b: "n < 10 ^ l" "10 ^ (l - 1) \<le> n"
    using dec_string_bounds [of n] by (auto simp: l_def)
  have "0 < l" by (simp add: l_def)
  have "(10::nat) ^ j < 10 ^ l" "(10::nat) ^ (l - 1) < 10 ^ Suc j"
    using b n by linarith+
  then have "j < l" "l - 1 < Suc j"
    by (simp_all only: power_strict_increasing_iff numeral_less_iff one_less_numeral_iff semiring_norm)
  then show ?thesis using \<open>0 < l\<close> by (simp add: l_def)
qed

lemma scale_up_bounds:
  "0 < n \<Longrightarrow> n < d \<Longrightarrow> 0 < scale_up n d \<and> d \<le> n * 10 ^ scale_up n d \<and> n * 10 ^ (scale_up n d - 1) < d"
proof (induction n d rule: scale_up.induct)
  case (1 n d)
  have step: "scale_up n d = Suc (scale_up (10 * n) d)"
    using "1.prems" by (subst scale_up.simps) simp
  show ?case
  proof (cases "10 * n < d")
    case True
    with 1 have IH: "0 < scale_up (10 * n) d" "d \<le> 10 * n * 10 ^ scale_up (10 * n) d"
      "10 * n * 10 ^ (scale_up (10 * n) d - 1) < d"
      by auto
    obtain j where j: "scale_up (10 * n) d = Suc j" using IH(1) by (cases "scale_up (10 * n) d") auto
    show ?thesis using IH unfolding step j by (simp add: mult_ac)
  next
    case False
    then have "scale_up (10 * n) d = 0" by (subst scale_up.simps) simp
    then show ?thesis using False "1.prems" by (simp add: step)
  qed
qed

lemma flog10_bounds:
  assumes "0 < n" "0 < d"
  shows "10 powi flog10 n d \<le> real n / real d \<and> real n / real d < 10 powi (flog10 n d + 1)"
proof (cases "d \<le> n")
  case True
  define q where "q = n div d"
  define l where "l = length (dec_string q)"
  have q: "0 < q" using True assms by (simp add: q_def div_greater_zero_iff)
  have "0 < l" by (simp add: l_def)
  have b: "q < 10 ^ l" "10 ^ (l - 1) \<le> q"
    using dec_string_bounds [of q] q by (auto simp: l_def)
  have "q * d \<le> n" "n < (q + 1) * d"
    using assms(2) dividend_less_div_times [of d n] by (simp_all add: q_def)
  moreover have "10 ^ (l - 1) * d \<le> q * d" "(q + 1) * d \<le> 10 ^ l * d"
    using b by (auto intro!: mult_right_mono simp del: mult_Suc)
  ultimately have "10 ^ (l - 1) * d \<le> n" "n < 10 ^ l * d"
    by linarith+
  then have "real (10 ^ (l - 1) * d) \<le> real n" "real n < real (10 ^ l * d)"
    by (simp_all only: of_nat_le_iff of_nat_less_iff)
  then have y: "10 ^ (l - 1) \<le> real n / real d" "real n / real d < 10 ^ l"
    using assms(2) by (simp_all add: field_simps)
  have fl: "flog10 n d = int (l - 1)" "flog10 n d + 1 = int l"
    using True \<open>0 < l\<close> unfolding flog10_def q_def [symmetric] l_def [symmetric]
    by (simp_all add: of_nat_diff)
  show ?thesis
    unfolding fl(2) unfolding fl(1) using y by (simp add: powi_nat)
next
  case False
  define j where "j = scale_up n d"
  have b: "0 < j" "d \<le> n * 10 ^ j" "n * 10 ^ (j - 1) < d"
    using scale_up_bounds [of n d] False assms by (auto simp: j_def)
  have fl: "flog10 n d = - int j" "flog10 n d + 1 = - int (j - 1)"
    using False b(1) by (simp_all add: flog10_def j_def of_nat_diff)
  have "real d \<le> real (n * 10 ^ j)" "real (n * 10 ^ (j - 1)) < real d"
    using b by (simp_all only: of_nat_le_iff of_nat_less_iff)
  then have "1 / 10 ^ j \<le> real n / real d" "real n / real d < 1 / 10 ^ (j - 1)"
    using assms(2) by (simp_all add: field_simps)
  then show ?thesis
    unfolding fl(2) unfolding fl(1) powi_neg_int by simp
qed

lemma digits17_spec:
  assumes "0 < n" "0 < d" "digits17 n d = (k, x)"
  shows "10 ^ 16 \<le> k \<and> k < 10 ^ 17 \<and>
    \<bar>real k * 10 powi (x - 16) - real n / real d\<bar> \<le> real n / real d / (2 * 10 ^ 16)"
proof -
  define y where "y = real n / real d"
  define z where "z = flog10 n d"
  define r where "r = (if z \<le> 16 then round_half_even (n * 10 ^ nat (16 - z)) d
    else round_half_even n (d * 10 ^ nat (z - 16)))"
  define p where "p = (10::real) powi (z - 16)"
  have p: "0 < p" by (simp add: p_def)
  have fl: "10 powi z \<le> y" "y < 10 powi (z + 1)"
    using flog10_bounds [OF assms(1,2)] by (simp_all add: y_def z_def)
  have pz: "10 powi z = 10 ^ 16 * p" "10 powi (z + 1) = 10 ^ 17 * p"
    by (simp_all add: p_def power_int_diff power_int_add)
  have r: "\<bar>real r - y / p\<bar> \<le> 1 / 2"
  proof (cases "z \<le> 16")
    case True
    have "real (n * 10 ^ nat (16 - z)) / real d = y / p"
      using True by (simp add: y_def p_def powi_neg_nat)
    then show ?thesis
      using round_half_even_error [OF assms(2), of "n * 10 ^ nat (16 - z)"] True by (simp add: r_def)
  next
    case False
    have "real n / real (d * 10 ^ nat (z - 16)) = y / p"
      using False by (simp add: y_def p_def powi_nat)
    then show ?thesis
      using round_half_even_error [of "d * 10 ^ nat (z - 16)" n] False assms(2) by (simp add: r_def)
  qed
  have yp: "10 ^ 16 \<le> y / p" "y / p < 10 ^ 17"
    using fl p unfolding pz by (simp_all add: field_simps)
  have "real (10 ^ 16) < real (r + 1)" "real r < real (10 ^ 17 + 1)"
    unfolding of_nat_add of_nat_power of_nat_numeral of_nat_1 using r yp by linarith+
  then have rb: "10 ^ 16 \<le> r" "r \<le> 10 ^ 17"
    by (simp_all only: of_nat_less_iff)
  have "\<bar>real r * p - y\<bar> = \<bar>real r - y / p\<bar> * p"
    using p by (simp add: abs_mult_pos left_diff_distrib)
  also have "\<dots> \<le> 1 / 2 * p"
    using r p by (intro mult_right_mono) auto
  also have "\<dots> \<le> y / (2 * 10 ^ 16)"
    using fl(1) by (simp add: pz)
  finally have err: "\<bar>real r * p - y\<bar> \<le> y / (2 * 10 ^ 16)" .
  have kx: "(k, x) = (if r = 10 ^ 17 then (10 ^ 16, z + 1) else (r, z))"
    using assms(3) unfolding digits17_def Let_def z_def [symmetric] r_def [symmetric] by (rule sym)
  show ?thesis
  proof (cases "r = 10 ^ 17")
    case True
    have "real (10 ^ 16) * 10 powi (z + 1 - 16) = real r * p"
      by (simp add: True p_def power_int_diff power_int_add)
    then show ?thesis using True kx err by (simp add: y_def)
  next
    case False
    then show ?thesis using kx err rb by (simp add: p_def y_def)
  qed
qed

section \<open>Printing and scanning back\<close>

lemma strip_zeros_append: "\<exists>k. s = strip_zeros s @ replicate k (CHR ''0'')"
proof -
  define t where "t = takeWhile (\<lambda>c. c = CHR ''0'') (rev s)"
  have "rev s = t @ dropWhile (\<lambda>c. c = CHR ''0'') (rev s)"
    by (simp add: t_def)
  then have "s = strip_zeros s @ rev t"
    by (metis rev_append rev_rev_ident strip_zeros_def)
  moreover have "rev t = replicate (length t) (CHR ''0'')"
    by (rule replicate_eqI) (auto simp: t_def dest: set_takeWhileD)
  ultimately show ?thesis by metis
qed

lemma strip_zeros_digits: "list_all is_digit s \<Longrightarrow> list_all is_digit (strip_zeros s)"
  by (metis list_all_append strip_zeros_append)

lemma not_digits [simp]:
  "\<not> is_digit (CHR ''.'')" "\<not> is_digit (CHR ''e'')" "\<not> is_digit (CHR ''-'')" "\<not> is_digit (CHR ''+'')"
  by (simp_all add: is_digit_def)

lemma takeWhile_digits:
  assumes "list_all is_digit s" "t = [] \<or> \<not> is_digit (hd t)"
  shows "takeWhile is_digit (s @ t) = s" and "dropWhile is_digit (s @ t) = t"
  using assms by (induction s) (cases t; simp; fail)+

lemma takeWhile_all_digits: "list_all is_digit s \<Longrightarrow> takeWhile is_digit s = s"
  and dropWhile_all_digits: "list_all is_digit s \<Longrightarrow> dropWhile is_digit s = []"
  using takeWhile_digits [of s "[]"] by simp_all

lemma scan_sign_digits: "s \<noteq> [] \<Longrightarrow> list_all is_digit s \<Longrightarrow> scan_sign (s @ t) = (False, s @ t)"
  by (cases s) auto

lemma scan_sign_minus: "s \<noteq> [] \<Longrightarrow> list_all is_digit s \<Longrightarrow>
    scan_sign ((if b then ''-'' else []) @ s @ t) = (b, s @ t)"
  by (simp add: scan_sign_digits)

lemma scan_format_exponent: "scan_exponent (format_exponent x) = (x, [])"
proof -
  define ds where "ds = (if \<bar>x\<bar> < 10 then ''0'' else []) @ dec_string (nat \<bar>x\<bar>)"
  have ds: "list_all is_digit ds" "ds \<noteq> []" "dec_value ds = nat \<bar>x\<bar>"
    by (auto simp: ds_def dec_string_digits is_digit_def dec_value_append)
      (simp_all add: dec_value_append [of "''0''", simplified] digit_val_def)
  have "format_exponent x = CHR ''e'' # (if x < 0 then CHR ''-'' else CHR ''+'') # ds"
    by (simp add: format_exponent_def ds_def)
  then show ?thesis
    using ds(2,3) by (simp add: Let_def takeWhile_all_digits [OF ds(1)] dropWhile_all_digits [OF ds(1)])
qed

text \<open>
  The shape of every number the printer produces: a sign, digits, a fraction without trailing
  zeros, an exponent.
\<close>

lemma strtod_shape:
  assumes ip: "ip \<noteq> []" "list_all is_digit ip" and fp: "list_all is_digit fp"
    and xs: "xs = [] \<and> x = 0 \<or> xs = format_exponent x"
  shows "\<exists>k y. strtod ((if s then ''-'' else []) @ with_fraction ip fp @ xs) =
      (double_of_dec s k y, []) \<and>
      real k * 10 powi y = real (dec_value (ip @ fp)) * 10 powi (x - int (length fp))"
proof -
  define f where "f = strip_zeros fp"
  obtain z where z: "fp = f @ replicate z (CHR ''0'')"
    using strip_zeros_append [of fp] by (auto simp: f_def)
  have f: "list_all is_digit f"
    using fp by (simp add: f_def strip_zeros_digits)
  have xs_hd: "xs = [] \<or> hd xs = CHR ''e''"
    using xs by (auto simp: format_exponent_def)
  then have xs_nd: "xs = [] \<or> \<not> is_digit (hd xs)" and xs_np: "xs = [] \<or> hd xs \<noteq> CHR ''.''"
    by auto
  have scan: "scan_exponent xs = (x, [])"
    using xs scan_format_exponent by auto
  have frac: "scan_fraction xs = ([], xs)"
    using xs_np by (cases xs) auto
  define r where "r = (if f = [] then xs else ''.'' @ f @ xs)"
  have r: "scan_fraction r = (f, xs)" "r = [] \<or> \<not> is_digit (hd r)"
    using frac xs_nd takeWhile_digits [OF f xs_nd] by (auto simp: r_def)
  have str: "with_fraction ip fp @ xs = ip @ r"
    by (simp add: with_fraction_def Let_def r_def flip: f_def)
  have "strtod ((if s then ''-'' else []) @ ip @ r) =
      (double_of_dec s (dec_value (ip @ f)) (x - int (length f)), [])"
    unfolding strtod_def scan_sign_minus [OF ip] Let_def prod.case takeWhile_digits [OF ip(2) r(2)]
      r(1) scan using ip(1) by simp
  moreover have "real (dec_value (ip @ f)) * 10 powi (x - int (length f)) =
      real (dec_value (ip @ fp)) * 10 powi (x - int (length fp))"
    by (simp add: z dec_value_append power_int_diff power_int_add power_add field_simps)
  ultimately show ?thesis
    unfolding str by blast
qed

lemma strtod_format_17g:
  assumes "0 < n" "0 < d" "digits17 n d = (k, x)"
  shows "\<exists>k' y. strtod ((if s then ''-'' else []) @ format_17g n d) = (double_of_dec s k' y, []) \<and>
    real k' * 10 powi y = real k * 10 powi (x - 16)"
proof -
  define ds where "ds = dec_string k"
  have k: "10 ^ 16 \<le> k" "k < 10 ^ 17"
    using digits17_spec [OF assms] by simp_all
  have ds: "length ds = 17" "list_all is_digit ds" "dec_value ds = k"
    using length_dec_string [of 16 k] k by (simp_all add: ds_def dec_string_digits)
  have parts: "list_all is_digit (take i ds)" "list_all is_digit (drop i ds)" for i
    using ds(2) by (metis append_take_drop_id list_all_append)+
  have fin: ?thesis
    if "format_17g n d = with_fraction ip fp @ xs" "ip \<noteq> []" "list_all is_digit ip"
      "list_all is_digit fp" "xs = [] \<and> x' = 0 \<or> xs = format_exponent x'"
      "dec_value (ip @ fp) = k" "x' - int (length fp) = x - 16" for ip fp xs x'
    unfolding that(1) using strtod_shape [OF that(2-5), of s] unfolding that(6,7) .
  consider "0 \<le> x" "x < 17" | "-4 \<le> x" "x < 0" | "x < -4 \<or> 17 \<le> x"
    by linarith
  then show ?thesis
  proof cases
    case 1
    show ?thesis
      by (rule fin [of "take (nat x + 1) ds" "drop (nat x + 1) ds" "[]" 0])
        (use 1 ds parts in \<open>auto simp: format_17g_def assms(3) simp flip: ds_def\<close>)
  next
    case 2
    define fp where "fp = replicate (nat (- x) - 1) (CHR ''0'') @ ds"
    have fp: "int (length fp) = 16 - x" "list_all is_digit fp" "dec_value (''0'' @ fp) = k"
      using 2 ds dec_value_append [of "''0''" fp]
      by (auto simp: fp_def dec_value_append list_all_iff is_digit_def digit_val_def)
    have "format_17g n d = with_fraction ''0'' fp"
      using 2 by (simp add: format_17g_def assms(3) fp_def ds_def)
    then show ?thesis
      using fp by (intro fin [of "''0''" fp "[]" 0]) (simp_all add: is_digit_def)
  next
    case 3
    have "format_17g n d = with_fraction (take 1 ds) (drop 1 ds) @ format_exponent x"
      using 3 by (auto simp: format_17g_def assms(3) simp flip: ds_def)
    moreover have "take 1 ds \<noteq> []" "take 1 ds @ drop 1 ds = ds" "int (length (drop 1 ds)) = 16"
      using ds(1) by auto
    ultimately show ?thesis
      using ds parts by (intro fin [of "take 1 ds" "drop 1 ds" "format_exponent x" x]) simp_all
  qed
qed

lemma mag_den_pos [simp]: "0 < mag_den e"
  by (simp add: mag_den_def)

lemma mag_ratio: "real (mag_num m e) / real (mag_den e) = real m * 2 powi e"
  by (simp add: mag_num_def mag_den_def powi_nat powi_neg_nat)

lemma mag_num_0 [simp]: "mag_num m e = 0 \<longleftrightarrow> m = 0"
  by (simp add: mag_num_def)

lemma double_of_dec_17:
  assumes wf: "double_wf (Fin s m e)" and "0 < m"
    and err: "\<bar>real k * 10 powi x - real m * 2 powi e\<bar> \<le> real m * 2 powi e / (2 * 10 ^ 16)"
    and k: "0 < k"
  shows "double_of_dec s k x = Fin s m e"
proof (rule double_of_dec_close [OF k wf])
  define p where "p = (2::real) powi e"
  have p: "0 < p" by (simp add: p_def)
  have "real m < 2 ^ 53"
    using wf by (metis double_wf.simps(1) of_nat_less_iff of_nat_numeral of_nat_power)
  then have "real m * p < 2 ^ 53 * p"
    using p by (intro mult_strict_right_mono)
  then have "real m * p / (2 * 10 ^ 16) < p / 2"
    using p by simp
  then show "\<bar>real k * 10 powi x - real m * 2 powi e\<bar> < 2 powi e / 2"
    using err unfolding p_def [symmetric] by (rule le_less_trans [rotated])
  show "real m * 2 powi e - real k * 10 powi x < 2 powi e / 4" if "m = 2 ^ 52"
  proof -
    have "\<bar>real k * 10 powi x - real m * p\<bar> < p / 4"
      using err p unfolding p_def [symmetric] that by simp
    then show ?thesis unfolding p_def by linarith
  qed
qed

text \<open>What \<open>to_str\<close> prints of a finite double, \<open>strtod\<close> reads back, to the last bit.\<close>

lemma strtod_double_str:
  assumes wf: "double_wf (Fin s m e)"
  shows "strtod (double_str (Fin s m e)) = (Fin s m e, [])"
proof -
  define n d where "n = mag_num m e" and "d = mag_den e"
  have d: "0 < d" and nd: "real n / real d = real m * 2 powi e" and n0: "n = 0 \<longleftrightarrow> m = 0"
    by (simp_all add: n_def d_def mag_ratio)
  have str: "double_str (Fin s m e) = (if s then ''-'' else []) @
      (if n < 2 ^ 53 * d \<and> n mod d = 0 then dec_string (n div d) else format_17g n d)"
    by (simp add: Let_def flip: n_def d_def)
  show ?thesis
  proof (cases "n < 2 ^ 53 * d \<and> n mod d = 0")
    case True
    define i where "i = n div d"
    have "n = i * d" using True by (auto simp: i_def)
    then have i: "real i = real m * 2 powi e"
      using nd d by simp
    have "strtod ((if s then ''-'' else []) @ dec_string i) = (double_of_dec s i 0, [])"
      unfolding strtod_def
        scan_sign_minus [OF dec_string_nonempty dec_string_digits, of s i "[]", simplified append_Nil2]
        prod.case Let_def takeWhile_all_digits [OF dec_string_digits]
        dropWhile_all_digits [OF dec_string_digits]
      by simp
    moreover have "double_of_dec s i 0 = Fin s m e"
    proof (cases "m = 0")
      case True
      then show ?thesis using i wf by (simp add: double_of_dec_def double_of_ratio_def)
    next
      case False
      then have "0 < i" using i by (metis gr0I mult_eq_0_iff of_nat_0 of_nat_eq_0_iff power_int_not_zero zero_neq_numeral)
      then show ?thesis using i wf by (intro double_of_dec_close) simp_all
    qed
    ultimately show ?thesis
      unfolding str if_P [OF True] i_def [symmetric] by simp
  next
    case False
    then have m: "0 < m" and n: "0 < n" using d n0 by auto
    obtain k x where kx: "digits17 n d = (k, x)" by fastforce
    obtain k' y where k': "strtod ((if s then ''-'' else []) @ format_17g n d) = (double_of_dec s k' y, [])"
      "real k' * 10 powi y = real k * 10 powi (x - 16)"
      using strtod_format_17g [OF n d kx] by blast
    have spec: "10 ^ 16 \<le> k" "\<bar>real k' * 10 powi y - real m * 2 powi e\<bar> \<le> real m * 2 powi e / (2 * 10 ^ 16)"
      using digits17_spec [OF n d kx] by (simp_all add: k'(2) nd)
    have "0 < k'"
    proof (rule gr0I)
      assume "k' = 0"
      then have "real k * 10 powi (x - 16) = 0" using k'(2) by simp
      then show False using spec(1) by simp
    qed
    then have "double_of_dec s k' y = Fin s m e"
      using wf m spec(2) by (intro double_of_dec_17)
    then show ?thesis
      using k'(1) unfolding str if_not_P [OF False] by simp
  qed
qed

section \<open>The characters of a printed number\<close>

definition number_char :: "char \<Rightarrow> bool" where
  "number_char c \<longleftrightarrow>
     is_digit c \<or> c = CHR ''+'' \<or> c = CHR ''-'' \<or> c = CHR ''e'' \<or> c = CHR ''E'' \<or> c = CHR ''.''"

lemma digits_number_chars: "list_all is_digit s \<Longrightarrow> list_all number_char s"
  by (simp add: list_all_iff number_char_def)

lemma with_fraction_chars:
  "list_all is_digit ip \<Longrightarrow> list_all is_digit fp \<Longrightarrow> list_all number_char (with_fraction ip fp)"
  using digits_number_chars [of ip] digits_number_chars [of "strip_zeros fp"]
  by (simp add: with_fraction_def Let_def strip_zeros_digits number_char_def)

lemma format_exponent_chars: "list_all number_char (format_exponent x)"
  using digits_number_chars [OF dec_string_digits, of "nat \<bar>x\<bar>"]
  by (simp add: format_exponent_def number_char_def is_digit_def)

lemma with_fraction_hd: "ip \<noteq> [] \<Longrightarrow> with_fraction ip fp \<noteq> [] \<and> hd (with_fraction ip fp) = hd ip"
  by (simp add: with_fraction_def Let_def)

lemma take_drop_digits:
  "list_all is_digit s \<Longrightarrow> list_all is_digit (take i s) \<and> list_all is_digit (drop i s)"
  by (metis append_take_drop_id list_all_append)

lemma hd_digits: "s \<noteq> [] \<Longrightarrow> list_all is_digit s \<Longrightarrow> is_digit (hd s)"
  by (cases s) auto

lemma format_17g_chars:
  "list_all number_char (format_17g n d) \<and> format_17g n d \<noteq> [] \<and> is_digit (hd (format_17g n d))"
proof -
  obtain k x where kx: "digits17 n d = (k, x)" by fastforce
  define ds where "ds = dec_string k"
  have ds: "list_all is_digit ds" "ds \<noteq> []" by (simp_all add: ds_def dec_string_digits)
  have tk: "take (Suc i) ds \<noteq> []" "is_digit (hd (take (Suc i) ds))" for i
    using ds hd_digits [OF ds(2,1)] by (cases ds; simp)+
  have z: "list_all is_digit (replicate j (CHR ''0'') @ ds)" "list_all is_digit ''0''" for j
    using ds(1) by (auto simp: list_all_iff is_digit_def)
  have one: "list_all is_digit (take (Suc 0) ds)" "list_all is_digit (drop (Suc 0) ds)"
    using take_drop_digits [OF ds(1)] by auto
  have g: "format_17g n d =
      (if -4 \<le> x \<and> x < 17
       then if 0 \<le> x then with_fraction (take (Suc (nat x)) ds) (drop (Suc (nat x)) ds)
            else with_fraction ''0'' (replicate (nat (- x) - 1) (CHR ''0'') @ ds)
       else with_fraction (take (Suc 0) ds) (drop (Suc 0) ds) @ format_exponent x)"
    by (simp add: format_17g_def kx flip: ds_def)
  show ?thesis
    unfolding g
    using with_fraction_chars [OF z(2) z(1)] with_fraction_hd [of "''0''"] with_fraction_hd [OF tk(1)]
      tk(2) with_fraction_chars [OF conjunct1 conjunct2, OF take_drop_digits take_drop_digits, OF ds(1) ds(1)]
      format_exponent_chars z(2)
    by auto
qed

lemma double_str_chars:
  assumes "x = Fin s m e"
  shows "list_all number_char (double_str x)"
    and "double_str x \<noteq> []"
    and "is_digit (hd (double_str x)) \<or> hd (double_str x) = CHR ''-''"
  using format_17g_chars [of "mag_num m e" "mag_den e"] digits_number_chars [OF dec_string_digits]
    hd_digits [OF dec_string_nonempty dec_string_digits]
  by (auto simp: assms Let_def number_char_def)

lemma double_of_int_wf: "double_wf (double_of_int i)"
  by (simp add: double_of_int_def double_of_ratio_wf)

lemma double_of_int_0: "double_of_int 0 = Fin False 0 (-1074)"
  by (simp add: double_of_int_def double_of_ratio_def)

section \<open>Integers are exact\<close>

lemma double_of_nat_exact:
  assumes "0 < k" "k < 2 ^ 53"
  shows "\<exists>f \<le> 52. double_wf (Fin s (k * 2 ^ (52 - f)) (int f - 52)) \<and>
    double_of_ratio s k 1 = Fin s (k * 2 ^ (52 - f)) (int f - 52)"
proof -
  define f where "f = nat (flog2 k 1)"
  have fl: "2 powi flog2 k 1 \<le> real k" "real k < 2 powi (flog2 k 1 + 1)"
    using flog2_bounds [of k 1] assms(1) by simp_all
  have "real k < 2 ^ 53"
    using assms(2) by (metis of_nat_less_iff of_nat_numeral of_nat_power)
  then have "2 powi flog2 k 1 < (2::real) powi (52 + 1)"
    using fl(1) by (simp add: power_int_def)
  then have hi: "flog2 k 1 \<le> 52"
    by (rule powi_less_imp [rotated]) simp
  have "(2::real) powi 0 < 2 powi (flog2 k 1 + 1)"
    using fl(2) assms(1) by simp
  then have lo: "0 \<le> flog2 k 1"
    by (rule powi_less_imp [rotated]) simp
  have f: "flog2 k 1 = int f" "f \<le> 52" using lo hi by (simp_all add: f_def)
  have "real (2 ^ f) \<le> real k" "real k < real (2 ^ Suc f)"
    using fl unfolding f by (simp_all add: powi_nat nat_add_distrib)
  then have kf: "2 ^ f \<le> k" "k < 2 ^ Suc f"
    by (simp_all only: of_nat_le_iff of_nat_less_iff)
  have p: "(2::nat) ^ f * 2 ^ (52 - f) = 2 ^ 52" "(2::nat) ^ Suc f * 2 ^ (52 - f) = 2 ^ 53"
    using f(2) by (simp_all add: flip: power_add)
  have "2 ^ 52 \<le> k * 2 ^ (52 - f)" "k * 2 ^ (52 - f) < 2 ^ 53"
    unfolding p [symmetric] using kf by (intro mult_right_mono mult_strict_right_mono; simp)+
  then have wf: "double_wf (Fin s (k * 2 ^ (52 - f)) (int f - 52))"
    using f(2) by simp
  have eq: "real (k * 2 ^ (52 - f)) * 2 powi (int f - 52) = real k / real 1"
    using f(2) by (simp add: powi_neg_nat nat_diff_distrib of_nat_diff flip: nat_int)
      (simp add: nat_minus_as_int)
  then have "double_of_ratio s k 1 = Fin s (k * 2 ^ (52 - f)) (int f - 52)"
    by (intro double_of_ratio_close assms(1) wf; simp only: eq; simp)
  then show ?thesis using wf f(2) by blast
qed

lemma double_str_of_int:
  assumes "\<bar>i\<bar> < 2 ^ 53"
  shows "double_str (double_of_int i) = (if i < 0 then ''-'' else []) @ dec_string (nat \<bar>i\<bar>)"
    and "is_finite (double_of_int i)"
proof -
  define k where "k = nat \<bar>i\<bar>"
  have k: "k < 2 ^ 53" using assms by (simp add: k_def nat_less_iff)
  have "double_str (double_of_ratio s k 1) = (if s then ''-'' else []) @ dec_string k \<and>
      is_finite (double_of_ratio s k 1)" for s
  proof (cases "k = 0")
    case True
    then show ?thesis
      by (simp add: double_of_ratio_def mag_num_def mag_den_def)
  next
    case False
    then obtain f where f: "f \<le> 52" "double_of_ratio s k 1 = Fin s (k * 2 ^ (52 - f)) (int f - 52)"
      using double_of_nat_exact [of k s] k by auto
    have "mag_num (k * 2 ^ (52 - f)) (int f - 52) = k * 2 ^ (52 - f)"
      "mag_den (int f - 52) = 2 ^ (52 - f)"
      using f(1) by (auto simp: mag_num_def mag_den_def nat_minus_as_int of_nat_diff)
    then show ?thesis using k unfolding f(2) by (simp add: Let_def)
  qed
  then show "double_str (double_of_int i) = (if i < 0 then ''-'' else []) @ dec_string (nat \<bar>i\<bar>)"
    and "is_finite (double_of_int i)"
    by (simp_all add: double_of_int_def flip: k_def)
qed

section \<open>Properties\<close>

text \<open>C30: The seventeen significant digits a finite number is printed with are read back to exactly the
  same number, up to the last bit, and nothing of the text is left.\<close>

theorem number_text_exact:
  assumes "double_wf (Fin s m e)"
  shows "strtod (double_str (Fin s m e)) = (Fin s m e, [])"
  using assms by (rule strtod_double_str)

theorem number_text_exact_witness:
  "strtod (double_str (Fin False 1 (-1074))) = (Fin False 1 (-1074), [])"
  using number_text_exact [of False 1 "-1074"] by simp

end
