(* ===== verification/Ordered_Map.thy ===== *)
theory Ordered_Map
  imports Prelude "HOL-Library.Char_ord" "HOL-Library.List_Lexorder"
begin

text \<open>
  \<open>std::map\<close> as the program uses it: an association list in strictly ascending key order,
  which is the order of iteration. \<open>std::string\<close> keys compare byte by byte as unsigned
  characters, a proper prefix being smaller; this is the lexicographic order of the library on
  \<open>char list\<close>.
\<close>

type_synonym ('k, 'v) omap = "('k \<times> 'v) list"

section \<open>Operations\<close>

definition om_wf :: "('k::linorder, 'v) omap \<Rightarrow> bool" where
  "om_wf m \<longleftrightarrow> sorted_wrt (<) (map fst m)"

fun om_find :: "('k, 'v) omap \<Rightarrow> 'k \<Rightarrow> 'v option" where
  "om_find [] k = None"
| "om_find ((k', v) # m) k = (if k' = k then Some v else om_find m k)"

fun om_set :: "'k::linorder \<Rightarrow> 'v \<Rightarrow> ('k, 'v) omap \<Rightarrow> ('k, 'v) omap" where
  "om_set k v [] = [(k, v)]"
| "om_set k v ((k', v') # m) =
     (if k < k' then (k, v) # (k', v') # m
      else if k = k' then (k, v) # m
      else (k', v') # om_set k v m)"

text \<open>
  \<open>operator[]\<close>: the value under the key, after a default value has been stored where the key
  was missing.
\<close>

definition om_index :: "'v \<Rightarrow> 'k::linorder \<Rightarrow> ('k, 'v) omap \<Rightarrow> 'v \<times> ('k, 'v) omap" where
  "om_index d k m = (case om_find m k of Some v \<Rightarrow> (v, m) | None \<Rightarrow> (d, om_set k d m))"

section \<open>Laws\<close>

lemma om_wf_Nil [simp]: "om_wf []"
  by (simp add: om_wf_def)

lemma om_wf_Cons: "om_wf ((k, v) # m) \<longleftrightarrow> (\<forall>k' \<in> fst ` set m. k < k') \<and> om_wf m"
  by (auto simp: om_wf_def)

lemma om_find_set [simp]: "om_find (om_set k v m) k' = (if k' = k then Some v else om_find m k')"
  by (induction m) auto

lemma fst_set_om_set [simp]: "fst ` set (om_set k v m) = insert k (fst ` set m)"
  by (induction k v m rule: om_set.induct) (simp_all add: insert_commute)

lemma om_set_wf [simp]: "om_wf m \<Longrightarrow> om_wf (om_set k v m)"
proof (induction m)
  case Nil
  show ?case by (simp add: om_wf_def)
next
  case (Cons x m)
  obtain k' v' where [simp]: "x = (k', v')" by fastforce
  from Cons show ?case
    by (auto simp: om_wf_Cons)
qed

lemma om_find_None: "om_find m k = None \<longleftrightarrow> k \<notin> fst ` set m"
  by (induction m k rule: om_find.induct) auto

lemma om_find_in_set: "om_find m k = Some v \<Longrightarrow> (k, v) \<in> set m"
  by (induction m) (auto split: if_splits)

lemma om_find_of_set: "om_wf m \<Longrightarrow> (k, v) \<in> set m \<Longrightarrow> om_find m k = Some v"
proof (induction m)
  case Nil
  then show ?case by simp
next
  case (Cons x m)
  obtain k' v' where [simp]: "x = (k', v')" by fastforce
  from Cons show ?case
    by (force simp: om_wf_Cons)
qed

lemma set_om_set: "set (om_set k v m) \<subseteq> insert (k, v) (set m)"
  by (induction k v m rule: om_set.induct) (auto simp del: om_set.simps simp: om_set.simps split: if_splits)

lemma om_set_same: "om_wf m \<Longrightarrow> om_find m k = Some v \<Longrightarrow> om_set k v m = m"
proof (induction m)
  case Nil
  then show ?case by simp
next
  case (Cons x m)
  obtain k' v' where [simp]: "x = (k', v')" by fastforce
  show ?case
  proof (cases "k' = k")
    case True
    with Cons.prems show ?thesis by simp
  next
    case False
    with Cons.prems have "om_find m k = Some v" by simp
    then have "k' < k"
      using Cons.prems(1) by (force simp: om_wf_Cons dest: om_find_in_set)
    with False \<open>om_find m k = Some v\<close> Cons show ?thesis
      by (auto simp: om_wf_Cons)
  qed
qed

text \<open>Appending a key above all the others is the same as inserting it.\<close>

lemma om_set_last: "\<forall>k' \<in> fst ` set m. k' < k \<Longrightarrow> om_set k v m = m @ [(k, v)]"
  by (induction m) (auto dest: less_asym)

text \<open>A well-formed map is determined by its lookups.\<close>

lemma om_eqI:
  assumes "om_wf m" and "om_wf m'" and "\<And>k. om_find m k = om_find m' k"
  shows "m = m'"
  using assms
proof (induction m arbitrary: m')
  case Nil
  then show ?case
    by (cases m') (auto split: if_splits, metis option.distinct(1))
next
  case (Cons x m)
  obtain k v where [simp]: "x = (k, v)" by fastforce
  from Cons.prems(3) [of k] obtain k' v' m'' where m': "m' = (k', v') # m''"
    by (cases m') auto
  have "k' = k"
  proof (rule ccontr)
    assume ne: "k' \<noteq> k"
    then have "om_find m'' k = Some v" and "om_find m k' = Some v'"
      using Cons.prems(3) [of k] Cons.prems(3) [of k'] by (auto simp: m')
    then have "k' < k" and "k < k'"
      using Cons.prems(1,2) by (force simp: m' om_wf_Cons dest: om_find_in_set)+
    then show False by simp
  qed
  moreover have "v' = v"
    using Cons.prems(3) [of k] by (simp add: m' \<open>k' = k\<close>)
  moreover have "m = m''"
  proof (rule Cons.IH)
    show "om_wf m" "om_wf m''"
      using Cons.prems(1,2) by (auto simp: m' om_wf_Cons)
    show "om_find m q = om_find m'' q" for q
    proof (cases "q = k")
      case True
      have "k \<notin> fst ` set m" and "k \<notin> fst ` set m''"
        using Cons.prems(1,2) by (auto simp: m' \<open>k' = k\<close> om_wf_Cons)
      then show ?thesis
        using True by (simp add: om_find_None [THEN iffD2])
    next
      case False
      then show ?thesis
        using Cons.prems(3) [of q] by (simp add: m' \<open>k' = k\<close>)
    qed
  qed
  ultimately show ?case by (simp add: m')
qed

lemma om_set_commute:
  "om_wf m \<Longrightarrow> k \<noteq> k' \<Longrightarrow> om_set k v (om_set k' v' m) = om_set k' v' (om_set k v m)"
  by (rule om_eqI) auto

lemma om_set_overwrite: "om_wf m \<Longrightarrow> om_set k v (om_set k v' m) = om_set k v m"
  by (rule om_eqI) auto

lemma om_index_simps:
  "om_find m k = Some v \<Longrightarrow> om_index d k m = (v, m)"
  "om_find m k = None \<Longrightarrow> om_index d k m = (d, om_set k d m)"
  by (simp_all add: om_index_def)

lemma om_index_wf: "om_wf m \<Longrightarrow> om_wf (snd (om_index d k m))"
  by (auto simp: om_index_def split: option.splits)

lemma om_find_index:
  "om_find (snd (om_index d k m)) k' =
     (if k' = k then Some (fst (om_index d k m)) else om_find m k')"
  by (auto simp: om_index_def split: option.splits)

section \<open>The interface the rest of the program relies on\<close>

locale keyed_store =
  fixes empty :: "'m"
    and lookup :: "'m \<Rightarrow> 'k \<Rightarrow> 'v option"
    and update :: "'k \<Rightarrow> 'v \<Rightarrow> 'm \<Rightarrow> 'm"
    and wf :: "'m \<Rightarrow> bool"
  assumes lookup_empty: "lookup empty k = None"
    and lookup_update: "lookup (update k v m) k' = (if k' = k then Some v else lookup m k')"
    and wf_empty: "wf empty"
    and wf_update: "wf m \<Longrightarrow> wf (update k v m)"
    and store_ext: "wf m \<Longrightarrow> wf m' \<Longrightarrow> (\<And>k. lookup m k = lookup m' k) \<Longrightarrow> m = m'"
begin

text \<open>Storing a list of bindings in order: the last binding of a key wins.\<close>

lemma lookup_store_all:
  "lookup (fold (\<lambda>(k, v). update k v) kvs m) k =
     (case map_of (rev kvs) k of Some v \<Rightarrow> Some v | None \<Rightarrow> lookup m k)"
  by (induction kvs arbitrary: m) (auto simp: lookup_update map_add_def split: option.splits)

lemma wf_store_all: "wf m \<Longrightarrow> wf (fold (\<lambda>(k, v). update k v) kvs m)"
  by (induction kvs arbitrary: m) (auto simp: wf_update)

lemma store_all_cong:
  assumes "map_of (rev kvs) = map_of (rev kvs')"
  shows "fold (\<lambda>(k, v). update k v) kvs empty = fold (\<lambda>(k, v). update k v) kvs' empty"
  by (rule store_ext) (simp_all add: wf_store_all wf_empty lookup_store_all assms)

end

interpretation om: keyed_store "[]" om_find om_set om_wf
  by unfold_locales (auto intro: om_eqI)

end
