(* ===== verification/Json_Value.thy ===== *)
theory Json_Value
  imports Binary64 Ordered_Map
begin

text \<open>
  \<open>picojson::value\<close>: the tagged union of JSON values with its constructors, tests, typed
  accessors (which raise \<open>std::runtime_error\<close> on a type mismatch), lookups, text conversion and
  equality. The union and its \<open>type_\<close> tag are a datatype; the owned \<open>std::string\<close>,
  \<open>std::vector\<close> and \<open>std::map\<close> are held by value, which is what the copy constructor and the
  assignment operator provide.
\<close>

section \<open>Values\<close>

datatype jvalue =
    JNull
  | JBool bool
  | JNumber double
  | JString string
  | JArray "jvalue list"
  | JObject "(string \<times> jvalue) list"

type_synonym jobject = "(string, jvalue) omap"

datatype jtype = Null_type | Boolean_type | Number_type | String_type | Array_type | Object_type

text \<open>\<open>value(int type, bool)\<close>: the empty value of a type.\<close>

fun value_of_type :: "jtype \<Rightarrow> jvalue" where
  "value_of_type Null_type = JNull"
| "value_of_type Boolean_type = JBool False"
| "value_of_type Number_type = JNumber (Fin False 0 (-1074))"
| "value_of_type String_type = JString []"
| "value_of_type Array_type = JArray []"
| "value_of_type Object_type = JObject []"

text \<open>\<open>value(double)\<close> refuses an infinity and a NaN.\<close>

definition value_of_double :: "double \<Rightarrow> jvalue result" where
  "value_of_double n = (if is_finite n then Inr (JNumber n) else Inl Overflow_error)"

text \<open>What the parser and the message classes build: sorted objects, finite numbers.\<close>

fun json_wf :: "jvalue \<Rightarrow> bool" where
  "json_wf JNull \<longleftrightarrow> True"
| "json_wf (JBool b) \<longleftrightarrow> True"
| "json_wf (JNumber x) \<longleftrightarrow> is_finite x \<and> double_wf x"
| "json_wf (JString s) \<longleftrightarrow> True"
| "json_wf (JArray xs) \<longleftrightarrow> (\<forall>x \<in> set xs. json_wf x)"
| "json_wf (JObject m) \<longleftrightarrow> om_wf m \<and> (\<forall>x \<in> set m. json_wf (snd x))"

section \<open>Tests and accessors\<close>

fun type_of :: "jvalue \<Rightarrow> jtype" where
  "type_of JNull = Null_type"
| "type_of (JBool b) = Boolean_type"
| "type_of (JNumber x) = Number_type"
| "type_of (JString s) = String_type"
| "type_of (JArray xs) = Array_type"
| "type_of (JObject m) = Object_type"

definition is_type :: "jtype \<Rightarrow> jvalue \<Rightarrow> bool" where
  "is_type t v \<longleftrightarrow> type_of v = t"

text \<open>The message is the text of the asserted expression, as the macro makes it.\<close>

definition type_mismatch :: "string \<Rightarrow> exn" where
  \<open>type_mismatch t = Runtime_error
     (''"type mismatch! call is<type>() before get<type>()" && is<'' @ t @ ''>()'')\<close>

fun get_bool :: "jvalue \<Rightarrow> bool result" where
  "get_bool (JBool b) = Inr b"
| "get_bool _ = Inl (type_mismatch ''bool'')"

fun get_double :: "jvalue \<Rightarrow> double result" where
  "get_double (JNumber x) = Inr x"
| "get_double _ = Inl (type_mismatch ''double'')"

fun get_string :: "jvalue \<Rightarrow> string result" where
  "get_string (JString s) = Inr s"
| "get_string _ = Inl (type_mismatch ''std::string'')"

fun get_array :: "jvalue \<Rightarrow> jvalue list result" where
  "get_array (JArray xs) = Inr xs"
| "get_array _ = Inl (type_mismatch ''array'')"

fun get_object :: "jvalue \<Rightarrow> jobject result" where
  "get_object (JObject m) = Inr m"
| "get_object _ = Inl (type_mismatch ''object'')"

fun evaluate_as_boolean :: "jvalue \<Rightarrow> bool" where
  "evaluate_as_boolean JNull = False"
| "evaluate_as_boolean (JBool b) = b"
| "evaluate_as_boolean (JNumber x) = (\<not> double_eq x (Fin False 0 (-1074)))"
| "evaluate_as_boolean (JString s) = (s \<noteq> [])"
| "evaluate_as_boolean _ = True"

text \<open>\<open>get\<close> and \<open>contains\<close> by index and by key: null where nothing is stored.\<close>

fun value_at :: "jvalue \<Rightarrow> nat \<Rightarrow> jvalue result" where
  "value_at (JArray xs) i = Inr (if i < length xs then xs ! i else JNull)"
| "value_at _ i = Inl (Runtime_error ''is<array>()'')"

fun value_get :: "jvalue \<Rightarrow> string \<Rightarrow> jvalue result" where
  "value_get (JObject m) k = Inr (case om_find m k of Some v \<Rightarrow> v | None \<Rightarrow> JNull)"
| "value_get _ k = Inl (Runtime_error ''is<object>()'')"

fun contains_index :: "jvalue \<Rightarrow> nat \<Rightarrow> bool result" where
  "contains_index (JArray xs) i = Inr (i < length xs)"
| "contains_index _ i = Inl (Runtime_error ''is<array>()'')"

fun contains_key :: "jvalue \<Rightarrow> string \<Rightarrow> bool result" where
  "contains_key (JObject m) k = Inr (om_find m k \<noteq> None)"
| "contains_key _ k = Inl (Runtime_error ''is<object>()'')"

fun to_str :: "jvalue \<Rightarrow> string" where
  "to_str JNull = ''null''"
| "to_str (JBool b) = (if b then ''true'' else ''false'')"
| "to_str (JNumber x) = double_str x"
| "to_str (JString s) = s"
| "to_str (JArray xs) = ''array''"
| "to_str (JObject m) = ''object''"

section \<open>Equality\<close>

text \<open>
  \<open>operator==\<close>: vectors and maps compare element by element; numbers compare as doubles, so the
  two zeros are equal.
\<close>

fun value_eq :: "jvalue \<Rightarrow> jvalue \<Rightarrow> bool"
  and values_eq :: "jvalue list \<Rightarrow> jvalue list \<Rightarrow> bool"
  and members_eq :: "(string \<times> jvalue) list \<Rightarrow> (string \<times> jvalue) list \<Rightarrow> bool" where
  "value_eq JNull y \<longleftrightarrow> y = JNull"
| "value_eq (JBool b) y \<longleftrightarrow> y = JBool b"
| "value_eq (JNumber x) y \<longleftrightarrow> (case y of JNumber x' \<Rightarrow> double_eq x x' | _ \<Rightarrow> False)"
| "value_eq (JString s) y \<longleftrightarrow> y = JString s"
| "value_eq (JArray xs) y \<longleftrightarrow> (case y of JArray ys \<Rightarrow> values_eq xs ys | _ \<Rightarrow> False)"
| "value_eq (JObject m) y \<longleftrightarrow> (case y of JObject m' \<Rightarrow> members_eq m m' | _ \<Rightarrow> False)"
| "values_eq [] ys \<longleftrightarrow> ys = []"
| "values_eq (x # xs) ys \<longleftrightarrow> (case ys of [] \<Rightarrow> False | y # ys' \<Rightarrow> value_eq x y \<and> values_eq xs ys')"
| "members_eq [] m' \<longleftrightarrow> m' = []"
| "members_eq ((k, x) # m) m' \<longleftrightarrow>
     (case m' of [] \<Rightarrow> False | (k', y) # m'' \<Rightarrow> k = k' \<and> value_eq x y \<and> members_eq m m'')"

lemma double_eq_refl: "is_finite x \<Longrightarrow> double_eq x x"
  by (cases x) auto

lemma double_eq_sym: "double_eq x y \<longleftrightarrow> double_eq y x"
  by (induction x y rule: double_eq.induct) auto

lemma double_eq_trans: "double_eq x y \<Longrightarrow> double_eq y z \<Longrightarrow> double_eq x z"
  by (cases x; cases y; cases z) auto

lemma values_eq_self: "values_eq xs xs \<longleftrightarrow> (\<forall>x \<in> set xs. value_eq x x)"
  by (induction xs) auto

lemma members_eq_self: "members_eq m m \<longleftrightarrow> (\<forall>x \<in> set m. value_eq (snd x) (snd x))"
  by (induction m) auto

lemma value_eq_refl: "json_wf v \<Longrightarrow> value_eq v v"
proof (induction v)
  case (JObject m)
  then show ?case by (force simp: members_eq_self)
qed (auto simp: values_eq_self double_eq_refl)

lemma value_eq_sym_aux:
  "value_eq x y \<Longrightarrow> value_eq y x"
  "values_eq xs ys \<Longrightarrow> values_eq ys xs"
  "members_eq m m' \<Longrightarrow> members_eq m' m"
  by (induction x y and xs ys and m m' rule: value_eq_values_eq_members_eq.induct)
    (auto simp: double_eq_sym split: jvalue.splits list.splits)

lemma value_eq_sym: "value_eq x y \<longleftrightarrow> value_eq y x"
  using value_eq_sym_aux(1) by blast

lemma value_eq_trans_aux:
  "value_eq x y \<Longrightarrow> value_eq y z \<Longrightarrow> value_eq x z"
  "values_eq xs ys \<Longrightarrow> values_eq ys zs \<Longrightarrow> values_eq xs zs"
  "members_eq m m' \<Longrightarrow> members_eq m' m'' \<Longrightarrow> members_eq m m''"
  by (induction x y and xs ys and m m' arbitrary: z and zs and m''
      rule: value_eq_values_eq_members_eq.induct)
    (auto dest: double_eq_trans split: jvalue.splits list.splits)

lemma value_eq_trans: "value_eq x y \<Longrightarrow> value_eq y z \<Longrightarrow> value_eq x z"
  by (rule value_eq_trans_aux)

end
