(* ===== verification/Json_Serialize.thy ===== *)
theory Json_Serialize
  imports Json_Value
begin

text \<open>
  \<open>picojson::value::serialize\<close>: the text of a value, compact (\<open>indent = -1\<close>) or pretty-printed.
  The output iterator is the string that is returned.
\<close>

section \<open>Strings\<close>

definition hex_digit :: "nat \<Rightarrow> char" where
  "hex_digit d = char_of (if d < 10 then 48 + d else 87 + d)"

text \<open>\<open>serialize_str_char\<close>: quotes, backslash, slash and control characters are escaped.\<close>

definition serialize_str_char :: "char \<Rightarrow> string" where
  "serialize_str_char c =
     (if c = CHR 0x22 then [CHR 0x5C, CHR 0x22]
      else if c = CHR 0x5C then [CHR 0x5C, CHR 0x5C]
      else if c = CHR ''/'' then [CHR 0x5C, CHR ''/'']
      else if c = CHR 0x08 then [CHR 0x5C, CHR ''b'']
      else if c = CHR 0x0C then [CHR 0x5C, CHR ''f'']
      else if c = CHR 0x0A then [CHR 0x5C, CHR ''n'']
      else if c = CHR 0x0D then [CHR 0x5C, CHR ''r'']
      else if c = CHR 0x09 then [CHR 0x5C, CHR ''t'']
      else if of_char c < (0x20::nat) \<or> c = CHR 0x7F
      then [CHR 0x5C, CHR ''u'', CHR ''0'', CHR ''0'', hex_digit (of_char c div 16), hex_digit (of_char c mod 16)]
      else [c])"

definition serialize_str :: "string \<Rightarrow> string" where
  "serialize_str s = [CHR 0x22] @ concat (map serialize_str_char s) @ [CHR 0x22]"

section \<open>Values\<close>

definition indent_width :: int where
  "indent_width = 2"

text \<open>\<open>_indent\<close>: a line break and the spaces of the nesting level.\<close>

definition indent_str :: "int \<Rightarrow> string" where
  "indent_str indent = CHR 0x0A # replicate (nat (indent * indent_width)) (CHR '' '')"

definition inner_indent :: "int \<Rightarrow> int" where
  "inner_indent indent = (if indent \<noteq> -1 then indent + 1 else indent)"

definition line_end :: "int \<Rightarrow> string" where
  "line_end indent = (if indent = 0 then [CHR 0x0A] else [])"

text \<open>
  \<open>_serialize\<close>; the loops over the elements of an array and the members of an object say whether
  they are at the first one.
\<close>

fun serialize_at :: "int \<Rightarrow> jvalue \<Rightarrow> string"
  and serialize_items :: "int \<Rightarrow> bool \<Rightarrow> jvalue list \<Rightarrow> string"
  and serialize_members :: "int \<Rightarrow> bool \<Rightarrow> (string \<times> jvalue) list \<Rightarrow> string" where
  "serialize_at indent (JString s) = serialize_str s @ line_end indent"
| "serialize_at indent (JArray xs) =
     [CHR ''[''] @ serialize_items (inner_indent indent) True xs @
     (if indent \<noteq> -1 \<and> xs \<noteq> [] then indent_str indent else []) @ [CHR '']''] @ line_end indent"
| "serialize_at indent (JObject m) =
     [CHR ''{''] @ serialize_members (inner_indent indent) True m @
     (if indent \<noteq> -1 \<and> m \<noteq> [] then indent_str indent else []) @ [CHR ''}''] @ line_end indent"
| "serialize_at indent v = to_str v @ line_end indent"
| "serialize_items indent fst_item [] = []"
| "serialize_items indent fst_item (x # xs) =
     (if fst_item then [] else [CHR '','']) @ (if indent \<noteq> -1 then indent_str indent else []) @
     serialize_at indent x @ serialize_items indent False xs"
| "serialize_members indent fst_item [] = []"
| "serialize_members indent fst_item ((k, x) # m) =
     (if fst_item then [] else [CHR '','']) @ (if indent \<noteq> -1 then indent_str indent else []) @
     serialize_str k @ [CHR '':''] @ (if indent \<noteq> -1 then [CHR '' ''] else []) @
     serialize_at indent x @ serialize_members indent False m"

definition serialize :: "bool \<Rightarrow> jvalue \<Rightarrow> string" where
  "serialize prettify v = serialize_at (if prettify then 0 else -1) v"

end
