(* ===== verification/Json_Parse.thy ===== *)
theory Json_Parse
  imports Json_Value
begin

unbundle bit_operations_syntax

text \<open>
  \<open>picojson::parse\<close>: the character source \<open>input\<close> with its one-character pushback, the scanners
  for strings, code points and numbers, and the recursive descent parser with the default
  context, which builds the value in place. Every parsing function returns what it has built so
  far together with its success flag, because the code leaves that partial value in its output
  argument when it fails. The parser is defined with fuel; the lemmas show that
  \<open>parse_fuel\<close> is always enough. \<open>int\<close> characters are \<open>char option\<close>, \<open>None\<close> being the end of input (-1).
\<close>

section \<open>The character source\<close>

record input =
  cur :: string
  consumed :: bool
  line :: nat

definition input_of :: "string \<Rightarrow> input" where
  "input_of s = \<lparr>cur = s, consumed = False, line = 1\<rparr>"

definition getc :: "input \<Rightarrow> char option \<times> input" where
  "getc i =
     (let i1 = (if consumed i
                then i\<lparr>line := (if take 1 (cur i) = [CHR 0x0A] then line i + 1 else line i),
                       cur := tl (cur i)\<rparr>
                else i)
      in case cur i1 of
           [] \<Rightarrow> (None, i1\<lparr>consumed := False\<rparr>)
         | c # _ \<Rightarrow> (Some c, i1\<lparr>consumed := True\<rparr>))"

definition ungetc :: "input \<Rightarrow> input" where
  "ungetc i = i\<lparr>consumed := False\<rparr>"

text \<open>\<open>cur()\<close>: the position reached.\<close>

definition input_pos :: "input \<Rightarrow> string" where
  "input_pos i = (if consumed i then tl (cur i) else cur i)"

text \<open>The characters that \<open>getc\<close> will still deliver.\<close>

definition view :: "input \<Rightarrow> string" where
  "view i = (if consumed i then tl (cur i) else cur i)"

definition adv :: "input \<Rightarrow> input" where
  "adv i = snd (getc i)"

lemma getc_view: "getc i = (case view i of [] \<Rightarrow> None | c # _ \<Rightarrow> Some c, adv i)"
  by (auto simp: getc_def view_def adv_def Let_def split: list.splits)

lemma view_adv [simp]: "view (adv i) = tl (view i)"
  by (auto simp: getc_def view_def adv_def Let_def split: list.splits)

lemma view_ungetc_adv [simp]: "view (ungetc (adv i)) = view i"
  by (auto simp: getc_def view_def adv_def ungetc_def Let_def split: list.splits)

lemma view_input_of [simp]: "view (input_of s) = s"
  by (simp add: view_def input_of_def)

lemma input_pos_view: "input_pos i = view i"
  by (simp add: input_pos_def view_def)

section \<open>White space and literals\<close>

definition is_ws :: "char \<Rightarrow> bool" where
  "is_ws c \<longleftrightarrow> c = CHR '' '' \<or> c = CHR 0x09 \<or> c = CHR 0x0A \<or> c = CHR 0x0D"

function skip_ws :: "input \<Rightarrow> input" where
  "skip_ws i =
     (case getc i of
        (Some c, i') \<Rightarrow> if is_ws c then skip_ws i' else ungetc i'
      | (None, i') \<Rightarrow> ungetc i')"
  by pat_completeness auto
termination
  by (relation "measure (\<lambda>i. length (view i))") (auto simp: getc_view split: list.splits)

declare skip_ws.simps [simp del]

definition expect :: "char \<Rightarrow> input \<Rightarrow> bool \<times> input" where
  "expect expected i =
     (let i0 = skip_ws i; (ch, i1) = getc i0
      in if ch \<noteq> Some expected then (False, ungetc i1) else (True, i1))"

fun match_lit :: "string \<Rightarrow> input \<Rightarrow> bool \<times> input" where
  "match_lit [] i = (True, i)"
| "match_lit (p # ps) i =
     (let (ch, i1) = getc i in if ch \<noteq> Some p then (False, ungetc i1) else match_lit ps i1)"

section \<open>Strings\<close>

definition hex_val :: "char \<Rightarrow> nat option" where
  "hex_val c =
     (let n = of_char c
      in if 48 \<le> n \<and> n \<le> 57 then Some (n - 48)
         else if 65 \<le> n \<and> n \<le> 70 then Some (n - 55)
         else if 97 \<le> n \<and> n \<le> 102 then Some (n - 87)
         else None)"

text \<open>\<open>_parse_quadhex\<close>: \<open>k\<close> more hexadecimal digits; \<open>None\<close> is the result -1.\<close>

fun parse_hex :: "nat \<Rightarrow> nat \<Rightarrow> input \<Rightarrow> nat option \<times> input" where
  "parse_hex 0 uni_ch i = (Some uni_ch, i)"
| "parse_hex (Suc k) uni_ch i =
     (case getc i of
        (None, i1) \<Rightarrow> (None, i1)
      | (Some c, i1) \<Rightarrow>
          (case hex_val c of
             None \<Rightarrow> (None, ungetc i1)
           | Some h \<Rightarrow> parse_hex k (uni_ch * 16 + h) i1))"

definition parse_quadhex :: "input \<Rightarrow> nat option \<times> input" where
  "parse_quadhex i = parse_hex 4 0 i"

text \<open>The UTF-8 bytes of a code point, as the code assembles them.\<close>

definition utf8_bytes :: "nat \<Rightarrow> string" where
  "utf8_bytes u =
     (if u < 0x80 then [char_of u]
      else (if u < 0x800 then [char_of (0xc0 OR drop_bit 6 u)]
            else (if u < 0x10000 then [char_of (0xe0 OR drop_bit 12 u)]
                  else [char_of (0xf0 OR drop_bit 18 u), char_of (0x80 OR (drop_bit 12 u AND 0x3f))]) @
                 [char_of (0x80 OR (drop_bit 6 u AND 0x3f))]) @
           [char_of (0x80 OR (u AND 0x3f))])"

definition parse_codepoint :: "string \<Rightarrow> input \<Rightarrow> bool \<times> string \<times> input" where
  "parse_codepoint out i =
     (case parse_quadhex i of
        (None, i1) \<Rightarrow> (False, out, i1)
      | (Some u, i1) \<Rightarrow>
          if 0xd800 \<le> u \<and> u \<le> 0xdfff
          then if 0xdc00 \<le> u then (False, out, i1)
               else let (c1, i2) = getc i1
                    in if c1 \<noteq> Some (CHR 0x5C) then (False, out, ungetc i2)
                       else let (c2, i3) = getc i2
                            in if c2 \<noteq> Some (CHR ''u'') then (False, out, ungetc i3)
                               else (case parse_quadhex i3 of
                                       (None, i4) \<Rightarrow> (False, out, i4)
                                     | (Some second, i4) \<Rightarrow>
                                         if \<not> (0xdc00 \<le> second \<and> second \<le> 0xdfff) then (False, out, i4)
                                         else (True,
                                               out @ utf8_bytes
                                                 ((push_bit 10 (u - 0xd800) OR ((second - 0xdc00) AND 0x3ff)) + 0x10000),
                                               i4))
          else (True, out @ utf8_bytes u, i1))"

definition escape_val :: "char \<Rightarrow> char option" where
  "escape_val c =
     (if c = CHR 0x22 then Some (CHR 0x22)
      else if c = CHR 0x5C then Some (CHR 0x5C)
      else if c = CHR ''/'' then Some (CHR ''/'')
      else if c = CHR ''b'' then Some (CHR 0x08)
      else if c = CHR ''f'' then Some (CHR 0x0C)
      else if c = CHR ''n'' then Some (CHR 0x0A)
      else if c = CHR ''r'' then Some (CHR 0x0D)
      else if c = CHR ''t'' then Some (CHR 0x09)
      else None)"

lemma length_view_parse_hex: "length (view (snd (parse_hex k u i))) \<le> length (view i)"
proof (induction k arbitrary: u i)
  case 0
  show ?case by simp
next
  case (Suc k)
  have "length (view (snd (parse_hex k u (adv i)))) \<le> length (view (adv i))" for u
    by (rule Suc.IH)
  then show ?case
    by (auto simp: getc_view intro: le_SucI split: list.splits option.splits)
qed

lemma length_view_parse_codepoint: "length (view (snd (snd (parse_codepoint out i)))) \<le> length (view i)"
proof -
  have *: "parse_quadhex i = (r, i') \<Longrightarrow> length (view i') \<le> length (view i)" for i i' :: input and r
    using length_view_parse_hex [of 4 0 i] by (simp add: parse_quadhex_def)
  show ?thesis
    by (auto simp: parse_codepoint_def getc_view Let_def split: option.splits prod.splits list.splits
        dest!: *)
qed

lemma parse_codepoint_length:
  "(b, out', i') = parse_codepoint out i \<Longrightarrow> length (view i') \<le> length (view i)"
  "parse_codepoint out i = (b, out', i') \<Longrightarrow> length (view i') \<le> length (view i)"
  using length_view_parse_codepoint [of out i] by (metis snd_conv)+

text \<open>\<open>_parse_string\<close>, after the opening quote.\<close>

function parse_string :: "string \<Rightarrow> input \<Rightarrow> bool \<times> string \<times> input" where
  "parse_string out i =
     (case getc i of
        (None, i1) \<Rightarrow> (False, out, ungetc i1)
      | (Some ch, i1) \<Rightarrow>
          if of_char ch < (0x20::nat) then (False, out, ungetc i1)
          else if ch = CHR 0x22 then (True, out, i1)
          else if ch = CHR 0x5C
          then (case getc i1 of
                  (None, i2) \<Rightarrow> (False, out, i2)
                | (Some e, i2) \<Rightarrow>
                    (case escape_val e of
                       Some c \<Rightarrow> parse_string (out @ [c]) i2
                     | None \<Rightarrow>
                         if e = CHR ''u''
                         then (case parse_codepoint out i2 of
                                 (False, out', i3) \<Rightarrow> (False, out', i3)
                               | (True, out', i3) \<Rightarrow> parse_string out' i3)
                         else (False, out, i2)))
          else parse_string (out @ [ch]) i1)"
  by pat_completeness auto
termination
  by (relation "measure (\<lambda>(out, i). length (view i))")
    (auto simp: getc_view split: list.splits dest!: parse_codepoint_length)

declare parse_string.simps [simp del]

section \<open>Numbers\<close>

text \<open>
  \<open>_parse_number\<close> collects the characters of a number; \<open>localeconv()->decimal_point\<close> is the
  full stop of the "C" locale.
\<close>

definition decimal_point :: string where
  "decimal_point = ''.''"

function parse_number :: "string \<Rightarrow> input \<Rightarrow> string \<times> input" where
  "parse_number num_str i =
     (case getc i of
        (Some ch, i1) \<Rightarrow>
          if is_digit ch \<or> ch = CHR ''+'' \<or> ch = CHR ''-'' \<or> ch = CHR ''e'' \<or> ch = CHR ''E''
          then parse_number (num_str @ [ch]) i1
          else if ch = CHR ''.'' then parse_number (num_str @ decimal_point) i1
          else (num_str, ungetc i1)
      | (None, i1) \<Rightarrow> (num_str, ungetc i1))"
  by pat_completeness auto
termination
  by (relation "measure (\<lambda>(s, i). length (view i))") (auto simp: getc_view split: list.splits)

declare parse_number.simps [simp del]

section \<open>Values\<close>

text \<open>
  The result of parsing in place: an exception, or the success flag, the value left in the output
  argument and the rest of the input. \<open>None\<close> means that the fuel ran out.
\<close>

type_synonym parsed = "(bool \<times> jvalue \<times> input) result option"

definition returns :: "bool \<Rightarrow> jvalue \<Rightarrow> input \<Rightarrow> parsed" where
  "returns b v i = Some (Inr (b, v, i))"

text \<open>The literals \<open>null\<close>, \<open>false\<close>, \<open>true\<close> after their first letter.\<close>

definition parse_literal :: "string \<Rightarrow> jvalue \<Rightarrow> jvalue \<Rightarrow> input \<Rightarrow> parsed" where
  "parse_literal txt v out i =
     (case match_lit txt i of (b, i1) \<Rightarrow> returns b (if b then v else out) i1)"

text \<open>The number branch of \<open>_parse\<close>; \<open>set_number\<close> raises on an overflow.\<close>

definition parse_double :: "jvalue \<Rightarrow> input \<Rightarrow> parsed" where
  "parse_double out i =
     (let (num_str, i1) = parse_number [] i
      in if num_str = [] then returns False out i1
         else let (f, endp) = strtod num_str
              in if endp = []
                 then (case value_of_double f of Inl e \<Rightarrow> Some (Inl e) | Inr v \<Rightarrow> returns True v i1)
                 else returns False out i1)"

text \<open>
  \<open>_parse\<close>, \<open>_parse_array\<close> and \<open>_parse_object\<close> with the default context. The last two functions
  are the \<open>do\<close> loops: one item, then another one after a comma. An item of an array is parsed into
  a null appended to it, a member of an object into the value already stored under its key
  (\<open>o[key]\<close>), or into a null.
\<close>

fun parse_value :: "nat \<Rightarrow> jvalue \<Rightarrow> input \<Rightarrow> parsed"
  and parse_items :: "nat \<Rightarrow> jvalue list \<Rightarrow> input \<Rightarrow> parsed"
  and parse_members :: "nat \<Rightarrow> jobject \<Rightarrow> input \<Rightarrow> parsed" where
  "parse_value 0 out i = None"
| "parse_value (Suc n) out i =
     (case getc (skip_ws i) of
        (None, i1) \<Rightarrow> returns False out (ungetc i1)
      | (Some ch, i1) \<Rightarrow>
          if ch = CHR ''n'' then parse_literal ''ull'' JNull out i1
          else if ch = CHR ''f'' then parse_literal ''alse'' (JBool False) out i1
          else if ch = CHR ''t'' then parse_literal ''rue'' (JBool True) out i1
          else if ch = CHR 0x22 then (case parse_string [] i1 of (b, s, i2) \<Rightarrow> returns b (JString s) i2)
          else if ch = CHR ''[''
          then (case expect (CHR '']'') i1 of
                  (True, i2) \<Rightarrow> returns True (JArray []) i2
                | (False, i2) \<Rightarrow> parse_items n [] i2)
          else if ch = CHR ''{''
          then (case expect (CHR ''}'') i1 of
                  (True, i2) \<Rightarrow> returns True (JObject []) i2
                | (False, i2) \<Rightarrow> parse_members n [] i2)
          else if is_digit ch \<or> ch = CHR ''-'' then parse_double out (ungetc i1)
          else returns False out (ungetc i1))"
| "parse_items 0 a i = None"
| "parse_items (Suc n) a i =
     (case parse_value n JNull i of
        None \<Rightarrow> None
      | Some (Inl e) \<Rightarrow> Some (Inl e)
      | Some (Inr (False, v, i1)) \<Rightarrow> returns False (JArray (a @ [v])) i1
      | Some (Inr (True, v, i1)) \<Rightarrow>
          (case expect (CHR '','') i1 of
             (True, i2) \<Rightarrow> parse_items n (a @ [v]) i2
           | (False, i2) \<Rightarrow>
               (case expect (CHR '']'') i2 of (b, i3) \<Rightarrow> returns b (JArray (a @ [v])) i3)))"
| "parse_members 0 m i = None"
| "parse_members (Suc n) m i =
     (case expect (CHR 0x22) i of
        (False, i1) \<Rightarrow> returns False (JObject m) i1
      | (True, i1) \<Rightarrow>
          (case parse_string [] i1 of
             (False, key, i2) \<Rightarrow> returns False (JObject m) i2
           | (True, key, i2) \<Rightarrow>
               (case expect (CHR '':'') i2 of
                  (False, i3) \<Rightarrow> returns False (JObject m) i3
                | (True, i3) \<Rightarrow>
                    (case parse_value n (case om_find m key of Some v \<Rightarrow> v | None \<Rightarrow> JNull) i3 of
                       None \<Rightarrow> None
                     | Some (Inl e) \<Rightarrow> Some (Inl e)
                     | Some (Inr (False, v, i4)) \<Rightarrow> returns False (JObject (om_set key v m)) i4
                     | Some (Inr (True, v, i4)) \<Rightarrow>
                         (case expect (CHR '','') i4 of
                            (True, i5) \<Rightarrow> parse_members n (om_set key v m) i5
                          | (False, i5) \<Rightarrow>
                              (case expect (CHR ''}'') i5 of
                                 (b, i6) \<Rightarrow> returns b (JObject (om_set key v m)) i6))))))"

section \<open>The whole text\<close>

text \<open>The rest of the line in an error message, without control characters.\<close>

function error_tail :: "string \<Rightarrow> input \<Rightarrow> string \<times> input" where
  "error_tail err i =
     (case getc i of
        (None, i1) \<Rightarrow> (err, i1)
      | (Some ch, i1) \<Rightarrow>
          if ch = CHR 0x0A then (err, i1)
          else if (0x20::nat) \<le> of_char ch then error_tail (err @ [ch]) i1
          else error_tail err i1)"
  by pat_completeness auto
termination
  by (relation "measure (\<lambda>(s, i). length (view i))") (auto simp: getc_view split: list.splits)

declare error_tail.simps [simp del]

definition error_head :: "nat \<Rightarrow> string" where
  "error_head l = ''syntax error at line '' @ dec_string l @ '' near: ''"

definition parse_fuel :: "string \<Rightarrow> nat" where
  "parse_fuel s = 2 * length s + 1"

text \<open>
  \<open>parse(value &out, first, last, err)\<close>: the value left in \<open>out\<close>, the error text (empty on
  success) and the text from the returned iterator on.
\<close>

definition parse_at :: "jvalue \<Rightarrow> string \<Rightarrow> (jvalue \<times> string \<times> string) result option" where
  "parse_at out s =
     (case parse_value (parse_fuel s) out (input_of s) of
        None \<Rightarrow> None
      | Some (Inl e) \<Rightarrow> Some (Inl e)
      | Some (Inr (True, v, i)) \<Rightarrow> Some (Inr (v, [], input_pos i))
      | Some (Inr (False, v, i)) \<Rightarrow>
          (case error_tail (error_head (line i)) i of (err, i') \<Rightarrow> Some (Inr (v, err, input_pos i'))))"

text \<open>\<open>parse(value &out, const std::string &s)\<close>: the position is dropped.\<close>

definition parse :: "jvalue \<Rightarrow> string \<Rightarrow> (jvalue \<times> string) result" where
  "parse out s =
     (case parse_at out s of
        Some (Inr (v, err, rest)) \<Rightarrow> Inr (v, err)
      | Some (Inl e) \<Rightarrow> Inl e
      | None \<Rightarrow> Inl (Undefined_behaviour ''out of fuel''))"

section \<open>Consumption and fuel\<close>

lemma view_skip_ws: "view (skip_ws i) = dropWhile is_ws (view i)"
proof (induction i rule: skip_ws.induct)
  case (1 i)
  then show ?case
    by (subst skip_ws.simps) (auto simp: getc_view split: list.splits)
qed

lemma expect_view:
  "fst (expect c i) \<longleftrightarrow> (\<exists>s. dropWhile is_ws (view i) = c # s)"
  "view (snd (expect c i)) =
     (if fst (expect c i) then tl (dropWhile is_ws (view i)) else dropWhile is_ws (view i))"
  by (cases "dropWhile is_ws (view i)";
      auto simp: expect_def Let_def getc_view view_skip_ws simp del: dropWhile_eq_Nil_conv)+

lemma expect_length:
  "expect c i = (True, i') \<Longrightarrow> length (view i') < length (view i)"
  "expect c i = (b, i') \<Longrightarrow> length (view i') \<le> length (view i)"
proof -
  have len: "length (dropWhile is_ws (view i)) \<le> length (view i)"
    by (rule length_dropWhile_le)
  show "length (view i') < length (view i)" if "expect c i = (True, i')"
  proof -
    have "fst (expect c i)"
      using that by simp
    then obtain s where s: "dropWhile is_ws (view i) = c # s"
      unfolding expect_view(1) by blast
    then have "view i' = s"
      using that expect_view(2) [of c i] by simp
    then show ?thesis using len s by simp
  qed
  show "length (view i') \<le> length (view i)" if "expect c i = (b, i')"
    using that expect_view(2) [of c i] len by (auto split: if_splits)
qed

lemma match_lit_length: "length (view (snd (match_lit p i))) \<le> length (view i)"
proof (induction p arbitrary: i)
  case (Cons c p)
  have "length (view (snd (match_lit p (adv i)))) \<le> length (view (adv i))"
    by (rule Cons.IH)
  then show ?case by (auto simp: getc_view Let_def)
qed simp

lemma parse_string_length: "parse_string out i = (b, s, i') \<Longrightarrow> length (view i') \<le> length (view i)"
proof (induction "length (view i)" arbitrary: out i rule: less_induct)
  case less
  from less.prems show ?case
    by (subst (asm) parse_string.simps)
      (auto simp: getc_view split: list.splits if_splits option.splits prod.splits bool.splits
        dest!: less.hyps [rotated] parse_codepoint_length(2))
qed

lemma parse_number_length: "length (view (snd (parse_number s i))) \<le> length (view i)"
proof (induction s i rule: parse_number.induct)
  case (1 s i)
  then show ?case
    by (subst parse_number.simps) (auto simp: getc_view intro: le_SucI split: list.splits)
qed

lemma match_lit_consumes: "match_lit p i = (b, i') \<Longrightarrow> length (view i') \<le> length (view i)"
  using match_lit_length [of p i] by simp

lemma parse_number_consumes: "parse_number s i = (t, i') \<Longrightarrow> length (view i') \<le> length (view i)"
  using parse_number_length [of s i] by simp

lemma parse_double_consumes:
  "parse_double out i = Some (Inr (b, v, i')) \<Longrightarrow> length (view i') \<le> length (view i)"
  by (auto simp: parse_double_def returns_def Let_def split: if_splits sum.splits prod.splits
      dest: parse_number_consumes)

lemma parse_literal_consumes:
  "parse_literal t w out i = Some (Inr (b, v, i')) \<Longrightarrow> length (view i') \<le> length (view i)"
  by (auto simp: parse_literal_def returns_def split: prod.splits dest: match_lit_consumes)

lemmas consumes = expect_length parse_string_length parse_double_consumes parse_literal_consumes

text \<open>One step of looking at the next character after white space.\<close>

lemma getc_skip_ws:
  "getc (skip_ws i) =
     (case dropWhile is_ws (view i) of [] \<Rightarrow> None | c # _ \<Rightarrow> Some c, adv (skip_ws i))"
  "view (adv (skip_ws i)) = tl (dropWhile is_ws (view i))"
  by (simp_all add: getc_view view_skip_ws)

lemma getc_skip_ws_consumes:
  "getc (skip_ws i) = (Some c, i1) \<Longrightarrow> length (view i1) < length (view i)"
  "getc (skip_ws i) = (ch, i1) \<Longrightarrow> length (view (ungetc i1)) \<le> length (view i)"
  using length_dropWhile_le [of is_ws "view i"]
  by (cases "dropWhile is_ws (view i)"; auto simp: getc_skip_ws view_skip_ws simp del: dropWhile_eq_Nil_conv)+

lemma parse_consumes:
  "parse_value n out i = Some (Inr (b, v, i')) \<Longrightarrow> length (view i') \<le> length (view i)"
  "parse_items n a i = Some (Inr (b, v, i')) \<Longrightarrow> length (view i') \<le> length (view i)"
  "parse_members n m i = Some (Inr (b, v, i')) \<Longrightarrow> length (view i') \<le> length (view i)"
proof (induction n arbitrary: out a m i b v i')
  case (Suc n)
  { case 1
    obtain ch i1 where g: "getc (skip_ws i) = (ch, i1)" by fastforce
    note un = getc_skip_ws_consumes(2) [OF g]
    show ?case
    proof (cases ch)
      case None
      with 1 g un show ?thesis by (auto simp: returns_def)
    next
      case (Some c)
      have lt: "length (view i1) < length (view i)"
        using getc_skip_ws_consumes(1) g Some by blast
      from 1 lt un show ?thesis
        unfolding parse_value.simps g Some prod.case option.case
        by (simp add: returns_def split: if_splits prod.splits bool.splits)
          (drule consumes Suc.IH; (drule consumes Suc.IH)?; linarith)+
    qed
  next
    case 2
    then show ?case
      by (auto simp: returns_def split: option.splits sum.splits prod.splits bool.splits
          dest!: consumes Suc.IH)
  next
    case 3
    then show ?case
      by (auto simp: returns_def split: option.splits sum.splits prod.splits bool.splits
          dest!: consumes Suc.IH)
  }
qed auto

section \<open>Enough fuel\<close>

lemma returns_not_None [simp]: "returns b v i \<noteq> None"
  by (simp add: returns_def)

lemma parse_literal_not_None [simp]: "parse_literal t v out i \<noteq> None"
  by (auto simp: parse_literal_def returns_def split: prod.splits)

lemma parse_double_not_None [simp]: "parse_double out i \<noteq> None"
  by (simp add: parse_double_def returns_def Let_def split: prod.splits sum.splits)

lemma parse_enough_fuel:
  "2 * length (view i) + 1 \<le> n \<Longrightarrow> parse_value n out i \<noteq> None"
  "2 * length (view i) + 2 \<le> n \<Longrightarrow> parse_items n a i \<noteq> None"
  "2 * length (view i) + 2 \<le> n \<Longrightarrow> parse_members n m i \<noteq> None"
proof (induction n arbitrary: out a m i)
  case (Suc n)
  { case 1
    obtain ch i1 where g: "getc (skip_ws i) = (ch, i1)" by fastforce
    show ?case
    proof (cases ch)
      case None
      with g show ?thesis by simp
    next
      case (Some c)
      have lt: "length (view i1) < length (view i)"
        using getc_skip_ws_consumes(1) g Some by blast
      have rec: "parse_items n [] i2 \<noteq> None" "parse_members n [] i2 \<noteq> None"
        if "expect x i1 = (False, i2)" for x i2
        using expect_length(2) [OF that] lt 1 by (intro Suc.IH; linarith)+
      show ?thesis
      proof
        assume "parse_value (Suc n) out i = None"
        then show False
          unfolding parse_value.simps g Some prod.case option.case
          by (auto split: if_splits prod.splits bool.splits dest: rec)
      qed
    qed
  next
    case 2
    have v: "parse_value n JNull i \<noteq> None"
      using 2 by (intro Suc.IH) simp
    have rec: "parse_items n a' i2 \<noteq> None"
      if "parse_value n JNull i = Some (Inr (b, v, i1))" "expect x i1 = (True, i2)" for a' b v i1 i2 x
      using parse_consumes(1) [OF that(1)] expect_length(1) [OF that(2)] 2
      by (intro Suc.IH) linarith
    show ?case
    proof
      assume "parse_items (Suc n) a i = None"
      then show False
        using v by (auto split: option.splits sum.splits prod.splits bool.splits dest: rec)
    qed
  next
    case 3
    have v: "parse_value n w i3 \<noteq> None"
      if "expect x i = (True, i1)" "parse_string [] i1 = (True, key, i2)" "expect y i2 = (True, i3)"
      for x y i1 i2 i3 key w
      using expect_length(1) [OF that(1)] parse_string_length [OF that(2)] expect_length(1) [OF that(3)] 3
      by (intro Suc.IH) linarith
    have rec: "parse_members n m' i5 \<noteq> None"
      if "expect x i = (True, i1)" "parse_string [] i1 = (True, key, i2)" "expect y i2 = (True, i3)"
        "parse_value n w i3 = Some (Inr (b, u, i4))" "expect z i4 = (True, i5)"
      for x y z i1 i2 i3 i4 i5 key w b u m'
      using expect_length(1) [OF that(1)] parse_string_length [OF that(2)] expect_length(1) [OF that(3)]
        parse_consumes(1) [OF that(4)] expect_length(1) [OF that(5)] 3
      by (intro Suc.IH) linarith
    show ?case
    proof
      assume "parse_members (Suc n) m i = None"
      then show False
        by (auto split: option.splits sum.splits prod.splits bool.splits dest: v rec)
    qed
  }
qed auto

lemma parse_at_not_None: "parse_at out s \<noteq> None"
  using parse_enough_fuel(1) [of "input_of s" "parse_fuel s" out]
  by (auto simp: parse_at_def parse_fuel_def split: option.splits sum.splits prod.splits bool.splits)

section \<open>What the parser builds\<close>

lemma parse_literal_wf:
  "parse_literal t w out i = Some (Inr (b, v, i')) \<Longrightarrow> json_wf w \<Longrightarrow> json_wf out \<Longrightarrow> json_wf v"
  by (auto simp: parse_literal_def returns_def split: prod.splits if_splits)

lemma parse_double_wf:
  assumes "parse_double out i = Some (Inr (b, v, i'))" "json_wf out"
  shows "json_wf v"
proof -
  have "double_wf f" if "strtod s = (f, r)" for s f r
    using strtod_wf [of s] that by simp
  then show ?thesis
    using assms
    by (auto simp: parse_double_def returns_def value_of_double_def Let_def
        split: prod.splits sum.splits if_splits)
qed

lemma json_wf_om_set: "json_wf (JObject m) \<Longrightarrow> json_wf v \<Longrightarrow> json_wf (JObject (om_set k v m))"
  using set_om_set [of k v m] by fastforce

lemma om_find_json_wf: "om_find m k = Some v \<Longrightarrow> \<forall>x \<in> set m. json_wf (snd x) \<Longrightarrow> json_wf v"
  by (auto dest!: om_find_in_set)

lemma parse_wf:
  "parse_value n out i = Some (Inr (b, v, i')) \<Longrightarrow> json_wf out \<Longrightarrow> json_wf v"
  "parse_items n a i = Some (Inr (b, v, i')) \<Longrightarrow> json_wf (JArray a) \<Longrightarrow> json_wf v"
  "parse_members n m i = Some (Inr (b, v, i')) \<Longrightarrow> json_wf (JObject m) \<Longrightarrow> json_wf v"
proof (induction n arbitrary: out a m i b v i')
  case (Suc n)
  { case 1
    obtain ch i1 where g: "getc (skip_ws i) = (ch, i1)" by fastforce
    from 1 show ?case
      unfolding parse_value.simps g prod.case
      by (auto simp: returns_def split: option.splits if_splits prod.splits bool.splits
          dest!: parse_double_wf parse_literal_wf Suc.IH(2,3))
  next
    case 2
    then show ?case
      by (auto simp: returns_def split: option.splits sum.splits prod.splits bool.splits
          dest!: Suc.IH(1,2))
  next
    case 3
    then show ?case
      by (auto simp: returns_def simp del: json_wf.simps
          split: option.splits sum.splits prod.splits bool.splits
          dest!: Suc.IH(3) intro!: json_wf_om_set)
        (auto dest!: Suc.IH(1) dest: om_find_json_wf)
  }
qed auto

end
