(* ===== verification/Json_Roundtrip.thy ===== *)
theory Json_Roundtrip
  imports Json_Serialize Json_Parse
begin

text \<open>
  Reading back what was written: for every well-formed value, compact or pretty-printed, the parser
  returns exactly that value, with no error and nothing left but the final line break. The lemmas
  follow the scanners: characters of strings, numbers, separators after white space, and then
  values, items and members together, by induction on the fuel.
\<close>

section \<open>Strings\<close>

lemma hex_val_digit [simp]: "d < 16 \<Longrightarrow> hex_val (hex_digit d) = Some d"
  by (auto simp: hex_val_def hex_digit_def Let_def)

lemma parse_hex_00:
  assumes "view i = CHR ''0'' # CHR ''0'' # hex_digit h # hex_digit l # t" "h < 16" "l < 16"
  shows "\<exists>i'. parse_quadhex i = (Some (16 * h + l), i') \<and> view i' = t"
proof -
  have z: "hex_val (CHR ''0'') = Some 0" by (simp add: hex_val_def)
  have n: "4 = Suc (Suc (Suc (Suc 0)))" by simp
  show ?thesis
    unfolding parse_quadhex_def n using assms by (simp add: getc_view z mult.commute)
qed

lemma parse_string_quote: "view i = CHR 0x22 # t \<Longrightarrow> parse_string out i = (True, out, adv i)"
  by (subst parse_string.simps) (simp add: getc_view)

lemma parse_string_escape:
  assumes "view i = CHR 0x5C # e # t" "escape_val e = Some c"
  shows "parse_string out i = parse_string (out @ [c]) (adv (adv i))"
  using assms by (subst parse_string.simps) (simp add: getc_view)

lemma parse_string_plain:
  assumes "view i = c # t" "\<not> of_char c < (0x20::nat)" "c \<noteq> CHR 0x22" "c \<noteq> CHR 0x5C"
  shows "parse_string out i = parse_string (out @ [c]) (adv i)"
  using assms by (subst parse_string.simps) (simp add: getc_view)

lemma parse_string_control:
  assumes "view i = [CHR 0x5C, CHR ''u'', CHR ''0'', CHR ''0'', hex_digit (of_char c div 16), hex_digit (of_char c mod 16)] @ t"
    and "of_char c < (0x80::nat)"
  shows "\<exists>i'. parse_string out i = parse_string (out @ [c]) i' \<and> view i' = t"
proof -
  have "view (adv (adv i)) = CHR ''0'' # CHR ''0'' # hex_digit (of_char c div 16) # hex_digit (of_char c mod 16) # t"
    using assms(1) by simp
  then obtain i' where i': "parse_quadhex (adv (adv i)) = (Some (16 * (of_char c div 16) + of_char c mod 16), i')"
    "view i' = t"
    using parse_hex_00 assms(2) by fastforce
  then have "parse_codepoint out (adv (adv i)) = (True, out @ [c], i')"
    using assms(2) by (simp add: parse_codepoint_def utf8_bytes_def)
  then have "parse_string out i = parse_string (out @ [c]) i'"
    using assms(1) by (subst parse_string.simps) (simp add: getc_view escape_val_def)
  with i' show ?thesis by blast
qed

lemma serialize_str_char_cases:
  obtains (esc) e where "serialize_str_char c = [CHR 0x5C, e]" "escape_val e = Some c"
  | (ctl) "serialize_str_char c = [CHR 0x5C, CHR ''u'', CHR ''0'', CHR ''0'',
        hex_digit (of_char c div 16), hex_digit (of_char c mod 16)]" "of_char c < (0x80::nat)"
  | (plain) "serialize_str_char c = [c]" "\<not> of_char c < (0x20::nat)" "c \<noteq> CHR 0x22" "c \<noteq> CHR 0x5C"
proof (cases "c \<in> {CHR 0x22, CHR 0x5C, CHR ''/'', CHR 0x08, CHR 0x0C, CHR 0x0A, CHR 0x0D, CHR 0x09}")
  case True
  then have "\<exists>e. serialize_str_char c = [CHR 0x5C, e] \<and> escape_val e = Some c"
    by (elim insertE; simp add: serialize_str_char_def escape_val_def)
  then show thesis using esc by blast
next
  case False
  show thesis
  proof (cases "of_char c < (0x20::nat) \<or> c = CHR 0x7F")
    case True
    then have "of_char c < (0x80::nat)" by auto
    then show thesis using False True ctl by (simp add: serialize_str_char_def)
  next
    case False': False
    then show thesis using False plain by (simp add: serialize_str_char_def)
  qed
qed

lemma parse_string_char:
  assumes "view i = serialize_str_char c @ t"
  shows "\<exists>i'. parse_string out i = parse_string (out @ [c]) i' \<and> view i' = t"
proof (cases c rule: serialize_str_char_cases)
  case (esc e)
  then have "view i = CHR 0x5C # e # t" using assms by simp
  with parse_string_escape [OF this esc(2), of out] show ?thesis by auto
next
  case ctl
  then show ?thesis using assms by (intro parse_string_control) simp_all
next
  case plain
  then show ?thesis using assms parse_string_plain [of i c t out] by auto
qed

lemma parse_string_serialized:
  "view i = concat (map serialize_str_char s) @ CHR 0x22 # t \<Longrightarrow>
     \<exists>i'. parse_string out i = (True, out @ s, i') \<and> view i' = t"
proof (induction s arbitrary: out i)
  case Nil
  then show ?case using parse_string_quote [of i t out] by simp
next
  case (Cons c s)
  then obtain i1 where "parse_string out i = parse_string (out @ [c]) i1"
    "view i1 = concat (map serialize_str_char s) @ CHR 0x22 # t"
    using parse_string_char [of i c "concat (map serialize_str_char s) @ CHR 0x22 # t" out] by auto
  then show ?case using Cons.IH [of i1 "out @ [c]"] by auto
qed

section \<open>Separators, literals and numbers\<close>

lemma dropWhile_ws: "list_all is_ws ws \<Longrightarrow> \<not> is_ws c \<Longrightarrow> dropWhile is_ws (ws @ c # t) = c # t"
  by (induction ws) auto

lemma expect_found:
  assumes "view i = ws @ c # t" "list_all is_ws ws" "\<not> is_ws c"
  shows "\<exists>i'. expect c i = (True, i') \<and> view i' = t"
proof -
  note d = dropWhile_ws [OF assms(2,3), of t]
  have "fst (expect c i)" "view (snd (expect c i)) = t"
    using expect_view [of c i] by (simp_all add: assms(1) d)
  then show ?thesis by (cases "expect c i") auto
qed

lemma expect_other:
  assumes "view i = ws @ d # t" "list_all is_ws ws" "\<not> is_ws d" "d \<noteq> c"
  shows "\<exists>i'. expect c i = (False, i') \<and> view i' = d # t"
proof -
  note e = dropWhile_ws [OF assms(2,3), of t]
  have "\<not> fst (expect c i)" "view (snd (expect c i)) = d # t"
    using expect_view [of c i] assms(4) by (simp_all add: assms(1) e)
  then show ?thesis by (cases "expect c i") auto
qed

lemma match_lit_found: "view i = p @ t \<Longrightarrow> \<exists>i'. match_lit p i = (True, i') \<and> view i' = t"
proof (induction p arbitrary: i)
  case (Cons c p)
  then show ?case using Cons.IH [of "adv i"] by (simp add: getc_view Let_def)
qed simp

definition sep :: "string \<Rightarrow> bool" where
  "sep t \<longleftrightarrow> t = [] \<or> \<not> number_char (hd t)"

lemma parse_number_found:
  "view i = s @ t \<Longrightarrow> list_all number_char s \<Longrightarrow> sep t \<Longrightarrow>
     \<exists>i'. parse_number acc i = (acc @ s, i') \<and> view i' = t"
proof (induction s arbitrary: acc i)
  case Nil
  then show ?case
    by (subst parse_number.simps) (auto simp: getc_view sep_def number_char_def split: list.splits)
next
  case (Cons c s)
  have "parse_number acc i = parse_number (acc @ [c]) (adv i)"
    using Cons.prems by (subst parse_number.simps) (auto simp: getc_view number_char_def decimal_point_def)
  moreover have "\<exists>i'. parse_number (acc @ [c]) (adv i) = ((acc @ [c]) @ s, i') \<and> view i' = t"
    using Cons.prems by (intro Cons.IH) simp_all
  ultimately show ?case by simp
qed

lemma parse_double_found:
  assumes "x = Fin s m e" "double_wf x" "view i = double_str x @ t" "sep t"
  shows "\<exists>i'. parse_double out i = returns True (JNumber x) i' \<and> view i' = t"
proof -
  obtain i' where "parse_number [] i = (double_str x, i')" "view i' = t"
    using parse_number_found [OF assms(3) double_str_chars(1) [OF assms(1)] assms(4), of "[]"] by auto
  moreover have "strtod (double_str x) = (x, [])"
    using strtod_double_str assms(1,2) by blast
  ultimately show ?thesis
    using double_str_chars(2) [OF assms(1)] assms(1)
    by (auto simp: parse_double_def value_of_double_def simp del: double_str.simps)
qed

section \<open>Values\<close>

lemma is_ws_indent: "list_all is_ws (indent_str k)" "list_all is_ws (line_end k)"
  by (simp_all add: indent_str_def line_end_def is_ws_def list_all_iff)

lemma sep_simps [simp]:
  "sep []" "sep (CHR '','' # t)" "sep (CHR '']'' # t)" "sep (CHR ''}'' # t)"
  by (simp_all add: sep_def number_char_def is_digit_def)

lemma sep_ws: "list_all is_ws ws \<Longrightarrow> sep t \<Longrightarrow> sep (ws @ t)"
  by (cases ws) (auto simp: sep_def is_ws_def number_char_def is_digit_def)

definition item_ws :: "int \<Rightarrow> string" where
  "item_ws ind = (if ind \<noteq> -1 then indent_str ind else [])"

text \<open>How a list of items continues after the first one.\<close>

lemma serialize_items_tail:
  "serialize_items ind False (x # xs) =
     CHR '','' # item_ws ind @ serialize_at ind x @ serialize_items ind False xs"
  by (simp add: item_ws_def)

lemma serialize_members_tail:
  "serialize_members ind False ((k, x) # m) =
     CHR '','' # item_ws ind @ serialize_str k @ CHR '':'' # (if ind \<noteq> -1 then [CHR '' ''] else []) @
       serialize_at ind x @ serialize_members ind False m"
  by (simp add: item_ws_def)

lemma item_ws: "list_all is_ws (item_ws ind)"
  by (simp add: item_ws_def is_ws_indent)

lemma not_ws [simp]:
  "\<not> is_ws (CHR '','')" "\<not> is_ws (CHR '']'')" "\<not> is_ws (CHR ''}'')" "\<not> is_ws (CHR '':'')"
  "\<not> is_ws (CHR 0x22)" "\<not> is_ws (CHR ''['')" "\<not> is_ws (CHR ''{'')" "\<not> is_ws (CHR ''-'')"
  by (simp_all add: is_ws_def)

lemma digit_not_ws: "is_digit c \<Longrightarrow> \<not> is_ws c"
  by (auto simp: is_ws_def is_digit_def)

text \<open>The branch the parser takes, from the first character after white space.\<close>

lemma getc_skip_ws_found:
  assumes "view i = ws @ c # t" "list_all is_ws ws" "\<not> is_ws c"
  shows "getc (skip_ws i) = (Some c, adv (skip_ws i))" and "view (adv (skip_ws i)) = t"
    and "view (ungetc (adv (skip_ws i))) = c # t"
  using dropWhile_ws [OF assms(2,3), of t] by (simp_all add: assms(1) getc_skip_ws view_skip_ws)

text \<open>After a value: a comma and more, or the closing bracket.\<close>

lemma expect_comma_more:
  "view i = CHR '','' # t \<Longrightarrow> \<exists>i'. expect (CHR '','') i = (True, i') \<and> view i' = t"
  using expect_found [of i "[]" "CHR '',''" t] by simp

lemma expect_comma_close:
  assumes "view i = cl @ c # t" "list_all is_ws cl" "\<not> is_ws c" "c \<noteq> CHR '',''"
  shows "\<exists>i1 i2. expect (CHR '','') i = (False, i1) \<and> expect c i1 = (True, i2) \<and> view i2 = t"
proof -
  obtain i1 where i1: "expect (CHR '','') i = (False, i1)" "view i1 = c # t"
    using expect_other [OF assms] by blast
  then obtain i2 where "expect c i1 = (True, i2)" "view i2 = t"
    using expect_found [of i1 "[]" c t] assms(3) by auto
  with i1 show ?thesis by blast
qed

text \<open>What is read in the three positions of the grammar.\<close>

definition reads_value :: "nat \<Rightarrow> bool" where
  "reads_value n \<longleftrightarrow> (\<forall>v ind out i ws t.
     json_wf v \<longrightarrow> sep t \<longrightarrow> list_all is_ws ws \<longrightarrow>
     -1 \<le> ind \<longrightarrow> view i = ws @ serialize_at ind v @ t \<longrightarrow> 2 * length (view i) + 1 \<le> n \<longrightarrow>
     (\<exists>i'. parse_value n out i = returns True v i' \<and> view i' = line_end ind @ t))"

definition reads_items :: "nat \<Rightarrow> bool" where
  "reads_items n \<longleftrightarrow> (\<forall>x xs ind a i ws cl t.
     (\<forall>y \<in> set (x # xs). json_wf y) \<longrightarrow> -1 \<le> ind \<longrightarrow> ind \<noteq> 0 \<longrightarrow>
     list_all is_ws ws \<longrightarrow> list_all is_ws cl \<longrightarrow>
     view i = ws @ serialize_at ind x @ serialize_items ind False xs @ cl @ CHR '']'' # t \<longrightarrow>
     2 * length (view i) + 2 \<le> n \<longrightarrow>
     (\<exists>i'. parse_items n a i = returns True (JArray (a @ x # xs)) i' \<and> view i' = t))"

definition reads_members :: "nat \<Rightarrow> bool" where
  "reads_members n \<longleftrightarrow> (\<forall>k x ms ind m i ws cl t.
     json_wf (JObject (m @ (k, x) # ms)) \<longrightarrow> -1 \<le> ind \<longrightarrow> ind \<noteq> 0 \<longrightarrow>
     list_all is_ws ws \<longrightarrow> list_all is_ws cl \<longrightarrow>
     view i = ws @ serialize_str k @ CHR '':'' # (if ind \<noteq> -1 then [CHR '' ''] else []) @
       serialize_at ind x @ serialize_members ind False ms @ cl @ CHR ''}'' # t \<longrightarrow>
     2 * length (view i) + 2 \<le> n \<longrightarrow>
     (\<exists>i'. parse_members n m i = returns True (JObject (m @ (k, x) # ms)) i' \<and> view i' = t))"

lemma parse_literal_found:
  "view i = p @ t \<Longrightarrow> \<exists>i'. parse_literal p v out i = returns True v i' \<and> view i' = t"
  using match_lit_found [of i p t] by (auto simp: parse_literal_def)

lemma reads_value_leaf:
  assumes "json_wf v" "sep t" "list_all is_ws ws" "view i = ws @ serialize_at ind v @ t"
    and leaf: "\<And>xs. v \<noteq> JArray xs" "\<And>m. v \<noteq> JObject m"
  shows "\<exists>i'. parse_value (Suc n) out i = returns True v i' \<and> view i' = line_end ind @ t"
proof -
  define r where "r = line_end ind @ t"
  have r: "sep r" unfolding r_def using assms(2) by (intro sep_ws is_ws_indent)
  have go: "\<exists>i'. parse_value (Suc n) out i = returns True v i' \<and> view i' = r"
    if "view i = ws @ c # s" "\<not> is_ws c"
      "\<And>j. view j = s \<Longrightarrow> view (ungetc j) = c # s \<Longrightarrow> getc (skip_ws i) = (Some c, j) \<Longrightarrow>
         \<exists>i'. parse_value (Suc n) out i = returns True v i' \<and> view i' = r" for c s
    using that(3) [of "adv (skip_ws i)"] getc_skip_ws_found [OF that(1) assms(3) that(2)] by simp
  show ?thesis
    unfolding r_def [symmetric]
  proof (cases v)
    case JNull
    show "\<exists>i'. parse_value (Suc n) out i = returns True v i' \<and> view i' = r"
      by (rule go [of "CHR ''n''" "''ull'' @ r"])
        (use assms(4) JNull parse_literal_found [of _ "''ull''" r JNull out] in \<open>auto simp: r_def is_ws_def\<close>)
  next
    case (JBool b)
    show "\<exists>i'. parse_value (Suc n) out i = returns True v i' \<and> view i' = r"
    proof (cases b)
      case True
      show ?thesis
        by (rule go [of "CHR ''t''" "''rue'' @ r"])
          (use assms(4) JBool True parse_literal_found [of _ "''rue''" r "JBool True" out] in \<open>auto simp: r_def is_ws_def\<close>)
    next
      case False
      show ?thesis
        by (rule go [of "CHR ''f''" "''alse'' @ r"])
          (use assms(4) JBool False parse_literal_found [of _ "''alse''" r "JBool False" out] in \<open>auto simp: r_def is_ws_def\<close>)
    qed
  next
    case (JNumber x)
    then obtain s m e where x: "x = Fin s m e" "double_wf x"
      using assms(1) by (cases x) auto
    obtain c u where cu: "double_str x = c # u"
      using double_str_chars(2) [OF x(1)] by (cases "double_str x") auto
    have c: "is_digit c \<or> c = CHR ''-''"
      using double_str_chars(3) [OF x(1)] by (simp add: cu)
    show "\<exists>i'. parse_value (Suc n) out i = returns True v i' \<and> view i' = r"
    proof (rule go [of c "u @ r"])
      show "view i = ws @ c # u @ r" using assms(4) by (simp add: JNumber cu r_def)
      show "\<not> is_ws c" using c digit_not_ws by auto
      fix j assume j: "view (ungetc j) = c # u @ r" "getc (skip_ws i) = (Some c, j)"
      obtain i' where "parse_double out (ungetc j) = returns True (JNumber x) i'" "view i' = r"
        using parse_double_found [OF x, of "ungetc j" r out] j(1) r by (auto simp: cu)
      moreover have "c \<noteq> CHR ''n''" "c \<noteq> CHR ''f''" "c \<noteq> CHR ''t''" "c \<noteq> CHR 0x22" "c \<noteq> CHR ''[''" "c \<noteq> CHR ''{''"
        using c by (auto simp: is_digit_def)
      then have "parse_value (Suc n) out i = parse_double out (ungetc j)"
        using c by (simp add: j(2))
      ultimately show "\<exists>i'. parse_value (Suc n) out i = returns True v i' \<and> view i' = r"
        using JNumber by (intro exI [of _ i']) simp
    qed
  next
    case (JString s)
    show "\<exists>i'. parse_value (Suc n) out i = returns True v i' \<and> view i' = r"
    proof (rule go [of "CHR 0x22" "concat (map serialize_str_char s) @ CHR 0x22 # r"])
      fix j assume j: "view j = concat (map serialize_str_char s) @ CHR 0x22 # r"
        "getc (skip_ws i) = (Some (CHR 0x22), j)"
      obtain i' where "parse_string [] j = (True, s, i')" "view i' = r"
        using parse_string_serialized [OF j(1), of "[]"] by auto
      then show "\<exists>i'. parse_value (Suc n) out i = returns True v i' \<and> view i' = r"
        using j(2) JString by (intro exI [of _ i']) simp
    qed (use assms(4) JString in \<open>simp_all add: r_def serialize_str_def\<close>)
  qed (use leaf in blast)+
qed

lemma sep_items: "list_all is_ws cl \<Longrightarrow> sep (serialize_items ind False xs @ cl @ CHR '']'' # t)"
  by (cases xs) (simp_all add: sep_ws)

lemma sep_members: "list_all is_ws cl \<Longrightarrow> sep (serialize_members ind False m @ cl @ CHR ''}'' # t)"
  by (cases m) (auto simp add: sep_ws)

lemma line_end_inner [simp]: "ind \<noteq> 0 \<Longrightarrow> line_end ind = []"
  by (simp add: line_end_def)

lemma reads_items_step:
  assumes v: "reads_value n" and its: "reads_items n"
  shows "reads_items (Suc n)"
  unfolding reads_items_def
proof (intro allI impI)
  fix x xs ind a i ws cl t
  assume wf: "\<forall>y \<in> set (x # xs). json_wf y" and ind: "-1 \<le> ind" "ind \<noteq> 0"
    and ws: "list_all is_ws ws" and cl: "list_all is_ws cl"
    and i: "view i = ws @ serialize_at ind x @ serialize_items ind False xs @ cl @ CHR '']'' # t"
    and n: "2 * length (view i) + 2 \<le> Suc n"
  obtain i1 where i1: "parse_value n JNull i = returns True x i1"
    "view i1 = serialize_items ind False xs @ cl @ CHR '']'' # t"
    using v [unfolded reads_value_def, rule_format, of x "serialize_items ind False xs @ cl @ CHR '']'' # t" ws ind i JNull]
      wf ind ws cl i n sep_items [OF cl] by auto
  show "\<exists>i'. parse_items (Suc n) a i = returns True (JArray (a @ x # xs)) i' \<and> view i' = t"
  proof (cases xs)
    case Nil
    obtain i2 i3 where "expect (CHR '','') i1 = (False, i2)" "expect (CHR '']'') i2 = (True, i3)" "view i3 = t"
      using expect_comma_close [of i1 cl "CHR '']''" t] i1(2) cl Nil by auto
    then show ?thesis using i1(1) Nil by (simp add: returns_def)
  next
    case (Cons y ys)
    obtain i2 where i2: "expect (CHR '','') i1 = (True, i2)"
      "view i2 = item_ws ind @ serialize_at ind y @ serialize_items ind False ys @ cl @ CHR '']'' # t"
      using expect_comma_more [of i1] i1(2) by (auto simp only: Cons serialize_items_tail append_Cons append_assoc)
    have "length (view i1) \<le> length (view i)"
      using parse_consumes(1) i1(1) by (auto simp: returns_def)
    then have "2 * length (view i2) + 2 \<le> n"
      using n expect_length(1) [OF i2(1)] by linarith
    then obtain i3 where "parse_items n (a @ [x]) i2 = returns True (JArray ((a @ [x]) @ y # ys)) i3" "view i3 = t"
      using its [unfolded reads_items_def, rule_format, of y ys ind "item_ws ind" cl i2 t "a @ [x]"]
        wf ind cl i2(2) item_ws Cons by auto
    then show ?thesis using i1(1) i2(1) Cons by (simp add: returns_def)
  qed
qed

lemma om_wf_append_last:
  assumes "om_wf (m @ (k, x) # ms)"
  shows "om_set k x m = m @ [(k, x)]" and "om_find m k = None"
proof -
  have *: "\<forall>k' \<in> fst ` set m. k' < k"
    using assms by (auto simp: om_wf_def sorted_wrt_append)
  then show "om_set k x m = m @ [(k, x)]" by (rule om_set_last)
  show "om_find m k = None" using * by (auto simp: om_find_None)
qed

lemma reads_members_step:
  assumes v: "reads_value n" and mem: "reads_members n"
  shows "reads_members (Suc n)"
  unfolding reads_members_def
proof (intro allI impI)
  fix k x ms ind m i ws cl t
  assume wf: "json_wf (JObject (m @ (k, x) # ms))" and ind: "-1 \<le> ind" "ind \<noteq> 0"
    and ws: "list_all is_ws ws" and cl: "list_all is_ws cl"
    and i: "view i = ws @ serialize_str k @ CHR '':'' # (if ind \<noteq> -1 then [CHR '' ''] else []) @
       serialize_at ind x @ serialize_members ind False ms @ cl @ CHR ''}'' # t"
    and n: "2 * length (view i) + 2 \<le> Suc n"
  define sp where "sp = (if ind \<noteq> -1 then [CHR '' ''] else [])"
  define r where "r = serialize_members ind False ms @ cl @ CHR ''}'' # t"
  have sp: "list_all is_ws sp" by (simp add: sp_def is_ws_def)
  obtain i1 where i1: "expect (CHR 0x22) i = (True, i1)"
    "view i1 = concat (map serialize_str_char k) @ CHR 0x22 # CHR '':'' # sp @ serialize_at ind x @ r"
    using expect_found [of i ws "CHR 0x22"] ws i by (auto simp: serialize_str_def sp_def r_def)
  obtain i2 where i2: "parse_string [] i1 = (True, k, i2)" "view i2 = CHR '':'' # sp @ serialize_at ind x @ r"
    using parse_string_serialized [OF i1(2), of "[]"] by auto
  obtain i3 where i3: "expect (CHR '':'') i2 = (True, i3)" "view i3 = sp @ serialize_at ind x @ r"
    using expect_found [of i2 "[]" "CHR '':''"] i2(2) by auto
  have l3: "length (view i3) < length (view i)"
    using expect_length(1) [OF i1(1)] parse_string_length [OF i2(1)] expect_length(1) [OF i3(1)] by linarith
  note om = om_wf_append_last [of m k x ms]
  have m: "om_set k x m = m @ [(k, x)]" "om_find m k = None"
    using om wf by simp_all
  obtain i4 where i4: "parse_value n JNull i3 = returns True x i4" "view i4 = r"
    using v [unfolded reads_value_def, rule_format, of x r sp ind i3 JNull]
      wf ind sp i3(2) n l3 sep_members [OF cl] by (auto simp: r_def)
  have pre: "parse_members (Suc n) m i =
      (case expect (CHR '','') i4 of
         (True, i5) \<Rightarrow> parse_members n (m @ [(k, x)]) i5
       | (False, i5) \<Rightarrow> (case expect (CHR ''}'') i5 of (b, i6) \<Rightarrow> returns b (JObject (m @ [(k, x)])) i6))"
    using i1(1) i2(1) i3(1) i4(1) m by (simp add: returns_def split: bool.split prod.split)
  show "\<exists>i'. parse_members (Suc n) m i = returns True (JObject (m @ (k, x) # ms)) i' \<and> view i' = t"
  proof (cases ms)
    case Nil
    obtain i5 i6 where "expect (CHR '','') i4 = (False, i5)" "expect (CHR ''}'') i5 = (True, i6)" "view i6 = t"
      using expect_comma_close [of i4 cl "CHR ''}''" t] i4(2) cl Nil by (auto simp: r_def)
    then show ?thesis unfolding pre using Nil by auto
  next
    case (Cons y ys)
    obtain k' x' where y: "y = (k', x')" by fastforce
    obtain i5 where i5: "expect (CHR '','') i4 = (True, i5)"
      "view i5 = item_ws ind @ serialize_str k' @ CHR '':'' # sp @ serialize_at ind x' @
         serialize_members ind False ys @ cl @ CHR ''}'' # t"
      using expect_comma_more [of i4] i4(2)
      by (auto simp only: r_def Cons y serialize_members_tail append_Cons append_assoc sp_def)
    have "length (view i4) \<le> length (view i3)"
      using parse_consumes(1) i4(1) by (auto simp: returns_def)
    then have "2 * length (view i5) + 2 \<le> n"
      using n l3 expect_length(1) [OF i5(1)] by linarith
    then obtain i6 where "parse_members n (m @ [(k, x)]) i5 =
        returns True (JObject ((m @ [(k, x)]) @ (k', x') # ys)) i6" "view i6 = t"
      using mem [unfolded reads_members_def, rule_format, of "m @ [(k, x)]" k' x' ys ind "item_ws ind" cl i5 t]
        wf ind cl i5(2) item_ws by (auto simp: Cons y sp_def)
    then show ?thesis unfolding pre using i5(1) Cons y by auto
  qed
qed

text \<open>No value starts with white space or a closing bracket.\<close>

lemma serialize_at_start:
  "json_wf v \<Longrightarrow> \<exists>c s. serialize_at ind v = c # s \<and> \<not> is_ws c \<and> c \<noteq> CHR '']'' \<and> c \<noteq> CHR ''}''"
proof (cases v)
  case (JNumber x)
  assume "json_wf v"
  then obtain s m e where x: "x = Fin s m e" using JNumber by (cases x) auto
  have "is_digit (hd (double_str x)) \<or> hd (double_str x) = CHR ''-''" "double_str x \<noteq> []"
    using double_str_chars [OF x] by auto
  then show ?thesis
    using JNumber by (cases "double_str x") (auto simp: digit_not_ws is_digit_def is_ws_def)
qed (auto simp: serialize_str_def is_ws_def)

lemma inner_indent: "-1 \<le> ind \<Longrightarrow> -1 \<le> inner_indent ind \<and> inner_indent ind \<noteq> 0"
  by (auto simp: inner_indent_def)

lemma close_ws: "list_all is_ws (if b then indent_str k else [])"
  by (simp add: is_ws_indent)

lemma reads_value_step:
  assumes its: "reads_items n" and mem: "reads_members n"
  shows "reads_value (Suc n)"
  unfolding reads_value_def
proof (intro allI impI)
  fix v ind out i ws t
  assume wf: "json_wf v" and t: "sep t" and ws: "list_all is_ws ws" and ind: "-1 \<le> ind"
    and i: "view i = ws @ serialize_at ind v @ t" and n: "2 * length (view i) + 1 \<le> Suc n"
  note ind' = inner_indent [OF ind]
  show "\<exists>i'. parse_value (Suc n) out i = returns True v i' \<and> view i' = line_end ind @ t"
  proof (cases "(\<exists>xs. v = JArray xs) \<or> (\<exists>m. v = JObject m)")
    case False
    then show ?thesis using reads_value_leaf [OF wf t ws i] by blast
  next
    case True
    then consider (arr) xs where "v = JArray xs" | (obj) m where "v = JObject m" by blast
    then show ?thesis
    proof cases
      case (arr xs)
      define cl where "cl = (if ind \<noteq> -1 \<and> xs \<noteq> [] then indent_str ind else [])"
      have cl: "list_all is_ws cl" by (simp add: cl_def is_ws_indent)
      have vi: "view i = ws @ CHR ''['' # serialize_items (inner_indent ind) True xs @ cl @ CHR '']'' # line_end ind @ t"
        using i arr by (simp add: cl_def)
      note g = getc_skip_ws_found [OF vi ws not_ws(6)]
      have l: "2 * length (view (adv (skip_ws i))) + 2 \<le> n"
        using n getc_skip_ws_consumes(1) [OF g(1)] by linarith
      show ?thesis
      proof (cases xs)
        case Nil
        obtain i2 where "expect (CHR '']'') (adv (skip_ws i)) = (True, i2)" "view i2 = line_end ind @ t"
          using expect_found [of "adv (skip_ws i)" "[]" "CHR '']''"] g(2) Nil by (auto simp: cl_def)
        then show ?thesis using g(1) arr Nil by auto
      next
        case (Cons y ys)
        obtain c s where cs: "serialize_at (inner_indent ind) y = c # s" "\<not> is_ws c" "c \<noteq> CHR '']''"
          using serialize_at_start [of y "inner_indent ind"] wf arr Cons by auto
        obtain i2 where i2: "expect (CHR '']'') (adv (skip_ws i)) = (False, i2)"
          "view i2 = serialize_at (inner_indent ind) y @ serialize_items (inner_indent ind) False ys @ cl @
             CHR '']'' # line_end ind @ t"
          using expect_other [of "adv (skip_ws i)" "item_ws (inner_indent ind)" c _ "CHR '']''"]
            g(2) Cons cs item_ws by (auto simp: item_ws_def)
        have "2 * length (view i2) + 2 \<le> n"
          using l expect_length(2) [OF i2(1)] by linarith
        then obtain i3 where "parse_items n [] i2 = returns True (JArray ([] @ y # ys)) i3" "view i3 = line_end ind @ t"
          using its [unfolded reads_items_def, rule_format, of y ys "inner_indent ind" "[]" cl i2 "line_end ind @ t" "[]"]
            i2(2) ind' wf arr Cons cl by auto
        then show ?thesis using g(1) i2(1) arr Cons by auto
      qed
    next
      case (obj m)
      define cl where "cl = (if ind \<noteq> -1 \<and> m \<noteq> [] then indent_str ind else [])"
      have cl: "list_all is_ws cl" by (simp add: cl_def is_ws_indent)
      have vi: "view i = ws @ CHR ''{'' # serialize_members (inner_indent ind) True m @ cl @ CHR ''}'' # line_end ind @ t"
        using i obj by (simp add: cl_def)
      note g = getc_skip_ws_found [OF vi ws not_ws(7)]
      have l: "2 * length (view (adv (skip_ws i))) + 2 \<le> n"
        using n getc_skip_ws_consumes(1) [OF g(1)] by linarith
      show ?thesis
      proof (cases m)
        case Nil
        obtain i2 where "expect (CHR ''}'') (adv (skip_ws i)) = (True, i2)" "view i2 = line_end ind @ t"
          using expect_found [of "adv (skip_ws i)" "[]" "CHR ''}''"] g(2) Nil by (auto simp: cl_def)
        then show ?thesis using g(1) obj Nil by auto
      next
        case (Cons y ys)
        obtain k x where y: "y = (k, x)" by fastforce
        obtain i2 where i2: "expect (CHR ''}'') (adv (skip_ws i)) = (False, i2)"
          "view i2 = serialize_str k @ CHR '':'' # (if inner_indent ind \<noteq> -1 then [CHR '' ''] else []) @
             serialize_at (inner_indent ind) x @ serialize_members (inner_indent ind) False ys @ cl @
             CHR ''}'' # line_end ind @ t"
          using expect_other [of "adv (skip_ws i)" "item_ws (inner_indent ind)" "CHR 0x22" _ "CHR ''}''"]
            g(2) Cons y item_ws by (auto simp: item_ws_def serialize_str_def)
        have "2 * length (view i2) + 2 \<le> n"
          using l expect_length(2) [OF i2(1)] by linarith
        then obtain i3 where "parse_members n [] i2 = returns True (JObject ([] @ (k, x) # ys)) i3"
          "view i3 = line_end ind @ t"
          using mem [unfolded reads_members_def, rule_format, of "[]" k x ys "inner_indent ind" "[]" cl i2 "line_end ind @ t"]
            i2(2) ind' wf obj Cons y cl by auto
        then show ?thesis using g(1) i2(1) obj Cons y by auto
      qed
    qed
  qed
qed

lemma reads_all: "reads_value n \<and> reads_items n \<and> reads_members n"
proof (induction n)
  case 0
  show ?case by (simp add: reads_value_def reads_items_def reads_members_def)
next
  case (Suc n)
  then show ?case
    using reads_value_step reads_items_step reads_members_step by blast
qed

text \<open>The parser on the text of a value, with more text behind it.\<close>

lemma parse_at_serialize:
  assumes "json_wf v" "sep t"
  shows "parse_at out (serialize p v @ t) = Some (Inr (v, [], (if p then [CHR 0x0A] else []) @ t))"
proof -
  define ind :: int where "ind = (if p then 0 else -1)"
  define s where "s = serialize p v @ t"
  have h: "list_all is_ws []" "-1 \<le> ind" "view (input_of s) = [] @ serialize_at ind v @ t"
    "2 * length (view (input_of s)) + 1 \<le> parse_fuel s"
    by (simp_all add: s_def serialize_def ind_def parse_fuel_def)
  obtain i' where "parse_value (parse_fuel s) out (input_of s) = returns True v i'" "view i' = line_end ind @ t"
    using reads_all [of "parse_fuel s", THEN conjunct1, unfolded reads_value_def, rule_format, OF assms h]
    by blast
  then show ?thesis
    by (auto simp: parse_at_def returns_def input_pos_view line_end_def ind_def s_def)
qed

lemma parse_serialize:
  assumes "json_wf v"
  shows "parse out (serialize p v) = Inr (v, [])"
  using parse_at_serialize [OF assms, of "[]" out p] by (simp add: parse_def)

section \<open>Properties\<close>

text \<open>C3: The text of a value, compact or pretty-printed, parses back to exactly that value, without
  an error, whatever the output argument held before and whatever follows that does not continue a
  number; what follows is left unread.\<close>

theorem json_round_trip:
  assumes "json_wf v" and "sep t"
  shows "parse_at out (serialize p v @ t) = Some (Inr (v, [], (if p then [CHR 0x0A] else []) @ t))"
  using assms by (rule parse_at_serialize)

theorem json_round_trip_witness:
  "parse_at JNull (serialize False (JObject [(''a'', JArray [JBool True, JNumber (double_of_int 10)])]) @ '' x'') =
     Some (Inr (JObject [(''a'', JArray [JBool True, JNumber (double_of_int 10)])], [], '' x''))"
proof -
  have "json_wf (JObject [(''a'', JArray [JBool True, JNumber (double_of_int 10)])])"
    using double_str_of_int(2) [of 10] double_of_int_wf by (simp add: om_wf_def)
  moreover have "sep '' x''"
    by (simp add: sep_def number_char_def is_digit_def)
  ultimately show ?thesis
    using json_round_trip [of _ "'' x''" JNull False] by simp
qed

text \<open>Different values have different texts, in either format.\<close>

lemma serialize_injective:
  assumes "json_wf v" and "json_wf w" and "serialize p v = serialize q w"
  shows "v = w"
proof -
  have "parse JNull (serialize p v) = Inr (v, [])"
    using assms(1) by (rule parse_serialize)
  moreover have "parse JNull (serialize p v) = Inr (w, [])"
    unfolding assms(3) using assms(2) by (rule parse_serialize)
  ultimately show ?thesis by simp
qed

end
