(* ===== verification/Json_Faults.thy ===== *)
theory Json_Faults
  imports Json_Roundtrip
begin

text \<open>
  The parser on texts that are not the text of a value: the only exception it raises, and what it
  leaves in the output argument when the text of an object is cut off.
\<close>

section \<open>The exceptions of the parser\<close>

lemma parse_literal_raises: "parse_literal t v out i \<noteq> Some (Inl e)"
  by (simp add: parse_literal_def returns_def split: prod.split)

lemma parse_double_raises: "parse_double out i = Some (Inl e) \<Longrightarrow> e = Overflow_error"
  by (auto simp: parse_double_def returns_def value_of_double_def Let_def
      split: prod.splits sum.splits if_splits)

lemma parse_raises:
  "parse_value n out i = Some (Inl e) \<Longrightarrow> e = Overflow_error"
  "parse_items n a i = Some (Inl e) \<Longrightarrow> e = Overflow_error"
  "parse_members n m i = Some (Inl e) \<Longrightarrow> e = Overflow_error"
proof (induction n arbitrary: out a m i)
  case (Suc n)
  { case 1
    obtain ch i1 where g: "getc (skip_ws i) = (ch, i1)" by fastforce
    from 1 show ?case
      unfolding parse_value.simps g prod.case
      by (auto simp: returns_def parse_literal_raises split: option.splits if_splits prod.splits bool.splits
          dest!: parse_double_raises Suc.IH(2,3))
  next
    case 2
    then show ?case
      by (auto simp: returns_def split: option.splits sum.splits prod.splits bool.splits
          dest!: Suc.IH(1,2))
  next
    case 3
    then show ?case
      by (auto simp: returns_def split: option.splits sum.splits prod.splits bool.splits
          dest!: Suc.IH(1,3))
  }
qed auto

lemma parse_error: "parse out s = Inl e \<Longrightarrow> e = Overflow_error"
  using parse_at_not_None [of out s]
  by (auto simp: parse_def parse_at_def dest: parse_raises
      split: option.splits sum.splits prod.splits bool.splits)

lemma parse_result_wf: "parse out s = Inr (v, err) \<Longrightarrow> json_wf out \<Longrightarrow> json_wf v"
  by (auto simp: parse_def parse_at_def dest: parse_wf
      split: option.splits sum.splits prod.splits bool.splits)

section \<open>Text that ends inside an object\<close>

text \<open>The members of an object without the closing brace, at the end of the text.\<close>

lemma expect_at_end: "view i = [] \<Longrightarrow> \<exists>i'. expect c i = (False, i') \<and> view i' = []"
  using expect_view [of c i] by (cases "expect c i") auto

text \<open>One round of the loop over the members, up to what follows the value.\<close>

lemma parse_members_one:
  assumes wf: "json_wf (JObject (m @ (k, x) # ms))" and r: "sep r"
    and i: "view i = serialize_str k @ CHR '':'' # serialize_at (-1) x @ r"
    and n: "2 * length (view i) + 2 \<le> Suc n"
  shows "\<exists>i4. view i4 = r \<and> length r < length (view i) \<and> parse_members (Suc n) m i =
      (case expect (CHR '','') i4 of
         (True, i5) \<Rightarrow> parse_members n (m @ [(k, x)]) i5
       | (False, i5) \<Rightarrow> (case expect (CHR ''}'') i5 of (b, i6) \<Rightarrow> returns b (JObject (m @ [(k, x)])) i6))"
proof -
  obtain i1 where i1: "expect (CHR 0x22) i = (True, i1)"
    "view i1 = concat (map serialize_str_char k) @ CHR 0x22 # CHR '':'' # serialize_at (-1) x @ r"
    using expect_found [of i "[]" "CHR 0x22"] i by (auto simp: serialize_str_def)
  obtain i2 where i2: "parse_string [] i1 = (True, k, i2)" "view i2 = CHR '':'' # serialize_at (-1) x @ r"
    using parse_string_serialized [OF i1(2), of "[]"] by auto
  obtain i3 where i3: "expect (CHR '':'') i2 = (True, i3)" "view i3 = serialize_at (-1) x @ r"
    using expect_found [of i2 "[]" "CHR '':''"] i2(2) by auto
  have l3: "length (view i3) < length (view i)"
    using expect_length(1) [OF i1(1)] parse_string_length [OF i2(1)] expect_length(1) [OF i3(1)] by linarith
  have m: "om_set k x m = m @ [(k, x)]" "om_find m k = None"
    using om_wf_append_last [of m k x ms] wf by simp_all
  obtain i4 where i4: "parse_value n JNull i3 = returns True x i4" "view i4 = r"
    using conjunct1 [OF reads_all [of n], unfolded reads_value_def, rule_format, of x r "[]" "-1" i3 JNull]
      wf r i3(2) n l3 by auto
  have "length r < length (view i)"
    using l3 by (simp add: i3(2))
  moreover have "parse_members (Suc n) m i =
      (case expect (CHR '','') i4 of
         (True, i5) \<Rightarrow> parse_members n (m @ [(k, x)]) i5
       | (False, i5) \<Rightarrow> (case expect (CHR ''}'') i5 of (b, i6) \<Rightarrow> returns b (JObject (m @ [(k, x)])) i6))"
    using i1(1) i2(1) i3(1) i4(1) m by (simp add: returns_def split: bool.split prod.split)
  ultimately show ?thesis using i4(2) by blast
qed

lemma serialize_members_more:
  "serialize_members (-1) False ((k, x) # ms) =
     CHR '','' # serialize_str k @ CHR '':'' # serialize_at (-1) x @ serialize_members (-1) False ms"
  by simp

lemma sep_cut: "sep (serialize_members (-1) False ms)"
  using sep_members [of "[]" "-1" ms "[]"] by (cases ms) (auto simp: sep_def)

lemma parse_members_cut:
  assumes "json_wf (JObject (m @ (k, x) # ms))"
    and "view i = serialize_str k @ CHR '':'' # serialize_at (-1) x @ serialize_members (-1) False ms"
    and "2 * length (view i) + 2 \<le> n"
  shows "\<exists>i'. parse_members n m i = returns False (JObject (m @ (k, x) # ms)) i' \<and> view i' = []"
  using assms
proof (induction ms arbitrary: m k x i n)
  case Nil
  obtain n' where n: "n = Suc n'" using Nil.prems(3) by (cases n) auto
  obtain i4 where i4: "view i4 = []" "parse_members n m i =
      (case expect (CHR '','') i4 of
         (True, i5) \<Rightarrow> parse_members n' (m @ [(k, x)]) i5
       | (False, i5) \<Rightarrow> (case expect (CHR ''}'') i5 of (b, i6) \<Rightarrow> returns b (JObject (m @ [(k, x)])) i6))"
    using parse_members_one [OF Nil.prems(1) sep_cut Nil.prems(2,3) [unfolded n]] n by auto
  obtain i5 where i5: "expect (CHR '','') i4 = (False, i5)" "view i5 = []"
    using expect_at_end [OF i4(1)] by blast
  obtain i6 where "expect (CHR ''}'') i5 = (False, i6)" "view i6 = []"
    using expect_at_end [OF i5(2)] by blast
  then show ?case using i4(2) i5(1) by auto
next
  case (Cons y ys)
  obtain k' x' where y: "y = (k', x')" by fastforce
  obtain n' where n: "n = Suc n'" using Cons.prems(3) by (cases n) auto
  obtain i4 where i4: "view i4 = serialize_members (-1) False (y # ys)"
    "length (view i4) < length (view i)" "parse_members n m i =
      (case expect (CHR '','') i4 of
         (True, i5) \<Rightarrow> parse_members n' (m @ [(k, x)]) i5
       | (False, i5) \<Rightarrow> (case expect (CHR ''}'') i5 of (b, i6) \<Rightarrow> returns b (JObject (m @ [(k, x)])) i6))"
    using parse_members_one [OF Cons.prems(1) sep_cut Cons.prems(2,3) [unfolded n]] n by auto
  obtain i5 where i5: "expect (CHR '','') i4 = (True, i5)"
    "view i5 = serialize_str k' @ CHR '':'' # serialize_at (-1) x' @ serialize_members (-1) False ys"
    using expect_comma_more [OF i4(1) [unfolded y serialize_members_more]] by blast
  have "2 * length (view i5) + 2 \<le> n'"
    using expect_length(1) [OF i5(1)] i4(2) Cons.prems(3) n by linarith
  then show ?case
    using Cons.IH [of "m @ [(k, x)]" k' x' i5 n'] Cons.prems(1) i5 i4(3) y by simp
qed

text \<open>The compact text of an object up to the end of one of its members.\<close>

definition cut_after :: "jobject \<Rightarrow> string" where
  "cut_after m = CHR ''{'' # serialize_members (-1) True m"

lemma serialize_members_append:
  "serialize_members ind b (m @ m') =
     serialize_members ind b m @ serialize_members ind (b \<and> m = []) m'"
  by (induction m arbitrary: b) auto

lemma cut_after_prefix:
  "\<exists>rest. rest \<noteq> [] \<and> serialize False (JObject (m @ m')) = cut_after m @ rest"
  by (simp add: serialize_def cut_after_def serialize_members_append inner_indent_def)

lemma error_tail_nonempty: "err \<noteq> [] \<Longrightarrow> fst (error_tail err i) \<noteq> []"
proof (induction err i rule: error_tail.induct)
  case (1 err i)
  obtain ch i1 where g: "getc i = (ch, i1)" by fastforce
  with 1 show ?case
    by (subst error_tail.simps) (cases ch; simp)
qed

lemma parse_cut:
  assumes wf: "json_wf (JObject m)" and ne: "m \<noteq> []"
  shows "\<exists>err. err \<noteq> [] \<and> parse out (cut_after m) = Inr (JObject m, err)"
proof -
  obtain k x ms where m: "m = (k, x) # ms" using ne by (cases m) auto
  define s where "s = cut_after m"
  define n where "n = 2 * length s"
  have vi: "view (input_of s) = [] @ CHR ''{'' # serialize_str k @ CHR '':'' # serialize_at (-1) x @
      serialize_members (-1) False ms"
    by (simp add: s_def cut_after_def m)
  note g = getc_skip_ws_found [OF vi _ not_ws(7), simplified]
  obtain i2 where i2: "expect (CHR ''}'') (adv (skip_ws (input_of s))) = (False, i2)"
    "view i2 = serialize_str k @ CHR '':'' # serialize_at (-1) x @ serialize_members (-1) False ms"
    using expect_other [of "adv (skip_ws (input_of s))" "[]" "CHR 0x22" _ "CHR ''}''"] g(2)
    by (auto simp: serialize_str_def)
  have "2 * length (view i2) + 2 \<le> n"
    by (simp add: n_def s_def cut_after_def m i2(2))
  then obtain i' where p: "parse_members n [] i2 = returns False (JObject m) i'"
    using parse_members_cut [of "[]" k x ms i2 n] wf i2(2) m by auto
  have "parse_value (Suc n) out (input_of s) = returns False (JObject m) i'"
    using g(1) i2(1) p by simp
  then have "parse_value (parse_fuel s) out (input_of s) = returns False (JObject m) i'"
    by (simp add: parse_fuel_def n_def)
  moreover obtain err i'' where e: "error_tail (error_head (line i')) i' = (err, i'')"
    by fastforce
  moreover have "err \<noteq> []"
    using error_tail_nonempty [of "error_head (line i')" i'] e by (simp add: error_head_def)
  ultimately show ?thesis
    by (simp add: parse_def parse_at_def returns_def flip: s_def)
qed

section \<open>Properties\<close>

text \<open>The parser returns for every text: with a well-formed value, whether or not it reports an
  error, or with the overflow exception of a number.\<close>

lemma parser_total:
  "\<exists>r. parse_at JNull s = Some r \<and>
     (case r of Inl e \<Rightarrow> e = Overflow_error | Inr (v, err, rest) \<Rightarrow> json_wf v)"
proof -
  obtain r where r: "parse_at JNull s = Some r"
    using parse_at_not_None by fastforce
  then show ?thesis
    using parse_error [of JNull s] parse_result_wf [of JNull s]
    by (cases r) (auto simp: parse_def)
qed

end
