(* ===== verification/Utils.thy ===== *)
theory Utils
  imports Json_Faults
begin

text \<open>
  \<open>utils.h\<close> and the first part of \<open>utils.cpp\<close>: time stamps, random strings, unique
  identifiers, the two conversions between key-value pairs, JSON objects and text, and the
  \<open>Pinger\<close>. The clock, the random draws and the transfer of libcurl are arguments.
\<close>

section \<open>Time stamps and random strings\<close>

text \<open>\<open>std::to_string\<close> of a signed integer.\<close>

definition int_to_string :: "int \<Rightarrow> string" where
  "int_to_string i = (if i < 0 then ''-'' else []) @ dec_string (nat \<bar>i\<bar>)"

text \<open>\<open>now\<close> is the 64-bit count of nanoseconds since the epoch.\<close>

definition timestamp :: "64 word \<Rightarrow> string" where
  "timestamp now = int_to_string (sint now)"

definition default_chars :: string where
  "default_chars = ''0123456789abcdefghijklmnopqrstuvwxyz''"

text \<open>
  The two \<open>thread_local static\<close> objects of a thread: the bound of the distribution, set by the
  first call in the thread from the alphabet of that call, and the number of draws made so far.
\<close>

record random_state =
  pick_bound :: "size_t option"
  draws :: nat

definition fresh_random :: random_state where
  "fresh_random = \<lparr> pick_bound = None, draws = 0 \<rparr>"

definition init_pick :: "string \<Rightarrow> random_state \<Rightarrow> random_state" where
  "init_pick chars st =
     (case pick_bound st of
        None \<Rightarrow> st\<lparr> pick_bound := Some (of_nat (length chars) - 1) \<rparr>
      | Some b \<Rightarrow> st)"

text \<open>\<open>chars[i]\<close>: the terminating null at the size, undefined beyond it.\<close>

definition string_index :: "string \<Rightarrow> nat \<Rightarrow> char result" where
  "string_index s i =
     (if i < length s then Inr (s ! i)
      else if i = length s then Inr (CHR 0x00)
      else Inl (Undefined_behaviour ''operator[] past the end of a string''))"

text \<open>
  The loop of \<open>random_string\<close>; \<open>pick b i\<close> is draw number \<open>i\<close> from the uniform distribution on
  \<open>0, \<dots>, b\<close>.
\<close>

fun random_chars ::
    "(size_t \<Rightarrow> nat \<Rightarrow> size_t) \<Rightarrow> string \<Rightarrow> size_t \<Rightarrow> nat \<Rightarrow> nat \<Rightarrow> string result" where
  "random_chars pick chars b i 0 = Inr []"
| "random_chars pick chars b i (Suc n) =
     bind_result (string_index chars (unat (pick b i))) (\<lambda>c.
     bind_result (random_chars pick chars b (Suc i) n) (\<lambda>s. Inr (c # s)))"

definition random_string ::
    "(size_t \<Rightarrow> nat \<Rightarrow> size_t) \<Rightarrow> nat \<Rightarrow> string \<Rightarrow> random_state \<Rightarrow> (string \<times> random_state) result" where
  "random_string pick n chars st0 =
     (let st = init_pick chars st0;
          b = the (pick_bound st)
      in bind_result (random_chars pick chars b (draws st) n) (\<lambda>s.
           Inr (s, st\<lparr> draws := draws st + n \<rparr>)))"

definition unique ::
    "(size_t \<Rightarrow> nat \<Rightarrow> size_t) \<Rightarrow> 64 word \<Rightarrow> nat \<Rightarrow> random_state \<Rightarrow> (string \<times> random_state) result" where
  "unique pick now random_size st =
     bind_result (random_string pick random_size default_chars st) (\<lambda>(s, st').
       Inr (timestamp now @ ''-'' @ s, st'))"

text \<open>What the standard library promises of a draw.\<close>

definition draws_in_range :: "(size_t \<Rightarrow> nat \<Rightarrow> size_t) \<Rightarrow> bool" where
  "draws_in_range pick \<longleftrightarrow> (\<forall>b i. pick b i \<le> b)"

section \<open>Conversions\<close>

type_synonym keys_values = "(string \<times> string) list"

definition to_json :: "keys_values \<Rightarrow> jobject" where
  "to_json kvs = fold (\<lambda>(k, v). om_set k (JString v)) kvs []"

definition to_string :: "jobject \<Rightarrow> string" where
  "to_string m = serialize False (JObject m)"

section \<open>Pinger\<close>

text \<open>The options of a transfer and the result of \<open>curl_easy_perform\<close>, an argument.\<close>

record curl_request =
  curl_url :: string
  curl_nobody :: bool
  curl_timeout_ms :: c_int

record pinger =
  pinger_uri :: string
  pinger_handle :: "curl_request option"

definition new_pinger :: "string \<Rightarrow> pinger" where
  "new_pinger uri =
     \<lparr> pinger_uri = uri,
       pinger_handle = Some \<lparr> curl_url = [], curl_nobody = False, curl_timeout_ms = 0 \<rparr> \<rparr>"

definition ping :: "(curl_request \<Rightarrow> nat) \<Rightarrow> c_int \<Rightarrow> pinger \<Rightarrow> bool \<times> pinger" where
  "ping perform timeout p =
     (let r = \<lparr> curl_url = pinger_uri p, curl_nobody = True, curl_timeout_ms = timeout \<rparr>
      in (perform r = 0, p\<lparr> pinger_handle := Some r \<rparr>))"

definition destroy_pinger :: "pinger \<Rightarrow> pinger" where
  "destroy_pinger p = p\<lparr> pinger_handle := None \<rparr>"

section \<open>Lemmas\<close>

lemma int_to_string_nonempty [simp]: "int_to_string i \<noteq> []"
  by (simp add: int_to_string_def)

lemma hyphen_not_digit [simp]: "\<not> is_digit CHR ''-''"
  by (simp add: is_digit_def)

lemma dec_string_no_hyphen: "CHR ''-'' \<notin> set (dec_string n)"
  using dec_string_digits [of n] by (auto simp: list_all_iff)

text \<open>A numeral followed by a hyphen is recognised in front of any text.\<close>

lemma append_hyphen_inject:
  "CHR ''-'' \<notin> set xs \<Longrightarrow> CHR ''-'' \<notin> set ys \<Longrightarrow>
     xs @ CHR ''-'' # s = ys @ CHR ''-'' # t \<longleftrightarrow> xs = ys \<and> s = t"
proof (induction xs arbitrary: ys)
  case Nil
  then show ?case by (cases ys) auto
next
  case (Cons x xs)
  then show ?case by (cases ys) auto
qed

lemma dec_string_Cons_no_hyphen: "dec_string n = c # s \<Longrightarrow> c \<noteq> CHR ''-''"
  using dec_string_no_hyphen [of n] by auto

lemma int_to_string_hyphen_inject:
  "int_to_string i @ CHR ''-'' # s = int_to_string j @ CHR ''-'' # t \<longleftrightarrow> i = j \<and> s = t"
proof -
  have ne: "CHR ''-'' # u \<noteq> dec_string n @ v" "dec_string n @ v \<noteq> CHR ''-'' # u" for u v n
    by (cases "dec_string n"; auto dest: dec_string_Cons_no_hyphen)+
  show ?thesis
    by (cases "i < 0"; cases "j < 0")
      (auto simp: int_to_string_def append_hyphen_inject dec_string_no_hyphen ne)
qed

lemma random_chars_ok:
  assumes "draws_in_range pick" and "unat b < length chars"
  shows "\<exists>s. random_chars pick chars b i n = Inr s \<and> length s = n \<and> set s \<subseteq> set chars"
proof (induction n arbitrary: i)
  case 0
  show ?case by simp
next
  case (Suc n)
  have "unat (pick b i) < length chars"
    using assms by (meson draws_in_range_def le_less_trans word_le_nat_alt)
  moreover obtain s where "random_chars pick chars b (Suc i) n = Inr s" "length s = n"
      "set s \<subseteq> set chars"
    using Suc.IH by blast
  ultimately show ?case
    by (simp add: string_index_def)
qed

lemma json_wf_om_set_string:
  "json_wf (JObject m) \<Longrightarrow> json_wf (JObject (om_set k (JString v) m))"
  by (rule json_wf_om_set) simp_all

lemma to_json_wf: "json_wf (JObject (to_json kvs))"
proof -
  have *: "json_wf (JObject (fold (\<lambda>(k, v). om_set k (JString v)) kvs m))"
    if "json_wf (JObject m)" for m
    using that
  proof (induction kvs arbitrary: m)
    case (Cons kv kvs)
    then show ?case
      using json_wf_om_set_string [of m "fst kv" "snd kv"]
      by (simp only: fold_simps comp_apply case_prod_beta)
  qed (simp only: fold_simps id_apply)
  show ?thesis
    unfolding to_json_def by (rule *) simp
qed

lemma to_json_as_store:
  "to_json kvs = fold (\<lambda>(k, v). om_set k v) (map (\<lambda>(k, v). (k, JString v)) kvs) []"
  unfolding to_json_def fold_map by (rule fold_cong) auto

lemma om_find_to_json: "om_find (to_json kvs) k = map_option JString (map_of (rev kvs) k)"
proof -
  have "map_of (rev (map (\<lambda>(k, v). (k, JString v)) kvs)) k
      = map_option JString (map_of (rev kvs) k)"
    by (simp add: rev_map map_of_map)
  then show ?thesis
    by (simp add: to_json_as_store om.lookup_store_all split: option.split)
qed

lemma parse_to_string: "json_wf (JObject m) \<Longrightarrow> parse out (to_string m) = Inr (JObject m, [])"
  unfolding to_string_def by (rule parse_serialize)

lemma to_string_inject:
  assumes "json_wf (JObject m)" and "json_wf (JObject m')" and "to_string m = to_string m'"
  shows "m = m'"
proof -
  have "parse JNull (to_string m) = Inr (JObject m, [])"
    using assms(1) by (rule parse_to_string)
  moreover have "parse JNull (to_string m) = Inr (JObject m', [])"
    unfolding assms(3) using assms(2) by (rule parse_to_string)
  ultimately show ?thesis by simp
qed

text \<open>The first random string of a thread has the requested length and letters of its alphabet
  only, provided the alphabet is not empty.\<close>

lemma random_string_first_call:
  assumes "draws_in_range pick" and "chars \<noteq> []" and "length chars < 2 ^ 64"
  shows "\<exists>s st. random_string pick n chars fresh_random = Inr (s, st) \<and> length s = n \<and>
           set s \<subseteq> set chars \<and> pick_bound st = Some (of_nat (length chars - 1))"
proof -
  define b :: size_t where "b = of_nat (length chars) - 1"
  have b: "b = of_nat (length chars - 1)"
    using assms(2) by (simp add: b_def of_nat_diff Suc_leI)
  have "unat b = length chars - 1"
    unfolding b using assms(3) by (simp add: unsigned_of_nat take_bit_nat_eq_self)
  then have "unat b < length chars"
    using assms(2) by simp
  from random_chars_ok [OF assms(1) this, of 0 n] obtain s where
    "random_chars pick chars b 0 n = Inr s" "length s = n" "set s \<subseteq> set chars"
    by blast
  then show ?thesis
    by (simp add: random_string_def init_pick_def fresh_random_def Let_def flip: b_def)
      (simp add: b)
qed

text \<open>The bound of the draws is fixed by the first call in the thread, so a later call with a
  shorter alphabet can index past its end, although every draw is in range.\<close>

lemma random_string_stale_bound:
  "\<exists>pick s st e. draws_in_range pick \<and>
     random_string pick 4 default_chars fresh_random = Inr (s, st) \<and>
     random_string pick 1 ''ab'' st = Inl (Undefined_behaviour e)"
proof -
  have "draws_in_range (\<lambda>b i. b)"
    by (simp add: draws_in_range_def)
  moreover have "random_string (\<lambda>b i. b) 4 default_chars fresh_random =
      Inr (''zzzz'', \<lparr> pick_bound = Some 35, draws = 4 \<rparr>)"
    by code_simp
  moreover have "random_string (\<lambda>b i. b) 1 ''ab'' \<lparr> pick_bound = Some 35, draws = 4 \<rparr> =
      Inl (Undefined_behaviour ''operator[] past the end of a string'')"
    by code_simp
  ultimately show ?thesis
    by blast
qed

text \<open>Two identifiers made at different times differ, whatever the random draws, on any two
  threads or machines.\<close>

lemma unique_differs:
  assumes "unique pick now n st = Inr (s, st1)" and "unique pick' now' n' st' = Inr (s', st1')"
    and "now \<noteq> now'"
  shows "s \<noteq> s'"
proof
  assume "s = s'"
  then have "int_to_string (sint now) @ CHR ''-'' # u = int_to_string (sint now') @ CHR ''-'' # v"
    if "s = timestamp now @ ''-'' @ u" "s' = timestamp now' @ ''-'' @ v" for u v
    using that by (simp add: timestamp_def)
  moreover obtain u where "s = timestamp now @ ''-'' @ u"
    using assms(1) by (auto simp: unique_def bind_result_Inr_iff split: prod.splits)
  moreover obtain v where "s' = timestamp now' @ ''-'' @ v"
    using assms(2) by (auto simp: unique_def bind_result_Inr_iff split: prod.splits)
  ultimately have "sint now = sint now'"
    using int_to_string_hyphen_inject by blast
  then show False
    using assms(3) by (simp add: signed_word_eqI)
qed

lemma unique_differs_witness:
  "\<exists>s st s' st'. unique (\<lambda>b i. 0) 5 2 fresh_random = Inr (s, st) \<and>
     unique (\<lambda>b i. 1) 6 2 fresh_random = Inr (s', st') \<and> s \<noteq> s'"
proof -
  have s: "unique (\<lambda>b i. 0) 5 2 fresh_random = Inr (''5-00'', \<lparr> pick_bound = Some 35, draws = 2 \<rparr>)"
    by code_simp
  have s': "unique (\<lambda>b i. 1) 6 2 fresh_random = Inr (''6-11'', \<lparr> pick_bound = Some 35, draws = 2 \<rparr>)"
    by code_simp
  show ?thesis
    using unique_differs [OF s s'] s s' by simp
qed

text \<open>An object built from key-value pairs has the last value given for each key, and its text
  parses back to it.\<close>

lemma to_json_keeps_last:
  "om_find (to_json kvs) k = map_option JString (map_of (rev kvs) k) \<and>
   parse out (to_string (to_json kvs)) = Inr (JObject (to_json kvs), [])"
  using om_find_to_json parse_to_string [OF to_json_wf] by blast

end
