(* ===== verification/Messages.thy ===== *)
theory Messages
  imports Op Utils
begin

text \<open>
  \<open>serializer.h\<close> and \<open>unserializer.h\<close>: the classes that build the messages of the rosbridge
  protocol and the class that reads a received one. The default argument \<open>unique()\<close> of the
  constructors is evaluated by the caller, so every constructor takes the identifier.
\<close>

section \<open>Serializer\<close>

record serializer =
  json :: jobject

text \<open>\<open>this->json[key] = value\<close>.\<close>

definition set_json :: "string \<Rightarrow> jvalue \<Rightarrow> serializer \<Rightarrow> serializer" where
  "set_json k v s = s\<lparr> json := om_set k v (json s) \<rparr>"

definition Serializer :: "op \<Rightarrow> string \<Rightarrow> serializer" where
  "Serializer opn ident =
     set_json ''id'' (JString ident) (set_json ''op'' (JString (op_to_string opn)) \<lparr> json = [] \<rparr>)"

definition serializer_id :: "serializer \<Rightarrow> string result" where
  "serializer_id s = bind_result (value_get (JObject (json s)) ''id'') (\<lambda>v. Inr (to_str v))"

definition serialized :: "serializer \<Rightarrow> string" where
  "serialized s = to_string (json s)"

definition serializer_eq :: "serializer \<Rightarrow> serializer \<Rightarrow> bool" where
  "serializer_eq s s' \<longleftrightarrow> serialized s = serialized s'"

definition SerializerTopicAdvertise :: "string \<Rightarrow> string \<Rightarrow> string \<Rightarrow> serializer" where
  "SerializerTopicAdvertise ident topic ty =
     set_json ''type'' (JString ty) (set_json ''topic'' (JString topic)
       (Serializer TopicAdvertiseOp ident))"

definition SerializerTopicUnadvertise :: "string \<Rightarrow> string \<Rightarrow> serializer" where
  "SerializerTopicUnadvertise ident topic =
     set_json ''topic'' (JString topic) (Serializer TopicUnadvertiseOp ident)"

definition SerializerTopicMessage :: "string \<Rightarrow> string \<Rightarrow> jobject \<Rightarrow> serializer" where
  "SerializerTopicMessage ident topic msg =
     set_json ''msg'' (JObject msg) (set_json ''topic'' (JString topic)
       (Serializer TopicPublishOp ident))"

definition SerializerTopicSubscribe :: "string \<Rightarrow> string \<Rightarrow> string \<Rightarrow> c_int \<Rightarrow> serializer" where
  "SerializerTopicSubscribe ident topic ty queue_length =
     set_json ''queue_length'' (JNumber (double_of_int (sint queue_length)))
       (set_json ''type'' (JString ty) (set_json ''topic'' (JString topic)
         (Serializer TopicSubscribeOp ident)))"

definition SerializerTopicUnsubscribe :: "string \<Rightarrow> string \<Rightarrow> serializer" where
  "SerializerTopicUnsubscribe ident topic =
     set_json ''topic'' (JString topic) (Serializer TopicUnsubscribeOp ident)"

definition SerializerServiceAdvertise :: "string \<Rightarrow> string \<Rightarrow> string \<Rightarrow> serializer" where
  "SerializerServiceAdvertise ident service ty =
     set_json ''type'' (JString ty) (set_json ''service'' (JString service)
       (Serializer ServiceAdvertiseOp ident))"

definition SerializerServiceUnadvertise :: "string \<Rightarrow> string \<Rightarrow> serializer" where
  "SerializerServiceUnadvertise ident service =
     set_json ''service'' (JString service) (Serializer ServiceUnadvertiseOp ident)"

definition SerializerServiceRequest :: "string \<Rightarrow> string \<Rightarrow> jobject \<Rightarrow> serializer" where
  "SerializerServiceRequest ident service args =
     set_json ''args'' (JObject args) (set_json ''service'' (JString service)
       (Serializer ServiceCallOp ident))"

definition SerializerServiceResponse ::
    "string \<Rightarrow> jobject \<Rightarrow> bool \<Rightarrow> string \<Rightarrow> serializer" where
  "SerializerServiceResponse service values result ident =
     set_json ''values'' (JObject values) (set_json ''result'' (JBool result)
       (set_json ''service'' (JString service) (Serializer ServiceResponseOp ident)))"

section \<open>Unserializer\<close>

record unserializer =
  content :: jobject

text \<open>
  The text is parsed and its object copied; the parser's error message is only logged, after the
  copy.
\<close>

definition Unserializer :: "string \<Rightarrow> unserializer result" where
  "Unserializer message =
     bind_result (parse JNull message) (\<lambda>(v, err).
     bind_result (get_object v) (\<lambda>m. Inr \<lparr> content = m \<rparr>))"

text \<open>
  The accessors are not \<open>const\<close>: \<open>this->json[key]\<close> stores a null under a missing key. So an
  accessor returns its result, or the exception, and the object as it leaves it.
\<close>

type_synonym 'a accessor = "unserializer \<Rightarrow> 'a result \<times> unserializer"

definition field :: "string \<Rightarrow> jvalue accessor" where
  "field k u = (case om_index JNull k (content u) of (v, m) \<Rightarrow> (Inr v, u\<lparr> content := m \<rparr>))"

definition and_then :: "'a accessor \<Rightarrow> ('a \<Rightarrow> 'b accessor) \<Rightarrow> 'b accessor" where
  "and_then f g u = (case f u of (Inl e, u') \<Rightarrow> (Inl e, u') | (Inr x, u') \<Rightarrow> g x u')"

definition lifted :: "'a result \<Rightarrow> 'a accessor" where
  "lifted r u = (r, u)"

definition msg_id :: "string accessor" where
  "msg_id =
     and_then (field ''id'') (\<lambda>v.
       if \<not> is_type String_type v then lifted (Inr [])
       else and_then (field ''id'') (\<lambda>w. lifted (get_string w)))"

definition msg_type :: "op accessor" where
  "msg_type =
     and_then (field ''op'') (\<lambda>v. and_then (lifted (get_string v)) (\<lambda>s.
       lifted (Inr (stringToOP s))))"

definition no_field :: "string \<Rightarrow> exn" where
  "no_field name =
     Runtime_error (''Message of this type does not contain '' @ [CHR 0x27] @ name @ [CHR 0x27] @
       '' field.'')"

definition msg_result :: "bool accessor" where
  "msg_result =
     and_then msg_type (\<lambda>t.
       if t \<noteq> ServiceResponseOp then lifted (Inl (no_field ''result''))
       else and_then (field ''result'') (\<lambda>v. lifted (get_bool v)))"

definition msg_topic :: "string accessor" where
  "msg_topic =
     and_then msg_type (\<lambda>t.
       if \<not> isTopicOP t then lifted (Inl (no_field ''topic''))
       else and_then (field ''topic'') (\<lambda>v. lifted (get_string v)))"

definition msg_service :: "string accessor" where
  "msg_service =
     and_then msg_type (\<lambda>t.
       if \<not> isServiceOP t then lifted (Inl (no_field ''service''))
       else and_then (field ''service'') (\<lambda>v. lifted (get_string v)))"

definition msg_data :: "unserializer \<Rightarrow> string" where
  "msg_data u = to_string (content u)"

definition msg_payload :: "jobject accessor" where
  "msg_payload =
     and_then msg_type (\<lambda>t.
       if TopicPublishOp = t then and_then (field ''msg'') (\<lambda>v. lifted (get_object v))
       else and_then msg_type (\<lambda>t.
         if ServiceCallOp = t then and_then (field ''args'') (\<lambda>v. lifted (get_object v))
         else and_then msg_type (\<lambda>t.
           if ServiceResponseOp = t then and_then (field ''values'') (\<lambda>v. lifted (get_object v))
           else lifted (Inr []))))"

definition unserializer_eq :: "unserializer \<Rightarrow> unserializer \<Rightarrow> bool" where
  "unserializer_eq u u' \<longleftrightarrow> members_eq (content u) (content u')"

section \<open>Reading does not change what is read\<close>

text \<open>What an accessor sees under a key: a missing key reads as null.\<close>

definition seen :: "unserializer \<Rightarrow> string \<Rightarrow> jvalue" where
  "seen u k = (case om_find (content u) k of Some v \<Rightarrow> v | None \<Rightarrow> JNull)"

definition looks_same :: "unserializer \<Rightarrow> unserializer \<Rightarrow> bool" where
  "looks_same u u' \<longleftrightarrow> (\<forall>k. seen u k = seen u' k)"

lemma looks_same_refl [simp]: "looks_same u u"
  by (simp add: looks_same_def)

lemma looks_same_trans: "looks_same u u' \<Longrightarrow> looks_same u' u'' \<Longrightarrow> looks_same u u''"
  by (simp add: looks_same_def)

lemma field_result: "fst (field k u) = Inr (seen u k)"
  by (auto simp: field_def seen_def om_index_def split: option.splits)

lemma field_same: "looks_same (snd (field k u)) u"
  by (simp add: looks_same_def field_def seen_def om_index_def split: option.split)

text \<open>
  An accessor is pure up to \<open>looks_same\<close> if its result is a function of what is seen and the
  object it leaves looks the same.
\<close>

definition pure_reader :: "'a accessor \<Rightarrow> bool" where
  "pure_reader f \<longleftrightarrow>
     (\<forall>u. looks_same (snd (f u)) u) \<and> (\<forall>u u'. looks_same u u' \<longrightarrow> fst (f u) = fst (f u'))"

named_theorems pure_intros "composition of pure readers"

lemma pure_field [pure_intros]: "pure_reader (field k)"
  unfolding pure_reader_def field_result using field_same by (simp add: looks_same_def)

lemma pure_lifted [pure_intros]: "pure_reader (lifted r)"
  by (simp add: pure_reader_def lifted_def)

lemma pure_readerD:
  "pure_reader f \<Longrightarrow> looks_same (snd (f u)) u"
  "pure_reader f \<Longrightarrow> looks_same u u' \<Longrightarrow> fst (f u) = fst (f u')"
  by (simp_all add: pure_reader_def)

lemma and_then_cases:
  "(\<exists>e. fst (f u) = Inl e \<and> and_then f g u = (Inl e, snd (f u))) \<or>
   (\<exists>x. fst (f u) = Inr x \<and> and_then f g u = g x (snd (f u)))"
  by (cases "f u"; cases "fst (f u)") (auto simp: and_then_def)

lemma pure_and_then [pure_intros]:
  assumes f: "pure_reader f" and g: "\<And>x. pure_reader (g x)"
  shows "pure_reader (and_then f g)"
  unfolding pure_reader_def
proof (intro conjI allI impI)
  fix u
  show "looks_same (snd (and_then f g u)) u"
    using and_then_cases [of f u g] pure_readerD(1) [OF f, of u]
      looks_same_trans [OF pure_readerD(1) [OF g] pure_readerD(1) [OF f, of u]]
    by auto
next
  fix u u' assume same: "looks_same u u'"
  then have "fst (f u) = fst (f u')"
    by (rule pure_readerD(2) [OF f])
  moreover have "looks_same (snd (f u)) (snd (f u'))"
    using pure_readerD(1) [OF f, of u] pure_readerD(1) [OF f, of u'] same
    by (simp add: looks_same_def)
  ultimately show "fst (and_then f g u) = fst (and_then f g u')"
    using and_then_cases [of f u g] and_then_cases [of f u' g] pure_readerD(2) [OF g]
    by auto
qed

lemma pure_if [pure_intros]:
  "pure_reader f \<Longrightarrow> pure_reader g \<Longrightarrow> pure_reader (if b then f else g)"
  by simp

lemma accessors_pure [pure_intros]:
  "pure_reader msg_id" "pure_reader msg_type"
  by (auto simp: msg_id_def msg_type_def intro!: pure_intros)

lemma accessors_pure' [pure_intros]:
  "pure_reader msg_result" "pure_reader msg_topic" "pure_reader msg_service"
  "pure_reader msg_payload"
  by (auto simp: msg_result_def msg_topic_def msg_service_def msg_payload_def
      intro!: pure_intros)

lemma pure_reader_result:
  "pure_reader f \<Longrightarrow> pure_reader g \<Longrightarrow> fst (f (snd (g u))) = fst (f u)"
  by (meson pure_readerD)

lemma fst_and_then:
  assumes "pure_reader f" and g: "\<And>x. pure_reader (g x)"
  shows "fst (and_then f g u) = bind_result (fst (f u)) (\<lambda>x. fst (g x u))"
  using and_then_cases [of f u g] pure_readerD(2) [OF g pure_readerD(1) [OF assms(1), of u]]
  by auto

lemma fst_lifted [simp]: "fst (lifted r u) = r"
  by (simp add: lifted_def)

text \<open>The results of the accessors as functions of what is seen.\<close>

lemma msg_id_result:
  "fst (msg_id u) = (case seen u ''id'' of JString s \<Rightarrow> Inr s | _ \<Rightarrow> Inr [])"
  by (simp add: msg_id_def fst_and_then pure_intros field_result is_type_def
      split: jvalue.split)

lemma msg_type_result:
  "fst (msg_type u) = bind_result (get_string (seen u ''op'')) (\<lambda>s. Inr (stringToOP s))"
  by (simp add: msg_type_def fst_and_then pure_intros field_result)

lemma msg_result_result:
  "fst (msg_result u) =
     bind_result (fst (msg_type u)) (\<lambda>t.
       if t \<noteq> ServiceResponseOp then Inl (no_field ''result'') else get_bool (seen u ''result''))"
  by (simp add: msg_result_def fst_and_then pure_intros field_result if_distrib [of "\<lambda>f. fst (f u)"]
      cong: if_cong)

lemma msg_topic_result:
  "fst (msg_topic u) =
     bind_result (fst (msg_type u)) (\<lambda>t.
       if \<not> isTopicOP t then Inl (no_field ''topic'') else get_string (seen u ''topic''))"
  by (simp add: msg_topic_def fst_and_then pure_intros field_result if_distrib [of "\<lambda>f. fst (f u)"]
      cong: if_cong)

lemma msg_service_result:
  "fst (msg_service u) =
     bind_result (fst (msg_type u)) (\<lambda>t.
       if \<not> isServiceOP t then Inl (no_field ''service'') else get_string (seen u ''service''))"
  by (simp add: msg_service_def fst_and_then pure_intros field_result
      if_distrib [of "\<lambda>f. fst (f u)"] cong: if_cong)

lemma msg_payload_result:
  "fst (msg_payload u) =
     bind_result (fst (msg_type u)) (\<lambda>t.
       if t = TopicPublishOp then get_object (seen u ''msg'')
       else if t = ServiceCallOp then get_object (seen u ''args'')
       else if t = ServiceResponseOp then get_object (seen u ''values'')
       else Inr [])"
  by (cases "fst (msg_type u)")
    (simp_all add: msg_payload_def fst_and_then pure_intros field_result
      if_distrib [of "\<lambda>f. fst (f u)"] cong: if_cong)

lemmas accessor_results = msg_id_result msg_type_result msg_result_result msg_topic_result
  msg_service_result msg_payload_result

section \<open>The messages of the protocol\<close>

text \<open>What a message says, whatever the class that builds or reads it.\<close>

datatype message =
    Topic_advertise string string
  | Topic_unadvertise string
  | Topic_message string jobject
  | Topic_subscribe string string c_int
  | Topic_unsubscribe string
  | Service_advertise string string
  | Service_unadvertise string
  | Service_request string jobject
  | Service_response string jobject bool

fun message_op :: "message \<Rightarrow> op" where
  "message_op (Topic_advertise t ty) = TopicAdvertiseOp"
| "message_op (Topic_unadvertise t) = TopicUnadvertiseOp"
| "message_op (Topic_message t p) = TopicPublishOp"
| "message_op (Topic_subscribe t ty n) = TopicSubscribeOp"
| "message_op (Topic_unsubscribe t) = TopicUnsubscribeOp"
| "message_op (Service_advertise s ty) = ServiceAdvertiseOp"
| "message_op (Service_unadvertise s) = ServiceUnadvertiseOp"
| "message_op (Service_request s p) = ServiceCallOp"
| "message_op (Service_response s p b) = ServiceResponseOp"

text \<open>The topic or the service the message is about.\<close>

fun message_name :: "message \<Rightarrow> string" where
  "message_name (Topic_advertise t ty) = t"
| "message_name (Topic_unadvertise t) = t"
| "message_name (Topic_message t p) = t"
| "message_name (Topic_subscribe t ty n) = t"
| "message_name (Topic_unsubscribe t) = t"
| "message_name (Service_advertise s ty) = s"
| "message_name (Service_unadvertise s) = s"
| "message_name (Service_request s p) = s"
| "message_name (Service_response s p b) = s"

fun message_payload :: "message \<Rightarrow> jobject" where
  "message_payload (Topic_message t p) = p"
| "message_payload (Service_request s p) = p"
| "message_payload (Service_response s p b) = p"
| "message_payload _ = []"

fun message_outcome :: "message \<Rightarrow> bool option" where
  "message_outcome (Service_response s p b) = Some b"
| "message_outcome _ = None"

fun serializer_of :: "string \<Rightarrow> message \<Rightarrow> serializer" where
  "serializer_of i (Topic_advertise t ty) = SerializerTopicAdvertise i t ty"
| "serializer_of i (Topic_unadvertise t) = SerializerTopicUnadvertise i t"
| "serializer_of i (Topic_message t p) = SerializerTopicMessage i t p"
| "serializer_of i (Topic_subscribe t ty n) = SerializerTopicSubscribe i t ty n"
| "serializer_of i (Topic_unsubscribe t) = SerializerTopicUnsubscribe i t"
| "serializer_of i (Service_advertise s ty) = SerializerServiceAdvertise i s ty"
| "serializer_of i (Service_unadvertise s) = SerializerServiceUnadvertise i s"
| "serializer_of i (Service_request s p) = SerializerServiceRequest i s p"
| "serializer_of i (Service_response s p b) = SerializerServiceResponse s p b i"

lemmas serializer_defs = Serializer_def SerializerTopicAdvertise_def
  SerializerTopicUnadvertise_def SerializerTopicMessage_def SerializerTopicSubscribe_def
  SerializerTopicUnsubscribe_def SerializerServiceAdvertise_def
  SerializerServiceUnadvertise_def SerializerServiceRequest_def SerializerServiceResponse_def

definition serializer_wf :: "serializer \<Rightarrow> bool" where
  "serializer_wf s \<longleftrightarrow> json_wf (JObject (json s))"

lemma json_set_json [simp]: "json (set_json k v s) = om_set k v (json s)"
  by (simp add: set_json_def)

lemma serializer_wf_set_json [intro]:
  "serializer_wf s \<Longrightarrow> json_wf v \<Longrightarrow> serializer_wf (set_json k v s)"
  unfolding serializer_wf_def json_set_json by (rule json_wf_om_set)

lemma serializer_wf_Serializer [intro]: "serializer_wf (Serializer x i)"
  unfolding Serializer_def by (intro serializer_wf_set_json) (simp_all add: serializer_wf_def)

lemma double_of_c_int: "is_finite (double_of_int (sint (n :: c_int)))"
proof (rule double_str_of_int(2))
  show "\<bar>sint n\<bar> < 2 ^ 53"
    using sint_ge [of n] sint_lt [of n] by simp
qed

lemma serializer_of_wf:
  "json_wf (JObject (message_payload m)) \<Longrightarrow> serializer_wf (serializer_of i m)"
  by (cases m)
    (auto simp: serializer_defs(2-) double_of_c_int double_of_int_wf
      simp del: json_wf.simps(6) intro!: serializer_wf_set_json serializer_wf_Serializer)

text \<open>A message survives the wire.\<close>

lemma Unserializer_serialized:
  assumes "serializer_wf s"
  shows "Unserializer (serialized s) = Inr \<lparr> content = json s \<rparr>"
  using parse_to_string [OF assms [unfolded serializer_wf_def], of JNull]
  by (simp add: Unserializer_def serialized_def)

lemma serializer_id_of: "serializer_id (serializer_of i m) = Inr i"
  by (cases m) (simp_all add: serializer_id_def serializer_defs)

section \<open>Any text\<close>

text \<open>
  What the constructor does with an arbitrary text: a well-formed object, or one of two exceptions.
\<close>

lemma Unserializer_outcome:
  "(\<exists>u. Unserializer s = Inr u \<and> json_wf (JObject (content u))) \<or>
   Unserializer s = Inl Overflow_error \<or> Unserializer s = Inl (type_mismatch ''object'')"
proof (cases "parse JNull s")
  case (Inl e)
  then show ?thesis
    using parse_error [OF Inl] by (simp add: Unserializer_def)
next
  case (Inr r)
  obtain v err where r: "r = (v, err)" by fastforce
  have "json_wf v"
    using parse_result_wf [OF Inr [unfolded r]] by simp
  then show ?thesis
    by (cases v) (simp_all add: Unserializer_def Inr r)
qed

lemma Unserializer_cut:
  assumes "json_wf (JObject m)" and "m \<noteq> []"
  shows "Unserializer (cut_after m) = Inr \<lparr> content = m \<rparr>"
  using parse_cut [OF assms, of JNull] by (auto simp: Unserializer_def)

text \<open>What the accessors see in the object of a message.\<close>

definition received :: "string \<Rightarrow> message \<Rightarrow> unserializer" where
  "received i m = \<lparr> content = json (serializer_of i m) \<rparr>"

lemma seen_op: "seen (received i m) ''op'' = JString (op_to_string (message_op m))"
  by (cases m) (simp_all add: received_def seen_def serializer_defs)

lemma seen_id: "seen (received i m) ''id'' = JString i"
  by (cases m) (simp_all add: received_def seen_def serializer_defs)

lemma seen_topic: "isTopicOP (message_op m) \<Longrightarrow> seen (received i m) ''topic'' = JString (message_name m)"
  by (cases m) (simp_all add: received_def seen_def serializer_defs)

lemma seen_service: "isServiceOP (message_op m) \<Longrightarrow> seen (received i m) ''service'' = JString (message_name m)"
  by (cases m) (simp_all add: received_def seen_def serializer_defs)

lemma seen_payload:
  "message_op m = TopicPublishOp \<Longrightarrow> seen (received i m) ''msg'' = JObject (message_payload m)"
  "message_op m = ServiceCallOp \<Longrightarrow> seen (received i m) ''args'' = JObject (message_payload m)"
  "message_op m = ServiceResponseOp \<Longrightarrow> seen (received i m) ''values'' = JObject (message_payload m)"
  by (cases m; simp add: received_def seen_def serializer_defs)+

lemma seen_result:
  "message_outcome m = Some b \<Longrightarrow> seen (received i m) ''result'' = JBool b"
  by (cases m) (simp_all add: received_def seen_def serializer_defs)

lemma message_outcome_op: "message_outcome m = None \<longleftrightarrow> message_op m \<noteq> ServiceResponseOp"
  by (cases m) simp_all

lemma message_payload_none:
  "message_op m \<notin> {TopicPublishOp, ServiceCallOp, ServiceResponseOp} \<Longrightarrow> message_payload m = []"
  by (cases m) simp_all

lemma received_type [simp]: "fst (msg_type (received i m)) = Inr (message_op m)"
  by (simp add: msg_type_result seen_op)

lemma received_fields:
  "fst (msg_id (received i m)) = Inr i"
  "fst (msg_topic (received i m)) =
      (if isTopicOP (message_op m) then Inr (message_name m) else Inl (no_field ''topic''))"
  "fst (msg_service (received i m)) =
      (if isServiceOP (message_op m) then Inr (message_name m) else Inl (no_field ''service''))"
  "fst (msg_payload (received i m)) = Inr (message_payload m)"
  "fst (msg_result (received i m)) =
      (case message_outcome m of Some b \<Rightarrow> Inr b | None \<Rightarrow> Inl (no_field ''result''))"
proof -
  show "fst (msg_id (received i m)) = Inr i"
    by (simp add: msg_id_result seen_id)
  show "fst (msg_topic (received i m)) =
      (if isTopicOP (message_op m) then Inr (message_name m) else Inl (no_field ''topic''))"
    by (simp add: msg_topic_result seen_topic)
  show "fst (msg_service (received i m)) =
      (if isServiceOP (message_op m) then Inr (message_name m) else Inl (no_field ''service''))"
    by (simp add: msg_service_result seen_service)
  show "fst (msg_payload (received i m)) = Inr (message_payload m)"
    using message_payload_none [of m] by (auto simp: msg_payload_result seen_payload)
  show "fst (msg_result (received i m)) =
      (case message_outcome m of Some b \<Rightarrow> Inr b | None \<Rightarrow> Inl (no_field ''result''))"
    using message_outcome_op [of m]
    by (cases "message_outcome m") (simp_all add: msg_result_result seen_result)
qed

lemma Unserializer_received:
  "json_wf (JObject (message_payload m)) \<Longrightarrow> Unserializer (serialized (serializer_of i m)) = Inr (received i m)"
  unfolding received_def by (rule Unserializer_serialized) (rule serializer_of_wf)

section \<open>Properties\<close>

text \<open>C2: Every message of the protocol survives the wire: the text of the object that its class builds
  is read back without an exception, and the accessors return the identifier, the operation, the
  topic or service, the payload and the result it was built from, or refuse as documented.\<close>

theorem message_round_trip:
  assumes "json_wf (JObject (message_payload m))"
  shows "\<exists>u. Unserializer (serialized (serializer_of i m)) = Inr u \<and>
    fst (msg_id u) = Inr i \<and> fst (msg_type u) = Inr (message_op m) \<and>
    fst (msg_topic u) =
      (if isTopicOP (message_op m) then Inr (message_name m) else Inl (no_field ''topic'')) \<and>
    fst (msg_service u) =
      (if isServiceOP (message_op m) then Inr (message_name m) else Inl (no_field ''service'')) \<and>
    fst (msg_payload u) = Inr (message_payload m) \<and>
    fst (msg_result u) =
      (case message_outcome m of Some b \<Rightarrow> Inr b | None \<Rightarrow> Inl (no_field ''result''))"
  using Unserializer_received [OF assms] received_fields [of i m] received_type [of i m] by blast

theorem message_round_trip_witness:
  "\<exists>u. Unserializer (serialized (SerializerServiceResponse ''/add'' [(''sum'', JBool True)] True ''7'')) = Inr u \<and>
     fst (msg_id u) = Inr ''7'' \<and> fst (msg_service u) = Inr ''/add'' \<and>
     fst (msg_payload u) = Inr [(''sum'', JBool True)] \<and> fst (msg_result u) = Inr True"
  using message_round_trip [of "Service_response ''/add'' [(''sum'', JBool True)] True" "''7''"]
  by (auto simp: om_wf_def)

text \<open>Reading never changes what is read: after any accessor the object looks the same, and all
  accessors return the same results on objects that look the same.\<close>

lemma accessors_are_pure:
  assumes "looks_same u u'"
  shows "fst (msg_id u) = fst (msg_id u') \<and> fst (msg_type u) = fst (msg_type u') \<and>
    fst (msg_topic u) = fst (msg_topic u') \<and> fst (msg_service u) = fst (msg_service u') \<and>
    fst (msg_payload u) = fst (msg_payload u') \<and> fst (msg_result u) = fst (msg_result u') \<and>
    looks_same (snd (msg_id u)) u \<and> looks_same (snd (msg_type u)) u \<and>
    looks_same (snd (msg_topic u)) u \<and> looks_same (snd (msg_service u)) u \<and>
    looks_same (snd (msg_payload u)) u \<and> looks_same (snd (msg_result u)) u"
  by (intro conjI pure_readerD(1) pure_readerD(2) [OF _ assms] accessors_pure accessors_pure')

lemma accessors_are_pure_witness:
  "fst (msg_id \<lparr> content = [] \<rparr>) = fst (msg_id \<lparr> content = [(''id'', JNull)] \<rparr>)"
proof -
  have "looks_same \<lparr> content = [] \<rparr> \<lparr> content = [(''id'', JNull)] \<rparr>"
    by (simp add: looks_same_def seen_def)
  then show ?thesis
    using accessors_are_pure by blast
qed

text \<open>The textual comparison of two messages to send decides whether their objects are equal.\<close>

lemma serializer_eq_iff:
  assumes "serializer_wf s" and "serializer_wf s'"
  shows "serializer_eq s s' = (s = s')"
  using to_string_inject [of "json s" "json s'"] assms
  by (cases s; cases s') (auto simp: serializer_eq_def serialized_def serializer_wf_def)

text \<open>C26: Whatever text arrives, reading it gives a well-formed object, the overflow exception of a
  number, or the type error of a text that is no object, and nothing else.\<close>

theorem unserializer_total:
  "case Unserializer s of
     Inl e \<Rightarrow> e = Overflow_error \<or> e = type_mismatch ''object''
   | Inr u \<Rightarrow> json_wf (JObject (content u))"
  using Unserializer_outcome [of s] by (auto split: sum.split)

text \<open>The text of a message cut off after any of its members is accepted as a message: the parser's
  error is only logged, and the message has just the members up to the cut.\<close>

lemma truncated_message_accepted:
  assumes "json_wf (JObject (m @ m'))" and "m \<noteq> []"
  shows "\<exists>rest. rest \<noteq> [] \<and> to_string (m @ m') = cut_after m @ rest \<and>
    Unserializer (cut_after m) = Inr \<lparr> content = m \<rparr>"
proof -
  have "json_wf (JObject m)"
    using assms(1) by (simp add: om_wf_def sorted_wrt_append)
  then show ?thesis
    using cut_after_prefix [of m m'] Unserializer_cut [OF _ assms(2)] by (auto simp: to_string_def)
qed

lemma truncated_message_accepted_witness:
  "Unserializer (cut_after [(''op'', JString ''publish'')]) = Inr \<lparr> content = [(''op'', JString ''publish'')] \<rparr>"
  using truncated_message_accepted [of "[(''op'', JString ''publish'')]" "[(''topic'', JString ''/t'')]"]
  by (auto simp: om_wf_def)

end
