(* ===== verification/Queues.thy ===== *)
theory Queues
  imports Messages
begin

text \<open>
  \<open>queues.h\<close> and \<open>queues.cpp\<close>: the queue of the messages to send, with a head message that is
  sent again after every connection, and the queue of the received messages. Every operation that
  takes the lock is atomic and is one function here. Calls outside the contract of
  \<open>std::queue\<close> and \<open>std::list\<close> are undefined behaviour.
\<close>

section \<open>The loop that enforces the bound\<close>

text \<open>\<open>while (q.size() > q_size) q.pop()\<close>: the signed size is converted to \<open>size_t\<close>.\<close>

function pop_excess :: "c_int \<Rightarrow> 'a list \<Rightarrow> 'a list" where
  "pop_excess n q = (if unat (int_to_size n) < length q then pop_excess n (tl q) else q)"
  by pat_completeness auto
termination
  by (relation "measure (\<lambda>(n, q). length q)") auto

declare pop_excess.simps [simp del]

definition queue_bound :: "c_int \<Rightarrow> nat" where
  "queue_bound n = unat (int_to_size n)"

lemma pop_excess_keep_last: "pop_excess n q = keep_last (queue_bound n) q"
proof (induction n q rule: pop_excess.induct)
  case (1 n q)
  show ?case
  proof (cases "queue_bound n < length q")
    case True
    then obtain x q' where q: "q = x # q'" by (cases q) auto
    have "length q - queue_bound n = Suc (length q' - queue_bound n)"
      using True q by simp
    then have "keep_last (queue_bound n) q = keep_last (queue_bound n) q'"
      by (simp add: keep_last_def q)
    with True show ?thesis
      using 1 by (subst pop_excess.simps) (simp add: q queue_bound_def)
  next
    case False
    then show ?thesis
      by (subst pop_excess.simps) (simp add: queue_bound_def)
  qed
qed

lemma queue_bound_nonneg: "0 \<le> sint n \<Longrightarrow> queue_bound n = nat (sint n)"
  by (simp add: queue_bound_def int_to_size_nonneg)

lemma queue_bound_neg: "sint n < 0 \<Longrightarrow> 2 ^ 63 \<le> queue_bound n"
  unfolding queue_bound_def by (rule int_to_size_neg)

section \<open>TalkerQueue\<close>

record talker_queue =
  tq_size :: c_int
  head_msg :: serializer
  head_popped :: bool
  tq :: "serializer list"
  tq_orphan :: bool

definition TalkerQueue :: "c_int \<Rightarrow> serializer \<Rightarrow> talker_queue" where
  "TalkerQueue n h =
     \<lparr> tq_size = n, head_msg = h, head_popped = False, tq = [], tq_orphan = False \<rparr>"

definition tq_push :: "serializer \<Rightarrow> talker_queue \<Rightarrow> talker_queue" where
  "tq_push msg t = t\<lparr> tq := pop_excess (tq_size t) (tq t @ [msg]) \<rparr>"

definition tq_pop :: "talker_queue \<Rightarrow> talker_queue result" where
  "tq_pop t =
     (if head_popped t
      then (case tq t of
              [] \<Rightarrow> Inl (Undefined_behaviour ''pop() of an empty queue'')
            | m # ms \<Rightarrow> Inr (t\<lparr> tq := ms \<rparr>))
      else Inr (t\<lparr> head_popped := True \<rparr>))"

definition tq_next :: "talker_queue \<Rightarrow> serializer result" where
  "tq_next t =
     (if head_popped t
      then (case tq t of
              [] \<Rightarrow> Inl (Undefined_behaviour ''front() of an empty queue'')
            | m # ms \<Rightarrow> Inr m)
      else Inr (head_msg t))"

definition tq_empty :: "talker_queue \<Rightarrow> bool" where
  "tq_empty t \<longleftrightarrow> head_popped t \<and> tq t = []"

definition tq_reset :: "talker_queue \<Rightarrow> talker_queue" where
  "tq_reset t = t\<lparr> head_popped := False \<rparr>"

definition tq_abandon :: "talker_queue \<Rightarrow> talker_queue" where
  "tq_abandon t = t\<lparr> tq_orphan := True \<rparr>"

definition tq_isOrphan :: "talker_queue \<Rightarrow> bool" where
  "tq_isOrphan t \<longleftrightarrow> tq_orphan t"

section \<open>ListenerQueue\<close>

record listener_queue =
  lq_size :: c_int
  lq :: "unserializer list"
  lq_orphan :: bool

definition ListenerQueue :: "c_int \<Rightarrow> listener_queue" where
  "ListenerQueue n = \<lparr> lq_size = n, lq = [], lq_orphan = False \<rparr>"

definition lq_push :: "unserializer \<Rightarrow> listener_queue \<Rightarrow> listener_queue" where
  "lq_push u l = l\<lparr> lq := pop_excess (lq_size l) (lq l @ [u]) \<rparr>"

definition lq_next :: "listener_queue \<Rightarrow> unserializer result" where
  "lq_next l =
     (case lq l of
        [] \<Rightarrow> Inl (Undefined_behaviour ''front() of an empty list'')
      | u # us \<Rightarrow> Inr u)"

definition lq_pop :: "listener_queue \<Rightarrow> listener_queue result" where
  "lq_pop l =
     (case lq l of
        [] \<Rightarrow> Inl (Undefined_behaviour ''pop_front() of an empty list'')
      | u # us \<Rightarrow> Inr (l\<lparr> lq := us \<rparr>))"

definition lq_empty :: "listener_queue \<Rightarrow> bool" where
  "lq_empty l \<longleftrightarrow> lq l = []"

text \<open>\<open>find_if\<close> with the test \<open>element.id() == id\<close>, which may store a null in the elements it passes.\<close>

fun find_by_id :: "string \<Rightarrow> unserializer list \<Rightarrow> unserializer option result \<times> unserializer list" where
  "find_by_id i [] = (Inr None, [])"
| "find_by_id i (u # us) =
     (case msg_id u of
        (Inl e, u') \<Rightarrow> (Inl e, u' # us)
      | (Inr j, u') \<Rightarrow>
          if j = i then (Inr (Some u'), u' # us)
          else (case find_by_id i us of (r, us') \<Rightarrow> (r, u' # us')))"

definition lq_nextById ::
    "string \<Rightarrow> listener_queue \<Rightarrow> unserializer option result \<times> listener_queue" where
  "lq_nextById i l = (case find_by_id i (lq l) of (r, us) \<Rightarrow> (r, l\<lparr> lq := us \<rparr>))"

text \<open>
  \<open>remove_if\<close>: the elements that fail the test are copied to the front, in order; the class has
  no move assignment, so the positions behind them keep the elements they had. The result is the
  position behind the copies and the list.
\<close>

definition remove_if :: "('a \<Rightarrow> bool) \<Rightarrow> 'a list \<Rightarrow> nat \<times> 'a list" where
  "remove_if P xs =
     (let kept = filter (\<lambda>x. \<not> P x) xs in (length kept, kept @ drop (length kept) xs))"

definition has_id :: "string \<Rightarrow> unserializer \<Rightarrow> bool" where
  "has_id i u \<longleftrightarrow> fst (msg_id u) = Inr i"

text \<open>\<open>q.erase(iter)\<close> erases the one element at the position, which must not be the end.\<close>

definition erase_at :: "nat \<Rightarrow> 'a list \<Rightarrow> 'a list result" where
  "erase_at k xs =
     (if k < length xs then Inr (take k xs @ drop (Suc k) xs)
      else Inl (Undefined_behaviour ''erase(end())''))"

definition lq_popById :: "string \<Rightarrow> listener_queue \<Rightarrow> listener_queue result" where
  "lq_popById i l =
     (case remove_if (has_id i) (map (\<lambda>u. snd (msg_id u)) (lq l)) of (k, us) \<Rightarrow>
        bind_result (erase_at k us) (\<lambda>us'. Inr (l\<lparr> lq := us' \<rparr>)))"

definition lq_abandon :: "listener_queue \<Rightarrow> listener_queue" where
  "lq_abandon l = l\<lparr> lq_orphan := True \<rparr>"

definition lq_isOrphan :: "listener_queue \<Rightarrow> bool" where
  "lq_isOrphan l \<longleftrightarrow> lq_orphan l"

section \<open>The contracts of the queues\<close>

text \<open>
  Taking messages one by one, as every consumer of the program does: \<open>next\<close>, then \<open>pop\<close>.
\<close>

fun drain :: "('q \<Rightarrow> 'a result) \<Rightarrow> ('q \<Rightarrow> 'q result) \<Rightarrow> nat \<Rightarrow> 'q \<Rightarrow> ('a list \<times> 'q) result" where
  "drain nxt pop 0 q = Inr ([], q)"
| "drain nxt pop (Suc n) q =
     bind_result (nxt q) (\<lambda>x. bind_result (pop q) (\<lambda>q'.
     bind_result (drain nxt pop n q') (\<lambda>(xs, q''). Inr (x # xs, q''))))"

text \<open>What a consumer relies on: an abstract sequence of pending messages.\<close>

locale consumable =
  fixes nxt :: "'q \<Rightarrow> 'a result"
    and pop :: "'q \<Rightarrow> 'q result"
    and is_empty :: "'q \<Rightarrow> bool"
    and pending :: "'q \<Rightarrow> 'a list"
  assumes empty_iff: "is_empty q \<longleftrightarrow> pending q = []"
    and next_Cons: "pending q = x # xs \<Longrightarrow> nxt q = Inr x"
    and pop_Cons: "pending q = x # xs \<Longrightarrow> \<exists>q'. pop q = Inr q' \<and> pending q' = xs"
    and next_Nil: "pending q = [] \<Longrightarrow> \<exists>e. nxt q = Inl (Undefined_behaviour e)"
    and pop_Nil: "pending q = [] \<Longrightarrow> \<exists>e. pop q = Inl (Undefined_behaviour e)"
begin

text \<open>The guard of the consumers is exactly what makes \<open>next\<close> and \<open>pop\<close> defined.\<close>

lemma defined_iff:
  "(\<exists>x. nxt q = Inr x) \<longleftrightarrow> \<not> is_empty q"
  "(\<exists>q'. pop q = Inr q') \<longleftrightarrow> \<not> is_empty q"
proof -
  show "(\<exists>x. nxt q = Inr x) \<longleftrightarrow> \<not> is_empty q"
    using next_Nil [of q] next_Cons [of q] by (cases "pending q") (auto simp: empty_iff)
  show "(\<exists>q'. pop q = Inr q') \<longleftrightarrow> \<not> is_empty q"
    using pop_Nil [of q] pop_Cons [of q] by (cases "pending q") (auto simp: empty_iff)
qed

lemma drain_prefix:
  "n \<le> length (pending q) \<Longrightarrow>
     \<exists>q'. drain nxt pop n q = Inr (take n (pending q), q') \<and> pending q' = drop n (pending q)"
proof (induction n arbitrary: q)
  case 0
  then show ?case by simp
next
  case (Suc n)
  then obtain x xs where q: "pending q = x # xs" by (cases "pending q") auto
  then obtain q' where q': "pop q = Inr q'" "pending q' = xs"
    using pop_Cons by blast
  then obtain q'' where "drain nxt pop n q' = Inr (take n xs, q'')" "pending q'' = drop n xs"
    using Suc q by auto
  then show ?case
    using next_Cons [OF q] q q' by simp
qed

lemma drain_all: "\<exists>q'. drain nxt pop (length (pending q)) q = Inr (pending q, q') \<and> is_empty q'"
  using drain_prefix [of "length (pending q)" q] by (auto simp: empty_iff)

lemma drain_too_many:
  "length (pending q) < n \<Longrightarrow> \<exists>e. drain nxt pop n q = Inl (Undefined_behaviour e)"
proof (induction n arbitrary: q)
  case 0
  then show ?case by simp
next
  case (Suc n)
  show ?case
  proof (cases "pending q")
    case Nil
    then show ?thesis using next_Nil [of q] by auto
  next
    case (Cons x xs)
    then obtain q' where "pop q = Inr q'" "pending q' = xs"
      using pop_Cons by blast
    then show ?thesis
      using Suc Cons next_Cons [OF Cons] by fastforce
  qed
qed

end

text \<open>
  What a producer relies on: the pending messages are a header the producer does not touch and a
  body of bounded length, of which the oldest messages give way.
\<close>

locale bounded_buffer = consumable +
  fixes enq :: "'b \<Rightarrow> 'a \<Rightarrow> 'a"
    and header :: "'a \<Rightarrow> 'b list"
    and body :: "'a \<Rightarrow> 'b list"
    and bound :: "'a \<Rightarrow> nat"
  assumes pending_split: "pending q = header q @ body q"
    and header_enq: "header (enq x q) = header q"
    and body_enq: "body (enq x q) = keep_last (bound q) (body q @ [x])"
    and bound_enq: "bound (enq x q) = bound q"
begin

lemma bound_enq_all: "bound (fold enq xs q) = bound q"
  by (induction xs arbitrary: q) (simp_all add: bound_enq)

lemma header_enq_all: "header (fold enq xs q) = header q"
  by (induction xs arbitrary: q) (simp_all add: header_enq)

lemma body_enq_all:
  "length (body q) \<le> bound q \<Longrightarrow>
     body (fold enq xs q) = keep_last (bound q) (body q @ xs)"
proof (induction xs arbitrary: q)
  case Nil
  then show ?case by simp
next
  case (Cons x xs)
  then show ?case
    using keep_last_append [of "bound q" "body q @ [x]" xs]
    by (simp add: body_enq bound_enq)
qed

lemma bounded_enq_all: "length (body q) \<le> bound q \<Longrightarrow> length (body (fold enq xs q)) \<le> bound q"
  by (simp add: body_enq_all)

text \<open>All that a consumer gets after a burst of messages.\<close>

lemma burst:
  assumes "length (body q) \<le> bound q"
  shows "\<exists>q'. drain nxt pop (length (header q) + min (bound q) (length (body q) + length xs))
                (fold enq xs q) = Inr (header q @ keep_last (bound q) (body q @ xs), q') \<and>
              is_empty q'"
  using drain_all [of "fold enq xs q"]
  by (simp add: pending_split header_enq_all body_enq_all assms)

end

section \<open>Both queues keep the contracts\<close>

definition tq_header :: "talker_queue \<Rightarrow> serializer list" where
  "tq_header t = (if head_popped t then [] else [head_msg t])"

definition tq_pending :: "talker_queue \<Rightarrow> serializer list" where
  "tq_pending t = tq_header t @ tq t"

interpretation tq: bounded_buffer tq_next tq_pop tq_empty tq_pending tq_push tq_header tq
  "\<lambda>t. queue_bound (tq_size t)"
  by unfold_locales
    (auto simp: tq_pending_def tq_header_def tq_empty_def tq_next_def tq_pop_def tq_push_def
      pop_excess_keep_last split: list.splits if_splits)

interpretation lq: bounded_buffer lq_next lq_pop lq_empty lq lq_push "\<lambda>l. []" lq
  "\<lambda>l. queue_bound (lq_size l)"
  by unfold_locales
    (auto simp: lq_empty_def lq_next_def lq_pop_def lq_push_def pop_excess_keep_last
      split: list.splits)

section \<open>Search by identifier\<close>

lemma has_id_touched [simp]: "has_id i (snd (msg_id u)) = has_id i u"
  unfolding has_id_def
  using pure_reader_result [OF accessors_pure(1) accessors_pure(1), of u] by simp

lemma find_by_id_result:
  "fst (find_by_id i us) = Inr (map_option (\<lambda>u. snd (msg_id u)) (List.find (has_id i) us))"
proof (induction us)
  case Nil
  show ?case by simp
next
  case (Cons u us)
  obtain r u' where m: "msg_id u = (r, u')" by fastforce
  obtain j where "r = Inr j"
    using msg_id_result [of u] m by (auto split: jvalue.splits)
  with Cons m show ?case
    by (cases "find_by_id i us") (simp add: has_id_def)
qed

lemma looks_same_msg_id: "looks_same (snd (msg_id u)) u"
  by (rule pure_readerD(1) [OF accessors_pure(1)])

lemma find_by_id_same: "list_all2 looks_same (snd (find_by_id i us)) us"
proof (induction us)
  case Nil
  show ?case by simp
next
  case (Cons u us)
  have refl: "list_all2 looks_same us us"
    by (simp add: list_all2_same)
  obtain r u' where m: "msg_id u = (r, u')" by fastforce
  then have "looks_same u' u"
    using looks_same_msg_id [of u] by simp
  then show ?case
    using Cons m refl by (cases "find_by_id i us") (simp split: sum.split)
qed

lemma filter_touched:
  "filter (\<lambda>u. \<not> has_id i u) (map (\<lambda>u. snd (msg_id u)) us) =
     map (\<lambda>u. snd (msg_id u)) (filter (\<lambda>u. \<not> has_id i u) us)"
  by (induction us) simp_all

lemma length_filter_one:
  "filter P xs = [x] \<Longrightarrow> Suc (length (filter (\<lambda>x. \<not> P x) xs)) = length xs"
  using sum_length_filter_compl [of P xs] by simp

section \<open>Properties\<close>

text \<open>C20: A queue of non-negative size hands out its head message and then the last messages
  pushed, at most as many as its size, oldest first, each once; then it is empty.\<close>

theorem talker_queue_delivers:
  assumes "0 \<le> sint n"
  shows "\<exists>t. drain tq_next tq_pop (Suc (min (nat (sint n)) (length msgs)))
              (fold tq_push msgs (TalkerQueue n h)) = Inr (h # keep_last (nat (sint n)) msgs, t) \<and>
            tq_empty t"
  using tq.burst [of "TalkerQueue n h" msgs] assms
  by (simp add: TalkerQueue_def tq_header_def queue_bound_nonneg)

theorem talker_queue_delivers_witness:
  "\<exists>t. drain tq_next tq_pop 3
         (fold tq_push [Serializer TopicPublishOp ''1'', Serializer TopicPublishOp ''2'',
            Serializer TopicPublishOp ''3''] (TalkerQueue 2 (Serializer TopicAdvertiseOp ''0''))) =
       Inr ([Serializer TopicAdvertiseOp ''0'', Serializer TopicPublishOp ''2'',
             Serializer TopicPublishOp ''3''], t) \<and> tq_empty t"
  using talker_queue_delivers [of 2 "[Serializer TopicPublishOp ''1'', Serializer TopicPublishOp ''2'',
      Serializer TopicPublishOp ''3'']" "Serializer TopicAdvertiseOp ''0''"]
  by (simp add: keep_last_def numeral_3_eq_3)

text \<open>A negative size is converted to an enormous one: the queue never drops a message.\<close>

lemma talker_queue_negative_size:
  assumes "sint n < 0" and "length msgs < 2 ^ 63"
  shows "\<exists>t. drain tq_next tq_pop (Suc (length msgs)) (fold tq_push msgs (TalkerQueue n h)) =
              Inr (h # msgs, t) \<and> tq_empty t"
proof -
  have "length msgs \<le> queue_bound n"
    using queue_bound_neg [OF assms(1)] assms(2) by linarith
  then show ?thesis
    using tq.burst [of "TalkerQueue n h" msgs]
    by (simp add: TalkerQueue_def tq_header_def min_absorb2)
qed

lemma talker_queue_negative_size_witness:
  "\<exists>t. drain tq_next tq_pop (Suc 1)
         (fold tq_push [Serializer TopicPublishOp ''1''] (TalkerQueue (- 1) (Serializer TopicAdvertiseOp ''0''))) =
       Inr ([Serializer TopicAdvertiseOp ''0'', Serializer TopicPublishOp ''1''], t) \<and> tq_empty t"
  using talker_queue_negative_size [of "- 1" "[Serializer TopicPublishOp ''1'']"
      "Serializer TopicAdvertiseOp ''0''"]
  by (simp del: drain.simps)

text \<open>After \<open>reset\<close> the head message comes first again, whatever has been sent before, and the
  messages that were pending follow it unchanged.\<close>

lemma talker_queue_reset:
  "\<exists>t'. drain tq_next tq_pop (Suc (length (tq t))) (tq_reset t) = Inr (head_msg t # tq t, t') \<and>
        tq_empty t'"
  using tq.drain_all [of "tq_reset t"]
  by (simp add: tq_pending_def tq_header_def tq_reset_def)

text \<open>\<open>next\<close> and \<open>pop\<close> of both queues are defined exactly when \<open>empty\<close> says no, so the
  consumers' test before them is necessary and sufficient.\<close>

lemma queues_defined:
  "((\<exists>m. tq_next t = Inr m) = (\<not> tq_empty t)) \<and> ((\<exists>t'. tq_pop t = Inr t') = (\<not> tq_empty t)) \<and>
   ((\<exists>u. lq_next l = Inr u) = (\<not> lq_empty l)) \<and> ((\<exists>l'. lq_pop l = Inr l') = (\<not> lq_empty l))"
  by (intro conjI tq.defined_iff lq.defined_iff)

text \<open>A listener queue hands out the last messages received, at most as many as its size, in
  the order of arrival; one more \<open>next\<close> would be undefined.\<close>

lemma listener_queue_delivers:
  assumes "0 \<le> sint n"
  shows "(\<exists>l. drain lq_next lq_pop (min (nat (sint n)) (length us)) (fold lq_push us (ListenerQueue n)) =
              Inr (keep_last (nat (sint n)) us, l) \<and> lq_empty l) \<and>
         (\<exists>e. drain lq_next lq_pop (Suc (min (nat (sint n)) (length us)))
              (fold lq_push us (ListenerQueue n)) = Inl (Undefined_behaviour e))"
proof
  have l: "lq (fold lq_push us (ListenerQueue n)) = keep_last (nat (sint n)) us"
    using lq.body_enq_all [of "ListenerQueue n" us] assms
    by (simp add: ListenerQueue_def queue_bound_nonneg)
  show "\<exists>l. drain lq_next lq_pop (min (nat (sint n)) (length us)) (fold lq_push us (ListenerQueue n)) =
              Inr (keep_last (nat (sint n)) us, l) \<and> lq_empty l"
    using lq.drain_all [of "fold lq_push us (ListenerQueue n)"] by (simp add: l)
  show "\<exists>e. drain lq_next lq_pop (Suc (min (nat (sint n)) (length us)))
              (fold lq_push us (ListenerQueue n)) = Inl (Undefined_behaviour e)"
    by (rule lq.drain_too_many) (simp add: l)
qed

text \<open>\<open>nextById\<close> never raises; it finds the first message with the identifier if there is one,
  and no accessor can tell the messages of the queue from what they were.\<close>

lemma nextById_finds_first:
  "fst (lq_nextById i l) = Inr (map_option (\<lambda>u. snd (msg_id u)) (List.find (has_id i) (lq l))) \<and>
   list_all2 looks_same (lq (snd (lq_nextById i l))) (lq l)"
  using find_by_id_result [of i "lq l"] find_by_id_same [of i "lq l"]
  by (cases "find_by_id i (lq l)") (simp add: lq_nextById_def)

text \<open>When exactly one message has the identifier, \<open>popById\<close> removes it and keeps the others in
  order.\<close>

lemma popById_unique:
  assumes "filter (has_id i) (lq l) = [u]"
  shows "lq_popById i l =
    Inr (l\<lparr> lq := map (\<lambda>u. snd (msg_id u)) (filter (\<lambda>u. \<not> has_id i u) (lq l)) \<rparr>)"
proof -
  have "Suc (length (filter (\<lambda>u. \<not> has_id i u) (lq l))) = length (lq l)"
    by (rule length_filter_one [OF assms])
  then show ?thesis
    by (simp add: lq_popById_def remove_if_def Let_def filter_touched erase_at_def)
qed

text \<open>With two matches in front of another message, \<open>popById\<close> leaves that other message twice
  and both matches are gone.\<close>

lemma popById_two_matches:
  assumes "lq l = [u, v, w]" and "has_id i u" and "has_id i v" and "\<not> has_id i w"
  shows "lq_popById i l = Inr (l\<lparr> lq := [snd (msg_id w), snd (msg_id w)] \<rparr>)"
  using assms by (simp add: lq_popById_def remove_if_def erase_at_def)

lemma popById_two_matches_witness:
  "lq_popById ''a'' \<lparr> lq_size = 5, lq = [\<lparr> content = [(''id'', JString ''a'')] \<rparr>,
       \<lparr> content = [(''id'', JString ''a'')] \<rparr>, \<lparr> content = [(''id'', JString ''b'')] \<rparr>],
       lq_orphan = False \<rparr> =
     Inr \<lparr> lq_size = 5, lq = [\<lparr> content = [(''id'', JString ''b'')] \<rparr>,
       \<lparr> content = [(''id'', JString ''b'')] \<rparr>], lq_orphan = False \<rparr>"
proof -
  have "has_id ''a'' \<lparr> content = [(''id'', JString ''a'')] \<rparr>"
    "\<not> has_id ''a'' \<lparr> content = [(''id'', JString ''b'')] \<rparr>"
    "snd (msg_id \<lparr> content = [(''id'', JString ''b'')] \<rparr>) = \<lparr> content = [(''id'', JString ''b'')] \<rparr>"
    by code_simp+
  then show ?thesis
    using popById_two_matches [of "\<lparr> lq_size = 5, lq = [\<lparr> content = [(''id'', JString ''a'')] \<rparr>,
       \<lparr> content = [(''id'', JString ''a'')] \<rparr>, \<lparr> content = [(''id'', JString ''b'')] \<rparr>],
       lq_orphan = False \<rparr>"]
    by simp
qed

text \<open>With no match \<open>popById\<close> erases \<open>end()\<close>.\<close>

lemma popById_no_match:
  assumes "\<forall>u \<in> set (lq l). \<not> has_id i u"
  shows "\<exists>e. lq_popById i l = Inl (Undefined_behaviour e)"
proof -
  have "filter (\<lambda>u. \<not> has_id i u) (lq l) = lq l"
    using assms by simp
  then show ?thesis
    by (simp add: lq_popById_def remove_if_def Let_def filter_touched erase_at_def)
qed

end
