(* ===== verification/Timer.thy ===== *)
theory Timer
  imports Main
begin

text \<open>
  The class \<open>Timer\<close> of \<open>utils.cpp\<close>: an atomic flag \<open>_execute\<close> and a \<open>std::thread\<close>
  that calls a function, sleeps and calls it again while the flag is set. The owner and the
  worker run concurrently, so the operations are broken up into the atomic actions that the other
  thread can come between: the store of the flag, the join, the worker's test, call and sleep. An
  exception that leaves the function in the worker ends the program with \<open>std::terminate\<close>. The
  creation of a \<open>std::thread\<close> is taken to succeed.
\<close>

section \<open>State and actions\<close>

text \<open>Where the worker is in its loop; \<open>Finished\<close> is a thread that has left its function.\<close>

datatype worker = At_test | In_call | Asleep | Finished

text \<open>
  What the owner is doing: between operations, waiting in the \<open>join\<close> of \<open>stop\<close> (called by
  itself, by \<open>start\<close> or by the destructor), after the destructor, or stopped by
  \<open>std::terminate\<close>.
\<close>

datatype owner = Idle | Join_in_stop | Join_in_start | Join_in_destructor | Destroyed | Terminated

record timer =
  execute :: bool
  thd :: "worker option"
  owner :: owner

definition new_timer :: timer where
  "new_timer = \<lparr> execute = False, thd = None, owner = Idle \<rparr>"

definition joinable :: "timer \<Rightarrow> bool" where
  "joinable t \<longleftrightarrow> thd t \<noteq> None"

definition is_running :: "timer \<Rightarrow> bool" where
  "is_running t \<longleftrightarrow> execute t \<and> joinable t"

datatype action = Call_start | Call_stop | Call_destructor | Join_returns | Worker_runs | Worker_throws

text \<open>Assigning a new thread to a joinable \<open>std::thread\<close> ends the program.\<close>

definition launch :: "timer \<Rightarrow> timer" where
  "launch t =
     (let t' = t\<lparr> execute := True \<rparr>
      in if joinable t' then t'\<lparr> owner := Terminated \<rparr>
         else t'\<lparr> thd := Some At_test, owner := Idle \<rparr>)"

text \<open>\<open>stop\<close>: the store, then a join if the thread is joinable; \<open>waiting\<close> and \<open>after\<close> say who called.\<close>

definition stop_then :: "owner \<Rightarrow> (timer \<Rightarrow> timer) \<Rightarrow> timer \<Rightarrow> timer" where
  "stop_then waiting after t =
     (let t' = t\<lparr> execute := False \<rparr>
      in if joinable t' then t'\<lparr> owner := waiting \<rparr> else after t')"

definition return_from_stop :: "timer \<Rightarrow> timer" where
  "return_from_stop t = t\<lparr> owner := Idle \<rparr>"

text \<open>Destroying a joinable \<open>std::thread\<close> ends the program.\<close>

definition destroy_members :: "timer \<Rightarrow> timer" where
  "destroy_members t = t\<lparr> owner := (if joinable t then Terminated else Destroyed) \<rparr>"

definition timer_start :: "timer \<Rightarrow> timer" where
  "timer_start t = (if execute t then stop_then Join_in_start launch t else launch t)"

definition timer_stop :: "timer \<Rightarrow> timer" where
  "timer_stop t = stop_then Join_in_stop return_from_stop t"

definition timer_destructor :: "timer \<Rightarrow> timer" where
  "timer_destructor t =
     (if execute t then stop_then Join_in_destructor destroy_members t else destroy_members t)"

text \<open>What follows the join in the operation that waits in it.\<close>

fun after_join :: "owner \<Rightarrow> timer \<Rightarrow> timer" where
  "after_join Join_in_stop t = return_from_stop t"
| "after_join Join_in_start t = launch t"
| "after_join Join_in_destructor t = destroy_members t"
| "after_join _ t = t"

text \<open>One action of the worker: the test, the call of the function when it returns, the sleep.\<close>

fun worker_step :: "bool \<Rightarrow> worker \<Rightarrow> worker" where
  "worker_step flag At_test = (if flag then In_call else Finished)"
| "worker_step flag In_call = Asleep"
| "worker_step flag Asleep = At_test"
| "worker_step flag Finished = Finished"

definition is_joining :: "owner \<Rightarrow> bool" where
  "is_joining w \<longleftrightarrow> w = Join_in_stop \<or> w = Join_in_start \<or> w = Join_in_destructor"

fun timer_act :: "action \<Rightarrow> timer \<Rightarrow> timer option" where
  "timer_act Call_start t = (if owner t = Idle then Some (timer_start t) else None)"
| "timer_act Call_stop t = (if owner t = Idle then Some (timer_stop t) else None)"
| "timer_act Call_destructor t = (if owner t = Idle then Some (timer_destructor t) else None)"
| "timer_act Join_returns t =
     (if is_joining (owner t) \<and> thd t = Some Finished
      then Some (after_join (owner t) (t\<lparr> thd := None \<rparr>)) else None)"
| "timer_act Worker_runs t =
     (case thd t of
        None \<Rightarrow> None
      | Some w \<Rightarrow>
          if w = Finished \<or> owner t = Terminated then None
          else Some (t\<lparr> thd := Some (worker_step (execute t) w) \<rparr>))"
| "timer_act Worker_throws t =
     (if thd t = Some In_call \<and> owner t \<noteq> Terminated then Some (t\<lparr> owner := Terminated \<rparr>) else None)"

text \<open>The actions that end a call of the function.\<close>

definition ends_call :: "action \<Rightarrow> timer \<Rightarrow> nat" where
  "ends_call a t = (if (a = Worker_runs \<or> a = Worker_throws) \<and> thd t = Some In_call then 1 else 0)"

text \<open>A run of a timer under a schedule, with the number of calls of the function.\<close>

fun timer_run :: "action list \<Rightarrow> timer \<Rightarrow> (nat \<times> timer) option" where
  "timer_run [] t = Some (0, t)"
| "timer_run (a # as) t =
     (case timer_act a t of
        None \<Rightarrow> None
      | Some t' \<Rightarrow>
          (case timer_run as t' of
             None \<Rightarrow> None
           | Some (n, t'') \<Rightarrow>
               Some (ends_call a t + n, t'')))"

section \<open>Reachable timers\<close>

inductive timer_step :: "timer \<Rightarrow> timer \<Rightarrow> bool" where
  act: "timer_act a t = Some t' \<Longrightarrow> timer_step t t'"

inductive_cases timer_stepE: "timer_step t t'"

definition timer_inv :: "timer \<Rightarrow> bool" where
  "timer_inv t \<longleftrightarrow>
     (case owner t of
        Idle \<Rightarrow> execute t = joinable t
      | Destroyed \<Rightarrow> \<not> execute t \<and> \<not> joinable t
      | Terminated \<Rightarrow> thd t = Some In_call
      | _ \<Rightarrow> \<not> execute t \<and> joinable t) \<and>
     (thd t = Some Finished \<longrightarrow> \<not> execute t)"

lemmas timer_defs = timer_inv_def joinable_def is_running_def is_joining_def timer_start_def
  timer_stop_def timer_destructor_def stop_then_def launch_def return_from_stop_def
  destroy_members_def Let_def

lemma timer_inv_new: "timer_inv new_timer"
  by (simp add: new_timer_def timer_defs)

text \<open>An action keeps the invariant, and the program is ended by an exception of the function only.\<close>

lemma timer_inv_act:
  assumes "timer_act a t = Some t'" and "timer_inv t"
  shows "timer_inv t' \<and> (owner t' = Terminated \<longleftrightarrow> a = Worker_throws)"
proof (cases a)
  case Join_returns
  with assms show ?thesis by (cases "owner t") (auto simp: timer_defs split: if_splits)
next
  case Worker_runs
  with assms obtain w where w: "thd t = Some w" "owner t \<noteq> Terminated" "w \<noteq> Finished"
      "t' = t\<lparr> thd := Some (worker_step (execute t) w) \<rparr>"
    by (auto split: option.splits if_splits)
  then show ?thesis
    using assms(2) Worker_runs by (cases w; cases "owner t") (auto simp: timer_defs)
next
  case Call_start
  with assms have "owner t = Idle" "t' = timer_start t" by (auto split: if_splits)
  with assms(2) Call_start show ?thesis by (cases "execute t") (auto simp: timer_defs)
next
  case Call_stop
  with assms have "owner t = Idle" "t' = timer_stop t" by (auto split: if_splits)
  with assms(2) Call_stop show ?thesis by (cases "execute t") (auto simp: timer_defs)
next
  case Call_destructor
  with assms have "owner t = Idle" "t' = timer_destructor t" by (auto split: if_splits)
  with assms(2) Call_destructor show ?thesis by (cases "execute t") (auto simp: timer_defs)
next
  case Worker_throws
  with assms show ?thesis by (auto simp: timer_defs split: if_splits)
qed

lemma act_terminated: "owner t = Terminated \<Longrightarrow> timer_act a t = None"
  by (cases a) (auto simp: is_joining_def split: option.split)

lemma run_terminates:
  "\<lbrakk>timer_run as t = Some (n, t'); timer_inv t; owner t \<noteq> Terminated\<rbrakk> \<Longrightarrow>
     timer_inv t' \<and> (owner t' = Terminated \<longleftrightarrow> Worker_throws \<in> set as)"
proof (induction as arbitrary: t n)
  case (Cons a as)
  obtain t1 m where t1: "timer_act a t = Some t1" "timer_run as t1 = Some (m, t')"
    using Cons.prems(1) by (auto split: option.splits prod.splits)
  note inv = timer_inv_act [OF t1(1) Cons.prems(2)]
  show ?case
  proof (cases "a = Worker_throws")
    case True
    then show ?thesis using inv t1(2) act_terminated [of t1] by (cases as) auto
  next
    case False
    then show ?thesis using Cons.IH [OF t1(2)] inv by auto
  qed
qed simp

lemma timer_inv_reachable: "timer_step\<^sup>*\<^sup>* new_timer t \<Longrightarrow> timer_inv t"
proof (induction rule: rtranclp_induct)
  case base
  show ?case by (rule timer_inv_new)
next
  case (step t t')
  then show ?case
    by (auto elim!: timer_stepE dest: timer_inv_act)
qed

section \<open>After a stop\<close>

text \<open>Calls of the function still possible when the flag is down.\<close>

definition calls_left :: "timer \<Rightarrow> nat" where
  "calls_left t = (if thd t = Some In_call \<and> owner t \<noteq> Terminated then 1 else 0)"

definition start_pending :: "timer \<Rightarrow> bool" where
  "start_pending t \<longleftrightarrow> owner t = Join_in_start"

lemma act_after_stop:
  assumes "timer_act a t = Some t'" and "\<not> execute t" and "a \<noteq> Call_start" and "\<not> start_pending t"
  shows "\<not> execute t' \<and> \<not> start_pending t' \<and>
    calls_left t' + ends_call a t \<le> calls_left t"
proof (cases a)
  case Join_returns
  with assms show ?thesis
    by (cases "owner t") (auto simp: timer_defs start_pending_def calls_left_def ends_call_def split: if_splits)
next
  case Worker_runs
  with assms show ?thesis
    by (cases "thd t"; cases "the (thd t)")
      (auto simp: start_pending_def calls_left_def ends_call_def split: if_splits)
qed (use assms in \<open>auto simp: timer_defs start_pending_def calls_left_def ends_call_def split: if_splits\<close>)

lemma run_after_stop:
  "timer_run as t = Some (n, t') \<Longrightarrow> \<not> execute t \<Longrightarrow> Call_start \<notin> set as \<Longrightarrow> \<not> start_pending t \<Longrightarrow>
     n + calls_left t' \<le> calls_left t \<and> \<not> execute t'"
proof (induction as arbitrary: t n)
  case (Cons a as)
  obtain t1 where t1: "timer_act a t = Some t1"
    using Cons.prems(1) by (auto split: option.splits)
  obtain n1 where n1: "timer_run as t1 = Some (n1, t')"
      "n = ends_call a t + n1"
    using Cons.prems(1) t1 by (auto split: option.splits prod.splits)
  have "\<not> execute t1 \<and> \<not> start_pending t1 \<and>
      calls_left t1 + ends_call a t \<le> calls_left t"
    using act_after_stop [OF t1] Cons.prems(2-4) by auto
  then show ?case
    using Cons.IH [OF n1(1)] Cons.prems(3) n1(2) by auto
qed simp

section \<open>Properties\<close>

text \<open>C28: However the owner's operations and the worker interleave, the only way of a timer into
  \<open>std::terminate\<close> is an exception that leaves the function in the worker, which the loop does not
  catch; no joinable thread is ever overwritten or destroyed. Between operations \<open>is_running\<close> tells
  whether there is a thread, and after the destructor there is none.\<close>

theorem timer_terminates_only_by_callback:
  assumes "timer_run as new_timer = Some (n, t)"
  shows "(owner t = Terminated \<longleftrightarrow> Worker_throws \<in> set as) \<and>
    (owner t = Terminated \<longrightarrow> thd t = Some In_call) \<and>
    (owner t = Idle \<longrightarrow> is_running t = joinable t) \<and> (owner t = Destroyed \<longrightarrow> thd t = None)"
proof -
  have "owner new_timer \<noteq> Terminated" by (simp add: new_timer_def)
  with run_terminates [OF assms timer_inv_new] show ?thesis
    by (auto simp: timer_inv_def is_running_def joinable_def split: owner.splits)
qed

theorem timer_terminates_only_by_callback_witness:
  "(\<exists>t. timer_run [Call_start, Worker_runs, Worker_throws] new_timer = Some (1, t) \<and> owner t = Terminated) \<and>
   (\<exists>t. timer_run [Call_start, Call_start, Worker_runs, Join_returns, Worker_runs, Worker_runs, Call_destructor,
       Worker_runs, Worker_runs, Join_returns] new_timer = Some (1, t) \<and> owner t \<noteq> Terminated \<and> thd t = None)"
proof -
  let ?as = "[Call_start, Worker_runs, Worker_throws]"
  let ?bs = "[Call_start, Call_start, Worker_runs, Join_returns, Worker_runs, Worker_runs, Call_destructor,
    Worker_runs, Worker_runs, Join_returns]"
  obtain t where t: "timer_run ?as new_timer = Some (1, t)"
    by (simp add: new_timer_def timer_defs ends_call_def)
  obtain u where u: "timer_run ?bs new_timer = Some (1, u)" "owner u = Destroyed"
    by (simp add: new_timer_def timer_defs ends_call_def)
  show ?thesis
    using timer_terminates_only_by_callback [OF t] timer_terminates_only_by_callback [OF u(1)] t u by auto
qed

text \<open>Once \<open>stop\<close> has been called, the function is called at most once more before the next
  \<open>start\<close>, and not at all once the join has returned.\<close>

lemma timer_stop_stops:
  assumes "timer_step\<^sup>*\<^sup>* new_timer t" and "timer_run (Call_stop # as) t = Some (n, t')"
    and "Call_start \<notin> set as"
  shows "n \<le> 1 \<and> \<not> is_running t' \<and>
    (owner t' = Idle \<longrightarrow> thd t' = None \<and>
       (\<forall>bs m t''. Call_start \<notin> set bs \<longrightarrow> timer_run bs t' = Some (m, t'') \<longrightarrow> m = 0))"
proof -
  obtain t1 where t1: "timer_act Call_stop t = Some t1" "timer_run as t1 = Some (n, t')"
    using assms(2) by (auto simp: ends_call_def split: option.splits prod.splits if_splits)
  have idle: "owner t = Idle" and t1': "t1 = timer_stop t"
    using t1(1) by (auto split: if_splits)
  have flag: "\<not> execute t1 \<and> \<not> start_pending t1"
    using idle by (auto simp: t1' timer_defs start_pending_def)
  then have n: "n + calls_left t' \<le> calls_left t1" "\<not> execute t'"
    using run_after_stop [OF t1(2)] assms(3) by auto
  have inv: "timer_inv t'"
  proof -
    have "timer_inv t1"
      using timer_inv_act [OF t1(1) timer_inv_reachable [OF assms(1)]] by blast
    then show ?thesis
      using t1(2) by (induction as arbitrary: t1 n) (auto split: option.splits prod.splits dest: timer_inv_act)
  qed
  have gone: "thd t' = None" if "owner t' = Idle"
    using inv that n(2) by (simp add: timer_inv_def joinable_def)
  have "m = 0" if "owner t' = Idle" "Call_start \<notin> set bs" "timer_run bs t' = Some (m, t'')" for bs m t''
  proof -
    have "\<not> start_pending t'"
      using that(1) by (simp add: start_pending_def)
    then show ?thesis
      using run_after_stop [OF that(3) n(2) that(2)] gone [OF that(1)] by (simp add: calls_left_def)
  qed
  moreover have "n \<le> 1"
    using n(1) by (auto simp: calls_left_def split: if_splits)
  ultimately show ?thesis
    using n(2) gone by (auto simp: is_running_def)
qed

lemma timer_stop_stops_witness:
  "\<exists>t'. timer_run [Call_stop, Worker_runs, Worker_runs, Worker_runs, Join_returns]
          (the (timer_act Worker_runs (timer_start new_timer))) = Some (1, t') \<and>
        \<not> is_running t' \<and> thd t' = None"
proof -
  define t where "t = the (timer_act Worker_runs (timer_start new_timer))"
  have a: "timer_act Call_start new_timer = Some (timer_start new_timer)"
    "timer_act Worker_runs (timer_start new_timer) = Some t"
    by (simp_all add: t_def new_timer_def timer_defs)
  then have r: "timer_step\<^sup>*\<^sup>* new_timer t"
    by (meson act r_into_rtranclp rtranclp.rtrancl_into_rtrancl)
  obtain t' where t': "timer_run [Call_stop, Worker_runs, Worker_runs, Worker_runs, Join_returns] t = Some (1, t')"
      "owner t' = Idle"
    by (simp add: t_def new_timer_def timer_defs ends_call_def)
  have no_start: "Call_start \<notin> set [Worker_runs, Worker_runs, Worker_runs, Join_returns]"
    by simp
  have "\<not> is_running t'" "thd t' = None"
    using timer_stop_stops [OF r t'(1) no_start] t'(2) by simp_all
  then show ?thesis
    unfolding t_def [symmetric] using t'(1) by blast
qed

text \<open>The join of \<open>stop\<close>, of \<open>start\<close> and of the destructor returns when the function does: from any
  reachable state in which the owner waits there is exactly one action that can happen, besides an
  exception of the function, and after at most three of the worker's the join returns.\<close>

lemma timer_join_returns:
  assumes "timer_step\<^sup>*\<^sup>* new_timer t" and "is_joining (owner t)"
  shows "(\<exists>!a. a \<noteq> Worker_throws \<and> timer_act a t \<noteq> None) \<and>
    (\<exists>k \<le> 3. \<exists>n t'. timer_run (replicate k Worker_runs @ [Join_returns]) t = Some (n, t') \<and>
       \<not> is_joining (owner t'))"
proof -
  have t: "\<not> execute t" "thd t \<noteq> None"
    using timer_inv_reachable [OF assms(1)] assms(2) by (auto simp: timer_inv_def joinable_def is_joining_def)
  then obtain w where w: "thd t = Some w" by auto
  have not_idle: "owner t \<noteq> Idle"
    using assms(2) by (auto simp: is_joining_def)
  have alive: "owner t \<noteq> Terminated"
    using assms(2) by (auto simp: is_joining_def)
  have one: "\<exists>!a. a \<noteq> Worker_throws \<and> timer_act a t \<noteq> None"
  proof (cases "w = Finished")
    case True
    then show ?thesis
      using w not_idle alive assms(2)
      by (intro ex1I [of _ Join_returns]) (auto elim: timer_act.elims split: if_splits)
  next
    case False
    then show ?thesis
      using w not_idle alive assms(2)
      by (intro ex1I [of _ Worker_runs]) (auto elim: timer_act.elims split: if_splits)
  qed
  have join: "\<exists>n t'. timer_run [Join_returns] t1 = Some (n, t') \<and> \<not> is_joining (owner t')"
    if "is_joining (owner t1)" "thd t1 = Some Finished" for t1
    using that by (cases "owner t1") (auto simp: timer_defs)
  have "\<exists>k \<le> 3. \<exists>n t'. timer_run (replicate k Worker_runs @ [Join_returns]) t = Some (n, t') \<and>
       \<not> is_joining (owner t')"
  proof (cases w)
    case At_test
    then show ?thesis
      using w t(1) alive assms(2) join [of "t\<lparr> thd := Some Finished \<rparr>"]
      by (intro exI [of _ 1]) auto
  next
    case In_call
    then show ?thesis
      using w t(1) alive assms(2) join [of "t\<lparr> thd := Some Finished \<rparr>"]
      by (intro exI [of _ 3]) (auto simp: numeral_eq_Suc)
  next
    case Asleep
    then show ?thesis
      using w t(1) alive assms(2) join [of "t\<lparr> thd := Some Finished \<rparr>"]
      by (intro exI [of _ 2]) (auto simp: numeral_eq_Suc)
  next
    case Finished
    then show ?thesis
      using w assms(2) join [of t] by (intro exI [of _ 0]) auto
  qed
  with one show ?thesis by blast
qed

lemma timer_join_returns_witness:
  "\<exists>k \<le> 3. \<exists>n t'. timer_run (replicate k Worker_runs @ [Join_returns]) (timer_stop (timer_start new_timer)) =
     Some (n, t') \<and> \<not> is_joining (owner t')"
proof -
  have "timer_act Call_start new_timer = Some (timer_start new_timer)"
    "timer_act Call_stop (timer_start new_timer) = Some (timer_stop (timer_start new_timer))"
    by (simp_all add: new_timer_def timer_defs)
  then have "timer_step\<^sup>*\<^sup>* new_timer (timer_stop (timer_start new_timer))"
    by (meson act r_into_rtranclp rtranclp.rtrancl_into_rtrancl)
  moreover have "is_joining (owner (timer_stop (timer_start new_timer)))"
    by (simp add: new_timer_def timer_defs)
  ultimately show ?thesis
    using timer_join_returns by blast
qed

end
