(* ===== verification/Connection.thy ===== *)
theory Connection
  imports Messages Timer
begin

text \<open>
  \<open>connection.h\<close>: the class \<open>Connection\<close>, whose detached runner thread connects to the
  server again and again. The websocketpp endpoint is not part of the model: what it does is the
  events that the runner thread meets. The members \<open>active\<close> and \<open>message_sender\<close> are closures
  over the local variables of \<open>runner\<close>, so calling one after these variables are gone is
  undefined behaviour.
\<close>

section \<open>State\<close>

datatype ws_state = Ws_connecting | Ws_open | Ws_closing | Ws_closed

fun state_to_string :: "ws_state \<Rightarrow> string" where
  "state_to_string Ws_closed = ''closed''"
| "state_to_string Ws_closing = ''closing''"
| "state_to_string Ws_connecting = ''connecting''"
| "state_to_string Ws_open = ''open''"

text \<open>The values that \<open>active\<close>, \<open>message_sender\<close> and the callbacks are assigned.\<close>

datatype active_fn = Never_active | Asks_connection
datatype sender_fn = No_sender | Sends_on_connection
datatype callback = No_callback | Client_callback

text \<open>
  Where the runner is: at the test of the loop; in \<open>connect\<close> before \<open>get_state\<close>; behind that
  test, at \<open>c.connect\<close>; in \<open>run\<close>; behind it; behind the reset of the closures; behind the \<open>try\<close> block, its variables gone; out of the loop;
  stopped by undefined behaviour.
\<close>

datatype runner_pc =
    Loop_test | Preparing | Pre_run | Running | Run_returned | Cleared | Out_of_scope | Runner_done
  | Runner_crashed

record connection =
  address :: string
  max_ping_pong_interval :: int
  shutting_down :: bool
  active :: active_fn
  message_sender :: sender_fn
  on_connection :: callback
  on_disconnection :: callback
  on_message_received :: callback
  runner :: runner_pc
  endpoint :: "ws_state option"
  destroyed :: bool

text \<open>The constructor; \<open>endpoint\<close> is the state of the local connection while it is in scope.\<close>

definition new_connection :: "string \<Rightarrow> c_int \<Rightarrow> int \<Rightarrow> connection" where
  "new_connection addr port max_seconds =
     \<lparr> address = addr @ '':'' @ int_to_string (sint port), max_ping_pong_interval = max_seconds,
       shutting_down = False, active = Never_active, message_sender = No_sender,
       on_connection = No_callback, on_disconnection = No_callback,
       on_message_received = No_callback, runner = Loop_test, endpoint = None,
       destroyed = False \<rparr>"

definition connection_destructor :: "connection \<Rightarrow> connection" where
  "connection_destructor c = c\<lparr> shutting_down := True, destroyed := True \<rparr>"

section \<open>Sending\<close>

definition call_active :: "connection \<Rightarrow> bool result" where
  "call_active c =
     (case active c of
        Never_active \<Rightarrow> Inr False
      | Asks_connection \<Rightarrow>
          (case endpoint c of
             Some s \<Rightarrow> Inr (s = Ws_open)
           | None \<Rightarrow> Inl (Undefined_behaviour ''active() uses a destroyed connection'')))"

text \<open>
  \<open>message_sender(data)\<close>: the frames handed to the network. \<open>c.send\<close> raises when the connection is
  not there yet or is not open.
\<close>

definition call_sender :: "string \<Rightarrow> connection \<Rightarrow> string list result" where
  "call_sender data c =
     (case message_sender c of
        No_sender \<Rightarrow> Inr []
      | Sends_on_connection \<Rightarrow>
          (case endpoint c of
             Some s \<Rightarrow> if s = Ws_open then Inr [data] else Inl (System_error ''invalid state'')
           | None \<Rightarrow>
               if runner c = Preparing then Inl (System_error ''bad connection'')
               else Inl (Undefined_behaviour ''message_sender uses a destroyed client'')))"

definition is_undefined :: "exn \<Rightarrow> bool" where
  "is_undefined e \<longleftrightarrow> (\<exists>s. e = Undefined_behaviour s)"

lemma is_undefined_simps [simp, code]:
  "is_undefined (Undefined_behaviour s)"
  "\<not> is_undefined (Runtime_error s)"
  "\<not> is_undefined Overflow_error"
  "\<not> is_undefined (System_error s)"
  "\<not> is_undefined Client_error"
  by (simp_all add: is_undefined_def)

text \<open>
  \<open>send\<close>: \<open>c\<close> is the connection at the test and \<open>c'\<close> at the call of the sender, since the runner
  can change it in between. Every exception is caught; undefined behaviour is not.
\<close>

definition send :: "string \<Rightarrow> connection \<Rightarrow> connection \<Rightarrow> string list result" where
  "send data c c' =
     bind_result (call_active c) (\<lambda>up.
       if \<not> up then Inr []
       else (case call_sender data c' of
               Inr frames \<Rightarrow> Inr frames
             | Inl e \<Rightarrow> if is_undefined e then Inl e else Inr []))"

section \<open>The runner thread\<close>

text \<open>
  What happens to the runner: it goes on by itself (\<open>Proceed\<close>), the set-up or the event loop raises
  an exception (also one of a handler), \<open>get_connection\<close> returns a connection in some state or
  null, the event loop reports an event or returns.
\<close>

datatype event =
    Proceed
  | Raises
  | Got_connection ws_state
  | Got_null
  | Opened
  | Message string
  | Begins_closing
  | Closed
  | Failed
  | Run_returns

text \<open>The callbacks of the client that a step of the runner calls.\<close>

datatype effect = Calls_on_connection | Calls_on_disconnection | Calls_on_message string

definition notify :: "callback \<Rightarrow> effect \<Rightarrow> effect list" where
  "notify cb e = (if cb = Client_callback then [e] else [])"

definition clear_closures :: "connection \<Rightarrow> connection" where
  "clear_closures c = c\<lparr> message_sender := No_sender, active := Never_active \<rparr>"

text \<open>The lines of \<open>runner\<close> around the \<open>try\<close> block.\<close>

fun at_loop_test :: "event \<Rightarrow> connection \<Rightarrow> (connection \<times> effect list) option" where
  "at_loop_test Proceed c =
     (if shutting_down c then Some (c\<lparr> runner := Runner_done \<rparr>, [])
      else Some (c\<lparr> message_sender := Sends_on_connection, runner := Preparing \<rparr>, []))"
| "at_loop_test _ c = None"

fun at_out_of_scope :: "event \<Rightarrow> connection \<Rightarrow> (connection \<times> effect list) option" where
  "at_out_of_scope Proceed c = Some ((clear_closures c)\<lparr> runner := Loop_test \<rparr>, [])"
| "at_out_of_scope _ c = None"

text \<open>\<open>connect\<close>: up to \<open>get_state\<close>, before \<open>run\<close>, in it, and behind it.\<close>

fun at_preparing :: "event \<Rightarrow> connection \<Rightarrow> (connection \<times> effect list) option" where
  "at_preparing Raises c = Some (c\<lparr> runner := Out_of_scope \<rparr>, [])"
| "at_preparing Got_null c = Some (c\<lparr> runner := Runner_crashed \<rparr>, [])"
| "at_preparing (Got_connection s) c =
     (if s = Ws_connecting
      then Some (c\<lparr> endpoint := Some s, runner := Pre_run \<rparr>, [])
      else Some (c\<lparr> runner := Out_of_scope \<rparr>, []))"
| "at_preparing _ c = None"

text \<open>\<open>c.connect\<close> returns or raises; the closure is assigned after it has returned.\<close>

fun at_pre_run :: "event \<Rightarrow> connection \<Rightarrow> (connection \<times> effect list) option" where
  "at_pre_run Raises c = Some (c\<lparr> endpoint := None, runner := Out_of_scope \<rparr>, [])"
| "at_pre_run Proceed c = Some (c\<lparr> active := Asks_connection, runner := Running \<rparr>, [])"
| "at_pre_run _ c = None"

fun at_running :: "event \<Rightarrow> connection \<Rightarrow> (connection \<times> effect list) option" where
  "at_running Opened c =
     (if endpoint c = Some Ws_connecting
      then Some (c\<lparr> endpoint := Some Ws_open \<rparr>, notify (on_connection c) Calls_on_connection)
      else None)"
| "at_running (Message d) c =
     (if endpoint c = Some Ws_open
      then Some (c, notify (on_message_received c) (Calls_on_message d)) else None)"
| "at_running Begins_closing c =
     (if endpoint c = Some Ws_open then Some (c\<lparr> endpoint := Some Ws_closing \<rparr>, []) else None)"
| "at_running Closed c =
     (if endpoint c = Some Ws_open \<or> endpoint c = Some Ws_closing
      then Some (c\<lparr> endpoint := Some Ws_closed \<rparr>, notify (on_disconnection c) Calls_on_disconnection)
      else None)"
| "at_running Failed c =
     (if endpoint c = Some Ws_connecting then Some (c\<lparr> endpoint := Some Ws_closed \<rparr>, []) else None)"
| "at_running Raises c = Some (c\<lparr> endpoint := None, runner := Out_of_scope \<rparr>, [])"
| "at_running Run_returns c =
     (if endpoint c = Some Ws_closed
      then Some (c\<lparr> runner := Run_returned \<rparr>, notify (on_disconnection c) Calls_on_disconnection)
      else None)"
| "at_running _ c = None"

fun at_run_returned :: "event \<Rightarrow> connection \<Rightarrow> (connection \<times> effect list) option" where
  "at_run_returned Raises c = Some (c\<lparr> endpoint := None, runner := Out_of_scope \<rparr>, [])"
| "at_run_returned Proceed c = Some ((clear_closures c)\<lparr> runner := Cleared \<rparr>, [])"
| "at_run_returned _ c = None"

fun at_cleared :: "event \<Rightarrow> connection \<Rightarrow> (connection \<times> effect list) option" where
  "at_cleared Proceed c = Some (c\<lparr> endpoint := None, runner := Out_of_scope \<rparr>, [])"
| "at_cleared _ c = None"

definition runner_step :: "event \<Rightarrow> connection \<Rightarrow> (connection \<times> effect list) option" where
  "runner_step ev c =
     (case runner c of
        Loop_test \<Rightarrow> at_loop_test ev c
      | Preparing \<Rightarrow> at_preparing ev c
      | Pre_run \<Rightarrow> at_pre_run ev c
      | Running \<Rightarrow> at_running ev c
      | Run_returned \<Rightarrow> at_run_returned ev c
      | Cleared \<Rightarrow> at_cleared ev c
      | Out_of_scope \<Rightarrow> at_out_of_scope ev c
      | Runner_done \<Rightarrow> None
      | Runner_crashed \<Rightarrow> None)"

text \<open>A run of the runner thread, with the callbacks it makes.\<close>

fun runner_run :: "event list \<Rightarrow> connection \<Rightarrow> (connection \<times> effect list) option" where
  "runner_run [] c = Some (c, [])"
| "runner_run (ev # evs) c =
     (case runner_step ev c of
        None \<Rightarrow> None
      | Some (c', es) \<Rightarrow>
          (case runner_run evs c' of None \<Rightarrow> None | Some (c'', es') \<Rightarrow> Some (c'', es @ es')))"

section \<open>Reachable connections\<close>

text \<open>
  Steps of the whole: the runner, the client that assigns the callbacks, the destructor. The flag
  says whether exceptions of the event loop are included; those of the set-up always are.
\<close>

inductive conn_step :: "bool \<Rightarrow> connection \<Rightarrow> connection \<Rightarrow> bool" for exc where
  runs: "runner_step ev c = Some (c', es) \<Longrightarrow> ev = Raises \<and> runner c \<noteq> Preparing \<and> runner c \<noteq> Pre_run \<longrightarrow> exc \<Longrightarrow> conn_step exc c c'"
| callbacks: "conn_step exc c (c\<lparr> on_connection := a, on_disconnection := b, on_message_received := d \<rparr>)"
| destructs: "conn_step exc c (connection_destructor c)"

inductive_cases conn_stepE: "conn_step exc c c'"

text \<open>
  What the position of the runner says of the closures and the local connection, which is there from
  \<open>get_connection\<close> to the end of the block and open only in \<open>run\<close>.
\<close>

fun position_ok :: "runner_pc \<Rightarrow> connection \<Rightarrow> bool" where
  "position_ok Loop_test c \<longleftrightarrow> endpoint c = None \<and> active c = Never_active \<and> message_sender c = No_sender"
| "position_ok Preparing c \<longleftrightarrow>
     endpoint c = None \<and> active c = Never_active \<and> message_sender c = Sends_on_connection"
| "position_ok Pre_run c \<longleftrightarrow>
     endpoint c = Some Ws_connecting \<and> active c = Never_active \<and> message_sender c = Sends_on_connection"
| "position_ok Running c \<longleftrightarrow>
     endpoint c \<noteq> None \<and> active c = Asks_connection \<and> message_sender c = Sends_on_connection"
| "position_ok Run_returned c \<longleftrightarrow>
     endpoint c = Some Ws_closed \<and> active c = Asks_connection \<and> message_sender c = Sends_on_connection"
| "position_ok Cleared c \<longleftrightarrow>
     endpoint c = Some Ws_closed \<and> active c = Never_active \<and> message_sender c = No_sender"
| "position_ok Out_of_scope c \<longleftrightarrow> endpoint c = None"
| "position_ok Runner_done c \<longleftrightarrow>
     endpoint c = None \<and> active c = Never_active \<and> message_sender c = No_sender \<and> shutting_down c"
| "position_ok Runner_crashed c \<longleftrightarrow> endpoint c = None \<and> active c = Never_active"

definition conn_inv :: "connection \<Rightarrow> bool" where
  "conn_inv c \<longleftrightarrow> position_ok (runner c) c \<and> (destroyed c \<longrightarrow> shutting_down c)"

text \<open>Without exceptions of the event loop the closure \<open>active\<close> is never stale.\<close>

definition fresh_active :: "connection \<Rightarrow> bool" where
  "fresh_active c \<longleftrightarrow>
     (active c = Asks_connection \<longrightarrow> runner c = Running \<or> runner c = Run_returned)"

lemma conn_inv_new: "conn_inv (new_connection a p m)" "fresh_active (new_connection a p m)"
  by (simp_all add: conn_inv_def fresh_active_def new_connection_def)

lemma runner_step_inv: "runner_step ev c = Some (c', es) \<Longrightarrow> conn_inv c \<Longrightarrow> conn_inv c'"
  by (cases "runner c"; cases ev) (auto simp: runner_step_def conn_inv_def clear_closures_def split: if_splits)

lemma runner_step_fresh:
  "runner_step ev c = Some (c', es) \<Longrightarrow> conn_inv c \<Longrightarrow> fresh_active c \<Longrightarrow>
     ev = Raises \<longrightarrow> runner c \<in> {Preparing, Pre_run} \<Longrightarrow> fresh_active c'"
  by (cases "runner c"; cases ev)
    (auto simp: runner_step_def fresh_active_def conn_inv_def clear_closures_def split: if_splits)

lemma position_ok_callbacks:
  "position_ok p (c\<lparr> on_connection := a, on_disconnection := b, on_message_received := d \<rparr>) = position_ok p c"
  "position_ok p c \<Longrightarrow> position_ok p (c\<lparr> shutting_down := True, destroyed := True \<rparr>)"
  by (cases p; simp)+

lemma other_steps_inv:
  "conn_inv (c\<lparr> on_connection := a, on_disconnection := b, on_message_received := d \<rparr>) = conn_inv c"
  "fresh_active (c\<lparr> on_connection := a, on_disconnection := b, on_message_received := d \<rparr>) =
     fresh_active c"
  "conn_inv c \<Longrightarrow> conn_inv (connection_destructor c)"
  "fresh_active (connection_destructor c) = fresh_active c"
  by (simp_all add: conn_inv_def fresh_active_def connection_destructor_def position_ok_callbacks)

lemma conn_step_inv: "conn_step exc c c' \<Longrightarrow> conn_inv c \<Longrightarrow> conn_inv c'"
  by (erule conn_stepE) (simp_all only: other_steps_inv runner_step_inv)

lemma conn_step_fresh: "conn_step False c c' \<Longrightarrow> conn_inv c \<Longrightarrow> fresh_active c \<Longrightarrow> fresh_active c'"
proof (erule conn_stepE)
  fix ev es
  assume "runner_step ev c = Some (c', es)" "ev = Raises \<and> runner c \<noteq> Preparing \<and> runner c \<noteq> Pre_run \<longrightarrow> False"
    "conn_inv c" "fresh_active c"
  then show "fresh_active c'"
    using runner_step_fresh by blast
qed (simp_all only: other_steps_inv)

lemma conn_inv_reachable:
  "(conn_step exc)\<^sup>*\<^sup>* (new_connection a p m) c \<Longrightarrow> conn_inv c"
  by (induction rule: rtranclp_induct) (auto intro: conn_inv_new conn_step_inv)

lemma fresh_active_reachable:
  "(conn_step False)\<^sup>*\<^sup>* (new_connection a p m) c \<Longrightarrow> conn_inv c \<and> fresh_active c"
  by (induction rule: rtranclp_induct) (auto intro: conn_inv_new conn_step_inv conn_step_fresh)

text \<open>A fresh closure can be called, and \<open>send\<close> then puts a frame on an open connection only.\<close>

lemma call_active_fresh: "conn_inv c \<Longrightarrow> fresh_active c \<Longrightarrow> call_active c \<noteq> Inl e"
  by (cases "active c"; cases "endpoint c") (auto simp: call_active_def conn_inv_def fresh_active_def)

lemma call_active_open: "call_active c = Inr True \<Longrightarrow> active c = Asks_connection \<and> endpoint c = Some Ws_open"
  by (simp add: call_active_def split: active_fn.splits option.splits)

lemma call_sender_frames:
  "call_sender d c = Inr frames \<Longrightarrow> frames \<noteq> [] \<Longrightarrow> frames = [d] \<and> endpoint c = Some Ws_open"
  by (auto simp: call_sender_def split: sender_fn.splits option.splits if_splits)

lemma send_frames:
  assumes "send d c c' = Inr frames" and "frames \<noteq> []"
  shows "frames = [d]" and "endpoint c = Some Ws_open" and "endpoint c' = Some Ws_open"
  using assms call_active_open [of c] call_sender_frames [of d c']
  by (auto simp: send_def bind_result_Inr_iff split: if_splits sum.splits)

text \<open>When nothing comes between the test and the call, \<open>send\<close> is a function of the state.\<close>

lemma send_now:
  assumes "conn_inv c" and "fresh_active c"
  shows "send d c c = Inr (if endpoint c = Some Ws_open then [d] else [])"
  using assms
  by (cases "runner c") (auto simp: send_def call_active_def call_sender_def conn_inv_def fresh_active_def
      split: active_fn.splits option.splits)

section \<open>Ping and pong\<close>

text \<open>
  The two local time points of \<open>connect\<close>, in nanoseconds, and the handlers that use them. A ping
  that raises leaves its time as it was.
\<close>

record ping_pong =
  time_last_ping :: int
  time_last_pong :: int

definition handler_pong :: "int \<Rightarrow> ping_pong \<Rightarrow> ping_pong" where
  "handler_pong now p = p\<lparr> time_last_pong := now \<rparr>"

definition handler_ping :: "bool \<Rightarrow> int \<Rightarrow> ping_pong \<Rightarrow> ping_pong" where
  "handler_ping ok now p = (if ok then p\<lparr> time_last_ping := now \<rparr> else p)"

definition pong_missed :: "connection \<Rightarrow> ping_pong \<Rightarrow> bool" where
  "pong_missed c p \<longleftrightarrow>
     max_ping_pong_interval c * 1000000000 < time_last_ping p - time_last_pong p"

text \<open>\<open>c.close\<close> starts the closing handshake of an open connection and raises otherwise.\<close>

definition handler_ping_pong_check :: "ping_pong \<Rightarrow> connection \<Rightarrow> connection" where
  "handler_ping_pong_check p c =
     (if pong_missed c p \<and> endpoint c = Some Ws_open then c\<lparr> endpoint := Some Ws_closing \<rparr> else c)"

text \<open>The pings of a timer that fires once a second, \<open>k\<close> times.\<close>

definition pings :: "nat \<Rightarrow> int \<Rightarrow> ping_pong \<Rightarrow> ping_pong" where
  "pings k t0 p =
     fold (\<lambda>i. handler_ping True (t0 + int i * 1000000000)) [1..<Suc k] p"

lemma pings_Suc: "pings (Suc k) t0 p = handler_ping True (t0 + int (Suc k) * 1000000000) (pings k t0 p)"
  by (simp add: pings_def)

lemma pings_pong [simp]: "time_last_pong (pings k t0 p) = time_last_pong p"
  by (induction k) (simp_all add: pings_Suc handler_ping_def, simp add: pings_def)

lemma pings_ping: "time_last_ping (pings k t0 p) = (if k = 0 then time_last_ping p else t0 + int k * 1000000000)"
  by (cases k) (simp_all add: pings_Suc handler_ping_def, simp add: pings_def)

section \<open>Properties\<close>

lemma runs_step: "runner_step ev c = Some (c', es) \<Longrightarrow> ev \<noteq> Raises \<Longrightarrow> conn_step exc c c'"
  by (erule runs) simp

text \<open>The states of the first connection attempt.\<close>

definition connecting :: "connection \<Rightarrow> connection" where
  "connecting c = c\<lparr> message_sender := Sends_on_connection, endpoint := Some Ws_connecting,
     active := Asks_connection, runner := Running \<rparr>"

lemma connecting_reachable:
  "(conn_step exc)\<^sup>*\<^sup>* (new_connection a p m) (connecting (new_connection a p m))"
proof -
  define c where "c = new_connection a p m"
  define c1 where "c1 = c\<lparr> message_sender := Sends_on_connection, runner := Preparing \<rparr>"
  define c2 where "c2 = c1\<lparr> endpoint := Some Ws_connecting, runner := Pre_run \<rparr>"
  have "conn_step exc c c1"
    by (rule runs_step [of Proceed]) (simp_all add: c_def c1_def new_connection_def runner_step_def)
  moreover have "conn_step exc c1 c2"
    by (rule runs_step [of "Got_connection Ws_connecting"])
      (simp_all add: c_def c1_def c2_def new_connection_def runner_step_def)
  moreover have "conn_step exc c2 (connecting c)"
    by (rule runs_step [of Proceed])
      (simp_all add: c_def c1_def c2_def new_connection_def runner_step_def connecting_def)
  ultimately show ?thesis
    unfolding c_def by (meson r_into_rtranclp rtranclp.rtrancl_into_rtrancl)
qed

lemma open_reachable:
  "(conn_step exc)\<^sup>*\<^sup>* (new_connection a p m)
     ((connecting (new_connection a p m))\<lparr> endpoint := Some Ws_open \<rparr>)"
proof -
  have "conn_step exc (connecting (new_connection a p m))
      ((connecting (new_connection a p m))\<lparr> endpoint := Some Ws_open \<rparr>)"
    by (rule runs_step [of Opened])
      (simp_all add: new_connection_def runner_step_def connecting_def notify_def)
  then show ?thesis
    using connecting_reachable [of exc a p m] by (meson rtranclp.rtrancl_into_rtrancl)
qed

text \<open>C29: As long as the event loop raises no exception (the set-up may), in every state that the runner
  reaches \<open>send\<close> is defined; it hands the message to the network, once, exactly when the connection
  is open, and drops it silently in every other state.\<close>

theorem send_only_when_open:
  assumes "(conn_step False)\<^sup>*\<^sup>* (new_connection addr port secs) c"
  shows "send d c c = Inr (if endpoint c = Some Ws_open then [d] else [])"
  using fresh_active_reachable [OF assms] by (simp add: send_now)

theorem send_only_when_open_witness:
  "send ''m'' ((connecting (new_connection ''localhost'' 9090 2))\<lparr> endpoint := Some Ws_open \<rparr>)
     ((connecting (new_connection ''localhost'' 9090 2))\<lparr> endpoint := Some Ws_open \<rparr>) = Inr [''m'']"
  using send_only_when_open [OF open_reachable [of False "''localhost''" 9090 2], of "''m''"]
  by (simp add: connecting_def)

text \<open>After an exception of the event loop (a handler that throws is enough) there is a moment in
  which the runner's variables are gone and \<open>active\<close> still refers to them: sending is undefined.\<close>

lemma exception_leaves_stale_closure:
  "\<exists>c. (conn_step True)\<^sup>*\<^sup>* (new_connection addr port secs) c \<and>
     (\<exists>s. send d c c = Inl (Undefined_behaviour s))"
proof -
  define o' where "o' = (connecting (new_connection addr port secs))\<lparr> endpoint := Some Ws_open \<rparr>"
  define c where "c = o'\<lparr> endpoint := None, runner := Out_of_scope \<rparr>"
  have "runner_step Raises o' = Some (c, [])"
    by (simp add: o'_def c_def connecting_def runner_step_def)
  then have "conn_step True o' c"
    by (rule runs) simp
  then have "(conn_step True)\<^sup>*\<^sup>* (new_connection addr port secs) c"
    using open_reachable [of True addr port secs] unfolding o'_def
    by (meson rtranclp.rtrancl_into_rtrancl)
  moreover have "\<exists>s. send d c c = Inl (Undefined_behaviour s)"
    by (simp add: c_def o'_def connecting_def send_def call_active_def)
  ultimately show ?thesis by blast
qed

text \<open>The destructor does not wait for the detached runner thread: a destroyed connection can still
  be inside the event loop, open, and receive a message.\<close>

lemma runner_outlives_connection:
  "\<exists>c c'. (conn_step False)\<^sup>*\<^sup>* (new_connection addr port secs) c \<and> destroyed c \<and>
     runner_step (Message d) c = Some c'"
proof -
  define c where "c = connection_destructor ((connecting (new_connection addr port secs))\<lparr> endpoint := Some Ws_open \<rparr>)"
  have "(conn_step False)\<^sup>*\<^sup>* (new_connection addr port secs) c"
    using open_reachable [of False addr port secs] destructs unfolding c_def
    by (meson rtranclp.rtrancl_into_rtrancl)
  moreover have "destroyed c" "runner c = Running" "endpoint c = Some Ws_open"
    by (simp_all add: c_def connection_destructor_def connecting_def)
  ultimately show ?thesis
    by (auto simp: runner_step_def)
qed

text \<open>The runner leaves its loop only for a shutdown, and once a shutdown has been requested it does
  not start another connection attempt.\<close>

lemma runner_ends_only_on_shutdown:
  assumes "(conn_step exc)\<^sup>*\<^sup>* (new_connection addr port secs) c"
  shows "(runner c = Runner_done \<longrightarrow> shutting_down c) \<and>
    (shutting_down c \<longrightarrow> runner c = Loop_test \<longrightarrow>
       runner_step Proceed c = Some (c\<lparr> runner := Runner_done \<rparr>, []))"
  using conn_inv_reachable [OF assms] by (auto simp: conn_inv_def runner_step_def)

text \<open>When the server stops answering, the check closes the connection after the first ping that is
  more than the allowed number of seconds behind the last pong, and not before.\<close>

lemma silent_server_detected:
  assumes "endpoint c = Some Ws_open" and "0 < k"
  shows "(endpoint (handler_ping_pong_check
             (pings k t0 \<lparr> time_last_ping = t0, time_last_pong = t0 \<rparr>) c) = Some Ws_closing) =
    (max_ping_pong_interval c < int k)"
  using assms by (simp add: handler_ping_pong_check_def pong_missed_def pings_ping)

end
