(* ===== verification/Client.thy ===== *)
theory Client
  imports Queues Connection "HOL-Library.Multiset"
begin

text \<open>
  \<open>rosbridgeclient.h\<close> and \<open>rosbridgeclient.cpp\<close>: the object that ties the queues to the
  connection. A \<open>shared_ptr\<close> to a queue is its address in one of two stores, so that the client
  and the publisher (subscriber, service) that share a queue see the same one.
\<close>

section \<open>State\<close>

record world =
  tmem :: "talker_queue list"
  lmem :: "listener_queue list"
  connection_of :: connection
  talker_timer :: timer
  talkers :: "nat list"
  listeners :: "(string, nat list) omap"
  talkers_alive :: bool
  listeners_alive :: bool

text \<open>\<open>new TalkerQueue\<close>, \<open>new ListenerQueue\<close>, and the dereference of a pointer.\<close>

definition alloc_talker :: "talker_queue \<Rightarrow> world \<Rightarrow> nat \<times> world" where
  "alloc_talker t w = (length (tmem w), w\<lparr> tmem := tmem w @ [t] \<rparr>)"

definition alloc_listener :: "listener_queue \<Rightarrow> world \<Rightarrow> nat \<times> world" where
  "alloc_listener l w = (length (lmem w), w\<lparr> lmem := lmem w @ [l] \<rparr>)"

definition deref :: "'a list \<Rightarrow> nat \<Rightarrow> 'a result" where
  "deref m a = (if a < length m then Inr (m ! a) else Inl (Undefined_behaviour ''dangling pointer''))"

text \<open>An operation on the object behind a pointer, and on those behind all pointers of a vector.\<close>

definition update_at :: "('a \<Rightarrow> 'a) \<Rightarrow> nat \<Rightarrow> 'a list \<Rightarrow> 'a list result" where
  "update_at f a m = bind_result (deref m a) (\<lambda>x. Inr (m[a := f x]))"

fun update_all :: "('a \<Rightarrow> 'a) \<Rightarrow> nat list \<Rightarrow> 'a list \<Rightarrow> 'a list result" where
  "update_all f [] m = Inr m"
| "update_all f (a # as) m = bind_result (update_at f a m) (\<lambda>m'. update_all f as m')"

section \<open>Construction and destruction\<close>

definition RosbridgeClient :: "string \<Rightarrow> c_int \<Rightarrow> world" where
  "RosbridgeClient addr port =
     \<lparr> tmem = [], lmem = [],
       connection_of = (new_connection addr port 2)
         \<lparr> on_connection := Client_callback, on_disconnection := Client_callback,
           on_message_received := Client_callback \<rparr>,
       talker_timer = timer_start new_timer,
       talkers = [], listeners = [], talkers_alive = True, listeners_alive = True \<rparr>"

text \<open>
  The destructor: its body, then the members from the last declared to the first. Each line is a
  step; the other threads run in between.
\<close>

definition clear_callbacks :: "world \<Rightarrow> world" where
  "clear_callbacks w = w\<lparr> connection_of := (connection_of w)
     \<lparr> on_connection := No_callback, on_disconnection := No_callback,
       on_message_received := No_callback \<rparr> \<rparr>"

definition client_destructor :: "(world \<Rightarrow> world) list" where
  "client_destructor =
     [ clear_callbacks,
       \<lambda>w. w\<lparr> listeners_alive := False, listeners := [] \<rparr>,
       \<lambda>w. w\<lparr> talkers_alive := False, talkers := [] \<rparr>,
       \<lambda>w. w\<lparr> talker_timer := timer_destructor (talker_timer w) \<rparr>,
       \<lambda>w. w\<lparr> connection_of := connection_destructor (connection_of w) \<rparr> ]"

section \<open>Operations\<close>

definition attach_talker :: "nat \<Rightarrow> world \<Rightarrow> world" where
  "attach_talker a w = w\<lparr> talkers := talkers w @ [a] \<rparr>"

definition attach_listener :: "nat \<Rightarrow> string \<Rightarrow> world \<Rightarrow> world" where
  "attach_listener a topic w =
     (case om_index [] topic (listeners w) of
        (as, ls) \<Rightarrow> w\<lparr> listeners := om_set topic (as @ [a]) ls \<rparr>)"

text \<open>The loops of \<open>listen\<close>, over \<open>listeners[name]\<close>.\<close>

definition deliver :: "string \<Rightarrow> unserializer \<Rightarrow> world \<Rightarrow> world result" where
  "deliver name u w =
     (case om_index [] name (listeners w) of
        (as, ls) \<Rightarrow>
          bind_result (update_all (lq_push u) as (lmem w)) (\<lambda>m.
            Inr (w\<lparr> listeners := ls, lmem := m \<rparr>)))"

definition listen :: "string \<Rightarrow> world \<Rightarrow> world result" where
  "listen data w =
     bind_result (Unserializer data) (\<lambda>u.
       case msg_type u of
         (Inl e, _) \<Rightarrow> Inl e
       | (Inr t, u1) \<Rightarrow>
           if t = TopicPublishOp
           then (case msg_topic u1 of (Inl e, _) \<Rightarrow> Inl e | (Inr n, u2) \<Rightarrow> deliver n u2 w)
           else if t = ServiceCallOp
           then (case msg_service u1 of (Inl e, _) \<Rightarrow> Inl e | (Inr n, u2) \<Rightarrow> deliver n u2 w)
           else if t = ServiceResponseOp
           then (case msg_service u1 of (Inl e, _) \<Rightarrow> Inl e | (Inr n, u2) \<Rightarrow> deliver n u2 w)
           else Inr w)"

text \<open>
  \<open>talk\<close>: one message of every queue. The runner changes the connection meanwhile, so \<open>conn k\<close> is
  the connection at the \<open>k\<close>-th look at it. The result has the frames handed to the network.
\<close>

fun talk_loop ::
    "(nat \<Rightarrow> connection) \<Rightarrow> nat \<Rightarrow> nat list \<Rightarrow> talker_queue list \<Rightarrow> (talker_queue list \<times> string list) result"
  where
  "talk_loop conn k [] m = Inr (m, [])"
| "talk_loop conn k (a # as) m =
     bind_result (call_active (conn k)) (\<lambda>up.
       if \<not> up then Inr (m, [])
       else bind_result (deref m a) (\<lambda>t.
         if tq_empty t then talk_loop conn (Suc k) as m
         else
           bind_result (tq_next t) (\<lambda>msg.
           bind_result (send (serialized msg) (conn (Suc k)) (conn (Suc (Suc k)))) (\<lambda>frames.
           bind_result (tq_pop t) (\<lambda>t'.
           bind_result (talk_loop conn (Suc (Suc (Suc k))) as (m[a := t'])) (\<lambda>(m', frames').
             Inr (m', frames @ frames')))))))"

definition talk :: "(nat \<Rightarrow> connection) \<Rightarrow> world \<Rightarrow> (world \<times> string list) result" where
  "talk conn w =
     (if \<not> talkers_alive w then Inl (Undefined_behaviour ''talkers is destroyed'')
      else bind_result (talk_loop conn 0 (talkers w) (tmem w)) (\<lambda>(m, frames).
        Inr (w\<lparr> tmem := m \<rparr>, frames)))"

definition resetTalkers :: "world \<Rightarrow> world result" where
  "resetTalkers w =
     (if \<not> talkers_alive w then Inl (Undefined_behaviour ''talkers is destroyed'')
      else bind_result (update_all tq_reset (talkers w) (tmem w)) (\<lambda>m. Inr (w\<lparr> tmem := m \<rparr>)))"

section \<open>The callbacks of the connection\<close>

text \<open>
  The callbacks the constructor installs. \<open>user\<close> says what the user's part of a callback raises,
  if it does. A callback returns the exception it ends with, if any, and the state it leaves.
\<close>

definition run_effect :: "(effect \<Rightarrow> exn option) \<Rightarrow> effect \<Rightarrow> world \<Rightarrow> exn option \<times> world" where
  "run_effect user ef w =
     (case ef of
        Calls_on_connection \<Rightarrow>
          (case resetTalkers w of Inl e \<Rightarrow> (Some e, w) | Inr w' \<Rightarrow> (user ef, w'))
      | Calls_on_disconnection \<Rightarrow> (user ef, w)
      | Calls_on_message d \<Rightarrow> (case listen d w of Inl e \<Rightarrow> (Some e, w) | Inr w' \<Rightarrow> (None, w')))"

fun run_effects :: "(effect \<Rightarrow> exn option) \<Rightarrow> effect list \<Rightarrow> world \<Rightarrow> exn option \<times> world" where
  "run_effects user [] w = (None, w)"
| "run_effects user (ef # efs) w =
     (case run_effect user ef w of
        (Some e, w') \<Rightarrow> (Some e, w')
      | (None, w') \<Rightarrow> run_effects user efs w')"

text \<open>
  A step of the runner thread with its callbacks; an exception of a callback leaves the event loop.
\<close>

definition client_event :: "(effect \<Rightarrow> exn option) \<Rightarrow> event \<Rightarrow> world \<Rightarrow> world option" where
  "client_event user ev w =
     (case runner_step ev (connection_of w) of
        None \<Rightarrow> None
      | Some (c, efs) \<Rightarrow>
          (case run_effects user efs (w\<lparr> connection_of := c \<rparr>) of
             (None, w') \<Rightarrow> Some w'
           | (Some e, w') \<Rightarrow>
               (case runner_step Raises c of
                  None \<Rightarrow> None
                | Some (c', _) \<Rightarrow> Some (w'\<lparr> connection_of := c' \<rparr>))))"

section \<open>Well-formed states\<close>

definition world_wf :: "world \<Rightarrow> bool" where
  "world_wf w \<longleftrightarrow>
     distinct (talkers w) \<and> (\<forall>a \<in> set (talkers w). a < length (tmem w)) \<and>
     om_wf (listeners w) \<and>
     (\<forall>(n, as) \<in> set (listeners w). distinct as \<and> (\<forall>a \<in> set as. a < length (lmem w))) \<and>
     talkers_alive w \<and> listeners_alive w"

text \<open>The addresses registered under a name.\<close>

definition registered :: "string \<Rightarrow> world \<Rightarrow> nat list" where
  "registered n w = (case om_find (listeners w) n of Some as \<Rightarrow> as | None \<Rightarrow> [])"

lemma world_wf_RosbridgeClient: "world_wf (RosbridgeClient addr port)"
  by (simp add: world_wf_def RosbridgeClient_def)

lemma registered_wf:
  "world_wf w \<Longrightarrow> distinct (registered n w) \<and> (\<forall>a \<in> set (registered n w). a < length (lmem w))"
  by (auto simp: world_wf_def registered_def split: option.split dest!: om_find_in_set)

lemma om_index_registered:
  "fst (om_index [] n (listeners w)) = registered n w"
  by (simp add: om_index_def registered_def split: option.split)

lemma update_all_ok:
  assumes "distinct as" and "\<forall>a \<in> set as. a < length m"
  shows "\<exists>m'. update_all f as m = Inr m' \<and> length m' = length m \<and>
           (\<forall>i < length m. m' ! i = (if i \<in> set as then f (m ! i) else m ! i))"
  using assms
proof (induction as arbitrary: m)
  case Nil
  then show ?case by simp
next
  case (Cons a as)
  then obtain m' where "update_all f as (m[a := f (m ! a)]) = Inr m'"
      "length m' = length m"
      "\<forall>i < length m. m' ! i = (if i \<in> set as then f (m[a := f (m ! a)] ! i) else m[a := f (m ! a)] ! i)"
    using Cons.IH [of "m[a := f (m ! a)]"] by auto
  then show ?case
    using Cons.prems by (auto simp: update_at_def deref_def nth_list_update)
qed

lemma update_all_length: "update_all f as m = Inr m' \<Longrightarrow> length m' = length m"
  by (induction as arbitrary: m) (fastforce simp: bind_result_Inr_iff update_at_def)+

lemma om_set_same_value: "om_index d k m = (v, m') \<Longrightarrow> om_find m' k = Some v"
  by (auto simp: om_index_def split: option.splits)

section \<open>Receiving\<close>

text \<open>What \<open>deliver\<close> does to the queues: the ones registered under the name get the message.\<close>

lemma deliver_ok:
  assumes "world_wf w"
  shows "\<exists>w'. deliver n u w = Inr w' \<and> world_wf w' \<and> length (lmem w') = length (lmem w) \<and>
           (\<forall>k. registered k w' = registered k w) \<and> tmem w' = tmem w \<and> talkers w' = talkers w \<and>
           connection_of w' = connection_of w \<and>
           (\<forall>i < length (lmem w). lmem w' ! i =
              (if i \<in> set (registered n w) then lq_push u (lmem w ! i) else lmem w ! i))"
proof -
  obtain as ls where i: "om_index [] n (listeners w) = (as, ls)" by fastforce
  have as: "as = registered n w"
    using om_index_registered [of n w] i by simp
  have wf: "om_wf ls" "\<And>k. om_find ls k = (if k = n then Some as else om_find (listeners w) k)"
    using om_index_wf [of "listeners w" "[]" n] om_find_index [of "[]" n "listeners w"] i assms
    by (simp_all add: world_wf_def)
  obtain m where m: "update_all (lq_push u) as (lmem w) = Inr m" "length m = length (lmem w)"
      "\<forall>i < length (lmem w). m ! i = (if i \<in> set as then lq_push u (lmem w ! i) else lmem w ! i)"
    using update_all_ok [of as "lmem w" "lq_push u"] registered_wf [OF assms, of n] as by auto
  define w' where "w' = w\<lparr> listeners := ls, lmem := m \<rparr>"
  have reg: "registered k w' = registered k w" for k
    using wf(2) [of k] as by (simp add: registered_def w'_def)
  have "distinct bs \<and> (\<forall>a \<in> set bs. a < length m)" if "(k, bs) \<in> set ls" for k bs
    using om_find_of_set [OF wf(1) that] registered_wf [OF assms, of k] reg [of k] m(2)
    by (simp add: registered_def w'_def)
  then have "world_wf w'"
    using assms wf(1) m(2) by (auto simp: world_wf_def w'_def)
  moreover have "deliver n u w = Inr w'"
    using i m(1) by (simp add: deliver_def w'_def)
  ultimately show ?thesis
    using reg m as by (auto simp: w'_def)
qed

text \<open>The name a received message is delivered under, or the exception.\<close>

definition destination :: "unserializer \<Rightarrow> string option result" where
  "destination u =
     bind_result (fst (msg_type u)) (\<lambda>t.
       if t = TopicPublishOp then bind_result (fst (msg_topic u)) (\<lambda>n. Inr (Some n))
       else if t = ServiceCallOp \<or> t = ServiceResponseOp
            then bind_result (fst (msg_service u)) (\<lambda>n. Inr (Some n))
       else Inr None)"

text \<open>An object that has all the fields an accessor reads is not changed by it.\<close>

lemma field_present: "om_find (content u) k = Some v \<Longrightarrow> field k u = (Inr v, u)"
  by (simp add: field_def om_index_simps)

lemma seen_string_present: "get_string (seen u k) = Inr s \<Longrightarrow> om_find (content u) k = Some (JString s)"
  by (auto simp: seen_def split: option.splits elim: get_string.elims)

lemma and_then_same: "f u = (Inr x, u) \<Longrightarrow> and_then f g u = g x u"
  by (simp add: and_then_def)

lemma and_then_lifted: "and_then (lifted (Inr x)) g u = g x u"
  by (simp add: and_then_def lifted_def)

lemma string_field_same:
  "get_string (seen u k) = Inr s \<Longrightarrow> and_then (field k) (\<lambda>v. lifted (get_string v)) u = (Inr s, u)"
  by (drule seen_string_present, drule field_present) (simp add: and_then_same lifted_def)

lemma msg_type_same:
  assumes "fst (msg_type u) = Inr t"
  shows "msg_type u = (Inr t, u)"
proof -
  obtain s where s: "get_string (seen u ''op'') = Inr s" "stringToOP s = t"
    using assms unfolding msg_type_result bind_result_Inr_iff by blast
  show ?thesis
    unfolding msg_type_def
    by (simp add: and_then_same [of "field ''op''" u, OF field_present [OF seen_string_present [OF s(1)]]]
        and_then_lifted s(2)) (simp add: lifted_def)
qed

lemma msg_topic_same:
  assumes "fst (msg_topic u) = Inr n"
  shows "msg_topic u = (Inr n, u)"
proof -
  obtain t where t: "fst (msg_type u) = Inr t" "isTopicOP t" "get_string (seen u ''topic'') = Inr n"
    using assms unfolding msg_topic_result bind_result_Inr_iff by (auto split: if_splits)
  show ?thesis
    unfolding msg_topic_def
    by (simp add: and_then_same [of msg_type u, OF msg_type_same [OF t(1)]] t(2)
        string_field_same [OF t(3)])
qed

lemma msg_service_same:
  assumes "fst (msg_service u) = Inr n"
  shows "msg_service u = (Inr n, u)"
proof -
  obtain t where t: "fst (msg_type u) = Inr t" "isServiceOP t" "get_string (seen u ''service'') = Inr n"
    using assms unfolding msg_service_result bind_result_Inr_iff by (auto split: if_splits)
  show ?thesis
    unfolding msg_service_def
    by (simp add: and_then_same [of msg_type u, OF msg_type_same [OF t(1)]] t(2)
        string_field_same [OF t(3)])
qed

lemma listen_destination:
  "listen data w =
     bind_result (Unserializer data) (\<lambda>u.
     bind_result (destination u) (\<lambda>d. case d of None \<Rightarrow> Inr w | Some n \<Rightarrow> deliver n u w))"
proof (cases "Unserializer data")
  case (Inr u)
  show ?thesis
  proof (cases "fst (msg_type u)")
    case (Inl e)
    then show ?thesis
      by (cases "msg_type u") (simp add: listen_def destination_def Inr)
  next
    case t: (Inr t)
    show ?thesis
      using msg_type_same [OF t] msg_topic_same [of u] msg_service_same [of u]
      by (cases "msg_topic u"; cases "fst (msg_topic u)"; cases "msg_service u";
          cases "fst (msg_service u)")
        (simp_all add: listen_def destination_def Inr)
  qed
qed (simp add: listen_def)

section \<open>Sending\<close>

text \<open>The pending messages of the queues the client serves, in the order of \<open>attach\<close>.\<close>

definition outboxes :: "world \<Rightarrow> serializer list list" where
  "outboxes w = map (\<lambda>a. tq_pending (tmem w ! a)) (talkers w)"

definition is_up :: "connection \<Rightarrow> bool" where
  "is_up c \<longleftrightarrow> active c = Asks_connection \<and> endpoint c = Some Ws_open \<and> message_sender c = Sends_on_connection"

lemma is_up_send:
  "is_up c \<Longrightarrow> call_active c = Inr True"
  "is_up c \<Longrightarrow> is_up c' \<Longrightarrow> send d c c' = Inr [d]"
  by (simp_all add: is_up_def call_active_def send_def call_sender_def)

lemma talk_loop_up:
  assumes "\<forall>k. is_up (conn k)" and "distinct as" and "\<forall>a \<in> set as. a < length m"
  shows "\<exists>m'. talk_loop conn k as m =
             Inr (m', map serialized (concat (map (\<lambda>a. take 1 (tq_pending (m ! a))) as))) \<and>
           length m' = length m \<and>
           (\<forall>i < length m. tq_pending (m' ! i) =
              (if i \<in> set as then tl (tq_pending (m ! i)) else tq_pending (m ! i))) \<and>
           (\<forall>i < length m. i \<notin> set as \<longrightarrow> m' ! i = m ! i)"
  using assms(2,3)
proof (induction as arbitrary: k m)
  case Nil
  then show ?case by simp
next
  case (Cons a as)
  note up = is_up_send(1) [OF spec [OF assms(1)]]
    is_up_send(2) [OF spec [OF assms(1)] spec [OF assms(1)]]
  have a: "a < length m" "a \<notin> set as" "distinct as" "\<forall>b \<in> set as. b < length m"
    using Cons.prems by auto
  show ?case
  proof (cases "tq_pending (m ! a)")
    case Nil
    obtain m' where "talk_loop conn (Suc k) as m =
             Inr (m', map serialized (concat (map (\<lambda>a. take 1 (tq_pending (m ! a))) as)))"
           "length m' = length m"
           "\<forall>i < length m. tq_pending (m' ! i) =
              (if i \<in> set as then tl (tq_pending (m ! i)) else tq_pending (m ! i))"
           "\<forall>i < length m. i \<notin> set as \<longrightarrow> m' ! i = m ! i"
      using Cons.IH [OF a(3,4)] by blast
    then show ?thesis
      using Nil a up by (auto simp: deref_def tq.empty_iff)
  next
    case (Cons x xs)
    obtain t' where t': "tq_pop (m ! a) = Inr t'" "tq_pending t' = xs"
      using tq.pop_Cons [OF Cons] by blast
    have same: "map (\<lambda>b. take 1 (tq_pending (m[a := t'] ! b))) as =
        map (\<lambda>b. take 1 (tq_pending (m ! b))) as"
      using a(2) by (intro map_cong refl) (metis nth_list_update_neq)
    obtain m' where "talk_loop conn (Suc (Suc (Suc k))) as (m[a := t']) =
             Inr (m', map serialized (concat (map (\<lambda>b. take 1 (tq_pending (m ! b))) as)))"
           "length m' = length m"
           "\<forall>i < length m. tq_pending (m' ! i) =
              (if i \<in> set as then tl (tq_pending (m[a := t'] ! i)) else tq_pending (m[a := t'] ! i))"
           "\<forall>i < length m. i \<notin> set as \<longrightarrow> m' ! i = m[a := t'] ! i"
      using Cons.IH [of "m[a := t']" "Suc (Suc (Suc k))"] a unfolding same by auto
    then show ?thesis
      using Cons a up t' tq.next_Cons [OF Cons]
      by (auto simp: deref_def tq.empty_iff nth_list_update)
  qed
qed

lemma talk_up:
  assumes "world_wf w" and "\<forall>k. is_up (conn k)"
  shows "\<exists>w'. talk conn w = Inr (w', map serialized (concat (map (take 1) (outboxes w)))) \<and>
           outboxes w' = map tl (outboxes w) \<and> world_wf w' \<and> lmem w' = lmem w \<and>
           talkers w' = talkers w \<and> listeners w' = listeners w"
proof -
  have "distinct (talkers w)" "\<forall>a \<in> set (talkers w). a < length (tmem w)"
    using assms(1) by (simp_all add: world_wf_def)
  from talk_loop_up [OF assms(2) this, of 0] obtain m' where m':
      "talk_loop conn 0 (talkers w) (tmem w) =
         Inr (m', map serialized (concat (map (\<lambda>a. take 1 (tq_pending (tmem w ! a))) (talkers w))))"
      "length m' = length (tmem w)"
      "\<forall>i < length (tmem w). tq_pending (m' ! i) =
         (if i \<in> set (talkers w) then tl (tq_pending (tmem w ! i)) else tq_pending (tmem w ! i))"
    by blast
  have "outboxes (w\<lparr> tmem := m' \<rparr>) = map tl (outboxes w)"
    using m'(3) assms(1) by (auto simp: outboxes_def world_wf_def)
  moreover have "world_wf (w\<lparr> tmem := m' \<rparr>)"
    using assms(1) m'(2) by (simp add: world_wf_def)
  moreover have "talk conn w = Inr (w\<lparr> tmem := m' \<rparr>, map serialized (concat (map (take 1) (outboxes w))))"
    using m'(1) assms(1) by (simp add: talk_def world_wf_def outboxes_def comp_def)
  ultimately show ?thesis by auto
qed

text \<open>Rounds of the talker timer while the connection is up and nothing else touches the queues.\<close>

fun talk_rounds :: "(nat \<Rightarrow> connection) \<Rightarrow> nat \<Rightarrow> world \<Rightarrow> (world \<times> string list) result" where
  "talk_rounds conn 0 w = Inr (w, [])"
| "talk_rounds conn (Suc n) w =
     bind_result (talk conn w) (\<lambda>(w', frames).
     bind_result (talk_rounds conn n w') (\<lambda>(w'', frames'). Inr (w'', frames @ frames')))"

lemma talk_rounds_up:
  assumes "world_wf w" and "\<forall>k. is_up (conn k)"
  shows "\<exists>w' frames. talk_rounds conn n w = Inr (w', frames) \<and> world_wf w' \<and>
           outboxes w' = map (drop n) (outboxes w) \<and>
           frames = concat (map (\<lambda>k. map serialized (concat (map (\<lambda>ms. take 1 (drop k ms)) (outboxes w)))) [0..<n])"
  using assms(1)
proof (induction n arbitrary: w)
  case 0
  then show ?case by simp
next
  case (Suc n)
  obtain w1 where w1: "talk conn w = Inr (w1, map serialized (concat (map (take 1) (outboxes w))))"
      "outboxes w1 = map tl (outboxes w)" "world_wf w1"
    using talk_up [OF Suc.prems assms(2)] by blast
  obtain w' frames where w': "talk_rounds conn n w1 = Inr (w', frames)" "world_wf w'"
      "outboxes w' = map (drop n) (outboxes w1)"
      "frames = concat (map (\<lambda>k. map serialized (concat (map (\<lambda>ms. take 1 (drop k ms)) (outboxes w1)))) [0..<n])"
    using Suc.IH [OF w1(3)] by blast
  have "[0..<Suc n] = 0 # map Suc [0..<n]"
    by (simp add: upt_conv_Cons map_Suc_upt del: upt_Suc)
  then show ?case
    using w1 w' by (simp add: comp_def drop_Suc del: upt_Suc)
qed

lemma mset_by_columns:
  "\<forall>ms \<in> set mss. length ms \<le> n \<Longrightarrow>
     mset (concat (map (\<lambda>k. concat (map (\<lambda>ms. take 1 (drop k ms)) mss)) [0..<n])) = mset (concat mss)"
proof (induction mss)
  case Nil
  then show ?case by (simp add: mset_concat comp_def sum_list_0)
next
  case (Cons ms mss)
  have one: "concat (map (\<lambda>k. take 1 (drop k ms)) [0..<n]) = take n ms" for n
  proof (induction n)
    case (Suc n)
    then show ?case
      using take_add [of n 1 ms] by simp
  qed simp
  have cols: "mset (concat (map (\<lambda>k. f k @ g k) ks)) = mset (concat (map f ks)) + mset (concat (map g ks))"
    for f g :: "nat \<Rightarrow> 'a list" and ks
    by (induction ks) simp_all
  show ?case
    using Cons one [of n] by (simp add: cols del: upt_Suc)
qed

text \<open>The state after the callbacks of \<open>Opened\<close>: every queue starts with its head message.\<close>

lemma resetTalkers_ok:
  assumes "world_wf w"
  shows "\<exists>w'. resetTalkers w = Inr w' \<and> world_wf w' \<and> talkers w' = talkers w \<and>
           connection_of w' = connection_of w \<and>
           outboxes w' = map (\<lambda>a. head_msg (tmem w ! a) # tq (tmem w ! a)) (talkers w)"
proof -
  have "distinct (talkers w)" "\<forall>a \<in> set (talkers w). a < length (tmem w)" "talkers_alive w"
    using assms by (simp_all add: world_wf_def)
  from update_all_ok [OF this(1,2), of tq_reset] this(3) obtain m where m:
      "update_all tq_reset (talkers w) (tmem w) = Inr m" "length m = length (tmem w)"
      "\<forall>i < length (tmem w). m ! i = (if i \<in> set (talkers w) then tq_reset (tmem w ! i) else tmem w ! i)"
      "talkers_alive w"
    by blast
  have "world_wf (w\<lparr> tmem := m \<rparr>)"
    using assms m(2) by (simp add: world_wf_def)
  moreover have "outboxes (w\<lparr> tmem := m \<rparr>) = map (\<lambda>a. head_msg (tmem w ! a) # tq (tmem w ! a)) (talkers w)"
    using m(3) assms
    by (auto simp: outboxes_def world_wf_def tq_pending_def tq_header_def tq_reset_def)
  ultimately show ?thesis
    using m(1,4) by (simp add: resetTalkers_def)
qed

lemma client_event_opened:
  assumes "world_wf w" and "runner (connection_of w) = Running"
    and "endpoint (connection_of w) = Some Ws_connecting"
    and "on_connection (connection_of w) = Client_callback"
    and "user Calls_on_connection = None"
  shows "\<exists>w'. client_event user Opened w = Some w' \<and> world_wf w' \<and>
     talkers w' = talkers w \<and> endpoint (connection_of w') = Some Ws_open \<and>
     outboxes w' = map (\<lambda>a. head_msg (tmem w ! a) # tq (tmem w ! a)) (talkers w)"
proof -
  define c where "c = (connection_of w)\<lparr> endpoint := Some Ws_open \<rparr>"
  define w1 where "w1 = w\<lparr> connection_of := c \<rparr>"
  have "world_wf w1"
    using assms(1) by (simp add: w1_def world_wf_def)
  then obtain w' where w': "resetTalkers w1 = Inr w'" "world_wf w'" "talkers w' = talkers w1"
      "connection_of w' = connection_of w1"
      "outboxes w' = map (\<lambda>a. head_msg (tmem w1 ! a) # tq (tmem w1 ! a)) (talkers w1)"
    using resetTalkers_ok by blast
  have "runner_step Opened (connection_of w) = Some (c, [Calls_on_connection])"
    using assms(2-4) by (simp add: runner_step_def notify_def c_def)
  then have "client_event user Opened w = Some w'"
    using w'(1) assms(5) by (simp add: client_event_def run_effect_def w1_def)
  then show ?thesis
    using w' by (simp add: w1_def c_def)
qed

section \<open>Properties\<close>

text \<open>A small client for the examples: one queue to send from, and one listener of the topic \<open>t\<close>.\<close>

definition example_queue :: talker_queue where
  "example_queue = tq_push (Serializer TopicPublishOp ''1'') (TalkerQueue 1 (Serializer TopicAdvertiseOp ''0''))"

definition example_world :: "ws_state \<Rightarrow> world" where
  "example_world s =
     (RosbridgeClient ''localhost'' 9090)\<lparr> tmem := [example_queue], talkers := [0],
       lmem := [ListenerQueue 1], listeners := [(''t'', [0])],
       connection_of := (connection_of (RosbridgeClient ''localhost'' 9090))
         \<lparr> runner := Running, endpoint := Some s, active := Asks_connection,
           message_sender := Sends_on_connection \<rparr> \<rparr>"

lemma example_world_wf: "world_wf (example_world s)"
  by (simp add: world_wf_def example_world_def RosbridgeClient_def om_wf_def)

lemma example_up: "is_up (connection_of (example_world Ws_open))"
  by (simp add: example_world_def is_up_def)

lemma example_outboxes:
  "outboxes (example_world s) = [[Serializer TopicAdvertiseOp ''0'', Serializer TopicPublishOp ''1'']]"
  by (simp add: outboxes_def example_world_def example_queue_def tq_pending_def tq_header_def
      tq_push_def TalkerQueue_def pop_excess_keep_last queue_bound_nonneg)

text \<open>C7: While the connection stays up, \<open>n\<close> rounds of the talker with \<open>n\<close> at least the length of
  every outbox send every pending message of every attached queue exactly once and leave all of
  them empty.\<close>

theorem talker_sends_everything_once:
  assumes "world_wf w" and "\<forall>k. is_up (conn k)" and "\<forall>ms \<in> set (outboxes w). length ms \<le> n"
  shows "\<exists>w' frames. talk_rounds conn n w = Inr (w', frames) \<and>
           mset frames = image_mset serialized (mset (concat (outboxes w))) \<and>
           outboxes w' = map (\<lambda>_. []) (outboxes w)"
proof -
  obtain w' frames where w': "talk_rounds conn n w = Inr (w', frames)"
      "outboxes w' = map (drop n) (outboxes w)"
      "frames = concat (map (\<lambda>k. map serialized (concat (map (\<lambda>ms. take 1 (drop k ms)) (outboxes w)))) [0..<n])"
    using talk_rounds_up [OF assms(1,2), of n] by blast
  have "frames = map serialized (concat (map (\<lambda>k. concat (map (\<lambda>ms. take 1 (drop k ms)) (outboxes w))) [0..<n]))"
    by (simp add: w'(3) map_concat comp_def)
  then have "mset frames = image_mset serialized (mset (concat (outboxes w)))"
    using mset_by_columns [OF assms(3)] by simp
  moreover have "outboxes w' = map (\<lambda>_. []) (outboxes w)"
    using w'(2) assms(3) by (auto intro: map_cong)
  ultimately show ?thesis
    using w'(1) by blast
qed

theorem talker_sends_everything_once_witness:
  "\<exists>w' frames. talk_rounds (\<lambda>_. connection_of (example_world Ws_open)) 2 (example_world Ws_open) = Inr (w', frames) \<and>
     mset frames = {# serialized (Serializer TopicAdvertiseOp ''0''), serialized (Serializer TopicPublishOp ''1'') #} \<and>
     outboxes w' = [[]]"
  using talker_sends_everything_once [of "example_world Ws_open" "\<lambda>_. connection_of (example_world Ws_open)" 2]
  by (simp add: example_world_wf example_up example_outboxes)

text \<open>C6: When a connection opens and the user's callback returns, the next round of the talker sends
  the head message (the advertise or subscribe message) of every attached queue, in the order of
  attachment, and nothing else.\<close>

theorem reconnection_declares_endpoints:
  assumes "world_wf w" and "runner (connection_of w) = Running"
    and "endpoint (connection_of w) = Some Ws_connecting"
    and "on_connection (connection_of w) = Client_callback"
    and "user Calls_on_connection = None" and "\<forall>k. is_up (conn k)"
  shows "\<exists>w' w''. client_event user Opened w = Some w' \<and>
     talk conn w' = Inr (w'', map (\<lambda>a. serialized (head_msg (tmem w ! a))) (talkers w)) \<and>
     outboxes w'' = map (\<lambda>a. tq (tmem w ! a)) (talkers w)"
proof -
  obtain w' where w': "client_event user Opened w = Some w'" "world_wf w'"
      "outboxes w' = map (\<lambda>a. head_msg (tmem w ! a) # tq (tmem w ! a)) (talkers w)"
    using client_event_opened [of w user, OF assms(1-5)] by blast
  obtain w'' where "talk conn w' = Inr (w'', map serialized (concat (map (take 1) (outboxes w'))))"
      "outboxes w'' = map tl (outboxes w')"
    using talk_up [OF w'(2) assms(6)] by blast
  moreover have "concat (map (take 1) (map (\<lambda>a. f a # g a) as)) = map f as"
    for f :: "nat \<Rightarrow> serializer" and g as
    by (induction as) simp_all
  ultimately show ?thesis
    using w'(1) by (auto simp: w'(3) comp_def)
qed

theorem reconnection_declares_endpoints_witness:
  "\<exists>w' w''. client_event (\<lambda>_. None) Opened (example_world Ws_connecting) = Some w' \<and>
     talk (\<lambda>_. connection_of (example_world Ws_open)) w' =
       Inr (w'', [serialized (Serializer TopicAdvertiseOp ''0'')])"
  using reconnection_declares_endpoints [of "example_world Ws_connecting" "\<lambda>_. None"
      "\<lambda>_. connection_of (example_world Ws_open)"]
  by (auto simp: example_world_wf example_up)
    (auto simp: example_world_def RosbridgeClient_def example_queue_def tq_push_def TalkerQueue_def)

text \<open>C25: A received text whose message has a destination reaches every queue registered under the
  name and no other; each keeps its last messages.\<close>

theorem listen_delivers:
  assumes "world_wf w" and "Unserializer data = Inr u" and "destination u = Inr (Some n)"
  shows "\<exists>w'. listen data w = Inr w' \<and> world_wf w' \<and> tmem w' = tmem w \<and>
     map lq (lmem w') =
       map (\<lambda>i. if i \<in> set (registered n w)
                then keep_last (queue_bound (lq_size (lmem w ! i))) (lq (lmem w ! i) @ [u])
                else lq (lmem w ! i)) [0..<length (lmem w)]"
proof -
  obtain w' where w': "deliver n u w = Inr w'" "world_wf w'" "tmem w' = tmem w"
      "length (lmem w') = length (lmem w)"
      "\<forall>i < length (lmem w). lmem w' ! i =
         (if i \<in> set (registered n w) then lq_push u (lmem w ! i) else lmem w ! i)"
    using deliver_ok [OF assms(1), of n u] by blast
  have "listen data w = Inr w'"
    using w'(1) by (simp add: listen_destination assms(2,3))
  moreover have "map lq (lmem w') =
       map (\<lambda>i. if i \<in> set (registered n w)
                then keep_last (queue_bound (lq_size (lmem w ! i))) (lq (lmem w ! i) @ [u])
                else lq (lmem w ! i)) [0..<length (lmem w)]"
    using w'(4,5) by (intro nth_equalityI) (simp_all add: lq_push_def pop_excess_keep_last)
  ultimately show ?thesis
    using w'(2,3) by blast
qed

theorem listen_delivers_witness:
  "\<exists>w'. listen (serialized (SerializerTopicMessage ''1'' ''t'' [])) (example_world Ws_open) = Inr w' \<and>
     map lq (lmem w') = [[\<lparr> content = json (SerializerTopicMessage ''1'' ''t'' []) \<rparr>]]"
proof -
  define u where "u = \<lparr> content = json (SerializerTopicMessage ''1'' ''t'' []) \<rparr>"
  have u: "Unserializer (serialized (SerializerTopicMessage ''1'' ''t'' [])) = Inr u"
    unfolding u_def using serializer_of_wf [of "Topic_message ''t'' []" "''1''"]
    by (intro Unserializer_serialized) simp
  have d: "destination u = Inr (Some ''t'')"
    by (simp add: u_def destination_def accessor_results seen_def serializer_defs stringToOP_def)
  have "lmem (example_world Ws_open) = [ListenerQueue 1]" "registered ''t'' (example_world Ws_open) = [0]"
    by (simp_all add: example_world_def registered_def)
  then show ?thesis
    using listen_delivers [OF example_world_wf [of Ws_open] u d]
    by (auto simp: ListenerQueue_def queue_bound_nonneg simp flip: u_def)
qed

text \<open>A received text that is not a message (it is no JSON object, has a number that overflows, or
  lacks a field the dispatch reads) ends the connection: the exception of \<open>listen\<close> leaves the event
  loop, no queue changes, and until the runner goes on a call of \<open>active\<close> is undefined.\<close>

lemma malformed_message_ends_connection:
  assumes "runner (connection_of w) = Running" and "endpoint (connection_of w) = Some Ws_open"
    and "active (connection_of w) = Asks_connection"
    and "on_message_received (connection_of w) = Client_callback"
    and "listen data w = Inl e"
  shows "\<exists>w'. client_event user (Message data) w = Some w' \<and>
     runner (connection_of w') = Out_of_scope \<and> tmem w' = tmem w \<and> lmem w' = lmem w \<and>
     (\<exists>s. call_active (connection_of w') = Inl (Undefined_behaviour s))"
  using assms
  by (simp add: client_event_def runner_step_def notify_def run_effect_def call_active_def)

lemma malformed_message_ends_connection_witness:
  "\<exists>w'. client_event (\<lambda>_. None) (Message ''[]'') (example_world Ws_open) = Some w' \<and>
     runner (connection_of w') = Out_of_scope \<and>
     (\<exists>s. call_active (connection_of w') = Inl (Undefined_behaviour s))"
proof -
  have "Unserializer ''[]'' = Inl (type_mismatch ''object'')"
    by code_simp
  then have "listen ''[]'' (example_world Ws_open) = Inl (type_mismatch ''object'')"
    by (simp add: listen_def)
  then show ?thesis
    using malformed_message_ends_connection [of "example_world Ws_open" "''[]''" _ "\<lambda>_. None"]
    by (auto simp: example_world_def RosbridgeClient_def)
qed

text \<open>The destructor of the client destroys the list of the queues while the talker thread is still
  running: at that point the timer has not been stopped and a round of the talker is undefined.\<close>

lemma destructor_races_talker:
  "let w = fold (\<lambda>step. step) (take 3 client_destructor) (RosbridgeClient addr port)
   in is_running (talker_timer w) \<and> (\<exists>s. talk conn w = Inl (Undefined_behaviour s))"
  by (simp add: client_destructor_def RosbridgeClient_def clear_callbacks_def talk_def is_running_def
      timer_start_def launch_def new_timer_def joinable_def numeral_eq_Suc)

end
