(* ===== verification/Topics.thy ===== *)
theory Topics
  imports Client
begin

text \<open>
  \<open>publisher.h\<close>, \<open>publisher.cpp\<close>, \<open>subscriber.h\<close> and \<open>subscriber.cpp\<close>. The identifiers of the
  messages (the default argument \<open>unique()\<close>) and the user's callback are arguments.
\<close>

section \<open>Operations on shared queues\<close>

definition with_talker :: "nat \<Rightarrow> (talker_queue \<Rightarrow> talker_queue) \<Rightarrow> world \<Rightarrow> world result" where
  "with_talker a f w = bind_result (update_at f a (tmem w)) (\<lambda>m. Inr (w\<lparr> tmem := m \<rparr>))"

definition with_listener :: "nat \<Rightarrow> (listener_queue \<Rightarrow> listener_queue) \<Rightarrow> world \<Rightarrow> world result" where
  "with_listener a f w = bind_result (update_at f a (lmem w)) (\<lambda>m. Inr (w\<lparr> lmem := m \<rparr>))"

section \<open>Publisher\<close>

record publisher =
  pub_topic :: string
  pub_type :: string
  pub_queue :: nat

definition Publisher :: "string \<Rightarrow> string \<Rightarrow> string \<Rightarrow> c_int \<Rightarrow> world \<Rightarrow> publisher \<times> world" where
  "Publisher ident topic ty queue_size w =
     (let advertise_msg = SerializerTopicAdvertise ident topic ty;
          (a, w1) = alloc_talker (TalkerQueue queue_size advertise_msg) w
      in (\<lparr> pub_topic = topic, pub_type = ty, pub_queue = a \<rparr>, attach_talker a w1))"

definition publish :: "string \<Rightarrow> jobject \<Rightarrow> publisher \<Rightarrow> world \<Rightarrow> world result" where
  "publish ident msg p w =
     with_talker (pub_queue p) (tq_push (SerializerTopicMessage ident (pub_topic p) msg)) w"

definition publish_keys_values :: "string \<Rightarrow> keys_values \<Rightarrow> publisher \<Rightarrow> world \<Rightarrow> world result" where
  "publish_keys_values ident kvs p w = publish ident (to_json kvs) p w"

definition publisher_destructor :: "string \<Rightarrow> publisher \<Rightarrow> world \<Rightarrow> world result" where
  "publisher_destructor ident p w =
     bind_result (with_talker (pub_queue p)
       (tq_push (SerializerTopicUnadvertise ident (pub_topic p))) w) (\<lambda>w1.
     with_talker (pub_queue p) tq_abandon w1)"

section \<open>Subscriber\<close>

record subscriber =
  sub_topic :: string
  sub_type :: string
  sub_shutdown :: bool
  sub_talker :: nat
  sub_listener :: nat

definition Subscriber :: "string \<Rightarrow> string \<Rightarrow> string \<Rightarrow> c_int \<Rightarrow> world \<Rightarrow> subscriber \<times> world" where
  "Subscriber ident topic ty queue_size w =
     (let subscribe_msg = SerializerTopicSubscribe ident topic ty queue_size;
          (a, w1) = alloc_talker (TalkerQueue 10 subscribe_msg) w;
          (b, w2) = alloc_listener (ListenerQueue queue_size) w1
      in (\<lparr> sub_topic = topic, sub_type = ty, sub_shutdown = False, sub_talker = a,
            sub_listener = b \<rparr>,
          attach_listener b topic (attach_talker a w2)))"

text \<open>
  The end of one round of a listener thread: another round, the end of the thread, or the end of
  the program because of an exception that leaves the thread's function (or of undefined
  behaviour).
\<close>

datatype round_end = Next_round | Thread_ends | Program_ends exn

text \<open>
  One round of \<open>listener\<close>. \<open>cb\<close> is the user's callback: what it raises for a payload, if
  it does. The list is the calls of the callback.
\<close>

definition subscriber_round ::
    "(jobject \<Rightarrow> exn option) \<Rightarrow> subscriber \<Rightarrow> world \<Rightarrow> round_end \<times> jobject list \<times> world" where
  "subscriber_round cb s w =
     (if sub_shutdown s then (Thread_ends, [], w)
      else case deref (lmem w) (sub_listener s) of
          Inl e \<Rightarrow> (Program_ends e, [], w)
        | Inr l \<Rightarrow>
            if lq_empty l then (Next_round, [], w)
            else case lq_next l of
                Inl e \<Rightarrow> (Program_ends e, [], w)
              | Inr msg \<Rightarrow>
                  (case fst (msg_payload msg) of
                     Inl e \<Rightarrow> (Program_ends e, [], w)
                   | Inr p \<Rightarrow>
                       (case cb p of
                          Some e \<Rightarrow> (Program_ends e, [p], w)
                        | None \<Rightarrow>
                            (case lq_pop l of
                               Inl e \<Rightarrow> (Program_ends e, [p], w)
                             | Inr l' \<Rightarrow>
                                 (Next_round, [p], w\<lparr> lmem := (lmem w)[sub_listener s := l'] \<rparr>)))))"

text \<open>The rounds of a thread while nothing else touches the queue.\<close>

fun subscriber_rounds ::
    "(jobject \<Rightarrow> exn option) \<Rightarrow> nat \<Rightarrow> subscriber \<Rightarrow> world \<Rightarrow> round_end \<times> jobject list \<times> world" where
  "subscriber_rounds cb 0 s w = (Next_round, [], w)"
| "subscriber_rounds cb (Suc n) s w =
     (case subscriber_round cb s w of
        (Next_round, ps, w') \<Rightarrow>
          (case subscriber_rounds cb n s w' of (r, ps', w'') \<Rightarrow> (r, ps @ ps', w''))
      | stopped \<Rightarrow> stopped)"

text \<open>
  The destructor; the join waits for a round that sees the flag, which leaves the state alone.
\<close>

definition subscriber_destructor :: "string \<Rightarrow> subscriber \<Rightarrow> world \<Rightarrow> (subscriber \<times> world) result" where
  "subscriber_destructor ident s w =
     bind_result (with_talker (sub_talker s)
       (tq_push (SerializerTopicUnsubscribe ident (sub_topic s))) w) (\<lambda>w1.
     bind_result (with_talker (sub_talker s) tq_abandon w1) (\<lambda>w2.
     bind_result (with_listener (sub_listener s) lq_abandon w2) (\<lambda>w3.
       Inr (s\<lparr> sub_shutdown := True \<rparr>, w3))))"

section \<open>Well-formed states stay well-formed\<close>

lemma with_talker_ok:
  "a < length (tmem w) \<Longrightarrow> with_talker a f w = Inr (w\<lparr> tmem := (tmem w)[a := f (tmem w ! a)] \<rparr>)"
  by (simp add: with_talker_def update_at_def deref_def)

lemma with_listener_ok:
  "a < length (lmem w) \<Longrightarrow> with_listener a f w = Inr (w\<lparr> lmem := (lmem w)[a := f (lmem w ! a)] \<rparr>)"
  by (simp add: with_listener_def update_at_def deref_def)

lemma world_wf_with_talker: "world_wf w \<Longrightarrow> with_talker a f w = Inr w' \<Longrightarrow> world_wf w'"
  by (cases "deref (tmem w) a")
    (auto simp: with_talker_def update_at_def simp flip: world_wf_def, simp add: world_wf_def)

lemma world_wf_with_listener: "world_wf w \<Longrightarrow> with_listener a f w = Inr w' \<Longrightarrow> world_wf w'"
  by (cases "deref (lmem w) a")
    (auto simp: with_listener_def update_at_def simp flip: world_wf_def, simp add: world_wf_def)

lemma world_wf_alloc:
  "world_wf w \<Longrightarrow> world_wf (snd (alloc_talker t w))"
  "world_wf w \<Longrightarrow> world_wf (snd (alloc_listener l w))"
  by (force simp: world_wf_def alloc_talker_def alloc_listener_def)+

lemma world_wf_attach_talker:
  "world_wf w \<Longrightarrow> a < length (tmem w) \<Longrightarrow> a \<notin> set (talkers w) \<Longrightarrow> world_wf (attach_talker a w)"
  by (auto simp: world_wf_def attach_talker_def)

lemma registered_attach:
  "registered n (attach_listener a topic w) = registered n w @ (if n = topic then [a] else [])"
proof -
  obtain as ls where i: "om_index [] topic (listeners w) = (as, ls)" by fastforce
  have "as = registered topic w"
    using om_index_registered [of topic w] i by simp
  moreover have "om_find ls k = (if k = topic then Some as else om_find (listeners w) k)" for k
    using om_find_index [of "[]" topic "listeners w" k] i by simp
  ultimately show ?thesis
    by (simp add: attach_listener_def i registered_def)
qed

lemma world_wf_attach_listener:
  assumes "world_wf w" and "a < length (lmem w)" and "\<forall>n. a \<notin> set (registered n w)"
  shows "world_wf (attach_listener a topic w)"
proof -
  define w' where "w' = attach_listener a topic w"
  have "om_wf (listeners w')"
    using assms(1) om_index_wf [of "listeners w" "[]" topic]
    by (cases "om_index [] topic (listeners w)") (simp add: w'_def attach_listener_def world_wf_def)
  moreover have "distinct bs \<and> (\<forall>b \<in> set bs. b < length (lmem w))" if "(n, bs) \<in> set (listeners w')" for n bs
  proof -
    have "registered n w' = bs"
      using om_find_of_set [OF \<open>om_wf (listeners w')\<close> that] by (simp add: registered_def)
    then have "bs = registered n w @ (if n = topic then [a] else [])"
      by (simp add: w'_def registered_attach)
    then show ?thesis
      using registered_wf [OF assms(1), of n] assms(2,3) by auto
  qed
  ultimately have "world_wf w'"
    using assms(1)
    by (auto simp: world_wf_def w'_def attach_listener_def split: prod.splits)
  then show ?thesis by (simp add: w'_def)
qed

text \<open>Allocation gives an address that no vector holds.\<close>

lemma fresh_talker: "world_wf w \<Longrightarrow> length (tmem w) \<notin> set (talkers w)"
  by (auto simp: world_wf_def)

lemma fresh_listener: "world_wf w \<Longrightarrow> length (lmem w) \<notin> set (registered n w)"
  using registered_wf [of w n] by auto

lemma world_wf_Publisher:
  "world_wf w \<Longrightarrow> world_wf (snd (Publisher i topic ty n w))"
  using world_wf_attach_talker
    [of "snd (alloc_talker (TalkerQueue n (SerializerTopicAdvertise i topic ty)) w)" "length (tmem w)"]
    world_wf_alloc(1) fresh_talker
  by (simp add: Publisher_def alloc_talker_def Let_def)

lemma world_wf_attach_both:
  assumes "world_wf w"
  shows "world_wf (attach_listener (length (lmem w)) name (attach_talker (length (tmem w))
           (snd (alloc_listener l (snd (alloc_talker t w))))))"
proof (rule world_wf_attach_listener)
  have wf: "world_wf (snd (alloc_listener l (snd (alloc_talker t w))))"
    using assms by (intro world_wf_alloc)
  show "world_wf (attach_talker (length (tmem w)) (snd (alloc_listener l (snd (alloc_talker t w)))))"
    using wf fresh_talker [OF assms]
    by (intro world_wf_attach_talker) (simp_all add: alloc_talker_def alloc_listener_def)
  show "\<forall>n. length (lmem w) \<notin> set (registered n (attach_talker (length (tmem w))
          (snd (alloc_listener l (snd (alloc_talker t w))))))"
    using fresh_listener [OF assms]
    by (simp add: attach_talker_def alloc_talker_def alloc_listener_def registered_def)
qed (simp add: attach_talker_def alloc_talker_def alloc_listener_def)

lemma world_wf_Subscriber:
  "world_wf w \<Longrightarrow> world_wf (snd (Subscriber i topic ty n w))"
  using world_wf_attach_both
  by (simp add: Subscriber_def alloc_talker_def alloc_listener_def Let_def)

section \<open>What a subscriber does with its queue\<close>

lemma subscriber_round_Nil:
  assumes "\<not> sub_shutdown s" and "sub_listener s < length (lmem w)"
    and "lq (lmem w ! sub_listener s) = []"
  shows "subscriber_round cb s w = (Next_round, [], w)"
  using assms by (simp add: subscriber_round_def deref_def lq_empty_def)

lemma subscriber_round_Cons:
  assumes "\<not> sub_shutdown s" and "sub_listener s < length (lmem w)"
    and "lq (lmem w ! sub_listener s) = u # us"
    and "fst (msg_payload u) = Inr p" and "cb p = None"
  shows "subscriber_round cb s w =
    (Next_round, [p],
     w\<lparr> lmem := (lmem w)[sub_listener s := (lmem w ! sub_listener s)\<lparr> lq := us \<rparr>] \<rparr>)"
  using assms by (simp add: subscriber_round_def deref_def lq_empty_def lq_next_def lq_pop_def)

lemma subscriber_round_bad_payload:
  assumes "\<not> sub_shutdown s" and "sub_listener s < length (lmem w)"
    and "lq (lmem w ! sub_listener s) = u # us" and "fst (msg_payload u) = Inl e"
  shows "subscriber_round cb s w = (Program_ends e, [], w)"
  using assms by (simp add: subscriber_round_def deref_def lq_empty_def lq_next_def)

lemma subscriber_rounds_idle:
  assumes "\<not> sub_shutdown s" and "sub_listener s < length (lmem w)"
    and "lq (lmem w ! sub_listener s) = []"
  shows "subscriber_rounds cb n s w = (Next_round, [], w)"
  by (induction n) (simp_all add: subscriber_round_Nil [OF assms])

lemma subscriber_rounds_all:
  assumes "\<not> sub_shutdown s" and "sub_listener s < length (lmem w)"
    and "list_all2 (\<lambda>u p. fst (msg_payload u) = Inr p) (lq (lmem w ! sub_listener s)) ps"
    and "\<forall>p \<in> set ps. cb p = None" and "length ps \<le> n"
  shows "subscriber_rounds cb n s w =
    (Next_round, ps,
     w\<lparr> lmem := (lmem w)[sub_listener s := (lmem w ! sub_listener s)\<lparr> lq := [] \<rparr>] \<rparr>)"
  using assms(2-5)
proof (induction ps arbitrary: w n)
  case Nil
  then have empty: "lq (lmem w ! sub_listener s) = []" by simp
  then have "(lmem w ! sub_listener s)\<lparr> lq := [] \<rparr> = lmem w ! sub_listener s"
    by (cases "lmem w ! sub_listener s") simp
  then show ?case
    using subscriber_rounds_idle [OF assms(1) Nil.prems(1) empty] by simp
next
  case (Cons p ps)
  obtain u us where u: "lq (lmem w ! sub_listener s) = u # us" "fst (msg_payload u) = Inr p"
      "list_all2 (\<lambda>u p. fst (msg_payload u) = Inr p) us ps"
    using Cons.prems(2) by (auto simp: list_all2_Cons2)
  obtain n' where n: "n = Suc n'" using Cons.prems(4) by (cases n) auto
  define w' where "w' = w\<lparr> lmem := (lmem w)[sub_listener s := (lmem w ! sub_listener s)\<lparr> lq := us \<rparr>] \<rparr>"
  have r: "subscriber_round cb s w = (Next_round, [p], w')"
    using subscriber_round_Cons [OF assms(1) Cons.prems(1) u(1,2)] Cons.prems(3) by (simp add: w'_def)
  have "subscriber_rounds cb n' s w' =
      (Next_round, ps, w'\<lparr> lmem := (lmem w')[sub_listener s := (lmem w' ! sub_listener s)\<lparr> lq := [] \<rparr>] \<rparr>)"
    using Cons.IH [of w' n'] Cons.prems u(3) by (simp add: w'_def n)
  then show ?case
    using Cons.prems(1) by (simp add: n r) (simp add: w'_def)
qed

section \<open>What a publisher leaves in its queue\<close>

text \<open>Publishing a list of payloads, with their identifiers.\<close>

fun publish_list :: "(string \<times> jobject) list \<Rightarrow> publisher \<Rightarrow> world \<Rightarrow> world result" where
  "publish_list [] p w = Inr w"
| "publish_list ((i, msg) # ms) p w = bind_result (publish i msg p w) (\<lambda>w'. publish_list ms p w')"

definition pub_messages :: "publisher \<Rightarrow> (string \<times> jobject) list \<Rightarrow> serializer list" where
  "pub_messages p ms = map (\<lambda>(i, msg). SerializerTopicMessage i (pub_topic p) msg) ms"

lemma publish_list_ok:
  "pub_queue p < length (tmem w) \<Longrightarrow>
     publish_list ms p w = Inr (w\<lparr> tmem := (tmem w)[pub_queue p :=
       fold tq_push (pub_messages p ms) (tmem w ! pub_queue p)] \<rparr>)"
proof (induction ms arbitrary: w)
  case Nil
  then show ?case by (simp add: pub_messages_def)
next
  case (Cons im ms)
  then show ?case
    by (cases im) (simp add: publish_def with_talker_ok pub_messages_def)
qed

lemma tq_push_other_fields [simp]:
  "tq_size (tq_push m t) = tq_size t" "head_msg (tq_push m t) = head_msg t"
  "head_popped (tq_push m t) = head_popped t" "tq_orphan (tq_push m t) = tq_orphan t"
  by (simp_all add: tq_push_def)

lemma tq_push_list_other_fields [simp]:
  "tq_size (fold tq_push ms t) = tq_size t" "head_msg (fold tq_push ms t) = head_msg t"
  "head_popped (fold tq_push ms t) = head_popped t" "tq_orphan (fold tq_push ms t) = tq_orphan t"
  by (induction ms arbitrary: t) simp_all

lemma tq_TalkerQueue [simp]:
  "tq_size (TalkerQueue n h) = n" "head_msg (TalkerQueue n h) = h"
  "head_popped (TalkerQueue n h) = False" "tq (TalkerQueue n h) = []"
  "tq_orphan (TalkerQueue n h) = False"
  by (simp_all add: TalkerQueue_def)

lemma tq_pending_burst:
  "tq_pending (fold tq_push ms (TalkerQueue n h)) = h # keep_last (queue_bound n) ms"
  by (simp add: tq_pending_def tq.body_enq_all) (simp add: tq_header_def)

section \<open>Properties\<close>

text \<open>A session of \<open>listen\<close>: a list of received texts.\<close>

fun listen_all :: "string list \<Rightarrow> world \<Rightarrow> world result" where
  "listen_all [] w = Inr w"
| "listen_all (d # ds) w = bind_result (listen d w) (listen_all ds)"

text \<open>Messages of a topic received by a queue that is registered for it and has room for them.\<close>

lemma destination_received:
  "destination (received i (Topic_message t p)) = Inr (Some t)"
  "destination (received i (Service_request t p)) = Inr (Some t)"
  "destination (received i (Service_response t p b)) = Inr (Some t)"
  by (simp_all add: destination_def received_fields)

lemma listen_received:
  assumes "world_wf w" and "json_wf (JObject (message_payload m))"
    and "destination (received i m) = Inr (Some t)" and "a \<in> set (registered t w)"
  shows "\<exists>w'. listen (serialized (serializer_of i m)) w = Inr w' \<and> world_wf w' \<and>
     length (lmem w') = length (lmem w) \<and> (\<forall>k. registered k w' = registered k w) \<and> tmem w' = tmem w \<and>
     talkers w' = talkers w \<and> lmem w' ! a = lq_push (received i m) (lmem w ! a)"
proof -
  obtain w' where w': "deliver t (received i m) w = Inr w'" "world_wf w'"
      "length (lmem w') = length (lmem w)" "\<forall>k. registered k w' = registered k w" "tmem w' = tmem w"
      "talkers w' = talkers w"
      "\<forall>j < length (lmem w). lmem w' ! j =
         (if j \<in> set (registered t w) then lq_push (received i m) (lmem w ! j) else lmem w ! j)"
    using deliver_ok [OF assms(1), of t "received i m"] by blast
  have "a < length (lmem w)"
    using registered_wf [OF assms(1), of t] assms(4) by blast
  moreover have "listen (serialized (serializer_of i m)) w = Inr w'"
    using w'(1) by (simp add: listen_destination Unserializer_received [OF assms(2)] assms(3))
  ultimately show ?thesis
    using w' assms(4) by auto
qed

lemma lq_push_fields [simp]:
  "lq_size (lq_push u l) = lq_size l" "lq_orphan (lq_push u l) = lq_orphan l"
  by (simp_all add: lq_push_def)

lemma listen_all_topic:
  assumes "world_wf w" and "a \<in> set (registered t w)" and "\<forall>(i, p) \<in> set ms. json_wf (JObject p)"
  shows "\<exists>w'. listen_all (map (\<lambda>(i, p). serialized (SerializerTopicMessage i t p)) ms) w = Inr w' \<and>
     length (lmem w') = length (lmem w) \<and>
     lmem w' ! a = fold lq_push (map (\<lambda>(i, p). received i (Topic_message t p)) ms) (lmem w ! a)"
  using assms
proof (induction ms arbitrary: w)
  case Nil
  then show ?case by simp
next
  case (Cons ip ms)
  obtain i p where ip: "ip = (i, p)" by fastforce
  have "json_wf (JObject (message_payload (Topic_message t p)))"
    using Cons.prems(3) by (auto simp: ip simp del: json_wf.simps)
  from listen_received [OF Cons.prems(1) this destination_received(1) Cons.prems(2)] obtain w1 where
    w1: "listen (serialized (SerializerTopicMessage i t p)) w = Inr w1" "world_wf w1"
      "length (lmem w1) = length (lmem w)" "\<forall>k. registered k w1 = registered k w"
      "lmem w1 ! a = lq_push (received i (Topic_message t p)) (lmem w ! a)"
    by auto
  obtain w' where "listen_all (map (\<lambda>(i, p). serialized (SerializerTopicMessage i t p)) ms) w1 = Inr w'"
     "length (lmem w') = length (lmem w1)"
     "lmem w' ! a = fold lq_push (map (\<lambda>(i, p). received i (Topic_message t p)) ms) (lmem w1 ! a)"
    using Cons.IH [OF w1(2)] Cons.prems(2,3) w1(4) by auto
  then show ?case
    using w1 by (auto simp: ip)
qed

text \<open>A publisher's queue, whatever it publishes: the advertise message first, then the last
  messages published, as many as its size, in order; the other queues of the client are untouched.\<close>

lemma publisher_outbox:
  assumes "world_wf w" and "0 \<le> sint n" and "Publisher i topic ty n w = (p, w1)"
  shows "\<exists>w2. publish_list ms p w1 = Inr w2 \<and> world_wf w2 \<and>
    outboxes w2 = outboxes w @
      [SerializerTopicAdvertise i topic ty # keep_last (nat (sint n)) (pub_messages p ms)]"
proof -
  define h where "h = SerializerTopicAdvertise i topic ty"
  have p: "pub_queue p = length (tmem w)" "tmem w1 = tmem w @ [TalkerQueue n h]"
      "talkers w1 = talkers w @ [length (tmem w)]"
    using assms(3) by (auto simp: Publisher_def alloc_talker_def attach_talker_def Let_def h_def)
  define w2 where "w2 = w1\<lparr> tmem := (tmem w1)[pub_queue p :=
       fold tq_push (pub_messages p ms) (tmem w1 ! pub_queue p)] \<rparr>"
  have run: "publish_list ms p w1 = Inr w2"
    unfolding w2_def by (rule publish_list_ok) (simp add: p)
  have "world_wf w1"
    using world_wf_Publisher [OF assms(1), of i topic ty n] assms(3) by simp
  then have "world_wf w2"
    by (simp add: w2_def world_wf_def)
  moreover have "outboxes w2 = outboxes w @ [h # keep_last (nat (sint n)) (pub_messages p ms)]"
    using assms(1,2)
    by (auto simp: outboxes_def w2_def p tq_pending_burst queue_bound_nonneg world_wf_def nth_append)
  ultimately show ?thesis
    using run h_def by blast
qed

lemma publisher_outbox_witness:
  "\<exists>w2. publish_list [(''1'', []), (''2'', [])] (fst (Publisher ''0'' ''/t'' ''std_msgs/Empty'' 1 (RosbridgeClient ''h'' 1)))
      (snd (Publisher ''0'' ''/t'' ''std_msgs/Empty'' 1 (RosbridgeClient ''h'' 1))) = Inr w2 \<and>
    outboxes w2 = [[SerializerTopicAdvertise ''0'' ''/t'' ''std_msgs/Empty'', SerializerTopicMessage ''2'' ''/t'' []]]"
proof -
  obtain p w1 where p: "Publisher ''0'' ''/t'' ''std_msgs/Empty'' 1 (RosbridgeClient ''h'' 1) = (p, w1)"
    by fastforce
  then have "pub_topic p = ''/t''"
    by (auto simp: Publisher_def Let_def split: prod.splits)
  then have "keep_last 1 (pub_messages p [(''1'', []), (''2'', [])]) = [SerializerTopicMessage ''2'' ''/t'' []]"
    by (simp add: pub_messages_def keep_last_def)
  moreover have "outboxes (RosbridgeClient ''h'' 1) = []"
    by (simp add: outboxes_def RosbridgeClient_def)
  ultimately show ?thesis
    using publisher_outbox [OF world_wf_RosbridgeClient _ p, of "[(''1'', []), (''2'', [])]"]
    by (auto simp: p)
qed

text \<open>A destroyed publisher is abandoned but never forgotten: its queue stays attached, and the next
  connection resets it, so its advertise message is sent again.\<close>

lemma destroyed_publisher_advertises_again:
  assumes "world_wf w" and "Publisher i topic ty n w = (p, w1)"
  shows "\<exists>w2 w3. publisher_destructor j p w1 = Inr w2 \<and> tq_isOrphan (tmem w2 ! pub_queue p) \<and>
    resetTalkers w2 = Inr w3 \<and>
    (\<exists>ms. last (outboxes w3) = SerializerTopicAdvertise i topic ty # ms)"
proof -
  define h where "h = SerializerTopicAdvertise i topic ty"
  have p: "pub_queue p = length (tmem w)" "tmem w1 = tmem w @ [TalkerQueue n h]"
      "talkers w1 = talkers w @ [length (tmem w)]"
    using assms(2) by (auto simp: Publisher_def alloc_talker_def attach_talker_def Let_def h_def)
  define q where "q = tq_abandon (tq_push (SerializerTopicUnadvertise j (pub_topic p)) (TalkerQueue n h))"
  define w2 where "w2 = w1\<lparr> tmem := (tmem w1)[pub_queue p := q] \<rparr>"
  have d: "publisher_destructor j p w1 = Inr w2"
    by (simp add: publisher_destructor_def with_talker_ok p w2_def q_def)
  have "world_wf w1"
    using world_wf_Publisher [OF assms(1), of i topic ty n] assms(2) by simp
  then have "world_wf w2"
    by (simp add: w2_def world_wf_def)
  from resetTalkers_ok [OF this] obtain w3 where w3: "resetTalkers w2 = Inr w3"
      "outboxes w3 = map (\<lambda>a. head_msg (tmem w2 ! a) # tq (tmem w2 ! a)) (talkers w2)"
    by blast
  have "last (outboxes w3) = h # tq q"
    by (simp add: w3(2)) (simp add: w2_def p q_def tq_abandon_def)
  moreover have "tq_isOrphan (tmem w2 ! pub_queue p)"
    by (simp add: w2_def p q_def tq_abandon_def tq_isOrphan_def)
  ultimately show ?thesis
    using d w3(1) h_def by blast
qed

lemma destroyed_publisher_advertises_again_witness:
  "\<exists>w3 ms. last (outboxes w3) = SerializerTopicAdvertise ''0'' ''/t'' ''std_msgs/Empty'' # ms"
proof -
  obtain p w1 where p: "Publisher ''0'' ''/t'' ''std_msgs/Empty'' 1 (RosbridgeClient ''h'' 1) = (p, w1)"
    by fastforce
  show ?thesis
    using destroyed_publisher_advertises_again [OF world_wf_RosbridgeClient p, of "''1''"] by blast
qed

text \<open>A subscriber's thread hands the payloads of the queued messages to the callback in the order
  of arrival, each exactly once, and empties the queue.\<close>

lemma subscriber_in_order:
  assumes "\<not> sub_shutdown s" and "sub_listener s < length (lmem w)"
    and "list_all2 (\<lambda>u p. fst (msg_payload u) = Inr p) (lq (lmem w ! sub_listener s)) ps"
    and "\<forall>p \<in> set ps. cb p = None" and "length ps \<le> n"
  shows "\<exists>w'. subscriber_rounds cb n s w = (Next_round, ps, w') \<and> lq (lmem w' ! sub_listener s) = []"
  using subscriber_rounds_all [OF assms] assms(2) by simp

definition example_subscriber :: subscriber where
  "example_subscriber =
     \<lparr> sub_topic = ''t'', sub_type = ''std_msgs/Bool'', sub_shutdown = False, sub_talker = 0,
       sub_listener = 0 \<rparr>"

lemma example_registered:
  "registered ''t'' (example_world s) = [0]" "lmem (example_world s) = [ListenerQueue 1]"
  by (simp_all add: example_world_def registered_def)

text \<open>C5: What is published arrives: the texts of the messages of a topic, received in order by a client
  with a subscriber of the topic that has room for them, end as the calls of its callback with
  exactly the published payloads, in order.\<close>

theorem topic_end_to_end:
  assumes "world_wf w" and "\<not> sub_shutdown s"
    and "sub_listener s \<in> set (registered (sub_topic s) w)" and "lq (lmem w ! sub_listener s) = []"
    and "\<forall>(i, p) \<in> set ms. json_wf (JObject p)" and "\<forall>(i, p) \<in> set ms. cb p = None"
    and "length ms \<le> queue_bound (lq_size (lmem w ! sub_listener s))"
  shows "\<exists>w' w''. listen_all (map (\<lambda>(i, p). serialized (SerializerTopicMessage i (sub_topic s) p)) ms) w = Inr w' \<and>
     subscriber_rounds cb (length ms) s w' = (Next_round, map snd ms, w'')"
proof -
  let ?us = "map (\<lambda>(i, p). received i (Topic_message (sub_topic s) p)) ms"
  obtain w' where w': "listen_all (map (\<lambda>(i, p). serialized (SerializerTopicMessage i (sub_topic s) p)) ms) w = Inr w'"
      "length (lmem w') = length (lmem w)"
      "lmem w' ! sub_listener s = fold lq_push ?us (lmem w ! sub_listener s)"
    using listen_all_topic [OF assms(1,3,5)] by blast
  have "lq (lmem w' ! sub_listener s) = ?us"
    using lq.body_enq_all [of "lmem w ! sub_listener s" ?us] assms(4,7) by (simp add: w'(3))
  then have "list_all2 (\<lambda>u p. fst (msg_payload u) = Inr p) (lq (lmem w' ! sub_listener s)) (map snd ms)"
    by (auto simp: list_all2_conv_all_nth received_fields split: prod.split)
  moreover have "sub_listener s < length (lmem w')"
    using registered_wf [OF assms(1), of "sub_topic s"] assms(3) w'(2) by auto
  moreover have "\<forall>p \<in> set (map snd ms). cb p = None"
    using assms(6) by auto
  ultimately show ?thesis
    using subscriber_rounds_all [OF assms(2), of w' "map snd ms" cb "length ms"] w'(1) by auto
qed

theorem topic_end_to_end_witness:
  "\<exists>w' w''. listen_all [serialized (SerializerTopicMessage ''1'' ''t'' [(''data'', JBool True)])] (example_world Ws_open) = Inr w' \<and>
     subscriber_rounds (\<lambda>_. None) 1 example_subscriber w' = (Next_round, [[(''data'', JBool True)]], w'')"
  using topic_end_to_end [of "example_world Ws_open" example_subscriber "[(''1'', [(''data'', JBool True)])]" "\<lambda>_. None"]
  by (simp add: example_world_wf example_subscriber_def example_registered ListenerQueue_def
      queue_bound_nonneg om_wf_def)

text \<open>A publish message without a payload object passes \<open>listen\<close> and ends the program of the
  subscriber: nothing in the listener thread catches the exception of \<open>payload\<close>.\<close>

lemma message_without_payload_ends_program:
  assumes "world_wf w" and "\<not> sub_shutdown s"
    and "sub_listener s \<in> set (registered (sub_topic s) w)" and "lq (lmem w ! sub_listener s) = []"
    and "0 < queue_bound (lq_size (lmem w ! sub_listener s))"
  shows "\<exists>w'. listen (to_string [(''op'', JString ''publish''), (''topic'', JString (sub_topic s))]) w = Inr w' \<and>
     subscriber_round cb s w' = (Program_ends (type_mismatch ''object''), [], w')"
proof -
  define u where "u = \<lparr> content = [(''op'', JString ''publish''), (''topic'', JString (sub_topic s))] \<rparr>"
  have "json_wf (JObject [(''op'', JString ''publish''), (''topic'', JString (sub_topic s))])"
    by (simp add: om_wf_def)
  then have U: "Unserializer (to_string [(''op'', JString ''publish''), (''topic'', JString (sub_topic s))]) = Inr u"
    by (simp add: Unserializer_def parse_to_string u_def del: json_wf.simps)
  have t: "fst (msg_type u) = Inr TopicPublishOp"
    by (simp add: msg_type_result seen_def u_def stringToOP_def)
  then have d: "destination u = Inr (Some (sub_topic s))"
    by (simp add: destination_def msg_topic_result seen_def) (simp add: u_def)
  have pay: "fst (msg_payload u) = Inl (type_mismatch ''object'')"
    by (simp add: msg_payload_result t) (simp add: u_def seen_def)
  obtain w' where w': "deliver (sub_topic s) u w = Inr w'" "length (lmem w') = length (lmem w)"
      "\<forall>j < length (lmem w). lmem w' ! j =
         (if j \<in> set (registered (sub_topic s) w) then lq_push u (lmem w ! j) else lmem w ! j)"
    using deliver_ok [OF assms(1), of "sub_topic s" u] by blast
  have a: "sub_listener s < length (lmem w)"
    using registered_wf [OF assms(1), of "sub_topic s"] assms(3) by blast
  have "lq (lmem w' ! sub_listener s) = [u]"
    using w'(3) a assms(3-5) by (simp add: lq_push_def pop_excess_keep_last)
  then have "subscriber_round cb s w' = (Program_ends (type_mismatch ''object''), [], w')"
    using subscriber_round_bad_payload [OF assms(2) _ _ pay] a w'(2) by simp
  then show ?thesis
    using w'(1) by (simp add: listen_destination U d)
qed

lemma message_without_payload_ends_program_witness:
  "\<exists>w'. listen (to_string [(''op'', JString ''publish''), (''topic'', JString ''t'')]) (example_world Ws_open) = Inr w' \<and>
     subscriber_round (\<lambda>_. None) example_subscriber w' = (Program_ends (type_mismatch ''object''), [], w')"
  using message_without_payload_ends_program [of "example_world Ws_open" example_subscriber "\<lambda>_. None"]
  by (simp add: example_world_wf example_subscriber_def example_registered ListenerQueue_def
      queue_bound_nonneg)

end
