(* ===== verification/Services.thy ===== *)
theory Services
  imports Topics
begin

text \<open>
  \<open>serviceserver.h\<close>, \<open>serviceserver.cpp\<close>, \<open>serviceclient.h\<close> and \<open>serviceclient.cpp\<close>. The user's
  callback, the clock and the messages that arrive while a call waits are arguments.
\<close>

section \<open>ServiceServer\<close>

record service_server =
  srv_service :: string
  srv_type :: string
  srv_shutdown :: bool
  srv_talker :: nat
  srv_listener :: nat

definition ServiceServer ::
    "string \<Rightarrow> string \<Rightarrow> string \<Rightarrow> c_int \<Rightarrow> world \<Rightarrow> service_server \<times> world" where
  "ServiceServer ident service ty queue_size w =
     (let advertise_msg = SerializerServiceAdvertise ident service ty;
          (a, w1) = alloc_talker (TalkerQueue queue_size advertise_msg) w;
          (b, w2) = alloc_listener (ListenerQueue queue_size) w1
      in (\<lparr> srv_service = service, srv_type = ty, srv_shutdown = False, srv_talker = a,
            srv_listener = b \<rparr>,
          attach_listener b service (attach_talker a w2)))"

text \<open>The \<open>try\<close> block of \<open>listener\<close>; \<open>cb\<close> is the user's callback.\<close>

definition server_answer ::
    "(jobject \<Rightarrow> jobject result) \<Rightarrow> service_server \<Rightarrow> unserializer \<Rightarrow> world \<Rightarrow> world result" where
  "server_answer cb s msg w =
     (case msg_payload msg of
        (Inl e, _) \<Rightarrow> Inl e
      | (Inr request, msg1) \<Rightarrow>
          bind_result (cb request) (\<lambda>response.
          bind_result (fst (msg_id msg1)) (\<lambda>ident.
            with_talker (srv_talker s)
              (tq_push (SerializerServiceResponse (srv_service s) response True ident)) w)))"

text \<open>\<open>catch (...)\<close> swallows every exception, not undefined behaviour.\<close>

definition server_round ::
    "(jobject \<Rightarrow> jobject result) \<Rightarrow> service_server \<Rightarrow> world \<Rightarrow> round_end \<times> world" where
  "server_round cb s w =
     (if srv_shutdown s then (Thread_ends, w)
      else case deref (lmem w) (srv_listener s) of
          Inl e \<Rightarrow> (Program_ends e, w)
        | Inr l \<Rightarrow>
            if lq_empty l then (Next_round, w)
            else case lq_next l of
                Inl e \<Rightarrow> (Program_ends e, w)
              | Inr msg \<Rightarrow>
                  (case server_answer cb s msg w of
                     Inl e \<Rightarrow>
                       if is_undefined e then (Program_ends e, w)
                       else (case lq_pop l of
                               Inl e' \<Rightarrow> (Program_ends e', w)
                             | Inr l' \<Rightarrow> (Next_round, w\<lparr> lmem := (lmem w)[srv_listener s := l'] \<rparr>))
                   | Inr w1 \<Rightarrow>
                       (case lq_pop l of
                          Inl e' \<Rightarrow> (Program_ends e', w1)
                        | Inr l' \<Rightarrow> (Next_round, w1\<lparr> lmem := (lmem w1)[srv_listener s := l'] \<rparr>))))"

fun server_rounds ::
    "(jobject \<Rightarrow> jobject result) \<Rightarrow> nat \<Rightarrow> service_server \<Rightarrow> world \<Rightarrow> round_end \<times> world" where
  "server_rounds cb 0 s w = (Next_round, w)"
| "server_rounds cb (Suc n) s w =
     (case server_round cb s w of
        (Next_round, w') \<Rightarrow> server_rounds cb n s w'
      | stopped \<Rightarrow> stopped)"

definition server_destructor ::
    "string \<Rightarrow> service_server \<Rightarrow> world \<Rightarrow> (service_server \<times> world) result" where
  "server_destructor ident s w =
     bind_result (with_talker (srv_talker s)
       (tq_push (SerializerServiceUnadvertise ident (srv_service s))) w) (\<lambda>w1.
     bind_result (with_talker (srv_talker s) tq_abandon w1) (\<lambda>w2.
     bind_result (with_listener (srv_listener s) lq_abandon w2) (\<lambda>w3.
       Inr (s\<lparr> srv_shutdown := True \<rparr>, w3))))"

section \<open>ServiceClient\<close>

record service_client =
  cli_service :: string
  cli_shutdown :: bool
  cli_talker :: nat
  cli_listener :: nat

definition ServiceClient :: "string \<Rightarrow> string \<Rightarrow> c_int \<Rightarrow> world \<Rightarrow> service_client \<times> world" where
  "ServiceClient ident service queue_size w =
     (let no_op = Serializer InvalidOp ident;
          (a, w1) = alloc_talker (TalkerQueue queue_size no_op) w;
          (b, w2) = alloc_listener (ListenerQueue queue_size) w1
      in (\<lparr> cli_service = service, cli_shutdown = False, cli_talker = a, cli_listener = b \<rparr>,
          attach_listener b service (attach_talker a w2)))"

definition client_destructor_of :: "service_client \<Rightarrow> world \<Rightarrow> (service_client \<times> world) result" where
  "client_destructor_of c w =
     bind_result (with_talker (cli_talker c) tq_abandon w) (\<lambda>w1.
     bind_result (with_listener (cli_listener c) lq_abandon w1) (\<lambda>w2.
       Inr (c\<lparr> cli_shutdown := True \<rparr>, w2)))"

text \<open>The end of a call: the returned optional, an exception, or still in the loop.\<close>

datatype call_end = Returned "jobject option" | Raised exn | Waiting

text \<open>
  The loop of \<open>call\<close>. An element of the list of rounds is the time at the test of the loop and the
  messages that arrive during the sleep that follows; times and the timeout are in nanoseconds.
  When the list is used up the call is still waiting.
\<close>

fun call_loop ::
    "string \<Rightarrow> int \<Rightarrow> int \<Rightarrow> (int \<times> unserializer list) list \<Rightarrow> listener_queue \<Rightarrow> call_end \<times> listener_queue"
  where
  "call_loop rid start timeout [] l = (Waiting, l)"
| "call_loop rid start timeout ((now, arrived) # rounds) l =
     (if now - start < timeout
      then (case lq_nextById rid (fold lq_push arrived l) of
              (Inl e, l') \<Rightarrow> (Raised e, l')
            | (Inr None, l') \<Rightarrow> call_loop rid start timeout rounds l'
            | (Inr (Some u), l') \<Rightarrow>
                (case msg_result u of
                   (Inl e, _) \<Rightarrow> (Raised e, l')
                 | (Inr False, _) \<Rightarrow> call_loop rid start timeout rounds l'
                 | (Inr True, u') \<Rightarrow>
                     (case fst (msg_payload u') of
                        Inl e \<Rightarrow> (Raised e, l')
                      | Inr response \<Rightarrow> (Returned (Some response), l'))))
      else (Returned None, l))"

definition ns_per_second :: int where
  "ns_per_second = 1000000000"

definition call ::
    "string \<Rightarrow> jobject \<Rightarrow> int \<Rightarrow> int \<Rightarrow> (int \<times> unserializer list) list \<Rightarrow> service_client \<Rightarrow> world \<Rightarrow>
       (call_end \<times> world) result" where
  "call ident input timeout start rounds c w =
     (let request = SerializerServiceRequest ident (cli_service c) input in
      bind_result (serializer_id request) (\<lambda>rid.
      bind_result (with_talker (cli_talker c) (tq_push request) w) (\<lambda>w1.
      bind_result (deref (lmem w1) (cli_listener c)) (\<lambda>l.
        case call_loop rid start (timeout * ns_per_second) rounds l of
          (r, l') \<Rightarrow> Inr (r, w1\<lparr> lmem := (lmem w1)[cli_listener c := l'] \<rparr>)))))"

definition call_keys_values ::
    "string \<Rightarrow> keys_values \<Rightarrow> int \<Rightarrow> int \<Rightarrow> (int \<times> unserializer list) list \<Rightarrow> service_client \<Rightarrow> world \<Rightarrow>
       (call_end \<times> world) result" where
  "call_keys_values ident input timeout start rounds c w =
     call ident (to_json input) timeout start rounds c w"

section \<open>What a service server does with its queue\<close>

lemma server_round_Nil:
  assumes "\<not> srv_shutdown s" and "srv_listener s < length (lmem w)"
    and "lq (lmem w ! srv_listener s) = []"
  shows "server_round cb s w = (Next_round, w)"
  using assms by (simp add: server_round_def deref_def lq_empty_def)

text \<open>What the callback makes of a message: the response and its identifier, or nothing.\<close>

definition answer_of ::
    "(jobject \<Rightarrow> jobject result) \<Rightarrow> string \<Rightarrow> unserializer \<Rightarrow> serializer list" where
  "answer_of cb service msg =
     (case bind_result (fst (msg_payload msg)) cb of
        Inl e \<Rightarrow> []
      | Inr response \<Rightarrow>
          (case fst (msg_id msg) of
             Inl e \<Rightarrow> []
           | Inr ident \<Rightarrow> [SerializerServiceResponse service response True ident]))"

text \<open>A callback whose exceptions are C++ exceptions.\<close>

definition defined_callback :: "(jobject \<Rightarrow> jobject result) \<Rightarrow> bool" where
  "defined_callback cb \<longleftrightarrow> (\<forall>p e. cb p = Inl e \<longrightarrow> \<not> is_undefined e)"

lemma msg_id_total: "\<exists>i. fst (msg_id u) = Inr i"
  by (auto simp: msg_id_result split: jvalue.split)

lemma getters_defined:
  "get_object v = Inl e \<Longrightarrow> \<not> is_undefined e"
  "get_string v = Inl e \<Longrightarrow> \<not> is_undefined e"
  "get_bool v = Inl e \<Longrightarrow> \<not> is_undefined e"
  by (cases v; force simp: type_mismatch_def)+

lemma msg_payload_defined:
  assumes "fst (msg_payload u) = Inl e"
  shows "\<not> is_undefined e"
proof (cases "get_string (seen u ''op'')")
  case (Inl e')
  then show ?thesis
    using assms getters_defined(2) [OF Inl] by (simp add: msg_payload_result msg_type_result)
next
  case (Inr s)
  have "fst (msg_type u) = Inr (stringToOP s)"
    by (simp add: msg_type_result Inr)
  then show ?thesis
    using assms getters_defined(1) unfolding msg_payload_result by (simp split: if_splits)
qed

lemma server_answer_eq:
  assumes "srv_talker s < length (tmem w)"
  shows "server_answer cb s msg w =
    (case bind_result (fst (msg_payload msg)) cb of
       Inl e \<Rightarrow> Inl e
     | Inr response \<Rightarrow> Inr (w\<lparr> tmem := (tmem w)[srv_talker s :=
         fold tq_push (answer_of cb (srv_service s) msg) (tmem w ! srv_talker s)] \<rparr>))"
proof -
  obtain r msg1 where m: "msg_payload msg = (r, msg1)" by fastforce
  have "fst (msg_id msg1) = fst (msg_id msg)"
    using pure_reader_result [OF accessors_pure(1) accessors_pure'(4), of msg] m by simp
  moreover obtain i where "fst (msg_id msg) = Inr i"
    using msg_id_total by blast
  ultimately show ?thesis
    using m assms
    by (cases r) (auto simp: server_answer_def answer_of_def with_talker_ok split: sum.split)
qed

lemma server_round_Cons:
  assumes "\<not> srv_shutdown s" and "srv_listener s < length (lmem w)"
    and "srv_talker s < length (tmem w)" and "defined_callback cb"
    and "lq (lmem w ! srv_listener s) = u # us"
  shows "server_round cb s w =
    (Next_round,
     w\<lparr> tmem := (tmem w)[srv_talker s :=
          fold tq_push (answer_of cb (srv_service s) u) (tmem w ! srv_talker s)],
        lmem := (lmem w)[srv_listener s := (lmem w ! srv_listener s)\<lparr> lq := us \<rparr>] \<rparr>)"
proof (cases "bind_result (fst (msg_payload u)) cb")
  case (Inl e)
  then have "\<not> is_undefined e"
    using assms(4) msg_payload_defined [of u]
    by (cases "fst (msg_payload u)") (auto simp: defined_callback_def)
  then show ?thesis
    using assms Inl
    by (simp add: server_round_def deref_def lq_empty_def lq_next_def lq_pop_def server_answer_eq
        answer_of_def)
next
  case (Inr response)
  then show ?thesis
    using assms
    by (simp add: server_round_def deref_def lq_empty_def lq_next_def lq_pop_def server_answer_eq)
qed

lemma server_rounds_idle:
  assumes "\<not> srv_shutdown s" and "srv_listener s < length (lmem w)"
    and "lq (lmem w ! srv_listener s) = []"
  shows "server_rounds cb n s w = (Next_round, w)"
  by (induction n) (simp_all add: server_round_Nil [OF assms])

lemma server_rounds_all:
  assumes "\<not> srv_shutdown s" and "srv_listener s < length (lmem w)"
    and "srv_talker s < length (tmem w)" and "defined_callback cb"
    and "lq (lmem w ! srv_listener s) = us" and "length us \<le> n"
  shows "server_rounds cb n s w =
    (Next_round,
     w\<lparr> tmem := (tmem w)[srv_talker s :=
          fold tq_push (concat (map (answer_of cb (srv_service s)) us)) (tmem w ! srv_talker s)],
        lmem := (lmem w)[srv_listener s := (lmem w ! srv_listener s)\<lparr> lq := [] \<rparr>] \<rparr>)"
  using assms(2,3,5,6)
proof (induction us arbitrary: w n)
  case Nil
  have "(lmem w ! srv_listener s)\<lparr> lq := [] \<rparr> = lmem w ! srv_listener s"
    using Nil.prems(3) by (cases "lmem w ! srv_listener s") simp
  then show ?case
    using server_rounds_idle [OF assms(1) Nil.prems(1,3)] by simp
next
  case (Cons u us)
  obtain n' where n: "n = Suc n'" using Cons.prems(4) by (cases n) auto
  define w' where "w' =
    w\<lparr> tmem := (tmem w)[srv_talker s :=
          fold tq_push (answer_of cb (srv_service s) u) (tmem w ! srv_talker s)],
        lmem := (lmem w)[srv_listener s := (lmem w ! srv_listener s)\<lparr> lq := us \<rparr>] \<rparr>"
  have r: "server_round cb s w = (Next_round, w')"
    using server_round_Cons [OF assms(1) Cons.prems(1,2) assms(4) Cons.prems(3)] by (simp add: w'_def)
  have "server_rounds cb n' s w' =
    (Next_round,
     w'\<lparr> tmem := (tmem w')[srv_talker s :=
          fold tq_push (concat (map (answer_of cb (srv_service s)) us)) (tmem w' ! srv_talker s)],
        lmem := (lmem w')[srv_listener s := (lmem w' ! srv_listener s)\<lparr> lq := [] \<rparr>] \<rparr>)"
    using Cons.IH [of w' n'] Cons.prems by (simp add: w'_def n)
  then show ?case
    using Cons.prems(1,2) by (simp add: n r) (simp add: w'_def)
qed

section \<open>What a service client waits for\<close>

text \<open>A message the call returns with, and a message the call passes over.\<close>

definition answers :: "string \<Rightarrow> unserializer \<Rightarrow> jobject \<Rightarrow> bool" where
  "answers rid u p \<longleftrightarrow>
     has_id rid u \<and> fst (msg_result u) = Inr True \<and> fst (msg_payload u) = Inr p"

text \<open>All readers agree on messages that look the same.\<close>

lemma looks_same_readers:
  assumes "looks_same u u'"
  shows "has_id i u = has_id i u'" "fst (msg_result u) = fst (msg_result u')"
    "fst (msg_payload u) = fst (msg_payload u')" "answers i u p = answers i u' p"
  using pure_readerD(2) [OF accessors_pure(1) assms] pure_readerD(2) [OF accessors_pure'(1) assms]
    pure_readerD(2) [OF accessors_pure'(4) assms]
  by (simp_all add: has_id_def answers_def)

lemma payload_after_result: "fst (msg_payload (snd (msg_result u))) = fst (msg_payload u)"
  by (rule pure_reader_result [OF accessors_pure'(4) accessors_pure'(1)])

lemma lq_push_all_subset: "set (lq (fold lq_push us l)) \<subseteq> set (lq l) \<union> set us"
proof (induction us arbitrary: l)
  case Nil
  show ?case by simp
next
  case (Cons u us)
  have "set (lq (lq_push u l)) \<subseteq> insert u (set (lq l))"
    using set_keep_last [of "queue_bound (lq_size l)" "lq l @ [u]"]
    by (auto simp: lq_push_def pop_excess_keep_last)
  then show ?case
    using Cons.IH [of "lq_push u l"] by auto
qed

text \<open>One look at the queue.\<close>

lemma nextById_cases:
  assumes "lq_nextById rid l = (r, l')"
  shows "list_all2 looks_same (lq l') (lq l)" and "lq_size l' = lq_size l"
    and "(r = Inr None \<and> (\<forall>u \<in> set (lq l). \<not> has_id rid u)) \<or>
         (\<exists>u \<in> set (lq l). has_id rid u \<and> List.find (has_id rid) (lq l) = Some u \<and>
            (\<exists>u'. r = Inr (Some u') \<and> looks_same u' u))"
proof -
  show "list_all2 looks_same (lq l') (lq l)"
    using find_by_id_same [of rid "lq l"] assms by (auto simp: lq_nextById_def split: prod.splits)
  show "lq_size l' = lq_size l"
    using assms by (auto simp: lq_nextById_def split: prod.splits)
  have r: "r = Inr (map_option (\<lambda>u. snd (msg_id u)) (List.find (has_id rid) (lq l)))"
    using find_by_id_result [of rid "lq l"] assms by (auto simp: lq_nextById_def split: prod.splits)
  show "(r = Inr None \<and> (\<forall>u \<in> set (lq l). \<not> has_id rid u)) \<or>
         (\<exists>u \<in> set (lq l). has_id rid u \<and> List.find (has_id rid) (lq l) = Some u \<and>
            (\<exists>u'. r = Inr (Some u') \<and> looks_same u' u))"
  proof (cases "List.find (has_id rid) (lq l)")
    case None
    then show ?thesis using r by (simp add: find_None_iff)
  next
    case (Some u)
    then have "u \<in> set (lq l)" "has_id rid u"
      by (auto simp: find_Some_iff)
    then show ?thesis using r Some looks_same_msg_id [of u] by auto
  qed
qed

lemma list_all2_looks_sameD:
  "list_all2 looks_same us' us \<Longrightarrow> u' \<in> set us' \<Longrightarrow> \<exists>u \<in> set us. looks_same u' u"
  by (auto simp: list_all2_conv_all_nth in_set_conv_nth intro: bexI [OF _ nth_mem])

text \<open>
  Soundness: a returned response was in the queue or arrived during the call, with the identifier
  of the request and the result true.
\<close>

lemma call_loop_sound:
  "fst (call_loop rid start timeout rounds l) = Returned (Some p) \<Longrightarrow>
     \<exists>u \<in> set (lq l) \<union> \<Union> (set (map (set \<circ> snd) rounds)). answers rid u p"
proof (induction rounds arbitrary: l)
  case Nil
  then show ?case by simp
next
  case (Cons r rounds)
  obtain now arrived where r: "r = (now, arrived)" by fastforce
  define l1 where "l1 = fold lq_push arrived l"
  have l1: "set (lq l1) \<subseteq> set (lq l) \<union> set arrived"
    unfolding l1_def by (rule lq_push_all_subset)
  obtain f l2 where f: "lq_nextById rid l1 = (f, l2)" by fastforce
  note c = nextById_cases [OF f]
  have later: "\<exists>u \<in> set (lq l) \<union> \<Union> (set (map (set \<circ> snd) (r # rounds))). answers rid u p"
    if ret: "fst (call_loop rid start timeout rounds l2) = Returned (Some p)"
  proof -
    obtain u where u: "u \<in> set (lq l2) \<union> \<Union> (set (map (set \<circ> snd) rounds))" "answers rid u p"
      using Cons.IH [OF ret] by auto
    show ?thesis
    proof (cases "u \<in> set (lq l2)")
      case True
      then obtain v where v: "v \<in> set (lq l1)" "looks_same u v"
        using list_all2_looks_sameD [OF c(1)] by blast
      have "answers rid v p"
        using u(2) looks_same_readers(4) [OF v(2)] by simp
      moreover have "v \<in> set (lq l) \<union> set arrived"
        using v(1) l1 by blast
      ultimately show ?thesis
        by (auto simp: r)
    next
      case False
      then show ?thesis using u r by auto
    qed
  qed
  have time: "now - start < timeout"
    using Cons.prems r by (auto split: if_splits)
  show ?case
    using c(3)
  proof
    assume "f = Inr None \<and> (\<forall>u \<in> set (lq l1). \<not> has_id rid u)"
    then show ?case
      using Cons.prems later time f by (simp add: r l1_def)
  next
    assume "\<exists>u \<in> set (lq l1). has_id rid u \<and> List.find (has_id rid) (lq l1) = Some u \<and>
            (\<exists>u'. f = Inr (Some u') \<and> looks_same u' u)"
    then obtain u u' where u: "u \<in> set (lq l1)" "has_id rid u" "f = Inr (Some u')" "looks_same u' u"
      by blast
    note same = looks_same_readers [OF u(4)] payload_after_result [of u']
    show ?case
    proof (cases "fst (msg_result u)")
      case (Inl e)
      then show ?thesis
        using Cons.prems time f u(3) same(2) by (cases "msg_result u'") (simp add: r l1_def)
    next
      case (Inr b)
      show ?thesis
      proof (cases b)
        case False
        then show ?thesis
          using Cons.prems later time f u(3) same(2) Inr by (cases "msg_result u'") (simp add: r l1_def)
      next
        case True
        then have "fst (msg_payload u) = Inr p"
          using Cons.prems time f u(3) same Inr
          by (cases "msg_result u'") (auto simp: r l1_def split: sum.splits)
        then have "answers rid u p"
          using u(2) Inr True by (simp add: answers_def)
        then show ?thesis
          using u(1) l1 r by auto
      qed
    qed
  qed
qed

text \<open>Termination: a call that is still waiting has seen only times before its deadline.\<close>

lemma call_loop_waiting:
  "fst (call_loop rid start timeout rounds l) = Waiting \<Longrightarrow>
     \<forall>(now, arrived) \<in> set rounds. now - start < timeout"
proof (induction rounds arbitrary: l)
  case (Cons r rounds)
  then show ?case
    by (cases r) (auto split: if_splits prod.splits sum.splits option.splits bool.splits)
qed simp

text \<open>
  Completeness: the first message with the identifier is found in the round it arrives in, if it is
  in time and the queue has room.
\<close>

lemma call_loop_pass:
  assumes "\<forall>u \<in> set (lq l). \<not> has_id rid u"
    and "\<forall>(now, arrived) \<in> set early. now - start < timeout \<and> (\<forall>u \<in> set arrived. \<not> has_id rid u)"
  shows "\<exists>l'. call_loop rid start timeout (early @ rounds) l = call_loop rid start timeout rounds l' \<and>
     (\<forall>u \<in> set (lq l'). \<not> has_id rid u) \<and> lq_size l' = lq_size l \<and>
     length (lq l') \<le> length (lq l) + length (concat (map snd early))"
  using assms
proof (induction early arbitrary: l)
  case Nil
  then show ?case by auto
next
  case (Cons r early)
  obtain now arrived where r: "r = (now, arrived)" by fastforce
  define l1 where "l1 = fold lq_push arrived l"
  have none: "\<forall>u \<in> set (lq l1). \<not> has_id rid u"
    using lq_push_all_subset [of arrived l] Cons.prems r by (auto simp: l1_def)
  have size: "lq_size l1 = lq_size l"
    unfolding l1_def by (induction arrived arbitrary: l) (simp_all add: lq_push_def)
  have len: "length (lq l1) \<le> length (lq l) + length arrived"
    unfolding l1_def
  proof (induction arrived arbitrary: l)
    case (Cons a as)
    have "length (lq (lq_push a l)) \<le> Suc (length (lq l))"
      by (simp add: lq_push_def pop_excess_keep_last)
    then show ?case
      using Cons.IH [of "lq_push a l"] by simp
  qed simp
  obtain f l2 where f: "lq_nextById rid l1 = (f, l2)" by fastforce
  note c = nextById_cases [OF f]
  have fN: "f = Inr None"
    using c(3) none by auto
  have "\<forall>u \<in> set (lq l2). \<not> has_id rid u"
    using none list_all2_looks_sameD [OF c(1)] looks_same_readers(1) by metis
  then obtain l' where l': "call_loop rid start timeout (early @ rounds) l2 = call_loop rid start timeout rounds l'"
      "\<forall>u \<in> set (lq l'). \<not> has_id rid u" "lq_size l' = lq_size l2"
      "length (lq l') \<le> length (lq l2) + length (concat (map snd early))"
    using Cons.IH [of l2] Cons.prems by auto
  have "call_loop rid start timeout ((r # early) @ rounds) l = call_loop rid start timeout rounds l'"
    using Cons.prems(2) l'(1) f fN by (simp add: r l1_def)
  then show ?case
    using l'(2-4) c(1,2) size len list_all2_lengthD [OF c(1)] by (auto simp: r)
qed

lemma find_only:
  "\<forall>u \<in> set xs. \<not> P u \<Longrightarrow> P x \<Longrightarrow> List.find P (xs @ x # ys) = Some x"
  by (induction xs) auto

lemma call_loop_hit:
  assumes "\<forall>u \<in> set (lq l). \<not> has_id rid u" and "\<forall>u \<in> set before. \<not> has_id rid u"
    and "answers rid u p" and "now - start < timeout"
    and "length (lq l) + length (before @ u # after) \<le> queue_bound (lq_size l)"
  shows "fst (call_loop rid start timeout ((now, before @ u # after) # rounds) l) = Returned (Some p)"
proof -
  define arrived where "arrived = before @ u # after"
  define l1 where "l1 = fold lq_push arrived l"
  have l1: "lq l1 = (lq l @ before) @ u # after"
    using lq.body_enq_all [of l arrived] assms(5) by (simp add: l1_def arrived_def)
  have find: "List.find (has_id rid) (lq l1) = Some u"
    unfolding l1 using assms(1-3) by (intro find_only) (auto simp: answers_def)
  obtain f l2 where f: "lq_nextById rid l1 = (f, l2)" by fastforce
  obtain u' where u': "f = Inr (Some u')" "looks_same u' u"
    using nextById_cases(3) [OF f] find by (auto simp: find_Some_iff)
  note same = looks_same_readers [OF u'(2)] payload_after_result [of u']
  show ?thesis
    using assms(3,4) f u'(1) same
    by (cases "msg_result u'") (simp add: answers_def flip: l1_def arrived_def)
qed

section \<open>Properties\<close>

definition example_server :: service_server where
  "example_server =
     \<lparr> srv_service = ''t'', srv_type = ''std_srvs/Empty'', srv_shutdown = False, srv_talker = 0,
       srv_listener = 0 \<rparr>"

text \<open>A service server takes every queued message exactly once, in order; a message whose payload the
  callback accepts is answered by one response with the message's identifier, the callback's result
  and the result flag true; one it refuses with an exception is dropped without an answer.\<close>

lemma server_answers_each_once:
  assumes "\<not> srv_shutdown s" and "srv_listener s < length (lmem w)"
    and "srv_talker s < length (tmem w)" and "defined_callback cb"
    and "lq (lmem w ! srv_listener s) = us" and "length us \<le> n"
    and "length (tq (tmem w ! srv_talker s)) \<le> queue_bound (tq_size (tmem w ! srv_talker s))"
  shows "\<exists>w'. server_rounds cb n s w = (Next_round, w') \<and> lq (lmem w' ! srv_listener s) = [] \<and>
    tq (tmem w' ! srv_talker s) =
      keep_last (queue_bound (tq_size (tmem w ! srv_talker s)))
        (tq (tmem w ! srv_talker s) @ concat (map (answer_of cb (srv_service s)) us))"
  using server_rounds_all [OF assms(1-6)] assms(2,3)
    tq.body_enq_all [OF assms(7), of "concat (map (answer_of cb (srv_service s)) us)"]
  by simp

lemma server_answers_each_once_witness:
  "\<exists>w'. server_rounds (\<lambda>p. Inr p) 1 example_server
       ((example_world Ws_open)\<lparr> lmem := [\<lparr> lq_size = 5, lq = [received ''7'' (Service_request ''t'' [])],
          lq_orphan = False \<rparr>] \<rparr>) = (Next_round, w') \<and>
     tq (tmem w' ! 0) = [SerializerServiceResponse ''t'' [] True ''7'']"
proof -
  have "tmem (example_world Ws_open) ! 0 = \<lparr> tq_size = 1, head_msg = Serializer TopicAdvertiseOp ''0'',
      head_popped = False, tq = [Serializer TopicPublishOp ''1''], tq_orphan = False \<rparr>"
    by (simp add: example_world_def example_queue_def tq_push_def TalkerQueue_def pop_excess_keep_last
        queue_bound_nonneg)
  moreover have "length (tmem (example_world Ws_open)) = 1"
    by (simp add: example_world_def)
  ultimately show ?thesis
    using server_answers_each_once [of example_server "(example_world Ws_open)\<lparr> lmem :=
        [\<lparr> lq_size = 5, lq = [received ''7'' (Service_request ''t'' [])], lq_orphan = False \<rparr>] \<rparr>"
        "\<lambda>p. Inr p" "[received ''7'' (Service_request ''t'' [])]" 1]
    by (auto simp: example_server_def defined_callback_def answer_of_def received_fields
        keep_last_def queue_bound_nonneg)
qed

text \<open>A call returns a response only if a message with the identifier of its request and the result
  true was in its queue or arrived while it waited, and then it returns the payload of that message.\<close>

lemma call_returns_only_answers:
  assumes "fst (call_loop rid start timeout rounds l) = Returned (Some p)"
  shows "\<exists>u \<in> set (lq l) \<union> \<Union> (set (map (set \<circ> snd) rounds)). answers rid u p"
  using assms by (rule call_loop_sound)

text \<open>A call ends: if the clock advances at least five milliseconds per round, as the sleep makes
  it do, the call is over after at most as many rounds as the timeout has such steps.\<close>

lemma call_terminates:
  assumes "\<forall>k < length rounds. start + int k * 5000000 \<le> fst (rounds ! k)"
    and "rounds \<noteq> []" and "timeout \<le> int (length rounds - 1) * 5000000"
  shows "fst (call_loop rid start timeout rounds l) \<noteq> Waiting"
proof
  assume "fst (call_loop rid start timeout rounds l) = Waiting"
  then have "fst (last rounds) - start < timeout"
    using call_loop_waiting [of rid start timeout rounds l] last_in_set [OF assms(2)] by force
  moreover have "start + int (length rounds - 1) * 5000000 \<le> fst (last rounds)"
    using assms(1,2) by (simp add: last_conv_nth)
  ultimately show False
    using assms(3) by linarith
qed

lemma call_terminates_witness:
  "fst (call_loop ''1'' 0 10000000 [(0, []), (5000000, []), (10000000, [])] (ListenerQueue 5)) \<noteq> Waiting"
  by (rule call_terminates) (simp_all add: less_Suc_eq numeral_eq_Suc)

text \<open>C27: A call finds its answer: if the queue has room, no message with the identifier comes before,
  and the answer arrives in a round that starts before the deadline, the call returns its payload,
  whatever else arrives.\<close>

theorem call_finds_answer:
  assumes "\<forall>v \<in> set (lq l). \<not> has_id rid v"
    and "\<forall>(t, arrived) \<in> set early. t - start < timeout \<and> (\<forall>v \<in> set arrived. \<not> has_id rid v)"
    and "\<forall>v \<in> set before. \<not> has_id rid v" and "answers rid u p" and "now - start < timeout"
    and "length (lq l) + length (concat (map snd early)) + length (before @ u # after)
           \<le> queue_bound (lq_size l)"
  shows "fst (call_loop rid start timeout (early @ (now, before @ u # after) # rounds) l) =
    Returned (Some p)"
proof -
  obtain l' where l': "call_loop rid start timeout (early @ (now, before @ u # after) # rounds) l =
        call_loop rid start timeout ((now, before @ u # after) # rounds) l'"
      "\<forall>v \<in> set (lq l'). \<not> has_id rid v" "lq_size l' = lq_size l"
      "length (lq l') \<le> length (lq l) + length (concat (map snd early))"
    using call_loop_pass [OF assms(1,2)] by blast
  have "length (lq l') + length (before @ u # after) \<le> queue_bound (lq_size l')"
    using l'(3,4) assms(6) by simp
  then show ?thesis
    using call_loop_hit [OF l'(2) assms(3-5)] l'(1) by simp
qed

theorem call_finds_answer_witness:
  "fst (call_loop ''7'' 0 1000 [(0, []), (5, [received ''6'' (Service_response ''/s'' [] True),
       received ''7'' (Service_response ''/s'' [(''ok'', JBool True)] True)])] (ListenerQueue 5)) =
     Returned (Some [(''ok'', JBool True)])"
  using call_finds_answer [of "ListenerQueue 5" "''7''" "[(0, [])]" 0 1000
      "[received ''6'' (Service_response ''/s'' [] True)]"
      "received ''7'' (Service_response ''/s'' [(''ok'', JBool True)] True)" "[(''ok'', JBool True)]" 5 "[]" "[]"]
  by (simp add: ListenerQueue_def has_id_def answers_def received_fields queue_bound_nonneg
      del: call_loop.simps)

lemma call_returns_only_answers_witness:
  "\<exists>u \<in> {received ''7'' (Service_response ''/s'' [] True)}. answers ''7'' u []"
proof -
  have "fst (call_loop ''7'' 0 1000 [(0, [received ''7'' (Service_response ''/s'' [] True)])] (ListenerQueue 5)) =
      Returned (Some [])"
    by (simp add: ListenerQueue_def lq_push_def pop_excess_keep_last queue_bound_nonneg lq_nextById_def)
      (simp add: received_def serializer_defs msg_id_def msg_result_def msg_type_def msg_payload_def
        and_then_def field_def om_index_def lifted_def is_type_def stringToOP_def)
  then show ?thesis
    using call_returns_only_answers [of "''7''" 0 1000 "[(0, [received ''7'' (Service_response ''/s'' [] True)])]"]
    by (fastforce simp: ListenerQueue_def)
qed

text \<open>The state of a server that has received one message it can answer.\<close>

lemma server_one_message:
  assumes "world_wf w" and "\<not> srv_shutdown s" and "srv_talker s < length (tmem w)"
    and "srv_listener s \<in> set (registered (srv_service s) w)" and "lq (lmem w ! srv_listener s) = []"
    and "0 < queue_bound (lq_size (lmem w ! srv_listener s))"
    and "length (tq (tmem w ! srv_talker s)) < queue_bound (tq_size (tmem w ! srv_talker s))"
    and "defined_callback cb" and "cb (message_payload m) = Inr v"
    and "json_wf (JObject (message_payload m))"
    and "destination (received i m) = Inr (Some (srv_service s))"
  shows "\<exists>w' w''. listen (serialized (serializer_of i m)) w = Inr w' \<and>
    server_rounds cb 1 s w' = (Next_round, w'') \<and>
    tq (tmem w'' ! srv_talker s) =
      tq (tmem w ! srv_talker s) @ [SerializerServiceResponse (srv_service s) v True i]"
proof -
  obtain w' where w': "listen (serialized (serializer_of i m)) w = Inr w'" "world_wf w'"
      "length (lmem w') = length (lmem w)" "tmem w' = tmem w"
      "lmem w' ! srv_listener s = lq_push (received i m) (lmem w ! srv_listener s)"
    using listen_received [OF assms(1,10,11,4)] by blast
  have a: "srv_listener s < length (lmem w')"
    using registered_wf [OF assms(1), of "srv_service s"] assms(4) w'(3) by auto
  have q: "lq (lmem w' ! srv_listener s) = [received i m]"
    using assms(5,6) by (simp add: w'(5) lq_push_def pop_excess_keep_last)
  have "answer_of cb (srv_service s) (received i m) =
      [SerializerServiceResponse (srv_service s) v True i]"
    by (simp add: answer_of_def received_fields assms(9))
  then show ?thesis
    using server_rounds_all [OF assms(2) a _ assms(8) q, of 1] w'(1,4) assms(3,7)
      tq.body_enq [of "SerializerServiceResponse (srv_service s) v True i" "tmem w ! srv_talker s"]
    by simp
qed

text \<open>C4: A service call from end to end: the text of a request, received by a client whose server of
  that service is idle, makes the server queue one response; the text of the response, arriving at
  the caller before its deadline, makes the call return exactly the callback's result.\<close>

theorem service_end_to_end:
  assumes "world_wf w" and "\<not> srv_shutdown s" and "srv_talker s < length (tmem w)"
    and "srv_listener s \<in> set (registered (srv_service s) w)" and "lq (lmem w ! srv_listener s) = []"
    and "0 < queue_bound (lq_size (lmem w ! srv_listener s))"
    and "length (tq (tmem w ! srv_talker s)) < queue_bound (tq_size (tmem w ! srv_talker s))"
    and "defined_callback cb" and "cb args = Inr v"
    and "json_wf (JObject args)" and "json_wf (JObject v)"
    and "\<forall>x \<in> set (lq l). \<not> has_id i x" and "length (lq l) < queue_bound (lq_size l)"
    and "now - start < timeout"
  shows "\<exists>w' w'' response u.
    listen (serialized (SerializerServiceRequest i (srv_service s) args)) w = Inr w' \<and>
    server_rounds cb 1 s w' = (Next_round, w'') \<and>
    tq (tmem w'' ! srv_talker s) = tq (tmem w ! srv_talker s) @ [response] \<and>
    Unserializer (serialized response) = Inr u \<and>
    fst (call_loop i start timeout ((now, [u]) # rounds) l) = Returned (Some v)"
proof -
  define r where "r = Service_response (srv_service s) v True"
  have U: "Unserializer (serialized (serializer_of i r)) = Inr (received i r)"
    by (rule Unserializer_received) (simp add: r_def assms(11) del: json_wf.simps)
  have "answers i (received i r) v"
    by (simp add: answers_def has_id_def received_fields r_def)
  then have call: "fst (call_loop i start timeout ((now, [received i r]) # rounds) l) = Returned (Some v)"
    using call_loop_hit [of l i "[]" "received i r" v now start timeout "[]" rounds] assms(12-14) by simp
  have args: "cb (message_payload (Service_request (srv_service s) args)) = Inr v"
    "json_wf (JObject (message_payload (Service_request (srv_service s) args)))"
    using assms(9,10) by (simp_all del: json_wf.simps)
  obtain w' w'' where
    "listen (serialized (SerializerServiceRequest i (srv_service s) args)) w = Inr w'"
    "server_rounds cb 1 s w' = (Next_round, w'')"
    "tq (tmem w'' ! srv_talker s) =
       tq (tmem w ! srv_talker s) @ [SerializerServiceResponse (srv_service s) v True i]"
    using server_one_message [OF assms(1-8) args destination_received(2)]
    unfolding serializer_of.simps by blast
  then show ?thesis
    using U [unfolded r_def serializer_of.simps] call [unfolded r_def] by blast
qed

theorem service_end_to_end_witness:
  "\<exists>w' w'' response u.
    listen (serialized (SerializerServiceRequest ''7'' ''t'' []))
      ((example_world Ws_open)\<lparr> tmem := [TalkerQueue 1 (Serializer InvalidOp ''0'')] \<rparr>) = Inr w' \<and>
    server_rounds (\<lambda>_. Inr [(''ok'', JBool True)]) 1 example_server w' = (Next_round, w'') \<and>
    tq (tmem w'' ! 0) = [response] \<and> Unserializer (serialized response) = Inr u \<and>
    fst (call_loop ''7'' 0 1000 [(0, [u])] (ListenerQueue 5)) = Returned (Some [(''ok'', JBool True)])"
proof -
  have wf: "world_wf ((example_world Ws_open)\<lparr> tmem := [TalkerQueue 1 (Serializer InvalidOp ''0'')] \<rparr>)"
    by (simp add: world_wf_def example_world_def RosbridgeClient_def om_wf_def)
  have reg: "registered ''t'' ((example_world Ws_open)\<lparr> tmem := [TalkerQueue 1 (Serializer InvalidOp ''0'')] \<rparr>) = [0]"
    using example_registered(1) by (simp add: registered_def)
  show ?thesis
    using service_end_to_end [OF wf, of example_server "\<lambda>_. Inr [(''ok'', JBool True)]" "[]"
        "[(''ok'', JBool True)]" "ListenerQueue 5" "''7''" 0 0 1000 "[]"]
    by (simp add: example_server_def reg example_registered ListenerQueue_def queue_bound_nonneg
        om_wf_def defined_callback_def del: call_loop.simps server_rounds.simps)
qed

text \<open>Responses are delivered under the same name as requests, so a server answers them too: a
  client that has the server and a caller of one service calls the callback on the response and
  queues another response.\<close>

lemma server_answers_responses:
  assumes "world_wf w" and "\<not> srv_shutdown s" and "srv_talker s < length (tmem w)"
    and "srv_listener s \<in> set (registered (srv_service s) w)" and "lq (lmem w ! srv_listener s) = []"
    and "0 < queue_bound (lq_size (lmem w ! srv_listener s))"
    and "length (tq (tmem w ! srv_talker s)) < queue_bound (tq_size (tmem w ! srv_talker s))"
    and "defined_callback cb" and "cb values = Inr v" and "json_wf (JObject values)"
  shows "\<exists>w' w''.
    listen (serialized (SerializerServiceResponse (srv_service s) values b i)) w = Inr w' \<and>
    server_rounds cb 1 s w' = (Next_round, w'') \<and>
    tq (tmem w'' ! srv_talker s) =
      tq (tmem w ! srv_talker s) @ [SerializerServiceResponse (srv_service s) v True i]"
proof -
  have args: "cb (message_payload (Service_response (srv_service s) values b)) = Inr v"
    "json_wf (JObject (message_payload (Service_response (srv_service s) values b)))"
    using assms(9,10) by (simp_all del: json_wf.simps)
  show ?thesis
    using server_one_message [OF assms(1-8) args destination_received(3)] by simp
qed

lemma server_answers_responses_witness:
  "\<exists>w' w''.
    listen (serialized (SerializerServiceResponse ''t'' [] True ''7''))
      ((example_world Ws_open)\<lparr> tmem := [TalkerQueue 1 (Serializer InvalidOp ''0'')] \<rparr>) = Inr w' \<and>
    server_rounds (\<lambda>p. Inr p) 1 example_server w' = (Next_round, w'') \<and>
    tq (tmem w'' ! 0) = [SerializerServiceResponse ''t'' [] True ''7'']"
proof -
  have wf: "world_wf ((example_world Ws_open)\<lparr> tmem := [TalkerQueue 1 (Serializer InvalidOp ''0'')] \<rparr>)"
    by (simp add: world_wf_def example_world_def RosbridgeClient_def om_wf_def)
  have reg: "registered ''t'' ((example_world Ws_open)\<lparr> tmem := [TalkerQueue 1 (Serializer InvalidOp ''0'')] \<rparr>) = [0]"
    using example_registered(1) by (simp add: registered_def)
  show ?thesis
    using server_answers_responses [OF wf, of example_server "\<lambda>p. Inr p" "[]" "[]" True "''7''"]
    by (simp add: example_server_def reg example_registered ListenerQueue_def queue_bound_nonneg
        om_wf_def defined_callback_def del: server_rounds.simps)
qed

end
