(* ===== verification/Interleaving.thy ===== *)
theory Interleaving
  imports Queues
begin

text \<open>
  The life of one \<open>TalkerQueue\<close> under all interleavings of its three users: the endpoint that
  pushes messages, the talker thread in the loop of \<open>RosbridgeClient::talk\<close>, and the runner thread,
  which opens and closes the connection and resets the queue in the open handler. Every queue
  operation takes the lock and is one move.
\<close>

section \<open>Moves\<close>

text \<open>The talker thread between the operations of an iteration of \<open>talk\<close>.\<close>

datatype talker_pc =
    At_active
  | At_empty
  | At_next
  | At_send serializer
  | At_pop serializer

text \<open>
  \<open>epoch\<close> counts the connections; \<open>wire\<close> has the frames sent, with their epoch. The state of the
  websocket becomes open before the open handler, which resets the queue, runs.
\<close>

record link =
  queue :: talker_queue
  talker :: talker_pc
  up :: bool
  handler_due :: bool
  epoch :: nat
  wire :: "(nat \<times> serializer) list"

definition new_link :: "c_int \<Rightarrow> serializer \<Rightarrow> link" where
  "new_link n h =
     \<lparr> queue = TalkerQueue n h, talker = At_active, up = False, handler_due = False, epoch = 0,
       wire = [] \<rparr>"

datatype move = Talks | Pushes serializer | Opens | Resets | Closes

text \<open>One operation of the talker thread.\<close>

definition talker_move :: "link \<Rightarrow> link result" where
  "talker_move l =
     (case talker l of
        At_active \<Rightarrow> Inr (if up l then l\<lparr> talker := At_empty \<rparr> else l)
      | At_empty \<Rightarrow> Inr (l\<lparr> talker := (if tq_empty (queue l) then At_active else At_next) \<rparr>)
      | At_next \<Rightarrow> bind_result (tq_next (queue l)) (\<lambda>m. Inr (l\<lparr> talker := At_send m \<rparr>))
      | At_send m \<Rightarrow>
          Inr (l\<lparr> wire := wire l @ (if up l then [(epoch l, m)] else []), talker := At_pop m \<rparr>)
      | At_pop m \<Rightarrow>
          bind_result (tq_pop (queue l)) (\<lambda>q. Inr (l\<lparr> queue := q, talker := At_active \<rparr>)))"

fun link_move :: "move \<Rightarrow> link \<Rightarrow> link result" where
  "link_move Talks l = talker_move l"
| "link_move (Pushes m) l = Inr (l\<lparr> queue := tq_push m (queue l) \<rparr>)"
| "link_move Opens l =
     Inr (if up l \<or> handler_due l then l
          else l\<lparr> up := True, handler_due := True, epoch := Suc (epoch l) \<rparr>)"
| "link_move Resets l =
     Inr (if handler_due l then l\<lparr> queue := tq_reset (queue l), handler_due := False \<rparr> else l)"
| "link_move Closes l = Inr (l\<lparr> up := False \<rparr>)"

fun link_run :: "move list \<Rightarrow> link \<Rightarrow> link result" where
  "link_run [] l = Inr l"
| "link_run (mv # mvs) l = bind_result (link_move mv l) (link_run mvs)"

lemma link_run_append:
  "link_run (xs @ ys) l = bind_result (link_run xs l) (link_run ys)"
  by (induction xs arbitrary: l) (auto simp: bind_result_def split: sum.split)

section \<open>Every interleaving is defined\<close>

text \<open>The message the talker thread has taken and not yet popped.\<close>

fun in_flight :: "talker_pc \<Rightarrow> serializer option" where
  "in_flight (At_send m) = Some m"
| "in_flight (At_pop m) = Some m"
| "in_flight _ = None"

definition past_test :: "talker_pc \<Rightarrow> bool" where
  "past_test pc \<longleftrightarrow> pc = At_next \<or> in_flight pc \<noteq> None"

lemma past_test_simps [simp]:
  "\<not> past_test At_active" "\<not> past_test At_empty" "past_test At_next" "past_test (At_send m)"
  "past_test (At_pop m)"
  by (simp_all add: past_test_def)

definition link_inv :: "link \<Rightarrow> bool" where
  "link_inv l \<longleftrightarrow>
     length (tq (queue l)) \<le> queue_bound (tq_size (queue l)) \<and>
     (past_test (talker l) \<longrightarrow> \<not> tq_empty (queue l))"

text \<open>A push never empties a queue within its bound, and neither does a reset.\<close>

lemma tq_push_length:
  "length (tq (tq_push m t)) \<le> queue_bound (tq_size (tq_push m t))"
  by (simp add: tq_push_def pop_excess_keep_last)

lemma tq_push_not_empty:
  "length (tq t) \<le> queue_bound (tq_size t) \<Longrightarrow> \<not> tq_empty t \<Longrightarrow> \<not> tq_empty (tq_push m t)"
proof -
  assume len: "length (tq t) \<le> queue_bound (tq_size t)" and ne: "\<not> tq_empty t"
  show ?thesis
  proof (cases "head_popped t")
    case True
    then have "0 < length (tq t)"
      using ne by (simp add: tq_empty_def)
    moreover from this have "0 < queue_bound (tq_size t)"
      using len by linarith
    ultimately have "0 < length (tq (tq_push m t))"
      by (simp add: tq_push_def pop_excess_keep_last)
    then show ?thesis by (simp add: tq_empty_def)
  qed (simp add: tq_empty_def tq_push_def)
qed

lemma link_inv_new: "link_inv (new_link n h)"
  by (simp add: link_inv_def new_link_def TalkerQueue_def)

lemma tq_pop_bound:
  "tq_pop t = Inr t' \<Longrightarrow> length (tq t) \<le> queue_bound (tq_size t) \<Longrightarrow>
     length (tq t') \<le> queue_bound (tq_size t')"
  by (auto simp: tq_pop_def split: if_splits list.splits)

lemma talker_move_ok:
  assumes "link_inv l"
  shows "\<exists>l'. talker_move l = Inr l' \<and> link_inv l'"
proof (cases "talker l")
  case At_next
  then obtain m where "tq_next (queue l) = Inr m"
    using assms tq.defined_iff(1) [of "queue l"] by (auto simp: link_inv_def)
  then show ?thesis
    using assms At_next by (simp add: talker_move_def link_inv_def)
next
  case (At_pop m)
  then obtain q where "tq_pop (queue l) = Inr q"
    using assms tq.defined_iff(2) [of "queue l"] by (auto simp: link_inv_def)
  then show ?thesis
    using assms At_pop tq_pop_bound by (simp add: talker_move_def link_inv_def)
qed (use assms in \<open>auto simp: talker_move_def link_inv_def\<close>)

lemma link_move_ok: "link_inv l \<Longrightarrow> \<exists>l'. link_move mv l = Inr l' \<and> link_inv l'"
  using talker_move_ok tq_push_length tq_push_not_empty
  by (cases mv) (auto simp: link_inv_def tq_reset_def tq_empty_def)

lemma link_run_ok: "link_inv l \<Longrightarrow> \<exists>l'. link_run mvs l = Inr l' \<and> link_inv l'"
proof (induction mvs arbitrary: l)
  case (Cons mv mvs)
  then show ?case
    using link_move_ok [OF Cons.prems, of mv] by fastforce
qed simp

section \<open>Calm interleavings\<close>

text \<open>
  States reached when nobody pushes or resets while a message is in flight.
\<close>

inductive calm :: "c_int \<Rightarrow> serializer \<Rightarrow> link \<Rightarrow> bool" for n h where
  start: "calm n h (new_link n h)"
| talks: "calm n h l \<Longrightarrow> talker_move l = Inr l' \<Longrightarrow> calm n h l'"
| moves: "calm n h l \<Longrightarrow> in_flight (talker l) = None \<Longrightarrow> link_move mv l = Inr l' \<Longrightarrow> calm n h l'"
| links: "calm n h l \<Longrightarrow> mv = Opens \<or> mv = Closes \<Longrightarrow> link_move mv l = Inr l' \<Longrightarrow> calm n h l'"

definition in_step :: "link \<Rightarrow> bool" where
  "in_step l \<longleftrightarrow>
     (\<forall>m. in_flight (talker l) = Some m \<longrightarrow> (\<exists>ms. tq_pending (queue l) = m # ms))"

lemma in_step_talks: "talker_move l = Inr l' \<Longrightarrow> in_step l \<Longrightarrow> in_step l'"
proof (cases "talker l")
  case At_next
  show "talker_move l = Inr l' \<Longrightarrow> in_step l \<Longrightarrow> in_step l'"
  proof -
    assume "talker_move l = Inr l'"
    then obtain m where m: "tq_next (queue l) = Inr m" "l' = l\<lparr> talker := At_send m \<rparr>"
      by (auto simp: talker_move_def At_next bind_result_Inr_iff)
    then obtain x ms where p: "tq_pending (queue l) = x # ms"
      using tq.next_Nil [of "queue l"] by (cases "tq_pending (queue l)") auto
    then have "x = m"
      using tq.next_Cons [OF p] m(1) by simp
    then show "in_step l'"
      using p m(2) by (simp add: in_step_def)
  qed
qed (auto simp: talker_move_def in_step_def bind_result_Inr_iff split: if_splits)

lemma link_move_in_step:
  "link_move mv l = Inr l' \<Longrightarrow> in_flight (talker l) = None \<or> mv = Opens \<or> mv = Closes \<Longrightarrow>
     in_step l \<Longrightarrow> in_step l'"
  using in_step_talks [of l l'] by (cases mv) (auto simp: in_step_def split: if_splits)

lemma calm_in_step: "calm n h l \<Longrightarrow> in_step l"
proof (induction rule: calm.induct)
  case start
  show ?case by (simp add: in_step_def new_link_def)
qed (auto intro: in_step_talks link_move_in_step)

section \<open>Properties\<close>

text \<open>C23: Whatever messages are pushed and however the connection comes and goes between any two
  operations of the talker thread, the talker never calls \<open>next\<close> or \<open>pop\<close> on an empty queue, and
  the queue stays within its bound.\<close>

theorem every_interleaving_defined:
  "\<exists>l. link_run mvs (new_link n h) = Inr l \<and> length (tq (queue l)) \<le> queue_bound (tq_size (queue l))"
  using link_run_ok [OF link_inv_new] by (fastforce simp: link_inv_def)

text \<open>If nobody pushes or resets while a message is in flight, the message that \<open>pop\<close> removes is
  the one that was sent: nothing is lost and nothing is sent twice on its account.\<close>

lemma calm_pop_removes_sent:
  assumes "calm n h l" and "talker l = At_pop m"
  shows "\<exists>q. tq_pop (queue l) = Inr q \<and> tq_pending (queue l) = m # tq_pending q"
proof -
  obtain ms where p: "tq_pending (queue l) = m # ms"
    using calm_in_step [OF assms(1)] assms(2) by (auto simp: in_step_def)
  then show ?thesis
    using tq.pop_Cons [OF p] by auto
qed

text \<open>The states of a queue of size one in which the head, and then a message, is at its pop.\<close>

definition first_frames :: "serializer \<Rightarrow> serializer \<Rightarrow> move list" where
  "first_frames h m =
     [Opens, Resets, Talks, Talks, Talks, Talks, Talks, Pushes m, Talks, Talks, Talks, Talks]"

lemma queue_bound_1 [simp]: "queue_bound 1 = 1"
  by (simp add: queue_bound_nonneg)

lemmas link_exec = link_run_append talker_move_def tq_empty_def tq_next_def tq_pop_def tq_push_def
  tq_reset_def TalkerQueue_def pop_excess_keep_last

lemma first_frames_run:
  "link_run (first_frames h m) (new_link 1 h) =
     Inr \<lparr> queue = \<lparr> tq_size = 1, head_msg = h, head_popped = True, tq = [m], tq_orphan = False \<rparr>,
           talker = At_pop m, up = True, handler_due = False, epoch = 1,
           wire = [(1, h), (1, m)] \<rparr>"
  by (simp add: first_frames_def new_link_def link_exec)

lemma calm_pop_removes_sent_witness:
  "\<exists>q. tq_pop (TalkerQueue 1 (Serializer InvalidOp [])) = Inr q \<and>
       tq_pending (TalkerQueue 1 (Serializer InvalidOp [])) = Serializer InvalidOp [] # tq_pending q"
proof -
  define h where "h = Serializer InvalidOp []"
  have c: "calm 1 h ((new_link 1 h)\<lparr> up := True, handler_due := True, epoch := 1 \<rparr>)"
    by (rule calm.links [OF calm.start, of Opens]) (simp_all add: new_link_def)
  define l where "l = (new_link 1 h)\<lparr> up := True, handler_due := True, epoch := 1 \<rparr>"
  have step: "calm 1 h k \<Longrightarrow> talker_move k = Inr k' \<Longrightarrow> calm 1 h k'" for k k'
    by (rule calm.talks)
  have "calm 1 h (l\<lparr> talker := At_empty \<rparr>)"
    by (rule step [OF c]) (simp add: l_def talker_move_def new_link_def)
  then have "calm 1 h (l\<lparr> talker := At_next \<rparr>)"
    by (rule step) (simp add: l_def talker_move_def new_link_def tq_empty_def TalkerQueue_def)
  then have "calm 1 h (l\<lparr> talker := At_send h \<rparr>)"
    by (rule step) (simp add: l_def talker_move_def new_link_def tq_next_def TalkerQueue_def)
  then have "calm 1 h (l\<lparr> talker := At_pop h, wire := [(1, h)] \<rparr>)"
    by (rule step) (simp add: l_def talker_move_def new_link_def)
  then show ?thesis
    using calm_pop_removes_sent [of 1 h "l\<lparr> talker := At_pop h, wire := [(1, h)] \<rparr>" h]
    by (simp add: l_def new_link_def flip: h_def)
qed

text \<open>A push between \<open>next\<close> and \<open>pop\<close> on a full queue loses a message that was never sent: on a
  queue of size one, the size a publisher has by default, the second message is gone and the queue
  is empty.\<close>

lemma push_in_flight_loses_message:
  "\<exists>l. link_run (first_frames h m @ [Pushes m', Talks]) (new_link 1 h) = Inr l \<and>
       tq_empty (queue l) \<and> wire l = [(1, h), (1, m)]"
  by (simp add: first_frames_run link_exec keep_last_def)

text \<open>A reconnection between \<open>next\<close> and \<open>pop\<close> makes the talker pop the head message instead of
  the message it sent: the head is not sent on the new connection, and the message is sent twice.\<close>

lemma reset_in_flight_loses_head:
  "\<exists>l. link_run (first_frames h m @ [Closes, Opens, Resets] @ replicate 6 Talks) (new_link 1 h) = Inr l \<and>
       tq_empty (queue l) \<and> wire l = [(1, h), (1, m), (2, m)]"
  by (simp add: first_frames_run link_exec numeral_eq_Suc)

text \<open>The connection counts as open before the open handler resets the queues, so a message can
  be sent ahead of the head message of the new connection.\<close>

lemma message_ahead_of_head:
  "\<exists>l. link_run (first_frames h m @ [Talks, Pushes m', Closes, Opens] @ replicate 5 Talks @ [Resets] @
         replicate 5 Talks) (new_link 1 h) = Inr l \<and>
       wire l = [(1, h), (1, m), (2, m'), (2, h)]"
  by (simp add: first_frames_run link_exec numeral_eq_Suc)

end
