(* ===== verification/Gtest_Regex.thy ===== *)
theory Gtest_Regex
  imports Prelude
begin

text \<open>
  The simple regular expressions of googletest (\<open>googletest-1.8.0/src/gtest-port.cc\<close>, the branch
  \<open>GTEST_USES_SIMPLE_RE\<close>): the character classes, \<open>ValidateRegex\<close> with its messages, the
  backtracking matcher and the class \<open>RE\<close>.  A C string is the list of its characters before the
  terminating NUL; a null pointer is \<open>None\<close>.  Reading behind the terminator is the value \<open>None\<close>
  of the matchers.  The reference is an abstract syntax of patterns with its language.
\<close>

section \<open>Characters\<close>

text \<open>The character at the head of a C string, NUL at its end.\<close>

definition head_char :: "string \<Rightarrow> char" where
  "head_char s = (case s of [] \<Rightarrow> CHR 0x00 | c # _ \<Rightarrow> c)"

lemma head_char_simps [simp]: "head_char [] = CHR 0x00" "head_char (c # s) = c"
  by (simp_all add: head_char_def)

definition IsInSet :: "char \<Rightarrow> string \<Rightarrow> bool" where
  "IsInSet ch str \<longleftrightarrow> ch \<noteq> CHR 0x00 \<and> ch \<in> set str"

definition IsAsciiDigit :: "char \<Rightarrow> bool" where
  "IsAsciiDigit ch \<longleftrightarrow> (48::nat) \<le> of_char ch \<and> of_char ch \<le> (57::nat)"

definition IsAsciiPunct :: "char \<Rightarrow> bool" where
  "IsAsciiPunct ch = IsInSet ch (''^-!'' @ [CHR 0x22] @ ''#$%&'' @ [CHR 0x27] @ ''()*+,./:;<=>?@['' @
     [CHR 0x5C] @ '']_`{|}~'')"

definition IsRepeat :: "char \<Rightarrow> bool" where
  "IsRepeat ch = IsInSet ch ''?*+''"

definition IsAsciiWhiteSpace :: "char \<Rightarrow> bool" where
  "IsAsciiWhiteSpace ch =
     IsInSet ch [CHR '' '', CHR 0x0C, CHR 0x0A, CHR 0x0D, CHR 0x09, CHR 0x0B]"

definition IsAsciiWordChar :: "char \<Rightarrow> bool" where
  "IsAsciiWordChar ch \<longleftrightarrow>
     (97::nat) \<le> of_char ch \<and> of_char ch \<le> (122::nat) \<or>
     (65::nat) \<le> of_char ch \<and> of_char ch \<le> (90::nat) \<or>
     (48::nat) \<le> of_char ch \<and> of_char ch \<le> (57::nat) \<or> ch = CHR ''_''"

definition IsValidEscape :: "char \<Rightarrow> bool" where
  "IsValidEscape c \<longleftrightarrow> IsAsciiPunct c \<or> IsInSet c ''dDfnrsStvwW''"

definition AtomMatchesChar :: "bool \<Rightarrow> char \<Rightarrow> char \<Rightarrow> bool" where
  "AtomMatchesChar escaped pattern_char ch =
     (if escaped then
        if pattern_char = CHR ''d'' then IsAsciiDigit ch
        else if pattern_char = CHR ''D'' then \<not> IsAsciiDigit ch
        else if pattern_char = CHR ''f'' then ch = CHR 0x0C
        else if pattern_char = CHR ''n'' then ch = CHR 0x0A
        else if pattern_char = CHR ''r'' then ch = CHR 0x0D
        else if pattern_char = CHR ''s'' then IsAsciiWhiteSpace ch
        else if pattern_char = CHR ''S'' then \<not> IsAsciiWhiteSpace ch
        else if pattern_char = CHR ''t'' then ch = CHR 0x09
        else if pattern_char = CHR ''v'' then ch = CHR 0x0B
        else if pattern_char = CHR ''w'' then IsAsciiWordChar ch
        else if pattern_char = CHR ''W'' then \<not> IsAsciiWordChar ch
        else IsAsciiPunct pattern_char \<and> pattern_char = ch
      else pattern_char = CHR ''.'' \<and> ch \<noteq> CHR 0x0A \<or> pattern_char = ch)"

section \<open>Validation\<close>

definition FormatRegexSyntaxError :: "string \<Rightarrow> nat \<Rightarrow> string" where
  "FormatRegexSyntaxError regex index =
     ''Syntax error at index '' @ dec_string index @ '' in simple regular expression '' @
     [CHR 0x22] @ regex @ [CHR 0x22] @ '': ''"

text \<open>
  The loop of \<open>ValidateRegex\<close>: the index, the characters from the index on, \<open>prev_repeatable\<close>.
  The result is the list of the failures it adds and whether the pattern is valid.
\<close>

fun validate_loop :: "string \<Rightarrow> nat \<Rightarrow> bool \<Rightarrow> string \<Rightarrow> string list \<times> bool" where
  "validate_loop regex i prev_repeatable [] = ([], True)"
| "validate_loop regex i prev_repeatable (ch # rest) =
     (if ch = CHR 0x5C then
        (case rest of
           [] \<Rightarrow> ([FormatRegexSyntaxError regex i @ [CHR 0x27, CHR 0x5C, CHR 0x27] @
                   '' cannot appear at the end.''], False)
         | c # rest' \<Rightarrow>
             let (failures, ok) = validate_loop regex (i + 2) True rest' in
             if IsValidEscape c then (failures, ok)
             else ((FormatRegexSyntaxError regex i @ ''invalid escape sequence '' @
                    [CHR 0x22, CHR 0x5C, c, CHR 0x22] @ ''.'') # failures, False))
      else
        let (failures, ok) =
              validate_loop regex (i + 1) (\<not> IsInSet ch ''^$?*+'') rest;
            bad = (\<lambda>text. ((FormatRegexSyntaxError regex i @ text) # failures, False)) in
        if ch = CHR ''^'' \<and> 0 < i then
          bad ([CHR 0x27] @ ''^'' @ [CHR 0x27] @ '' can only appear at the beginning.'')
        else if ch = CHR ''$'' \<and> head_char rest \<noteq> CHR 0x00 then
          bad ([CHR 0x27] @ ''$'' @ [CHR 0x27] @ '' can only appear at the end.'')
        else if IsInSet ch ''()[]{}|'' then
          bad ([CHR 0x27, ch, CHR 0x27] @ '' is unsupported.'')
        else if IsRepeat ch \<and> \<not> prev_repeatable then
          bad ([CHR 0x27, ch, CHR 0x27] @ '' can only follow a repeatable token.'')
        else (failures, ok))"

definition ValidateRegex :: "string option \<Rightarrow> string list \<times> bool" where
  "ValidateRegex regex =
     (case regex of
        None \<Rightarrow> ([''NULL is not a valid simple regular expression.''], False)
      | Some r \<Rightarrow> validate_loop r 0 False r)"

section \<open>Matching\<close>

text \<open>
  \<open>MatchRepetition escaped c min_count max_count regex i str\<close> is the loop of
  \<open>MatchRepetitionAndRegexAtHead\<close> from index \<open>i\<close> on; its last argument is \<open>str + i\<close>.
\<close>

definition min_count :: "char \<Rightarrow> nat" where
  "min_count repeat = (if repeat = CHR ''+'' then 1 else 0)"

definition max_count :: "char \<Rightarrow> nat" where
  "max_count repeat = (if repeat = CHR ''?'' then 1 else 2 ^ 64 - 1 - 1)"

function (sequential) MatchRegexAtHead :: "string \<Rightarrow> string \<Rightarrow> bool option"
  and MatchRepetition ::
    "bool \<Rightarrow> char \<Rightarrow> nat \<Rightarrow> nat \<Rightarrow> string \<Rightarrow> nat \<Rightarrow> string \<Rightarrow> bool option" where
  "MatchRegexAtHead regex str =
     (if regex = [] then Some True
      else if hd regex = CHR ''$'' then Some (str = [])
      else
        let escaped = (hd regex = CHR 0x5C);
            r = (if escaped then tl regex else regex) in
        (case r of
           [] \<Rightarrow> None
         | c # rest \<Rightarrow>
             if IsRepeat (head_char rest) then
               MatchRepetition escaped c (min_count (head_char rest)) (max_count (head_char rest))
                 (tl rest) 0 str
             else
               (case str of
                  [] \<Rightarrow> Some False
                | s # str' \<Rightarrow>
                    if AtomMatchesChar escaped c s then MatchRegexAtHead rest str'
                    else Some False)))"
| "MatchRepetition escaped c lo hi regex i str =
     (if hi < i then Some False
      else
        (case (if lo \<le> i then MatchRegexAtHead regex str else Some False) of
           None \<Rightarrow> None
         | Some True \<Rightarrow> Some True
         | Some False \<Rightarrow>
             (case str of
                [] \<Rightarrow> Some False
              | s # str' \<Rightarrow>
                  if AtomMatchesChar escaped c s
                  then MatchRepetition escaped c lo hi regex (i + 1) str'
                  else Some False)))"
  by pat_completeness auto

termination
  by (relation "inv_image (less_than <*lex*> less_than)
       (\<lambda>x. case x of Inl (r, s) \<Rightarrow> (2 * length r, 0)
          | Inr (e, c, lo, hi, r, i, s) \<Rightarrow> (2 * length r + 1, length s))")
    (auto simp: less_eq_Suc_le neq_Nil_conv split: if_splits)

declare MatchRegexAtHead.simps [simp del] MatchRepetition.simps [simp del]

definition MatchRepetitionAndRegexAtHead ::
    "bool \<Rightarrow> char \<Rightarrow> char \<Rightarrow> string \<Rightarrow> string \<Rightarrow> bool option" where
  "MatchRepetitionAndRegexAtHead escaped c repeat regex str =
     MatchRepetition escaped c (min_count repeat) (max_count repeat) regex 0 str"

fun match_anywhere :: "string \<Rightarrow> string \<Rightarrow> bool option" where
  "match_anywhere regex str =
     (case MatchRegexAtHead regex str of
        None \<Rightarrow> None
      | Some True \<Rightarrow> Some True
      | Some False \<Rightarrow> (case str of [] \<Rightarrow> Some False | _ # str' \<Rightarrow> match_anywhere regex str'))"

declare match_anywhere.simps [simp del]

definition MatchRegexAnywhere :: "string option \<Rightarrow> string option \<Rightarrow> bool option" where
  "MatchRegexAnywhere regex str =
     (case (regex, str) of
        (Some r, Some s) \<Rightarrow>
          if head_char r = CHR ''^'' then MatchRegexAtHead (tl r) s else match_anywhere r s
      | _ \<Rightarrow> Some False)"

section \<open>The class RE\<close>

record RE =
  pattern :: "string option"
  full_pattern :: "string option"
  re_valid :: bool

text \<open>\<open>RE::Init\<close>: the failures added, and the object.\<close>

definition RE_full_pattern :: "string \<Rightarrow> string" where
  "RE_full_pattern regex =
     (if head_char regex \<noteq> CHR ''^'' then [CHR ''^''] else []) @ regex @
     (if length regex = 0 \<or> regex ! (length regex - 1) \<noteq> CHR ''$'' then [CHR ''$''] else [])"

definition RE_Init :: "string option \<Rightarrow> string list \<times> RE" where
  "RE_Init regex =
     (let (failures, valid) = ValidateRegex regex in
      (failures,
       \<lparr> pattern = regex,
         full_pattern = (if valid then map_option RE_full_pattern regex else None),
         re_valid = valid \<rparr>))"

definition FullMatch :: "string option \<Rightarrow> RE \<Rightarrow> bool option" where
  "FullMatch str re = (if re_valid re then MatchRegexAnywhere (full_pattern re) str else Some False)"

definition PartialMatch :: "string option \<Rightarrow> RE \<Rightarrow> bool option" where
  "PartialMatch str re = (if re_valid re then MatchRegexAnywhere (pattern re) str else Some False)"


section \<open>Reference: patterns and their language\<close>

datatype quant = Once | Optional | Star | Plus

type_synonym item = "bool \<times> char \<times> quant"

fun quant_text :: "quant \<Rightarrow> string" where
  "quant_text Once = []"
| "quant_text Optional = ''?''"
| "quant_text Star = ''*''"
| "quant_text Plus = ''+''"

fun item_text :: "item \<Rightarrow> string" where
  "item_text (escaped, c, q) = (if escaped then [CHR 0x5C] else []) @ [c] @ quant_text q"

definition body_text :: "item list \<Rightarrow> bool \<Rightarrow> string" where
  "body_text items at_end = concat (map item_text items) @ (if at_end then ''$'' else [])"

definition regex_text :: "bool \<Rightarrow> item list \<Rightarrow> bool \<Rightarrow> string" where
  "regex_text at_begin items at_end = (if at_begin then ''^'' else []) @ body_text items at_end"

fun item_ok :: "item \<Rightarrow> bool" where
  "item_ok (escaped, c, q) \<longleftrightarrow>
     (if escaped then IsValidEscape c
      else c \<notin> {CHR 0x00, CHR 0x5C, CHR ''^'', CHR ''$''} \<and> \<not> IsInSet c ''()[]{}|'' \<and> \<not> IsRepeat c)"

fun quant_admits :: "quant \<Rightarrow> nat \<Rightarrow> bool" where
  "quant_admits Once n \<longleftrightarrow> n = 1"
| "quant_admits Optional n \<longleftrightarrow> n \<le> 1"
| "quant_admits Star n \<longleftrightarrow> True"
| "quant_admits Plus n \<longleftrightarrow> 1 \<le> n"

fun item_matches :: "item \<Rightarrow> string \<Rightarrow> bool" where
  "item_matches (escaped, c, q) w \<longleftrightarrow>
     quant_admits q (length w) \<and> (\<forall>s \<in> set w. AtomMatchesChar escaped c s)"

fun items_match :: "item list \<Rightarrow> string \<Rightarrow> bool" where
  "items_match [] w \<longleftrightarrow> w = []"
| "items_match (x # xs) w \<longleftrightarrow> (\<exists>u v. w = u @ v \<and> item_matches x u \<and> items_match xs v)"

definition head_match :: "item list \<Rightarrow> bool \<Rightarrow> string \<Rightarrow> bool" where
  "head_match items at_end str \<longleftrightarrow>
     (\<exists>u v. str = u @ v \<and> items_match items u \<and> (at_end \<longrightarrow> v = []))"

lemma body_text_simps [simp]:
  "body_text (x # items) e = item_text x @ body_text items e"
  "body_text [] e = (if e then ''$'' else [])"
  by (simp_all add: body_text_def)

lemma body_text_not_repeat:
  assumes "\<forall>x \<in> set items. item_ok x"
  shows "\<not> IsRepeat (head_char (body_text items e))"
proof (cases items)
  case Nil
  then show ?thesis by (simp add: IsRepeat_def IsInSet_def)
next
  case (Cons x xs)
  obtain esc c q where "x = (esc, c, q)" by (cases x)
  with Cons assms show ?thesis
    by (cases esc) (auto simp: IsRepeat_def IsInSet_def)
qed

lemma repetition_correct:
  assumes H: "\<And>s. length s \<le> n \<Longrightarrow> MatchRegexAtHead regex s = Some (H s)"
    and "length str \<le> n"
  shows "MatchRepetition escaped c lo hi regex i str =
    Some (\<exists>u v. str = u @ v \<and> lo \<le> i + length u \<and> i + length u \<le> hi \<and>
           (\<forall>s \<in> set u. AtomMatchesChar escaped c s) \<and> H v)"
  using assms(2)
proof (induction str arbitrary: i)
  case Nil
  then show ?case
    by (subst MatchRepetition.simps) (auto simp: H split: bool.splits)
next
  case (Cons s str)
  let ?P = "\<lambda>i str. \<exists>u v. str = u @ v \<and> lo \<le> i + length u \<and> i + length u \<le> hi \<and>
           (\<forall>s \<in> set u. AtomMatchesChar escaped c s) \<and> H v"
  have step: "?P i (s # str) \<longleftrightarrow>
      i \<le> hi \<and> (lo \<le> i \<and> H (s # str) \<or> AtomMatchesChar escaped c s \<and> ?P (i + 1) str)"
  proof
    assume "?P i (s # str)"
    then obtain u v where uv: "s # str = u @ v" "lo \<le> i + length u" "i + length u \<le> hi"
      "\<forall>s \<in> set u. AtomMatchesChar escaped c s" "H v" by blast
    show "i \<le> hi \<and> (lo \<le> i \<and> H (s # str) \<or> AtomMatchesChar escaped c s \<and> ?P (i + 1) str)"
    proof (cases u)
      case Nil
      with uv show ?thesis by simp
    next
      case (Cons a u')
      with uv have "?P (i + 1) str"
        by (intro exI [of _ u'] exI [of _ v]) simp
      with Cons uv show ?thesis by simp
    qed
  next
    assume r: "i \<le> hi \<and> (lo \<le> i \<and> H (s # str) \<or> AtomMatchesChar escaped c s \<and> ?P (i + 1) str)"
    show "?P i (s # str)"
    proof (cases "lo \<le> i \<and> H (s # str)")
      case True
      with r show ?thesis by (intro exI [of _ "[]"] exI [of _ "s # str"]) simp
    next
      case False
      with r obtain u v where "str = u @ v" "lo \<le> i + 1 + length u" "i + 1 + length u \<le> hi"
        "\<forall>s \<in> set u. AtomMatchesChar escaped c s" "H v" "AtomMatchesChar escaped c s" by blast
      then show ?thesis by (intro exI [of _ "s # u"] exI [of _ v]) simp
    qed
  qed
  show ?case
    by (subst MatchRepetition.simps, unfold step)
      (use Cons in \<open>auto simp: H split: bool.splits\<close>)
qed

lemma head_match_Cons:
  "head_match ((e, c, q) # items) at_end str \<longleftrightarrow>
     (\<exists>u v. str = u @ v \<and> quant_admits q (length u) \<and> (\<forall>s \<in> set u. AtomMatchesChar e c s) \<and>
       head_match items at_end v)"
proof
  assume "head_match ((e, c, q) # items) at_end str"
  then obtain u v w where "str = (u @ w) @ v" "quant_admits q (length u)"
    "\<forall>s \<in> set u. AtomMatchesChar e c s" "items_match items w" "at_end \<longrightarrow> v = []"
    unfolding head_match_def by (auto simp del: append_assoc)
  then show "\<exists>u v. str = u @ v \<and> quant_admits q (length u) \<and>
      (\<forall>s \<in> set u. AtomMatchesChar e c s) \<and> head_match items at_end v"
    unfolding head_match_def by (intro exI [of _ u] exI [of _ "w @ v"]) auto
next
  assume "\<exists>u v. str = u @ v \<and> quant_admits q (length u) \<and>
      (\<forall>s \<in> set u. AtomMatchesChar e c s) \<and> head_match items at_end v"
  then obtain u w v where "str = (u @ w) @ v" "quant_admits q (length u)"
    "\<forall>s \<in> set u. AtomMatchesChar e c s" "items_match items w" "at_end \<longrightarrow> v = []"
    unfolding head_match_def by auto
  then show "head_match ((e, c, q) # items) at_end str"
    unfolding head_match_def by (intro exI [of _ "u @ w"] exI [of _ v]) auto
qed

lemma head_match_Nil: "head_match [] at_end str \<longleftrightarrow> (at_end \<longrightarrow> str = [])"
  by (auto simp: head_match_def)

lemma head_match_once:
  "head_match ((e, c, Once) # items) at_end str \<longleftrightarrow>
     (case str of [] \<Rightarrow> False | s # v \<Rightarrow> AtomMatchesChar e c s \<and> head_match items at_end v)"
proof (cases str)
  case (Cons s v)
  have "(\<exists>u w. s # v = u @ w \<and> length u = 1 \<and> P u w) \<longleftrightarrow> P [s] v" for P
    by (auto simp: length_Suc_conv Cons_eq_append_conv) (metis append_Cons append_Nil)+
  from this [of "\<lambda>u w. (\<forall>s \<in> set u. AtomMatchesChar e c s) \<and> head_match items at_end w"]
  show ?thesis
    unfolding head_match_Cons Cons by simp
qed (simp add: head_match_Cons)

lemma quant_repeat:
  assumes "q \<noteq> Once"
  shows "IsRepeat (head_char (quant_text q @ r)) \<and> tl (quant_text q @ r) = r"
  using assms by (cases q) (simp_all add: IsRepeat_def IsInSet_def)

lemma quant_counts:
  assumes "q \<noteq> Once" "n < 2 ^ 64 - 1"
  shows "quant_admits q n \<longleftrightarrow>
    min_count (head_char (quant_text q @ r)) \<le> n \<and> n \<le> max_count (head_char (quant_text q @ r))"
  using assms by (cases q) (auto simp: min_count_def max_count_def)

lemma match_item:
  assumes "item_ok (e, c, q)"
  shows "MatchRegexAtHead (item_text (e, c, q) @ r) str =
    (if IsRepeat (head_char (quant_text q @ r))
     then MatchRepetition e c (min_count (head_char (quant_text q @ r)))
       (max_count (head_char (quant_text q @ r))) (tl (quant_text q @ r)) 0 str
     else case str of [] \<Rightarrow> Some False
       | s # str' \<Rightarrow> if AtomMatchesChar e c s then MatchRegexAtHead (quant_text q @ r) str'
                    else Some False)"
  using assms by (subst MatchRegexAtHead.simps) (cases e; simp add: Let_def split: list.splits)

lemma match_at_head_correct:
  assumes "\<forall>x \<in> set items. item_ok x" "length str < 2 ^ 64 - 1"
  shows "MatchRegexAtHead (body_text items at_end) str = Some (head_match items at_end str)"
  using assms
proof (induction items arbitrary: str)
  case Nil
  then show ?case
    by (subst MatchRegexAtHead.simps) (simp add: head_match_Nil)
next
  case (Cons x items)
  obtain e c q where x: "x = (e, c, q)" by (cases x)
  let ?r = "body_text items at_end"
  have ok: "item_ok (e, c, q)" "\<forall>x \<in> set items. item_ok x"
    using Cons.prems x by auto
  have IH: "length s \<le> length str \<Longrightarrow> MatchRegexAtHead ?r s = Some (head_match items at_end s)" for s
    using Cons.IH [OF ok(2), of s] Cons.prems(2) by linarith
  show ?case
  proof (cases "q = Once")
    case True
    with ok show ?thesis
      unfolding x body_text_simps match_item [OF ok(1)]
      by (simp add: body_text_not_repeat head_match_once IH split: list.splits)
  next
    case False
    have "(\<exists>u v. str = u @ v \<and> quant_admits q (length u) \<and> P u v) \<longleftrightarrow>
      (\<exists>u v. str = u @ v \<and> min_count (head_char (quant_text q @ ?r)) \<le> 0 + length u \<and>
        0 + length u \<le> max_count (head_char (quant_text q @ ?r)) \<and> P u v)" for P
    proof (intro ex_cong1)
      fix u v
      have "length u < 2 ^ 64 - 1" if "str = u @ v"
        using that Cons.prems(2) by (metis le_add1 length_append order_le_less_trans)
      then show "(str = u @ v \<and> quant_admits q (length u) \<and> P u v) \<longleftrightarrow>
        (str = u @ v \<and> min_count (head_char (quant_text q @ ?r)) \<le> 0 + length u \<and>
          0 + length u \<le> max_count (head_char (quant_text q @ ?r)) \<and> P u v)"
        using quant_counts [OF False, of "length u" ?r] by (metis add_0)
    qed
    then show ?thesis
      unfolding x body_text_simps match_item [OF ok(1)] head_match_Cons
      using quant_repeat [OF False, of ?r]
      by (simp only: if_True simp_thms repetition_correct [where n = "length str", OF IH order_refl])
  qed
qed

lemma match_anywhere_correct:
  assumes "\<forall>x \<in> set items. item_ok x" "length str < 2 ^ 64 - 1"
  shows "match_anywhere (body_text items at_end) str =
    Some (\<exists>u v. str = u @ v \<and> head_match items at_end v)"
  using assms(2)
proof (induction str)
  case Nil
  then show ?case
    by (subst match_anywhere.simps) (auto simp: match_at_head_correct [OF assms(1)] split: bool.splits)
next
  case (Cons s str)
  have "(\<exists>u v. s # str = u @ v \<and> P v) \<longleftrightarrow> P (s # str) \<or> (\<exists>u v. str = u @ v \<and> P v)" for P
    by (auto simp: Cons_eq_append_conv)
  with Cons show ?case
    by (subst match_anywhere.simps) (auto simp: match_at_head_correct [OF assms(1)] split: bool.splits)
qed

lemma body_text_head:
  assumes "\<forall>x \<in> set items. item_ok x"
  shows "head_char (body_text items e) \<noteq> CHR ''^''"
proof (cases items)
  case (Cons x xs)
  with assms show ?thesis by (cases x) (auto split: if_splits)
qed simp

lemma match_regex_text:
  assumes "\<forall>x \<in> set items. item_ok x" "length str < 2 ^ 64 - 1"
  shows "MatchRegexAnywhere (Some (regex_text b items e)) (Some str) =
    Some (\<exists>u v w. str = u @ v @ w \<and> items_match items v \<and> (b \<longrightarrow> u = []) \<and> (e \<longrightarrow> w = []))"
  using assms body_text_head [OF assms(1), of e]
  by (cases b) (auto simp: MatchRegexAnywhere_def regex_text_def match_at_head_correct
      match_anywhere_correct head_match_def)

section \<open>Valid patterns are the texts of the abstract syntax\<close>

text \<open>What may stand behind an item: a quantifier only if the item before is repeatable.\<close>

definition tail_text :: "bool \<Rightarrow> string \<Rightarrow> bool" where
  "tail_text p s \<longleftrightarrow> (\<exists>q items e. (p \<or> q = Once) \<and> (\<forall>x \<in> set items. item_ok x) \<and>
     s = quant_text q @ body_text items e)"

lemma repeat_quant: "IsRepeat ch \<longleftrightarrow> (\<exists>q. q \<noteq> Once \<and> quant_text q = [ch])"
proof
  assume "IsRepeat ch"
  then consider "ch = CHR ''?''" | "ch = CHR ''*''" | "ch = CHR ''+''"
    by (auto simp: IsRepeat_def IsInSet_def)
  then show "\<exists>q. q \<noteq> Once \<and> quant_text q = [ch]"
    by cases (rule exI [of _ Optional] exI [of _ Star] exI [of _ Plus]; simp)+
next
  assume "\<exists>q. q \<noteq> Once \<and> quant_text q = [ch]"
  then obtain q where "q \<noteq> Once" "quant_text q = [ch]" by blast
  then show "IsRepeat ch"
    by (cases q) (auto simp: IsRepeat_def IsInSet_def)
qed

lemma tail_text_item:
  assumes "item_ok (e, c, Once)" "tail_text True s"
  shows "tail_text p ((if e then [CHR 0x5C] else []) @ c # s)"
proof -
  from assms(2) obtain q items d where "\<forall>x \<in> set items. item_ok x" "s = quant_text q @ body_text items d"
    by (auto simp: tail_text_def)
  with assms(1) show ?thesis
    unfolding tail_text_def
    by (intro exI [of _ Once] exI [of _ "(e, c, q) # items"] exI [of _ d]) auto
qed

lemma tail_text_quant:
  assumes "p" "IsRepeat ch" "tail_text False s"
  shows "tail_text p (ch # s)"
proof -
  from assms obtain items d q where "\<forall>x \<in> set items. item_ok x" "s = body_text items d"
    "quant_text q = [ch]"
    by (auto simp: tail_text_def repeat_quant)
  with assms(1) show ?thesis
    unfolding tail_text_def by (intro exI [of _ q] exI [of _ items] exI [of _ d]) simp
qed

lemma validate_tail:
  assumes "snd (validate_loop r i p s)" "CHR 0x00 \<notin> set s" "0 < i \<or> head_char s \<noteq> CHR ''^''"
  shows "tail_text p s"
  using assms
proof (induction r i p s rule: validate_loop.induct)
  case (1 r i p)
  then show ?case
    unfolding tail_text_def by (intro exI [of _ Once] exI [of _ "[]"] exI [of _ False]) simp
next
  case (2 r i p ch rest)
  show ?case
  proof (cases "ch = CHR 0x5C")
    case True
    with 2(3) obtain c rest' where rest: "rest = c # rest'" and c: "IsValidEscape c"
      and ok: "snd (validate_loop r (i + 2) True rest')"
      by (auto simp: case_prod_beta Let_def split: list.splits if_splits)
    have "tail_text True rest'"
      using 2(1) [OF True rest] ok 2(4) rest by simp
    with tail_text_item [of True c rest'] c True rest show ?thesis by simp
  next
    case False
    note valid = 2(3) [unfolded validate_loop.simps if_not_P [OF False] Let_def case_prod_beta]
    have ch: "\<not> IsInSet ch ''()[]{}|''" "\<not> IsRepeat ch \<or> p" "ch = CHR ''$'' \<longrightarrow> head_char rest = CHR 0x00"
      "ch \<noteq> CHR ''^''"
      and ok: "snd (validate_loop r (i + 1) (\<not> IsInSet ch ''^$?*+'') rest)"
      using valid 2(5) by (auto split: if_splits)
    have IH: "tail_text (\<not> IsInSet ch ''^$?*+'') rest"
      using 2(2) [OF False] ok 2(4) by simp
    consider "ch = CHR ''$''" | "IsRepeat ch" | "ch \<noteq> CHR ''$''" "\<not> IsRepeat ch" by blast
    then show ?thesis
    proof cases
      case 1
      have "rest = []"
        using ch(3) 1 2(4) by (cases rest) auto
      with 1 show ?thesis
        unfolding tail_text_def by (intro exI [of _ Once] exI [of _ "[]"] exI [of _ True]) simp
    next
      case c: 2
      then have "IsInSet ch ''^$?*+''" by (auto simp: IsRepeat_def IsInSet_def)
      with IH ch c show ?thesis by (simp add: tail_text_quant)
    next
      case 3
      with ch 2(4) False have ok: "item_ok (False, ch, Once)" and "\<not> IsInSet ch ''^$?*+''"
        by (auto simp: IsRepeat_def IsInSet_def)
      with IH tail_text_item [OF ok, of rest p] show ?thesis by simp
    qed
  qed
qed

lemma escape_not_nul: "IsValidEscape c \<Longrightarrow> c \<noteq> CHR 0x00"
  by (auto simp: IsValidEscape_def IsAsciiPunct_def IsInSet_def)

lemma validate_quant:
  assumes "snd (validate_loop r (i + length (quant_text q)) (q = Once) s)"
    "\<And>j. snd (validate_loop r j True s) = snd (validate_loop r j False s)"
  shows "snd (validate_loop r i True (quant_text q @ s))"
  using assms
  by (cases q) (simp_all add: IsInSet_def IsRepeat_def case_prod_beta Let_def)

lemma validate_body_any:
  assumes "\<forall>x \<in> set items. item_ok x"
  shows "snd (validate_loop r i p (body_text items e)) \<and>
    snd (validate_loop r i True (quant_text q @ body_text items e))"
  using assms
proof (induction items arbitrary: i p q)
  case Nil
  have "snd (validate_loop r j b (body_text [] e))" for j b
    by (simp add: IsInSet_def IsRepeat_def)
  then show ?case
    by (intro conjI validate_quant) auto
next
  case (Cons x items)
  obtain esc c k where x: "x = (esc, c, k)" by (cases x)
  have IH: "snd (validate_loop r j True (quant_text k @ body_text items e))" for j
    using Cons by simp
  have body: "snd (validate_loop r j b (body_text (x # items) e))" for j b
  proof (cases esc)
    case True
    with IH [of "j + 2"] Cons.prems x show ?thesis by (simp add: case_prod_beta Let_def)
  next
    case False
    with Cons.prems x have "\<not> IsInSet c ''^$?*+''" by (auto simp: IsInSet_def IsRepeat_def)
    with False IH [of "j + 1"] Cons.prems x show ?thesis by (simp add: case_prod_beta Let_def)
  qed
  then show ?case
    by (intro conjI validate_quant) auto
qed

lemma text_valid:
  assumes "\<forall>x \<in> set items. item_ok x"
  shows "snd (ValidateRegex (Some (regex_text b items e)))"
  using conjunct1 [OF validate_body_any [OF assms]]
  by (cases b) (auto simp: ValidateRegex_def regex_text_def IsInSet_def IsRepeat_def
      case_prod_beta Let_def)

lemma valid_iff_text:
  assumes "CHR 0x00 \<notin> set r"
  shows "snd (ValidateRegex (Some r)) \<longleftrightarrow>
    (\<exists>b items e. r = regex_text b items e \<and> (\<forall>x \<in> set items. item_ok x))"
proof
  assume valid: "snd (ValidateRegex (Some r))"
  show "\<exists>b items e. r = regex_text b items e \<and> (\<forall>x \<in> set items. item_ok x)"
  proof (cases "head_char r = CHR ''^''")
    case True
    then obtain s where r: "r = CHR ''^'' # s" by (cases r) auto
    with valid have "snd (validate_loop r 1 False s)"
      by (auto simp: ValidateRegex_def IsInSet_def IsRepeat_def case_prod_beta Let_def)
    from validate_tail [OF this] assms r show ?thesis
      by (auto simp: tail_text_def regex_text_def intro: exI [of _ True])
  next
    case False
    from validate_tail [of r 0 False r] valid assms False show ?thesis
      by (auto simp: tail_text_def regex_text_def ValidateRegex_def intro: exI [of _ False])
  qed
qed (auto simp: text_valid)

lemma failures_iff_invalid: "fst (validate_loop r i p s) = [] \<longleftrightarrow> snd (validate_loop r i p s)"
  by (induction r i p s rule: validate_loop.induct)
    (auto simp: case_prod_beta Let_def split: list.splits)

section \<open>The class RE implements the language\<close>

text \<open>The pattern ends in an escaped dollar: its last character is not the anchor.\<close>

definition ends_in_escaped_dollar :: "item list \<Rightarrow> bool \<Rightarrow> bool" where
  "ends_in_escaped_dollar items e \<longleftrightarrow>
     \<not> e \<and> items \<noteq> [] \<and> last items = (True, CHR ''$'', Once)"

lemma body_text_last:
  assumes "\<forall>x \<in> set items. item_ok x"
  shows "(body_text items e \<noteq> [] \<and> last (body_text items e) = CHR ''$'') \<longleftrightarrow>
    e \<or> ends_in_escaped_dollar items e"
proof (cases "e \<or> items = []")
  case True
  then show ?thesis by (auto simp: body_text_def ends_in_escaped_dollar_def)
next
  case False
  then obtain its x where items: "items = its @ [x]" and e: "\<not> e" by (metis rev_exhaust)
  obtain esc c q where x: "x = (esc, c, q)" by (cases x)
  from assms items x have "item_ok (esc, c, q)" by (simp del: item_ok.simps)
  then show ?thesis
    using items x e
    by (cases q; cases esc) (auto simp: body_text_def ends_in_escaped_dollar_def)
qed

lemma full_pattern_text:
  assumes "\<forall>x \<in> set items. item_ok x"
  shows "RE_full_pattern (regex_text b items e) =
    regex_text True items (\<not> ends_in_escaped_dollar items e)"
proof -
  let ?r = "regex_text b items e" and ?b = "body_text items e"
  have front: "(if head_char ?r \<noteq> CHR ''^'' then [CHR ''^''] else []) @ ?r = CHR ''^'' # ?b"
    using body_text_head [OF assms, of e] by (cases b) (simp_all add: regex_text_def)
  have dollar: "(length ?r = 0 \<or> ?r ! (length ?r - 1) \<noteq> CHR ''$'') \<longleftrightarrow>
      \<not> (?b \<noteq> [] \<and> last ?b = CHR ''$'')"
    by (cases b; cases "?b = []") (auto simp: regex_text_def last_conv_nth nth_append)
  show ?thesis
    unfolding RE_full_pattern_def append_assoc [symmetric] front dollar body_text_last [OF assms]
    by (cases e) (auto simp: regex_text_def body_text_def ends_in_escaped_dollar_def)
qed

section \<open>The language of a pattern\<close>

text \<open>The language as sets of strings, apart from the character classes of the code.\<close>

definition atom_chars :: "bool \<Rightarrow> char \<Rightarrow> char set" where
  "atom_chars escaped c =
     (let digits = set ''0123456789'';
          spaces = {CHR '' '', CHR 0x09, CHR 0x0A, CHR 0x0B, CHR 0x0C, CHR 0x0D};
          word = set (''abcdefghijklmnopqrstuvwxyz'' @ ''ABCDEFGHIJKLMNOPQRSTUVWXYZ'' @ ''0123456789'' @ ''_'') in
      if \<not> escaped then (if c = CHR ''.'' then - {CHR 0x0A} else {c})
      else if c = CHR ''d'' then digits
      else if c = CHR ''D'' then - digits
      else if c = CHR ''s'' then spaces
      else if c = CHR ''S'' then - spaces
      else if c = CHR ''w'' then word
      else if c = CHR ''W'' then - word
      else if c = CHR ''t'' then {CHR 0x09}
      else if c = CHR ''n'' then {CHR 0x0A}
      else if c = CHR ''v'' then {CHR 0x0B}
      else if c = CHR ''f'' then {CHR 0x0C}
      else if c = CHR ''r'' then {CHR 0x0D}
      else {c})"

fun item_language :: "item \<Rightarrow> string set" where
  "item_language (escaped, c, q) = {w. quant_admits q (length w) \<and> set w \<subseteq> atom_chars escaped c}"

fun items_language :: "item list \<Rightarrow> string set" where
  "items_language [] = {[]}"
| "items_language (x # xs) = {u @ v |u v. u \<in> item_language x \<and> v \<in> items_language xs}"

lemma char_range:
  assumes "map of_char cs = [a..<b]"
  shows "c \<in> set cs \<longleftrightarrow> a \<le> of_char c \<and> of_char c < b"
proof -
  have "c \<in> set cs \<longleftrightarrow> of_char c \<in> set (map of_char cs :: nat list)" by (auto simp: image_iff)
  with assms show ?thesis by simp
qed

lemma char_class_sets:
  "IsAsciiDigit ch \<longleftrightarrow> ch \<in> set ''0123456789''"
  "IsAsciiWordChar ch \<longleftrightarrow> ch \<in> set (''abcdefghijklmnopqrstuvwxyz'' @
     ''ABCDEFGHIJKLMNOPQRSTUVWXYZ'' @ ''0123456789'' @ ''_'')"
  "IsAsciiWhiteSpace ch \<longleftrightarrow>
     ch \<in> {CHR '' '', CHR 0x09, CHR 0x0A, CHR 0x0B, CHR 0x0C, CHR 0x0D}"
proof -
  have digits: "ch \<in> set ''0123456789'' \<longleftrightarrow> (48 :: nat) \<le> of_char ch \<and> of_char ch < (58 :: nat)"
    by (rule char_range) code_simp
  have lower: "ch \<in> set ''abcdefghijklmnopqrstuvwxyz'' \<longleftrightarrow> (97 :: nat) \<le> of_char ch \<and> of_char ch < (123 :: nat)"
    by (rule char_range) code_simp
  have upper: "ch \<in> set ''ABCDEFGHIJKLMNOPQRSTUVWXYZ'' \<longleftrightarrow> (65 :: nat) \<le> of_char ch \<and> of_char ch < (91 :: nat)"
    by (rule char_range) code_simp
  have underscore: "ch \<in> set ''_'' \<longleftrightarrow> ch = CHR ''_''" by simp
  show "IsAsciiDigit ch \<longleftrightarrow> ch \<in> set ''0123456789''"
    unfolding IsAsciiDigit_def digits by linarith
  show "IsAsciiWordChar ch \<longleftrightarrow> ch \<in> set (''abcdefghijklmnopqrstuvwxyz'' @
      ''ABCDEFGHIJKLMNOPQRSTUVWXYZ'' @ ''0123456789'' @ ''_'')"
    unfolding IsAsciiWordChar_def set_append Un_iff digits lower upper underscore by linarith
  show "IsAsciiWhiteSpace ch \<longleftrightarrow>
     ch \<in> {CHR '' '', CHR 0x09, CHR 0x0A, CHR 0x0B, CHR 0x0C, CHR 0x0D}"
    by (auto simp: IsAsciiWhiteSpace_def IsInSet_def)
qed

lemma atom_matches_chars:
  assumes "item_ok (escaped, c, q)"
  shows "AtomMatchesChar escaped c s \<longleftrightarrow> s \<in> atom_chars escaped c"
proof (cases escaped)
  case True
  with assms have "IsAsciiPunct c \<or> c \<in> set ''dDfnrsStvwW''"
    by (auto simp: IsValidEscape_def IsInSet_def)
  then have "IsAsciiPunct c \<or> c \<in> {CHR ''d'', CHR ''D'', CHR ''f'', CHR ''n'', CHR ''r'', CHR ''s'', CHR ''S'',
      CHR ''t'', CHR ''v'', CHR ''w'', CHR ''W''}" by simp
  with True show ?thesis
    by (auto simp: AtomMatchesChar_def atom_chars_def char_class_sets Let_def
      simp del: list.set set_append)
next
  case False
  with assms show ?thesis by (auto simp: AtomMatchesChar_def atom_chars_def)
qed

lemma items_match_language:
  assumes "\<forall>x \<in> set items. item_ok x"
  shows "items_match items w \<longleftrightarrow> w \<in> items_language items"
  using assms
proof (induction items arbitrary: w)
  case Nil
  then show ?case by simp
next
  case (Cons x items)
  obtain e c q where x: "x = (e, c, q)" by (cases x)
  have "item_matches x u \<longleftrightarrow> u \<in> item_language x" for u
    using Cons.prems atom_matches_chars [of e c q] by (auto simp: x simp del: item_ok.simps)
  with Cons show ?case by auto
qed

section \<open>Properties\<close>

text \<open>\<open>ValidateRegex\<close> adds no failure and returns true exactly on the texts of the pattern
  syntax: an optional circumflex, items (a plain character, or a backslash and an escapable
  character, with an optional quantifier), an optional dollar.\<close>

lemma validate_regex_correct:
  assumes "CHR 0x00 \<notin> set r"
  shows "(fst (ValidateRegex (Some r)) = [] \<longleftrightarrow> snd (ValidateRegex (Some r))) \<and>
    (snd (ValidateRegex (Some r)) \<longleftrightarrow>
      (\<exists>b items e. r = regex_text b items e \<and> (\<forall>x \<in> set items. item_ok x)))"
  using valid_iff_text [OF assms] by (auto simp: ValidateRegex_def failures_iff_invalid)

lemma validate_regex_correct_witness:
  "\<not> snd (ValidateRegex (Some ''a**'')) \<and> (\<nexists>b items e. ''a**'' = regex_text b items e \<and>
     (\<forall>x \<in> set items. item_ok x))"
proof -
  have "\<not> snd (ValidateRegex (Some ''a**''))" by code_simp
  with validate_regex_correct [of "''a**''"] show ?thesis by simp
qed

text \<open>C9: The matcher of \<open>RE\<close> agrees with the language of the pattern and never reads behind a
  terminator. \<open>PartialMatch\<close> is true exactly when a substring (a prefix, a suffix under the anchors)
  is in the language; \<open>FullMatch\<close> exactly when the whole string is, except for patterns that end in
  an escaped dollar, which \<open>RE::Init\<close> mistakes for the anchor: for those any prefix suffices.\<close>

theorem regex_engine_correct:
  assumes "\<forall>x \<in> set items. item_ok x" and "length str < 2 ^ 64 - 1"
  shows "PartialMatch (Some str) (snd (RE_Init (Some (regex_text b items e)))) =
      Some (\<exists>u v w. str = u @ v @ w \<and> v \<in> items_language items \<and> (b \<longrightarrow> u = []) \<and> (e \<longrightarrow> w = [])) \<and>
    FullMatch (Some str) (snd (RE_Init (Some (regex_text b items e)))) =
      Some (\<exists>v w. str = v @ w \<and> v \<in> items_language items \<and>
        (ends_in_escaped_dollar items e \<or> w = []))"
  using match_regex_text [OF assms] full_pattern_text [OF assms(1)] text_valid [OF assms(1), of b e]
  by (simp add: items_match_language [OF assms(1)] PartialMatch_def FullMatch_def RE_Init_def case_prod_beta Let_def) blast

theorem regex_engine_correct_witness:
  "FullMatch (Some ''a$b'') (snd (RE_Init (Some (''a'' @ [CHR 0x5C] @ ''$'')))) = Some True \<and>
   ''a$b'' \<notin> items_language [(False, CHR ''a'', Once), (True, CHR ''$'', Once)]"
proof -
  let ?items = "[(False, CHR ''a'', Once), (True, CHR ''$'', Once)]"
  have ok: "\<forall>x \<in> set ?items. item_ok x" by code_simp
  have m: "''a$'' \<in> items_language ?items"
    by (simp add: atom_chars_def) (rule exI [of _ "''a''"], rule exI [of _ "''$''"], simp)
  have n: "''a$b'' \<notin> items_language ?items"
    by (auto dest: arg_cong [where f = length])
  have shape: "regex_text False ?items False = ''a'' @ [CHR 0x5C] @ ''$''"
    by (simp add: regex_text_def body_text_def)
  have bound: "length ''a$b'' < 2 ^ 64 - 1" by simp
  have "\<exists>v w. ''a$b'' = v @ w \<and> v \<in> items_language ?items \<and>
      (ends_in_escaped_dollar ?items False \<or> w = [])"
    by (rule exI [of _ "''a$''"], rule exI [of _ "''b''"])
      (simp only: m ends_in_escaped_dollar_def, simp)
  with conjunct2 [OF regex_engine_correct [OF ok bound, of False False, unfolded shape]]
  have "FullMatch (Some ''a$b'') (snd (RE_Init (Some (''a'' @ [CHR 0x5C] @ ''$'')))) = Some True"
    by (simp only: option.inject eq_True)
  with n show ?thesis by blast
qed

end
