(* ===== verification/Gtest_Random.thy ===== *)
theory Gtest_Random
  imports Prelude "HOL-Library.Multiset"
begin

text \<open>
  The random numbers of googletest (\<open>internal::Random\<close>, a linear congruential generator), the seeds
  derived from the flag, the shuffle of a range of a vector, and the small container helpers of
  \<open>gtest-internal-inl.h\<close>.  \<open>None\<close> is a failed \<open>GTEST_CHECK_\<close>, which aborts the program.
\<close>

section \<open>The generator\<close>

record Random =
  state :: "32 word"

definition kMaxRange :: "32 word" where
  "kMaxRange = push_bit 31 1"

definition new_Random :: "32 word \<Rightarrow> Random" where
  "new_Random seed = \<lparr> state = seed \<rparr>"

definition Reseed :: "32 word \<Rightarrow> Random \<Rightarrow> Random" where
  "Reseed seed r = r\<lparr> state := seed \<rparr>"

definition Generate :: "32 word \<Rightarrow> Random \<Rightarrow> ((32 word) \<times> Random) option" where
  "Generate bound r =
     (let s = (1103515245 * state r + 12345) mod kMaxRange in
      if \<not> 0 < bound then None
      else if \<not> bound \<le> kMaxRange then None
      else Some (s mod bound, r\<lparr> state := s \<rparr>))"

lemma generate_defined:
  "0 < bound \<Longrightarrow> bound \<le> kMaxRange \<Longrightarrow> \<exists>n r'. Generate bound r = Some (n, r') \<and> n < bound"
  by (auto simp: Generate_def Let_def word_mod_less_divisor)

section \<open>Seeds\<close>

definition kMaxRandomSeed :: int where "kMaxRandomSeed = 99999"

text \<open>The time is what \<open>GetTimeInMillis\<close> returns.\<close>

definition GetRandomSeedFromFlag :: "int \<Rightarrow> int \<Rightarrow> int" where
  "GetRandomSeedFromFlag time_in_millis random_seed_flag =
     (let raw_seed = (if random_seed_flag = 0 then word_of_int time_in_millis
                      else word_of_int random_seed_flag :: 32 word) in
      uint ((raw_seed - 1) mod word_of_int kMaxRandomSeed) + 1)"

definition GetNextRandomSeed :: "int \<Rightarrow> int option" where
  "GetNextRandomSeed seed =
     (if \<not> (1 \<le> seed \<and> seed \<le> kMaxRandomSeed) then None
      else let next_seed = seed + 1 in
        Some (if next_seed > kMaxRandomSeed then 1 else next_seed))"

section \<open>Containers\<close>

fun count_from :: "('a \<Rightarrow> bool) \<Rightarrow> int \<Rightarrow> 'a list \<Rightarrow> int" where
  "count_from predicate n [] = n"
| "count_from predicate n (x # c) =
     count_from predicate (if predicate x then n + 1 else n) c"

definition CountIf :: "'a list \<Rightarrow> ('a \<Rightarrow> bool) \<Rightarrow> int" where
  "CountIf c predicate = count_from predicate 0 c"

definition GetElementOr :: "'a list \<Rightarrow> int \<Rightarrow> 'a \<Rightarrow> 'a" where
  "GetElementOr v i default_value =
     (if i < 0 \<or> int (length v) \<le> i then default_value else v ! nat i)"

lemma count_from_length: "count_from p n xs = n + int (length (filter p xs))"
  by (induction p n xs rule: count_from.induct) auto

lemma CountIf_length: "CountIf xs p = int (length (filter p xs))"
  by (simp add: CountIf_def count_from_length)

section \<open>Shuffling\<close>

definition swap_at :: "'a list \<Rightarrow> nat \<Rightarrow> nat \<Rightarrow> 'a list" where
  "swap_at v i j = v[i := v ! j, j := v ! i]"

text \<open>The loop over \<open>range_width\<close>, from its value down.\<close>

fun shuffle_loop :: "nat \<Rightarrow> nat \<Rightarrow> Random \<Rightarrow> 'a list \<Rightarrow> ('a list \<times> Random) option" where
  "shuffle_loop first range_width random v =
     (if range_width < 2 then Some (v, random)
      else let last_in_range = first + range_width - 1 in
        (case Generate (of_nat range_width) random of
           None \<Rightarrow> None
         | Some (n, random') \<Rightarrow>
             let selected = first + unat n in
             shuffle_loop first (range_width - 1) random' (swap_at v selected last_in_range)))"

declare shuffle_loop.simps [simp del]

definition ShuffleRange :: "int \<Rightarrow> int \<Rightarrow> Random \<Rightarrow> 'a list \<Rightarrow> ('a list \<times> Random) option" where
  "ShuffleRange first past random v =
     (let size = int (length v) in
      if \<not> (0 \<le> first \<and> first \<le> size) then None
      else if \<not> (first \<le> past \<and> past \<le> size) then None
      else shuffle_loop (nat first) (nat (past - first)) random v)"

definition Shuffle :: "Random \<Rightarrow> 'a list \<Rightarrow> ('a list \<times> Random) option" where
  "Shuffle random v = ShuffleRange 0 (int (length v)) random v"

text \<open>\<open>w\<close> is \<open>v\<close> with the elements of the positions from \<open>b\<close> to \<open>e\<close> permuted.\<close>

definition permuted_range :: "nat \<Rightarrow> nat \<Rightarrow> 'a list \<Rightarrow> 'a list \<Rightarrow> bool" where
  "permuted_range b e v w \<longleftrightarrow>
     length w = length v \<and> take b w = take b v \<and> drop e w = drop e v \<and>
     mset (drop b (take e w)) = mset (drop b (take e v))"

lemma swap_permuted:
  assumes "b \<le> i" "i < e" "b \<le> j" "j < e" "e \<le> length v"
  shows "permuted_range b e v (swap_at v i j)"
proof -
  have "drop b (take e (swap_at v i j)) = swap_at (drop b (take e v)) (i - b) (j - b)"
    using assms by (intro nth_equalityI) (auto simp: swap_at_def nth_list_update)
  moreover have "mset (swap_at xs m n) = mset xs" if "m < length xs" "n < length xs" for xs :: "'a list" and m n
    using that by (simp add: swap_at_def mset_swap)
  ultimately have "mset (drop b (take e (swap_at v i j))) = mset (drop b (take e v))"
    using assms by simp
  moreover have "take b (swap_at v i j) = take b v" "drop e (swap_at v i j) = drop e v"
    "length (swap_at v i j) = length v"
    using assms by (simp_all add: swap_at_def)
  ultimately show ?thesis by (simp add: permuted_range_def)
qed

lemma permuted_trans:
  "\<lbrakk>permuted_range b e u v; permuted_range b e v w\<rbrakk> \<Longrightarrow> permuted_range b e u w"
  by (simp add: permuted_range_def)

lemma shuffle_loop_permutes:
  assumes "b + n \<le> e" "e \<le> length v" "n < 2 ^ 31"
  shows "\<exists>w r'. shuffle_loop b n r v = Some (w, r') \<and> permuted_range b e v w"
  using assms
proof (induction b n r v rule: shuffle_loop.induct)
  case (1 b n r v)
  show ?case
  proof (cases "n < 2")
    case True
    then show ?thesis by (subst shuffle_loop.simps) (simp add: permuted_range_def)
  next
    case False
    let ?k = "of_nat n :: 32 word"
    have k: "unat ?k = n" using 1(4) by (simp add: unat_of_nat)
    have "unat kMaxRange = 2 ^ 31" by code_simp
    then have "0 < ?k" "?k \<le> kMaxRange"
      using False 1(4) k by (auto simp: word_less_nat_alt word_le_nat_alt)
    from generate_defined [OF this, of r] obtain m r' where g: "Generate ?k r = Some (m, r')" "m < ?k"
      by blast
    have m: "unat m < n" using g(2) k by (simp add: word_less_nat_alt)
    let ?v = "swap_at v (b + unat m) (b + n - 1)"
    have p: "permuted_range b e v ?v"
      using 1(2,3) False m by (intro swap_permuted) auto
    have "b + (n - 1) \<le> e" "e \<le> length ?v" "n - 1 < 2 ^ 31"
      using 1 False by (auto simp: swap_at_def)
    from 1(1) [OF False refl g(1) refl refl this] p show ?thesis
      using False g(1) by (subst shuffle_loop.simps) (auto simp: Let_def intro: permuted_trans)
  qed
qed

lemma seed_flag_valid:
  "1 \<le> GetRandomSeedFromFlag time flag \<and> GetRandomSeedFromFlag time flag \<le> kMaxRandomSeed"
proof -
  have k: "uint (word_of_int kMaxRandomSeed :: 32 word) = 99999" by code_simp
  have b: "uint (w mod word_of_int kMaxRandomSeed :: 32 word) + 1 \<le> 99999" for w
    unfolding uint_mod_distrib k using pos_mod_bound [of 99999 "uint w"] by linarith
  show ?thesis
    unfolding GetRandomSeedFromFlag_def Let_def
    using b uint_ge_0 by (simp only: kMaxRandomSeed_def) simp
qed

lemma seed_flag_identity:
  "1 \<le> flag \<Longrightarrow> flag \<le> kMaxRandomSeed \<Longrightarrow> GetRandomSeedFromFlag time flag = flag"
proof -
  assume f: "1 \<le> flag" "flag \<le> kMaxRandomSeed"
  have k: "uint (word_of_int kMaxRandomSeed :: 32 word) = 99999" by code_simp
  have "uint (word_of_int flag - 1 :: 32 word) = flag - 1"
    using f by (simp add: uint_word_ariths uint_word_of_int kMaxRandomSeed_def)
  then show ?thesis
    using f unfolding GetRandomSeedFromFlag_def Let_def uint_mod_distrib k
    by (simp add: uint_mod_distrib k kMaxRandomSeed_def)
qed

lemma next_seed_cycles:
  "1 \<le> seed \<Longrightarrow> seed \<le> kMaxRandomSeed \<Longrightarrow>
     GetNextRandomSeed seed = Some (seed mod kMaxRandomSeed + 1)"
  by (auto simp: GetNextRandomSeed_def kMaxRandomSeed_def Let_def)

lemma ShuffleRange_ok:
  assumes "length v < 2 ^ 31" "0 \<le> b" "b \<le> e" "e \<le> int (length v)"
  shows "\<exists>w r'. ShuffleRange b e r v = Some (w, r') \<and> permuted_range (nat b) (nat e) v w"
proof -
  have "nat b + nat (e - b) \<le> nat e" "nat e \<le> length v" "nat (e - b) < 2 ^ 31"
    using assms by linarith+
  from shuffle_loop_permutes [OF this, of r] assms show ?thesis
    by (auto simp: ShuffleRange_def)
qed

text \<open>Shuffling a valid range of a vector (with fewer than \<open>2 ^ 31\<close> elements) passes every check of
  the generator and permutes exactly the elements of that range; the others keep their places. An
  invalid range aborts the program.\<close>

lemma shuffle_range_permutes:
  assumes "length v < 2 ^ 31"
  shows "if 0 \<le> b \<and> b \<le> e \<and> e \<le> int (length v)
    then (\<exists>w r'. ShuffleRange b e r v = Some (w, r') \<and> permuted_range (nat b) (nat e) v w)
    else ShuffleRange b e r v = None"
  using ShuffleRange_ok [OF assms] by (auto simp: ShuffleRange_def Let_def)

lemma shuffle_range_permutes_witness:
  "\<exists>w r'. ShuffleRange 1 4 (new_Random 7) [10, 20, 30, 40, 50::nat] = Some (w, r') \<and>
     permuted_range 1 4 [10, 20, 30, 40, 50] w"
  using shuffle_range_permutes [of "[10, 20, 30, 40, 50::nat]" 1 4 "new_Random 7"] by simp

end
