(* ===== verification/Gtest_String.thy ===== *)
theory Gtest_String
  imports Prelude
begin

unbundle bit_operations_syntax

text \<open>
  Strings in googletest (\<open>gtest.cc\<close> class \<open>String\<close>, \<open>gtest-message.h\<close>, the character helpers of
  \<open>gtest-port.h\<close>): character classes, comparisons of C strings with null pointers, case-insensitive
  suffixes, number formatting, messages, and the conversion of wide strings to UTF-8.  A \<open>const char*\<close>
  is a \<open>string option\<close> of the characters before the terminator.  \<open>wchar_t\<close> is a 32-bit word; the
  argument \<open>utf16\<close> stands for \<open>sizeof(wchar_t) == 2\<close>.
\<close>

section \<open>Characters in the C locale\<close>

definition code :: "char \<Rightarrow> nat" where
  "code c = of_char c"

definition IsDigit :: "char \<Rightarrow> bool" where
  "IsDigit ch \<longleftrightarrow> 48 \<le> code ch \<and> code ch \<le> 57"

definition IsLower :: "char \<Rightarrow> bool" where
  "IsLower ch \<longleftrightarrow> 97 \<le> code ch \<and> code ch \<le> 122"

definition IsUpper :: "char \<Rightarrow> bool" where
  "IsUpper ch \<longleftrightarrow> 65 \<le> code ch \<and> code ch \<le> 90"

definition IsAlpha :: "char \<Rightarrow> bool" where
  "IsAlpha ch \<longleftrightarrow> IsLower ch \<or> IsUpper ch"

definition IsAlNum :: "char \<Rightarrow> bool" where
  "IsAlNum ch \<longleftrightarrow> IsAlpha ch \<or> IsDigit ch"

definition IsSpace :: "char \<Rightarrow> bool" where
  "IsSpace ch \<longleftrightarrow> code ch = 32 \<or> 9 \<le> code ch \<and> code ch \<le> 13"

definition IsXDigit :: "char \<Rightarrow> bool" where
  "IsXDigit ch \<longleftrightarrow> IsDigit ch \<or> 97 \<le> code ch \<and> code ch \<le> 102 \<or> 65 \<le> code ch \<and> code ch \<le> 70"

definition IsXDigit_wide :: "32 word \<Rightarrow> bool" where
  "IsXDigit_wide ch \<longleftrightarrow>
     (let low_byte = ch AND 0xFF in ch = low_byte \<and> IsXDigit (char_of (unat low_byte)))"

definition ToLower :: "char \<Rightarrow> char" where
  "ToLower ch = (if IsUpper ch then char_of (code ch + 32) else ch)"

definition ToUpper :: "char \<Rightarrow> char" where
  "ToUpper ch = (if IsLower ch then char_of (code ch - 32) else ch)"

fun StripTrailingSpaces :: "string \<Rightarrow> string" where
  "StripTrailingSpaces str =
     (if str \<noteq> [] \<and> IsSpace (last str) then StripTrailingSpaces (butlast str) else str)"

declare StripTrailingSpaces.simps [simp del]

lemma strip_spaces:
  "\<exists>t. str = StripTrailingSpaces str @ t \<and> (\<forall>c \<in> set t. IsSpace c) \<and>
     (StripTrailingSpaces str \<noteq> [] \<longrightarrow> \<not> IsSpace (last (StripTrailingSpaces str)))"
proof (induction str rule: rev_induct)
  case Nil
  show ?case by (subst StripTrailingSpaces.simps) (simp add: StripTrailingSpaces.simps)
next
  case (snoc c str)
  show ?case
  proof (cases "IsSpace c")
    case True
    then have "StripTrailingSpaces (str @ [c]) = StripTrailingSpaces str"
      by (subst StripTrailingSpaces.simps) simp
    with snoc True show ?thesis by (metis append_assoc set_ConsD rotate1.simps(2) set_rotate1)
  next
    case False
    then have "StripTrailingSpaces (str @ [c]) = str @ [c]"
      by (subst StripTrailingSpaces.simps) simp
    with False show ?thesis by simp
  qed
qed

section \<open>Comparisons\<close>

definition CStringEquals :: "string option \<Rightarrow> string option \<Rightarrow> bool" where
  "CStringEquals lhs rhs =
     (case lhs of None \<Rightarrow> rhs = None
      | Some l \<Rightarrow> (case rhs of None \<Rightarrow> False | Some r \<Rightarrow> l = r))"

definition CaseInsensitiveCStringEquals :: "string option \<Rightarrow> string option \<Rightarrow> bool" where
  "CaseInsensitiveCStringEquals lhs rhs =
     (case lhs of None \<Rightarrow> rhs = None
      | Some l \<Rightarrow> (case rhs of None \<Rightarrow> False | Some r \<Rightarrow> map ToLower l = map ToLower r))"

definition EndsWithCaseInsensitive :: "string \<Rightarrow> string \<Rightarrow> bool" where
  "EndsWithCaseInsensitive str suffix =
     (let str_len = length str; suffix_len = length suffix in
      suffix_len \<le> str_len \<and>
      CaseInsensitiveCStringEquals (Some (drop (str_len - suffix_len) str)) (Some suffix))"

definition WideCStringEquals :: "32 word list option \<Rightarrow> 32 word list option \<Rightarrow> bool" where
  "WideCStringEquals lhs rhs =
     (case lhs of None \<Rightarrow> rhs = None
      | Some l \<Rightarrow> (case rhs of None \<Rightarrow> False | Some r \<Rightarrow> l = r))"

text \<open>The loop over two wide strings; the character behind the last one is the terminator.\<close>

fun wide_case_loop :: "(32 word \<Rightarrow> 32 word) \<Rightarrow> 32 word list \<Rightarrow> 32 word list \<Rightarrow> bool" where
  "wide_case_loop towlower (l # lhs) (r # rhs) =
     (let left = towlower l; right = towlower r in
      if left \<noteq> 0 \<and> left = right then wide_case_loop towlower lhs rhs else left = right)"
| "wide_case_loop towlower lhs rhs =
     ((case lhs of [] \<Rightarrow> towlower 0 | l # _ \<Rightarrow> towlower l) =
      (case rhs of [] \<Rightarrow> towlower 0 | r # _ \<Rightarrow> towlower r))"

definition CaseInsensitiveWideCStringEquals ::
    "(32 word \<Rightarrow> 32 word) \<Rightarrow> 32 word list option \<Rightarrow> 32 word list option \<Rightarrow> bool" where
  "CaseInsensitiveWideCStringEquals towlower lhs rhs =
     (case lhs of None \<Rightarrow> rhs = None
      | Some l \<Rightarrow> (case rhs of None \<Rightarrow> False | Some r \<Rightarrow> wide_case_loop towlower l r))"

lemma wide_case_loop_correct:
  assumes "\<And>c. towlower c = 0 \<longleftrightarrow> c = 0" and "0 \<notin> set lhs" "0 \<notin> set rhs"
  shows "wide_case_loop towlower lhs rhs \<longleftrightarrow> map towlower lhs = map towlower rhs"
  using assms(2,3)
proof (induction lhs arbitrary: rhs)
  case Nil
  have "towlower 0 = 0" using assms(1) by blast
  moreover have "towlower r \<noteq> 0" if "r \<in> set rhs" for r
    using that Nil(2) assms(1) by metis
  ultimately show ?case
    by (cases rhs) auto
next
  case (Cons l lhs)
  have l: "towlower l \<noteq> 0"
    using Cons.prems(1) assms(1) by (metis list.set_intros(1))
  have z: "towlower 0 = 0" using assms(1) by blast
  show ?case
  proof (cases rhs)
    case Nil
    with l z show ?thesis by simp
  next
    case (Cons r rhs')
    with Cons.IH [of rhs'] Cons.prems l show ?thesis by (simp add: Let_def)
  qed
qed

lemma ends_with_case_insensitive:
  "EndsWithCaseInsensitive str suffix \<longleftrightarrow>
     (\<exists>a b. str = a @ b \<and> map ToLower b = map ToLower suffix)"
proof
  assume "EndsWithCaseInsensitive str suffix"
  then show "\<exists>a b. str = a @ b \<and> map ToLower b = map ToLower suffix"
    by (intro exI [of _ "take (length str - length suffix) str"]
        exI [of _ "drop (length str - length suffix) str"])
      (simp add: EndsWithCaseInsensitive_def CaseInsensitiveCStringEquals_def Let_def)
next
  assume "\<exists>a b. str = a @ b \<and> map ToLower b = map ToLower suffix"
  then obtain a b where "str = a @ b" "map ToLower b = map ToLower suffix" by blast
  moreover from this(2) have "length b = length suffix" by (metis length_map)
  ultimately show "EndsWithCaseInsensitive str suffix"
    by (simp add: EndsWithCaseInsensitive_def CaseInsensitiveCStringEquals_def Let_def)
qed

section \<open>Numbers\<close>

definition hex_digit :: "nat \<Rightarrow> char" where
  "hex_digit d = (if d < 10 then char_of (48 + d) else char_of (55 + d))"

fun hex_string :: "nat \<Rightarrow> string" where
  "hex_string n =
     (if n < 16 then [hex_digit n] else hex_string (n div 16) @ [hex_digit (n mod 16)])"

declare hex_string.simps [simp del]

definition int_string :: "int \<Rightarrow> string" where
  "int_string i = (if i < 0 then ''-'' else []) @ dec_string (nat \<bar>i\<bar>)"

text \<open>The stream manipulators \<open>setfill('0')\<close> and \<open>setw(2)\<close>.\<close>

definition zero_fill2 :: "string \<Rightarrow> string" where
  "zero_fill2 s = replicate (2 - length s) CHR ''0'' @ s"

definition FormatIntWidth2 :: "c_int \<Rightarrow> string" where
  "FormatIntWidth2 value = zero_fill2 (int_string (sint value))"

definition FormatHexInt :: "c_int \<Rightarrow> string" where
  "FormatHexInt value = hex_string (unat value)"

definition FormatByte :: "8 word \<Rightarrow> string" where
  "FormatByte value = zero_fill2 (hex_string (unat value))"

section \<open>Messages\<close>

definition StringStreamToString :: "string \<Rightarrow> string" where
  "StringStreamToString str =
     concat (map (\<lambda>ch. if ch = CHR 0x00 then [CHR 0x5C, CHR ''0''] else [ch]) str)"

text \<open>\<open>s.c_str()\<close> read as a C string ends at the first NUL.\<close>

definition c_text :: "string \<Rightarrow> string" where
  "c_text s = takeWhile (\<lambda>c. c \<noteq> CHR 0x00) s"

lemma c_text_no_nul: "CHR 0x00 \<notin> set s \<Longrightarrow> c_text s = s"
  by (simp add: c_text_def takeWhile_eq_all_conv) metis

text \<open>A \<open>Message\<close> is the text streamed so far.\<close>

record Message =
  ss :: string

definition new_Message :: Message where
  "new_Message = \<lparr> ss = [] \<rparr>"

definition GetString :: "Message \<Rightarrow> string" where
  "GetString m = StringStreamToString (ss m)"

definition Message_copy :: "Message \<Rightarrow> Message" where
  "Message_copy m = \<lparr> ss = GetString m \<rparr>"

definition Message_of :: "string \<Rightarrow> Message" where
  "Message_of str = \<lparr> ss = str \<rparr>"

definition stream_text :: "Message \<Rightarrow> string \<Rightarrow> Message" where
  "stream_text m val = m\<lparr> ss := ss m @ val \<rparr>"

definition stream_pointer :: "Message \<Rightarrow> string option \<Rightarrow> Message" where
  "stream_pointer m pointer =
     (case pointer of None \<Rightarrow> stream_text m ''(null)'' | Some s \<Rightarrow> stream_text m s)"

definition stream_bool :: "Message \<Rightarrow> bool \<Rightarrow> Message" where
  "stream_bool m b = stream_text m (if b then ''true'' else ''false'')"

definition StreamableToString :: "string \<Rightarrow> string" where
  "StreamableToString streamable = GetString (stream_text new_Message streamable)"

definition AppendUserMessage :: "string \<Rightarrow> Message \<Rightarrow> string" where
  "AppendUserMessage gtest_msg user_msg =
     (let user_msg_string = GetString user_msg in
      if user_msg_string = [] then gtest_msg else gtest_msg @ [CHR 0x0A] @ user_msg_string)"

lemma StringStreamToString_id: "CHR 0x00 \<notin> set s \<Longrightarrow> StringStreamToString s = s"
  by (induction s) (auto simp: StringStreamToString_def)

lemma StringStreamToString_no_nul: "CHR 0x00 \<notin> set (StringStreamToString s)"
  by (auto simp: StringStreamToString_def split: if_splits)

lemma StreamableToString_int: "StreamableToString (int_string i) = int_string i"
proof -
  have "\<not> is_digit CHR 0x00" by (simp add: is_digit_def)
  then have "CHR 0x00 \<notin> set (int_string i)"
    using dec_string_digits [of "nat \<bar>i\<bar>"] by (auto simp: list_all_iff int_string_def)
  then show ?thesis
    by (simp add: StreamableToString_def GetString_def stream_text_def new_Message_def StringStreamToString_id)
qed

lemma GetString_copy [simp]: "GetString (Message_copy m) = GetString m"
  by (simp add: GetString_def Message_copy_def StringStreamToString_id StringStreamToString_no_nul)

section \<open>Splitting\<close>

text \<open>\<open>str.find(delimiter, pos)\<close> splits what is left at the first delimiter.\<close>

function SplitString :: "string \<Rightarrow> char \<Rightarrow> string list" where
  "SplitString str delimiter =
     (let piece = takeWhile (\<lambda>c. c \<noteq> delimiter) str in
      if delimiter \<in> set str
      then piece # SplitString (drop (length piece + 1) str) delimiter
      else [str])"
  by pat_completeness auto

termination
  by (relation "measure (length \<circ> fst)") (auto dest: length_pos_if_in_set)

declare SplitString.simps [simp del]

fun join_pieces :: "char \<Rightarrow> string list \<Rightarrow> string" where
  "join_pieces d [] = []"
| "join_pieces d [p] = p"
| "join_pieces d (p # ps) = p @ [d] @ join_pieces d ps"

lemma split_first:
  "delimiter \<in> set str \<Longrightarrow>
     str = takeWhile (\<lambda>c. c \<noteq> delimiter) str @ [delimiter] @
       drop (length (takeWhile (\<lambda>c. c \<noteq> delimiter) str) + 1) str"
  by (induction str) auto

lemma SplitString_nonempty: "SplitString str d \<noteq> []"
  by (subst SplitString.simps) (simp add: Let_def)

lemma split_join:
  "join_pieces d (SplitString str d) = str \<and> (\<forall>p \<in> set (SplitString str d). d \<notin> set p)"
proof (induction str d rule: SplitString.induct)
  case (1 str d)
  show ?case
  proof (cases "d \<in> set str")
    case True
    let ?p = "takeWhile (\<lambda>c. c \<noteq> d) str"
    let ?r = "drop (length ?p + 1) str"
    have s: "SplitString str d = ?p # SplitString ?r d"
      using True by (subst SplitString.simps) (simp add: Let_def)
    have "join_pieces d (?p # SplitString ?r d) = ?p @ [d] @ join_pieces d (SplitString ?r d)"
      using SplitString_nonempty [of ?r d] by (cases "SplitString ?r d") auto
    with 1 [OF refl True] s split_first [OF True] show ?thesis
      by (auto dest: set_takeWhileD)
  next
    case False
    then show ?thesis by (subst (1 2) SplitString.simps) (simp add: Let_def)
  qed
qed

section \<open>Wide strings to UTF-8\<close>

definition kMaxCodePoint1 :: "32 word" where "kMaxCodePoint1 = push_bit 7 1 - 1"
definition kMaxCodePoint2 :: "32 word" where "kMaxCodePoint2 = push_bit (5 + 6) 1 - 1"
definition kMaxCodePoint3 :: "32 word" where "kMaxCodePoint3 = push_bit (4 + 2 * 6) 1 - 1"
definition kMaxCodePoint4 :: "32 word" where "kMaxCodePoint4 = push_bit (3 + 3 * 6) 1 - 1"

text \<open>The low bits, and what is left in the pointed-to variable.\<close>

definition ChopLowBits :: "32 word \<Rightarrow> nat \<Rightarrow> 32 word \<times> 32 word" where
  "ChopLowBits bits n = (bits AND (push_bit n 1 - 1), drop_bit n bits)"

definition to_char :: "32 word \<Rightarrow> char" where
  "to_char w = char_of (unat w)"

definition CodePointToUtf8 :: "32 word \<Rightarrow> string" where
  "CodePointToUtf8 code_point =
     (if kMaxCodePoint4 < code_point then ''(Invalid Unicode 0x'' @ FormatHexInt code_point @ '')''
      else takeWhile (\<lambda>c. c \<noteq> CHR 0x00)
       (if code_point \<le> kMaxCodePoint1 then [to_char code_point]
        else if code_point \<le> kMaxCodePoint2 then
          let (b1, c) = ChopLowBits code_point 6 in
          [to_char (0xC0 OR c), to_char (0x80 OR b1)]
        else if code_point \<le> kMaxCodePoint3 then
          let (b2, c) = ChopLowBits code_point 6; (b1, c) = ChopLowBits c 6 in
          [to_char (0xE0 OR c), to_char (0x80 OR b1), to_char (0x80 OR b2)]
        else
          let (b3, c) = ChopLowBits code_point 6; (b2, c) = ChopLowBits c 6;
              (b1, c) = ChopLowBits c 6 in
          [to_char (0xF0 OR c), to_char (0x80 OR b1), to_char (0x80 OR b2), to_char (0x80 OR b3)]))"

definition IsUtf16SurrogatePair :: "bool \<Rightarrow> 32 word \<Rightarrow> 32 word \<Rightarrow> bool" where
  "IsUtf16SurrogatePair utf16 first second \<longleftrightarrow>
     utf16 \<and> first AND 0xFC00 = 0xD800 \<and> second AND 0xFC00 = 0xDC00"

definition CreateCodePointFromUtf16SurrogatePair :: "bool \<Rightarrow> 32 word \<Rightarrow> 32 word \<Rightarrow> 32 word" where
  "CreateCodePointFromUtf16SurrogatePair utf16 first second =
     (let mask = push_bit 10 1 - 1 in
      if utf16 then (push_bit 10 (first AND mask) OR (second AND mask)) + 0x10000 else first)"

fun wide_loop :: "bool \<Rightarrow> 32 word list \<Rightarrow> string" where
  "wide_loop utf16 [] = []"
| "wide_loop utf16 [w] = (if w = 0 then [] else CodePointToUtf8 w)"
| "wide_loop utf16 (w # v # ws) =
     (if w = 0 then []
      else if IsUtf16SurrogatePair utf16 w v then
        CodePointToUtf8 (CreateCodePointFromUtf16SurrogatePair utf16 w v) @ wide_loop utf16 ws
      else CodePointToUtf8 w @ wide_loop utf16 (v # ws))"

definition WideStringToUtf8 :: "bool \<Rightarrow> 32 word list \<Rightarrow> int \<Rightarrow> string" where
  "WideStringToUtf8 utf16 str num_chars =
     (let n = (if num_chars = -1 then length (takeWhile (\<lambda>w. w \<noteq> 0) str) else nat num_chars) in
      StringStreamToString (wide_loop utf16 (take n str)))"

definition ShowWideCString :: "bool \<Rightarrow> 32 word list option \<Rightarrow> string" where
  "ShowWideCString utf16 wide_c_str =
     (case wide_c_str of None \<Rightarrow> ''(null)'' | Some w \<Rightarrow> WideStringToUtf8 utf16 w (-1))"

function StreamWideCharsToMessage :: "bool \<Rightarrow> 32 word list \<Rightarrow> Message \<Rightarrow> Message" where
  "StreamWideCharsToMessage utf16 wstr msg =
     (case wstr of [] \<Rightarrow> msg
      | w # ws \<Rightarrow>
          if w \<noteq> 0 then
            StreamWideCharsToMessage utf16 (dropWhile (\<lambda>w. w \<noteq> 0) wstr)
              (stream_text msg (WideStringToUtf8 utf16 wstr (int (length wstr))))
          else StreamWideCharsToMessage utf16 ws (stream_text msg [CHR 0x00]))"
  by pat_completeness auto

termination
  by (relation "measure (\<lambda>(u, w, m). length w)")
    (auto intro: le_imp_less_Suc length_dropWhile_le)

subsection \<open>Reference: decoding\<close>

definition tail_bits :: "char \<Rightarrow> nat" where
  "tail_bits c = code c - 0x80"

fun utf8_decode :: "string \<Rightarrow> nat list" where
  "utf8_decode [] = []"
| "utf8_decode (a # s) =
     (if code a < 0x80 then code a # utf8_decode s
      else if code a < 0xE0 then
        (case s of b # s' \<Rightarrow> ((code a - 0xC0) * 64 + tail_bits b) # utf8_decode s' | _ \<Rightarrow> [])
      else if code a < 0xF0 then
        (case s of b # c # s' \<Rightarrow>
           ((code a - 0xE0) * 4096 + tail_bits b * 64 + tail_bits c) # utf8_decode s' | _ \<Rightarrow> [])
      else
        (case s of b # c # d # s' \<Rightarrow>
           ((code a - 0xF0) * 262144 + tail_bits b * 4096 + tail_bits c * 64 + tail_bits d) #
             utf8_decode s' | _ \<Rightarrow> []))"

text \<open>The units of a Unicode scalar value, and the scalar values.\<close>

definition wide_units :: "bool \<Rightarrow> nat \<Rightarrow> 32 word list" where
  "wide_units utf16 c =
     (if utf16 \<and> 0x10000 \<le> c
      then [of_nat (0xD800 + (c - 0x10000) div 1024), of_nat (0xDC00 + (c - 0x10000) mod 1024)]
      else [of_nat c])"

definition scalar_value :: "nat \<Rightarrow> bool" where
  "scalar_value c \<longleftrightarrow> 0 < c \<and> c \<le> 0x10FFFF \<and> \<not> (0xD800 \<le> c \<and> c \<le> 0xDFFF)"

lemma or_prefix:
  "x < 64 \<Longrightarrow> (128 OR x) = 128 + (x::nat)"
  "x < 32 \<Longrightarrow> (192 OR x) = 192 + (x::nat)"
  "x < 16 \<Longrightarrow> (224 OR x) = 224 + (x::nat)"
  "x < 8 \<Longrightarrow> (240 OR x) = 240 + (x::nat)"
proof -
  have "list_all (\<lambda>x. (128 OR x) = 128 + x) [0..<64::nat]"
    "list_all (\<lambda>x. (192 OR x) = 192 + x) [0..<32::nat]"
    "list_all (\<lambda>x. (224 OR x) = 224 + x) [0..<16::nat]"
    "list_all (\<lambda>x. (240 OR x) = 240 + x) [0..<8::nat]"
    by code_simp+
  then show "x < 64 \<Longrightarrow> (128 OR x) = 128 + (x::nat)"
    "x < 32 \<Longrightarrow> (192 OR x) = 192 + (x::nat)"
    "x < 16 \<Longrightarrow> (224 OR x) = 224 + (x::nat)"
    "x < 8 \<Longrightarrow> (240 OR x) = 240 + (x::nat)"
    by (auto simp: list_all_iff)
qed

lemma code_to_char: "unat w < 256 \<Longrightarrow> code (to_char w) = unat w"
  by (simp add: code_def to_char_def)

lemma unat_low: "unat (w AND (push_bit 6 1 - 1) :: 32 word) = unat w mod 64"
proof -
  have "w AND (push_bit 6 1 - 1) = take_bit 6 w"
    by (simp add: take_bit_eq_mask mask_eq_exp_minus_1)
  then show ?thesis
    by (simp only: unsigned_take_bit_eq take_bit_eq_mod) (simp add: unat_mod)
qed

lemma unat_drop6: "unat (drop_bit 6 w :: 32 word) = unat w div 64"
  by (simp add: drop_bit_eq_div unat_div)

lemma code_tail: "unat x < 64 \<Longrightarrow> code (to_char (0x80 OR x)) = 128 + unat x"
  by (simp add: code_to_char unsigned_or_eq or_prefix)

lemma code_head2: "unat x < 32 \<Longrightarrow> code (to_char (0xC0 OR x)) = 192 + unat x"
  by (simp add: code_to_char unsigned_or_eq or_prefix)

lemma code_head3: "unat x < 16 \<Longrightarrow> code (to_char (0xE0 OR x)) = 224 + unat x"
  by (simp add: code_to_char unsigned_or_eq or_prefix)

lemma code_head4: "unat x < 8 \<Longrightarrow> code (to_char (0xF0 OR x)) = 240 + unat x"
  by (simp add: code_to_char unsigned_or_eq or_prefix)

lemma max_code_points:
  "c \<le> kMaxCodePoint1 \<longleftrightarrow> unat c < 0x80" "c \<le> kMaxCodePoint2 \<longleftrightarrow> unat c < 0x800"
  "c \<le> kMaxCodePoint3 \<longleftrightarrow> unat c < 0x10000" "kMaxCodePoint4 < c \<longleftrightarrow> 0x200000 \<le> unat c"
proof -
  have "unat kMaxCodePoint1 = 0x7F" "unat kMaxCodePoint2 = 0x7FF" "unat kMaxCodePoint3 = 0xFFFF"
    "unat kMaxCodePoint4 = 0x1FFFFF"
    by code_simp+
  then show "c \<le> kMaxCodePoint1 \<longleftrightarrow> unat c < 0x80" "c \<le> kMaxCodePoint2 \<longleftrightarrow> unat c < 0x800"
    "c \<le> kMaxCodePoint3 \<longleftrightarrow> unat c < 0x10000" "kMaxCodePoint4 < c \<longleftrightarrow> 0x200000 \<le> unat c"
    by (auto simp: word_le_nat_alt word_less_nat_alt)
qed

lemma base64_digits:
  "n div 64 div 64 * 4096 + n div 64 mod 64 * 64 + n mod 64 = (n::nat)"
  "n div 64 div 64 div 64 * 262144 + n div 64 div 64 mod 64 * 4096 + n div 64 mod 64 * 64 + n mod 64 = n"
proof -
  have d: "m = m div 64 * 64 + m mod 64" for m :: nat by simp
  from d [of n] d [of "n div 64"]
  show "n div 64 div 64 * 4096 + n div 64 mod 64 * 64 + n mod 64 = n" by linarith
  with d [of "n div 64 div 64"]
  show "n div 64 div 64 div 64 * 262144 + n div 64 div 64 mod 64 * 4096 + n div 64 mod 64 * 64 +
    n mod 64 = n" by linarith
qed

lemma char_not_nul: "code c \<noteq> 0 \<Longrightarrow> c \<noteq> CHR 0x00"
  by (auto simp: code_def)

lemma takeWhile_all: "\<forall>c \<in> set s. c \<noteq> CHR 0x00 \<Longrightarrow> takeWhile (\<lambda>c. c \<noteq> CHR 0x00) s = s"
  by (simp add: takeWhile_eq_all_conv)

lemma utf8_decode_code_point:
  assumes "0 < unat w" "unat w < 0x200000"
  shows "utf8_decode (CodePointToUtf8 w @ s) = unat w # utf8_decode s \<and>
    CHR 0x00 \<notin> set (CodePointToUtf8 w)"
proof -
  let ?u = "unat w"
  consider "?u < 0x80" | "0x80 \<le> ?u" "?u < 0x800" | "0x800 \<le> ?u" "?u < 0x10000"
    | "0x10000 \<le> ?u" by linarith
  then show ?thesis
  proof cases
    case 1
    have c: "code (to_char w) = ?u" using 1 by (simp add: code_to_char)
    then have "to_char w \<noteq> CHR 0x00" using assms by (intro char_not_nul) simp
    with 1 c show ?thesis by (simp add: CodePointToUtf8_def max_code_points)
  next
    case 2
    define b where "b = w AND (push_bit 6 1 - 1)"
    define a where "a = drop_bit 6 w"
    have n: "unat b = ?u mod 64" "unat a = ?u div 64"
      unfolding a_def b_def by (rule unat_low, rule unat_drop6)
    have c: "code (to_char (0xC0 OR a)) = 192 + unat a" "code (to_char (0x80 OR b)) = 128 + unat b"
      by (rule code_head2, use n 2 in linarith, rule code_tail, use n in simp)
    then have nz: "to_char (0xC0 OR a) \<noteq> CHR 0x00" "to_char (0x80 OR b) \<noteq> CHR 0x00"
      by (auto intro!: char_not_nul)
    have bytes: "CodePointToUtf8 w = [to_char (0xC0 OR a), to_char (0x80 OR b)]"
      using 2 nz by (simp add: CodePointToUtf8_def max_code_points ChopLowBits_def a_def b_def)
    have "?u div 64 < 32" using 2 by linarith
    then show ?thesis
      using 2 nz c n unfolding bytes by (simp add: tail_bits_def)
  next
    case 3
    define c2 where "c2 = w AND (push_bit 6 1 - 1)"
    define d where "d = drop_bit 6 w"
    define b where "b = d AND (push_bit 6 1 - 1)"
    define a where "a = drop_bit 6 d"
    have n: "unat c2 = ?u mod 64" "unat b = ?u div 64 mod 64" "unat a = ?u div 64 div 64"
      unfolding a_def b_def c2_def d_def by (simp_all only: unat_low unat_drop6)
    have c: "code (to_char (0xE0 OR a)) = 224 + unat a" "code (to_char (0x80 OR b)) = 128 + unat b"
      "code (to_char (0x80 OR c2)) = 128 + unat c2"
      by (rule code_head3, use n 3 in linarith, rule code_tail, use n in simp,
          rule code_tail, use n in simp)
    then have nz: "to_char (0xE0 OR a) \<noteq> CHR 0x00" "to_char (0x80 OR b) \<noteq> CHR 0x00"
      "to_char (0x80 OR c2) \<noteq> CHR 0x00"
      by (auto intro!: char_not_nul)
    have bytes: "CodePointToUtf8 w = [to_char (0xE0 OR a), to_char (0x80 OR b), to_char (0x80 OR c2)]"
      using 3 nz by (simp add: CodePointToUtf8_def max_code_points ChopLowBits_def a_def b_def
          c2_def d_def)
    have "unat a * 4096 + unat b * 64 + unat c2 = ?u"
      unfolding n by (rule base64_digits)
    moreover have "?u div 64 div 64 < 16" using 3 by linarith
    ultimately show ?thesis
      using nz c n 3 unfolding bytes by (simp add: tail_bits_def)
  next
    case 4
    define e where "e = w AND (push_bit 6 1 - 1)"
    define d where "d = drop_bit 6 w"
    define c2 where "c2 = d AND (push_bit 6 1 - 1)"
    define f where "f = drop_bit 6 d"
    define b where "b = f AND (push_bit 6 1 - 1)"
    define a where "a = drop_bit 6 f"
    have n: "unat e = ?u mod 64" "unat c2 = ?u div 64 mod 64" "unat b = ?u div 64 div 64 mod 64"
      "unat a = ?u div 64 div 64 div 64"
      unfolding a_def b_def c2_def d_def e_def f_def by (simp_all only: unat_low unat_drop6)
    have c: "code (to_char (0xF0 OR a)) = 240 + unat a" "code (to_char (0x80 OR b)) = 128 + unat b"
      "code (to_char (0x80 OR c2)) = 128 + unat c2" "code (to_char (0x80 OR e)) = 128 + unat e"
      by (rule code_head4, use n assms in linarith, rule code_tail, use n in simp,
          rule code_tail, use n in simp, rule code_tail, use n in simp)
    then have nz: "to_char (0xF0 OR a) \<noteq> CHR 0x00" "to_char (0x80 OR b) \<noteq> CHR 0x00"
      "to_char (0x80 OR c2) \<noteq> CHR 0x00" "to_char (0x80 OR e) \<noteq> CHR 0x00"
      by (auto intro!: char_not_nul)
    have bytes: "CodePointToUtf8 w = [to_char (0xF0 OR a), to_char (0x80 OR b), to_char (0x80 OR c2),
        to_char (0x80 OR e)]"
      using 4 assms nz by (simp add: CodePointToUtf8_def max_code_points ChopLowBits_def a_def b_def
          c2_def d_def e_def f_def)
    have "unat a * 262144 + unat b * 4096 + unat c2 * 64 + unat e = ?u"
      unfolding n by (rule base64_digits)
    then show ?thesis
      using nz c n unfolding bytes by (simp add: tail_bits_def)
  qed
qed

lemma unat_surrogate_tag:
  assumes "unat w < 65536"
  shows "unat (w AND 0xFC00 :: 32 word) = unat w div 1024 * 1024"
proof -
  have m: "(0xFC00 :: 32 word) = push_bit 10 (mask 6)" by code_simp
  have "w AND 0xFC00 = push_bit 10 (take_bit 6 (drop_bit 10 w))"
    unfolding m by (rule bit_word_eqI) (auto simp: bit_simps)
  moreover have "unat (take_bit 6 (drop_bit 10 w)) = unat w div 1024 mod 64"
    by (simp only: unsigned_take_bit_eq take_bit_eq_mod drop_bit_eq_div) (simp add: unat_mod unat_div)
  moreover have "unat (push_bit 10 v :: 32 word) = (unat v * 1024) mod 2 ^ 32" for v
    by (simp only: unsigned_push_bit_eq push_bit_eq_mult take_bit_eq_mod)
      (simp add: unat_word_ariths)
  ultimately have "unat (w AND 0xFC00) = (unat w div 1024 mod 64 * 1024) mod 2 ^ 32"
    by simp
  with assms show ?thesis
    by (simp add: less_mult_imp_div_less)
qed

lemma not_surrogate_pair:
  assumes "scalar_value c" "c < 0x10000"
  shows "\<not> IsUtf16SurrogatePair u (of_nat c) v"
proof
  assume "IsUtf16SurrogatePair u (of_nat c) v"
  then have "unat ((of_nat c :: 32 word) AND 0xFC00) = 0xD800"
    by (simp add: IsUtf16SurrogatePair_def)
  moreover have "unat (of_nat c :: 32 word) = c"
    using assms(2) by (simp add: unat_of_nat)
  ultimately have "c div 1024 * 1024 = 0xD800"
    using assms(2) unat_surrogate_tag [of "of_nat c"] by simp
  then have "0xD800 \<le> c \<and> c \<le> 0xDFFF"
    by linarith
  with assms(1) show False by (simp add: scalar_value_def)
qed

lemma unat_low10: "unat (w AND (push_bit 10 1 - 1) :: 32 word) = unat w mod 1024"
proof -
  have "w AND (push_bit 10 1 - 1) = take_bit 10 w"
    by (simp add: take_bit_eq_mask mask_eq_exp_minus_1)
  then show ?thesis
    by (simp only: unsigned_take_bit_eq take_bit_eq_mod) (simp add: unat_mod)
qed

lemma or_low10: "x < 1024 \<Longrightarrow> (y * 1024 OR x) = y * 1024 + (x::nat)"
proof -
  assume x: "x < 1024"
  have t: "take_bit 10 x = x" using x by (simp add: take_bit_eq_mod)
  have "push_bit 10 y AND take_bit 10 x = 0"
    by (rule bit_eqI) (auto simp: bit_simps)
  then have "push_bit 10 y + x = (push_bit 10 y OR x)"
    unfolding t by (rule disjunctive_add_eq_or)
  then show ?thesis
    by (simp add: push_bit_eq_mult)
qed

lemma surrogate_pair:
  assumes "scalar_value c" "0x10000 \<le> c"
  defines "a \<equiv> of_nat (0xD800 + (c - 0x10000) div 1024) :: 32 word"
    and "b \<equiv> of_nat (0xDC00 + (c - 0x10000) mod 1024) :: 32 word"
  shows "a \<noteq> 0 \<and> IsUtf16SurrogatePair True a b \<and>
    unat (CreateCodePointFromUtf16SurrogatePair True a b) = c"
proof -
  have q: "(c - 0x10000) div 1024 < 1024"
    using assms(1) by (auto simp: scalar_value_def)
  have ua: "unat a = 0xD800 + (c - 0x10000) div 1024"
    unfolding a_def using q by (subst unat_of_nat) simp
  have ub: "unat b = 0xDC00 + (c - 0x10000) mod 1024"
    unfolding b_def by (subst unat_of_nat) (simp add: order_less_le_trans [OF mod_less_divisor])
  have da: "unat a div 1024 * 1024 = 0xD800" unfolding ua using q by simp
  have "unat b div 1024 * 1024 = 0xDC00" unfolding ub by simp
  moreover have "unat b < 65536" unfolding ub
    by (rule order_less_le_trans [of _ "0xDC00 + 1024"]) simp_all
  ultimately have "unat (b AND 0xFC00) = unat (0xDC00 :: 32 word)"
    using unat_surrogate_tag [of b] by simp
  then have tb: "b AND 0xFC00 = 0xDC00" by (simp only: word_unat_eq_iff)
  have "unat (a AND 0xFC00) = unat (0xD800 :: 32 word)"
    using unat_surrogate_tag [of a] da ua q by simp
  then have ta: "a AND 0xFC00 = 0xD800" by (simp only: word_unat_eq_iff)
  let ?h = "push_bit 10 (a AND (push_bit 10 1 - 1)) OR (b AND (push_bit 10 1 - 1))"
  have s: "(0xD800 + y) mod 1024 = y mod 1024" "(0xDC00 + y) mod 1024 = y mod 1024" for y :: nat
    using mod_mult_self3 [of 54 1024 y] mod_mult_self3 [of 55 1024 y] by simp_all
  have la: "unat (a AND (push_bit 10 1 - 1)) = (c - 0x10000) div 1024"
    unfolding unat_low10 ua s using q by simp
  have lb: "unat (b AND (push_bit 10 1 - 1)) = (c - 0x10000) mod 1024"
    unfolding unat_low10 ub s by simp
  have "unat ?h = ((c - 0x10000) div 1024 * 1024 OR (c - 0x10000) mod 1024)"
    unfolding unsigned_or_eq unsigned_push_bit_eq la lb using q
    by (simp add: push_bit_eq_mult take_bit_eq_mod)
  also have "\<dots> = c - 0x10000"
    by (subst or_low10) (simp_all add: div_mult_mod_eq)
  finally have "unat (?h + 0x10000) = c"
    using assms(1,2) by (subst unat_add_lem [THEN iffD1]) (auto simp: scalar_value_def)
  then have "unat (CreateCodePointFromUtf16SurrogatePair True a b) = c"
    by (simp only: CreateCodePointFromUtf16SurrogatePair_def Let_def if_True)
  moreover have "a \<noteq> 0" using ua by auto
  ultimately show ?thesis
    using ta tb by (simp add: IsUtf16SurrogatePair_def)
qed

lemma wide_loop_single:
  "\<lbrakk>w \<noteq> 0; \<And>v. \<not> IsUtf16SurrogatePair utf16 w v\<rbrakk> \<Longrightarrow>
     wide_loop utf16 (w # ws) = CodePointToUtf8 w @ wide_loop utf16 ws"
  by (cases ws) simp_all

lemma wide_loop_units:
  assumes "scalar_value c"
  shows "\<exists>w. unat w = c \<and> (\<forall>u \<in> set (wide_units utf16 c). u \<noteq> 0) \<and>
    wide_loop utf16 (wide_units utf16 c @ ws) = CodePointToUtf8 w @ wide_loop utf16 ws"
proof (cases "utf16 \<and> 0x10000 \<le> c")
  case True
  let ?a = "of_nat (0xD800 + (c - 0x10000) div 1024) :: 32 word"
  let ?b = "of_nat (0xDC00 + (c - 0x10000) mod 1024) :: 32 word"
  from True have p: "?a \<noteq> 0 \<and> IsUtf16SurrogatePair True ?a ?b \<and>
    unat (CreateCodePointFromUtf16SurrogatePair True ?a ?b) = c"
    by (intro surrogate_pair) (use assms in auto)
  moreover from p have "?b \<noteq> 0"
    by (auto simp: IsUtf16SurrogatePair_def simp del: of_nat_add)
  ultimately show ?thesis
    using True by (intro exI [of _ "CreateCodePointFromUtf16SurrogatePair True ?a ?b"])
      (simp add: wide_units_def del: of_nat_add of_nat_numeral)
next
  case False
  have u: "unat (of_nat c :: 32 word) = c"
    using assms by (simp add: unat_of_nat scalar_value_def)
  then have nz: "(of_nat c :: 32 word) \<noteq> 0"
    using assms by (auto simp: scalar_value_def)
  have "\<not> IsUtf16SurrogatePair utf16 (of_nat c) v" for v
    using False assms not_surrogate_pair [of c] by (cases utf16) (auto simp: IsUtf16SurrogatePair_def)
  with False u nz wide_loop_single [OF nz this] show ?thesis
    by (auto simp: wide_units_def)
qed

lemma wide_loop_decodes:
  assumes "\<forall>c \<in> set cps. scalar_value c"
  shows "utf8_decode (wide_loop utf16 (concat (map (wide_units utf16) cps))) = cps \<and>
    CHR 0x00 \<notin> set (wide_loop utf16 (concat (map (wide_units utf16) cps))) \<and>
    (\<forall>u \<in> set (concat (map (wide_units utf16) cps)). u \<noteq> 0)"
  using assms
proof (induction cps)
  case (Cons c cps)
  then have sc: "scalar_value c" by simp
  from wide_loop_units [OF sc] obtain w where w: "unat w = c"
    "\<forall>u \<in> set (wide_units utf16 c). u \<noteq> 0"
    "wide_loop utf16 (wide_units utf16 c @ concat (map (wide_units utf16) cps)) =
      CodePointToUtf8 w @ wide_loop utf16 (concat (map (wide_units utf16) cps))" by blast
  have "0 < unat w" "unat w < 0x200000"
    using sc w(1) by (auto simp: scalar_value_def)
  note d = utf8_decode_code_point [OF this]
  from Cons have IH: "utf8_decode (wide_loop utf16 (concat (map (wide_units utf16) cps))) = cps"
    "CHR 0x00 \<notin> set (wide_loop utf16 (concat (map (wide_units utf16) cps)))"
    "\<forall>u \<in> set (concat (map (wide_units utf16) cps)). u \<noteq> 0"
    by simp_all
  show ?case
    unfolding list.map concat.simps w(3) using d IH w(1,2) by auto
qed simp

text \<open>A wide string, whether its units are UTF-16 or UTF-32, becomes the UTF-8 text of exactly
  its Unicode scalar values: decoding the text gives them back.\<close>

lemma wide_string_utf8_round_trip:
  assumes "\<forall>c \<in> set cps. scalar_value c"
  shows "utf8_decode (WideStringToUtf8 utf16 (concat (map (wide_units utf16) cps)) (-1)) = cps"
proof -
  let ?s = "concat (map (wide_units utf16) cps)"
  note d = wide_loop_decodes [OF assms, of utf16]
  from d have all: "takeWhile (\<lambda>w. w \<noteq> 0) ?s = ?s"
    unfolding takeWhile_eq_all_conv by blast
  show ?thesis
    unfolding WideStringToUtf8_def Let_def if_P [OF refl] all take_all [OF order_refl]
    by (subst StringStreamToString_id) (use d in blast)+
qed

lemma wide_string_utf8_round_trip_witness:
  "utf8_decode (WideStringToUtf8 True (concat (map (wide_units True) [0x41, 0xE9, 0x20AC, 0x1F600])) (-1)) =
     [0x41, 0xE9, 0x20AC, 0x1F600]"
  by (rule wide_string_utf8_round_trip) (simp add: scalar_value_def)

text \<open>\<open>CodePointToUtf8\<close> encodes every code point below \<open>0x200000\<close>, also those above the last
  Unicode code point \<open>0x10FFFF\<close>, for which its comment promises the text \<open>(Invalid Unicode ...)\<close>.\<close>

lemma code_points_above_unicode_encoded:
  assumes "0x10FFFF < unat w" "unat w < 0x200000"
  shows "utf8_decode (CodePointToUtf8 w) = [unat w]"
  using conjunct1 [OF utf8_decode_code_point [of w "[]"]] assms by simp

lemma code_points_above_unicode_encoded_witness:
  "utf8_decode (CodePointToUtf8 0x110000) = [0x110000]"
  using code_points_above_unicode_encoded [of "0x110000"] by simp

end
