(* ===== verification/Gtest_Port.thy ===== *)
theory Gtest_Port
  imports Gtest_String
begin

text \<open>
  The portable services of \<open>gtest-port.cc\<close>: file locations, the log, flags read from the environment
  (\<open>ParseInt32\<close>, \<open>Int32FromGTestEnv\<close>, ...), the directory for temporary files, reading a whole file,
  and the arguments injected by tests.  What goes to standard output or standard error is a string.
  The environment is a function from names to optional values.
\<close>

section \<open>File locations\<close>

definition kUnknownFile :: string where
  "kUnknownFile = ''unknown file''"

text \<open>\<open>msc\<close>: the compiler defines \<open>_MSC_VER\<close>.\<close>

definition FormatFileLocation :: "bool \<Rightarrow> string option \<Rightarrow> int \<Rightarrow> string" where
  "FormatFileLocation msc file line =
     (let file_name = (case file of None \<Rightarrow> kUnknownFile | Some f \<Rightarrow> f) in
      if line < 0 then file_name @ '':''
      else if msc then file_name @ ''('' @ StreamableToString (int_string line) @ ''):''
      else file_name @ '':'' @ StreamableToString (int_string line) @ '':'')"

definition FormatCompilerIndependentFileLocation :: "string option \<Rightarrow> int \<Rightarrow> string" where
  "FormatCompilerIndependentFileLocation file line =
     (let file_name = (case file of None \<Rightarrow> kUnknownFile | Some f \<Rightarrow> f) in
      if line < 0 then file_name else file_name @ '':'' @ StreamableToString (int_string line))"

datatype GTestLogSeverity = GTEST_INFO | GTEST_WARNING | GTEST_ERROR | GTEST_FATAL

definition GTestLog_begin :: "bool \<Rightarrow> GTestLogSeverity \<Rightarrow> string option \<Rightarrow> int \<Rightarrow> string" where
  "GTestLog_begin msc severity file line =
     (let marker = (case severity of
          GTEST_INFO \<Rightarrow> ''[  INFO ]'' | GTEST_WARNING \<Rightarrow> ''[WARNING]''
        | GTEST_ERROR \<Rightarrow> ''[ ERROR ]'' | GTEST_FATAL \<Rightarrow> ''[ FATAL ]'') in
      [CHR 0x0A] @ marker @ '' '' @ FormatFileLocation msc file line @ '': '')"

text \<open>The destructor: the text, and whether the program is aborted.\<close>

definition GTestLog_end :: "GTestLogSeverity \<Rightarrow> string \<times> bool" where
  "GTestLog_end severity = ([CHR 0x0A], severity = GTEST_FATAL)"

section \<open>Temporary directory\<close>

datatype target_os = Windows_mobile | Windows_desktop | Linux_android | Other_os

definition TempDir :: "target_os \<Rightarrow> (string \<Rightarrow> string option) \<Rightarrow> string" where
  "TempDir os getenv =
     (case os of
        Windows_mobile \<Rightarrow> [CHR 0x5C] @ ''temp'' @ [CHR 0x5C]
      | Windows_desktop \<Rightarrow>
          (case getenv ''TEMP'' of
             None \<Rightarrow> [CHR 0x5C] @ ''temp'' @ [CHR 0x5C]
           | Some temp_dir \<Rightarrow>
               if temp_dir = [] then [CHR 0x5C] @ ''temp'' @ [CHR 0x5C]
               else if temp_dir ! (length temp_dir - 1) = CHR 0x5C then temp_dir
               else temp_dir @ [CHR 0x5C])
      | Linux_android \<Rightarrow> ''/sdcard/''
      | Other_os \<Rightarrow> ''/tmp/'')"

section \<open>Reading a file\<close>

text \<open>
  The loop of \<open>ReadEntireFile\<close>: the bytes already read, the rest of the file, and for each call of
  \<open>fread\<close> the number of bytes the stream is ready to deliver.
\<close>

definition GetFileSize :: "string \<Rightarrow> nat" where
  "GetFileSize file = length file"

fun read_loop :: "nat \<Rightarrow> string \<Rightarrow> string \<Rightarrow> nat list \<Rightarrow> string" where
  "read_loop file_size buffer rest [] = buffer"
| "read_loop file_size buffer rest (ready # later) =
     (let bytes_last_read = min ready (min (file_size - length buffer) (length rest));
          buffer' = buffer @ take bytes_last_read rest in
      if 0 < bytes_last_read \<and> length buffer' < file_size
      then read_loop file_size buffer' (drop bytes_last_read rest) later
      else buffer')"

definition ReadEntireFile :: "string \<Rightarrow> nat list \<Rightarrow> string" where
  "ReadEntireFile file ready = read_loop (GetFileSize file) [] file ready"

lemma read_loop_prefix:
  "\<lbrakk>\<forall>r \<in> set ready. 0 < r; length rest \<le> length ready; n = length buffer + length rest;
    ready \<noteq> []\<rbrakk> \<Longrightarrow> read_loop n buffer rest ready = buffer @ rest"
proof (induction ready arbitrary: buffer rest)
  case (Cons r ready)
  define k where "k = min r (length rest)"
  have m: "min r (min (n - length buffer) (length rest)) = k"
    using Cons.prems(3) by (simp add: k_def)
  show ?case
  proof (cases "0 < k \<and> length buffer + k < n")
    case True
    with Cons.prems have "length (drop k rest) \<le> length ready" "ready \<noteq> []"
      "n = length (buffer @ take k rest) + length (drop k rest)"
      by (auto simp: k_def)
    then have "read_loop n (buffer @ take k rest) (drop k rest) ready =
        (buffer @ take k rest) @ drop k rest"
      using Cons.prems(1) by (intro Cons.IH) auto
    with True m Cons.prems(3) show ?thesis by (simp add: Let_def k_def)
  next
    case False
    then have "k = length rest"
      using Cons.prems by (auto simp: k_def min_def split: if_splits)
    with False m Cons.prems show ?thesis by (auto simp: Let_def)
  qed
qed simp

section \<open>Injected arguments\<close>

definition SetInjectableArgvs :: "string list option \<Rightarrow> string list option \<Rightarrow> string list option" where
  "SetInjectableArgvs g_injected_test_argvs argvs = argvs"

definition GetInjectableArgvs :: "string list option \<Rightarrow> string list \<Rightarrow> string list" where
  "GetInjectableArgvs g_injected_test_argvs g_argvs =
     (case g_injected_test_argvs of Some a \<Rightarrow> a | None \<Rightarrow> g_argvs)"

section \<open>Flags from the environment\<close>

definition GTEST_FLAG_PREFIX :: string where
  "GTEST_FLAG_PREFIX = ''gtest_''"

definition FlagToEnvVar :: "string \<Rightarrow> string" where
  "FlagToEnvVar flag =
     (let full_flag = GetString (stream_text (stream_text new_Message GTEST_FLAG_PREFIX) flag) in
      GetString (foldl (\<lambda>env_var c. stream_text env_var [ToUpper c]) new_Message full_flag))"

text \<open>\<open>strtol\<close> with base 10 and a 64-bit \<open>long\<close>: the value and what follows the number.\<close>

definition LONG_MAX :: int where "LONG_MAX = 2 ^ 63 - 1"
definition LONG_MIN :: int where "LONG_MIN = - (2 ^ 63)"

definition strtol :: "string \<Rightarrow> int \<times> string" where
  "strtol str =
     (let s = dropWhile IsSpace str;
          neg = (s \<noteq> [] \<and> hd s = CHR ''-'');
          t = (if s \<noteq> [] \<and> (hd s = CHR ''-'' \<or> hd s = CHR ''+'') then tl s else s);
          digits = takeWhile is_digit t;
          n = (if neg then - int (dec_value digits) else int (dec_value digits)) in
      if digits = [] then (0, str)
      else (max LONG_MIN (min LONG_MAX n), dropWhile is_digit t))"

text \<open>\<open>static_cast<Int32>\<close> of a \<open>long\<close>.\<close>

definition to_Int32 :: "int \<Rightarrow> int" where
  "to_Int32 n = signed_take_bit 31 n"

text \<open>The output, whether the text was accepted, the new value of \<open>*value\<close>.\<close>

definition ParseInt32 :: "Message \<Rightarrow> string \<Rightarrow> int \<Rightarrow> string \<times> bool \<times> int" where
  "ParseInt32 src_text str value =
     (let (long_value, rest) = strtol str in
      if rest \<noteq> [] then
        (''WARNING: '' @ GetString src_text @ '' is expected to be a 32-bit integer, but actually'' @
         '' has value '' @ [CHR 0x22] @ str @ [CHR 0x22] @ ''.'' @ [CHR 0x0A], False, value)
      else
        let result = to_Int32 long_value in
        if long_value = LONG_MAX \<or> long_value = LONG_MIN \<or> result \<noteq> long_value then
          (''WARNING: '' @ GetString src_text @ '' is expected to be a 32-bit integer, but actually'' @
           '' has value '' @ str @ '', which overflows.'' @ [CHR 0x0A], False, value)
        else ([], True, result))"

definition BoolFromGTestEnv :: "(string \<Rightarrow> string option) \<Rightarrow> string \<Rightarrow> bool \<Rightarrow> bool" where
  "BoolFromGTestEnv getenv flag default_value =
     (case getenv (FlagToEnvVar flag) of
        None \<Rightarrow> default_value
      | Some string_value \<Rightarrow> string_value \<noteq> ''0'')"

definition Int32FromGTestEnv :: "(string \<Rightarrow> string option) \<Rightarrow> string \<Rightarrow> int \<Rightarrow> string \<times> int" where
  "Int32FromGTestEnv getenv flag default_value =
     (let env_var = FlagToEnvVar flag in
      case getenv env_var of
        None \<Rightarrow> ([], default_value)
      | Some string_value \<Rightarrow>
          let (out, ok, result) =
                ParseInt32 (stream_text (Message_of ''Environment variable '') env_var)
                  string_value default_value in
          if \<not> ok then
            (out @ ''The default value '' @ int_string default_value @ '' is used.'' @ [CHR 0x0A],
             default_value)
          else (out, result))"

definition StringFromGTestEnv :: "(string \<Rightarrow> string option) \<Rightarrow> string \<Rightarrow> string \<Rightarrow> string" where
  "StringFromGTestEnv getenv flag default_value =
     (case getenv (FlagToEnvVar flag) of
        Some value \<Rightarrow> value
      | None \<Rightarrow>
          if flag = ''output'' then
            (case getenv ''XML_OUTPUT_FILE'' of
               Some value \<Rightarrow> ''xml:'' @ value
             | None \<Rightarrow> default_value)
          else default_value)"

lemma is_digit_bounds: "is_digit c \<Longrightarrow> code c \<ge> 48 \<and> code c \<le> 57"
  by (simp add: is_digit_def code_def)

lemma digit_not_sign:
  "is_digit c \<Longrightarrow> \<not> IsSpace c \<and> c \<noteq> CHR ''-'' \<and> c \<noteq> CHR ''+''"
  using is_digit_bounds [of c] by (auto simp: IsSpace_def code_def)

lemma strtol_digits:
  assumes "list_all is_digit ds" "ds \<noteq> []"
  shows "strtol ds = (min LONG_MAX (int (dec_value ds)), []) \<and>
    strtol (CHR ''-'' # ds) = (max LONG_MIN (- int (dec_value ds)), [])"
proof -
  from assms obtain d r where ds: "ds = d # r" and d: "is_digit d" by (cases ds) auto
  from assms have all: "takeWhile is_digit ds = ds" "dropWhile is_digit ds = []"
    by (simp_all add: list_all_iff takeWhile_eq_all_conv)
  have "dropWhile IsSpace ds = ds" "hd ds \<noteq> CHR ''-''" "hd ds \<noteq> CHR ''+''"
    using digit_not_sign [OF d] ds by auto
  moreover have "\<not> IsSpace (CHR ''-'')" by (simp add: IsSpace_def code_def)
  ultimately show ?thesis
    using assms(2) by (simp add: strtol_def Let_def all LONG_MAX_def LONG_MIN_def)
qed

lemma strtol_int_string:
  "strtol (int_string i) = (max LONG_MIN (min LONG_MAX i), [])"
proof (cases "i < 0")
  case True
  then show ?thesis
    using strtol_digits [OF dec_string_digits dec_string_nonempty, of "nat \<bar>i\<bar>"]
    by (auto simp: int_string_def LONG_MAX_def)
next
  case False
  then show ?thesis
    using strtol_digits [OF dec_string_digits dec_string_nonempty, of "nat \<bar>i\<bar>"]
    by (auto simp: int_string_def LONG_MIN_def LONG_MAX_def)
qed

lemma to_Int32_range: "- (2 ^ 31) \<le> to_Int32 n \<and> to_Int32 n < 2 ^ 31"
  unfolding to_Int32_def
  using signed_take_bit_int_less_exp [of 31 n] signed_take_bit_int_greater_eq_minus_exp [of 31 n]
  by simp

lemma to_Int32_eq: "to_Int32 n = n \<longleftrightarrow> - (2 ^ 31) \<le> n \<and> n < 2 ^ 31"
  unfolding to_Int32_def by (rule signed_take_bit_int_eq_self_iff)

lemma parse_int32_cases:
  "(fst (snd (ParseInt32 src str v)) \<and> - (2 ^ 31) \<le> snd (snd (ParseInt32 src str v)) \<and>
     snd (snd (ParseInt32 src str v)) < 2 ^ 31) \<or>
   (\<not> fst (snd (ParseInt32 src str v)) \<and> snd (snd (ParseInt32 src str v)) = v)"
proof (cases "ParseInt32 src str v")
  case (fields out ok r)
  then show ?thesis
    using to_Int32_range [of "fst (strtol str)"]
    by (auto simp: ParseInt32_def split_def Let_def simp del: power_numeral split: if_splits)
qed

lemma ParseInt32_int_string:
  "\<lbrakk>- (2 ^ 31) \<le> i; i < 2 ^ 31\<rbrakk> \<Longrightarrow> ParseInt32 src (int_string i) v = ([], True, i)"
  using to_Int32_eq [of i]
  by (auto simp: ParseInt32_def strtol_int_string LONG_MAX_def LONG_MIN_def max_def min_def Let_def)

text \<open>C33: \<open>ParseInt32\<close> reads the decimal text of every 32-bit integer as that integer, rejects with a
  warning the text of every other integer, however large, and on any rejected text leaves the value
  as it was; what it accepts is a 32-bit integer.\<close>

theorem parse_int32_correct:
  "(- (2 ^ 31) \<le> i \<and> i < 2 ^ 31 \<longrightarrow> ParseInt32 src (int_string i) v = ([], True, i)) \<and>
   (\<not> (- (2 ^ 31) \<le> i \<and> i < 2 ^ 31) \<longrightarrow>
      fst (ParseInt32 src (int_string i) v) \<noteq> [] \<and> snd (ParseInt32 src (int_string i) v) = (False, v)) \<and>
   (\<not> fst (snd (ParseInt32 src str v)) \<longrightarrow> snd (snd (ParseInt32 src str v)) = v) \<and>
   (fst (snd (ParseInt32 src str v)) \<longrightarrow>
      - (2 ^ 31) \<le> snd (snd (ParseInt32 src str v)) \<and> snd (snd (ParseInt32 src str v)) < 2 ^ 31)"
proof -
  have clamp: "max LONG_MIN (min LONG_MAX i) = i \<or> max LONG_MIN (min LONG_MAX i) \<in> {LONG_MAX, LONG_MIN}"
    by (auto simp: max_def min_def LONG_MAX_def LONG_MIN_def)
  have "- (2 ^ 31) \<le> i \<and> i < 2 ^ 31 \<longrightarrow> ParseInt32 src (int_string i) v = ([], True, i)"
    using ParseInt32_int_string by blast
  moreover have "\<not> (- (2 ^ 31) \<le> i \<and> i < 2 ^ 31) \<longrightarrow>
      fst (ParseInt32 src (int_string i) v) \<noteq> [] \<and> snd (ParseInt32 src (int_string i) v) = (False, v)"
    using clamp to_Int32_eq [of i] by (auto simp: ParseInt32_def strtol_int_string Let_def)
  ultimately show ?thesis
    using parse_int32_cases [of src str v] by blast
qed

theorem parse_int32_correct_witness:
  "ParseInt32 new_Message (int_string (- 2147483648)) 7 = ([], True, - 2147483648) \<and>
   snd (ParseInt32 new_Message (int_string 2147483648) 7) = (False, 7)"
  using parse_int32_correct [of "- 2147483648" new_Message 7]
    parse_int32_correct [of 2147483648 new_Message 7] by simp

lemma env_flag_valid:
  assumes "- (2 ^ 31) \<le> d" "d < 2 ^ 31"
  shows "- (2 ^ 31) \<le> snd (Int32FromGTestEnv getenv flag d) \<and>
    snd (Int32FromGTestEnv getenv flag d) < 2 ^ 31"
proof (cases "getenv (FlagToEnvVar flag)")
  case (Some s)
  let ?src = "stream_text (Message_of ''Environment variable '') (FlagToEnvVar flag)"
  show ?thesis
    using assms parse_int32_cases [of ?src s d]
    by (cases "fst (snd (ParseInt32 ?src s d))")
      (simp_all add: Int32FromGTestEnv_def split_def Let_def Some)
qed (use assms in \<open>simp add: Int32FromGTestEnv_def\<close>)

lemma flag_to_env_var:
  assumes "CHR 0x00 \<notin> set flag"
  shows "FlagToEnvVar flag = ''GTEST_'' @ map ToUpper flag"
proof -
  have full: "GetString (stream_text (stream_text new_Message GTEST_FLAG_PREFIX) flag) =
      ''gtest_'' @ flag"
    using assms by (simp add: GetString_def stream_text_def new_Message_def GTEST_FLAG_PREFIX_def
        StringStreamToString_id)
  have fold: "ss (foldl (\<lambda>m c. stream_text m [ToUpper c]) m s) = ss m @ map ToUpper s" for m s
    by (induction s arbitrary: m) (simp_all add: stream_text_def)
  have up: "ToUpper c \<noteq> CHR 0x00" if "c \<noteq> CHR 0x00" for c
  proof (cases "IsLower c")
    case True
    then have "code (char_of (code c - 32)) = code c - 32"
      by (simp add: code_def IsLower_def) (rule mod_less, linarith)
    with True have "ToUpper c \<noteq> CHR 0x00"
      by (intro char_not_nul) (simp add: ToUpper_def IsLower_def)
    then show ?thesis .
  qed (simp add: ToUpper_def that)
  have "CHR 0x00 \<notin> set (''gtest_'' @ flag)" using assms by simp
  then have nn: "CHR 0x00 \<notin> set (map ToUpper (''gtest_'' @ flag))"
    unfolding set_map image_iff using up by metis
  have "map ToUpper ''gtest_'' = ''GTEST_''" by code_simp
  then show ?thesis
    unfolding FlagToEnvVar_def Let_def full
    unfolding GetString_def fold new_Message_def Message.simps append_Nil
      StringStreamToString_id [OF nn]
    by (simp only: map_append)
qed

end
