(* ===== verification/Gtest_Result.thy ===== *)
theory Gtest_Result
  imports Gtest_Random Gtest_Port
begin

text \<open>
  Test results of googletest: \<open>TestPartResult\<close> and \<open>TestPartResultArray\<close> (\<open>gtest-test-part.h\<close>,
  \<open>gtest-test-part.cc\<close>), \<open>TestProperty\<close> and \<open>TestResult\<close> with the validation of property names
  (\<open>gtest.h\<close>, \<open>gtest.cc\<close>).  Where the code aborts the program, the value is \<open>None\<close>.
\<close>

section \<open>Parts of a result\<close>

datatype part_type = kSuccess | kNonFatalFailure | kFatalFailure

definition kStackTraceMarker :: string where
  "kStackTraceMarker = [CHR 0x0A] @ ''Stack trace:'' @ [CHR 0x0A]"

text \<open>\<open>strstr\<close>: what precedes the first occurrence, if there is one.\<close>

fun before_first :: "string \<Rightarrow> string \<Rightarrow> string option" where
  "before_first needle [] = (if needle = [] then Some [] else None)"
| "before_first needle (c # s) =
     (if take (length needle) (c # s) = needle then Some []
      else map_option (Cons c) (before_first needle s))"

definition ExtractSummary :: "string \<Rightarrow> string" where
  "ExtractSummary message =
     (case before_first kStackTraceMarker message of None \<Rightarrow> message | Some summary \<Rightarrow> summary)"

record TestPartResult =
  part_type :: part_type
  part_file_name :: string
  part_line_number :: int
  part_summary :: string
  part_message :: string

definition new_TestPartResult :: "part_type \<Rightarrow> string option \<Rightarrow> int \<Rightarrow> string \<Rightarrow> TestPartResult" where
  "new_TestPartResult a_type a_file_name a_line_number a_message =
     \<lparr> part_type = a_type,
       part_file_name = (case a_file_name of None \<Rightarrow> [] | Some f \<Rightarrow> f),
       part_line_number = a_line_number,
       part_summary = ExtractSummary a_message,
       part_message = a_message \<rparr>"

definition file_name :: "TestPartResult \<Rightarrow> string option" where
  "file_name r = (if part_file_name r = [] then None else Some (part_file_name r))"

definition part_passed :: "TestPartResult \<Rightarrow> bool" where
  "part_passed r \<longleftrightarrow> part_type r = kSuccess"

definition part_failed :: "TestPartResult \<Rightarrow> bool" where
  "part_failed r \<longleftrightarrow> part_type r \<noteq> kSuccess"

definition nonfatally_failed :: "TestPartResult \<Rightarrow> bool" where
  "nonfatally_failed r \<longleftrightarrow> part_type r = kNonFatalFailure"

definition fatally_failed :: "TestPartResult \<Rightarrow> bool" where
  "fatally_failed r \<longleftrightarrow> part_type r = kFatalFailure"

text \<open>The stream operator inserts \<open>file_name()\<close>, which is null for an unknown file.\<close>

definition part_text :: "TestPartResult \<Rightarrow> string result" where
  "part_text result =
     (case file_name result of
        None \<Rightarrow> Inl (Undefined_behaviour ''null pointer inserted into a stream'')
      | Some f \<Rightarrow> Inr (f @ '':'' @ int_string (part_line_number result) @ '': '' @
          (if part_type result = kSuccess then ''Success''
           else if part_type result = kFatalFailure then ''Fatal failure''
           else ''Non-fatal failure'') @ '':'' @ [CHR 0x0A] @ part_message result @ [CHR 0x0A]))"

definition TestPartResultTypeToString :: "bool \<Rightarrow> part_type \<Rightarrow> string" where
  "TestPartResultTypeToString msc type =
     (case type of
        kSuccess \<Rightarrow> ''Success''
      | kNonFatalFailure \<Rightarrow> if msc then ''error: '' else ''Failure'' @ [CHR 0x0A]
      | kFatalFailure \<Rightarrow> if msc then ''error: '' else ''Failure'' @ [CHR 0x0A])"

definition PrintTestPartResultToString :: "bool \<Rightarrow> TestPartResult \<Rightarrow> string" where
  "PrintTestPartResultToString msc test_part_result =
     StreamableToString
      (FormatFileLocation msc (file_name test_part_result) (part_line_number test_part_result) @ '' '' @
       TestPartResultTypeToString msc (part_type test_part_result) @ part_message test_part_result)"

definition PrintTestPartResult :: "bool \<Rightarrow> TestPartResult \<Rightarrow> string" where
  "PrintTestPartResult msc test_part_result =
     PrintTestPartResultToString msc test_part_result @ [CHR 0x0A]"

section \<open>TestPartResultArray\<close>

type_synonym TestPartResultArray = "TestPartResult list"

definition array_Append :: "TestPartResultArray \<Rightarrow> TestPartResult \<Rightarrow> TestPartResultArray" where
  "array_Append a result = a @ [result]"

definition array_size :: "TestPartResultArray \<Rightarrow> int" where
  "array_size a = int (length a)"

definition array_GetTestPartResult :: "TestPartResultArray \<Rightarrow> int \<Rightarrow> TestPartResult option" where
  "array_GetTestPartResult a index =
     (if index < 0 \<or> array_size a \<le> index then None else Some (a ! nat index))"

section \<open>TestResult\<close>

record TestProperty =
  key :: string
  val :: string

definition SetValue :: "string \<Rightarrow> TestProperty \<Rightarrow> TestProperty" where
  "SetValue new_value p = p\<lparr> val := new_value \<rparr>"

record TestResult =
  test_part_results :: "TestPartResult list"
  test_properties :: "TestProperty list"
  death_test_count :: int
  result_elapsed_time :: int

definition new_TestResult :: TestResult where
  "new_TestResult = \<lparr> test_part_results = [], test_properties = [], death_test_count = 0,
     result_elapsed_time = 0 \<rparr>"

definition total_part_count :: "TestResult \<Rightarrow> int" where
  "total_part_count r = int (length (test_part_results r))"

definition test_property_count :: "TestResult \<Rightarrow> int" where
  "test_property_count r = int (length (test_properties r))"

definition GetTestPartResult :: "TestResult \<Rightarrow> int \<Rightarrow> TestPartResult option" where
  "GetTestPartResult r i =
     (if i < 0 \<or> total_part_count r \<le> i then None else Some (test_part_results r ! nat i))"

definition GetTestProperty :: "TestResult \<Rightarrow> int \<Rightarrow> TestProperty option" where
  "GetTestProperty r i =
     (if i < 0 \<or> test_property_count r \<le> i then None else Some (test_properties r ! nat i))"

definition ClearTestPartResults :: "TestResult \<Rightarrow> TestResult" where
  "ClearTestPartResults r = r\<lparr> test_part_results := [] \<rparr>"

definition AddTestPartResult :: "TestPartResult \<Rightarrow> TestResult \<Rightarrow> TestResult" where
  "AddTestPartResult test_part_result r =
     r\<lparr> test_part_results := test_part_results r @ [test_part_result] \<rparr>"

definition increment_death_test_count :: "TestResult \<Rightarrow> int \<times> TestResult" where
  "increment_death_test_count r =
     (death_test_count r + 1, r\<lparr> death_test_count := death_test_count r + 1 \<rparr>)"

definition Clear :: "TestResult \<Rightarrow> TestResult" where
  "Clear r = r\<lparr> test_part_results := [], test_properties := [], death_test_count := 0,
     result_elapsed_time := 0 \<rparr>"

text \<open>The loop of \<open>Failed\<close> from index \<open>i\<close> on.\<close>

function failed_loop :: "TestResult \<Rightarrow> nat \<Rightarrow> bool" where
  "failed_loop r i =
     (if total_part_count r \<le> int i then False
      else if part_failed (test_part_results r ! i) then True
      else failed_loop r (i + 1))"
  by pat_completeness auto

termination
  by (relation "measure (\<lambda>(r, i). length (test_part_results r) - i)") (auto simp: total_part_count_def)

declare failed_loop.simps [simp del]

definition Failed :: "TestResult \<Rightarrow> bool" where
  "Failed r = failed_loop r 0"

definition Passed :: "TestResult \<Rightarrow> bool" where
  "Passed r \<longleftrightarrow> \<not> Failed r"

definition HasFatalFailure :: "TestResult \<Rightarrow> bool" where
  "HasFatalFailure r \<longleftrightarrow> CountIf (test_part_results r) fatally_failed > 0"

definition HasNonfatalFailure :: "TestResult \<Rightarrow> bool" where
  "HasNonfatalFailure r \<longleftrightarrow> CountIf (test_part_results r) nonfatally_failed > 0"

section \<open>Recording properties\<close>

definition kReservedTestSuitesAttributes :: "string list" where
  "kReservedTestSuitesAttributes = [''disabled'', ''errors'', ''failures'', ''name'', ''random_seed'',
     ''tests'', ''time'', ''timestamp'']"

definition kReservedTestSuiteAttributes :: "string list" where
  "kReservedTestSuiteAttributes = [''disabled'', ''errors'', ''failures'', ''name'', ''tests'', ''time'']"

definition kReservedTestCaseAttributes :: "string list" where
  "kReservedTestCaseAttributes = [''classname'', ''name'', ''status'', ''time'', ''type_param'',
     ''value_param'']"

definition GetReservedAttributesForElement :: "string \<Rightarrow> string list option" where
  "GetReservedAttributesForElement xml_element =
     (if xml_element = ''testsuites'' then Some kReservedTestSuitesAttributes
      else if xml_element = ''testsuite'' then Some kReservedTestSuiteAttributes
      else if xml_element = ''testcase'' then Some kReservedTestCaseAttributes
      else None)"

text \<open>The loop of \<open>FormatWordList\<close>: the number of words and the index of the next one.\<close>

fun word_list_from :: "nat \<Rightarrow> nat \<Rightarrow> string list \<Rightarrow> string" where
  "word_list_from n i [] = []"
| "word_list_from n i (w # words) =
     (if 0 < i \<and> 2 < n then '', '' else []) @ (if i = n - 1 then ''and '' else []) @
     [CHR 0x27] @ w @ [CHR 0x27] @ word_list_from n (i + 1) words"

definition FormatWordList :: "string list \<Rightarrow> string" where
  "FormatWordList words = StreamableToString (word_list_from (length words) 0 words)"

text \<open>The failure added, if any, and the verdict.\<close>

definition ValidateTestPropertyName :: "string \<Rightarrow> string list \<Rightarrow> string option \<times> bool" where
  "ValidateTestPropertyName property_name reserved_names =
     (if property_name \<in> set reserved_names then
        (Some (''Reserved key used in RecordProperty(): '' @ property_name @ '' ('' @
           FormatWordList reserved_names @ '' are reserved by Google Test)''), False)
      else (None, True))"

definition ValidateTestProperty :: "string \<Rightarrow> TestProperty \<Rightarrow> (string option \<times> bool) option" where
  "ValidateTestProperty xml_element test_property =
     map_option (ValidateTestPropertyName (key test_property))
       (GetReservedAttributesForElement xml_element)"

fun set_property :: "TestProperty \<Rightarrow> TestProperty list \<Rightarrow> TestProperty list" where
  "set_property p [] = [p]"
| "set_property p (q # qs) =
     (if key q = key p then SetValue (val p) q # qs else q # set_property p qs)"

definition TestResult_RecordProperty ::
    "string \<Rightarrow> TestProperty \<Rightarrow> TestResult \<Rightarrow> (string option \<times> TestResult) option" where
  "TestResult_RecordProperty xml_element test_property r =
     (case ValidateTestProperty xml_element test_property of
        None \<Rightarrow> None
      | Some (failure, valid) \<Rightarrow>
          if \<not> valid then Some (failure, r)
          else Some (failure, r\<lparr> test_properties := set_property test_property (test_properties r) \<rparr>))"

section \<open>What the results mean\<close>

lemma failed_loop_iff: "failed_loop r i \<longleftrightarrow> (\<exists>p \<in> set (drop i (test_part_results r)). part_failed p)"
proof (induction r i rule: failed_loop.induct)
  case (1 r i)
  show ?case
  proof (cases "length (test_part_results r) \<le> i")
    case True
    then show ?thesis by (subst failed_loop.simps) (simp add: total_part_count_def)
  next
    case False
    then have "drop i (test_part_results r) = test_part_results r ! i # drop (i + 1) (test_part_results r)"
      by (simp add: Cons_nth_drop_Suc)
    with False 1 show ?thesis
      by (subst failed_loop.simps) (auto simp: total_part_count_def)
  qed
qed

lemma Failed_iff: "Failed r \<longleftrightarrow> (\<exists>p \<in> set (test_part_results r). part_failed p)"
  by (simp add: Failed_def failed_loop_iff)

lemma HasFatalFailure_iff: "HasFatalFailure r \<longleftrightarrow> (\<exists>p \<in> set (test_part_results r). fatally_failed p)"
  by (auto simp: HasFatalFailure_def CountIf_length filter_empty_conv)

lemma HasNonfatalFailure_iff:
  "HasNonfatalFailure r \<longleftrightarrow> (\<exists>p \<in> set (test_part_results r). nonfatally_failed p)"
  by (auto simp: HasNonfatalFailure_def CountIf_length filter_empty_conv)

lemma Failed_fatal_or_nonfatal: "Failed r \<longleftrightarrow> HasFatalFailure r \<or> HasNonfatalFailure r"
proof -
  have "part_failed p \<longleftrightarrow> fatally_failed p \<or> nonfatally_failed p" for p
    by (cases "part_type p") (simp_all add: part_failed_def fatally_failed_def nonfatally_failed_def)
  then show ?thesis
    by (auto simp: Failed_iff HasFatalFailure_iff HasNonfatalFailure_iff)
qed

lemma ExtractSummary_prefix: "\<exists>t. m = ExtractSummary m @ t"
proof -
  have "before_first n s = Some u \<Longrightarrow> \<exists>t. s = u @ t" for n s u
    by (induction n s arbitrary: u rule: before_first.induct) (auto split: if_splits)
  then show ?thesis
    by (cases "before_first kStackTraceMarker m") (auto simp: ExtractSummary_def)
qed

definition property_map :: "TestProperty list \<Rightarrow> string \<Rightarrow> string option" where
  "property_map ps = map_of (map (\<lambda>p. (key p, val p)) ps)"

lemma set_property_map: "property_map (set_property p ps) = (property_map ps)(key p \<mapsto> val p)"
  by (induction ps) (auto simp: property_map_def SetValue_def)

lemma set_property_keys:
  "map key (set_property p ps) = map key ps @ (if key p \<in> key ` set ps then [] else [key p])"
  by (induction ps) (auto simp: SetValue_def)

text \<open>\<open>TestResult::RecordProperty\<close> refines the update of a finite map: a property whose key is not
  reserved for the XML element is stored, replacing an earlier value of the same key, the keys stay
  distinct and in the order of their first recording; a reserved key adds one failure and changes
  nothing, and an unknown element aborts the program.\<close>

lemma record_property_refines_map:
  "case GetReservedAttributesForElement el of
     None \<Rightarrow> TestResult_RecordProperty el p r = None
   | Some reserved \<Rightarrow>
       if key p \<in> set reserved then
         (\<exists>failure. TestResult_RecordProperty el p r = Some (Some failure, r))
       else (\<exists>r'. TestResult_RecordProperty el p r = Some (None, r') \<and>
         property_map (test_properties r') = (property_map (test_properties r))(key p \<mapsto> val p) \<and>
         map key (test_properties r') = map key (test_properties r) @
           (if key p \<in> key ` set (test_properties r) then [] else [key p]) \<and>
         test_part_results r' = test_part_results r)"
  by (auto simp: TestResult_RecordProperty_def ValidateTestProperty_def ValidateTestPropertyName_def
      set_property_map set_property_keys split: option.splits)

end
