(* ===== verification/Gtest_Filter.thy ===== *)
theory Gtest_Filter
  imports Gtest_String
begin

text \<open>
  Test filters of googletest (\<open>UnitTestOptions\<close> in \<open>gtest.cc\<close>): the wildcard matcher, lists of
  patterns separated by colons, and the positive and negative part of \<open>--gtest_filter\<close>.  The
  reference is the set of strings a wildcard pattern stands for.
\<close>

definition kDisableTestFilter :: string where
  "kDisableTestFilter = ''DISABLED_*:*/DISABLED_*''"

definition kDeathTestCaseFilter :: string where
  "kDeathTestCaseFilter = ''*DeathTest:*DeathTest/*''"

definition kUniversalFilter :: string where
  "kUniversalFilter = ''*''"

function (sequential) PatternMatchesString :: "string \<Rightarrow> string \<Rightarrow> bool" where
  "PatternMatchesString [] str \<longleftrightarrow> str = []"
| "PatternMatchesString (p # pattern) str \<longleftrightarrow>
     (if p = CHR '':'' then str = []
      else if p = CHR ''?'' then
        (case str of [] \<Rightarrow> False | _ # str' \<Rightarrow> PatternMatchesString pattern str')
      else if p = CHR ''*'' then
        (case str of [] \<Rightarrow> False | _ # str' \<Rightarrow> PatternMatchesString (p # pattern) str') \<or>
        PatternMatchesString pattern str
      else
        (case str of [] \<Rightarrow> False | s # str' \<Rightarrow> p = s \<and> PatternMatchesString pattern str'))"
  by pat_completeness auto

termination
  by (relation "measures [\<lambda>(p, s). length p + length s]") auto

declare PatternMatchesString.simps(2) [simp del]

text \<open>The loop of \<open>MatchesFilter\<close> from the current pattern on; \<open>strchr\<close> finds the next colon.\<close>

function MatchesFilter :: "string \<Rightarrow> string \<Rightarrow> bool" where
  "MatchesFilter name cur_pattern \<longleftrightarrow>
     (if PatternMatchesString cur_pattern name then True
      else (case dropWhile (\<lambda>c. c \<noteq> CHR '':'') cur_pattern of
              [] \<Rightarrow> False
            | _ # next_pattern \<Rightarrow> MatchesFilter name next_pattern))"
  by pat_completeness auto

termination
proof (relation "measure (\<lambda>(n, p). length p)", goal_cases)
  case (2 name cur a next_pattern)
  then show ?case
    using length_dropWhile_le [of "\<lambda>c. c \<noteq> CHR '':''" cur] by simp
qed simp

declare MatchesFilter.simps [simp del]

text \<open>\<open>filter\<close> is the value of the flag.\<close>

definition FilterMatchesTest :: "string \<Rightarrow> string \<Rightarrow> string \<Rightarrow> bool" where
  "FilterMatchesTest gtest_filter test_case_name test_name =
     (let full_name = test_case_name @ ''.'' @ test_name;
          dash = dropWhile (\<lambda>c. c \<noteq> CHR ''-'') gtest_filter;
          (positive, negative) =
            (case dash of
               [] \<Rightarrow> (gtest_filter, [])
             | _ # after_dash \<Rightarrow>
                 let positive = takeWhile (\<lambda>c. c \<noteq> CHR ''-'') gtest_filter in
                 (if positive = [] then kUniversalFilter else positive, after_dash)) in
      MatchesFilter full_name positive \<and> \<not> MatchesFilter full_name negative)"

section \<open>Reference: the language of a pattern\<close>

fun glob :: "string \<Rightarrow> string set" where
  "glob [] = {[]}"
| "glob (p # pattern) =
     (if p = CHR ''?'' then {c # s | c s. s \<in> glob pattern}
      else if p = CHR ''*'' then {u @ s | u s. s \<in> glob pattern}
      else {p # s | s. s \<in> glob pattern})"

lemma glob_any:
  "s \<in> glob (CHR ''?'' # p) \<longleftrightarrow> (case s of [] \<Rightarrow> False | _ # s' \<Rightarrow> s' \<in> glob p)"
  by (cases s) auto

lemma glob_char:
  assumes "c \<noteq> CHR ''?''" "c \<noteq> CHR ''*''"
  shows "s \<in> glob (c # p) \<longleftrightarrow> (case s of [] \<Rightarrow> False | x # s' \<Rightarrow> c = x \<and> s' \<in> glob p)"
  using assms by (cases s) auto

lemma glob_star:
  "s \<in> glob (CHR ''*'' # p) \<longleftrightarrow>
     (case s of [] \<Rightarrow> False | _ # s' \<Rightarrow> s' \<in> glob (CHR ''*'' # p)) \<or> s \<in> glob p"
proof -
  have star: "t \<in> glob (CHR ''*'' # p) \<longleftrightarrow> (\<exists>u v. t = u @ v \<and> v \<in> glob p)" for t by auto
  show ?thesis
    unfolding star by (cases s) (auto simp: Cons_eq_append_conv)
qed

declare glob.simps(2) [simp del]

lemma pattern_matches_glob:
  "PatternMatchesString p s \<longleftrightarrow> s \<in> glob (takeWhile (\<lambda>c. c \<noteq> CHR '':'') p)"
proof (induction p s rule: PatternMatchesString.induct)
  case (1 str)
  show ?case by simp
next
  case (2 p pattern str)
  consider "p = CHR '':''" | "p = CHR ''?''" | "p = CHR ''*''"
    | "p \<noteq> CHR '':''" "p \<noteq> CHR ''?''" "p \<noteq> CHR ''*''" by blast
  then show ?case
  proof cases
    case 1
    then show ?thesis by (simp add: PatternMatchesString.simps)
  next
    case c: 2
    with 2(1) show ?thesis
      by (subst PatternMatchesString.simps) (simp add: glob_any split: list.splits)
  next
    case 3
    then show ?thesis
      using 2(2,3) by (subst PatternMatchesString.simps)
        (simp add: glob_star [of str] split: list.splits)
  next
    case 4
    with 2(4) show ?thesis
      by (subst PatternMatchesString.simps) (simp add: glob_char split: list.splits)
  qed
qed

lemma matches_filter_split:
  "MatchesFilter name gtest_filter \<longleftrightarrow> (\<exists>p \<in> set (SplitString gtest_filter CHR '':''). name \<in> glob p)"
proof (induction name gtest_filter rule: MatchesFilter.induct)
  case (1 name cur)
  let ?p = "takeWhile (\<lambda>c. c \<noteq> CHR '':'') cur"
  show ?case
  proof (cases "CHR '':'' \<in> set cur")
    case True
    then have d: "dropWhile (\<lambda>c. c \<noteq> CHR '':'') cur = CHR '':'' # drop (length ?p + 1) cur"
      by (induction cur) auto
    have s: "SplitString cur CHR '':'' = ?p # SplitString (drop (length ?p + 1) cur) CHR '':''"
      using True by (subst SplitString.simps) (simp add: Let_def)
    show ?thesis
      using 1 [OF _ d] unfolding s
      by (subst MatchesFilter.simps) (simp add: d pattern_matches_glob)
  next
    case False
    then have d: "dropWhile (\<lambda>c. c \<noteq> CHR '':'') cur = []" and p: "?p = cur"
      by (induction cur) auto
    show ?thesis
      using False
      by (subst MatchesFilter.simps, subst SplitString.simps)
        (simp add: Let_def pattern_matches_glob d p)
  qed
qed

text \<open>\<open>--gtest_filter\<close> selects a test exactly when its full name is in the language of one of the
  colon-separated patterns before the first dash (of \<open>*\<close>, if the dash is the first character) and of
  none of the patterns behind it.\<close>

lemma filter_matches_test_correct:
  "let positive = takeWhile (\<lambda>c. c \<noteq> CHR ''-'') gtest_filter;
       rest = dropWhile (\<lambda>c. c \<noteq> CHR ''-'') gtest_filter;
       full_name = test_case_name @ ''.'' @ test_name in
   FilterMatchesTest gtest_filter test_case_name test_name \<longleftrightarrow>
     (\<exists>p \<in> set (SplitString (if positive = [] \<and> rest \<noteq> [] then ''*'' else positive) CHR '':'').
        full_name \<in> glob p) \<and>
     \<not> (\<exists>p \<in> set (SplitString (tl rest) CHR '':''). full_name \<in> glob p)"
proof -
  define positive where "positive = takeWhile (\<lambda>c. c \<noteq> CHR ''-'') gtest_filter"
  define rest where "rest = dropWhile (\<lambda>c. c \<noteq> CHR ''-'') gtest_filter"
  have "FilterMatchesTest gtest_filter test_case_name test_name \<longleftrightarrow>
     (\<exists>p \<in> set (SplitString (if positive = [] \<and> rest \<noteq> [] then ''*'' else positive) CHR '':'').
        test_case_name @ ''.'' @ test_name \<in> glob p) \<and>
     \<not> (\<exists>p \<in> set (SplitString (tl rest) CHR '':''). test_case_name @ ''.'' @ test_name \<in> glob p)"
  proof (cases rest)
  case Nil
  then have "positive = gtest_filter"
    unfolding positive_def rest_def by (metis append_Nil2 takeWhile_dropWhile_id)
  moreover have "SplitString [] CHR '':'' = [[]]" by code_simp
  ultimately show ?thesis
    using Nil unfolding FilterMatchesTest_def Let_def matches_filter_split
    by (simp add: Nil [unfolded rest_def])
next
  case (Cons c after)
  show ?thesis
    unfolding FilterMatchesTest_def Let_def matches_filter_split kUniversalFilter_def Cons
    by (simp add: Cons [unfolded rest_def] positive_def)
qed
  then show ?thesis
    unfolding Let_def positive_def rest_def .
qed

section \<open>Disabled tests and death test cases\<close>

lemma glob_prefix: "p \<noteq> [] \<Longrightarrow> \<forall>c \<in> set p. c \<noteq> CHR ''?'' \<and> c \<noteq> CHR ''*'' \<Longrightarrow>
    s \<in> glob (p @ q) \<longleftrightarrow> (\<exists>t \<in> glob q. s = p @ t)"
proof (induction p arbitrary: s)
  case (Cons c p)
  then show ?case
    by (cases "p = []") (auto simp: glob_char split: list.splits)
qed simp

lemma glob_star_set: "glob (CHR ''*'' # p) = {u @ s | u s. s \<in> glob p}"
  by (simp add: glob.simps)

lemma glob_star_suffix:
  "(\<And>s. s \<in> glob p \<longleftrightarrow> s = d) \<Longrightarrow> n \<in> glob (CHR ''*'' # p) \<longleftrightarrow> (\<exists>u. n = u @ d)"
  "(\<And>s. s \<in> glob p \<longleftrightarrow> (\<exists>t. s = d @ t)) \<Longrightarrow>
     n \<in> glob (CHR ''*'' # p) \<longleftrightarrow> (\<exists>u t. n = u @ d @ t)"
  unfolding glob_star_set by blast+

lemma glob_star_only: "glob ''*'' = UNIV"
  by (auto simp: glob_star_set)

lemma disabled_patterns:
  "SplitString kDisableTestFilter CHR '':'' = [''DISABLED_*'', ''*/DISABLED_*'']"
  by code_simp

lemma disabled_iff:
  "MatchesFilter name kDisableTestFilter \<longleftrightarrow>
     (\<exists>t. name = ''DISABLED_'' @ t) \<or> (\<exists>u t. name = u @ ''/DISABLED_'' @ t)"
proof -
  have 1: "name \<in> glob (''DISABLED_'' @ ''*'') \<longleftrightarrow> (\<exists>t. name = ''DISABLED_'' @ t)"
    by (subst glob_prefix) (simp_all add: glob_star_only)
  have 2: "s \<in> glob (''/DISABLED_'' @ ''*'') \<longleftrightarrow> (\<exists>t. s = ''/DISABLED_'' @ t)" for s
    by (subst glob_prefix) (simp_all add: glob_star_only)
  have 3: "name \<in> glob (CHR ''*'' # (''/DISABLED_'' @ ''*'')) \<longleftrightarrow>
      (\<exists>u t. name = u @ ''/DISABLED_'' @ t)"
    using 2 by (rule glob_star_suffix)
  show ?thesis
    using 1 3 unfolding matches_filter_split disabled_patterns by simp
qed

lemma death_patterns:
  "SplitString kDeathTestCaseFilter CHR '':'' = [''*DeathTest'', ''*DeathTest/*'']"
  by code_simp

lemma death_test_case_iff:
  "MatchesFilter name kDeathTestCaseFilter \<longleftrightarrow>
     (\<exists>u. name = u @ ''DeathTest'') \<or> (\<exists>u t. name = u @ ''DeathTest/'' @ t)"
proof -
  have 1: "s \<in> glob (''DeathTest'' @ []) \<longleftrightarrow> s = ''DeathTest''" for s
    by (subst glob_prefix) simp_all
  have 2: "s \<in> glob (''DeathTest/'' @ ''*'') \<longleftrightarrow> (\<exists>t. s = ''DeathTest/'' @ t)" for s
    by (subst glob_prefix) (simp_all add: glob_star_only)
  have "name \<in> glob (CHR ''*'' # (''DeathTest'' @ [])) \<longleftrightarrow> (\<exists>u. name = u @ ''DeathTest'')"
    "name \<in> glob (CHR ''*'' # (''DeathTest/'' @ ''*'')) \<longleftrightarrow> (\<exists>u t. name = u @ ''DeathTest/'' @ t)"
    using 1 by (rule glob_star_suffix(1)) (use 2 in \<open>rule glob_star_suffix(2)\<close>)
  then show ?thesis
    unfolding matches_filter_split death_patterns by simp
qed

end
