(* ===== verification/Gtest_FilePath.thy ===== *)
theory Gtest_FilePath
  imports Gtest_String
begin

text \<open>
  The class \<open>FilePath\<close> of googletest (\<open>gtest-filepath.cc\<close>, \<open>gtest-filepath.h\<close>), for the two platforms
  the file distinguishes by \<open>GTEST_OS_WINDOWS\<close> (the mobile variants are left out).  The file system
  is a state of an arbitrary type with the three system calls as parameters.
\<close>

datatype platform = Posix | Windows

definition kPathSeparator :: "platform \<Rightarrow> char" where
  "kPathSeparator p = (case p of Posix \<Rightarrow> CHR ''/'' | Windows \<Rightarrow> CHR 0x5C)"

definition kAlternatePathSeparator :: char where
  "kAlternatePathSeparator = CHR ''/''"

definition kCurrentDirectoryString :: "platform \<Rightarrow> string" where
  "kCurrentDirectoryString p = (case p of Posix \<Rightarrow> ''./'' | Windows \<Rightarrow> [CHR ''.'', CHR 0x5C])"

text \<open>\<open>GTEST_HAS_ALT_PATH_SEP_\<close> holds on Windows only.\<close>

definition IsPathSeparator :: "platform \<Rightarrow> char \<Rightarrow> bool" where
  "IsPathSeparator p c =
     (case p of Posix \<Rightarrow> c = kPathSeparator p
      | Windows \<Rightarrow> c = kPathSeparator p \<or> c = kAlternatePathSeparator)"

record FilePath =
  pathname :: string

section \<open>Normalization and construction\<close>

function normalize_loop :: "platform \<Rightarrow> string \<Rightarrow> string" where
  "normalize_loop p src =
     (case src of [] \<Rightarrow> []
      | c # rest \<Rightarrow>
          if c = CHR 0x00 then []
          else if \<not> IsPathSeparator p c then c # normalize_loop p rest
          else (if p = Windows \<and> c = kAlternatePathSeparator then kPathSeparator p else c) #
            normalize_loop p (dropWhile (IsPathSeparator p) rest))"
  by pat_completeness auto

termination
  by (relation "measure (length \<circ> snd)") (auto intro: le_imp_less_Suc length_dropWhile_le)

declare normalize_loop.simps [simp del]

definition Normalize :: "platform \<Rightarrow> FilePath \<Rightarrow> FilePath" where
  "Normalize p f = f\<lparr> pathname := normalize_loop p (pathname f) \<rparr>"

definition new_FilePath :: "platform \<Rightarrow> string \<Rightarrow> FilePath" where
  "new_FilePath p path = Normalize p \<lparr> pathname = path \<rparr>"

definition empty_FilePath :: FilePath where
  "empty_FilePath = \<lparr> pathname = [] \<rparr>"

definition FilePath_Set :: "FilePath \<Rightarrow> FilePath \<Rightarrow> FilePath" where
  "FilePath_Set this rhs = this\<lparr> pathname := pathname rhs \<rparr>"

definition IsEmpty :: "FilePath \<Rightarrow> bool" where
  "IsEmpty f \<longleftrightarrow> pathname f = []"

definition GetCurrentDir :: "platform \<Rightarrow> string option \<Rightarrow> FilePath" where
  "GetCurrentDir p getcwd = new_FilePath p (case getcwd of None \<Rightarrow> [] | Some cwd \<Rightarrow> cwd)"

section \<open>Taking paths apart\<close>

definition RemoveExtension :: "platform \<Rightarrow> string \<Rightarrow> FilePath \<Rightarrow> FilePath" where
  "RemoveExtension p extension f =
     (let dot_extension = ''.'' @ extension in
      if EndsWithCaseInsensitive (pathname f) dot_extension
      then new_FilePath p (take (length (pathname f) - length dot_extension) (pathname f))
      else f)"

text \<open>\<open>strrchr\<close>: the position of the last occurrence.\<close>

fun strrchr :: "string \<Rightarrow> char \<Rightarrow> nat option" where
  "strrchr [] c = None"
| "strrchr (x # s) c =
     (case strrchr s c of Some i \<Rightarrow> Some (Suc i) | None \<Rightarrow> if x = c then Some 0 else None)"

definition FindLastPathSeparator :: "platform \<Rightarrow> FilePath \<Rightarrow> nat option" where
  "FindLastPathSeparator p f =
     (let last_sep = strrchr (pathname f) (kPathSeparator p) in
      case p of Posix \<Rightarrow> last_sep
      | Windows \<Rightarrow>
          (case strrchr (pathname f) kAlternatePathSeparator of
             None \<Rightarrow> last_sep
           | Some last_alt_sep \<Rightarrow>
               (case last_sep of None \<Rightarrow> Some last_alt_sep
                | Some i \<Rightarrow> if i < last_alt_sep then Some last_alt_sep else last_sep)))"

definition RemoveDirectoryName :: "platform \<Rightarrow> FilePath \<Rightarrow> FilePath" where
  "RemoveDirectoryName p f =
     (case FindLastPathSeparator p f of
        Some last_sep \<Rightarrow> new_FilePath p (drop (last_sep + 1) (pathname f))
      | None \<Rightarrow> f)"

definition RemoveFileName :: "platform \<Rightarrow> FilePath \<Rightarrow> FilePath" where
  "RemoveFileName p f =
     (let dir = (case FindLastPathSeparator p f of
                   Some last_sep \<Rightarrow> take (last_sep + 1) (pathname f)
                 | None \<Rightarrow> kCurrentDirectoryString p) in
      new_FilePath p dir)"

definition IsDirectory :: "platform \<Rightarrow> FilePath \<Rightarrow> bool" where
  "IsDirectory p f \<longleftrightarrow>
     pathname f \<noteq> [] \<and> IsPathSeparator p (pathname f ! (length (pathname f) - 1))"

definition RemoveTrailingPathSeparator :: "platform \<Rightarrow> FilePath \<Rightarrow> FilePath" where
  "RemoveTrailingPathSeparator p f =
     (if IsDirectory p f then new_FilePath p (take (length (pathname f) - 1) (pathname f)) else f)"

definition IsAbsolutePath :: "platform \<Rightarrow> FilePath \<Rightarrow> bool" where
  "IsAbsolutePath p f =
     (let name = pathname f in
      case p of
        Windows \<Rightarrow> 3 \<le> length name \<and> IsAlpha (name ! 0) \<and> name ! 1 = CHR '':'' \<and>
          IsPathSeparator p (name ! 2)
      | Posix \<Rightarrow> (case name of [] \<Rightarrow> False | c # _ \<Rightarrow> IsPathSeparator p c))"

definition IsRootDirectory :: "platform \<Rightarrow> FilePath \<Rightarrow> bool" where
  "IsRootDirectory p f =
     (case p of
        Windows \<Rightarrow> length (pathname f) = 3 \<and> IsAbsolutePath p f
      | Posix \<Rightarrow> length (pathname f) = 1 \<and> IsPathSeparator p (pathname f ! 0))"

section \<open>Building names\<close>

definition ConcatPaths :: "platform \<Rightarrow> FilePath \<Rightarrow> FilePath \<Rightarrow> FilePath" where
  "ConcatPaths p directory relative_path =
     (if IsEmpty directory then relative_path
      else let dir = RemoveTrailingPathSeparator p directory in
        new_FilePath p (pathname dir @ [kPathSeparator p] @ pathname relative_path))"

definition MakeFileName :: "platform \<Rightarrow> FilePath \<Rightarrow> FilePath \<Rightarrow> nat \<Rightarrow> string \<Rightarrow> FilePath" where
  "MakeFileName p directory base_name number extension =
     (let file = (if number = 0 then pathname base_name @ ''.'' @ extension
                  else pathname base_name @ ''_'' @ dec_string number @ ''.'' @ extension) in
      ConcatPaths p directory (new_FilePath p file))"

section \<open>The file system\<close>

text \<open>\<open>stat\<close> succeeds, the status is a directory, \<open>mkdir\<close> with the new state and whether it succeeded.\<close>

record 'fs file_system =
  fs_stat :: "string \<Rightarrow> 'fs \<Rightarrow> bool"
  fs_isdir :: "string \<Rightarrow> 'fs \<Rightarrow> bool"
  fs_mkdir :: "string \<Rightarrow> 'fs \<Rightarrow> 'fs \<times> bool"

definition FileOrDirectoryExists :: "'fs file_system \<Rightarrow> 'fs \<Rightarrow> FilePath \<Rightarrow> bool" where
  "FileOrDirectoryExists F fs f = fs_stat F (pathname f) fs"

definition DirectoryExists :: "platform \<Rightarrow> 'fs file_system \<Rightarrow> 'fs \<Rightarrow> FilePath \<Rightarrow> bool" where
  "DirectoryExists p F fs f =
     (let path = (case p of
                    Windows \<Rightarrow> if IsRootDirectory p f then f else RemoveTrailingPathSeparator p f
                  | Posix \<Rightarrow> f) in
      fs_stat F (pathname path) fs \<and> fs_isdir F (pathname path) fs)"

text \<open>The counter is an \<open>int\<close>: its increment past the largest value is undefined.\<close>

definition INT_MAX :: nat where "INT_MAX = 2 ^ 31 - 1"

function unique_loop ::
    "platform \<Rightarrow> 'fs file_system \<Rightarrow> 'fs \<Rightarrow> FilePath \<Rightarrow> FilePath \<Rightarrow> string \<Rightarrow> nat \<Rightarrow> FilePath result" where
  "unique_loop p F fs directory base_name extension number =
     (if INT_MAX \<le> number then Inl (Undefined_behaviour ''number++'')
      else let full_pathname = FilePath_Set empty_FilePath
                 (MakeFileName p directory base_name number extension) in
        if FileOrDirectoryExists F fs full_pathname
        then unique_loop p F fs directory base_name extension (number + 1)
        else Inr full_pathname)"
  by pat_completeness auto

termination
  by (relation "measure (\<lambda>(p, F, fs, d, b, e, n). INT_MAX - n)") auto

declare unique_loop.simps [simp del]

definition GenerateUniqueFileName ::
    "platform \<Rightarrow> 'fs file_system \<Rightarrow> 'fs \<Rightarrow> FilePath \<Rightarrow> FilePath \<Rightarrow> string \<Rightarrow> FilePath result" where
  "GenerateUniqueFileName p F fs directory base_name extension =
     unique_loop p F fs directory base_name extension 0"

definition CreateFolder :: "platform \<Rightarrow> 'fs file_system \<Rightarrow> 'fs \<Rightarrow> FilePath \<Rightarrow> 'fs \<times> bool" where
  "CreateFolder p F fs f =
     (let (fs', ok) = fs_mkdir F (pathname f) fs in
      if \<not> ok then (fs', DirectoryExists p F fs' f) else (fs', True))"

text \<open>The recursion need not end, so not returning is the value \<open>None\<close>.\<close>

partial_function (option) CreateDirectoriesRecursively ::
    "platform \<Rightarrow> 'fs file_system \<Rightarrow> 'fs \<Rightarrow> FilePath \<Rightarrow> ('fs \<times> bool) option" where
  "CreateDirectoriesRecursively p F fs f =
     (if \<not> IsDirectory p f then Some (fs, False)
      else if length (pathname f) = 0 \<or> DirectoryExists p F fs f then Some (fs, True)
      else Option.bind
        (CreateDirectoriesRecursively p F fs (RemoveFileName p (RemoveTrailingPathSeparator p f)))
        (\<lambda>(fs', ok). if ok then Some (CreateFolder p F fs' f) else Some (fs', False)))"

section \<open>Normal paths\<close>

text \<open>No NUL, no alternate separator, no two separators in a row.\<close>

fun no_double :: "platform \<Rightarrow> string \<Rightarrow> bool" where
  "no_double p (a # b # s) \<longleftrightarrow>
     \<not> (IsPathSeparator p a \<and> IsPathSeparator p b) \<and> no_double p (b # s)"
| "no_double p s \<longleftrightarrow> True"

definition normal :: "platform \<Rightarrow> string \<Rightarrow> bool" where
  "normal p s \<longleftrightarrow> CHR 0x00 \<notin> set s \<and> (p = Windows \<longrightarrow> kAlternatePathSeparator \<notin> set s) \<and> no_double p s"

lemma path_sep_simps [simp]:
  "IsPathSeparator p (kPathSeparator p)"
  "\<not> IsPathSeparator p (CHR 0x00)" "kPathSeparator p \<noteq> CHR 0x00" "CHR 0x00 \<noteq> kPathSeparator p"
  "kPathSeparator Windows \<noteq> kAlternatePathSeparator"
  "kAlternatePathSeparator \<noteq> kPathSeparator Windows"
  by (cases p; simp add: IsPathSeparator_def kPathSeparator_def kAlternatePathSeparator_def)+

lemma sep_cases:
  "IsPathSeparator p c \<Longrightarrow> p = Windows \<and> c = kAlternatePathSeparator \<or> c = kPathSeparator p"
  by (cases p) (auto simp: IsPathSeparator_def)

lemma no_double_Cons:
  "no_double p (a # s) \<longleftrightarrow>
     (s = [] \<or> \<not> (IsPathSeparator p a \<and> IsPathSeparator p (hd s))) \<and> no_double p s"
  by (cases s) auto

lemma no_double_append:
  "no_double p (s @ t) \<longleftrightarrow> no_double p s \<and> no_double p t \<and>
     (s = [] \<or> t = [] \<or> \<not> (IsPathSeparator p (last s) \<and> IsPathSeparator p (hd t)))"
  by (induction s) (auto simp: no_double_Cons hd_append)

lemma normalize_simps [simp]:
  "normalize_loop p [] = []"
  "normalize_loop p (CHR 0x00 # rest) = []"
  "\<lbrakk>c \<noteq> CHR 0x00; \<not> IsPathSeparator p c\<rbrakk> \<Longrightarrow> normalize_loop p (c # rest) = c # normalize_loop p rest"
  by (subst normalize_loop.simps; simp)+

lemma normalize_sep [simp]:
  assumes "IsPathSeparator p c"
  shows "normalize_loop p (c # rest) =
    kPathSeparator p # normalize_loop p (dropWhile (IsPathSeparator p) rest)"
proof -
  from assms have "c \<noteq> CHR 0x00" by auto
  with assms sep_cases [OF assms] show ?thesis
    by (subst normalize_loop.simps) auto
qed

lemma normalize_cases:
  obtains (stop) "s = [] \<or> hd s = CHR 0x00"
    | (plain) c rest where "s = c # rest" "c \<noteq> CHR 0x00" "\<not> IsPathSeparator p c"
    | (sep) c rest where "s = c # rest" "IsPathSeparator p c"
  by (cases s) auto

lemma normalize_stop: "s = [] \<or> hd s = CHR 0x00 \<Longrightarrow> normalize_loop p s = []"
  by (cases s) auto

lemma normalize_hd:
  "normalize_loop p s \<noteq> [] \<Longrightarrow> IsPathSeparator p (hd (normalize_loop p s)) = IsPathSeparator p (hd s)"
  by (cases rule: normalize_cases [where s = s and p = p]) (auto simp: normalize_stop)

lemma plain_not_alt: "\<not> IsPathSeparator p c \<Longrightarrow> p = Windows \<longrightarrow> c \<noteq> kAlternatePathSeparator"
  by (auto simp: IsPathSeparator_def)

lemma drop_seps: "s = dropWhile (IsPathSeparator p) r \<Longrightarrow> s = [] \<or> \<not> IsPathSeparator p (hd s)"
  using hd_dropWhile by blast

lemma normalize_normal: "normal p (normalize_loop p s)"
proof (induction s rule: length_induct)
  case (1 s)
  show ?case
  proof (cases rule: normalize_cases [where s = s and p = p])
    case stop
    then show ?thesis by (simp add: normalize_stop normal_def)
  next
    case (plain c rest)
    with 1 have "normal p (normalize_loop p rest)" by simp
    with plain plain_not_alt [of p c] show ?thesis
      by (auto simp: normal_def no_double_Cons)
  next
    case (sep c rest)
    let ?d = "dropWhile (IsPathSeparator p) rest"
    have "length ?d < length s"
      using sep by (simp add: le_imp_less_Suc length_dropWhile_le)
    with 1 have n: "normal p (normalize_loop p ?d)" by blast
    have "normalize_loop p ?d = [] \<or> \<not> IsPathSeparator p (hd (normalize_loop p ?d))"
      using drop_seps [OF refl, of p rest] normalize_hd [of p ?d] normalize_simps(1) [of p] by metis
    with n sep show ?thesis
      by (auto simp: normal_def no_double_Cons)
  qed
qed

lemma normal_Cons:
  "normal p (c # s) \<Longrightarrow> normal p s \<and> c \<noteq> CHR 0x00 \<and>
     (IsPathSeparator p c \<longrightarrow> c = kPathSeparator p \<and> dropWhile (IsPathSeparator p) s = s)"
  by (cases s) (auto simp: normal_def dest: sep_cases)

lemma normalize_id: "normal p s \<Longrightarrow> normalize_loop p s = s"
proof (induction s)
  case (Cons c s)
  then show ?case
    using normal_Cons [OF Cons.prems] by (cases "IsPathSeparator p c") simp_all
qed simp

lemma normal_sep: "\<lbrakk>normal p s; c \<in> set s; IsPathSeparator p c\<rbrakk> \<Longrightarrow> c = kPathSeparator p"
  by (auto simp: normal_def dest: sep_cases)

lemma normal_append: "normal p (s @ t) \<Longrightarrow> normal p s \<and> normal p t"
  by (auto simp: normal_def no_double_append)

lemma normal_take: "normal p s \<Longrightarrow> normal p (take n s)"
  by (metis append_take_drop_id normal_append)

lemma normal_drop: "normal p s \<Longrightarrow> normal p (drop n s)"
  by (metis append_take_drop_id normal_append)

abbreviation normal_path :: "platform \<Rightarrow> FilePath \<Rightarrow> bool" where
  "normal_path p f \<equiv> normal p (pathname f)"

lemma new_FilePath_normal [simp]: "normal_path p (new_FilePath p s)"
  by (simp add: new_FilePath_def Normalize_def normalize_normal)

lemma pathname_new [simp]: "normal p s \<Longrightarrow> pathname (new_FilePath p s) = s"
  by (simp add: new_FilePath_def Normalize_def normalize_id)

lemma strrchr_None: "strrchr s c = None \<longleftrightarrow> c \<notin> set s"
  by (induction s) (auto split: option.splits)

lemma strrchr_Some:
  "strrchr s c = Some i \<Longrightarrow> i < length s \<and> s ! i = c \<and> c \<notin> set (drop (i + 1) s)"
  by (induction s arbitrary: i) (auto simp: strrchr_None split: option.splits if_splits)

lemma FindLast_normal:
  assumes "normal_path p f"
  shows "FindLastPathSeparator p f = strrchr (pathname f) (kPathSeparator p)"
  using assms strrchr_None [of "pathname f" kAlternatePathSeparator]
  by (cases p) (simp_all add: FindLastPathSeparator_def Let_def normal_def)

lemma FindLast_Some:
  assumes "normal_path p f" "FindLastPathSeparator p f = Some i"
  shows "\<exists>d n. pathname f = d @ kPathSeparator p # n \<and> i = length d \<and> (\<forall>c \<in> set n. \<not> IsPathSeparator p c)"
proof -
  from assms have s: "strrchr (pathname f) (kPathSeparator p) = Some i"
    by (simp add: FindLast_normal)
  note i = strrchr_Some [OF s]
  then have "pathname f = take i (pathname f) @ kPathSeparator p # drop (i + 1) (pathname f)"
    using id_take_nth_drop [of i "pathname f"] by simp
  moreover have "\<not> IsPathSeparator p c" if "c \<in> set (drop (i + 1) (pathname f))" for c
    using that i assms(1) by (metis in_set_dropD normal_sep)
  ultimately show ?thesis
    using i by (intro exI [of _ "take i (pathname f)"] exI [of _ "drop (i + 1) (pathname f)"]) auto
qed

lemma FindLast_None:
  assumes "normal_path p f" "FindLastPathSeparator p f = None"
  shows "\<forall>c \<in> set (pathname f). \<not> IsPathSeparator p c"
  using assms by (metis FindLast_normal normal_sep strrchr_None)

lemma current_dir_normal [simp]: "normal p (kCurrentDirectoryString p)"
  by (cases p) (simp_all add: normal_def kCurrentDirectoryString_def kAlternatePathSeparator_def
      IsPathSeparator_def kPathSeparator_def)

lemma RemoveFileName_normal:
  assumes "normal_path p f"
  shows "pathname (RemoveFileName p f) =
    (case FindLastPathSeparator p f of Some i \<Rightarrow> take (i + 1) (pathname f)
     | None \<Rightarrow> kCurrentDirectoryString p)"
  using assms by (auto simp: RemoveFileName_def normal_take split: option.splits)

lemma IsDirectory_iff: "IsDirectory p f \<longleftrightarrow> pathname f \<noteq> [] \<and> IsPathSeparator p (last (pathname f))"
  by (auto simp: IsDirectory_def last_conv_nth)

lemma RemoveTrailing_normal:
  assumes "normal_path p f"
  shows "pathname (RemoveTrailingPathSeparator p f) =
    (if IsDirectory p f then butlast (pathname f) else pathname f)"
  using assms by (auto simp: RemoveTrailingPathSeparator_def normal_take butlast_conv_take)

lemma trailing_not_sep:
  assumes "normal_path p f"
  shows "\<not> IsDirectory p (RemoveTrailingPathSeparator p f)"
proof (cases "IsDirectory p f")
  case True
  then obtain s c where s: "pathname f = s @ [c]" "IsPathSeparator p c"
    by (metis IsDirectory_iff append_butlast_last_id)
  with assms have "s = [] \<or> \<not> IsPathSeparator p (last s)"
    by (auto simp: normal_def no_double_append)
  with True s assms show ?thesis
    by (auto simp: IsDirectory_iff [of p "RemoveTrailingPathSeparator p f"] RemoveTrailing_normal)
next
  case False
  then show ?thesis by (simp add: RemoveTrailingPathSeparator_def)
qed

lemma FilePath_Set_simp [simp]: "FilePath_Set f g = g"
  by (cases f; cases g) (simp add: FilePath_Set_def)

lemma unique_loop_free:
  assumes "k < INT_MAX" "n \<le> k" "\<not> FileOrDirectoryExists F fs (MakeFileName p d b k e)"
    and "\<And>j. \<lbrakk>n \<le> j; j < k\<rbrakk> \<Longrightarrow> FileOrDirectoryExists F fs (MakeFileName p d b j e)"
  shows "unique_loop p F fs d b e n = Inr (MakeFileName p d b k e)"
  using assms
proof (induction "k - n" arbitrary: n)
  case 0
  then show ?case by (subst unique_loop.simps) simp
next
  case (Suc m)
  then have "FileOrDirectoryExists F fs (MakeFileName p d b n e)" "n < k" by auto
  moreover have "unique_loop p F fs d b e (n + 1) = Inr (MakeFileName p d b k e)"
    using Suc by auto
  ultimately show ?case
    using Suc.prems(1) by (subst unique_loop.simps) simp
qed

lemma unique_loop_full:
  assumes "\<And>j. \<lbrakk>n \<le> j; j < INT_MAX\<rbrakk> \<Longrightarrow> FileOrDirectoryExists F fs (MakeFileName p d b j e)"
  shows "unique_loop p F fs d b e n = Inl (Undefined_behaviour ''number++'')"
  using assms
proof (induction "INT_MAX - n" arbitrary: n)
  case 0
  then show ?case by (subst unique_loop.simps) simp
next
  case (Suc m)
  then have "unique_loop p F fs d b e (n + 1) = Inl (Undefined_behaviour ''number++'')" by auto
  with Suc show ?case by (subst unique_loop.simps) simp
qed

lemma make_name_normal [simp]: "normal_path p (MakeFileName p d b k e)"
  by (simp add: MakeFileName_def ConcatPaths_def Let_def)

lemma unique_normal:
  assumes "GenerateUniqueFileName p F fs d b e = Inr h"
  shows "normal_path p h"
proof (cases "\<exists>k < INT_MAX. \<not> FileOrDirectoryExists F fs (MakeFileName p d b k e)")
  case True
  then obtain k where k: "k < INT_MAX \<and> \<not> FileOrDirectoryExists F fs (MakeFileName p d b k e)"
    "\<And>j. j < k \<Longrightarrow> \<not> (j < INT_MAX \<and> \<not> FileOrDirectoryExists F fs (MakeFileName p d b j e))"
    using exists_least_iff [of "\<lambda>k. k < INT_MAX \<and> \<not> FileOrDirectoryExists F fs (MakeFileName p d b k e)"]
    by blast
  then have "unique_loop p F fs d b e 0 = Inr (MakeFileName p d b k e)"
    by (intro unique_loop_free) auto
  with assms show ?thesis by (simp add: GenerateUniqueFileName_def) (metis make_name_normal)
next
  case False
  then have "unique_loop p F fs d b e 0 = Inl (Undefined_behaviour ''number++'')"
    by (intro unique_loop_full) auto
  with assms show ?thesis by (simp add: GenerateUniqueFileName_def)
qed

text \<open>Every path the class can make is in normal form (no NUL character, no alternate separator,
  no two separators in a row), and normalizing it again changes nothing: the constructor establishes
  the form and every operation keeps it.\<close>

lemma file_path_invariant:
  assumes "normal_path p f" "normal_path p g"
  shows "normal_path p (new_FilePath p s) \<and> Normalize p f = f \<and>
    normal_path p (RemoveExtension p s f) \<and> normal_path p (RemoveDirectoryName p f) \<and>
    normal_path p (RemoveFileName p f) \<and> normal_path p (RemoveTrailingPathSeparator p f) \<and>
    normal_path p (ConcatPaths p f g) \<and> normal_path p (MakeFileName p f g number s) \<and>
    normal_path p (FilePath_Set f g) \<and> normal_path p (GetCurrentDir p cwd) \<and>
    (\<forall>h. GenerateUniqueFileName p F fs f g s = Inr h \<longrightarrow> normal_path p h)"
  using assms unique_normal [of p F fs f g s]
  by (simp add: RemoveExtension_def RemoveDirectoryName_def RemoveFileName_def Normalize_def
      RemoveTrailingPathSeparator_def ConcatPaths_def GetCurrentDir_def Let_def normalize_id
      split: option.splits)

lemma file_path_invariant_witness:
  "normal_path Posix (ConcatPaths Posix (new_FilePath Posix ''a//b'') (new_FilePath Posix ''/c''))"
  using file_path_invariant [where p = Posix and f = "new_FilePath Posix ''a//b''"
      and g = "new_FilePath Posix ''/c''" and F = "undefined :: unit file_system", OF new_FilePath_normal new_FilePath_normal]
  by blast

text \<open>A path with a separator is put together again by \<open>ConcatPaths\<close> from what
  \<open>RemoveFileName\<close> and \<open>RemoveDirectoryName\<close> make of it; the two parts, one behind the other, are the
  path itself. (For \<open>/a_file\<close> the directory part is \<open>/\<close>, not the current directory the comments of
  \<open>RemoveFileName\<close> promise.)\<close>

lemma file_path_round_trip:
  assumes "normal_path p f" "FindLastPathSeparator p f \<noteq> None"
  shows "ConcatPaths p (RemoveFileName p f) (RemoveDirectoryName p f) = f \<and>
    pathname (RemoveFileName p f) @ pathname (RemoveDirectoryName p f) = pathname f \<and>
    IsDirectory p (RemoveFileName p f)"
proof -
  from assms(2) obtain i where i: "FindLastPathSeparator p f = Some i" by blast
  obtain d n where f: "pathname f = d @ kPathSeparator p # n" and l: "i = length d"
    using FindLast_Some [OF assms(1) i] by blast
  have dir: "pathname (RemoveFileName p f) = d @ [kPathSeparator p]"
    using RemoveFileName_normal [OF assms(1)] i f l by simp
  have base: "pathname (RemoveDirectoryName p f) = n"
    using i f l normal_drop [OF assms(1), of "length d + 1"] by (simp add: RemoveDirectoryName_def)
  have isdir: "IsDirectory p (RemoveFileName p f)"
    using dir by (simp add: IsDirectory_iff)
  have "normal_path p (RemoveFileName p f)"
    by (simp add: RemoveFileName_def)
  then have "pathname (RemoveTrailingPathSeparator p (RemoveFileName p f)) = d"
    using dir isdir by (simp add: RemoveTrailing_normal)
  then have "ConcatPaths p (RemoveFileName p f) (RemoveDirectoryName p f) = new_FilePath p (pathname f)"
    using dir base f by (simp add: ConcatPaths_def IsEmpty_def)
  also have "\<dots> = f"
    using assms(1) by (intro FilePath.equality) simp_all
  finally show ?thesis
    using dir base f isdir by simp
qed

lemma file_path_round_trip_witness:
  "pathname (RemoveFileName Posix (new_FilePath Posix ''/a_file'')) @
     pathname (RemoveDirectoryName Posix (new_FilePath Posix ''/a_file'')) = ''/a_file''"
proof -
  have "normal Posix ''/a_file''" by code_simp
  moreover have "strrchr ''/a_file'' CHR ''/'' = Some 0" by code_simp
  ultimately show ?thesis
    using file_path_round_trip [of Posix "new_FilePath Posix ''/a_file''"]
    by (simp add: FindLastPathSeparator_def kPathSeparator_def)
qed

text \<open>\<open>GenerateUniqueFileName\<close> returns the name with the smallest number for which nothing
  exists in the file system; only if all numbers of an \<open>int\<close> are taken does its counter overflow.\<close>

lemma unique_file_name_least:
  "(\<forall>k < INT_MAX. \<not> FileOrDirectoryExists F fs (MakeFileName p d b k e) \<longrightarrow>
      (\<forall>j < k. FileOrDirectoryExists F fs (MakeFileName p d b j e)) \<longrightarrow>
      GenerateUniqueFileName p F fs d b e = Inr (MakeFileName p d b k e)) \<and>
   ((\<forall>j < INT_MAX. FileOrDirectoryExists F fs (MakeFileName p d b j e)) \<longrightarrow>
      GenerateUniqueFileName p F fs d b e = Inl (Undefined_behaviour ''number++''))"
  by (auto simp: GenerateUniqueFileName_def intro!: unique_loop_free unique_loop_full)

lemma unique_file_name_least_witness:
  "GenerateUniqueFileName Posix
     \<lparr> fs_stat = (\<lambda>path fs. path \<in> set fs), fs_isdir = (\<lambda>_ _. False), fs_mkdir = (\<lambda>_ fs. (fs, False)) \<rparr>
     [''d/t.xml''] (new_FilePath Posix ''d/'') (new_FilePath Posix ''t'') ''xml'' =
   Inr (MakeFileName Posix (new_FilePath Posix ''d/'') (new_FilePath Posix ''t'') 1 ''xml'')"
proof -
  let ?F = "\<lparr> fs_stat = (\<lambda>path fs. path \<in> set fs), fs_isdir = (\<lambda>_ _. False),
    fs_mkdir = (\<lambda>_ fs. (fs, False)) \<rparr>"
  let ?name = "\<lambda>k. MakeFileName Posix (new_FilePath Posix ''d/'') (new_FilePath Posix ''t'') k ''xml''"
  have "pathname (?name 0) = ''d/t.xml''" "pathname (?name 1) = ''d/t_1.xml''" by code_simp+
  then have "FileOrDirectoryExists ?F [''d/t.xml''] (?name 0)"
    "\<not> FileOrDirectoryExists ?F [''d/t.xml''] (?name 1)"
    by (simp_all add: FileOrDirectoryExists_def)
  with unique_file_name_least [of ?F "[''d/t.xml'']" Posix] show ?thesis
    by (simp add: INT_MAX_def less_Suc_eq)
qed

section \<open>Creating directories\<close>

lemma parent_shorter:
  assumes "normal_path p f" "IsDirectory p f"
  defines "parent \<equiv> RemoveFileName p (RemoveTrailingPathSeparator p f)"
  shows "normal_path p parent \<and>
    (pathname parent = kCurrentDirectoryString p \<or> length (pathname parent) < length (pathname f))"
proof -
  let ?t = "RemoveTrailingPathSeparator p f"
  have t: "pathname ?t = butlast (pathname f)" "normal_path p ?t"
    using assms(1,2) by (auto simp: RemoveTrailing_normal butlast_conv_take normal_take)
  have ne: "pathname f \<noteq> []" using assms(2) by (simp add: IsDirectory_def)
  have "length (take n (pathname ?t)) < length (pathname f)" for n
    using ne t(1) by (cases "pathname f") auto
  moreover have "normal_path p parent"
    unfolding parent_def RemoveFileName_def Let_def by (rule new_FilePath_normal)
  ultimately show ?thesis
    using RemoveFileName_normal [OF t(2)] by (auto simp: parent_def split: option.splits)
qed

text \<open>C32: \<open>CreateDirectoriesRecursively\<close> returns whenever the current directory exists, for any path
  and any answers of \<open>mkdir\<close>.\<close>

theorem create_directories_returns:
  assumes "normal_path p f"
    and "DirectoryExists p F fs (new_FilePath p (kCurrentDirectoryString p))"
  shows "\<exists>fs' ok. CreateDirectoriesRecursively p F fs f = Some (fs', ok)"
  using assms(1)
proof (induction "length (pathname f)" arbitrary: f rule: less_induct)
  case less
  show ?case
  proof (cases "\<not> IsDirectory p f \<or> length (pathname f) = 0 \<or> DirectoryExists p F fs f")
    case True
    then show ?thesis by (subst CreateDirectoriesRecursively.simps) auto
  next
    case False
    let ?parent = "RemoveFileName p (RemoveTrailingPathSeparator p f)"
    from False have d: "IsDirectory p f" by blast
    have "\<exists>fs' ok. CreateDirectoriesRecursively p F fs ?parent = Some (fs', ok)"
    proof (cases "pathname ?parent = kCurrentDirectoryString p")
      case True
      then have "?parent = new_FilePath p (kCurrentDirectoryString p)"
        by (intro FilePath.equality) simp_all
      with assms(2) have "DirectoryExists p F fs ?parent"
        by (simp only:)
      then show ?thesis by (subst CreateDirectoriesRecursively.simps) auto
    next
      case False
      with parent_shorter [OF less.prems d] less.hyps show ?thesis by blast
    qed
    then show ?thesis
      by (subst CreateDirectoriesRecursively.simps) (auto simp: split_def)
  qed
qed

theorem create_directories_returns_witness:
  "\<exists>fs' ok. CreateDirectoriesRecursively Posix
     \<lparr> fs_stat = (\<lambda>path fs. path \<in> set fs), fs_isdir = (\<lambda>path fs. path \<in> set fs),
       fs_mkdir = (\<lambda>path fs. (path # fs, True)) \<rparr> [''./''] (new_FilePath Posix ''a/b/'') = Some (fs', ok)"
  by (rule create_directories_returns)
    (use current_dir_normal [of Posix] in \<open>simp_all add: DirectoryExists_def kCurrentDirectoryString_def\<close>)

lemma parent_of_current:
  "RemoveFileName p (RemoveTrailingPathSeparator p (new_FilePath p (kCurrentDirectoryString p))) =
     new_FilePath p (kCurrentDirectoryString p) \<and>
   IsDirectory p (new_FilePath p (kCurrentDirectoryString p))"
proof -
  let ?c = "new_FilePath p (kCurrentDirectoryString p)"
  have d: "IsDirectory p ?c"
    by (cases p) (simp_all add: IsDirectory_def, simp_all add: kCurrentDirectoryString_def
        IsPathSeparator_def kPathSeparator_def)
  let ?t = "RemoveTrailingPathSeparator p ?c"
  have "pathname ?t = butlast (kCurrentDirectoryString p)"
    using d RemoveTrailing_normal [OF new_FilePath_normal, of p "kCurrentDirectoryString p"] by simp
  then have t: "pathname ?t = ''.''"
    by (cases p) (simp_all add: kCurrentDirectoryString_def)
  have n: "normal_path p ?t"
    using d by (simp add: RemoveTrailingPathSeparator_def)
  have "FindLastPathSeparator p ?t = None"
    unfolding FindLast_normal [OF n] t by (cases p) (simp_all add: kPathSeparator_def)
  with d show ?thesis
    by (simp add: RemoveFileName_def)
qed

lemma create_directories_Some:
  "CreateDirectoriesRecursively p F fs f = Some y \<Longrightarrow>
     f = new_FilePath p (kCurrentDirectoryString p) \<longrightarrow> DirectoryExists p F fs f"
proof (rule CreateDirectoriesRecursively.raw_induct [where
      P = "\<lambda>p F fs f y. f = new_FilePath p (kCurrentDirectoryString p) \<longrightarrow> DirectoryExists p F fs f"])
  fix rec p F fs f y
  assume IH: "\<And>p F fs f y. rec p F fs f = Some y \<Longrightarrow>
      f = new_FilePath p (kCurrentDirectoryString p) \<longrightarrow> DirectoryExists p F fs f"
    and body: "(if \<not> IsDirectory p f then Some (fs, False)
      else if length (pathname f) = 0 \<or> DirectoryExists p F fs f then Some (fs, True)
      else Option.bind (rec p F fs (RemoveFileName p (RemoveTrailingPathSeparator p f)))
        (\<lambda>(fs', ok). if ok then Some (CreateFolder p F fs' f) else Some (fs', False))) = Some y"
  show "f = new_FilePath p (kCurrentDirectoryString p) \<longrightarrow> DirectoryExists p F fs f"
  proof (intro impI, rule ccontr)
    assume f: "f = new_FilePath p (kCurrentDirectoryString p)" and no: "\<not> DirectoryExists p F fs f"
    have "IsDirectory p f" "RemoveFileName p (RemoveTrailingPathSeparator p f) = f"
      using parent_of_current [of p] f by auto
    then obtain z where "rec p F fs f = Some z"
      using body no by (auto simp: IsDirectory_def bind_eq_Some_conv split: if_splits)
    from IH [OF this] f no show False by blast
  qed
qed

text \<open>Every step up ends at the current directory: where that does not exist, as in a directory
  that has been removed, \<open>CreateDirectoriesRecursively\<close> calls itself on it forever.\<close>

lemma create_directories_diverges:
  assumes "\<not> DirectoryExists p F fs (new_FilePath p (kCurrentDirectoryString p))"
  shows "CreateDirectoriesRecursively p F fs (new_FilePath p (kCurrentDirectoryString p)) = None"
  using assms create_directories_Some [of p F fs "new_FilePath p (kCurrentDirectoryString p)"]
  by (cases "CreateDirectoriesRecursively p F fs (new_FilePath p (kCurrentDirectoryString p))") auto

lemma create_directories_diverges_witness:
  "CreateDirectoriesRecursively Posix
     \<lparr> fs_stat = (\<lambda>path fs. path \<in> set fs), fs_isdir = (\<lambda>path fs. path \<in> set fs),
       fs_mkdir = (\<lambda>path fs. (fs, False)) \<rparr> [] (new_FilePath Posix (kCurrentDirectoryString Posix)) = None"
  by (rule create_directories_diverges) (simp add: DirectoryExists_def)

lemma create_directories_creates:
  assumes law: "\<And>fs f. snd (fs_mkdir F (pathname f) fs) \<Longrightarrow>
      DirectoryExists p F (fst (fs_mkdir F (pathname f) fs)) f"
    and "CreateDirectoriesRecursively p F fs f = Some (fs', True)"
  shows "IsDirectory p f \<and> DirectoryExists p F fs' f"
proof (cases "IsDirectory p f \<and> (length (pathname f) = 0 \<or> DirectoryExists p F fs f)")
  case True
  with assms(2) show ?thesis
    by (subst (asm) CreateDirectoriesRecursively.simps) (auto simp: IsDirectory_def)
next
  case False
  with assms(2) obtain fs1 where "IsDirectory p f" "CreateFolder p F fs1 f = (fs', True)"
    by (subst (asm) CreateDirectoriesRecursively.simps)
      (auto simp: bind_eq_Some_conv split: if_splits)
  with law [of f fs1] show ?thesis
    by (auto simp: CreateFolder_def split_def Let_def split: if_splits)
qed

end
