(* ===== verification/Gtest_UnitTest.thy ===== *)
theory Gtest_UnitTest
  imports Gtest_Result Gtest_Filter Gtest_FilePath "HOL-Library.Signed_Division"
begin

text \<open>
  The registry of tests of googletest: \<open>TestInfo\<close>, \<open>TestCase\<close> and \<open>UnitTestImpl\<close> (\<open>gtest.h\<close>,
  \<open>gtest-internal-inl.h\<close>, \<open>gtest.cc\<close>): registration with death test cases first, the counts, the
  selection of the tests by filter and shard, listing, shuffling, and the recording of properties.
  A pointer to a test case or a test is its index in the vector that owns it.
\<close>

section \<open>State\<close>

record TestInfo =
  test_case_name :: string
  test_name :: string
  type_param :: "string option"
  value_param :: "string option"
  fixture_class_id :: nat
  should_run :: bool
  is_disabled :: bool
  matches_filter :: bool
  result_of :: TestResult

definition new_TestInfo ::
    "string \<Rightarrow> string \<Rightarrow> string option \<Rightarrow> string option \<Rightarrow> nat \<Rightarrow> TestInfo" where
  "new_TestInfo a_test_case_name a_name a_type_param a_value_param a_fixture_class_id =
     \<lparr> test_case_name = a_test_case_name, test_name = a_name, type_param = a_type_param,
       value_param = a_value_param, fixture_class_id = a_fixture_class_id, should_run = False,
       is_disabled = False, matches_filter = False, result_of = new_TestResult \<rparr>"

definition is_reportable :: "TestInfo \<Rightarrow> bool" where
  "is_reportable t = matches_filter t"

definition ClearTestResult :: "TestInfo \<Rightarrow> TestInfo" where
  "ClearTestResult t = t\<lparr> result_of := Clear (result_of t) \<rparr>"

record TestCase =
  case_name :: string
  case_type_param :: "string option"
  test_info_list :: "TestInfo list"
  test_indices :: "int list"
  case_should_run :: bool
  case_elapsed_time :: int
  case_ad_hoc_result :: TestResult

definition new_TestCase :: "string \<Rightarrow> string option \<Rightarrow> TestCase" where
  "new_TestCase a_name a_type_param =
     \<lparr> case_name = a_name, case_type_param = a_type_param, test_info_list = [], test_indices = [],
       case_should_run = False, case_elapsed_time = 0, case_ad_hoc_result = new_TestResult \<rparr>"

section \<open>TestCase\<close>

definition TestPassed :: "TestInfo \<Rightarrow> bool" where
  "TestPassed t \<longleftrightarrow> should_run t \<and> Passed (result_of t)"

definition TestFailed :: "TestInfo \<Rightarrow> bool" where
  "TestFailed t \<longleftrightarrow> should_run t \<and> Failed (result_of t)"

definition TestReportableDisabled :: "TestInfo \<Rightarrow> bool" where
  "TestReportableDisabled t \<longleftrightarrow> is_reportable t \<and> is_disabled t"

definition successful_test_count :: "TestCase \<Rightarrow> int" where
  "successful_test_count c = CountIf (test_info_list c) TestPassed"

definition failed_test_count :: "TestCase \<Rightarrow> int" where
  "failed_test_count c = CountIf (test_info_list c) TestFailed"

definition reportable_disabled_test_count :: "TestCase \<Rightarrow> int" where
  "reportable_disabled_test_count c = CountIf (test_info_list c) TestReportableDisabled"

definition disabled_test_count :: "TestCase \<Rightarrow> int" where
  "disabled_test_count c = CountIf (test_info_list c) is_disabled"

definition reportable_test_count :: "TestCase \<Rightarrow> int" where
  "reportable_test_count c = CountIf (test_info_list c) is_reportable"

definition test_to_run_count :: "TestCase \<Rightarrow> int" where
  "test_to_run_count c = CountIf (test_info_list c) should_run"

definition total_test_count :: "TestCase \<Rightarrow> int" where
  "total_test_count c = int (length (test_info_list c))"

definition case_Failed :: "TestCase \<Rightarrow> bool" where
  "case_Failed c \<longleftrightarrow> failed_test_count c > 0"

definition case_Passed :: "TestCase \<Rightarrow> bool" where
  "case_Passed c \<longleftrightarrow> \<not> case_Failed c"

text \<open>The index of the i-th test in the shuffled order, and the test.\<close>

definition GetMutableTestInfo :: "TestCase \<Rightarrow> int \<Rightarrow> nat option" where
  "GetMutableTestInfo c i =
     (let index = GetElementOr (test_indices c) i (-1) in
      if index < 0 then None else Some (nat index))"

definition GetTestInfo :: "TestCase \<Rightarrow> int \<Rightarrow> TestInfo option" where
  "GetTestInfo c i =
     (let index = GetElementOr (test_indices c) i (-1) in
      if index < 0 then None else Some (test_info_list c ! nat index))"

definition case_AddTestInfo :: "TestInfo \<Rightarrow> TestCase \<Rightarrow> TestCase" where
  "case_AddTestInfo test_info c =
     c\<lparr> test_info_list := test_info_list c @ [test_info],
        test_indices := test_indices c @ [int (length (test_indices c))] \<rparr>"

definition case_ClearResult :: "TestCase \<Rightarrow> TestCase" where
  "case_ClearResult c =
     c\<lparr> case_ad_hoc_result := Clear (case_ad_hoc_result c),
        test_info_list := map ClearTestResult (test_info_list c) \<rparr>"

definition case_ShuffleTests :: "Random \<Rightarrow> TestCase \<Rightarrow> (TestCase \<times> Random) option" where
  "case_ShuffleTests random c =
     (case Shuffle random (test_indices c) of
        None \<Rightarrow> None
      | Some (indices, random') \<Rightarrow> Some (c\<lparr> test_indices := indices \<rparr>, random'))"

definition case_UnshuffleTests :: "TestCase \<Rightarrow> TestCase" where
  "case_UnshuffleTests c = c\<lparr> test_indices := map int [0..<length (test_indices c)] \<rparr>"

section \<open>UnitTestImpl\<close>

record UnitTestImpl =
  original_working_dir :: FilePath
  test_cases :: "TestCase list"
  test_case_indices :: "int list"
  last_death_test_case :: int
  current_test_case :: "nat option"
  current_test_info :: "(nat \<times> nat) option"
  ad_hoc_test_result :: TestResult
  random_seed :: int
  random :: Random

definition new_UnitTestImpl :: UnitTestImpl where
  "new_UnitTestImpl =
     \<lparr> original_working_dir = empty_FilePath, test_cases = [], test_case_indices = [],
       last_death_test_case = -1, current_test_case = None, current_test_info = None,
       ad_hoc_test_result = new_TestResult, random_seed = 0, random = new_Random 0 \<rparr>"

definition GetTestCase :: "UnitTestImpl \<Rightarrow> int \<Rightarrow> TestCase option" where
  "GetTestCase u i =
     (let index = GetElementOr (test_case_indices u) i (-1) in
      if index < 0 then None else Some (test_cases u ! nat i))"

definition GetMutableTestCase :: "UnitTestImpl \<Rightarrow> int \<Rightarrow> nat option" where
  "GetMutableTestCase u i =
     (let index = GetElementOr (test_case_indices u) i (-1) in
      if index < 0 then None else Some (nat index))"

fun find_index :: "('a \<Rightarrow> bool) \<Rightarrow> 'a list \<Rightarrow> nat option" where
  "find_index p [] = None"
| "find_index p (x # xs) = (if p x then Some 0 else map_option Suc (find_index p xs))"

definition insert_at :: "nat \<Rightarrow> 'a \<Rightarrow> 'a list \<Rightarrow> 'a list" where
  "insert_at i x xs = take i xs @ [x] @ drop i xs"

text \<open>\<open>GetTestCase\<close> with a name: the index of the test case, and the state with it.\<close>

definition find_or_create_TestCase ::
    "string \<Rightarrow> string option \<Rightarrow> UnitTestImpl \<Rightarrow> nat \<times> UnitTestImpl" where
  "find_or_create_TestCase a_test_case_name a_type_param u =
     (case find_index (\<lambda>c. case_name c = a_test_case_name) (test_cases u) of
        Some i \<Rightarrow> (i, u)
      | None \<Rightarrow>
          let new_test_case = new_TestCase a_test_case_name a_type_param;
              indices = test_case_indices u @ [int (length (test_case_indices u))] in
          if MatchesFilter a_test_case_name kDeathTestCaseFilter then
            let last = last_death_test_case u + 1 in
            (nat last,
             u\<lparr> last_death_test_case := last,
                test_cases := insert_at (nat last) new_test_case (test_cases u),
                test_case_indices := indices \<rparr>)
          else
            (length (test_cases u),
             u\<lparr> test_cases := test_cases u @ [new_test_case], test_case_indices := indices \<rparr>))"

definition update_case :: "nat \<Rightarrow> (TestCase \<Rightarrow> TestCase) \<Rightarrow> UnitTestImpl \<Rightarrow> UnitTestImpl" where
  "update_case i f u = u\<lparr> test_cases := (test_cases u)[i := f (test_cases u ! i)] \<rparr>"

text \<open>\<open>AddTestInfo\<close>; \<open>getcwd\<close> is the answer of the system.\<close>

definition AddTestInfo ::
    "platform \<Rightarrow> string option \<Rightarrow> TestInfo \<Rightarrow> UnitTestImpl \<Rightarrow> UnitTestImpl option" where
  "AddTestInfo p getcwd test_info u =
     (let u1 = (if IsEmpty (original_working_dir u)
                then u\<lparr> original_working_dir :=
                  FilePath_Set (original_working_dir u) (GetCurrentDir p getcwd) \<rparr> else u) in
      if IsEmpty (original_working_dir u) \<and> IsEmpty (original_working_dir u1) then None
      else let (i, u2) = find_or_create_TestCase (test_case_name test_info) (type_param test_info) u1 in
        Some (update_case i (case_AddTestInfo test_info) u2))"

fun sum_from :: "int \<Rightarrow> (TestCase \<Rightarrow> int) \<Rightarrow> TestCase list \<Rightarrow> int" where
  "sum_from n method [] = n"
| "sum_from n method (c # cs) = sum_from (n + method c) method cs"

definition SumOverTestCaseList :: "TestCase list \<Rightarrow> (TestCase \<Rightarrow> int) \<Rightarrow> int" where
  "SumOverTestCaseList cs method = sum_from 0 method cs"

definition TestCasePassed :: "TestCase \<Rightarrow> bool" where
  "TestCasePassed c \<longleftrightarrow> case_should_run c \<and> case_Passed c"

definition TestCaseFailed :: "TestCase \<Rightarrow> bool" where
  "TestCaseFailed c \<longleftrightarrow> case_should_run c \<and> case_Failed c"

definition successful_test_case_count :: "UnitTestImpl \<Rightarrow> int" where
  "successful_test_case_count u = CountIf (test_cases u) TestCasePassed"

definition failed_test_case_count :: "UnitTestImpl \<Rightarrow> int" where
  "failed_test_case_count u = CountIf (test_cases u) TestCaseFailed"

definition total_test_case_count :: "UnitTestImpl \<Rightarrow> int" where
  "total_test_case_count u = int (length (test_cases u))"

definition test_case_to_run_count :: "UnitTestImpl \<Rightarrow> int" where
  "test_case_to_run_count u = CountIf (test_cases u) case_should_run"

definition all_successful_test_count :: "UnitTestImpl \<Rightarrow> int" where
  "all_successful_test_count u = SumOverTestCaseList (test_cases u) successful_test_count"

definition all_failed_test_count :: "UnitTestImpl \<Rightarrow> int" where
  "all_failed_test_count u = SumOverTestCaseList (test_cases u) failed_test_count"

definition all_reportable_disabled_test_count :: "UnitTestImpl \<Rightarrow> int" where
  "all_reportable_disabled_test_count u =
     SumOverTestCaseList (test_cases u) reportable_disabled_test_count"

definition all_disabled_test_count :: "UnitTestImpl \<Rightarrow> int" where
  "all_disabled_test_count u = SumOverTestCaseList (test_cases u) disabled_test_count"

definition all_reportable_test_count :: "UnitTestImpl \<Rightarrow> int" where
  "all_reportable_test_count u = SumOverTestCaseList (test_cases u) reportable_test_count"

definition all_total_test_count :: "UnitTestImpl \<Rightarrow> int" where
  "all_total_test_count u = SumOverTestCaseList (test_cases u) total_test_count"

definition all_test_to_run_count :: "UnitTestImpl \<Rightarrow> int" where
  "all_test_to_run_count u = SumOverTestCaseList (test_cases u) test_to_run_count"

definition unit_Failed :: "UnitTestImpl \<Rightarrow> bool" where
  "unit_Failed u \<longleftrightarrow> failed_test_case_count u > 0 \<or> Failed (ad_hoc_test_result u)"

definition unit_Passed :: "UnitTestImpl \<Rightarrow> bool" where
  "unit_Passed u \<longleftrightarrow> \<not> unit_Failed u"

definition ClearNonAdHocTestResult :: "UnitTestImpl \<Rightarrow> UnitTestImpl" where
  "ClearNonAdHocTestResult u = u\<lparr> test_cases := map case_ClearResult (test_cases u) \<rparr>"

section \<open>Sharding\<close>

definition kTestShardIndex :: string where "kTestShardIndex = ''GTEST_SHARD_INDEX''"
definition kTestTotalShards :: string where "kTestTotalShards = ''GTEST_TOTAL_SHARDS''"
definition kTestShardStatusFile :: string where "kTestShardStatusFile = ''GTEST_SHARD_STATUS_FILE''"

text \<open>\<open>Inl\<close>: the program exits with a failure after this output.\<close>

definition Int32FromEnvOrDie :: "(string \<Rightarrow> string option) \<Rightarrow> string \<Rightarrow> int \<Rightarrow> string + int" where
  "Int32FromEnvOrDie getenv var default_val =
     (case getenv var of
        None \<Rightarrow> Inr default_val
      | Some str_val \<Rightarrow>
          let (out, ok, result) =
                ParseInt32 (stream_text (Message_of ''The value of environment variable '') var) str_val 0
          in if \<not> ok then Inl out else Inr result)"

definition ShouldShard ::
    "(string \<Rightarrow> string option) \<Rightarrow> string \<Rightarrow> string \<Rightarrow> bool \<Rightarrow> string + bool" where
  "ShouldShard getenv total_shards_env shard_index_env in_subprocess_for_death_test =
     (if in_subprocess_for_death_test then Inr False
      else case Int32FromEnvOrDie getenv total_shards_env (-1) of
        Inl out \<Rightarrow> Inl out
      | Inr total_shards \<Rightarrow>
          (case Int32FromEnvOrDie getenv shard_index_env (-1) of
             Inl out \<Rightarrow> Inl out
           | Inr shard_index \<Rightarrow>
               if total_shards = -1 \<and> shard_index = -1 then Inr False
               else if total_shards = -1 \<and> shard_index \<noteq> -1 then
                 Inl (''Invalid environment variables: you have '' @ kTestShardIndex @ '' = '' @
                   int_string shard_index @ '', but have left '' @ kTestTotalShards @ '' unset.'' @
                   [CHR 0x0A])
               else if total_shards \<noteq> -1 \<and> shard_index = -1 then
                 Inl (''Invalid environment variables: you have '' @ kTestTotalShards @ '' = '' @
                   int_string total_shards @ '', but have left '' @ kTestShardIndex @ '' unset.'' @
                   [CHR 0x0A])
               else if shard_index < 0 \<or> total_shards \<le> shard_index then
                 Inl (''Invalid environment variables: we require 0 <= '' @ kTestShardIndex @ '' < '' @
                   kTestTotalShards @ '', but you have '' @ kTestShardIndex @ ''='' @
                   int_string shard_index @ '', '' @ kTestTotalShards @ ''='' @
                   int_string total_shards @ ''.'' @ [CHR 0x0A])
               else Inr (total_shards > 1)))"

text \<open>The remainder of C++ truncates towards zero.\<close>

definition ShouldRunTestOnShard :: "int \<Rightarrow> int \<Rightarrow> int \<Rightarrow> bool" where
  "ShouldRunTestOnShard total_shards shard_index test_id \<longleftrightarrow> test_id smod total_shards = shard_index"

section \<open>Selecting tests\<close>

text \<open>
  One test in the loops of \<open>FilterTests\<close>: the flags, the shard (\<open>None\<close> when sharding is ignored), the
  name of the test case, the number of runnable tests so far; the result is the test, whether it is
  runnable and whether it is selected.
\<close>

definition filter_test ::
    "string \<Rightarrow> bool \<Rightarrow> (int \<times> int) option \<Rightarrow> string \<Rightarrow> int \<Rightarrow> TestInfo \<Rightarrow> TestInfo \<times> bool \<times> bool" where
  "filter_test gtest_filter also_run_disabled_tests shard tc_name num_runnable_tests t =
     (let disabled = MatchesFilter tc_name kDisableTestFilter \<or> MatchesFilter (test_name t) kDisableTestFilter;
          matches = FilterMatchesTest gtest_filter tc_name (test_name t);
          is_runnable = (also_run_disabled_tests \<or> \<not> disabled) \<and> matches;
          is_selected = is_runnable \<and>
            (case shard of None \<Rightarrow> True
             | Some (total_shards, shard_index) \<Rightarrow>
                 ShouldRunTestOnShard total_shards shard_index num_runnable_tests) in
      (t\<lparr> is_disabled := disabled, matches_filter := matches, should_run := is_selected \<rparr>,
       is_runnable, is_selected))"

fun filter_list ::
    "string \<Rightarrow> bool \<Rightarrow> (int \<times> int) option \<Rightarrow> string \<Rightarrow> int \<Rightarrow> int \<Rightarrow> TestInfo list \<Rightarrow> TestInfo list \<times> int \<times> int \<times> bool" where
  "filter_list f d sh tc_name num_runnable num_selected [] = ([], num_runnable, num_selected, False)"
| "filter_list f d sh tc_name num_runnable num_selected (t # ts) =
     (let (t', is_runnable, is_selected) = filter_test f d sh tc_name num_runnable t;
          (ts', num_runnable', num_selected', run) =
            filter_list f d sh tc_name (num_runnable + of_bool is_runnable)
              (num_selected + of_bool is_selected) ts in
      (t' # ts', num_runnable', num_selected', is_selected \<or> run))"

fun filter_cases ::
    "string \<Rightarrow> bool \<Rightarrow> (int \<times> int) option \<Rightarrow> int \<Rightarrow> int \<Rightarrow> TestCase list \<Rightarrow> TestCase list \<times> int" where
  "filter_cases f d sh num_runnable num_selected [] = ([], num_selected)"
| "filter_cases f d sh num_runnable num_selected (c # cs) =
     (let (ts, num_runnable', num_selected', run) =
            filter_list f d sh (case_name c) num_runnable num_selected (test_info_list c);
          (cs', num) = filter_cases f d sh num_runnable' num_selected' cs in
      (c\<lparr> test_info_list := ts, case_should_run := run \<rparr> # cs', num))"

definition FilterTests ::
    "(string \<Rightarrow> string option) \<Rightarrow> string \<Rightarrow> bool \<Rightarrow> bool \<Rightarrow> UnitTestImpl \<Rightarrow> string + (UnitTestImpl \<times> int)" where
  "FilterTests getenv gtest_filter also_run_disabled_tests honor_sharding u =
     (case (if honor_sharding then Int32FromEnvOrDie getenv kTestTotalShards (-1) else Inr (-1)) of
        Inl out \<Rightarrow> Inl out
      | Inr total_shards \<Rightarrow>
          (case (if honor_sharding then Int32FromEnvOrDie getenv kTestShardIndex (-1) else Inr (-1)) of
             Inl out \<Rightarrow> Inl out
           | Inr shard_index \<Rightarrow>
               let (cs, num_selected_tests) = filter_cases gtest_filter also_run_disabled_tests
                     (if honor_sharding then Some (total_shards, shard_index) else None) 0 0
                     (test_cases u) in
               Inr (u\<lparr> test_cases := cs \<rparr>, num_selected_tests)))"

section \<open>Listing tests\<close>

fun print_one_line :: "int \<Rightarrow> int \<Rightarrow> string \<Rightarrow> string" where
  "print_one_line max_length i [] = []"
| "print_one_line max_length i (c # str) =
     (if max_length \<le> i then ''...''
      else if c = CHR 0x0A then [CHR 0x5C, CHR ''n''] @ print_one_line max_length (i + 2) str
      else [c] @ print_one_line max_length (i + 1) str)"

definition PrintOnOneLine :: "string option \<Rightarrow> int \<Rightarrow> string" where
  "PrintOnOneLine str max_length =
     (case str of None \<Rightarrow> [] | Some s \<Rightarrow> print_one_line max_length 0 s)"

definition kTypeParamLabel :: string where "kTypeParamLabel = ''TypeParam''"
definition kValueParamLabel :: string where "kValueParamLabel = ''GetParam()''"

fun list_tests :: "TestCase \<Rightarrow> bool \<Rightarrow> TestInfo list \<Rightarrow> string" where
  "list_tests c printed_test_case_name [] = []"
| "list_tests c printed_test_case_name (t # ts) =
     (if matches_filter t then
        (if printed_test_case_name then []
         else case_name c @ ''.'' @
           (case case_type_param c of None \<Rightarrow> []
            | Some p \<Rightarrow> ''  # '' @ kTypeParamLabel @ '' = '' @ PrintOnOneLine (Some p) 250) @
           [CHR 0x0A]) @
        ''  '' @ test_name t @
        (case value_param t of None \<Rightarrow> []
         | Some p \<Rightarrow> ''  # '' @ kValueParamLabel @ '' = '' @ PrintOnOneLine (Some p) 250) @
        [CHR 0x0A] @ list_tests c True ts
      else list_tests c printed_test_case_name ts)"

definition ListTestsMatchingFilter :: "UnitTestImpl \<Rightarrow> string" where
  "ListTestsMatchingFilter u =
     concat (map (\<lambda>c. list_tests c False (test_info_list c)) (test_cases u))"

section \<open>Order of the tests\<close>

fun shuffle_cases :: "Random \<Rightarrow> TestCase list \<Rightarrow> (TestCase list \<times> Random) option" where
  "shuffle_cases r [] = Some ([], r)"
| "shuffle_cases r (c # cs) =
     (case case_ShuffleTests r c of
        None \<Rightarrow> None
      | Some (c', r') \<Rightarrow>
          (case shuffle_cases r' cs of None \<Rightarrow> None | Some (cs', r'') \<Rightarrow> Some (c' # cs', r'')))"

definition ShuffleTests :: "UnitTestImpl \<Rightarrow> UnitTestImpl option" where
  "ShuffleTests u =
     (case ShuffleRange 0 (last_death_test_case u + 1) (random u) (test_case_indices u) of
        None \<Rightarrow> None
      | Some (i1, r1) \<Rightarrow>
          (case ShuffleRange (last_death_test_case u + 1) (int (length (test_cases u))) r1 i1 of
             None \<Rightarrow> None
           | Some (i2, r2) \<Rightarrow>
               (case shuffle_cases r2 (test_cases u) of
                  None \<Rightarrow> None
                | Some (cs, r3) \<Rightarrow>
                    Some (u\<lparr> test_case_indices := i2, test_cases := cs, random := r3 \<rparr>))))"

definition UnshuffleTests :: "UnitTestImpl \<Rightarrow> UnitTestImpl" where
  "UnshuffleTests u =
     u\<lparr> test_cases := map case_UnshuffleTests (test_cases u),
        test_case_indices := map int [0..<length (test_cases u)] @
          drop (length (test_cases u)) (test_case_indices u) \<rparr>"

section \<open>Recording a property\<close>

text \<open>The property goes to the running test, the running test case or the program.\<close>

definition update_test :: "nat \<Rightarrow> nat \<Rightarrow> (TestInfo \<Rightarrow> TestInfo) \<Rightarrow> UnitTestImpl \<Rightarrow> UnitTestImpl" where
  "update_test i j f =
     update_case i (\<lambda>c. c\<lparr> test_info_list := (test_info_list c)[j := f (test_info_list c ! j)] \<rparr>)"

definition current_test_result :: "UnitTestImpl \<Rightarrow> TestResult" where
  "current_test_result u =
     (case current_test_info u of
        Some (i, j) \<Rightarrow> result_of (test_info_list (test_cases u ! i) ! j)
      | None \<Rightarrow> ad_hoc_test_result u)"

definition set_current_test_result :: "TestResult \<Rightarrow> UnitTestImpl \<Rightarrow> UnitTestImpl" where
  "set_current_test_result r u =
     (case current_test_info u of
        Some (i, j) \<Rightarrow> update_test i j (\<lambda>t. t\<lparr> result_of := r \<rparr>) u
      | None \<Rightarrow> u\<lparr> ad_hoc_test_result := r \<rparr>)"

definition RecordProperty :: "TestProperty \<Rightarrow> UnitTestImpl \<Rightarrow> (string option \<times> UnitTestImpl) option" where
  "RecordProperty test_property u =
     (case current_test_info u of
        Some (i, j) \<Rightarrow>
          map_option (\<lambda>(failure, r). (failure, set_current_test_result r u))
            (TestResult_RecordProperty ''testcase'' test_property (current_test_result u))
      | None \<Rightarrow>
          (case current_test_case u of
             Some i \<Rightarrow>
               map_option (\<lambda>(failure, r). (failure, update_case i (\<lambda>c. c\<lparr> case_ad_hoc_result := r \<rparr>) u))
                 (TestResult_RecordProperty ''testsuite'' test_property
                   (case_ad_hoc_result (test_cases u ! i)))
           | None \<Rightarrow>
               map_option (\<lambda>(failure, r). (failure, u\<lparr> ad_hoc_test_result := r \<rparr>))
                 (TestResult_RecordProperty ''testsuites'' test_property (ad_hoc_test_result u))))"

end
