(* ===== verification/Gtest_Registry.thy ===== *)
theory Gtest_Registry
  imports Gtest_UnitTest
begin

text \<open>
  What the registry of tests (\<open>Gtest_UnitTest\<close>) guarantees: the invariant of registration, the order of
  a shuffled run, the tests that filters and shards select, and the counts.
\<close>

section \<open>The registry\<close>

definition death_case :: "TestCase \<Rightarrow> bool" where
  "death_case c \<longleftrightarrow> MatchesFilter (case_name c) kDeathTestCaseFilter"

definition case_ok :: "TestCase \<Rightarrow> bool" where
  "case_ok c \<longleftrightarrow> mset (test_indices c) = mset (map int [0..<length (test_info_list c)])"

definition well_registered :: "UnitTestImpl \<Rightarrow> bool" where
  "well_registered u \<longleftrightarrow>
     distinct (map case_name (test_cases u)) \<and>
     -1 \<le> last_death_test_case u \<and> last_death_test_case u < int (length (test_cases u)) \<and>
     (\<forall>i < length (test_cases u). death_case (test_cases u ! i) \<longleftrightarrow> int i \<le> last_death_test_case u) \<and>
     (\<forall>c \<in> set (test_cases u). case_ok c)"

definition in_registration_order :: "UnitTestImpl \<Rightarrow> bool" where
  "in_registration_order u \<longleftrightarrow>
     test_case_indices u = map int [0..<length (test_cases u)] \<and>
     (\<forall>c \<in> set (test_cases u). test_indices c = map int [0..<length (test_info_list c)])"

text \<open>The order of the run: a permutation of the test cases with the death test cases first.\<close>

definition deaths_first :: "UnitTestImpl \<Rightarrow> bool" where
  "deaths_first u \<longleftrightarrow>
     (let d = nat (last_death_test_case u + 1) in
      length (test_case_indices u) = length (test_cases u) \<and>
      mset (take d (test_case_indices u)) = mset (map int [0..<d]) \<and>
      mset (drop d (test_case_indices u)) = mset (map int [d..<length (test_cases u)]))"

definition all_tests :: "UnitTestImpl \<Rightarrow> TestInfo list" where
  "all_tests u = concat (map test_info_list (test_cases u))"

lemma find_index_Some:
  "find_index p xs = Some i \<Longrightarrow> i < length xs \<and> p (xs ! i)"
  by (induction p xs arbitrary: i rule: find_index.induct) (auto split: if_splits)

lemma find_index_None: "find_index p xs = None \<longleftrightarrow> (\<forall>x \<in> set xs. \<not> p x)"
  by (induction p xs rule: find_index.induct) auto

lemma insert_at_nth:
  "\<lbrakk>i \<le> length xs; j \<le> length xs\<rbrakk> \<Longrightarrow>
     insert_at i x xs ! j = (if j < i then xs ! j else if j = i then x else xs ! (j - 1))"
  by (auto simp: insert_at_def nth_append min_def)

lemma insert_at_mset: "mset (insert_at i x xs) = add_mset x (mset xs)"
proof -
  have "mset (take i xs) + mset (drop i xs) = mset xs"
    unfolding mset_append [symmetric] by simp
  then show ?thesis by (simp add: insert_at_def)
qed

lemma insert_at_simps [simp]:
  "length (insert_at i x xs) = Suc (length xs)"
  "set (insert_at i x xs) = insert x (set xs)"
  "insert_at (length xs) x xs = xs @ [x]"
  using arg_cong [OF insert_at_mset, of size i x xs] arg_cong [OF insert_at_mset, of set_mset i x xs]
  by (simp_all add: insert_at_def)

lemma new_TestCase_ok [simp]:
  "case_ok (new_TestCase n p)" "case_name (new_TestCase n p) = n"
  "test_info_list (new_TestCase n p) = []" "test_indices (new_TestCase n p) = []"
  by (simp_all add: new_TestCase_def case_ok_def)

lemma find_or_create:
  assumes "well_registered u" "in_registration_order u"
    and f: "find_or_create_TestCase n tp u = (i, u')"
  shows "well_registered u' \<and> in_registration_order u' \<and> i < length (test_cases u') \<and>
    case_name (test_cases u' ! i) = n \<and>
    (set (test_cases u') = set (test_cases u) \<or>
     n \<notin> case_name ` set (test_cases u) \<and>
     set (test_cases u') = insert (new_TestCase n tp) (set (test_cases u)))"
proof (cases "find_index (\<lambda>c. case_name c = n) (test_cases u)")
  case (Some j)
  then show ?thesis
    using assms find_index_Some [OF Some] by (simp add: find_or_create_TestCase_def)
next
  case None
  let ?cs = "test_cases u" and ?d = "last_death_test_case u" and ?c = "new_TestCase n tp"
  define k where "k = (if death_case ?c then nat (?d + 1) else length ?cs)"
  have fresh: "n \<notin> case_name ` set ?cs" using None by (auto simp: find_index_None)
  have d: "-1 \<le> ?d" "?d < int (length ?cs)" using assms(1) by (simp_all add: well_registered_def)
  then have k: "k \<le> length ?cs" by (auto simp: k_def)
  have u': "i = k" "test_cases u' = insert_at k ?c ?cs"
    "last_death_test_case u' = ?d + of_bool (death_case ?c)"
    "test_case_indices u' = test_case_indices u @ [int (length (test_case_indices u))]"
    using f None unfolding find_or_create_TestCase_def k_def death_case_def
    by (auto simp: Let_def split: if_splits)
  have dis: "distinct (map case_name (insert_at k ?c ?cs))"
  proof -
    have "mset (map case_name (insert_at k ?c ?cs)) = mset (n # map case_name ?cs)"
      by (simp add: insert_at_mset)
    moreover have "distinct (n # map case_name ?cs)"
      using assms(1) fresh by (simp add: well_registered_def)
    ultimately show ?thesis by (metis mset_eq_imp_distinct_iff)
  qed
  have deaths: "death_case (insert_at k ?c ?cs ! j) \<longleftrightarrow> int j \<le> ?d + of_bool (death_case ?c)"
    if j: "j < Suc (length ?cs)" for j
  proof -
    have old: "death_case (?cs ! m) \<longleftrightarrow> int m \<le> ?d" if "m < length ?cs" for m
      using assms(1) that by (simp add: well_registered_def)
    have "insert_at k ?c ?cs ! j = (if j < k then ?cs ! j else if j = k then ?c else ?cs ! (j - 1))"
      by (rule insert_at_nth) (use k j in auto)
    then show ?thesis
      using old [of j] old [of "j - 1"] j d by (auto simp: k_def)
  qed
  have "well_registered u'"
    using assms(1) d dis deaths unfolding well_registered_def u'
    by auto
  moreover have "in_registration_order u'"
    using assms(2) unfolding in_registration_order_def u' by simp
  moreover have "test_cases u' ! i = ?c"
    using k by (simp add: u' insert_at_nth)
  ultimately show ?thesis
    using k u' fresh by simp
qed

text \<open>The states that registering the tests \<open>ts\<close>, in this order, can produce.\<close>

inductive registered :: "platform \<Rightarrow> string option \<Rightarrow> UnitTestImpl \<Rightarrow> TestInfo list \<Rightarrow> bool"
  for p getcwd where
  start: "registered p getcwd new_UnitTestImpl []"
| add: "\<lbrakk>registered p getcwd u ts; AddTestInfo p getcwd t u = Some u'\<rbrakk> \<Longrightarrow>
     registered p getcwd u' (ts @ [t])"

definition registered_tests :: "UnitTestImpl \<Rightarrow> TestInfo list \<Rightarrow> bool" where
  "registered_tests u ts \<longleftrightarrow>
     case_name ` set (test_cases u) = test_case_name ` set ts \<and>
     (\<forall>c \<in> set (test_cases u). test_info_list c = filter (\<lambda>t. test_case_name t = case_name c) ts)"

lemma set_unique_update:
  assumes "distinct (map f xs)" "i < length xs" "f y = f (xs ! i)"
  shows "set (xs[i := y]) = insert y {x \<in> set xs. f x \<noteq> f y}"
proof -
  have "x = xs ! i" if "x \<in> set xs" "f x = f (xs ! i)" for x
    using assms(1,2) that by (metis in_set_conv_nth length_map nth_eq_iff_index_eq nth_map)
  moreover have "xs ! i \<notin> set (take i xs @ drop (Suc i) xs)"
    using assms(1,2) by (metis (no_types, lifting) distinct_map id_take_nth_drop
        Un_iff distinct_append not_distinct_conv_prefix set_append disjoint_insert(1)
        distinct.simps(2) list.simps(15))
  moreover have "set xs = insert (xs ! i) (set (take i xs @ drop (Suc i) xs))"
    using arg_cong [OF id_take_nth_drop [OF assms(2)], of set] by auto
  moreover have "set (xs[i := y]) = insert y (set (take i xs @ drop (Suc i) xs))"
    by (simp add: upd_conv_take_nth_drop assms(2))
  ultimately show ?thesis using assms(3) by auto
qed

lemma update_case_simps [simp]:
  "test_cases (update_case i f u) = (test_cases u)[i := f (test_cases u ! i)]"
  "test_case_indices (update_case i f u) = test_case_indices u"
  "last_death_test_case (update_case i f u) = last_death_test_case u"
  "original_working_dir (update_case i f u) = original_working_dir u"
  by (simp_all add: update_case_def)

lemma case_AddTestInfo_simps [simp]:
  "case_name (case_AddTestInfo t c) = case_name c"
  "test_info_list (case_AddTestInfo t c) = test_info_list c @ [t]"
  "test_indices (case_AddTestInfo t c) = test_indices c @ [int (length (test_indices c))]"
  by (simp_all add: case_AddTestInfo_def)

lemma case_ok_length: "case_ok c \<Longrightarrow> length (test_indices c) = length (test_info_list c)"
  unfolding case_ok_def by (metis length_map length_upt minus_nat.diff_0 size_mset)

lemma case_AddTestInfo_ok: "case_ok c \<Longrightarrow> case_ok (case_AddTestInfo t c)"
  using case_ok_length [of c] by (simp add: case_ok_def)

text \<open>An operation on one test case that keeps its name and its indices keeps the registry.\<close>

lemma update_case_registered:
  assumes "well_registered u" "i < length (test_cases u)"
    and "case_name (f (test_cases u ! i)) = case_name (test_cases u ! i)"
    and "case_ok (f (test_cases u ! i))"
  shows "well_registered (update_case i f u)"
proof -
  have "map case_name ((test_cases u)[i := f (test_cases u ! i)]) = map case_name (test_cases u)"
    using assms(2,3) by (simp add: map_update list_update_same_conv)
  moreover have "death_case (f (test_cases u ! i)) = death_case (test_cases u ! i)"
    using assms(3) by (simp add: death_case_def)
  moreover have "set ((test_cases u)[i := f (test_cases u ! i)]) \<subseteq> insert (f (test_cases u ! i)) (set (test_cases u))"
    by (rule set_update_subset_insert)
  ultimately show ?thesis
    using assms unfolding well_registered_def update_case_simps
    by (auto simp: nth_list_update)
qed

lemma AddTestInfo_cases:
  assumes "AddTestInfo p getcwd t u = Some u'"
  obtains u1 i u2 where "test_cases u1 = test_cases u" "test_case_indices u1 = test_case_indices u"
    "last_death_test_case u1 = last_death_test_case u"
    "find_or_create_TestCase (test_case_name t) (type_param t) u1 = (i, u2)"
    "u' = update_case i (case_AddTestInfo t) u2"
proof -
  define u1 where "u1 = (if IsEmpty (original_working_dir u)
    then u\<lparr> original_working_dir := FilePath_Set (original_working_dir u) (GetCurrentDir p getcwd) \<rparr> else u)"
  obtain i u2 where foc: "find_or_create_TestCase (test_case_name t) (type_param t) u1 = (i, u2)"
    by fastforce
  show thesis
  proof (rule that [of u1 i u2])
    show "u' = update_case i (case_AddTestInfo t) u2"
      using assms foc unfolding AddTestInfo_def u1_def [symmetric]
      by (simp add: Let_def split: if_splits)
  qed (use foc in \<open>simp_all add: u1_def\<close>)
qed

lemma registry_cong:
  assumes "test_cases v = test_cases u" "test_case_indices v = test_case_indices u"
    "last_death_test_case v = last_death_test_case u"
  shows "well_registered v = well_registered u" "in_registration_order v = in_registration_order u"
    "deaths_first v = deaths_first u" "registered_tests v ts = registered_tests u ts"
  using assms by (simp_all add: well_registered_def in_registration_order_def deaths_first_def
      registered_tests_def)

lemma add_test_registered:
  assumes "well_registered u" "in_registration_order u" "registered_tests u ts"
    and "AddTestInfo p getcwd t u = Some u'"
  shows "well_registered u' \<and> in_registration_order u' \<and> registered_tests u' (ts @ [t])"
proof -
  obtain u1 i u2 where u1: "test_cases u1 = test_cases u" "test_case_indices u1 = test_case_indices u"
      "last_death_test_case u1 = last_death_test_case u"
    and foc: "find_or_create_TestCase (test_case_name t) (type_param t) u1 = (i, u2)"
    and u': "u' = update_case i (case_AddTestInfo t) u2"
    using assms(4) by (rule AddTestInfo_cases)
  note r = registry_cong [OF u1]
  let ?c = "test_cases u2 ! i"
  from find_or_create [OF _ _ foc] assms(1,2) r
  have wr: "well_registered u2" and ord: "in_registration_order u2" and i: "i < length (test_cases u2)"
    and name: "case_name ?c = test_case_name t"
    and set: "set (test_cases u2) = set (test_cases u) \<or>
      test_case_name t \<notin> case_name ` set (test_cases u) \<and>
      set (test_cases u2) = insert (new_TestCase (test_case_name t) (type_param t)) (set (test_cases u))"
    using u1 by auto
  have c: "?c \<in> set (test_cases u2)" using i by simp
  then have ok: "case_ok ?c" using wr by (simp add: well_registered_def)
  have "well_registered u'"
    unfolding u' using wr i ok by (intro update_case_registered) (simp_all add: case_AddTestInfo_ok)
  moreover have "in_registration_order u'"
    using ord i case_ok_length [OF ok] c set_update_subset_insert [of "test_cases u2" i "case_AddTestInfo t ?c"]
    unfolding in_registration_order_def u' by (auto simp: subset_iff)
  moreover have "registered_tests u' (ts @ [t])"
  proof -
    have s': "set (test_cases u') =
        insert (case_AddTestInfo t ?c) {x \<in> set (test_cases u2). case_name x \<noteq> test_case_name t}"
      unfolding u' update_case_simps
      using set_unique_update [of case_name "test_cases u2" i "case_AddTestInfo t ?c"] wr i name
      by (simp add: well_registered_def)
    have names_u: "case_name ` set (test_cases u) = test_case_name ` set ts"
      and tests_u: "\<forall>c \<in> set (test_cases u). test_info_list c = filter (\<lambda>t. test_case_name t = case_name c) ts"
      using assms(3) by (simp_all add: registered_tests_def)
    have fresh: "filter (\<lambda>x. test_case_name x = n) ts = []" if "n \<notin> case_name ` set (test_cases u)" for n
      using that unfolding names_u by (auto simp: filter_empty_conv)
    have tests: "test_info_list x = filter (\<lambda>s. test_case_name s = case_name x) ts"
      if "x \<in> set (test_cases u2)" for x
      using set that tests_u fresh by auto
    have names: "insert (test_case_name t) (case_name ` set (test_cases u2)) =
        insert (test_case_name t) (test_case_name ` set ts)"
    proof -
      have "case_name ` set (test_cases u2) = case_name ` set (test_cases u) \<or>
          case_name ` set (test_cases u2) = insert (test_case_name t) (case_name ` set (test_cases u))"
        using set by force
      then show ?thesis unfolding names_u by auto
    qed
    have "case_name ` set (test_cases u') = insert (test_case_name t) (case_name ` set (test_cases u2))"
      using name c unfolding s' by auto
    then show ?thesis
      unfolding registered_tests_def
      using names tests [OF c] tests name by (auto simp: s')
  qed
  ultimately show ?thesis by blast
qed

lemma registered_invariant:
  "registered p getcwd u ts \<Longrightarrow>
     well_registered u \<and> in_registration_order u \<and> registered_tests u ts"
proof (induction rule: registered.induct)
  case start
  show ?case
    by (simp add: new_UnitTestImpl_def well_registered_def in_registration_order_def registered_tests_def)
next
  case (add u ts t u')
  then show ?case using add_test_registered by blast
qed

section \<open>The order of a run\<close>

lemma registration_order_deaths_first:
  assumes "well_registered u" "in_registration_order u"
  shows "deaths_first u"
proof -
  have d: "nat (last_death_test_case u + 1) \<le> length (test_cases u)"
    using assms(1) unfolding well_registered_def by linarith
  then have "[0..<length (test_cases u)] =
      [0..<nat (last_death_test_case u + 1)] @ [nat (last_death_test_case u + 1)..<length (test_cases u)]"
    by (metis le_add_diff_inverse upt_add_eq_append zero_le)
  then show ?thesis
    using assms(2) d
    by (simp add: deaths_first_def in_registration_order_def take_map [symmetric] drop_map [symmetric])
qed

lemma case_shuffle:
  assumes "case_ok c" "length (test_info_list c) < 2 ^ 31"
  shows "\<exists>is r'. case_ShuffleTests r c = Some (c\<lparr> test_indices := is \<rparr>, r') \<and>
    case_ok (c\<lparr> test_indices := is \<rparr>)"
proof -
  have len: "length (test_indices c) < 2 ^ 31" using assms by (simp add: case_ok_length)
  then obtain w r' where w: "ShuffleRange 0 (int (length (test_indices c))) r (test_indices c) = Some (w, r')"
      "permuted_range 0 (length (test_indices c)) (test_indices c) w"
    using ShuffleRange_ok [OF len, of 0 "int (length (test_indices c))" r] by auto
  then have "mset w = mset (test_indices c)" by (auto simp: permuted_range_def)
  then show ?thesis
    using w assms(1)
    by (intro exI [of _ w] exI [of _ r']) (simp add: case_ShuffleTests_def Shuffle_def case_ok_def)
qed

lemma shuffle_cases_ok:
  assumes "\<forall>c \<in> set cs. case_ok c \<and> length (test_info_list c) < 2 ^ 31"
  shows "\<exists>cs' r'. shuffle_cases r cs = Some (cs', r') \<and>
    map (test_indices_update (\<lambda>_. [])) cs' = map (test_indices_update (\<lambda>_. [])) cs \<and>
    (\<forall>c \<in> set cs'. case_ok c)"
  using assms
proof (induction cs arbitrary: r)
  case (Cons c cs)
  from Cons.prems obtain "is" r1 where c: "case_ShuffleTests r c = Some (c\<lparr> test_indices := is \<rparr>, r1)"
      "case_ok (c\<lparr> test_indices := is \<rparr>)"
    using case_shuffle [of c r] by auto
  from Cons.prems Cons.IH [of r1] obtain cs' r2 where "shuffle_cases r1 cs = Some (cs', r2)"
      "map (test_indices_update (\<lambda>_. [])) cs' = map (test_indices_update (\<lambda>_. [])) cs"
      "\<forall>c \<in> set cs'. case_ok c"
    by auto
  with c show ?case by simp
qed simp

lemma shuffle_loop_halves:
  assumes "length is = n" "d \<le> n" "n < 2 ^ 31"
  shows "\<exists>i1 r1 i2 r2. ShuffleRange 0 (int d) r is = Some (i1, r1) \<and>
    ShuffleRange (int d) (int n) r1 i1 = Some (i2, r2) \<and> length i2 = n \<and>
    mset (take d i2) = mset (take d is) \<and> mset (drop d i2) = mset (drop d is)"
proof -
  obtain i1 r1 where 1: "ShuffleRange 0 (int d) r is = Some (i1, r1)" "permuted_range 0 d is i1"
    using ShuffleRange_ok [of "is" 0 "int d" r] assms by auto
  then have len: "length i1 = n" using assms by (simp add: permuted_range_def)
  then obtain i2 r2 where 2: "ShuffleRange (int d) (int n) r1 i1 = Some (i2, r2)"
      "permuted_range d n i1 i2"
    using ShuffleRange_ok [of i1 "int d" "int n" r1] assms by auto
  have "mset (drop d i2) = mset (drop d i1)" "take d i2 = take d i1"
    using 2(2) len by (auto simp: permuted_range_def)
  moreover have "mset (take d i1) = mset (take d is)" "drop d i1 = drop d is"
    using 1(2) by (simp_all add: permuted_range_def)
  ultimately show ?thesis
    using 1 2 len by (simp add: permuted_range_def)
qed

lemma well_registered_cong:
  assumes "map (test_indices_update (\<lambda>_. [])) (test_cases v) = map (test_indices_update (\<lambda>_. [])) (test_cases u)"
    and "last_death_test_case v = last_death_test_case u" "\<forall>c \<in> set (test_cases v). case_ok c"
    and "well_registered u"
  shows "well_registered v"
    "length (test_cases v) = length (test_cases u)"
    "map case_name (test_cases v) = map case_name (test_cases u)"
    "map test_info_list (test_cases v) = map test_info_list (test_cases u)"
proof -
  show len: "length (test_cases v) = length (test_cases u)"
    using assms(1) by (metis length_map)
  have "map (case_name \<circ> test_indices_update (\<lambda>_. [])) (test_cases v) =
      map (case_name \<circ> test_indices_update (\<lambda>_. [])) (test_cases u)"
    unfolding map_map [symmetric] assms(1) ..
  then show names: "map case_name (test_cases v) = map case_name (test_cases u)"
    by (simp add: comp_def)
  have "map (test_info_list \<circ> test_indices_update (\<lambda>_. [])) (test_cases v) =
      map (test_info_list \<circ> test_indices_update (\<lambda>_. [])) (test_cases u)"
    unfolding map_map [symmetric] assms(1) ..
  then show "map test_info_list (test_cases v) = map test_info_list (test_cases u)"
    by (simp add: comp_def)
  have "death_case (test_cases v ! i) = death_case (test_cases u ! i)" if "i < length (test_cases u)" for i
    using arg_cong [OF names, of "\<lambda>xs. xs ! i"] that len by (simp add: death_case_def)
  then show "well_registered v"
    using assms(2-4) names len unfolding well_registered_def by simp
qed

lemma shuffle_tests_ok:
  assumes "well_registered u" "deaths_first u" "length (test_cases u) < 2 ^ 31"
    and "\<forall>c \<in> set (test_cases u). length (test_info_list c) < 2 ^ 31"
  shows "\<exists>u'. ShuffleTests u = Some u' \<and> well_registered u' \<and> deaths_first u' \<and>
    map case_name (test_cases u') = map case_name (test_cases u) \<and>
    map test_info_list (test_cases u') = map test_info_list (test_cases u) \<and>
    last_death_test_case u' = last_death_test_case u \<and>
    map (test_indices_update (\<lambda>_. [])) (test_cases u') = map (test_indices_update (\<lambda>_. [])) (test_cases u) \<and>
    ad_hoc_test_result u' = ad_hoc_test_result u \<and> current_test_info u' = current_test_info u \<and>
    random_seed u' = random_seed u"
proof -
  let ?d = "nat (last_death_test_case u + 1)" and ?n = "length (test_cases u)"
  have d: "?d \<le> ?n" "last_death_test_case u + 1 = int ?d"
    using assms(1) unfolding well_registered_def by linarith+
  have "length (test_case_indices u) = ?n" using assms(2) by (simp add: deaths_first_def Let_def)
  from shuffle_loop_halves [OF this d(1) assms(3), of "random u"] obtain i1 r1 i2 r2 where
    s: "ShuffleRange 0 (int ?d) (random u) (test_case_indices u) = Some (i1, r1)"
      "ShuffleRange (int ?d) (int ?n) r1 i1 = Some (i2, r2)" "length i2 = ?n"
      "mset (take ?d i2) = mset (take ?d (test_case_indices u))"
      "mset (drop ?d i2) = mset (drop ?d (test_case_indices u))" by blast
  from shuffle_cases_ok [of "test_cases u" r2] assms(1,4) obtain cs r3 where
    cs: "shuffle_cases r2 (test_cases u) = Some (cs, r3)"
      "map (test_indices_update (\<lambda>_. [])) cs = map (test_indices_update (\<lambda>_. [])) (test_cases u)"
      "\<forall>c \<in> set cs. case_ok c"
    by (auto simp: well_registered_def)
  let ?u = "u\<lparr> test_case_indices := i2, test_cases := cs, random := r3 \<rparr>"
  have "ShuffleTests u = Some ?u"
    using cs(1) by (simp add: ShuffleTests_def s(1,2) [folded d(2)])
  moreover have "map (test_indices_update (\<lambda>_. [])) (test_cases ?u) = map (test_indices_update (\<lambda>_. [])) (test_cases u)"
    "\<forall>c \<in> set (test_cases ?u). case_ok c" "last_death_test_case ?u = last_death_test_case u"
    using cs(2,3) by simp_all
  note wr = well_registered_cong [OF this(1,3,2) assms(1)]
  moreover have "deaths_first ?u"
    using wr(2) s(3-5) assms(2) by (simp add: deaths_first_def Let_def)
  moreover have "last_death_test_case ?u = last_death_test_case u \<and>
      ad_hoc_test_result ?u = ad_hoc_test_result u \<and> current_test_info ?u = current_test_info u \<and>
      random_seed ?u = random_seed u" by simp
  moreover have "map (test_indices_update (\<lambda>_. [])) (test_cases ?u) = map (test_indices_update (\<lambda>_. [])) (test_cases u)"
    using cs(2) by simp
  ultimately show ?thesis by blast
qed

text \<open>What the loop over \<open>GetMutableTestCase\<close> visits.\<close>

lemma visits_in_order:
  assumes "deaths_first u" "well_registered u"
  shows "\<exists>order. map (\<lambda>i. GetMutableTestCase u (int i)) [0..<length (test_cases u)] = map Some order \<and>
    mset order = mset [0..<length (test_cases u)] \<and>
    (\<forall>j < length order. death_case (test_cases u ! (order ! j)) \<longleftrightarrow> int j \<le> last_death_test_case u)"
proof -
  let ?d = "nat (last_death_test_case u + 1)" and ?n = "length (test_cases u)" and ?is = "test_case_indices u"
  have d: "?d \<le> ?n" using assms(2) unfolding well_registered_def by linarith
  have len: "length ?is = ?n" using assms(1) by (simp add: deaths_first_def Let_def)
  have t: "set (take ?d ?is) = int ` {0..<?d}" "set (drop ?d ?is) = int ` {?d..<?n}"
    using assms(1) unfolding deaths_first_def Let_def
    by (metis list.set_map set_mset_mset set_upt)+
  have "mset ?is = mset (take ?d ?is) + mset (drop ?d ?is)"
    by (metis append_take_drop_id mset_append)
  also have "\<dots> = mset (map int ([0..<?d] @ [?d..<?n]))"
    using assms(1) unfolding deaths_first_def Let_def by simp
  also have "[0..<?d] @ [?d..<?n] = [0..<?n]"
    using d by (metis le_add_diff_inverse upt_add_eq_append zero_le)
  finally have ms: "mset ?is = mset (map int [0..<?n])" .
  then have set: "set ?is = int ` {0..<?n}" by (metis list.set_map set_mset_mset set_upt)
  have pos: "0 \<le> ?is ! j" "nat (?is ! j) < ?n" if "j < ?n" for j
    using nth_mem [of j ?is] that len unfolding set by auto
  let ?order = "map nat ?is"
  have "map (\<lambda>i. GetMutableTestCase u (int i)) [0..<?n] = map Some ?order"
    using pos len by (intro nth_equalityI) (simp_all add: GetMutableTestCase_def GetElementOr_def Let_def not_less)
  moreover have "mset ?order = mset [0..<?n]"
    using arg_cong [OF ms, of "image_mset nat"] by (simp add: comp_def multiset.map_comp)
  moreover have "death_case (test_cases u ! nat (?is ! j)) \<longleftrightarrow> int j \<le> last_death_test_case u"
    if j: "j < ?n" for j
  proof -
    have "nat (?is ! j) < ?d \<longleftrightarrow> j < ?d"
    proof (cases "j < ?d")
      case True
      then have "?is ! j \<in> set (take ?d ?is)" using j len by (auto simp: in_set_conv_nth)
      then show ?thesis using True unfolding t by auto
    next
      case False
      then have "?is ! j = drop ?d ?is ! (j - ?d)" "j - ?d < length (drop ?d ?is)"
        using j len by (simp_all add: less_diff_conv2)
      then have "?is ! j \<in> set (drop ?d ?is)" by (metis nth_mem)
      then show ?thesis using False unfolding t by auto
    qed
    then show ?thesis
      using assms(2) pos [OF j] by (simp add: well_registered_def) linarith
  qed
  ultimately show ?thesis using len by (intro exI [of _ ?order]) simp
qed

section \<open>Which tests run\<close>

text \<open>A test the flags allow to run, on whatever shard.\<close>

definition runnable :: "string \<Rightarrow> bool \<Rightarrow> string \<Rightarrow> string \<Rightarrow> bool" where
  "runnable f also_disabled tc_name t_name \<longleftrightarrow>
     (also_disabled \<or> \<not> (MatchesFilter tc_name kDisableTestFilter \<or> MatchesFilter t_name kDisableTestFilter)) \<and>
     FilterMatchesTest f tc_name t_name"

definition on_shard :: "(int \<times> int) option \<Rightarrow> int \<Rightarrow> bool" where
  "on_shard sh m \<longleftrightarrow> (case sh of None \<Rightarrow> True | Some (shards, i) \<Rightarrow> ShouldRunTestOnShard shards i m)"

text \<open>The flags \<open>should_run\<close> of a list of (test case, test) names; \<open>m\<close> runnable tests precede it.\<close>

fun selection :: "string \<Rightarrow> bool \<Rightarrow> (int \<times> int) option \<Rightarrow> int \<Rightarrow> (string \<times> string) list \<Rightarrow> bool list" where
  "selection f d sh m [] = []"
| "selection f d sh m ((c, t) # ns) =
     (runnable f d c t \<and> on_shard sh m) # selection f d sh (m + of_bool (runnable f d c t)) ns"

definition runnables :: "string \<Rightarrow> bool \<Rightarrow> (string \<times> string) list \<Rightarrow> int" where
  "runnables f d ns = int (length (filter (\<lambda>(c, t). runnable f d c t) ns))"

definition case_test_names :: "TestCase \<Rightarrow> (string \<times> string) list" where
  "case_test_names c = map (\<lambda>t. (case_name c, test_name t)) (test_info_list c)"

definition test_names :: "UnitTestImpl \<Rightarrow> (string \<times> string) list" where
  "test_names u = concat (map case_test_names (test_cases u))"

lemma filter_test_eq:
  "filter_test f d sh c m t =
     (t\<lparr> is_disabled := MatchesFilter c kDisableTestFilter \<or> MatchesFilter (test_name t) kDisableTestFilter,
         matches_filter := FilterMatchesTest f c (test_name t),
         should_run := runnable f d c (test_name t) \<and> on_shard sh m \<rparr>,
      runnable f d c (test_name t), runnable f d c (test_name t) \<and> on_shard sh m)"
  by (auto simp: filter_test_def runnable_def on_shard_def Let_def split: option.splits)

lemma selection_append:
  "selection f d sh m (xs @ ys) = selection f d sh m xs @ selection f d sh (m + runnables f d xs) ys"
  by (induction f d sh m xs rule: selection.induct) (auto simp: runnables_def add.assoc)

lemma filter_list_spec:
  "filter_list f d sh c m n ts = (ts', m', n', run) \<Longrightarrow>
     map should_run ts' = selection f d sh m (map (\<lambda>t. (c, test_name t)) ts) \<and>
     map test_name ts' = map test_name ts \<and>
     m' = m + runnables f d (map (\<lambda>t. (c, test_name t)) ts) \<and>
     n' = n + int (length (filter should_run ts')) \<and> (run \<longleftrightarrow> (\<exists>t \<in> set ts'. should_run t))"
proof (induction ts arbitrary: m n ts' m' n' run)
  case (Cons t ts)
  obtain us m1 n1 run1 where rest: "filter_list f d sh c (m + of_bool (runnable f d c (test_name t)))
      (n + of_bool (runnable f d c (test_name t) \<and> on_shard sh m)) ts = (us, m1, n1, run1)"
    by (metis prod_cases4)
  from Cons.IH [OF this] Cons.prems show ?case
    by (auto simp: filter_test_eq rest runnables_def Let_def)
qed (simp add: runnables_def)

lemma filter_cases_spec:
  "filter_cases f d sh m n cs = (cs', n') \<Longrightarrow>
     concat (map (\<lambda>c. map should_run (test_info_list c)) cs') =
       selection f d sh m (concat (map case_test_names cs)) \<and>
     map case_test_names cs' = map case_test_names cs \<and>
     map case_name cs' = map case_name cs \<and> map test_indices cs' = map test_indices cs \<and>
     n' = n + int (length (filter should_run (concat (map test_info_list cs')))) \<and>
     (\<forall>c \<in> set cs'. case_should_run c \<longleftrightarrow> (\<exists>t \<in> set (test_info_list c). should_run t))"
proof (induction cs arbitrary: m n cs' n')
  case (Cons c cs)
  obtain ts m1 n1 run where h: "filter_list f d sh (case_name c) m n (test_info_list c) = (ts, m1, n1, run)"
    by (metis prod_cases4)
  obtain cs1 n2 where r: "filter_cases f d sh m1 n1 cs = (cs1, n2)" by fastforce
  note fl = filter_list_spec [OF h]
  note fc = Cons.IH [OF r]
  have out: "cs' = c\<lparr> test_info_list := ts, case_should_run := run \<rparr> # cs1" "n' = n2"
    using Cons.prems by (auto simp: h r)
  have "map (\<lambda>t. (case_name c, test_name t)) ts = map (Pair (case_name c)) (map test_name ts)" by simp
  also have "\<dots> = map (\<lambda>t. (case_name c, test_name t)) (test_info_list c)"
    using fl by (simp only: conjunct1 [OF conjunct2 [OF fl]]) simp
  finally have names: "map (\<lambda>t. (case_name c, test_name t)) ts = case_test_names c"
    by (simp add: case_test_names_def)
  show ?case
    using fl fc names by (auto simp: out selection_append case_test_names_def)
qed simp

lemma test_names_length: "length (test_names u) = length (all_tests u)"
  by (simp add: test_names_def all_tests_def length_concat case_test_names_def comp_def)

lemma FilterTests_spec:
  assumes "FilterTests getenv f d honor u = Inr (u', n)"
  shows "\<exists>sh. (honor \<longrightarrow> (\<exists>shards i. Int32FromEnvOrDie getenv kTestTotalShards (-1) = Inr shards \<and>
        Int32FromEnvOrDie getenv kTestShardIndex (-1) = Inr i \<and> sh = Some (shards, i))) \<and>
      (\<not> honor \<longrightarrow> sh = None) \<and>
      map should_run (all_tests u') = selection f d sh 0 (test_names u) \<and>
      test_names u' = test_names u \<and> n = int (length (filter should_run (all_tests u'))) \<and>
      (\<forall>c \<in> set (test_cases u'). case_should_run c \<longleftrightarrow> (\<exists>t \<in> set (test_info_list c). should_run t)) \<and>
      map case_test_names (test_cases u') = map case_test_names (test_cases u) \<and>
      map case_name (test_cases u') = map case_name (test_cases u) \<and>
      map test_indices (test_cases u') = map test_indices (test_cases u) \<and>
      test_case_indices u' = test_case_indices u \<and> last_death_test_case u' = last_death_test_case u"
proof -
  from assms obtain sh where sh: "honor \<longrightarrow> (\<exists>shards i. Int32FromEnvOrDie getenv kTestTotalShards (-1) = Inr shards \<and>
        Int32FromEnvOrDie getenv kTestShardIndex (-1) = Inr i \<and> sh = Some (shards, i))"
      "\<not> honor \<longrightarrow> sh = None"
    and fc: "(case filter_cases f d sh 0 0 (test_cases u) of
        (cs, k) \<Rightarrow> Inr (u\<lparr> test_cases := cs \<rparr>, k)) = (Inr (u', n) :: string + UnitTestImpl \<times> int)"
    by (auto simp: FilterTests_def split: if_splits sum.splits)
  obtain cs k where cs: "filter_cases f d sh 0 0 (test_cases u) = (cs, k)" by fastforce
  from filter_cases_spec [OF cs] fc sh show ?thesis
    by (intro exI [of _ sh])
      (auto simp: cs all_tests_def test_names_def map_concat comp_def)
qed

lemma shard_unique:
  assumes "0 < shards" "0 \<le> m"
  shows "\<exists>!k. 0 \<le> k \<and> k < shards \<and> ShouldRunTestOnShard shards k m"
proof -
  have "m smod shards = m mod shards"
    using assms by (cases "m = 0") (simp_all add: signed_modulo_int_def)
  then show ?thesis
    using assms by (auto simp: ShouldRunTestOnShard_def)
qed

lemma selection_length [simp]: "length (selection f d sh m ns) = length ns"
  by (induction f d sh m ns rule: selection.induct) auto

lemma selection_shards:
  assumes "0 < shards"
  shows "\<lbrakk>0 \<le> m; j < length ns\<rbrakk> \<Longrightarrow>
    selection f d None m ns ! j \<longleftrightarrow>
    (\<exists>!k. 0 \<le> k \<and> k < shards \<and> selection f d (Some (shards, k)) m ns ! j)"
proof (induction ns arbitrary: m j)
  case (Cons x ns)
  obtain c t where x: "x = (c, t)" by fastforce
  show ?case
  proof (cases j)
    case 0
    then show ?thesis
      using shard_unique [OF assms Cons.prems(1)] by (auto simp: x on_shard_def)
  next
    case (Suc i)
    then show ?thesis
      using Cons.IH [of "m + of_bool (runnable f d c t)" i] Cons.prems by (simp add: x)
  qed
qed simp

lemma selection_shard_selected:
  "\<lbrakk>j < length ns; selection f d (Some (shards, k)) m ns ! j\<rbrakk> \<Longrightarrow> selection f d None m ns ! j"
proof (induction ns arbitrary: m j)
  case (Cons x ns)
  obtain c t where x: "x = (c, t)" by fastforce
  with Cons show ?case by (cases j) (auto simp: on_shard_def)
qed simp

lemma filter_tests_registry:
  assumes "FilterTests getenv f d honor u = Inr (u', n)"
  shows "well_registered u' = well_registered u" "deaths_first u' = deaths_first u"
proof -
  note s = FilterTests_spec [OF assms]
  then have names: "map case_name (test_cases u') = map case_name (test_cases u)"
    and ind: "map test_indices (test_cases u') = map test_indices (test_cases u)"
    and tests: "map case_test_names (test_cases u') = map case_test_names (test_cases u)"
    and reg: "test_case_indices u' = test_case_indices u" "last_death_test_case u' = last_death_test_case u"
    by auto
  have len: "length (test_cases u') = length (test_cases u)" using names by (metis length_map)
  have nth: "death_case (test_cases u' ! i) = death_case (test_cases u ! i)"
    "case_ok (test_cases u' ! i) = case_ok (test_cases u ! i)" if i: "i < length (test_cases u)" for i
  proof -
    have "case_name (test_cases u' ! i) = case_name (test_cases u ! i)"
      using arg_cong [OF names, of "\<lambda>xs. xs ! i"] i len by simp
    then show "death_case (test_cases u' ! i) = death_case (test_cases u ! i)"
      by (simp add: death_case_def)
    have "test_indices (test_cases u' ! i) = test_indices (test_cases u ! i)"
      using arg_cong [OF ind, of "\<lambda>xs. xs ! i"] i len by simp
    moreover have "length (case_test_names (test_cases u' ! i)) = length (case_test_names (test_cases u ! i))"
      using arg_cong [OF tests, of "\<lambda>xs. length (xs ! i)"] i len by simp
    ultimately show "case_ok (test_cases u' ! i) = case_ok (test_cases u ! i)"
      by (simp add: case_ok_def case_test_names_def)
  qed
  have "(\<forall>c \<in> set (test_cases u'). case_ok c) = (\<forall>c \<in> set (test_cases u). case_ok c)"
    using nth(2) len by (auto simp: all_set_conv_all_nth)
  then show "well_registered u' = well_registered u"
    using nth(1) len unfolding well_registered_def names reg by auto
  show "deaths_first u' = deaths_first u"
    by (simp add: deaths_first_def len reg)
qed

lemma filter_partition_length:
  "int (length (filter (\<lambda>x. P x \<and> Q x) xs)) + int (length (filter (\<lambda>x. P x \<and> \<not> Q x) xs)) =
     int (length (filter P xs))"
  by (induction xs) auto

lemma sum_from_shift: "sum_from n m cs = n + sum_from 0 m cs"
proof (induction cs arbitrary: n)
  case (Cons c cs)
  from Cons.IH [of "n + m c"] Cons.IH [of "m c"] show ?case by simp
qed simp

lemma sum_over_add:
  "(\<And>c. f c + g c = h c) \<Longrightarrow>
     SumOverTestCaseList cs f + SumOverTestCaseList cs g = SumOverTestCaseList cs h"
proof (induction cs)
  case (Cons c cs)
  show ?case
    using Cons.IH [OF Cons.prems] sum_from_shift [of "f c" f cs] sum_from_shift [of "g c" g cs]
      sum_from_shift [of "h c" h cs] Cons.prems [of c]
    unfolding SumOverTestCaseList_def sum_from.simps add_0 by linarith
qed (simp add: SumOverTestCaseList_def)

lemma run_counts:
  "all_successful_test_count u + all_failed_test_count u = all_test_to_run_count u"
  unfolding all_successful_test_count_def all_failed_test_count_def all_test_to_run_count_def
  by (rule sum_over_add)
    (simp add: successful_test_count_def failed_test_count_def test_to_run_count_def CountIf_length
      TestPassed_def [abs_def] TestFailed_def [abs_def] Passed_def filter_partition_length
      add.commute [of "int (length (filter (\<lambda>x. should_run x \<and> \<not> Failed (result_of x)) _))"])

text \<open>\<open>GetTestCase\<close> checks the shuffled index of a test case but returns the test case registered there.\<close>

lemma get_test_case_ignores_order:
  assumes "0 \<le> i" "i < int (length (test_case_indices u))" "0 \<le> test_case_indices u ! nat i"
  shows "GetTestCase u i = Some (test_cases u ! nat i)"
    "GetMutableTestCase u i = Some (nat (test_case_indices u ! nat i))"
  using assms by (simp_all add: GetTestCase_def GetMutableTestCase_def GetElementOr_def Let_def)

lemma filtered_registry:
  assumes "registered p getcwd u ts" "FilterTests getenv f d honor u = Inr (u1, n)" "length ts < 2 ^ 31"
  shows "well_registered u1" "deaths_first u1" "length (test_cases u1) < 2 ^ 31"
    "\<forall>c \<in> set (test_cases u1). length (test_info_list c) < 2 ^ 31"
    "\<forall>c \<in> set (test_cases u1). case_should_run c \<longleftrightarrow> (\<exists>t \<in> set (test_info_list c). should_run t)"
proof -
  note inv = registered_invariant [OF assms(1)]
  note reg = filter_tests_registry [OF assms(2)]
  have names1: "map case_name (test_cases u1) = map case_name (test_cases u)"
    and tests1: "map case_test_names (test_cases u1) = map case_test_names (test_cases u)"
    using FilterTests_spec [OF assms(2)] by auto
  then have len1: "length (test_cases u1) = length (test_cases u)" by (metis length_map)
  show "well_registered u1" "deaths_first u1"
    using inv registration_order_deaths_first [of u] reg by auto
  show "\<forall>c \<in> set (test_cases u1). case_should_run c \<longleftrightarrow> (\<exists>t \<in> set (test_info_list c). should_run t)"
    using FilterTests_spec [OF assms(2)] by auto
  have sizes: "length (test_info_list c) \<le> length ts" if "c \<in> set (test_cases u)" for c
    using inv that by (simp add: registered_tests_def)
  have "card (case_name ` set (test_cases u)) \<le> card (set ts)"
    using inv by (simp add: registered_tests_def card_image_le)
  moreover have "card (case_name ` set (test_cases u)) = length (test_cases u)"
    using inv distinct_card [of "map case_name (test_cases u)"] by (simp add: well_registered_def)
  ultimately show "length (test_cases u1) < 2 ^ 31"
    using len1 card_length [of ts] assms(3) by linarith
  show "\<forall>c \<in> set (test_cases u1). length (test_info_list c) < 2 ^ 31"
  proof
    fix c assume "c \<in> set (test_cases u1)"
    then obtain i where i: "i < length (test_cases u)" "c = test_cases u1 ! i"
      using len1 by (metis in_set_conv_nth)
    have "length (case_test_names (test_cases u1 ! i)) = length (case_test_names (test_cases u ! i))"
      using arg_cong [OF tests1, of "\<lambda>xs. length (xs ! i)"] i(1) len1 by simp
    then show "length (test_info_list c) < 2 ^ 31"
      using sizes [OF nth_mem [OF i(1)]] assms(3) i(2) by (simp add: case_test_names_def)
  qed
qed

lemma registered_idle: "registered p getcwd u ts \<Longrightarrow> current_test_info u = None"
proof (induction rule: registered.induct)
  case (add u ts t u')
  then show ?case
    by (auto simp: AddTestInfo_def find_or_create_TestCase_def update_case_def Let_def
        split: if_splits option.splits prod.splits)
qed (simp add: new_UnitTestImpl_def)

lemma filter_keeps_current:
  "FilterTests getenv f d honor u = Inr (u1, n) \<Longrightarrow> current_test_info u1 = current_test_info u \<and>
     ad_hoc_test_result u1 = ad_hoc_test_result u"
  by (auto simp: FilterTests_def Let_def split: if_splits sum.splits prod.splits)

section \<open>A sample program\<close>

definition sample_tests :: "TestInfo list" where
  "sample_tests =
     [new_TestInfo ''Foo'' ''a'' None None 0, new_TestInfo ''BarDeathTest'' ''b'' None None 0,
      new_TestInfo ''Foo'' ''c'' None None 0]"

definition sample_state :: "nat \<Rightarrow> UnitTestImpl" where
  "sample_state n = foldl (\<lambda>u t. the (AddTestInfo Posix (Some ''/tmp'') t u)) new_UnitTestImpl (take n sample_tests)"

lemma sample_registered: "registered Posix (Some ''/tmp'') (sample_state 3) sample_tests"
proof -
  have "AddTestInfo Posix (Some ''/tmp'') (new_TestInfo ''Foo'' ''a'' None None 0) new_UnitTestImpl = Some (sample_state 1)"
    "AddTestInfo Posix (Some ''/tmp'') (new_TestInfo ''BarDeathTest'' ''b'' None None 0) (sample_state 1) = Some (sample_state 2)"
    "AddTestInfo Posix (Some ''/tmp'') (new_TestInfo ''Foo'' ''c'' None None 0) (sample_state 2) = Some (sample_state 3)"
    by code_simp+
  from registered.add [OF registered.add [OF registered.add [OF registered.start this(1)] this(2)] this(3)]
  show ?thesis by (simp add: sample_tests_def)
qed

section \<open>Properties\<close>

text \<open>C24: However the tests of the program are registered, the registry has one test case for each name,
  holding the tests registered under it in the order of their registration; the death test cases are
  the first \<open>last_death_test_case + 1\<close> ones and no others; and every index vector is the registration
  order.\<close>

theorem registry_invariant:
  "registered p getcwd u ts \<Longrightarrow>
     distinct (map case_name (test_cases u)) \<and>
     case_name ` set (test_cases u) = test_case_name ` set ts \<and>
     (\<forall>c \<in> set (test_cases u). test_info_list c = filter (\<lambda>t. test_case_name t = case_name c) ts) \<and>
     (\<forall>i < length (test_cases u).
        MatchesFilter (case_name (test_cases u ! i)) kDeathTestCaseFilter \<longleftrightarrow> int i \<le> last_death_test_case u) \<and>
     in_registration_order u"
  using registered_invariant
  by (fastforce simp: well_registered_def registered_tests_def death_case_def)

theorem registry_invariant_witness:
  "map case_name (test_cases (sample_state 3)) = [''BarDeathTest'', ''Foo''] \<and>
   in_registration_order (sample_state 3) \<and> distinct (map case_name (test_cases (sample_state 3)))"
proof -
  have "map case_name (test_cases (sample_state 3)) = [''BarDeathTest'', ''Foo'']" by code_simp
  with registry_invariant [OF sample_registered] show ?thesis by blast
qed

text \<open>C31: Once the tests are registered and filtered, shuffling does not abort, keeps the registry and the
  tests of every test case, and the run visits every test case exactly once with the death test cases
  before all others.\<close>

theorem shuffled_run_order:
  assumes "registered p getcwd u ts" "FilterTests getenv f d honor u = Inr (u1, n)" "length ts < 2 ^ 31"
  shows "\<exists>u2 order. ShuffleTests u1 = Some u2 \<and>
    map case_name (test_cases u2) = map case_name (test_cases u) \<and>
    map test_info_list (test_cases u2) = map test_info_list (test_cases u1) \<and>
    map (\<lambda>i. GetMutableTestCase u2 (int i)) [0..<length (test_cases u)] = map Some order \<and>
    mset order = mset [0..<length (test_cases u)] \<and>
    (\<forall>j < length order. death_case (test_cases u2 ! (order ! j)) \<longleftrightarrow> int j \<le> last_death_test_case u)"
proof -
  note fr = filtered_registry [OF assms]
  then obtain u2 where u2: "ShuffleTests u1 = Some u2" "well_registered u2" "deaths_first u2"
      "map case_name (test_cases u2) = map case_name (test_cases u1)"
      "map test_info_list (test_cases u2) = map test_info_list (test_cases u1)"
      "last_death_test_case u2 = last_death_test_case u1"
    using shuffle_tests_ok [of u1] by auto
  have "map case_name (test_cases u2) = map case_name (test_cases u)"
    "last_death_test_case u2 = last_death_test_case u"
    using u2 FilterTests_spec [OF assms(2)] by auto
  moreover from this have "length (test_cases u2) = length (test_cases u)" by (metis length_map)
  ultimately show ?thesis
    using visits_in_order [OF u2(3,2)] u2 by (intro exI [of _ u2]) simp
qed

theorem shuffled_run_order_witness:
  "let u = fst (projr (FilterTests (\<lambda>_. None) ''Foo.*'' False False (sample_state 3))) in
   \<exists>u2 order. ShuffleTests u = Some u2 \<and> mset order = mset [0..<2] \<and>
     map (\<lambda>i. GetMutableTestCase u2 (int i)) [0..<2] = map Some order"
proof -
  have l: "length (test_cases (sample_state 3)) = 2" "length sample_tests < 2 ^ 31" by code_simp+
  have "\<exists>x. FilterTests (\<lambda>_. None) ''Foo.*'' False False (sample_state 3) = Inr x"
    by (simp add: FilterTests_def split_def Let_def)
  then obtain u n where "FilterTests (\<lambda>_. None) ''Foo.*'' False False (sample_state 3) = Inr (u, n)"
    by auto
  from shuffled_run_order [OF sample_registered this l(2)] show ?thesis
    by (auto simp: \<open>_ = Inr (u, n)\<close> l(1) Let_def)
qed

text \<open>What \<open>FilterTests\<close> does on one shard.\<close>

lemma shard_selects:
  assumes "0 \<le> k" "k < shards" "shards < 2 ^ 31"
    and "env kTestTotalShards = Some (int_string shards)" "env kTestShardIndex = Some (int_string k)"
  shows "\<exists>w m. FilterTests env f d True u = Inr (w, m) \<and>
    m = int (length (filter should_run (all_tests w))) \<and>
    map should_run (all_tests w) = selection f d (Some (shards, k)) 0 (test_names u)"
proof -
  have env: "Int32FromEnvOrDie env kTestTotalShards (-1) = Inr shards"
    "Int32FromEnvOrDie env kTestShardIndex (-1) = Inr k"
    using assms by (simp_all add: Int32FromEnvOrDie_def ParseInt32_int_string)
  obtain w m where w: "FilterTests env f d True u = Inr (w, m)"
    using assms(1,2) by (auto simp: FilterTests_def env split_def Let_def)
  then show ?thesis using assms(1,2) FilterTests_spec [OF w] env by auto
qed

text \<open>C10: With valid sharding variables, the shards split the tests that run without sharding: each of them
  runs on exactly one of the shards, a test that does not run without sharding runs on no shard, and the
  number \<open>FilterTests\<close> returns on each shard is the number of tests it selected.\<close>

theorem shards_partition_tests:
  assumes "0 < shards" "shards < 2 ^ 31"
    and "FilterTests env f d False u = Inr (v, n)"
    and "\<And>k. \<lbrakk>0 \<le> k; k < shards\<rbrakk> \<Longrightarrow> env_of k kTestTotalShards = Some (int_string shards) \<and>
      env_of k kTestShardIndex = Some (int_string k)"
    and "j < length (all_tests u)"
  shows "(\<forall>k. 0 \<le> k \<and> k < shards \<longrightarrow> (\<exists>w m. FilterTests (env_of k) f d True u = Inr (w, m) \<and>
      m = int (length (filter should_run (all_tests w))))) \<and>
    (should_run (all_tests v ! j) \<longleftrightarrow> (\<exists>!k. 0 \<le> k \<and> k < shards \<and>
      (\<exists>w m. FilterTests (env_of k) f d True u = Inr (w, m) \<and> should_run (all_tests w ! j)))) \<and>
    (\<not> should_run (all_tests v ! j) \<longrightarrow> \<not> (\<exists>k. 0 \<le> k \<and> k < shards \<and>
      (\<exists>w m. FilterTests (env_of k) f d True u = Inr (w, m) \<and> should_run (all_tests w ! j))))"
proof -
  have run: "\<exists>w m. FilterTests (env_of k) f d True u = Inr (w, m) \<and>
      m = int (length (filter should_run (all_tests w))) \<and>
      map should_run (all_tests w) = selection f d (Some (shards, k)) 0 (test_names u)"
    if "0 \<le> k" "k < shards" for k
    using shard_selects [OF that assms(2)] assms(4) [OF that] by blast
  have nth: "should_run (all_tests w ! j) = selection f d sh 0 (test_names u) ! j"
    if "map should_run (all_tests w) = selection f d sh 0 (test_names u)" for w sh
    using arg_cong [OF that, of "\<lambda>xs. xs ! j"] arg_cong [OF that, of length] assms(5)
    by (simp add: test_names_length)
  have "map should_run (all_tests v) = selection f d None 0 (test_names u)"
    using FilterTests_spec [OF assms(3)] by auto
  then have plain: "should_run (all_tests v ! j) = selection f d None 0 (test_names u) ! j" by (rule nth)
  have on: "(\<exists>w m. FilterTests (env_of k) f d True u = Inr (w, m) \<and> should_run (all_tests w ! j)) \<longleftrightarrow>
      selection f d (Some (shards, k)) 0 (test_names u) ! j" if "0 \<le> k" "k < shards" for k
    using run [OF that] nth by fastforce
  have j: "j < length (test_names u)" using assms(5) by (simp add: test_names_length)
  have one: "selection f d None 0 (test_names u) ! j \<longleftrightarrow>
      (\<exists>!k. 0 \<le> k \<and> k < shards \<and> selection f d (Some (shards, k)) 0 (test_names u) ! j)"
    using selection_shards [OF assms(1), of 0 j "test_names u"] j by simp
  have none: "selection f d (Some (shards, k)) 0 (test_names u) ! j \<Longrightarrow> selection f d None 0 (test_names u) ! j"
    for k using selection_shard_selected [OF j] .
  have shards: "(\<lambda>k. 0 \<le> k \<and> k < shards \<and>
      (\<exists>w m. FilterTests (env_of k) f d True u = Inr (w, m) \<and> should_run (all_tests w ! j))) =
    (\<lambda>k. 0 \<le> k \<and> k < shards \<and> selection f d (Some (shards, k)) 0 (test_names u) ! j)"
  proof (rule ext)
    fix k
    show "(0 \<le> k \<and> k < shards \<and>
      (\<exists>w m. FilterTests (env_of k) f d True u = Inr (w, m) \<and> should_run (all_tests w ! j))) =
      (0 \<le> k \<and> k < shards \<and> selection f d (Some (shards, k)) 0 (test_names u) ! j)"
      by (rule conj_cong [OF refl], rule conj_cong [OF refl], rule on)
  qed
  have count: "\<forall>k. 0 \<le> k \<and> k < shards \<longrightarrow> (\<exists>w m. FilterTests (env_of k) f d True u = Inr (w, m) \<and>
      m = int (length (filter should_run (all_tests w))))"
    using run by blast
  show ?thesis unfolding shards plain
    by (rule conjI [OF count conjI [OF one]]) (use none in blast)
qed

theorem shards_partition_tests_witness:
  "let env = (\<lambda>k v. if v = kTestTotalShards then Some (int_string 2)
       else if v = kTestShardIndex then Some (int_string k) else None);
     runs = (\<lambda>k j. 0 \<le> k \<and> k < 2 \<and> (\<exists>w m. FilterTests (env k) ''Foo.*'' False True (sample_state 3) = Inr (w, m) \<and>
       should_run (all_tests w ! j))) in
   (\<exists>!k. runs k 1) \<and> \<not> (\<exists>k. runs k 0)"
proof -
  define env where "env = (\<lambda>k v. if v = kTestTotalShards then Some (int_string 2)
       else if v = kTestShardIndex then Some (int_string k) else None)"
  have e: "env k kTestTotalShards = Some (int_string 2) \<and> env k kTestShardIndex = Some (int_string k)" for k
    by (simp add: env_def kTestTotalShards_def kTestShardIndex_def)
  let ?run = "FilterTests (\<lambda>_. None) ''Foo.*'' False False (sample_state 3)"
  have r: "?run = Inr (projr ?run)" "should_run (all_tests (fst (projr ?run)) ! 1)"
    "\<not> should_run (all_tests (fst (projr ?run)) ! 0)"
    "0 < length (all_tests (sample_state 3))" "1 < length (all_tests (sample_state 3))"
    by code_simp+
  then obtain v n where v: "?run = Inr (v, n)" "should_run (all_tests v ! 1)" "\<not> should_run (all_tests v ! 0)"
    by (cases "projr ?run") auto
  note ok = shards_partition_tests [of 2 "\<lambda>_. None" "''Foo.*''" False "sample_state 3" v n env, OF _ _ v(1) e]
  from ok [OF _ _ r(5)] ok [OF _ _ r(4)] v(2,3) show ?thesis by (simp add: env_def [symmetric])
qed

end
