(* ===== verification/Gtest_Listeners.thy ===== *)
theory Gtest_Listeners
  imports Gtest_UnitTest
begin

text \<open>
  The event listeners of googletest (\<open>TestEventRepeater\<close>, \<open>TestEventListeners\<close> in \<open>gtest.cc\<close>): a listener
  is identified by a number (its address), \<open>None\<close> is the null pointer.  Notifying the listeners gives
  the calls in the order they are made.
\<close>

section \<open>Events\<close>

datatype event =
    OnTestProgramStart
  | OnTestIterationStart int
  | OnEnvironmentsSetUpStart
  | OnEnvironmentsSetUpEnd
  | OnTestCaseStart nat
  | OnTestStart nat nat
  | OnTestPartResult TestPartResult
  | OnTestEnd nat nat
  | OnTestCaseEnd nat
  | OnEnvironmentsTearDownStart
  | OnEnvironmentsTearDownEnd
  | OnTestIterationEnd int
  | OnTestProgramEnd

text \<open>The events \<open>GTEST_REVERSE_REPEATER_METHOD_\<close> and \<open>OnTestIterationEnd\<close> forward in reverse order.\<close>

fun reverse_event :: "event \<Rightarrow> bool" where
  "reverse_event OnEnvironmentsSetUpEnd = True"
| "reverse_event OnEnvironmentsTearDownEnd = True"
| "reverse_event (OnTestEnd i j) = True"
| "reverse_event (OnTestCaseEnd i) = True"
| "reverse_event OnTestProgramEnd = True"
| "reverse_event (OnTestIterationEnd i) = True"
| "reverse_event _ = False"

section \<open>TestEventRepeater\<close>

record TestEventRepeater =
  forwarding_enabled :: bool
  event_listeners :: "nat list"

definition new_TestEventRepeater :: TestEventRepeater where
  "new_TestEventRepeater = \<lparr> forwarding_enabled = True, event_listeners = [] \<rparr>"

definition repeater_Append :: "nat \<Rightarrow> TestEventRepeater \<Rightarrow> TestEventRepeater" where
  "repeater_Append listener r = r\<lparr> event_listeners := event_listeners r @ [listener] \<rparr>"

definition repeater_Release :: "nat option \<Rightarrow> TestEventRepeater \<Rightarrow> nat option \<times> TestEventRepeater" where
  "repeater_Release listener r =
     (case listener of
        None \<Rightarrow> (None, r)
      | Some l \<Rightarrow>
          if l \<in> set (event_listeners r) then (Some l, r\<lparr> event_listeners := remove1 l (event_listeners r) \<rparr>)
          else (None, r))"

definition repeat_event :: "event \<Rightarrow> TestEventRepeater \<Rightarrow> (nat \<times> event) list" where
  "repeat_event e r =
     (if forwarding_enabled r then
        map (\<lambda>l. (l, e)) (if reverse_event e then rev (event_listeners r) else event_listeners r)
      else [])"

section \<open>TestEventListeners\<close>

record TestEventListeners =
  repeater :: TestEventRepeater
  default_result_printer :: "nat option"
  default_xml_generator :: "nat option"

definition new_TestEventListeners :: TestEventListeners where
  "new_TestEventListeners = \<lparr> repeater = new_TestEventRepeater, default_result_printer = None,
     default_xml_generator = None \<rparr>"

definition listeners_Append :: "nat \<Rightarrow> TestEventListeners \<Rightarrow> TestEventListeners" where
  "listeners_Append listener ls = ls\<lparr> repeater := repeater_Append listener (repeater ls) \<rparr>"

definition listeners_Release :: "nat option \<Rightarrow> TestEventListeners \<Rightarrow> nat option \<times> TestEventListeners" where
  "listeners_Release listener ls =
     (let ls1 = (if listener = default_result_printer ls then ls\<lparr> default_result_printer := None \<rparr>
                 else if listener = default_xml_generator ls then ls\<lparr> default_xml_generator := None \<rparr>
                 else ls);
          (released, r) = repeater_Release listener (repeater ls1) in
      (released, ls1\<lparr> repeater := r \<rparr>))"

text \<open>The first component is the listener that is deleted.\<close>

definition SetDefaultResultPrinter :: "nat option \<Rightarrow> TestEventListeners \<Rightarrow> nat option \<times> TestEventListeners" where
  "SetDefaultResultPrinter listener ls =
     (if default_result_printer ls \<noteq> listener then
        let (deleted, ls1) = listeners_Release (default_result_printer ls) ls;
            ls2 = ls1\<lparr> default_result_printer := listener \<rparr> in
        (deleted, case listener of None \<Rightarrow> ls2 | Some l \<Rightarrow> listeners_Append l ls2)
      else (None, ls))"

definition SetDefaultXmlGenerator :: "nat option \<Rightarrow> TestEventListeners \<Rightarrow> nat option \<times> TestEventListeners" where
  "SetDefaultXmlGenerator listener ls =
     (if default_xml_generator ls \<noteq> listener then
        let (deleted, ls1) = listeners_Release (default_xml_generator ls) ls;
            ls2 = ls1\<lparr> default_xml_generator := listener \<rparr> in
        (deleted, case listener of None \<Rightarrow> ls2 | Some l \<Rightarrow> listeners_Append l ls2)
      else (None, ls))"

definition EventForwardingEnabled :: "TestEventListeners \<Rightarrow> bool" where
  "EventForwardingEnabled ls = forwarding_enabled (repeater ls)"

definition SuppressEventForwarding :: "TestEventListeners \<Rightarrow> TestEventListeners" where
  "SuppressEventForwarding ls = ls\<lparr> repeater := (repeater ls)\<lparr> forwarding_enabled := False \<rparr> \<rparr>"

text \<open>\<open>SuppressTestEventsIfInSubprocess\<close>: \<open>in_subprocess\<close> tells whether the internal flag is set.\<close>

definition SuppressTestEventsIfInSubprocess :: "bool \<Rightarrow> TestEventListeners \<Rightarrow> TestEventListeners" where
  "SuppressTestEventsIfInSubprocess in_subprocess ls =
     (if in_subprocess then SuppressEventForwarding ls else ls)"

text \<open>The format and the new XML printer; the first component is the output.\<close>

definition ConfigureXmlOutput :: "string \<Rightarrow> nat \<Rightarrow> TestEventListeners \<Rightarrow> string \<times> TestEventListeners" where
  "ConfigureXmlOutput output_format printer ls =
     (if output_format = ''xml'' then ([], snd (SetDefaultXmlGenerator (Some printer) ls))
      else if output_format \<noteq> [] then
        (''WARNING: unrecognized output format '' @ [CHR 0x22] @ output_format @ [CHR 0x22] @ '' ignored.'' @
         [CHR 0x0A], ls)
      else ([], ls))"

text \<open>The host and the port of the new streaming listener.\<close>

definition ConfigureStreamingOutput ::
    "string \<Rightarrow> nat \<Rightarrow> TestEventListeners \<Rightarrow> string \<times> (string \<times> string) option \<times> TestEventListeners" where
  "ConfigureStreamingOutput target streamer ls =
     (if target \<noteq> [] then
        (if CHR '':'' \<in> set target then
           ([], Some (takeWhile (\<lambda>c. c \<noteq> CHR '':'') target, tl (dropWhile (\<lambda>c. c \<noteq> CHR '':'') target)),
            listeners_Append streamer ls)
         else (''WARNING: unrecognized streaming target '' @ [CHR 0x22] @ target @ [CHR 0x22] @ '' ignored.'' @
            [CHR 0x0A], None, ls))
      else ([], None, ls))"

section \<open>What the listeners keep\<close>

text \<open>Every listener is registered once and the default listeners are two different registered ones.\<close>

definition listeners_ok :: "TestEventListeners \<Rightarrow> bool" where
  "listeners_ok ls \<longleftrightarrow>
     distinct (event_listeners (repeater ls)) \<and>
     (case default_result_printer ls of None \<Rightarrow> True | Some l \<Rightarrow> l \<in> set (event_listeners (repeater ls))) \<and>
     (case default_xml_generator ls of None \<Rightarrow> True | Some l \<Rightarrow> l \<in> set (event_listeners (repeater ls))) \<and>
     (default_result_printer ls = None \<or> default_result_printer ls \<noteq> default_xml_generator ls)"

lemmas listener_defs = listeners_ok_def listeners_Append_def listeners_Release_def repeater_Append_def
  repeater_Release_def SetDefaultResultPrinter_def SetDefaultXmlGenerator_def

lemma new_listeners_ok: "listeners_ok new_TestEventListeners"
  by (simp add: listener_defs new_TestEventListeners_def new_TestEventRepeater_def)

lemma listeners_Append_ok:
  "\<lbrakk>listeners_ok ls; l \<notin> set (event_listeners (repeater ls))\<rbrakk> \<Longrightarrow> listeners_ok (listeners_Append l ls)"
  by (auto simp: listener_defs split: option.splits)

lemma listeners_Release_ok: "listeners_ok ls \<Longrightarrow> listeners_ok (snd (listeners_Release l ls))"
  by (auto simp: listener_defs Let_def split: option.splits if_splits)

lemma listeners_Release_set:
  "set (event_listeners (repeater (snd (listeners_Release l ls)))) \<subseteq> set (event_listeners (repeater ls))"
  by (auto simp: listener_defs Let_def split: option.splits dest!: subsetD [OF set_remove1_subset])

lemma released_registered:
  "listeners_ok ls \<Longrightarrow> fst (listeners_Release (default_result_printer ls) ls) = default_result_printer ls"
  "listeners_ok ls \<Longrightarrow> fst (listeners_Release (default_xml_generator ls) ls) = default_xml_generator ls"
  by (auto simp: listener_defs Let_def split: option.splits if_splits)

text \<open>From the empty set of listeners, appending and releasing listeners and setting the default ones
  (with listeners not yet registered) keep every listener registered once and the two defaults
  registered and different; the default that is replaced is exactly the listener deleted and is no
  longer notified.\<close>

lemma listeners_invariant:
  assumes "listeners_ok ls" "case new of None \<Rightarrow> True | Some l \<Rightarrow> l \<notin> set (event_listeners (repeater ls))"
  shows "listeners_ok (snd (listeners_Release l ls)) \<and>
    (\<forall>n. new = Some n \<longrightarrow> listeners_ok (listeners_Append n ls)) \<and>
    listeners_ok (snd (SetDefaultResultPrinter new ls)) \<and> listeners_ok (snd (SetDefaultXmlGenerator new ls)) \<and>
    default_result_printer (snd (SetDefaultResultPrinter new ls)) = new \<and>
    default_xml_generator (snd (SetDefaultXmlGenerator new ls)) = new \<and>
    (default_result_printer ls \<noteq> new \<longrightarrow>
       fst (SetDefaultResultPrinter new ls) = default_result_printer ls \<and>
       (\<forall>d. default_result_printer ls = Some d \<longrightarrow>
          d \<notin> set (event_listeners (repeater (snd (SetDefaultResultPrinter new ls))))))"
  using assms
  by (cases new; cases "default_result_printer ls"; cases "default_xml_generator ls")
    (auto simp: listener_defs Let_def split: option.splits if_splits)

lemma listeners_invariant_witness:
  "listeners_ok (snd (SetDefaultResultPrinter (Some 2) (listeners_Append 1 new_TestEventListeners))) \<and>
   default_result_printer (snd (SetDefaultResultPrinter (Some 2) (listeners_Append 1 new_TestEventListeners))) = Some 2"
proof -
  have "listeners_ok (listeners_Append 1 new_TestEventListeners)"
    "2 \<notin> set (event_listeners (repeater (listeners_Append 1 new_TestEventListeners)))"
    by code_simp+
  with listeners_invariant [of "listeners_Append 1 new_TestEventListeners" "Some 2" None]
  show ?thesis by simp
qed

end
