(* ===== verification/Gtest_Run.thy ===== *)
theory Gtest_Run
  imports Gtest_Registry Gtest_Listeners
begin

text \<open>
  Running the tests (\<open>gtest.cc\<close>): reporting the result of an assertion through the reporters, the
  scoped traces, \<open>HandleExceptionsInMethodIfSupported\<close>, and \<open>Run\<close> of \<open>Test\<close>, \<open>TestInfo\<close>, \<open>TestCase\<close>,
  \<open>UnitTestImpl\<close> (\<open>RunAllTests\<close>) and \<open>UnitTest\<close>.  The code of the user (fixtures, test bodies,
  environments) is a script of what it does when it is called; the clock is a parameter.
\<close>

section \<open>The code of the user\<close>

datatype thrown = GoogleTestFailureException string | Std_exception string | Other_exception

text \<open>How a call ends: it returns, throws, or the process is aborted.\<close>

datatype 'a outcome = Returned 'a | Thrown thrown | Aborted

text \<open>
  What user code does, as far as googletest sees it: an assertion reports a result, an exception is
  thrown, a block runs under \<open>SCOPED_TRACE\<close>, \<open>EXPECT_NO_FATAL_FAILURE\<close> or \<open>EXPECT_(NON)FATAL_FAILURE\<close>.
\<close>

datatype stmt =
    Assert part_type "string option" int string
  | Throw thrown
  | Scoped_trace "string option" int string "stmt list"
  | No_fatal_failure "string option" int string "stmt list"
  | Expect_failure part_type string "stmt list"

record test_code =
  fixture_constructor :: "stmt list"
  fixture_set_up :: "stmt list"
  test_body :: "stmt list"
  fixture_tear_down :: "stmt list"
  fixture_destructor :: "stmt list"

record user_code =
  environments :: "(stmt list \<times> stmt list) list"
  SetUpTestCase :: "nat \<Rightarrow> stmt list"
  TearDownTestCase :: "nat \<Rightarrow> stmt list"
  code_of_test :: "nat \<Rightarrow> nat \<Rightarrow> test_code"

section \<open>State\<close>

record TraceInfo =
  trace_file :: "string option"
  trace_line :: int
  trace_message :: string

text \<open>The reporter of the thread, with the reporter each scoped one replaced.\<close>

datatype reporter =
    Default_reporter
  | Scoped_fake TestPartResultArray reporter
  | New_fatal_failure bool reporter

text \<open>The flags, how the program is built, and the clock.\<close>

record run_flags =
  catch_exceptions :: bool
  break_on_failure :: bool
  throw_on_failure :: bool
  flag_shuffle :: bool
  flag_list_tests :: bool
  flag_also_run_disabled_tests :: bool
  flag_filter :: string
  flag_repeat :: int
  flag_random_seed :: int
  is_msc :: bool
  gtest_cc :: string
  test_type_id :: nat
  clock :: "nat \<Rightarrow> int"

record run_state =
  impl :: UnitTestImpl
  thread_reporter :: reporter
  gtest_trace_stack :: "TraceInfo list"
  listeners :: TestEventListeners
  notified :: "(nat \<times> event) list"
  clock_reads :: nat
  start_timestamp :: int
  elapsed_time :: int
  printed :: string
  post_flag_parse_init_performed :: bool
  parameterized_tests_registered :: bool

type_synonym 'a prog = "run_state \<Rightarrow> 'a outcome \<times> run_state"

text \<open>Calls in sequence: what follows runs only when a call returns.\<close>

definition bind_prog :: "'a prog \<Rightarrow> ('a \<Rightarrow> 'b prog) \<Rightarrow> 'b prog" where
  "bind_prog f g st =
     (case f st of (Returned x, st') \<Rightarrow> g x st' | (Thrown e, st') \<Rightarrow> (Thrown e, st') | (Aborted, st') \<Rightarrow> (Aborted, st'))"

abbreviation andThen :: "unit prog \<Rightarrow> 'b prog \<Rightarrow> 'b prog" where
  "andThen f g \<equiv> bind_prog f (\<lambda>_. g)"

definition give :: "'a \<Rightarrow> 'a prog" where
  "give x st = (Returned x, st)"

definition update :: "(run_state \<Rightarrow> run_state) \<Rightarrow> unit prog" where
  "update f st = (Returned (), f st)"

fun in_order :: "unit prog list \<Rightarrow> unit prog" where
  "in_order [] = give ()"
| "in_order (f # fs) = andThen f (in_order fs)"

definition on_impl :: "(UnitTestImpl \<Rightarrow> UnitTestImpl) \<Rightarrow> unit prog" where
  "on_impl f = update (\<lambda>st. st\<lparr> impl := f (impl st) \<rparr>)"

definition notify :: "event \<Rightarrow> unit prog" where
  "notify e = update (\<lambda>st. st\<lparr> notified := notified st @ repeat_event e (repeater (listeners st)) \<rparr>)"

definition GetTimeInMillis :: "run_flags \<Rightarrow> int prog" where
  "GetTimeInMillis fl st = (Returned (clock fl (clock_reads st)), st\<lparr> clock_reads := clock_reads st + 1 \<rparr>)"

section \<open>Reporting a result\<close>

text \<open>The reporters after the report, and whether the default reporter gets it.\<close>

fun report :: "TestPartResult \<Rightarrow> reporter \<Rightarrow> reporter \<times> bool" where
  "report r Default_reporter = (Default_reporter, True)"
| "report r (Scoped_fake rs old_reporter) = (Scoped_fake (array_Append rs r) old_reporter, False)"
| "report r (New_fatal_failure has_new_fatal_failure original_reporter) =
     (let (original', delivered) = report r original_reporter in
      (New_fatal_failure (if fatally_failed r then True else has_new_fatal_failure) original', delivered))"

definition default_report :: "TestPartResult \<Rightarrow> run_state \<Rightarrow> run_state" where
  "default_report r st =
     st\<lparr> impl := set_current_test_result (AddTestPartResult r (current_test_result (impl st))) (impl st),
        notified := notified st @ repeat_event (OnTestPartResult r) (repeater (listeners st)) \<rparr>"

definition ReportTestPartResult :: "TestPartResult \<Rightarrow> run_state \<Rightarrow> run_state" where
  "ReportTestPartResult r st =
     (let (rep, delivered) = report r (thread_reporter st);
          st1 = st\<lparr> thread_reporter := rep \<rparr> in
      if delivered then default_report r st1 else st1)"

fun trace_text :: "bool \<Rightarrow> TraceInfo list \<Rightarrow> string" where
  "trace_text msc [] = []"
| "trace_text msc (t # ts) =
     trace_text msc ts @ [CHR 0x0A] @ FormatFileLocation msc (trace_file t) (trace_line t) @ '' '' @ trace_message t"

definition part_of ::
    "run_flags \<Rightarrow> TraceInfo list \<Rightarrow> part_type \<Rightarrow> string option \<Rightarrow> int \<Rightarrow> string \<Rightarrow> string \<Rightarrow> TestPartResult" where
  "part_of fl trace_stack result_type a_file_name a_line_number message os_stack_trace =
     (let msg = stream_text new_Message message;
          msg1 = (if length trace_stack > 0
                  then stream_text (stream_text msg ([CHR 0x0A] @ ''Google Test trace:''))
                    (trace_text (is_msc fl) trace_stack) else msg);
          msg2 = (if os_stack_trace \<noteq> [] then stream_text (stream_text msg1 kStackTraceMarker) os_stack_trace
                  else msg1) in
      new_TestPartResult result_type a_file_name a_line_number (GetString msg2))"

definition UnitTest_AddTestPartResult ::
    "run_flags \<Rightarrow> part_type \<Rightarrow> string option \<Rightarrow> int \<Rightarrow> string \<Rightarrow> string \<Rightarrow> unit prog" where
  "UnitTest_AddTestPartResult fl result_type a_file_name a_line_number message os_stack_trace st =
     (let result = part_of fl (gtest_trace_stack st) result_type a_file_name a_line_number message os_stack_trace;
          st1 = ReportTestPartResult result st in
      if result_type \<noteq> kSuccess then
        (if break_on_failure fl then (Aborted, st1)
         else if throw_on_failure fl
         then (Thrown (GoogleTestFailureException (PrintTestPartResultToString (is_msc fl) result)), st1)
         else (Returned (), st1))
      else (Returned (), st1))"

text \<open>\<open>AssertHelper::operator=\<close>; the default stack trace getter gives an empty trace.\<close>

definition CurrentOsStackTraceExceptTop :: string where
  "CurrentOsStackTraceExceptTop = []"

definition AssertHelper :: "run_flags \<Rightarrow> part_type \<Rightarrow> string option \<Rightarrow> int \<Rightarrow> string \<Rightarrow> Message \<Rightarrow> unit prog" where
  "AssertHelper fl type file line msg user_message =
     UnitTest_AddTestPartResult fl type file line (AppendUserMessage msg user_message) CurrentOsStackTraceExceptTop"

definition ReportFailureInUnknownLocation :: "run_flags \<Rightarrow> part_type \<Rightarrow> string \<Rightarrow> unit prog" where
  "ReportFailureInUnknownLocation fl result_type message =
     UnitTest_AddTestPartResult fl result_type None (-1) message []"

definition FormatCxxExceptionMessage :: "string option \<Rightarrow> string \<Rightarrow> string" where
  "FormatCxxExceptionMessage description location =
     GetString (stream_text (case description of
         Some d \<Rightarrow> stream_text new_Message (''C++ exception with description '' @ [CHR 0x22] @ d @ [CHR 0x22])
       | None \<Rightarrow> stream_text new_Message ''Unknown C++ exception'') ('' thrown in '' @ location @ ''.''))"

definition PushGTestTrace :: "TraceInfo \<Rightarrow> unit prog" where
  "PushGTestTrace t = update (\<lambda>st. st\<lparr> gtest_trace_stack := gtest_trace_stack st @ [t] \<rparr>)"

definition PopGTestTrace :: "run_state \<Rightarrow> run_state" where
  "PopGTestTrace st = st\<lparr> gtest_trace_stack := butlast (gtest_trace_stack st) \<rparr>"

text \<open>\<open>HasOneFailure\<close>: \<open>None\<close> when the results are one failure of the type containing the text, else the
  failure message.  Streaming a result whose file is unknown is undefined (\<open>part_text\<close>).\<close>

fun part_texts :: "TestPartResultArray \<Rightarrow> string result" where
  "part_texts [] = Inr []"
| "part_texts (r # rs) =
     (case part_text r of
        Inl e \<Rightarrow> Inl e
      | Inr s \<Rightarrow> (case part_texts rs of Inl e \<Rightarrow> Inl e | Inr s' \<Rightarrow> Inr ([CHR 0x0A] @ s @ s')))"

definition HasOneFailure :: "TestPartResultArray \<Rightarrow> part_type \<Rightarrow> string \<Rightarrow> string option result" where
  "HasOneFailure results type substr =
     (let nl = [CHR 0x0A];
          expected = (if type = kFatalFailure then ''1 fatal failure'' else ''1 non-fatal failure'') in
      if array_size results \<noteq> 1 then
        (case part_texts results of
           Inl e \<Rightarrow> Inl e
         | Inr s \<Rightarrow> Inr (Some (''Expected: '' @ expected @ nl @ ''  Actual: '' @
             int_string (array_size results) @ '' failures'' @ s)))
      else let r = results ! 0 in
        if part_type r \<noteq> type then
          (case part_text r of
             Inl e \<Rightarrow> Inl e
           | Inr s \<Rightarrow> Inr (Some (''Expected: '' @ expected @ nl @ ''  Actual:'' @ nl @ s)))
        else if before_first substr (part_message r) = None then
          (case part_text r of
             Inl e \<Rightarrow> Inl e
           | Inr s \<Rightarrow> Inr (Some (''Expected: '' @ expected @ '' containing '' @ [CHR 0x22] @ substr @
               [CHR 0x22] @ nl @ ''  Actual:'' @ nl @ s)))
        else Inr None)"

text \<open>The destructor of \<open>SingleFailureChecker\<close>; an exception that leaves a destructor ends the process.\<close>

definition check_single_failure :: "run_flags \<Rightarrow> TestPartResultArray \<Rightarrow> part_type \<Rightarrow> string \<Rightarrow> unit prog" where
  "check_single_failure fl results type substr st =
     (case HasOneFailure results type substr of
        Inl _ \<Rightarrow> (Aborted, st)
      | Inr None \<Rightarrow> (Returned (), st)
      | Inr (Some failure_message) \<Rightarrow>
          (case AssertHelper fl kNonFatalFailure (Some (gtest_cc fl)) 683 failure_message new_Message st of
             (Returned _, st') \<Rightarrow> (Returned (), st')
           | (_, st') \<Rightarrow> (Aborted, st')))"

section \<open>Running user code\<close>

text \<open>The scoped objects of a block are destroyed however the block ends.\<close>

definition leave_New_fatal_failure :: "run_state \<Rightarrow> bool \<times> run_state" where
  "leave_New_fatal_failure st =
     (case thread_reporter st of
        New_fatal_failure has_new original \<Rightarrow> (has_new, st\<lparr> thread_reporter := original \<rparr>)
      | _ \<Rightarrow> (False, st))"

definition leave_Scoped_fake :: "run_state \<Rightarrow> TestPartResultArray \<times> run_state" where
  "leave_Scoped_fake st =
     (case thread_reporter st of
        Scoped_fake results old \<Rightarrow> (results, st\<lparr> thread_reporter := old \<rparr>)
      | _ \<Rightarrow> ([], st))"

definition no_fatal_message :: "string \<Rightarrow> string" where
  "no_fatal_message statement =
     ''Expected: '' @ statement @ '' doesn'' @ [CHR 0x27] @ ''t generate new fatal failures in the current thread.'' @
     [CHR 0x0A] @ ''  Actual: it does.''"

fun exec_stmt :: "run_flags \<Rightarrow> stmt \<Rightarrow> unit prog" and exec_block :: "run_flags \<Rightarrow> stmt list \<Rightarrow> unit prog" where
  "exec_stmt fl (Assert t file line msg) st = AssertHelper fl t file line msg new_Message st"
| "exec_stmt fl (Throw x) st = (Thrown x, st)"
| "exec_stmt fl (Scoped_trace file line msg b) st =
     (let trace = \<lparr> trace_file = file, trace_line = line, trace_message = msg \<rparr>;
          (e, st1) = andThen (PushGTestTrace trace) (exec_block fl b) st in
      (e, PopGTestTrace st1))"
| "exec_stmt fl (No_fatal_failure file line statement b) st =
     (let (e, st1) = exec_block fl b (st\<lparr> thread_reporter := New_fatal_failure False (thread_reporter st) \<rparr>);
          (has_new_fatal_failure, st2) = leave_New_fatal_failure st1 in
      if e = Returned () \<and> has_new_fatal_failure
      then AssertHelper fl kNonFatalFailure file line (no_fatal_message statement) new_Message st2
      else (e, st2))"
| "exec_stmt fl (Expect_failure type substr b) st =
     (let (e, st1) = exec_block fl b (st\<lparr> thread_reporter := Scoped_fake [] (thread_reporter st) \<rparr>);
          (results, st2) = leave_Scoped_fake st1 in
      if e = Aborted then (e, st2)
      else case check_single_failure fl results type substr st2 of
        (Returned _, st3) \<Rightarrow> (e, st3)
      | (_, st3) \<Rightarrow> (Aborted, st3))"
| "exec_block fl [] st = give () st"
| "exec_block fl (s # b) st = andThen (exec_stmt fl s) (exec_block fl b) st"

text \<open>The value \<open>zero\<close> stands for a call that threw an exception which was reported.\<close>

definition HandleExceptionsInMethodIfSupported :: "run_flags \<Rightarrow> 'a \<Rightarrow> 'a prog \<Rightarrow> string \<Rightarrow> 'a prog" where
  "HandleExceptionsInMethodIfSupported fl zero method location st =
     (if catch_exceptions fl then
        (case method st of
           (Thrown (Std_exception what), st1) \<Rightarrow>
             andThen (ReportFailureInUnknownLocation fl kFatalFailure (FormatCxxExceptionMessage (Some what) location))
               (give zero) st1
         | (Thrown Other_exception, st1) \<Rightarrow>
             andThen (ReportFailureInUnknownLocation fl kFatalFailure (FormatCxxExceptionMessage None location))
               (give zero) st1
         | r \<Rightarrow> r)
      else method st)"

section \<open>Running a test\<close>

definition Test_HasFatalFailure :: "run_state \<Rightarrow> bool" where
  "Test_HasFatalFailure st = HasFatalFailure (current_test_result (impl st))"

definition Test_HasNonfatalFailure :: "run_state \<Rightarrow> bool" where
  "Test_HasNonfatalFailure st = HasNonfatalFailure (current_test_result (impl st))"

definition mixed_fixture_message :: "string \<Rightarrow> string \<Rightarrow> string \<Rightarrow> string" where
  "mixed_fixture_message tc_name TEST_F_name TEST_name =
     (let nl = [CHR 0x0A] in
      ''All tests in the same test case must use the same test fixture'' @ nl @
      ''class, so mixing TEST_F and TEST in the same test case is'' @ nl @
      ''illegal.  In test case '' @ tc_name @ '','' @ nl @
      ''test '' @ TEST_F_name @ '' is defined using TEST_F but'' @ nl @
      ''test '' @ TEST_name @ '' is defined using TEST.  You probably'' @ nl @
      ''want to change the TEST to TEST_F or move it to another test'' @ nl @ ''case.'')"

definition two_fixtures_message :: "string \<Rightarrow> string \<Rightarrow> string \<Rightarrow> string" where
  "two_fixtures_message tc_name first_test_name this_test_name =
     (let nl = [CHR 0x0A] in
      ''All tests in the same test case must use the same test fixture'' @ nl @
      ''class.  However, in test case '' @ tc_name @ '','' @ nl @
      ''you defined test '' @ first_test_name @ '' and test '' @ this_test_name @ nl @
      ''using two different test fixture classes.  This can happen if'' @ nl @
      ''the two classes are from different namespaces or translation'' @ nl @
      ''units and have the same name.  You should probably rename one'' @ nl @
      ''of the classes to put the tests into different test cases.'')"

text \<open>For the test \<open>j\<close> of the test case \<open>i\<close>, the current ones.\<close>

definition HasSameFixtureClass :: "run_flags \<Rightarrow> nat \<Rightarrow> nat \<Rightarrow> bool prog" where
  "HasSameFixtureClass fl i j st =
     (let test_case = test_cases (impl st) ! i;
          first_test_info = test_info_list test_case ! 0;
          this_test_info = test_info_list test_case ! j;
          first_is_TEST = (fixture_class_id first_test_info = test_type_id fl);
          this_is_TEST = (fixture_class_id this_test_info = test_type_id fl) in
      if fixture_class_id this_test_info \<noteq> fixture_class_id first_test_info then
        andThen
          (if first_is_TEST \<or> this_is_TEST then
             AssertHelper fl kNonFatalFailure (Some (gtest_cc fl)) 2301 ''Failed''
               (stream_text new_Message (mixed_fixture_message (test_case_name this_test_info)
                 (test_name (if first_is_TEST then this_test_info else first_test_info))
                 (test_name (if first_is_TEST then first_test_info else this_test_info))))
           else
             AssertHelper fl kNonFatalFailure (Some (gtest_cc fl)) 2313 ''Failed''
               (stream_text new_Message (two_fixtures_message (test_case_name this_test_info)
                 (test_name first_test_info) (test_name this_test_info))))
          (give False) st
      else (Returned True, st))"

definition Test_Run :: "run_flags \<Rightarrow> test_code \<Rightarrow> nat \<Rightarrow> nat \<Rightarrow> unit prog" where
  "Test_Run fl tcode i j =
     bind_prog (HasSameFixtureClass fl i j) (\<lambda>same.
       if \<not> same then give ()
       else in_order
        [HandleExceptionsInMethodIfSupported fl () (exec_block fl (fixture_set_up tcode)) ''SetUp()'',
         \<lambda>st. if \<not> Test_HasFatalFailure st
              then HandleExceptionsInMethodIfSupported fl () (exec_block fl (test_body tcode)) ''the test body'' st
              else give () st,
         HandleExceptionsInMethodIfSupported fl () (exec_block fl (fixture_tear_down tcode)) ''TearDown()''])"

text \<open>The test object: \<open>False\<close> is the null pointer, whose deletion does nothing.\<close>

definition CreateTest :: "run_flags \<Rightarrow> test_code \<Rightarrow> bool prog" where
  "CreateTest fl tcode = andThen (exec_block fl (fixture_constructor tcode)) (give True)"

definition DeleteSelf :: "run_flags \<Rightarrow> test_code \<Rightarrow> bool \<Rightarrow> unit prog" where
  "DeleteSelf fl tcode test = (if test then exec_block fl (fixture_destructor tcode) else give ())"

definition TestInfo_Run :: "run_flags \<Rightarrow> user_code \<Rightarrow> nat \<Rightarrow> nat \<Rightarrow> unit prog" where
  "TestInfo_Run fl uc i j st0 =
     (if \<not> should_run (test_info_list (test_cases (impl st0) ! i) ! j) then (Returned (), st0)
      else let tcode = code_of_test uc i j in
        in_order
          [on_impl (current_test_info_update (\<lambda>_. Some (i, j))),
           notify (OnTestStart i j),
           bind_prog (GetTimeInMillis fl) (\<lambda>start.
             bind_prog (HandleExceptionsInMethodIfSupported fl False (CreateTest fl tcode)
                 (''the test fixture'' @ [CHR 0x27] @ ''s constructor'')) (\<lambda>test.
               in_order
                 [\<lambda>st. if test \<and> \<not> Test_HasFatalFailure st then Test_Run fl tcode i j st else give () st,
                  HandleExceptionsInMethodIfSupported fl () (DeleteSelf fl tcode test)
                    (''the test fixture'' @ [CHR 0x27] @ ''s destructor''),
                  bind_prog (GetTimeInMillis fl) (\<lambda>now.
                    on_impl (update_test i j (\<lambda>t. t\<lparr> result_of := (result_of t)\<lparr> result_elapsed_time := now - start \<rparr> \<rparr>)))])),
           notify (OnTestEnd i j),
           on_impl (current_test_info_update (\<lambda>_. None))] st0)"

section \<open>Running a test case\<close>

definition run_kth_test :: "run_flags \<Rightarrow> user_code \<Rightarrow> nat \<Rightarrow> nat \<Rightarrow> unit prog" where
  "run_kth_test fl uc i k st =
     (case GetMutableTestInfo (test_cases (impl st) ! i) (int k) of
        None \<Rightarrow> (Aborted, st)
      | Some j \<Rightarrow> TestInfo_Run fl uc i j st)"

definition TestCase_Run :: "run_flags \<Rightarrow> user_code \<Rightarrow> nat \<Rightarrow> unit prog" where
  "TestCase_Run fl uc i st0 =
     (if \<not> case_should_run (test_cases (impl st0) ! i) then (Returned (), st0)
      else in_order
        [on_impl (current_test_case_update (\<lambda>_. Some i)),
         notify (OnTestCaseStart i),
         HandleExceptionsInMethodIfSupported fl () (exec_block fl (SetUpTestCase uc i)) ''SetUpTestCase()'',
         bind_prog (GetTimeInMillis fl) (\<lambda>start.
           in_order
             [\<lambda>st. in_order (map (run_kth_test fl uc i)
                [0..<nat (total_test_count (test_cases (impl st) ! i))]) st,
              bind_prog (GetTimeInMillis fl) (\<lambda>now.
                on_impl (update_case i (\<lambda>c. c\<lparr> case_elapsed_time := now - start \<rparr>)))]),
         HandleExceptionsInMethodIfSupported fl () (exec_block fl (TearDownTestCase uc i)) ''TearDownTestCase()'',
         notify (OnTestCaseEnd i),
         on_impl (current_test_case_update (\<lambda>_. None))] st0)"

section \<open>Running all tests\<close>

definition run_kth_case :: "run_flags \<Rightarrow> user_code \<Rightarrow> nat \<Rightarrow> unit prog" where
  "run_kth_case fl uc k st =
     (case GetMutableTestCase (impl st) (int k) of
        None \<Rightarrow> (Aborted, st)
      | Some i \<Rightarrow> TestCase_Run fl uc i st)"

definition shuffle_step :: "run_flags \<Rightarrow> bool \<Rightarrow> unit prog" where
  "shuffle_step fl has_tests_to_run st =
     (if has_tests_to_run \<and> flag_shuffle fl then
        let u = impl st in
        (case ShuffleTests (u\<lparr> random := Reseed (word_of_int (random_seed u)) (random u) \<rparr>) of
           None \<Rightarrow> (Aborted, st)
         | Some u' \<Rightarrow> (Returned (), st\<lparr> impl := u' \<rparr>))
      else (Returned (), st))"

definition run_environments :: "run_flags \<Rightarrow> user_code \<Rightarrow> unit prog" where
  "run_environments fl uc =
     in_order
       [notify OnEnvironmentsSetUpStart,
        in_order (map (\<lambda>(set_up, tear_down). exec_block fl set_up) (environments uc)),
        notify OnEnvironmentsSetUpEnd,
        \<lambda>st. if \<not> Test_HasFatalFailure st
             then in_order (map (run_kth_case fl uc) [0..<nat (total_test_case_count (impl st))]) st
             else give () st,
        notify OnEnvironmentsTearDownStart,
        in_order (map (\<lambda>(set_up, tear_down). exec_block fl tear_down) (rev (environments uc))),
        notify OnEnvironmentsTearDownEnd]"

definition next_seed_step :: "run_flags \<Rightarrow> unit prog" where
  "next_seed_step fl st =
     (if flag_shuffle fl then
        (case GetNextRandomSeed (random_seed (impl st)) of
           None \<Rightarrow> (Aborted, st)
         | Some seed \<Rightarrow> (Returned (), st\<lparr> impl := (impl st)\<lparr> random_seed := seed \<rparr> \<rparr>))
      else (Returned (), st))"

text \<open>One iteration: the value is whether the program has failed.\<close>

definition run_iteration :: "run_flags \<Rightarrow> user_code \<Rightarrow> bool \<Rightarrow> int \<Rightarrow> bool prog" where
  "run_iteration fl uc has_tests_to_run i =
     andThen (on_impl ClearNonAdHocTestResult)
      (bind_prog (GetTimeInMillis fl) (\<lambda>start.
       andThen (in_order
         [shuffle_step fl has_tests_to_run,
          notify (OnTestIterationStart i),
          if has_tests_to_run then run_environments fl uc else give (),
          bind_prog (GetTimeInMillis fl) (\<lambda>now. update (\<lambda>st. st\<lparr> elapsed_time := now - start \<rparr>)),
          notify (OnTestIterationEnd i)])
       (bind_prog (\<lambda>st. give (\<not> unit_Passed (impl st)) st) (\<lambda>failed.
         andThen (on_impl UnshuffleTests) (andThen (next_seed_step fl) (give failed))))))"

text \<open>The loop over the iterations: \<open>None\<close> when it runs forever.\<close>

partial_function (option) run_loop ::
    "run_flags \<Rightarrow> (int \<Rightarrow> user_code) \<Rightarrow> bool \<Rightarrow> int \<Rightarrow> int \<Rightarrow> bool \<Rightarrow> run_state \<Rightarrow> (bool outcome \<times> run_state) option" where
  "run_loop fl uc has_tests_to_run repeat i failed st =
     (let forever = repeat < 0 in
      if \<not> (forever \<or> i \<noteq> repeat) then Some (Returned failed, st)
      else case run_iteration fl (uc i) has_tests_to_run i st of
        (Returned f, st1) \<Rightarrow> run_loop fl uc has_tests_to_run repeat (i + 1) (if f then True else failed) st1
      | (Thrown x, st1) \<Rightarrow> Some (Thrown x, st1)
      | (Aborted, st1) \<Rightarrow> Some (Aborted, st1))"

text \<open>What the process starts with: the initialisation, the command line and the environment.\<close>

record run_context =
  gtest_is_initialized :: bool
  g_help_flag :: bool
  in_subprocess_for_death_test :: bool
  getenv :: "string \<Rightarrow> string option"
  can_write :: "string \<Rightarrow> bool"
  output_format :: string
  xml_printer :: nat
  stream_result_to :: string
  streamer :: nat
  register_parameterized :: "UnitTestImpl \<Rightarrow> UnitTestImpl"

definition RegisterParameterizedTests :: "run_context \<Rightarrow> run_state \<Rightarrow> run_state" where
  "RegisterParameterizedTests cx st =
     (if \<not> parameterized_tests_registered st then
        st\<lparr> impl := register_parameterized cx (impl st), parameterized_tests_registered := True \<rparr>
      else st)"

definition PostFlagParsingInit :: "run_context \<Rightarrow> run_state \<Rightarrow> run_state" where
  "PostFlagParsingInit cx st =
     (if \<not> post_flag_parse_init_performed st then
        let st1 = st\<lparr> post_flag_parse_init_performed := True \<rparr>;
            st2 = st1\<lparr> listeners := SuppressTestEventsIfInSubprocess (in_subprocess_for_death_test cx) (listeners st1) \<rparr>;
            st3 = RegisterParameterizedTests cx st2;
            (out1, ls1) = ConfigureXmlOutput (output_format cx) (xml_printer cx) (listeners st3);
            (out2, _, ls2) = ConfigureStreamingOutput (stream_result_to cx) (streamer cx) ls1 in
        st3\<lparr> listeners := ls2, printed := printed st3 @ out1 @ out2 \<rparr>
      else st)"

text \<open>\<open>Inl\<close>: the process exits with a failure after this output.\<close>

definition WriteToShardStatusFileIfNeeded :: "run_context \<Rightarrow> string + unit" where
  "WriteToShardStatusFileIfNeeded cx =
     (case getenv cx kTestShardStatusFile of
        None \<Rightarrow> Inr ()
      | Some test_shard_file \<Rightarrow>
          if \<not> can_write cx test_shard_file then
            Inl (''Could not write to the test shard status file '' @ [CHR 0x22] @ test_shard_file @ [CHR 0x22] @
              '' specified by the '' @ kTestShardStatusFile @ '' environment variable.'' @ [CHR 0x0A])
          else Inr ())"

definition begin_run :: "run_flags \<Rightarrow> unit prog" where
  "begin_run fl =
     andThen
      (if flag_shuffle fl then
         (if flag_random_seed fl = 0 then bind_prog (GetTimeInMillis fl) (\<lambda>now.
            on_impl (random_seed_update (\<lambda>_. GetRandomSeedFromFlag now 0)))
          else on_impl (random_seed_update (\<lambda>_. GetRandomSeedFromFlag 0 (flag_random_seed fl))))
       else on_impl (random_seed_update (\<lambda>_. 0)))
      (bind_prog (GetTimeInMillis fl) (\<lambda>now.
        andThen (update (\<lambda>st. st\<lparr> start_timestamp := now \<rparr>)) (notify OnTestProgramStart)))"

text \<open>\<open>Inl\<close>: the process exits with this output; \<open>None\<close>: the run never ends.\<close>

definition RunAllTests ::
    "run_flags \<Rightarrow> run_context \<Rightarrow> (int \<Rightarrow> user_code) \<Rightarrow> run_state \<Rightarrow> (string + bool outcome \<times> run_state) option" where
  "RunAllTests fl cx uc st0 =
     (if \<not> gtest_is_initialized cx then
        Some (Inr (Returned False, st0\<lparr> printed := printed st0 @ [CHR 0x0A] @
          ''This test program did NOT call ::testing::InitGoogleTest before calling RUN_ALL_TESTS().  Please fix it.'' @
          [CHR 0x0A] \<rparr>))
      else if g_help_flag cx then Some (Inr (Returned True, st0))
      else let st1 = PostFlagParsingInit cx st0 in
        (case WriteToShardStatusFileIfNeeded cx of
           Inl out \<Rightarrow> Some (Inl out)
         | Inr _ \<Rightarrow>
        (case ShouldShard (getenv cx) kTestTotalShards kTestShardIndex (in_subprocess_for_death_test cx) of
           Inl out \<Rightarrow> Some (Inl out)
         | Inr should_shard \<Rightarrow>
        (case FilterTests (getenv cx) (flag_filter fl) (flag_also_run_disabled_tests fl) should_shard (impl st1) of
           Inl out \<Rightarrow> Some (Inl out)
         | Inr (u, num_selected) \<Rightarrow>
             let has_tests_to_run = num_selected > 0; st2 = st1\<lparr> impl := u \<rparr> in
             if flag_list_tests fl then
               Some (Inr (Returned True, st2\<lparr> printed := printed st2 @ ListTestsMatchingFilter u \<rparr>))
             else
               let repeat = (if in_subprocess_for_death_test cx then 1 else flag_repeat fl) in
               (case run_loop fl uc has_tests_to_run repeat 0 False (snd (begin_run fl st2)) of
                  None \<Rightarrow> None
                | Some (Returned failed, st3) \<Rightarrow>
                    Some (Inr (andThen (notify OnTestProgramEnd) (give (\<not> failed)) st3))
                | Some (Thrown x, st3) \<Rightarrow> Some (Inr (Thrown x, st3))
                | Some (Aborted, st3) \<Rightarrow> Some (Inr (Aborted, st3)))))))"

text \<open>\<open>UnitTest::Run\<close>: the exit status of \<open>RUN_ALL_TESTS()\<close>.\<close>

definition UnitTest_Run ::
    "run_flags \<Rightarrow> run_context \<Rightarrow> (int \<Rightarrow> user_code) \<Rightarrow> run_state \<Rightarrow> (string + int outcome \<times> run_state) option" where
  "UnitTest_Run fl cx uc st =
     (case RunAllTests fl cx uc st of
        None \<Rightarrow> None
      | Some (Inl out) \<Rightarrow> Some (Inl out)
      | Some (Inr r) \<Rightarrow>
          Some (Inr (bind_prog
            (HandleExceptionsInMethodIfSupported fl False (\<lambda>_. r)
              ''auxiliary test code (environments or event listeners)'')
            (\<lambda>passed. give (if passed then 0 else 1)) st)))"

end
