(* ===== verification/Gtest_Verdict.thy ===== *)
theory Gtest_Verdict
  imports Gtest_Run
begin

text \<open>
  What a run of the tests (\<open>Gtest_Run\<close>) guarantees: the reporters and scoped objects implement a
  simple account of what a block of user code delivers, and the exit status of \<open>RUN_ALL_TESTS()\<close> is 0
  exactly when nothing that was selected to run failed.
\<close>

section \<open>What a block delivers\<close>

text \<open>The reference: the results a block delivers to the reporter around it, and how it ends.\<close>

definition assertion ::
    "run_flags \<Rightarrow> TraceInfo list \<Rightarrow> part_type \<Rightarrow> string option \<Rightarrow> int \<Rightarrow> string \<Rightarrow> TestPartResult list \<times> unit outcome" where
  "assertion fl ts t file line msg =
     (let p = part_of fl ts t file line msg [] in
      ([p], if t = kSuccess then Returned ()
            else if break_on_failure fl then Aborted
            else if throw_on_failure fl
            then Thrown (GoogleTestFailureException (PrintTestPartResultToString (is_msc fl) p))
            else Returned ()))"

fun delivers_stmt :: "run_flags \<Rightarrow> TraceInfo list \<Rightarrow> stmt \<Rightarrow> TestPartResult list \<times> unit outcome"
  and delivers :: "run_flags \<Rightarrow> TraceInfo list \<Rightarrow> stmt list \<Rightarrow> TestPartResult list \<times> unit outcome" where
  "delivers_stmt fl ts (Assert t file line msg) = assertion fl ts t file line msg"
| "delivers_stmt fl ts (Throw x) = ([], Thrown x)"
| "delivers_stmt fl ts (Scoped_trace file line msg b) =
     delivers fl (ts @ [\<lparr> trace_file = file, trace_line = line, trace_message = msg \<rparr>]) b"
| "delivers_stmt fl ts (No_fatal_failure file line statement b) =
     (let (ps, e) = delivers fl ts b in
      if e = Returned () \<and> (\<exists>p \<in> set ps. fatally_failed p) then
        let (qs, e') = assertion fl ts kNonFatalFailure file line (no_fatal_message statement) in (ps @ qs, e')
      else (ps, e))"
| "delivers_stmt fl ts (Expect_failure type substr b) =
     (let (ps, e) = delivers fl ts b in
      if e = Aborted then ([], Aborted)
      else case HasOneFailure ps type substr of
        Inl _ \<Rightarrow> ([], Aborted)
      | Inr None \<Rightarrow> ([], e)
      | Inr (Some m) \<Rightarrow>
          let (qs, e') = assertion fl ts kNonFatalFailure (Some (gtest_cc fl)) 683 m in
          (qs, if e' = Returned () then e else Aborted))"
| "delivers fl ts [] = ([], Returned ())"
| "delivers fl ts (s # b) =
     (let (ps, e) = delivers_stmt fl ts s in
      if e = Returned () then let (qs, e') = delivers fl ts b in (ps @ qs, e') else (ps, e))"

abbreviation deliver_all :: "TestPartResult list \<Rightarrow> run_state \<Rightarrow> run_state" where
  "deliver_all ps st \<equiv> fold ReportTestPartResult ps st"

lemma report_frame [simp]:
  "gtest_trace_stack (ReportTestPartResult r st) = gtest_trace_stack st"
  "listeners (ReportTestPartResult r st) = listeners st"
  by (simp_all add: ReportTestPartResult_def default_report_def split_def Let_def)

lemma deliver_frame [simp]:
  "gtest_trace_stack (deliver_all ps st) = gtest_trace_stack st"
  "listeners (deliver_all ps st) = listeners st"
  by (induction ps arbitrary: st) auto

lemma report_trace:
  "ReportTestPartResult r (st\<lparr> gtest_trace_stack := x \<rparr>) = (ReportTestPartResult r st)\<lparr> gtest_trace_stack := x \<rparr>"
  by (simp add: ReportTestPartResult_def default_report_def split_def Let_def)

lemma deliver_trace:
  "deliver_all ps (st\<lparr> gtest_trace_stack := x \<rparr>) = (deliver_all ps st)\<lparr> gtest_trace_stack := x \<rparr>"
  by (induction ps arbitrary: st) (auto simp: report_trace)

lemma same_trace: "gtest_trace_stack st = x \<Longrightarrow> st\<lparr> gtest_trace_stack := x \<rparr> = st"
  by (cases st) simp

lemma deliver_scoped_fake:
  "deliver_all ps (st\<lparr> thread_reporter := Scoped_fake rs old \<rparr>) = st\<lparr> thread_reporter := Scoped_fake (rs @ ps) old \<rparr>"
  by (induction ps arbitrary: rs) (auto simp: ReportTestPartResult_def array_Append_def)

lemma deliver_new_fatal:
  "deliver_all ps (st\<lparr> thread_reporter := New_fatal_failure b (thread_reporter st) \<rparr>) =
     (deliver_all ps st)\<lparr> thread_reporter :=
       New_fatal_failure (b \<or> (\<exists>p \<in> set ps. fatally_failed p)) (thread_reporter (deliver_all ps st)) \<rparr>"
proof (induction ps arbitrary: b st)
  case (Cons p ps)
  have "ReportTestPartResult p (st\<lparr> thread_reporter := New_fatal_failure b (thread_reporter st) \<rparr>) =
      (ReportTestPartResult p st)\<lparr> thread_reporter :=
        New_fatal_failure (b \<or> fatally_failed p) (thread_reporter (ReportTestPartResult p st)) \<rparr>"
    by (auto simp: ReportTestPartResult_def default_report_def split_def Let_def)
  then show ?case by (simp add: Cons.IH disj_assoc)
qed simp

lemma assert_helper:
  "AssertHelper fl t file line msg new_Message st =
     (let (ps, e) = assertion fl (gtest_trace_stack st) t file line msg in (e, deliver_all ps st))"
proof -
  have "AppendUserMessage msg new_Message = msg"
    by (simp add: AppendUserMessage_def GetString_def new_Message_def StringStreamToString_def)
  then show ?thesis
    by (simp add: AssertHelper_def UnitTest_AddTestPartResult_def assertion_def Let_def
        CurrentOsStackTraceExceptTop_def)
qed

lemma exec_delivers:
  "exec_stmt fl s st = (let (ps, e) = delivers_stmt fl (gtest_trace_stack st) s in (e, deliver_all ps st))"
  "exec_block fl b st = (let (ps, e) = delivers fl (gtest_trace_stack st) b in (e, deliver_all ps st))"
proof (induction fl s st and fl b st rule: exec_stmt_exec_block.induct)
  case (1 fl t fn line msg st)
  show ?case by (simp add: assert_helper)
next
  case (2 fl x st)
  show ?case by simp
next
  case (3 fl fn line msg b st)
  then show ?case
    by (simp add: bind_prog_def PushGTestTrace_def update_def PopGTestTrace_def split_def deliver_trace Let_def
        same_trace)
next
  case (4 fl fn line statement b st)
  then show ?case
    by (auto simp: split_def Let_def deliver_new_fatal leave_New_fatal_failure_def assert_helper)
next
  case (5 fl type substr b st)
  then show ?case
    by (auto simp: split_def Let_def deliver_scoped_fake leave_Scoped_fake_def check_single_failure_def
        assert_helper split: sum.splits option.splits outcome.splits)
next
  case (6 fl st)
  show ?case by (simp add: give_def)
next
  case (7 fl s b st)
  then show ?case
    by (auto simp: bind_prog_def split_def Let_def split: outcome.splits)
qed

section \<open>Failures\<close>

abbreviation test_at :: "UnitTestImpl \<Rightarrow> nat \<Rightarrow> nat \<Rightarrow> TestInfo" where
  "test_at u i j \<equiv> test_info_list (test_cases u ! i) ! j"

definition any_failed :: "UnitTestImpl \<Rightarrow> bool" where
  "any_failed u \<longleftrightarrow> Failed (ad_hoc_test_result u) \<or>
     (\<exists>i < length (test_cases u). \<exists>j < length (test_info_list (test_cases u ! i)).
        should_run (test_at u i j) \<and> Failed (result_of (test_at u i j)))"

text \<open>The registry without the results and without what is running.\<close>

definition erase_case :: "TestCase \<Rightarrow> TestCase" where
  "erase_case c = c\<lparr> test_info_list := map (\<lambda>t. t\<lparr> result_of := new_TestResult \<rparr>) (test_info_list c),
     case_elapsed_time := 0, case_ad_hoc_result := new_TestResult \<rparr>"

definition erase :: "UnitTestImpl \<Rightarrow> UnitTestImpl" where
  "erase u = u\<lparr> test_cases := map erase_case (test_cases u), current_test_case := None,
     current_test_info := None, ad_hoc_test_result := new_TestResult \<rparr>"

definition current_ok :: "UnitTestImpl \<Rightarrow> (nat \<times> nat) option \<Rightarrow> bool" where
  "current_ok s k \<longleftrightarrow> (case k of None \<Rightarrow> True
     | Some (i, j) \<Rightarrow> i < length (test_cases s) \<and> j < length (test_info_list (test_cases s ! i)) \<and>
         should_run (test_at s i j))"

definition inv :: "UnitTestImpl \<Rightarrow> (nat \<times> nat) option \<Rightarrow> run_state \<Rightarrow> bool" where
  "inv s k st \<longleftrightarrow> thread_reporter st = Default_reporter \<and> gtest_trace_stack st = [] \<and>
     erase (impl st) = s \<and> current_test_info (impl st) = k \<and> current_ok s k"

lemma erase_simps:
  "length (test_cases (erase u)) = length (test_cases u)"
  "i < length (test_cases u) \<Longrightarrow> test_cases (erase u) ! i = erase_case (test_cases u ! i)"
  "test_case_indices (erase u) = test_case_indices u"
  by (simp_all add: erase_def)

lemma erase_case_simps [simp]:
  "length (test_info_list (erase_case c)) = length (test_info_list c)"
  "j < length (test_info_list c) \<Longrightarrow> should_run (test_info_list (erase_case c) ! j) = should_run (test_info_list c ! j)"
  "j < length (test_info_list c) \<Longrightarrow> fixture_class_id (test_info_list (erase_case c) ! j) = fixture_class_id (test_info_list c ! j)"
  "test_indices (erase_case c) = test_indices c" "case_should_run (erase_case c) = case_should_run c"
  by (simp_all add: erase_case_def)

lemma update_same: "i < length xs \<Longrightarrow> g (f (xs ! i)) = g (xs ! i) \<Longrightarrow> map g (xs[i := f (xs ! i)]) = map g xs"
  by (simp add: map_update list_update_same_conv)

lemma erase_update_case:
  "erase_case (f (test_cases u ! i)) = erase_case (test_cases u ! i) \<Longrightarrow> erase (update_case i f u) = erase u"
  by (cases "i < length (test_cases u)")
    (simp_all add: erase_def update_case_def update_same list_update_beyond not_less)

lemma erase_update_test:
  assumes "\<And>t. (f t)\<lparr> result_of := new_TestResult \<rparr> = t\<lparr> result_of := new_TestResult \<rparr>"
  shows "erase (update_test i j f u) = erase u"
  unfolding update_test_def
proof (rule erase_update_case)
  let ?c = "test_cases u ! i"
  show "erase_case (?c\<lparr> test_info_list := (test_info_list ?c)[j := f (test_info_list ?c ! j)] \<rparr>) = erase_case ?c"
    using assms by (cases "j < length (test_info_list ?c)")
      (simp_all add: erase_case_def update_same list_update_beyond not_less)
qed

lemma test_at_update_test:
  assumes "i < length (test_cases u)" "j < length (test_info_list (test_cases u ! i))"
  shows "test_at (update_test i j f u) a b = (if a = i \<and> b = j then f (test_at u i j) else test_at u a b)"
    "length (test_info_list (test_cases (update_test i j f u) ! a)) = length (test_info_list (test_cases u ! a))"
    "length (test_cases (update_test i j f u)) = length (test_cases u)"
    "ad_hoc_test_result (update_test i j f u) = ad_hoc_test_result u"
    "current_test_info (update_test i j f u) = current_test_info u"
  using assms by (auto simp: update_test_def update_case_def nth_list_update)

lemma Failed_add: "Failed (AddTestPartResult r x) \<longleftrightarrow> Failed x \<or> part_failed r"
  by (auto simp: Failed_iff AddTestPartResult_def)

lemma inv_current:
  assumes "inv s (Some (i, j)) st"
  shows "i < length (test_cases (impl st))" "j < length (test_info_list (test_cases (impl st) ! i))"
    "should_run (test_at (impl st) i j)" "current_test_info (impl st) = Some (i, j)"
  using assms by (auto simp: inv_def current_ok_def erase_simps)

lemma set_current_result:
  assumes "inv s k st"
  shows "erase (set_current_test_result r (impl st)) = s"
    "current_test_info (set_current_test_result r (impl st)) = k"
proof -
  have e: "erase (impl st) = s" "current_test_info (impl st) = k" using assms by (simp_all add: inv_def)
  show "erase (set_current_test_result r (impl st)) = s"
    using e by (auto simp: set_current_test_result_def erase_update_test split: option.splits)
      (simp add: erase_def)
  show "current_test_info (set_current_test_result r (impl st)) = k"
    using e by (auto simp: set_current_test_result_def update_test_def update_case_def split: option.splits)
qed

lemma any_failed_report:
  assumes "inv s k st"
  shows "any_failed (set_current_test_result (AddTestPartResult r (current_test_result (impl st))) (impl st)) \<longleftrightarrow>
    any_failed (impl st) \<or> part_failed r"
proof (cases k)
  case None
  then show ?thesis
    using assms by (auto simp: inv_def set_current_test_result_def current_test_result_def any_failed_def Failed_add)
next
  case (Some ij)
  obtain i j where k: "k = Some (i, j)" using Some by (cases ij) auto
  note c = inv_current [OF assms [unfolded k]]
  have "set_current_test_result (AddTestPartResult r (current_test_result (impl st))) (impl st) =
      update_test i j (\<lambda>t. t\<lparr> result_of := AddTestPartResult r (result_of (test_at (impl st) i j)) \<rparr>) (impl st)"
    using c(4) by (simp add: set_current_test_result_def current_test_result_def)
  then show ?thesis
    using c(1-3) by (auto simp: any_failed_def test_at_update_test Failed_add)
qed

lemma deliver_inv:
  assumes "inv s k st"
  shows "inv s k (deliver_all ps st) \<and>
    (any_failed (impl (deliver_all ps st)) \<longleftrightarrow> any_failed (impl st) \<or> (\<exists>p \<in> set ps. part_failed p))"
  using assms
proof (induction ps arbitrary: st)
  case (Cons p ps)
  have r: "ReportTestPartResult p st = default_report p st"
    using Cons.prems by (cases st) (simp add: inv_def ReportTestPartResult_def)
  have "inv s k (default_report p st)"
    using set_current_result [OF Cons.prems] Cons.prems by (simp add: inv_def default_report_def)
  moreover have "any_failed (impl (default_report p st)) \<longleftrightarrow> any_failed (impl st) \<or> part_failed p"
    using any_failed_report [OF Cons.prems] by (simp add: default_report_def)
  ultimately show ?case
    using Cons.IH by (auto simp: r)
qed simp

lemma fatal_any_failed:
  assumes "inv s k st" "Test_HasFatalFailure st"
  shows "any_failed (impl st)"
proof -
  have f: "Failed (current_test_result (impl st))"
    using assms(2) by (simp add: Test_HasFatalFailure_def Failed_fatal_or_nonfatal)
  show ?thesis
  proof (cases k)
    case None
    then show ?thesis using f assms(1) by (simp add: inv_def current_test_result_def any_failed_def)
  next
    case (Some ij)
    obtain i j where k: "k = Some (i, j)" using Some by (cases ij) auto
    from inv_current [OF assms(1) [unfolded k]] f show ?thesis
      by (auto simp: any_failed_def current_test_result_def)
  qed
qed

section \<open>Programs that fail exactly when they are not clean\<close>

text \<open>
  From a state with the registry \<open>s\<close> and the current test \<open>k\<close>, the program returns, unless \<open>C\<close> is false,
  and has then added a failure exactly when \<open>C\<close> is false.
\<close>

definition triple ::
    "UnitTestImpl \<Rightarrow> (nat \<times> nat) option \<Rightarrow> (run_state \<Rightarrow> bool) \<Rightarrow> 'a prog \<Rightarrow> bool \<Rightarrow>
     (nat \<times> nat) option \<Rightarrow> ('a \<Rightarrow> run_state \<Rightarrow> bool) \<Rightarrow> bool" where
  "triple s k P f C k' Q \<longleftrightarrow> (\<forall>st. inv s k st \<and> P st \<longrightarrow>
     (case f st of
        (Returned x, st') \<Rightarrow> inv s k' st' \<and> Q x st' \<and> (any_failed (impl st') \<longleftrightarrow> any_failed (impl st) \<or> \<not> C)
      | _ \<Rightarrow> \<not> C))"

abbreviation good :: "UnitTestImpl \<Rightarrow> (nat \<times> nat) option \<Rightarrow> 'a prog \<Rightarrow> bool \<Rightarrow> (nat \<times> nat) option \<Rightarrow> bool" where
  "good s k f C k' \<equiv> triple s k (\<lambda>_. True) f C k' (\<lambda>_ _. True)"

lemma triple_bind:
  assumes "triple s k P f C k1 Q" "\<And>x. triple s k1 (Q x) (g x) D k2 R"
  shows "triple s k P (bind_prog f g) (C \<and> D) k2 R"
  unfolding triple_def
proof (intro allI impI)
  fix st assume st: "inv s k st \<and> P st"
  obtain e st1 where f: "f st = (e, st1)" by fastforce
  show "case bind_prog f g st of
      (Returned x, st') \<Rightarrow> inv s k2 st' \<and> R x st' \<and> (any_failed (impl st') \<longleftrightarrow> any_failed (impl st) \<or> \<not> (C \<and> D))
    | _ \<Rightarrow> \<not> (C \<and> D)"
  proof (cases e)
    case (Returned x)
    then have 1: "inv s k1 st1" "Q x st1" "any_failed (impl st1) \<longleftrightarrow> any_failed (impl st) \<or> \<not> C"
      using assms(1) st f by (auto simp: triple_def)
    obtain e2 st2 where g: "g x st1 = (e2, st2)" by fastforce
    from assms(2) [of x] 1 g show ?thesis
      by (cases e2) (fastforce simp: triple_def bind_prog_def f Returned)+
  qed (use assms(1) st f in \<open>fastforce simp: triple_def bind_prog_def\<close>)+
qed

lemma triple_true: "triple s k P f C k' Q \<Longrightarrow> triple s k P f C k' (\<lambda>_ _. True)"
  by (fastforce simp: triple_def split: prod.splits outcome.splits)

lemma good_seq: "\<lbrakk>good s k f C k1; good s k1 g D k2\<rbrakk> \<Longrightarrow> good s k (andThen f g) (C \<and> D) k2"
  by (rule triple_bind [where Q = "\<lambda>_ _. True"])

lemma good_bind:
  "\<lbrakk>good s k f C k1; \<And>x. good s k1 (g x) D k2\<rbrakk> \<Longrightarrow> good s k (bind_prog f g) (C \<and> D) k2"
  by (rule triple_bind [where Q = "\<lambda>_ _. True"])

lemma good_give [intro, simp]: "good s k (give x) True k"
  by (simp add: triple_def give_def)

lemma good_update:
  "(\<And>st. inv s k st \<Longrightarrow> inv s k' (f st) \<and> any_failed (impl (f st)) = any_failed (impl st)) \<Longrightarrow>
     good s k (update f) True k'"
  by (simp add: triple_def update_def)

lemma good_notify [intro, simp]: "good s k (notify e) True k"
  unfolding notify_def by (rule good_update) (simp add: inv_def)

lemma good_time [intro, simp]: "good s k (GetTimeInMillis fl) True k"
  by (simp add: triple_def GetTimeInMillis_def inv_def)

text \<open>Where something has failed already, a clean program does for any.\<close>

lemma triple_failed:
  "good s k f True k' \<Longrightarrow> triple s k (\<lambda>st. any_failed (impl st)) f C k' (\<lambda>_ _. True)"
  by (fastforce simp: triple_def split: prod.splits outcome.splits)

lemma good_unless_fatal:
  assumes "good s k f C k"
  shows "good s k (\<lambda>st. if \<not> Test_HasFatalFailure st then f st else give () st) C k"
  unfolding triple_def
proof (intro allI impI)
  fix st assume st: "inv s k st \<and> True"
  then show "case (if \<not> Test_HasFatalFailure st then f st else give () st) of
      (Returned x, st') \<Rightarrow> inv s k st' \<and> True \<and> (any_failed (impl st') \<longleftrightarrow> any_failed (impl st) \<or> \<not> C)
    | _ \<Rightarrow> \<not> C"
    using assms fatal_any_failed [of s k st]
    by (cases "Test_HasFatalFailure st") (auto simp: triple_def give_def)
qed

lemma good_Cons:
  "\<lbrakk>good s k f C k1; good s k1 (in_order fs) D k2\<rbrakk> \<Longrightarrow> good s k (in_order (f # fs)) (C \<and> D) k2"
  using good_seq by simp

lemma good_Nil: "good s k (in_order []) True k"
  by simp

lemma good_in_order:
  "(\<And>f. f \<in> set fs \<Longrightarrow> good s k (prog_of f) (C f) k) \<Longrightarrow>
     good s k (in_order (map prog_of fs)) (\<forall>f \<in> set fs. C f) k"
proof (induction fs)
  case (Cons f fs)
  have "good s k (andThen (prog_of f) (in_order (map prog_of fs))) (C f \<and> (\<forall>f \<in> set fs. C f)) k"
    by (rule good_seq) (use Cons in auto)
  then show ?case by simp
qed simp

section \<open>User code under the handler\<close>

definition flags_ok :: "run_flags \<Rightarrow> bool" where
  "flags_ok fl \<longleftrightarrow> catch_exceptions fl \<and> \<not> break_on_failure fl \<and> \<not> throw_on_failure fl"

text \<open>Code that reports no failure, throws nothing and does not abort.\<close>

definition clean :: "run_flags \<Rightarrow> stmt list \<Rightarrow> bool" where
  "clean fl b \<longleftrightarrow> snd (delivers fl [] b) = Returned () \<and> (\<forall>p \<in> set (fst (delivers fl [] b)). part_passed p)"

lemma good_exec:
  "good s k (exec_block fl b) (clean fl b) k"
  unfolding triple_def
proof (intro allI impI)
  fix st assume st: "inv s k st \<and> True"
  then have ts: "gtest_trace_stack st = []" by (simp add: inv_def)
  obtain ps e where d: "delivers fl [] b = (ps, e)" by fastforce
  from deliver_inv [of s k st ps] st
  show "case exec_block fl b st of
      (Returned x, st') \<Rightarrow> inv s k st' \<and> True \<and> (any_failed (impl st') \<longleftrightarrow> any_failed (impl st) \<or> \<not> clean fl b)
    | _ \<Rightarrow> \<not> clean fl b"
    by (cases e) (auto simp: exec_delivers ts d clean_def part_failed_def part_passed_def)
qed

lemma report_fails:
  assumes "flags_ok fl" "inv s k st"
  obtains st' where "ReportFailureInUnknownLocation fl kFatalFailure msg st = (Returned (), st')"
    "inv s k st'" "any_failed (impl st')"
proof -
  define p where "p = part_of fl (gtest_trace_stack st) kFatalFailure None (- 1) msg []"
  have "part_failed p"
    by (simp add: p_def part_of_def new_TestPartResult_def part_failed_def Let_def)
  with deliver_inv [OF assms(2), of "[p]"] assms(1) that [of "ReportTestPartResult p st"] show thesis
    by (simp add: ReportFailureInUnknownLocation_def UnitTest_AddTestPartResult_def Let_def p_def flags_ok_def)
qed

text \<open>What is thrown and caught has failed, and the value is then the one for failure.\<close>

lemma triple_handled:
  assumes fl: "flags_ok fl" and f: "triple s k P f C k Q"
    and thrown: "\<And>st x st'. \<lbrakk>inv s k st; P st; f st = (Thrown x, st')\<rbrakk> \<Longrightarrow> inv s k st'"
  shows "triple s k P (HandleExceptionsInMethodIfSupported fl zero f loc) C k
    (\<lambda>x st. Q x st \<or> x = zero \<and> any_failed (impl st))"
  unfolding triple_def
proof (intro allI impI)
  fix st assume st: "inv s k st \<and> P st"
  obtain e st1 where e: "f st = (e, st1)" by fastforce
  have r: "case (e, st1) of
      (Returned x, st') \<Rightarrow> inv s k st' \<and> Q x st' \<and> (any_failed (impl st') \<longleftrightarrow> any_failed (impl st) \<or> \<not> C)
    | _ \<Rightarrow> \<not> C"
    using f st e by (auto simp: triple_def)
  have caught: "case andThen (ReportFailureInUnknownLocation fl kFatalFailure msg) (give zero) st1 of
      (Returned x, st') \<Rightarrow> inv s k st' \<and> (Q x st' \<or> x = zero \<and> any_failed (impl st')) \<and>
        (any_failed (impl st') \<longleftrightarrow> any_failed (impl st) \<or> \<not> C)
    | _ \<Rightarrow> \<not> C" if "e = Thrown x" for x msg
  proof -
    have "inv s k st1" using thrown st e that by blast
    from report_fails [OF fl this, of msg] obtain st2 where
      "ReportFailureInUnknownLocation fl kFatalFailure msg st1 = (Returned (), st2)"
      "inv s k st2" "any_failed (impl st2)" .
    then show ?thesis using r that by (simp add: bind_prog_def give_def)
  qed
  show "case HandleExceptionsInMethodIfSupported fl zero f loc st of
      (Returned x, st') \<Rightarrow> inv s k st' \<and> (Q x st' \<or> x = zero \<and> any_failed (impl st')) \<and>
        (any_failed (impl st') \<longleftrightarrow> any_failed (impl st) \<or> \<not> C)
    | _ \<Rightarrow> \<not> C"
  proof (cases e)
    case (Thrown x)
    with caught [OF this] r fl show ?thesis
      by (cases x) (simp_all add: HandleExceptionsInMethodIfSupported_def e flags_ok_def)
  qed (use r fl in \<open>auto simp: HandleExceptionsInMethodIfSupported_def e flags_ok_def\<close>)
qed

lemma exec_thrown_inv: "inv s k st \<Longrightarrow> exec_block fl b st = (Thrown x, st') \<Longrightarrow> inv s k st'"
  using deliver_inv [of s k st "fst (delivers fl [] b)"]
  by (auto simp: exec_delivers inv_def split_def Let_def)

lemma good_handled_exec:
  "flags_ok fl \<Longrightarrow> good s k (HandleExceptionsInMethodIfSupported fl () (exec_block fl b) loc) (clean fl b) k"
  by (rule triple_true, rule triple_handled [OF _ good_exec]) (blast intro: exec_thrown_inv)+

section \<open>A test, a test case, all tests\<close>

definition same_fixture :: "UnitTestImpl \<Rightarrow> nat \<Rightarrow> nat \<Rightarrow> bool" where
  "same_fixture u i j \<longleftrightarrow> fixture_class_id (test_at u i j) = fixture_class_id (test_at u i 0)"

definition test_clean :: "run_flags \<Rightarrow> UnitTestImpl \<Rightarrow> user_code \<Rightarrow> nat \<Rightarrow> nat \<Rightarrow> bool" where
  "test_clean fl u uc i j \<longleftrightarrow> same_fixture u i j \<and>
     (let tcode = code_of_test uc i j in
      clean fl (fixture_constructor tcode) \<and> clean fl (fixture_set_up tcode) \<and> clean fl (test_body tcode) \<and>
      clean fl (fixture_tear_down tcode) \<and> clean fl (fixture_destructor tcode))"

definition case_clean :: "run_flags \<Rightarrow> UnitTestImpl \<Rightarrow> user_code \<Rightarrow> nat \<Rightarrow> bool" where
  "case_clean fl u uc i \<longleftrightarrow> (case_should_run (test_cases u ! i) \<longrightarrow>
     clean fl (SetUpTestCase uc i) \<and> clean fl (TearDownTestCase uc i) \<and>
     (\<forall>j < length (test_info_list (test_cases u ! i)). should_run (test_at u i j) \<longrightarrow> test_clean fl u uc i j))"

definition run_clean :: "run_flags \<Rightarrow> UnitTestImpl \<Rightarrow> user_code \<Rightarrow> bool" where
  "run_clean fl u uc \<longleftrightarrow>
     (\<forall>(set_up, tear_down) \<in> set (environments uc). clean fl set_up \<and> clean fl tear_down) \<and>
     (\<forall>i < length (test_cases u). case_clean fl u uc i)"

lemma triple_conseq:
  "\<lbrakk>triple s k P f C k' Q; C = C'\<rbrakk> \<Longrightarrow> triple s k P f C' k' Q" by simp

lemma assert_triple:
  assumes "flags_ok fl" "type \<noteq> kSuccess"
  shows "triple s k P (AssertHelper fl type file line msg user) False k (\<lambda>_ st. any_failed (impl st))"
  unfolding triple_def
proof (intro allI impI)
  fix st assume st: "inv s k st \<and> P st"
  define p where "p = part_of fl (gtest_trace_stack st) type file line (AppendUserMessage msg user) CurrentOsStackTraceExceptTop"
  have "part_failed p"
    using assms(2) by (simp add: p_def part_of_def new_TestPartResult_def part_failed_def Let_def)
  with deliver_inv [of s k st "[p]"] st assms
  show "case AssertHelper fl type file line msg user st of
      (Returned x, st') \<Rightarrow> inv s k st' \<and> any_failed (impl st') \<and>
        (any_failed (impl st') \<longleftrightarrow> any_failed (impl st) \<or> \<not> False)
    | _ \<Rightarrow> \<not> False"
    by (simp add: AssertHelper_def UnitTest_AddTestPartResult_def Let_def p_def flags_ok_def)
qed

lemma triple_HasSameFixtureClass:
  assumes "flags_ok fl" "current_ok s (Some (i, j))"
  shows "triple s (Some (i, j)) (\<lambda>_. True) (HasSameFixtureClass fl i j) (same_fixture s i j) (Some (i, j))
    (\<lambda>x st. (x \<longleftrightarrow> same_fixture s i j) \<and> (\<not> x \<longrightarrow> any_failed (impl st)))"
  unfolding triple_def
proof (intro allI impI)
  fix st assume st: "inv s (Some (i, j)) st \<and> True"
  note c = inv_current [OF conjunct1 [OF st]]
  have e: "s = erase (impl st)" using st by (simp add: inv_def)
  have same: "same_fixture s i j \<longleftrightarrow>
      fixture_class_id (test_at (impl st) i j) = fixture_class_id (test_at (impl st) i 0)"
  proof -
    have "0 < length (test_info_list (test_cases (impl st) ! i))" using c(2) by linarith
    with c(1,2) show ?thesis by (simp add: same_fixture_def e erase_simps)
  qed
  show "case HasSameFixtureClass fl i j st of
      (Returned x, st') \<Rightarrow> inv s (Some (i, j)) st' \<and>
        ((x \<longleftrightarrow> same_fixture s i j) \<and> (\<not> x \<longrightarrow> any_failed (impl st'))) \<and>
        (any_failed (impl st') \<longleftrightarrow> any_failed (impl st) \<or> \<not> same_fixture s i j)
    | _ \<Rightarrow> \<not> same_fixture s i j"
  proof (cases "same_fixture s i j")
    case True
    then show ?thesis
      using st same by (simp add: HasSameFixtureClass_def Let_def)
  next
    case False
    have nf: "kNonFatalFailure \<noteq> kSuccess" by simp
    let ?a = "\<lambda>line m. triple s (Some (i, j)) (\<lambda>_. True)
      (andThen (AssertHelper fl kNonFatalFailure (Some (gtest_cc fl)) line ''Failed'' (stream_text new_Message m))
        (give False)) (False \<and> True) (Some (i, j)) (\<lambda>x st. \<not> x \<and> any_failed (impl st))"
    have ok: "?a line m" for line m
      by (rule triple_bind [OF assert_triple [OF assms(1) nf]]) (auto simp: triple_def give_def)
    have "\<exists>line m. HasSameFixtureClass fl i j st =
        andThen (AssertHelper fl kNonFatalFailure (Some (gtest_cc fl)) line ''Failed'' (stream_text new_Message m))
          (give False) st"
      using False same
      by (cases "fixture_class_id (test_at (impl st) i 0) = test_type_id fl \<or>
          fixture_class_id (test_at (impl st) i j) = test_type_id fl")
        (auto simp: HasSameFixtureClass_def Let_def)
    then obtain line m where h: "HasSameFixtureClass fl i j st =
        andThen (AssertHelper fl kNonFatalFailure (Some (gtest_cc fl)) line ''Failed'' (stream_text new_Message m))
          (give False) st" by blast
    show ?thesis
      using ok [of line m] st False unfolding triple_def h by (auto split: outcome.splits prod.splits)
  qed
qed

lemma good_Test_Run:
  assumes "flags_ok fl" "current_ok s (Some (i, j))"
  shows "good s (Some (i, j)) (Test_Run fl tcode i j)
    (same_fixture s i j \<and> clean fl (fixture_set_up tcode) \<and> clean fl (test_body tcode) \<and>
      clean fl (fixture_tear_down tcode)) (Some (i, j))"
  unfolding Test_Run_def
proof (rule triple_bind [OF triple_HasSameFixtureClass [OF assms]])
  fix x
  let ?D = "clean fl (fixture_set_up tcode) \<and> clean fl (test_body tcode) \<and> clean fl (fixture_tear_down tcode)"
  let ?seq = "in_order
        [HandleExceptionsInMethodIfSupported fl () (exec_block fl (fixture_set_up tcode)) ''SetUp()'',
         \<lambda>st. if \<not> Test_HasFatalFailure st
              then HandleExceptionsInMethodIfSupported fl () (exec_block fl (test_body tcode)) ''the test body'' st
              else give () st,
         HandleExceptionsInMethodIfSupported fl () (exec_block fl (fixture_tear_down tcode)) ''TearDown()'']"
  have seq: "good s (Some (i, j)) ?seq ?D (Some (i, j))"
    unfolding in_order.simps
    by (rule triple_conseq, (rule good_seq good_handled_exec [OF assms(1)] good_unless_fatal good_give)+) simp
  show "triple s (Some (i, j)) (\<lambda>st. (x \<longleftrightarrow> same_fixture s i j) \<and> (\<not> x \<longrightarrow> any_failed (impl st)))
      (if \<not> x then give () else ?seq) ?D (Some (i, j)) (\<lambda>_ _. True)"
  proof (cases x)
    case True
    with seq show ?thesis by (simp add: triple_def)
  next
    case False
    with triple_failed [OF good_give, of s "Some (i, j)" "()" ?D] show ?thesis by (simp add: triple_def)
  qed
qed

lemma erase_current: "erase (current_test_info_update f u) = erase u" "erase (current_test_case_update g u) = erase u"
  by (simp_all add: erase_def)

lemma good_set_current:
  "current_ok s k' \<Longrightarrow> good s k (on_impl (current_test_info_update (\<lambda>_. k'))) True k'"
  unfolding on_impl_def by (rule good_update) (simp add: inv_def erase_current any_failed_def)

lemma good_set_case: "good s k (on_impl (current_test_case_update f)) True k"
  unfolding on_impl_def by (rule good_update) (simp add: inv_def erase_current any_failed_def)

lemma good_test_elapsed:
  "good s (Some (i, j)) (on_impl (update_test i j (\<lambda>t. t\<lparr> result_of := (result_of t)\<lparr> result_elapsed_time := n \<rparr> \<rparr>))) True (Some (i, j))"
  unfolding on_impl_def
proof (rule good_update)
  fix st assume st: "inv s (Some (i, j)) st"
  note c = inv_current [OF st]
  let ?f = "\<lambda>t. t\<lparr> result_of := (result_of t)\<lparr> result_elapsed_time := n \<rparr> \<rparr> :: TestInfo"
  have "erase (update_test i j ?f (impl st)) = erase (impl st)" by (rule erase_update_test) simp
  moreover have "any_failed (update_test i j ?f (impl st)) = any_failed (impl st)"
  proof -
    have "(should_run (test_at (update_test i j ?f (impl st)) a b) \<and>
          Failed (result_of (test_at (update_test i j ?f (impl st)) a b))) =
        (should_run (test_at (impl st) a b) \<and> Failed (result_of (test_at (impl st) a b)))" for a b
      by (simp add: test_at_update_test c Failed_iff)
    then show ?thesis by (simp only: any_failed_def test_at_update_test [OF c(1,2)])
  qed
  ultimately show "inv s (Some (i, j)) (st\<lparr> impl := update_test i j ?f (impl st) \<rparr>) \<and>
      any_failed (impl (st\<lparr> impl := update_test i j ?f (impl st) \<rparr>)) = any_failed (impl st)"
    using st c by (simp add: inv_def test_at_update_test)
qed

lemma good_handled_give: "flags_ok fl \<Longrightarrow> good s k (HandleExceptionsInMethodIfSupported fl () (give ()) loc) True k"
  by (simp add: triple_def HandleExceptionsInMethodIfSupported_def give_def)

lemma triple_create:
  assumes "flags_ok fl"
  shows "triple s k (\<lambda>_. True) (HandleExceptionsInMethodIfSupported fl False (CreateTest fl tcode) loc)
    (clean fl (fixture_constructor tcode)) k (\<lambda>x st. x \<or> x = False \<and> any_failed (impl st))"
proof (rule triple_handled [OF assms])
  have "triple s k (\<lambda>_. True) (CreateTest fl tcode) (clean fl (fixture_constructor tcode) \<and> True) k (\<lambda>x _. x)"
    unfolding CreateTest_def by (rule triple_bind [OF good_exec]) (simp add: triple_def give_def)
  then show "triple s k (\<lambda>_. True) (CreateTest fl tcode) (clean fl (fixture_constructor tcode)) k (\<lambda>x _. x)"
    by simp
next
  fix st x st' assume st: "inv s k st" and c: "CreateTest fl tcode st = (Thrown x, st')"
  then have "exec_block fl (fixture_constructor tcode) st = (Thrown x, st')"
    by (auto simp: CreateTest_def bind_prog_def give_def split: prod.splits outcome.splits)
  with st show "inv s k st'" by (rule exec_thrown_inv)
qed

lemma good_TestInfo_Run:
  assumes fl: "flags_ok fl" and i: "i < length (test_cases s)" "j < length (test_info_list (test_cases s ! i))"
  shows "good s None (TestInfo_Run fl uc i j) (should_run (test_at s i j) \<longrightarrow> test_clean fl s uc i j) None"
proof (cases "should_run (test_at s i j)")
  case False
  have "\<not> should_run (test_at (impl st) i j)" if "inv s None st" for st
    using that i False by (auto simp: inv_def erase_simps)
  then show ?thesis using False by (simp add: triple_def TestInfo_Run_def)
next
  case True
  let ?k = "Some (i, j)" and ?tc = "code_of_test uc i j"
  have ok: "current_ok s ?k" using True i by (simp add: current_ok_def)
  let ?D = "same_fixture s i j \<and> clean fl (fixture_set_up ?tc) \<and> clean fl (test_body ?tc) \<and>
    clean fl (fixture_tear_down ?tc) \<and> clean fl (fixture_destructor ?tc)"
  let ?rest = "\<lambda>start test. in_order
      [\<lambda>st. if test \<and> \<not> Test_HasFatalFailure st then Test_Run fl ?tc i j st else give () st,
       HandleExceptionsInMethodIfSupported fl () (DeleteSelf fl ?tc test)
         (''the test fixture'' @ [CHR 0x27] @ ''s destructor''),
       bind_prog (GetTimeInMillis fl) (\<lambda>now.
         on_impl (update_test i j (\<lambda>t. t\<lparr> result_of := (result_of t)\<lparr> result_elapsed_time := now - start \<rparr> \<rparr>)))]"
  have time: "good s ?k (bind_prog (GetTimeInMillis fl) (\<lambda>now.
         on_impl (update_test i j (\<lambda>t. t\<lparr> result_of := (result_of t)\<lparr> result_elapsed_time := now - start \<rparr> \<rparr>))))
      (True \<and> True) ?k" for start
    by (rule good_bind [OF good_time good_test_elapsed])
  have rest: "triple s ?k (\<lambda>st. test \<or> test = False \<and> any_failed (impl st)) (?rest start test) ?D ?k (\<lambda>_ _. True)"
    for start test
  proof (cases test)
    case True
    have "good s ?k (?rest start True) ?D ?k"
      unfolding in_order.simps simp_thms
      by (rule triple_conseq, (rule good_seq good_unless_fatal good_Test_Run [OF fl ok] time good_give
            good_handled_exec [OF fl] | simp only: DeleteSelf_def if_True)+) auto
    with True show ?thesis by (simp add: triple_def)
  next
    case False
    have "good s ?k (?rest start False) True ?k"
      unfolding in_order.simps simp_thms if_False DeleteSelf_def
      by (rule triple_conseq, (rule good_seq good_give good_handled_give [OF fl] time)+) simp
    from triple_failed [OF this, of ?D] False show ?thesis by simp
  qed
  have create: "good s ?k (bind_prog (HandleExceptionsInMethodIfSupported fl False (CreateTest fl ?tc)
        (''the test fixture'' @ [CHR 0x27] @ ''s constructor'')) (?rest start))
      (clean fl (fixture_constructor ?tc) \<and> ?D) ?k" for start
    by (rule triple_bind [OF triple_create [OF fl] rest])
  have run: "\<And>st. inv s None st \<Longrightarrow> should_run (test_at (impl st) i j)"
    using True i by (auto simp: inv_def erase_simps)
  have "good s None (in_order
      [on_impl (current_test_info_update (\<lambda>_. ?k)), notify (OnTestStart i j),
       bind_prog (GetTimeInMillis fl) (\<lambda>start.
         bind_prog (HandleExceptionsInMethodIfSupported fl False (CreateTest fl ?tc)
           (''the test fixture'' @ [CHR 0x27] @ ''s constructor'')) (?rest start)),
       notify (OnTestEnd i j), on_impl (current_test_info_update (\<lambda>_. None))])
      (clean fl (fixture_constructor ?tc) \<and> ?D) None"
    by (rule triple_conseq, rule good_Cons [OF good_set_current [OF ok]], rule good_Cons [OF good_notify],
        rule good_Cons [OF good_bind [OF good_time create]], rule good_Cons [OF good_notify],
        rule good_Cons [OF good_set_current good_Nil]) (simp_all add: current_ok_def)
  then have "good s None (TestInfo_Run fl uc i j) (clean fl (fixture_constructor ?tc) \<and> ?D) None"
    using run by (simp add: triple_def TestInfo_Run_def Let_def)
  then show ?thesis
    by (rule triple_conseq) (use True in \<open>auto simp: test_clean_def Let_def\<close>)
qed

lemma good_case_elapsed:
  "good s k (on_impl (update_case i (\<lambda>c. c\<lparr> case_elapsed_time := n \<rparr>))) True k"
  unfolding on_impl_def
proof (rule good_update)
  fix st assume st: "inv s k st"
  let ?u = "impl st" and ?f = "\<lambda>c. c\<lparr> case_elapsed_time := n \<rparr> :: TestCase"
  have "test_info_list ((test_cases ?u)[i := ?f (test_cases ?u ! i)] ! a) = test_info_list (test_cases ?u ! a)" for a
    by (cases "i < length (test_cases ?u)"; cases "a = i") (simp_all add: list_update_beyond not_less)
  then have "any_failed (update_case i ?f ?u) = any_failed ?u"
    by (simp add: any_failed_def update_case_def)
  moreover have "erase (update_case i ?f ?u) = erase ?u"
    by (rule erase_update_case) (simp add: erase_case_def)
  ultimately show "inv s k (st\<lparr> impl := update_case i ?f ?u \<rparr>) \<and>
      any_failed (impl (st\<lparr> impl := update_case i ?f ?u \<rparr>)) = any_failed ?u"
    using st by (simp add: inv_def update_case_def)
qed

text \<open>The tests of a test case in the order of its indices, a permutation.\<close>

lemma case_ok_order:
  assumes "case_ok c" "k < length (test_info_list c)"
  shows "GetMutableTestInfo c (int k) = Some (nat (test_indices c ! k)) \<and>
    nat (test_indices c ! k) < length (test_info_list c)"
proof -
  have "set (test_indices c) = int ` {0..<length (test_info_list c)}"
    using assms(1) unfolding case_ok_def by (metis list.set_map set_mset_mset set_upt)
  then have "test_indices c ! k \<in> int ` {0..<length (test_info_list c)}"
    using assms case_ok_length [OF assms(1)] nth_mem [of k "test_indices c"] by simp
  then show ?thesis
    using assms case_ok_length [OF assms(1)] by (auto simp: GetMutableTestInfo_def GetElementOr_def Let_def)
qed

lemma case_ok_all:
  assumes "case_ok c"
  shows "(\<forall>k < length (test_info_list c). P (nat (test_indices c ! k))) \<longleftrightarrow>
    (\<forall>j < length (test_info_list c). P j)"
proof -
  have "mset (map nat (test_indices c)) = mset [0..<length (test_info_list c)]"
    using arg_cong [OF assms [unfolded case_ok_def], of "image_mset nat"] by (simp add: multiset.map_comp comp_def)
  then have "set (map nat (test_indices c)) = {0..<length (test_info_list c)}"
    by (metis set_mset_mset set_upt)
  then have "(\<forall>j \<in> set (map nat (test_indices c)). P j) \<longleftrightarrow> (\<forall>j < length (test_info_list c). P j)"
    by auto
  then show ?thesis
    using case_ok_length [OF assms] by (simp add: all_set_conv_all_nth)
qed

lemma good_kth_test:
  assumes fl: "flags_ok fl" and i: "i < length (test_cases s)" and c: "case_ok (test_cases s ! i)"
    and k: "k < length (test_info_list (test_cases s ! i))"
  shows "good s None (run_kth_test fl uc i k)
    (let j = nat (test_indices (test_cases s ! i) ! k) in should_run (test_at s i j) \<longrightarrow> test_clean fl s uc i j) None"
proof -
  let ?j = "nat (test_indices (test_cases s ! i) ! k)"
  note o = case_ok_order [OF c k]
  have "GetMutableTestInfo (test_cases (impl st) ! i) (int k) = Some ?j" if "inv s None st" for st
    using o that i by (auto simp: inv_def erase_simps GetMutableTestInfo_def)
  then have "run_kth_test fl uc i k st = TestInfo_Run fl uc i ?j st" if "inv s None st" for st
    using that by (simp add: run_kth_test_def)
  moreover have "good s None (TestInfo_Run fl uc i ?j) (should_run (test_at s i ?j) \<longrightarrow> test_clean fl s uc i ?j) None"
    by (rule good_TestInfo_Run [OF fl i]) (use o in simp)
  ultimately show ?thesis by (simp add: triple_def Let_def)
qed

lemma good_TestCase_Run:
  assumes fl: "flags_ok fl" and i: "i < length (test_cases s)" and c: "case_ok (test_cases s ! i)"
  shows "good s None (TestCase_Run fl uc i) (case_clean fl s uc i) None"
proof (cases "case_should_run (test_cases s ! i)")
  case False
  have "\<not> case_should_run (test_cases (impl st) ! i)" if "inv s None st" for st
    using that i False by (auto simp: inv_def erase_simps)
  then show ?thesis using False by (simp add: triple_def TestCase_Run_def case_clean_def)
next
  case True
  let ?n = "length (test_info_list (test_cases s ! i))"
  let ?T = "\<forall>j < ?n. should_run (test_at s i j) \<longrightarrow> test_clean fl s uc i j"
  have "good s None (in_order (map (run_kth_test fl uc i) [0..<?n]))
      (\<forall>k \<in> set [0..<?n]. let j = nat (test_indices (test_cases s ! i) ! k) in
        should_run (test_at s i j) \<longrightarrow> test_clean fl s uc i j) None"
    by (rule good_in_order) (use good_kth_test [OF fl i c] in auto)
  then have tests: "good s None (in_order (map (run_kth_test fl uc i) [0..<?n])) ?T None"
    by (rule triple_conseq)
      (simp add: case_ok_all [OF c, of "\<lambda>j. should_run (test_at s i j) \<longrightarrow> test_clean fl s uc i j", symmetric]
        Let_def Ball_def)
  have count: "nat (total_test_count (test_cases (impl st) ! i)) = ?n" if "inv s None st" for st
    using that i by (auto simp: inv_def erase_simps total_test_count_def)
  have tests': "good s None (\<lambda>st. in_order (map (run_kth_test fl uc i)
      [0..<nat (total_test_count (test_cases (impl st) ! i))]) st) ?T None"
    using tests count by (simp add: triple_def)
  have mid: "good s None (bind_prog (GetTimeInMillis fl) (\<lambda>start.
      in_order
        [\<lambda>st. in_order (map (run_kth_test fl uc i) [0..<nat (total_test_count (test_cases (impl st) ! i))]) st,
         bind_prog (GetTimeInMillis fl) (\<lambda>now.
           on_impl (update_case i (\<lambda>c. c\<lparr> case_elapsed_time := now - start \<rparr>)))])) ?T None"
    by (rule triple_conseq, rule good_bind [OF good_time], rule good_Cons [OF tests'],
        rule good_Cons [OF good_bind [OF good_time good_case_elapsed] good_Nil]) simp
  have run: "case_should_run (test_cases (impl st) ! i)" if "inv s None st" for st
    using that i True by (auto simp: inv_def erase_simps)
  have "good s None (in_order
      [on_impl (current_test_case_update (\<lambda>_. Some i)), notify (OnTestCaseStart i),
       HandleExceptionsInMethodIfSupported fl () (exec_block fl (SetUpTestCase uc i)) ''SetUpTestCase()'',
       bind_prog (GetTimeInMillis fl) (\<lambda>start.
         in_order
          [\<lambda>st. in_order (map (run_kth_test fl uc i) [0..<nat (total_test_count (test_cases (impl st) ! i))]) st,
           bind_prog (GetTimeInMillis fl) (\<lambda>now.
             on_impl (update_case i (\<lambda>c. c\<lparr> case_elapsed_time := now - start \<rparr>)))]),
       HandleExceptionsInMethodIfSupported fl () (exec_block fl (TearDownTestCase uc i)) ''TearDownTestCase()'',
       notify (OnTestCaseEnd i), on_impl (current_test_case_update (\<lambda>_. None))])
      (case_clean fl s uc i) None"
    by (rule triple_conseq, rule good_Cons [OF good_set_case], rule good_Cons [OF good_notify],
        rule good_Cons [OF good_handled_exec [OF fl]], rule good_Cons [OF mid],
        rule good_Cons [OF good_handled_exec [OF fl]], rule good_Cons [OF good_notify],
        rule good_Cons [OF good_set_case good_Nil]) (auto simp: case_clean_def True)
  then show ?thesis
    using run by (simp add: triple_def TestCase_Run_def)
qed

lemma good_environments:
  "good s None (in_order (map (\<lambda>(set_up, tear_down). exec_block fl set_up) es)) (\<forall>(a, b) \<in> set es. clean fl a) None"
  "good s None (in_order (map (\<lambda>(set_up, tear_down). exec_block fl tear_down) es)) (\<forall>(a, b) \<in> set es. clean fl b) None"
  using good_in_order [of es s None "\<lambda>(a, b). exec_block fl a" "\<lambda>(a, b). clean fl a"]
    good_in_order [of es s None "\<lambda>(a, b). exec_block fl b" "\<lambda>(a, b). clean fl b"]
  by (auto simp: good_exec split: prod.splits)

lemma good_run_cases:
  assumes fl: "flags_ok fl" and wr: "well_registered s" and df: "deaths_first s"
  shows "good s None (in_order (map (run_kth_case fl uc) [0..<length (test_cases s)]))
    (\<forall>i < length (test_cases s). case_clean fl s uc i) None"
proof -
  let ?n = "length (test_cases s)"
  from visits_in_order [OF df wr]
  obtain order where order: "map (\<lambda>i. GetMutableTestCase s (int i)) [0..<?n] = map Some order"
      "mset order = mset [0..<?n]"
    by (elim exE conjE)
  have len: "length order = ?n" using arg_cong [OF order(1), of length] by simp
  have set: "set order = {0..<?n}" using arg_cong [OF order(2), of set_mset] by simp
  have kth: "good s None (run_kth_case fl uc k) (case_clean fl s uc (order ! k)) None" if k: "k < ?n" for k
  proof -
    have "GetMutableTestCase s (int k) = Some (order ! k)"
      using arg_cong [OF order(1), of "\<lambda>xs. xs ! k"] k len by simp
    then have "GetMutableTestCase (impl st) (int k) = Some (order ! k)" if "inv s None st" for st
      using that by (auto simp: inv_def GetMutableTestCase_def erase_simps)
    then have "run_kth_case fl uc k st = TestCase_Run fl uc (order ! k) st" if "inv s None st" for st
      using that by (simp add: run_kth_case_def)
    moreover have i: "order ! k < ?n" using set nth_mem [of k order] k len by auto
    moreover have "case_ok (test_cases s ! (order ! k))"
      using wr i by (simp add: well_registered_def)
    ultimately show ?thesis
      using good_TestCase_Run [OF fl, of "order ! k" s uc] by (simp add: triple_def)
  qed
  have "good s None (in_order (map (run_kth_case fl uc) [0..<?n])) (\<forall>k \<in> set [0..<?n]. case_clean fl s uc (order ! k)) None"
    by (rule good_in_order) (use kth in simp)
  moreover have "(\<forall>k \<in> set [0..<?n]. case_clean fl s uc (order ! k)) \<longleftrightarrow> (\<forall>i \<in> set order. case_clean fl s uc i)"
    unfolding all_set_conv_all_nth [of order] len by auto
  ultimately show ?thesis
    by (simp add: set Ball_def del: set_upt)
qed

lemma good_run_environments:
  assumes fl: "flags_ok fl" and wr: "well_registered s" and df: "deaths_first s"
  shows "good s None (run_environments fl uc) (run_clean fl s uc) None"
proof -
  let ?all = "\<forall>i < length (test_cases s). case_clean fl s uc i"
  have count: "nat (total_test_case_count (impl st)) = length (test_cases s)" if "inv s None st" for st
    using that by (auto simp: inv_def erase_simps total_test_case_count_def)
  have cases: "good s None (\<lambda>st. in_order (map (run_kth_case fl uc)
      [0..<nat (total_test_case_count (impl st))]) st) ?all None"
    using good_run_cases [OF assms] count by (simp add: triple_def)
  show ?thesis
    unfolding run_environments_def
    by (rule triple_conseq, rule good_Cons [OF good_notify], rule good_Cons [OF good_environments(1)],
        rule good_Cons [OF good_notify], rule good_Cons [OF good_unless_fatal [OF cases]],
        rule good_Cons [OF good_notify], rule good_Cons [OF good_environments(2)],
        rule good_Cons [OF good_notify good_Nil]) (auto simp: run_clean_def)
qed

section \<open>Iterations\<close>

definition ready :: "run_flags \<Rightarrow> UnitTestImpl \<Rightarrow> bool" where
  "ready fl u \<longleftrightarrow> current_test_info u = None \<and> well_registered u \<and> deaths_first u \<and>
     length (test_cases u) < 2 ^ 31 \<and>
     (\<forall>c \<in> set (test_cases u). length (test_info_list c) < 2 ^ 31 \<and>
        (case_should_run c \<longleftrightarrow> (\<exists>t \<in> set (test_info_list c). should_run t))) \<and>
     (flag_shuffle fl \<longrightarrow> 1 \<le> random_seed u \<and> random_seed u \<le> kMaxRandomSeed)"

definition idle :: "run_flags \<Rightarrow> run_state \<Rightarrow> bool" where
  "idle fl st \<longleftrightarrow> thread_reporter st = Default_reporter \<and> gtest_trace_stack st = [] \<and> ready fl (impl st)"

text \<open>The test cases up to results and order.\<close>

definition core :: "UnitTestImpl \<Rightarrow> TestCase list" where
  "core u = map (\<lambda>c. (erase_case c)\<lparr> test_indices := [] \<rparr>) (test_cases u)"

lemma core_erase [simp]: "core (erase u) = core u"
  by (simp add: core_def erase_def erase_case_def comp_def)

lemma core_nth:
  assumes "core u = core v"
  shows "length (test_cases u) = length (test_cases v)"
    "i < length (test_cases v) \<Longrightarrow> case_should_run (test_cases u ! i) = case_should_run (test_cases v ! i)"
    "i < length (test_cases v) \<Longrightarrow> length (test_info_list (test_cases u ! i)) = length (test_info_list (test_cases v ! i))"
    "\<lbrakk>i < length (test_cases v); j < length (test_info_list (test_cases v ! i))\<rbrakk> \<Longrightarrow>
       should_run (test_at u i j) = should_run (test_at v i j) \<and>
       fixture_class_id (test_at u i j) = fixture_class_id (test_at v i j)"
proof -
  show len: "length (test_cases u) = length (test_cases v)"
    using assms unfolding core_def by (metis length_map)
  have c: "(erase_case (test_cases u ! i))\<lparr> test_indices := [] \<rparr> = (erase_case (test_cases v ! i))\<lparr> test_indices := [] \<rparr>"
    if "i < length (test_cases v)" for i
    using arg_cong [OF assms, of "\<lambda>xs. xs ! i"] that len by (simp add: core_def)
  show "case_should_run (test_cases u ! i) = case_should_run (test_cases v ! i)" if "i < length (test_cases v)"
    using arg_cong [OF c [OF that], of case_should_run] by simp
  show l: "length (test_info_list (test_cases u ! i)) = length (test_info_list (test_cases v ! i))"
    if "i < length (test_cases v)" for i
    using arg_cong [OF c [OF that], of "\<lambda>c. length (test_info_list c)"] by simp
  show "should_run (test_at u i j) = should_run (test_at v i j) \<and>
       fixture_class_id (test_at u i j) = fixture_class_id (test_at v i j)"
    if "i < length (test_cases v)" "j < length (test_info_list (test_cases v ! i))"
    using arg_cong [OF c [OF that(1)], of "\<lambda>c. should_run (test_info_list c ! j)"]
      arg_cong [OF c [OF that(1)], of "\<lambda>c. fixture_class_id (test_info_list c ! j)"] that l [OF that(1)]
    by simp
qed

lemma run_clean_core:
  assumes "core u = core v"
  shows "run_clean fl u uc = run_clean fl v uc"
proof -
  note n = core_nth [OF assms]
  have "test_clean fl u uc i j = test_clean fl v uc i j"
    if "i < length (test_cases v)" "j < length (test_info_list (test_cases v ! i))" for i j
  proof -
    have "0 < length (test_info_list (test_cases v ! i))" using that(2) by linarith
    from n(4) [OF that] n(4) [OF that(1) this] show ?thesis by (simp add: test_clean_def same_fixture_def)
  qed
  then have "case_clean fl u uc i = case_clean fl v uc i" if "i < length (test_cases v)" for i
    using n that by (simp add: case_clean_def)
  then show ?thesis using n(1) by (simp add: run_clean_def)
qed

lemma unit_Passed_iff:
  assumes "\<forall>c \<in> set (test_cases u). case_should_run c \<longleftrightarrow> (\<exists>t \<in> set (test_info_list c). should_run t)"
  shows "unit_Passed u \<longleftrightarrow> \<not> any_failed u"
proof -
  have "TestCaseFailed c \<longleftrightarrow> (\<exists>t \<in> set (test_info_list c). should_run t \<and> Failed (result_of t))"
    if "c \<in> set (test_cases u)" for c
    using assms that
    by (auto simp: TestCaseFailed_def case_Failed_def failed_test_count_def CountIf_length TestFailed_def
        filter_empty_conv)
  then have "failed_test_case_count u > 0 \<longleftrightarrow>
      (\<exists>c \<in> set (test_cases u). \<exists>t \<in> set (test_info_list c). should_run t \<and> Failed (result_of t))"
    by (auto simp: failed_test_case_count_def CountIf_length filter_empty_conv)
  also have "\<dots> \<longleftrightarrow> (\<exists>i < length (test_cases u). \<exists>j < length (test_info_list (test_cases u ! i)).
      should_run (test_at u i j) \<and> Failed (result_of (test_at u i j)))"
    by (simp add: Bex_def in_set_conv_nth) blast
  finally show ?thesis by (auto simp: unit_Passed_def unit_Failed_def any_failed_def)
qed

lemma well_registered_erase [simp]:
  "well_registered (erase u) = well_registered u" "deaths_first (erase u) = deaths_first u"
proof -
  have "death_case (erase_case c) = death_case c" "case_ok (erase_case c) = case_ok c"
    "case_name (erase_case c) = case_name c" for c
    by (simp_all add: death_case_def case_ok_def erase_case_def)
  then show "well_registered (erase u) = well_registered u" "deaths_first (erase u) = deaths_first u"
    by (simp_all add: well_registered_def deaths_first_def erase_def comp_def)
qed

lemma ready_erase: "current_test_info u = None \<Longrightarrow> ready fl (erase u) = ready fl u"
proof -
  assume "current_test_info u = None"
  moreover have "(\<exists>t \<in> set (test_info_list (erase_case c)). should_run t) = (\<exists>t \<in> set (test_info_list c). should_run t)" for c
    by (auto simp: erase_case_def)
  ultimately show ?thesis
    by (simp add: ready_def erase_simps) (simp add: erase_def)
qed

lemma ready_cong:
  assumes "erase v = erase u" "current_test_info v = None" "ready fl u"
  shows "ready fl v"
proof -
  have "current_test_info u = None" using assms(3) by (simp add: ready_def)
  then show ?thesis using assms ready_erase [of v fl] ready_erase [of u fl] by simp
qed

lemma clear_results:
  "erase (ClearNonAdHocTestResult u) = erase u"
  "any_failed (ClearNonAdHocTestResult u) \<longleftrightarrow> Failed (ad_hoc_test_result u)"
  "current_test_info (ClearNonAdHocTestResult u) = current_test_info u"
  "ad_hoc_test_result (ClearNonAdHocTestResult u) = ad_hoc_test_result u"
proof -
  have "erase_case (case_ClearResult c) = erase_case c" for c
    by (simp add: erase_case_def case_ClearResult_def ClearTestResult_def)
  then show "erase (ClearNonAdHocTestResult u) = erase u"
    by (simp add: erase_def ClearNonAdHocTestResult_def comp_def)
  show "any_failed (ClearNonAdHocTestResult u) \<longleftrightarrow> Failed (ad_hoc_test_result u)"
    by (auto simp: any_failed_def ClearNonAdHocTestResult_def case_ClearResult_def ClearTestResult_def
        Failed_iff Clear_def)
qed (simp_all add: ClearNonAdHocTestResult_def)

lemma shuffle_step_ok:
  assumes "idle fl st"
  shows "\<exists>st'. shuffle_step fl has st = (Returned (), st') \<and> idle fl st' \<and> core (impl st') = core (impl st) \<and>
    (any_failed (impl st') \<longleftrightarrow> any_failed (impl st))"
proof (cases "has \<and> flag_shuffle fl")
  case True
  define u where "u = (impl st)\<lparr> random := Reseed (word_of_int (random_seed (impl st))) (random (impl st)) \<rparr>"
  have r: "ready fl (impl st)" using assms by (simp add: idle_def)
  have u: "test_cases u = test_cases (impl st)" "test_case_indices u = test_case_indices (impl st)"
    "last_death_test_case u = last_death_test_case (impl st)" by (simp_all add: u_def)
  note rc = registry_cong [OF u]
  obtain u' where u': "ShuffleTests u = Some u'" "well_registered u'" "deaths_first u'"
      "map (test_indices_update (\<lambda>_. [])) (test_cases u') = map (test_indices_update (\<lambda>_. [])) (test_cases u)"
      "map test_info_list (test_cases u') = map test_info_list (test_cases u)"
      "ad_hoc_test_result u' = ad_hoc_test_result u" "current_test_info u' = current_test_info u"
      "random_seed u' = random_seed u"
    using shuffle_tests_ok [of u] r rc u by (auto simp: ready_def)
  have len: "length (test_cases u') = length (test_cases (impl st))"
    using u'(4) u(1) by (metis length_map)
  have lists: "test_info_list (test_cases u' ! i) = test_info_list (test_cases (impl st) ! i)"
    "case_should_run (test_cases u' ! i) = case_should_run (test_cases (impl st) ! i)"
    if "i < length (test_cases (impl st))" for i
    using arg_cong [OF u'(4), of "\<lambda>xs. test_info_list (xs ! i)"]
      arg_cong [OF u'(4), of "\<lambda>xs. case_should_run (xs ! i)"] that len u(1) by simp_all
  have "core u' = core (impl st)"
  proof -
    have "map (\<lambda>c. (erase_case (test_indices_update (\<lambda>_. []) c))) (test_cases u') =
        map (\<lambda>c. (erase_case (test_indices_update (\<lambda>_. []) c))) (test_cases u)"
      using arg_cong [OF u'(4), of "map erase_case"] by (simp add: comp_def)
    moreover have "erase_case (test_indices_update (\<lambda>_. []) c) = (erase_case c)\<lparr> test_indices := [] \<rparr>" for c
      by (simp add: erase_case_def)
    ultimately show ?thesis by (simp add: core_def u(1))
  qed
  moreover have "any_failed u' = any_failed (impl st)"
    using lists len u'(6) by (auto simp: any_failed_def u_def)
  moreover have "ready fl u'"
    using r u' len lists unfolding ready_def
    by (auto simp: all_set_conv_all_nth u_def)
  moreover have "shuffle_step fl has st = (Returned (), st\<lparr> impl := u' \<rparr>)"
    using True u'(1) by (simp add: shuffle_step_def u_def Let_def)
  ultimately show ?thesis using assms by (simp add: idle_def)
qed (use assms in \<open>auto simp: shuffle_step_def\<close>)

lemma unshuffle_ready:
  assumes "ready fl u"
  shows "ready fl (UnshuffleTests u) \<and> core (UnshuffleTests u) = core u \<and>
    ad_hoc_test_result (UnshuffleTests u) = ad_hoc_test_result u"
proof -
  let ?u = "UnshuffleTests u"
  have wr: "well_registered u" and len: "length (test_case_indices u) = length (test_cases u)"
    using assms by (simp_all add: ready_def deaths_first_def Let_def)
  have "map (test_indices_update (\<lambda>_. [])) (test_cases ?u) = map (test_indices_update (\<lambda>_. [])) (test_cases u)"
    "last_death_test_case ?u = last_death_test_case u" "\<forall>c \<in> set (test_cases ?u). case_ok c"
    using wr case_ok_length
    by (auto simp: UnshuffleTests_def case_UnshuffleTests_def well_registered_def case_ok_def comp_def)
  from well_registered_cong(1) [OF this wr] have wr': "well_registered ?u" .
  have "in_registration_order ?u"
    using wr len case_ok_length
    by (auto simp: in_registration_order_def UnshuffleTests_def case_UnshuffleTests_def well_registered_def)
  then have "deaths_first ?u" by (rule registration_order_deaths_first [OF wr'])
  moreover have "core ?u = core u"
    by (simp add: core_def UnshuffleTests_def case_UnshuffleTests_def erase_case_def comp_def)
  ultimately show ?thesis
    using assms wr' by (auto simp: ready_def UnshuffleTests_def case_UnshuffleTests_def)
qed

lemma bind_Returned: "f st = (Returned x, st') \<Longrightarrow> bind_prog f g st = g x st'"
  by (simp add: bind_prog_def)

lemma bind_same: "f st = f' st' \<Longrightarrow> bind_prog f g st = bind_prog f' g st'"
  by (simp add: bind_prog_def)

lemma run_iteration_ok:
  assumes fl: "flags_ok fl" and st: "idle fl st"
  shows "case run_iteration fl uc has i st of
      (Returned f, st') \<Rightarrow> idle fl st' \<and> core (impl st') = core (impl st) \<and>
        (f \<longleftrightarrow> Failed (ad_hoc_test_result (impl st)) \<or> \<not> (has \<longrightarrow> run_clean fl (impl st) uc)) \<and>
        (\<not> f \<longrightarrow> \<not> Failed (ad_hoc_test_result (impl st')))
    | _ \<Rightarrow> \<not> (has \<longrightarrow> run_clean fl (impl st) uc)"
proof -
  define C where "C = (has \<longrightarrow> run_clean fl (impl st) uc)"
  define st1 where "st1 = st\<lparr> impl := ClearNonAdHocTestResult (impl st), clock_reads := clock_reads st + 1 \<rparr>"
  have st1: "idle fl st1" "core (impl st1) = core (impl st)"
    "any_failed (impl st1) \<longleftrightarrow> Failed (ad_hoc_test_result (impl st))"
    using st ready_cong [OF clear_results(1), of "impl st" fl] clear_results [of "impl st"]
      core_erase [of "ClearNonAdHocTestResult (impl st)"] core_erase [of "impl st"]
    by (simp_all add: st1_def idle_def ready_def)
  obtain st2 where st2: "shuffle_step fl has st1 = (Returned (), st2)" "idle fl st2"
      "core (impl st2) = core (impl st)" "any_failed (impl st2) \<longleftrightarrow> Failed (ad_hoc_test_result (impl st))"
    using shuffle_step_ok [OF st1(1), of has] st1 by auto
  define s where "s = erase (impl st2)"
  have inv: "inv s None st2" and wr: "well_registered s" and df: "deaths_first s"
    and cl: "run_clean fl s uc = run_clean fl (impl st) uc"
    using st2 run_clean_core [of s "impl st" fl uc] by (simp_all add: inv_def s_def idle_def ready_def current_ok_def)
  let ?rest = "in_order
         [notify (OnTestIterationStart i),
          if has then run_environments fl uc else give (),
          bind_prog (GetTimeInMillis fl) (\<lambda>now. update (\<lambda>st. st\<lparr> elapsed_time := now - clock fl (clock_reads st) \<rparr>)),
          notify (OnTestIterationEnd i)]"
  have env: "good s None (if has then run_environments fl uc else give ()) C None"
    unfolding C_def cl [symmetric] using good_run_environments [OF fl wr df] by simp
  have el: "good s None (bind_prog (GetTimeInMillis fl) (\<lambda>now. update (\<lambda>st. st\<lparr> elapsed_time := now - t \<rparr>))) (True \<and> True) None" for t
    by (rule good_bind [OF good_time good_update]) (simp add: inv_def)
  have rest: "good s None (in_order
         [notify (OnTestIterationStart i), if has then run_environments fl uc else give (),
          bind_prog (GetTimeInMillis fl) (\<lambda>now. update (\<lambda>st. st\<lparr> elapsed_time := now - t \<rparr>)),
          notify (OnTestIterationEnd i)]) C None" for t
    by (rule triple_conseq, rule good_Cons [OF good_notify], rule good_Cons [OF env],
        rule good_Cons [OF el], rule good_Cons [OF good_notify good_Nil]) simp
  obtain e st3 where r: "in_order
         [notify (OnTestIterationStart i), if has then run_environments fl uc else give (),
          bind_prog (GetTimeInMillis fl) (\<lambda>now. update (\<lambda>s. s\<lparr> elapsed_time := now - clock fl (clock_reads st) \<rparr>)),
          notify (OnTestIterationEnd i)] st2 = (e, st3)" by fastforce
  have prefix: "run_iteration fl uc has i st =
      andThen (\<lambda>_. (e, st3))
       (bind_prog (\<lambda>st. give (\<not> unit_Passed (impl st)) st) (\<lambda>failed.
         andThen (on_impl UnshuffleTests) (andThen (next_seed_step fl) (give failed)))) st"
  proof -
    have 1: "on_impl ClearNonAdHocTestResult st = (Returned (), st\<lparr> impl := ClearNonAdHocTestResult (impl st) \<rparr>)"
      by (simp add: on_impl_def update_def)
    have 2: "GetTimeInMillis fl (st\<lparr> impl := ClearNonAdHocTestResult (impl st) \<rparr>) =
        (Returned (clock fl (clock_reads st)), st1)"
      by (simp add: GetTimeInMillis_def st1_def)
    show ?thesis
      unfolding run_iteration_def bind_Returned [of "on_impl ClearNonAdHocTestResult" st, OF 1]
        bind_Returned [of "GetTimeInMillis fl", OF 2]
      by (rule bind_same) (simp only: in_order.simps(2) [of "shuffle_step fl has"] bind_Returned [of "shuffle_step fl has", OF st2(1)] r)
  qed
  show ?thesis
  proof (cases e)
    case (Returned x)
    have 3: "inv s None st3" "any_failed (impl st3) \<longleftrightarrow> Failed (ad_hoc_test_result (impl st)) \<or> \<not> C"
      using rest [of "clock fl (clock_reads st)"] inv r Returned st2(4) by (auto simp: triple_def)
    have ready3: "ready fl (impl st3)"
      using 3(1) st2(2) ready_cong [of "impl st3" "impl st2" fl] by (simp add: inv_def s_def idle_def)
    then have passed: "unit_Passed (impl st3) \<longleftrightarrow> \<not> any_failed (impl st3)"
      by (intro unit_Passed_iff) (simp add: ready_def)
    have core3: "core (impl st3) = core (impl st)"
      using 3(1) st2(3) core_erase [of "impl st3"] core_erase [of "impl st2"] by (simp add: inv_def s_def)
    define u4 where "u4 = UnshuffleTests (impl st3)"
    have u4: "ready fl u4" "core u4 = core (impl st)" "ad_hoc_test_result u4 = ad_hoc_test_result (impl st3)"
      using unshuffle_ready [OF ready3] core3 by (simp_all add: u4_def)
    have "\<exists>seed. next_seed_step fl (st3\<lparr> impl := u4 \<rparr>) = (Returned (), st3\<lparr> impl := u4\<lparr> random_seed := seed \<rparr> \<rparr>) \<and>
        ready fl (u4\<lparr> random_seed := seed \<rparr>)"
    proof (cases "flag_shuffle fl")
      case True
      with u4(1) have "GetNextRandomSeed (random_seed u4) = Some (random_seed u4 mod kMaxRandomSeed + 1)"
        by (intro next_seed_cycles) (simp_all add: ready_def)
      moreover have "1 \<le> n mod kMaxRandomSeed + 1" "n mod kMaxRandomSeed + 1 \<le> kMaxRandomSeed" for n
        using pos_mod_bound [of kMaxRandomSeed n] pos_mod_sign [of kMaxRandomSeed n]
        unfolding kMaxRandomSeed_def by linarith+
      ultimately show ?thesis
        using True u4(1)
        by (intro exI [of _ "random_seed u4 mod kMaxRandomSeed + 1"])
          (simp add: next_seed_step_def ready_def well_registered_def deaths_first_def)
    next
      case False
      then show ?thesis
        using u4(1) by (intro exI [of _ "random_seed u4"]) (simp add: next_seed_step_def)
    qed
    then obtain seed where seed: "next_seed_step fl (st3\<lparr> impl := u4 \<rparr>) =
        (Returned (), st3\<lparr> impl := u4\<lparr> random_seed := seed \<rparr> \<rparr>)" "ready fl (u4\<lparr> random_seed := seed \<rparr>)" by blast
    have "run_iteration fl uc has i st =
        (Returned (any_failed (impl st3)), st3\<lparr> impl := u4\<lparr> random_seed := seed \<rparr> \<rparr>)"
      unfolding prefix
      using seed(1) passed Returned
      by (simp add: bind_prog_def on_impl_def update_def give_def u4_def [symmetric])
    then show ?thesis
      using 3 u4 seed(2) by (auto simp: C_def idle_def inv_def core_def any_failed_def)
  qed (use rest [of "clock fl (clock_reads st)"] inv r in \<open>auto simp: triple_def prefix bind_prog_def C_def\<close>)
qed

section \<open>The loop over the iterations\<close>

lemma run_loop_verdict:
  assumes fl: "flags_ok fl"
  shows "\<lbrakk>idle fl st; i \<le> repeat; 0 \<le> i\<rbrakk> \<Longrightarrow>
    \<exists>r st'. run_loop fl uc has repeat i failed st = Some (r, st') \<and>
      (r = Returned False \<longleftrightarrow> \<not> failed \<and> (i < repeat \<longrightarrow> \<not> Failed (ad_hoc_test_result (impl st))) \<and>
        (\<forall>k. i \<le> k \<and> k < repeat \<longrightarrow> has \<longrightarrow> run_clean fl (impl st) (uc k)))"
proof (induction "nat (repeat - i)" arbitrary: i st failed)
  case 0
  then show ?case by (subst run_loop.simps) auto
next
  case (Suc m)
  then have lt: "i < repeat" by simp
  let ?all = "\<lambda>i st. \<forall>k. i \<le> k \<and> k < repeat \<longrightarrow> has \<longrightarrow> run_clean fl (impl st) (uc k)"
  obtain e st1 where it: "run_iteration fl (uc i) has i st = (e, st1)" by fastforce
  note ok = run_iteration_ok [OF fl Suc.prems(1), of has "uc i" i, unfolded it]
  have step: "run_loop fl uc has repeat i failed st =
      (case (e, st1) of
        (Returned f, st1) \<Rightarrow> run_loop fl uc has repeat (i + 1) (if f then True else failed) st1
      | (Thrown x, st1) \<Rightarrow> Some (Thrown x, st1)
      | (Aborted, st1) \<Rightarrow> Some (Aborted, st1))"
    using lt Suc.prems(3) by (subst run_loop.simps) (simp add: it Let_def)
  show ?case
  proof (cases e)
    case (Returned f)
    have 1: "idle fl st1" "core (impl st1) = core (impl st)"
      "f \<longleftrightarrow> Failed (ad_hoc_test_result (impl st)) \<or> \<not> (has \<longrightarrow> run_clean fl (impl st) (uc i))"
      "\<not> f \<longrightarrow> \<not> Failed (ad_hoc_test_result (impl st1))"
      using ok Returned by simp_all
    have same: "run_clean fl (impl st1) (uc k) = run_clean fl (impl st) (uc k)" for k
      by (rule run_clean_core [OF 1(2)])
    have split: "?all i st \<longleftrightarrow> (has \<longrightarrow> run_clean fl (impl st) (uc i)) \<and> ?all (i + 1) st"
      using lt by (auto simp: order_le_less) (metis add1_zle_eq order_le_less)
    have m: "m = nat (repeat - (i + 1))" "i + 1 \<le> repeat" "0 \<le> i + 1"
      using Suc.hyps(2) lt Suc.prems(3) by linarith+
    from Suc.hyps(1) [OF m(1) 1(1) m(2,3), of "if f then True else failed"]
    obtain r st' where "run_loop fl uc has repeat (i + 1) (if f then True else failed) st1 = Some (r, st')"
      "r = Returned False \<longleftrightarrow> \<not> (if f then True else failed) \<and>
        (i + 1 < repeat \<longrightarrow> \<not> Failed (ad_hoc_test_result (impl st1))) \<and> ?all (i + 1) st1"
      by (elim exE conjE)
    then show ?thesis
      using step Returned 1(3,4) same split lt by auto
  qed (use ok step lt in \<open>auto\<close>)
qed

lemma begin_run_idle:
  assumes "thread_reporter st = Default_reporter" "gtest_trace_stack st = []" "current_test_info (impl st) = None"
    "well_registered (impl st)" "deaths_first (impl st)" "length (test_cases (impl st)) < 2 ^ 31"
    "\<forall>c \<in> set (test_cases (impl st)). length (test_info_list c) < 2 ^ 31"
    "\<forall>c \<in> set (test_cases (impl st)). case_should_run c \<longleftrightarrow> (\<exists>t \<in> set (test_info_list c). should_run t)"
  shows "idle fl (snd (begin_run fl st)) \<and> core (impl (snd (begin_run fl st))) = core (impl st) \<and>
    ad_hoc_test_result (impl (snd (begin_run fl st))) = ad_hoc_test_result (impl st)"
proof -
  have "\<exists>seed n t ev. snd (begin_run fl st) =
      st\<lparr> impl := (impl st)\<lparr> random_seed := seed \<rparr>, clock_reads := n, start_timestamp := t, notified := ev \<rparr> \<and>
      (flag_shuffle fl \<longrightarrow> 1 \<le> seed \<and> seed \<le> kMaxRandomSeed)"
  proof (cases "flag_shuffle fl")
    case True
    then show ?thesis
      using seed_flag_valid
      by (cases "flag_random_seed fl = 0")
        (auto simp: begin_run_def bind_prog_def GetTimeInMillis_def on_impl_def update_def notify_def)
  next
    case False
    then show ?thesis
      by (auto simp: begin_run_def bind_prog_def GetTimeInMillis_def on_impl_def update_def notify_def)
  qed
  then obtain seed n t ev where "snd (begin_run fl st) =
      st\<lparr> impl := (impl st)\<lparr> random_seed := seed \<rparr>, clock_reads := n, start_timestamp := t, notified := ev \<rparr>"
      "flag_shuffle fl \<longrightarrow> 1 \<le> seed \<and> seed \<le> kMaxRandomSeed" by blast
  then show ?thesis
    using assms by (simp add: idle_def ready_def well_registered_def deaths_first_def core_def)
qed

lemma RunAllTests_verdict:
  assumes "flags_ok fl" "gtest_is_initialized cx" "\<not> g_help_flag cx" "\<not> flag_list_tests fl"
    and "\<not> in_subprocess_for_death_test cx" "0 \<le> flag_repeat fl"
    and "WriteToShardStatusFileIfNeeded cx = Inr ()"
    and "ShouldShard (getenv cx) kTestTotalShards kTestShardIndex False = Inr sharded"
    and "FilterTests (getenv cx) (flag_filter fl) (flag_also_run_disabled_tests fl) sharded
      (impl (PostFlagParsingInit cx st)) = Inr (u, n)"
    and "registered p getcwd (impl (PostFlagParsingInit cx st)) ts" "length ts < 2 ^ 31"
    and "thread_reporter st = Default_reporter" "gtest_trace_stack st = []"
  shows "\<exists>r st'. RunAllTests fl cx uc st = Some (Inr (r, st')) \<and>
    (r = Returned True \<longleftrightarrow> (\<forall>k. 0 \<le> k \<and> k < flag_repeat fl \<longrightarrow>
       \<not> Failed (ad_hoc_test_result u) \<and> (0 < n \<longrightarrow> run_clean fl u (uc k))))"
proof -
  define st2 where "st2 = (PostFlagParsingInit cx st)\<lparr> impl := u \<rparr>"
  note fr = filtered_registry [OF assms(10,9,11)]
  have cur: "current_test_info u = None"
    using registered_idle [OF assms(10)] filter_keeps_current [OF assms(9)] by simp
  have frame: "thread_reporter st2 = Default_reporter" "gtest_trace_stack st2 = []" "impl st2 = u"
    using assms(12,13) by (simp_all add: st2_def PostFlagParsingInit_def RegisterParameterizedTests_def split_def Let_def)
  let ?st3 = "snd (begin_run fl st2)"
  have b: "idle fl ?st3" "core (impl ?st3) = core u" "ad_hoc_test_result (impl ?st3) = ad_hoc_test_result u"
    using begin_run_idle [of st2 fl] frame cur fr by simp_all
  from run_loop_verdict [OF assms(1) b(1), of 0 "flag_repeat fl" uc "0 < n" False] assms(6)
  obtain r st4 where loop: "run_loop fl uc (0 < n) (flag_repeat fl) 0 False ?st3 = Some (r, st4)"
      "r = Returned False \<longleftrightarrow> (0 < flag_repeat fl \<longrightarrow> \<not> Failed (ad_hoc_test_result u)) \<and>
        (\<forall>k. 0 \<le> k \<and> k < flag_repeat fl \<longrightarrow> 0 < n \<longrightarrow> run_clean fl (impl ?st3) (uc k))"
    using b(3) by auto
  have run: "RunAllTests fl cx uc st = (case Some (r, st4) of
        None \<Rightarrow> None
      | Some (Returned failed, st3) \<Rightarrow> Some (Inr (andThen (notify OnTestProgramEnd) (give (\<not> failed)) st3))
      | Some (Thrown x, st3) \<Rightarrow> Some (Inr (Thrown x, st3))
      | Some (Aborted, st3) \<Rightarrow> Some (Inr (Aborted, st3)))"
    unfolding RunAllTests_def
    using assms(2-5,7-9) loop(1) by (simp add: Let_def st2_def [symmetric])
  have clean: "r = Returned False \<longleftrightarrow> (\<forall>k. 0 \<le> k \<and> k < flag_repeat fl \<longrightarrow>
       \<not> Failed (ad_hoc_test_result u) \<and> (0 < n \<longrightarrow> run_clean fl u (uc k)))"
    using loop(2) run_clean_core [OF b(2)] by auto
  show ?thesis
  proof (cases r)
    case (Returned f)
    then show ?thesis
      using run clean
      by (cases "notify OnTestProgramEnd st4") (auto simp: bind_prog_def give_def notify_def update_def)
  qed (use run clean in \<open>auto\<close>)
qed

section \<open>A sample run\<close>

definition sample_flags :: "int \<Rightarrow> run_flags" where
  "sample_flags repeat = \<lparr> catch_exceptions = True, break_on_failure = False, throw_on_failure = False,
     flag_shuffle = False, flag_list_tests = False, flag_also_run_disabled_tests = False,
     flag_filter = ''*'', flag_repeat = repeat, flag_random_seed = 0, is_msc = False, gtest_cc = ''gtest.cc'',
     test_type_id = 0, clock = (\<lambda>_. 0) \<rparr>"

definition sample_context :: run_context where
  "sample_context = \<lparr> gtest_is_initialized = True, g_help_flag = False, in_subprocess_for_death_test = False,
     getenv = (\<lambda>_. None), can_write = (\<lambda>_. True), output_format = [], xml_printer = 0,
     stream_result_to = [], streamer = 0, register_parameterized = (\<lambda>u. u) \<rparr>"

definition sample_run_state :: run_state where
  "sample_run_state = \<lparr> impl = sample_state 3, thread_reporter = Default_reporter, gtest_trace_stack = [],
     listeners = listeners_Append 7 new_TestEventListeners, notified = [], clock_reads = 0,
     start_timestamp = 0, elapsed_time = 0, printed = [], post_flag_parse_init_performed = True,
     parameterized_tests_registered = True \<rparr>"

definition sample_user_code :: "stmt list \<Rightarrow> stmt list \<Rightarrow> user_code" where
  "sample_user_code tear_down_case body =
     \<lparr> environments = [], SetUpTestCase = (\<lambda>_. []), TearDownTestCase = (\<lambda>_. tear_down_case),
       code_of_test = (\<lambda>_ _. \<lparr> fixture_constructor = [], fixture_set_up = [], test_body = body,
         fixture_tear_down = [], fixture_destructor = [] \<rparr>) \<rparr>"

text \<open>
  A fatal failure outside the tests, here when a test case is torn down, stays in the ad hoc result:
  later iterations run no test at all, although no environment failed.
\<close>

definition tests_started :: "run_state \<Rightarrow> nat" where
  "tests_started st = length (filter (\<lambda>(l, e). case e of OnTestStart i j \<Rightarrow> True | _ \<Rightarrow> False) (notified st))"

lemma fatal_tear_down_skips_later_iterations:
  "let fl = sample_flags 2;
       st = sample_run_state\<lparr> impl := fst (projr (FilterTests (\<lambda>_. None) ''*'' False False (sample_state 3))) \<rparr>;
       uc = sample_user_code [Assert kFatalFailure (Some ''f.cc'') 1 ''Failed''] [];
       st1 = snd (run_iteration fl uc True 0 st);
       st2 = snd (run_iteration fl uc True 1 st1) in
   tests_started st1 = 3 \<and> tests_started st2 = 3"
  by code_simp

section \<open>Properties\<close>

text \<open>C8: The reporters and the scoped objects implement the account \<open>delivers\<close> of a block of user code: a
  block ends as the account says, its results reach the reporter around it in that order, however
  \<open>SCOPED_TRACE\<close>, \<open>EXPECT_NO_FATAL_FAILURE\<close> and \<open>EXPECT_FATAL_FAILURE\<close> nest and exceptions pass through
  them, and the trace stack is restored.\<close>

theorem reporters_refine_delivery:
  "let (ps, e) = delivers fl (gtest_trace_stack st) b; (e', st') = exec_block fl b st in
   e' = e \<and> st' = fold ReportTestPartResult ps st \<and> gtest_trace_stack st' = gtest_trace_stack st"
  by (simp add: exec_delivers split_def Let_def)

text \<open>C1: With exceptions caught and no flag that stops at a failure, \<open>RUN_ALL_TESTS()\<close> comes back for every
  non-negative repeat count, and its exit status is 0 exactly when nothing had failed before it and in
  every iteration each environment, each \<open>SetUpTestCase\<close> and \<open>TearDownTestCase\<close> of a selected test case
  and each selected test (constructor, \<open>SetUp\<close>, body, \<open>TearDown\<close>, destructor, one fixture class per test
  case) reports no failure and throws nothing: no failure is lost, and none is invented.\<close>

theorem run_all_tests_verdict:
  assumes "flags_ok fl" "gtest_is_initialized cx" "\<not> g_help_flag cx" "\<not> flag_list_tests fl"
    and "\<not> in_subprocess_for_death_test cx" "0 \<le> flag_repeat fl"
    and "WriteToShardStatusFileIfNeeded cx = Inr ()"
    and "ShouldShard (getenv cx) kTestTotalShards kTestShardIndex False = Inr sharded"
    and "FilterTests (getenv cx) (flag_filter fl) (flag_also_run_disabled_tests fl) sharded
      (impl (PostFlagParsingInit cx st)) = Inr (u, n)"
    and "registered p getcwd (impl (PostFlagParsingInit cx st)) ts" "length ts < 2 ^ 31"
    and "thread_reporter st = Default_reporter" "gtest_trace_stack st = []"
  shows "\<exists>r st'. UnitTest_Run fl cx uc st = Some (Inr (r, st')) \<and>
    (r = Returned 0 \<longleftrightarrow> (\<forall>k. 0 \<le> k \<and> k < flag_repeat fl \<longrightarrow>
       Passed (ad_hoc_test_result u) \<and> (0 < n \<longrightarrow> run_clean fl u (uc k))))"
proof -
  from RunAllTests_verdict [OF assms, of uc] obtain r st' where r: "RunAllTests fl cx uc st = Some (Inr (r, st'))"
    "r = Returned True \<longleftrightarrow> (\<forall>k. 0 \<le> k \<and> k < flag_repeat fl \<longrightarrow>
       \<not> Failed (ad_hoc_test_result u) \<and> (0 < n \<longrightarrow> run_clean fl u (uc k)))" by blast
  obtain r2 st2 where h: "HandleExceptionsInMethodIfSupported fl False (\<lambda>_. (r, st'))
      ''auxiliary test code (environments or event listeners)'' st = (r2, st2)" by fastforce
  have "r2 = Returned True \<longleftrightarrow> r = Returned True"
  proof (cases r)
    case (Thrown x)
    then show ?thesis
      using h assms(1)
      by (cases x) (auto simp: HandleExceptionsInMethodIfSupported_def flags_ok_def bind_prog_def give_def
          split: prod.splits outcome.splits)
  qed (use h in \<open>auto simp: HandleExceptionsInMethodIfSupported_def split: if_splits\<close>)
  then show ?thesis
    using r by (cases r2) (auto simp: UnitTest_Run_def h bind_prog_def give_def Passed_def)
qed

theorem run_all_tests_verdict_witness:
  "\<exists>u n st' r2 st2. FilterTests (\<lambda>_. None) ''*'' False False (sample_state 3) = Inr (u, n) \<and>
     UnitTest_Run (sample_flags 2) sample_context (\<lambda>_. sample_user_code [] []) sample_run_state =
       Some (Inr (Returned 0, st')) \<and>
     UnitTest_Run (sample_flags 2) sample_context
       (\<lambda>k. sample_user_code [] (if k = 0 then [] else [Throw Other_exception])) sample_run_state =
       Some (Inr (r2, st2)) \<and> r2 \<noteq> Returned 0"
proof -
  let ?F = "FilterTests (\<lambda>_. None) ''*'' False False (sample_state 3)"
  have f: "?F = Inr (fst (projr ?F), snd (projr ?F)) \<and> Passed (ad_hoc_test_result (fst (projr ?F))) \<and>
      snd (projr ?F) = 3 \<and> length (test_cases (fst (projr ?F))) = 2 \<and>
      map (\<lambda>c. length (test_info_list c)) (test_cases (fst (projr ?F))) = [1, 2] \<and>
      list_all (\<lambda>c. list_all (\<lambda>t. should_run t \<and> fixture_class_id t = 0) (test_info_list c) \<and> case_should_run c)
        (test_cases (fst (projr ?F)))"
    by code_simp
  define u where "u = fst (projr ?F)"
  have F: "?F = Inr (fst (projr ?F), snd (projr ?F))" and n: "snd (projr ?F) = 3"
    using f by blast+
  have u1: "?F = Inr (u, 3)" using F by (simp only: n u_def)
  have u: "Passed (ad_hoc_test_result u)" "length (test_cases u) = 2"
      "map (\<lambda>c. length (test_info_list c)) (test_cases u) = [1, 2]"
      "list_all (\<lambda>c. list_all (\<lambda>t. should_run t \<and> fixture_class_id t = 0) (test_info_list c) \<and> case_should_run c)
        (test_cases u)"
    unfolding u_def using f by blast+
  have st: "PostFlagParsingInit sample_context sample_run_state = sample_run_state"
    by (simp add: PostFlagParsingInit_def sample_run_state_def)
  have sh: "ShouldShard (\<lambda>_. None) kTestTotalShards kTestShardIndex False = Inr False" by code_simp
  have v: "\<exists>r st'. UnitTest_Run (sample_flags 2) sample_context uc sample_run_state = Some (Inr (r, st')) \<and>
      (r = Returned 0 \<longleftrightarrow> (\<forall>k. 0 \<le> k \<and> k < 2 \<longrightarrow> Passed (ad_hoc_test_result u) \<and>
        (0 < (3::int) \<longrightarrow> run_clean (sample_flags 2) u (uc k))))" for uc
    using run_all_tests_verdict [of "sample_flags 2" sample_context False sample_run_state u 3 Posix
        "Some ''/tmp''" sample_tests uc] u1 sample_registered sh
    by (simp add: st) (simp add: sample_flags_def sample_context_def sample_run_state_def flags_ok_def
        WriteToShardStatusFileIfNeeded_def sample_tests_def)
  have fixt: "fixture_class_id (test_at u i j) = 0 \<and> should_run (test_at u i j) \<and> case_should_run (test_cases u ! i)"
    if "i < length (test_cases u)" "j < length (test_info_list (test_cases u ! i))" for i j
    using u(4) that by (simp add: list_all_length)
  have "same_fixture u i j" if "i < length (test_cases u)" "j < length (test_info_list (test_cases u ! i))" for i j
  proof -
    have "0 < length (test_info_list (test_cases u ! i))" using that(2) by linarith
    from fixt [OF that] fixt [OF that(1) this] show ?thesis by (simp add: same_fixture_def)
  qed
  then have c: "run_clean (sample_flags 2) u (sample_user_code [] [])"
    by (auto simp: run_clean_def case_clean_def test_clean_def sample_user_code_def clean_def)
  have len: "length (test_info_list (test_cases u ! 0)) = 1" using u(2,3) by (cases "test_cases u") auto
  have n: "\<not> run_clean (sample_flags 2) u (sample_user_code [] [Throw Other_exception])"
  proof
    assume "run_clean (sample_flags 2) u (sample_user_code [] [Throw Other_exception])"
    then have "\<forall>i < length (test_cases u). case_clean (sample_flags 2) u (sample_user_code [] [Throw Other_exception]) i"
      by (simp add: run_clean_def)
    then have "case_clean (sample_flags 2) u (sample_user_code [] [Throw Other_exception]) 0" using u(2) by simp
    then have "test_clean (sample_flags 2) u (sample_user_code [] [Throw Other_exception]) 0 0"
      using fixt [of 0 0] len u(2) by (simp add: case_clean_def)
    then show False by (simp add: test_clean_def sample_user_code_def clean_def)
  qed
  from v [of "\<lambda>_. sample_user_code [] []"] c u(1) obtain st' where
    1: "UnitTest_Run (sample_flags 2) sample_context (\<lambda>_. sample_user_code [] []) sample_run_state =
      Some (Inr (Returned 0, st'))" by auto
  from v [of "\<lambda>k. sample_user_code [] (if k = 0 then [] else [Throw Other_exception])"]
  obtain r2 st2 where 2: "UnitTest_Run (sample_flags 2) sample_context
       (\<lambda>k. sample_user_code [] (if k = 0 then [] else [Throw Other_exception])) sample_run_state =
       Some (Inr (r2, st2))"
    and r2: "r2 = Returned 0 \<longleftrightarrow> (\<forall>k::int. 0 \<le> k \<and> k < 2 \<longrightarrow> Passed (ad_hoc_test_result u) \<and>
        (0 < (3::int) \<longrightarrow> run_clean (sample_flags 2) u
          (sample_user_code [] (if k = 0 then [] else [Throw Other_exception]))))"
    by (elim exE conjE)
  have "r2 \<noteq> Returned 0"
  proof
    assume "r2 = Returned 0"
    with r2 have "\<forall>k::int. 0 \<le> k \<and> k < 2 \<longrightarrow> run_clean (sample_flags 2) u
        (sample_user_code [] (if k = 0 then [] else [Throw Other_exception]))" by simp
    from spec [OF this, of 1] n show False by simp
  qed
  with u1 1 2 show ?thesis by (intro exI conjI)
qed

text \<open>With a negative repeat count the program repeats its tests for ever: as long as the code of the
  user lets every iteration come to its end, the loop never returns.\<close>

lemma negative_repeat_never_returns:
  assumes "flags_ok fl" "idle fl st" "\<And>k. run_clean fl (impl st) (uc k)" "repeat < 0"
  shows "run_loop fl uc has repeat i failed st = None"
proof (rule ccontr)
  assume "run_loop fl uc has repeat i failed st \<noteq> None"
  then obtain y where y: "run_loop fl uc has repeat i failed st = Some y" by blast
  let ?P = "\<lambda>fl uc has repeat i failed st y.
      flags_ok fl \<and> idle fl st \<and> (\<forall>k. run_clean fl (impl st) (uc k)) \<and> repeat < 0 \<longrightarrow> False"
  have "?P fl uc has repeat i failed st y"
  proof (rule run_loop.raw_induct [of ?P, OF _ y])
    fix run fl uc has repeat i failed st y
    assume ih: "\<And>fl uc has repeat i failed st y. run fl uc has repeat i failed st = Some y \<Longrightarrow> ?P fl uc has repeat i failed st y"
      and run: "(let forever = repeat < 0 in
        if \<not> (forever \<or> i \<noteq> repeat) then Some (Returned failed, st)
        else case run_iteration fl (uc i) has i st of
          (Returned f, st1) \<Rightarrow> run fl uc has repeat (i + 1) (if f then True else failed) st1
        | (Thrown x, st1) \<Rightarrow> Some (Thrown x, st1)
        | (Aborted, st1) \<Rightarrow> Some (Aborted, st1)) = Some y"
    show "?P fl uc has repeat i failed st y"
    proof
      assume a: "flags_ok fl \<and> idle fl st \<and> (\<forall>k. run_clean fl (impl st) (uc k)) \<and> repeat < 0"
      obtain e st1 where it: "run_iteration fl (uc i) has i st = (e, st1)" by fastforce
      note ok = run_iteration_ok [of fl st has "uc i" i, unfolded it]
      then obtain f where e: "e = Returned f" "idle fl st1" "core (impl st1) = core (impl st)"
        using a by (cases e) auto
      have "run fl uc has repeat (i + 1) (if f then True else failed) st1 = Some y"
        using run a by (simp add: it e Let_def)
      moreover have "run_clean fl (impl st1) (uc k)" for k
        using a run_clean_core [OF e(3)] by simp
      ultimately show False using ih a e(2) by blast
    qed
  qed
  then show False using assms by blast
qed

lemma negative_repeat_never_returns_witness:
  "run_loop (sample_flags (-1)) (\<lambda>_. sample_user_code [] []) False (-1) 0 False sample_run_state = None"
proof -
  have inv: "well_registered (sample_state 3)" "deaths_first (sample_state 3)"
    using registered_invariant [OF sample_registered] registration_order_deaths_first by blast+
  have c: "list_all (\<lambda>c. \<not> case_should_run c \<and> length (test_info_list c) < 2 ^ 31 \<and>
      list_all (\<lambda>t. \<not> should_run t) (test_info_list c)) (test_cases (sample_state 3))"
    "length (test_cases (sample_state 3)) < 2 ^ 31"
    by code_simp+
  have "idle (sample_flags (-1)) sample_run_state"
    using inv c registered_idle [OF sample_registered]
    by (auto simp: idle_def ready_def sample_run_state_def sample_flags_def list_all_iff)
  moreover have "run_clean (sample_flags (-1)) (impl sample_run_state) (sample_user_code [] [])"
    using c(1)
    by (auto simp: run_clean_def case_clean_def sample_run_state_def sample_user_code_def list_all_length)
  ultimately show ?thesis
    by (intro negative_repeat_never_returns) (simp_all add: flags_ok_def sample_flags_def)
qed

end
