(* ===== verification/Double_Arith.thy ===== *)
theory Double_Arith
  imports Binary64
begin

text \<open>
  The operators of C++ on \<open>double\<close> that googletest uses: addition and subtraction, rounded once to the
  nearest double, the comparisons, and \<open>fabs\<close>. The value of a finite double, in units of the least
  positive one, is an integer, which the comparisons compare.
\<close>

fun signed_mag :: "bool \<Rightarrow> nat \<Rightarrow> int \<Rightarrow> int" where
  "signed_mag s m e = (if s then - int (mag_num m e) else int (mag_num m e))"

fun double_add :: "double \<Rightarrow> double \<Rightarrow> double" where
  "double_add (Fin s m e) (Fin s' m' e') =
     (if m = 0 \<and> m' = 0 then Fin (s \<and> s') 0 (- 1074)
      else if m = 0 then Fin s' m' e'
      else if m' = 0 then Fin s m e
      else
        let n = signed_mag s m e * int (mag_den e') + signed_mag s' m' e' * int (mag_den e) in
        double_of_ratio (n < 0) (nat \<bar>n\<bar>) (mag_den e * mag_den e'))"
| "double_add (Infinite s) (Infinite s') = (if s = s' then Infinite s else Not_a_number)"
| "double_add (Infinite s) (Fin _ _ _) = Infinite s"
| "double_add (Fin _ _ _) (Infinite s) = Infinite s"
| "double_add _ _ = Not_a_number"

fun double_less :: "double \<Rightarrow> double \<Rightarrow> bool" where
  "double_less (Fin s m e) (Fin s' m' e') \<longleftrightarrow>
     (if m = 0 then m' \<noteq> 0 \<and> \<not> s'
      else if m' = 0 then s
      else signed_mag s m e * int (mag_den e') < signed_mag s' m' e' * int (mag_den e))"
| "double_less (Infinite s) (Infinite s') \<longleftrightarrow> s \<and> \<not> s'"
| "double_less (Infinite s) (Fin _ _ _) \<longleftrightarrow> s"
| "double_less (Fin _ _ _) (Infinite s) \<longleftrightarrow> \<not> s"
| "double_less _ _ \<longleftrightarrow> False"

fun double_neg :: "double \<Rightarrow> double" where
  "double_neg (Fin s m e) = Fin (\<not> s) m e"
| "double_neg (Infinite s) = Infinite (\<not> s)"
| "double_neg Not_a_number = Not_a_number"

definition double_sub :: "double \<Rightarrow> double \<Rightarrow> double" where
  "double_sub x y = double_add x (double_neg y)"

fun fabs :: "double \<Rightarrow> double" where
  "fabs (Fin s m e) = Fin False m e"
| "fabs (Infinite s) = Infinite False"
| "fabs Not_a_number = Not_a_number"

definition double_le :: "double \<Rightarrow> double \<Rightarrow> bool" where
  "double_le x y \<longleftrightarrow> double_less x y \<or> double_eq x y"

section \<open>The order is the order of the values\<close>

text \<open>The value of a finite double times \<open>2 ^ 1074\<close>.\<close>

definition units :: "nat \<Rightarrow> int \<Rightarrow> nat" where
  "units m e = m * 2 ^ nat (e + 1074)"

definition signed_units :: "bool \<Rightarrow> nat \<Rightarrow> int \<Rightarrow> int" where
  "signed_units s m e = (if s then - int (units m e) else int (units m e))"

lemma units_mag:
  assumes "- 1074 \<le> e"
  shows "mag_num m e * 2 ^ 1074 = units m e * mag_den e"
proof (cases "0 \<le> e")
  case True
  then have "nat (e + 1074) = nat e + 1074" by simp
  then show ?thesis using True by (simp add: units_def mag_num_def mag_den_def power_add)
next
  case False
  with assms have "1074 = nat (e + 1074) + nat (- e)" by simp
  then have "2 ^ 1074 = (2 ^ nat (e + 1074) * 2 ^ nat (- e) :: nat)" by (metis power_add)
  with False show ?thesis by (simp add: units_def mag_num_def mag_den_def)
qed

lemma mag_den_positive: "0 < mag_den e"
  by (simp add: mag_den_def)

lemma signed_units_mag:
  assumes "- 1074 \<le> e"
  shows "signed_mag s m e * 2 ^ 1074 = signed_units s m e * int (mag_den e)"
proof -
  have "int (mag_num m e) * 2 ^ 1074 = int (units m e) * int (mag_den e)"
    using arg_cong [OF units_mag [OF assms, of m], of int] by (simp only: of_nat_mult of_nat_power of_nat_numeral)
  then show ?thesis by (simp add: signed_units_def)
qed

lemma double_less_units:
  assumes "- 1074 \<le> e" "- 1074 \<le> e'"
  shows "double_less (Fin s m e) (Fin s' m' e') \<longleftrightarrow> signed_units s m e < signed_units s' m' e'"
proof -
  have "0 < units m e \<longleftrightarrow> 0 < m" "units m e = 0 \<longleftrightarrow> m = 0" for m e by (simp_all add: units_def)
  then have zero: "signed_units s m e = 0 \<longleftrightarrow> m = 0" "signed_units s' m' e' = 0 \<longleftrightarrow> m' = 0"
    "0 < signed_units s m e \<longleftrightarrow> m \<noteq> 0 \<and> \<not> s" "0 < signed_units s' m' e' \<longleftrightarrow> m' \<noteq> 0 \<and> \<not> s'"
    "signed_units s m e < 0 \<longleftrightarrow> m \<noteq> 0 \<and> s"
    by (auto simp: signed_units_def)
  have "signed_mag s m e * int (mag_den e') < signed_mag s' m' e' * int (mag_den e) \<longleftrightarrow>
      (signed_mag s m e * 2 ^ 1074) * int (mag_den e') < (signed_mag s' m' e' * 2 ^ 1074) * int (mag_den e)"
    using mult_less_cancel_right_pos [of "2 ^ 1074 :: int"] by (simp add: mult.assoc mult.commute [of _ "2 ^ 1074"] mult.left_commute)
  also have "\<dots> \<longleftrightarrow> signed_units s m e * int (mag_den e) * int (mag_den e') <
      signed_units s' m' e' * int (mag_den e') * int (mag_den e)"
    by (simp only: signed_units_mag assms)
  also have "\<dots> \<longleftrightarrow> signed_units s m e < signed_units s' m' e'"
    using mag_den_positive [of e] mag_den_positive [of e']
    by (simp add: mult.assoc mult.commute [of "int (mag_den e')"] mult_less_cancel_right_pos)
  finally show ?thesis using zero by auto
qed

lemma double_less_irrefl: "\<not> double_less x x" by (cases x) simp_all

end
