(* ===== verification/Gtest_Diff.thy ===== *)
theory Gtest_Diff
  imports Gtest_String Double_Arith Ordered_Map "HOL-Library.List_Lexorder"
    "HOL-Library.Char_ord"
begin

text \<open>
  The comparison of multi-line texts behind the equality assertions of googletest
  (\<open>googletest-1.8.0/src/gtest.cc\<close>, namespace \<open>edit_distance\<close>): the table of edit costs with its
  \<open>double\<close> arithmetic, the path through it, the hunks of the unified diff, and \<open>EqFailure\<close>.
  The references are the replay of a list of edits and the patch that a list of hunks is.
\<close>

section \<open>The table\<close>

datatype EditType = kMatch | kAdd | kRemove | kReplace

type_synonym 'a table = "'a list list"

definition cell :: "'a table \<Rightarrow> nat \<Rightarrow> nat \<Rightarrow> 'a" where
  "cell t i j = t ! i ! j"

definition set_cell :: "nat \<Rightarrow> nat \<Rightarrow> 'a \<Rightarrow> 'a table \<Rightarrow> 'a table" where
  "set_cell i j x t = t[i := (t ! i)[j := x]]"

definition double_of_size :: "nat \<Rightarrow> double" where
  "double_of_size n = double_of_ratio False n 1"

definition replace_cost :: double where
  "replace_cost = double_of_dec False 100001 (- 5)"

type_synonym tables = "double table \<times> EditType table"

definition set_cells :: "nat \<Rightarrow> nat \<Rightarrow> double \<Rightarrow> EditType \<Rightarrow> tables \<Rightarrow> tables" where
  "set_cells i j cost move t = (set_cell i j cost (fst t), set_cell i j move (snd t))"

text \<open>The body of the two loops, at the indices \<open>l_i\<close> and \<open>r_i\<close>.\<close>

definition fill_cell :: "nat list \<Rightarrow> nat list \<Rightarrow> nat \<Rightarrow> nat \<Rightarrow> tables \<Rightarrow> tables" where
  "fill_cell left right l_i r_i t =
     (if left ! l_i = right ! r_i then
        set_cells (l_i + 1) (r_i + 1) (cell (fst t) l_i r_i) kMatch t
      else
        let add = cell (fst t) (l_i + 1) r_i;
            remove = cell (fst t) l_i (r_i + 1);
            replace = cell (fst t) l_i r_i in
        if double_less add remove \<and> double_less add replace then
          set_cells (l_i + 1) (r_i + 1) (double_add add (double_of_size 1)) kAdd t
        else if double_less remove add \<and> double_less remove replace then
          set_cells (l_i + 1) (r_i + 1) (double_add remove (double_of_size 1)) kRemove t
        else
          set_cells (l_i + 1) (r_i + 1) (double_add replace replace_cost) kReplace t)"

text \<open>The vectors as they are constructed (zeros, and the first enumerator), and the borders.\<close>

definition new_tables :: "nat \<Rightarrow> nat \<Rightarrow> tables" where
  "new_tables n m =
     (replicate (n + 1) (replicate (m + 1) (double_of_size 0)), replicate (n + 1) (replicate (m + 1) kMatch))"

definition empty_right :: "nat \<Rightarrow> tables \<Rightarrow> tables" where
  "empty_right n = fold (\<lambda>l_i. set_cells l_i 0 (double_of_size l_i) kRemove) [0..<n + 1]"

definition empty_left :: "nat \<Rightarrow> tables \<Rightarrow> tables" where
  "empty_left m = fold (\<lambda>r_i. set_cells 0 r_i (double_of_size r_i) kAdd) [1..<m + 1]"

definition fill_rows :: "nat list \<Rightarrow> nat list \<Rightarrow> tables \<Rightarrow> tables" where
  "fill_rows left right =
     fold (\<lambda>l_i. fold (\<lambda>r_i. fill_cell left right l_i r_i) [0..<length right]) [0..<length left]"

text \<open>
  The path back from the last cell. \<open>None\<close> is the read at an index below zero that a wrong table
  would cause; it does not happen.
\<close>

function best_path :: "EditType table \<Rightarrow> nat \<Rightarrow> nat \<Rightarrow> EditType list option" where
  "best_path best_move l_i r_i =
     (if l_i = 0 \<and> r_i = 0 then Some []
      else
        let move = cell best_move l_i r_i in
        if move \<noteq> kAdd \<and> l_i = 0 \<or> move \<noteq> kRemove \<and> r_i = 0 then None
        else map_option (\<lambda>path. move # path)
          (best_path best_move (if move \<noteq> kAdd then l_i - 1 else l_i) (if move \<noteq> kRemove then r_i - 1 else r_i)))"

  by pat_completeness auto

termination
  by (relation "measure (\<lambda>(best_move, l_i, r_i). l_i + r_i)") auto

declare best_path.simps [simp del]

definition CalculateOptimalEdits :: "nat list \<Rightarrow> nat list \<Rightarrow> EditType list option" where
  "CalculateOptimalEdits left right =
     (let t = fill_rows left right (empty_left (length right) (empty_right (length left)
            (new_tables (length left) (length right)))) in
      map_option rev (best_path (snd t) (length left) (length right)))"

section \<open>Lines as numbers\<close>

type_synonym InternalStrings = "(string, nat) omap"

definition GetId :: "string \<Rightarrow> InternalStrings \<Rightarrow> nat \<times> InternalStrings" where
  "GetId str ids =
     (case om_find ids str of
        Some n \<Rightarrow> (n, ids)
      | None \<Rightarrow> (length ids, om_set str (length ids) ids))"

fun get_ids :: "string list \<Rightarrow> InternalStrings \<Rightarrow> nat list \<times> InternalStrings" where
  "get_ids [] ids = ([], ids)"
| "get_ids (str # strs) ids =
     (let (n, ids') = GetId str ids; (ns, ids'') = get_ids strs ids' in (n # ns, ids''))"

definition CalculateOptimalEdits_lines :: "string list \<Rightarrow> string list \<Rightarrow> EditType list option" where
  "CalculateOptimalEdits_lines left right =
     (let (left_ids, ids) = get_ids left [];
          (right_ids, _) = get_ids right ids in
      CalculateOptimalEdits left_ids right_ids)"

section \<open>Hunks\<close>

type_synonym edit_line = "char \<times> string"

record Hunk =
  left_start :: nat
  right_start :: nat
  adds :: nat
  removes :: nat
  common :: nat
  hunk_lines :: "edit_line list"
  hunk_adds :: "edit_line list"
  hunk_removes :: "edit_line list"

definition new_Hunk :: "nat \<Rightarrow> nat \<Rightarrow> Hunk" where
  "new_Hunk l r = \<lparr> left_start = l, right_start = r, adds = 0, removes = 0, common = 0,
     hunk_lines = [], hunk_adds = [], hunk_removes = [] \<rparr>"

definition FlushEdits :: "Hunk \<Rightarrow> Hunk" where
  "FlushEdits h = h\<lparr> hunk_lines := hunk_lines h @ hunk_removes h @ hunk_adds h,
     hunk_removes := [], hunk_adds := [] \<rparr>"

definition PushLine :: "char \<Rightarrow> string \<Rightarrow> Hunk \<Rightarrow> Hunk" where
  "PushLine edit line h =
     (if edit = CHR '' '' then
        let h1 = FlushEdits (h\<lparr> common := common h + 1 \<rparr>) in
        h1\<lparr> hunk_lines := hunk_lines h1 @ [(CHR '' '', line)] \<rparr>
      else if edit = CHR ''-'' then
        h\<lparr> removes := removes h + 1, hunk_removes := hunk_removes h @ [(CHR ''-'', line)] \<rparr>
      else if edit = CHR ''+'' then
        h\<lparr> adds := adds h + 1, hunk_adds := hunk_adds h @ [(CHR ''+'', line)] \<rparr>
      else h)"

definition has_edits :: "Hunk \<Rightarrow> bool" where
  "has_edits h \<longleftrightarrow> adds h \<noteq> 0 \<or> removes h \<noteq> 0"

definition PrintHeader :: "Hunk \<Rightarrow> string" where
  "PrintHeader h =
     ''@@ '' @
     (if removes h \<noteq> 0 then ''-'' @ dec_string (left_start h) @ '','' @ dec_string (removes h + common h) else []) @
     (if removes h \<noteq> 0 \<and> adds h \<noteq> 0 then '' '' else []) @
     (if adds h \<noteq> 0 then ''+'' @ dec_string (right_start h) @ '','' @ dec_string (adds h + common h) else []) @
     '' @@'' @ [CHR 0x0A]"

definition Hunk_PrintTo :: "Hunk \<Rightarrow> string" where
  "Hunk_PrintTo h =
     PrintHeader h @ concat (map (\<lambda>(edit, line). [edit] @ c_text line @ [CHR 0x0A]) (hunk_lines (FlushEdits h)))"

section \<open>The unified diff\<close>

text \<open>The indices \<open>l_i\<close>, \<open>r_i\<close> and the edits from \<open>edit_i\<close> on.\<close>

fun find_first_edit :: "nat \<Rightarrow> nat \<Rightarrow> EditType list \<Rightarrow> nat \<times> nat \<times> EditType list" where
  "find_first_edit l_i r_i (kMatch # edits) = find_first_edit (l_i + 1) (r_i + 1) edits"
| "find_first_edit l_i r_i edits = (l_i, r_i, edits)"

fun push_context :: "string list \<Rightarrow> nat \<Rightarrow> nat \<Rightarrow> Hunk \<Rightarrow> Hunk" where
  "push_context left l_i 0 h = h"
| "push_context left l_i (Suc i) h = push_context left l_i i (PushLine CHR '' '' (left ! (l_i - Suc i)) h)"

definition push_edit :: "string list \<Rightarrow> string list \<Rightarrow> nat \<Rightarrow> nat \<Rightarrow> EditType \<Rightarrow> Hunk \<Rightarrow> Hunk" where
  "push_edit left right l_i r_i edit h =
     (let h1 = (if edit = kMatch \<or> edit = kRemove \<or> edit = kReplace
                then PushLine (if edit = kMatch then CHR '' '' else CHR ''-'') (left ! l_i) h else h) in
      if edit = kAdd \<or> edit = kReplace then PushLine CHR ''+'' (right ! r_i) h1 else h1)"

text \<open>Whether the hunk ends here: there is no next edit, or it is too far away.\<close>

definition next_edit_far :: "nat \<Rightarrow> EditType list \<Rightarrow> bool" where
  "next_edit_far ctx edits =
     (let matches = takeWhile (\<lambda>e. e = kMatch) edits in
      matches = edits \<or> ctx \<le> length matches)"

fun hunk_loop ::
    "string list \<Rightarrow> string list \<Rightarrow> nat \<Rightarrow> nat \<Rightarrow> nat \<Rightarrow> nat \<Rightarrow> Hunk \<Rightarrow> EditType list \<Rightarrow>
     Hunk \<times> nat \<times> nat \<times> EditType list" where
  "hunk_loop left right ctx n_suffix l_i r_i h [] = (h, l_i, r_i, [])"
| "hunk_loop left right ctx n_suffix l_i r_i h (edit # edits) =
     (if ctx \<le> n_suffix \<and> next_edit_far ctx (edit # edits) then (h, l_i, r_i, edit # edits)
      else hunk_loop left right ctx (if edit = kMatch then n_suffix + 1 else 0)
        (if edit \<noteq> kAdd then l_i + 1 else l_i) (if edit \<noteq> kRemove then r_i + 1 else r_i)
        (push_edit left right l_i r_i edit h) edits)"

text \<open>One round of the outer loop: the hunk, and where the next round starts.\<close>

definition next_hunk ::
    "string list \<Rightarrow> string list \<Rightarrow> nat \<Rightarrow> nat \<Rightarrow> nat \<Rightarrow> EditType list \<Rightarrow> Hunk \<times> nat \<times> nat \<times> EditType list" where
  "next_hunk left right ctx l_i r_i edits =
     (let (l_i, r_i, edits) = find_first_edit l_i r_i edits;
          prefix_context = min l_i ctx;
          h = push_context left l_i prefix_context
                (new_Hunk (l_i - prefix_context + 1) (r_i - prefix_context + 1)) in
      hunk_loop left right ctx 0 l_i r_i h edits)"

lemma hunk_loop_rest:
  assumes "hunk_loop left right ctx n l_i r_i h edits = (h', l', r', rest)"
  shows "length rest \<le> length edits \<and> (length rest = length edits \<longrightarrow> h' = h)"
  using assms
proof (induction edits arbitrary: n l_i r_i h)
  case (Cons e edits)
  show ?case
  proof (cases "ctx \<le> n \<and> next_edit_far ctx (e # edits)")
    case True
    with Cons.prems show ?thesis by simp
  next
    case False
    with Cons.prems have "hunk_loop left right ctx (if e = kMatch then n + 1 else 0)
        (if e \<noteq> kAdd then l_i + 1 else l_i) (if e \<noteq> kRemove then r_i + 1 else r_i)
        (push_edit left right l_i r_i e h) edits = (h', l', r', rest)"
      by (simp only: hunk_loop.simps if_False)
    from Cons.IH [OF this] show ?thesis by simp
  qed
qed simp

lemma find_first_edit_rest: "length (snd (snd (find_first_edit l_i r_i edits))) \<le> length edits"
  by (induction l_i r_i edits rule: find_first_edit.induct) auto

lemma no_edits_PushLine [simp]: "has_edits (PushLine CHR '' '' line h) = has_edits h"
  by (simp add: has_edits_def PushLine_def FlushEdits_def Let_def)

lemma no_edits_push_context [simp]: "has_edits (push_context left l_i i h) = has_edits h"
  by (induction left l_i i h rule: push_context.induct) auto

lemma no_edits_new [simp]: "\<not> has_edits (new_Hunk l r)"
  by (simp add: has_edits_def new_Hunk_def)

lemma next_hunk_rest:
  assumes "next_hunk left right ctx l_i r_i edits = (h, l, r, rest)" "has_edits h"
  shows "length rest < length edits"
proof -
  obtain l1 r1 es where f: "find_first_edit l_i r_i edits = (l1, r1, es)"
    by (cases "find_first_edit l_i r_i edits")
  let ?h = "push_context left l1 (min l1 ctx) (new_Hunk (l1 - min l1 ctx + 1) (r1 - min l1 ctx + 1))"
  have "\<not> has_edits ?h" by simp
  moreover have "hunk_loop left right ctx 0 l1 r1 ?h es = (h, l, r, rest)"
    using assms(1) by (simp add: next_hunk_def f Let_def)
  ultimately have "length rest < length es"
    using hunk_loop_rest [of left right ctx 0 l1 r1 ?h es] assms(2) by (auto simp: le_less)
  with find_first_edit_rest [of l_i r_i edits] f show ?thesis by simp
qed

text \<open>The outer loop, with the hunks it prints.\<close>

function hunks_from :: "string list \<Rightarrow> string list \<Rightarrow> nat \<Rightarrow> nat \<Rightarrow> nat \<Rightarrow> EditType list \<Rightarrow> Hunk list" where
  "hunks_from left right ctx l_i r_i edits =
     (if edits = [] then []
      else
        case next_hunk left right ctx l_i r_i edits of (h, l, r, rest) \<Rightarrow>
          if \<not> has_edits h then [] else h # hunks_from left right ctx l r rest)"
  by pat_completeness auto

termination
  by (relation "measure (\<lambda>(left, right, ctx, l_i, r_i, edits). length edits)")
    (auto dest: next_hunk_rest [OF sym])

declare hunks_from.simps [simp del]

definition diff_hunks :: "string list \<Rightarrow> string list \<Rightarrow> nat \<Rightarrow> Hunk list option" where
  "diff_hunks left right ctx =
     map_option (hunks_from left right ctx 0 0) (CalculateOptimalEdits_lines left right)"

definition CreateUnifiedDiff :: "string list \<Rightarrow> string list \<Rightarrow> nat \<Rightarrow> string option" where
  "CreateUnifiedDiff left right ctx =
     map_option (\<lambda>hs. concat (map Hunk_PrintTo hs)) (diff_hunks left right ctx)"

section \<open>The reference: replaying the edits\<close>

text \<open>The edits, read in order, consume both texts: common lines, added lines, removed lines and
  replaced lines, which differ.\<close>

fun replay :: "EditType list \<Rightarrow> 'a list \<Rightarrow> 'a list \<Rightarrow> bool" where
  "replay [] xs ys \<longleftrightarrow> xs = [] \<and> ys = []"
| "replay (e # es) xs ys \<longleftrightarrow>
     (case e of
        kMatch \<Rightarrow> xs \<noteq> [] \<and> ys \<noteq> [] \<and> hd xs = hd ys \<and> replay es (tl xs) (tl ys)
      | kReplace \<Rightarrow> xs \<noteq> [] \<and> ys \<noteq> [] \<and> hd xs \<noteq> hd ys \<and> replay es (tl xs) (tl ys)
      | kRemove \<Rightarrow> xs \<noteq> [] \<and> replay es (tl xs) ys
      | kAdd \<Rightarrow> ys \<noteq> [] \<and> replay es xs (tl ys))"

lemma replay_append:
  assumes "replay es xs ys" "replay fs xs' ys'"
  shows "replay (es @ fs) (xs @ xs') (ys @ ys')"
  using assms(1)
  by (induction es arbitrary: xs ys) (auto simp: assms(2) split: EditType.splits)

lemma replay_map:
  assumes "replay es (map f xs) (map f ys)" "inj_on f (set xs \<union> set ys)"
  shows "replay es xs ys"
  using assms
proof (induction es arbitrary: xs ys)
  case (Cons e es)
  have sub: "inj_on f (set (tl xs) \<union> set (tl ys))" "inj_on f (set (tl xs) \<union> set ys)"
    "inj_on f (set xs \<union> set (tl ys))"
    by (rule inj_on_subset [OF Cons.prems(2)]; cases xs; cases ys; auto)+
  have heads: "f (hd xs) = f (hd ys) \<longleftrightarrow> hd xs = hd ys" if "xs \<noteq> []" "ys \<noteq> []"
    using that Cons.prems(2) by (intro inj_on_eq_iff) auto
  from Cons.prems(1) Cons.IH sub heads show ?case
    by (cases e) (auto simp: map_tl [symmetric] hd_map)
qed simp

section \<open>The table is correct\<close>

lemma fold_upt_invariant:
  assumes "P a s" "\<And>k s. a \<le> k \<Longrightarrow> k < b \<Longrightarrow> P k s \<Longrightarrow> P (Suc k) (f k s)" "a \<le> b"
  shows "P b (fold f [a..<b] s)"
proof -
  have "P (a + n) (fold f [a..<a + n] s)" if "a + n \<le> b" for n
    using that by (induction n) (auto simp: assms)
  from this [of "b - a"] assms(3) show ?thesis by simp
qed

definition dims :: "nat \<Rightarrow> nat \<Rightarrow> 'a table \<Rightarrow> bool" where
  "dims n m t \<longleftrightarrow> length t = n + 1 \<and> (\<forall>row \<in> set t. length row = m + 1)"

lemma cell_set_cell:
  assumes "dims n m t" "i \<le> n" "j \<le> m"
  shows "cell (set_cell i j x t) i' j' = (if i' = i \<and> j' = j then x else cell t i' j')"
proof -
  have "length t = n + 1" "length (t ! i) = m + 1" using assms by (auto simp: dims_def)
  with assms show ?thesis by (auto simp: cell_def set_cell_def nth_list_update)
qed

lemma dims_set_cell [simp]:
  assumes "dims n m t"
  shows "dims n m (set_cell i j x t)"
proof (cases "i < length t")
  case True
  with assms show ?thesis
    by (auto simp: dims_def set_cell_def dest!: set_update_subset_insert [THEN subsetD])
next
  case False
  with assms show ?thesis by (simp add: set_cell_def list_update_beyond)
qed

fun move_ok :: "'a list \<Rightarrow> 'a list \<Rightarrow> nat \<Rightarrow> nat \<Rightarrow> EditType \<Rightarrow> bool" where
  "move_ok left right i j kMatch \<longleftrightarrow> 0 < i \<and> 0 < j \<and> left ! (i - 1) = right ! (j - 1)"
| "move_ok left right i j kReplace \<longleftrightarrow> 0 < i \<and> 0 < j \<and> left ! (i - 1) \<noteq> right ! (j - 1)"
| "move_ok left right i j kAdd \<longleftrightarrow> 0 < j \<and> (0 < i \<longrightarrow> left ! (i - 1) \<noteq> right ! (j - 1))"
| "move_ok left right i j kRemove \<longleftrightarrow> 0 < i \<and> (0 < j \<longrightarrow> left ! (i - 1) \<noteq> right ! (j - 1))"

text \<open>The moves stored at the cells of a region are possible ones.\<close>

definition moves_ok :: "'a list \<Rightarrow> 'a list \<Rightarrow> (nat \<Rightarrow> nat \<Rightarrow> bool) \<Rightarrow> tables \<Rightarrow> bool" where
  "moves_ok left right R t \<longleftrightarrow> dims (length left) (length right) (snd t) \<and>
     (\<forall>i \<le> length left. \<forall>j \<le> length right.
        R i j \<and> (0 < i \<or> 0 < j) \<longrightarrow> move_ok left right i j (cell (snd t) i j))"

lemma moves_ok_set:
  assumes "moves_ok left right R t" "i \<le> length left" "j \<le> length right"
    and "0 < i \<or> 0 < j \<Longrightarrow> move_ok left right i j move"
    and "\<And>i' j'. R' i' j' \<Longrightarrow> R i' j' \<or> i' = i \<and> j' = j"
  shows "moves_ok left right R' (set_cells i j cost move t)"
proof -
  from assms(1) have d: "dims (length left) (length right) (snd t)" by (simp add: moves_ok_def)
  have "move_ok left right i' j' (if i' = i \<and> j' = j then move else cell (snd t) i' j')"
    if "i' \<le> length left" "j' \<le> length right" "R' i' j'" "0 < i' \<or> 0 < j'" for i' j'
  proof (cases "i' = i \<and> j' = j")
    case True
    with that assms(4) show ?thesis by simp
  next
    case False
    with assms(5) [OF that(3)] have "R i' j'" by blast
    with assms(1) that False show ?thesis by (simp only: moves_ok_def if_False)
  qed
  with d show ?thesis
    unfolding moves_ok_def set_cells_def snd_conv cell_set_cell [OF d assms(2,3)]
    using dims_set_cell [OF d, of i j move] by blast
qed

lemma moves_ok_mono:
  assumes "moves_ok left right R t" "\<And>i j. i \<le> length left \<Longrightarrow> j \<le> length right \<Longrightarrow> R' i j \<Longrightarrow> R i j"
  shows "moves_ok left right R' t"
  using assms by (simp add: moves_ok_def)

lemma fill_cell_sets:
  assumes "l_i < length left" "r_i < length right"
  shows "\<exists>cost move. fill_cell left right l_i r_i t = set_cells (l_i + 1) (r_i + 1) cost move t \<and>
    move_ok left right (l_i + 1) (r_i + 1) move"
  unfolding fill_cell_def Let_def by (auto intro!: exI)

lemma row_ok:
  assumes "moves_ok left right (\<lambda>i j. j = 0 \<or> i < Suc k) t" "k < length left"
  shows "moves_ok left right (\<lambda>i j. j = 0 \<or> i < Suc (Suc k))
    (fold (\<lambda>r_i. fill_cell left right k r_i) [0..<length right] t)"
proof -
  let ?P = "\<lambda>k'. moves_ok left right (\<lambda>i j. j = 0 \<or> i < Suc k \<or> i = Suc k \<and> j < Suc k')"
  have "?P (length right) (fold (\<lambda>r_i. fill_cell left right k r_i) [0..<length right] t)"
  proof (rule fold_upt_invariant [where P = ?P])
    show "?P 0 t" using assms(1) by (rule moves_ok_mono) auto
    fix k' s assume "k' < length right" "?P k' s"
    then show "?P (Suc k') (fill_cell left right k k' s)"
      using fill_cell_sets [OF assms(2), of k' right s] assms(2) by (auto elim!: moves_ok_set)
  qed simp
  then show ?thesis by (rule moves_ok_mono) auto
qed

lemma tables_ok:
  fixes left right :: "nat list"
  defines "n \<equiv> length left" and "m \<equiv> length right"
  shows "moves_ok left right (\<lambda>i j. True) (fill_rows left right (empty_left m (empty_right n (new_tables n m))))"
proof -
  let ?t1 = "empty_right n (new_tables n m)"
  let ?t2 = "empty_left m ?t1"
  have "moves_ok left right (\<lambda>i j. j = 0 \<and> i < n + 1) ?t1"
    unfolding empty_right_def
  proof (rule fold_upt_invariant [where P = "\<lambda>k. moves_ok left right (\<lambda>i j. j = 0 \<and> i < k)"])
    show "moves_ok left right (\<lambda>i j. j = 0 \<and> i < 0) (new_tables n m)"
      by (auto simp: moves_ok_def new_tables_def dims_def n_def m_def)
  qed (auto simp: n_def elim!: moves_ok_set)
  then have "moves_ok left right (\<lambda>i j. j = 0 \<or> i = 0 \<and> j < 1) ?t1"
    by (rule moves_ok_mono) (auto simp: n_def)
  then have "moves_ok left right (\<lambda>i j. j = 0 \<or> i = 0 \<and> j < m + 1) ?t2"
    unfolding empty_left_def
    by (rule fold_upt_invariant [where P = "\<lambda>k. moves_ok left right (\<lambda>i j. j = 0 \<or> i = 0 \<and> j < k)"])
      (auto simp: m_def elim!: moves_ok_set)
  then have "moves_ok left right (\<lambda>i j. j = 0 \<or> i < Suc 0) ?t2"
    by (rule moves_ok_mono) (auto simp: m_def)
  then have "moves_ok left right (\<lambda>i j. j = 0 \<or> i < Suc n) (fill_rows left right ?t2)"
    unfolding fill_rows_def n_def
    by (rule fold_upt_invariant [where P = "\<lambda>k. moves_ok left right (\<lambda>i j. j = 0 \<or> i < Suc k)"])
      (auto intro: row_ok)
  then show ?thesis by (rule moves_ok_mono) (auto simp: n_def)
qed

lemma take_pred:
  assumes "0 < i" "i \<le> length xs"
  shows "take i xs = take (i - 1) xs @ [xs ! (i - 1)]"
  using assms take_Suc_conv_app_nth [of "i - 1" xs] by simp

lemma best_path_replays:
  assumes "moves_ok left right (\<lambda>i j. True) t" "l \<le> length left" "r \<le> length right"
  shows "\<exists>path. best_path (snd t) l r = Some path \<and> replay (rev path) (take l left) (take r right)"
  using assms(2,3)
proof (induction "l + r" arbitrary: l r rule: less_induct)
  case less
  show ?case
  proof (cases "l = 0 \<and> r = 0")
    case True
    then show ?thesis by (simp add: best_path.simps)
  next
    case False
    define move where "move = cell (snd t) l r"
    define l' where "l' = (if move \<noteq> kAdd then l - 1 else l)"
    define r' where "r' = (if move \<noteq> kRemove then r - 1 else r)"
    have ok: "move_ok left right l r move"
      using assms(1) less.prems False by (auto simp: move_def moves_ok_def)
    then have smaller: "l' + r' < l + r" "l' \<le> length left" "r' \<le> length right"
      using less.prems by (cases move; auto simp: l'_def r'_def)+
    from less.hyps [OF this] obtain path where path: "best_path (snd t) l' r' = Some path"
      "replay (rev path) (take l' left) (take r' right)" by blast
    have "best_path (snd t) l r = Some (move # path)"
    proof -
      have "best_path (snd t) l r =
          (if move \<noteq> kAdd \<and> l = 0 \<or> move \<noteq> kRemove \<and> r = 0 then None
           else map_option (\<lambda>path. move # path) (best_path (snd t) l' r'))"
        by (subst best_path.simps) (use False in \<open>simp only: Let_def move_def l'_def r'_def if_False\<close>)
      with ok path(1) show ?thesis by (cases move) auto
    qed
    moreover have "replay (rev path @ [move]) (take l left) (take r right)"
    proof (cases move)
      case kAdd
      with ok less.prems have "take r right = take r' right @ [right ! (r - 1)]" "l' = l"
        by (simp_all add: l'_def r'_def take_pred)
      with replay_append [OF path(2), of "[move]" "[]" "[right ! (r - 1)]"] kAdd show ?thesis by simp
    next
      case kRemove
      with ok less.prems have "take l left = take l' left @ [left ! (l - 1)]" "r' = r"
        by (simp_all add: l'_def r'_def take_pred)
      with replay_append [OF path(2), of "[move]" "[left ! (l - 1)]" "[]"] kRemove show ?thesis by simp
    next
      case kMatch
      with ok less.prems have "take l left = take l' left @ [left ! (l - 1)]"
        "take r right = take r' right @ [right ! (r - 1)]"
        by (simp_all add: l'_def r'_def take_pred)
      with replay_append [OF path(2), of "[move]" "[left ! (l - 1)]" "[right ! (r - 1)]"] kMatch ok
      show ?thesis by simp
    next
      case kReplace
      with ok less.prems have "take l left = take l' left @ [left ! (l - 1)]"
        "take r right = take r' right @ [right ! (r - 1)]"
        by (simp_all add: l'_def r'_def take_pred)
      with replay_append [OF path(2), of "[move]" "[left ! (l - 1)]" "[right ! (r - 1)]"] kReplace ok
      show ?thesis by simp
    qed
    ultimately show ?thesis by simp
  qed
qed

lemma edits_replay:
  "\<exists>edits. CalculateOptimalEdits left right = Some edits \<and> replay edits left right"
  using best_path_replays [OF tables_ok [of left right] order_refl order_refl]
  by (auto simp: CalculateOptimalEdits_def Let_def)

lemma best_path_diagonal:
  assumes "moves_ok left left (\<lambda>i j. True) t" "l \<le> length left"
  shows "best_path (snd t) l l = Some (replicate l kMatch)"
  using assms(2)
proof (induction l)
  case 0
  then show ?case by (simp add: best_path.simps)
next
  case (Suc l)
  have "move_ok left left (Suc l) (Suc l) (cell (snd t) (Suc l) (Suc l))"
    using assms(1) Suc.prems by (auto simp: moves_ok_def)
  then have "cell (snd t) (Suc l) (Suc l) = kMatch"
    by (cases "cell (snd t) (Suc l) (Suc l)") auto
  with Suc show ?case by (subst best_path.simps) simp
qed

lemma edits_same: "CalculateOptimalEdits left left = Some (replicate (length left) kMatch)"
  using best_path_diagonal [OF tables_ok [of left left] order_refl]
  by (simp add: CalculateOptimalEdits_def Let_def)

section \<open>The numbers stand for the lines\<close>

text \<open>The table numbers the strings met so far from zero, each its own number.\<close>

definition ids_ok :: "InternalStrings \<Rightarrow> bool" where
  "ids_ok ids \<longleftrightarrow> (\<forall>s n. om_find ids s = Some n \<longrightarrow> n < length ids) \<and>
     (\<forall>s s' n. om_find ids s = Some n \<and> om_find ids s' = Some n \<longrightarrow> s = s')"

lemma length_om_set: "om_find m k = None \<Longrightarrow> length (om_set k v m) = Suc (length m)"
  by (induction k v m rule: om_set.induct) (auto split: if_splits)

lemma GetId_ok:
  assumes "ids_ok ids" "GetId str ids = (n, ids')"
  shows "ids_ok ids'" "om_find ids' str = Some n"
    "\<And>s m. om_find ids s = Some m \<Longrightarrow> om_find ids' s = Some m"
proof -
  have "ids_ok ids' \<and> om_find ids' str = Some n \<and>
      (\<forall>s m. om_find ids s = Some m \<longrightarrow> om_find ids' s = Some m)"
  proof (cases "om_find ids str")
    case None
    with assms(2) have "n = length ids" "ids' = om_set str (length ids) ids" by (auto simp: GetId_def)
    then have find': "om_find ids' s = (if s = str then Some n else om_find ids s)" for s by simp
    have len: "length ids' = Suc n"
      using None \<open>n = _\<close> \<open>ids' = _\<close> by (simp add: length_om_set)
    have below: "m < n" if "om_find ids s = Some m" for s m
      using assms(1) that \<open>n = _\<close> by (auto simp: ids_ok_def)
    have "ids_ok ids'"
      unfolding ids_ok_def find' len
    proof (intro conjI allI impI)
      fix s k assume "(if s = str then Some n else om_find ids s) = Some k"
      then show "k < Suc n" using below [of s k] by (auto split: if_splits)
    next
      fix s s' k
      assume "(if s = str then Some n else om_find ids s) = Some k \<and>
        (if s' = str then Some n else om_find ids s') = Some k"
      then show "s = s'"
        using below [of s k] below [of s' k] assms(1) unfolding ids_ok_def
        by (cases "s = str"; cases "s' = str") auto
    qed
    with None show ?thesis by (auto simp: find')
  next
    case (Some k)
    with assms show ?thesis by (simp add: GetId_def)
  qed
  then show "ids_ok ids'" "om_find ids' str = Some n"
    "\<And>s m. om_find ids s = Some m \<Longrightarrow> om_find ids' s = Some m" by blast+
qed

lemma get_ids_ok:
  assumes "ids_ok ids" "get_ids strs ids = (ns, ids')"
  shows "ids_ok ids' \<and> map Some ns = map (om_find ids') strs \<and>
    (\<forall>s m. om_find ids s = Some m \<longrightarrow> om_find ids' s = Some m)"
  using assms
proof (induction strs arbitrary: ids ns)
  case Nil
  then show ?case by simp
next
  case (Cons str strs)
  then obtain n ids1 ns1 where steps: "GetId str ids = (n, ids1)" "get_ids strs ids1 = (ns1, ids')"
    "ns = n # ns1" by (auto split: prod.splits)
  note one = GetId_ok [OF Cons.prems(1) steps(1)]
  from Cons.IH [OF one(1) steps(2)] one(2,3) steps(3) show ?case by auto
qed

lemma edits_lines_replay:
  "\<exists>edits. CalculateOptimalEdits_lines left right = Some edits \<and> replay edits left right \<and>
    (left = right \<longrightarrow> edits = replicate (length left) kMatch)"
proof -
  obtain ls ids where l: "get_ids left [] = (ls, ids)" by (cases "get_ids left []")
  obtain rs ids' where r: "get_ids right ids = (rs, ids')" by (cases "get_ids right ids")
  have "ids_ok []" by (simp add: ids_ok_def om_wf_def)
  from get_ids_ok [OF this l] get_ids_ok [OF _ r]
  have ok: "ids_ok ids'" "map Some rs = map (om_find ids') right"
    and kept: "map Some ls = map (om_find ids) left" "\<And>s m. om_find ids s = Some m \<Longrightarrow> om_find ids' s = Some m"
    by auto
  have "map (om_find ids) left = map (om_find ids') left"
  proof (rule map_cong [OF refl])
    fix s assume "s \<in> set left"
    then have "om_find ids s \<in> set (map Some ls)" using kept(1) by auto
    then show "om_find ids s = om_find ids' s" using kept(2) by auto
  qed
  with kept(1) have ls: "map Some ls = map (om_find ids') left" by simp
  define f where "f s = the (om_find ids' s)" for s
  have lists: "ls = map f left" "rs = map f right"
    using arg_cong [OF ls, of "map the"] arg_cong [OF ok(2), of "map the"]
    by (simp_all add: f_def [abs_def] comp_def)
  have found: "om_find ids' s = Some (f s)" if "s \<in> set left \<union> set right" for s
  proof -
    have "om_find ids' s \<in> set (map Some ls) \<union> set (map Some rs)"
      unfolding ls ok(2) using that by auto
    then show ?thesis by (auto simp: f_def)
  qed
  then have "inj_on f (set left \<union> set right)"
    using ok(1) by (intro inj_onI) (metis ids_ok_def)
  moreover obtain edits where "CalculateOptimalEdits ls rs = Some edits" "replay edits ls rs"
    using edits_replay [of ls rs] by blast
  moreover have "edits = replicate (length left) kMatch" if "left = right"
    using edits_same [of ls] calculation(2) that lists by simp
  ultimately show ?thesis
    by (auto simp: CalculateOptimalEdits_lines_def l r lists intro: replay_map)
qed

section \<open>The reference: patches\<close>

definition body :: "Hunk \<Rightarrow> edit_line list" where
  "body h = hunk_lines (FlushEdits h)"

definition old_lines :: "edit_line list \<Rightarrow> string list" where
  "old_lines b = map snd (filter (\<lambda>(e, s). e \<noteq> CHR ''+'') b)"

definition new_lines :: "edit_line list \<Rightarrow> string list" where
  "new_lines b = map snd (filter (\<lambda>(e, s). e \<noteq> CHR ''-'') b)"

text \<open>
  Applying hunks to the lines of a text from line \<open>l\<close> on (the result from line \<open>r\<close> on): the lines
  up to the start of the hunk stay, those it names must be there and are replaced.
\<close>

primrec patch :: "nat \<Rightarrow> nat \<Rightarrow> Hunk list \<Rightarrow> string list \<Rightarrow> string list option" where
  "patch l r [] xs = Some xs"
| "patch l r (h # hs) xs =
     (let skip = left_start h - 1 - l; old = old_lines (body h); new = new_lines (body h) in
      if l < left_start h \<and> right_start h = r + skip + 1 \<and> skip \<le> length xs \<and>
         take (length old) (drop skip xs) = old \<and>
         removes h + common h = length old \<and> adds h + common h = length new
      then map_option (\<lambda>ys. take skip xs @ new @ ys)
        (patch (l + skip + length old) (r + skip + length new) hs (drop (skip + length old) xs))
      else None)"

definition hunk_at :: "Hunk \<Rightarrow> string list \<Rightarrow> string list \<Rightarrow> bool" where
  "hunk_at h old new \<longleftrightarrow> (\<forall>x \<in> set (hunk_adds h). fst x = CHR ''+'') \<and>
     (\<forall>x \<in> set (hunk_removes h). fst x = CHR ''-'') \<and>
     old_lines (body h) = old \<and> new_lines (body h) = new \<and>
     removes h + common h = length old \<and> adds h + common h = length new"

lemma lines_append [simp]:
  "old_lines (a @ b) = old_lines a @ old_lines b" "new_lines (a @ b) = new_lines a @ new_lines b"
  "old_lines [] = []" "new_lines [] = []"
  by (simp_all add: old_lines_def new_lines_def)

lemma lines_marked:
  "\<forall>x \<in> set b. fst x = CHR ''+'' \<Longrightarrow> old_lines b = []"
  "\<forall>x \<in> set b. fst x = CHR ''-'' \<Longrightarrow> new_lines b = []"
  by (auto simp: old_lines_def new_lines_def filter_empty_conv)

lemma lines_Cons [simp]:
  "old_lines ((e, s) # b) = (if e \<noteq> CHR ''+'' then s # old_lines b else old_lines b)"
  "new_lines ((e, s) # b) = (if e \<noteq> CHR ''-'' then s # new_lines b else new_lines b)"
  by (simp_all add: old_lines_def new_lines_def)

lemma hunk_at_PushLine:
  assumes "hunk_at h old new"
  shows "hunk_at (PushLine CHR '' '' s h) (old @ [s]) (new @ [s])"
    "hunk_at (PushLine CHR ''-'' s h) (old @ [s]) new"
    "hunk_at (PushLine CHR ''+'' s h) old (new @ [s])"
  using assms
  by (auto simp: hunk_at_def PushLine_def FlushEdits_def body_def Let_def lines_marked)

lemma hunk_at_push_edit:
  assumes "hunk_at h old new" "edit = kMatch \<Longrightarrow> left ! l = right ! r"
  shows "hunk_at (push_edit left right l r edit h)
    (old @ (if edit \<noteq> kAdd then [left ! l] else [])) (new @ (if edit \<noteq> kRemove then [right ! r] else []))"
  using assms
  by (cases edit) (auto simp: push_edit_def intro: hunk_at_PushLine dest: hunk_at_PushLine)

lemma starts_PushLine [simp]:
  "left_start (PushLine c s h) = left_start h" "right_start (PushLine c s h) = right_start h"
  by (simp_all add: PushLine_def FlushEdits_def Let_def)

lemma starts_push_edit [simp]:
  "left_start (push_edit left right l r e h) = left_start h"
  "right_start (push_edit left right l r e h) = right_start h"
  by (simp_all add: push_edit_def Let_def)

lemma push_context_at:
  assumes "hunk_at h old new" "i \<le> l" "l \<le> length left"
  shows "hunk_at (push_context left l i h) (old @ take i (drop (l - i) left)) (new @ take i (drop (l - i) left)) \<and>
    left_start (push_context left l i h) = left_start h \<and> right_start (push_context left l i h) = right_start h"
  using assms
proof (induction left l i h arbitrary: old new rule: push_context.induct)
  case (1 left l h)
  then show ?case by simp
next
  case (2 left l i h)
  have "take (Suc i) (drop (l - Suc i) left) = (left ! (l - Suc i)) # take i (drop (l - i) left)"
    using 2(3,4) by (simp add: Cons_nth_drop_Suc [symmetric] Suc_diff_Suc)
  with 2(1) [OF hunk_at_PushLine(1) [OF 2(2), of "left ! (l - Suc i)"]] 2(3,4) show ?case by simp
qed

lemma find_first_edit_spec:
  assumes "find_first_edit l r edits = (l', r', es)" "replay edits (drop l left) (drop r right)"
  shows "\<exists>m. l' = l + m \<and> r' = r + m \<and> edits = replicate m kMatch @ es \<and> (es = [] \<or> hd es \<noteq> kMatch) \<and>
    take m (drop l left) = take m (drop r right) \<and> replay es (drop l' left) (drop r' right) \<and>
    m \<le> length left - l \<and> m \<le> length right - r"
  using assms
proof (induction l r edits rule: find_first_edit.induct)
  case (1 l r edits)
  then have "drop l left \<noteq> []" "drop r right \<noteq> []" "hd (drop l left) = hd (drop r right)"
    "replay edits (drop (l + 1) left) (drop (r + 1) right)" by (simp_all add: tl_drop drop_Suc)
  moreover from this 1 obtain m where "l' = l + 1 + m" "r' = r + 1 + m" "edits = replicate m kMatch @ es"
    "es = [] \<or> hd es \<noteq> kMatch" "take m (drop (l + 1) left) = take m (drop (r + 1) right)"
    "replay es (drop l' left) (drop r' right)" "m \<le> length left - (l + 1)" "m \<le> length right - (r + 1)"
    by auto
  ultimately show ?case
    by (intro exI [of _ "Suc m"]) (auto simp: take_Suc tl_drop drop_Suc)
qed (auto intro!: exI [of _ 0])

text \<open>Where a hunk may start: at the beginning, or where no edit is within the context.\<close>

definition round_start :: "nat \<Rightarrow> nat \<Rightarrow> nat \<Rightarrow> EditType list \<Rightarrow> bool" where
  "round_start ctx l r edits \<longleftrightarrow> l = 0 \<and> r = 0 \<or> edits = [] \<or> next_edit_far ctx edits"

lemma hunk_loop_spec:
  assumes "hunk_loop left right ctx n l r h edits = (h', l', r', rest)"
    and "replay edits (drop l left) (drop r right)" "hunk_at h old new"
  shows "\<exists>us vs. drop l left = us @ drop l' left \<and> drop r right = vs @ drop r' right \<and>
    l' = l + length us \<and> r' = r + length vs \<and> hunk_at h' (old @ us) (new @ vs) \<and>
    replay rest (drop l' left) (drop r' right) \<and> round_start ctx l' r' rest \<and>
    left_start h' = left_start h \<and> right_start h' = right_start h"
  using assms
proof (induction edits arbitrary: n l r h old new)
  case Nil
  then show ?case by (simp add: round_start_def)
next
  case (Cons e edits)
  show ?case
  proof (cases "ctx \<le> n \<and> next_edit_far ctx (e # edits)")
    case True
    with Cons.prems show ?thesis by (auto simp: round_start_def intro!: exI [of _ "[]"])
  next
    case False
    define l1 where "l1 = (if e \<noteq> kAdd then l + 1 else l)"
    define r1 where "r1 = (if e \<noteq> kRemove then r + 1 else r)"
    define us1 where "us1 = (if e \<noteq> kAdd then [left ! l] else [])"
    define vs1 where "vs1 = (if e \<noteq> kRemove then [right ! r] else [])"
    from False Cons.prems(1) have loop: "hunk_loop left right ctx (if e = kMatch then n + 1 else 0) l1 r1
        (push_edit left right l r e h) edits = (h', l', r', rest)"
      by (simp only: hunk_loop.simps if_False l1_def r1_def)
    have l: "drop l left = us1 @ drop l1 left" "l1 = l + length us1"
      using Cons.prems(2) by (cases e; simp add: l1_def us1_def Cons_nth_drop_Suc)+
    have r: "drop r right = vs1 @ drop r1 right" "r1 = r + length vs1"
      using Cons.prems(2) by (cases e; simp add: r1_def vs1_def Cons_nth_drop_Suc)+
    have same: "left ! l = right ! r" if "e = kMatch"
      using Cons.prems(2) that by (auto simp: hd_drop_conv_nth not_le)
    have rep: "replay edits (drop l1 left) (drop r1 right)"
      using Cons.prems(2) by (cases e) (simp_all add: l1_def r1_def drop_Suc tl_drop)
    have at: "hunk_at (push_edit left right l r e h) (old @ us1) (new @ vs1)"
      unfolding us1_def vs1_def by (rule hunk_at_push_edit [OF Cons.prems(3) same])
    from Cons.IH [OF loop rep at] obtain us vs where
      "drop l1 left = us @ drop l' left" "drop r1 right = vs @ drop r' right"
      "l' = l1 + length us" "r' = r1 + length vs" "hunk_at h' ((old @ us1) @ us) ((new @ vs1) @ vs)"
      "replay rest (drop l' left) (drop r' right)" "round_start ctx l' r' rest"
      "left_start h' = left_start h" "right_start h' = right_start h"
      by (elim exE conjE) (simp only: starts_push_edit)
    with l r show ?thesis by (intro exI [of _ "us1 @ us"] exI [of _ "vs1 @ vs"]) simp
  qed
qed

lemma hunk_at_new [simp]: "hunk_at (new_Hunk l r) [] []"
  by (simp add: hunk_at_def new_Hunk_def body_def FlushEdits_def)

lemma has_edits_push_edit:
  "edit \<noteq> kMatch \<Longrightarrow> has_edits (push_edit left right l r edit h)"
  by (cases edit) (simp_all add: push_edit_def has_edits_def PushLine_def)

lemma has_edits_mono: "has_edits h \<Longrightarrow> has_edits (push_edit left right l r edit h)"
  by (cases edit) (simp_all add: push_edit_def has_edits_def PushLine_def FlushEdits_def Let_def)

lemma has_edits_hunk_loop:
  "has_edits h \<Longrightarrow> has_edits (fst (hunk_loop left right ctx n l r h edits))"
  by (induction left right ctx n l r h edits rule: hunk_loop.induct) (auto simp: has_edits_mono)

text \<open>A round whose edits are not all matches: its hunk covers the text from \<open>p\<close> lines before the first edit.\<close>

lemma next_hunk_spec:
  assumes "next_hunk left right ctx l r edits = (h, l', r', rest)" "0 < ctx"
    and "replay edits (drop l left) (drop r right)" "round_start ctx l r edits"
    and "l \<le> length left" "r \<le> length right"
  shows "has_edits h \<longrightarrow> (\<exists>skip us vs. drop l left = skip @ us @ drop l' left \<and> drop r right = skip @ vs @ drop r' right \<and>
      left_start h = l + length skip + 1 \<and> right_start h = r + length skip + 1 \<and>
      l' = l + length skip + length us \<and> r' = r + length skip + length vs \<and>
      hunk_at h us vs \<and> replay rest (drop l' left) (drop r' right) \<and> round_start ctx l' r' rest)"
    "\<not> has_edits h \<longrightarrow> drop l left = drop r right"
proof -
  obtain l1 r1 es where f: "find_first_edit l r edits = (l1, r1, es)" by (cases "find_first_edit l r edits")
  from find_first_edit_spec [OF f assms(3)] obtain m where m: "l1 = l + m" "r1 = r + m"
    "edits = replicate m kMatch @ es" "es = [] \<or> hd es \<noteq> kMatch"
    "take m (drop l left) = take m (drop r right)" "replay es (drop l1 left) (drop r1 right)"
    "m \<le> length left - l" "m \<le> length right - r" by blast
  define p where "p = min l1 ctx"
  let ?h = "push_context left l1 p (new_Hunk (l1 - p + 1) (r1 - p + 1))"
  have loop: "hunk_loop left right ctx 0 l1 r1 ?h es = (h, l', r', rest)"
    using assms(1) by (simp add: next_hunk_def f p_def Let_def)
  have edited: "has_edits h \<longleftrightarrow> es \<noteq> []"
  proof (cases es)
    case Nil
    with loop show ?thesis by auto
  next
    case (Cons e es')
    with m(4) have "e \<noteq> kMatch" by simp
    with loop Cons assms(2) has_edits_push_edit [OF this, of left right l1 r1 ?h] has_edits_hunk_loop
    show ?thesis by (metis fst_conv hunk_loop.simps(2) le_zero_eq list.distinct(1) not_gr_zero)
  qed
  have lefts: "drop l left = take m (drop l left) @ drop l1 left" "drop r right = take m (drop r right) @ drop r1 right"
    using append_take_drop_id [of m "drop l left"] append_take_drop_id [of m "drop r right"]
    by (simp_all add: m(1,2) add.commute)
  show "\<not> has_edits h \<longrightarrow> drop l left = drop r right"
  proof
    assume "\<not> has_edits h"
    with edited m(6) have "drop l1 left = []" "drop r1 right = []" by simp_all
    with lefts m(5) show "drop l left = drop r right" by (metis append_Nil2)
  qed
  show "has_edits h \<longrightarrow> (\<exists>skip us vs. drop l left = skip @ us @ drop l' left \<and> drop r right = skip @ vs @ drop r' right \<and>
      left_start h = l + length skip + 1 \<and> right_start h = r + length skip + 1 \<and>
      l' = l + length skip + length us \<and> r' = r + length skip + length vs \<and>
      hunk_at h us vs \<and> replay rest (drop l' left) (drop r' right) \<and> round_start ctx l' r' rest)"
  proof
    assume "has_edits h"
    with edited have "es \<noteq> []" by simp
    with m(4) have "takeWhile (\<lambda>e. e = kMatch) edits = replicate m kMatch"
      unfolding m(3) by (cases es) (simp_all add: takeWhile_tail takeWhile_append)
    with assms(4) \<open>es \<noteq> []\<close> m(4) hd_in_set [OF \<open>es \<noteq> []\<close>] have "p \<le> m"
      by (auto simp: round_start_def next_edit_far_def p_def m(1,3) Let_def)
    define c where "c = take p (drop (l1 - p) left)"
    define skip where "skip = take (m - p) (drop l left)"
    have start: "l1 - p = l + (m - p)" "r1 - p = r + (m - p)" using \<open>p \<le> m\<close> m(1,2) by auto
    have split: "take m (drop l left) = skip @ c"
      using \<open>p \<le> m\<close> take_add [of "m - p" p "drop l left"]
      by (simp add: skip_def c_def start add.commute)
    have len: "length skip = m - p" "length c = p"
      using m(7) \<open>p \<le> m\<close> by (auto simp: skip_def c_def start)
    have at: "hunk_at ?h c c" and starts: "left_start ?h = l1 - p + 1" "right_start ?h = r1 - p + 1"
      using push_context_at [OF hunk_at_new, of p l1 left] m(1,7) assms(5)
      by (auto simp: c_def p_def new_Hunk_def)
    from hunk_loop_spec [OF loop m(6) at, unfolded starts] obtain us vs where u:
      "drop l1 left = us @ drop l' left" "drop r1 right = vs @ drop r' right"
      "l' = l1 + length us" "r' = r1 + length vs" "hunk_at h (c @ us) (c @ vs)"
      "replay rest (drop l' left) (drop r' right)" "round_start ctx l' r' rest"
      "left_start h = l1 - p + 1" "right_start h = r1 - p + 1" by (elim exE conjE)
    show "\<exists>skip us vs. drop l left = skip @ us @ drop l' left \<and> drop r right = skip @ vs @ drop r' right \<and>
      left_start h = l + length skip + 1 \<and> right_start h = r + length skip + 1 \<and>
      l' = l + length skip + length us \<and> r' = r + length skip + length vs \<and>
      hunk_at h us vs \<and> replay rest (drop l' left) (drop r' right) \<and> round_start ctx l' r' rest"
    proof (intro exI conjI)
      show "drop l left = skip @ (c @ us) @ drop l' left"
        using lefts(1) u(1) split by (metis append.assoc)
      show "drop r right = skip @ (c @ vs) @ drop r' right"
        using lefts(2) m(5) u(2) split by (metis append.assoc)
      show "left_start h = l + length skip + 1" "right_start h = r + length skip + 1"
        using u(8,9) start by (simp_all add: len)
      show "l' = l + length skip + length (c @ us)" "r' = r + length skip + length (c @ vs)"
        using u(3,4) m(1,2) \<open>p \<le> m\<close> by (simp_all add: len)
    qed (fact u(5-7))+
  qed
qed

lemma hunks_patch:
  assumes "0 < ctx" "replay edits (drop l left) (drop r right)" "round_start ctx l r edits"
    and "l \<le> length left" "r \<le> length right"
  shows "patch l r (hunks_from left right ctx l r edits) (drop l left) = Some (drop r right)"
  using assms
proof (induction "length edits" arbitrary: l r edits rule: less_induct)
  case less
  obtain h l' r' rest where n: "next_hunk left right ctx l r edits = (h, l', r', rest)"
    by (cases "next_hunk left right ctx l r edits")
  note spec = next_hunk_spec [OF n less.prems]
  show ?case
  proof (cases "edits = [] \<or> \<not> has_edits h")
    case True
    with less.prems(2) spec(2) n show ?thesis by (subst hunks_from.simps) auto
  next
    case False
    with spec(1) obtain skip us vs where s: "drop l left = skip @ us @ drop l' left"
      "drop r right = skip @ vs @ drop r' right"
      "left_start h = l + length skip + 1" "right_start h = r + length skip + 1"
      "l' = l + length skip + length us" "r' = r + length skip + length vs"
      "hunk_at h us vs" "replay rest (drop l' left) (drop r' right)" "round_start ctx l' r' rest"
      by blast
    have "l' \<le> length left" "r' \<le> length right"
      using arg_cong [OF s(1), of length] arg_cong [OF s(2), of length] less.prems(4,5) s(5,6) by auto
    from less.hyps [OF next_hunk_rest [OF n] less.prems(1) s(8,9) this] False
    have IH: "patch l' r' (hunks_from left right ctx l' r' rest) (drop l' left) = Some (drop r' right)" by blast
    have hs: "hunks_from left right ctx l r edits = h # hunks_from left right ctx l' r' rest"
      using False n by (subst hunks_from.simps) simp
    from s(7) have "old_lines (body h) = us" "new_lines (body h) = vs"
      "removes h + common h = length us" "adds h + common h = length vs" by (auto simp: hunk_at_def)
    with s IH show ?thesis unfolding hs by (simp add: Let_def s(1,2))
  qed
qed

lemma hunks_all_match: "hunks_from left right ctx l r (replicate n kMatch) = []"
proof -
  have "find_first_edit l r (replicate n kMatch) = (l + n, r + n, [])" for l r
    by (induction n arbitrary: l r) auto
  then show ?thesis by (subst hunks_from.simps) (simp add: next_hunk_def Let_def)
qed

lemma diff_is_patch:
  assumes "0 < ctx"
  shows "\<exists>hs. CreateUnifiedDiff left right ctx = Some (concat (map Hunk_PrintTo hs)) \<and>
    diff_hunks left right ctx = Some hs \<and> patch 0 0 hs left = Some right \<and> (hs = [] \<longleftrightarrow> left = right)"
proof -
  obtain edits where e: "CalculateOptimalEdits_lines left right = Some edits" "replay edits left right"
    "left = right \<longrightarrow> edits = replicate (length left) kMatch" using edits_lines_replay by blast
  let ?hs = "hunks_from left right ctx 0 0 edits"
  have p: "patch 0 0 ?hs left = Some right"
    using hunks_patch [OF assms, of edits 0 left 0 right] e(2) by (simp add: round_start_def)
  moreover have "?hs = [] \<longleftrightarrow> left = right"
    using p e(3) hunks_all_match by (metis option.inject patch.simps(1))
  ultimately show ?thesis using e(1) by (auto simp: CreateUnifiedDiff_def diff_hunks_def)
qed

text \<open>Without context lines every hunk ends before its first edit.\<close>

lemma unified_diff_no_context: "diff_hunks left right 0 = Some []"
proof -
  have "\<not> has_edits (fst (next_hunk left right 0 0 0 edits))" for edits
  proof -
    obtain l r es where "find_first_edit 0 0 edits = (l, r, es)" by (cases "find_first_edit 0 0 edits")
    then show ?thesis by (cases es) (simp_all add: next_hunk_def next_edit_far_def Let_def)
  qed
  then have "hunks_from left right 0 0 0 edits = []" for edits
    by (subst hunks_from.simps) (simp split: prod.split, metis fst_conv)
  with edits_lines_replay [of left right] show ?thesis by (auto simp: diff_hunks_def)
qed

lemma sizes_less:
  "double_less (double_of_size 1) (double_of_size 2)" "double_less (double_of_size 1) (double_of_size 3)"
  "\<not> double_less (double_of_size 2) (double_of_size 1)" "\<not> double_less (double_of_size 3) (double_of_size 1)"
  by (simp_all add: double_of_size_def double_of_ratio_def flog2_def bit_len.simps scale2_def
    round_half_even_def Let_def mag_num_def mag_den_def)

lemma list_update_numeral: "(x # xs)[numeral v := y] = x # xs[numeral v - 1 := y]"
  by (cases "numeral v :: nat") simp_all

text \<open>The edits are not the fewest: three replacements where a removal and an addition do.\<close>

lemma edits_not_optimal:
  "CalculateOptimalEdits [0, 1, 0] [1, 0, 1] = Some [kReplace, kReplace, kReplace] \<and>
   replay [kRemove, kMatch, kMatch, kAdd] [0, 1, 0 :: nat] [1, 0, 1]"
proof -
  have upt: "[0..<3] = [0, 1, 2]" "[0..<3 + 1] = [0, 1, 2, 3]" "[1..<3 + 1] = [1, 2, 3]"
    by (simp_all add: upt_rec)
  have len: "length [0, 1, 0 :: nat] = 3" "length [1, 0, 1 :: nat] = 3" by simp_all
  note cells = set_cells_def set_cell_def cell_def list_update_numeral double_less_irrefl sizes_less [simplified]
  define t where "t = empty_left 3 (empty_right 3 (new_tables 3 3))"
  obtain c where borders: "t = ([[double_of_size 0, double_of_size 1, double_of_size 2, double_of_size 3],
      [double_of_size 1, c, c, c], [double_of_size 2, c, c, c], [double_of_size 3, c, c, c]],
     [[kRemove, kAdd, kAdd, kAdd], [kRemove, kMatch, kMatch, kMatch],
      [kRemove, kMatch, kMatch, kMatch], [kRemove, kMatch, kMatch, kMatch]])"
    unfolding t_def empty_left_def empty_right_def upt
    by (simp add: new_tables_def cells numeral_3_eq_3)
  have "snd (fill_rows [0, 1, 0] [1, 0, 1] t) ! 3 ! 3 = kReplace \<and>
    snd (fill_rows [0, 1, 0] [1, 0, 1] t) ! 2 ! 2 = kReplace \<and> snd (fill_rows [0, 1, 0] [1, 0, 1] t) ! 1 ! 1 = kReplace"
    unfolding fill_rows_def len upt fold_simps id_apply comp_apply borders
    by (simp add: fill_cell_def Let_def cells)
  then show ?thesis unfolding t_def
    by (simp add: CalculateOptimalEdits_def Let_def best_path.simps cell_def numeral_3_eq_3 numeral_2_eq_2)
qed

section \<open>Properties\<close>

text \<open>\<open>CalculateOptimalEdits\<close> always returns, whatever rounding does to the costs, with edits that
  lead from the left lines to the right ones; equal texts have no edits.\<close>

lemma optimal_edits_replay:
  "\<exists>edits. CalculateOptimalEdits_lines left right = Some edits \<and> replay edits left right \<and>
    (left = right \<longrightarrow> edits = replicate (length left) kMatch)"
  by (rule edits_lines_replay)

end
