(* ===== verification/Gtest_DiffText.thy ===== *)
theory Gtest_DiffText
  imports Gtest_Diff
begin

text \<open>
  The text of a unified diff: a reader of it that knows nothing of the printer, and the patch that a
  text is. \<open>Hunk::PrintTo\<close> and \<open>PrintHeader\<close> of \<open>src/gtest.cc\<close> leave out the range of a side without
  edits; the reader then places the hunk by the other side.
\<close>

section \<open>The reader\<close>

record printed_hunk =
  left_range :: "(nat \<times> nat) option"
  right_range :: "(nat \<times> nat) option"
  printed_lines :: "edit_line list"

text \<open>The lines of a text, each ended by a newline.\<close>

primrec text_lines :: "string \<Rightarrow> string \<Rightarrow> string list" where
  "text_lines line [] = (if line = [] then [] else [line])"
| "text_lines line (c # s) = (if c = CHR 0x0A then line # text_lines [] s else text_lines (line @ [c]) s)"

text \<open>A sign, a line number, a comma and a number of lines.\<close>

definition read_range :: "char \<Rightarrow> string \<Rightarrow> (nat \<times> nat) option \<times> string" where
  "read_range sign s =
     (case s of
        [] \<Rightarrow> (None, s)
      | c # r \<Rightarrow>
          if c \<noteq> sign then (None, s)
          else
            case dropWhile is_digit r of
              [] \<Rightarrow> (None, s)
            | d # r' \<Rightarrow>
                if d \<noteq> CHR '','' then (None, s)
                else (Some (dec_value (takeWhile is_digit r), dec_value (takeWhile is_digit r')), dropWhile is_digit r'))"

definition read_header :: "string \<Rightarrow> ((nat \<times> nat) option \<times> (nat \<times> nat) option) option" where
  "read_header line =
     (if take 3 line \<noteq> ''@@ '' then None
      else
        let (left, s) = read_range CHR ''-'' (drop 3 line);
            s = (if left \<noteq> None \<and> take 2 s = '' +'' then drop 1 s else s);
            (right, s) = read_range CHR ''+'' s in
        if s = '' @@'' then Some (left, right) else None)"

definition is_edit_line :: "string \<Rightarrow> bool" where
  "is_edit_line s \<longleftrightarrow> s \<noteq> [] \<and> hd s \<in> {CHR '' '', CHR ''-'', CHR ''+''}"

function read_hunks :: "string list \<Rightarrow> printed_hunk list option" where
  "read_hunks [] = Some []"
| "read_hunks (line # lines) =
     (case read_header line of
        None \<Rightarrow> None
      | Some (left, right) \<Rightarrow>
          map_option (\<lambda>hs. \<lparr> left_range = left, right_range = right,
              printed_lines = map (\<lambda>s. (hd s, tl s)) (takeWhile is_edit_line lines) \<rparr> # hs)
            (read_hunks (dropWhile is_edit_line lines)))"
  by pat_completeness auto

termination
  by (relation "measure length") (simp_all add: length_dropWhile_le less_Suc_eq_le)

definition read_diff :: "string \<Rightarrow> printed_hunk list option" where
  "read_diff text = read_hunks (text_lines [] text)"

text \<open>
  Applying what was read to the lines of a text from line \<open>l\<close> on, the result from line \<open>r\<close> on. The ranges
  in the header must be the place and the lengths of the hunk; a side without a range has no edits.
\<close>

definition range_fits :: "(nat \<times> nat) option \<Rightarrow> nat \<Rightarrow> nat \<Rightarrow> bool" where
  "range_fits rng start len = (case rng of None \<Rightarrow> True | Some (a, n) \<Rightarrow> a = start + 1 \<and> n = len)"

primrec apply_hunks :: "nat \<Rightarrow> nat \<Rightarrow> printed_hunk list \<Rightarrow> string list \<Rightarrow> string list option" where
  "apply_hunks l r [] xs = Some xs"
| "apply_hunks l r (h # hs) xs =
     (let edits = printed_lines h; old = old_lines edits; new = new_lines edits;
          skip = (case left_range h of
              Some (a, n) \<Rightarrow> a - 1 - l
            | None \<Rightarrow> (case right_range h of Some (b, m) \<Rightarrow> b - 1 - r | None \<Rightarrow> 0)) in
      if range_fits (left_range h) (l + skip) (length old) \<and> range_fits (right_range h) (r + skip) (length new) \<and>
         (left_range h = None \<longleftrightarrow> CHR ''-'' \<notin> fst ` set edits) \<and>
         (right_range h = None \<longleftrightarrow> CHR ''+'' \<notin> fst ` set edits) \<and>
         edits \<noteq> [] \<and> skip \<le> length xs \<and> take (length old) (drop skip xs) = old
      then map_option (\<lambda>ys. take skip xs @ new @ ys)
        (apply_hunks (l + skip + length old) (r + skip + length new) hs (drop (skip + length old) xs))
      else None)"

section \<open>Reading what was printed\<close>

definition clean_line :: "string \<Rightarrow> bool" where
  "clean_line s \<longleftrightarrow> CHR 0x00 \<notin> set s \<and> CHR 0x0A \<notin> set s"

lemma text_lines_line: "CHR 0x0A \<notin> set s \<Longrightarrow> text_lines line (s @ CHR 0x0A # t) = (line @ s) # text_lines [] t"
  by (induction s arbitrary: line) auto

text \<open>The marks and counters of a hunk.\<close>

definition hunk_edits :: "Hunk \<Rightarrow> edit_line list" where
  "hunk_edits h = hunk_lines h @ hunk_removes h @ hunk_adds h"

definition counted_hunk :: "Hunk \<Rightarrow> bool" where
  "counted_hunk h \<longleftrightarrow> fst ` set (hunk_edits h) \<subseteq> {CHR '' '', CHR ''-'', CHR ''+''} \<and>
     (removes h = 0 \<longleftrightarrow> CHR ''-'' \<notin> fst ` set (hunk_edits h)) \<and>
     (adds h = 0 \<longleftrightarrow> CHR ''+'' \<notin> fst ` set (hunk_edits h))"

lemma body_edits: "body h = hunk_edits h"
  by (simp add: body_def hunk_edits_def FlushEdits_def)

lemma counted_PushLine:
  "c \<in> {CHR '' '', CHR ''-'', CHR ''+''} \<Longrightarrow> counted_hunk h \<Longrightarrow> counted_hunk (PushLine c s h)"
  by (auto simp: counted_hunk_def PushLine_def FlushEdits_def hunk_edits_def Let_def)

lemma counted_push_edit: "counted_hunk h \<Longrightarrow> counted_hunk (push_edit left right l r e h)"
  by (auto simp: push_edit_def Let_def intro!: counted_PushLine)

lemma counted_push_context: "counted_hunk h \<Longrightarrow> counted_hunk (push_context left l i h)"
  by (induction left l i h rule: push_context.induct) (simp_all add: counted_PushLine)

lemma counted_hunk_loop:
  "hunk_loop left right ctx n l r h edits = (h', l', r', rest) \<Longrightarrow> counted_hunk h \<Longrightarrow> counted_hunk h'"
proof (induction edits arbitrary: n l r h)
  case (Cons e edits)
  show ?case
  proof (cases "ctx \<le> n \<and> next_edit_far ctx (e # edits)")
    case True
    then show ?thesis using Cons.prems by simp
  next
    case False
    from Cons.prems(1) have "hunk_loop left right ctx (if e = kMatch then n + 1 else 0)
        (if e \<noteq> kAdd then l + 1 else l) (if e \<noteq> kRemove then r + 1 else r)
        (push_edit left right l r e h) edits = (h', l', r', rest)"
      by (simp only: hunk_loop.simps False if_False)
    from Cons.IH [OF this counted_push_edit [OF Cons.prems(2)]] show ?thesis .
  qed
qed simp

lemma counted_next_hunk:
  assumes "next_hunk left right ctx l r edits = (h, l', r', rest)"
  shows "counted_hunk h"
proof -
  obtain l1 r1 es where f: "find_first_edit l r edits = (l1, r1, es)" by (cases "find_first_edit l r edits")
  have "counted_hunk (new_Hunk a b)" for a b by (simp add: counted_hunk_def new_Hunk_def hunk_edits_def)
  then show ?thesis
    using assms counted_hunk_loop counted_push_context by (fastforce simp: next_hunk_def f Let_def)
qed

lemma hunks_counted: "h \<in> set (hunks_from left right ctx l r edits) \<Longrightarrow> counted_hunk h \<and> has_edits h"
proof (induction left right ctx l r edits rule: hunks_from.induct)
  case (1 left right ctx l r edits)
  obtain h1 l1 r1 rest where n: "next_hunk left right ctx l r edits = (h1, l1, r1, rest)"
    by (cases "next_hunk left right ctx l r edits")
  show ?case
  proof (cases "edits = [] \<or> \<not> has_edits h1")
    case True
    then show ?thesis using 1(2) n by (subst (asm) hunks_from.simps) (auto split: if_splits)
  next
    case False
    then have "h = h1 \<or> h \<in> set (hunks_from left right ctx l1 r1 rest)"
      using 1(2) n by (subst (asm) hunks_from.simps) auto
    then show ?thesis using 1(1) [OF _ n [symmetric] refl refl] counted_next_hunk [OF n] False by auto
  qed
qed

text \<open>What the reader makes of a hunk.\<close>

definition as_printed :: "Hunk \<Rightarrow> printed_hunk" where
  "as_printed h = \<lparr> left_range = (if removes h \<noteq> 0 then Some (left_start h, removes h + common h) else None),
     right_range = (if adds h \<noteq> 0 then Some (right_start h, adds h + common h) else None),
     printed_lines = body h \<rparr>"

definition header_line :: "Hunk \<Rightarrow> string" where
  "header_line h = butlast (PrintHeader h)"

lemma header_line: "PrintHeader h = header_line h @ [CHR 0x0A]"
  by (simp add: header_line_def PrintHeader_def butlast_append)

lemma digits_then:
  assumes "t = [] \<or> \<not> is_digit (hd t)"
  shows "takeWhile is_digit (dec_string n @ t) = dec_string n" "dropWhile is_digit (dec_string n @ t) = t"
  using takeWhile_digits [OF dec_string_digits assms] by simp_all

lemma read_range_printed:
  assumes "t = [] \<or> \<not> is_digit (hd t)"
  shows "read_range sign (sign # dec_string a @ CHR '','' # dec_string b @ t) = (Some (a, b), t)"
proof -
  have "\<not> is_digit CHR '',''" by (simp add: is_digit_def)
  then show ?thesis by (simp add: read_range_def digits_then [OF assms] digits_then)
qed

lemma read_header_printed:
  assumes "has_edits h"
  shows "read_header (header_line h) = Some (left_range (as_printed h), right_range (as_printed h))"
proof -
  let ?tail = "'' @@''"
  have e: "\<not> is_digit CHR '' ''" "read_range CHR ''+'' ?tail = (None, ?tail)" "read_range CHR ''-'' (CHR ''+'' # s) = (None, CHR ''+'' # s)" for s
    by (simp_all add: is_digit_def read_range_def)
  let ?l = "dec_string (left_start h) @ CHR '','' # dec_string (removes h + common h)"
  let ?r = "dec_string (right_start h) @ CHR '','' # dec_string (adds h + common h)"
  have "header_line h = ''@@ '' @ (if removes h \<noteq> 0 then CHR ''-'' # ?l else []) @
      (if removes h \<noteq> 0 \<and> adds h \<noteq> 0 then '' '' else []) @ (if adds h \<noteq> 0 then CHR ''+'' # ?r else []) @ ?tail"
    by (simp add: header_line_def PrintHeader_def butlast_append)
  then show ?thesis
    using assms read_range_printed [of "'' @@''"] read_range_printed [of "CHR '' '' # s" for s] e
    by (auto simp: read_header_def as_printed_def has_edits_def)
qed

lemma text_lines_edits:
  "\<forall>(e, s) \<in> set es. e \<noteq> CHR 0x0A \<and> clean_line s \<Longrightarrow>
     text_lines [] (concat (map (\<lambda>(edit, line). [edit] @ c_text line @ [CHR 0x0A]) es) @ t) =
       map (\<lambda>(e, s). e # s) es @ text_lines [] t"
proof (induction es)
  case (Cons x es)
  obtain e s where x: "x = (e, s)" by (cases x)
  then have "c_text s = s" "CHR 0x0A \<notin> set (e # s)" using Cons.prems by (auto simp: clean_line_def c_text_no_nul)
  with Cons text_lines_line [of "e # s" "[]"] show ?case by (simp add: x)
qed simp

lemma header_no_newline: "CHR 0x0A \<notin> set (header_line h)"
proof -
  have "CHR 0x0A \<notin> set (dec_string n)" for n
    using dec_string_digits [of n] by (auto simp: list_all_iff is_digit_def)
  then show ?thesis by (simp add: header_line_def PrintHeader_def butlast_append)
qed

definition readable :: "Hunk \<Rightarrow> bool" where
  "readable h \<longleftrightarrow> counted_hunk h \<and> has_edits h \<and> (\<forall>(e, s) \<in> set (body h). clean_line s)"

lemma text_lines_hunk:
  assumes "readable h"
  shows "text_lines [] (Hunk_PrintTo h @ t) = header_line h # map (\<lambda>(e, s). e # s) (body h) @ text_lines [] t"
proof -
  have "\<forall>(e, s) \<in> set (body h). e \<noteq> CHR 0x0A \<and> clean_line s"
    using assms by (fastforce simp: readable_def counted_hunk_def body_edits)
  from text_lines_edits [OF this, of t] text_lines_line [OF header_no_newline, of "[]" h] show ?thesis
    by (simp add: Hunk_PrintTo_def header_line body_def)
qed

lemma header_not_edit [simp]: "\<not> is_edit_line (header_line h)"
  by (simp add: is_edit_line_def header_line_def PrintHeader_def butlast_append)

lemma takeWhile_dropWhile_marked:
  assumes "\<forall>x \<in> set xs. P x" and "ys = [] \<or> \<not> P (hd ys)"
  shows "takeWhile P (xs @ ys) = xs" "dropWhile P (xs @ ys) = ys"
  using assms by (induction xs) (cases ys; simp)+

lemma read_printed:
  "\<forall>h \<in> set hs. readable h \<Longrightarrow> read_diff (concat (map Hunk_PrintTo hs)) = Some (map as_printed hs)"
proof (induction hs)
  case (Cons h hs)
  let ?t = "text_lines [] (concat (map Hunk_PrintTo hs))" and ?b = "map (\<lambda>(e, s). e # s) (body h)"
  have h: "readable h" using Cons.prems by simp
  have b: "\<forall>s \<in> set ?b. is_edit_line s"
    using h by (fastforce simp: is_edit_line_def readable_def counted_hunk_def body_edits)
  have t: "?t = [] \<or> \<not> is_edit_line (hd ?t)"
  proof (cases hs)
    case (Cons h' hs')
    then have "readable h'" using Cons.prems by simp
    from text_lines_hunk [OF this] show ?thesis by (simp add: Cons)
  qed simp
  then have split: "takeWhile is_edit_line (?b @ ?t) = ?b" "dropWhile is_edit_line (?b @ ?t) = ?t"
    using takeWhile_dropWhile_marked [OF b t] by auto
  have "map (\<lambda>s. (hd s, tl s)) ?b = body h" by (simp add: comp_def split_def)
  then show ?case
    using h Cons.IH Cons.prems split read_header_printed [of h]
    by (simp add: read_diff_def text_lines_hunk [OF h] readable_def as_printed_def)
qed (simp add: read_diff_def)

text \<open>A patch of hunks is the patch of their texts.\<close>

lemma patch_lines:
  "patch l r hs xs = Some ys \<Longrightarrow> h \<in> set hs \<Longrightarrow> (e, s) \<in> set (body h) \<Longrightarrow> s \<in> set xs \<union> set ys"
proof (induction hs arbitrary: l r xs ys)
  case (Cons h' hs)
  let ?skip = "left_start h' - 1 - l" and ?old = "old_lines (body h')" and ?new = "new_lines (body h')"
  obtain zs where z: "patch (l + ?skip + length ?old) (r + ?skip + length ?new) hs (drop (?skip + length ?old) xs) = Some zs"
    "ys = take ?skip xs @ ?new @ zs" "take (length ?old) (drop ?skip xs) = ?old"
    using Cons.prems(1) by (auto simp: Let_def split: if_splits)
  show ?case
  proof (cases "h = h'")
    case True
    have "s \<in> set ?old \<or> s \<in> set ?new"
      using Cons.prems(3) True by (force simp: old_lines_def new_lines_def)
    then show ?thesis using z(2,3) by (metis Un_iff in_set_dropD in_set_takeD set_append)
  next
    case False
    then have "s \<in> set (drop (?skip + length ?old) xs) \<union> set zs"
      using Cons.IH [OF z(1)] Cons.prems by auto
    then show ?thesis using z(2) by (auto dest: in_set_dropD)
  qed
qed simp

lemma patch_printed:
  "patch l r hs xs = Some ys \<Longrightarrow> \<forall>h \<in> set hs. counted_hunk h \<and> has_edits h \<Longrightarrow>
     apply_hunks l r (map as_printed hs) xs = Some ys"
proof (induction hs arbitrary: l r xs ys)
  case (Cons h hs)
  let ?skip = "left_start h - 1 - l" and ?old = "old_lines (body h)" and ?new = "new_lines (body h)"
  have p: "l < left_start h" "right_start h = r + ?skip + 1" "?skip \<le> length xs"
    "take (length ?old) (drop ?skip xs) = ?old"
    "removes h + common h = length ?old" "adds h + common h = length ?new"
    using Cons.prems(1) by (simp_all add: Let_def split: if_splits)
  obtain zs where z: "patch (l + ?skip + length ?old) (r + ?skip + length ?new) hs (drop (?skip + length ?old) xs) = Some zs"
    "ys = take ?skip xs @ ?new @ zs"
    using Cons.prems(1) by (auto simp: Let_def split: if_splits)
  have c: "counted_hunk h" "has_edits h" using Cons.prems(2) by simp_all
  have skip: "(case left_range (as_printed h) of Some (a, n) \<Rightarrow> a - 1 - l
      | None \<Rightarrow> (case right_range (as_printed h) of Some (b, m) \<Rightarrow> b - 1 - r | None \<Rightarrow> 0)) = ?skip"
    using c(2) p(2) by (auto simp: as_printed_def has_edits_def)
  have fits: "range_fits (left_range (as_printed h)) (l + ?skip) (length ?old)"
    "range_fits (right_range (as_printed h)) (r + ?skip) (length ?new)"
    using p by (auto simp: range_fits_def as_printed_def)
  have marks: "left_range (as_printed h) = None \<longleftrightarrow> CHR ''-'' \<notin> fst ` set (body h)"
    "right_range (as_printed h) = None \<longleftrightarrow> CHR ''+'' \<notin> fst ` set (body h)"
    using c(1) by (auto simp: as_printed_def counted_hunk_def body_edits)
  have ne: "body h \<noteq> []" using c by (auto simp: counted_hunk_def body_edits has_edits_def)
  have b: "printed_lines (as_printed h) = body h" by (simp add: as_printed_def)
  from Cons.IH [OF z(1)] Cons.prems(2)
  have IH: "apply_hunks (l + ?skip + length ?old) (r + ?skip + length ?new) (map as_printed hs) (drop (?skip + length ?old) xs) = Some zs"
    by simp
  show ?case
    unfolding list.map apply_hunks.simps b Let_def skip
    using fits marks ne p(3,4) IH z(2) by simp
qed simp

lemma printed_diff:
  assumes "0 < ctx" and "\<forall>s \<in> set left \<union> set right. clean_line s"
  shows "\<exists>hs. CreateUnifiedDiff left right ctx = Some (concat (map Hunk_PrintTo hs)) \<and>
    patch 0 0 hs left = Some right \<and> (hs = [] \<longleftrightarrow> left = right) \<and>
    read_diff (concat (map Hunk_PrintTo hs)) = Some (map as_printed hs) \<and>
    apply_hunks 0 0 (map as_printed hs) left = Some right"
proof -
  obtain hs where hs: "CreateUnifiedDiff left right ctx = Some (concat (map Hunk_PrintTo hs))"
    "diff_hunks left right ctx = Some hs" "patch 0 0 hs left = Some right" "hs = [] \<longleftrightarrow> left = right"
    using diff_is_patch [OF assms(1), of left right] by blast
  have c: "counted_hunk h \<and> has_edits h" if "h \<in> set hs" for h
    using hs(2) that hunks_counted by (auto simp: diff_hunks_def)
  have "readable h" if "h \<in> set hs" for h
    using c [OF that] patch_lines [OF hs(3) that] assms(2) by (fastforce simp: readable_def)
  then show ?thesis
    using hs c read_printed [of hs] patch_printed [OF hs(3)] by auto
qed

section \<open>Properties\<close>

text \<open>C18: The unified diff is a correct patch: for texts whose lines contain no NUL and no newline and at
  least one line of context, the text \<open>CreateUnifiedDiff\<close> prints is read back, by a reader of unified
  diffs, as hunks that, applied to the left lines at the places and with the lengths in their headers,
  give the right lines; it is empty only if the texts are equal.\<close>

theorem unified_diff_patches:
  assumes "0 < ctx" and "\<forall>s \<in> set left \<union> set right. clean_line s"
  shows "\<exists>text hs. CreateUnifiedDiff left right ctx = Some text \<and> read_diff text = Some hs \<and>
    apply_hunks 0 0 hs left = Some right \<and> (text = [] \<longleftrightarrow> left = right)"
proof -
  obtain hs where "CreateUnifiedDiff left right ctx = Some (concat (map Hunk_PrintTo hs))"
    "hs = [] \<longleftrightarrow> left = right" "read_diff (concat (map Hunk_PrintTo hs)) = Some (map as_printed hs)"
    "apply_hunks 0 0 (map as_printed hs) left = Some right"
    using printed_diff [OF assms] by blast
  moreover have "concat (map Hunk_PrintTo hs) = [] \<longleftrightarrow> hs = []"
    by (cases hs) (simp_all add: Hunk_PrintTo_def PrintHeader_def)
  ultimately show ?thesis by metis
qed

theorem unified_diff_patches_witness:
  "\<exists>text hs. CreateUnifiedDiff [''a'', ''b'', ''c''] [''a'', ''x'', ''c''] 2 = Some text \<and> read_diff text = Some hs \<and>
    apply_hunks 0 0 hs [''a'', ''b'', ''c''] = Some [''a'', ''x'', ''c''] \<and> text \<noteq> []"
proof -
  have "\<forall>s \<in> set [''a'', ''b'', ''c''] \<union> set [''a'', ''x'', ''c'']. clean_line s" by (simp add: clean_line_def)
  from unified_diff_patches [OF _ this, of 2] show ?thesis by fastforce
qed

end
