(* ===== verification/Gtest_Printers.thy ===== *)
theory Gtest_Printers
  imports Gtest_String
begin

text \<open>
  How googletest prints values (\<open>googletest-1.8.0/src/gtest-printers.cc\<close>, \<open>gtest-printers.h\<close>):
  the bytes of an object, characters and strings as C++ literals, arrays, containers, pairs and
  tuples. What is streamed is the text a printer returns; a printer of elements is an argument, and
  so is the text the standard library streams for an address. The reference is a reader of string
  literals that follows the rules of C++ (phases 5 and 6 of translation).
\<close>

unbundle bit_operations_syntax

section \<open>Bytes\<close>

definition hex2 :: "8 word \<Rightarrow> string" where
  "hex2 b = [hex_digit (unat b div 16), hex_digit (unat b mod 16)]"

text \<open>The loop over \<open>i\<close>, with the bytes from index \<open>start + i\<close> on.\<close>

fun print_bytes :: "nat \<Rightarrow> nat \<Rightarrow> 8 word list \<Rightarrow> string" where
  "print_bytes start i [] = []"
| "print_bytes start i (b # bs) =
     (if i \<noteq> 0 then (if (start + i) mod 2 = 0 then '' '' else ''-'') else []) @ hex2 b @
     print_bytes start (i + 1) bs"

definition PrintByteSegmentInObjectTo :: "8 word list \<Rightarrow> nat \<Rightarrow> nat \<Rightarrow> string" where
  "PrintByteSegmentInObjectTo obj_bytes start n = print_bytes start 0 (take n (drop start obj_bytes))"

definition PrintBytesInObjectToImpl :: "8 word list \<Rightarrow> string" where
  "PrintBytesInObjectToImpl obj_bytes =
     (let n = length obj_bytes; kThreshold = 132; kChunkSize = 64;
          resume_pos = (n - kChunkSize + 1) div 2 * 2 in
      dec_string n @ ''-byte object <'' @
      (if n < kThreshold then PrintByteSegmentInObjectTo obj_bytes 0 n
       else PrintByteSegmentInObjectTo obj_bytes 0 kChunkSize @ '' ... '' @
         PrintByteSegmentInObjectTo obj_bytes resume_pos (n - resume_pos)) @
      ''>'')"

section \<open>Characters\<close>

datatype CharFormat = kAsIs | kHexEscape | kSpecialEscape

definition IsPrintableAscii :: "32 word \<Rightarrow> bool" where
  "IsPrintableAscii c \<longleftrightarrow> 0x20 \<le> sint c \<and> sint c \<le> 0x7E"

text \<open>
  A character is the value of \<open>static_cast<wchar_t>\<close>; \<open>wide\<close> tells whether \<open>UnsignedChar\<close> is
  \<open>wchar_t\<close> or \<open>unsigned char\<close>.
\<close>

definition to_UnsignedChar :: "bool \<Rightarrow> 32 word \<Rightarrow> 32 word" where
  "to_UnsignedChar wide c = (if wide then c else c AND 0xFF)"

definition PrintAsCharLiteralTo :: "bool \<Rightarrow> 32 word \<Rightarrow> string \<times> CharFormat" where
  "PrintAsCharLiteralTo wide c =
     (if c = 0 then ([CHR 0x5C, CHR ''0''], kSpecialEscape)
      else if c = 0x27 then ([CHR 0x5C, CHR 0x27], kSpecialEscape)
      else if c = 0x5C then ([CHR 0x5C, CHR 0x5C], kSpecialEscape)
      else if c = 0x07 then ([CHR 0x5C, CHR ''a''], kSpecialEscape)
      else if c = 0x08 then ([CHR 0x5C, CHR ''b''], kSpecialEscape)
      else if c = 0x0C then ([CHR 0x5C, CHR ''f''], kSpecialEscape)
      else if c = 0x0A then ([CHR 0x5C, CHR ''n''], kSpecialEscape)
      else if c = 0x0D then ([CHR 0x5C, CHR ''r''], kSpecialEscape)
      else if c = 0x09 then ([CHR 0x5C, CHR ''t''], kSpecialEscape)
      else if c = 0x0B then ([CHR 0x5C, CHR ''v''], kSpecialEscape)
      else if IsPrintableAscii c then ([to_char c], kAsIs)
      else ([CHR 0x5C, CHR ''x''] @ FormatHexInt (to_UnsignedChar wide c), kHexEscape))"

definition PrintAsStringLiteralTo :: "32 word \<Rightarrow> string \<times> CharFormat" where
  "PrintAsStringLiteralTo c =
     (if c = 0x27 then ([CHR 0x27], kAsIs)
      else if c = 0x22 then ([CHR 0x5C, CHR 0x22], kSpecialEscape)
      else PrintAsCharLiteralTo True c)"

definition PrintCharAndCodeTo :: "bool \<Rightarrow> 32 word \<Rightarrow> string" where
  "PrintCharAndCodeTo wide c =
     (let (literal, format) = PrintAsCharLiteralTo wide c in
      (if wide then ''L'' else []) @ [CHR 0x27] @ literal @ [CHR 0x27] @
      (if c = 0 then []
       else '' ('' @ int_string (sint c) @
         (if format = kHexEscape \<or> 1 \<le> sint c \<and> sint c \<le> 9 then []
          else '', 0x'' @ FormatHexInt (to_UnsignedChar wide c)) @ '')''))"

definition PrintTo_unsigned_char :: "8 word \<Rightarrow> string" where
  "PrintTo_unsigned_char c = PrintCharAndCodeTo False (ucast c)"

definition PrintTo_signed_char :: "8 word \<Rightarrow> string" where
  "PrintTo_signed_char c = PrintCharAndCodeTo False (scast c)"

definition PrintTo_char :: "char \<Rightarrow> string" where
  "PrintTo_char c = PrintTo_unsigned_char (of_nat (code c))"

definition PrintTo_wchar :: "32 word \<Rightarrow> string" where
  "PrintTo_wchar wc = PrintCharAndCodeTo True wc"

definition PrintTo_bool :: "bool \<Rightarrow> string" where
  "PrintTo_bool x = (if x then ''true'' else ''false'')"

section \<open>Strings\<close>

definition kQuoteBegin :: "bool \<Rightarrow> string" where
  "kQuoteBegin wide = (if wide then ''L'' else []) @ [CHR 0x22]"

fun print_chars :: "string \<Rightarrow> bool \<Rightarrow> 32 word list \<Rightarrow> string" where
  "print_chars quote_begin is_previous_hex [] = []"
| "print_chars quote_begin is_previous_hex (cur # cs) =
     (let (literal, format) = PrintAsStringLiteralTo cur in
      (if is_previous_hex \<and> IsXDigit_wide cur then [CHR 0x22, CHR '' ''] @ quote_begin else []) @
      literal @ print_chars quote_begin (format = kHexEscape) cs)"

definition PrintCharsAsStringTo :: "bool \<Rightarrow> 32 word list \<Rightarrow> string" where
  "PrintCharsAsStringTo wide cs =
     kQuoteBegin wide @ print_chars (kQuoteBegin wide) False cs @ [CHR 0x22]"

definition UniversalPrintCharArray :: "bool \<Rightarrow> 32 word list \<Rightarrow> string" where
  "UniversalPrintCharArray wide cs =
     (if 0 < length cs \<and> cs ! (length cs - 1) = 0
      then PrintCharsAsStringTo wide (take (length cs - 1) cs)
      else PrintCharsAsStringTo wide cs @ '' (no terminating NUL)'')"

definition chars_of :: "string \<Rightarrow> 32 word list" where
  "chars_of s = map (\<lambda>c. of_nat (code c)) s"

definition PrintStringTo :: "string \<Rightarrow> string" where
  "PrintStringTo s = PrintCharsAsStringTo False (chars_of s)"

definition PrintWideStringTo :: "32 word list \<Rightarrow> string" where
  "PrintWideStringTo s = PrintCharsAsStringTo True s"

text \<open>A C string is its address, as the library streams it, and its characters.\<close>

definition PrintTo_C_string :: "(string \<times> string) option \<Rightarrow> string" where
  "PrintTo_C_string s =
     (case s of None \<Rightarrow> ''NULL''
      | Some (address, str) \<Rightarrow> address @ '' pointing to '' @ PrintStringTo str)"

definition PrintTo_wide_C_string :: "(string \<times> 32 word list) option \<Rightarrow> string" where
  "PrintTo_wide_C_string s =
     (case s of None \<Rightarrow> ''NULL''
      | Some (address, str) \<Rightarrow> address @ '' pointing to '' @ PrintWideStringTo str)"

section \<open>Compound values\<close>

definition PrintTo_pointer :: "string option \<Rightarrow> string" where
  "PrintTo_pointer p = (case p of None \<Rightarrow> ''NULL'' | Some address \<Rightarrow> address)"

definition PrintTo_pair :: "('a \<Rightarrow> string) \<Rightarrow> ('b \<Rightarrow> string) \<Rightarrow> 'a \<times> 'b \<Rightarrow> string" where
  "PrintTo_pair print_first print_second v =
     ''('' @ print_first (fst v) @ '', '' @ print_second (snd v) @ '')''"

text \<open>The loop over a container; \<open>n\<close> elements have been printed.\<close>

fun print_elements :: "('a \<Rightarrow> string) \<Rightarrow> nat \<Rightarrow> 'a list \<Rightarrow> string \<times> nat" where
  "print_elements print_one n [] = ([], n)"
| "print_elements print_one n (x # xs) =
     (if n = 32 then ('', ...'', n)
      else let (rest, m) = print_elements print_one (n + 1) xs in
        ((if 0 < n then '','' else []) @ '' '' @ print_one x @ rest, m))"

definition DefaultPrintTo_container :: "('a \<Rightarrow> string) \<Rightarrow> 'a list \<Rightarrow> string" where
  "DefaultPrintTo_container print_one xs =
     (let (elements, n) = print_elements print_one 0 xs in
      ''{'' @ elements @ (if 0 < n then '' '' else []) @ ''}'')"

text \<open>\<open>PrintRawArrayTo\<close> reads the first element whatever the count is.\<close>

fun PrintRawArrayTo :: "('a \<Rightarrow> string) \<Rightarrow> 'a list \<Rightarrow> string option" where
  "PrintRawArrayTo print_one [] = None"
| "PrintRawArrayTo print_one (x # xs) = Some (print_one x @ concat (map (\<lambda>y. '', '' @ print_one y) xs))"

definition UniversalPrintArray :: "('a \<Rightarrow> string) \<Rightarrow> 'a list \<Rightarrow> string option" where
  "UniversalPrintArray print_one xs =
     (if length xs = 0 then Some ''{}''
      else
        let kThreshold = 18; kChunkSize = 8 in
        map_option (\<lambda>elements. ''{ '' @ elements @ '' }'')
          (if length xs \<le> kThreshold then PrintRawArrayTo print_one xs
           else case (PrintRawArrayTo print_one (take kChunkSize xs),
                      PrintRawArrayTo print_one (drop (length xs - kChunkSize) xs)) of
             (Some a, Some b) \<Rightarrow> Some (a @ '', ..., '' @ b)
           | _ \<Rightarrow> None))"

text \<open>A tuple is the list of the texts its fields are printed as; the first one is field 0.\<close>

fun PrintPrefixTo :: "string list \<Rightarrow> nat \<Rightarrow> string" where
  "PrintPrefixTo texts 0 = []"
| "PrintPrefixTo texts (Suc n) =
     PrintPrefixTo texts n @ (if 0 < n then '', '' else []) @ texts ! n"

definition PrintTupleTo :: "string list \<Rightarrow> string" where
  "PrintTupleTo texts = ''('' @ PrintPrefixTo texts (length texts) @ '')''"

definition UniversalTersePrint_C_string :: "string option \<Rightarrow> string" where
  "UniversalTersePrint_C_string str = (case str of None \<Rightarrow> ''NULL'' | Some s \<Rightarrow> PrintStringTo s)"

definition UniversalTersePrint_wide_C_string :: "32 word list option \<Rightarrow> string" where
  "UniversalTersePrint_wide_C_string str = (case str of None \<Rightarrow> ''NULL'' | Some s \<Rightarrow> PrintWideStringTo s)"

definition UniversalPrint_reference :: "string \<Rightarrow> string \<Rightarrow> string" where
  "UniversalPrint_reference address print_value = ''@'' @ address @ '' '' @ print_value"

text \<open>An array prints without reading behind its elements; no bytes of a small object are left out.\<close>

lemma print_array_returns: "\<exists>s. UniversalPrintArray print_one xs = Some s"
proof (cases "xs = [] \<or> length xs \<le> 18")
  case True
  then show ?thesis by (cases xs) (auto simp: UniversalPrintArray_def)
next
  case False
  then have "take 8 xs \<noteq> []" "drop (length xs - 8) xs \<noteq> []" by auto
  then obtain a as b bs where "take 8 xs = a # as" "drop (length xs - 8) xs = b # bs"
    by (meson neq_Nil_conv)
  with False show ?thesis by (simp add: UniversalPrintArray_def Let_def)
qed

lemma print_prefix: "n \<le> length texts \<Longrightarrow>
    PrintPrefixTo texts n = concat (map (\<lambda>i. (if 0 < i then '', '' else []) @ texts ! i) [0..<n])"
  by (induction n) auto

lemma resume_position:
  fixes n :: nat
  assumes "132 \<le> n"
  shows "even ((n - 64 + 1) div 2 * 2)" "64 < (n - 64 + 1) div 2 * 2" "(n - 64 + 1) div 2 * 2 \<le> n"
    "n - (n - 64 + 1) div 2 * 2 = 63 \<or> n - (n - 64 + 1) div 2 * 2 = 64"
  using assms by presburger+

section \<open>The reference: reading string literals\<close>

fun escape_value :: "char \<Rightarrow> nat option" where
  "escape_value c =
     (if c = CHR ''a'' then Some 7 else if c = CHR ''b'' then Some 8 else if c = CHR ''t'' then Some 9
      else if c = CHR ''n'' then Some 10 else if c = CHR ''v'' then Some 11 else if c = CHR ''f'' then Some 12
      else if c = CHR ''r'' then Some 13 else if c \<in> {CHR 0x22, CHR 0x27, CHR 0x5C, CHR ''?''} then Some (code c)
      else None)"

definition is_octal :: "char \<Rightarrow> bool" where
  "is_octal c \<longleftrightarrow> 48 \<le> code c \<and> code c \<le> 55"

definition digit_value :: "char \<Rightarrow> nat" where
  "digit_value c = (if IsDigit c then code c - 48 else if IsUpper c then code c - 55 else code c - 87)"

definition number_in_base :: "nat \<Rightarrow> string \<Rightarrow> nat" where
  "number_in_base base s = foldl (\<lambda>n c. base * n + digit_value c) 0 s"

text \<open>
  The characters of adjacent literals, separated by a blank, up to the end of the text; the first
  argument is the prefix and the quote a literal begins with. A hexadecimal escape takes all the
  digits that follow, an octal one up to three.
\<close>

function read_literals :: "string \<Rightarrow> string \<Rightarrow> nat list option" where
  "read_literals q s =
     (case s of
        [] \<Rightarrow> None
      | c # t \<Rightarrow>
          if c = CHR 0x22 then
            (if t = [] then Some []
             else if take (length q + 1) t = CHR '' '' # q then read_literals q (drop (length q + 1) t)
             else None)
          else if c = CHR 0x5C then
            (case t of
               [] \<Rightarrow> None
             | d # u \<Rightarrow>
                 if d = CHR ''x'' then
                   (if takeWhile IsXDigit u = [] then None
                    else map_option ((#) (number_in_base 16 (takeWhile IsXDigit u)))
                      (read_literals q (dropWhile IsXDigit u)))
                 else if is_octal d then
                   (let ds = takeWhile is_octal (take 3 t) in
                    map_option ((#) (number_in_base 8 ds)) (read_literals q (drop (length ds) t)))
                 else
                   (case escape_value d of
                      None \<Rightarrow> None
                    | Some v \<Rightarrow> map_option ((#) v) (read_literals q u)))
          else map_option ((#) (code c)) (read_literals q t))"
  by pat_completeness auto

termination
  by (relation "measure (\<lambda>(q, s). length s)") (auto simp: less_Suc_eq_le intro: le_trans [OF length_dropWhile_le])

declare read_literals.simps [simp del]

definition read_string_literal :: "bool \<Rightarrow> string \<Rightarrow> nat list option" where
  "read_string_literal wide s =
     (let q = kQuoteBegin wide in
      if take (length q) s = q then read_literals q (drop (length q) s) else None)"

lemma read_literals_simps:
  "read_literals q [CHR 0x22] = Some []"
  "read_literals q (CHR 0x22 # CHR '' '' # q @ s) = read_literals q s"
  "c \<noteq> CHR 0x22 \<Longrightarrow> c \<noteq> CHR 0x5C \<Longrightarrow> read_literals q (c # s) = map_option ((#) (code c)) (read_literals q s)"
  "d \<noteq> CHR ''x'' \<Longrightarrow> \<not> is_octal d \<Longrightarrow> escape_value d = Some v \<Longrightarrow>
     read_literals q (CHR 0x5C # d # s) = map_option ((#) v) (read_literals q s)"
  by (subst read_literals.simps; simp)+

lemma read_hex_escape:
  assumes "\<forall>c \<in> set h. IsXDigit c" "h \<noteq> []" "s = [] \<or> \<not> IsXDigit (hd s)"
  shows "read_literals q ([CHR 0x5C, CHR ''x''] @ h @ s) =
    map_option ((#) (number_in_base 16 h)) (read_literals q s)"
proof -
  have "takeWhile IsXDigit (h @ s) = h" "dropWhile IsXDigit (h @ s) = s"
    using assms(1,3) by (cases s; simp add: takeWhile_tail takeWhile_append)+
  with assms(2) show ?thesis by (subst read_literals.simps) simp
qed

lemma read_octal_zero:
  assumes "s = [] \<or> \<not> is_octal (hd s)"
  shows "read_literals q ([CHR 0x5C, CHR ''0''] @ s) = map_option ((#) 0) (read_literals q s)"
proof -
  have "is_octal CHR ''0''" by (simp add: is_octal_def code_def)
  moreover from this have "takeWhile is_octal (take 3 (CHR ''0'' # s)) = [CHR ''0'']"
    using assms by (cases s) (simp_all add: numeral_3_eq_3)
  moreover have "number_in_base 8 [CHR ''0''] = 0"
    by (simp add: number_in_base_def digit_value_def IsDigit_def code_def)
  ultimately show ?thesis by (subst read_literals.simps) simp
qed

lemma hex_digit_value:
  assumes "d < 16"
  shows "IsXDigit (hex_digit d)" "digit_value (hex_digit d) = d"
  using assms
  by (auto simp: hex_digit_def IsXDigit_def digit_value_def IsDigit_def IsUpper_def code_def)

lemma hex_string_value:
  "(\<forall>c \<in> set (hex_string n). IsXDigit c) \<and> hex_string n \<noteq> [] \<and> number_in_base 16 (hex_string n) = n"
proof (induction n rule: hex_string.induct)
  case (1 n)
  show ?case
  proof (cases "n < 16")
    case True
    then show ?thesis by (subst (1 2 3) hex_string.simps) (simp add: hex_digit_value number_in_base_def)
  next
    case False
    with 1 show ?thesis
      by (subst (1 2 3) hex_string.simps) (auto simp: hex_digit_value number_in_base_def)
  qed
qed

section \<open>Printed strings read back\<close>

definition is_octal_code :: "32 word \<Rightarrow> bool" where
  "is_octal_code c \<longleftrightarrow> 48 \<le> unat c \<and> unat c \<le> 55"

text \<open>No NUL is followed by an octal digit.\<close>

definition no_digit_after_nul :: "32 word list \<Rightarrow> bool" where
  "no_digit_after_nul cs \<longleftrightarrow> (\<forall>i. Suc i < length cs \<longrightarrow> cs ! i = 0 \<longrightarrow> \<not> is_octal_code (cs ! Suc i))"

lemma no_digit_after_nul_Cons:
  "no_digit_after_nul (c # cs) \<longleftrightarrow>
     (c = 0 \<and> cs \<noteq> [] \<longrightarrow> \<not> is_octal_code (hd cs)) \<and> no_digit_after_nul cs"
proof (cases cs)
  case (Cons d ds)
  have "(Q 0 \<and> (\<forall>k. Q (Suc k))) = All Q" for Q
    using nat.induct [of Q] by blast
  from this [of "\<lambda>i. Suc i < length (c # cs) \<longrightarrow> (c # cs) ! i = 0 \<longrightarrow> \<not> is_octal_code ((c # cs) ! Suc i)"]
  show ?thesis unfolding no_digit_after_nul_def by (simp add: Cons)
qed (simp add: no_digit_after_nul_def)

lemma sint_nonneg_unat: "0 \<le> sint (c::32 word) \<Longrightarrow> sint c = int (unat c)"
proof -
  assume "0 \<le> sint c"
  moreover have "sint c < 2 ^ 31" using sint_lt [of c] by simp
  ultimately have "uint c = sint c" by (simp add: uint_sint take_bit_int_eq_self)
  then show ?thesis unfolding uint_nat by (rule sym)
qed

lemma sint_small: "unat (c::32 word) < 2 ^ 31 \<Longrightarrow> sint c = int (unat c)"
proof -
  assume "unat c < 2 ^ 31"
  then have "uint c < 2 ^ 31" unfolding uint_nat using of_nat_less_iff [of "unat c" "2 ^ 31", where 'a = int] by simp
  then have "sint c = uint c"
    unfolding sint_uint by (intro signed_take_bit_int_eq_self) (simp_all add: order_trans [OF _ uint_ge_0])
  then show ?thesis unfolding uint_nat .
qed

lemma printable_code: "IsPrintableAscii c \<longleftrightarrow> 0x20 \<le> unat c \<and> unat c \<le> 0x7E"
proof (cases "0 \<le> sint c")
  case True
  then show ?thesis unfolding IsPrintableAscii_def sint_nonneg_unat [OF True] by linarith
next
  case False
  with sint_small [of c] have "\<not> unat c < 2 ^ 31" by linarith
  with False show ?thesis by (simp add: IsPrintableAscii_def)
qed

lemma xdigit_wide: "32 \<le> unat c \<and> unat c \<le> 126 \<Longrightarrow> IsXDigit_wide c = IsXDigit (char_of (unat c))"
proof -
  assume a: "(32 \<le> unat c \<and> unat c \<le> 126)"
  have "c AND 0xFF = take_bit 8 c" by (simp add: take_bit_eq_mask mask_eq_exp_minus_1)
  also have "... = c" using a by (intro word_unat_eq_iff [THEN iffD2]) (simp add: unsigned_take_bit_eq take_bit_nat_eq_self)
  finally show ?thesis by (simp add: IsXDigit_wide_def Let_def)
qed

text \<open>How a character is printed, and what it is.\<close>

lemma literal_cases:
  assumes "PrintAsStringLiteralTo c = (lit, format)"
  shows "c = 0 \<and> lit = [CHR 0x5C, CHR ''0''] \<and> format = kSpecialEscape \<or>
    (\<exists>d. lit = [CHR 0x5C, d] \<and> d \<noteq> CHR ''x'' \<and> \<not> is_octal d \<and> escape_value d = Some (unat c) \<and>
      format = kSpecialEscape) \<or>
    (\<exists>ch. lit = [ch] \<and> code ch = unat c \<and> ch \<noteq> CHR 0x22 \<and> ch \<noteq> CHR 0x5C \<and> format = kAsIs \<and>
      IsXDigit_wide c = IsXDigit ch) \<or>
    lit = [CHR 0x5C, CHR ''x''] @ hex_string (unat c) \<and> format = kHexEscape"
proof -
  consider "c = 0" | "c \<in> {0x22, 0x5C, 7, 8, 0xC, 0xA, 0xD, 9, 0xB}" | "c = 0x27"
    | "c \<notin> {0, 0x22, 0x5C, 7, 8, 0xC, 0xA, 0xD, 9, 0xB, 0x27}" by blast
  then show ?thesis
  proof cases
    case 1
    with assms show ?thesis by (simp add: PrintAsStringLiteralTo_def PrintAsCharLiteralTo_def)
  next
    case 2
    have "\<forall>(c, d) \<in> set [(0x22, CHR 0x22), (0x5C, CHR 0x5C), (7, CHR ''a''), (8, CHR ''b''), (0xC, CHR ''f''),
          (0xA, CHR ''n''), (0xD, CHR ''r''), (9, CHR ''t''), (0xB, CHR ''v'')].
        PrintAsStringLiteralTo c = ([CHR 0x5C, d], kSpecialEscape) \<and> d \<noteq> CHR ''x'' \<and> \<not> is_octal d \<and>
        escape_value d = Some (unat c)"
      by code_simp
    with 2 assms have "\<exists>d. lit = [CHR 0x5C, d] \<and> d \<noteq> CHR ''x'' \<and> \<not> is_octal d \<and>
        escape_value d = Some (unat c) \<and> format = kSpecialEscape"
      by (elim insertE emptyE) (auto simp del: escape_value.simps)
    then show ?thesis by blast
  next
    case 3
    with assms have "lit = [CHR 0x27]" "format = kAsIs" by (simp_all add: PrintAsStringLiteralTo_def)
    moreover have "IsXDigit_wide 0x27 = IsXDigit CHR 0x27" by code_simp
    ultimately show ?thesis using 3 by (simp add: code_def)
  next
    case 4
    show ?thesis
    proof (cases "IsPrintableAscii c")
      case True
      define ch where "ch = to_char c"
      from True have range: "32 \<le> unat c" "unat c \<le> 126" by (simp_all add: printable_code)
      then have code: "code ch = unat c" by (simp add: ch_def to_char_def code_def)
      have "unat c \<noteq> 0x22" "unat c \<noteq> 0x5C" using 4 by (auto simp: word_unat_eq_iff)
      with code have "ch \<noteq> CHR 0x22" "ch \<noteq> CHR 0x5C" by (auto simp: code_def)
      moreover have "IsXDigit_wide c = IsXDigit ch"
        using xdigit_wide range by (simp add: ch_def to_char_def)
      moreover have "lit = [ch]" "format = kAsIs"
        using assms 4 True by (simp_all add: PrintAsStringLiteralTo_def PrintAsCharLiteralTo_def ch_def)
      ultimately show ?thesis using code by blast
    next
      case False
      with assms 4 show ?thesis
        by (auto simp: PrintAsStringLiteralTo_def PrintAsCharLiteralTo_def FormatHexInt_def to_UnsignedChar_def)
    qed
  qed
qed

text \<open>What follows a hexadecimal escape, or a NUL, is no digit of it.\<close>

lemma print_chars_head:
  "let s = print_chars (kQuoteBegin w) prev cs @ [CHR 0x22] in
    s \<noteq> [] \<and> (prev \<longrightarrow> \<not> IsXDigit (hd s)) \<and>
    (\<not> prev \<and> (cs = [] \<or> \<not> is_octal_code (hd cs)) \<longrightarrow> \<not> is_octal (hd s))"
proof (cases cs)
  case Nil
  then show ?thesis by (simp add: IsXDigit_def IsDigit_def is_octal_def code_def)
next
  case (Cons c cs')
  obtain lit format where l: "PrintAsStringLiteralTo c = (lit, format)" by fastforce
  have marks: "\<not> IsXDigit CHR 0x22" "\<not> IsXDigit CHR 0x5C" "\<not> is_octal CHR 0x5C"
    by (simp_all add: IsXDigit_def IsDigit_def is_octal_def code_def)
  have eq: "print_chars (kQuoteBegin w) prev cs =
      (if prev \<and> IsXDigit_wide c then [CHR 0x22, CHR '' ''] @ kQuoteBegin w else []) @ lit @
      print_chars (kQuoteBegin w) (format = kHexEscape) cs'" by (simp add: Cons l)
  show ?thesis
    using literal_cases [OF l] marks unfolding eq
    by (elim disjE exE conjE) (auto simp: Cons Let_def is_octal_def is_octal_code_def)
qed

lemma read_print_chars:
  assumes "no_digit_after_nul cs"
  shows "read_literals (kQuoteBegin w) (print_chars (kQuoteBegin w) prev cs @ [CHR 0x22]) = Some (map unat cs)"
  using assms
proof (induction cs arbitrary: prev)
  case Nil
  then show ?case by (simp add: read_literals_simps)
next
  case (Cons c cs)
  let ?q = "kQuoteBegin w"
  obtain lit format where l: "PrintAsStringLiteralTo c = (lit, format)" by fastforce
  let ?rest = "print_chars ?q (format = kHexEscape) cs @ [CHR 0x22]"
  from Cons.prems have "no_digit_after_nul cs" and nul: "c = 0 \<longrightarrow> cs = [] \<or> \<not> is_octal_code (hd cs)"
    by (auto simp: no_digit_after_nul_Cons)
  then have IH: "read_literals ?q ?rest = Some (map unat cs)" using Cons.IH by blast
  note head = print_chars_head [of w "format = kHexEscape" cs, unfolded Let_def]
  have "read_literals ?q (lit @ ?rest) = Some (unat c # map unat cs)"
    using literal_cases [OF l]
  proof (elim disjE exE conjE)
    assume "c = 0" "lit = [CHR 0x5C, CHR ''0'']" "format = kSpecialEscape"
    with IH nul head show ?thesis by (simp add: read_octal_zero [simplified])
  next
    fix d assume "lit = [CHR 0x5C, d]" "d \<noteq> CHR ''x''" "\<not> is_octal d" "escape_value d = Some (unat c)"
    with IH show ?thesis by (simp add: read_literals_simps(4) del: escape_value.simps)
  next
    fix ch assume "lit = [ch]" "code ch = unat c" "ch \<noteq> CHR 0x22" "ch \<noteq> CHR 0x5C"
    with IH show ?thesis by (simp add: read_literals_simps(3))
  next
    assume "lit = [CHR 0x5C, CHR ''x''] @ hex_string (unat c)" "format = kHexEscape"
    with IH head hex_string_value [of "unat c"] show ?thesis
      using read_hex_escape [of "hex_string (unat c)" ?rest ?q] by simp
  qed
  then show ?case by (auto simp: l Let_def read_literals_simps(2))
qed

section \<open>Properties\<close>

text \<open>C34: A printed string is a string literal (or several adjacent ones) that means the string, for
  narrow and wide strings with any characters, unless a NUL is followed by an octal digit.\<close>

theorem print_string_round_trip:
  assumes "no_digit_after_nul cs"
  shows "read_string_literal wide (PrintCharsAsStringTo wide cs) = Some (map unat cs)"
  using read_print_chars [OF assms] by (simp add: read_string_literal_def PrintCharsAsStringTo_def Let_def)

theorem print_string_round_trip_witness:
  "read_string_literal False (PrintStringTo [CHR 0x07, CHR 0x7F, CHR ''a'', CHR 0x22]) = Some [7, 127, 97, 34]"
  unfolding PrintStringTo_def
  by (subst print_string_round_trip) (simp_all add: no_digit_after_nul_def chars_of_def code_def less_Suc_eq)

text \<open>A NUL and a digit are printed as an octal escape that means one other character.\<close>

lemma print_nul_digit: "read_string_literal False (PrintStringTo [CHR 0x00, CHR ''1'']) = Some [1]"
  by code_simp

end
