(* ===== verification/Gtest_Float.thy ===== *)
theory Gtest_Float
  imports Double_Arith "HOL-Library.Word"
begin

text \<open>
  The comparison of floating-point numbers by units in the last place: the class template
  \<open>FloatingPoint\<close> of \<open>googletest-1.8.0/include/gtest/internal/gtest-internal.h\<close>. A number is its bit
  pattern, a word of any length; \<open>k\<close> is the number of fraction bits (23 for \<open>float\<close>, 52 for
  \<open>double\<close>). The references are the integer a pattern is in sign-and-magnitude representation, and
  the number it stands for in the format of IEEE 754.
\<close>

unbundle bit_operations_syntax

section \<open>The class\<close>

definition kExponentBitCount :: "'a::len word itself \<Rightarrow> nat \<Rightarrow> nat" where
  "kExponentBitCount _ k = LENGTH('a) - 1 - k"

definition kSignBitMask :: "'a::len word" where
  "kSignBitMask = push_bit (LENGTH('a) - 1) 1"

definition kFractionBitMask :: "nat \<Rightarrow> 'a::len word" where
  "kFractionBitMask k = drop_bit (kExponentBitCount TYPE('a word) k + 1) (NOT 0)"

definition kExponentBitMask :: "nat \<Rightarrow> 'a::len word" where
  "kExponentBitMask k = NOT (kSignBitMask OR kFractionBitMask k)"

definition kMaxUlps :: nat where
  "kMaxUlps = 4"

definition Infinity :: "nat \<Rightarrow> 'a::len word" where
  "Infinity k = kExponentBitMask k"

definition exponent_bits :: "nat \<Rightarrow> 'a::len word \<Rightarrow> 'a word" where
  "exponent_bits k b = kExponentBitMask k AND b"

definition fraction_bits :: "nat \<Rightarrow> 'a::len word \<Rightarrow> 'a word" where
  "fraction_bits k b = kFractionBitMask k AND b"

definition sign_bit :: "'a::len word \<Rightarrow> 'a word" where
  "sign_bit b = kSignBitMask AND b"

definition is_nan :: "nat \<Rightarrow> 'a::len word \<Rightarrow> bool" where
  "is_nan k b \<longleftrightarrow> exponent_bits k b = kExponentBitMask k \<and> fraction_bits k b \<noteq> 0"

definition SignAndMagnitudeToBiased :: "'a::len word \<Rightarrow> 'a word" where
  "SignAndMagnitudeToBiased sam = (if kSignBitMask AND sam \<noteq> 0 then NOT sam + 1 else kSignBitMask OR sam)"

definition DistanceBetweenSignAndMagnitudeNumbers :: "'a::len word \<Rightarrow> 'a word \<Rightarrow> 'a word" where
  "DistanceBetweenSignAndMagnitudeNumbers sam1 sam2 =
     (let biased1 = SignAndMagnitudeToBiased sam1; biased2 = SignAndMagnitudeToBiased sam2 in
      if biased2 \<le> biased1 then biased1 - biased2 else biased2 - biased1)"

definition AlmostEquals :: "nat \<Rightarrow> 'a::len word \<Rightarrow> 'a word \<Rightarrow> bool" where
  "AlmostEquals k b rhs \<longleftrightarrow>
     (if is_nan k b \<or> is_nan k rhs then False
      else unat (DistanceBetweenSignAndMagnitudeNumbers b rhs) \<le> kMaxUlps)"

section \<open>Reference: sign and magnitude\<close>

definition magnitude :: "'a::len word \<Rightarrow> nat" where
  "magnitude b = unat b mod 2 ^ (LENGTH('a) - 1)"

definition negative :: "'a::len word \<Rightarrow> bool" where
  "negative b \<longleftrightarrow> 2 ^ (LENGTH('a) - 1) \<le> unat b"

definition sam_value :: "'a::len word \<Rightarrow> int" where
  "sam_value b = (if negative b then - int (magnitude b) else int (magnitude b))"

lemma double_sign: "2 * 2 ^ (LENGTH('a::len) - 1) = (2 ^ LENGTH('a) :: 'b::comm_semiring_1)"
  by (simp flip: power_Suc)

lemma magnitude_less: "magnitude (b :: 'a::len word) < 2 ^ (LENGTH('a) - 1)"
  by (simp add: magnitude_def)

lemma unat_double_sign: "unat (b :: 'a::len word) < 2 * 2 ^ (LENGTH('a) - 1)"
  unfolding double_sign by (rule unsigned_less)

lemma unat_split:
  "unat (b :: 'a::len word) = (if negative b then 2 ^ (LENGTH('a) - 1) else 0) + magnitude b"
  using unat_double_sign [of b]
  by (cases "negative b") (auto simp: negative_def magnitude_def le_mod_geq not_le mod_if)

lemma unat_sign_mask: "unat (kSignBitMask :: 'a::len word) = 2 ^ (LENGTH('a) - 1)"
proof -
  have "(2 ^ (LENGTH('a) - 1) :: nat) < 2 ^ LENGTH('a)" by simp
  then show ?thesis
    unfolding kSignBitMask_def unsigned_push_bit_eq by (simp add: push_bit_eq_mult take_bit_nat_eq_self)
qed

lemma sign_mask_iff: "kSignBitMask AND b \<noteq> 0 \<longleftrightarrow> negative (b :: 'a::len word)"
proof -
  have "kSignBitMask AND b \<noteq> 0 \<longleftrightarrow> bit b (LENGTH('a) - 1)"
    by (simp add: kSignBitMask_def push_bit_eq_mult and.commute [of _ b] and_exp_eq_0_iff_not_bit)
  also have "\<dots> \<longleftrightarrow> bit (unat b) (LENGTH('a) - 1)"
    by (simp add: bit_unsigned_iff)
  also have "\<dots> \<longleftrightarrow> odd (unat b div 2 ^ (LENGTH('a) - 1))"
    by (rule bit_iff_odd)
  also have "\<dots> \<longleftrightarrow> negative b"
    using magnitude_less [of b] by (subst unat_split) (simp add: div_add1_eq [of "2 ^ (LENGTH('a) - 1)"])
  finally show ?thesis .
qed

lemma biased_value:
  "int (unat (SignAndMagnitudeToBiased (b :: 'a::len word))) = 2 ^ (LENGTH('a) - 1) + sam_value b"
proof (cases "negative b")
  case True
  let ?n = "2 ^ (LENGTH('a) - 1) :: int"
  have "SignAndMagnitudeToBiased b = - b"
    using True by (simp add: SignAndMagnitudeToBiased_def sign_mask_iff minus_eq_not_plus_1)
  moreover have "uint b = ?n + int (magnitude b)"
    unfolding uint_nat using True by (subst unat_split) simp
  moreover have "uint (- b) = (- uint b) mod (2 * ?n)"
    unfolding double_sign by (rule uint_word_ariths)
  moreover have "(- (?n + int (magnitude b))) mod (2 * ?n) = ?n - int (magnitude b)"
  proof -
    have "int (magnitude b) < ?n" using magnitude_less [of b] by (simp flip: of_nat_less_iff)
    moreover have "0 < ?n" by simp
    ultimately have "(?n - int (magnitude b)) mod (2 * ?n) = ?n - int (magnitude b)"
      by (intro mod_pos_pos_trivial) linarith+
    then show ?thesis
      using mod_add_self2 [of "- (?n + int (magnitude b))" "2 * ?n"] by (simp add: algebra_simps)
  qed
  ultimately show ?thesis using True by (simp add: sam_value_def)
next
  case False
  have "kSignBitMask AND b = 0" using False sign_mask_iff [of b] by simp
  then have "SignAndMagnitudeToBiased b = kSignBitMask + b"
    by (simp add: SignAndMagnitudeToBiased_def disjunctive_add_eq_or)
  moreover have "unat (kSignBitMask + b) = unat (kSignBitMask :: 'a word) + unat b"
  proof (rule unat_add_lem [THEN iffD1])
    show "unat (kSignBitMask :: 'a word) + unat b < 2 ^ LENGTH('a)"
      using False magnitude_less [of b] unat_split [of b]
      by (simp add: unat_sign_mask flip: double_sign [where 'a = 'a and 'b = nat])
  qed
  ultimately show ?thesis using False unat_split [of b] by (simp add: sam_value_def unat_sign_mask)
qed

lemma distance_value:
  "int (unat (DistanceBetweenSignAndMagnitudeNumbers a b)) = \<bar>sam_value a - sam_value b\<bar>"
proof -
  let ?a = "SignAndMagnitudeToBiased a" and ?b = "SignAndMagnitudeToBiased b"
  have "unat (DistanceBetweenSignAndMagnitudeNumbers a b) =
      (if unat ?b \<le> unat ?a then unat ?a - unat ?b else unat ?b - unat ?a)"
    by (simp add: DistanceBetweenSignAndMagnitudeNumbers_def Let_def word_le_nat_alt unat_sub)
  moreover have "int (if y \<le> x then x - y else y - x) = \<bar>int x - int y\<bar>" for x y :: nat by auto
  ultimately have "int (unat (DistanceBetweenSignAndMagnitudeNumbers a b)) = \<bar>int (unat ?a) - int (unat ?b)\<bar>"
    by (simp only:)
  then show ?thesis unfolding biased_value by simp
qed

section \<open>Reference: the numbers\<close>

text \<open>The magnitude of infinity; what is above are the NaNs.\<close>

definition infinite_magnitude :: "'a::len word itself \<Rightarrow> nat \<Rightarrow> nat" where
  "infinite_magnitude _ k = (2 ^ (LENGTH('a) - 1 - k) - 1) * 2 ^ k"

lemma bit_masks:
  assumes "k < LENGTH('a::len) - 1"
  shows "bit (kFractionBitMask k :: 'a word) i \<longleftrightarrow> i < k"
    "bit (kExponentBitMask k :: 'a word) i \<longleftrightarrow> k \<le> i \<and> i < LENGTH('a) - 1"
proof -
  have count: "kExponentBitCount TYPE('a word) k + 1 = LENGTH('a) - k"
    using assms by (simp add: kExponentBitCount_def)
  show f: "bit (kFractionBitMask k :: 'a word) i \<longleftrightarrow> i < k" for i
    using assms unfolding kFractionBitMask_def count by (auto simp: bit_simps)
  show "bit (kExponentBitMask k :: 'a word) i \<longleftrightarrow> k \<le> i \<and> i < LENGTH('a) - 1"
    using assms unfolding kExponentBitMask_def
    by (auto simp: bit_simps f kSignBitMask_def push_bit_eq_mult bit_exp_iff)
qed

lemma all_ones:
  fixes u :: nat
  assumes "u < 2 ^ w"
  shows "(\<forall>i < w. bit u i) \<longleftrightarrow> u = 2 ^ w - 1"
proof -
  have "take_bit w u = u" using assms by (rule take_bit_nat_eq_self)
  then have "bit u i \<longleftrightarrow> i < w \<and> bit u i" for i
    using bit_take_bit_iff [of w u i] by simp
  then have "(\<forall>i < w. bit u i) \<longleftrightarrow> u = mask w"
    unfolding bit_eq_iff [of u "mask w"] by (auto simp: bit_mask_iff)
  then show ?thesis by (simp add: mask_eq_exp_minus_1)
qed

lemma above_multiple:
  fixes x :: nat
  assumes "x div 2 ^ k < 2 ^ w"
  shows "(2 ^ w - 1) * 2 ^ k < x \<longleftrightarrow> x div 2 ^ k = 2 ^ w - 1 \<and> x mod 2 ^ k \<noteq> 0"
proof -
  have x: "x = x div 2 ^ k * 2 ^ k + x mod 2 ^ k" by (rule div_mult_mod_eq [symmetric])
  have le: "x div 2 ^ k \<le> 2 ^ w - 1" using assms by linarith
  show ?thesis
  proof (cases "x div 2 ^ k = 2 ^ w - 1")
    case True
    then show ?thesis using x by (metis less_add_same_cancel1 not_gr_zero)
  next
    case False
    with le have "Suc (x div 2 ^ k) * 2 ^ k \<le> (2 ^ w - 1) * 2 ^ k" by (intro mult_le_mono1) simp
    moreover have "x < 2 ^ k + x div 2 ^ k * 2 ^ k" by (rule dividend_less_div_times) simp
    ultimately have "\<not> (2 ^ w - 1) * 2 ^ k < x" unfolding mult_Suc by linarith
    with False show ?thesis by simp
  qed
qed

lemma is_nan_iff:
  assumes "k < LENGTH('a::len) - 1"
  shows "is_nan k (b :: 'a word) \<longleftrightarrow> infinite_magnitude TYPE('a word) k < magnitude b"
proof -
  define w where "w = LENGTH('a) - 1 - k"
  have mag: "magnitude b = take_bit (LENGTH('a) - 1) (unat b)"
    by (simp add: magnitude_def take_bit_eq_mod)
  have small: "magnitude b div 2 ^ k < 2 ^ w"
    using magnitude_less [of b] assms
    by (simp add: less_mult_imp_div_less w_def flip: power_add)
  have "exponent_bits k b = kExponentBitMask k \<longleftrightarrow> (\<forall>i. k \<le> i \<and> i < LENGTH('a) - 1 \<longrightarrow> bit b i)"
  proof
    assume eq: "exponent_bits k b = kExponentBitMask k"
    show "\<forall>i. k \<le> i \<and> i < LENGTH('a) - 1 \<longrightarrow> bit b i"
    proof (intro allI impI)
      fix i assume "k \<le> i \<and> i < LENGTH('a) - 1"
      then have "bit (exponent_bits k b) i" unfolding eq by (simp add: bit_masks [OF assms])
      then show "bit b i" by (simp add: exponent_bits_def bit_and_iff)
    qed
  next
    assume "\<forall>i. k \<le> i \<and> i < LENGTH('a) - 1 \<longrightarrow> bit b i"
    then show "exponent_bits k b = kExponentBitMask k"
      unfolding exponent_bits_def by (intro bit_word_eqI) (auto simp: bit_and_iff bit_masks [OF assms])
  qed
  also have "\<dots> \<longleftrightarrow> (\<forall>i < w. bit (magnitude b div 2 ^ k) i)"
  proof -
    have "bit (magnitude b div 2 ^ k) i \<longleftrightarrow> k + i < LENGTH('a) - 1 \<and> bit b (k + i)" for i
      unfolding mag by (auto simp: bit_take_bit_iff bit_unsigned_iff bit_drop_bit_eq simp flip: drop_bit_eq_div)
    then have "(\<forall>i < w. bit (magnitude b div 2 ^ k) i) \<longleftrightarrow> (\<forall>i < w. bit b (k + i))"
      unfolding w_def by auto
    also have "\<dots> \<longleftrightarrow> (\<forall>i. k \<le> i \<and> i < LENGTH('a) - 1 \<longrightarrow> bit b i)"
    proof safe
      fix i assume a: "\<forall>i < w. bit b (k + i)" "k \<le> i" "i < LENGTH('a) - 1"
      then have "i - k < w" unfolding w_def by linarith
      with a(1) have "bit b (k + (i - k))" by blast
      with a(2) show "bit b i" by simp
    qed (simp add: w_def)
    finally show ?thesis by (rule sym)
  qed
  also have "\<dots> \<longleftrightarrow> magnitude b div 2 ^ k = 2 ^ w - 1" by (rule all_ones [OF small])
  finally have ex: "exponent_bits k b = kExponentBitMask k \<longleftrightarrow> magnitude b div 2 ^ k = 2 ^ w - 1" .
  have "fraction_bits k b = take_bit k b"
    unfolding fraction_bits_def bit_eq_iff by (auto simp: bit_and_iff bit_masks [OF assms] bit_take_bit_iff)
  then have "fraction_bits k b = 0 \<longleftrightarrow> unat b mod 2 ^ k = 0"
    by (metis take_bit_eq_mod unat_0_iff unsigned_take_bit_eq)
  also have "\<dots> \<longleftrightarrow> magnitude b mod 2 ^ k = 0"
    using assms by (simp add: magnitude_def mod_mod_cancel le_imp_power_dvd)
  finally have fr: "fraction_bits k b = 0 \<longleftrightarrow> magnitude b mod 2 ^ k = 0" .
  have "infinite_magnitude TYPE('a word) k < magnitude b \<longleftrightarrow>
      magnitude b div 2 ^ k = 2 ^ w - 1 \<and> magnitude b mod 2 ^ k \<noteq> 0"
    unfolding infinite_magnitude_def w_def [symmetric] by (rule above_multiple [OF small])
  with ex fr show ?thesis by (simp add: is_nan_def)
qed

text \<open>The number a pattern stands for, in IEEE 754; the exponent of subnormal numbers is that of the least normal ones.\<close>

definition exponent_bias :: "'a::len word itself \<Rightarrow> nat \<Rightarrow> nat" where
  "exponent_bias _ k = 2 ^ (LENGTH('a) - 1 - k - 1) - 1"

definition mantissa :: "nat \<Rightarrow> nat \<Rightarrow> nat" where
  "mantissa k x = (if x div 2 ^ k = 0 then x mod 2 ^ k else 2 ^ k + x mod 2 ^ k)"

definition exponent :: "'a::len word itself \<Rightarrow> nat \<Rightarrow> nat \<Rightarrow> int" where
  "exponent T k x = int (max 1 (x div 2 ^ k)) - int (exponent_bias T k) - int k"

definition number_of_bits :: "nat \<Rightarrow> 'a::len word \<Rightarrow> double" where
  "number_of_bits k b =
     (let x = magnitude b in
      if infinite_magnitude TYPE('a word) k < x then Not_a_number
      else if x = infinite_magnitude TYPE('a word) k then Infinite (negative b)
      else Fin (negative b) (mantissa k x) (exponent TYPE('a word) k x))"

text \<open>A format whose least number is not below the least \<open>double\<close>, as \<open>float\<close> and \<open>double\<close> are.\<close>

definition format_ok :: "'a::len word itself \<Rightarrow> nat \<Rightarrow> bool" where
  "format_ok T k \<longleftrightarrow> k < LENGTH('a) - 1 \<and> exponent_bias T k + k \<le> 1075"

lemma format_float: "format_ok TYPE(32 word) 23"
  and format_double: "format_ok TYPE(64 word) 52"
  by (simp_all add: format_ok_def exponent_bias_def)

lemma exponent_bound:
  assumes "format_ok T k"
  shows "- 1074 \<le> exponent T k x"
  using assms unfolding format_ok_def exponent_def by linarith

lemma units_step:
  fixes T :: "'a::len word itself"
  assumes "format_ok T k"
  shows "units (mantissa k x) (exponent T k x) < units (mantissa k (Suc x)) (exponent T k (Suc x))"
proof (cases "Suc x mod 2 ^ k = 0")
  case False
  then have "Suc x mod 2 ^ k = Suc (x mod 2 ^ k)" "Suc x div 2 ^ k = x div 2 ^ k"
    by (simp_all add: mod_Suc div_Suc split: if_splits)
  then show ?thesis by (simp add: units_def mantissa_def exponent_def)
next
  case True
  then have next_binade: "Suc x div 2 ^ k = Suc (x div 2 ^ k)" by (simp add: div_Suc)
  have last: "x mod 2 ^ k = 2 ^ k - 1" using True by (simp add: mod_Suc split: if_splits)
  show ?thesis
  proof (cases "x div 2 ^ k = 0")
    case True
    then show ?thesis using next_binade \<open>Suc x mod 2 ^ k = 0\<close> last
      by (simp add: units_def mantissa_def exponent_def)
  next
    case False
    have "nat (exponent T k (Suc x) + 1074) = Suc (nat (exponent T k x + 1074))"
      using exponent_bound [OF assms, of x] False by (simp add: exponent_def next_binade)
    moreover have "2 ^ k + 2 ^ k - Suc 0 < 2 ^ k * (2 :: nat)"
    proof -
      have "0 < (2 :: nat) ^ k" by simp
      then show ?thesis by linarith
    qed
    ultimately show ?thesis using False next_binade \<open>Suc x mod 2 ^ k = 0\<close> last
      by (simp add: units_def mantissa_def)
  qed
qed

lemma units_mono:
  assumes "format_ok T k"
  shows "units (mantissa k x) (exponent T k x) < units (mantissa k y) (exponent T k y) \<longleftrightarrow> x < y"
  using lift_Suc_mono_less_iff [of "\<lambda>x. units (mantissa k x) (exponent T k x)", OF units_step [OF assms]] .

lemma number_order:
  fixes a b :: "'a::len word"
  assumes "format_ok TYPE('a word) k" "\<not> is_nan k a" "\<not> is_nan k b"
  shows "double_less (number_of_bits k a) (number_of_bits k b) \<longleftrightarrow> sam_value a < sam_value b"
proof -
  let ?I = "infinite_magnitude TYPE('a word) k"
  let ?u = "\<lambda>b. signed_units (negative b) (mantissa k (magnitude b)) (exponent TYPE('a word) k (magnitude b))"
  have k: "k < LENGTH('a) - 1" using assms(1) by (simp add: format_ok_def)
  have mono: "units (mantissa k x) (exponent TYPE('a word) k x) < units (mantissa k y) (exponent TYPE('a word) k y) \<longleftrightarrow> x < y" for x y
    by (rule units_mono [OF assms(1)])
  have zero: "units (mantissa k 0) (exponent TYPE('a word) k 0) = 0" by (simp add: units_def mantissa_def)
  have le: "magnitude a \<le> ?I" "magnitude b \<le> ?I" using assms(2,3) is_nan_iff [OF k] by (simp_all add: not_less)
  have signed: "?u a < ?u b \<longleftrightarrow> sam_value a < sam_value b"
    using mono [of "magnitude a" "magnitude b"] mono [of "magnitude b" "magnitude a"]
      mono [of 0 "magnitude a"] mono [of 0 "magnitude b"] zero
    by (auto simp: signed_units_def sam_value_def)
  have pos: "0 < ?I" using k one_less_power [of "2 :: nat" "LENGTH('a) - Suc k"] by (simp add: infinite_magnitude_def)
  show ?thesis
    using le signed pos double_less_units [OF exponent_bound exponent_bound, OF assms(1,1)]
    by (auto simp: number_of_bits_def Let_def sam_value_def)
qed

lemma ulps_order:
  fixes a b :: "'a::len word"
  assumes "format_ok TYPE('a word) k"
  shows "(AlmostEquals k a b \<longleftrightarrow> number_of_bits k a \<noteq> Not_a_number \<and> number_of_bits k b \<noteq> Not_a_number \<and>
      \<bar>sam_value a - sam_value b\<bar> \<le> 4) \<and>
    (number_of_bits k a \<noteq> Not_a_number \<and> number_of_bits k b \<noteq> Not_a_number \<longrightarrow>
      (double_less (number_of_bits k a) (number_of_bits k b) \<longleftrightarrow> sam_value a < sam_value b))"
proof -
  have k: "k < LENGTH('a) - 1" using assms by (simp add: format_ok_def)
  have nan: "number_of_bits k c = Not_a_number \<longleftrightarrow> is_nan k c" for c :: "'a word"
    by (simp add: number_of_bits_def is_nan_iff [OF k] Let_def)
  have "unat (DistanceBetweenSignAndMagnitudeNumbers a b) \<le> kMaxUlps \<longleftrightarrow> \<bar>sam_value a - sam_value b\<bar> \<le> 4"
    unfolding kMaxUlps_def distance_value [symmetric] by linarith
  then show ?thesis
    using number_order [OF assms, of a b] by (simp add: AlmostEquals_def nan)
qed

section \<open>Properties\<close>

text \<open>\<open>AlmostEquals\<close> accepts exactly two numbers, neither of them a NaN, that are at most four
  representable numbers apart, across the two zeros and up to infinity: the patterns, read in sign
  and magnitude, count the representable numbers in their order.\<close>

lemma almost_equals_ulps:
  fixes a b :: "'a::len word"
  assumes "format_ok TYPE('a word) k"
  shows "(AlmostEquals k a b \<longleftrightarrow> number_of_bits k a \<noteq> Not_a_number \<and> number_of_bits k b \<noteq> Not_a_number \<and>
      \<bar>sam_value a - sam_value b\<bar> \<le> 4) \<and>
    (number_of_bits k a \<noteq> Not_a_number \<and> number_of_bits k b \<noteq> Not_a_number \<longrightarrow>
      (double_less (number_of_bits k a) (number_of_bits k b) \<longleftrightarrow> sam_value a < sam_value b))"
  using assms by (rule ulps_order)

lemma almost_equals_ulps_witness:
  "AlmostEquals 52 (0 :: 64 word) (0x8000000000000004) \<and> \<not> AlmostEquals 23 (1 :: 32 word) (0x80000004)"
proof -
  have "sam_value (0 :: 64 word) = 0" "sam_value (0x8000000000000004 :: 64 word) = - 4"
    "sam_value (1 :: 32 word) = 1" "sam_value (0x80000004 :: 32 word) = - 4"
    by (simp_all add: sam_value_def negative_def magnitude_def)
  moreover have "number_of_bits 52 (0 :: 64 word) \<noteq> Not_a_number"
    "number_of_bits 52 (0x8000000000000004 :: 64 word) \<noteq> Not_a_number"
    by (simp_all add: number_of_bits_def infinite_magnitude_def magnitude_def Let_def)
  ultimately show ?thesis
    using almost_equals_ulps [OF format_double, of 0 "0x8000000000000004"]
      almost_equals_ulps [OF format_float, of 1 "0x80000004"] by simp
qed

end
