(* ===== verification/Gtest_Assert.thy ===== *)
theory Gtest_Assert
  imports Gtest_DiffText Gtest_Printers Gtest_Float
begin

text \<open>
  The assertions of googletest: \<open>AssertionResult\<close> and the helpers behind the comparison macros
  (\<open>googletest-1.8.0/src/gtest.cc\<close>, \<open>include/gtest/gtest.h\<close>). An expression is its text in the
  source; a value of a template type is compared and printed by functions that are arguments.
  A \<open>const char *\<close> is \<open>None\<close> when null. The text the standard library streams for a floating-point
  number is an argument as well. \<open>None\<close> as the result of a helper stands for the reads outside the
  tables of the diff, which do not happen.
\<close>

section \<open>\<open>AssertionResult\<close>\<close>

record AssertionResult =
  success :: bool
  result_message :: "string option"

definition AssertionSuccess :: AssertionResult where
  "AssertionSuccess = \<lparr> success = True, result_message = None \<rparr>"

definition AssertionFailure :: AssertionResult where
  "AssertionFailure = \<lparr> success = False, result_message = None \<rparr>"

definition AppendMessage :: "Message \<Rightarrow> AssertionResult \<Rightarrow> AssertionResult" where
  "AppendMessage a_message r =
     r\<lparr> result_message := Some ((case result_message r of None \<Rightarrow> [] | Some s \<Rightarrow> s) @ c_text (GetString a_message)) \<rparr>"

text \<open>\<open>operator<<\<close>, on the text a value is streamed as.\<close>

definition stream_result :: "string \<Rightarrow> AssertionResult \<Rightarrow> AssertionResult" where
  "stream_result val r = AppendMessage (stream_text new_Message val) r"

definition message :: "AssertionResult \<Rightarrow> string" where
  "message r = (case result_message r of None \<Rightarrow> [] | Some s \<Rightarrow> c_text s)"

definition AssertionResult_copy :: "AssertionResult \<Rightarrow> AssertionResult" where
  "AssertionResult_copy other = \<lparr> success = success other, result_message = result_message other \<rparr>"

definition AssertionResult_swap :: "AssertionResult \<times> AssertionResult \<Rightarrow> AssertionResult \<times> AssertionResult" where
  "AssertionResult_swap p = (case p of (a, b) \<Rightarrow>
     (a\<lparr> success := success b, result_message := result_message b \<rparr>,
      b\<lparr> success := success a, result_message := result_message a \<rparr>))"

definition AssertionResult_negation :: "AssertionResult \<Rightarrow> AssertionResult" where
  "AssertionResult_negation r =
     (let negation = \<lparr> success = \<not> success r, result_message = None \<rparr> in
      case result_message r of None \<Rightarrow> negation | Some s \<Rightarrow> stream_result s negation)"

definition AssertionFailure_message :: "Message \<Rightarrow> AssertionResult" where
  "AssertionFailure_message m = stream_result (GetString m) AssertionFailure"

definition fail_with :: "string list \<Rightarrow> AssertionResult" where
  "fail_with texts = fold stream_result texts AssertionFailure"

definition char_pointer_text :: "string option \<Rightarrow> string" where
  "char_pointer_text s = (case s of None \<Rightarrow> ''(null)'' | Some t \<Rightarrow> t)"

definition newline :: string where
  "newline = [CHR 0x0A]"

definition quote :: string where
  "quote = [CHR 0x22]"

section \<open>Equality\<close>

text \<open>
  The loop of \<open>SplitEscapedString\<close> from index \<open>i\<close> on: the characters from \<open>start\<close> to \<open>i\<close>, whether the
  last one escapes the next, and the characters from \<open>i\<close> to \<open>end\<close>; the last one is not examined.
\<close>

fun split_escaped :: "string \<Rightarrow> bool \<Rightarrow> string \<Rightarrow> string list" where
  "split_escaped line escaped [] = [line]"
| "split_escaped line escaped [c] = [line @ [c]]"
| "split_escaped line escaped (c # d # str) =
     (if escaped then
        (if c = CHR ''n'' then take (length line - 1) line # split_escaped [] False (d # str)
         else split_escaped (line @ [c]) False (d # str))
      else split_escaped (line @ [c]) (c = CHR 0x5C) (d # str))"

definition SplitEscapedString :: "string \<Rightarrow> string list" where
  "SplitEscapedString str =
     (let n = length str in
      if 2 < n \<and> str ! 0 = CHR 0x22 \<and> str ! (n - 1) = CHR 0x22
      then split_escaped [] False (take (n - 2) (drop 1 str))
      else split_escaped [] False str)"

text \<open>What \<open>EqFailure\<close> streams before the diff.\<close>

definition equality_text :: "string \<Rightarrow> string \<Rightarrow> string \<Rightarrow> string \<Rightarrow> bool \<Rightarrow> string" where
  "equality_text lhs_expression rhs_expression lhs_value rhs_value ignoring_case =
     ''      Expected: '' @ lhs_expression @
     (if lhs_value \<noteq> lhs_expression then newline @ ''      Which is: '' @ lhs_value else []) @
     newline @ ''To be equal to: '' @ rhs_expression @
     (if rhs_value \<noteq> rhs_expression then newline @ ''      Which is: '' @ rhs_value else []) @
     (if ignoring_case then newline @ ''Ignoring case'' else [])"

definition EqFailure :: "string \<Rightarrow> string \<Rightarrow> string \<Rightarrow> string \<Rightarrow> bool \<Rightarrow> AssertionResult option" where
  "EqFailure lhs_expression rhs_expression lhs_value rhs_value ignoring_case =
     (let msg = equality_text lhs_expression rhs_expression lhs_value rhs_value ignoring_case;
          lhs_lines = SplitEscapedString lhs_value;
          rhs_lines = SplitEscapedString rhs_value in
      if lhs_value \<noteq> [] \<and> rhs_value \<noteq> [] \<and> (1 < length lhs_lines \<or> 1 < length rhs_lines) then
        map_option (\<lambda>diff. fail_with [GetString (stream_text new_Message
            (msg @ newline @ ''With diff:'' @ newline @ diff))])
          (CreateUnifiedDiff lhs_lines rhs_lines 2)
      else Some (fail_with [GetString (stream_text new_Message msg)]))"

definition GetBoolAssertionFailureMessage :: "AssertionResult \<Rightarrow> string \<Rightarrow> string \<Rightarrow> string \<Rightarrow> string" where
  "GetBoolAssertionFailureMessage assertion_result expression_text actual_predicate_value expected_predicate_value =
     (let actual_message = message assertion_result in
      GetString (stream_text new_Message
        (''Value of: '' @ expression_text @ newline @ ''  Actual: '' @ actual_predicate_value @
         (if actual_message \<noteq> [] then '' ('' @ actual_message @ '')'' else []) @
         newline @ ''Expected: '' @ expected_predicate_value)))"

definition CmpHelperEQFailure ::
    "('a \<Rightarrow> string) \<Rightarrow> ('b \<Rightarrow> string) \<Rightarrow> string \<Rightarrow> string \<Rightarrow> 'a \<Rightarrow> 'b \<Rightarrow> AssertionResult option" where
  "CmpHelperEQFailure format_lhs format_rhs lhs_expression rhs_expression lhs rhs =
     EqFailure lhs_expression rhs_expression (format_lhs lhs) (format_rhs rhs) False"

definition CmpHelperEQ ::
    "('a \<Rightarrow> 'b \<Rightarrow> bool) \<Rightarrow> ('a \<Rightarrow> string) \<Rightarrow> ('b \<Rightarrow> string) \<Rightarrow>
     string \<Rightarrow> string \<Rightarrow> 'a \<Rightarrow> 'b \<Rightarrow> AssertionResult option" where
  "CmpHelperEQ eq format_lhs format_rhs lhs_expression rhs_expression lhs rhs =
     (if eq lhs rhs then Some AssertionSuccess
      else CmpHelperEQFailure format_lhs format_rhs lhs_expression rhs_expression lhs rhs)"

definition CmpHelperEQ_BiggestInt :: "string \<Rightarrow> string \<Rightarrow> 64 word \<Rightarrow> 64 word \<Rightarrow> AssertionResult option" where
  "CmpHelperEQ_BiggestInt lhs_expression rhs_expression lhs rhs =
     (if lhs = rhs then Some AssertionSuccess
      else EqFailure lhs_expression rhs_expression (int_string (sint lhs)) (int_string (sint rhs)) False)"

text \<open>\<open>EqHelper<true>\<close> with a pointer on the right: the left side is the null pointer.\<close>

definition EqHelper_null_Compare ::
    "('p \<Rightarrow> string) \<Rightarrow> string \<Rightarrow> string \<Rightarrow> 'p \<Rightarrow> 'p \<Rightarrow> AssertionResult option" where
  "EqHelper_null_Compare format_pointer lhs_expression rhs_expression null rhs =
     CmpHelperEQ (=) format_pointer format_pointer lhs_expression rhs_expression null rhs"

section \<open>Order\<close>

definition CmpHelperOpFailure :: "string \<Rightarrow> string \<Rightarrow> string \<Rightarrow> string \<Rightarrow> string \<Rightarrow> AssertionResult" where
  "CmpHelperOpFailure expr1 expr2 val1 val2 op_text =
     fail_with [''Expected: ('', expr1, '') '', op_text, '' ('', expr2, ''), actual: '', val1, '' vs '', val2]"

definition CmpHelperOp ::
    "('a \<Rightarrow> 'b \<Rightarrow> bool) \<Rightarrow> string \<Rightarrow> ('a \<Rightarrow> string) \<Rightarrow> ('b \<Rightarrow> string) \<Rightarrow>
     string \<Rightarrow> string \<Rightarrow> 'a \<Rightarrow> 'b \<Rightarrow> AssertionResult" where
  "CmpHelperOp op_holds op_text format1 format2 expr1 expr2 val1 val2 =
     (if op_holds val1 val2 then AssertionSuccess
      else CmpHelperOpFailure expr1 expr2 (format1 val1) (format2 val2) op_text)"

definition CmpHelperOp_BiggestInt ::
    "(64 word \<Rightarrow> 64 word \<Rightarrow> bool) \<Rightarrow> string \<Rightarrow> string \<Rightarrow> string \<Rightarrow> 64 word \<Rightarrow> 64 word \<Rightarrow> AssertionResult" where
  "CmpHelperOp_BiggestInt op_holds op_text expr1 expr2 val1 val2 =
     (if op_holds val1 val2 then AssertionSuccess
      else fail_with [''Expected: ('', expr1, '') '' @ op_text @ '' ('', expr2, ''), actual: '',
        int_string (sint val1), '' vs '', int_string (sint val2)])"

definition CmpHelperNE :: "string \<Rightarrow> string \<Rightarrow> 64 word \<Rightarrow> 64 word \<Rightarrow> AssertionResult" where
  "CmpHelperNE = CmpHelperOp_BiggestInt (\<noteq>) ''!=''"

definition CmpHelperLE :: "string \<Rightarrow> string \<Rightarrow> 64 word \<Rightarrow> 64 word \<Rightarrow> AssertionResult" where
  "CmpHelperLE = CmpHelperOp_BiggestInt (\<lambda>a b. sint a \<le> sint b) ''<=''"

definition CmpHelperLT :: "string \<Rightarrow> string \<Rightarrow> 64 word \<Rightarrow> 64 word \<Rightarrow> AssertionResult" where
  "CmpHelperLT = CmpHelperOp_BiggestInt (\<lambda>a b. sint a < sint b) ''<''"

definition CmpHelperGE :: "string \<Rightarrow> string \<Rightarrow> 64 word \<Rightarrow> 64 word \<Rightarrow> AssertionResult" where
  "CmpHelperGE = CmpHelperOp_BiggestInt (\<lambda>a b. sint b \<le> sint a) ''>=''"

definition CmpHelperGT :: "string \<Rightarrow> string \<Rightarrow> 64 word \<Rightarrow> 64 word \<Rightarrow> AssertionResult" where
  "CmpHelperGT = CmpHelperOp_BiggestInt (\<lambda>a b. sint b < sint a) ''>''"

section \<open>Strings\<close>

definition CmpHelperSTREQ :: "string \<Rightarrow> string \<Rightarrow> string option \<Rightarrow> string option \<Rightarrow> AssertionResult option" where
  "CmpHelperSTREQ lhs_expression rhs_expression lhs rhs =
     (if CStringEquals lhs rhs then Some AssertionSuccess
      else EqFailure lhs_expression rhs_expression (UniversalTersePrint_C_string lhs)
        (UniversalTersePrint_C_string rhs) False)"

definition CmpHelperSTRCASEEQ :: "string \<Rightarrow> string \<Rightarrow> string option \<Rightarrow> string option \<Rightarrow> AssertionResult option" where
  "CmpHelperSTRCASEEQ lhs_expression rhs_expression lhs rhs =
     (if CaseInsensitiveCStringEquals lhs rhs then Some AssertionSuccess
      else EqFailure lhs_expression rhs_expression (UniversalTersePrint_C_string lhs)
        (UniversalTersePrint_C_string rhs) True)"

definition CmpHelperSTRNE :: "string \<Rightarrow> string \<Rightarrow> string option \<Rightarrow> string option \<Rightarrow> AssertionResult" where
  "CmpHelperSTRNE s1_expression s2_expression s1 s2 =
     (if \<not> CStringEquals s1 s2 then AssertionSuccess
      else fail_with [''Expected: ('', s1_expression, '') != ('', s2_expression, ''), actual: '' @ quote,
        char_pointer_text s1, quote @ '' vs '' @ quote, char_pointer_text s2, quote])"

definition CmpHelperSTRCASENE :: "string \<Rightarrow> string \<Rightarrow> string option \<Rightarrow> string option \<Rightarrow> AssertionResult" where
  "CmpHelperSTRCASENE s1_expression s2_expression s1 s2 =
     (if \<not> CaseInsensitiveCStringEquals s1 s2 then AssertionSuccess
      else fail_with [''Expected: ('', s1_expression, '') != ('', s2_expression,
        '') (ignoring case), actual: '' @ quote,
        char_pointer_text s1, quote @ '' vs '' @ quote, char_pointer_text s2, quote])"

definition CmpHelperSTREQ_wide ::
    "string \<Rightarrow> string \<Rightarrow> 32 word list option \<Rightarrow> 32 word list option \<Rightarrow> AssertionResult option" where
  "CmpHelperSTREQ_wide lhs_expression rhs_expression lhs rhs =
     (if WideCStringEquals lhs rhs then Some AssertionSuccess
      else EqFailure lhs_expression rhs_expression (UniversalTersePrint_wide_C_string lhs)
        (UniversalTersePrint_wide_C_string rhs) False)"

definition CmpHelperSTRNE_wide ::
    "string \<Rightarrow> string \<Rightarrow> 32 word list option \<Rightarrow> 32 word list option \<Rightarrow> AssertionResult" where
  "CmpHelperSTRNE_wide s1_expression s2_expression s1 s2 =
     (if \<not> WideCStringEquals s1 s2 then AssertionSuccess
      else fail_with [''Expected: ('', s1_expression, '') != ('', s2_expression, ''), actual: '',
        UniversalTersePrint_wide_C_string s1, '' vs '', UniversalTersePrint_wide_C_string s2])"

text \<open>\<open>strstr\<close>, \<open>wcsstr\<close> and \<open>find\<close>: whether the needle starts somewhere in the haystack.\<close>

fun occurs_in :: "'a list \<Rightarrow> 'a list \<Rightarrow> bool" where
  "occurs_in needle [] \<longleftrightarrow> needle = []"
| "occurs_in needle (c # haystack) \<longleftrightarrow>
     take (length needle) (c # haystack) = needle \<or> occurs_in needle haystack"

definition IsSubstringPred :: "'a list option \<Rightarrow> 'a list option \<Rightarrow> bool" where
  "IsSubstringPred needle haystack =
     (case (needle, haystack) of
        (Some n, Some h) \<Rightarrow> occurs_in n h
      | (None, None) \<Rightarrow> True
      | _ \<Rightarrow> False)"

text \<open>\<open>show_string\<close> is the text \<open>Message\<close> streams for the kind of string.\<close>

definition IsSubstringImpl ::
    "bool \<Rightarrow> ('a list option \<Rightarrow> string) \<Rightarrow> bool \<Rightarrow> string \<Rightarrow> string \<Rightarrow>
     'a list option \<Rightarrow> 'a list option \<Rightarrow> AssertionResult" where
  "IsSubstringImpl is_wide_string show_string expected_to_be_substring needle_expr haystack_expr needle haystack =
     (if IsSubstringPred needle haystack = expected_to_be_substring then AssertionSuccess
      else
        let begin_string_quote = (if is_wide_string then ''L'' @ quote else quote) in
        fail_with [''Value of: '', needle_expr, newline, ''  Actual: '', begin_string_quote,
          show_string needle, quote @ newline, ''Expected: '',
          if expected_to_be_substring then [] else ''not '', ''a substring of '', haystack_expr, newline,
          ''Which is: '', begin_string_quote, show_string haystack, quote])"

definition IsSubstring :: "string \<Rightarrow> string \<Rightarrow> string option \<Rightarrow> string option \<Rightarrow> AssertionResult" where
  "IsSubstring = IsSubstringImpl False char_pointer_text True"

definition IsNotSubstring :: "string \<Rightarrow> string \<Rightarrow> string option \<Rightarrow> string option \<Rightarrow> AssertionResult" where
  "IsNotSubstring = IsSubstringImpl False char_pointer_text False"

definition IsSubstring_wide ::
    "bool \<Rightarrow> string \<Rightarrow> string \<Rightarrow> 32 word list option \<Rightarrow> 32 word list option \<Rightarrow> AssertionResult" where
  "IsSubstring_wide utf16 = IsSubstringImpl True (ShowWideCString utf16) True"

definition IsNotSubstring_wide ::
    "bool \<Rightarrow> string \<Rightarrow> string \<Rightarrow> 32 word list option \<Rightarrow> 32 word list option \<Rightarrow> AssertionResult" where
  "IsNotSubstring_wide utf16 = IsSubstringImpl True (ShowWideCString utf16) False"

section \<open>Floating-point numbers\<close>

definition CmpHelperFloatingPointEQ ::
    "nat \<Rightarrow> ('a::len word \<Rightarrow> string) \<Rightarrow> string \<Rightarrow> string \<Rightarrow> 'a word \<Rightarrow> 'a word \<Rightarrow> AssertionResult option" where
  "CmpHelperFloatingPointEQ k show_number lhs_expression rhs_expression lhs_value rhs_value =
     (if AlmostEquals k lhs_value rhs_value then Some AssertionSuccess
      else EqFailure lhs_expression rhs_expression (StringStreamToString (show_number lhs_value))
        (StringStreamToString (show_number rhs_value)) False)"

definition FloatingPointLE ::
    "nat \<Rightarrow> ('a::len word \<Rightarrow> string) \<Rightarrow> string \<Rightarrow> string \<Rightarrow> 'a word \<Rightarrow> 'a word \<Rightarrow> AssertionResult" where
  "FloatingPointLE k show_number expr1 expr2 val1 val2 =
     (if double_less (number_of_bits k val1) (number_of_bits k val2) then AssertionSuccess
      else if AlmostEquals k val1 val2 then AssertionSuccess
      else fail_with [''Expected: ('', expr1, '') <= ('', expr2, '')'' @ newline, ''  Actual: '',
        StringStreamToString (show_number val1), '' vs '', StringStreamToString (show_number val2)])"

definition FloatLE :: "(32 word \<Rightarrow> string) \<Rightarrow> string \<Rightarrow> string \<Rightarrow> 32 word \<Rightarrow> 32 word \<Rightarrow> AssertionResult" where
  "FloatLE show_number = FloatingPointLE 23 show_number"

definition DoubleLE :: "(64 word \<Rightarrow> string) \<Rightarrow> string \<Rightarrow> string \<Rightarrow> 64 word \<Rightarrow> 64 word \<Rightarrow> AssertionResult" where
  "DoubleLE show_number = FloatingPointLE 52 show_number"

definition DoubleNearPredFormat ::
    "(double \<Rightarrow> string) \<Rightarrow> string \<Rightarrow> string \<Rightarrow> string \<Rightarrow> double \<Rightarrow> double \<Rightarrow> double \<Rightarrow> AssertionResult" where
  "DoubleNearPredFormat show_number expr1 expr2 abs_error_expr val1 val2 abs_error =
     (let diff = fabs (double_sub val1 val2) in
      if double_le diff abs_error then AssertionSuccess
      else fail_with [''The difference between '', expr1, '' and '', expr2, '' is '', show_number diff,
        '', which exceeds '', abs_error_expr, '', where'' @ newline, expr1, '' evaluates to '', show_number val1,
        '','' @ newline, expr2, '' evaluates to '', show_number val2, '', and'' @ newline,
        abs_error_expr, '' evaluates to '', show_number abs_error, ''.''])"


section \<open>Messages\<close>

lemma c_text_visible [simp]: "c_text (StringStreamToString s) = StringStreamToString s"
  by (simp add: c_text_no_nul StringStreamToString_no_nul)

lemma visible_visible [simp]: "StringStreamToString (StringStreamToString s) = StringStreamToString s"
  by (simp add: StringStreamToString_id StringStreamToString_no_nul)

lemma visible_append: "StringStreamToString (s @ t) = StringStreamToString s @ StringStreamToString t"
  by (simp add: StringStreamToString_def)

lemma GetString_stream [simp]: "GetString (stream_text new_Message s) = StringStreamToString s"
  by (simp add: GetString_def stream_text_def new_Message_def)

lemma fold_stream_result:
  "fold stream_result texts \<lparr> success = v, result_message = Some m \<rparr> =
     \<lparr> success = v, result_message = Some (m @ StringStreamToString (concat texts)) \<rparr>"
proof (induction texts arbitrary: m)
  case Nil
  then show ?case by (simp add: StringStreamToString_def)
next
  case (Cons t ts)
  then show ?case by (simp add: stream_result_def AppendMessage_def visible_append)
qed

text \<open>A failure carries the text streamed into it, with each NUL as a backslash and a zero.\<close>

lemma fail_with_texts:
  "texts \<noteq> [] \<Longrightarrow> fail_with texts =
     \<lparr> success = False, result_message = Some (StringStreamToString (concat texts)) \<rparr>"
  by (cases texts)
    (simp_all add: fail_with_def AssertionFailure_def stream_result_def AppendMessage_def
      fold_stream_result visible_append)

lemma verdicts [simp]: "success AssertionSuccess" "texts \<noteq> [] \<Longrightarrow> \<not> success (fail_with texts)"
  by (simp_all add: AssertionSuccess_def fail_with_texts)

lemma EqFailure_returns: "\<exists>r. EqFailure e1 e2 v1 v2 ic = Some r \<and> \<not> success r"
  using edits_lines_replay [of "SplitEscapedString v1" "SplitEscapedString v2"]
  by (auto simp: EqFailure_def Let_def CreateUnifiedDiff_def diff_hunks_def)

section \<open>Comparisons\<close>

lemma C_string_comparisons:
  "CStringEquals s t \<longleftrightarrow> s = t"
  "CaseInsensitiveCStringEquals s t \<longleftrightarrow> map_option (map ToLower) s = map_option (map ToLower) t"
  by (auto simp: CStringEquals_def CaseInsensitiveCStringEquals_def split: option.split)

lemma occurs_in_iff: "occurs_in needle haystack \<longleftrightarrow> (\<exists>before after. haystack = before @ needle @ after)"
proof (induction haystack)
  case (Cons c haystack)
  have "take (length needle) (c # haystack) = needle \<longleftrightarrow> (\<exists>after. c # haystack = needle @ after)"
    by (metis append_eq_conv_conj append_take_drop_id)
  then show ?case unfolding occurs_in.simps Cons.IH
    by (metis append.left_neutral append_Cons append_eq_Cons_conv)
qed simp

lemma IsSubstringPred_iff:
  "IsSubstringPred s t \<longleftrightarrow>
    s = None \<and> t = None \<or> (\<exists>needle before after. s = Some needle \<and> t = Some (before @ needle @ after))"
  by (auto simp: IsSubstringPred_def occurs_in_iff split: option.split)

section \<open>The lines of a printed string\<close>

text \<open>A newline ends a line, unless it is the last character of the string.\<close>

fun lines_of :: "32 word list \<Rightarrow> 32 word list \<Rightarrow> 32 word list list" where
  "lines_of line [] = [line]"
| "lines_of line (c # cs) =
     (if c = 0x0A \<and> cs \<noteq> [] then line # lines_of [] cs else lines_of (line @ [c]) cs)"

definition printed_line :: "32 word list \<Rightarrow> string" where
  "printed_line = print_chars (kQuoteBegin False) False"

definition shown_lines :: "string \<Rightarrow> string list" where
  "shown_lines s = (if s = [] then [PrintStringTo s] else map printed_line (lines_of [] (chars_of s)))"

lemma split_plain:
  "CHR 0x5C \<notin> set p \<Longrightarrow> split_escaped line False (p @ rest) = split_escaped (line @ p) False rest"
proof (induction p arbitrary: line)
  case (Cons c p)
  then show ?case by (cases "p @ rest") auto
qed simp

lemma split_escape:
  "d \<noteq> CHR ''n'' \<Longrightarrow> CHR 0x5C \<notin> set p \<Longrightarrow>
   split_escaped line False (CHR 0x5C # d # p @ rest) = split_escaped (line @ CHR 0x5C # d # p) False rest"
  using split_plain [of p "line @ [CHR 0x5C, d]" rest]
  by (cases "p @ rest") auto

lemma split_newline:
  "split_escaped line False (CHR 0x5C # CHR ''n'' # rest) =
     (if rest = [] then [line @ [CHR 0x5C, CHR ''n'']] else line # split_escaped [] False rest)"
  by (cases rest) auto

fun ends_in_hex :: "bool \<Rightarrow> 32 word list \<Rightarrow> bool" where
  "ends_in_hex prev [] = prev"
| "ends_in_hex prev (c # cs) = ends_in_hex (snd (PrintAsStringLiteralTo c) = kHexEscape) cs"

lemma print_chars_append:
  "print_chars q prev (as @ bs) = print_chars q prev as @ print_chars q (ends_in_hex prev as) bs"
  by (induction as arbitrary: prev) (auto split: prod.split)

lemma ends_in_hex_snoc: "ends_in_hex prev (as @ [c]) = (snd (PrintAsStringLiteralTo c) = kHexEscape)"
  by (induction as arbitrary: prev) auto

lemma print_chars_not_Nil: "cs \<noteq> [] \<Longrightarrow> print_chars q prev cs \<noteq> []"
proof (cases cs)
  case (Cons c cs')
  obtain lit format where "PrintAsStringLiteralTo c = (lit, format)" by fastforce
  with literal_cases [OF this] Cons show ?thesis by auto
qed simp

lemma hex_no_backslash: "CHR 0x5C \<notin> set (hex_string n)"
proof (induction n rule: hex_string.induct)
  case (1 n)
  have "CHR 0x5C \<noteq> hex_digit d" if "d < 16" for d
  proof -
    from that have "d \<in> set [0..<16]" by simp
    moreover have "\<forall>d \<in> set [0..<16]. CHR 0x5C \<noteq> hex_digit d" by code_simp
    ultimately show ?thesis by blast
  qed
  then show ?case using 1 by (subst hex_string.simps) auto
qed

lemma split_char:
  assumes "PrintAsStringLiteralTo c = (lit, format)" "c \<noteq> 0x0A"
  shows "split_escaped line False (lit @ rest) = split_escaped (line @ lit) False rest"
  using literal_cases [OF assms(1)]
proof (elim disjE exE conjE)
  assume "lit = [CHR 0x5C, CHR ''0'']"
  then show ?thesis using split_escape [of "CHR ''0''" "[]" line rest] by simp
next
  fix d assume d: "lit = [CHR 0x5C, d]" "escape_value d = Some (unat c)"
  have "unat c \<noteq> 10" using assms(2) by (auto simp: word_unat_eq_iff)
  with d(2) have "d \<noteq> CHR ''n''" by auto
  with d(1) show ?thesis using split_escape [of d "[]" line rest] by simp
next
  fix ch assume "lit = [ch]" "ch \<noteq> CHR 0x5C"
  then show ?thesis using split_plain [of "[ch]" line rest] by simp
next
  assume "lit = [CHR 0x5C, CHR ''x''] @ hex_string (unat c)"
  then show ?thesis using split_escape [of "CHR ''x''" "hex_string (unat c)" line rest] hex_no_backslash by simp
qed

lemma split_printed:
  "split_escaped (printed_line line) False (print_chars (kQuoteBegin False) (ends_in_hex False line) cs) =
     map printed_line (lines_of line cs)"
proof (induction cs arbitrary: line)
  case (Cons c cs)
  let ?q = "kQuoteBegin False" and ?h = "ends_in_hex False line"
  obtain lit format where l: "PrintAsStringLiteralTo c = (lit, format)" by fastforce
  define glue where "glue = (if ?h \<and> IsXDigit_wide c then [CHR 0x22, CHR '' ''] @ ?q else [])"
  have glue: "CHR 0x5C \<notin> set glue" by (simp add: glue_def kQuoteBegin_def)
  have shown: "print_chars ?q ?h (c # cs) = glue @ lit @ print_chars ?q (ends_in_hex False (line @ [c])) cs"
    by (simp add: l glue_def ends_in_hex_snoc)
  have snoc: "printed_line (line @ [c]) = printed_line line @ glue @ lit"
    by (simp add: printed_line_def print_chars_append l glue_def)
  show ?case
  proof (cases "c = 0x0A")
    case False
    then show ?thesis using Cons.IH [of "line @ [c]"]
      by (simp add: shown snoc split_plain [OF glue] split_char [OF l] del: print_chars.simps)
  next
    case True
    have nl: "\<not> IsXDigit_wide 0x0A" "PrintAsStringLiteralTo 0x0A = ([CHR 0x5C, CHR ''n''], kSpecialEscape)"
      by code_simp+
    from True l nl have one: "glue = []" "lit = [CHR 0x5C, CHR ''n'']" "\<not> ends_in_hex False (line @ [c])"
      by (simp_all add: glue_def ends_in_hex_snoc)
    show ?thesis
    proof (cases "cs = []")
      case True
      with shown one have "print_chars ?q ?h [c] = [CHR 0x5C, CHR ''n'']" by (simp del: print_chars.simps(2))
      then show ?thesis using snoc one(1,2) True by (simp add: split_newline del: print_chars.simps(2))
    next
      case False
      have "split_escaped (printed_line line) False (print_chars ?q ?h (c # cs)) =
          printed_line line # split_escaped [] False (print_chars ?q False cs)"
        unfolding shown one(1,2) using one(3) print_chars_not_Nil [OF False]
        by (simp add: split_newline del: split_escaped.simps)
      with False \<open>c = 0x0A\<close> show ?thesis using Cons.IH [of "[]"]
        by (simp add: printed_line_def del: print_chars.simps(2))
    qed
  qed
qed simp

text \<open>Printed text contains no control characters.\<close>

lemma hex_digit_clean:
  assumes "d < 16"
  shows "hex_digit d \<noteq> CHR 0x00" and "hex_digit d \<noteq> CHR 0x0A"
proof -
  from assms have "d \<in> set [0..<16]" by simp
  moreover have "\<forall>d \<in> set [0..<16]. hex_digit d \<noteq> CHR 0x00 \<and> hex_digit d \<noteq> CHR 0x0A" by code_simp
  ultimately show "hex_digit d \<noteq> CHR 0x00" "hex_digit d \<noteq> CHR 0x0A" by blast+
qed

lemma hex_clean: "clean_line (hex_string n)"
proof (induction n rule: hex_string.induct)
  case (1 n)
  show ?case
  proof (cases "n < 16")
    case True
    with hex_digit_clean [of n] show ?thesis by (auto simp: hex_string.simps [of n] clean_line_def)
  next
    case False
    with 1 hex_digit_clean [of "n mod 16"] show ?thesis by (auto simp: hex_string.simps [of n] clean_line_def)
  qed
qed

lemma literal_clean:
  assumes "PrintAsStringLiteralTo c = (lit, format)"
  shows "clean_line lit"
proof -
  have "to_char c \<noteq> CHR 0x00 \<and> to_char c \<noteq> CHR 0x0A" if "IsPrintableAscii c"
  proof -
    from that have "code (to_char c) \<noteq> code (CHR 0x00)" "code (to_char c) \<noteq> code (CHR 0x0A)"
      by (simp_all add: printable_code code_to_char code_def [of "CHR 0x00"] code_def [of "CHR 0x0A"])
    then show ?thesis by metis
  qed
  then show ?thesis
    using assms hex_clean
    by (auto simp: PrintAsStringLiteralTo_def PrintAsCharLiteralTo_def clean_line_def FormatHexInt_def split: if_splits)
qed

lemma print_chars_clean: "clean_line (print_chars (kQuoteBegin False) prev cs)"
proof (induction cs arbitrary: prev)
  case (Cons c cs)
  obtain lit format where l: "PrintAsStringLiteralTo c = (lit, format)" by fastforce
  from Cons [of "format = kHexEscape"] literal_clean [OF l] show ?case
    by (simp add: l clean_line_def kQuoteBegin_def)
qed (simp add: clean_line_def)

lemma shown_lines_clean: "\<forall>line \<in> set (shown_lines s). clean_line line"
  using print_chars_clean
  by (auto simp: shown_lines_def printed_line_def PrintStringTo_def PrintCharsAsStringTo_def chars_of_def
      clean_line_def kQuoteBegin_def)

lemma split_PrintStringTo: "SplitEscapedString (PrintStringTo s) = shown_lines s"
proof (cases "s = []")
  case True
  then show ?thesis by (simp add: shown_lines_def) code_simp
next
  case False
  let ?p = "print_chars (kQuoteBegin False) False (chars_of s)"
  from False have "?p \<noteq> []" by (simp add: print_chars_not_Nil chars_of_def)
  then have "SplitEscapedString (PrintStringTo s) = split_escaped [] False ?p"
    by (simp add: SplitEscapedString_def PrintStringTo_def PrintCharsAsStringTo_def kQuoteBegin_def Let_def
      nth_append)
  then show ?thesis using False split_printed [of "[]" "chars_of s"]
    by (simp add: shown_lines_def printed_line_def)
qed

section \<open>Properties\<close>

text \<open>C35: A failed comparison of two strings explains itself: the assertion always returns and
  succeeds exactly on equal strings, and when one of them has several lines the message ends
  with a unified diff that turns the printed lines of the one into those of the other, both as hunks
  and as a reader of unified diffs reads its text.\<close>

theorem equality_failure_diff:
  "\<exists>r. CmpHelperEQ (=) PrintStringTo PrintStringTo e1 e2 lhs rhs = Some r \<and> (success r \<longleftrightarrow> lhs = rhs) \<and>
    (lhs \<noteq> rhs \<and> (1 < length (shown_lines lhs) \<or> 1 < length (shown_lines rhs)) \<longrightarrow>
      (\<exists>hs. message r = StringStreamToString
          (equality_text e1 e2 (PrintStringTo lhs) (PrintStringTo rhs) False @ newline @ ''With diff:'' @ newline @
           concat (map Hunk_PrintTo hs)) \<and>
        patch 0 0 hs (shown_lines lhs) = Some (shown_lines rhs) \<and>
        (\<exists>read. read_diff (concat (map Hunk_PrintTo hs)) = Some read \<and>
          apply_hunks 0 0 read (shown_lines lhs) = Some (shown_lines rhs))))"
proof (cases "lhs = rhs")
  case True
  then show ?thesis by (simp add: CmpHelperEQ_def)
next
  case False
  let ?l = "shown_lines lhs" and ?r = "shown_lines rhs"
  obtain hs where hs: "CreateUnifiedDiff ?l ?r 2 = Some (concat (map Hunk_PrintTo hs))"
    "patch 0 0 hs ?l = Some ?r"
    "read_diff (concat (map Hunk_PrintTo hs)) = Some (map as_printed hs)"
    "apply_hunks 0 0 (map as_printed hs) ?l = Some ?r"
    using printed_diff [of 2 ?l ?r] shown_lines_clean by fastforce
  obtain r where r: "EqFailure e1 e2 (PrintStringTo lhs) (PrintStringTo rhs) False = Some r" "\<not> success r"
    using EqFailure_returns by blast
  have full: "PrintStringTo s \<noteq> []" for s by (simp add: PrintStringTo_def PrintCharsAsStringTo_def)
  have "message r = StringStreamToString (equality_text e1 e2 (PrintStringTo lhs) (PrintStringTo rhs) False @
      newline @ ''With diff:'' @ newline @ concat (map Hunk_PrintTo hs))"
    if "1 < length ?l \<or> 1 < length ?r"
    using r(1) that by (auto simp: EqFailure_def split_PrintStringTo hs(1) full message_def fail_with_texts)
  with r hs(2-4) False show ?thesis
    by (auto simp: CmpHelperEQ_def CmpHelperEQFailure_def simp del: One_nat_def)
qed

theorem equality_failure_diff_witness:
  "\<exists>r hs. CmpHelperEQ (=) PrintStringTo PrintStringTo ''x'' ''y'' [CHR ''a'', CHR 0x0A, CHR ''b''] [CHR ''a'', CHR 0x0A, CHR ''c''] = Some r \<and>
     \<not> success r \<and> patch 0 0 hs [''a'', ''b''] = Some [''a'', ''c'']"
proof -
  have "shown_lines [CHR ''a'', CHR 0x0A, CHR ''b''] = [''a'', ''b'']"
    "shown_lines [CHR ''a'', CHR 0x0A, CHR ''c''] = [''a'', ''c'']" by code_simp+
  then show ?thesis
    using equality_failure_diff [of "''x''" "''y''" "[CHR ''a'', CHR 0x0A, CHR ''b'']" "[CHR ''a'', CHR 0x0A, CHR ''c'']"]
    by auto
qed

text \<open>Each assertion on strings succeeds exactly when its relation holds, for null pointers and
  empty strings as well: equality, equality up to the case of letters, and being a substring; an
  assertion and its negation never agree.\<close>

lemma string_assertions_decide:
  "(\<exists>r. CmpHelperSTREQ e1 e2 s t = Some r \<and> (success r \<longleftrightarrow> s = t)) \<and>
   (\<exists>r. CmpHelperSTRCASEEQ e1 e2 s t = Some r \<and>
     (success r \<longleftrightarrow> map_option (map ToLower) s = map_option (map ToLower) t)) \<and>
   (success (CmpHelperSTRNE e1 e2 s t) \<longleftrightarrow> s \<noteq> t) \<and>
   (success (CmpHelperSTRCASENE e1 e2 s t) \<longleftrightarrow> map_option (map ToLower) s \<noteq> map_option (map ToLower) t) \<and>
   (success (IsSubstring e1 e2 s t) \<longleftrightarrow>
     s = None \<and> t = None \<or> (\<exists>needle before after. s = Some needle \<and> t = Some (before @ needle @ after))) \<and>
   (success (IsNotSubstring e1 e2 s t) \<longleftrightarrow> \<not> success (IsSubstring e1 e2 s t))"
  unfolding CmpHelperSTREQ_def CmpHelperSTRCASEEQ_def CmpHelperSTRNE_def CmpHelperSTRCASENE_def
    C_string_comparisons IsSubstring_def IsNotSubstring_def IsSubstringImpl_def Let_def
    IsSubstringPred_iff
  by (intro conjI) (use EqFailure_returns in auto)

text \<open>\<open>EXPECT_FLOAT_LE\<close> and \<open>EXPECT_DOUBLE_LE\<close> accept two numbers, neither of them a NaN, exactly
  when the first is at most four representable numbers above the second.\<close>

lemma floating_point_le_ulps:
  fixes a b :: "'a::len word"
  assumes "format_ok TYPE('a word) k"
  shows "success (FloatingPointLE k show_number e1 e2 a b) \<longleftrightarrow>
    number_of_bits k a \<noteq> Not_a_number \<and> number_of_bits k b \<noteq> Not_a_number \<and> sam_value a \<le> sam_value b + 4"
proof -
  have "\<not> double_less (number_of_bits k a) (number_of_bits k b)"
    if "number_of_bits k a = Not_a_number \<or> number_of_bits k b = Not_a_number"
    using that by (cases "number_of_bits k a"; cases "number_of_bits k b") auto
  with ulps_order [OF assms, of a b] show ?thesis by (auto simp: FloatingPointLE_def)
qed

lemma floating_point_le_ulps_witness:
  "success (FloatLE (\<lambda>_. ''x'') ''a'' ''b'' 0x80000003 0x80000006) \<and> \<not> success (FloatLE (\<lambda>_. ''x'') ''a'' ''b'' 5 0)"
proof -
  have "sam_value (0x80000003 :: 32 word) = - 3" "sam_value (0x80000006 :: 32 word) = - 6"
    "sam_value (5 :: 32 word) = 5" "sam_value (0 :: 32 word) = 0"
    by (simp_all add: sam_value_def negative_def magnitude_def)
  moreover have "number_of_bits 23 (0x80000003 :: 32 word) \<noteq> Not_a_number"
    "number_of_bits 23 (0x80000006 :: 32 word) \<noteq> Not_a_number"
    by (simp_all add: number_of_bits_def infinite_magnitude_def magnitude_def Let_def)
  ultimately show ?thesis
    using floating_point_le_ulps [OF format_float, of "\<lambda>_. ''x''" "''a''" "''b''"] by (simp add: FloatLE_def)
qed

text \<open>Two equal infinities are not near each other, whatever error is allowed.\<close>

lemma near_infinity:
  "\<not> success (DoubleNearPredFormat show_number e1 e2 e3 (Infinite False) (Infinite False) (Infinite False))"
  by (simp add: DoubleNearPredFormat_def Let_def double_sub_def double_le_def)

end
