(* ===== verification/Gtest_Flags.thy ===== *)
theory Gtest_Flags
  imports Gtest_Run Gtest_Port Gtest_FilePath
begin

text \<open>
  The flags of googletest and its command line (\<open>googletest-1.8.0/src/gtest.cc\<close>,
  \<open>src/gtest-internal-inl.h\<close>): the values at the start of the program, parsing of a flag, of the
  arguments and of a flag file, the help text, and \<open>InitGoogleTest\<close>. A \<open>char *\<close> is \<open>None\<close> when null.
  \<open>argv\<close> is an array of pointers that the parser shifts in place. The name \<open>FLAGS_x\<close> is what
  \<open>GTEST_FLAG(x)\<close> stands for, without its prefix.
\<close>

section \<open>The flags\<close>

record GTestFlags =
  FLAGS_also_run_disabled_tests :: bool
  FLAGS_break_on_failure :: bool
  FLAGS_catch_exceptions :: bool
  FLAGS_color :: string
  FLAGS_death_test_style :: string
  FLAGS_death_test_use_fork :: bool
  FLAGS_filter :: string
  FLAGS_internal_run_death_test :: string
  FLAGS_list_tests :: bool
  FLAGS_output :: string
  FLAGS_print_time :: bool
  FLAGS_random_seed :: int
  FLAGS_repeat :: int
  FLAGS_shuffle :: bool
  FLAGS_stack_trace_depth :: int
  FLAGS_stream_result_to :: string
  FLAGS_throw_on_failure :: bool
  FLAGS_show_internal_stack_frames :: bool
  FLAGS_flagfile :: string

text \<open>Where \<open>GTEST_TEST_FILTER_ENV_VAR_\<close> is defined, it names a variable with the default filter.\<close>

definition GetDefaultFilter :: "(string \<Rightarrow> string option) \<Rightarrow> string option \<Rightarrow> string" where
  "GetDefaultFilter env filter_env_var =
     (case filter_env_var of
        Some var \<Rightarrow> (case env var of Some testbridge_test_only \<Rightarrow> testbridge_test_only | None \<Rightarrow> ''*'')
      | None \<Rightarrow> ''*'')"

definition kMaxStackTraceDepth :: int where
  "kMaxStackTraceDepth = 100"

definition kDefaultDeathTestStyle :: string where
  "kDefaultDeathTestStyle = ''fast''"

definition initial_flags :: "(string \<Rightarrow> string option) \<Rightarrow> string option \<Rightarrow> GTestFlags" where
  "initial_flags env filter_env_var = \<lparr>
     FLAGS_also_run_disabled_tests = BoolFromGTestEnv env ''also_run_disabled_tests'' False,
     FLAGS_break_on_failure = BoolFromGTestEnv env ''break_on_failure'' False,
     FLAGS_catch_exceptions = BoolFromGTestEnv env ''catch_exceptions'' True,
     FLAGS_color = StringFromGTestEnv env ''color'' ''auto'',
     FLAGS_death_test_style = StringFromGTestEnv env ''death_test_style'' kDefaultDeathTestStyle,
     FLAGS_death_test_use_fork = BoolFromGTestEnv env ''death_test_use_fork'' False,
     FLAGS_filter = StringFromGTestEnv env ''filter'' (GetDefaultFilter env filter_env_var),
     FLAGS_internal_run_death_test = [],
     FLAGS_list_tests = False,
     FLAGS_output = StringFromGTestEnv env ''output'' [],
     FLAGS_print_time = BoolFromGTestEnv env ''print_time'' True,
     FLAGS_random_seed = snd (Int32FromGTestEnv env ''random_seed'' 0),
     FLAGS_repeat = snd (Int32FromGTestEnv env ''repeat'' 1),
     FLAGS_shuffle = BoolFromGTestEnv env ''shuffle'' False,
     FLAGS_stack_trace_depth = snd (Int32FromGTestEnv env ''stack_trace_depth'' kMaxStackTraceDepth),
     FLAGS_stream_result_to = StringFromGTestEnv env ''stream_result_to'' [],
     FLAGS_throw_on_failure = BoolFromGTestEnv env ''throw_on_failure'' False,
     FLAGS_show_internal_stack_frames = False,
     FLAGS_flagfile = StringFromGTestEnv env ''flagfile'' [] \<rparr>"

text \<open>The destructor of \<open>GTestFlagSaver\<close>, with what the constructor saved.\<close>

definition GTestFlagSaver_restore :: "GTestFlags \<Rightarrow> GTestFlags \<Rightarrow> GTestFlags" where
  "GTestFlagSaver_restore saved fl = fl\<lparr>
     FLAGS_also_run_disabled_tests := FLAGS_also_run_disabled_tests saved,
     FLAGS_break_on_failure := FLAGS_break_on_failure saved,
     FLAGS_catch_exceptions := FLAGS_catch_exceptions saved,
     FLAGS_color := FLAGS_color saved,
     FLAGS_death_test_style := FLAGS_death_test_style saved,
     FLAGS_death_test_use_fork := FLAGS_death_test_use_fork saved,
     FLAGS_filter := FLAGS_filter saved,
     FLAGS_internal_run_death_test := FLAGS_internal_run_death_test saved,
     FLAGS_list_tests := FLAGS_list_tests saved,
     FLAGS_output := FLAGS_output saved,
     FLAGS_print_time := FLAGS_print_time saved,
     FLAGS_random_seed := FLAGS_random_seed saved,
     FLAGS_repeat := FLAGS_repeat saved,
     FLAGS_shuffle := FLAGS_shuffle saved,
     FLAGS_stack_trace_depth := FLAGS_stack_trace_depth saved,
     FLAGS_stream_result_to := FLAGS_stream_result_to saved,
     FLAGS_throw_on_failure := FLAGS_throw_on_failure saved \<rparr>"

section \<open>One flag\<close>

text \<open>Whether \<open>*pstr\<close> starts with the prefix, and \<open>*pstr\<close> afterwards.\<close>

definition SkipPrefix :: "string \<Rightarrow> string \<Rightarrow> bool \<times> string" where
  "SkipPrefix pre pstr =
     (if take (length pre) pstr = pre then (True, drop (length pre) pstr) else (False, pstr))"

definition ParseFlagValue :: "string option \<Rightarrow> string option \<Rightarrow> bool \<Rightarrow> string option" where
  "ParseFlagValue str flag def_optional =
     (case (str, flag) of
        (Some s, Some f) \<Rightarrow>
          let flag_str = ''--'' @ GTEST_FLAG_PREFIX @ f; flag_len = length flag_str in
          if take flag_len s \<noteq> flag_str then None
          else let flag_end = drop flag_len s in
            if def_optional \<and> flag_end = [] then Some flag_end
            else (case flag_end of
                    c # after \<Rightarrow> if c \<noteq> CHR ''='' then None else Some after
                  | [] \<Rightarrow> None)
      | _ \<Rightarrow> None)"

text \<open>The results are the return value and \<open>*value\<close>, for an \<open>Int32\<close> with the warning printed.\<close>

definition ParseBoolFlag :: "string option \<Rightarrow> string option \<Rightarrow> bool \<Rightarrow> bool \<times> bool" where
  "ParseBoolFlag str flag old =
     (case ParseFlagValue str flag True of
        None \<Rightarrow> (False, old)
      | Some value_str \<Rightarrow>
          (True, case value_str of
             [] \<Rightarrow> True
           | c # _ \<Rightarrow> \<not> (c = CHR ''0'' \<or> c = CHR ''f'' \<or> c = CHR ''F'')))"

definition ParseInt32Flag :: "string option \<Rightarrow> string option \<Rightarrow> int \<Rightarrow> string \<times> bool \<times> int" where
  "ParseInt32Flag str flag old =
     (case ParseFlagValue str flag False of
        None \<Rightarrow> ([], False, old)
      | Some value_str \<Rightarrow>
          ParseInt32 (stream_pointer (Message_of ''The value of flag --'') flag) value_str old)"

definition ParseStringFlag :: "string option \<Rightarrow> string option \<Rightarrow> string \<Rightarrow> bool \<times> string" where
  "ParseStringFlag str flag old =
     (case ParseFlagValue str flag False of
        None \<Rightarrow> (False, old)
      | Some value_str \<Rightarrow> (True, value_str))"

definition HasGoogleTestFlagPrefix :: "string \<Rightarrow> bool" where
  "HasGoogleTestFlagPrefix str =
     (let (a, s1) = SkipPrefix ''--'' str;
          (b, s2) = (if a then (True, s1) else SkipPrefix ''-'' s1);
          (c, s3) = (if b then (True, s2) else SkipPrefix ''/'' s2) in
      c \<and>
      (let (internal_flag, s4) = SkipPrefix (GTEST_FLAG_PREFIX @ ''internal_'') s3 in
       \<not> internal_flag \<and>
       (fst (SkipPrefix GTEST_FLAG_PREFIX s4) \<or> fst (SkipPrefix ''gtest-'' s4))))"

section \<open>All flags\<close>

text \<open>The flags and what has been printed; one operand of the chain of \<open>||\<close>.\<close>

type_synonym flag_state = "GTestFlags \<times> string"
type_synonym flag_parser = "flag_state \<Rightarrow> bool \<times> flag_state"

definition bool_flag ::
    "string \<Rightarrow> string \<Rightarrow> (GTestFlags \<Rightarrow> bool) \<Rightarrow> ((bool \<Rightarrow> bool) \<Rightarrow> GTestFlags \<Rightarrow> GTestFlags) \<Rightarrow> flag_parser" where
  "bool_flag arg name get upd st =
     (let (ok, v) = ParseBoolFlag (Some arg) (Some name) (get (fst st)) in (ok, upd (\<lambda>_. v) (fst st), snd st))"

definition string_flag ::
    "string \<Rightarrow> string \<Rightarrow> (GTestFlags \<Rightarrow> string) \<Rightarrow> ((string \<Rightarrow> string) \<Rightarrow> GTestFlags \<Rightarrow> GTestFlags) \<Rightarrow> flag_parser" where
  "string_flag arg name get upd st =
     (let (ok, v) = ParseStringFlag (Some arg) (Some name) (get (fst st)) in (ok, upd (\<lambda>_. v) (fst st), snd st))"

definition int32_flag ::
    "string \<Rightarrow> string \<Rightarrow> (GTestFlags \<Rightarrow> int) \<Rightarrow> ((int \<Rightarrow> int) \<Rightarrow> GTestFlags \<Rightarrow> GTestFlags) \<Rightarrow> flag_parser" where
  "int32_flag arg name get upd st =
     (let (out, ok, v) = ParseInt32Flag (Some arg) (Some name) (get (fst st)) in
      (ok, upd (\<lambda>_. v) (fst st), snd st @ out))"

primrec first_that_parses :: "flag_parser list \<Rightarrow> flag_parser" where
  "first_that_parses [] st = (False, st)"
| "first_that_parses (p # ps) st =
     (case p st of (ok, st1) \<Rightarrow> if ok then (True, st1) else first_that_parses ps st1)"

definition ParseGoogleTestFlag :: "string \<Rightarrow> flag_parser" where
  "ParseGoogleTestFlag arg = first_that_parses [
     bool_flag arg ''also_run_disabled_tests'' FLAGS_also_run_disabled_tests FLAGS_also_run_disabled_tests_update,
     bool_flag arg ''break_on_failure'' FLAGS_break_on_failure FLAGS_break_on_failure_update,
     bool_flag arg ''catch_exceptions'' FLAGS_catch_exceptions FLAGS_catch_exceptions_update,
     string_flag arg ''color'' FLAGS_color FLAGS_color_update,
     string_flag arg ''death_test_style'' FLAGS_death_test_style FLAGS_death_test_style_update,
     bool_flag arg ''death_test_use_fork'' FLAGS_death_test_use_fork FLAGS_death_test_use_fork_update,
     string_flag arg ''filter'' FLAGS_filter FLAGS_filter_update,
     string_flag arg ''internal_run_death_test'' FLAGS_internal_run_death_test FLAGS_internal_run_death_test_update,
     bool_flag arg ''list_tests'' FLAGS_list_tests FLAGS_list_tests_update,
     string_flag arg ''output'' FLAGS_output FLAGS_output_update,
     bool_flag arg ''print_time'' FLAGS_print_time FLAGS_print_time_update,
     int32_flag arg ''random_seed'' FLAGS_random_seed FLAGS_random_seed_update,
     int32_flag arg ''repeat'' FLAGS_repeat FLAGS_repeat_update,
     bool_flag arg ''shuffle'' FLAGS_shuffle FLAGS_shuffle_update,
     int32_flag arg ''stack_trace_depth'' FLAGS_stack_trace_depth FLAGS_stack_trace_depth_update,
     string_flag arg ''stream_result_to'' FLAGS_stream_result_to FLAGS_stream_result_to_update,
     bool_flag arg ''throw_on_failure'' FLAGS_throw_on_failure FLAGS_throw_on_failure_update]"

section \<open>The command line\<close>

text \<open>
  \<open>argc\<close>, \<open>argv\<close> with its terminating null pointer, the flags, \<open>g_help_flag\<close> and what is printed.
\<close>

record 'c command_line =
  arg_count :: nat
  arg_vector :: "'c list option list"
  gtest_flags :: GTestFlags
  help_flag :: bool
  console :: string

text \<open>
  A flag file is \<open>None\<close> when it cannot be opened, otherwise its bytes and how \<open>fread\<close> delivers them.
  \<open>Inl\<close>: the process exits with a failure and this text on \<open>stderr\<close>.
\<close>

type_synonym files = "string \<Rightarrow> (string \<times> nat list) option"

primrec load_lines :: "string list \<Rightarrow> 'c command_line \<Rightarrow> 'c command_line" where
  "load_lines [] c = c"
| "load_lines (line # lines) c =
     (if line = [] then load_lines lines c
      else case ParseGoogleTestFlag (c_text line) (gtest_flags c, console c) of
        (ok, fl, out) \<Rightarrow>
          load_lines lines (c\<lparr> gtest_flags := fl, console := out, help_flag := (if ok then help_flag c else True) \<rparr>))"

definition LoadFlagsFromFile :: "files \<Rightarrow> string \<Rightarrow> 'c command_line \<Rightarrow> string + 'c command_line" where
  "LoadFlagsFromFile open_file path c =
     (case open_file path of
        None \<Rightarrow> Inl (''Unable to open file '' @ [CHR 0x22] @ FLAGS_flagfile (gtest_flags c) @ [CHR 0x22, CHR 0x0A])
      | Some (bytes, ready) \<Rightarrow> Inr (load_lines (SplitString (ReadEntireFile bytes ready) CHR 0x0A) c))"

definition is_help :: "string \<Rightarrow> bool" where
  "is_help arg \<longleftrightarrow> arg \<in> {''--help'', ''-h'', ''-?'', ''/?''} \<or> HasGoogleTestFlagPrefix (c_text arg)"

text \<open>One argument: whether it is to be removed.\<close>

definition parse_argument :: "files \<Rightarrow> string \<Rightarrow> 'c command_line \<Rightarrow> string + bool \<times> 'c command_line" where
  "parse_argument open_file arg_string c =
     (let arg = c_text arg_string in
      case ParseGoogleTestFlag arg (gtest_flags c, console c) of
        (ok, fl, out) \<Rightarrow>
      let c1 = c\<lparr> gtest_flags := fl, console := out \<rparr> in
      if ok then Inr (True, c1)
      else case ParseStringFlag (Some arg) (Some ''flagfile'') (FLAGS_flagfile fl) of
        (ok, v) \<Rightarrow>
      if ok then
        (case LoadFlagsFromFile open_file v (c1\<lparr> gtest_flags := FLAGS_flagfile_update (\<lambda>_. v) fl \<rparr>) of
           Inl err \<Rightarrow> Inl err
         | Inr c2 \<Rightarrow> Inr (True, c2))
      else Inr (False, if is_help arg_string then c1\<lparr> help_flag := True \<rparr> else c1))"

definition shift_left :: "nat \<Rightarrow> nat \<Rightarrow> 'a list \<Rightarrow> 'a list" where
  "shift_left i argc argv = fold (\<lambda>j a. a[j := a ! (j + 1)]) [i..<argc] argv"

lemma load_lines_args [simp]:
  "arg_count (load_lines lines c) = arg_count c" "arg_vector (load_lines lines c) = arg_vector c"
  by (induction lines arbitrary: c) (auto split: prod.split)

lemma parse_argument_args:
  "parse_argument open_file s c = Inr (r, c') \<Longrightarrow> arg_count c' = arg_count c \<and> arg_vector c' = arg_vector c"
  by (auto simp: parse_argument_def LoadFlagsFromFile_def Let_def split: prod.splits option.splits sum.splits if_splits)

function parse_from ::
    "files \<Rightarrow> ('c list option \<Rightarrow> string) \<Rightarrow> nat \<Rightarrow> 'c command_line \<Rightarrow> string + 'c command_line" where
  "parse_from open_file streamed i c =
     (if \<not> i < arg_count c then Inr c
      else case parse_argument open_file (streamed (arg_vector c ! i)) c of
        Inl err \<Rightarrow> Inl err
      | Inr (remove_flag, c1) \<Rightarrow>
          if remove_flag then
            parse_from open_file streamed i
              (c1\<lparr> arg_vector := shift_left i (arg_count c1) (arg_vector c1), arg_count := arg_count c1 - 1 \<rparr>)
          else parse_from open_file streamed (i + 1) c1)"
  by pat_completeness auto

termination
  by (relation "measure (\<lambda>(f, s, i, c). arg_count c - i)") (auto dest!: parse_argument_args)

declare parse_from.simps [simp del]

section \<open>Help\<close>

definition kColorEncodedHelpMessage :: "string \<Rightarrow> bool \<Rightarrow> bool \<Rightarrow> string" where
  "kColorEncodedHelpMessage path_sep can_stream_results has_death_test =
     (let nl = [CHR 0x0A]; q = [CHR 0x22]; sq = [CHR 0x27] in concat [
     ''This program contains tests written using Google Test. You can use the'' @ nl,
     ''following command line flags to control its behavior:'' @ nl,
     nl,
     ''Test Selection:'' @ nl,
     ''  @G--gtest_list_tests@D'' @ nl,
     ''      List the names of all tests instead of running them. The name of'' @ nl,
     ''      TEST(Foo, Bar) is '' @ q @ ''Foo.Bar'' @ q @ ''.'' @ nl,
     ''  @G--gtest_filter=@YPOSTIVE_PATTERNS[@G-@YNEGATIVE_PATTERNS]@D'' @ nl,
     ''      Run only the tests whose name matches one of the positive patterns but'' @ nl,
     ''      none of the negative patterns. '' @ sq @ ''?'' @ sq @ '' matches any single character; '' @ sq @ ''*'' @ sq @ nl,
     ''      matches any substring; '' @ sq @ '':'' @ sq @ '' separates two patterns.'' @ nl,
     ''  @G--gtest_also_run_disabled_tests@D'' @ nl,
     ''      Run all disabled tests too.'' @ nl,
     nl,
     ''Test Execution:'' @ nl,
     ''  @G--gtest_repeat=@Y[COUNT]@D'' @ nl,
     ''      Run the tests repeatedly; use a negative count to repeat forever.'' @ nl,
     ''  @G--gtest_shuffle@D'' @ nl,
     ''      Randomize tests'' @ sq @ '' orders on every iteration.'' @ nl,
     ''  @G--gtest_random_seed=@Y[NUMBER]@D'' @ nl,
     ''      Random number seed to use for shuffling test orders (between 1 and'' @ nl,
     ''      99999, or 0 to use a seed based on the current time).'' @ nl,
     nl,
     ''Test Output:'' @ nl,
     ''  @G--gtest_color=@Y(@Gyes@Y|@Gno@Y|@Gauto@Y)@D'' @ nl,
     ''      Enable/disable colored output. The default is @Gauto@D.'' @ nl,
     ''  -@G-gtest_print_time=0@D'' @ nl,
     ''      Don'' @ sq @ ''t print the elapsed time of each test.'' @ nl,
     ''  @G--gtest_output=xml@Y[@G:@YDIRECTORY_PATH@G'' @ path_sep @ ''@Y|@G:@YFILE_PATH]@D'' @ nl,
     ''      Generate an XML report in the given directory or with the given file'' @ nl,
     ''      name. @YFILE_PATH@D defaults to @Gtest_details.xml@D.'' @ nl,
     (if can_stream_results then ''  @G--gtest_stream_result_to=@YHOST@G:@YPORT@D'' @ nl @ ''      Stream test results to the given server.'' @ nl else []),
     nl,
     ''Assertion Behavior:'' @ nl,
     (if has_death_test then ''  @G--gtest_death_test_style=@Y(@Gfast@Y|@Gthreadsafe@Y)@D'' @ nl @ ''      Set the default death test style.'' @ nl else []),
     ''  @G--gtest_break_on_failure@D'' @ nl,
     ''      Turn assertion failures into debugger break-points.'' @ nl,
     ''  @G--gtest_throw_on_failure@D'' @ nl,
     ''      Turn assertion failures into C++ exceptions.'' @ nl,
     ''  @G--gtest_catch_exceptions=0@D'' @ nl,
     ''      Do not report exceptions as test failures. Instead, allow them'' @ nl,
     ''      to crash the program or throw a pop-up (on Windows).'' @ nl,
     nl,
     ''Except for @G--gtest_list_tests@D, you can alternatively set the corresponding'' @ nl,
     ''environment variable of a flag (all letters in upper-case). For example, to'' @ nl,
     ''disable colored text output, you can either specify @G--gtest_color=no@D or set'' @ nl,
     ''the @GGTEST_COLOR@D environment variable to @Gno@D.'' @ nl,
     nl,
     ''For more information, please read the Google Test documentation at'' @ nl,
     ''@Ghttps://github.com/google/googletest/@D. If you find a bug in Google Test'' @ nl,
     ''(not one in your own code or tests), please report it to'' @ nl,
     ''@G<googletestframework@@googlegroups.com>@D.'' @ nl])"

datatype GTestColor = COLOR_DEFAULT | COLOR_RED | COLOR_GREEN | COLOR_YELLOW

lemma drop_Suc_shorter: "c \<in> set str \<Longrightarrow> drop (Suc n) str = xs \<Longrightarrow> length xs < length str"
  by (cases str) auto

text \<open>The segments \<open>ColoredPrintf\<close> prints, with their colours.\<close>

function color_segments :: "GTestColor \<Rightarrow> string \<Rightarrow> (GTestColor \<times> string) list" where
  "color_segments color str =
     (if CHR ''@'' \<notin> set str then [(color, str)]
      else
        let before = takeWhile (\<lambda>c. c \<noteq> CHR ''@'') str; p = drop (length before) str in
        (color, before) #
        (case drop 1 p of
           [] \<Rightarrow> color_segments color []
         | ch # after \<Rightarrow>
             if ch = CHR ''@'' then (color, ''@'') # color_segments color after
             else if ch = CHR ''D'' then color_segments COLOR_DEFAULT after
             else if ch = CHR ''R'' then color_segments COLOR_RED after
             else if ch = CHR ''G'' then color_segments COLOR_GREEN after
             else if ch = CHR ''Y'' then color_segments COLOR_YELLOW after
             else color_segments color (ch # after)))"
  by pat_completeness auto
termination
  by (relation "measure (length \<circ> snd)") (auto dest: length_pos_if_in_set drop_Suc_shorter)

declare color_segments.simps [simp del]

definition PrintColorEncoded :: "string \<Rightarrow> (GTestColor \<times> string) list" where
  "PrintColorEncoded str = color_segments COLOR_DEFAULT str"

section \<open>Initialisation\<close>

text \<open>
  What is printed for the help goes to the console. \<open>streamed\<close> is the text of a narrow or a wide
  argument; no argument before \<open>argv[argc]\<close> is a null pointer.
\<close>

record help_config =
  path_separator :: string
  can_stream_results :: bool
  has_death_test :: bool

definition ParseGoogleTestFlagsOnlyImpl ::
    "help_config \<Rightarrow> files \<Rightarrow> ('c list option \<Rightarrow> string) \<Rightarrow> 'c command_line \<Rightarrow> string + 'c command_line" where
  "ParseGoogleTestFlagsOnlyImpl h open_file streamed c =
     (case parse_from open_file streamed 1 c of
        Inl err \<Rightarrow> Inl err
      | Inr c' \<Rightarrow>
          Inr (if help_flag c' then
                 c'\<lparr> console := console c' @ concat (map snd (PrintColorEncoded
                   (kColorEncodedHelpMessage (path_separator h) (can_stream_results h) (has_death_test h)))) \<rparr>
               else c'))"

definition streamed_char :: "string option \<Rightarrow> string" where
  "streamed_char s = GetString (stream_pointer new_Message s)"

definition streamed_wchar :: "bool \<Rightarrow> 32 word list option \<Rightarrow> string" where
  "streamed_wchar utf16 s = GetString (stream_text new_Message (ShowWideCString utf16 s))"

definition ParseGoogleTestFlagsOnly ::
    "help_config \<Rightarrow> files \<Rightarrow> char command_line \<Rightarrow> string + char command_line" where
  "ParseGoogleTestFlagsOnly h open_file c = ParseGoogleTestFlagsOnlyImpl h open_file streamed_char c"

definition ParseGoogleTestFlagsOnly_wide ::
    "help_config \<Rightarrow> files \<Rightarrow> bool \<Rightarrow> 32 word command_line \<Rightarrow> string + 32 word command_line" where
  "ParseGoogleTestFlagsOnly_wide h open_file utf16 c =
     ParseGoogleTestFlagsOnlyImpl h open_file (streamed_wchar utf16) c"

section \<open>The output flag\<close>

definition GetOutputFormat :: "GTestFlags \<Rightarrow> string" where
  "GetOutputFormat fl = takeWhile (\<lambda>c. c \<noteq> CHR '':'') (c_text (FLAGS_output fl))"

definition GetCurrentExecutableName :: "platform \<Rightarrow> string list \<Rightarrow> string result" where
  "GetCurrentExecutableName p argvs =
     (case argvs of
        [] \<Rightarrow> Inl (Undefined_behaviour ''GetArgvs()[0]'')
      | a # _ \<Rightarrow>
          let f = new_FilePath p a;
              f1 = (case p of Windows \<Rightarrow> RemoveExtension p ''exe'' f | Posix \<Rightarrow> f);
              r = FilePath_Set empty_FilePath f1 in
          Inr (pathname (RemoveDirectoryName p r)))"

definition GetAbsolutePathToOutputFile ::
    "platform \<Rightarrow> 'fs file_system \<Rightarrow> 'fs \<Rightarrow> UnitTestImpl \<Rightarrow> string list \<Rightarrow> GTestFlags \<Rightarrow> string result" where
  "GetAbsolutePathToOutputFile p F fs u argvs fl =
     (let gtest_output_flag = c_text (FLAGS_output fl) in
      if CHR '':'' \<notin> set gtest_output_flag then
        Inr (pathname (ConcatPaths p (new_FilePath p (pathname (original_working_dir u))) (new_FilePath p ''test_detail.xml'')))
      else
        let after_colon = drop 1 (dropWhile (\<lambda>c. c \<noteq> CHR '':'') gtest_output_flag);
            output_name = new_FilePath p after_colon;
            output_name = (if \<not> IsAbsolutePath p output_name
                           then ConcatPaths p (new_FilePath p (pathname (original_working_dir u))) (new_FilePath p after_colon)
                           else output_name) in
        if \<not> IsDirectory p output_name then Inr (pathname output_name)
        else
          (case GetCurrentExecutableName p argvs of
             Inl err \<Rightarrow> Inl err
           | Inr name \<Rightarrow>
          (case GenerateUniqueFileName p F fs output_name \<lparr> pathname = name \<rparr> (GetOutputFormat fl) of
             Inl err \<Rightarrow> Inl err
           | Inr result \<Rightarrow> Inr (pathname result))))"

section \<open>\<open>InitGoogleTest\<close>\<close>

text \<open>The process: its command line, \<open>g_argvs\<close>, and the state of the test program.\<close>

record 'c process =
  command :: "'c command_line"
  g_argvs :: "string list"
  program :: run_state

text \<open>What the rest of the framework reads of the flags.\<close>

definition context_of_flags :: "'c command_line \<Rightarrow> string list \<Rightarrow> run_context \<Rightarrow> run_context" where
  "context_of_flags c argvs cx = cx\<lparr>
     gtest_is_initialized := 0 < length argvs,
     g_help_flag := help_flag c,
     in_subprocess_for_death_test := FLAGS_internal_run_death_test (gtest_flags c) \<noteq> [],
     output_format := GetOutputFormat (gtest_flags c),
     stream_result_to := FLAGS_stream_result_to (gtest_flags c) \<rparr>"

definition run_flags_of :: "GTestFlags \<Rightarrow> run_flags \<Rightarrow> run_flags" where
  "run_flags_of fl rf = rf\<lparr>
     catch_exceptions := FLAGS_catch_exceptions fl,
     break_on_failure := FLAGS_break_on_failure fl,
     throw_on_failure := FLAGS_throw_on_failure fl,
     flag_shuffle := FLAGS_shuffle fl,
     flag_list_tests := FLAGS_list_tests fl,
     flag_also_run_disabled_tests := FLAGS_also_run_disabled_tests fl,
     flag_filter := FLAGS_filter fl,
     flag_repeat := FLAGS_repeat fl,
     flag_random_seed := FLAGS_random_seed fl \<rparr>"

definition InitGoogleTestImpl ::
    "help_config \<Rightarrow> files \<Rightarrow> ('c list option \<Rightarrow> string) \<Rightarrow> run_context \<Rightarrow> 'c process \<Rightarrow> string + 'c process" where
  "InitGoogleTestImpl h open_file streamed cx p =
     (if 0 < length (g_argvs p) then Inr p
      else if arg_count (command p) \<le> 0 then Inr p
      else
        let argvs = map streamed (take (arg_count (command p)) (arg_vector (command p))) in
        case ParseGoogleTestFlagsOnlyImpl h open_file streamed (command p) of
          Inl err \<Rightarrow> Inl err
        | Inr c \<Rightarrow>
            Inr (p\<lparr> g_argvs := argvs, command := c,
                   program := PostFlagParsingInit (context_of_flags c argvs cx) (program p) \<rparr>))"

definition InitGoogleTest ::
    "help_config \<Rightarrow> files \<Rightarrow> run_context \<Rightarrow> char process \<Rightarrow> string + char process" where
  "InitGoogleTest h open_file cx p = InitGoogleTestImpl h open_file streamed_char cx p"

definition InitGoogleTest_wide ::
    "help_config \<Rightarrow> files \<Rightarrow> bool \<Rightarrow> run_context \<Rightarrow> 32 word process \<Rightarrow> string + 32 word process" where
  "InitGoogleTest_wide h open_file utf16 cx p = InitGoogleTestImpl h open_file (streamed_wchar utf16) cx p"

section \<open>Recognised flags\<close>

definition bool_flags :: "string set" where
  "bool_flags = {''also_run_disabled_tests'', ''break_on_failure'', ''catch_exceptions'', ''death_test_use_fork'',
     ''list_tests'', ''print_time'', ''shuffle'', ''throw_on_failure''}"

definition string_flags :: "string set" where
  "string_flags = {''color'', ''death_test_style'', ''filter'', ''internal_run_death_test'', ''output'', ''stream_result_to''}"

definition int32_flags :: "string set" where
  "int32_flags = {''random_seed'', ''repeat'', ''stack_trace_depth''}"

text \<open>The text of a flag with a value, and the arguments the parser takes.\<close>

definition flag_text :: "string \<Rightarrow> string \<Rightarrow> string" where
  "flag_text name v = ''--gtest_'' @ name @ ''='' @ v"

definition is_int32_text :: "string \<Rightarrow> bool" where
  "is_int32_text v \<longleftrightarrow> fst (snd (ParseInt32 new_Message v 0))"

definition google_test_flag :: "string \<Rightarrow> bool" where
  "google_test_flag arg \<longleftrightarrow>
     (\<exists>name v. arg = flag_text name v \<and>
        (name \<in> bool_flags \<or> name \<in> string_flags \<or> name \<in> int32_flags \<and> is_int32_text v)) \<or>
     (\<exists>name \<in> bool_flags. arg = ''--gtest_'' @ name)"

lemma take_prefix_iff: "take (length p) s = p \<longleftrightarrow> (\<exists>r. s = p @ r)"
  by (metis append_eq_conv_conj append_take_drop_id)

lemma ParseFlagValue_Some:
  "ParseFlagValue (Some arg) (Some name) opt = Some v \<longleftrightarrow>
     arg = flag_text name v \<or> opt \<and> v = [] \<and> arg = ''--gtest_'' @ name"
  by (auto simp: ParseFlagValue_def flag_text_def Let_def take_prefix_iff GTEST_FLAG_PREFIX_def
      split: list.split list.split_asm if_splits)

lemma ParseInt32_accepts: "fst (snd (ParseInt32 m v old)) = is_int32_text v"
  by (auto simp: is_int32_text_def ParseInt32_def Let_def split_def)

lemma ParseFlagValue_None:
  "ParseFlagValue (Some arg) (Some name) opt = None \<longleftrightarrow>
     \<not> (\<exists>v. arg = flag_text name v) \<and> \<not> (opt \<and> arg = ''--gtest_'' @ name)"
  unfolding not_Some_eq [symmetric] ParseFlagValue_Some by blast

lemma flag_text_inject [simp]: "flag_text name v = flag_text name w \<longleftrightarrow> v = w"
  by (simp add: flag_text_def)

lemma single_flags:
  "fst (bool_flag arg name g u st) \<longleftrightarrow> (\<exists>v. arg = flag_text name v) \<or> arg = ''--gtest_'' @ name"
  "fst (string_flag arg name g2 u2 st) \<longleftrightarrow> (\<exists>v. arg = flag_text name v)"
  "fst (int32_flag arg name g3 u3 st) \<longleftrightarrow> (\<exists>v. arg = flag_text name v \<and> is_int32_text v)"
  unfolding bool_flag_def string_flag_def int32_flag_def ParseBoolFlag_def ParseStringFlag_def ParseInt32Flag_def
    Let_def split_def
  by (auto simp: ParseFlagValue_Some ParseFlagValue_None ParseInt32_accepts simp del: append.simps split: option.split)

lemma fst_first_that_parses:
  "fst (first_that_parses [] st) = False"
  "fst (first_that_parses (p # ps) st) \<longleftrightarrow> fst (p st) \<or> fst (first_that_parses ps (snd (p st)))"
  by (simp_all split: prod.split)

lemma ParseGoogleTestFlag_accepts: "fst (ParseGoogleTestFlag arg st) = google_test_flag arg"
proof -
  define F B I where "F n \<longleftrightarrow> (\<exists>v. arg = flag_text n v)" and "B n \<longleftrightarrow> arg = ''--gtest_'' @ n"
    and "I n \<longleftrightarrow> (\<exists>v. arg = flag_text n v \<and> is_int32_text v)" for n
  have g: "google_test_flag arg \<longleftrightarrow>
      (\<exists>n \<in> bool_flags. F n \<or> B n) \<or> (\<exists>n \<in> string_flags. F n) \<or> (\<exists>n \<in> int32_flags. I n)"
    unfolding google_test_flag_def F_def B_def I_def by blast
  have single: "fst (bool_flag arg name g u st) \<longleftrightarrow> F name \<or> B name"
    "fst (string_flag arg name g2 u2 st) \<longleftrightarrow> F name" "fst (int32_flag arg name g3 u3 st) \<longleftrightarrow> I name"
    for name g u g2 u2 g3 u3 st
    unfolding single_flags F_def B_def I_def by (rule refl)+
  show ?thesis
    unfolding ParseGoogleTestFlag_def g bool_flags_def string_flags_def int32_flags_def
      fst_first_that_parses single bex_simps
    by blast
qed

section \<open>The arguments that stay\<close>

text \<open>What the parser does to the flags, apart from the array: one argument after the other.\<close>

primrec parse_each :: "files \<Rightarrow> string list \<Rightarrow> 'c command_line \<Rightarrow> string + 'c command_line" where
  "parse_each open_file [] c = Inr c"
| "parse_each open_file (s # later) c =
     (case parse_argument open_file s c of Inl err \<Rightarrow> Inl err | Inr (_, c1) \<Rightarrow> parse_each open_file later c1)"

definition taken :: "string \<Rightarrow> bool" where
  "taken s \<longleftrightarrow> google_test_flag (c_text s) \<or> (\<exists>v. c_text s = flag_text ''flagfile'' v)"

lemma parse_argument_taken: "parse_argument open_file s c = Inr (r, c') \<Longrightarrow> r = taken s"
  using ParseGoogleTestFlag_accepts [of "c_text s" "(gtest_flags c, console c)"]
  by (auto simp: parse_argument_def taken_def Let_def ParseStringFlag_def ParseFlagValue_Some ParseFlagValue_None
      split: prod.splits option.splits sum.splits if_splits)

definition with_args :: "nat \<Rightarrow> 'c list option list \<Rightarrow> 'c command_line \<Rightarrow> 'c command_line" where
  "with_args n v c = c\<lparr> arg_count := n, arg_vector := v \<rparr>"

lemma with_args_simps [simp]:
  "gtest_flags (with_args n v c) = gtest_flags c" "help_flag (with_args n v c) = help_flag c"
  "console (with_args n v c) = console c" "arg_count (with_args n v c) = n" "arg_vector (with_args n v c) = v"
  "(with_args n v c)\<lparr> gtest_flags := fl \<rparr> = with_args n v (c\<lparr> gtest_flags := fl \<rparr>)"
  "(with_args n v c)\<lparr> help_flag := b \<rparr> = with_args n v (c\<lparr> help_flag := b \<rparr>)"
  "(with_args n v c)\<lparr> console := out \<rparr> = with_args n v (c\<lparr> console := out \<rparr>)"
  "with_args n v (with_args n' v' c) = with_args n v c" "with_args (arg_count c) (arg_vector c) c = c"
  by (simp_all add: with_args_def)

lemma load_lines_frame: "load_lines lines (with_args n v c) = with_args n v (load_lines lines c)"
  by (induction lines arbitrary: c) (auto split: prod.split)

lemma parse_argument_frame:
  "parse_argument open_file s (with_args n v c) =
     map_sum id (map_prod id (with_args n v)) (parse_argument open_file s c)"
  by (auto simp: parse_argument_def LoadFlagsFromFile_def Let_def load_lines_frame
      split: prod.splits option.splits sum.splits)

lemma parse_each_frame:
  "parse_each open_file texts (with_args n v c) = map_sum id (with_args n v) (parse_each open_file texts c)"
  by (induction texts arbitrary: c) (auto simp: parse_argument_frame split: sum.split)

lemma shift_left_list:
  "shift_left (length xs) (length xs + Suc (length ys)) (xs @ y # ys @ z # rest) = xs @ ys @ z # z # rest"
proof (induction ys arbitrary: xs y)
  case Nil
  then show ?case by (simp add: shift_left_def nth_append)
next
  case (Cons y' ys)
  have "shift_left (length xs) (length xs + Suc (length (y' # ys))) (xs @ y # (y' # ys) @ z # rest) =
      shift_left (length (xs @ [y'])) (length (xs @ [y']) + Suc (length ys)) ((xs @ [y']) @ y' # ys @ z # rest)"
    unfolding shift_left_def by (subst upt_conv_Cons) (simp_all add: nth_append list_update_append)
  then show ?case using Cons.IH [of "xs @ [y']" y'] by simp
qed

lemma parse_from_list:
  assumes "arg_vector c = xs @ map Some args @ None # rest" "arg_count c = length xs + length args"
  shows "parse_from open_file streamed (length xs) c =
    (let kept = filter (\<lambda>a. \<not> taken (streamed (Some a))) args in
     map_sum id (with_args (length xs + length kept)
         (xs @ map Some kept @ None # replicate (length args - length kept) None @ rest))
       (parse_each open_file (map (streamed \<circ> Some) args) c))"
  using assms
proof (induction args arbitrary: xs c rest)
  case Nil
  then show ?case by (subst parse_from.simps) (simp add: Let_def)
next
  case (Cons a args)
  let ?s = "streamed (Some a)"
  have here: "arg_vector c ! length xs = Some a" using Cons.prems by (simp add: nth_append)
  have le: "length (filter p args) \<le> length args" for p :: "'a list \<Rightarrow> bool" by (rule length_filter_le)
  show ?case
  proof (cases "parse_argument open_file ?s c")
    case (Inl err)
    then show ?thesis using Cons.prems here by (subst parse_from.simps) (simp add: Let_def)
  next
    case (Inr rc)
    obtain r c1 where rc: "rc = (r, c1)" by (cases rc)
    have r: "r = taken ?s" using parse_argument_taken Inr rc by blast
    have args1: "arg_count c1 = length xs + Suc (length args)"
      "arg_vector c1 = xs @ Some a # map Some args @ None # rest"
      using parse_argument_args [OF Inr [unfolded rc]] Cons.prems by auto
    show ?thesis
    proof (cases r)
      case False
      have "parse_from open_file streamed (length xs) c = parse_from open_file streamed (length (xs @ [Some a])) c1"
        using Inr rc False Cons.prems here by (subst parse_from.simps) simp
      also note Cons.IH [of c1 "xs @ [Some a]" rest]
      finally show ?thesis using args1 False r Inr rc by (simp add: Let_def)
    next
      case True
      let ?v = "xs @ map Some args @ None # None # rest"
      let ?c2 = "with_args (length xs + length args) ?v c1"
      have shifted: "shift_left (length xs) (arg_count c1) (arg_vector c1) = ?v"
        using shift_left_list [of xs "map Some args" "Some a" None rest] by (simp add: args1)
      have c2: "c1\<lparr> arg_vector := shift_left (length xs) (arg_count c1) (arg_vector c1),
          arg_count := arg_count c1 - 1 \<rparr> = ?c2"
        unfolding shifted by (cases c1) (use args1 in \<open>simp add: with_args_def\<close>)
      have "parse_from open_file streamed (length xs) c = parse_from open_file streamed (length xs) ?c2"
        unfolding c2 [symmetric] using Inr rc True Cons.prems(2) here by (subst parse_from.simps) simp
      also note Cons.IH [of ?c2 xs "None # rest"]
      finally show ?thesis using True r Inr rc le [of "\<lambda>a. \<not> taken (streamed (Some a))"] parse_each_frame [of open_file "map (streamed \<circ> Some) args" "length xs + length args" ?v c1]
        by (simp add: Let_def Suc_diff_le replicate_app_Cons_same sum.map_comp comp_def)
    qed
  qed
qed

section \<open>Setting every flag\<close>

definition bool_text :: "bool \<Rightarrow> string" where
  "bool_text b = (if b then ''true'' else ''false'')"

definition flag_arguments :: "GTestFlags \<Rightarrow> string list" where
  "flag_arguments fl = [
     flag_text ''also_run_disabled_tests'' (bool_text (FLAGS_also_run_disabled_tests fl)),
     flag_text ''break_on_failure'' (bool_text (FLAGS_break_on_failure fl)),
     flag_text ''catch_exceptions'' (bool_text (FLAGS_catch_exceptions fl)),
     flag_text ''color'' (FLAGS_color fl),
     flag_text ''death_test_style'' (FLAGS_death_test_style fl),
     flag_text ''death_test_use_fork'' (bool_text (FLAGS_death_test_use_fork fl)),
     flag_text ''filter'' (FLAGS_filter fl),
     flag_text ''internal_run_death_test'' (FLAGS_internal_run_death_test fl),
     flag_text ''list_tests'' (bool_text (FLAGS_list_tests fl)),
     flag_text ''output'' (FLAGS_output fl),
     flag_text ''print_time'' (bool_text (FLAGS_print_time fl)),
     flag_text ''random_seed'' (int_string (FLAGS_random_seed fl)),
     flag_text ''repeat'' (int_string (FLAGS_repeat fl)),
     flag_text ''shuffle'' (bool_text (FLAGS_shuffle fl)),
     flag_text ''stack_trace_depth'' (int_string (FLAGS_stack_trace_depth fl)),
     flag_text ''stream_result_to'' (FLAGS_stream_result_to fl),
     flag_text ''throw_on_failure'' (bool_text (FLAGS_throw_on_failure fl))]"

definition flag_values_ok :: "GTestFlags \<Rightarrow> bool" where
  "flag_values_ok fl \<longleftrightarrow>
     (\<forall>s \<in> {FLAGS_color fl, FLAGS_death_test_style fl, FLAGS_filter fl, FLAGS_internal_run_death_test fl,
        FLAGS_output fl, FLAGS_stream_result_to fl}. CHR 0x00 \<notin> set s) \<and>
     (\<forall>i \<in> {FLAGS_random_seed fl, FLAGS_repeat fl, FLAGS_stack_trace_depth fl}. - (2 ^ 31) \<le> i \<and> i < 2 ^ 31)"

lemma flag_text_name:
  "CHR ''='' \<notin> set n \<Longrightarrow> CHR ''='' \<notin> set m \<Longrightarrow> flag_text n v = flag_text m w \<longleftrightarrow> n = m \<and> v = w"
  "CHR ''='' \<notin> set m \<Longrightarrow> flag_text n v \<noteq> ''--gtest_'' @ m"
  by (auto simp: flag_text_def append_eq_append_conv2 Cons_eq_append_conv append_eq_Cons_conv)

lemma ParseFlagValue_flag_text:
  "CHR ''='' \<notin> set n \<Longrightarrow> CHR ''='' \<notin> set m \<Longrightarrow>
     ParseFlagValue (Some (flag_text n v)) (Some m) opt = (if n = m then Some v else None)"
  using ParseFlagValue_Some [of "flag_text n v" n opt v]
  by (auto simp: ParseFlagValue_None flag_text_name simp del: append.simps)

lemma flag_parser_steps:
  assumes "CHR ''='' \<notin> set n" "CHR ''='' \<notin> set m"
  shows "bool_flag (flag_text n v) m g u st =
      (if n = m then (True, u (\<lambda>_. v = [] \<or> hd v \<notin> {CHR ''0'', CHR ''f'', CHR ''F''}) (fst st), snd st)
       else (False, u (\<lambda>_. g (fst st)) (fst st), snd st))"
    "string_flag (flag_text n v) m g2 u2 st =
      (if n = m then (True, u2 (\<lambda>_. v) (fst st), snd st) else (False, u2 (\<lambda>_. g2 (fst st)) (fst st), snd st))"
    "n \<noteq> m \<Longrightarrow> int32_flag (flag_text n v) m g3 u3 st = (False, u3 (\<lambda>_. g3 (fst st)) (fst st), snd st)"
    "n = m \<Longrightarrow> - (2 ^ 31) \<le> i \<and> i < 2 ^ 31 \<Longrightarrow>
      int32_flag (flag_text n (int_string i)) m g3 u3 st = (True, u3 (\<lambda>_. i) (fst st), snd st)"
proof -
  assume i: "n = m" "- (2 ^ 31) \<le> i \<and> i < 2 ^ 31"
  then have "ParseInt32 src (int_string i) old = ([], True, i)" for src old
    using to_Int32_eq [of i] by (simp add: ParseInt32_def strtol_int_string LONG_MAX_def LONG_MIN_def Let_def)
  with i assms show "int32_flag (flag_text n (int_string i)) m g3 u3 st = (True, u3 (\<lambda>_. i) (fst st), snd st)"
    by (simp add: int32_flag_def ParseInt32Flag_def ParseFlagValue_flag_text)
qed (use assms in \<open>auto simp: bool_flag_def string_flag_def int32_flag_def ParseBoolFlag_def ParseStringFlag_def
      ParseInt32Flag_def ParseFlagValue_flag_text split: list.split\<close>)

lemma bool_text_value: "bool_text b = [] \<or> hd (bool_text b) \<notin> {CHR ''0'', CHR ''f'', CHR ''F''} \<longleftrightarrow> b"
  by (simp add: bool_text_def)

text \<open>An operand whose flag has another name changes nothing.\<close>

lemma other_flags [simp]:
  "fl\<lparr> FLAGS_also_run_disabled_tests := FLAGS_also_run_disabled_tests fl \<rparr> = fl"
  "fl\<lparr> FLAGS_break_on_failure := FLAGS_break_on_failure fl \<rparr> = fl"
  "fl\<lparr> FLAGS_catch_exceptions := FLAGS_catch_exceptions fl \<rparr> = fl"
  "fl\<lparr> FLAGS_color := FLAGS_color fl \<rparr> = fl"
  "fl\<lparr> FLAGS_death_test_style := FLAGS_death_test_style fl \<rparr> = fl"
  "fl\<lparr> FLAGS_death_test_use_fork := FLAGS_death_test_use_fork fl \<rparr> = fl"
  "fl\<lparr> FLAGS_filter := FLAGS_filter fl \<rparr> = fl"
  "fl\<lparr> FLAGS_internal_run_death_test := FLAGS_internal_run_death_test fl \<rparr> = fl"
  "fl\<lparr> FLAGS_list_tests := FLAGS_list_tests fl \<rparr> = fl"
  "fl\<lparr> FLAGS_output := FLAGS_output fl \<rparr> = fl"
  "fl\<lparr> FLAGS_print_time := FLAGS_print_time fl \<rparr> = fl"
  "fl\<lparr> FLAGS_random_seed := FLAGS_random_seed fl \<rparr> = fl"
  "fl\<lparr> FLAGS_repeat := FLAGS_repeat fl \<rparr> = fl"
  "fl\<lparr> FLAGS_shuffle := FLAGS_shuffle fl \<rparr> = fl"
  "fl\<lparr> FLAGS_stack_trace_depth := FLAGS_stack_trace_depth fl \<rparr> = fl"
  "fl\<lparr> FLAGS_stream_result_to := FLAGS_stream_result_to fl \<rparr> = fl"
  "fl\<lparr> FLAGS_throw_on_failure := FLAGS_throw_on_failure fl \<rparr> = fl"
  by (cases fl; simp)+

lemma each_flag_parses:
  "ParseGoogleTestFlag (flag_text ''also_run_disabled_tests'' (bool_text b)) (fl, out) = (True, fl\<lparr> FLAGS_also_run_disabled_tests := b \<rparr>, out)"
  "ParseGoogleTestFlag (flag_text ''break_on_failure'' (bool_text b)) (fl, out) = (True, fl\<lparr> FLAGS_break_on_failure := b \<rparr>, out)"
  "ParseGoogleTestFlag (flag_text ''catch_exceptions'' (bool_text b)) (fl, out) = (True, fl\<lparr> FLAGS_catch_exceptions := b \<rparr>, out)"
  "ParseGoogleTestFlag (flag_text ''color'' (v)) (fl, out) = (True, fl\<lparr> FLAGS_color := v \<rparr>, out)"
  "ParseGoogleTestFlag (flag_text ''death_test_style'' (v)) (fl, out) = (True, fl\<lparr> FLAGS_death_test_style := v \<rparr>, out)"
  "ParseGoogleTestFlag (flag_text ''death_test_use_fork'' (bool_text b)) (fl, out) = (True, fl\<lparr> FLAGS_death_test_use_fork := b \<rparr>, out)"
  "ParseGoogleTestFlag (flag_text ''filter'' (v)) (fl, out) = (True, fl\<lparr> FLAGS_filter := v \<rparr>, out)"
  "ParseGoogleTestFlag (flag_text ''internal_run_death_test'' (v)) (fl, out) = (True, fl\<lparr> FLAGS_internal_run_death_test := v \<rparr>, out)"
  "ParseGoogleTestFlag (flag_text ''list_tests'' (bool_text b)) (fl, out) = (True, fl\<lparr> FLAGS_list_tests := b \<rparr>, out)"
  "ParseGoogleTestFlag (flag_text ''output'' (v)) (fl, out) = (True, fl\<lparr> FLAGS_output := v \<rparr>, out)"
  "ParseGoogleTestFlag (flag_text ''print_time'' (bool_text b)) (fl, out) = (True, fl\<lparr> FLAGS_print_time := b \<rparr>, out)"
  "- (2 ^ 31) \<le> i \<and> i < 2 ^ 31 \<Longrightarrow> ParseGoogleTestFlag (flag_text ''random_seed'' (int_string i)) (fl, out) = (True, fl\<lparr> FLAGS_random_seed := i \<rparr>, out)"
  "- (2 ^ 31) \<le> i \<and> i < 2 ^ 31 \<Longrightarrow> ParseGoogleTestFlag (flag_text ''repeat'' (int_string i)) (fl, out) = (True, fl\<lparr> FLAGS_repeat := i \<rparr>, out)"
  "ParseGoogleTestFlag (flag_text ''shuffle'' (bool_text b)) (fl, out) = (True, fl\<lparr> FLAGS_shuffle := b \<rparr>, out)"
  "- (2 ^ 31) \<le> i \<and> i < 2 ^ 31 \<Longrightarrow> ParseGoogleTestFlag (flag_text ''stack_trace_depth'' (int_string i)) (fl, out) = (True, fl\<lparr> FLAGS_stack_trace_depth := i \<rparr>, out)"
  "ParseGoogleTestFlag (flag_text ''stream_result_to'' (v)) (fl, out) = (True, fl\<lparr> FLAGS_stream_result_to := v \<rparr>, out)"
  "ParseGoogleTestFlag (flag_text ''throw_on_failure'' (bool_text b)) (fl, out) = (True, fl\<lparr> FLAGS_throw_on_failure := b \<rparr>, out)"
  unfolding ParseGoogleTestFlag_def
  by (simp_all add: flag_parser_steps bool_text_value [simplified])

lemma parse_argument_flag:
  "ParseGoogleTestFlag s (gtest_flags c, console c) = (True, fl, console c) \<Longrightarrow> CHR 0x00 \<notin> set s \<Longrightarrow>
     parse_argument open_file s c = Inr (True, c\<lparr> gtest_flags := fl \<rparr>)"
  by (simp add: parse_argument_def c_text_no_nul)

lemma no_nul_texts:
  "CHR 0x00 \<notin> set (int_string i)" "CHR 0x00 \<notin> set (bool_text b)"
  "CHR 0x00 \<notin> set n \<Longrightarrow> CHR 0x00 \<notin> set v \<Longrightarrow> CHR 0x00 \<notin> set (flag_text n v)"
proof -
  have "\<not> is_digit CHR 0x00" by (simp add: is_digit_def)
  then have "CHR 0x00 \<notin> set (dec_string k)" for k
    using dec_string_digits [of k] by (auto simp: list_all_iff)
  then show "CHR 0x00 \<notin> set (int_string i)" by (simp add: int_string_def)
qed (simp_all add: bool_text_def flag_text_def)

lemma flag_arguments_no_nul: "flag_values_ok fl \<Longrightarrow> s \<in> set (flag_arguments fl) \<Longrightarrow> CHR 0x00 \<notin> set s"
  by (auto simp: flag_values_ok_def flag_arguments_def no_nul_texts)

lemma flag_arguments_set:
  assumes "flag_values_ok fl" "FLAGS_show_internal_stack_frames fl = FLAGS_show_internal_stack_frames (gtest_flags c)"
    "FLAGS_flagfile fl = FLAGS_flagfile (gtest_flags c)"
  shows "parse_each open_file (flag_arguments fl) c = Inr (c\<lparr> gtest_flags := fl \<rparr>)"
proof -
  have nn: "CHR 0x00 \<notin> set s" if "s \<in> set (flag_arguments fl)" for s
    using flag_arguments_no_nul [OF assms(1) that] .
  have ints: "- (2 ^ 31) \<le> i \<and> i < 2 ^ 31"
    if "i \<in> {FLAGS_random_seed fl, FLAGS_repeat fl, FLAGS_stack_trace_depth fl}" for i
    using assms(1) that unfolding flag_values_ok_def by blast
  note steps = parse_argument_flag [OF _ nn] each_flag_parses
  show ?thesis
    using ints assms(2,3)
    by (cases c; cases fl; cases "gtest_flags c")
      (simp add: steps flag_arguments_def)
qed

lemma taken_flag_arguments:
  assumes "flag_values_ok fl" "s \<in> set (flag_arguments fl)"
  shows "taken s"
proof -
  have ints: "- (2 ^ 31) \<le> FLAGS_random_seed fl \<and> FLAGS_random_seed fl < 2 ^ 31"
    "- (2 ^ 31) \<le> FLAGS_repeat fl \<and> FLAGS_repeat fl < 2 ^ 31"
    "- (2 ^ 31) \<le> FLAGS_stack_trace_depth fl \<and> FLAGS_stack_trace_depth fl < 2 ^ 31"
    using assms(1) unfolding flag_values_ok_def by blast+
  have "fst (ParseGoogleTestFlag s (fl, []))"
    using assms(2) unfolding flag_arguments_def list.set insert_iff empty_iff
    by (elim disjE) (simp_all only: each_flag_parses ints fst_conv)
  then show ?thesis
    using flag_arguments_no_nul [OF assms] by (simp add: taken_def ParseGoogleTestFlag_accepts c_text_no_nul)
qed

lemma streamed_char_no_nul: "CHR 0x00 \<notin> set s \<Longrightarrow> streamed_char (Some s) = s"
  by (simp add: streamed_char_def GetString_def stream_pointer_def stream_text_def new_Message_def
      StringStreamToString_id)

text \<open>A second initialisation changes nothing.\<close>

lemma init_google_test_once:
  assumes "InitGoogleTest h open_file cx p = Inr p'" "0 < arg_count (command p)"
    "arg_count (command p) \<le> length (arg_vector (command p))"
  shows "InitGoogleTest h' open_file' cx' p' = Inr p'"
proof -
  have "0 < length (g_argvs p')"
    using assms by (auto simp: InitGoogleTest_def InitGoogleTestImpl_def Let_def split: if_splits sum.splits)
  then show ?thesis by (simp add: InitGoogleTest_def InitGoogleTestImpl_def)
qed

text \<open>
  An argument with the prefix of the flags that is no flag, or whose number is malformed, makes
  \<open>RUN_ALL_TESTS()\<close> return without running anything.
\<close>

lemma help_flag_runs_nothing:
  assumes "g_argvs p \<noteq> []" "help_flag (command p)"
  shows "UnitTest_Run fl (context_of_flags (command p) (g_argvs p) cx) uc st =
    Some (Inr (bind_prog (HandleExceptionsInMethodIfSupported fl False (\<lambda>_. (Returned True, st))
      ''auxiliary test code (environments or event listeners)'') (\<lambda>passed. give (if passed then 0 else 1)) st))"
  using assms by (simp add: UnitTest_Run_def RunAllTests_def context_of_flags_def)

text \<open>The flags the saver does not restore.\<close>

lemma flag_saver_forgets:
  "GTestFlagSaver_restore saved fl =
     saved\<lparr> FLAGS_show_internal_stack_frames := FLAGS_show_internal_stack_frames fl,
            FLAGS_flagfile := FLAGS_flagfile fl \<rparr>"
  by (cases saved; cases fl) (simp add: GTestFlagSaver_restore_def)

section \<open>Properties\<close>

text \<open>C19: Parsing the command line refines one pass over the arguments: shifting the array in place
  keeps exactly the arguments that are no flags of googletest, in their order, with the name of the
  program before and the null pointer behind them, counts them, and affects nothing else; every
  argument is looked at once. A flag is \<open>--gtest_name=value\<close>, or without a value where it is a switch,
  and a number only if it is a 32-bit integer.\<close>

theorem command_line_refines_pass:
  assumes "arg_vector c = Some prog_name # map Some args @ [None]" "arg_count c = Suc (length args)"
  shows "parse_from open_file streamed 1 c =
    (let kept = filter (\<lambda>a. \<not> taken (streamed (Some a))) args in
     map_sum id (with_args (Suc (length kept))
         (Some prog_name # map Some kept @ None # replicate (length args - length kept) None))
       (parse_each open_file (map (streamed \<circ> Some) args) c))"
  using parse_from_list [of c "[Some prog_name]" args "[]" open_file streamed] assms by (simp add: Let_def)

theorem command_line_refines_pass_witness:
  "parse_from (\<lambda>_. None) streamed_char 1
     (\<lparr> arg_count = 3, arg_vector = [Some ''t'', Some ''--gtest_filter=A*'', Some ''-v'', None],
        gtest_flags = initial_flags (\<lambda>_. None) None, help_flag = False, console = [] \<rparr>) =
   Inr \<lparr> arg_count = 2, arg_vector = [Some ''t'', Some ''-v'', None, None],
        gtest_flags = (initial_flags (\<lambda>_. None) None)\<lparr> FLAGS_filter := ''A*'' \<rparr>, help_flag = False, console = [] \<rparr>"
proof -
  have flag: "''--gtest_filter=A*'' = flag_text ''filter'' ''A*''" by (simp add: flag_text_def)
  have none: "ParseFlagValue (Some ''-v'') (Some n) opt = None" for n opt
    by (simp add: ParseFlagValue_None flag_text_def)
  have pass1: "ParseGoogleTestFlag ''--gtest_filter=A*'' (fl, out) = (True, fl\<lparr> FLAGS_filter := ''A*'' \<rparr>, out)" for fl out
    unfolding flag by (rule each_flag_parses)
  have pass2: "ParseGoogleTestFlag ''-v'' (fl, out) = (False, fl, out)" for fl out
    by (simp add: ParseGoogleTestFlag_def bool_flag_def string_flag_def int32_flag_def ParseBoolFlag_def
      ParseStringFlag_def ParseInt32Flag_def none)
  have first: "taken ''--gtest_filter=A*''" "\<not> taken ''-v''"
    using ParseGoogleTestFlag_accepts [of "''--gtest_filter=A*''" "(fl, out)" for fl out]
      ParseGoogleTestFlag_accepts [of "''-v''" "(fl, out)" for fl out]
    by (simp_all add: taken_def c_text_def pass1 pass2 flag_text_def)
  have no_help: "\<not> is_help ''-v''"
    by (simp add: is_help_def c_text_def HasGoogleTestFlagPrefix_def SkipPrefix_def GTEST_FLAG_PREFIX_def)
  have args: "parse_argument (\<lambda>_. None) ''--gtest_filter=A*'' c = Inr (True, c\<lparr> gtest_flags := (gtest_flags c)\<lparr> FLAGS_filter := ''A*'' \<rparr>, console := console c \<rparr>)"
    "parse_argument (\<lambda>_. None) ''-v'' c = Inr (False, c\<lparr> gtest_flags := gtest_flags c, console := console c \<rparr>)"
    for c :: "char command_line"
    by (simp_all add: parse_argument_def c_text_def pass1 pass2 ParseStringFlag_def none no_help)
  let ?c = "\<lparr> arg_count = 3, arg_vector = [Some ''t'', Some ''--gtest_filter=A*'', Some ''-v'', None],
    gtest_flags = initial_flags (\<lambda>_. None) None, help_flag = False, console = [] \<rparr>"
  have "map (streamed_char \<circ> Some) [''--gtest_filter=A*'', ''-v''] = [''--gtest_filter=A*'', ''-v'']"
    "filter (\<lambda>a. \<not> taken (streamed_char (Some a))) [''--gtest_filter=A*'', ''-v''] = [''-v'']"
    by (simp_all add: streamed_char_no_nul first)
  with command_line_refines_pass [of ?c "''t''" "[''--gtest_filter=A*'', ''-v'']" "\<lambda>_. None" streamed_char]
  show ?thesis by (simp add: args with_args_def)
qed

text \<open>C36: Every flag can be set: the command line made of a flag for each field sets the flags to
  exactly these values, for any strings and 32-bit integers, and is consumed entirely, without a
  message and without asking for help.\<close>

theorem command_line_round_trip:
  assumes "flag_values_ok fl" "\<not> help_flag c"
    "FLAGS_show_internal_stack_frames fl = FLAGS_show_internal_stack_frames (gtest_flags c)"
    "FLAGS_flagfile fl = FLAGS_flagfile (gtest_flags c)"
    "arg_vector c = Some prog_name # map Some (flag_arguments fl) @ [None]" "arg_count c = 18"
  shows "ParseGoogleTestFlagsOnly h open_file c =
    Inr (c\<lparr> gtest_flags := fl, arg_count := 1, arg_vector := Some prog_name # replicate 18 None \<rparr>)"
proof -
  have shown: "streamed_char (Some s) = s" if "s \<in> set (flag_arguments fl)" for s
    using flag_arguments_no_nul [OF assms(1) that] by (rule streamed_char_no_nul)
  then have texts: "map (streamed_char \<circ> Some) (flag_arguments fl) = flag_arguments fl"
    by (simp add: map_idI)
  have none: "filter (\<lambda>a. \<not> taken (streamed_char (Some a))) (flag_arguments fl) = []"
    using taken_flag_arguments [OF assms(1)] shown by simp
  have len: "length (flag_arguments fl) = 17" by (simp add: flag_arguments_def)
  have rep: "replicate 18 None = None # replicate 17 None"
    using replicate_Suc [of 17 None] by simp
  have "parse_from open_file streamed_char 1 c =
      Inr (c\<lparr> gtest_flags := fl, arg_count := 1, arg_vector := Some prog_name # replicate 18 None \<rparr>)"
    using parse_from_list [of c "[Some prog_name]" "flag_arguments fl" "[]" open_file streamed_char]
      assms(5,6) flag_arguments_set [OF assms(1,3,4), of open_file]
    unfolding rep by (simp add: none texts len with_args_def)
  then show ?thesis using assms(2)
    by (simp add: ParseGoogleTestFlagsOnly_def ParseGoogleTestFlagsOnlyImpl_def)
qed

theorem command_line_round_trip_witness:
  "ParseGoogleTestFlagsOnly \<lparr> path_separator = ''/'', can_stream_results = True, has_death_test = True \<rparr> (\<lambda>_. None)
     \<lparr> arg_count = 18,
       arg_vector = Some ''t'' # map Some (flag_arguments ((initial_flags (\<lambda>_. None) None)\<lparr> FLAGS_repeat := - 1 \<rparr>)) @ [None],
       gtest_flags = initial_flags (\<lambda>_. None) None, help_flag = False, console = [] \<rparr> =
   Inr \<lparr> arg_count = 1, arg_vector = Some ''t'' # replicate 18 None,
       gtest_flags = (initial_flags (\<lambda>_. None) None)\<lparr> FLAGS_repeat := - 1 \<rparr>, help_flag = False, console = [] \<rparr>"
proof -
  define fl where "fl = (initial_flags (\<lambda>_. None) None)\<lparr> FLAGS_repeat := - 1 \<rparr>"
  have "flag_values_ok fl"
    by (simp add: fl_def flag_values_ok_def initial_flags_def StringFromGTestEnv_def Int32FromGTestEnv_def
      kDefaultDeathTestStyle_def kMaxStackTraceDepth_def GetDefaultFilter_def Let_def)
  then show ?thesis
    unfolding fl_def [symmetric]
    by (subst command_line_round_trip) (simp_all add: fl_def)
qed

end
