(* ===== verification/Gtest_Xml.thy ===== *)
theory Gtest_Xml
  imports Gtest_UnitTest Gtest_Port "HOL-Library.Signed_Division"
begin

text \<open>
  The XML report of googletest, class \<open>XmlUnitTestResultPrinter\<close> (\<open>googletest-1.8.0/src/gtest.cc\<close>). An
  operation returns what it streams; \<open>None\<close> is the abort of \<open>GTEST_CHECK_\<close> or a null pointer used.
  \<open>signed_char\<close> tells whether \<open>char\<close> is signed; the text of a number of seconds and the local time
  are answers of the standard library. The reader of XML at the end is what the report is measured by.
\<close>

record xml_env =
  signed_char :: bool
  seconds_text :: "int \<Rightarrow> string"
  local_time :: "int \<Rightarrow> (c_int \<times> c_int \<times> c_int \<times> c_int \<times> c_int \<times> c_int) option"
  xml_shuffle :: bool

section \<open>Escaping\<close>

definition IsNormalizableWhitespace :: "char \<Rightarrow> bool" where
  "IsNormalizableWhitespace c \<longleftrightarrow> c = CHR 0x09 \<or> c = CHR 0x0A \<or> c = CHR 0x0D"

definition IsValidXmlCharacter :: "xml_env \<Rightarrow> char \<Rightarrow> bool" where
  "IsValidXmlCharacter env c \<longleftrightarrow>
     IsNormalizableWhitespace c \<or>
     0x20 \<le> (if signed_char env \<and> 128 \<le> code c then int (code c) - 256 else int (code c))"

definition escape_char :: "xml_env \<Rightarrow> bool \<Rightarrow> char \<Rightarrow> string" where
  "escape_char env is_attribute ch =
     (if ch = CHR ''<'' then ''&lt;''
      else if ch = CHR ''>'' then ''&gt;''
      else if ch = CHR ''&'' then ''&amp;''
      else if ch = CHR 0x27 then (if is_attribute then ''&apos;'' else [CHR 0x27])
      else if ch = CHR 0x22 then (if is_attribute then ''&quot;'' else [CHR 0x22])
      else if IsValidXmlCharacter env ch then
        (if is_attribute \<and> IsNormalizableWhitespace ch
         then ''&#x'' @ FormatByte (of_nat (code ch)) @ '';'' else [ch])
      else [])"

definition EscapeXml :: "xml_env \<Rightarrow> string \<Rightarrow> bool \<Rightarrow> string" where
  "EscapeXml env str is_attribute =
     GetString (foldl (\<lambda>m ch. stream_text m (escape_char env is_attribute ch)) new_Message str)"

definition EscapeXmlAttribute :: "xml_env \<Rightarrow> string \<Rightarrow> string" where
  "EscapeXmlAttribute env str = EscapeXml env str True"

definition EscapeXmlText :: "xml_env \<Rightarrow> string \<Rightarrow> string" where
  "EscapeXmlText env str = EscapeXml env str False"

definition RemoveInvalidXmlCharacters :: "xml_env \<Rightarrow> string \<Rightarrow> string" where
  "RemoveInvalidXmlCharacters env str = filter (IsValidXmlCharacter env) str"

section \<open>Times\<close>

definition FormatTimeInMillisAsSeconds :: "xml_env \<Rightarrow> int \<Rightarrow> string" where
  "FormatTimeInMillisAsSeconds env ms = seconds_text env ms"

text \<open>The local time is year since 1900, month from 0, day, hours, minutes, seconds.\<close>

definition FormatEpochTimeInMillisAsIso8601 :: "xml_env \<Rightarrow> int \<Rightarrow> string" where
  "FormatEpochTimeInMillisAsIso8601 env ms =
     (case local_time env (ms sdiv 1000) of
        None \<Rightarrow> []
      | Some (tm_year, tm_mon, tm_mday, tm_hour, tm_min, tm_sec) \<Rightarrow>
          StreamableToString (int_string (sint (tm_year + 1900))) @ ''-'' @
          FormatIntWidth2 (tm_mon + 1) @ ''-'' @ FormatIntWidth2 tm_mday @ ''T'' @
          FormatIntWidth2 tm_hour @ '':'' @ FormatIntWidth2 tm_min @ '':'' @ FormatIntWidth2 tm_sec)"

section \<open>Elements\<close>

fun strstr :: "string \<Rightarrow> string \<Rightarrow> nat option" where
  "strstr [] needle = (if needle = [] then Some 0 else None)"
| "strstr (c # s) needle =
     (if take (length needle) (c # s) = needle then Some 0 else map_option Suc (strstr s needle))"

lemma strstr_bound: "strstr s needle = Some i \<Longrightarrow> i + length needle \<le> length s"
proof (induction s arbitrary: i)
  case (Cons c s)
  then show ?case by (auto split: if_splits dest: arg_cong [where f = length])
qed (auto split: if_splits)

function cdata_loop :: "string \<Rightarrow> string" where
  "cdata_loop segment =
     (case strstr segment '']]>'' of
        Some next_segment \<Rightarrow>
          take next_segment segment @ '']]>]]&gt;<![CDATA['' @ cdata_loop (drop (next_segment + 3) segment)
      | None \<Rightarrow> segment)"
  by pat_completeness auto

termination
  by (relation "measure length") (auto dest: strstr_bound)

declare cdata_loop.simps [simp del]

definition OutputXmlCDataSection :: "string \<Rightarrow> string" where
  "OutputXmlCDataSection data = ''<![CDATA['' @ cdata_loop data @ '']]>''"

text \<open>What several operations stream, one after the other.\<close>

primrec stream_all :: "string option list \<Rightarrow> string option" where
  "stream_all [] = Some []"
| "stream_all (p # ps) = (case p of None \<Rightarrow> None | Some s \<Rightarrow> map_option (\<lambda>t. s @ t) (stream_all ps))"

definition OutputXmlAttribute :: "xml_env \<Rightarrow> string \<Rightarrow> string \<Rightarrow> string \<Rightarrow> string option" where
  "OutputXmlAttribute env element_name name attr_value =
     (case GetReservedAttributesForElement element_name of
        None \<Rightarrow> None
      | Some allowed_names \<Rightarrow>
          if name \<in> set allowed_names
          then Some ('' '' @ name @ ''='' @ [CHR 0x22] @ EscapeXmlAttribute env attr_value @ [CHR 0x22])
          else None)"

definition TestPropertiesAsXmlAttributes :: "xml_env \<Rightarrow> TestResult \<Rightarrow> string option" where
  "TestPropertiesAsXmlAttributes env r =
     map_option (\<lambda>texts. GetString (foldl stream_text new_Message texts))
       (those (map (\<lambda>i. map_option (\<lambda>p. '' '' @ c_text (key p) @ ''='' @ [CHR 0x22] @
            EscapeXmlAttribute env (c_text (val p)) @ [CHR 0x22]) (GetTestProperty r (int i)))
          [0..<nat (test_property_count r)]))"

text \<open>The loop over the results of the parts: the number of failures before, and the parts left.\<close>

primrec failures_loop :: "xml_env \<Rightarrow> nat \<Rightarrow> TestPartResult option list \<Rightarrow> (nat \<times> string) option" where
  "failures_loop env failures [] = Some (failures, [])"
| "failures_loop env failures (p # ps) =
     (case p of None \<Rightarrow> None
      | Some part \<Rightarrow>
          if \<not> part_failed part then failures_loop env failures ps
          else
            let location = FormatCompilerIndependentFileLocation (file_name part) (part_line_number part);
                summary = location @ [CHR 0x0A] @ c_text (part_summary part);
                detail = location @ [CHR 0x0A] @ c_text (part_message part) in
            map_option (\<lambda>(n, rest). (n,
                (if failures + 1 = 1 then ''>'' @ [CHR 0x0A] else []) @
                ''      <failure message='' @ [CHR 0x22] @ EscapeXmlAttribute env (c_text summary) @
                [CHR 0x22] @ '' type='' @ [CHR 0x22, CHR 0x22] @ ''>'' @
                OutputXmlCDataSection (c_text (RemoveInvalidXmlCharacters env detail)) @
                ''</failure>'' @ [CHR 0x0A] @ rest))
              (failures_loop env (failures + 1) ps))"

definition OutputXmlTestInfo :: "xml_env \<Rightarrow> string \<Rightarrow> TestInfo \<Rightarrow> string option" where
  "OutputXmlTestInfo env a_case_name test_info =
     (let r = result_of test_info; kTestcase = ''testcase'';
          attribute = OutputXmlAttribute env kTestcase in
      stream_all [
        Some ''    <testcase'',
        attribute ''name'' (c_text (test_name test_info)),
        (case value_param test_info of None \<Rightarrow> Some [] | Some v \<Rightarrow> attribute ''value_param'' (c_text v)),
        (case type_param test_info of None \<Rightarrow> Some [] | Some t \<Rightarrow> attribute ''type_param'' (c_text t)),
        attribute ''status'' (if should_run test_info then ''run'' else ''notrun''),
        attribute ''time'' (FormatTimeInMillisAsSeconds env (result_elapsed_time r)),
        attribute ''classname'' a_case_name,
        TestPropertiesAsXmlAttributes env r,
        map_option (\<lambda>(failures, parts). parts @
            (if failures = 0 then '' />'' @ [CHR 0x0A] else ''    </testcase>'' @ [CHR 0x0A]))
          (failures_loop env 0 (map (\<lambda>i. GetTestPartResult r (int i)) [0..<nat (total_part_count r)]))])"

definition PrintXmlTestCase :: "xml_env \<Rightarrow> TestCase \<Rightarrow> string option" where
  "PrintXmlTestCase env c =
     (let kTestsuite = ''testsuite''; attribute = OutputXmlAttribute env kTestsuite in
      stream_all ([
        Some (''  <'' @ kTestsuite),
        attribute ''name'' (c_text (case_name c)),
        attribute ''tests'' (StreamableToString (int_string (reportable_test_count c))),
        attribute ''failures'' (StreamableToString (int_string (failed_test_count c))),
        attribute ''disabled'' (StreamableToString (int_string (reportable_disabled_test_count c))),
        attribute ''errors'' ''0'',
        attribute ''time'' (FormatTimeInMillisAsSeconds env (case_elapsed_time c)),
        TestPropertiesAsXmlAttributes env (case_ad_hoc_result c),
        Some (''>'' @ [CHR 0x0A])] @
        map (\<lambda>i. case GetTestInfo c (int i) of
            None \<Rightarrow> None
          | Some t \<Rightarrow> if is_reportable t then OutputXmlTestInfo env (c_text (case_name c)) t else Some [])
          [0..<nat (total_test_count c)] @
        [Some (''  </'' @ kTestsuite @ ''>'' @ [CHR 0x0A])]))"

definition PrintXmlUnitTest :: "xml_env \<Rightarrow> int \<Rightarrow> int \<Rightarrow> UnitTestImpl \<Rightarrow> string option" where
  "PrintXmlUnitTest env start_timestamp elapsed_time u =
     (let kTestsuites = ''testsuites''; attribute = OutputXmlAttribute env kTestsuites in
      stream_all ([
        Some (''<?xml version='' @ [CHR 0x22] @ ''1.0'' @ [CHR 0x22] @ '' encoding='' @ [CHR 0x22] @ ''UTF-8'' @
          [CHR 0x22] @ ''?>'' @ [CHR 0x0A]),
        Some (''<'' @ kTestsuites),
        attribute ''tests'' (StreamableToString (int_string (all_reportable_test_count u))),
        attribute ''failures'' (StreamableToString (int_string (all_failed_test_count u))),
        attribute ''disabled'' (StreamableToString (int_string (all_reportable_disabled_test_count u))),
        attribute ''errors'' ''0'',
        attribute ''timestamp'' (FormatEpochTimeInMillisAsIso8601 env start_timestamp),
        attribute ''time'' (FormatTimeInMillisAsSeconds env elapsed_time),
        (if xml_shuffle env then attribute ''random_seed'' (StreamableToString (int_string (random_seed u))) else Some []),
        TestPropertiesAsXmlAttributes env (ad_hoc_test_result u),
        attribute ''name'' ''AllTests'',
        Some (''>'' @ [CHR 0x0A])] @
        map (\<lambda>i. case GetTestCase u (int i) of
            None \<Rightarrow> None
          | Some c \<Rightarrow> if 0 < reportable_test_count c then PrintXmlTestCase env c else Some [])
          [0..<nat (total_test_case_count u)] @
        [Some (''</'' @ kTestsuites @ ''>'' @ [CHR 0x0A])]))"

section \<open>The listener\<close>

text \<open>\<open>Inl\<close>: the process exits with a failure and this text on \<open>stderr\<close>.\<close>

definition new_XmlUnitTestResultPrinter :: "string option \<Rightarrow> string + string" where
  "new_XmlUnitTestResultPrinter output_file =
     (case output_file of
        Some f \<Rightarrow> if f = [] then Inl (''XML output file may not be null'' @ [CHR 0x0A]) else Inr f
      | None \<Rightarrow> Inl (''XML output file may not be null'' @ [CHR 0x0A]))"

text \<open>
  \<open>can_open\<close> tells whether the file can be opened for writing. The result is \<open>None\<close> when creating the
  directories does not return, otherwise the file system and either the text on \<open>stderr\<close> of the exit
  or what is written to the file.
\<close>

definition xml_OnTestIterationEnd ::
    "xml_env \<Rightarrow> platform \<Rightarrow> 'fs file_system \<Rightarrow> ('fs \<Rightarrow> string \<Rightarrow> bool) \<Rightarrow> int \<Rightarrow> int \<Rightarrow> UnitTestImpl \<Rightarrow>
     string \<Rightarrow> 'fs \<Rightarrow> ('fs \<times> (string + string option)) option" where
  "xml_OnTestIterationEnd env p F can_open start_timestamp elapsed_time u output_file fs =
     (let output_dir = RemoveFileName p (new_FilePath p output_file) in
      case CreateDirectoriesRecursively p F fs output_dir of
        None \<Rightarrow> None
      | Some (fs', created) \<Rightarrow>
          if created \<and> can_open fs' output_file then
            Some (fs', Inr (map_option StringStreamToString (PrintXmlUnitTest env start_timestamp elapsed_time u)))
          else Some (fs', Inl (''Unable to open file '' @ [CHR 0x22] @ output_file @ [CHR 0x22, CHR 0x0A])))"

section \<open>A reader of XML\<close>

datatype xml = Char char | Elem string "(string \<times> string) list" "xml list"

definition name_char :: "char \<Rightarrow> bool" where
  "name_char c \<longleftrightarrow> IsAlNum c \<or> c \<in> {CHR ''_'', CHR ''-'', CHR ''.'', CHR '':''}"

definition xml_name :: "string \<Rightarrow> bool" where
  "xml_name n \<longleftrightarrow> n \<noteq> [] \<and> list_all name_char n \<and> (IsAlpha (hd n) \<or> hd n \<in> {CHR ''_'', CHR '':''})"

definition hex_value :: "string \<Rightarrow> nat" where
  "hex_value s = foldl (\<lambda>n c. 16 * n + (if code c \<le> 57 then code c - 48 else code c - 55)) 0 s"

definition reference :: "string \<Rightarrow> char option" where
  "reference n =
     (if n = ''lt'' then Some CHR ''<'' else if n = ''gt'' then Some CHR ''>'' else if n = ''amp'' then Some CHR ''&''
      else if n = ''apos'' then Some CHR 0x27 else if n = ''quot'' then Some CHR 0x22
      else if take 2 n = ''#x'' then Some (char_of (hex_value (drop 2 n))) else None)"

text \<open>An attribute value up to its quote: references are replaced, white space becomes a space.\<close>

function read_value :: "string \<Rightarrow> (string \<times> string) option" where
  "read_value s =
     (case s of [] \<Rightarrow> None
      | c # s' \<Rightarrow>
          if c = CHR 0x22 then Some ([], s')
          else if c = CHR ''<'' then None
          else if c = CHR ''&'' then
            (let n = takeWhile (\<lambda>c. c \<noteq> CHR '';'') s' in
             case reference n of None \<Rightarrow> None
             | Some d \<Rightarrow> map_option (\<lambda>(v, r). (d # v, r)) (read_value (drop (length n + 1) s')))
          else map_option (\<lambda>(v, r). ((if IsNormalizableWhitespace c then CHR '' '' else c) # v, r)) (read_value s'))"
  by pat_completeness auto

termination
  by (relation "measure length") auto

declare read_value.simps [simp del]

fun read_attributes :: "nat \<Rightarrow> string \<Rightarrow> ((string \<times> string) list \<times> string) option" where
  "read_attributes 0 s = None"
| "read_attributes (Suc n) s =
     (if take 1 s \<noteq> '' '' \<or> take 2 s = '' /'' then Some ([], s)
      else
        let name = takeWhile name_char (drop 1 s); rest = drop (length name + 1) s in
        if \<not> xml_name name \<or> take 2 rest \<noteq> [CHR ''='', CHR 0x22] then None
        else case read_value (drop 2 rest) of None \<Rightarrow> None
        | Some (v, r) \<Rightarrow> map_option (\<lambda>(as, r'). ((name, v) # as, r')) (read_attributes n r))"

definition prepend :: "xml list \<Rightarrow> (xml list \<times> string) option \<Rightarrow> (xml list \<times> string) option" where
  "prepend ns r = map_option (\<lambda>(ms, s). (ns @ ms, s)) r"

text \<open>The content of an element, up to an end tag. Character data that is marked up counts as data.\<close>

fun read_content :: "nat \<Rightarrow> string \<Rightarrow> (xml list \<times> string) option" where
  "read_content 0 s = None"
| "read_content (Suc n) s =
     (if s = [] \<or> take 2 s = ''</'' then Some ([], s)
      else if take 9 s = ''<![CDATA['' then
        (case strstr (drop 9 s) '']]>'' of None \<Rightarrow> None
         | Some i \<Rightarrow> prepend (map Char (take i (drop 9 s))) (read_content n (drop (i + 12) s)))
      else if hd s = CHR ''<'' then
        (let name = takeWhile name_char (tl s); rest = drop (length name) (tl s) in
         case read_attributes (length rest) rest of None \<Rightarrow> None
         | Some (as, r) \<Rightarrow>
             if \<not> xml_name name \<or> \<not> distinct (map fst as) then None
             else if take 3 r = '' />'' then prepend [Elem name as []] (read_content n (drop 3 r))
             else if take 1 r = ''>'' then
               (case read_content n (drop 1 r) of None \<Rightarrow> None
                | Some (kids, r2) \<Rightarrow>
                    let close = ''</'' @ name @ ''>'' in
                    if take (length close) r2 = close
                    then prepend [Elem name as kids] (read_content n (drop (length close) r2)) else None)
             else None)
      else if hd s = CHR ''&'' then
        (let name = takeWhile (\<lambda>c. c \<noteq> CHR '';'') (tl s) in
         case reference name of None \<Rightarrow> None
         | Some d \<Rightarrow> prepend [Char d] (read_content n (drop (length name + 1) (tl s))))
      else prepend [Char (hd s)] (read_content n (tl s)))"

definition xml_declaration :: string where
  "xml_declaration = ''<?xml version='' @ [CHR 0x22] @ ''1.0'' @ [CHR 0x22] @ '' encoding='' @ [CHR 0x22] @ ''UTF-8'' @
     [CHR 0x22] @ ''?>''"

definition read_xml :: "string \<Rightarrow> xml list option" where
  "read_xml s =
     (let rest = drop (length xml_declaration) s in
      if take (length xml_declaration) s \<noteq> xml_declaration then None
      else case read_content (Suc (length rest)) rest of
        Some (ns, r) \<Rightarrow> (if r = [] then Some ns else None)
      | None \<Rightarrow> None)"

section \<open>Escaped values read back\<close>

definition clean :: "xml_env \<Rightarrow> string \<Rightarrow> string" where
  "clean env s = filter (IsValidXmlCharacter env) s"

lemma foldl_stream_text: "foldl stream_text m texts = stream_text m (concat texts)"
  by (induction texts arbitrary: m) (simp_all add: stream_text_def)

lemma GetString_foldl:
  "GetString (foldl (\<lambda>m c. stream_text m (f c)) new_Message s) = StringStreamToString (concat (map f s))"
proof -
  have "foldl (\<lambda>m c. stream_text m (f c)) m s = stream_text m (concat (map f s))" for m
    by (induction s arbitrary: m) (simp_all add: stream_text_def)
  then show ?thesis by (simp add: GetString_def stream_text_def new_Message_def)
qed

lemma escape_char_no_nul: "CHR 0x00 \<notin> set (escape_char env a c)"
proof -
  have "\<not> IsValidXmlCharacter env CHR 0x00"
    by (simp add: IsValidXmlCharacter_def IsNormalizableWhitespace_def code_def)
  moreover have "CHR 0x00 \<notin> set (FormatByte (of_nat (code c)))" if "IsNormalizableWhitespace c"
  proof -
    have "\<forall>c \<in> set [CHR 0x09, CHR 0x0A, CHR 0x0D]. CHR 0x00 \<notin> set (FormatByte (of_nat (code c)))" by code_simp
    with that show ?thesis by (auto simp: IsNormalizableWhitespace_def)
  qed
  ultimately show ?thesis by (auto simp: escape_char_def)
qed

lemma EscapeXml_concat: "EscapeXml env s a = concat (map (escape_char env a) s)"
  unfolding EscapeXml_def GetString_foldl
  by (rule StringStreamToString_id) (use escape_char_no_nul in auto)

lemma attribute_Cons:
  "EscapeXmlAttribute env [] = []"
  "EscapeXmlAttribute env (c # s) = escape_char env True c @ EscapeXmlAttribute env s"
  by (simp_all add: EscapeXmlAttribute_def EscapeXml_concat)

lemma whitespace_reference:
  "IsNormalizableWhitespace c \<Longrightarrow>
     reference (''#x'' @ FormatByte (of_nat (code c))) = Some c \<and> CHR '';'' \<notin> set (FormatByte (of_nat (code c)))"
proof -
  assume "IsNormalizableWhitespace c"
  then have "c \<in> set [CHR 0x09, CHR 0x0A, CHR 0x0D]" by (simp add: IsNormalizableWhitespace_def)
  moreover have "\<forall>c \<in> set [CHR 0x09, CHR 0x0A, CHR 0x0D].
      reference (''#x'' @ FormatByte (of_nat (code c))) = Some c \<and> CHR '';'' \<notin> set (FormatByte (of_nat (code c)))"
    by code_simp
  ultimately show ?thesis by blast
qed

lemma takeWhile_name: "list_all P n \<Longrightarrow> \<not> P c \<Longrightarrow> takeWhile P (n @ c # s) = n"
  by (induction n) auto

lemma read_value_reference:
  "reference n = Some d \<Longrightarrow> CHR '';'' \<notin> set n \<Longrightarrow>
     read_value (CHR ''&'' # n @ CHR '';'' # s) = map_option (\<lambda>(v, r). (d # v, r)) (read_value s)"
proof -
  assume n: "reference n = Some d" "CHR '';'' \<notin> set n"
  then have "list_all (\<lambda>c. c \<noteq> CHR '';'') n" by (auto simp: list_all_iff)
  then have "takeWhile (\<lambda>c. c \<noteq> CHR '';'') (n @ CHR '';'' # s) = n" by (rule takeWhile_name) simp
  with n show ?thesis by (subst read_value.simps) (simp add: Let_def)
qed

lemma read_value_char:
  "c \<noteq> CHR 0x22 \<Longrightarrow> c \<noteq> CHR ''<'' \<Longrightarrow> c \<noteq> CHR ''&'' \<Longrightarrow>
     read_value (c # s) =
       map_option (\<lambda>(v, r). ((if IsNormalizableWhitespace c then CHR '' '' else c) # v, r)) (read_value s)"
  by (subst read_value.simps) simp

lemma read_EscapeXmlAttribute:
  "read_value (EscapeXmlAttribute env s @ CHR 0x22 # rest) = Some (clean env s, rest)"
proof (induction s)
  case Nil
  then show ?case by (subst read_value.simps) (simp add: attribute_Cons clean_def)
next
  case (Cons c s)
  let ?t = "EscapeXmlAttribute env s @ CHR 0x22 # rest"
  have marks: "IsValidXmlCharacter env c" if "c \<in> {CHR ''<'', CHR ''>'', CHR ''&'', CHR 0x27, CHR 0x22}"
    using that by (auto simp: IsValidXmlCharacter_def code_def)
  have "read_value (escape_char env True c @ ?t) =
      (if IsValidXmlCharacter env c then map_option (\<lambda>(v, r). (c # v, r)) (read_value ?t) else read_value ?t)"
  proof (cases "c \<in> {CHR ''<'', CHR ''>'', CHR ''&'', CHR 0x27, CHR 0x22}")
    case True
    have "\<forall>(c, n) \<in> set [(CHR ''<'', ''lt''), (CHR ''>'', ''gt''), (CHR ''&'', ''amp''), (CHR 0x27, ''apos''), (CHR 0x22, ''quot'')].
        escape_char env True c = CHR ''&'' # n @ [CHR '';''] \<and> reference n = Some c \<and> CHR '';'' \<notin> set n"
      by (simp add: escape_char_def reference_def)
    with True obtain n where "escape_char env True c = CHR ''&'' # n @ [CHR '';'']" "reference n = Some c"
      "CHR '';'' \<notin> set n" by auto
    with marks [OF True] read_value_reference [of n c ?t] show ?thesis by simp
  next
    case False
    show ?thesis
    proof (cases "IsNormalizableWhitespace c")
      case True
      with False have "escape_char env True c = CHR ''&'' # (''#x'' @ FormatByte (of_nat (code c))) @ [CHR '';'']"
        by (simp add: escape_char_def IsValidXmlCharacter_def)
      with True whitespace_reference [OF True] show ?thesis
        using read_value_reference [of "''#x'' @ FormatByte (of_nat (code c))" c ?t]
        by (simp add: IsValidXmlCharacter_def)
    next
      case ws: False
      with False show ?thesis using read_value_char [of c ?t] by (simp add: escape_char_def)
    qed
  qed
  then show ?case unfolding attribute_Cons append_assoc Cons.IH by (simp add: clean_def)
qed

section \<open>What the report means\<close>

definition attributes_text :: "xml_env \<Rightarrow> (string \<times> string) list \<Rightarrow> string" where
  "attributes_text env as =
     concat (map (\<lambda>(n, v). '' '' @ n @ ''='' @ [CHR 0x22] @ EscapeXmlAttribute env v @ [CHR 0x22]) as)"

definition attributes_read :: "xml_env \<Rightarrow> (string \<times> string) list \<Rightarrow> (string \<times> string) list" where
  "attributes_read env as = map (\<lambda>(n, v). (n, clean env v)) as"

definition good_attributes :: "(string \<times> string) list \<Rightarrow> bool" where
  "good_attributes as \<longleftrightarrow> distinct (map fst as) \<and> list_all xml_name (map fst as)"

definition ends_tag :: "string \<Rightarrow> bool" where
  "ends_tag s \<longleftrightarrow> take 1 s = ''>'' \<or> take 3 s = '' />''"

lemma name_chars: "xml_name n \<Longrightarrow> list_all name_char n"
  "\<not> name_char CHR ''=''" "\<not> name_char CHR '' ''" "\<not> name_char CHR ''>''" "\<not> name_char CHR ''/''" "\<not> name_char CHR 0x00"
  "\<not> name_char CHR ''<''"
  by (simp_all add: xml_name_def name_char_def IsAlNum_def IsAlpha_def IsDigit_def IsLower_def IsUpper_def code_def)

lemma take_2_Cons: "take 2 (c # s) = c # take 1 s" by (simp add: numeral_2_eq_2)

lemma read_attributes_text:
  "list_all xml_name (map fst as) \<Longrightarrow> ends_tag rest \<Longrightarrow> length as < k \<Longrightarrow>
     read_attributes k (attributes_text env as @ rest) = Some (attributes_read env as, rest)"
proof (induction as arbitrary: k)
  case Nil
  then obtain j where "k = Suc j" by (cases k) auto
  moreover have "take 1 rest \<noteq> '' '' \<or> take 2 rest = '' /''"
    using Nil by (cases rest; cases "tl rest") (auto simp: ends_tag_def take_2_Cons)
  ultimately show ?case by (simp add: attributes_text_def attributes_read_def)
next
  case (Cons a as)
  obtain n v where a: "a = (n, v)" by (cases a)
  from Cons.prems obtain j where k: "k = Suc j" "length as < j" by (cases k) auto
  from Cons.prems a have n: "xml_name n" by simp
  let ?tail = "attributes_text env as @ rest"
  let ?s = "n @ CHR ''='' # CHR 0x22 # EscapeXmlAttribute env v @ CHR 0x22 # ?tail"
  have shown: "attributes_text env (a # as) @ rest = CHR '' '' # ?s" by (simp add: attributes_text_def a)
  have "name_char (hd n)" "n \<noteq> []" using n name_chars(1) [OF n] by (auto simp: xml_name_def list_all_iff)
  then have "take 2 (CHR '' '' # ?s) \<noteq> '' /''" using name_chars(5) by (cases n) (auto simp: take_2_Cons)
  moreover have "takeWhile name_char ?s = n" using name_chars(1,2) n by (intro takeWhile_name) auto
  ultimately have "read_attributes k (CHR '' '' # ?s) =
      (case read_value (EscapeXmlAttribute env v @ CHR 0x22 # ?tail) of None \<Rightarrow> None
       | Some (v, r) \<Rightarrow> map_option (\<lambda>(as, r'). ((n, v) # as, r')) (read_attributes j r))"
    using n by (simp add: k Let_def take_2_Cons numeral_2_eq_2 [symmetric])
  then show ?case using Cons k
    unfolding shown read_EscapeXmlAttribute by (simp add: a attributes_read_def)
qed

text \<open>A text and the content it stands for.\<close>

inductive means :: "xml_env \<Rightarrow> string \<Rightarrow> xml list \<Rightarrow> bool" for env where
  nothing: "means env [] []"
| character: "c \<noteq> CHR ''<'' \<Longrightarrow> c \<noteq> CHR ''&'' \<Longrightarrow> means env s ns \<Longrightarrow> means env (c # s) (Char c # ns)"
| greater: "means env s ns \<Longrightarrow> means env (''&gt;'' @ s) (Char CHR ''>'' # ns)"
| data: "strstr d '']]>'' = None \<Longrightarrow> means env s ns \<Longrightarrow>
    means env (''<![CDATA['' @ d @ '']]>'' @ s) (map Char d @ ns)"
| empty_element: "xml_name n \<Longrightarrow> good_attributes as \<Longrightarrow> means env s ns \<Longrightarrow>
    means env (''<'' @ n @ attributes_text env as @ '' />'' @ s) (Elem n (attributes_read env as) [] # ns)"
| element: "xml_name n \<Longrightarrow> good_attributes as \<Longrightarrow> means env inner kids \<Longrightarrow> means env s ns \<Longrightarrow>
    means env (''<'' @ n @ attributes_text env as @ ''>'' @ inner @ ''</'' @ n @ ''>'' @ s)
      (Elem n (attributes_read env as) kids # ns)"

lemma means_append: "means env s ns \<Longrightarrow> means env t ms \<Longrightarrow> means env (s @ t) (ns @ ms)"
  by (induction rule: means.induct) (auto intro: means.intros simp: means.intros [simplified])

lemma means_plain: "CHR ''<'' \<notin> set s \<Longrightarrow> CHR ''&'' \<notin> set s \<Longrightarrow> means env s (map Char s)"
  by (induction s) (auto intro: means.intros)

lemma strstr_Some:
  "strstr s needle = Some i \<Longrightarrow>
     s = take i s @ needle @ drop (i + length needle) s \<and>
     (\<forall>j < i. take (length needle) (drop j s) \<noteq> needle)"
proof (induction s arbitrary: i)
  case (Cons c s)
  show ?case
  proof (cases "take (length needle) (c # s) = needle")
    case True
    with Cons.prems have "i = 0" by simp
    with True show ?thesis using append_take_drop_id [of "length needle" "c # s"] by simp
  next
    case False
    with Cons.prems obtain k where k: "i = Suc k" "strstr s needle = Some k" by auto
    from Cons.IH [OF k(2)] have ih: "s = take k s @ needle @ drop (k + length needle) s"
      "\<forall>j < k. take (length needle) (drop j s) \<noteq> needle" by auto
    have "take (length needle) (drop j (c # s)) \<noteq> needle" if "j < i" for j
      using that ih(2) False k(1) by (cases j) auto
    with ih(1) k(1) show ?thesis by auto
  qed
qed (auto split: if_splits)

lemma strstr_first:
  "(\<forall>j < length s. take (length needle) (drop j (s @ needle @ rest)) \<noteq> needle) \<Longrightarrow>
     strstr (s @ needle @ rest) needle = Some (length s)"
proof (induction s)
  case Nil
  have "take (length needle) (needle @ rest) = needle" by simp
  then show ?case by (cases "needle @ rest") auto
next
  case (Cons c s)
  have "take (length needle) (drop j (s @ needle @ rest)) \<noteq> needle" if "j < length s" for j
    using Cons.prems that by (metis Suc_less_eq append_Cons drop_Suc_Cons length_Cons)
  with Cons.IH have "strstr (s @ needle @ rest) needle = Some (length s)" by blast
  moreover have "take (length needle) ((c # s) @ needle @ rest) \<noteq> needle"
    using Cons.prems by (metis drop_0 length_greater_0_conv list.distinct(1))
  ultimately show ?case by simp
qed

lemma strstr_None: "strstr s needle = None \<Longrightarrow> j \<le> length s \<Longrightarrow> take (length needle) (drop j s) \<noteq> needle"
proof (induction s arbitrary: j)
  case (Cons c s)
  then show ?case by (cases j) (auto split: if_splits)
qed (auto split: if_splits)

lemma length_end_mark: "length '']]>'' = 3"
  by simp

text \<open>The first end mark after data without one is the one that was written.\<close>

lemma end_mark_found:
  assumes "\<forall>j < length d. take 3 (drop j d) \<noteq> '']]>''"
  shows "strstr (d @ '']]>'' @ rest) '']]>'' = Some (length d)"
proof -
  have "take 3 (drop j (d @ '']]>'' @ rest)) \<noteq> '']]>''" if "j < length d" for j
  proof -
    have no: "take 3 (drop j d) \<noteq> '']]>''" and "drop j d \<noteq> []" using assms that by simp_all
    then obtain x s where d: "drop j d = x # s" by (cases "drop j d") auto
    have "take 3 (drop j d @ '']]>'' @ rest) \<noteq> '']]>''"
      using no unfolding d by (cases s; cases "tl s") (auto simp: numeral_3_eq_3)
    then show ?thesis using that by simp
  qed
  then show ?thesis by (intro strstr_first) (unfold length_end_mark, blast)
qed

lemma means_cdata: "means env (OutputXmlCDataSection s) (map Char s)"
proof (induction "length s" arbitrary: s rule: less_induct)
  case less
  show ?case
  proof (cases "strstr s '']]>''")
    case None
    have "means env (''<![CDATA['' @ s @ '']]>'' @ []) (map Char s @ [])"
      by (rule means.data [OF None means.nothing])
    with None show ?thesis by (subst OutputXmlCDataSection_def, subst cdata_loop.simps) simp
  next
    case (Some i)
    let ?d = "take i s" and ?rest = "drop (i + 3) s"
    note found = strstr_Some [OF Some, unfolded length_end_mark]
    then have s: "s = ?d @ '']]>'' @ ?rest" by (rule conjunct1)
    from found have none: "\<forall>j < i. take 3 (drop j s) \<noteq> '']]>''" by (rule conjunct2)
    have i: "i + 3 \<le> length s" using strstr_bound [OF Some] by simp
    have "strstr ?d '']]>'' = None"
    proof (rule ccontr)
      assume "strstr ?d '']]>'' \<noteq> None"
      then obtain j where j: "strstr ?d '']]>'' = Some j" by blast
      then have le: "j + 3 \<le> i" using strstr_bound [OF j] i by simp
      have "?d = take j ?d @ '']]>'' @ drop (j + 3) ?d"
        using strstr_Some [OF j, unfolded length_end_mark] by (rule conjunct1)
      then have "drop j ?d = '']]>'' @ drop (j + 3) ?d"
        by (metis append_eq_conv_conj append_take_drop_id same_append_eq)
      then have "take 3 (drop j ?d) = '']]>''" by simp
      then have "take 3 (drop j s) = '']]>''" using le by (simp add: drop_take min_def split: if_splits)
      with none le show False by auto
    qed
    moreover have "means env (OutputXmlCDataSection ?rest) (map Char ?rest)" using less.hyps [of ?rest] i by simp
    ultimately have d: "strstr ?d '']]>'' = None" and rest: "means env (OutputXmlCDataSection ?rest) (map Char ?rest)"
      by blast+
    have "means env ('']]'' @ ''&gt;'' @ OutputXmlCDataSection ?rest) (map Char '']]'' @ Char CHR ''>'' # map Char ?rest)"
      by (rule means_append [OF means_plain means.greater [OF rest]]) simp_all
    from means.data [OF d this]
    have "means env (''<![CDATA['' @ ?d @ '']]>'' @ '']]'' @ ''&gt;'' @ OutputXmlCDataSection ?rest)
        (map Char ?d @ map Char '']]'' @ Char CHR ''>'' # map Char ?rest)" .
    moreover have "OutputXmlCDataSection s = ''<![CDATA['' @ ?d @ '']]>'' @ '']]'' @ ''&gt;'' @ OutputXmlCDataSection ?rest"
      unfolding OutputXmlCDataSection_def by (subst cdata_loop.simps) (simp add: Some)
    moreover have "map Char s = map Char ?d @ map Char '']]'' @ Char CHR ''>'' # map Char ?rest"
      by (subst s) simp
    ultimately show ?thesis by simp
  qed
qed

definition ends_content :: "string \<Rightarrow> bool" where
  "ends_content s \<longleftrightarrow> s = [] \<or> take 2 s = ''</''"

lemma read_content_end: "ends_content s \<Longrightarrow> read_content (Suc n) s = Some ([], s)"
  by (auto simp: ends_content_def)

lemma read_content_char:
  "c \<noteq> CHR ''<'' \<Longrightarrow> c \<noteq> CHR ''&'' \<Longrightarrow> read_content (Suc n) (c # s) = prepend [Char c] (read_content n s)"
proof -
  assume c: "c \<noteq> CHR ''<''" "c \<noteq> CHR ''&''"
  then have "take 2 (c # s) \<noteq> ''</''" "take 9 (c # s) \<noteq> ''<![CDATA[''"
    by (simp_all add: numeral_2_eq_2 numeral_eq_Suc)
  with c show ?thesis by simp
qed

lemma read_content_tag:
  assumes "xml_name n" "good_attributes as" "ends_tag rest"
  shows "read_content (Suc k) (''<'' @ n @ attributes_text env as @ rest) =
    (if take 3 rest = '' />'' then prepend [Elem n (attributes_read env as) []] (read_content k (drop 3 rest))
     else case read_content k (drop 1 rest) of None \<Rightarrow> None
       | Some (kids, r2) \<Rightarrow>
           let close = ''</'' @ n @ ''>'' in
           if take (length close) r2 = close
           then prepend [Elem n (attributes_read env as) kids] (read_content k (drop (length close) r2)) else None)"
proof -
  let ?s = "n @ attributes_text env as @ rest"
  obtain h n' where n: "n = h # n'" "name_char h" using assms(1) name_chars(1) by (cases n) (auto simp: xml_name_def)
  then have "h \<noteq> CHR ''/''" "h \<noteq> CHR ''!''" by (auto simp: name_char_def IsAlNum_def IsAlpha_def IsDigit_def IsLower_def IsUpper_def code_def)
  then have starts: "take 2 (''<'' @ ?s) \<noteq> ''</''" "take 9 (''<'' @ ?s) \<noteq> ''<![CDATA[''"
    by (simp_all add: n numeral_2_eq_2 numeral_eq_Suc)
  have "attributes_text env as @ rest \<noteq> [] \<and> \<not> name_char (hd (attributes_text env as @ rest))"
    using assms(3) name_chars(3,4) by (cases as; cases rest) (auto simp: attributes_text_def ends_tag_def)
  then obtain c s' where cs: "attributes_text env as @ rest = c # s'" "\<not> name_char c"
    by (cases "attributes_text env as @ rest") auto
  have "takeWhile name_char ?s = n"
    using takeWhile_name [OF name_chars(1) [OF assms(1)] cs(2), of s'] by (simp add: cs(1))
  moreover have "length as < length (attributes_text env as @ rest)"
  proof -
    have "length as \<le> length (attributes_text env as)" by (induction as) (auto simp: attributes_text_def)
    moreover have "rest \<noteq> []" using assms(3) by (auto simp: ends_tag_def)
    ultimately show ?thesis by (cases rest) auto
  qed
  moreover have "list_all xml_name (map fst as)" "distinct (map fst (attributes_read env as))"
    using assms(2) by (simp_all add: good_attributes_def attributes_read_def case_prod_unfold comp_def)
  ultimately show ?thesis
    using starts assms(1,3) read_attributes_text [of as rest "length (attributes_text env as @ rest)" env]
    by (auto simp: Let_def ends_tag_def)
qed

lemma means_read:
  "means env s ns \<Longrightarrow> ends_content rest \<Longrightarrow> length s < k \<Longrightarrow> read_content k (s @ rest) = Some (ns, rest)"
proof (induction arbitrary: rest k rule: means.induct)
  case nothing
  then obtain j where "k = Suc j" by (cases k) auto
  then show ?case using nothing.prems(1) by (simp add: read_content_end del: read_content.simps)
next
  case (character c s ns)
  then obtain j where "k = Suc j" "length s < j" by (cases k) auto
  with character show ?case by (simp add: read_content_char prepend_def del: read_content.simps)
next
  case (greater s ns)
  then obtain j where k: "k = Suc j" "length s < j" by (cases k) auto
  have "read_content (Suc j) (''&gt;'' @ s @ rest) = prepend [Char CHR ''>''] (read_content j (s @ rest))"
    by (simp add: numeral_2_eq_2 numeral_eq_Suc reference_def)
  with greater.IH [OF greater.prems(1) k(2)] k show ?case by (simp add: prepend_def del: read_content.simps)
next
  case (data d s ns)
  then obtain j where k: "k = Suc j" "length s < j" by (cases k) auto
  have "\<forall>i < length d. take 3 (drop i d) \<noteq> '']]>''"
    using strstr_None [OF data.hyps(1)] by (simp only: length_end_mark) simp
  from end_mark_found [OF this, of "s @ rest"]
  have "read_content (Suc j) (''<![CDATA['' @ d @ '']]>'' @ s @ rest) = prepend (map Char d) (read_content j (s @ rest))"
    by (simp add: numeral_2_eq_2 numeral_eq_Suc)
  with data.IH [OF data.prems(1) k(2)] k show ?case by (simp add: prepend_def del: read_content.simps)
next
  case (empty_element n as s ns)
  then obtain j where k: "k = Suc j" "length s < j" by (cases k) auto
  have "read_content (Suc j) (''<'' @ n @ attributes_text env as @ '' />'' @ s @ rest) =
      prepend [Elem n (attributes_read env as) []] (read_content j (s @ rest))"
    by (subst read_content_tag [OF empty_element.hyps(1,2)]) (simp_all add: ends_tag_def numeral_3_eq_3)
  with empty_element.IH [OF empty_element.prems(1) k(2)] k show ?case by (simp add: prepend_def del: read_content.simps)
next
  case (element n as inner kids s ns)
  then obtain j where k: "k = Suc j" "length s < j" "length inner < j" by (cases k) auto
  let ?tail = "''</'' @ n @ ''>'' @ s @ rest"
  have tail: "ends_content ?tail" by (simp add: ends_content_def)
  have "read_content (Suc j) (''<'' @ n @ attributes_text env as @ ''>'' @ inner @ ?tail) =
      (case read_content j (inner @ ?tail) of None \<Rightarrow> None
       | Some (kids, r2) \<Rightarrow>
           let close = ''</'' @ n @ ''>'' in
           if take (length close) r2 = close
           then prepend [Elem n (attributes_read env as) kids] (read_content j (drop (length close) r2)) else None)"
    by (subst read_content_tag [OF element.hyps(1,2)]) (simp_all add: ends_tag_def numeral_3_eq_3)
  with element.IH(1) [OF tail k(3)] element.IH(2) [OF element.prems(1) k(2)] k show ?case
    by (simp add: prepend_def Let_def del: read_content.simps)
qed

section \<open>What each operation streams\<close>

text \<open>Properties that may be attributes of an element.\<close>

definition properties_ok :: "string \<Rightarrow> TestResult \<Rightarrow> bool" where
  "properties_ok element r \<longleftrightarrow>
     distinct (map key (test_properties r)) \<and>
     (\<forall>p \<in> set (test_properties r). xml_name (key p) \<and> key p \<notin> set (the (GetReservedAttributesForElement element)))"

definition property_attributes :: "TestResult \<Rightarrow> (string \<times> string) list" where
  "property_attributes r = map (\<lambda>p. (key p, c_text (val p))) (test_properties r)"

lemma map_upt_nth: "map (\<lambda>i. g (xs ! i)) [0..<length xs] = map g xs"
  by (rule nth_equalityI) simp_all

lemma stream_all_append:
  "stream_all (ps @ qs) = (case stream_all ps of None \<Rightarrow> None | Some s \<Rightarrow> map_option (\<lambda>t. s @ t) (stream_all qs))"
  by (induction ps; cases "stream_all qs") (auto split: option.split)

lemma stream_all_Some: "stream_all (map (\<lambda>x. Some (f x)) xs) = Some (concat (map f xs))"
  by (induction xs) simp_all

lemma xml_name_no_nul: "xml_name n \<Longrightarrow> CHR 0x00 \<notin> set n"
  using name_chars(1) [of n] name_chars(6) by (auto simp: list_all_iff)

lemma attributes_text_no_nul: "list_all xml_name (map fst as) \<Longrightarrow> CHR 0x00 \<notin> set (attributes_text env as)"
  using escape_char_no_nul xml_name_no_nul
  by (fastforce simp: attributes_text_def EscapeXmlAttribute_def EscapeXml_concat list_all_iff)

lemma those_map: "those (map (\<lambda>x. Some (f x)) xs) = Some (map f xs)"
  by (induction xs) simp_all

lemma properties_streamed:
  assumes "properties_ok element r"
  shows "TestPropertiesAsXmlAttributes env r = Some (attributes_text env (property_attributes r))"
proof -
  let ?n = "length (test_properties r)"
  have names: "\<forall>p \<in> set (test_properties r). xml_name (key p)" using assms by (auto simp: properties_ok_def)
  let ?f = "\<lambda>p. '' '' @ key p @ ''='' @ [CHR 0x22] @ EscapeXmlAttribute env (c_text (val p)) @ [CHR 0x22]"
  have "map (\<lambda>i. map_option (\<lambda>p. '' '' @ c_text (key p) @ ''='' @ [CHR 0x22] @ EscapeXmlAttribute env (c_text (val p)) @
      [CHR 0x22]) (GetTestProperty r (int i))) [0..<?n] = map (\<lambda>i. Some (?f (test_properties r ! i))) [0..<?n]"
    using names by (intro map_cong) (auto simp: GetTestProperty_def test_property_count_def c_text_no_nul xml_name_no_nul)
  also have "... = map (\<lambda>p. Some (?f p)) (test_properties r)"
    by (rule map_upt_nth)
  finally have texts: "those (map (\<lambda>i. map_option (\<lambda>p. '' '' @ c_text (key p) @ ''='' @ [CHR 0x22] @
      EscapeXmlAttribute env (c_text (val p)) @ [CHR 0x22]) (GetTestProperty r (int i))) [0..<?n]) =
    Some (map ?f (test_properties r))" by (simp only: those_map)
  have shown: "concat (map ?f (test_properties r)) = attributes_text env (property_attributes r)"
    by (simp add: attributes_text_def property_attributes_def comp_def)
  have "CHR 0x00 \<notin> set (attributes_text env (property_attributes r))"
    by (rule attributes_text_no_nul) (use names in \<open>auto simp: property_attributes_def list_all_iff\<close>)
  then show ?thesis
    unfolding TestPropertiesAsXmlAttributes_def test_property_count_def nat_int texts foldl_stream_text
    by (simp add: GetString_def stream_text_def new_Message_def shown StringStreamToString_id del: append.simps)
qed

lemma attributes_text_append: "attributes_text env (as @ bs) = attributes_text env as @ attributes_text env bs"
  by (simp add: attributes_text_def)

lemma attributes_text_Cons:
  "attributes_text env [] = []"
  "attributes_text env ((n, v) # as) =
     '' '' @ n @ ''='' @ [CHR 0x22] @ EscapeXmlAttribute env v @ [CHR 0x22] @ attributes_text env as"
  by (simp_all add: attributes_text_def)

lemma attribute_streamed:
  "GetReservedAttributesForElement el = Some ns \<Longrightarrow> n \<in> set ns \<Longrightarrow>
     OutputXmlAttribute env el n v = Some (attributes_text env [(n, v)])"
  by (simp add: OutputXmlAttribute_def attributes_text_def)

lemma reserved:
  "GetReservedAttributesForElement ''testcase'' = Some kReservedTestCaseAttributes"
  "GetReservedAttributesForElement ''testsuite'' = Some kReservedTestSuiteAttributes"
  "GetReservedAttributesForElement ''testsuites'' = Some kReservedTestSuitesAttributes"
  by (simp_all add: GetReservedAttributesForElement_def)

lemma good_with_properties:
  assumes "properties_ok element r" "GetReservedAttributesForElement element = Some ns"
    and "distinct (map fst (as @ bs))" "list_all xml_name (map fst (as @ bs))" "set (map fst (as @ bs)) \<subseteq> set ns"
  shows "good_attributes (as @ property_attributes r @ bs)"
proof -
  have "set (map fst (property_attributes r)) \<inter> set (map fst (as @ bs)) = {}"
    using assms(1,2,5) by (auto simp: property_attributes_def properties_ok_def)
  moreover have "distinct (map fst (property_attributes r))" "list_all xml_name (map fst (property_attributes r))"
    using assms(1) by (auto simp: property_attributes_def properties_ok_def comp_def list_all_iff)
  ultimately show ?thesis using assms(3,4) by (auto simp: good_attributes_def)
qed

section \<open>Failures\<close>

definition part_location :: "TestPartResult \<Rightarrow> string" where
  "part_location part = FormatCompilerIndependentFileLocation (file_name part) (part_line_number part)"

definition failure_node :: "xml_env \<Rightarrow> TestPartResult \<Rightarrow> xml" where
  "failure_node env part = Elem ''failure''
     [(''message'', clean env (c_text (part_location part @ [CHR 0x0A] @ c_text (part_summary part)))), (''type'', [])]
     (map Char (clean env (part_location part @ [CHR 0x0A] @ c_text (part_message part))))"

definition failure_text :: "xml_env \<Rightarrow> TestPartResult \<Rightarrow> string" where
  "failure_text env part = ''      '' @ ''<'' @ ''failure'' @ attributes_text env
     [(''message'', c_text (part_location part @ [CHR 0x0A] @ c_text (part_summary part))), (''type'', [])] @ ''>'' @
     OutputXmlCDataSection (clean env (part_location part @ [CHR 0x0A] @ c_text (part_message part))) @
     ''</'' @ ''failure'' @ ''>'' @ [CHR 0x0A]"

definition indented :: "string \<Rightarrow> xml \<Rightarrow> xml list" where
  "indented blanks node = map Char blanks @ [node, Char CHR 0x0A]"

lemma clean_no_nul: "CHR 0x00 \<notin> set (clean env s)"
  by (simp add: clean_def IsValidXmlCharacter_def IsNormalizableWhitespace_def code_def)

lemma means_indented_element:
  assumes "CHR ''<'' \<notin> set blanks" "CHR ''&'' \<notin> set blanks" "xml_name n" "good_attributes as" "means env inner kids"
  shows "means env (blanks @ ''<'' @ n @ attributes_text env as @ ''>'' @ inner @ ''</'' @ n @ ''>'' @ [CHR 0x0A])
    (indented blanks (Elem n (attributes_read env as) kids))"
  unfolding indented_def
  using means_append [OF means_plain [OF assms(1,2)] means.element [OF assms(3-5) means.character [OF _ _ means.nothing, of "CHR 0x0A"]]]
  by simp

lemma means_failure: "means env (failure_text env part) (indented ''      '' (failure_node env part))"
proof -
  have "xml_name ''failure''" "xml_name ''message''" "xml_name ''type''" by code_simp+
  then have "means env (failure_text env part) (indented ''      '' (Elem ''failure'' (attributes_read env
      [(''message'', c_text (part_location part @ [CHR 0x0A] @ c_text (part_summary part))), (''type'', [])])
      (map Char (clean env (part_location part @ [CHR 0x0A] @ c_text (part_message part))))))"
    unfolding failure_text_def
    by (intro means_indented_element means_cdata) (simp_all add: good_attributes_def)
  then show ?thesis by (simp add: failure_node_def attributes_read_def clean_def)
qed

lemma failures_streamed:
  "failures_loop env n (map Some parts) =
     (let failed = filter part_failed parts in
      Some (n + length failed,
        (if n = 0 \<and> failed \<noteq> [] then ''>'' @ [CHR 0x0A] else []) @ concat (map (failure_text env) failed)))"
proof (induction parts arbitrary: n)
  case (Cons part parts)
  have nn: "c_text (RemoveInvalidXmlCharacters env s) = clean env s" for s
    using clean_no_nul [of env s] by (simp add: RemoveInvalidXmlCharacters_def clean_def c_text_no_nul)
  show ?case
    using Cons by (simp add: Let_def failure_text_def part_location_def nn attributes_text_def attribute_Cons)
qed simp

section \<open>Tests, test cases and the whole run\<close>

definition optional :: "string \<Rightarrow> string option \<Rightarrow> (string \<times> string) list" where
  "optional n v = (case v of None \<Rightarrow> [] | Some w \<Rightarrow> [(n, c_text w)])"

definition test_attributes :: "xml_env \<Rightarrow> string \<Rightarrow> TestInfo \<Rightarrow> (string \<times> string) list" where
  "test_attributes env cname t =
     [(''name'', c_text (test_name t))] @ optional ''value_param'' (value_param t) @ optional ''type_param'' (type_param t) @
     [(''status'', if should_run t then ''run'' else ''notrun''), (''time'', seconds_text env (result_elapsed_time (result_of t))),
      (''classname'', cname)] @ property_attributes (result_of t)"

definition test_node :: "xml_env \<Rightarrow> string \<Rightarrow> TestInfo \<Rightarrow> xml" where
  "test_node env cname t =
     (let failed = filter part_failed (test_part_results (result_of t)) in
      Elem ''testcase'' (attributes_read env (test_attributes env cname t))
        (if failed = [] then []
         else Char CHR 0x0A # concat (map (\<lambda>part. indented ''      '' (failure_node env part)) failed) @ map Char ''    ''))"

definition case_attributes :: "xml_env \<Rightarrow> TestCase \<Rightarrow> (string \<times> string) list" where
  "case_attributes env c =
     [(''name'', c_text (case_name c)), (''tests'', int_string (reportable_test_count c)),
      (''failures'', int_string (failed_test_count c)), (''disabled'', int_string (reportable_disabled_test_count c)),
      (''errors'', ''0''), (''time'', seconds_text env (case_elapsed_time c))] @ property_attributes (case_ad_hoc_result c)"

definition run_order :: "TestCase \<Rightarrow> TestInfo list" where
  "run_order c = map (\<lambda>i. the (GetTestInfo c (int i))) [0..<length (test_info_list c)]"

definition case_node :: "xml_env \<Rightarrow> TestCase \<Rightarrow> xml" where
  "case_node env c = Elem ''testsuite'' (attributes_read env (case_attributes env c))
     (Char CHR 0x0A # concat (map (\<lambda>t. indented ''    '' (test_node env (c_text (case_name c)) t)) (filter is_reportable (run_order c))) @
      map Char ''  '')"

definition run_attributes :: "xml_env \<Rightarrow> int \<Rightarrow> int \<Rightarrow> UnitTestImpl \<Rightarrow> (string \<times> string) list" where
  "run_attributes env start elapsed u =
     [(''tests'', int_string (all_reportable_test_count u)), (''failures'', int_string (all_failed_test_count u)),
      (''disabled'', int_string (all_reportable_disabled_test_count u)), (''errors'', ''0''),
      (''timestamp'', FormatEpochTimeInMillisAsIso8601 env start), (''time'', seconds_text env elapsed)] @
     (if xml_shuffle env then [(''random_seed'', int_string (random_seed u))] else []) @
     property_attributes (ad_hoc_test_result u) @ [(''name'', ''AllTests'')]"

definition xml_report :: "xml_env \<Rightarrow> int \<Rightarrow> int \<Rightarrow> UnitTestImpl \<Rightarrow> xml" where
  "xml_report env start elapsed u = Elem ''testsuites'' (attributes_read env (run_attributes env start elapsed u))
     (Char CHR 0x0A # concat (map (\<lambda>c. indented ''  '' (case_node env c)) (filter (\<lambda>c. 0 < reportable_test_count c) (test_cases u))))"

text \<open>The state the report is made of: valid indices, and properties that may be attributes.\<close>

definition case_ok :: "TestCase \<Rightarrow> bool" where
  "case_ok c \<longleftrightarrow>
     (\<forall>i < length (test_info_list c). GetTestInfo c (int i) \<noteq> None) \<and>
     properties_ok ''testsuite'' (case_ad_hoc_result c) \<and>
     (\<forall>t \<in> set (run_order c). properties_ok ''testcase'' (result_of t))"

definition unit_ok :: "UnitTestImpl \<Rightarrow> bool" where
  "unit_ok u \<longleftrightarrow>
     (\<forall>i < length (test_cases u). GetTestCase u (int i) \<noteq> None) \<and>
     properties_ok ''testsuites'' (ad_hoc_test_result u) \<and> (\<forall>c \<in> set (test_cases u). case_ok c)"

lemma means_concat: "(\<And>x. x \<in> set xs \<Longrightarrow> means env (f x) (g x)) \<Longrightarrow> means env (concat (map f xs)) (concat (map g xs))"
  by (induction xs) (auto intro: means_append means.nothing)

lemma parts_listed:
  "map (\<lambda>i. GetTestPartResult r (int i)) [0..<nat (total_part_count r)] = map Some (test_part_results r)"
  by (rule nth_equalityI) (simp_all add: total_part_count_def GetTestPartResult_def)

lemma test_streamed:
  assumes "properties_ok ''testcase'' (result_of t)"
  shows "\<exists>s. OutputXmlTestInfo env cname t = Some s \<and> means env s (indented ''    '' (test_node env cname t))"
proof -
  let ?as = "test_attributes env cname t"
  define failed where "failed = filter part_failed (test_part_results (result_of t))"
  note attr = attribute_streamed [OF reserved(1)]
  have shown: "OutputXmlTestInfo env cname t = Some (''    <testcase'' @ attributes_text env ?as @
      (if failed = [] then '' />'' @ [CHR 0x0A]
       else ''>'' @ [CHR 0x0A] @ concat (map (failure_text env) failed) @ ''    </testcase>'' @ [CHR 0x0A]))"
    unfolding OutputXmlTestInfo_def parts_listed failures_streamed Let_def properties_streamed [OF assms] failed_def [symmetric]
    by (cases "value_param t"; cases "type_param t")
      (simp_all add: attr kReservedTestCaseAttributes_def test_attributes_def optional_def
        attributes_text_Cons attributes_text_append FormatTimeInMillisAsSeconds_def)
  have good: "good_attributes ?as"
  proof -
    have "good_attributes (([(''name'', c_text (test_name t))] @ optional ''value_param'' (value_param t) @
        optional ''type_param'' (type_param t) @ [(''status'', if should_run t then ''run'' else ''notrun''),
        (''time'', seconds_text env (result_elapsed_time (result_of t))), (''classname'', cname)]) @
        property_attributes (result_of t) @ [])"
    proof (rule good_with_properties [OF assms reserved(1)])
      have names: "list_all xml_name kReservedTestCaseAttributes" by code_simp
      show "list_all xml_name (map fst (([(''name'', c_text (test_name t))] @ optional ''value_param'' (value_param t) @
        optional ''type_param'' (type_param t) @ [(''status'', if should_run t then ''run'' else ''notrun''),
        (''time'', seconds_text env (result_elapsed_time (result_of t))), (''classname'', cname)]) @ []))"
        using names by (auto simp: optional_def kReservedTestCaseAttributes_def split: option.split)
    qed (auto simp: optional_def kReservedTestCaseAttributes_def split: option.split)
    then show ?thesis by (simp add: test_attributes_def)
  qed
  have tc: "xml_name ''testcase''" by code_simp
  show ?thesis
  proof (cases "failed = []")
    case True
    have "means env (''    '' @ ''<'' @ ''testcase'' @ attributes_text env ?as @ '' />'' @ [CHR 0x0A])
        (map Char ''    '' @ [Elem ''testcase'' (attributes_read env ?as) [], Char CHR 0x0A])"
      by (rule means_append [OF means_plain means.empty_element [OF tc good]]) (auto intro: means.intros)
    with True shown show ?thesis by (simp add: test_node_def failed_def indented_def)
  next
    case False
    have "means env ([CHR 0x0A] @ concat (map (failure_text env) failed) @ ''    '')
        ([Char CHR 0x0A] @ concat (map (\<lambda>part. indented ''      '' (failure_node env part)) failed) @ map Char ''    '')"
      by (intro means_append means_concat means_failure means_plain)
        (auto intro: means.intros)
    from means_indented_element [OF _ _ tc good this, of "''    ''"] False shown
    show ?thesis by (simp add: test_node_def failed_def)
  qed
qed

text \<open>A loop that prints the elements that are to be reported.\<close>

lemma children_streamed:
  assumes "\<And>x. x \<in> set xs \<Longrightarrow> \<exists>s. f x = Some s \<and> means env s (g x)"
  shows "\<exists>s. stream_all (map (\<lambda>x. if P x then f x else Some []) xs) = Some s \<and>
    means env s (concat (map g (filter P xs)))"
  using assms
proof (induction xs)
  case Nil
  then show ?case by (auto intro: means.nothing)
next
  case (Cons x xs)
  then obtain s where s: "stream_all (map (\<lambda>x. if P x then f x else Some []) xs) = Some s"
    "means env s (concat (map g (filter P xs)))" by auto
  obtain s' where "f x = Some s'" "means env s' (g x)" using Cons.prems [of x] by auto
  with s show ?case by (auto intro: means_append)
qed

lemma case_streamed:
  assumes "case_ok c"
  shows "\<exists>s. PrintXmlTestCase env c = Some s \<and> means env s (indented ''  '' (case_node env c))"
proof -
  let ?as = "case_attributes env c"
  let ?tests = "map (\<lambda>i. case GetTestInfo c (int i) of None \<Rightarrow> None
      | Some t \<Rightarrow> if is_reportable t then OutputXmlTestInfo env (c_text (case_name c)) t else Some [])
      [0..<nat (total_test_count c)]"
  have props: "properties_ok ''testsuite'' (case_ad_hoc_result c)"
    and tests: "\<And>t. t \<in> set (run_order c) \<Longrightarrow> properties_ok ''testcase'' (result_of t)"
    using assms by (auto simp: case_ok_def)
  have infos: "?tests = map (\<lambda>t. if is_reportable t then OutputXmlTestInfo env (c_text (case_name c)) t else Some []) (run_order c)"
    using assms unfolding run_order_def case_ok_def total_test_count_def
    by (intro nth_equalityI) (auto split: option.split)
  obtain inner where inner: "stream_all ?tests = Some inner"
    "means env inner (concat (map (\<lambda>t. indented ''    '' (test_node env (c_text (case_name c)) t)) (filter is_reportable (run_order c))))"
    using children_streamed [where xs = "run_order c" and f = "OutputXmlTestInfo env (c_text (case_name c))" and env = env and P = is_reportable,
        OF test_streamed [OF tests]] unfolding infos by auto
  note attr = attribute_streamed [OF reserved(2)]
  have shown: "PrintXmlTestCase env c = Some (''  '' @ ''<'' @ ''testsuite'' @ attributes_text env ?as @ ''>'' @
      ([CHR 0x0A] @ inner @ ''  '') @ ''</'' @ ''testsuite'' @ ''>'' @ [CHR 0x0A])"
    unfolding PrintXmlTestCase_def Let_def stream_all_append inner(1) properties_streamed [OF props]
    by (simp add: attr kReservedTestSuiteAttributes_def case_attributes_def StreamableToString_int
        attributes_text_Cons attributes_text_append FormatTimeInMillisAsSeconds_def)
  have names: "list_all xml_name kReservedTestSuiteAttributes" "xml_name ''testsuite''" by code_simp+
  have "good_attributes ([(''name'', c_text (case_name c)), (''tests'', int_string (reportable_test_count c)),
      (''failures'', int_string (failed_test_count c)), (''disabled'', int_string (reportable_disabled_test_count c)),
      (''errors'', ''0''), (''time'', seconds_text env (case_elapsed_time c))] @ property_attributes (case_ad_hoc_result c) @ [])"
    by (rule good_with_properties [OF props reserved(2)]) (use names in \<open>auto simp: kReservedTestSuiteAttributes_def\<close>)
  then have good: "good_attributes ?as" by (simp add: case_attributes_def)
  have "means env ([CHR 0x0A] @ inner @ ''  '') ([Char CHR 0x0A] @
      concat (map (\<lambda>t. indented ''    '' (test_node env (c_text (case_name c)) t)) (filter is_reportable (run_order c))) @
      map Char ''  '')"
    by (intro means_append inner(2) means_plain) (auto intro: means.intros)
  from means_indented_element [OF _ _ names(2) good this, of "''  ''"] shown
  show ?thesis by (simp add: case_node_def)
qed

lemma run_streamed:
  assumes "unit_ok u"
  shows "\<exists>s. PrintXmlUnitTest env start elapsed u = Some (xml_declaration @ s) \<and>
    means env s (Char CHR 0x0A # indented [] (xml_report env start elapsed u))"
proof -
  let ?as = "run_attributes env start elapsed u"
  let ?cases = "map (\<lambda>i. case GetTestCase u (int i) of None \<Rightarrow> None
      | Some c \<Rightarrow> if 0 < reportable_test_count c then PrintXmlTestCase env c else Some [])
      [0..<nat (total_test_case_count u)]"
  have props: "properties_ok ''testsuites'' (ad_hoc_test_result u)" and cases: "\<And>c. c \<in> set (test_cases u) \<Longrightarrow> case_ok c"
    using assms by (auto simp: unit_ok_def)
  have all: "?cases = map (\<lambda>c. if 0 < reportable_test_count c then PrintXmlTestCase env c else Some []) (test_cases u)"
    using assms unfolding unit_ok_def total_test_case_count_def
    by (intro nth_equalityI) (auto simp: GetTestCase_def Let_def split: option.split if_splits)
  obtain inner where inner: "stream_all ?cases = Some inner"
    "means env inner (concat (map (\<lambda>c. indented ''  '' (case_node env c)) (filter (\<lambda>c. 0 < reportable_test_count c) (test_cases u))))"
    using children_streamed [where xs = "test_cases u" and f = "PrintXmlTestCase env" and env = env and P = "\<lambda>c. 0 < reportable_test_count c",
        OF case_streamed [OF cases]] unfolding all by auto
  note attr = attribute_streamed [OF reserved(3)]
  have shown: "PrintXmlUnitTest env start elapsed u = Some (xml_declaration @ [CHR 0x0A] @ ''<'' @ ''testsuites'' @
      attributes_text env ?as @ ''>'' @ ([CHR 0x0A] @ inner) @ ''</'' @ ''testsuites'' @ ''>'' @ [CHR 0x0A])"
    unfolding PrintXmlUnitTest_def Let_def stream_all_append inner(1) properties_streamed [OF props]
    by (simp add: attr kReservedTestSuitesAttributes_def run_attributes_def StreamableToString_int xml_declaration_def
        attributes_text_Cons attributes_text_append FormatTimeInMillisAsSeconds_def)
  have names: "list_all xml_name kReservedTestSuitesAttributes" "xml_name ''testsuites''" by code_simp+
  have "good_attributes (([(''tests'', int_string (all_reportable_test_count u)), (''failures'', int_string (all_failed_test_count u)),
      (''disabled'', int_string (all_reportable_disabled_test_count u)), (''errors'', ''0''),
      (''timestamp'', FormatEpochTimeInMillisAsIso8601 env start), (''time'', seconds_text env elapsed)] @
      (if xml_shuffle env then [(''random_seed'', int_string (random_seed u))] else [])) @
      property_attributes (ad_hoc_test_result u) @ [(''name'', ''AllTests'')])"
    by (rule good_with_properties [OF props reserved(3)]) (use names in \<open>auto simp: kReservedTestSuitesAttributes_def\<close>)
  then have good: "good_attributes ?as" by (simp add: run_attributes_def)
  have "means env ([CHR 0x0A] @ inner) ([Char CHR 0x0A] @
      concat (map (\<lambda>c. indented ''  '' (case_node env c)) (filter (\<lambda>c. 0 < reportable_test_count c) (test_cases u))))"
    by (intro means_append inner(2)) (auto intro: means.intros)
  from means_indented_element [OF _ _ names(2) good this, of "[]"] shown
  show ?thesis by (auto simp: xml_report_def intro: means.character)
qed

section \<open>Properties\<close>

text \<open>
  What \<open>RecordProperty\<close> sees to: the keys of an element are distinct and none of them is an attribute that
  the framework writes itself. That a key is a name of XML it does not check.
\<close>

definition recorded_ok :: "string \<Rightarrow> TestResult \<Rightarrow> bool" where
  "recorded_ok element r \<longleftrightarrow>
     distinct (map key (test_properties r)) \<and>
     set (map key (test_properties r)) \<inter> set (the (GetReservedAttributesForElement element)) = {}"

lemma recorded_ok_new: "recorded_ok element new_TestResult"
  by (simp add: recorded_ok_def new_TestResult_def)

lemma RecordProperty_keeps:
  assumes "TestResult_RecordProperty element p r = Some (failure, r')" and "recorded_ok element r"
  shows "recorded_ok element r'"
proof -
  have "set (map key (set_property p (test_properties r))) = insert (key p) (set (map key (test_properties r)))"
    "distinct (map key (test_properties r)) \<Longrightarrow> distinct (map key (set_property p (test_properties r)))"
    unfolding set_property_keys by auto
  then show ?thesis
    using assms
    by (auto simp: TestResult_RecordProperty_def ValidateTestProperty_def ValidateTestPropertyName_def recorded_ok_def
        simp del: set_map split: if_splits option.splits)
qed

definition unit_recorded :: "UnitTestImpl \<Rightarrow> bool" where
  "unit_recorded u \<longleftrightarrow>
     (\<forall>i < length (test_cases u). GetTestCase u (int i) \<noteq> None) \<and>
     recorded_ok ''testsuites'' (ad_hoc_test_result u) \<and>
     (\<forall>c \<in> set (test_cases u).
       (\<forall>i < length (test_info_list c). GetTestInfo c (int i) \<noteq> None) \<and>
       recorded_ok ''testsuite'' (case_ad_hoc_result c) \<and>
       (\<forall>t \<in> set (run_order c). recorded_ok ''testcase'' (result_of t)))"

text \<open>The keys of all the properties of a report.\<close>

definition property_keys :: "UnitTestImpl \<Rightarrow> string list" where
  "property_keys u =
     concat (map (\<lambda>r. map key (test_properties r))
       (ad_hoc_test_result u # concat (map (\<lambda>c. case_ad_hoc_result c # map result_of (run_order c)) (test_cases u))))"

lemma recorded_properties_ok:
  "recorded_ok element r \<Longrightarrow> \<forall>k \<in> set (map key (test_properties r)). xml_name k \<Longrightarrow> properties_ok element r"
  by (auto simp: recorded_ok_def properties_ok_def)

lemma unit_recorded_ok:
  assumes "unit_recorded u" and "\<forall>k \<in> set (property_keys u). xml_name k"
  shows "unit_ok u"
proof -
  have "properties_ok ''testsuites'' (ad_hoc_test_result u)"
    using assms by (intro recorded_properties_ok) (auto simp: unit_recorded_def property_keys_def)
  moreover have "case_ok c" if c: "c \<in> set (test_cases u)" for c
  proof -
    have "properties_ok ''testsuite'' (case_ad_hoc_result c)"
      using assms c by (intro recorded_properties_ok) (auto simp: unit_recorded_def property_keys_def)
    moreover have "properties_ok ''testcase'' (result_of t)" if "t \<in> set (run_order c)" for t
    proof (rule recorded_properties_ok)
      show "recorded_ok ''testcase'' (result_of t)" using assms(1) c that by (simp add: unit_recorded_def)
      have "set (map key (test_properties (result_of t))) \<subseteq> set (property_keys u)"
        using c that by (force simp: property_keys_def)
      then show "\<forall>k \<in> set (map key (test_properties (result_of t))). xml_name k" using assms(2) by blast
    qed
    ultimately show ?thesis using assms(1) c by (simp add: case_ok_def unit_recorded_def)
  qed
  ultimately show ?thesis using assms(1) by (simp add: unit_ok_def unit_recorded_def)
qed

text \<open>C14: The report of a run whose tests record properties only under keys that are names of XML (the
  framework checks that a key is not reserved, and replaces an equal one, but not this) is printed
  without an abort and is well-formed XML that a reader of XML understands as it is meant: one
  element per run, test case and test with exactly these attributes, and one element per failed
  assertion with its summary and full message, up to the characters XML does not allow; no text in
  the name of a test, a parameter, the value of a property or a message can break the document.\<close>

theorem xml_report_reads_back:
  assumes "unit_recorded u" and names: "\<forall>k \<in> set (property_keys u). xml_name k"
  shows "\<exists>s. PrintXmlUnitTest env start elapsed u = Some s \<and>
    read_xml s = Some (Char CHR 0x0A # indented [] (xml_report env start elapsed u))"
proof -
  obtain s where s: "PrintXmlUnitTest env start elapsed u = Some (xml_declaration @ s)"
    "means env s (Char CHR 0x0A # indented [] (xml_report env start elapsed u))"
    using run_streamed [OF unit_recorded_ok [OF assms]] by blast
  have "read_content (Suc (length s)) (s @ []) = Some (Char CHR 0x0A # indented [] (xml_report env start elapsed u), [])"
    by (rule means_read [OF s(2)]) (simp_all add: ends_content_def)
  with s(1) show ?thesis by (auto simp: read_xml_def Let_def simp del: read_content.simps)
qed

theorem xml_report_reads_back_witness:
  "let env = \<lparr> signed_char = True, seconds_text = (\<lambda>_. ''0''), local_time = (\<lambda>_. None), xml_shuffle = False \<rparr>;
       r = AddTestPartResult (new_TestPartResult kFatalFailure (Some ''a.cc'') 7 ''x ]]> <y>'') new_TestResult;
       c = case_AddTestInfo ((new_TestInfo ''C'' ''t'' None (Some ''v < 1'') 1)
         \<lparr> result_of := r\<lparr> test_properties := [\<lparr> key = ''size'', val = ''a & b'' \<rparr>] \<rparr>, matches_filter := True \<rparr>) (new_TestCase ''C'' None);
       u = new_UnitTestImpl\<lparr> test_cases := [c], test_case_indices := [0] \<rparr>
   in \<exists>s. PrintXmlUnitTest env 0 0 u = Some s \<and> read_xml s = Some (Char CHR 0x0A # indented [] (xml_report env 0 0 u))"
proof -
  have size: "xml_name ''size''" by code_simp
  show ?thesis
    unfolding Let_def
    by (rule xml_report_reads_back)
      (simp_all add: size unit_recorded_def property_keys_def recorded_ok_def GetTestCase_def GetTestInfo_def run_order_def
        case_AddTestInfo_def new_TestCase_def new_UnitTestImpl_def new_TestInfo_def new_TestResult_def AddTestPartResult_def
        GetElementOr_def Let_def GetReservedAttributesForElement_def kReservedTestCaseAttributes_def)
qed

text \<open>A key that is no name of XML is recorded without a failure and printed as it is: the report is then
  not well-formed.\<close>

lemma property_key_breaks_report:
  defines "env \<equiv> \<lparr> signed_char = True, seconds_text = (\<lambda>_. ''0''), local_time = (\<lambda>_. None), xml_shuffle = False \<rparr>"
  shows "\<exists>u s. RecordProperty \<lparr> key = ''a b'', val = ''1'' \<rparr> new_UnitTestImpl = Some (None, u) \<and>
    PrintXmlUnitTest env 0 0 u = Some s \<and> read_xml s = None"
proof -
  let ?u = "snd (the (RecordProperty \<lparr> key = ''a b'', val = ''1'' \<rparr> new_UnitTestImpl))"
  have "RecordProperty \<lparr> key = ''a b'', val = ''1'' \<rparr> new_UnitTestImpl \<noteq> None"
    "fst (the (RecordProperty \<lparr> key = ''a b'', val = ''1'' \<rparr> new_UnitTestImpl)) = None"
    "PrintXmlUnitTest env 0 0 ?u \<noteq> None" "read_xml (the (PrintXmlUnitTest env 0 0 ?u)) = None"
    unfolding env_def by code_simp+
  then show ?thesis by (intro exI [of _ ?u] exI [of _ "the (PrintXmlUnitTest env 0 0 ?u)"]) auto
qed

text \<open>Where \<open>char\<close> is signed, every byte outside ASCII is dropped from the report.\<close>

lemma report_drops_non_ascii:
  "signed_char env \<Longrightarrow> clean env s = filter (\<lambda>c. code c < 128 \<and> IsValidXmlCharacter env c) s"
proof -
  assume signed: "signed_char env"
  have marks: "code CHR 0x09 < 128" "code CHR 0x0A < 128" "code CHR 0x0D < 128" by (simp_all add: code_def)
  have "IsValidXmlCharacter env c \<Longrightarrow> code c < 128" for c
  proof -
    have "code c < 256" by (simp add: code_def)
    then show "IsValidXmlCharacter env c \<Longrightarrow> code c < 128"
      using signed marks by (auto simp: IsValidXmlCharacter_def IsNormalizableWhitespace_def split: if_splits)
  qed
  then show ?thesis by (auto simp: clean_def intro!: filter_cong)
qed

end
