(* ===== verification/Gtest_Stream.thy ===== *)
theory Gtest_Stream
  imports Gtest_UnitTest Gtest_Port
begin

text \<open>
  Streaming of results to a socket: \<open>StreamingListener\<close> and its \<open>SocketWriter\<close>
  (\<open>googletest-1.8.0/src/gtest-internal-inl.h\<close>, \<open>src/gtest.cc\<close>). The network is an argument: for each
  address of the host the descriptor \<open>socket\<close> returns and whether \<open>connect\<close> succeeds, and for each
  call of \<open>write\<close> what it returns. \<open>None\<close> is the abort of \<open>GTEST_CHECK_\<close>.
\<close>

section \<open>Encoding\<close>

definition url_encode_char :: "char \<Rightarrow> string" where
  "url_encode_char ch =
     (if ch \<in> {CHR ''%'', CHR ''='', CHR ''&'', CHR 0x0A}
      then ''%'' @ FormatByte (of_nat (code ch)) else [ch])"

fun UrlEncode :: "string \<Rightarrow> string" where
  "UrlEncode [] = []"
| "UrlEncode (ch # str) = (if ch = CHR 0x00 then [] else url_encode_char ch @ UrlEncode str)"

definition FormatBool :: "bool \<Rightarrow> string" where
  "FormatBool b = (if b then ''1'' else ''0'')"

section \<open>The socket\<close>

record SocketWriter =
  sockfd :: int
  host_name :: string
  port_num :: string
  wire :: string
  writes :: nat
  log_lines :: "string list"

record network =
  lookup_error :: "string option"
  addresses :: "(int \<times> bool) list"
  write_result :: "nat \<Rightarrow> string \<Rightarrow> int"

text \<open>The loop over the addresses: it ends with the first connection.\<close>

primrec connect_loop :: "(int \<times> bool) list \<Rightarrow> int \<Rightarrow> int" where
  "connect_loop [] fd = fd"
| "connect_loop (a # later) fd =
     (if fd \<noteq> -1 then fd
      else connect_loop later (if fst a \<noteq> -1 \<and> \<not> snd a then -1 else fst a))"

definition MakeConnection :: "network \<Rightarrow> SocketWriter \<Rightarrow> SocketWriter option" where
  "MakeConnection net w =
     (if sockfd w \<noteq> -1 then None
      else
        let log1 = (case lookup_error net of None \<Rightarrow> []
                    | Some err \<Rightarrow> [''stream_result_to: getaddrinfo() failed: '' @ err]);
            fd = connect_loop (addresses net) (-1);
            log2 = (if fd = -1 then [''stream_result_to: failed to connect to '' @ host_name w @ '':'' @ port_num w]
                    else []) in
        Some (w\<lparr> sockfd := fd, log_lines := log_lines w @ log1 @ log2 \<rparr>))"

definition new_SocketWriter :: "network \<Rightarrow> string \<Rightarrow> string \<Rightarrow> SocketWriter option" where
  "new_SocketWriter net host port =
     MakeConnection net \<lparr> sockfd = -1, host_name = host, port_num = port, wire = [], writes = 0, log_lines = [] \<rparr>"

definition Send :: "network \<Rightarrow> string \<Rightarrow> SocketWriter \<Rightarrow> SocketWriter option" where
  "Send net message w =
     (if sockfd w = -1 then None
      else
        let len = int (length message); written = write_result net (writes w) message;
            w1 = w\<lparr> wire := wire w @ take (nat written) message, writes := writes w + 1 \<rparr> in
        Some (if written \<noteq> len
              then w1\<lparr> log_lines := log_lines w1 @ [''stream_result_to: failed to stream to '' @ host_name w @ '':'' @ port_num w] \<rparr>
              else w1))"

definition socket_CloseConnection :: "SocketWriter \<Rightarrow> SocketWriter option" where
  "socket_CloseConnection w = (if sockfd w = -1 then None else Some (w\<lparr> sockfd := -1 \<rparr>))"

definition SendLn :: "network \<Rightarrow> string \<Rightarrow> SocketWriter \<Rightarrow> SocketWriter option" where
  "SendLn net message w = Send net (message @ [CHR 0x0A]) w"

text \<open>The destructor.\<close>

definition delete_SocketWriter :: "SocketWriter \<Rightarrow> SocketWriter option" where
  "delete_SocketWriter w = (if sockfd w \<noteq> -1 then socket_CloseConnection w else Some w)"

section \<open>The listener\<close>

definition new_StreamingListener :: "network \<Rightarrow> string \<Rightarrow> string \<Rightarrow> SocketWriter option" where
  "new_StreamingListener net host port =
     (case new_SocketWriter net host port of
        None \<Rightarrow> None
      | Some w \<Rightarrow> SendLn net ''gtest_streaming_protocol_version=1.0'' w)"

datatype listener_call =
    stream_OnTestProgramStart
  | stream_OnTestProgramEnd UnitTestImpl
  | stream_OnTestIterationStart int
  | stream_OnTestIterationEnd UnitTestImpl int
  | stream_OnTestCaseStart TestCase
  | stream_OnTestCaseEnd TestCase
  | stream_OnTestStart TestInfo
  | stream_OnTestEnd TestInfo
  | stream_OnTestPartResult TestPartResult

fun stream_message :: "listener_call \<Rightarrow> string" where
  "stream_message stream_OnTestProgramStart = ''event=TestProgramStart''"
| "stream_message (stream_OnTestProgramEnd u) = ''event=TestProgramEnd&passed='' @ FormatBool (unit_Passed u)"
| "stream_message (stream_OnTestIterationStart iteration) =
     ''event=TestIterationStart&iteration='' @ StreamableToString (int_string iteration)"
| "stream_message (stream_OnTestIterationEnd u elapsed) =
     ''event=TestIterationEnd&passed='' @ FormatBool (unit_Passed u) @ ''&elapsed_time='' @
     StreamableToString (int_string elapsed) @ ''ms''"
| "stream_message (stream_OnTestCaseStart c) = ''event=TestCaseStart&name='' @ c_text (case_name c)"
| "stream_message (stream_OnTestCaseEnd c) =
     ''event=TestCaseEnd&passed='' @ FormatBool (case_Passed c) @ ''&elapsed_time='' @
     StreamableToString (int_string (case_elapsed_time c)) @ ''ms''"
| "stream_message (stream_OnTestStart t) = ''event=TestStart&name='' @ c_text (test_name t)"
| "stream_message (stream_OnTestEnd t) =
     ''event=TestEnd&passed='' @ FormatBool (Passed (result_of t)) @ ''&elapsed_time='' @
     StreamableToString (int_string (result_elapsed_time (result_of t))) @ ''ms''"
| "stream_message (stream_OnTestPartResult p) =
     ''event=TestPartResult&file='' @ UrlEncode (case file_name p of None \<Rightarrow> [] | Some f \<Rightarrow> f) @
     ''&line='' @ StreamableToString (int_string (part_line_number p)) @
     ''&message='' @ UrlEncode (part_message p)"

definition stream_call :: "network \<Rightarrow> listener_call \<Rightarrow> SocketWriter \<Rightarrow> SocketWriter option" where
  "stream_call net call w =
     (case SendLn net (stream_message call) w of
        None \<Rightarrow> None
      | Some w1 \<Rightarrow>
          (case call of stream_OnTestProgramEnd u \<Rightarrow> socket_CloseConnection w1 | _ \<Rightarrow> Some w1))"

primrec stream_calls :: "network \<Rightarrow> listener_call list \<Rightarrow> SocketWriter \<Rightarrow> SocketWriter option" where
  "stream_calls net [] w = Some w"
| "stream_calls net (call # later) w =
     (case stream_call net call w of None \<Rightarrow> None | Some w1 \<Rightarrow> stream_calls net later w1)"

section \<open>What the receiver reads\<close>

definition hex_code :: "char \<Rightarrow> nat" where
  "hex_code c = (if code c \<le> 57 then code c - 48 else code c - 55)"

fun url_decode :: "string \<Rightarrow> string" where
  "url_decode (c # a # b # s) =
     (if c = CHR ''%'' then char_of (16 * hex_code a + hex_code b) # url_decode s else c # url_decode (a # b # s))"
| "url_decode s = s"

text \<open>The fields of a line: the texts between the ampersands, each cut at its first equals sign.\<close>

definition read_field :: "string \<Rightarrow> string \<times> string" where
  "read_field s = (takeWhile (\<lambda>c. c \<noteq> CHR ''='') s, url_decode (drop 1 (dropWhile (\<lambda>c. c \<noteq> CHR ''='') s)))"

definition read_line :: "string \<Rightarrow> (string \<times> string) list" where
  "read_line s = map read_field (SplitString s CHR ''&'')"

definition elapsed_field :: "int \<Rightarrow> string \<times> string" where
  "elapsed_field ms = (''elapsed_time'', int_string ms @ ''ms'')"

fun call_fields :: "listener_call \<Rightarrow> (string \<times> string) list" where
  "call_fields stream_OnTestProgramStart = [(''event'', ''TestProgramStart'')]"
| "call_fields (stream_OnTestProgramEnd u) = [(''event'', ''TestProgramEnd''), (''passed'', FormatBool (unit_Passed u))]"
| "call_fields (stream_OnTestIterationStart i) = [(''event'', ''TestIterationStart''), (''iteration'', int_string i)]"
| "call_fields (stream_OnTestIterationEnd u ms) =
     [(''event'', ''TestIterationEnd''), (''passed'', FormatBool (unit_Passed u)), elapsed_field ms]"
| "call_fields (stream_OnTestCaseStart c) = [(''event'', ''TestCaseStart''), (''name'', case_name c)]"
| "call_fields (stream_OnTestCaseEnd c) =
     [(''event'', ''TestCaseEnd''), (''passed'', FormatBool (case_Passed c)), elapsed_field (case_elapsed_time c)]"
| "call_fields (stream_OnTestStart t) = [(''event'', ''TestStart''), (''name'', test_name t)]"
| "call_fields (stream_OnTestEnd t) =
     [(''event'', ''TestEnd''), (''passed'', FormatBool (Passed (result_of t))), elapsed_field (result_elapsed_time (result_of t))]"
| "call_fields (stream_OnTestPartResult p) =
     [(''event'', ''TestPartResult''), (''file'', part_file_name p), (''line'', int_string (part_line_number p)),
      (''message'', part_message p)]"

text \<open>Names are sent as they are; paths and messages are C strings.\<close>

definition plain :: "string \<Rightarrow> bool" where
  "plain s \<longleftrightarrow> set s \<inter> {CHR 0x00, CHR ''%'', CHR ''&'', CHR 0x0A} = {}"

fun call_ok :: "listener_call \<Rightarrow> bool" where
  "call_ok (stream_OnTestCaseStart c) \<longleftrightarrow> plain (case_name c)"
| "call_ok (stream_OnTestStart t) \<longleftrightarrow> plain (test_name t)"
| "call_ok (stream_OnTestPartResult p) \<longleftrightarrow> CHR 0x00 \<notin> set (part_file_name p) \<and> CHR 0x00 \<notin> set (part_message p)"
| "call_ok call \<longleftrightarrow> True"

section \<open>Decoding\<close>

lemma url_decode_other: "c \<noteq> CHR ''%'' \<Longrightarrow> url_decode (c # s) = c # url_decode s"
  by (cases s; cases "tl s") auto

lemma url_decode_char: "url_decode (url_encode_char c @ s) = c # url_decode s"
proof (cases "c \<in> {CHR ''%'', CHR ''='', CHR ''&'', CHR 0x0A}")
  case True
  have "\<forall>c \<in> set [CHR ''%'', CHR ''='', CHR ''&'', CHR 0x0A]. length (FormatByte (of_nat (code c))) = 2 \<and>
      char_of (16 * hex_code (FormatByte (of_nat (code c)) ! 0) + hex_code (FormatByte (of_nat (code c)) ! 1)) = c"
    by code_simp
  with True have "length (FormatByte (of_nat (code c))) = 2 \<and>
      char_of (16 * hex_code (FormatByte (of_nat (code c)) ! 0) + hex_code (FormatByte (of_nat (code c)) ! 1)) = c" by auto
  then obtain a b where "FormatByte (of_nat (code c)) = [a, b]" "char_of (16 * hex_code a + hex_code b) = c"
    by (cases "FormatByte (of_nat (code c))"; cases "tl (FormatByte (of_nat (code c)))") auto
  with True show ?thesis by (simp add: url_encode_char_def)
next
  case False
  then show ?thesis by (simp add: url_encode_char_def url_decode_other)
qed

lemma url_decode_UrlEncode: "CHR 0x00 \<notin> set s \<Longrightarrow> url_decode (UrlEncode s) = s"
  by (induction s) (auto simp: url_decode_char)

lemma UrlEncode_chars: "c \<in> set (UrlEncode s) \<Longrightarrow> c \<notin> {CHR ''='', CHR ''&'', CHR 0x0A}"
proof (induction s)
  case (Cons d s)
  have "\<forall>d \<in> set [CHR ''%'', CHR ''='', CHR ''&'', CHR 0x0A]. list_all (\<lambda>c. c \<notin> {CHR ''='', CHR ''&'', CHR 0x0A}) (url_encode_char d)"
    by code_simp
  then have "d \<in> {CHR ''%'', CHR ''='', CHR ''&'', CHR 0x0A} \<Longrightarrow>
      list_all (\<lambda>c. c \<notin> {CHR ''='', CHR ''&'', CHR 0x0A}) (url_encode_char d)" by (elim insertE emptyE; simp)
  then have "list_all (\<lambda>c. c \<notin> {CHR ''='', CHR ''&'', CHR 0x0A}) (url_encode_char d)"
    by (cases "d \<in> {CHR ''%'', CHR ''='', CHR ''&'', CHR 0x0A}") (blast, simp add: url_encode_char_def)
  then have "c \<in> set (url_encode_char d) \<Longrightarrow> c \<notin> {CHR ''='', CHR ''&'', CHR 0x0A}"
    unfolding list_all_iff by blast
  moreover have "c \<in> set (url_encode_char d) \<or> c \<in> set (UrlEncode s)"
    using Cons.prems by (simp split: if_splits)
  ultimately show ?case using Cons.IH by blast
qed simp

lemma url_decode_plain: "CHR ''%'' \<notin> set s \<Longrightarrow> url_decode s = s"
  by (induction s) (auto simp: url_decode_other)

lemma SplitString_Cons:
  "d \<notin> set a \<Longrightarrow> SplitString (a @ d # b) d = a # SplitString b d"
  "d \<notin> set a \<Longrightarrow> SplitString a d = [a]"
proof -
  assume a: "d \<notin> set a"
  then have "takeWhile (\<lambda>c. c \<noteq> d) (a @ d # b) = a" by (induction a) auto
  then show "SplitString (a @ d # b) d = a # SplitString b d" by (subst SplitString.simps) (simp add: Let_def)
  from a show "SplitString a d = [a]" by (subst SplitString.simps) (simp add: Let_def)
qed

lemma read_field_parts:
  "CHR ''='' \<notin> set n \<Longrightarrow> read_field (n @ CHR ''='' # v) = (n, url_decode v)"
  by (induction n) (auto simp: read_field_def)

text \<open>Lines made of fields.\<close>

fun field_line :: "(string \<times> string) list \<Rightarrow> string" where
  "field_line [] = []"
| "field_line [(n, v)] = n @ CHR ''='' # v"
| "field_line ((n, v) # fs) = n @ CHR ''='' # v @ CHR ''&'' # field_line fs"

definition field_ok :: "string \<times> string \<Rightarrow> bool" where
  "field_ok f \<longleftrightarrow> set (fst f) \<inter> {CHR ''='', CHR ''&'', CHR 0x0A} = {} \<and> set (snd f) \<inter> {CHR ''&'', CHR 0x0A} = {}"

lemma read_field_line:
  "fs \<noteq> [] \<Longrightarrow> list_all field_ok fs \<Longrightarrow>
     read_line (field_line fs) = map (\<lambda>(n, v). (n, url_decode v)) fs \<and> CHR 0x0A \<notin> set (field_line fs)"
proof (induction fs rule: field_line.induct)
  case (2 n v)
  then show ?case
    using SplitString_Cons(2) [of "CHR ''&''" "n @ CHR ''='' # v"]
    by (auto simp: read_line_def field_ok_def read_field_parts)
next
  case (3 n v f fs)
  then have "SplitString (n @ CHR ''='' # v @ CHR ''&'' # field_line (f # fs)) CHR ''&'' =
      (n @ CHR ''='' # v) # SplitString (field_line (f # fs)) CHR ''&''"
    using SplitString_Cons(1) [of "CHR ''&''" "n @ CHR ''='' # v" "field_line (f # fs)"] by (auto simp: field_ok_def)
  with 3 show ?case by (auto simp: read_line_def field_ok_def read_field_parts)
qed simp

text \<open>What each call sends, as fields before decoding.\<close>

definition sent_fields :: "listener_call \<Rightarrow> (string \<times> string) list" where
  "sent_fields call =
     map (\<lambda>(n, v). (n, if n \<in> {''file'', ''message''} then UrlEncode v else v)) (call_fields call)"

lemma number_text:
  "StreamableToString (int_string i) = int_string i"
  "set (int_string i) \<inter> {CHR ''&'', CHR ''%'', CHR 0x0A} = {}"
proof -
  have digits: "c \<in> set (dec_string n) \<Longrightarrow> is_digit c" for c n
    using dec_string_digits [of n] by (simp add: list_all_iff)
  have "\<not> is_digit CHR 0x00 \<and> \<not> is_digit CHR ''&'' \<and> \<not> is_digit CHR ''%'' \<and> \<not> is_digit CHR 0x0A"
    by (simp add: is_digit_def)
  then have none: "CHR 0x00 \<notin> set (int_string i)" "set (int_string i) \<inter> {CHR ''&'', CHR ''%'', CHR 0x0A} = {}"
    using digits by (auto simp: int_string_def)
  then show "StreamableToString (int_string i) = int_string i"
    by (simp add: StreamableToString_def GetString_def stream_text_def new_Message_def StringStreamToString_id)
  show "set (int_string i) \<inter> {CHR ''&'', CHR ''%'', CHR 0x0A} = {}" by (rule none(2))
qed

lemma message_fields: "call_ok call \<Longrightarrow> stream_message call = field_line (sent_fields call)"
  by (cases call)
    (auto simp: sent_fields_def number_text elapsed_field_def file_name_def plain_def c_text_no_nul)

lemma sent_fields_ok: "call_ok call \<Longrightarrow> list_all field_ok (sent_fields call)"
  using number_text(2) UrlEncode_chars
  by (cases call) (auto simp: sent_fields_def field_ok_def elapsed_field_def FormatBool_def plain_def)

lemma sent_fields_decoded: "call_ok call \<Longrightarrow> map (\<lambda>(n, v). (n, url_decode v)) (sent_fields call) = call_fields call"
proof -
  have number: "url_decode (int_string i) = int_string i" "url_decode (int_string i @ ''ms'') = int_string i @ ''ms''" for i
    using number_text(2) [of i] by (auto intro: url_decode_plain)
  show "call_ok call \<Longrightarrow> map (\<lambda>(n, v). (n, url_decode v)) (sent_fields call) = call_fields call"
    by (cases call)
      (auto simp: sent_fields_def elapsed_field_def FormatBool_def plain_def url_decode_UrlEncode number url_decode_plain)
qed

lemma message_read:
  assumes "call_ok call"
  shows "read_line (stream_message call) = call_fields call \<and> CHR 0x0A \<notin> set (stream_message call)"
proof -
  have "sent_fields call \<noteq> []" by (cases call) (simp_all add: sent_fields_def)
  from read_field_line [OF this sent_fields_ok [OF assms]] show ?thesis
    by (simp add: message_fields [OF assms] sent_fields_decoded [OF assms])
qed

section \<open>The transcript\<close>

definition writes_all :: "network \<Rightarrow> bool" where
  "writes_all net \<longleftrightarrow> (\<forall>k message. write_result net k message = int (length message))"

lemma SendLn_wire:
  "writes_all net \<Longrightarrow> sockfd w \<noteq> -1 \<Longrightarrow>
     \<exists>w'. SendLn net message w = Some w' \<and> sockfd w' = sockfd w \<and> wire w' = wire w @ message @ [CHR 0x0A]"
  by (simp add: SendLn_def Send_def writes_all_def Let_def)

fun ends_program :: "listener_call \<Rightarrow> bool" where
  "ends_program (stream_OnTestProgramEnd u) \<longleftrightarrow> True"
| "ends_program call \<longleftrightarrow> False"

lemma stream_calls_wire:
  assumes "writes_all net"
  shows "sockfd w \<noteq> -1 \<Longrightarrow> list_all (\<lambda>c. \<not> ends_program c) calls \<Longrightarrow>
     \<exists>w'. stream_calls net calls w = Some w' \<and> sockfd w' = sockfd w \<and>
       wire w' = wire w @ concat (map (\<lambda>c. stream_message c @ [CHR 0x0A]) calls)"
proof (induction calls arbitrary: w)
  case (Cons c calls)
  obtain w1 where w1: "SendLn net (stream_message c) w = Some w1" "sockfd w1 = sockfd w"
    "wire w1 = wire w @ stream_message c @ [CHR 0x0A]"
    using SendLn_wire [OF assms Cons.prems(1)] by blast
  moreover have "stream_call net c w = Some w1"
    using w1(1) Cons.prems(2) by (cases c) (simp_all add: stream_call_def)
  ultimately show ?case using Cons.IH [of w1] Cons.prems by auto
qed simp

lemma split_lines:
  "list_all (\<lambda>l. CHR 0x0A \<notin> set l) ls \<Longrightarrow>
     SplitString (concat (map (\<lambda>l. l @ [CHR 0x0A]) ls)) CHR 0x0A = ls @ [[]]"
  by (induction ls) (simp_all add: SplitString_Cons SplitString_Cons(2) [of _ "[]"])

lemma connect_loop_connected: "fd \<noteq> -1 \<Longrightarrow> connect_loop as fd = fd"
  by (induction as) auto

lemma connect_loop_first:
  "connect_loop as (-1) = (case filter (\<lambda>(fd, ok). fd \<noteq> -1 \<and> ok) as of [] \<Rightarrow> -1 | a # _ \<Rightarrow> fst a)"
  by (induction as) (auto simp: connect_loop_connected)

text \<open>Where no address of the host can be connected, the constructor warns and then aborts the program.\<close>

lemma unreachable_host_aborts:
  "\<forall>(fd, ok) \<in> set (addresses net). fd = -1 \<or> \<not> ok \<Longrightarrow> new_StreamingListener net host port = None"
proof -
  assume "\<forall>(fd, ok) \<in> set (addresses net). fd = -1 \<or> \<not> ok"
  then have "filter (\<lambda>(fd, ok). fd \<noteq> -1 \<and> ok) (addresses net) = []" by (auto simp: filter_empty_conv)
  then have "connect_loop (addresses net) (-1) = -1" by (simp add: connect_loop_first)
  then show ?thesis
    by (simp add: new_StreamingListener_def new_SocketWriter_def MakeConnection_def SendLn_def Send_def Let_def)
qed

section \<open>Properties\<close>

text \<open>C37: What is streamed can be read back: when an address of the host accepts the connection and the
  socket takes every line, no call aborts, the connection is closed at the end, and the lines received
  are the protocol version and then, for each call of the listener in order, its event with exactly
  the fields it was called with; paths and failure messages may contain any characters, the names of
  tests and test cases are free of percent signs, ampersands and newlines, as the macros ensure.\<close>

theorem stream_reads_back:
  assumes "writes_all net" "\<exists>(fd, ok) \<in> set (addresses net). fd \<noteq> -1 \<and> ok"
    and "list_all call_ok calls" "list_all (\<lambda>c. \<not> ends_program c) calls"
  shows "\<exists>w w'. new_StreamingListener net host port = Some w \<and>
    stream_calls net (calls @ [stream_OnTestProgramEnd u]) w = Some w' \<and> sockfd w' = -1 \<and>
    map read_line (butlast (SplitString (wire w') CHR 0x0A)) =
      [(''gtest_streaming_protocol_version'', ''1.0'')] # map call_fields (calls @ [stream_OnTestProgramEnd u])"
proof -
  have "filter (\<lambda>(fd, ok). fd \<noteq> -1 \<and> ok) (addresses net) \<noteq> []" using assms(2) by (auto simp: filter_empty_conv)
  then obtain a as where f: "filter (\<lambda>(fd, ok). fd \<noteq> -1 \<and> ok) (addresses net) = a # as"
    by (cases "filter (\<lambda>(fd, ok). fd \<noteq> -1 \<and> ok) (addresses net)") auto
  have "a \<in> set (filter (\<lambda>(fd, ok). fd \<noteq> -1 \<and> ok) (addresses net))" unfolding f by simp
  then have "fst a \<noteq> -1" unfolding set_filter mem_Collect_eq by (simp add: case_prod_unfold)
  with f have fd: "connect_loop (addresses net) (-1) \<noteq> -1" by (simp add: connect_loop_first)
  obtain w0 where w0: "new_SocketWriter net host port = Some w0" "sockfd w0 \<noteq> -1" "wire w0 = []"
    using fd by (auto simp: new_SocketWriter_def MakeConnection_def Let_def)
  let ?v = "''gtest_streaming_protocol_version=1.0''"
  obtain w where w: "SendLn net ?v w0 = Some w" "sockfd w \<noteq> -1" "wire w = ?v @ [CHR 0x0A]"
    using SendLn_wire [OF assms(1) w0(2), of ?v] w0 by auto
  obtain w1 where w1: "stream_calls net calls w = Some w1" "sockfd w1 \<noteq> -1"
    "wire w1 = wire w @ concat (map (\<lambda>c. stream_message c @ [CHR 0x0A]) calls)"
    using stream_calls_wire [OF assms(1) w(2) assms(4)] w(2) by auto
  let ?e = "stream_OnTestProgramEnd u"
  obtain w2 where w2: "SendLn net (stream_message ?e) w1 = Some w2" "sockfd w2 \<noteq> -1"
    "wire w2 = wire w1 @ stream_message ?e @ [CHR 0x0A]"
    using SendLn_wire [OF assms(1) w1(2), of "stream_message ?e"] w1(2) by auto
  have "stream_calls net (calls @ cs) w = (case stream_calls net calls w of None \<Rightarrow> None | Some w \<Rightarrow> stream_calls net cs w)"
    for cs w by (induction calls arbitrary: w) (auto split: option.split)
  then have run: "stream_calls net (calls @ [?e]) w = Some (w2\<lparr> sockfd := -1 \<rparr>)"
    using w1(1) w2(1,2) by (simp add: stream_call_def socket_CloseConnection_def del: stream_message.simps)
  let ?calls = "calls @ [?e]"
  let ?ls = "?v # map stream_message ?calls"
  have ok: "list_all call_ok ?calls" using assms(3) by simp
  then have reads: "map read_line (map stream_message ?calls) = map call_fields ?calls"
    and lines: "list_all (\<lambda>l. CHR 0x0A \<notin> set l) ?ls"
    using message_read by (auto simp: list_all_iff simp del: stream_message.simps call_fields.simps)
  have "wire w2 = concat (map (\<lambda>l. l @ [CHR 0x0A]) ?ls)"
    by (simp add: w2(3) w1(3) w(3) comp_def)
  then have "butlast (SplitString (wire w2) CHR 0x0A) = ?ls" by (simp only: split_lines [OF lines] butlast_snoc)
  moreover have "read_line ?v = [(''gtest_streaming_protocol_version'', ''1.0'')]" by code_simp
  ultimately show ?thesis using w0(1) w(1) run reads by (simp add: new_StreamingListener_def)
qed

theorem stream_reads_back_witness:
  "\<exists>w w'. new_StreamingListener \<lparr> lookup_error = None, addresses = [(3, False), (4, True)],
        write_result = (\<lambda>k m. int (length m)) \<rparr> ''localhost'' ''555'' = Some w \<and>
    stream_calls \<lparr> lookup_error = None, addresses = [(3, False), (4, True)], write_result = (\<lambda>k m. int (length m)) \<rparr>
      ([stream_OnTestPartResult (new_TestPartResult kFatalFailure (Some ''a.cc'') 7 ''1 & 1 = 2'')] @
       [stream_OnTestProgramEnd new_UnitTestImpl]) w = Some w' \<and> sockfd w' = -1 \<and>
    map read_line (butlast (SplitString (wire w') CHR 0x0A)) =
      [(''gtest_streaming_protocol_version'', ''1.0'')] #
      map call_fields ([stream_OnTestPartResult (new_TestPartResult kFatalFailure (Some ''a.cc'') 7 ''1 & 1 = 2'')] @
        [stream_OnTestProgramEnd new_UnitTestImpl])"
  by (rule stream_reads_back) (simp_all add: writes_all_def new_TestPartResult_def)

end
