(* ===== verification/Gtest_Params.thy ===== *)
theory Gtest_Params
  imports Gtest_UnitTest
begin

text \<open>
  Generators of parameters (\<open>googletest-1.8.0/include/gtest/internal/gtest-param-util.h\<close>,
  \<open>gtest-param-util-generated.h\<close>, \<open>include/gtest/gtest-param-test.h\<close>). A generator is the record of
  the operations of \<open>ParamGeneratorInterface\<close> and \<open>ParamIteratorInterface\<close>; iterators are values, and
  \<open>Current\<close> returns the element with the iterator, whose cache it may fill. The locale
  \<open>param_sequence\<close> is the contract between a generator and its users: the iterators run over a list of
  values. Every generator of the library is an instance of it.
\<close>

section \<open>The interface\<close>

record ('i, 'a) generator =
  gen_Begin :: 'i
  gen_End :: 'i
  gen_Advance :: "'i \<Rightarrow> 'i"
  gen_Clone :: "'i \<Rightarrow> 'i"
  gen_Current :: "'i \<Rightarrow> ('a \<times> 'i) option"
  gen_Equals :: "'i \<Rightarrow> 'i \<Rightarrow> bool"

text \<open>\<open>ParamIterator\<close> owns a clone of what it was copied from.\<close>

definition iterator_copy :: "('i, 'a) generator \<Rightarrow> 'i \<Rightarrow> 'i" where
  "iterator_copy G it = gen_Clone G it"

definition iterator_deref :: "('i, 'a) generator \<Rightarrow> 'i \<Rightarrow> ('a \<times> 'i) option" where
  "iterator_deref G it = gen_Current G it"

definition iterator_increment :: "('i, 'a) generator \<Rightarrow> 'i \<Rightarrow> 'i" where
  "iterator_increment G it = gen_Advance G it"

text \<open>The value of the postfix increment, and the iterator.\<close>

definition iterator_post_increment :: "('i, 'a) generator \<Rightarrow> 'i \<Rightarrow> 'i \<times> 'i" where
  "iterator_post_increment G it = (gen_Clone G it, gen_Advance G it)"

definition iterator_equal :: "('i, 'a) generator \<Rightarrow> 'i \<Rightarrow> 'i \<Rightarrow> bool" where
  "iterator_equal G it other = gen_Equals G it other"

definition gen_begin :: "('i, 'a) generator \<Rightarrow> 'i" where
  "gen_begin G = gen_Begin G"

definition gen_end :: "('i, 'a) generator \<Rightarrow> 'i" where
  "gen_end G = gen_End G"

text \<open>\<open>placed it n\<close>: the iterator stands at element \<open>n\<close>, or behind the last one.\<close>

locale param_sequence =
  fixes G :: "('i, 'a) generator" and vals :: "'a list" and placed :: "'i \<Rightarrow> nat \<Rightarrow> bool"
  assumes begin_placed: "placed (gen_Begin G) 0"
    and end_placed: "placed (gen_End G) (length vals)"
    and advance_placed: "\<lbrakk>placed it n; n < length vals\<rbrakk> \<Longrightarrow> placed (gen_Advance G it) (Suc n)"
    and clone_placed: "placed it n \<Longrightarrow> placed (gen_Clone G it) n"
    and current_value: "\<lbrakk>placed it n; n < length vals\<rbrakk> \<Longrightarrow> \<exists>it'. gen_Current G it = Some (vals ! n, it') \<and> placed it' n"
    and equals_placed: "\<lbrakk>placed it n; placed other m; n \<le> length vals; m \<le> length vals\<rbrakk> \<Longrightarrow>
      gen_Equals G it other \<longleftrightarrow> n = m"

text \<open>The loop \<open>for (it = begin(); it != end(); ++it)\<close> with a body; it may not end.\<close>

partial_function (option) for_each ::
    "('i, 'a) generator \<Rightarrow> ('a \<Rightarrow> 's \<Rightarrow> 's) \<Rightarrow> 'i \<Rightarrow> 's \<Rightarrow> 's option" where
  "for_each G body it s =
     (if iterator_equal G it (gen_end G) then Some s
      else case iterator_deref G it of
        None \<Rightarrow> None
      | Some (v, it') \<Rightarrow> for_each G body (iterator_increment G it') (body v s))"

context param_sequence
begin

lemma at_end: "placed it n \<Longrightarrow> n \<le> length vals \<Longrightarrow> iterator_equal G it (gen_end G) \<longleftrightarrow> n = length vals"
  using equals_placed [OF _ end_placed] by (simp add: iterator_equal_def gen_end_def)

lemma deref: "placed it n \<Longrightarrow> n < length vals \<Longrightarrow>
    \<exists>it'. iterator_deref G it = Some (vals ! n, it') \<and> placed it' n"
  using current_value by (simp add: iterator_deref_def)

text \<open>A loop sees every value once, in order, and ends.\<close>

lemma for_each_from:
  "placed it n \<Longrightarrow> n \<le> length vals \<Longrightarrow> for_each G body it s = Some (fold body (drop n vals) s)"
proof (induction "length vals - n" arbitrary: it n s)
  case 0
  then show ?case by (subst for_each.simps) (simp add: at_end)
next
  case (Suc k)
  then have n: "n < length vals" by simp
  obtain it' where it': "iterator_deref G it = Some (vals ! n, it')" "placed it' n" using deref [OF Suc.prems(1) n] by blast
  have "placed (iterator_increment G it') (Suc n)"
    using advance_placed [OF it'(2) n] by (simp add: iterator_increment_def)
  from Suc.hyps(1) [OF _ this, of "body (vals ! n) s"] Suc.hyps(2) n
  have "for_each G body (iterator_increment G it') (body (vals ! n) s) = Some (fold body (drop (Suc n) vals) (body (vals ! n) s))"
    by simp
  with it' n Suc.prems show ?case
    by (subst for_each.simps) (simp add: at_end Cons_nth_drop_Suc [symmetric])
qed

lemma for_each_values: "for_each G body (gen_begin G) s = Some (fold body vals s)"
  using for_each_from [OF begin_placed, of body s] by (simp add: gen_begin_def)

end

section \<open>\<open>Range\<close>\<close>

text \<open>\<open>CalculateEndIndex\<close>: the loop may not end. The type of the values is known by its comparison and addition.\<close>

partial_function (option) calculate_end_index ::
    "('a \<Rightarrow> 'a \<Rightarrow> bool) \<Rightarrow> ('a \<Rightarrow> 's \<Rightarrow> 'a) \<Rightarrow> 's \<Rightarrow> 'a \<Rightarrow> 'a \<Rightarrow> nat \<Rightarrow> nat option" where
  "calculate_end_index lt add step i end_value end_index =
     (if lt i end_value then calculate_end_index lt add step (add i step) end_value (end_index + 1) else Some end_index)"

definition CalculateEndIndex ::
    "('a \<Rightarrow> 'a \<Rightarrow> bool) \<Rightarrow> ('a \<Rightarrow> 's \<Rightarrow> 'a) \<Rightarrow> 'a \<Rightarrow> 'a \<Rightarrow> 's \<Rightarrow> nat option" where
  "CalculateEndIndex lt add begin_value end_value step = calculate_end_index lt add step begin_value end_value 0"

definition range_generator :: "('a \<Rightarrow> 's \<Rightarrow> 'a) \<Rightarrow> 'a \<Rightarrow> 'a \<Rightarrow> 's \<Rightarrow> nat \<Rightarrow> ('a \<times> nat, 'a) generator" where
  "range_generator add begin_value end_value step end_index =
     \<lparr> gen_Begin = (begin_value, 0),
       gen_End = (end_value, end_index),
       gen_Advance = (\<lambda>(v, index). (add v step, index + 1)),
       gen_Clone = (\<lambda>it. it),
       gen_Current = (\<lambda>it. Some (fst it, it)),
       gen_Equals = (\<lambda>it other. snd it = snd other) \<rparr>"

definition RangeGenerator ::
    "('a \<Rightarrow> 'a \<Rightarrow> bool) \<Rightarrow> ('a \<Rightarrow> 's \<Rightarrow> 'a) \<Rightarrow> 'a \<Rightarrow> 'a \<Rightarrow> 's \<Rightarrow> ('a \<times> nat, 'a) generator option" where
  "RangeGenerator lt add begin_value end_value step =
     map_option (range_generator add begin_value end_value step) (CalculateEndIndex lt add begin_value end_value step)"

definition iterate :: "('a \<Rightarrow> 's \<Rightarrow> 'a) \<Rightarrow> 's \<Rightarrow> 'a \<Rightarrow> nat \<Rightarrow> 'a" where
  "iterate add step v k = ((\<lambda>x. add x step) ^^ k) v"

lemma iterate_Suc: "iterate add step v (Suc k) = add (iterate add step v k) step"
  "iterate add step v (Suc k) = iterate add step (add v step) k"
  using funpow_swap1 [of "\<lambda>x. add x step" k v] by (simp_all add: iterate_def)

lemma calculate_end_index_ends:
  "\<lbrakk>\<forall>k < n. lt (iterate add step i k) e; \<not> lt (iterate add step i n) e\<rbrakk> \<Longrightarrow>
     calculate_end_index lt add step i e m = Some (m + n)"
proof (induction n arbitrary: i m)
  case 0
  then show ?case by (subst calculate_end_index.simps) (simp add: iterate_def)
next
  case (Suc n)
  have "lt i e" using Suc.prems(1) by (force simp: iterate_def)
  moreover have "\<forall>k < n. lt (iterate add step (add i step) k) e"
    using Suc.prems(1) by (auto simp: iterate_Suc(2) [symmetric])
  moreover have "\<not> lt (iterate add step (add i step) n) e" using Suc.prems(2) by (simp add: iterate_Suc(2))
  ultimately show ?case using Suc.IH [of "add i step" "m + 1"] by (subst calculate_end_index.simps) simp
qed

text \<open>Without a step that leads out of the range, the constructor does not return.\<close>

lemma calculate_end_index_runs:
  assumes "calculate_end_index lt add step i e m = Some r"
  shows "\<exists>n. \<not> lt (iterate add step i n) e"
proof (rule calculate_end_index.raw_induct [OF _ assms])
  fix self :: "('a \<Rightarrow> 'a \<Rightarrow> bool) \<Rightarrow> ('a \<Rightarrow> 's \<Rightarrow> 'a) \<Rightarrow> 's \<Rightarrow> 'a \<Rightarrow> 'a \<Rightarrow> nat \<Rightarrow> nat option"
    and lt add step i e m r
  assume IH: "\<And>lt add step i e m r. self lt add step i e m = Some r \<Longrightarrow> \<exists>n. \<not> lt (iterate add step i n) e"
    and step: "(if lt i e then self lt add step (add i step) e (m + 1) else Some m) = Some r"
  show "\<exists>n. \<not> lt (iterate add step i n) e"
  proof (cases "lt i e")
    case True
    with step IH obtain n where "\<not> lt (iterate add step (add i step) n) e" by fastforce
    then show ?thesis by (metis iterate_Suc(2))
  qed (metis funpow_0 iterate_def)
qed

interpretation range: param_sequence "range_generator add begin_value end_value step n"
  "map (iterate add step begin_value) [0..<n]"
  "\<lambda>it k. snd it = k \<and> (k < n \<longrightarrow> fst it = iterate add step begin_value k)"
  by unfold_locales (auto simp: range_generator_def iterate_Suc iterate_def split: prod.splits)

section \<open>\<open>ValuesIn\<close>\<close>

text \<open>The iterator is a position in the container and the cached value.\<close>

definition values_current :: "'a list \<Rightarrow> nat \<times> 'a option \<Rightarrow> ('a \<times> (nat \<times> 'a option)) option" where
  "values_current container it =
     (case snd it of
        Some v \<Rightarrow> Some (v, it)
      | None \<Rightarrow>
          if fst it < length container
          then Some (container ! fst it, fst it, Some (container ! fst it)) else None)"

definition ValuesInIteratorRangeGenerator :: "'a list \<Rightarrow> (nat \<times> 'a option, 'a) generator" where
  "ValuesInIteratorRangeGenerator container =
     \<lparr> gen_Begin = (0, None),
       gen_End = (length container, None),
       gen_Advance = (\<lambda>it. (fst it + 1, None)),
       gen_Clone = (\<lambda>it. (fst it, None)),
       gen_Current = values_current container,
       gen_Equals = (\<lambda>it other. fst it = fst other) \<rparr>"

interpretation in_values: param_sequence "ValuesInIteratorRangeGenerator container" container
  "\<lambda>it k. fst it = k \<and> (\<forall>v. snd it = Some v \<longrightarrow> k < length container \<and> v = container ! k)"
  by unfold_locales (auto simp: ValuesInIteratorRangeGenerator_def values_current_def split: option.splits)

definition ValuesIn :: "'a list \<Rightarrow> (nat \<times> 'a option, 'a) generator" where
  "ValuesIn container = ValuesInIteratorRangeGenerator container"

text \<open>\<open>Values\<close>: the class \<open>ValueArray\<close> of each arity converts its members and calls \<open>ValuesIn\<close>.\<close>

definition ValueArray :: "('b \<Rightarrow> 'a) \<Rightarrow> 'b list \<Rightarrow> (nat \<times> 'a option, 'a) generator" where
  "ValueArray cast members = ValuesIn (map cast members)"

definition Bool :: "(nat \<times> bool option, bool) generator" where
  "Bool = ValueArray (\<lambda>b. b) [False, True]"

section \<open>\<open>Combine\<close>\<close>

text \<open>
  The generated classes \<open>CartesianProductGenerator2\<close> to \<open>CartesianProductGenerator10\<close>, for any number
  of components, whose types are not told apart. An iterator is the list of the component iterators
  \<open>current1_, ..., currentN_\<close> with \<open>current_value_\<close>.
\<close>

fun AtEnd :: "('i, 'a) generator list \<Rightarrow> 'i list \<Rightarrow> bool" where
  "AtEnd (G # Gs) (c # cs) \<longleftrightarrow> iterator_equal G c (gen_end G) \<or> AtEnd Gs cs"
| "AtEnd _ _ \<longleftrightarrow> False"

fun deref_all :: "('i, 'a) generator list \<Rightarrow> 'i list \<Rightarrow> ('a list \<times> 'i list) option" where
  "deref_all (G # Gs) (c # cs) =
     (case iterator_deref G c of
        None \<Rightarrow> None
      | Some (v, c') \<Rightarrow>
          (case deref_all Gs cs of None \<Rightarrow> None | Some (vs, cs') \<Rightarrow> Some (v # vs, c' # cs')))"
| "deref_all _ _ = Some ([], [])"

definition ComputeCurrentValue ::
    "('i, 'a) generator list \<Rightarrow> 'i list \<times> 'a list option \<Rightarrow> 'i list \<times> 'a list option" where
  "ComputeCurrentValue Gs it =
     (if AtEnd Gs (fst it) then it
      else case deref_all Gs (fst it) of None \<Rightarrow> (fst it, None) | Some (vs, cs) \<Rightarrow> (cs, Some vs))"

text \<open>The last component advances first; a component at its end starts again and advances the one before it.\<close>

fun advance_components :: "('i, 'a) generator list \<Rightarrow> 'i list \<Rightarrow> 'i list" where
  "advance_components (G # H # Gs) (c # d # cs) =
     (case advance_components (H # Gs) (d # cs) of
        [] \<Rightarrow> []
      | d' # cs' \<Rightarrow>
          if iterator_equal H d' (gen_end H)
          then iterator_increment G c # iterator_copy H (gen_begin H) # cs'
          else c # d' # cs')"
| "advance_components (G # Gs) (c # cs) = iterator_increment G c # cs"
| "advance_components _ _ = []"

definition product_Advance ::
    "('i, 'a) generator list \<Rightarrow> 'i list \<times> 'a list option \<Rightarrow> 'i list \<times> 'a list option" where
  "product_Advance Gs it = ComputeCurrentValue Gs (advance_components Gs (fst it), snd it)"

fun components_equal :: "('i, 'a) generator list \<Rightarrow> 'i list \<Rightarrow> 'i list \<Rightarrow> bool" where
  "components_equal (G # Gs) (c # cs) (d # ds) \<longleftrightarrow> iterator_equal G c d \<and> components_equal Gs cs ds"
| "components_equal _ _ _ \<longleftrightarrow> True"

definition product_Equals ::
    "('i, 'a) generator list \<Rightarrow> 'i list \<times> 'a list option \<Rightarrow> 'i list \<times> 'a list option \<Rightarrow> bool" where
  "product_Equals Gs it other \<longleftrightarrow>
     AtEnd Gs (fst it) \<and> AtEnd Gs (fst other) \<or> components_equal Gs (fst it) (fst other)"

definition CartesianProductGenerator ::
    "('i, 'a) generator list \<Rightarrow> ('i list \<times> 'a list option, 'a list) generator" where
  "CartesianProductGenerator Gs =
     \<lparr> gen_Begin = ComputeCurrentValue Gs (map (\<lambda>G. iterator_copy G (gen_begin G)) Gs, None),
       gen_End = ComputeCurrentValue Gs (map (\<lambda>G. iterator_copy G (gen_end G)) Gs, None),
       gen_Advance = product_Advance Gs,
       gen_Clone = (\<lambda>it. ComputeCurrentValue Gs (map2 iterator_copy Gs (fst it), None)),
       gen_Current = (\<lambda>it. map_option (\<lambda>v. (v, it)) (snd it)),
       gen_Equals = product_Equals Gs \<rparr>"

subsection \<open>The tuples in lexicographic order\<close>

text \<open>Where the components stand when the iterator is at the tuple \<open>n\<close>, and one of them at its end.\<close>

primrec digits :: "'a list list \<Rightarrow> nat \<Rightarrow> nat list" where
  "digits [] n = []"
| "digits (vs # valss) n =
     (n div length (product_lists valss)) # digits valss (n mod length (product_lists valss))"

fun some_end :: "'a list list \<Rightarrow> nat list \<Rightarrow> bool" where
  "some_end (vs # valss) (k # ks) \<longleftrightarrow> k = length vs \<or> some_end valss ks"
| "some_end _ _ \<longleftrightarrow> False"

fun within :: "'a list list \<Rightarrow> nat list \<Rightarrow> bool" where
  "within (vs # valss) (k # ks) \<longleftrightarrow> k \<le> length vs \<and> within valss ks"
| "within [] [] \<longleftrightarrow> True"
| "within _ _ \<longleftrightarrow> False"

fun stand :: "('i \<Rightarrow> nat \<Rightarrow> bool) list \<Rightarrow> 'i list \<Rightarrow> nat list \<Rightarrow> bool" where
  "stand (P # Ps) (c # cs) (k # ks) \<longleftrightarrow> P c k \<and> stand Ps cs ks"
| "stand [] [] [] \<longleftrightarrow> True"
| "stand _ _ _ \<longleftrightarrow> False"

fun sequences :: "('i, 'a) generator list \<Rightarrow> 'a list list \<Rightarrow> ('i \<Rightarrow> nat \<Rightarrow> bool) list \<Rightarrow> bool" where
  "sequences (G # Gs) (vs # valss) (P # Ps) \<longleftrightarrow> param_sequence G vs P \<and> sequences Gs valss Ps"
| "sequences [] [] [] \<longleftrightarrow> True"
| "sequences _ _ _ \<longleftrightarrow> False"

lemma length_product: "length (product_lists (vs # valss)) = length vs * length (product_lists valss)"
  by (induction vs) simp_all

lemma concat_blocks:
  "n < length xs * L \<Longrightarrow> (\<forall>x \<in> set xs. length (f x) = L) \<Longrightarrow>
     concat (map f xs) ! n = f (xs ! (n div L)) ! (n mod L)"
proof (induction xs arbitrary: n)
  case (Cons x xs)
  then have L: "L > 0" by (cases L) simp_all
  show ?case
  proof (cases "n < L")
    case False
    then have "concat (map f xs) ! (n - L) = f (xs ! ((n - L) div L)) ! ((n - L) mod L)"
      using Cons.prems by (intro Cons.IH) (auto simp: less_diff_conv2 algebra_simps)
    moreover have "n div L = Suc ((n - L) div L)" "n mod L = (n - L) mod L"
      using False L by (simp_all add: le_div_geq le_mod_geq)
    ultimately show ?thesis using False Cons.prems by (simp add: nth_append)
  qed (use Cons.prems in \<open>simp add: nth_append\<close>)
qed simp

lemma product_nth:
  "n < length (product_lists valss) \<Longrightarrow>
     product_lists valss ! n = map2 (!) valss (digits valss n) \<and>
     within valss (digits valss n) \<and> \<not> some_end valss (digits valss n)"
proof (induction valss arbitrary: n)
  case (Cons vs valss)
  let ?L = "length (product_lists valss)"
  have n: "n < length vs * ?L" using Cons.prems unfolding length_product .
  then have L: "?L > 0" by (cases ?L) simp_all
  then have d: "n div ?L < length vs" and m: "n mod ?L < ?L"
    using n by (simp_all add: less_mult_imp_div_less)
  have "product_lists (vs # valss) ! n = vs ! (n div ?L) # product_lists valss ! (n mod ?L)"
    using concat_blocks [OF n, of "\<lambda>x. map ((#) x) (product_lists valss)"] m by simp
  with Cons.IH [OF m] d show ?case by simp
qed simp

lemma digits_inj:
  "n < length (product_lists valss) \<Longrightarrow> m < length (product_lists valss) \<Longrightarrow>
     digits valss n = digits valss m \<Longrightarrow> n = m"
proof (induction valss arbitrary: n m)
  case (Cons vs valss)
  let ?L = "length (product_lists valss)"
  have "?L > 0" using Cons.prems(1) unfolding length_product by (cases ?L) simp_all
  then have "n mod ?L = m mod ?L" using Cons.prems(3) by (intro Cons.IH) simp_all
  moreover have "n div ?L = m div ?L" using Cons.prems(3) by simp
  ultimately show ?case by (metis div_mult_mod_eq)
qed simp

lemma product_empty: "length (product_lists valss) = 0 \<longleftrightarrow> [] \<in> set valss"
proof (induction valss)
  case (Cons vs valss)
  then show ?case unfolding length_product by auto
qed simp

lemma product_inhabited: "n < length (product_lists valss) \<Longrightarrow> [] \<notin> set valss"
  by (metis less_nat_zero_code product_empty)

lemma within_digits:
  "\<lbrakk>[] \<notin> set valss; n \<le> length (product_lists valss)\<rbrakk> \<Longrightarrow> within valss (digits valss n)"
proof (induction valss arbitrary: n)
  case (Cons vs valss)
  let ?L = "length (product_lists valss)"
  have L: "?L > 0" using Cons.prems(1) product_empty [of valss] by simp
  have "n div ?L \<le> length vs"
    using Cons.prems(2) L unfolding length_product
    by (metis div_le_mono nonzero_mult_div_cancel_right less_not_refl2)
  moreover have "within valss (digits valss (n mod ?L))"
    using Cons L by (intro Cons.IH) (simp_all add: less_imp_le)
  ultimately show ?case by simp
qed simp

lemma digits_end: "\<lbrakk>valss \<noteq> []; [] \<notin> set valss\<rbrakk> \<Longrightarrow> some_end valss (digits valss (length (product_lists valss)))"
proof (cases valss)
  case (Cons vs valss')
  assume "[] \<notin> set valss"
  then have "length (product_lists valss') > 0" using product_empty [of valss'] Cons by simp
  then show ?thesis unfolding Cons length_product by (simp only: digits.simps some_end.simps) simp
qed simp

lemma zeros:
  "within valss (map (\<lambda>_. 0) valss)"
  "[] \<in> set valss \<Longrightarrow> some_end valss (map (\<lambda>_. 0) valss)"
  "digits valss 0 = map (\<lambda>_. 0) valss"
  by (induction valss) auto

lemma ends: "within valss (map length valss)" "valss \<noteq> [] \<Longrightarrow> some_end valss (map length valss)"
  by (induction valss) auto

subsection \<open>The components over their values\<close>

lemma at_end_stand:
  "\<lbrakk>sequences Gs valss Ps; stand Ps cs ks; within valss ks\<rbrakk> \<Longrightarrow> AtEnd Gs cs \<longleftrightarrow> some_end valss ks"
proof (induction Gs valss Ps arbitrary: cs ks rule: sequences.induct)
  case (1 G Gs vs valss P Ps)
  then show ?case
    by (cases cs; cases ks) (auto dest: param_sequence.at_end)
qed (auto elim: stand.elims)

lemma deref_stand:
  "\<lbrakk>sequences Gs valss Ps; stand Ps cs ks; within valss ks; \<not> some_end valss ks\<rbrakk> \<Longrightarrow>
     \<exists>cs'. deref_all Gs cs = Some (map2 (!) valss ks, cs') \<and> stand Ps cs' ks"
proof (induction Gs valss Ps arbitrary: cs ks rule: sequences.induct)
  case (1 G Gs vs valss P Ps)
  then obtain c cs' k ks' where c: "cs = c # cs'" "ks = k # ks'" "P c k" "stand Ps cs' ks'"
    by (cases cs; cases ks) auto
  then have "k < length vs" using "1.prems"(3,4) by simp
  then obtain c' where "iterator_deref G c = Some (vs ! k, c')" "P c' k"
    using param_sequence.deref [of G vs P c k] "1.prems"(1) c(3) by auto
  moreover obtain ds where "deref_all Gs cs' = Some (map2 (!) valss ks', ds)" "stand Ps ds ks'"
    using "1.IH" [OF _ c(4)] "1.prems" c(2) by auto
  ultimately show ?case by (simp add: c)
qed (auto elim: stand.elims)

lemma equal_stand:
  "\<lbrakk>sequences Gs valss Ps; stand Ps cs ks; stand Ps ds ls; within valss ks; within valss ls\<rbrakk> \<Longrightarrow>
     components_equal Gs cs ds \<longleftrightarrow> ks = ls"
proof (induction Gs valss Ps arbitrary: cs ks ds ls rule: sequences.induct)
  case (1 G Gs vs valss P Ps)
  then obtain c cs' k ks' where c: "cs = c # cs'" "ks = k # ks'" by (cases cs; cases ks) auto
  from 1 obtain d ds' l ls' where d: "ds = d # ds'" "ls = l # ls'" by (cases ds; cases ls) auto
  have "gen_Equals G c d \<longleftrightarrow> k = l"
    using param_sequence.equals_placed [of G vs P c k d l] "1.prems" c d by simp
  moreover have "components_equal Gs cs' ds' \<longleftrightarrow> ks' = ls'"
    using "1.IH" [of cs' ks' ds' ls'] "1.prems" c d by simp
  ultimately show ?case by (simp add: c d iterator_equal_def)
qed (auto elim: stand.elims)

lemma begin_stand: "sequences Gs valss Ps \<Longrightarrow>
    stand Ps (map (\<lambda>G. iterator_copy G (gen_begin G)) Gs) (map (\<lambda>_. 0) valss)"
  by (induction Gs valss Ps rule: sequences.induct)
    (auto simp: iterator_copy_def gen_begin_def param_sequence.clone_placed param_sequence.begin_placed)

lemma end_stand: "sequences Gs valss Ps \<Longrightarrow>
    stand Ps (map (\<lambda>G. iterator_copy G (gen_end G)) Gs) (map length valss)"
  by (induction Gs valss Ps rule: sequences.induct)
    (auto simp: iterator_copy_def gen_end_def param_sequence.clone_placed param_sequence.end_placed)

lemma copy_stand:
  "\<lbrakk>sequences Gs valss Ps; stand Ps cs ks\<rbrakk> \<Longrightarrow> stand Ps (map2 iterator_copy Gs cs) ks"
proof (induction Gs valss Ps arbitrary: cs ks rule: sequences.induct)
  case (1 G Gs vs valss P Ps)
  then show ?case
    by (cases cs; cases ks) (auto simp: iterator_copy_def param_sequence.clone_placed)
qed (auto elim: stand.elims)

lemma advance_stand:
  "\<lbrakk>sequences Gs valss Ps; Gs \<noteq> []; n < length (product_lists valss); stand Ps cs (digits valss n)\<rbrakk> \<Longrightarrow>
     stand Ps (advance_components Gs cs) (digits valss (Suc n))"
proof (induction Gs arbitrary: valss Ps n cs)
  case (Cons G Gs)
  from Cons.prems(1) obtain vs valss' P Ps' where v: "valss = vs # valss'" "Ps = P # Ps'"
    and G: "param_sequence G vs P" and Gs: "sequences Gs valss' Ps'"
    by (cases valss; cases Ps) auto
  let ?L = "length (product_lists valss')"
  have n: "n < length vs * ?L" using Cons.prems(3) unfolding v length_product .
  then have L: "?L > 0" by (cases ?L) simp_all
  have q: "n div ?L < length vs" and r: "n mod ?L < ?L" using n L by (simp_all add: less_mult_imp_div_less)
  from Cons.prems(4) v obtain c cs' where c: "cs = c # cs'" "P c (n div ?L)" "stand Ps' cs' (digits valss' (n mod ?L))"
    by (cases cs) auto
  have up: "P (iterator_increment G c) (Suc (n div ?L))"
    using param_sequence.advance_placed [OF G c(2) q] by (simp add: iterator_increment_def)
  show ?case
  proof (cases Gs)
    case Nil
    then have "valss' = []" "Ps' = []" using Gs by (cases valss'; cases Ps'; simp)+
    then show ?thesis using up c v Nil by (cases cs') simp_all
  next
    case (Cons H Hs)
    let ?t = "advance_components Gs cs'"
    have t: "stand Ps' ?t (digits valss' (Suc (n mod ?L)))"
      using Cons.IH [OF Gs _ r c(3)] Cons by simp
    from Gs Cons obtain ws wss Q Qs where w: "valss' = ws # wss" "Ps' = Q # Qs" and H: "param_sequence H ws Q"
      by (cases valss'; cases Ps') auto
    from c(3) w obtain d ds where d: "cs' = d # ds" by (cases cs') auto
    let ?M = "length (product_lists wss)"
    have LM: "?L = length ws * ?M" unfolding w length_product ..
    then have M: "?M > 0" using L by (cases ?M) simp_all
    from t w obtain d' ds' where t': "?t = d' # ds'" "Q d' (Suc (n mod ?L) div ?M)"
        "stand Qs ds' (digits wss (Suc (n mod ?L) mod ?M))"
      by (cases ?t) auto
    have le: "Suc (n mod ?L) div ?M \<le> length ws"
      using r M unfolding LM by (metis Suc_leI div_le_mono nonzero_mult_div_cancel_right less_not_refl2)
    have adv: "advance_components (G # Gs) (c # cs') =
        (if iterator_equal H d' (gen_end H)
         then iterator_increment G c # iterator_copy H (gen_begin H) # ds' else c # d' # ds')"
      using t'(1) by (simp add: Cons d)
    have end_iff: "iterator_equal H d' (gen_end H) \<longleftrightarrow> Suc (n mod ?L) = ?L"
    proof -
      have "Suc (n mod ?L) div ?M = length ws \<longleftrightarrow> Suc (n mod ?L) = ?L"
        using r M unfolding LM
        by (metis Suc_leI le_antisym div_times_less_eq_dividend nonzero_mult_div_cancel_right not_less_zero gr_implies_not0)
      then show ?thesis using param_sequence.at_end [OF H t'(2) le] by simp
    qed
    show ?thesis
    proof (cases "Suc (n mod ?L) = ?L")
      case True
      then have s: "Suc n div ?L = Suc (n div ?L)" "Suc n mod ?L = 0"
        by (simp_all add: div_Suc mod_Suc)
      have "Suc (n mod ?L) mod ?M = 0" using True LM by (metis mod_mult_self2_is_0)
      moreover have "Q (iterator_copy H (gen_begin H)) 0"
        by (simp add: iterator_copy_def gen_begin_def param_sequence.clone_placed [OF H]
            param_sequence.begin_placed [OF H])
      ultimately show ?thesis
        using True end_iff t' up s by (simp add: v c(1) adv w del: product_lists.simps)
    next
      case False
      then have s: "Suc n div ?L = n div ?L" "Suc n mod ?L = Suc (n mod ?L)"
        by (simp_all add: div_Suc mod_Suc)
      then show ?thesis
        using False end_iff t' c(2) by (simp add: v c(1) adv w del: product_lists.simps)
    qed
  qed
qed simp

subsection \<open>The contract\<close>

definition product_placed ::
    "'a list list \<Rightarrow> ('i \<Rightarrow> nat \<Rightarrow> bool) list \<Rightarrow> 'i list \<times> 'a list option \<Rightarrow> nat \<Rightarrow> bool" where
  "product_placed valss Ps it n \<longleftrightarrow>
     (\<exists>ks. stand Ps (fst it) ks \<and> within valss ks \<and>
        (if n < length (product_lists valss)
         then ks = digits valss n \<and> snd it = Some (product_lists valss ! n)
         else n = length (product_lists valss) \<and> some_end valss ks))"

lemma compute_placed:
  assumes s: "sequences Gs valss Ps" and st: "stand Ps (fst it) ks" and w: "within valss ks"
    and at: "if n < length (product_lists valss) then ks = digits valss n
      else n = length (product_lists valss) \<and> some_end valss ks"
  shows "product_placed valss Ps (ComputeCurrentValue Gs it) n"
proof (cases "n < length (product_lists valss)")
  case True
  then have ks: "ks = digits valss n" "\<not> some_end valss ks"
    using at product_nth [OF True] by simp_all
  obtain cs where "deref_all Gs (fst it) = Some (map2 (!) valss ks, cs)" "stand Ps cs ks"
    using deref_stand [OF s st w ks(2)] by blast
  then show ?thesis
    using True ks w product_nth [OF True] at_end_stand [OF s st w]
    by (simp add: product_placed_def ComputeCurrentValue_def)
next
  case False
  then show ?thesis
    using at st w at_end_stand [OF s st w] by (auto simp: product_placed_def ComputeCurrentValue_def)
qed

lemma placed_bound: "product_placed valss Ps it n \<Longrightarrow> n \<le> length (product_lists valss)"
  unfolding product_placed_def by (metis linorder_not_le nat_le_linear)

lemma placed_end:
  assumes "sequences Gs valss Ps" "product_placed valss Ps it n"
  shows "AtEnd Gs (fst it) \<longleftrightarrow> n = length (product_lists valss)"
  using assms at_end_stand [OF assms(1)] product_nth [of n valss]
  unfolding product_placed_def by (auto split: if_splits)

locale combined_sequences =
  fixes Gs :: "('i, 'a) generator list" and valss :: "'a list list" and Ps :: "('i \<Rightarrow> nat \<Rightarrow> bool) list"
  assumes components: "sequences Gs valss Ps" and some_component: "Gs \<noteq> []"
begin

lemma some_values: "valss \<noteq> []"
  using components some_component by (cases Gs; cases valss) auto

lemma product_begin: "product_placed valss Ps (gen_Begin (CartesianProductGenerator Gs)) 0"
  unfolding CartesianProductGenerator_def generator.simps
proof (rule compute_placed [OF components])
  show "stand Ps (fst (map (\<lambda>G. iterator_copy G (gen_begin G)) Gs, None)) (map (\<lambda>_. 0) valss)"
    using begin_stand [OF components] by simp
  show "if 0 < length (product_lists valss) then map (\<lambda>_. 0) valss = digits valss 0
      else 0 = length (product_lists valss) \<and> some_end valss (map (\<lambda>_. 0) valss)"
    using zeros [of valss] product_empty [of valss] by auto
qed (rule zeros(1))

lemma product_end: "product_placed valss Ps (gen_End (CartesianProductGenerator Gs)) (length (product_lists valss))"
  unfolding CartesianProductGenerator_def generator.simps
  by (rule compute_placed [OF components, where ks = "map length valss"])
    (simp_all add: end_stand [OF components] ends some_values)

lemma product_clone:
  "product_placed valss Ps it n \<Longrightarrow> product_placed valss Ps (gen_Clone (CartesianProductGenerator Gs) it) n"
  unfolding CartesianProductGenerator_def generator.simps
proof -
  assume p: "product_placed valss Ps it n"
  then obtain ks where ks: "stand Ps (fst it) ks" "within valss ks"
      "if n < length (product_lists valss) then ks = digits valss n
       else n = length (product_lists valss) \<and> some_end valss ks"
    unfolding product_placed_def by (auto split: if_splits)
  show "product_placed valss Ps (ComputeCurrentValue Gs (map2 iterator_copy Gs (fst it), None)) n"
    by (rule compute_placed [OF components _ ks(2,3)]) (simp add: copy_stand [OF components ks(1)])
qed

lemma product_advance:
  assumes "product_placed valss Ps it n" "n < length (product_lists valss)"
  shows "product_placed valss Ps (gen_Advance (CartesianProductGenerator Gs) it) (Suc n)"
  unfolding CartesianProductGenerator_def generator.simps product_Advance_def
proof (rule compute_placed [OF components])
  have "stand Ps (fst it) (digits valss n)" using assms unfolding product_placed_def by auto
  then show "stand Ps (fst (advance_components Gs (fst it), snd it)) (digits valss (Suc n))"
    using advance_stand [OF components some_component assms(2)] by simp
  show "within valss (digits valss (Suc n))"
    using assms(2) by (intro within_digits product_inhabited) auto
  show "if Suc n < length (product_lists valss) then digits valss (Suc n) = digits valss (Suc n)
      else Suc n = length (product_lists valss) \<and> some_end valss (digits valss (Suc n))"
    using digits_end [OF some_values product_inhabited [OF assms(2)]] assms(2)
    by (metis Suc_leI le_antisym linorder_not_less)
qed

lemma product_current:
  "\<lbrakk>product_placed valss Ps it n; n < length (product_lists valss)\<rbrakk> \<Longrightarrow>
     gen_Current (CartesianProductGenerator Gs) it = Some (product_lists valss ! n, it)"
  by (auto simp: CartesianProductGenerator_def product_placed_def)

lemma product_equal:
  assumes "product_placed valss Ps it n" "product_placed valss Ps other m"
  shows "gen_Equals (CartesianProductGenerator Gs) it other \<longleftrightarrow> n = m"
proof -
  let ?N = "length (product_lists valss)"
  obtain ks where ks: "stand Ps (fst it) ks" "within valss ks" "some_end valss ks \<longleftrightarrow> n = ?N"
      "n < ?N \<longrightarrow> ks = digits valss n"
    using assms(1) product_nth [of n valss] unfolding product_placed_def by (auto split: if_splits)
  obtain ls where ls: "stand Ps (fst other) ls" "within valss ls" "some_end valss ls \<longleftrightarrow> m = ?N"
      "m < ?N \<longrightarrow> ls = digits valss m"
    using assms(2) product_nth [of m valss] unfolding product_placed_def by (auto split: if_splits)
  have "gen_Equals (CartesianProductGenerator Gs) it other \<longleftrightarrow> n = ?N \<and> m = ?N \<or> ks = ls"
    using placed_end [OF components assms(1)] placed_end [OF components assms(2)]
      equal_stand [OF components ks(1) ls(1) ks(2) ls(2)]
    by (simp add: CartesianProductGenerator_def product_Equals_def)
  also have "\<dots> \<longleftrightarrow> n = m"
    using ks(3,4) ls(3,4) digits_inj [of n valss m] placed_bound [OF assms(1)] placed_bound [OF assms(2)]
    by (metis le_neq_implies_less)
  finally show ?thesis .
qed

end

sublocale combined_sequences \<subseteq> product: param_sequence "CartesianProductGenerator Gs" "product_lists valss"
  "product_placed valss Ps"
  by unfold_locales (auto intro: product_begin product_end product_advance product_clone
      simp: product_current product_equal)

text \<open>The tuples of \<open>Combine(ValuesIn(v\<^sub>1), ...)\<close>.\<close>

definition in_container :: "'a list \<Rightarrow> nat \<times> 'a option \<Rightarrow> nat \<Rightarrow> bool" where
  "in_container container it k \<longleftrightarrow>
     fst it = k \<and> (\<forall>v. snd it = Some v \<longrightarrow> k < length container \<and> v = container ! k)"

lemma containers: "sequences (map ValuesIn vss) vss (map in_container vss)"
proof (induction vss)
  case (Cons vs vss)
  have "in_container vs = (\<lambda>it k. fst it = k \<and> (\<forall>v. snd it = Some v \<longrightarrow> k < length vs \<and> v = vs ! k))"
    by (simp add: in_container_def fun_eq_iff)
  then show ?case using Cons in_values.param_sequence_axioms [of vs] by (simp add: ValuesIn_def)
qed simp

interpretation combine: combined_sequences "map ValuesIn (vs # vss)" "vs # vss" "map in_container (vs # vss)"
  using containers [of "vs # vss"] by unfold_locales simp_all

section \<open>Properties\<close>

lemma length_products: "length (product_lists xss) * m = fold (\<lambda>v n. length v * n) xss m"
proof (induction xss arbitrary: m)
  case (Cons xs xss)
  have "length (product_lists (xs # xss)) * m = length (product_lists xss) * (length xs * m)"
    unfolding length_product by simp
  also have "\<dots> = fold (\<lambda>v n. length v * n) xss (length xs * m)" by (rule Cons.IH)
  finally show ?case by simp
qed simp

text \<open>C22: A loop over the generator of \<open>Combine\<close> on any number of containers ends and visits every tuple of
  their values exactly once, in lexicographic order with the last component running fastest; when one of
  the containers is empty it visits nothing.\<close>

theorem combine_every_tuple:
  "for_each (CartesianProductGenerator (map ValuesIn (vs # vss))) body
      (gen_begin (CartesianProductGenerator (map ValuesIn (vs # vss)))) s =
     Some (fold body (product_lists (vs # vss)) s) \<and>
   length (product_lists (vs # vss)) = fold (\<lambda>v n. length v * n) (vs # vss) 1 \<and>
   ((\<forall>v \<in> set (vs # vss). distinct v) \<longrightarrow> distinct (product_lists (vs # vss)))"
proof (intro conjI)
  show "for_each (CartesianProductGenerator (map ValuesIn (vs # vss))) body
      (gen_begin (CartesianProductGenerator (map ValuesIn (vs # vss)))) s =
     Some (fold body (product_lists (vs # vss)) s)"
    by (rule combine.product.for_each_values)
  show "length (product_lists (vs # vss)) = fold (\<lambda>v n. length v * n) (vs # vss) 1"
    using length_products [of "vs # vss" 1] by simp
qed (use distinct_product_lists in blast)

theorem combine_every_tuple_witness:
  "for_each (CartesianProductGenerator (map ValuesIn [[1, 2], [3, 4::nat]])) (\<lambda>t ts. ts @ [t])
      (gen_begin (CartesianProductGenerator (map ValuesIn [[1, 2], [3, 4]]))) [] =
     Some [[1, 3], [1, 4], [2, 3], [2, 4]] \<and>
   distinct [[1, 3], [1, 4], [2, 3], [2, 4::nat]]"
  using combine_every_tuple [of "[1, 2]" "[[3, 4::nat]]" "\<lambda>t ts. ts @ [t]" "[]"] by simp

end
