(* ===== verification/Gtest_ParamTests.thy ===== *)
theory Gtest_ParamTests
  imports Gtest_Params Gtest_Registry Gtest_Port
begin

text \<open>
  Parameterised tests (\<open>ParameterizedTestCaseInfo\<close> and \<open>ParameterizedTestCaseRegistry\<close> of
  \<open>googletest-1.8.0/include/gtest/internal/gtest-param-util.h\<close>, \<open>gtest-param-test.h\<close>, \<open>gtest.cc\<close>): the
  tests and instantiations that the macros collect, and the registration of a test for every test,
  instantiation and parameter. The parameters of a program have one type here; a factory of tests, the
  functions that set up a test case and the location of a test are no part of the registry's model.
  A registration that does not return is \<open>None\<close>; \<open>Inl\<close> is the message of an abort.
\<close>

section \<open>Names\<close>

record 'a TestParamInfo =
  param :: 'a
  index :: nat

definition DefaultParamName :: "'a TestParamInfo \<Rightarrow> string" where
  "DefaultParamName info = int_string (int (index info))"

definition PrintToStringParamName :: "('a \<Rightarrow> string) \<Rightarrow> 'a TestParamInfo \<Rightarrow> string" where
  "PrintToStringParamName PrintToString info = PrintToString (param info)"

fun name_characters :: "string \<Rightarrow> bool" where
  "name_characters [] \<longleftrightarrow> True"
| "name_characters (c # name) \<longleftrightarrow>
     (if \<not> IsAlNum c \<and> c \<noteq> CHR ''_'' then False else name_characters name)"

definition IsValidParamName :: "string \<Rightarrow> bool" where
  "IsValidParamName name \<longleftrightarrow> (if name = [] then False else name_characters name)"

section \<open>One test case\<close>

record TestPattern =
  test_case_base_name :: string
  test_base_name :: string

record ('i, 'a) InstantiationInfo =
  inst_name :: string
  inst_generator :: "('i, 'a) generator"
  inst_name_func :: "'a TestParamInfo \<Rightarrow> string"
  inst_file :: string
  inst_line :: int

record ('i, 'a) ParameterizedTestCaseInfo =
  param_case_name :: string
  param_type_id :: nat
  param_tests :: "TestPattern list"
  param_instantiations :: "('i, 'a) InstantiationInfo list"

definition new_ParameterizedTestCaseInfo :: "string \<Rightarrow> nat \<Rightarrow> ('i, 'a) ParameterizedTestCaseInfo" where
  "new_ParameterizedTestCaseInfo name type_id =
     \<lparr> param_case_name = name, param_type_id = type_id, param_tests = [], param_instantiations = [] \<rparr>"

definition AddTestPattern ::
    "string \<Rightarrow> string \<Rightarrow> ('i, 'a) ParameterizedTestCaseInfo \<Rightarrow> ('i, 'a) ParameterizedTestCaseInfo" where
  "AddTestPattern a_test_case_name a_test_base_name info =
     info\<lparr> param_tests := param_tests info @
       [\<lparr> test_case_base_name = a_test_case_name, test_base_name = a_test_base_name \<rparr>] \<rparr>"

definition AddTestCaseInstantiation ::
    "string \<Rightarrow> ('i, 'a) generator \<Rightarrow> ('a TestParamInfo \<Rightarrow> string) \<Rightarrow> string \<Rightarrow> int \<Rightarrow>
     ('i, 'a) ParameterizedTestCaseInfo \<Rightarrow> int \<times> ('i, 'a) ParameterizedTestCaseInfo" where
  "AddTestCaseInstantiation name generator name_func file line info =
     (0, info\<lparr> param_instantiations := param_instantiations info @
       [\<lparr> inst_name = name, inst_generator = generator, inst_name_func = name_func,
          inst_file = file, inst_line = line \<rparr>] \<rparr>)"

text \<open>\<open>MakeAndRegisterTestInfo\<close>.\<close>

definition MakeAndRegisterTestInfo ::
    "platform \<Rightarrow> string option \<Rightarrow> string \<Rightarrow> string \<Rightarrow> string option \<Rightarrow> string option \<Rightarrow> nat \<Rightarrow>
     UnitTestImpl \<Rightarrow> string + UnitTestImpl" where
  "MakeAndRegisterTestInfo p getcwd a_test_case_name name a_type_param a_value_param a_fixture_class_id u =
     (case AddTestInfo p getcwd
        (new_TestInfo a_test_case_name name a_type_param a_value_param a_fixture_class_id) u of
        None \<Rightarrow> Inl ''Failed to get the current working directory.''
      | Some u' \<Rightarrow> Inr u')"

text \<open>What the program does with a parameter, and the loop over the parameters of an instantiation; \<open>to_string\<close>
  is \<open>PrintToString\<close>. The dereferences of an iterator after the first return the same element.\<close>

definition invalid_name :: "string \<Rightarrow> string \<Rightarrow> int \<Rightarrow> string" where
  "invalid_name name file line =
     ''Parameterized test name '' @ [CHR 0x27] @ name @ [CHR 0x27] @ '' is invalid, in '' @ file @
     '' line '' @ int_string line @ [CHR 0x0A]"

definition duplicate_name :: "string \<Rightarrow> string \<Rightarrow> int \<Rightarrow> string" where
  "duplicate_name name file line =
     ''Duplicate parameterized test name '' @ [CHR 0x27] @ name @ [CHR 0x27] @ '', in '' @ file @
     '' line '' @ int_string line @ [CHR 0x0A]"

definition register_param ::
    "platform \<Rightarrow> string option \<Rightarrow> ('a \<Rightarrow> string) \<Rightarrow> nat \<Rightarrow> TestPattern \<Rightarrow> ('i, 'a) InstantiationInfo \<Rightarrow>
     'a \<Rightarrow> nat \<Rightarrow> string set \<Rightarrow> UnitTestImpl \<Rightarrow> string + (string set \<times> UnitTestImpl)" where
  "register_param p getcwd to_string type_id test_info gen v i test_param_names u =
     (let a_test_case_name = (if inst_name gen \<noteq> [] then inst_name gen @ ''/'' else []) @ test_case_base_name test_info;
          param_name = inst_name_func gen \<lparr> param = v, index = i \<rparr> in
      if \<not> IsValidParamName param_name then Inl (invalid_name param_name (inst_file gen) (inst_line gen))
      else if param_name \<in> test_param_names then Inl (duplicate_name param_name (inst_file gen) (inst_line gen))
      else case MakeAndRegisterTestInfo p getcwd a_test_case_name
          (test_base_name test_info @ ''/'' @ param_name) None (Some (to_string v)) type_id u of
        Inl e \<Rightarrow> Inl e
      | Inr u' \<Rightarrow> Inr (insert param_name test_param_names, u'))"

partial_function (option) register_params ::
    "platform \<Rightarrow> string option \<Rightarrow> ('a \<Rightarrow> string) \<Rightarrow> nat \<Rightarrow> TestPattern \<Rightarrow> ('i, 'a) InstantiationInfo \<Rightarrow>
     'i \<Rightarrow> nat \<Rightarrow> string set \<Rightarrow> UnitTestImpl \<Rightarrow> (string + UnitTestImpl) option" where
  "register_params p getcwd to_string type_id test_info gen it i names u =
     (if iterator_equal (inst_generator gen) it (gen_end (inst_generator gen)) then Some (Inr u)
      else case iterator_deref (inst_generator gen) it of
        None \<Rightarrow> None
      | Some (v, it') \<Rightarrow>
          (case register_param p getcwd to_string type_id test_info gen v i names u of
             Inl e \<Rightarrow> Some (Inl e)
           | Inr (names', u') \<Rightarrow>
               register_params p getcwd to_string type_id test_info gen
                 (iterator_increment (inst_generator gen) it') (i + 1) names' u'))"

primrec register_instantiations ::
    "platform \<Rightarrow> string option \<Rightarrow> ('a \<Rightarrow> string) \<Rightarrow> nat \<Rightarrow> TestPattern \<Rightarrow>
     ('i, 'a) InstantiationInfo list \<Rightarrow> UnitTestImpl \<Rightarrow> (string + UnitTestImpl) option" where
  "register_instantiations p getcwd to_string type_id test_info [] u = Some (Inr u)"
| "register_instantiations p getcwd to_string type_id test_info (gen # gens) u =
     (case register_params p getcwd to_string type_id test_info gen (gen_begin (inst_generator gen)) 0 {} u of
        None \<Rightarrow> None
      | Some (Inl e) \<Rightarrow> Some (Inl e)
      | Some (Inr u') \<Rightarrow> register_instantiations p getcwd to_string type_id test_info gens u')"

primrec register_patterns ::
    "platform \<Rightarrow> string option \<Rightarrow> ('a \<Rightarrow> string) \<Rightarrow> nat \<Rightarrow> ('i, 'a) InstantiationInfo list \<Rightarrow>
     TestPattern list \<Rightarrow> UnitTestImpl \<Rightarrow> (string + UnitTestImpl) option" where
  "register_patterns p getcwd to_string type_id gens [] u = Some (Inr u)"
| "register_patterns p getcwd to_string type_id gens (test_info # tests) u =
     (case register_instantiations p getcwd to_string type_id test_info gens u of
        None \<Rightarrow> None
      | Some (Inl e) \<Rightarrow> Some (Inl e)
      | Some (Inr u') \<Rightarrow> register_patterns p getcwd to_string type_id gens tests u')"

definition RegisterTests ::
    "platform \<Rightarrow> string option \<Rightarrow> ('a \<Rightarrow> string) \<Rightarrow> ('i, 'a) ParameterizedTestCaseInfo \<Rightarrow>
     UnitTestImpl \<Rightarrow> (string + UnitTestImpl) option" where
  "RegisterTests p getcwd to_string info u =
     register_patterns p getcwd to_string (param_type_id info) (param_instantiations info) (param_tests info) u"

section \<open>The registry of parameterised test cases\<close>

type_synonym ('i, 'a) ParameterizedTestCaseRegistry = "('i, 'a) ParameterizedTestCaseInfo list"

definition ReportInvalidTestCaseType :: "bool \<Rightarrow> string \<Rightarrow> string \<Rightarrow> int \<Rightarrow> string" where
  "ReportInvalidTestCaseType msc name file line =
     FormatFileLocation msc (Some file) line @ '' '' @
     ''Attempted redefinition of test case '' @ name @ ''.'' @ [CHR 0x0A] @
     ''All tests in the same test case must use the same test fixture'' @ [CHR 0x0A] @
     ''class.  However, in test case '' @ name @ '', you tried'' @ [CHR 0x0A] @
     ''to define a test using a fixture class different from the one'' @ [CHR 0x0A] @
     ''used earlier. This can happen if the two fixture classes are'' @ [CHR 0x0A] @
     ''from different namespaces and have the same name. You should'' @ [CHR 0x0A] @
     ''probably rename one of the classes to put the tests into different'' @ [CHR 0x0A] @
     ''test cases.''"

text \<open>The index of the holder of a test case, which is added when there is none.\<close>

definition GetTestCasePatternHolder ::
    "bool \<Rightarrow> string \<Rightarrow> nat \<Rightarrow> string \<Rightarrow> int \<Rightarrow> ('i, 'a) ParameterizedTestCaseRegistry \<Rightarrow>
     string + nat \<times> ('i, 'a) ParameterizedTestCaseRegistry" where
  "GetTestCasePatternHolder msc name type_id file line infos =
     (case find_index (\<lambda>info. param_case_name info = name) infos of
        Some k \<Rightarrow>
          if param_type_id (infos ! k) \<noteq> type_id then Inl (ReportInvalidTestCaseType msc name file line)
          else Inr (k, infos)
      | None \<Rightarrow> Inr (length infos, infos @ [new_ParameterizedTestCaseInfo name type_id]))"

text \<open>The registrations of the macros \<open>TEST_P\<close> and \<open>INSTANTIATE_TEST_CASE_P\<close>.\<close>

definition TEST_P ::
    "bool \<Rightarrow> string \<Rightarrow> string \<Rightarrow> nat \<Rightarrow> string \<Rightarrow> int \<Rightarrow> ('i, 'a) ParameterizedTestCaseRegistry \<Rightarrow>
     string + ('i, 'a) ParameterizedTestCaseRegistry" where
  "TEST_P msc a_test_case_name a_test_name type_id file line infos =
     (case GetTestCasePatternHolder msc a_test_case_name type_id file line infos of
        Inl e \<Rightarrow> Inl e
      | Inr (k, infos') \<Rightarrow> Inr (infos'[k := AddTestPattern a_test_case_name a_test_name (infos' ! k)]))"

definition INSTANTIATE_TEST_CASE_P ::
    "bool \<Rightarrow> string \<Rightarrow> string \<Rightarrow> nat \<Rightarrow> ('i, 'a) generator \<Rightarrow> ('a TestParamInfo \<Rightarrow> string) \<Rightarrow> string \<Rightarrow> int \<Rightarrow>
     ('i, 'a) ParameterizedTestCaseRegistry \<Rightarrow> string + ('i, 'a) ParameterizedTestCaseRegistry" where
  "INSTANTIATE_TEST_CASE_P msc prefix a_test_case_name type_id generator name_func file line infos =
     (case GetTestCasePatternHolder msc a_test_case_name type_id file line infos of
        Inl e \<Rightarrow> Inl e
      | Inr (k, infos') \<Rightarrow>
          Inr (infos'[k := snd (AddTestCaseInstantiation prefix generator name_func file line (infos' ! k))]))"

primrec registry_RegisterTests ::
    "platform \<Rightarrow> string option \<Rightarrow> ('a \<Rightarrow> string) \<Rightarrow> ('i, 'a) ParameterizedTestCaseRegistry \<Rightarrow>
     UnitTestImpl \<Rightarrow> (string + UnitTestImpl) option" where
  "registry_RegisterTests p getcwd to_string [] u = Some (Inr u)"
| "registry_RegisterTests p getcwd to_string (info # infos) u =
     (case RegisterTests p getcwd to_string info u of
        None \<Rightarrow> None
      | Some (Inl e) \<Rightarrow> Some (Inl e)
      | Some (Inr u') \<Rightarrow> registry_RegisterTests p getcwd to_string infos u')"

text \<open>\<open>UnitTestImpl::RegisterParameterizedTests\<close> with the flag \<open>parameterized_tests_registered_\<close>.\<close>

definition RegisterParameterizedTests ::
    "platform \<Rightarrow> string option \<Rightarrow> ('a \<Rightarrow> string) \<Rightarrow> ('i, 'a) ParameterizedTestCaseRegistry \<Rightarrow>
     bool \<times> UnitTestImpl \<Rightarrow> (string + bool \<times> UnitTestImpl) option" where
  "RegisterParameterizedTests p getcwd to_string infos st =
     (if \<not> fst st then
        case registry_RegisterTests p getcwd to_string infos (snd st) of
          None \<Rightarrow> None
        | Some (Inl e) \<Rightarrow> Some (Inl e)
        | Some (Inr u') \<Rightarrow> Some (Inr (True, u'))
      else Some (Inr st))"

section \<open>The tests that are registered\<close>

definition param_name_of :: "('i, 'a) InstantiationInfo \<Rightarrow> nat \<times> 'a \<Rightarrow> string" where
  "param_name_of gen x = inst_name_func gen \<lparr> param = snd x, index = fst x \<rparr>"

definition param_test ::
    "('a \<Rightarrow> string) \<Rightarrow> nat \<Rightarrow> TestPattern \<Rightarrow> ('i, 'a) InstantiationInfo \<Rightarrow> nat \<times> 'a \<Rightarrow> TestInfo" where
  "param_test to_string type_id test_info gen x =
     new_TestInfo ((if inst_name gen \<noteq> [] then inst_name gen @ ''/'' else []) @ test_case_base_name test_info)
       (test_base_name test_info @ ''/'' @ param_name_of gen x) None (Some (to_string (snd x))) type_id"

definition case_tests ::
    "('a \<Rightarrow> string) \<Rightarrow> (('i, 'a) InstantiationInfo \<Rightarrow> 'a list) \<Rightarrow> ('i, 'a) ParameterizedTestCaseInfo \<Rightarrow> TestInfo list" where
  "case_tests to_string values info =
     concat (map (\<lambda>test_info. concat (map (\<lambda>gen.
       map (param_test to_string (param_type_id info) test_info gen) (enumerate 0 (values gen)))
         (param_instantiations info))) (param_tests info))"

fun fresh_names :: "('i, 'a) InstantiationInfo \<Rightarrow> string set \<Rightarrow> (nat \<times> 'a) list \<Rightarrow> bool" where
  "fresh_names gen names [] \<longleftrightarrow> True"
| "fresh_names gen names (x # xs) \<longleftrightarrow>
     IsValidParamName (param_name_of gen x) \<and> param_name_of gen x \<notin> names \<and>
     fresh_names gen (insert (param_name_of gen x) names) xs"

definition names_ok :: "('i, 'a) InstantiationInfo \<Rightarrow> 'a list \<Rightarrow> bool" where
  "names_ok gen vs \<longleftrightarrow>
     (let names = map (param_name_of gen) (enumerate 0 vs) in list_all IsValidParamName names \<and> distinct names)"

lemma fresh_names_iff:
  "fresh_names gen names xs \<longleftrightarrow>
     list_all IsValidParamName (map (param_name_of gen) xs) \<and> distinct (map (param_name_of gen) xs) \<and>
     set (map (param_name_of gen) xs) \<inter> names = {}"
  by (induction xs arbitrary: names) auto

lemma names_ok_fresh: "names_ok gen vs \<longleftrightarrow> fresh_names gen {} (enumerate 0 vs)"
  by (simp add: names_ok_def fresh_names_iff Let_def)

text \<open>A registration is possible when the system knows its working directory.\<close>

definition has_cwd :: "platform \<Rightarrow> string option \<Rightarrow> bool" where
  "has_cwd p getcwd \<longleftrightarrow> \<not> IsEmpty (GetCurrentDir p getcwd)"

lemma AddTestInfo_total: "has_cwd p getcwd \<Longrightarrow> \<exists>u'. AddTestInfo p getcwd t u = Some u'"
  by (auto simp: AddTestInfo_def has_cwd_def FilePath_Set_def IsEmpty_def Let_def split: prod.splits)

lemma register_param_step:
  assumes "has_cwd p getcwd" "registered p getcwd u ts"
  shows "if IsValidParamName (param_name_of gen (i, v)) \<and> param_name_of gen (i, v) \<notin> names
    then \<exists>u'. register_param p getcwd to_string type_id test_info gen v i names u =
        Inr (insert (param_name_of gen (i, v)) names, u') \<and>
      registered p getcwd u' (ts @ [param_test to_string type_id test_info gen (i, v)])
    else \<exists>e. register_param p getcwd to_string type_id test_info gen v i names u = Inl e"
proof -
  obtain u' where u': "AddTestInfo p getcwd (param_test to_string type_id test_info gen (i, v)) u = Some u'"
    using AddTestInfo_total [OF assms(1)] by blast
  then show ?thesis
    using registered.add [OF assms(2) u']
    by (auto simp: register_param_def MakeAndRegisterTestInfo_def param_test_def param_name_of_def Let_def)
qed

lemma register_params_from:
  assumes G: "param_sequence (inst_generator gen) vs P" and cwd: "has_cwd p getcwd"
  shows "\<lbrakk>P it n; n \<le> length vs; registered p getcwd u ts\<rbrakk> \<Longrightarrow>
    if fresh_names gen names (enumerate n (drop n vs))
    then \<exists>u'. register_params p getcwd to_string type_id test_info gen it n names u = Some (Inr u') \<and>
      registered p getcwd u' (ts @ map (param_test to_string type_id test_info gen) (enumerate n (drop n vs)))
    else \<exists>e. register_params p getcwd to_string type_id test_info gen it n names u = Some (Inl e)"
proof (induction "length vs - n" arbitrary: it n names u ts)
  case 0
  then show ?case
    by (subst (1 2) register_params.simps) (simp add: param_sequence.at_end [OF G])
next
  case (Suc k)
  then have n: "n < length vs" by simp
  obtain it' where it': "iterator_deref (inst_generator gen) it = Some (vs ! n, it')" "P it' n"
    using param_sequence.deref [OF G Suc.prems(1) n] by blast
  let ?next = "iterator_increment (inst_generator gen) it'"
  have P': "P ?next (Suc n)"
    using param_sequence.advance_placed [OF G it'(2) n] by (simp add: iterator_increment_def)
  have vs: "enumerate n (drop n vs) = (n, vs ! n) # enumerate (Suc n) (drop (Suc n) vs)"
    using n by (simp add: Cons_nth_drop_Suc [symmetric])
  have run: "register_params p getcwd to_string type_id test_info gen it n names u =
      (case register_param p getcwd to_string type_id test_info gen (vs ! n) n names u of
         Inl e \<Rightarrow> Some (Inl e)
       | Inr (names', u') \<Rightarrow> register_params p getcwd to_string type_id test_info gen ?next (n + 1) names' u')"
    using param_sequence.at_end [OF G Suc.prems(1,2)] n it'
    by (subst register_params.simps) simp
  show ?case
  proof (cases "IsValidParamName (param_name_of gen (n, vs ! n)) \<and> param_name_of gen (n, vs ! n) \<notin> names")
    case True
    then obtain u' where u': "register_param p getcwd to_string type_id test_info gen (vs ! n) n names u =
          Inr (insert (param_name_of gen (n, vs ! n)) names, u')"
        "registered p getcwd u' (ts @ [param_test to_string type_id test_info gen (n, vs ! n)])"
      using register_param_step [OF cwd Suc.prems(3)] by meson
    have k: "k = length vs - Suc n" using Suc.hyps(2) by simp
    note IH = Suc.hyps(1) [OF k P' Suc_leI [OF n] u'(2), of "insert (param_name_of gen (n, vs ! n)) names",
        unfolded append_assoc append_Cons append_Nil]
    show ?thesis using IH True unfolding run vs by (simp add: u'(1))
  next
    case False
    then obtain e where "register_param p getcwd to_string type_id test_info gen (vs ! n) n names u = Inl e"
      using register_param_step [OF cwd Suc.prems(3)] by meson
    then show ?thesis using False unfolding run vs by auto
  qed
qed

text \<open>A generator yields a finite list of values when its iterators run over it, as the interface of
  generators promises.\<close>

definition yields :: "('i, 'a) generator \<Rightarrow> 'a list \<Rightarrow> bool" where
  "yields G vs \<longleftrightarrow> (\<exists>P. param_sequence G vs P)"

lemma register_instantiations_spec:
  assumes gens: "\<forall>gen \<in> set gens. yields (inst_generator gen) (values gen)" and cwd: "has_cwd p getcwd"
  shows "registered p getcwd u ts \<Longrightarrow>
    if \<forall>gen \<in> set gens. names_ok gen (values gen)
    then \<exists>u'. register_instantiations p getcwd to_string type_id test_info gens u = Some (Inr u') \<and>
      registered p getcwd u' (ts @ concat (map (\<lambda>gen.
        map (param_test to_string type_id test_info gen) (enumerate 0 (values gen))) gens))
    else \<exists>e. register_instantiations p getcwd to_string type_id test_info gens u = Some (Inl e)"
  using gens
proof (induction gens arbitrary: u ts)
  case (Cons gen gens)
  then obtain P where P: "param_sequence (inst_generator gen) (values gen) P" by (auto simp: yields_def)
  have b: "P (gen_begin (inst_generator gen)) 0"
    by (simp add: gen_begin_def param_sequence.begin_placed [OF P])
  note step = register_params_from [OF P cwd b le0 Cons.prems(1), of "{}" to_string type_id test_info,
      unfolded drop_0, folded names_ok_fresh]
  show ?case
  proof (cases "names_ok gen (values gen)")
    case True
    then obtain u' where u': "register_params p getcwd to_string type_id test_info gen (gen_begin (inst_generator gen)) 0 {} u = Some (Inr u')"
        "registered p getcwd u' (ts @ map (param_test to_string type_id test_info gen) (enumerate 0 (values gen)))"
      using step by auto
    from Cons.IH [OF u'(2)] Cons.prems(2) True u'(1) show ?thesis by auto
  next
    case False
    then show ?thesis using step by auto
  qed
qed simp

lemma register_patterns_spec:
  assumes gens: "\<forall>gen \<in> set gens. yields (inst_generator gen) (values gen)" and cwd: "has_cwd p getcwd"
  shows "registered p getcwd u ts \<Longrightarrow>
    if tests = [] \<or> (\<forall>gen \<in> set gens. names_ok gen (values gen))
    then \<exists>u'. register_patterns p getcwd to_string type_id gens tests u = Some (Inr u') \<and>
      registered p getcwd u' (ts @ concat (map (\<lambda>test_info. concat (map (\<lambda>gen.
        map (param_test to_string type_id test_info gen) (enumerate 0 (values gen))) gens)) tests))
    else \<exists>e. register_patterns p getcwd to_string type_id gens tests u = Some (Inl e)"
proof (induction tests arbitrary: u ts)
  case (Cons test_info tests)
  note step = register_instantiations_spec [OF gens cwd Cons.prems, of to_string type_id test_info]
  show ?case
  proof (cases "\<forall>gen \<in> set gens. names_ok gen (values gen)")
    case True
    then obtain u' where u': "register_instantiations p getcwd to_string type_id test_info gens u = Some (Inr u')"
        "registered p getcwd u' (ts @ concat (map (\<lambda>gen.
          map (param_test to_string type_id test_info gen) (enumerate 0 (values gen))) gens))"
      using step by auto
    from Cons.IH [OF u'(2)] True u'(1) show ?thesis by auto
  next
    case False
    then obtain e where "register_instantiations p getcwd to_string type_id test_info gens u = Some (Inl e)"
      using step by meson
    then show ?thesis using False by auto
  qed
qed simp

lemma RegisterTests_spec:
  assumes "\<forall>gen \<in> set (param_instantiations info). yields (inst_generator gen) (values gen)"
    and "has_cwd p getcwd" "registered p getcwd u ts"
  shows "if param_tests info = [] \<or> (\<forall>gen \<in> set (param_instantiations info). names_ok gen (values gen))
    then \<exists>u'. RegisterTests p getcwd to_string info u = Some (Inr u') \<and>
      registered p getcwd u' (ts @ case_tests to_string values info)
    else \<exists>e. RegisterTests p getcwd to_string info u = Some (Inl e)"
  using register_patterns_spec [OF assms, of "param_tests info" to_string "param_type_id info"]
  unfolding RegisterTests_def case_tests_def .

section \<open>The default names\<close>

lemma digit_is_name: "is_digit c \<Longrightarrow> IsAlNum c"
  by (auto simp: is_digit_def IsAlNum_def IsDigit_def code_def)

lemma name_characters_iff: "name_characters name \<longleftrightarrow> (\<forall>c \<in> set name. IsAlNum c \<or> c = CHR ''_'')"
  by (induction name) auto

text \<open>The default names are valid and distinct.\<close>

lemma default_names_ok:
  assumes "inst_name_func gen = DefaultParamName"
  shows "names_ok gen vs"
proof -
  have name: "param_name_of gen x = dec_string (fst x)" for x
    using assms by (simp add: param_name_of_def DefaultParamName_def int_string_def)
  then have names: "map (param_name_of gen) xs = map dec_string (map fst xs)" for xs by simp
  have "IsValidParamName (dec_string k)" for k
    using dec_string_digits [of k] digit_is_name
    by (auto simp: IsValidParamName_def name_characters_iff dec_string_nonempty list_all_iff)
  moreover have "distinct (map dec_string (map fst (enumerate 0 vs)))"
    by (subst distinct_map) (simp add: inj_on_def)
  ultimately show ?thesis
    unfolding names_ok_def names by (simp add: list_all_iff Let_def)
qed

section \<open>The whole registry\<close>

definition case_names_ok ::
    "(('i, 'a) InstantiationInfo \<Rightarrow> 'a list) \<Rightarrow> ('i, 'a) ParameterizedTestCaseInfo \<Rightarrow> bool" where
  "case_names_ok values info \<longleftrightarrow>
     param_tests info = [] \<or> list_all (\<lambda>gen. names_ok gen (values gen)) (param_instantiations info)"

lemma registry_spec:
  assumes "\<forall>info \<in> set infos. \<forall>gen \<in> set (param_instantiations info).
      yields (inst_generator gen) (values gen)"
    and cwd: "has_cwd p getcwd"
  shows "registered p getcwd u ts \<Longrightarrow>
    if list_all (case_names_ok values) infos
    then \<exists>u'. registry_RegisterTests p getcwd to_string infos u = Some (Inr u') \<and>
      registered p getcwd u' (ts @ concat (map (case_tests to_string values) infos))
    else \<exists>e. registry_RegisterTests p getcwd to_string infos u = Some (Inl e)"
  using assms(1)
proof (induction infos arbitrary: u ts)
  case (Cons info infos)
  have step: "if case_names_ok values info
      then \<exists>u'. RegisterTests p getcwd to_string info u = Some (Inr u') \<and>
        registered p getcwd u' (ts @ case_tests to_string values info)
      else \<exists>e. RegisterTests p getcwd to_string info u = Some (Inl e)"
    unfolding case_names_ok_def list_all_iff
    by (rule RegisterTests_spec [OF _ cwd Cons.prems(1)]) (use Cons.prems(2) in auto)
  show ?case
  proof (cases "case_names_ok values info")
    case True
    then obtain u' where u': "RegisterTests p getcwd to_string info u = Some (Inr u')"
        "registered p getcwd u' (ts @ case_tests to_string values info)"
      using step by auto
    from Cons.IH [OF u'(2)] Cons.prems(2) True u'(1) show ?thesis by auto
  next
    case False
    then obtain e where "RegisterTests p getcwd to_string info u = Some (Inl e)" using step by meson
    then show ?thesis using False by auto
  qed
qed simp

section \<open>Generators that keep the contract\<close>

text \<open>\<open>Range\<close> does when its constructor returns, \<open>ValuesIn\<close> always, \<open>Combine\<close> when its components do.\<close>

lemma values_yield: "yields (ValuesIn vs) vs"
  unfolding yields_def ValuesIn_def using in_values.param_sequence_axioms by blast

lemma range_yields:
  "RangeGenerator lt add b e step = Some G \<Longrightarrow> \<exists>n. yields G (map (iterate add step b) [0..<n])"
  unfolding yields_def RangeGenerator_def using range.param_sequence_axioms by fastforce

lemma sequences_exist:
  "list_all2 yields Gs valss \<Longrightarrow> \<exists>Ps. sequences Gs valss Ps"
proof (induction rule: list_all2_induct)
  case (Cons G Gs vs valss)
  then obtain P Ps where "param_sequence G vs P" "sequences Gs valss Ps" by (auto simp: yields_def)
  then have "sequences (G # Gs) (vs # valss) (P # Ps)" by simp
  then show ?case by blast
qed (rule exI [of _ "[]"], simp)

context combined_sequences
begin

lemma product_sequence:
  "param_sequence (CartesianProductGenerator Gs) (product_lists valss) (product_placed valss Ps)"
  by (rule product.param_sequence_axioms)

end

lemma combine_yields:
  assumes "list_all2 yields Gs valss" and "Gs \<noteq> []"
  shows "yields (CartesianProductGenerator Gs) (product_lists valss)"
proof -
  obtain Ps where "sequences Gs valss Ps" using sequences_exist [OF assms(1)] by blast
  then have "combined_sequences Gs valss Ps" using assms(2) by unfold_locales
  from combined_sequences.product_sequence [OF this] show ?thesis
    unfolding yields_def by blast
qed

text \<open>The iterators of a registry have one type; those of two kinds of generators are its two sides.\<close>

definition left_generator :: "('i, 'a) generator \<Rightarrow> ('i + 'j, 'a) generator" where
  "left_generator G =
     \<lparr> gen_Begin = Inl (gen_Begin G), gen_End = Inl (gen_End G),
       gen_Advance = map_sum (gen_Advance G) id, gen_Clone = map_sum (gen_Clone G) id,
       gen_Current = (\<lambda>it. case it of
           Inl i \<Rightarrow> map_option (\<lambda>(v, i'). (v, Inl i')) (gen_Current G i) | Inr j \<Rightarrow> None),
       gen_Equals = (\<lambda>it other. case (it, other) of (Inl i, Inl i') \<Rightarrow> gen_Equals G i i' | _ \<Rightarrow> False) \<rparr>"

definition right_generator :: "('j, 'a) generator \<Rightarrow> ('i + 'j, 'a) generator" where
  "right_generator G =
     \<lparr> gen_Begin = Inr (gen_Begin G), gen_End = Inr (gen_End G),
       gen_Advance = map_sum id (gen_Advance G), gen_Clone = map_sum id (gen_Clone G),
       gen_Current = (\<lambda>it. case it of
           Inr j \<Rightarrow> map_option (\<lambda>(v, j'). (v, Inr j')) (gen_Current G j) | Inl i \<Rightarrow> None),
       gen_Equals = (\<lambda>it other. case (it, other) of (Inr j, Inr j') \<Rightarrow> gen_Equals G j j' | _ \<Rightarrow> False) \<rparr>"

lemma left_yields:
  assumes "yields G vs"
  shows "yields (left_generator G) vs"
proof -
  from assms obtain P where "param_sequence G vs P" by (auto simp: yields_def)
  note P = param_sequence.begin_placed [OF this] param_sequence.end_placed [OF this]
    param_sequence.advance_placed [OF this] param_sequence.clone_placed [OF this]
    param_sequence.current_value [OF this] param_sequence.equals_placed [OF this]
  have "param_sequence (left_generator G) vs (\<lambda>it k. \<exists>i. it = Inl i \<and> P i k)"
  proof (rule param_sequence.intro)
    fix it n
    assume "\<exists>i. it = Inl i \<and> P i n" "n < length vs"
    then obtain i where i: "it = Inl i" "P i n" "n < length vs" by blast
    then show "\<exists>it'. gen_Current (left_generator G) it = Some (vs ! n, it') \<and> (\<exists>i. it' = Inl i \<and> P i n)"
      using P(5) [OF i(2,3)] by (auto simp: left_generator_def)
  qed (use P in \<open>auto simp: left_generator_def\<close>)
  then show ?thesis by (auto simp: yields_def)
qed

lemma right_yields:
  assumes "yields G vs"
  shows "yields (right_generator G) vs"
proof -
  from assms obtain P where "param_sequence G vs P" by (auto simp: yields_def)
  note P = param_sequence.begin_placed [OF this] param_sequence.end_placed [OF this]
    param_sequence.advance_placed [OF this] param_sequence.clone_placed [OF this]
    param_sequence.current_value [OF this] param_sequence.equals_placed [OF this]
  have "param_sequence (right_generator G) vs (\<lambda>it k. \<exists>j. it = Inr j \<and> P j k)"
  proof (rule param_sequence.intro)
    fix it n
    assume "\<exists>j. it = Inr j \<and> P j n" "n < length vs"
    then obtain j where j: "it = Inr j" "P j n" "n < length vs" by blast
    then show "\<exists>it'. gen_Current (right_generator G) it = Some (vs ! n, it') \<and> (\<exists>j. it' = Inr j \<and> P j n)"
      using P(5) [OF j(2,3)] by (auto simp: right_generator_def)
  qed (use P in \<open>auto simp: right_generator_def\<close>)
  then show ?thesis by (auto simp: yields_def)
qed

section \<open>Properties\<close>

text \<open>Two instantiations of one test, of a \<open>Range\<close> and of \<open>Values\<close>.\<close>

definition sample_range :: "((nat \<times> nat) + (nat \<times> nat option), nat) InstantiationInfo" where
  "sample_range =
     \<lparr> inst_name = ''Even'', inst_generator = left_generator (range_generator (+) 0 4 2 2),
       inst_name_func = DefaultParamName, inst_file = ''a.cc'', inst_line = 3 \<rparr>"

definition sample_values :: "((nat \<times> nat) + (nat \<times> nat option), nat) InstantiationInfo" where
  "sample_values =
     \<lparr> inst_name = ''Odd'', inst_generator = right_generator (ValuesIn [7, 9]),
       inst_name_func = DefaultParamName, inst_file = ''a.cc'', inst_line = 4 \<rparr>"

definition sample_registry :: "((nat \<times> nat) + (nat \<times> nat option), nat) ParameterizedTestCaseRegistry" where
  "sample_registry =
     [\<lparr> param_case_name = ''Foo'', param_type_id = 0,
        param_tests = [\<lparr> test_case_base_name = ''Foo'', test_base_name = ''Bar'' \<rparr>],
        param_instantiations = [sample_range, sample_values] \<rparr>]"

text \<open>C21: When the system knows its working directory and every generator keeps the contract of
  generators, that is, its iterators run over a finite list of values (\<open>ValuesIn\<close>, \<open>Values\<close>, \<open>Bool\<close>, a
  \<open>Range\<close> whose constructor returns, and \<open>Combine\<close> of such generators all do), registering the
  parameterised tests returns. When the names of every instantiation are valid and distinct, it registers
  exactly one test for every test, instantiation and parameter, in that nesting, behind the tests that are
  there, each named by its instantiation, its test case, its test and its parameter; otherwise it aborts.
  A second call registers nothing.\<close>

theorem parameterised_tests_registered:
  assumes "registered p getcwd u ts" "has_cwd p getcwd"
    and "\<forall>info \<in> set infos. \<forall>gen \<in> set (param_instantiations info). yields (inst_generator gen) (values gen)"
  shows "if list_all (case_names_ok values) infos
    then \<exists>u'. RegisterParameterizedTests p getcwd to_string infos (False, u) = Some (Inr (True, u')) \<and>
      registered p getcwd u' (ts @ concat (map (case_tests to_string values) infos)) \<and>
      RegisterParameterizedTests p getcwd to_string infos (True, u') = Some (Inr (True, u'))
    else \<exists>e. RegisterParameterizedTests p getcwd to_string infos (False, u) = Some (Inl e)"
  using registry_spec [OF assms(3,2,1), of to_string]
  by (auto simp: RegisterParameterizedTests_def split: if_splits)

theorem parameterised_tests_registered_witness:
  "\<exists>u'. RegisterParameterizedTests Posix (Some ''/tmp'') dec_string sample_registry (False, new_UnitTestImpl) =
      Some (Inr (True, u')) \<and>
    registered Posix (Some ''/tmp'') u'
      [new_TestInfo ''Even/Foo'' ''Bar/0'' None (Some ''0'') 0, new_TestInfo ''Even/Foo'' ''Bar/1'' None (Some ''2'') 0,
       new_TestInfo ''Odd/Foo'' ''Bar/0'' None (Some ''7'') 0, new_TestInfo ''Odd/Foo'' ''Bar/1'' None (Some ''9'') 0]"
proof -
  let ?vals = "\<lambda>gen. if inst_name gen = ''Even'' then [0, 2] else [7, 9 :: nat]"
  have "param_sequence (range_generator (+) 0 4 2 2) [0, 2 :: nat]
      (\<lambda>it k. snd it = k \<and> (k < 2 \<longrightarrow> fst it = iterate (+) 2 0 k))"
    using range.param_sequence_axioms [of "(+)" "0 :: nat" 4 2 2] by (simp add: iterate_def upt_rec numeral_2_eq_2)
  then have "yields (range_generator (+) 0 4 2 2) [0, 2 :: nat]" unfolding yields_def by blast
  then have y: "\<forall>info \<in> set sample_registry. \<forall>gen \<in> set (param_instantiations info).
      yields (inst_generator gen) (?vals gen)"
    using values_yield [of "[7, 9 :: nat]"]
    by (simp add: sample_registry_def sample_range_def sample_values_def left_yields right_yields)
  have c: "has_cwd Posix (Some ''/tmp'')" by code_simp
  have "list_all (case_names_ok ?vals) sample_registry"
    by (simp add: sample_registry_def case_names_ok_def default_names_ok sample_range_def sample_values_def)
  moreover have "concat (map (case_tests dec_string ?vals) sample_registry) =
      [new_TestInfo ''Even/Foo'' ''Bar/0'' None (Some ''0'') 0, new_TestInfo ''Even/Foo'' ''Bar/1'' None (Some ''2'') 0,
       new_TestInfo ''Odd/Foo'' ''Bar/0'' None (Some ''7'') 0, new_TestInfo ''Odd/Foo'' ''Bar/1'' None (Some ''9'') 0]"
    by code_simp
  ultimately show ?thesis
    using parameterised_tests_registered [OF registered.start c y, of dec_string] by auto
qed

end
