(* ===== verification/Gtest_Typed.thy ===== *)
theory Gtest_Typed
  imports Gtest_ParamTests Ordered_Map
begin

text \<open>
  Typed and type-parameterised tests (\<open>googletest-1.8.0/src/gtest-typed-test.cc\<close>,
  \<open>include/gtest/internal/gtest-internal.h\<close>, \<open>gtest-typed-test.h\<close>): the names of the tests as the macros
  write them, the check of the names that \<open>REGISTER_TYPED_TEST_CASE_P\<close> lists against the tests that are
  defined, and the registration of every test for every type. A list of types is the list of their names
  and of the ids of the fixtures; a list of tests is given by its length. \<open>Inl\<close> is what the program
  writes to \<open>stderr\<close> before it aborts.
\<close>

section \<open>Lists of names\<close>

fun SkipSpaces :: "string \<Rightarrow> string" where
  "SkipSpaces [] = []"
| "SkipSpaces (c # str) = (if IsSpace c then SkipSpaces str else c # str)"

text \<open>\<open>strchr(str, ',')\<close>: the text from the first comma on.\<close>

fun find_comma :: "string \<Rightarrow> string option" where
  "find_comma [] = None"
| "find_comma (c # str) = (if c = CHR '','' then Some (c # str) else find_comma str)"

definition SkipComma :: "string \<Rightarrow> string option" where
  "SkipComma str = (case find_comma str of None \<Rightarrow> None | Some comma \<Rightarrow> Some (SkipSpaces (tl comma)))"

definition GetPrefixUntilComma :: "string \<Rightarrow> string" where
  "GetPrefixUntilComma str =
     (case find_comma str of None \<Rightarrow> str | Some comma \<Rightarrow> take (length str - length comma) str)"

lemma SkipSpaces_dropWhile: "SkipSpaces str = dropWhile IsSpace str"
  by (induction str) simp_all

lemma find_comma_dropWhile:
  "find_comma str = (case dropWhile (\<lambda>c. c \<noteq> CHR '','') str of [] \<Rightarrow> None | c # s \<Rightarrow> Some (c # s))"
  by (induction str) simp_all

lemma SkipComma_shorter: "SkipComma str = Some s \<Longrightarrow> length s < length str"
proof -
  assume "SkipComma str = Some s"
  then obtain comma where c: "find_comma str = Some comma" and s: "s = SkipSpaces (tl comma)"
    by (auto simp: SkipComma_def split: option.splits)
  have "comma \<noteq> []" "length comma \<le> length str"
    using c by (auto simp: find_comma_dropWhile length_dropWhile_le split: list.splits)
  then show ?thesis
    using length_dropWhile_le [of IsSpace "tl comma"] unfolding s SkipSpaces_dropWhile by (cases comma) auto
qed

function split_names :: "string \<Rightarrow> string list" where
  "split_names src =
     StripTrailingSpaces (GetPrefixUntilComma src) #
     (case SkipComma src of None \<Rightarrow> [] | Some s \<Rightarrow> split_names s)"
  by pat_completeness auto
termination by (relation "measure length") (simp_all add: SkipComma_shorter)

declare split_names.simps [simp del]

definition SplitIntoTestNames :: "string \<Rightarrow> string list" where
  "SplitIntoTestNames src = split_names (SkipSpaces src)"

section \<open>The state of a type-parameterised test case\<close>

record CodeLocation =
  location_file :: string
  location_line :: int

record TypedTestCasePState =
  registered_flag :: bool
  registered_map :: "(string, CodeLocation) omap"

definition new_TypedTestCasePState :: TypedTestCasePState where
  "new_TypedTestCasePState = \<lparr> registered_flag = False, registered_map = [] \<rparr>"

definition AddTestName ::
    "bool \<Rightarrow> string \<Rightarrow> int \<Rightarrow> string \<Rightarrow> string \<Rightarrow> TypedTestCasePState \<Rightarrow> string + TypedTestCasePState" where
  "AddTestName msc file line a_case_name a_test_name st =
     (if registered_flag st then
        Inl (FormatFileLocation msc (Some file) line @ '' Test '' @ a_test_name @
          '' must be defined before REGISTER_TYPED_TEST_CASE_P('' @ a_case_name @ '', ...).'' @ [CHR 0x0A])
      else Inr (st\<lparr> registered_map :=
        (case om_find (registered_map st) a_test_name of
           Some _ \<Rightarrow> registered_map st
         | None \<Rightarrow> om_set a_test_name \<lparr> location_file = file, location_line = line \<rparr> (registered_map st)) \<rparr>))"

definition TestExists :: "TypedTestCasePState \<Rightarrow> string \<Rightarrow> bool" where
  "TestExists st name \<longleftrightarrow> om_find (registered_map st) name \<noteq> None"

definition GetCodeLocation :: "TypedTestCasePState \<Rightarrow> string \<Rightarrow> CodeLocation option" where
  "GetCodeLocation st name = om_find (registered_map st) name"

text \<open>The loop over the listed names: the set of the names found, and the errors.\<close>

fun find_registered :: "string \<Rightarrow> (string, CodeLocation) omap \<Rightarrow> bool" where
  "find_registered name [] \<longleftrightarrow> False"
| "find_registered name (it # its) \<longleftrightarrow> (if name = fst it then True else find_registered name its)"

fun check_listed :: "(string, CodeLocation) omap \<Rightarrow> string list \<Rightarrow> string set \<Rightarrow> string \<Rightarrow> string set \<times> string" where
  "check_listed listed_tests [] tests errors = (tests, errors)"
| "check_listed listed_tests (name # names) tests errors =
     (if name \<in> tests then
        check_listed listed_tests names tests
          (errors @ ''Test '' @ name @ '' is listed more than once.'' @ [CHR 0x0A])
      else if find_registered name listed_tests then
        check_listed listed_tests names (insert name tests) errors
      else
        check_listed listed_tests names tests
          (errors @ ''No test named '' @ name @ '' can be found in this test case.'' @ [CHR 0x0A]))"

fun check_forgotten :: "(string, CodeLocation) omap \<Rightarrow> string set \<Rightarrow> string \<Rightarrow> string" where
  "check_forgotten [] tests errors = errors"
| "check_forgotten (it # its) tests errors =
     check_forgotten its tests
       (if fst it \<notin> tests then errors @ ''You forgot to list test '' @ fst it @ ''.'' @ [CHR 0x0A] else errors)"

definition VerifyRegisteredTestNames ::
    "bool \<Rightarrow> string \<Rightarrow> int \<Rightarrow> string \<Rightarrow> TypedTestCasePState \<Rightarrow> string + (string \<times> TypedTestCasePState)" where
  "VerifyRegisteredTestNames msc file line listed_tests st =
     (let st' = st\<lparr> registered_flag := True \<rparr>;
          name_vec = SplitIntoTestNames listed_tests;
          (tests, errors) = check_listed (registered_map st') name_vec {} [];
          errors_str = check_forgotten (registered_map st') tests errors in
      if errors_str \<noteq> [] then Inl (FormatFileLocation msc (Some file) line @ '' '' @ errors_str)
      else Inr (listed_tests, st'))"

section \<open>Registration\<close>

text \<open>\<open>TypeParameterizedTest::Register\<close>: the recursion over the types of the list.\<close>

fun TypeParameterizedTest_Register ::
    "platform \<Rightarrow> string option \<Rightarrow> string \<Rightarrow> (string \<times> nat) list \<Rightarrow> string \<Rightarrow> string \<Rightarrow> int \<Rightarrow>
     UnitTestImpl \<Rightarrow> string + UnitTestImpl" where
  "TypeParameterizedTest_Register p getcwd prefix [] a_case_name names_text type_index u = Inr u"
| "TypeParameterizedTest_Register p getcwd prefix (Type # Types) a_case_name names_text type_index u =
     (case MakeAndRegisterTestInfo p getcwd
        (prefix @ (if prefix = [] then [] else ''/'') @ a_case_name @ ''/'' @ StreamableToString (int_string type_index))
        (StripTrailingSpaces (GetPrefixUntilComma names_text)) (Some (fst Type)) None (snd Type) u of
        Inl e \<Rightarrow> Inl e
      | Inr u' \<Rightarrow> TypeParameterizedTest_Register p getcwd prefix Types a_case_name names_text (type_index + 1) u')"

text \<open>\<open>TypeParameterizedTestCase::Register\<close>: \<open>n\<close> is the number of tests. Reading a missing list of names is
  undefined: \<open>None\<close>.\<close>

fun TypeParameterizedTestCase_Register ::
    "bool \<Rightarrow> platform \<Rightarrow> string option \<Rightarrow> string \<Rightarrow> string \<Rightarrow> int \<Rightarrow> (string \<times> nat) list \<Rightarrow> nat \<Rightarrow>
     TypedTestCasePState \<Rightarrow> string \<Rightarrow> string option \<Rightarrow> UnitTestImpl \<Rightarrow> (string + UnitTestImpl) option" where
  "TypeParameterizedTestCase_Register msc p getcwd prefix file line Types 0 st a_case_name names u = Some (Inr u)"
| "TypeParameterizedTestCase_Register msc p getcwd prefix file line Types (Suc n) st a_case_name None u = None"
| "TypeParameterizedTestCase_Register msc p getcwd prefix file line Types (Suc n) st a_case_name (Some names_text) u =
     (let a_test_name = StripTrailingSpaces (GetPrefixUntilComma names_text) in
      if \<not> TestExists st a_test_name then
        Some (Inl (''Failed to get code location for test '' @ a_case_name @ ''.'' @ a_test_name @ '' at '' @
          FormatFileLocation msc (Some file) line @ ''.''))
      else case GetCodeLocation st a_test_name of
        None \<Rightarrow> Some (Inl [])
      | Some test_location \<Rightarrow>
          (case TypeParameterizedTest_Register p getcwd prefix Types a_case_name names_text 0 u of
             Inl e \<Rightarrow> Some (Inl e)
           | Inr u' \<Rightarrow>
               TypeParameterizedTestCase_Register msc p getcwd prefix file line Types n st a_case_name
                 (SkipComma names_text) u'))"

text \<open>The registration of the macro \<open>TYPED_TEST\<close>.\<close>

definition TYPED_TEST ::
    "platform \<Rightarrow> string option \<Rightarrow> (string \<times> nat) list \<Rightarrow> string \<Rightarrow> string \<Rightarrow> UnitTestImpl \<Rightarrow> string + UnitTestImpl" where
  "TYPED_TEST p getcwd Types a_case_name a_test_name u =
     TypeParameterizedTest_Register p getcwd [] Types a_case_name a_test_name 0 u"

section \<open>The names in the list\<close>

text \<open>The fields between the commas, without the spaces around them.\<close>

fun comma_fields :: "string \<Rightarrow> string list" where
  "comma_fields [] = [[]]"
| "comma_fields (c # str) =
     (if c = CHR '','' then [] # comma_fields str
      else case comma_fields str of [] \<Rightarrow> [[c]] | f # fs \<Rightarrow> (c # f) # fs)"

definition trim_spaces :: "string \<Rightarrow> string" where
  "trim_spaces str = StripTrailingSpaces (dropWhile IsSpace str)"

definition listed_names :: "string \<Rightarrow> string list" where
  "listed_names str = map trim_spaces (comma_fields str)"

lemma comma_fields_eq:
  "comma_fields str = takeWhile (\<lambda>c. c \<noteq> CHR '','') str #
     (case dropWhile (\<lambda>c. c \<noteq> CHR '','') str of [] \<Rightarrow> [] | _ # s \<Rightarrow> comma_fields s)"
proof (induction str)
  case (Cons c str)
  show ?case
  proof (cases "c = CHR '',''")
    case False
    then show ?thesis by (simp add: Cons)
  qed simp
qed simp

lemma GetPrefix_takeWhile: "GetPrefixUntilComma str = takeWhile (\<lambda>c. c \<noteq> CHR '','') str"
proof (cases "dropWhile (\<lambda>c. c \<noteq> CHR '','') str")
  case Nil
  then have all: "takeWhile (\<lambda>c. c \<noteq> CHR '','') str = str"
    by (metis append_Nil2 takeWhile_dropWhile_id)
  show ?thesis unfolding GetPrefixUntilComma_def find_comma_dropWhile Nil by (simp add: all)
next
  case (Cons c s)
  have "take (length str - length (dropWhile (\<lambda>c. c \<noteq> CHR '','') str)) str = takeWhile (\<lambda>c. c \<noteq> CHR '','') str"
    by (metis add_diff_cancel_right' append_eq_conv_conj length_append takeWhile_dropWhile_id)
  then show ?thesis using Cons by (simp add: GetPrefixUntilComma_def find_comma_dropWhile)
qed

lemma not_space_comma: "\<not> IsSpace CHR '',''"
  by code_simp

lemma takeWhile_spaces:
  "takeWhile (\<lambda>c. c \<noteq> CHR '','') (dropWhile IsSpace str) = dropWhile IsSpace (takeWhile (\<lambda>c. c \<noteq> CHR '','') str)"
  "dropWhile (\<lambda>c. c \<noteq> CHR '','') (dropWhile IsSpace str) = dropWhile (\<lambda>c. c \<noteq> CHR '','') str"
  using not_space_comma by (induction str) auto

lemma split_names_fields: "split_names (dropWhile IsSpace str) = listed_names str"
proof (induction "length str" arbitrary: str rule: less_induct)
  case less
  have d: "SkipComma (dropWhile IsSpace str) =
      (case dropWhile (\<lambda>c. c \<noteq> CHR '','') str of [] \<Rightarrow> None | _ # s \<Rightarrow> Some (dropWhile IsSpace s))"
    by (cases "dropWhile (\<lambda>c. c \<noteq> CHR '','') str")
      (simp_all add: SkipComma_def find_comma_dropWhile takeWhile_spaces SkipSpaces_dropWhile del: dropWhile_eq_Nil_conv)
  show ?case
  proof (cases "dropWhile (\<lambda>c. c \<noteq> CHR '','') str")
    case Nil
    then show ?thesis
      by (subst split_names.simps, unfold listed_names_def, subst comma_fields_eq)
        (simp add: d GetPrefix_takeWhile takeWhile_spaces trim_spaces_def del: dropWhile_eq_Nil_conv)
  next
    case (Cons c s)
    then have "length s < length str"
      using length_dropWhile_le [of "\<lambda>c. c \<noteq> CHR '',''" str] by simp
    from less [OF this] Cons show ?thesis
      by (subst split_names.simps, unfold listed_names_def, subst comma_fields_eq)
        (simp add: d GetPrefix_takeWhile takeWhile_spaces trim_spaces_def)
  qed
qed

lemma SplitIntoTestNames_listed: "SplitIntoTestNames str = listed_names str"
  by (simp add: SplitIntoTestNames_def SkipSpaces_dropWhile split_names_fields)

section \<open>The check of the names\<close>

lemma find_registered_iff: "find_registered name m \<longleftrightarrow> name \<in> fst ` set m"
  by (induction m) auto

lemma check_listed_spec:
  "check_listed m names tests errors = (tests', errors') \<Longrightarrow>
     (errors' = [] \<longleftrightarrow> errors = [] \<and> distinct names \<and> set names \<inter> tests = {} \<and> set names \<subseteq> fst ` set m) \<and>
     tests' = tests \<union> (set names \<inter> fst ` set m)"
  by (induction m names tests errors rule: check_listed.induct) (auto simp: find_registered_iff split: if_splits)

lemma check_forgotten_iff: "check_forgotten m tests errors = [] \<longleftrightarrow> errors = [] \<and> fst ` set m \<subseteq> tests"
  by (induction m tests errors rule: check_forgotten.induct) auto

lemma verify_names:
  "VerifyRegisteredTestNames msc file line txt st = Inr r \<longleftrightarrow>
     distinct (listed_names txt) \<and> set (listed_names txt) = fst ` set (registered_map st) \<and>
     r = (txt, st\<lparr> registered_flag := True \<rparr>)"
  using check_listed_spec [of "registered_map st" "listed_names txt" "{}" "[]"]
  by (auto simp: VerifyRegisteredTestNames_def SplitIntoTestNames_listed check_forgotten_iff Let_def
      split: prod.splits if_splits) (metis fst_conv image_eqI)

section \<open>What is registered\<close>

definition typed_tests :: "string \<Rightarrow> (string \<times> nat) list \<Rightarrow> string \<Rightarrow> nat \<Rightarrow> string \<Rightarrow> TestInfo list" where
  "typed_tests prefix Types a_case_name i name =
     map (\<lambda>(k, Type). new_TestInfo
       (prefix @ (if prefix = [] then [] else ''/'') @ a_case_name @ ''/'' @ dec_string k)
       name (Some (fst Type)) None (snd Type)) (enumerate i Types)"

lemma typed_types:
  assumes "has_cwd p getcwd"
  shows "registered p getcwd u ts \<Longrightarrow>
    \<exists>u'. TypeParameterizedTest_Register p getcwd prefix Types a_case_name names (int i) u = Inr u' \<and>
      registered p getcwd u' (ts @ typed_tests prefix Types a_case_name i (StripTrailingSpaces (GetPrefixUntilComma names)))"
proof (induction Types arbitrary: i u ts)
  case (Cons Type Types)
  let ?t = "new_TestInfo (prefix @ (if prefix = [] then [] else ''/'') @ a_case_name @ ''/'' @ dec_string i)
    (StripTrailingSpaces (GetPrefixUntilComma names)) (Some (fst Type)) None (snd Type)"
  obtain u' where u': "AddTestInfo p getcwd ?t u = Some u'" using AddTestInfo_total [OF assms] by blast
  have index: "StreamableToString (int_string (int i)) = dec_string i"
    using StreamableToString_int [of "int i"] by (simp add: int_string_def)
  have "TypeParameterizedTest_Register p getcwd prefix (Type # Types) a_case_name names (int i) u =
      TypeParameterizedTest_Register p getcwd prefix Types a_case_name names (int (Suc i)) u'"
    by (simp only: TypeParameterizedTest_Register.simps MakeAndRegisterTestInfo_def index u' option.case sum.case)
      (simp add: add.commute)
  with Cons.IH [OF registered.add [OF Cons.prems u'], of "Suc i"] show ?case
    by (simp add: typed_tests_def)
qed (simp add: typed_tests_def)

lemma typed_cases:
  assumes cwd: "has_cwd p getcwd"
  shows "\<lbrakk>registered p getcwd u ts; set (split_names str) \<subseteq> fst ` set (registered_map st)\<rbrakk> \<Longrightarrow>
    \<exists>u'. TypeParameterizedTestCase_Register msc p getcwd prefix file line Types (length (split_names str)) st
        a_case_name (Some str) u = Some (Inr u') \<and>
      registered p getcwd u' (ts @ concat (map (typed_tests prefix Types a_case_name 0) (split_names str)))"
proof (induction "length str" arbitrary: str u ts rule: less_induct)
  case less
  let ?name = "StripTrailingSpaces (GetPrefixUntilComma str)"
  have split: "split_names str = ?name # (case SkipComma str of None \<Rightarrow> [] | Some s \<Rightarrow> split_names s)"
    by (subst split_names.simps) simp
  then have "?name \<in> fst ` set (registered_map st)" using less.prems(2) by simp
  then obtain l where l: "om_find (registered_map st) ?name = Some l"
    by (metis om_find_None not_Some_eq)
  obtain u1 where u1: "TypeParameterizedTest_Register p getcwd prefix Types a_case_name str 0 u = Inr u1"
      "registered p getcwd u1 (ts @ typed_tests prefix Types a_case_name 0 ?name)"
    using typed_types [OF cwd less.prems(1), of prefix Types a_case_name str 0] by auto
  show ?case
  proof (cases "SkipComma str")
    case None
    then show ?thesis
      using u1 l split by (simp add: Let_def TestExists_def GetCodeLocation_def)
  next
    case (Some s)
    from less.hyps [OF SkipComma_shorter [OF Some] u1(2)] less.prems(2) split Some
    obtain u' where "TypeParameterizedTestCase_Register msc p getcwd prefix file line Types (length (split_names s)) st
          a_case_name (Some s) u1 = Some (Inr u')"
        "registered p getcwd u' ((ts @ typed_tests prefix Types a_case_name 0 ?name) @
          concat (map (typed_tests prefix Types a_case_name 0) (split_names s)))"
      by auto
    then show ?thesis
      using u1 l split Some by (simp add: Let_def TestExists_def GetCodeLocation_def)
  qed
qed

section \<open>Properties\<close>

definition sample_typed_case :: TypedTestCasePState where
  "sample_typed_case =
     \<lparr> registered_flag = False,
       registered_map =
         [(''DoesA'', \<lparr> location_file = ''a.cc'', location_line = 4 \<rparr>),
          (''DoesB'', \<lparr> location_file = ''a.cc'', location_line = 9 \<rparr>)] \<rparr>"

lemma AddTestName_defines:
  assumes "\<not> registered_flag st"
  shows "\<exists>st1. AddTestName msc file line a_case_name name st = Inr st1 \<and> \<not> registered_flag st1 \<and>
    fst ` set (registered_map st1) = insert name (fst ` set (registered_map st))"
proof (cases "om_find (registered_map st) name")
  case None
  then show ?thesis using assms by (simp add: AddTestName_def)
next
  case (Some l)
  then have "name \<in> fst ` set (registered_map st)" using om_find_None [of "registered_map st" name] by simp
  then show ?thesis using assms Some by (simp add: AddTestName_def insert_absorb)
qed

lemma register_typed_tests:
  assumes "registered p getcwd u ts" "has_cwd p getcwd" "dropWhile IsSpace listed = listed"
  shows "if distinct (listed_names listed) \<and> set (listed_names listed) = fst ` set (registered_map st)
    then \<exists>st' u'. VerifyRegisteredTestNames msc loc_file loc_line listed st = Inr (listed, st') \<and>
      TypeParameterizedTestCase_Register msc p getcwd prefix loc_file loc_line Types (length (listed_names listed)) st'
        a_case_name (Some listed) u = Some (Inr u') \<and>
      registered p getcwd u' (ts @ concat (map (typed_tests prefix Types a_case_name 0) (listed_names listed))) \<and>
      (\<forall>name. \<exists>e. AddTestName msc loc_file loc_line a_case_name name st' = Inl e)
    else \<exists>e. VerifyRegisteredTestNames msc loc_file loc_line listed st = Inl e"
proof (cases "distinct (listed_names listed) \<and> set (listed_names listed) = fst ` set (registered_map st)")
  case True
  let ?st = "st\<lparr> registered_flag := True \<rparr>"
  have names: "listed_names listed = split_names listed"
    using split_names_fields [of listed] assms(3) by simp
  have "set (split_names listed) \<subseteq> fst ` set (registered_map ?st)" using True names by simp
  from typed_cases [OF assms(2,1) this] verify_names [of msc loc_file loc_line listed st] True names show ?thesis
    by (auto simp: AddTestName_def)
next
  case False
  then show ?thesis
    using verify_names [of msc loc_file loc_line listed st] by (cases "VerifyRegisteredTestNames msc loc_file loc_line listed st") auto
qed

text \<open>C38: Until the list of names is registered, each definition of a test adds its name to those that the
  test case defines. \<open>REGISTER_TYPED_TEST_CASE_P\<close> accepts a list of names exactly when, with the spaces around the
  commas removed, it lists every test that the test case defines once and nothing else, and it aborts
  otherwise. After an accepted list, \<open>INSTANTIATE_TYPED_TEST_CASE_P\<close> registers one test for every listed
  test and every type, in that nesting, and defining another test aborts.\<close>

theorem typed_tests_registered:
  assumes "registered p getcwd u ts" "has_cwd p getcwd" "dropWhile IsSpace listed = listed"
  shows "(\<not> registered_flag st \<longrightarrow> (\<forall>def_file def_line name. \<exists>st1.
      AddTestName msc def_file def_line a_case_name name st = Inr st1 \<and> \<not> registered_flag st1 \<and>
      fst ` set (registered_map st1) = insert name (fst ` set (registered_map st)))) \<and>
    (if distinct (listed_names listed) \<and> set (listed_names listed) = fst ` set (registered_map st)
    then \<exists>st' u'. VerifyRegisteredTestNames msc loc_file loc_line listed st = Inr (listed, st') \<and>
      TypeParameterizedTestCase_Register msc p getcwd prefix loc_file loc_line Types (length (listed_names listed)) st'
        a_case_name (Some listed) u = Some (Inr u') \<and>
      registered p getcwd u' (ts @ concat (map (typed_tests prefix Types a_case_name 0) (listed_names listed))) \<and>
      (\<forall>name. \<exists>e. AddTestName msc loc_file loc_line a_case_name name st' = Inl e)
    else \<exists>e. VerifyRegisteredTestNames msc loc_file loc_line listed st = Inl e)"
  by (rule conjI [OF _ register_typed_tests [OF assms]]) (intro impI allI AddTestName_defines)

theorem typed_tests_registered_witness:
  "\<exists>st' u'. VerifyRegisteredTestNames False ''a.cc'' 20 ''DoesB ,  DoesA'' sample_typed_case = Inr (''DoesB ,  DoesA'', st') \<and>
     TypeParameterizedTestCase_Register False Posix (Some ''/tmp'') ''My'' ''a.cc'' 20 [(''int'', 1), (''char'', 2)] 2 st'
       ''Foo'' (Some ''DoesB ,  DoesA'') new_UnitTestImpl = Some (Inr u') \<and>
     registered Posix (Some ''/tmp'') u'
       [new_TestInfo ''My/Foo/0'' ''DoesB'' (Some ''int'') None 1, new_TestInfo ''My/Foo/1'' ''DoesB'' (Some ''char'') None 2,
        new_TestInfo ''My/Foo/0'' ''DoesA'' (Some ''int'') None 1, new_TestInfo ''My/Foo/1'' ''DoesA'' (Some ''char'') None 2]"
proof -
  let ?listed = "''DoesB ,  DoesA''" and ?Types = "[(''int'', 1), (''char'', 2)]"
  have cwd: "has_cwd Posix (Some ''/tmp'')" by code_simp
  have spaces: "dropWhile IsSpace ?listed = ?listed" by code_simp
  have names: "listed_names ?listed = [''DoesB'', ''DoesA'']" by code_simp
  have two: "length (listed_names ?listed) = 2" unfolding names by simp
  have tests: "concat (map (typed_tests ''My'' ?Types ''Foo'' 0) (listed_names ?listed)) =
      [new_TestInfo ''My/Foo/0'' ''DoesB'' (Some ''int'') None 1, new_TestInfo ''My/Foo/1'' ''DoesB'' (Some ''char'') None 2,
       new_TestInfo ''My/Foo/0'' ''DoesA'' (Some ''int'') None 1, new_TestInfo ''My/Foo/1'' ''DoesA'' (Some ''char'') None 2]"
    unfolding names by code_simp
  have complete: "distinct (listed_names ?listed) \<and> set (listed_names ?listed) = fst ` set (registered_map sample_typed_case)"
    unfolding names by (auto simp: sample_typed_case_def)
  show ?thesis
    using typed_tests_registered [OF registered.start cwd spaces, of sample_typed_case
        False "''Foo''" "''a.cc''" 20 "''My''" ?Types, unfolded if_P [OF complete] two tests append_Nil]
    by blast
qed

end
