(* ===== verification/Gtest_LinkedPtr.thy ===== *)
theory Gtest_LinkedPtr
  imports Prelude
begin

text \<open>
  The reference-linked smart pointer of \<open>include/gtest/internal/gtest-linked_ptr.h\<close>, which
  holds the registered test-case information objects and the parameter generators.  Every
  \<open>linked_ptr\<close> is a cell of a store: the raw pointer it shares and the address of the
  next pointer of its ring; the pointers that share an object form one circular list, and the one
  that leaves an otherwise empty ring deletes the object.  The two loops over a ring are partial
  functions, so that a walk that never ends is \<open>None\<close>; an \<open>assert\<close> that
  fails and a dangling address are errors.  The mutex makes each list operation atomic.
\<close>

section \<open>The store\<close>

type_synonym lp_addr = nat
type_synonym raw_ptr = nat

abbreviation null_ptr :: raw_ptr where "null_ptr \<equiv> 0"

record linked_ptr =
  lp_value :: raw_ptr
  lp_next :: lp_addr

type_synonym lp_heap = "lp_addr \<rightharpoonup> linked_ptr"

record lp_store =
  lp_cells :: lp_heap
  lp_deleted :: "raw_ptr list"

definition set_next :: "lp_addr \<Rightarrow> lp_addr \<Rightarrow> lp_heap \<Rightarrow> lp_heap" where
  "set_next p n h = (case h p of None \<Rightarrow> h | Some c \<Rightarrow> h(p \<mapsto> c\<lparr>lp_next := n\<rparr>))"

definition set_value :: "lp_addr \<Rightarrow> raw_ptr \<Rightarrow> lp_heap \<Rightarrow> lp_heap" where
  "set_value p v h = h(p \<mapsto> \<lparr>lp_value = v, lp_next = (case h p of None \<Rightarrow> p | Some c \<Rightarrow> lp_next c)\<rparr>)"

section \<open>linked_ptr_internal\<close>

definition join_new :: "lp_addr \<Rightarrow> lp_heap \<Rightarrow> lp_heap" where
  "join_new this h = set_next this this h"

text \<open>
  The \<open>while\<close> loop of \<open>join\<close> and of \<open>depart\<close>: from \<open>p\<close>
  to the pointer whose \<open>next_\<close> is \<open>target\<close>, asserting on the way that
  \<open>next_\<close> is not \<open>forbidden\<close>.
\<close>

partial_function (option) ring_walk ::
  "lp_heap \<Rightarrow> lp_addr \<Rightarrow> lp_addr \<Rightarrow> string \<Rightarrow> lp_addr \<Rightarrow> lp_addr result option" where
  "ring_walk h target forbidden msg p =
     (case h p of
        None \<Rightarrow> Some (Inl (Undefined_behaviour ''dangling linked_ptr''))
      | Some c \<Rightarrow>
          if lp_next c = target then Some (Inr p)
          else if lp_next c = forbidden then Some (Inl (Runtime_error msg))
          else ring_walk h target forbidden msg (lp_next c))"

declare ring_walk.simps [code]

definition ring_join :: "lp_addr \<Rightarrow> lp_addr \<Rightarrow> lp_heap \<Rightarrow> lp_heap result option" where
  "ring_join this ptr h =
     map_option
       (\<lambda>r. bind_result r (\<lambda>p. Inr (set_next this ptr (set_next p this h))))
       (ring_walk h ptr this
          ''Trying to join() a linked ring we are already in. Is GMock thread safety enabled?'' ptr)"

definition ring_depart :: "lp_addr \<Rightarrow> lp_heap \<Rightarrow> (bool \<times> lp_heap) result option" where
  "ring_depart this h =
     (case h this of
        None \<Rightarrow> Some (Inl (Undefined_behaviour ''dangling linked_ptr''))
      | Some c \<Rightarrow>
          if lp_next c = this then Some (Inr (True, h))
          else map_option
                 (\<lambda>r. bind_result r (\<lambda>p. Inr (False, set_next p (lp_next c) h)))
                 (ring_walk h this (lp_next c)
                    ''Trying to depart() a linked ring we are not in. Is GMock thread safety enabled?''
                    (lp_next c)))"

section \<open>linked_ptr\<close>

text \<open>\<open>delete\<close> of a null pointer does nothing.\<close>

definition delete_raw :: "raw_ptr \<Rightarrow> lp_store \<Rightarrow> lp_store" where
  "delete_raw v s = (if v = null_ptr then s else s\<lparr>lp_deleted := lp_deleted s @ [v]\<rparr>)"

definition lp_get :: "lp_addr \<Rightarrow> lp_store \<Rightarrow> raw_ptr result" where
  "lp_get p s =
     (case lp_cells s p of
        None \<Rightarrow> Inl (Undefined_behaviour ''dangling linked_ptr'')
      | Some c \<Rightarrow> Inr (lp_value c))"

definition lp_depart :: "lp_addr \<Rightarrow> lp_store \<Rightarrow> lp_store result option" where
  "lp_depart this s =
     map_option
       (\<lambda>r. bind_result r (\<lambda>(was_last, h).
          bind_result (lp_get this s) (\<lambda>v.
            Inr ((if was_last then delete_raw v else id) (s\<lparr>lp_cells := h\<rparr>)))))
       (ring_depart this (lp_cells s))"

definition lp_capture :: "lp_addr \<Rightarrow> raw_ptr \<Rightarrow> lp_store \<Rightarrow> lp_store" where
  "lp_capture this ptr s = s\<lparr>lp_cells := join_new this (set_value this ptr (lp_cells s))\<rparr>"

definition lp_copy :: "lp_addr \<Rightarrow> lp_addr \<Rightarrow> lp_store \<Rightarrow> lp_store result option" where
  "lp_copy this ptr s =
     (case lp_get ptr s of
        Inl e \<Rightarrow> Some (Inl e)
      | Inr v \<Rightarrow>
          let h = set_value this v (lp_cells s) in
          if v \<noteq> null_ptr
          then map_option (\<lambda>r. bind_result r (\<lambda>h'. Inr (s\<lparr>lp_cells := h'\<rparr>))) (ring_join this ptr h)
          else Some (Inr (s\<lparr>lp_cells := join_new this h\<rparr>)))"

definition linked_ptr_new :: "lp_addr \<Rightarrow> raw_ptr \<Rightarrow> lp_store \<Rightarrow> lp_store" where
  "linked_ptr_new this ptr s = lp_capture this ptr s"

text \<open>The destructor, after which the cell is gone.\<close>

definition linked_ptr_destroy :: "lp_addr \<Rightarrow> lp_store \<Rightarrow> lp_store result option" where
  "linked_ptr_destroy this s =
     map_option
       (\<lambda>r. bind_result r (\<lambda>s'. Inr (s'\<lparr>lp_cells := (lp_cells s')(this := None)\<rparr>)))
       (lp_depart this s)"

definition linked_ptr_copy :: "lp_addr \<Rightarrow> lp_addr \<Rightarrow> lp_store \<Rightarrow> lp_store result option" where
  "linked_ptr_copy this ptr s =
     (if ptr \<noteq> this then lp_copy this ptr s else Some (Inl (Runtime_error ''&ptr != this'')))"

definition seq_result ::
  "'a result option \<Rightarrow> ('a \<Rightarrow> 'b result option) \<Rightarrow> 'b result option" where
  "seq_result r f =
     (case r of None \<Rightarrow> None | Some (Inl e) \<Rightarrow> Some (Inl e) | Some (Inr x) \<Rightarrow> f x)"

text \<open>Assignment from a pointer of another element type, and from one of the same type.\<close>

definition linked_ptr_assign_from :: "lp_addr \<Rightarrow> lp_addr \<Rightarrow> lp_store \<Rightarrow> lp_store result option" where
  "linked_ptr_assign_from this ptr s = seq_result (lp_depart this s) (lp_copy this ptr)"

definition linked_ptr_assign :: "lp_addr \<Rightarrow> lp_addr \<Rightarrow> lp_store \<Rightarrow> lp_store result option" where
  "linked_ptr_assign this ptr s =
     (if ptr \<noteq> this then seq_result (lp_depart this s) (lp_copy this ptr) else Some (Inr s))"

definition linked_ptr_reset :: "lp_addr \<Rightarrow> raw_ptr \<Rightarrow> lp_store \<Rightarrow> lp_store result option" where
  "linked_ptr_reset this ptr s =
     seq_result (lp_depart this s) (\<lambda>s'. Some (Inr (lp_capture this ptr s')))"

definition linked_ptr_eq :: "lp_addr \<Rightarrow> lp_addr \<Rightarrow> lp_store \<Rightarrow> bool result" where
  "linked_ptr_eq p q s =
     bind_result (lp_get p s) (\<lambda>v. bind_result (lp_get q s) (\<lambda>w. Inr (v = w)))"

definition linked_ptr_eq_raw :: "lp_addr \<Rightarrow> raw_ptr \<Rightarrow> lp_store \<Rightarrow> bool result" where
  "linked_ptr_eq_raw p v s = bind_result (lp_get p s) (\<lambda>w. Inr (w = v))"

text \<open>\<open>make_linked_ptr\<close>: the returned pointer is constructed at \<open>this\<close>.\<close>

definition make_linked_ptr :: "lp_addr \<Rightarrow> raw_ptr \<Rightarrow> lp_store \<Rightarrow> lp_store" where
  "make_linked_ptr this ptr s = linked_ptr_new this ptr s"

section \<open>Rings\<close>

fun links :: "lp_heap \<Rightarrow> lp_addr list \<Rightarrow> lp_addr \<Rightarrow> bool" where
  "links h [] e \<longleftrightarrow> True"
| "links h (p # ps) e \<longleftrightarrow>
     map_option lp_next (h p) = Some (case ps of [] \<Rightarrow> e | q # qs \<Rightarrow> q) \<and> links h ps e"

definition ring :: "lp_heap \<Rightarrow> lp_addr list \<Rightarrow> bool" where
  "ring h ps \<longleftrightarrow> ps \<noteq> [] \<and> distinct ps \<and> links h ps (hd ps)"

lemma links_append:
  "links h (ps @ qs) e \<longleftrightarrow> links h ps (case qs of [] \<Rightarrow> e | q # _ \<Rightarrow> q) \<and> links h qs e"
  by (induction ps) (auto split: list.splits)

lemma links_frame:
  "(\<And>p. p \<in> set ps \<Longrightarrow> map_option lp_next (h p) = map_option lp_next (h' p)) \<Longrightarrow>
     links h ps e = links h' ps e"
  by (induction ps) auto

lemma links_dom: "links h ps e \<Longrightarrow> set ps \<subseteq> dom h"
  by (induction ps) auto

lemma ring_rotate: "ring h (p # ps) \<Longrightarrow> ring h (ps @ [p])"
  by (cases ps) (auto simp: ring_def links_append split: list.splits)

lemma ring_from:
  assumes "ring h ps" and "q \<in> set ps"
  shows "\<exists>qs. ring h (q # qs) \<and> set (q # qs) = set ps"
  using assms
proof (induction "length (takeWhile (\<lambda>x. x \<noteq> q) ps)" arbitrary: ps)
  case 0
  then show ?case by (cases ps) (auto split: if_splits)
next
  case (Suc n)
  then obtain p ps' where ps: "ps = p # ps'" "p \<noteq> q" by (cases ps) (auto split: if_splits)
  have "q \<in> set ps'" using Suc.prems(2) ps by auto
  then have "length (takeWhile (\<lambda>x. x \<noteq> q) (ps' @ [p])) = n"
    using Suc.hyps(2) ps by (simp add: takeWhile_append1)
  then obtain qs where "ring h (q # qs)" "set (q # qs) = set (ps' @ [p])"
    using Suc.hyps(1) [of "ps' @ [p]"] ring_rotate [of h p ps'] Suc.prems(1) ps \<open>q \<in> set ps'\<close> by auto
  then show ?case using ps by auto
qed

text \<open>A walk along linked cells ends at the last of them.\<close>

lemma ring_walk_links:
  assumes "links h (p # ps) target" and "target \<notin> set ps" and "forbidden \<notin> set ps"
  shows "ring_walk h target forbidden msg p = Some (Inr (last (p # ps)))"
  using assms
proof (induction ps arbitrary: p)
  case Nil
  then show ?case by (subst ring_walk.simps) auto
next
  case (Cons q qs)
  then show ?case by (subst ring_walk.simps) auto
qed

section \<open>The invariant\<close>

definition owned :: "lp_heap \<Rightarrow> lp_addr \<rightharpoonup> raw_ptr" where
  "owned h p = map_option lp_value (h p)"

text \<open>
  The pointers that must form the ring of \<open>p\<close>: those that share its object, or
  \<open>p\<close> alone when it holds no object.
\<close>

definition sharers :: "(lp_addr \<rightharpoonup> raw_ptr) \<Rightarrow> lp_addr \<Rightarrow> lp_addr set" where
  "sharers f p =
     (case f p of
        None \<Rightarrow> {}
      | Some v \<Rightarrow> if v = null_ptr then {p} else {q. f q = Some v})"

definition rings_ok :: "lp_heap \<Rightarrow> bool" where
  "rings_ok h \<longleftrightarrow>
     (\<forall>p \<in> dom h. \<exists>ps. ring h (p # ps) \<and> set (p # ps) = sharers (owned h) p)"

lemma dom_owned [simp]: "dom (owned h) = dom h"
  by (auto simp: owned_def)

lemma owned_remove [simp]: "owned (h(p := None)) = (owned h)(p := None)"
  by (auto simp: owned_def)

lemma owned_empty [simp]: "owned Map.empty = Map.empty"
  by (rule ext) (simp add: owned_def)

lemma sharers_in_dom: "sharers f p \<subseteq> dom f"
  by (auto simp: sharers_def split: option.splits)

lemma sharers_sym: "q \<in> sharers f p \<Longrightarrow> sharers f q = sharers f p"
  by (auto simp: sharers_def split: option.splits if_splits)

lemma sharers_self: "p \<in> dom f \<Longrightarrow> p \<in> sharers f p"
  by (auto simp: sharers_def)

lemma sharers_disjoint: "p \<notin> sharers f r \<Longrightarrow> x \<in> sharers f p \<Longrightarrow> x \<notin> sharers f r"
  by (auto simp: sharers_def split: option.splits if_splits)

lemma sharers_remove: "p \<noteq> this \<Longrightarrow> sharers (f(this := None)) p = sharers f p - {this}"
  by (auto simp: sharers_def split: option.splits)

lemma sharers_add:
  assumes "f this = None" and "f ptr = Some v" and "v \<noteq> null_ptr"
  shows "sharers (f(this \<mapsto> v)) p =
    (if p \<in> insert this (sharers f ptr) then insert this (sharers f ptr) else sharers f p)"
  using assms by (auto simp: sharers_def split: option.splits if_splits)

lemma sharers_new:
  assumes "f this = None" and "v \<noteq> null_ptr \<Longrightarrow> v \<notin> ran f"
  shows "sharers (f(this \<mapsto> v)) p = (if p = this then {this} else sharers f p)"
  using assms by (auto simp: sharers_def ran_def split: option.splits if_splits)

lemma map_next_set_next:
  "map_option lp_next (set_next p n h q) =
     (if q = p then map_option (\<lambda>_. n) (h p) else map_option lp_next (h q))"
  by (simp add: set_next_def split: option.split)

lemma owned_set_next [simp]: "owned (set_next p n h) = owned h"
  by (rule ext) (simp add: owned_def set_next_def split: option.split)

lemma dom_set_next [simp]: "dom (set_next p n h) = dom h"
  by (auto simp: set_next_def split: option.split)

text \<open>One ring for every object determines the invariant.\<close>

lemma rings_okI:
  assumes "\<And>p. p \<in> dom h \<Longrightarrow> \<exists>ps. ring h ps \<and> set ps = sharers (owned h) p"
  shows "rings_ok h"
  unfolding rings_ok_def
proof
  fix p assume p: "p \<in> dom h"
  then obtain ps where "ring h ps" "set ps = sharers (owned h) p" using assms by blast
  then show "\<exists>ps. ring h (p # ps) \<and> set (p # ps) = sharers (owned h) p"
    using ring_from [of h ps p] sharers_self [of p "owned h"] p by auto
qed

lemma rings_okE:
  assumes "rings_ok h" and "p \<in> dom h"
  obtains ps where "ring h (p # ps)" and "set (p # ps) = sharers (owned h) p"
  using assms unfolding rings_ok_def by blast

lemma ring_frame:
  "(\<And>p. p \<in> set ps \<Longrightarrow> map_option lp_next (h p) = map_option lp_next (h' p)) \<Longrightarrow>
     ring h ps = ring h' ps"
  unfolding ring_def using links_frame [of ps h h'] by auto

section \<open>Leaving a ring\<close>

lemma links_cut:
  assumes "links h (ps @ [q]) e" and "q \<notin> set ps"
  shows "links (set_next q n h) (ps @ [q]) n"
proof -
  have "links (set_next q n h) ps q = links h ps q"
    using assms(2) by (intro links_frame) (auto simp: map_next_set_next)
  then show ?thesis
    using assms(1) by (auto simp: links_append map_next_set_next)
qed

lemma links_cut_last:
  assumes "links h ps e" and "distinct ps" and "ps \<noteq> []"
  shows "links (set_next (last ps) n h) ps n"
  using assms links_cut [of h "butlast ps" "last ps" e n]
  by (cases ps rule: rev_cases) auto

lemma ring_leave:
  assumes "ring h (p # ps)" and "ps \<noteq> []"
  shows "ring ((set_next (last ps) (hd ps) h)(p := None)) ps"
proof -
  have "ring (set_next (last ps) (hd ps) h) ps"
    using assms links_cut_last [of h ps p "hd ps"] by (simp add: ring_def)
  then show ?thesis
    using assms by (subst ring_frame [of _ _ "set_next (last ps) (hd ps) h"]) (auto simp: ring_def)
qed

lemma ring_depart_ring:
  assumes r: "ring h (this # ps)"
  shows "ring_depart this h =
    Some (Inr (ps = [], if ps = [] then h else set_next (last ps) (hd ps) h))"
proof (cases ps)
  case Nil
  then show ?thesis using r by (auto simp: ring_depart_def ring_def)
next
  case (Cons q qs)
  obtain c where c: "h this = Some c" "lp_next c = q" "q \<noteq> this"
    using r Cons by (auto simp: ring_def)
  have "ring_walk h this q m q = Some (Inr (last (q # qs)))" for m
    using r Cons by (intro ring_walk_links) (auto simp: ring_def)
  then show ?thesis
    using c Cons by (simp add: ring_depart_def)
qed

lemma rings_ok_depart:
  assumes ok: "rings_ok h" and "this \<in> dom h"
  shows "\<exists>h'. ring_depart this h = Some (Inr (sharers (owned h) this = {this}, h')) \<and>
    rings_ok (h'(this := None)) \<and> owned h' = owned h"
proof -
  let ?S = "sharers (owned h) this"
  obtain ps where r: "ring h (this # ps)" and s: "set (this # ps) = ?S"
    using assms by (rule rings_okE)
  define h' where "h' = (if ps = [] then h else set_next (last ps) (hd ps) h)"
  have own: "owned h' = owned h" by (simp add: h'_def)
  have dm: "dom h' = dom h" by (simp add: h'_def)
  have d: "distinct (this # ps)" using r by (simp add: ring_def)
  have ps: "set ps = ?S - {this}" using s d by auto
  have sh: "sharers (owned (h'(this := None))) p = sharers (owned h) p - {this}" if "p \<noteq> this" for p
    using that by (simp add: own sharers_remove)
  have "rings_ok (h'(this := None))"
  proof (rule rings_okI)
    fix p assume "p \<in> dom (h'(this := None))"
    then have p: "p \<noteq> this" "p \<in> dom h" using dm by (auto split: if_splits)
    show "\<exists>qs. ring (h'(this := None)) qs \<and> set qs = sharers (owned (h'(this := None))) p"
    proof (cases "p \<in> set ps")
      case True
      then have "ps \<noteq> []" by auto
      then have "ring (h'(this := None)) ps" using ring_leave [OF r] by (simp add: h'_def)
      moreover have "sharers (owned h) p = ?S"
        by (rule sharers_sym) (use True ps in blast)
      ultimately show ?thesis using ps sh [OF p(1)] by (intro exI [of _ ps]) simp
    next
      case False
      then have np: "p \<notin> ?S" using p ps by auto
      obtain qs where q: "ring h (p # qs)" "set (p # qs) = sharers (owned h) p"
        using ok p(2) by (rule rings_okE)
      have dis: "x \<notin> ?S" if "x \<in> set (p # qs)" for x
        using that unfolding q(2) by (rule sharers_disjoint [OF np])
      have th: "this \<notin> set (p # qs)"
        using dis [of this] sharers_self [of this "owned h"] assms(2) by auto
      have la: "ps \<noteq> [] \<Longrightarrow> last ps \<notin> set (p # qs)"
        using dis [of "last ps"] last_in_set [of ps] ps by auto
      have "map_option lp_next ((h'(this := None)) x) = map_option lp_next (h x)"
        if "x \<in> set (p # qs)" for x
      proof -
        have "x \<noteq> this" "ps \<noteq> [] \<Longrightarrow> x \<noteq> last ps" using that th la by metis+
        then show ?thesis by (cases "ps = []") (simp_all add: h'_def map_next_set_next)
      qed
      then have "ring (h'(this := None)) (p # qs) = ring h (p # qs)" by (rule ring_frame)
      then show ?thesis using q th sh [OF p(1)] by (intro exI [of _ "p # qs"]) auto
    qed
  qed
  moreover have "?S = {this} \<longleftrightarrow> ps = []" unfolding s [symmetric] using d by (cases ps) auto
  ultimately show ?thesis
    using ring_depart_ring [OF r] own by (intro exI [of _ h']) (simp add: h'_def)
qed

section \<open>Joining a ring\<close>

lemma owned_set_value [simp]: "owned (set_value this v h) = (owned h)(this \<mapsto> v)"
  by (rule ext) (simp add: owned_def set_value_def)

lemma rings_ok_new:
  assumes ok: "rings_ok (h(this := None))"
    and fresh: "v \<noteq> null_ptr \<Longrightarrow> v \<notin> ran ((owned h)(this := None))"
  shows "rings_ok (join_new this (set_value this v h))" (is "rings_ok ?h")
proof (rule rings_okI)
  fix p assume p: "p \<in> dom ?h"
  let ?f = "(owned h)(this := None)"
  have sh: "sharers (owned ?h) p = (if p = this then {this} else sharers ?f p)"
    using sharers_new [of ?f this v p] fresh by (simp add: join_new_def)
  show "\<exists>qs. ring ?h qs \<and> set qs = sharers (owned ?h) p"
  proof (cases "p = this")
    case True
    have "ring ?h [this]" by (simp add: ring_def join_new_def map_next_set_next set_value_def)
    then show ?thesis using True sh by (intro exI [of _ "[this]"]) simp
  next
    case False
    have "p \<in> dom (h(this := None))"
      using p False by (auto simp: join_new_def set_value_def)
    with ok obtain qs where q: "ring (h(this := None)) (p # qs)"
      "set (p # qs) = sharers (owned (h(this := None))) p" by (rule rings_okE)
    have th: "this \<notin> set (p # qs)" using sharers_in_dom [of ?f p] q(2) by auto
    have "ring ?h (p # qs) = ring (h(this := None)) (p # qs)"
      using th by (intro ring_frame) (auto simp: join_new_def map_next_set_next set_value_def)
    then show ?thesis using q sh False by (intro exI [of _ "p # qs"]) simp
  qed
qed

text \<open>What \<open>join\<close> does to a ring of cells that does not contain the joining one.\<close>

lemma ring_join_ring:
  assumes r: "ring h (ptr # ps)" and th: "this \<notin> set (ptr # ps)" and dm: "this \<in> dom h"
  defines "h' \<equiv> set_next this ptr (set_next (last (ptr # ps)) this h)"
  shows "ring_join this ptr h = Some (Inr h')" and "ring h' (ptr # ps @ [this])"
proof -
  let ?l = "last (ptr # ps)"
  have l1: "links h (ptr # ps) ptr" and d: "distinct (ptr # ps)"
    using r by (auto simp: ring_def)
  have la: "?l \<in> set (ptr # ps)" by (rule last_in_set) simp
  have dm': "\<exists>y. set_next ?l this h this = Some y"
    using dm dom_set_next [of ?l this h] by blast
  have "ring_walk h ptr this m ptr = Some (Inr ?l)" for m
    using l1 d th by (intro ring_walk_links) auto
  then show "ring_join this ptr h = Some (Inr h')" by (simp add: ring_join_def h'_def)
  have "links (set_next ?l this h) (ptr # ps) this"
    by (rule links_cut_last [OF l1 d]) simp
  also have "links (set_next ?l this h) (ptr # ps) this = links h' (ptr # ps) this"
    using th by (intro links_frame) (auto simp: h'_def map_next_set_next)
  finally have "links h' ((ptr # ps) @ [this]) ptr"
    unfolding links_append using dm' by (auto simp: h'_def map_next_set_next)
  then show "ring h' (ptr # ps @ [this])" using d th by (simp add: ring_def)
qed

lemma rings_ok_join:
  assumes ok: "rings_ok (h(this := None))" and ptr: "ptr \<noteq> this" "owned h ptr = Some v"
    and v: "v \<noteq> null_ptr"
  shows "\<exists>h'. ring_join this ptr (set_value this v h) = Some (Inr h') \<and> rings_ok h' \<and>
    owned h' = (owned h)(this \<mapsto> v)"
proof -
  let ?h0 = "h(this := None)" and ?h1 = "set_value this v h" and ?f = "(owned h)(this := None)"
  have "ptr \<in> dom h" using domI [of "owned h" ptr v, OF ptr(2)] by (simp only: dom_owned)
  then have "ptr \<in> dom ?h0" using ptr(1) by auto
  with ok obtain ps where r: "ring ?h0 (ptr # ps)" and s: "set (ptr # ps) = sharers (owned ?h0) ptr"
    by (rule rings_okE)
  have th: "this \<notin> set (ptr # ps)" using sharers_in_dom [of ?f ptr] s by auto
  have fr: "ring ?h1 qs = ring ?h0 qs" if "this \<notin> set qs" for qs
    using that by (intro ring_frame) (auto simp: set_value_def)
  let ?l = "last (ptr # ps)"
  let ?h2 = "set_next this ptr (set_next ?l this ?h1)"
  have r1: "ring ?h1 (ptr # ps)" using r th fr by blast
  have dm: "this \<in> dom ?h1" by (simp add: set_value_def)
  have sh: "sharers (owned ?h2) p =
      (if p \<in> insert this (sharers ?f ptr) then insert this (sharers ?f ptr) else sharers ?f p)" for p
    using sharers_add [of ?f this ptr v p] ptr v by simp
  have "rings_ok ?h2"
  proof (rule rings_okI)
    fix p assume "p \<in> dom ?h2"
    then have p: "p = this \<or> p \<in> dom ?h0" by (auto simp: set_value_def)
    show "\<exists>qs. ring ?h2 qs \<and> set qs = sharers (owned ?h2) p"
    proof (cases "p \<in> insert this (sharers ?f ptr)")
      case True
      then show ?thesis
        using ring_join_ring(2) [OF r1 th dm] s sh [of p]
        by (intro exI [of _ "ptr # ps @ [this]"]) auto
    next
      case False
      then have "p \<in> dom ?h0" using p by auto
      with ok obtain qs where q: "ring ?h0 (p # qs)" "set (p # qs) = sharers (owned ?h0) p"
        by (rule rings_okE)
      have dis: "x \<notin> sharers ?f ptr" if "x \<in> set (p # qs)" for x
        using that False unfolding q(2) by (auto dest: sharers_disjoint)
      have th': "this \<notin> set (p # qs)" using sharers_in_dom [of ?f p] q(2) by auto
      have la': "?l \<notin> set (p # qs)"
        using dis [of ?l] last_in_set [of "ptr # ps"] s by (metis list.discI owned_remove)
      have "ring ?h2 (p # qs) = ring ?h1 (p # qs)"
        using th' la' by (intro ring_frame) (auto simp: map_next_set_next)
      then show ?thesis using q fr [OF th'] sh [of p] False by (intro exI [of _ "p # qs"]) simp
    qed
  qed
  then show ?thesis
    using ring_join_ring(1) [OF r1 th dm] by (intro exI [of _ ?h2]) simp
qed

section \<open>Shared ownership\<close>

text \<open>
  What the class promises: which pointer holds which object, and the objects that have been
  deleted.  An object is deleted when its last pointer lets go of it.
\<close>

record ownership =
  owners :: "lp_addr \<rightharpoonup> raw_ptr"
  freed :: "raw_ptr list"

definition let_go :: "lp_addr \<Rightarrow> ownership \<Rightarrow> ownership" where
  "let_go p a =
     (let rest = (owners a)(p := None); v = the (owners a p) in
      \<lparr> owners = rest,
        freed = (if v \<noteq> null_ptr \<and> v \<notin> ran rest then freed a @ [v] else freed a) \<rparr>)"

definition hold :: "lp_addr \<Rightarrow> raw_ptr \<Rightarrow> ownership \<Rightarrow> ownership" where
  "hold p v a = a\<lparr>owners := (owners a)(p \<mapsto> v)\<rparr>"

datatype lp_op =
    Construct lp_addr raw_ptr
  | Copy_construct lp_addr lp_addr
  | Assign_same lp_addr lp_addr
  | Assign_from lp_addr lp_addr
  | Reset lp_addr raw_ptr
  | Destroy lp_addr

primrec lp_exec :: "lp_op \<Rightarrow> lp_store \<Rightarrow> lp_store result option" where
  "lp_exec (Construct p v) s = Some (Inr (linked_ptr_new p v s))"
| "lp_exec (Copy_construct p q) s = linked_ptr_copy p q s"
| "lp_exec (Assign_same p q) s = linked_ptr_assign p q s"
| "lp_exec (Assign_from p q) s = linked_ptr_assign_from p q s"
| "lp_exec (Reset p v) s = linked_ptr_reset p v s"
| "lp_exec (Destroy p) s = linked_ptr_destroy p s"

primrec spec_exec :: "lp_op \<Rightarrow> ownership \<Rightarrow> ownership" where
  "spec_exec (Construct p v) a = hold p v a"
| "spec_exec (Copy_construct p q) a = hold p (the (owners a q)) a"
| "spec_exec (Assign_same p q) a = (if p = q then a else hold p (the (owners a q)) (let_go p a))"
| "spec_exec (Assign_from p q) a = hold p (the (owners a q)) (let_go p a)"
| "spec_exec (Reset p v) a = hold p v (let_go p a)"
| "spec_exec (Destroy p) a = let_go p a"

text \<open>
  The client's side of the contract: a constructor runs at an address without a live pointer, the
  other operations on live ones, and a raw pointer is handed over once.
\<close>

definition unclaimed :: "raw_ptr \<Rightarrow> ownership \<Rightarrow> bool" where
  "unclaimed v a \<longleftrightarrow> v = null_ptr \<or> v \<notin> ran (owners a) \<and> v \<notin> set (freed a)"

primrec legal :: "lp_op \<Rightarrow> ownership \<Rightarrow> bool" where
  "legal (Construct p v) a \<longleftrightarrow> p \<notin> dom (owners a) \<and> unclaimed v a"
| "legal (Copy_construct p q) a \<longleftrightarrow> p \<notin> dom (owners a) \<and> q \<in> dom (owners a)"
| "legal (Assign_same p q) a \<longleftrightarrow> p \<in> dom (owners a) \<and> q \<in> dom (owners a)"
| "legal (Assign_from p q) a \<longleftrightarrow> p \<in> dom (owners a) \<and> q \<in> dom (owners a) \<and> p \<noteq> q"
| "legal (Reset p v) a \<longleftrightarrow> p \<in> dom (owners a) \<and> unclaimed v a"
| "legal (Destroy p) a \<longleftrightarrow> p \<in> dom (owners a)"

primrec lp_run :: "lp_op list \<Rightarrow> lp_store \<Rightarrow> lp_store result option" where
  "lp_run [] s = Some (Inr s)"
| "lp_run (x # xs) s = seq_result (lp_exec x s) (lp_run xs)"

primrec spec_run :: "lp_op list \<Rightarrow> ownership \<Rightarrow> ownership" where
  "spec_run [] a = a"
| "spec_run (x # xs) a = spec_run xs (spec_exec x a)"

primrec legal_run :: "lp_op list \<Rightarrow> ownership \<Rightarrow> bool" where
  "legal_run [] a \<longleftrightarrow> True"
| "legal_run (x # xs) a \<longleftrightarrow> legal x a \<and> legal_run xs (spec_exec x a)"

definition ownership_of :: "lp_store \<Rightarrow> ownership" where
  "ownership_of s = \<lparr> owners = owned (lp_cells s), freed = lp_deleted s \<rparr>"

definition no_pointers :: lp_store where
  "no_pointers = \<lparr> lp_cells = Map.empty, lp_deleted = [] \<rparr>"

lemma seq_result_simps [simp]:
  "seq_result (Some (Inr x)) f = f x"
  "seq_result (Some (Inl e)) f = Some (Inl e)"
  by (simp_all add: seq_result_def)

section \<open>The operations implement shared ownership\<close>

lemma owned_Some: "owned h p = Some v \<Longrightarrow> \<exists>c. h p = Some c \<and> lp_value c = v"
  by (auto simp: owned_def)

lemma lp_get_owned: "owned (lp_cells s) p = Some v \<Longrightarrow> lp_get p s = Inr v"
  by (auto simp: owned_def lp_get_def)

lemma ran_remove_subset: "ran (f(p := None)) \<subseteq> ran f"
  by (auto simp: ran_def)

lemma sole_sharer:
  "f p = Some v \<Longrightarrow> sharers f p = {p} \<longleftrightarrow> v = null_ptr \<or> v \<notin> ran (f(p := None))"
  by (auto simp: sharers_def ran_def)

lemma depart_spec:
  assumes ok: "rings_ok (lp_cells s)" and p: "p \<in> dom (lp_cells s)"
  shows "\<exists>s'. lp_depart p s = Some (Inr s') \<and> rings_ok ((lp_cells s')(p := None)) \<and>
    owned (lp_cells s') = owned (lp_cells s) \<and>
    lp_deleted s' = freed (let_go p (ownership_of s))"
proof -
  obtain v where v: "owned (lp_cells s) p = Some v" using p by (auto simp: owned_def)
  obtain h' where h: "ring_depart p (lp_cells s) =
      Some (Inr (sharers (owned (lp_cells s)) p = {p}, h'))"
    "rings_ok (h'(p := None))" "owned h' = owned (lp_cells s)"
    using rings_ok_depart [OF assms] by blast
  show ?thesis
    using h(2,3) v
    by (simp add: lp_depart_def h(1) sole_sharer [of _ _ v] lp_get_owned delete_raw_def let_go_def
        ownership_of_def)
qed

lemma capture_spec:
  assumes ok: "rings_ok ((lp_cells s)(p := None))"
    and fresh: "v \<noteq> null_ptr \<Longrightarrow> v \<notin> ran ((owned (lp_cells s))(p := None))"
  shows "rings_ok (lp_cells (lp_capture p v s))"
    and "ownership_of (lp_capture p v s) = hold p v (ownership_of s)"
  using rings_ok_new [OF assms]
  by (simp_all add: lp_capture_def ownership_of_def hold_def join_new_def)

lemma copy_spec:
  assumes ok: "rings_ok ((lp_cells s)(p := None))"
    and q: "q \<noteq> p" "owned (lp_cells s) q = Some v"
  shows "\<exists>s'. lp_copy p q s = Some (Inr s') \<and> rings_ok (lp_cells s') \<and>
    ownership_of s' = hold p v (ownership_of s)"
proof (cases "v = null_ptr")
  case True
  then show ?thesis
    using rings_ok_new [OF ok, of v] lp_get_owned [OF q(2)]
    by (simp add: lp_copy_def ownership_of_def hold_def join_new_def Let_def)
next
  case False
  then show ?thesis
    using rings_ok_join [OF ok q False] lp_get_owned [OF q(2)]
    by (auto simp: lp_copy_def ownership_of_def hold_def Let_def)
qed

lemma hold_let_go: "hold p v (let_go p a) = a\<lparr>owners := (owners a)(p \<mapsto> v), freed := freed (let_go p a)\<rparr>"
  by (simp add: hold_def let_go_def Let_def)

lemma exec_refines:
  assumes ok: "rings_ok (lp_cells s)" and l: "legal x (ownership_of s)"
  shows "\<exists>s'. lp_exec x s = Some (Inr s') \<and> rings_ok (lp_cells s') \<and>
    ownership_of s' = spec_exec x (ownership_of s)"
proof -
  let ?f = "owned (lp_cells s)"
  have absent: "(lp_cells s)(p := None) = lp_cells s" if "p \<notin> dom ?f" for p
    using that by (auto simp: domIff)
  have dm: "p \<in> dom (lp_cells s) \<longleftrightarrow> p \<in> dom ?f" for p by simp
  have own [simp]: "owners (ownership_of t) = owned (lp_cells t)"
    "freed (ownership_of t) = lp_deleted t" for t by (simp_all add: ownership_of_def)
  have assign: "\<exists>s'. seq_result (lp_depart p s) (lp_copy p q) = Some (Inr s') \<and>
      rings_ok (lp_cells s') \<and> ownership_of s' = hold p (the (?f q)) (let_go p (ownership_of s))"
    if pq: "p \<in> dom ?f" "q \<in> dom ?f" "q \<noteq> p" for p q
  proof -
    obtain v where v: "?f q = Some v" using pq(2) by blast
    obtain s1 where s1: "lp_depart p s = Some (Inr s1)" "rings_ok ((lp_cells s1)(p := None))"
      "owned (lp_cells s1) = ?f" "lp_deleted s1 = freed (let_go p (ownership_of s))"
      using depart_spec [OF ok] pq(1) dm by blast
    show ?thesis
      using copy_spec [OF s1(2) pq(3), of v] s1 v
      by (auto simp: hold_let_go) (auto simp: hold_def ownership_of_def)
  qed
  show ?thesis
  proof (cases x)
    case (Construct p v)
    then show ?thesis
      using l ok capture_spec [of s p v] absent [of p]
      by (auto simp: linked_ptr_new_def unclaimed_def ran_def)
  next
    case (Copy_construct p q)
    then show ?thesis
      using l ok copy_spec [of s p q "the (?f q)"] absent [of p]
      by (auto simp: linked_ptr_copy_def owned_def)
  next
    case (Assign_same p q)
    then show ?thesis
      using l ok assign [of p q] by (auto simp: linked_ptr_assign_def)
  next
    case (Assign_from p q)
    then show ?thesis
      using l assign [of p q] by (auto simp: linked_ptr_assign_from_def)
  next
    case (Reset p v)
    then have p: "p \<in> dom (lp_cells s)" and u: "unclaimed v (ownership_of s)"
      using l dom_owned [of "lp_cells s"] unfolding Reset legal.simps own by blast+
    obtain s1 where s1: "lp_depart p s = Some (Inr s1)" "rings_ok ((lp_cells s1)(p := None))"
      "owned (lp_cells s1) = ?f" "lp_deleted s1 = freed (let_go p (ownership_of s))"
      using depart_spec [OF ok p] by blast
    have "v \<noteq> null_ptr \<Longrightarrow> v \<notin> ran ((owned (lp_cells s1))(p := None))"
      using u ran_remove_subset [of ?f p] s1(3) by (auto simp: unclaimed_def)
    from capture_spec [OF s1(2) this]
    have "rings_ok (lp_cells (lp_capture p v s1))"
      "ownership_of (lp_capture p v s1) = hold p v (let_go p (ownership_of s))"
      using s1(3,4) by (simp_all add: hold_let_go) (simp add: hold_def ownership_of_def)
    then show ?thesis using s1(1) Reset by (simp add: linked_ptr_reset_def)
  next
    case (Destroy p)
    then have "p \<in> dom (lp_cells s)"
      using l dom_owned [of "lp_cells s"] unfolding Destroy legal.simps own by blast
    then obtain s1 where "lp_depart p s = Some (Inr s1)" "rings_ok ((lp_cells s1)(p := None))"
      "owned (lp_cells s1) = ?f" "lp_deleted s1 = freed (let_go p (ownership_of s))"
      using depart_spec [OF ok] by blast
    then show ?thesis
      using Destroy by (simp add: linked_ptr_destroy_def ownership_of_def let_go_def Let_def)
  qed
qed

section \<open>Every object is deleted exactly once\<close>

text \<open>The objects handed to the pointers by a run.\<close>

primrec handed :: "lp_op \<Rightarrow> raw_ptr set" where
  "handed (Construct p v) = {v}"
| "handed (Copy_construct p q) = {}"
| "handed (Assign_same p q) = {}"
| "handed (Assign_from p q) = {}"
| "handed (Reset p v) = {v}"
| "handed (Destroy p) = {}"

definition held :: "ownership \<Rightarrow> raw_ptr set" where
  "held a = ran (owners a) - {null_ptr}"

definition sound :: "ownership \<Rightarrow> bool" where
  "sound a \<longleftrightarrow> distinct (freed a) \<and> null_ptr \<notin> set (freed a) \<and> held a \<inter> set (freed a) = {}"

lemma ran_split:
  assumes "f p = Some v"
  shows "ran f = insert v (ran (f(p := None)))"
proof -
  have "(f(p := None))(p \<mapsto> v) = f" using assms by auto
  then show ?thesis using ran_map_upd [of "f(p := None)" p v] by simp
qed

lemma held_let_go:
  assumes "p \<in> dom (owners a)"
  shows "held (let_go p a) \<union> set (freed (let_go p a)) = held a \<union> set (freed a)"
proof -
  obtain v where v: "owners a p = Some v" using assms by blast
  show ?thesis using ran_split [of "owners a" p v] v by (auto simp: let_go_def Let_def held_def)
qed

lemma sound_let_go:
  assumes "sound a" and "p \<in> dom (owners a)"
  shows "sound (let_go p a)"
proof -
  obtain v where v: "owners a p = Some v" using assms by blast
  show ?thesis using ran_split [of "owners a" p v] assms(1) v by (auto simp: let_go_def Let_def held_def sound_def)
qed

lemma hold_fresh:
  assumes "owners a p = None"
  shows "held (hold p v a) = held a \<union> ({v} - {null_ptr})" and "freed (hold p v a) = freed a"
  using ran_map_upd [of "owners a" p v] assms by (auto simp: held_def hold_def)

text \<open>
  An assignment lets go of the old object while the source pointer still holds the new one, so the
  new object is never among the deleted ones.
\<close>

lemma spec_exec_sound:
  assumes s: "sound a" and l: "legal x a"
  shows "sound (spec_exec x a)"
    and "held (spec_exec x a) \<union> set (freed (spec_exec x a)) =
      held a \<union> set (freed a) \<union> (handed x - {null_ptr})"
proof -
  have go: "owners (let_go p a) p = None" "q \<noteq> p \<Longrightarrow> owners (let_go p a) q = owners a q" for p q
    by (simp_all add: let_go_def Let_def)
  have copy: "held (hold p v b) = held b" "freed (hold p v b) = freed b"
    if "owners b p = None" "v \<in> ran (owners b)" for p v b
    using that hold_fresh [of b p v] by (auto simp: held_def)
  have assign: "sound (hold p (the (owners a q)) (let_go p a)) \<and>
      held (hold p (the (owners a q)) (let_go p a)) \<union> set (freed (hold p (the (owners a q)) (let_go p a))) =
      held a \<union> set (freed a)" if pq: "p \<in> dom (owners a)" "q \<in> dom (owners a)" "p \<noteq> q" for p q
  proof -
    have "the (owners a q) \<in> ran (owners (let_go p a))"
      using pq go(2) [of q p] by (auto intro: ranI)
    from copy [OF go(1) this] show ?thesis
      using sound_let_go [OF s pq(1)] held_let_go [OF pq(1)] by (simp add: sound_def)
  qed
  have new: "sound (hold p v b) \<and> held (hold p v b) \<union> set (freed (hold p v b)) =
      held b \<union> set (freed b) \<union> ({v} - {null_ptr})"
    if "owners b p = None" "sound b" "v \<notin> set (freed b)" for p v b
    using that hold_fresh [of b p v] by (auto simp: sound_def)
  have reset: "v \<notin> set (freed (let_go p a))" if "p \<in> dom (owners a)" "unclaimed v a" for p v
    using that s held_let_go [OF that(1)] sound_let_go [OF s that(1)]
    by (cases "v = null_ptr") (auto simp: unclaimed_def sound_def held_def)
  have "sound (spec_exec x a) \<and>
    held (spec_exec x a) \<union> set (freed (spec_exec x a)) =
      held a \<union> set (freed a) \<union> (handed x - {null_ptr})"
  proof (cases x)
    case (Construct p v)
    then show ?thesis using l s new [of a p v] by (auto simp: unclaimed_def sound_def)
  next
    case (Copy_construct p q)
    then have "owners a p = None" "the (owners a q) \<in> ran (owners a)"
      using l by (auto intro: ranI)
    from copy [OF this] show ?thesis using s Copy_construct by (simp add: sound_def)
  next
    case (Assign_same p q)
    then show ?thesis using l s assign [of p q] by simp
  next
    case (Assign_from p q)
    then show ?thesis using l assign [of p q] by simp
  next
    case (Reset p v)
    then have p: "p \<in> dom (owners a)" "unclaimed v a" using l by auto
    show ?thesis
      using new [OF go(1) sound_let_go [OF s p(1)] reset [OF p]] held_let_go [OF p(1)] Reset by simp
  next
    case (Destroy p)
    then show ?thesis using l sound_let_go [OF s] held_let_go by simp
  qed
  then show "sound (spec_exec x a)"
    and "held (spec_exec x a) \<union> set (freed (spec_exec x a)) =
      held a \<union> set (freed a) \<union> (handed x - {null_ptr})" by blast+
qed

lemma run_refines:
  assumes "rings_ok (lp_cells s)" and "legal_run xs (ownership_of s)" and "sound (ownership_of s)"
  shows "\<exists>s'. lp_run xs s = Some (Inr s') \<and> rings_ok (lp_cells s') \<and>
    ownership_of s' = spec_run xs (ownership_of s) \<and> sound (ownership_of s') \<and>
    held (ownership_of s') \<union> set (lp_deleted s') =
      held (ownership_of s) \<union> set (lp_deleted s) \<union> (\<Union> (handed ` set xs) - {null_ptr})"
  using assms
proof (induction xs arbitrary: s)
  case Nil
  then show ?case by simp
next
  case (Cons x xs)
  obtain s1 where s1: "lp_exec x s = Some (Inr s1)" "rings_ok (lp_cells s1)"
    "ownership_of s1 = spec_exec x (ownership_of s)"
    using exec_refines [OF Cons.prems(1), of x] Cons.prems(2) by auto
  have fr: "freed (ownership_of t) = lp_deleted t" for t by (simp add: ownership_of_def)
  have "legal x (ownership_of s)" using Cons.prems(2) by simp
  from spec_exec_sound [OF Cons.prems(3) this]
  have so: "sound (ownership_of s1)"
    "held (ownership_of s1) \<union> set (lp_deleted s1) =
      held (ownership_of s) \<union> set (lp_deleted s) \<union> (handed x - {null_ptr})"
    unfolding s1(3) [symmetric] fr .
  obtain s' where "lp_run xs s1 = Some (Inr s')" "rings_ok (lp_cells s')"
    "ownership_of s' = spec_run xs (ownership_of s1)" "sound (ownership_of s')"
    "held (ownership_of s') \<union> set (lp_deleted s') =
      held (ownership_of s1) \<union> set (lp_deleted s1) \<union> (\<Union> (handed ` set xs) - {null_ptr})"
    using Cons.IH [OF s1(2) _ so(1)] Cons.prems(2) s1(3) by auto
  then show ?case using s1 so by (intro exI [of _ s']) auto
qed

text \<open>C12: smart pointers delete every object exactly once: whatever sequence of constructions,
  copies, assignments, resets and destructions a client performs (each raw pointer handed over
  once, operations on live pointers only), no loop over a ring runs for ever, no \<open>assert\<close>
  fails and no dangling cell is read; the pointers and the deletions are those of the shared-ownership
  specification; and at the end every object handed over is either held by a live pointer or has
  been deleted, never both and never twice.\<close>

theorem linked_ptr_refines_ownership:
  assumes "legal_run xs (ownership_of no_pointers)"
  shows "\<exists>s. lp_run xs no_pointers = Some (Inr s) \<and> rings_ok (lp_cells s) \<and>
    ownership_of s = spec_run xs (ownership_of no_pointers) \<and>
    distinct (lp_deleted s) \<and> held (ownership_of s) \<inter> set (lp_deleted s) = {} \<and>
    held (ownership_of s) \<union> set (lp_deleted s) = \<Union> (handed ` set xs) - {null_ptr}"
proof -
  have "rings_ok (lp_cells no_pointers)" by (simp add: no_pointers_def rings_ok_def)
  moreover have "held (ownership_of no_pointers) \<union> set (lp_deleted no_pointers) = {}"
    "sound (ownership_of no_pointers)"
    by (simp_all add: no_pointers_def ownership_of_def sound_def held_def owned_empty)
  ultimately obtain s where "lp_run xs no_pointers = Some (Inr s)" "rings_ok (lp_cells s)"
    "ownership_of s = spec_run xs (ownership_of no_pointers)" "sound (ownership_of s)"
    "held (ownership_of s) \<union> set (lp_deleted s) = \<Union> (handed ` set xs) - {null_ptr}"
    using run_refines [of no_pointers xs] assms by auto
  moreover have "freed (ownership_of s) = lp_deleted s" by (simp add: ownership_of_def)
  ultimately show ?thesis
    by (intro exI [of _ s]) (simp add: sound_def)
qed

definition sample_ops :: "lp_op list" where
  "sample_ops =
     [Construct 1 100, Copy_construct 2 1, Construct 3 200, Assign_same 3 2, Construct 4 0,
      Assign_from 4 3, Reset 1 300, Destroy 2, Destroy 3, Destroy 4, Assign_same 1 1]"

lemma sample_ops_legal: "legal_run sample_ops (ownership_of no_pointers)"
  by (auto simp: sample_ops_def no_pointers_def ownership_of_def owned_def hold_def let_go_def
      unclaimed_def Let_def ran_def)

theorem linked_ptr_refines_ownership_witness:
  "\<exists>s. lp_run sample_ops no_pointers = Some (Inr s) \<and> distinct (lp_deleted s) \<and>
     held (ownership_of s) \<union> set (lp_deleted s) = {100, 200, 300}"
  using linked_ptr_refines_ownership [OF sample_ops_legal]
  by (auto simp: sample_ops_def)

end
