(* ===== verification/Gtest_DeathTest.thy ===== *)
theory Gtest_DeathTest
  imports Gtest_Regex Gtest_UnitTest Gtest_Port
begin

text \<open>
  Death tests on a POSIX system (\<open>src/gtest-death-test.cc\<close>): the predicates on wait statuses, the
  one-byte protocol on the pipe from the child to the parent, \<open>DeathTestImpl\<close> and the two forking
  death tests up to the verdict.  A process is a state; an operation returns the new state and
  either a value or the way the process ended, or nothing when a system call never returns.  What
  the kernel answers to the calls still to come is part of the state: one list for each kind of call
  whose answer carries data, and one for the calls that only succeed or fail.
\<close>

section \<open>Wait statuses\<close>

text \<open>The macros of \<open>sys/wait.h\<close> on the 32-bit status.\<close>

definition WTERMSIG :: "c_int \<Rightarrow> int" where
  "WTERMSIG st = uint (and st 0x7F)"

definition WIFEXITED :: "c_int \<Rightarrow> bool" where
  "WIFEXITED st \<longleftrightarrow> WTERMSIG st = 0"

definition WEXITSTATUS :: "c_int \<Rightarrow> int" where
  "WEXITSTATUS st = uint (drop_bit 8 (and st 0xFF00))"

definition WIFSIGNALED :: "c_int \<Rightarrow> bool" where
  "WIFSIGNALED st \<longleftrightarrow> 0 < WTERMSIG st \<and> WTERMSIG st < 0x7F"

definition WCOREDUMP :: "c_int \<Rightarrow> bool" where
  "WCOREDUMP st \<longleftrightarrow> and st 0x80 \<noteq> 0"

definition ExitedWithCode :: "c_int \<Rightarrow> c_int \<Rightarrow> bool" where
  "ExitedWithCode exit_code exit_status \<longleftrightarrow>
     WIFEXITED exit_status \<and> WEXITSTATUS exit_status = sint exit_code"

definition KilledBySignal :: "c_int \<Rightarrow> c_int \<Rightarrow> bool" where
  "KilledBySignal signum exit_status \<longleftrightarrow>
     WIFSIGNALED exit_status \<and> WTERMSIG exit_status = sint signum"

definition ExitSummary :: "c_int \<Rightarrow> string" where
  "ExitSummary exit_code =
     (let m = new_Message;
          m = (if WIFEXITED exit_code then
                 stream_text (stream_text m ''Exited with exit status '') (int_string (WEXITSTATUS exit_code))
               else if WIFSIGNALED exit_code then
                 stream_text (stream_text m ''Terminated by signal '') (int_string (WTERMSIG exit_code))
               else m);
          m = (if WCOREDUMP exit_code then stream_text m '' (core dumped)'' else m)
      in GetString m)"

definition ExitedUnsuccessfully :: "c_int \<Rightarrow> bool" where
  "ExitedUnsuccessfully exit_status \<longleftrightarrow> \<not> ExitedWithCode 0 exit_status"

definition DeathTestThreadWarning :: "size_t \<Rightarrow> string" where
  "DeathTestThreadWarning thread_count =
     (let msg = Message_of (''Death tests use fork(), which is unsafe particularly'' @
            '' in a threaded context. For this test, '' @ ''Google Test'' @ '' '') in
      GetString
        (if thread_count = 0 then stream_text msg ''couldn't detect the number of threads.''
         else stream_text msg (''detected '' @ dec_string (unat thread_count) @ '' threads.'')))"

section \<open>Counting threads\<close>

lemma length_rest_word:
  assumes "dropWhile P t \<noteq> []"
  shows "length (dropWhile (\<lambda>c. \<not> P c) (dropWhile P t)) < length t"
proof (cases "dropWhile P t")
  case (Cons c s)
  then have "\<not> P c" using hd_dropWhile [of P t] by simp
  then have "length (dropWhile (\<lambda>c. \<not> P c) (dropWhile P t)) \<le> length s"
    using Cons by (simp add: length_dropWhile_le)
  also have "\<dots> < length (dropWhile P t)" using Cons by simp
  also have "\<dots> \<le> length t" by (rule length_dropWhile_le)
  finally show ?thesis .
qed (use assms in simp)

text \<open>\<open>file >> dummy\<close> reads the next word; \<open>file >> output\<close> reads a number, clamped to an
  \<open>int\<close>, and 0 when there is none.\<close>

function stream_words :: "string \<Rightarrow> string list" where
  "stream_words t =
     (let s = dropWhile IsSpace t in
      if s = [] then []
      else takeWhile (\<lambda>c. \<not> IsSpace c) s # stream_words (dropWhile (\<lambda>c. \<not> IsSpace c) s))"
  by pat_completeness auto

termination
  by (relation "measure length")
    (simp_all add: length_rest_word del: dropWhile_eq_Nil_conv)

declare stream_words.simps [simp del]

definition ReadProcFileField :: "string \<Rightarrow> nat \<Rightarrow> c_int" where
  "ReadProcFileField contents field =
     (case drop field (stream_words contents) of
        [] \<Rightarrow> 0
      | w # _ \<Rightarrow> word_of_int (max (- (2 ^ 31)) (min (2 ^ 31 - 1) (fst (strtol w)))))"

definition GetThreadCount :: "string \<Rightarrow> size_t" where
  "GetThreadCount stat_file = int_to_size (ReadProcFileField stat_file 19)"

section \<open>Processes\<close>

datatype 'a sys = Sys_ok 'a | Sys_fails int

definition EINTR :: int where "EINTR = 4"

text \<open>How a process ends: by \<open>_exit\<close>, by a signal, or by becoming another program.\<close>

datatype ending =
    Exits c_int
  | Killed c_int
  | Execs "string option list"
  | Undefined string

definition SIGABRT :: c_int where "SIGABRT = 6"

record InternalRunDeathTestFlag =
  flag_file :: string
  flag_line :: c_int
  flag_index :: c_int
  flag_write_fd :: c_int

record proc =
  k_read :: "string sys list"
  k_calls :: "unit sys list"
  k_waitpid :: "c_int sys list"
  k_pipe :: "(c_int \<times> c_int) sys list"
  k_fork :: "c_int sys list"
  k_exec :: "unit sys list"
  fd_output :: "(c_int \<times> string) list"
  fds_closed :: "c_int list"
  stderr_output :: string
  stderr_capture :: "string option"
  captured_elsewhere :: string
  strerror :: "int \<Rightarrow> string"
  source_file :: string
  port_source_file :: string
  proc_self_stat :: string
  stack_usable :: bool
  work_dir :: string
  injected_arguments :: "string list option"
  arguments :: "string list"
  FLAG_death_test_style :: string
  FLAG_death_test_use_fork :: bool
  FLAG_internal_run_death_test :: string
  run_flag :: "InternalRunDeathTestFlag option"
  g_in_fast_death_test_child :: bool
  last_death_test_message :: string
  current_test_info :: "TestInfo option"
  forwarding_events :: bool
  log_to_stderr :: bool

type_synonym 'a op = "proc \<Rightarrow> ((ending + 'a) \<times> proc) option"

definition returns :: "'a \<Rightarrow> 'a op" where
  "returns x p = Some (Inr x, p)"

definition ends :: "ending \<Rightarrow> 'a op" where
  "ends e p = Some (Inl e, p)"

definition op_bind :: "'a op \<Rightarrow> ('a \<Rightarrow> 'b op) \<Rightarrow> 'b op" where
  "op_bind m f p =
     (case m p of
        None \<Rightarrow> None
      | Some (Inl e, p') \<Rightarrow> Some (Inl e, p')
      | Some (Inr x, p') \<Rightarrow> f x p')"

definition op_then :: "unit op \<Rightarrow> 'b op \<Rightarrow> 'b op" where
  "op_then m n = op_bind m (\<lambda>_. n)"

definition modify :: "(proc \<Rightarrow> proc) \<Rightarrow> unit op" where
  "modify f p = Some (Inr (), f p)"

definition gets :: "(proc \<Rightarrow> 'a) \<Rightarrow> 'a op" where
  "gets f p = Some (Inr (f p), p)"

named_theorems op_simps \<open>evaluation of the operations of a process\<close>

lemma op_evaluation [op_simps]:
  "returns x p = Some (Inr x, p)"
  "ends e p = Some (Inl e, p)"
  "modify f p = Some (Inr (), f p)"
  "gets g p = Some (Inr (g p), p)"
  by (simp_all add: returns_def ends_def modify_def gets_def)

lemma op_bind_simps [op_simps]:
  "m p = None \<Longrightarrow> op_bind m f p = None"
  "m p = Some (Inl e, p') \<Longrightarrow> op_bind m f p = Some (Inl e, p')"
  "m p = Some (Inr x, p') \<Longrightarrow> op_bind m f p = f x p'"
  by (simp_all add: op_bind_def)

lemma op_then_simps [op_simps]:
  "u p = None \<Longrightarrow> op_then u n p = None"
  "u p = Some (Inl e, p') \<Longrightarrow> op_then u n p = Some (Inl e, p')"
  "u p = Some (Inr y, p') \<Longrightarrow> op_then u n p = n p'"
  by (simp_all add: op_then_def op_bind_simps)

text \<open>Standard error goes to the capture file while there is one.\<close>

definition print_stderr :: "string \<Rightarrow> unit op" where
  "print_stderr s = modify (\<lambda>p.
     case stderr_capture p of
       None \<Rightarrow> p\<lparr>stderr_output := stderr_output p @ s\<rparr>
     | Some t \<Rightarrow> p\<lparr>stderr_capture := Some (t @ s)\<rparr>)"

definition write_fd_text :: "c_int \<Rightarrow> string \<Rightarrow> unit op" where
  "write_fd_text fd s = modify (\<lambda>p. p\<lparr>fd_output := fd_output p @ [(fd, s)]\<rparr>)"

text \<open>What a parent reads from the pipe is what was written to the descriptor, in order.\<close>

definition sent_to :: "c_int \<Rightarrow> proc \<Rightarrow> string" where
  "sent_to fd p = concat (map snd (List.filter (\<lambda>(d, s). d = fd) (fd_output p)))"

section \<open>Aborting and the log\<close>

definition kDeathTestLived :: char where "kDeathTestLived = CHR ''L''"
definition kDeathTestReturned :: char where "kDeathTestReturned = CHR ''R''"
definition kDeathTestThrew :: char where "kDeathTestThrew = CHR ''T''"
definition kDeathTestInternalError :: char where "kDeathTestInternalError = CHR ''I''"

datatype DeathTestOutcome = IN_PROGRESS | DIED | LIVED | RETURNED | THREW

definition DeathTestAbort :: "string \<Rightarrow> 'a op" where
  "DeathTestAbort msg =
     op_bind (gets run_flag) (\<lambda>flag.
       case flag of
         Some f \<Rightarrow>
           op_then (write_fd_text (flag_write_fd f) (kDeathTestInternalError # c_text msg)) (ends (Exits 1))
       | None \<Rightarrow> op_then (print_stderr (c_text msg)) (ends (Killed SIGABRT)))"

definition check_text :: "proc \<Rightarrow> nat \<Rightarrow> string \<Rightarrow> string" where
  "check_text p line expression =
     ''CHECK failed: File '' @ source_file p @ '', line '' @ StreamableToString (dec_string line) @
     '': '' @ expression"

definition GTEST_DEATH_TEST_CHECK :: "nat \<Rightarrow> string \<Rightarrow> bool \<Rightarrow> unit op" where
  "GTEST_DEATH_TEST_CHECK line expression holds =
     (if \<not> holds then op_bind (gets (\<lambda>p. check_text p line expression)) DeathTestAbort else returns ())"

text \<open>The inner loop of \<open>GTEST_DEATH_TEST_CHECK_SYSCALL_\<close>: the call is repeated while it is
  interrupted.\<close>

primrec retry_eintr :: "'a sys list \<Rightarrow> ('a sys \<times> 'a sys list) option" where
  "retry_eintr [] = None"
| "retry_eintr (a # later) = (if a = Sys_fails EINTR then retry_eintr later else Some (a, later))"

definition next_call :: "(proc \<Rightarrow> 'a sys list) \<Rightarrow> ('a sys list \<Rightarrow> proc \<Rightarrow> proc) \<Rightarrow> 'a sys op" where
  "next_call calls set_calls p =
     (case calls p of [] \<Rightarrow> None | a # later \<Rightarrow> Some (Inr a, set_calls later p))"

definition retried_call :: "(proc \<Rightarrow> 'a sys list) \<Rightarrow> ('a sys list \<Rightarrow> proc \<Rightarrow> proc) \<Rightarrow> 'a sys op" where
  "retried_call calls set_calls p =
     (case retry_eintr (calls p) of None \<Rightarrow> None | Some (a, later) \<Rightarrow> Some (Inr a, set_calls later p))"

definition GTEST_DEATH_TEST_CHECK_SYSCALL ::
    "nat \<Rightarrow> string \<Rightarrow> (proc \<Rightarrow> 'a sys list) \<Rightarrow> ('a sys list \<Rightarrow> proc \<Rightarrow> proc) \<Rightarrow> 'a op" where
  "GTEST_DEATH_TEST_CHECK_SYSCALL line expression calls set_calls =
     op_bind (retried_call calls set_calls) (\<lambda>a.
       case a of
         Sys_ok x \<Rightarrow> returns x
       | Sys_fails e \<Rightarrow>
           op_bind (gets (\<lambda>p. check_text p line (expression @ '' != -1''))) DeathTestAbort)"

abbreviation set_reads :: "string sys list \<Rightarrow> proc \<Rightarrow> proc" where
  "set_reads xs p \<equiv> p\<lparr>k_read := xs\<rparr>"

abbreviation set_calls :: "unit sys list \<Rightarrow> proc \<Rightarrow> proc" where
  "set_calls xs p \<equiv> p\<lparr>k_calls := xs\<rparr>"

abbreviation set_waits :: "c_int sys list \<Rightarrow> proc \<Rightarrow> proc" where
  "set_waits xs p \<equiv> p\<lparr>k_waitpid := xs\<rparr>"

definition checked_close :: "nat \<Rightarrow> string \<Rightarrow> c_int \<Rightarrow> unit op" where
  "checked_close line expression fd =
     op_then (GTEST_DEATH_TEST_CHECK_SYSCALL line expression k_calls set_calls)
       (modify (\<lambda>p. p\<lparr>fds_closed := fds_closed p @ [fd]\<rparr>))"

definition GetLastErrnoDescription :: "int \<Rightarrow> proc \<Rightarrow> string" where
  "GetLastErrnoDescription errno p = (if errno = 0 then '''' else strerror p errno)"

text \<open>\<open>GTEST_LOG_(WARNING)\<close> and \<open>GTEST_LOG_(FATAL)\<close>, the second of which does not return.\<close>

definition log_text :: "GTestLogSeverity \<Rightarrow> string \<Rightarrow> nat \<Rightarrow> string \<Rightarrow> string" where
  "log_text severity file line msg =
     GTestLog_begin False severity (Some file) (int line) @ msg @ fst (GTestLog_end severity)"

definition log_warning :: "nat \<Rightarrow> string \<Rightarrow> unit op" where
  "log_warning line msg =
     op_bind (gets source_file) (\<lambda>file. print_stderr (log_text GTEST_WARNING file line msg))"

definition log_fatal_in :: "(proc \<Rightarrow> string) \<Rightarrow> nat \<Rightarrow> string \<Rightarrow> 'a op" where
  "log_fatal_in source line msg =
     op_bind (gets source) (\<lambda>file.
       op_then (print_stderr (log_text GTEST_FATAL file line msg)) (ends (Killed SIGABRT)))"

abbreviation log_fatal :: "nat \<Rightarrow> string \<Rightarrow> 'a op" where
  "log_fatal \<equiv> log_fatal_in source_file"

text \<open>
  \<open>CaptureStderr\<close> and \<open>GetCapturedStderr\<close>: the capture file holds what this process printed and what
  other processes that share the descriptor printed.
\<close>

definition CaptureStderr :: "unit op" where
  "CaptureStderr =
     op_bind (gets stderr_capture) (\<lambda>stream.
       if stream \<noteq> None then log_fatal_in port_source_file 1020 ''Only one stderr capturer can exist at a time.''
       else modify (\<lambda>p. p\<lparr>stderr_capture := Some []\<rparr>))"

definition GetCapturedStderr :: "string op" where
  "GetCapturedStderr =
     op_bind (gets stderr_capture) (\<lambda>stream.
       case stream of
         None \<Rightarrow> ends (Undefined ''g_captured_stderr is a null pointer'')
       | Some own \<Rightarrow>
           op_bind (gets captured_elsewhere) (\<lambda>other.
             op_then (modify (\<lambda>p. p\<lparr>stderr_capture := None, captured_elsewhere := []\<rparr>))
               (returns (own @ other))))"

definition InDeathTestChild :: "proc \<Rightarrow> bool" where
  "InDeathTestChild p =
     (if FLAG_death_test_style p = ''threadsafe''
      then FLAG_internal_run_death_test p \<noteq> [] else g_in_fast_death_test_child p)"

text \<open>
  The two loops of \<open>FailFromInternalError\<close>: the text collected, and the error of the last read, if any.
  Each chunk is streamed as the C string in the buffer.
\<close>

primrec internal_error_loop ::
    "string \<Rightarrow> string sys list \<Rightarrow> (string \<times> int option \<times> string sys list) option" where
  "internal_error_loop error [] = None"
| "internal_error_loop error (a # later) =
     (case a of
        Sys_ok buffer \<Rightarrow>
          if buffer = [] then Some (error, None, later)
          else internal_error_loop (error @ c_text buffer) later
      | Sys_fails e \<Rightarrow>
          if e = EINTR then internal_error_loop error later else Some (error, Some e, later))"

definition FailFromInternalError :: "'a op" where
  "FailFromInternalError p =
     (case internal_error_loop [] (k_read p) of
        None \<Rightarrow> None
      | Some (error, None, later) \<Rightarrow>
          log_fatal 336 (StringStreamToString error) (p\<lparr>k_read := later\<rparr>)
      | Some (error, Some last_error, later) \<Rightarrow>
          log_fatal 339
            (''Error while reading death test internal: '' @ GetLastErrnoDescription last_error p @
             '' ['' @ int_string last_error @ '']'') (p\<lparr>k_read := later\<rparr>))"

section \<open>\<open>DeathTestImpl\<close>\<close>

datatype AbortReason = TEST_ENCOUNTERED_RETURN_STATEMENT | TEST_THREW_EXCEPTION | TEST_DID_NOT_DIE

datatype TestRole = OVERSEE_TEST | EXECUTE_TEST

text \<open>The concrete class: \<open>ExecDeathTest\<close> with its file and line, or \<open>NoExecDeathTest\<close>.\<close>

datatype death_test_style = Exec_style string c_int | No_exec_style

record DeathTestImpl =
  dt_style :: death_test_style
  dt_statement :: string
  dt_regex :: RE
  dt_spawned :: bool
  dt_status :: c_int
  dt_outcome :: DeathTestOutcome
  dt_read_fd :: c_int
  dt_write_fd :: c_int
  dt_child_pid :: c_int

definition set_last_death_test_message :: "string \<Rightarrow> unit op" where
  "set_last_death_test_message msg = modify (\<lambda>p. p\<lparr>last_death_test_message := msg\<rparr>)"

definition DeathTest_constructor :: "unit op" where
  "DeathTest_constructor =
     op_bind (gets current_test_info) (\<lambda>info.
       if info = None
       then DeathTestAbort (''Cannot run a death test outside of a TEST or '' @ ''TEST_F construct'')
       else returns ())"

text \<open>The constructors of \<open>DeathTest\<close>, \<open>DeathTestImpl\<close>, \<open>ForkingDeathTest\<close> and the concrete class.\<close>

definition new_DeathTest :: "death_test_style \<Rightarrow> string \<Rightarrow> RE \<Rightarrow> DeathTestImpl op" where
  "new_DeathTest style a_statement a_regex =
     op_then DeathTest_constructor
       (returns \<lparr> dt_style = style, dt_statement = a_statement, dt_regex = a_regex,
          dt_spawned = False, dt_status = -1, dt_outcome = IN_PROGRESS, dt_read_fd = -1,
          dt_write_fd = -1, dt_child_pid = -1 \<rparr>)"

definition DeathTestImpl_destructor :: "DeathTestImpl \<Rightarrow> unit op" where
  "DeathTestImpl_destructor dt = GTEST_DEATH_TEST_CHECK 385 ''read_fd_ == -1'' (dt_read_fd dt = -1)"

definition status_flag :: "char \<Rightarrow> DeathTestImpl \<Rightarrow> DeathTestImpl op" where
  "status_flag flag dt =
     (if flag = kDeathTestReturned then returns (dt\<lparr>dt_outcome := RETURNED\<rparr>)
      else if flag = kDeathTestThrew then returns (dt\<lparr>dt_outcome := THREW\<rparr>)
      else if flag = kDeathTestLived then returns (dt\<lparr>dt_outcome := LIVED\<rparr>)
      else if flag = kDeathTestInternalError then FailFromInternalError
      else log_fatal 465 (''Death test child process reported unexpected status byte ('' @
        dec_string (unat (scast (of_nat (of_char flag) :: 8 word) :: 32 word)) @ '')''))"

text \<open>One byte is asked for; an answer of more than one byte is not one of \<open>read\<close>.\<close>

definition ReadAndInterpretStatusByte :: "DeathTestImpl \<Rightarrow> DeathTestImpl op" where
  "ReadAndInterpretStatusByte dt =
     op_bind (retried_call k_read set_reads) (\<lambda>a.
     op_bind
       (case a of
          Sys_ok [] \<Rightarrow> returns (dt\<lparr>dt_outcome := DIED\<rparr>)
        | Sys_ok (flag # _) \<Rightarrow> status_flag flag dt
        | Sys_fails errno \<Rightarrow>
            op_bind (gets (GetLastErrnoDescription errno)) (\<lambda>description.
              log_fatal 470 (''Read from death test child process failed: '' @ description)))
       (\<lambda>dt'.
          op_then (checked_close 473 ''posix::Close(read_fd())'' (dt_read_fd dt'))
            (returns (dt'\<lparr>dt_read_fd := -1\<rparr>))))"

definition status_ch :: "AbortReason \<Rightarrow> char" where
  "status_ch reason =
     (if reason = TEST_DID_NOT_DIE then kDeathTestLived
      else if reason = TEST_THREW_EXCEPTION then kDeathTestThrew
      else kDeathTestReturned)"

definition DeathTestImpl_Abort :: "AbortReason \<Rightarrow> DeathTestImpl \<Rightarrow> 'a op" where
  "DeathTestImpl_Abort reason dt =
     op_then (GTEST_DEATH_TEST_CHECK_SYSCALL 489 ''posix::Write(write_fd(), &status_ch, 1)'' k_calls set_calls)
     (op_then (write_fd_text (dt_write_fd dt) [status_ch reason])
       (ends (Exits 1)))"

text \<open>The loop of \<open>FormatDeathTestOutput\<close>; \<open>output\<close> is what is left from position \<open>at\<close> on.\<close>

function FormatDeathTestOutput :: "string \<Rightarrow> string" where
  "FormatDeathTestOutput output =
     ''[  DEATH   ] '' @
     (if CHR 0x0A \<notin> set output then output
      else
        let line_end = length (takeWhile (\<lambda>c. c \<noteq> CHR 0x0A) output) in
        take (line_end + 1) output @ FormatDeathTestOutput (drop (line_end + 1) output))"
  by pat_completeness auto

termination
  by (relation "measure length") (auto dest: length_pos_if_in_set)

declare FormatDeathTestOutput.simps [simp del]

text \<open>
  \<open>Passed\<close>.  The captured standard error of the child is in the state; \<open>RE::PartialMatch\<close> is a
  parameter: POSIX systems link the C library's \<open>regexec\<close>, the others the engine of the framework.
\<close>

definition DeathTest_Passed ::
    "(string \<Rightarrow> RE \<Rightarrow> bool option) \<Rightarrow> bool \<Rightarrow> DeathTestImpl \<Rightarrow> bool op" where
  "DeathTest_Passed partial_match status_ok dt =
     (if \<not> dt_spawned dt then returns False
      else
        op_bind GetCapturedStderr (\<lambda>error_message.
          let report = (\<lambda>success tail.
                op_then (set_last_death_test_message
                    (StringStreamToString (''Death test: '' @ dt_statement dt @ [CHR 0x0A] @ tail)))
                  (returns success));
              output = FormatDeathTestOutput error_message in
          case dt_outcome dt of
            LIVED \<Rightarrow> report False (''    Result: failed to die.'' @ [CHR 0x0A] @
                       '' Error msg:'' @ [CHR 0x0A] @ output)
          | THREW \<Rightarrow> report False (''    Result: threw an exception.'' @ [CHR 0x0A] @
                       '' Error msg:'' @ [CHR 0x0A] @ output)
          | RETURNED \<Rightarrow> report False (''    Result: illegal return in test statement.'' @ [CHR 0x0A] @
                       '' Error msg:'' @ [CHR 0x0A] @ output)
          | DIED \<Rightarrow>
              if status_ok then
                (case partial_match (c_text error_message) (dt_regex dt) of
                   None \<Rightarrow> (\<lambda>p. None)
                 | Some matched \<Rightarrow>
                     if matched then report True []
                     else report False (''    Result: died but not with expected error.'' @ [CHR 0x0A] @
                       ''  Expected: '' @ (case pattern (dt_regex dt) of None \<Rightarrow> ''(null)'' | Some t \<Rightarrow> t) @ [CHR 0x0A] @
                       ''Actual msg:'' @ [CHR 0x0A] @ output))
              else report False (''    Result: died but not with expected exit code:'' @ [CHR 0x0A] @
                     ''            '' @ ExitSummary (dt_status dt) @ [CHR 0x0A] @
                     ''Actual msg:'' @ [CHR 0x0A] @ output)
          | IN_PROGRESS \<Rightarrow>
              log_fatal 582 ''DeathTest::Passed somehow called before conclusion of test''))"

section \<open>\<open>ForkingDeathTest\<close>\<close>

definition Wait :: "DeathTestImpl \<Rightarrow> (c_int \<times> DeathTestImpl) op" where
  "Wait dt =
     (if \<not> dt_spawned dt then returns (0, dt)
      else
        op_bind (ReadAndInterpretStatusByte dt) (\<lambda>dt'.
        op_bind (GTEST_DEATH_TEST_CHECK_SYSCALL 817 ''waitpid(child_pid_, &status_value, 0)'' k_waitpid set_waits)
          (\<lambda>status_value. returns (status_value, dt'\<lparr>dt_status := status_value\<rparr>))))"

definition open_pipe :: "nat \<Rightarrow> (c_int \<times> c_int) op" where
  "open_pipe line =
     op_bind (next_call k_pipe (\<lambda>xs p. p\<lparr>k_pipe := xs\<rparr>)) (\<lambda>a.
       case a of
         Sys_ok fds \<Rightarrow> returns fds
       | Sys_fails e \<Rightarrow> op_bind (gets (\<lambda>p. check_text p line ''pipe(pipe_fd) != -1'')) DeathTestAbort)"

text \<open>\<open>fork()\<close> answers 0 in the child, the process id in the parent, -1 when it fails.\<close>

definition fork_process :: "c_int op" where
  "fork_process =
     op_bind (next_call k_fork (\<lambda>xs p. p\<lparr>k_fork := xs\<rparr>)) (\<lambda>a.
       case a of Sys_ok pid \<Rightarrow> returns pid | Sys_fails e \<Rightarrow> returns (-1))"

definition NoExec_AssumeRole :: "DeathTestImpl \<Rightarrow> (TestRole \<times> DeathTestImpl) op" where
  "NoExec_AssumeRole dt =
     op_bind (gets (\<lambda>p. GetThreadCount (proc_self_stat p))) (\<lambda>thread_count.
     op_then (if thread_count \<noteq> 1 then log_warning 836 (DeathTestThreadWarning thread_count) else returns ())
     (op_bind (open_pipe 840) (\<lambda>(read_end, write_end).
     op_then (set_last_death_test_message [])
     (op_then CaptureStderr
     (op_bind fork_process (\<lambda>child_pid.
     op_then (GTEST_DEATH_TEST_CHECK 854 ''child_pid != -1'' (child_pid \<noteq> -1))
     (let dt1 = dt\<lparr>dt_child_pid := child_pid\<rparr> in
      if child_pid = 0 then
        op_then (checked_close 857 ''close(pipe_fd[0])'' read_end)
        (let dt2 = dt1\<lparr>dt_write_fd := write_end\<rparr> in
         op_then (modify (\<lambda>p. p\<lparr>log_to_stderr := True, forwarding_events := False,
                                g_in_fast_death_test_child := True\<rparr>))
           (returns (EXECUTE_TEST, dt2)))
      else
        op_then (checked_close 869 ''close(pipe_fd[1])'' write_end)
          (returns (OVERSEE_TEST, dt1\<lparr>dt_read_fd := read_end, dt_spawned := True\<rparr>)))))))))"

section \<open>The predicates\<close>

text \<open>The wait status of a process that ended: \<open>waitpid\<close> reports the low byte of the exit code, or
  the signal and whether the core was dumped.\<close>

definition wait_status :: "bool \<Rightarrow> ending \<Rightarrow> c_int" where
  "wait_status core e =
     (case e of
        Exits n \<Rightarrow> push_bit 8 (and n 0xFF)
      | Killed s \<Rightarrow> (if core then or (and s 0x7F) 0x80 else and s 0x7F)
      | _ \<Rightarrow> 0)"

lemma byte_masks: "(0x7F :: c_int) = mask 7" "(0xFF :: c_int) = mask 8"
  "(0xFF00 :: c_int) = push_bit 8 (mask 8)"
  by (simp_all add: mask_eq_exp_minus_1 push_bit_eq_mult)

lemma uint_low_bits: "uint (and n (mask k :: c_int)) = uint n mod 2 ^ k"
proof -
  have "uint (and n (mask k)) = take_bit k (uint n)"
    by (simp only: take_bit_eq_mask [symmetric] unsigned_take_bit_eq)
  then show ?thesis by (simp only: take_bit_eq_mod)
qed

lemma WTERMSIG_exit: "WTERMSIG (wait_status core (Exits n)) = 0"
proof -
  have "and (push_bit 8 (and n (mask 8))) (mask 7 :: c_int) = 0"
    by (rule bit_word_eqI) (auto simp: bit_simps)
  then show ?thesis by (simp add: WTERMSIG_def wait_status_def byte_masks)
qed

lemma WEXITSTATUS_exit: "WEXITSTATUS (wait_status core (Exits n)) = uint n mod 256"
proof -
  have "drop_bit 8 (and (push_bit 8 (and n (mask 8))) (push_bit 8 (mask 8) :: c_int)) = and n (mask 8)"
    by (rule bit_word_eqI) (auto simp: bit_simps)
  moreover have "uint (and n (mask 8 :: c_int)) = uint n mod 256"
    by (rule uint_low_bits [of n 8, simplified])
  ultimately show ?thesis by (simp add: WEXITSTATUS_def wait_status_def byte_masks)
qed

lemma WTERMSIG_killed: "WTERMSIG (wait_status core (Killed s)) = uint s mod 128"
proof -
  have "and (0x80 :: c_int) (mask 7) = 0" by (simp add: mask_eq_exp_minus_1)
  then have "and (if core then or (and s (mask 7)) 0x80 else and s (mask 7)) (mask 7 :: c_int) = and s (mask 7)"
    by (simp add: bit.conj_disj_distrib2 and.assoc)
  moreover have "uint (and s (mask 7 :: c_int)) = uint s mod 128"
    by (rule uint_low_bits [of s 7, simplified])
  ultimately show ?thesis by (cases core) (simp_all add: WTERMSIG_def wait_status_def byte_masks)
qed

text \<open>
  A process that exits is accepted by \<open>ExitedWithCode\<close> exactly for the low byte of its exit code, and
  one killed by a signal exactly by \<open>KilledBySignal\<close> of that signal; a core dump does not matter.
\<close>

lemma ExitedWithCode_exit:
  "ExitedWithCode c (wait_status core (Exits n)) \<longleftrightarrow> sint c = uint n mod 256"
  by (auto simp: ExitedWithCode_def WIFEXITED_def WTERMSIG_exit WEXITSTATUS_exit)

lemma ExitedWithCode_killed:
  "0 < uint s \<Longrightarrow> uint s < 127 \<Longrightarrow> \<not> ExitedWithCode c (wait_status core (Killed s))"
  by (simp add: ExitedWithCode_def WIFEXITED_def WTERMSIG_killed)

lemma KilledBySignal_exit: "\<not> KilledBySignal g (wait_status core (Exits n))"
  by (simp add: KilledBySignal_def WIFSIGNALED_def WTERMSIG_exit)

lemma KilledBySignal_killed:
  "0 < uint s \<Longrightarrow> uint s < 127 \<Longrightarrow>
     KilledBySignal g (wait_status core (Killed s)) \<longleftrightarrow> sint g = uint s"
  by (auto simp: KilledBySignal_def WIFSIGNALED_def WTERMSIG_killed)

lemma ExitedUnsuccessfully_exit:
  "ExitedUnsuccessfully (wait_status core (Exits n)) \<longleftrightarrow> uint n mod 256 \<noteq> 0"
  by (auto simp: ExitedUnsuccessfully_def ExitedWithCode_exit)

lemma ExitedUnsuccessfully_killed:
  "0 < uint s \<Longrightarrow> uint s < 127 \<Longrightarrow> ExitedUnsuccessfully (wait_status core (Killed s))"
  by (simp add: ExitedUnsuccessfully_def ExitedWithCode_killed)

section \<open>The output of a death test\<close>

text \<open>The formatted output is the output with the marker in front of every line.\<close>

lemma format_death_test_output:
  "FormatDeathTestOutput out =
     join_pieces CHR 0x0A (map (\<lambda>l. ''[  DEATH   ] '' @ l) (SplitString out CHR 0x0A))"
proof (induction out rule: FormatDeathTestOutput.induct)
  case (1 out)
  let ?line = "takeWhile (\<lambda>c. c \<noteq> CHR 0x0A) out"
  show ?case
  proof (cases "CHR 0x0A \<in> set out")
    case True
    let ?rest = "drop (length ?line + 1) out"
    have tk: "take (length ?line + 1) out = ?line @ [CHR 0x0A]"
      using split_first [OF True] by (metis append.assoc append_eq_conv_conj length_append_singleton Suc_eq_plus1)
    obtain p ps where ps: "SplitString ?rest CHR 0x0A = p # ps"
      using SplitString_nonempty by (metis neq_Nil_conv)
    have "FormatDeathTestOutput out =
        ''[  DEATH   ] '' @ (?line @ [CHR 0x0A]) @ FormatDeathTestOutput ?rest"
      unfolding tk [symmetric] using True by (subst FormatDeathTestOutput.simps) (simp add: Let_def)
    moreover have "SplitString out CHR 0x0A = ?line # SplitString ?rest CHR 0x0A"
      using True by (subst SplitString.simps) (simp add: Let_def)
    moreover have "FormatDeathTestOutput ?rest =
        join_pieces CHR 0x0A (map (\<lambda>l. ''[  DEATH   ] '' @ l) (p # ps))"
      using 1 [OF _ refl] True unfolding ps by blast
    ultimately show ?thesis
      unfolding ps by (simp only: list.map join_pieces.simps append.assoc)
  next
    case False
    then show ?thesis
      by (subst FormatDeathTestOutput.simps, subst SplitString.simps) (simp add: Let_def)
  qed
qed

end
