(* ===== verification/Gtest_DeathRun.thy ===== *)
theory Gtest_DeathRun
  imports Gtest_DeathTest Gtest_Flags
begin

text \<open>
  Running a death test: the arguments of the re-executed program, \<open>ExecDeathTest\<close>, the flag
  \<open>--gtest_internal_run_death_test\<close>, the factory, and the macro behind \<open>EXPECT_DEATH\<close> and its
  relatives, in the parent and in the child.
\<close>

section \<open>The arguments of the child\<close>

text \<open>A vector of C strings that always ends with a null pointer.\<close>

definition new_Arguments :: "string option list" where
  "new_Arguments = [None]"

definition insert_before_last :: "'a \<Rightarrow> 'a list \<Rightarrow> 'a list" where
  "insert_before_last x xs = take (length xs - 1) xs @ [x] @ drop (length xs - 1) xs"

definition AddArgument :: "string \<Rightarrow> string option list \<Rightarrow> string option list" where
  "AddArgument argument args = insert_before_last (Some (c_text argument)) args"

primrec AddArguments :: "string list \<Rightarrow> string option list \<Rightarrow> string option list" where
  "AddArguments [] args = args"
| "AddArguments (a # later) args = AddArguments later (insert_before_last (Some (c_text a)) args)"

definition GetArgvsForDeathTestChildProcess :: "proc \<Rightarrow> string list" where
  "GetArgvsForDeathTestChildProcess p = GetInjectableArgvs (injected_arguments p) (arguments p)"

section \<open>Spawning\<close>

definition called_once :: "(bool \<Rightarrow> unit op) \<Rightarrow> unit op" where
  "called_once f = op_bind (next_call k_calls set_calls) (\<lambda>a. f (a = Sys_ok ()))"

definition ExecDeathTestChildMain :: "string option list \<Rightarrow> c_int \<Rightarrow> 'a op" where
  "ExecDeathTestChildMain argv close_fd =
     op_then (checked_close 962 ''close(args->close_fd)'' close_fd)
     (op_bind (gets work_dir) (\<lambda>original_dir.
      op_bind (next_call k_calls set_calls) (\<lambda>chdir.
        case chdir of
          Sys_fails e \<Rightarrow>
            op_bind (gets (GetLastErrnoDescription e)) (\<lambda>description.
              DeathTestAbort (''chdir('' @ [CHR 0x22] @ original_dir @ [CHR 0x22] @ '') failed: '' @ description))
        | Sys_ok _ \<Rightarrow>
            op_bind (next_call k_exec (\<lambda>xs p. p\<lparr>k_exec := xs\<rparr>)) (\<lambda>execve.
              case execve of
                Sys_ok _ \<Rightarrow> ends (Execs argv)
              | Sys_fails e \<Rightarrow>
                  op_bind (gets (GetLastErrnoDescription e)) (\<lambda>description.
                    DeathTestAbort (''execve('' @ (case argv of Some a # _ \<Rightarrow> a | _ \<Rightarrow> []) @ '', ...) in '' @
                      original_dir @ '' failed: '' @ description))))))"

text \<open>
  \<open>ExecDeathTestSpawnChild\<close> on Linux: \<open>clone\<close> on a fresh stack, or \<open>fork\<close> when the flag asks for it.
  Either answers like \<open>fork\<close>; the child goes on in \<open>ExecDeathTestChildMain\<close>.
\<close>

definition ExecDeathTestSpawnChild :: "string option list \<Rightarrow> c_int \<Rightarrow> c_int op" where
  "ExecDeathTestSpawnChild argv close_fd =
     op_then (GTEST_DEATH_TEST_CHECK_SYSCALL 1064
        ''sigaction( SIGPROF, &ignore_sigprof_action, &saved_sigprof_action)'' k_calls set_calls)
     (op_bind (gets FLAG_death_test_use_fork) (\<lambda>use_fork.
      op_bind
       (if \<not> use_fork then
          op_then (called_once (GTEST_DEATH_TEST_CHECK 1077 ''stack != MAP_FAILED''))
          (op_bind (gets stack_usable) (\<lambda>usable.
           op_then (GTEST_DEATH_TEST_CHECK 1089 (''stack_size > kMaxStackAlignment && '' @
               ''reinterpret_cast<intptr_t>(stack_top) % kMaxStackAlignment == 0'') usable)
           (op_bind fork_process (\<lambda>child_pid.
              if child_pid = 0 then ExecDeathTestChildMain argv close_fd
              else op_then (called_once (GTEST_DEATH_TEST_CHECK 1094 ''munmap(stack, stack_size) != -1''))
                     (returns child_pid)))))
        else
          op_bind fork_process (\<lambda>child_pid.
            if child_pid = 0 then ExecDeathTestChildMain argv close_fd else returns child_pid))
       (\<lambda>child_pid.
         op_then (GTEST_DEATH_TEST_CHECK_SYSCALL 1106
            ''sigaction(SIGPROF, &saved_sigprof_action, NULL)'' k_calls set_calls)
         (op_then (GTEST_DEATH_TEST_CHECK 1110 ''child_pid != -1'' (child_pid \<noteq> -1))
           (returns child_pid)))))"

section \<open>\<open>ExecDeathTest\<close>\<close>

definition kFilterFlag :: string where "kFilterFlag = ''filter''"
definition kInternalRunDeathTestFlag :: string where
  "kInternalRunDeathTestFlag = ''internal_run_death_test''"

definition exec_filter_flag :: "TestInfo \<Rightarrow> string" where
  "exec_filter_flag info =
     ''--'' @ GTEST_FLAG_PREFIX @ kFilterFlag @ ''='' @ test_case_name info @ ''.'' @ test_name info"

text \<open>The text of the flag, and the argument.\<close>

definition internal_flag_value :: "string \<Rightarrow> c_int \<Rightarrow> int \<Rightarrow> c_int \<Rightarrow> string" where
  "internal_flag_value file line death_test_index fd =
     file @ ''|'' @ StreamableToString (int_string (sint line)) @ ''|'' @
     StreamableToString (int_string death_test_index) @ ''|'' @ StreamableToString (int_string (sint fd))"

definition exec_internal_flag :: "string \<Rightarrow> c_int \<Rightarrow> int \<Rightarrow> c_int \<Rightarrow> string" where
  "exec_internal_flag file line death_test_index fd =
     ''--'' @ GTEST_FLAG_PREFIX @ kInternalRunDeathTestFlag @ ''='' @
     internal_flag_value file line death_test_index fd"

definition exec_arguments :: "string list \<Rightarrow> TestInfo \<Rightarrow> string \<Rightarrow> string option list" where
  "exec_arguments argvs info internal_flag =
     AddArgument internal_flag (AddArgument (exec_filter_flag info) (AddArguments argvs new_Arguments))"

definition Exec_AssumeRole :: "string \<Rightarrow> c_int \<Rightarrow> DeathTestImpl \<Rightarrow> (TestRole \<times> DeathTestImpl) op" where
  "Exec_AssumeRole file line dt =
     op_bind (gets run_flag) (\<lambda>flag.
     op_bind (gets current_test_info) (\<lambda>current.
     case current of
       None \<Rightarrow> ends (Undefined ''current_test_info() is a null pointer'')
     | Some info \<Rightarrow>
     (let death_test_index = death_test_count (result_of info) in
      case flag of
        Some f \<Rightarrow> returns (EXECUTE_TEST, dt\<lparr>dt_write_fd := flag_write_fd f\<rparr>)
      | None \<Rightarrow>
      op_bind (open_pipe 1131) (\<lambda>(read_end, write_end).
      op_then (called_once (GTEST_DEATH_TEST_CHECK 1134 ''fcntl(pipe_fd[1], F_SETFD, 0) != -1''))
      (op_bind (gets GetArgvsForDeathTestChildProcess) (\<lambda>argvs.
      op_then (set_last_death_test_message [])
      (op_then CaptureStderr
      (op_bind (ExecDeathTestSpawnChild
          (exec_arguments argvs info (exec_internal_flag file line death_test_index write_end)) read_end)
       (\<lambda>child_pid.
      op_then (checked_close 1157 ''close(pipe_fd[1])'' write_end)
        (returns (OVERSEE_TEST,
           dt\<lparr>dt_child_pid := child_pid, dt_read_fd := read_end, dt_spawned := True\<rparr>)))))))))))"

definition AssumeRole :: "DeathTestImpl \<Rightarrow> (TestRole \<times> DeathTestImpl) op" where
  "AssumeRole dt =
     (case dt_style dt of
        Exec_style file line \<Rightarrow> Exec_AssumeRole file line dt
      | No_exec_style \<Rightarrow> NoExec_AssumeRole dt)"

section \<open>The factory\<close>

text \<open>\<open>DefaultDeathTestFactory::Create\<close>: the returned value and, when it is set, \<open>*test\<close>.\<close>

definition too_many_death_tests :: "int \<Rightarrow> c_int \<Rightarrow> string" where
  "too_many_death_tests death_test_index maximum =
     ''Death test count ('' @ StreamableToString (int_string death_test_index) @
     '') somehow exceeded expected maximum ('' @ StreamableToString (int_string (sint maximum)) @ '')''"

definition create_styled :: "string \<Rightarrow> RE \<Rightarrow> string \<Rightarrow> c_int \<Rightarrow> (bool \<times> DeathTestImpl option) op" where
  "create_styled a_statement regex file line =
     op_bind (gets FLAG_death_test_style) (\<lambda>style.
       if style = ''threadsafe'' then
         op_bind (new_DeathTest (Exec_style file line) a_statement regex) (\<lambda>dt. returns (True, Some dt))
       else if style = ''fast'' then
         op_bind (new_DeathTest No_exec_style a_statement regex) (\<lambda>dt. returns (True, Some dt))
       else
         op_then (set_last_death_test_message
             (''Unknown death test style '' @ [CHR 0x22] @ style @ [CHR 0x22] @ '' encountered''))
           (returns (False, None)))"

definition Create :: "string \<Rightarrow> RE \<Rightarrow> string \<Rightarrow> c_int \<Rightarrow> (bool \<times> DeathTestImpl option) op" where
  "Create a_statement regex file line =
     op_bind (gets run_flag) (\<lambda>flag.
     op_bind (gets current_test_info) (\<lambda>current.
     case current of
       None \<Rightarrow> ends (Undefined ''current_test_info() is a null pointer'')
     | Some info \<Rightarrow>
     (let (death_test_index, result) = increment_death_test_count (result_of info) in
      op_then (modify (\<lambda>p. p\<lparr>current_test_info := Some (info\<lparr>result_of := result\<rparr>)\<rparr>))
      (case flag of
         None \<Rightarrow> create_styled a_statement regex file line
       | Some f \<Rightarrow>
           if sint (flag_index f) < death_test_index then
             op_then (set_last_death_test_message (too_many_death_tests death_test_index (flag_index f)))
               (returns (False, None))
           else if \<not> (flag_file f = file \<and> flag_line f = line \<and> sint (flag_index f) = death_test_index)
           then returns (True, None)
           else create_styled a_statement regex file line))))"

section \<open>The internal flag\<close>

text \<open>\<open>ParseNaturalNumber\<close> for an \<open>int\<close>; \<open>strtoull\<close> saturates and sets \<open>errno\<close>.\<close>

definition ParseNaturalNumber :: "string \<Rightarrow> c_int option" where
  "ParseNaturalNumber str =
     (if str = [] \<or> \<not> is_digit (hd str) then None
      else
        let t = c_text str;
            n = dec_value (takeWhile is_digit t);
            parsed = (if 2 ^ 64 \<le> n then - 1 else of_nat n :: 64 word);
            parse_success = (dropWhile is_digit t = [] \<and> n < 2 ^ 64);
            result = (ucast parsed :: c_int) in
        if parse_success \<and> scast result = parsed then Some result else None)"

definition ParseInternalRunDeathTestFlag :: "InternalRunDeathTestFlag option op" where
  "ParseInternalRunDeathTestFlag =
     op_bind (gets FLAG_internal_run_death_test) (\<lambda>flag.
       if flag = [] then returns None
       else
         let bad = DeathTestAbort (''Bad --gtest_internal_run_death_test flag: '' @ flag) in
         case SplitString (c_text flag) CHR ''|'' of
           [file, f1, f2, f3] \<Rightarrow>
             (case ParseNaturalNumber f1 of None \<Rightarrow> bad
              | Some line \<Rightarrow>
             (case ParseNaturalNumber f2 of None \<Rightarrow> bad
              | Some idx \<Rightarrow>
             (case ParseNaturalNumber f3 of None \<Rightarrow> bad
              | Some write_fd \<Rightarrow>
                  returns (Some \<lparr> flag_file = file, flag_line = line, flag_index = idx,
                                  flag_write_fd = write_fd \<rparr>))))
         | _ \<Rightarrow> bad)"

text \<open>\<open>UnitTestImpl::InitDeathTestSubprocessControlInfo\<close> and \<open>SuppressTestEventsIfInSubprocess\<close>.\<close>

definition InitDeathTestSubprocessControlInfo :: "unit op" where
  "InitDeathTestSubprocessControlInfo =
     op_bind ParseInternalRunDeathTestFlag (\<lambda>flag. modify (\<lambda>p. p\<lparr>run_flag := flag\<rparr>))"

definition SuppressTestEventsIfInSubprocess :: "unit op" where
  "SuppressTestEventsIfInSubprocess = modify (\<lambda>p.
     if run_flag p \<noteq> None then p\<lparr>forwarding_events := False\<rparr> else p)"

section \<open>The macro\<close>

text \<open>What the statement under test does: it ends the process, returns from the enclosing function,
  throws (a \<open>std::exception\<close> with its text, or something else), or runs to its end.\<close>

datatype stmt_result = Stmt_ends ending | Stmt_returns | Stmt_throws "string option" | Stmt_completes

type_synonym stmt = "proc \<Rightarrow> (stmt_result \<times> proc) option"

definition exception_note :: "string \<Rightarrow> c_int \<Rightarrow> string \<Rightarrow> string" where
  "exception_note file line what =
     [CHR 0x0A] @ FormatFileLocation False (Some file) (sint line) @
     '': Caught std::exception-derived exception escaping the death test statement. Exception message: '' @
     what @ [CHR 0x0A]"

definition GTEST_EXECUTE_DEATH_TEST_STATEMENT ::
    "string \<Rightarrow> c_int \<Rightarrow> stmt \<Rightarrow> DeathTestImpl \<Rightarrow> stmt_result op" where
  "GTEST_EXECUTE_DEATH_TEST_STATEMENT file line statement dt p =
     (case statement p of
        None \<Rightarrow> None
      | Some (Stmt_ends e, p') \<Rightarrow> ends e p'
      | Some (Stmt_throws (Some what), p') \<Rightarrow>
          op_then (print_stderr (exception_note file line what))
            (DeathTestImpl_Abort TEST_THREW_EXCEPTION dt) p'
      | Some (Stmt_throws None, p') \<Rightarrow> DeathTestImpl_Abort TEST_THREW_EXCEPTION dt p'
      | Some (r, p') \<Rightarrow> returns r p')"

text \<open>A \<open>return\<close> in the statement runs the destructor of the sentinel.\<close>

definition execute_test :: "string \<Rightarrow> c_int \<Rightarrow> stmt \<Rightarrow> DeathTestImpl \<Rightarrow> 'a op" where
  "execute_test file line statement dt =
     op_bind (GTEST_EXECUTE_DEATH_TEST_STATEMENT file line statement dt) (\<lambda>r.
       if r = Stmt_returns then DeathTestImpl_Abort TEST_ENCOUNTERED_RETURN_STATEMENT dt
       else DeathTestImpl_Abort TEST_DID_NOT_DIE dt)"

definition oversee_test ::
    "(string \<Rightarrow> RE \<Rightarrow> bool option) \<Rightarrow> (c_int \<Rightarrow> bool) \<Rightarrow> DeathTestImpl \<Rightarrow> string option op" where
  "oversee_test partial_match predicate dt =
     op_bind (Wait dt) (\<lambda>(exit_status, dt').
     op_bind (DeathTest_Passed partial_match (predicate exit_status) dt') (\<lambda>passed.
     op_then (DeathTestImpl_destructor dt')
       (if \<not> passed then op_bind (gets last_death_test_message) (\<lambda>m. returns (Some (c_text m)))
        else returns None)))"

text \<open>\<open>GTEST_DEATH_TEST_\<close>: \<open>None\<close> when the assertion holds, else the message it fails with.\<close>

definition GTEST_DEATH_TEST ::
    "(string \<Rightarrow> RE \<Rightarrow> bool option) \<Rightarrow> string \<Rightarrow> c_int \<Rightarrow> string \<Rightarrow> stmt \<Rightarrow> (c_int \<Rightarrow> bool) \<Rightarrow> RE \<Rightarrow>
      string option op" where
  "GTEST_DEATH_TEST partial_match file line statement_text statement predicate regex =
     op_bind (Create statement_text regex file line) (\<lambda>(created, test).
       if \<not> created then op_bind (gets last_death_test_message) (\<lambda>m. returns (Some (c_text m)))
       else
         case test of
           None \<Rightarrow> returns None
         | Some gtest_dt \<Rightarrow>
             op_bind (AssumeRole gtest_dt) (\<lambda>(role, dt).
               case role of
                 OVERSEE_TEST \<Rightarrow> oversee_test partial_match predicate dt
               | EXECUTE_TEST \<Rightarrow> execute_test file line statement dt))"

text \<open>The assertions of \<open>gtest-death-test.h\<close>; in a release build the debug variant only executes
  the statement.\<close>

definition EXPECT_EXIT ::
    "(string \<Rightarrow> RE \<Rightarrow> bool option) \<Rightarrow> string \<Rightarrow> c_int \<Rightarrow> string \<Rightarrow> stmt \<Rightarrow> (c_int \<Rightarrow> bool) \<Rightarrow> RE \<Rightarrow>
      string option op" where
  "EXPECT_EXIT = GTEST_DEATH_TEST"

definition EXPECT_DEATH ::
    "(string \<Rightarrow> RE \<Rightarrow> bool option) \<Rightarrow> string \<Rightarrow> c_int \<Rightarrow> string \<Rightarrow> stmt \<Rightarrow> RE \<Rightarrow> string option op" where
  "EXPECT_DEATH partial_match file line statement_text statement regex =
     EXPECT_EXIT partial_match file line statement_text statement ExitedUnsuccessfully regex"

text \<open>Inside the enclosing function the statement acts as it does without the macro.\<close>

definition GTEST_EXECUTE_STATEMENT :: "stmt \<Rightarrow> stmt_result op" where
  "GTEST_EXECUTE_STATEMENT statement p =
     (case statement p of
        None \<Rightarrow> None
      | Some (Stmt_ends e, p') \<Rightarrow> ends e p'
      | Some (r, p') \<Rightarrow> returns r p')"

definition EXPECT_DEBUG_DEATH ::
    "bool \<Rightarrow> (string \<Rightarrow> RE \<Rightarrow> bool option) \<Rightarrow> string \<Rightarrow> c_int \<Rightarrow> string \<Rightarrow> stmt \<Rightarrow> RE \<Rightarrow>
      (stmt_result + string option) op" where
  "EXPECT_DEBUG_DEATH ndebug partial_match file line statement_text statement regex =
     (if ndebug then op_bind (GTEST_EXECUTE_STATEMENT statement) (\<lambda>r. returns (Inl r))
      else op_bind (EXPECT_DEATH partial_match file line statement_text statement regex) (\<lambda>r. returns (Inr r)))"

section \<open>What the child reports\<close>

text \<open>The text the parent finds on the pipe for each end of the statement.\<close>

fun report_of :: "stmt_result \<Rightarrow> string" where
  "report_of (Stmt_ends e) = []"
| "report_of Stmt_returns = [kDeathTestReturned]"
| "report_of (Stmt_throws w) = [kDeathTestThrew]"
| "report_of Stmt_completes = [kDeathTestLived]"

definition ending_of :: "stmt_result \<Rightarrow> ending" where
  "ending_of r = (case r of Stmt_ends e \<Rightarrow> e | _ \<Rightarrow> Exits 1)"

lemma print_stderr_frame:
  "\<exists>p'. print_stderr t p = Some (Inr (), p') \<and> fd_output p' = fd_output p \<and> k_calls p' = k_calls p"
  by (auto simp: print_stderr_def modify_def split: option.split)

lemma checked_call_ok:
  "retry_eintr (calls p) = Some (Sys_ok x, later) \<Longrightarrow>
     GTEST_DEATH_TEST_CHECK_SYSCALL line expression calls setter p = Some (Inr x, setter later p)"
  by (simp add: GTEST_DEATH_TEST_CHECK_SYSCALL_def op_bind_def retried_call_def returns_def)

lemma checked_close_ok:
  "retry_eintr (k_calls p) = Some (Sys_ok (), later) \<Longrightarrow>
     checked_close line expression fd p =
       Some (Inr (), p\<lparr>k_calls := later, fds_closed := fds_closed p @ [fd]\<rparr>)"
  using checked_call_ok [of k_calls p "()" later]
  by (simp add: checked_close_def op_then_def op_bind_def modify_def)

lemma Abort_reports:
  assumes "retry_eintr (k_calls p) = Some (Sys_ok (), later)"
  shows "\<exists>c. DeathTestImpl_Abort reason dt p = Some (Inl (Exits 1), c) \<and>
    sent_to (dt_write_fd dt) c = sent_to (dt_write_fd dt) p @ [status_ch reason]"
proof -
  note w = checked_call_ok [of k_calls, OF assms]
  show ?thesis
    by (simp add: DeathTestImpl_Abort_def op_then_def op_bind_def w op_evaluation
        write_fd_text_def sent_to_def)
qed

lemma status_ch_simps [simp]:
  "status_ch TEST_DID_NOT_DIE = kDeathTestLived"
  "status_ch TEST_THREW_EXCEPTION = kDeathTestThrew"
  "status_ch TEST_ENCOUNTERED_RETURN_STATEMENT = kDeathTestReturned"
  by (simp_all add: status_ch_def)

lemma execute_test_reports:
  assumes b: "statement q = Some (r, q1)"
    and quiet: "sent_to (dt_write_fd dt) q1 = []"
    and w: "(\<exists>e. r = Stmt_ends e) \<or> retry_eintr (k_calls q1) = Some (Sys_ok (), later)"
  shows "\<exists>c. execute_test file line statement dt q = Some (Inl (ending_of r), c) \<and>
    sent_to (dt_write_fd dt) c = report_of r"
proof (cases r)
  case (Stmt_ends e)
  then show ?thesis
    using b quiet
    by (simp add: execute_test_def GTEST_EXECUTE_DEATH_TEST_STATEMENT_def op_bind_def ends_def ending_of_def)
next
  case Stmt_returns
  then have w: "retry_eintr (k_calls q1) = Some (Sys_ok (), later)" using w by simp
  show ?thesis
    using Stmt_returns b quiet Abort_reports [OF w, of TEST_ENCOUNTERED_RETURN_STATEMENT dt]
    by (simp add: execute_test_def GTEST_EXECUTE_DEATH_TEST_STATEMENT_def op_bind_def returns_def ending_of_def)
next
  case (Stmt_throws what)
  then have w: "retry_eintr (k_calls q1) = Some (Sys_ok (), later)" using w by simp
  show ?thesis
  proof (cases what)
    case None
    obtain c where "(DeathTestImpl_Abort TEST_THREW_EXCEPTION dt :: stmt_result op) q1 = Some (Inl (Exits 1), c)"
      "sent_to (dt_write_fd dt) c = [kDeathTestThrew]"

      using Abort_reports [OF w, of TEST_THREW_EXCEPTION dt] quiet by auto
    then show ?thesis
      using b Stmt_throws None
      by (simp add: execute_test_def GTEST_EXECUTE_DEATH_TEST_STATEMENT_def op_bind_def ending_of_def)
  next
    case (Some t)
    obtain q2 where q2: "print_stderr (exception_note file line t) q1 = Some (Inr (), q2)"
      "fd_output q2 = fd_output q1" "k_calls q2 = k_calls q1"
      using print_stderr_frame by blast
    have s2: "sent_to (dt_write_fd dt) q2 = []" using quiet q2(2) by (simp add: sent_to_def)
    have "retry_eintr (k_calls q2) = Some (Sys_ok (), later)" using w q2(3) by simp
    then obtain c where "(DeathTestImpl_Abort TEST_THREW_EXCEPTION dt :: stmt_result op) q2 = Some (Inl (Exits 1), c)"
      "sent_to (dt_write_fd dt) c = [kDeathTestThrew]"

      using Abort_reports [of q2 later TEST_THREW_EXCEPTION dt] s2 by auto
    then show ?thesis
      using b Stmt_throws Some
      by (simp add: execute_test_def GTEST_EXECUTE_DEATH_TEST_STATEMENT_def op_bind_def
          op_then_def q2(1) ending_of_def)
  qed
next
  case Stmt_completes
  then have w: "retry_eintr (k_calls q1) = Some (Sys_ok (), later)" using w by simp
  show ?thesis
    using Stmt_completes b quiet Abort_reports [OF w, of TEST_DID_NOT_DIE dt]
    by (simp add: execute_test_def GTEST_EXECUTE_DEATH_TEST_STATEMENT_def op_bind_def returns_def ending_of_def)
qed

text \<open>
  A statement that closes the pipe and then survives is taken for one that dies: the child cannot report,
  and the check that fails on that kills it.
\<close>

lemma survivor_without_pipe_dies:
  assumes b: "statement q = Some (Stmt_completes, q1)" and quiet: "sent_to (dt_write_fd dt) q1 = []"
    and w: "retry_eintr (k_calls q1) = Some (Sys_fails e, later)" and "run_flag q1 = None"
  shows "\<exists>c. (execute_test file line statement dt :: 'r op) q = Some (Inl (Killed SIGABRT), c) \<and>
    sent_to (dt_write_fd dt) c = [] \<and> ExitedUnsuccessfully (wait_status core (Killed SIGABRT))"
proof -
  let ?q = "set_calls later q1"
  obtain q2 where q2: "print_stderr (c_text (check_text ?q 489
      (''posix::Write(write_fd(), &status_ch, 1)'' @ '' != -1''))) ?q = Some (Inr (), q2)" "fd_output q2 = fd_output q1"
    using print_stderr_frame [of _ ?q] by fastforce
  have "(execute_test file line statement dt :: 'r op) q = Some (Inl (Killed SIGABRT), q2)"
    using b w assms(4) q2(1)
    by (simp add: execute_test_def GTEST_EXECUTE_DEATH_TEST_STATEMENT_def op_bind_def op_evaluation
        DeathTestImpl_Abort_def GTEST_DEATH_TEST_CHECK_SYSCALL_def retried_call_def op_then_def DeathTestAbort_def)
  moreover have "ExitedUnsuccessfully (wait_status core (Killed SIGABRT))"
    by (rule ExitedUnsuccessfully_killed) (simp_all add: SIGABRT_def)
  ultimately show ?thesis using quiet q2(2) by (simp add: sent_to_def)
qed

section \<open>What the parent concludes\<close>

lemma status_flag_report:
  "r \<noteq> Stmt_ends e \<Longrightarrow> report_of r = [flag] \<Longrightarrow>
     status_flag flag dt = returns (dt\<lparr>dt_outcome :=
       (case r of Stmt_returns \<Rightarrow> RETURNED | Stmt_throws _ \<Rightarrow> THREW | _ \<Rightarrow> LIVED)\<rparr>)"
  by (cases r) (auto simp: status_flag_def kDeathTestReturned_def kDeathTestThrew_def kDeathTestLived_def)

definition outcome_of :: "stmt_result \<Rightarrow> DeathTestOutcome" where
  "outcome_of r =
     (case r of Stmt_ends _ \<Rightarrow> DIED | Stmt_returns \<Rightarrow> RETURNED | Stmt_throws _ \<Rightarrow> THREW | Stmt_completes \<Rightarrow> LIVED)"

lemma ReadAndInterpretStatusByte_report:
  assumes "retry_eintr (k_read p) = Some (Sys_ok (take 1 (report_of r)), later)"
    and "retry_eintr (k_calls p) = Some (Sys_ok (), calls)"
  shows "ReadAndInterpretStatusByte dt p = Some (Inr (dt\<lparr>dt_outcome := outcome_of r, dt_read_fd := -1\<rparr>),
    p\<lparr>k_read := later, k_calls := calls, fds_closed := fds_closed p @ [dt_read_fd dt]\<rparr>)"
proof -
  have c: "checked_close line expression fd (p\<lparr>k_read := later\<rparr>) =
      Some (Inr (), p\<lparr>k_read := later, k_calls := calls, fds_closed := fds_closed p @ [fd]\<rparr>)"
    for line expression fd
    using checked_close_ok [of "p\<lparr>k_read := later\<rparr>" calls] assms(2) by simp
  show ?thesis
    using assms(1)
    by (cases r)
      (simp_all add: ReadAndInterpretStatusByte_def op_bind_def op_then_def retried_call_def returns_def c
        outcome_of_def status_flag_def kDeathTestReturned_def kDeathTestThrew_def kDeathTestLived_def)
qed

text \<open>The verdict of the parent, from what the kernel hands it.\<close>

lemma oversee_test_verdict:
  assumes dt: "dt_spawned dt"
    and rd: "retry_eintr (k_read p) = Some (Sys_ok (take 1 (report_of r)), reads)"
    and cl: "retry_eintr (k_calls p) = Some (Sys_ok (), calls)"
    and wt: "retry_eintr (k_waitpid p) = Some (Sys_ok st, waits)"
    and cap: "stderr_capture p = Some own"
    and pm: "partial_match (c_text (own @ captured_elsewhere p)) (dt_regex dt) = Some matched"
  shows "\<exists>res p'. oversee_test partial_match predicate dt p = Some (Inr res, p') \<and>
    (res = None \<longleftrightarrow> (\<exists>e. r = Stmt_ends e) \<and> predicate st \<and> matched)"
proof -
  define p1 where "p1 = p\<lparr>k_read := reads, k_calls := calls, fds_closed := fds_closed p @ [dt_read_fd dt]\<rparr>"
  define dt1 where "dt1 = dt\<lparr>dt_outcome := outcome_of r, dt_read_fd := -1, dt_status := st\<rparr>"
  define p2 where "p2 = p1\<lparr>k_waitpid := waits\<rparr>"
  have "GTEST_DEATH_TEST_CHECK_SYSCALL line expression k_waitpid set_waits p1 = Some (Inr st, p2)"
    for line expression
    using checked_call_ok [of k_waitpid p1 st waits] wt by (simp add: p1_def p2_def)
  then have w: "Wait dt p = Some (Inr (st, dt1), p2)"
    using ReadAndInterpretStatusByte_report [OF rd cl, of dt] dt
    by (simp add: Wait_def op_bind_def returns_def dt1_def flip: p1_def)
  have cap2: "stderr_capture p2 = Some own" "captured_elsewhere p2 = captured_elsewhere p"
    using cap by (simp_all add: p2_def p1_def)
  have sp: "dt_spawned dt1" "dt_regex dt1 = dt_regex dt" "dt_outcome dt1 = outcome_of r" "dt_read_fd dt1 = -1"
    using dt by (simp_all add: dt1_def)
  have "\<exists>p3. DeathTest_Passed partial_match (predicate st) dt1 p2 =
      Some (Inr ((\<exists>e. r = Stmt_ends e) \<and> predicate st \<and> matched), p3)"
    by (cases r; cases matched; cases "predicate st")
      (use pm in \<open>simp_all add: DeathTest_Passed_def sp GetCapturedStderr_def op_bind_def op_then_def op_evaluation
        cap2 outcome_of_def Let_def set_last_death_test_message_def\<close>)
  then obtain p3 where ps: "DeathTest_Passed partial_match (predicate st) dt1 p2 =
      Some (Inr ((\<exists>e. r = Stmt_ends e) \<and> predicate st \<and> matched), p3)" by blast
  have "DeathTestImpl_destructor dt1 p3 = Some (Inr (), p3)"
    by (simp add: DeathTestImpl_destructor_def GTEST_DEATH_TEST_CHECK_def sp op_evaluation)
  then show ?thesis
    by (simp add: oversee_test_def op_bind_def op_then_def w ps op_evaluation)
qed

section \<open>The fast style, in both processes\<close>

definition counted :: "proc \<Rightarrow> proc" where
  "counted p = p\<lparr>current_test_info := map_option (\<lambda>info.
     info\<lparr>result_of := snd (increment_death_test_count (result_of info))\<rparr>) (current_test_info p)\<rparr>"

definition fresh_death_test :: "death_test_style \<Rightarrow> string \<Rightarrow> RE \<Rightarrow> DeathTestImpl" where
  "fresh_death_test style a_statement regex =
     \<lparr> dt_style = style, dt_statement = a_statement, dt_regex = regex, dt_spawned = False,
       dt_status = -1, dt_outcome = IN_PROGRESS, dt_read_fd = -1, dt_write_fd = -1, dt_child_pid = -1 \<rparr>"

lemma new_DeathTest_inside:
  "current_test_info p \<noteq> None \<Longrightarrow>
     new_DeathTest style a_statement regex p = Some (Inr (fresh_death_test style a_statement regex), p)"
  by (auto simp: new_DeathTest_def DeathTest_constructor_def op_then_def op_bind_def op_evaluation
      fresh_death_test_def)

lemma Create_fast:
  assumes "run_flag p = None" and "FLAG_death_test_style p = ''fast''" and "current_test_info p = Some info"
  shows "Create a_statement regex file line p =
    Some (Inr (True, Some (fresh_death_test No_exec_style a_statement regex)), counted p)"
proof -
  have "current_test_info (counted p) \<noteq> None" using assms(3) by (simp add: counted_def)
  note n = new_DeathTest_inside [OF this]
  show ?thesis
    using assms n
    by (simp add: Create_def create_styled_def op_bind_def op_then_def op_evaluation counted_def
        increment_death_test_count_def)
qed

lemma NoExec_AssumeRole_forks:
  assumes pp: "k_pipe p = Sys_ok (rd, wr) # pipes" and cap: "stderr_capture p = None"
    and fk: "k_fork p = Sys_ok pid # forks" and pid: "pid \<noteq> -1"
    and cl: "retry_eintr (k_calls p) = Some (Sys_ok (), calls)"
  shows "\<exists>q. NoExec_AssumeRole dt p = Some (Inr
      (if pid = 0 then (EXECUTE_TEST, dt\<lparr>dt_child_pid := 0, dt_write_fd := wr\<rparr>)
       else (OVERSEE_TEST, dt\<lparr>dt_child_pid := pid, dt_read_fd := rd, dt_spawned := True\<rparr>)), q) \<and>
    stderr_capture q = Some [] \<and> k_calls q = calls \<and> k_read q = k_read p \<and> k_waitpid q = k_waitpid p \<and>
    captured_elsewhere q = captured_elsewhere p"
proof -
  define p1 where "p1 = (if GetThreadCount (proc_self_stat p) = 1 then p
    else p\<lparr>stderr_output := stderr_output p @
      log_text GTEST_WARNING (source_file p) 836 (DeathTestThreadWarning (GetThreadCount (proc_self_stat p)))\<rparr>)"
  have 1: "(if GetThreadCount (proc_self_stat p) \<noteq> 1
      then log_warning 836 (DeathTestThreadWarning (GetThreadCount (proc_self_stat p))) else returns ()) p =
      Some (Inr (), p1)"
    using cap by (simp add: p1_def log_warning_def op_bind_def op_evaluation print_stderr_def)
  have f: "k_pipe p1 = Sys_ok (rd, wr) # pipes" "k_fork p1 = Sys_ok pid # forks"
    "retry_eintr (k_calls p1) = Some (Sys_ok (), calls)" "stderr_capture p1 = None"
    "k_read p1 = k_read p" "k_waitpid p1 = k_waitpid p" "captured_elsewhere p1 = captured_elsewhere p"
    using assms by (simp_all add: p1_def)
  define p2 where "p2 = p1\<lparr>k_pipe := pipes, last_death_test_message := [], stderr_capture := Some [],
    k_fork := forks\<rparr>"
  have g: "retry_eintr (k_calls p2) = Some (Sys_ok (), calls)" using f by (simp add: p2_def)
  note close = checked_close_ok [OF g]
  have "NoExec_AssumeRole dt p =
      (if pid = 0 then
         Some (Inr (EXECUTE_TEST, dt\<lparr>dt_child_pid := 0, dt_write_fd := wr\<rparr>),
           p2\<lparr>k_calls := calls, fds_closed := fds_closed p2 @ [rd], log_to_stderr := True,
              forwarding_events := False, g_in_fast_death_test_child := True\<rparr>)
       else Some (Inr (OVERSEE_TEST, dt\<lparr>dt_child_pid := pid, dt_read_fd := rd, dt_spawned := True\<rparr>),
           p2\<lparr>k_calls := calls, fds_closed := fds_closed p2 @ [wr]\<rparr>))"
    unfolding NoExec_AssumeRole_def
    using 1 f pid close
    by (simp add: op_bind_def op_then_def op_evaluation open_pipe_def next_call_def set_last_death_test_message_def
        CaptureStderr_def fork_process_def GTEST_DEATH_TEST_CHECK_def p2_def [symmetric])
  then show ?thesis using f by (auto simp: p2_def)
qed

text \<open>The state in which the child starts the statement, with its death test object.\<close>

definition child_at_statement ::
    "string \<Rightarrow> RE \<Rightarrow> string \<Rightarrow> c_int \<Rightarrow> proc \<Rightarrow> (DeathTestImpl \<times> proc) option" where
  "child_at_statement statement_text regex file line p =
     (case op_bind (Create statement_text regex file line) (\<lambda>(_, t). AssumeRole (the t)) p of
        Some (Inr (EXECUTE_TEST, dt), q) \<Rightarrow> Some (dt, q)
      | _ \<Rightarrow> None)"

lemma GTEST_DEATH_TEST_created:
  assumes "Create statement_text regex file line p = Some (Inr (True, Some dt0), p0)"
  shows "GTEST_DEATH_TEST partial_match file line statement_text statement predicate regex p =
    op_bind (AssumeRole dt0) (\<lambda>(role, dt).
      case role of
        OVERSEE_TEST \<Rightarrow> oversee_test partial_match predicate dt
      | EXECUTE_TEST \<Rightarrow> execute_test file line statement dt) p0"
  using assms by (simp add: GTEST_DEATH_TEST_def op_bind_def)

text \<open>
  The processes after the fork: both continue from the state of \<open>p\<close>, with the process id or 0 as the
  answer of \<open>fork\<close> and with the kernel's further answers to each.
\<close>

definition forked :: "c_int \<Rightarrow> unit sys list \<Rightarrow> proc \<Rightarrow> proc" where
  "forked answer calls p = p\<lparr>k_fork := [Sys_ok answer], k_calls := calls\<rparr>"

definition overseeing ::
    "string sys list \<Rightarrow> c_int sys list \<Rightarrow> string \<Rightarrow> proc \<Rightarrow> proc" where
  "overseeing reads waits elsewhere p =
     p\<lparr>k_read := reads, k_waitpid := waits, captured_elsewhere := elsewhere\<rparr>"

definition ready_for_fast_death_test :: "proc \<Rightarrow> bool" where
  "ready_for_fast_death_test p \<longleftrightarrow>
     run_flag p = None \<and> FLAG_death_test_style p = ''fast'' \<and> current_test_info p \<noteq> None \<and>
     stderr_capture p = None \<and> (\<exists>fds pipes. k_pipe p = Sys_ok fds # pipes)"

text \<open>C11: the verdict of a death test of the fast style: the statement runs in the forked child; the
  parent passes the assertion exactly when the statement ended the process, the wait status satisfies the
  predicate and the captured standard error matches; a statement that returns, throws or runs to its
  end fails it, and the parent learns which from one byte.  The kernel does what POSIX documents:
  interrupted calls are repeated, the parent reads what the child wrote to the pipe, \<open>waitpid\<close> reports how
  the child ended, and the capture file holds what the child printed.\<close>

theorem death_test_verdict:
  assumes ready: "ready_for_fast_death_test p"
    and child: "child_at_statement statement_text regex file line (forked 0 child_calls p) = Some (dt, q)"
    and run: "statement q = Some (r, q1)" and quiet: "sent_to (dt_write_fd dt) q1 = []"
    and told: "(\<exists>e. r = Stmt_ends e) \<or> retry_eintr (k_calls q1) = Some (Sys_ok (), later)"
    and pid: "pid \<notin> {0, -1}"
    and closes: "retry_eintr parent_calls = Some (Sys_ok (), calls1)" "retry_eintr calls1 = Some (Sys_ok (), calls2)"
    and wait: "retry_eintr waits = Some (Sys_ok (wait_status core (ending_of r)), waits')"
    and matches: "partial_match (c_text said) regex = Some matched"
  shows "\<exists>c. GTEST_DEATH_TEST partial_match file line statement_text statement predicate regex
        (forked 0 child_calls p) = Some (Inl (ending_of r), c) \<and>
    sent_to (dt_write_fd dt) c = report_of r \<and>
    (\<forall>reads reads'. retry_eintr reads = Some (Sys_ok (take 1 (sent_to (dt_write_fd dt) c)), reads') \<longrightarrow>
      (\<exists>res p'. GTEST_DEATH_TEST partial_match file line statement_text statement predicate regex
          (overseeing reads waits said (forked pid parent_calls p)) = Some (Inr res, p') \<and>
        (res = None \<longleftrightarrow>
          (\<exists>e. r = Stmt_ends e \<and> predicate (wait_status core e) \<and> matched))))"
proof -
  obtain rd wr pipes where pp: "k_pipe p = Sys_ok (rd, wr) # pipes"
    using ready by (auto simp: ready_for_fast_death_test_def)
  obtain info where info: "current_test_info p = Some info"
    using ready by (auto simp: ready_for_fast_death_test_def)
  let ?dt0 = "fresh_death_test No_exec_style statement_text regex"
  have cr: "Create statement_text regex file line (u p) = Some (Inr (True, Some ?dt0), counted (u p))"
    if "run_flag (u p) = run_flag p" "FLAG_death_test_style (u p) = FLAG_death_test_style p"
      "current_test_info (u p) = current_test_info p" for u
    using that ready info by (intro Create_fast) (auto simp: ready_for_fast_death_test_def)
  have as: "AssumeRole ?dt0 = NoExec_AssumeRole ?dt0"
    by (simp add: AssumeRole_def fresh_death_test_def)
  have crc: "Create statement_text regex file line (forked 0 child_calls p) =
      Some (Inr (True, Some ?dt0), counted (forked 0 child_calls p))"
    by (rule cr [of "forked 0 child_calls"]) (simp_all add: forked_def)
  have rolec: "NoExec_AssumeRole ?dt0 (counted (forked 0 child_calls p)) = Some (Inr (EXECUTE_TEST, dt), q)"
    using child
    by (auto simp: child_at_statement_def op_bind_def crc as split: option.splits sum.splits prod.splits TestRole.splits)
  obtain c where c: "(execute_test file line statement dt :: string option op) q = Some (Inl (ending_of r), c)"
    "sent_to (dt_write_fd dt) c = report_of r"
    using execute_test_reports [of statement, OF run quiet told] by blast
  have one: "GTEST_DEATH_TEST partial_match file line statement_text statement predicate regex
      (forked 0 child_calls p) = Some (Inl (ending_of r), c)"
    using c(1) by (simp add: GTEST_DEATH_TEST_created [OF crc] as op_bind_def rolec)
  have two: "\<exists>res p'. GTEST_DEATH_TEST partial_match file line statement_text statement predicate regex
          (overseeing reads waits said (forked pid parent_calls p)) = Some (Inr res, p') \<and>
        (res = None \<longleftrightarrow> (\<exists>e. r = Stmt_ends e \<and> predicate (wait_status core e) \<and> matched))"
    if rd: "retry_eintr reads = Some (Sys_ok (take 1 (sent_to (dt_write_fd dt) c)), reads')" for reads reads'
  proof -
    let ?p = "overseeing reads waits said (forked pid parent_calls p)"
    have crp: "Create statement_text regex file line ?p = Some (Inr (True, Some ?dt0), counted ?p)"
      by (rule cr [of "\<lambda>p. overseeing reads waits said (forked pid parent_calls p)"])
        (simp_all add: forked_def overseeing_def)
    have k: "k_pipe (counted ?p) = Sys_ok (rd, wr) # pipes" "stderr_capture (counted ?p) = None"
      "k_fork (counted ?p) = Sys_ok pid # []" "retry_eintr (k_calls (counted ?p)) = Some (Sys_ok (), calls1)"
      "k_read (counted ?p) = reads" "k_waitpid (counted ?p) = waits" "captured_elsewhere (counted ?p) = said"
      using pp ready closes(1)
      by (simp_all add: counted_def overseeing_def forked_def ready_for_fast_death_test_def)
    obtain o1 where o1: "NoExec_AssumeRole ?dt0 (counted ?p) = Some (Inr
        (OVERSEE_TEST, ?dt0\<lparr>dt_child_pid := pid, dt_read_fd := rd, dt_spawned := True\<rparr>), o1)"
      "stderr_capture o1 = Some []" "k_calls o1 = calls1" "k_read o1 = reads" "k_waitpid o1 = waits"
      "captured_elsewhere o1 = said"
      using NoExec_AssumeRole_forks [OF k(1-3) _ k(4), of ?dt0] pid k(5-7) by auto
    have "\<exists>res p'. oversee_test partial_match predicate
        (?dt0\<lparr>dt_child_pid := pid, dt_read_fd := rd, dt_spawned := True\<rparr>) o1 = Some (Inr res, p') \<and>
      (res = None \<longleftrightarrow> (\<exists>e. r = Stmt_ends e) \<and> predicate (wait_status core (ending_of r)) \<and> matched)"
      using rd closes(2) wait matches o1 c(2)
      by (intro oversee_test_verdict [where own = "[]"]) (simp_all add: fresh_death_test_def)
    then show ?thesis
      by (auto simp: GTEST_DEATH_TEST_created [OF crp] as op_bind_def o1(1) ending_of_def)
  qed
  from one c(2) two show ?thesis by blast
qed

section \<open>The threadsafe style: the child finds the test\<close>

lemma int_word_conversions:
  assumes "n < 2 ^ 31"
  shows "ucast (of_nat n :: 64 word) = (of_nat n :: c_int)"
    and "scast (of_nat n :: c_int) = (of_nat n :: 64 word)"
proof -
  have "take_bit 64 n = n" by (rule take_bit_nat_eq_self) (use assms in simp)
  then show "ucast (of_nat n :: 64 word) = (of_nat n :: c_int)"
    by (simp add: unsigned_of_nat)
  have "sint (of_nat n :: c_int) = int n"
    using assms by (simp add: sint_sbintrunc' signed_take_bit_int_eq_self_iff signed_of_nat)
  then show "scast (of_nat n :: c_int) = (of_nat n :: 64 word)"
    by (simp add: scast_eq)
qed

lemma is_digit_not_nul: "\<not> is_digit CHR 0x00"
  by (simp add: is_digit_def)

lemma ParseNaturalNumber_int_string:
  assumes "0 \<le> i" and "i < 2 ^ 31"
  shows "ParseNaturalNumber (int_string i) = Some (word_of_int i)"
proof -
  have s: "int_string i = dec_string (nat i)" using assms by (simp add: int_string_def)
  have ds: "list_all is_digit (dec_string (nat i))" by (rule dec_string_digits)
  then have nn: "CHR 0x00 \<notin> set (dec_string (nat i))"
    using is_digit_not_nul by (auto simp: list_all_iff)
  have d: "takeWhile is_digit (dec_string (nat i)) = dec_string (nat i)"
    "dropWhile is_digit (dec_string (nat i)) = []"
    using ds by (auto simp: list_all_iff takeWhile_eq_all_conv)
  have h: "is_digit (hd (dec_string (nat i)))"
    using ds dec_string_nonempty [of "nat i"] by (simp add: list_all_iff)
  have b: "nat i < 2 ^ 31" using assms by (simp add: nat_less_iff)
  have lt: "(nat i < 2 ^ 64) = True" "(2 ^ 64 \<le> nat i) = False" using b by simp_all
  have "ParseNaturalNumber (int_string i) = Some (of_nat (nat i))"
    unfolding ParseNaturalNumber_def s c_text_no_nul [OF nn] Let_def dec_value_dec_string d lt if_False
      int_word_conversions [OF b]
    by (simp only: dec_string_nonempty h simp_thms if_True if_False)
  moreover have "of_nat (nat i) = (word_of_int i :: c_int)"
    by (rule of_nat_nat [OF assms(1)])
  ultimately show ?thesis by simp
qed

lemma int_string_no_bar: "CHR ''|'' \<notin> set (int_string i)"
proof -
  have "\<not> is_digit CHR ''|''" by (simp add: is_digit_def)
  then show ?thesis using dec_string_digits [of "nat \<bar>i\<bar>"] by (auto simp: int_string_def list_all_iff)
qed

lemma SplitString_first:
  "d \<notin> set a \<Longrightarrow> SplitString (a @ d # rest) d = a # SplitString rest d"
proof -
  assume a: "d \<notin> set a"
  then have "takeWhile (\<lambda>c. c \<noteq> d) (a @ d # rest) = a"
    by (induction a) auto
  then show ?thesis by (subst SplitString.simps) (simp add: Let_def)
qed

lemma SplitString_last: "d \<notin> set a \<Longrightarrow> SplitString a d = [a]"
  by (subst SplitString.simps) (simp add: Let_def)

lemma int_string_no_nul: "CHR 0x00 \<notin> set (int_string i)"
  by (rule no_nul_texts(1))

lemma internal_flag_value_text:
  "internal_flag_value file line k fd =
     file @ CHR ''|'' # int_string (sint line) @ CHR ''|'' # int_string k @ CHR ''|'' # int_string (sint fd)"
  by (simp add: internal_flag_value_def StreamableToString_int)

lemma length_SplitString: "length (SplitString s d) = Suc (length (filter (\<lambda>c. c = d) s))"
proof (induction s d rule: SplitString.induct)
  case (1 s d)
  show ?case
  proof (cases "d \<in> set s")
    case True
    let ?p = "takeWhile (\<lambda>c. c \<noteq> d) s"
    have "filter (\<lambda>c. c = d) s = filter (\<lambda>c. c = d) (?p @ [d] @ drop (length ?p + 1) s)"
      using split_first [OF True] by simp
    also have "filter (\<lambda>c. c = d) ?p = []"
      by (auto simp: filter_empty_conv dest: set_takeWhileD)
    then have "filter (\<lambda>c. c = d) (?p @ [d] @ drop (length ?p + 1) s) =
        d # filter (\<lambda>c. c = d) (drop (length ?p + 1) s)" by simp
    finally show ?thesis
      using True 1 [OF refl True] by (subst SplitString.simps) (simp add: Let_def)
  next
    case False
    then have "filter (\<lambda>c. c = d) s = []" by (auto simp: filter_empty_conv)
    then show ?thesis using False by (subst SplitString.simps) (simp add: Let_def)
  qed
qed

text \<open>
  The flag the parent writes is read back as it was written, unless the path of the file contains the
  separator; then the child aborts.
\<close>

lemma internal_flag_read_back:
  assumes flag: "FLAG_internal_run_death_test p = internal_flag_value file line k fd"
    and nul: "CHR 0x00 \<notin> set file"
    and rng: "0 \<le> sint line" "0 \<le> k" "k < 2 ^ 31" "0 \<le> sint fd"
  shows "CHR ''|'' \<notin> set file \<Longrightarrow> ParseInternalRunDeathTestFlag p =
      Some (Inr (Some \<lparr> flag_file = file, flag_line = line, flag_index = word_of_int k, flag_write_fd = fd \<rparr>), p)"
    and "CHR ''|'' \<in> set file \<Longrightarrow> run_flag p = None \<Longrightarrow>
      \<exists>p'. ParseInternalRunDeathTestFlag p = Some (Inl (Killed SIGABRT), p')"
proof -
  let ?v = "internal_flag_value file line k fd"
  have nn: "c_text ?v = ?v"
    using nul int_string_no_nul by (intro c_text_no_nul) (simp add: internal_flag_value_text)
  have ne: "?v \<noteq> []" by (simp add: internal_flag_value_text)
  have lt: "sint w < 2 ^ 31" for w :: c_int using sint_lt [of w] by simp
  have nums: "ParseNaturalNumber (int_string (sint line)) = Some line"
    "ParseNaturalNumber (int_string k) = Some (word_of_int k)"
    "ParseNaturalNumber (int_string (sint fd)) = Some fd"
    using ParseNaturalNumber_int_string rng lt by simp_all
  show "ParseInternalRunDeathTestFlag p =
      Some (Inr (Some \<lparr> flag_file = file, flag_line = line, flag_index = word_of_int k, flag_write_fd = fd \<rparr>), p)"
    if "CHR ''|'' \<notin> set file"
  proof -
    have "SplitString ?v CHR ''|'' = [file, int_string (sint line), int_string k, int_string (sint fd)]"
      unfolding internal_flag_value_text
      by (simp add: SplitString_first SplitString_last that int_string_no_bar)
    then show ?thesis
      using ne by (simp add: ParseInternalRunDeathTestFlag_def op_bind_def op_evaluation flag nn nums)
  qed
  show "\<exists>p'. ParseInternalRunDeathTestFlag p = Some (Inl (Killed SIGABRT), p')"
    if bar: "CHR ''|'' \<in> set file" and r: "run_flag p = None"
  proof -
    have "filter (\<lambda>c. c = CHR ''|'') file \<noteq> []" using bar by (auto simp: filter_empty_conv)
    then have "4 < length (SplitString ?v CHR ''|'')"
      unfolding length_SplitString internal_flag_value_text by simp
    moreover have bad: "\<exists>p'. DeathTestAbort m p = Some (Inl (Killed SIGABRT), p')" for m
      using print_stderr_frame [of "c_text m" p] r
      by (auto simp: DeathTestAbort_def op_bind_def op_then_def op_evaluation)
    ultimately show ?thesis
      using ne
      by (auto simp: ParseInternalRunDeathTestFlag_def op_bind_def op_evaluation flag nn Let_def
          split: list.splits)
  qed
qed

section \<open>The command line of the child\<close>

lemma insert_before_null: "insert_before_last x (xs @ [None]) = xs @ [x, None]"
  by (simp add: insert_before_last_def)

lemma AddArguments_list:
  "AddArguments argvs (xs @ [None]) = xs @ map (Some \<circ> c_text) argvs @ [None]"
proof (induction argvs arbitrary: xs)
  case (Cons a argvs)
  then show ?case using Cons [of "xs @ [Some (c_text a)]"] by (simp add: insert_before_null)
qed simp

lemma exec_arguments_list:
  "exec_arguments argvs info flag =
     map Some (map c_text argvs @ [c_text (exec_filter_flag info), c_text flag]) @ [None]"
proof -
  have "AddArguments argvs new_Arguments = map (Some \<circ> c_text) argvs @ [None]"
    using AddArguments_list [of argvs "[]"] by (simp add: new_Arguments_def)
  then show ?thesis
    using insert_before_null [of _ "map (Some \<circ> c_text) argvs"]
      insert_before_null [of _ "map (Some \<circ> c_text) argvs @ [Some (c_text (exec_filter_flag info))]"]
    by (simp add: exec_arguments_def AddArgument_def)
qed

lemma parse_each_append:
  "parse_each open_file (xs @ ys) c =
     (case parse_each open_file xs c of Inl err \<Rightarrow> Inl err | Inr c1 \<Rightarrow> parse_each open_file ys c1)"
  by (induction xs arbitrary: c) (auto split: sum.split)

lemma exec_flag_texts:
  "exec_filter_flag info = flag_text ''filter'' (test_case_name info @ ''.'' @ test_name info)"
  "exec_internal_flag file line k fd = flag_text ''internal_run_death_test'' (internal_flag_value file line k fd)"
  by (simp_all add: exec_filter_flag_def exec_internal_flag_def flag_text_def GTEST_FLAG_PREFIX_def
      kFilterFlag_def kInternalRunDeathTestFlag_def)

text \<open>Whatever flags the program was started with, the two the parent appends are the ones that count.\<close>

lemma child_flags:
  assumes nn: "CHR 0x00 \<notin> set (test_case_name info)" "CHR 0x00 \<notin> set (test_name info)" "CHR 0x00 \<notin> set file"
    and av: "arg_vector c = exec_arguments (prog # args) info (exec_internal_flag file line k fd)"
    and ac: "arg_count c = length args + 3"
    and ok: "parse_from open_file streamed_char 1 c = Inr c'"
  shows "FLAGS_filter (gtest_flags c') = test_case_name info @ ''.'' @ test_name info"
    and "FLAGS_internal_run_death_test (gtest_flags c') = internal_flag_value file line k fd"
proof -
  let ?ff = "exec_filter_flag info" and ?fi = "exec_internal_flag file line k fd"
  have ff: "CHR 0x00 \<notin> set ?ff" using nn by (simp add: exec_flag_texts flag_text_def)
  have fi: "CHR 0x00 \<notin> set ?fi"
    using nn int_string_no_nul by (simp add: exec_flag_texts flag_text_def internal_flag_value_text)
  let ?args = "map c_text args @ [?ff, ?fi]"
  have "arg_vector c = [Some (c_text prog)] @ map Some ?args @ None # []"
    by (simp add: av exec_arguments_list c_text_no_nul [OF ff] c_text_no_nul [OF fi])
  from parse_from_list [OF this, of open_file streamed_char] ac ok
  obtain c1 n v where c1: "parse_each open_file (map (streamed_char \<circ> Some) ?args) c = Inr c1" "c' = with_args n v c1"
    by (cases "parse_each open_file (map (streamed_char \<circ> Some) ?args) c") (auto simp: Let_def)
  then obtain c0 where "parse_each open_file [streamed_char (Some ?ff), streamed_char (Some ?fi)] c0 = Inr c1"
    by (auto simp: parse_each_append split: sum.splits)
  moreover have "parse_argument open_file ?ff d =
      Inr (True, d\<lparr>gtest_flags := (gtest_flags d)\<lparr>FLAGS_filter := test_case_name info @ ''.'' @ test_name info\<rparr>\<rparr>)"
    "parse_argument open_file ?fi d =
      Inr (True, d\<lparr>gtest_flags := (gtest_flags d)\<lparr>FLAGS_internal_run_death_test := internal_flag_value file line k fd\<rparr>\<rparr>)"
    for d :: "char command_line"
    by (rule parse_argument_flag [OF _ ff], simp only: exec_flag_texts each_flag_parses)
      (rule parse_argument_flag [OF _ fi], simp only: exec_flag_texts each_flag_parses)
  ultimately have "c1 = c0\<lparr>gtest_flags := (gtest_flags c0)
      \<lparr>FLAGS_filter := test_case_name info @ ''.'' @ test_name info,
       FLAGS_internal_run_death_test := internal_flag_value file line k fd\<rparr>\<rparr>"
    unfolding streamed_char_no_nul [OF ff] streamed_char_no_nul [OF fi] by simp
  then show "FLAGS_filter (gtest_flags c') = test_case_name info @ ''.'' @ test_name info"
    and "FLAGS_internal_run_death_test (gtest_flags c') = internal_flag_value file line k fd"
    using c1(2) by simp_all
qed

section \<open>The child meets the test\<close>

text \<open>The death tests a test body runs into, one after the other.\<close>

record death_site =
  site_statement :: string
  site_regex :: RE
  site_file :: string
  site_line :: c_int

primrec create_each :: "death_site list \<Rightarrow> (bool \<times> DeathTestImpl option) list op" where
  "create_each [] = returns []"
| "create_each (s # later) =
     op_bind (Create (site_statement s) (site_regex s) (site_file s) (site_line s)) (\<lambda>x.
     op_bind (create_each later) (\<lambda>xs. returns (x # xs)))"

definition death_tests_so_far :: "proc \<Rightarrow> int" where
  "death_tests_so_far p = (case current_test_info p of None \<Rightarrow> 0 | Some info \<Rightarrow> death_test_count (result_of info))"

lemma counted_simps [simp]:
  "run_flag (counted p) = run_flag p" "FLAG_death_test_style (counted p) = FLAG_death_test_style p"
  "current_test_info (counted p) = None \<longleftrightarrow> current_test_info p = None"
  "current_test_info p \<noteq> None \<Longrightarrow> death_tests_so_far (counted p) = death_tests_so_far p + 1"
  by (auto simp: counted_def death_tests_so_far_def increment_death_test_count_def split: option.splits)

text \<open>\<open>Create\<close> in the child: skipped before the index, made at it, an error beyond it.\<close>

lemma Create_in_child:
  assumes f: "run_flag p = Some f" and info: "current_test_info p \<noteq> None"
  shows "death_tests_so_far p + 1 < sint (flag_index f) \<Longrightarrow>
      Create statement_text regex file line p = Some (Inr (True, None), counted p)"
    and "death_tests_so_far p + 1 = sint (flag_index f) \<Longrightarrow> flag_file f = file \<Longrightarrow> flag_line f = line \<Longrightarrow>
      FLAG_death_test_style p = ''threadsafe'' \<Longrightarrow>
      Create statement_text regex file line p =
        Some (Inr (True, Some (fresh_death_test (Exec_style file line) statement_text regex)), counted p)"
    and "death_tests_so_far p + 1 = sint (flag_index f) \<Longrightarrow> flag_file f \<noteq> file \<or> flag_line f \<noteq> line \<Longrightarrow>
      Create statement_text regex file line p = Some (Inr (True, None), counted p)"
    and "sint (flag_index f) \<le> death_tests_so_far p \<Longrightarrow>
      \<exists>p'. Create statement_text regex file line p = Some (Inr (False, None), p')"
proof -
  obtain i where i: "current_test_info p = Some i" using info by blast
  have n: "death_tests_so_far p = death_test_count (result_of i)" by (simp add: death_tests_so_far_def i)
  note defs = Create_def create_styled_def op_bind_def op_then_def op_evaluation increment_death_test_count_def f i n
    set_last_death_test_message_def
  have c: "p\<lparr>current_test_info := Some (i\<lparr>result_of := (result_of i)\<lparr>death_test_count := death_test_count (result_of i) + 1\<rparr>\<rparr>)\<rparr> =
      counted p"
    by (simp add: counted_def i increment_death_test_count_def)
  show "death_tests_so_far p + 1 < sint (flag_index f) \<Longrightarrow>
      Create statement_text regex file line p = Some (Inr (True, None), counted p)"
    by (simp add: defs c)
  show "death_tests_so_far p + 1 = sint (flag_index f) \<Longrightarrow> flag_file f = file \<Longrightarrow> flag_line f = line \<Longrightarrow>
      FLAG_death_test_style p = ''threadsafe'' \<Longrightarrow>
      Create statement_text regex file line p =
        Some (Inr (True, Some (fresh_death_test (Exec_style file line) statement_text regex)), counted p)"
    by (simp add: defs new_DeathTest_inside counted_def)
  show "death_tests_so_far p + 1 = sint (flag_index f) \<Longrightarrow> flag_file f \<noteq> file \<or> flag_line f \<noteq> line \<Longrightarrow>
      Create statement_text regex file line p = Some (Inr (True, None), counted p)"
    by (auto simp: defs counted_def)
  show "sint (flag_index f) \<le> death_tests_so_far p \<Longrightarrow>
      \<exists>p'. Create statement_text regex file line p = Some (Inr (False, None), p')"
    by (simp add: defs c)
qed

lemma create_each_skips:
  assumes "run_flag p = Some f" and "current_test_info p \<noteq> None"
    and "death_tests_so_far p + int (length sites) < sint (flag_index f)"
  shows "\<exists>q. create_each sites p = Some (Inr (replicate (length sites) (True, None)), q) \<and>
    run_flag q = Some f \<and> current_test_info q \<noteq> None \<and> FLAG_death_test_style q = FLAG_death_test_style p \<and>
    death_tests_so_far q = death_tests_so_far p + int (length sites)"
  using assms
proof (induction sites arbitrary: p)
  case Nil
  then show ?case by (simp add: op_evaluation)
next
  case (Cons s sites)
  have "Create (site_statement s) (site_regex s) (site_file s) (site_line s) p = Some (Inr (True, None), counted p)"
    using Cons.prems by (intro Create_in_child(1)) auto
  moreover obtain q where "create_each sites (counted p) = Some (Inr (replicate (length sites) (True, None)), q)"
    "run_flag q = Some f" "current_test_info q \<noteq> None" "FLAG_death_test_style q = FLAG_death_test_style p"
    "death_tests_so_far q = death_tests_so_far p + 1 + int (length sites)"
    using Cons.IH [of "counted p"] Cons.prems by auto
  ultimately show ?case by (auto simp: op_bind_def op_evaluation)
qed

section \<open>The program the parent executes\<close>

text \<open>Whatever the kernel answers, the operation becomes no program but \<open>argv\<close>, and when it returns, the
  value has the property.\<close>

definition ends_as :: "string option list \<Rightarrow> ('a \<Rightarrow> bool) \<Rightarrow> 'a op \<Rightarrow> bool" where
  "ends_as argv Q m \<longleftrightarrow>
     (\<forall>p r p'. m p = Some (r, p') \<longrightarrow>
       (case r of Inl e \<Rightarrow> \<forall>a. e = Execs a \<longrightarrow> a = argv | Inr x \<Rightarrow> Q x))"

named_theorems ends_as_intros \<open>the programs that an operation can become\<close>

lemma ends_as_bind:
  assumes "ends_as argv P m" and "\<And>x. P x \<Longrightarrow> ends_as argv Q (f x)"
  shows "ends_as argv Q (op_bind m f)"
  unfolding ends_as_def
proof (intro allI impI)
  fix p r p'
  assume run: "op_bind m f p = Some (r, p')"
  show "case r of Inl e \<Rightarrow> \<forall>a. e = Execs a \<longrightarrow> a = argv | Inr x \<Rightarrow> Q x"
  proof (cases "m p")
    case (Some x)
    then obtain u q where m: "m p = Some (u, q)" by (cases x) simp
    show ?thesis
    proof (cases u)
      case (Inl e)
      then have "r = Inl e" using run m by (simp add: op_bind_def)
      then show ?thesis using assms(1) m Inl unfolding ends_as_def by fastforce
    next
      case (Inr y)
      then have "P y" using assms(1) m unfolding ends_as_def by fastforce
      moreover have "f y q = Some (r, p')" using run m Inr by (simp add: op_bind_def)
      ultimately show ?thesis using assms(2) unfolding ends_as_def by blast
    qed
  qed (use run in \<open>simp add: op_bind_def\<close>)
qed

lemma ends_as_step [ends_as_intros]:
  "\<lbrakk>ends_as argv (\<lambda>_. True) m; \<And>x. ends_as argv Q (f x)\<rbrakk> \<Longrightarrow> ends_as argv Q (op_bind m f)"
  by (rule ends_as_bind)

lemma ends_as_then [ends_as_intros]:
  "\<lbrakk>ends_as argv (\<lambda>_. True) m; ends_as argv Q n\<rbrakk> \<Longrightarrow> ends_as argv Q (op_then m n)"
  unfolding op_then_def by (rule ends_as_step)

lemma ends_as_basic [ends_as_intros]:
  "Q x \<Longrightarrow> ends_as argv Q (returns x)"
  "\<forall>a. e = Execs a \<longrightarrow> a = argv \<Longrightarrow> ends_as argv Q (ends e)"
  "ends_as argv (\<lambda>_. True) (modify f)"
  "ends_as argv (\<lambda>_. True) (gets g)"
  "ends_as argv (\<lambda>_. True) (next_call calls setter)"
  "ends_as argv (\<lambda>_. True) (retried_call calls setter)"
  by (auto simp: ends_as_def op_evaluation next_call_def retried_call_def split: list.splits option.splits)

lemma ends_as_abort [ends_as_intros]: "ends_as argv Q (DeathTestAbort msg)" "ends_as argv Q (log_fatal_in src line msg)"
  unfolding DeathTestAbort_def log_fatal_in_def write_fd_text_def print_stderr_def
  by (auto intro!: ends_as_intros split: option.split)

lemma ends_as_checks [ends_as_intros]:
  "ends_as argv (\<lambda>_. True) (GTEST_DEATH_TEST_CHECK line expression holds)"
  "ends_as argv (\<lambda>_. True) (GTEST_DEATH_TEST_CHECK_SYSCALL line expression calls setter)"
  "ends_as argv (\<lambda>_. True) (checked_close line expression fd)"
  unfolding GTEST_DEATH_TEST_CHECK_def GTEST_DEATH_TEST_CHECK_SYSCALL_def checked_close_def
  by (auto intro!: ends_as_intros split: sys.split)

lemma ends_as_calls [ends_as_intros]:
  "(\<And>holds. ends_as argv (\<lambda>_. True) (f holds)) \<Longrightarrow> ends_as argv (\<lambda>_. True) (called_once f)"
  "ends_as argv (\<lambda>_. True) (set_last_death_test_message msg)"
  "ends_as argv (\<lambda>_. True) CaptureStderr"
  "ends_as argv (\<lambda>_. True) GetCapturedStderr"
  "ends_as argv (\<lambda>_. True) fork_process"
  unfolding called_once_def set_last_death_test_message_def CaptureStderr_def GetCapturedStderr_def fork_process_def
  by (auto intro!: ends_as_intros split: sys.split option.split)

text \<open>The child that is spawned becomes the program it was spawned for, or aborts.\<close>

lemma ends_as_spawn [ends_as_intros]:
  "ends_as argv Q (ExecDeathTestChildMain argv close_fd)"
  "ends_as argv (\<lambda>_. True) (ExecDeathTestSpawnChild argv close_fd)"
proof -
  show main: "ends_as argv Q (ExecDeathTestChildMain argv close_fd)" for Q :: "'b \<Rightarrow> bool"
    unfolding ExecDeathTestChildMain_def by (auto intro!: ends_as_intros split: sys.split)
  show "ends_as argv (\<lambda>_. True) (ExecDeathTestSpawnChild argv close_fd)"
    unfolding ExecDeathTestSpawnChild_def by (auto intro!: ends_as_intros main)
qed

text \<open>What the parent does after its child is another program.\<close>

lemma ends_as_verdict [ends_as_intros]:
  "ends_as argv (\<lambda>_. True) (Wait dt)"
  "ends_as argv (\<lambda>_. True) (DeathTest_Passed partial_match status_ok dt)"
  "ends_as argv (\<lambda>_. True) (DeathTestImpl_destructor dt)"
proof -
  have "ends_as argv (\<lambda>_. True) (FailFromInternalError :: DeathTestImpl op)"
    using ends_as_abort(2) [of argv "\<lambda>_ :: DeathTestImpl. True" source_file]
    unfolding ends_as_def FailFromInternalError_def by (fastforce split: option.splits prod.splits)
  then have "ends_as argv (\<lambda>_. True) (ReadAndInterpretStatusByte dt)"
    unfolding ReadAndInterpretStatusByte_def status_flag_def
    by (auto intro!: ends_as_intros split: sys.split list.split)
  then show "ends_as argv (\<lambda>_. True) (Wait dt)"
    unfolding Wait_def by (auto intro!: ends_as_intros)
  have "ends_as argv (\<lambda>_. True) (\<lambda>p. None :: ((ending + bool) \<times> proc) option)" by (simp add: ends_as_def)
  then show "ends_as argv (\<lambda>_. True) (DeathTest_Passed partial_match status_ok dt)"
    unfolding DeathTest_Passed_def Let_def
    by (auto intro!: ends_as_intros split: DeathTestOutcome.split option.split)
  show "ends_as argv (\<lambda>_. True) (DeathTestImpl_destructor dt)"
    unfolding DeathTestImpl_destructor_def by (auto intro!: ends_as_intros)
qed

lemma ends_as_oversee: "ends_as argv (\<lambda>_. True) (oversee_test partial_match predicate dt)"
  unfolding oversee_test_def by (auto intro!: ends_as_intros)

definition overseer :: "TestRole \<times> DeathTestImpl \<Rightarrow> bool" where
  "overseer x \<longleftrightarrow> fst x = OVERSEE_TEST"

text \<open>The program is the parent's own, with the flags for the test and for the death test appended: the index
  is the number of this death test in its test, the descriptor the end of the pipe that is written to.\<close>

definition child_arguments :: "proc \<Rightarrow> TestInfo \<Rightarrow> string \<Rightarrow> c_int \<Rightarrow> int \<Rightarrow> c_int \<Rightarrow> string option list" where
  "child_arguments p info file line k fd =
     exec_arguments (GetArgvsForDeathTestChildProcess p) info (exec_internal_flag file line k fd)"

lemma Exec_AssumeRole_executes:
  assumes "run_flag p = None" and info: "current_test_info p = Some info"
    and "k_pipe p = Sys_ok (rd, wr) # pipes" and run: "Exec_AssumeRole file line dt p = Some (r, p')"
  shows "case r of
      Inl e \<Rightarrow> \<forall>argv. e = Execs argv \<longrightarrow>
        argv = child_arguments p info file line (death_test_count (result_of info)) wr
    | Inr x \<Rightarrow> overseer x"
proof -
  let ?argv = "child_arguments p info file line (death_test_count (result_of info)) wr"
  let ?check = "called_once (GTEST_DEATH_TEST_CHECK 1134 ''fcntl(pipe_fd[1], F_SETFD, 0) != -1'')"
  let ?rest = "\<lambda>argvs. op_then (set_last_death_test_message []) (op_then CaptureStderr
      (op_bind (ExecDeathTestSpawnChild (exec_arguments argvs info
          (exec_internal_flag file line (death_test_count (result_of info)) wr)) rd) (\<lambda>child_pid.
        op_then (checked_close 1157 ''close(pipe_fd[1])'' wr)
          (returns (OVERSEE_TEST, dt\<lparr>dt_child_pid := child_pid, dt_read_fd := rd, dt_spawned := True\<rparr>)))))"
  let ?p = "p\<lparr>k_pipe := pipes\<rparr>"
  have step: "Exec_AssumeRole file line dt p =
      op_then ?check (op_bind (gets GetArgvsForDeathTestChildProcess) ?rest) ?p"
    using assms by (simp add: Exec_AssumeRole_def op_bind_def op_evaluation open_pipe_def next_call_def)
  have rest: "ends_as ?argv overseer (?rest (GetArgvsForDeathTestChildProcess p))"
    unfolding child_arguments_def
    by (intro ends_as_intros) (simp_all add: overseer_def)
  have check: "ends_as ?argv (\<lambda>_. True) ?check" by (intro ends_as_intros)
  show ?thesis
  proof (cases "?check ?p")
    case None
    then show ?thesis using run step by (simp add: op_simps)
  next
    case (Some x)
    then obtain s q where s: "?check ?p = Some (s, q)" by (cases x) simp
    show ?thesis
    proof (cases s)
      case (Inl e)
      then have "r = Inl e" using run step s by (simp add: op_simps)
      then show ?thesis using check s Inl unfolding ends_as_def by fastforce
    next
      case (Inr u)
      have same: "GetArgvsForDeathTestChildProcess q = GetArgvsForDeathTestChildProcess p"
        using s Inr
        by (auto simp: called_once_def op_bind_def next_call_def GTEST_DEATH_TEST_CHECK_def DeathTestAbort_def
            op_then_def op_evaluation write_fd_text_def print_stderr_def GetArgvsForDeathTestChildProcess_def
            split: list.splits sys.splits if_splits option.splits)
      then have "?rest (GetArgvsForDeathTestChildProcess p) q = Some (r, p')"
        using run step s Inr by (simp add: op_simps same)
      then show ?thesis using rest unfolding ends_as_def by blast
    qed
  qed
qed

text \<open>A parent that runs a death test of the threadsafe style becomes this program, in the process it forks,
  and no other.\<close>

lemma parent_executes:
  assumes none: "run_flag p = None" and style: "FLAG_death_test_style p = ''threadsafe''"
    and info: "current_test_info p = Some info" and pipe: "k_pipe p = Sys_ok (rd, wr) # pipes"
    and run: "GTEST_DEATH_TEST partial_match file line statement_text statement predicate regex p =
      Some (Inl (Execs argv), p')"
  shows "argv = child_arguments p info file line (death_test_count (result_of info) + 1) wr"
proof -
  let ?info = "info\<lparr>result_of := snd (increment_death_test_count (result_of info))\<rparr>"
  let ?dt = "fresh_death_test (Exec_style file line) statement_text regex"
  let ?argv = "child_arguments p info file line (death_test_count (result_of info) + 1) wr"
  have c: "current_test_info (counted p) = Some ?info" using info by (simp add: counted_def)
  then have "current_test_info (counted p) \<noteq> None" by simp
  note n = new_DeathTest_inside [OF this]
  have cr: "Create statement_text regex file line p = Some (Inr (True, Some ?dt), counted p)"
    using none style info n
    by (simp add: Create_def create_styled_def op_bind_def op_then_def op_evaluation counted_def
        increment_death_test_count_def)
  have as: "AssumeRole ?dt = Exec_AssumeRole file line ?dt" by (simp add: AssumeRole_def fresh_death_test_def)
  have same: "child_arguments (counted p) ?info file line (death_test_count (result_of ?info)) wr = ?argv"
    by (simp add: child_arguments_def exec_arguments_def exec_filter_flag_def increment_death_test_count_def
        GetArgvsForDeathTestChildProcess_def counted_def)
  have q: "run_flag (counted p) = None" "k_pipe (counted p) = Sys_ok (rd, wr) # pipes"
    using none pipe by (simp_all add: counted_def)
  note role = Exec_AssumeRole_executes [OF q(1) c q(2), of "file" "line" ?dt, unfolded same]
  show ?thesis
  proof (cases "Exec_AssumeRole file line ?dt (counted p)")
    case None
    then show ?thesis using run by (simp add: GTEST_DEATH_TEST_created [OF cr] as op_bind_def)
  next
    case (Some x)
    then obtain r q where r: "Exec_AssumeRole file line ?dt (counted p) = Some (r, q)" by (cases x) simp
    show ?thesis
    proof (cases r)
      case (Inl e)
      then have "e = Execs argv" using run r by (simp add: GTEST_DEATH_TEST_created [OF cr] as op_bind_def)
      then show ?thesis using role [OF r] Inl by simp
    next
      case (Inr y)
      then obtain dt where "y = (OVERSEE_TEST, dt)" using role [OF r] by (cases y) (simp add: overseer_def)
      then have "oversee_test partial_match predicate dt q = Some (Inl (Execs argv), p')"
        using run r Inr by (simp add: GTEST_DEATH_TEST_created [OF cr] as op_bind_def)
      then show ?thesis using ends_as_oversee [of ?argv] unfolding ends_as_def by fastforce
    qed
  qed
qed

text \<open>What the child does with its internal flag.\<close>

lemma child_finds_site:
  assumes flag: "FLAG_internal_run_death_test p = internal_flag_value (site_file s) (site_line s) (int (length sites) + 1) wr"
    and site: "CHR 0x00 \<notin> set (site_file s)" "CHR ''|'' \<notin> set (site_file s)" "0 \<le> sint (site_line s)"
    and small: "int (length sites) + 1 < 2 ^ 31" and fd: "0 \<le> sint wr"
    and child: "FLAG_death_test_style p = ''threadsafe''" "current_test_info p = Some child_info"
      "death_test_count (result_of child_info) = 0"
  shows "\<exists>q dt q'. op_then InitDeathTestSubprocessControlInfo (create_each sites) p =
        Some (Inr (replicate (length sites) (True, None)), q) \<and>
      GTEST_DEATH_TEST partial_match (site_file s) (site_line s) (site_statement s) statement predicate
        (site_regex s) q = execute_test (site_file s) (site_line s) statement dt q' \<and>
      dt_write_fd dt = wr \<and> dt_statement dt = site_statement s"
proof -
  define k where "k = int (length sites) + 1"
  have k: "k = int (length sites) + 1" "k < 2 ^ 31" using small by (simp_all add: k_def)
  define f where "f = \<lparr> flag_file = site_file s, flag_line = site_line s, flag_index = word_of_int k, flag_write_fd = wr \<rparr>"
  have "FLAG_internal_run_death_test p = internal_flag_value (site_file s) (site_line s) k wr"
    using flag by (simp add: k_def)
  then have "ParseInternalRunDeathTestFlag p = Some (Inr (Some f), p)"
    using internal_flag_read_back(1) [of p "site_file s" "site_line s" k wr] site k fd by (simp add: f_def)
  then have ini: "InitDeathTestSubprocessControlInfo p = Some (Inr (), p\<lparr>run_flag := Some f\<rparr>)"
    by (simp add: InitDeathTestSubprocessControlInfo_def op_bind_def op_evaluation)
  let ?p = "p\<lparr>run_flag := Some f\<rparr>"
  have "sint (word_of_int j :: c_int) = j" if "0 \<le> j" "j < 2 ^ 31" for j
    using that by (simp add: signed_of_int signed_take_bit_int_eq_self_iff)
  then have idx: "sint (flag_index f) = k" using k by (simp only: f_def InternalRunDeathTestFlag.simps)
  have zero: "death_tests_so_far ?p = 0" using child(2,3) by (simp add: death_tests_so_far_def)
  obtain q where q: "create_each sites ?p = Some (Inr (replicate (length sites) (True, None)), q)"
    "run_flag q = Some f" "current_test_info q \<noteq> None" "FLAG_death_test_style q = ''threadsafe''"
    "death_tests_so_far q = int (length sites)"
    using create_each_skips [of ?p f sites] child zero idx k(1) by auto
  have cr: "Create (site_statement s) (site_regex s) (site_file s) (site_line s) q =
      Some (Inr (True, Some (fresh_death_test (Exec_style (site_file s) (site_line s)) (site_statement s) (site_regex s))), counted q)"
    using q idx k(1) by (intro Create_in_child(2) [where f = f]) (auto simp: f_def)
  obtain i where "current_test_info (counted q) = Some i"
    using q(3) counted_simps(3) [of q] by (cases "current_test_info (counted q)") auto
  then have "GTEST_DEATH_TEST partial_match (site_file s) (site_line s) (site_statement s) statement predicate
        (site_regex s) q =
      execute_test (site_file s) (site_line s) statement
        ((fresh_death_test (Exec_style (site_file s) (site_line s)) (site_statement s) (site_regex s))
          \<lparr>dt_write_fd := wr\<rparr>) (counted q)"
    using q(2)
    by (simp add: GTEST_DEATH_TEST_created [OF cr] op_bind_def AssumeRole_def fresh_death_test_def Exec_AssumeRole_def
        op_evaluation f_def)
  moreover have "op_then InitDeathTestSubprocessControlInfo (create_each sites) p =
      Some (Inr (replicate (length sites) (True, None)), q)"
    by (simp add: op_then_def op_bind_def ini q(1))
  ultimately show ?thesis
    by (intro exI conjI) (auto simp: fresh_death_test_def)
qed

text \<open>C15: the threadsafe style runs the right statement, in the right process: when the death test at \<open>s\<close>
  is the next one after \<open>sites\<close> in its test, the parent forks a process that becomes a program; that
  program, with the arguments it was given, selects the test by its filter flag, reads its internal flag
  back, passes over the death tests before the one at \<open>s\<close> without running their statements, and at the
  one at \<open>s\<close> executes the statement, reporting to the end of the parent's pipe that is written to.  The
  path of the file must not contain the separator of the flag.\<close>

theorem threadsafe_child_runs_the_test:
  assumes parent: "run_flag pp = None" "FLAG_death_test_style pp = ''threadsafe''"
      "current_test_info pp = Some info" "death_test_count (result_of info) = int (length sites)"
      "k_pipe pp = Sys_ok (rd, wr) # pipes" "GetArgvsForDeathTestChildProcess pp = prog # args"
    and run: "GTEST_DEATH_TEST partial_match (site_file s) (site_line s) (site_statement s) statement predicate
        (site_regex s) pp = Some (Inl (Execs argv), pp')"
    and nn: "CHR 0x00 \<notin> set (test_case_name info)" "CHR 0x00 \<notin> set (test_name info)"
    and site: "CHR 0x00 \<notin> set (site_file s)" "CHR ''|'' \<notin> set (site_file s)" "0 \<le> sint (site_line s)"
    and small: "int (length sites) + 1 < 2 ^ 31" and fd: "0 \<le> sint wr"
    and started: "arg_vector c = argv" "arg_count c = length argv - 1"
    and ok: "parse_from open_file streamed_char 1 c = Inr c'"
    and child: "FLAG_internal_run_death_test p = FLAGS_internal_run_death_test (gtest_flags c')"
      "FLAG_death_test_style p = ''threadsafe''" "current_test_info p = Some child_info"
      "death_test_count (result_of child_info) = 0"
  shows "FLAGS_filter (gtest_flags c') = test_case_name info @ ''.'' @ test_name info \<and>
    (\<exists>q dt q'. op_then InitDeathTestSubprocessControlInfo (create_each sites) p =
        Some (Inr (replicate (length sites) (True, None)), q) \<and>
      GTEST_DEATH_TEST partial_match (site_file s) (site_line s) (site_statement s) statement predicate
        (site_regex s) q = execute_test (site_file s) (site_line s) statement dt q' \<and>
      dt_write_fd dt = wr \<and> dt_statement dt = site_statement s)"
proof -
  let ?k = "int (length sites) + 1"
  have "argv = exec_arguments (prog # args) info (exec_internal_flag (site_file s) (site_line s) ?k wr)"
    using parent_executes [OF parent(1-3,5) run] parent(4,6) by (simp add: child_arguments_def)
  then have "arg_vector c = exec_arguments (prog # args) info (exec_internal_flag (site_file s) (site_line s) ?k wr)"
    and "arg_count c = length args + 3"
    using started by (simp_all add: exec_arguments_list)
  note flags = child_flags [OF nn site(1) this ok]
  have "FLAG_internal_run_death_test p = internal_flag_value (site_file s) (site_line s) ?k wr"
    using child(1) flags(2) by simp
  from child_finds_site [OF this site small fd child(2-4)] flags(1) show ?thesis by blast
qed

section \<open>A sample process\<close>

definition sample_proc :: proc where
  "sample_proc =
     \<lparr> k_read = [], k_calls = [], k_waitpid = [], k_pipe = [Sys_ok (5, 6)], k_fork = [], k_exec = [],
       fd_output = [], fds_closed = [], stderr_output = [], stderr_capture = None, captured_elsewhere = [],
       strerror = (\<lambda>e. []), source_file = ''src/gtest-death-test.cc'', port_source_file = ''src/gtest-port.cc'',
       proc_self_stat = [], stack_usable = True, work_dir = ''/'', injected_arguments = None,
       arguments = [''./t''], FLAG_death_test_style = ''fast'', FLAG_death_test_use_fork = False,
       FLAG_internal_run_death_test = [], run_flag = None, g_in_fast_death_test_child = False,
       last_death_test_message = [], current_test_info = Some (new_TestInfo ''Math'' ''Div'' None None 0),
       forwarding_events = True, log_to_stderr = False \<rparr>"

definition exits_loudly :: stmt where
  "exits_loudly q = (case print_stderr ''division by zero'' q of Some (_, q') \<Rightarrow> Some (Stmt_ends (Exits 3), q'))"

definition sample_regex :: RE where
  "sample_regex = snd (RE_Init (Some ''by zero''))"

lemma sample_regex_matches: "PartialMatch (Some (c_text ''division by zero'')) sample_regex = Some True"
  by code_simp

lemma sample_child:
  "\<exists>dt q q1. child_at_statement ''1 / 0'' sample_regex ''t.cc'' 12 (forked 0 [Sys_fails EINTR, Sys_ok ()] sample_proc) =
      Some (dt, q) \<and> exits_loudly q = Some (Stmt_ends (Exits 3), q1) \<and> sent_to (dt_write_fd dt) q1 = []"
proof -
  let ?p = "forked 0 [Sys_fails EINTR, Sys_ok ()] sample_proc"
  have cr: "Create ''1 / 0'' sample_regex ''t.cc'' 12 ?p =
      Some (Inr (True, Some (fresh_death_test No_exec_style ''1 / 0'' sample_regex)), counted ?p)"
    by (rule Create_fast) (simp_all add: forked_def sample_proc_def)
  show ?thesis
    unfolding child_at_statement_def op_bind_def cr
    by (simp add: op_bind_def AssumeRole_def fresh_death_test_def NoExec_AssumeRole_def
        op_evaluation op_then_def log_warning_def print_stderr_def open_pipe_def next_call_def CaptureStderr_def
        fork_process_def GTEST_DEATH_TEST_CHECK_def checked_close_def GTEST_DEATH_TEST_CHECK_SYSCALL_def retried_call_def
        set_last_death_test_message_def counted_def forked_def sample_proc_def exits_loudly_def sent_to_def)
qed

theorem death_test_verdict_witness:
  "\<exists>p'. GTEST_DEATH_TEST (\<lambda>t re. PartialMatch (Some t) re) ''t.cc'' 12 ''1 / 0'' exits_loudly (ExitedWithCode 3) sample_regex
     (overseeing [Sys_fails EINTR, Sys_ok []] [Sys_ok (wait_status False (Exits 3))] ''division by zero''
       (forked 77 [Sys_ok (), Sys_ok ()] sample_proc)) = Some (Inr None, p')"
proof -
  obtain dt q q1 where child: "child_at_statement ''1 / 0'' sample_regex ''t.cc'' 12
      (forked 0 [Sys_fails EINTR, Sys_ok ()] sample_proc) = Some (dt, q)"
    "exits_loudly q = Some (Stmt_ends (Exits 3), q1)" "sent_to (dt_write_fd dt) q1 = []"
    using sample_child by blast
  have "ready_for_fast_death_test sample_proc"
    by (simp add: ready_for_fast_death_test_def sample_proc_def)
  note verdict = death_test_verdict [where statement = exits_loudly, OF this child,
      where later = "[]" and pid = 77 and parent_calls = "[Sys_ok (), Sys_ok ()]" and ?calls1.0 = "[Sys_ok ()]"
        and ?calls2.0 = "[]" and waits = "[Sys_ok (wait_status False (Exits 3))]" and core = False and waits' = "[]"
        and partial_match = "\<lambda>t re. PartialMatch (Some t) re" and said = "''division by zero''" and matched = True
        and predicate = "ExitedWithCode 3"]
  obtain c where "sent_to (dt_write_fd dt) c = []"
    and v: "\<And>reads reads'. retry_eintr reads = Some (Sys_ok (take 1 (sent_to (dt_write_fd dt) c)), reads') \<Longrightarrow>
      \<exists>res p'. GTEST_DEATH_TEST (\<lambda>t re. PartialMatch (Some t) re) ''t.cc'' 12 ''1 / 0'' exits_loudly (ExitedWithCode 3) sample_regex
          (overseeing reads [Sys_ok (wait_status False (Exits 3))] ''division by zero''
            (forked 77 [Sys_ok (), Sys_ok ()] sample_proc)) = Some (Inr res, p') \<and>
        (res = None \<longleftrightarrow> ExitedWithCode 3 (wait_status False (Exits 3)))"
    using verdict sample_regex_matches by (auto simp: ending_of_def)
  moreover have "ExitedWithCode 3 (wait_status False (Exits 3))"
    by (simp add: ExitedWithCode_exit)
  ultimately show ?thesis
    using v [of "[Sys_fails EINTR, Sys_ok []]" "[]"] by simp
qed

definition sample_site :: "c_int \<Rightarrow> death_site" where
  "sample_site line =
     \<lparr> site_statement = ''1 / 0'', site_regex = sample_regex, site_file = ''t.cc'', site_line = line \<rparr>"

definition sample_command :: "char command_line" where
  "sample_command =
     \<lparr> arg_count = 3,
       arg_vector = exec_arguments [''./t''] (new_TestInfo ''Math'' ''Div'' None None 0) (exec_internal_flag ''t.cc'' 12 2 6),
       gtest_flags = initial_flags (\<lambda>_. None) None, help_flag = False, console = [] \<rparr>"

lemma sample_command_parses: "\<exists>c'. parse_from (\<lambda>_. None) streamed_char 1 sample_command = Inr c'"
proof -
  let ?info = "new_TestInfo ''Math'' ''Div'' None None 0"
  let ?ff = "exec_filter_flag ?info" and ?fi = "exec_internal_flag ''t.cc'' 12 2 6"
  have ff: "CHR 0x00 \<notin> set ?ff" by (simp add: exec_flag_texts flag_text_def new_TestInfo_def)
  have fi: "CHR 0x00 \<notin> set ?fi"
    using int_string_no_nul by (simp add: exec_flag_texts flag_text_def internal_flag_value_text)
  have steps: "\<exists>fl. parse_argument (\<lambda>_. None) ?ff d = Inr (True, d\<lparr>gtest_flags := fl\<rparr>)"
    "\<exists>fl. parse_argument (\<lambda>_. None) ?fi d = Inr (True, d\<lparr>gtest_flags := fl\<rparr>)" for d :: "char command_line"
    by (rule exI, rule parse_argument_flag [OF _ ff], simp only: exec_flag_texts each_flag_parses)
      (rule exI, rule parse_argument_flag [OF _ fi], simp only: exec_flag_texts each_flag_parses)
  have av: "arg_vector sample_command = [Some (c_text ''./t'')] @ map Some [?ff, ?fi] @ None # []"
    by (simp add: sample_command_def exec_arguments_list c_text_no_nul [OF ff] c_text_no_nul [OF fi])
  have ac: "arg_count sample_command = length [Some (c_text ''./t'')] + length [?ff, ?fi]"
    by (simp add: sample_command_def)
  note parsed = parse_from_list [OF av ac, of "\<lambda>_. None" streamed_char, unfolded Let_def]
  have "\<exists>n v. parse_from (\<lambda>_. None) streamed_char (length [Some (c_text ''./t'')]) sample_command =
      map_sum id (with_args n v) (parse_each (\<lambda>_. None) (map (streamed_char \<circ> Some) [?ff, ?fi]) sample_command)"
    using parsed by blast
  then obtain n v where "parse_from (\<lambda>_. None) streamed_char 1 sample_command =
      map_sum id (with_args n v) (parse_each (\<lambda>_. None) [?ff, ?fi] sample_command)"
    by (auto simp: streamed_char_no_nul [OF ff] streamed_char_no_nul [OF fi] simp del: parse_each.simps)
  moreover obtain fl1 fl2 where "parse_argument (\<lambda>_. None) ?ff sample_command = Inr (True, sample_command\<lparr>gtest_flags := fl1\<rparr>)"
    "parse_argument (\<lambda>_. None) ?fi (sample_command\<lparr>gtest_flags := fl1\<rparr>) =
      Inr (True, sample_command\<lparr>gtest_flags := fl1\<rparr>\<lparr>gtest_flags := fl2\<rparr>)"
    using steps by blast
  ultimately show ?thesis by simp
qed

text \<open>The process that the sample parent forks, at its second death test, and what it becomes.\<close>

definition sample_parent :: proc where
  "sample_parent =
     sample_proc\<lparr> FLAG_death_test_style := ''threadsafe'', k_fork := [Sys_ok 0], k_exec := [Sys_ok ()],
       k_calls := replicate 5 (Sys_ok ()),
       current_test_info := Some ((new_TestInfo ''Math'' ''Div'' None None 0)
         \<lparr> result_of := snd (increment_death_test_count new_TestResult) \<rparr>) \<rparr>"

lemma sample_parent_executes:
  "\<exists>q. GTEST_DEATH_TEST partial_match ''t.cc'' 12 ''1 / 0'' statement predicate sample_regex sample_parent =
     Some (Inl (Execs (arg_vector sample_command)), q)"
  by (simp add: GTEST_DEATH_TEST_def Create_def create_styled_def new_DeathTest_def DeathTest_constructor_def
      AssumeRole_def Exec_AssumeRole_def ExecDeathTestSpawnChild_def ExecDeathTestChildMain_def open_pipe_def
      called_once_def next_call_def fork_process_def GTEST_DEATH_TEST_CHECK_def GTEST_DEATH_TEST_CHECK_SYSCALL_def
      retried_call_def checked_close_def CaptureStderr_def set_last_death_test_message_def op_bind_def op_then_def
      op_evaluation sample_parent_def sample_proc_def sample_command_def increment_death_test_count_def
      GetArgvsForDeathTestChildProcess_def GetInjectableArgvs_def new_TestResult_def exec_arguments_def
      exec_filter_flag_def new_TestInfo_def numeral_eq_Suc)

theorem threadsafe_child_runs_the_test_witness:
  "\<exists>c' q dt q'. parse_from (\<lambda>_. None) streamed_char 1 sample_command = Inr c' \<and>
     FLAGS_filter (gtest_flags c') = ''Math.Div'' \<and>
     op_then InitDeathTestSubprocessControlInfo (create_each [sample_site 11])
       (sample_proc\<lparr>FLAG_death_test_style := ''threadsafe'',
          FLAG_internal_run_death_test := FLAGS_internal_run_death_test (gtest_flags c')\<rparr>) =
       Some (Inr [(True, None)], q) \<and>
     GTEST_DEATH_TEST (\<lambda>t re. PartialMatch (Some t) re) ''t.cc'' 12 ''1 / 0'' exits_loudly (ExitedWithCode 3) sample_regex q =
       execute_test ''t.cc'' 12 exits_loudly dt q' \<and>
     dt_write_fd dt = 6"
proof -
  obtain c' where c': "parse_from (\<lambda>_. None) streamed_char 1 sample_command = Inr c'"
    using sample_command_parses by blast
  let ?p = "sample_proc\<lparr>FLAG_death_test_style := ''threadsafe'',
    FLAG_internal_run_death_test := FLAGS_internal_run_death_test (gtest_flags c')\<rparr>"
  let ?i = "(new_TestInfo ''Math'' ''Div'' None None 0)\<lparr> result_of := snd (increment_death_test_count new_TestResult) \<rparr>"
    and ?s = "sample_site 12"
  have parent: "run_flag sample_parent = None" "FLAG_death_test_style sample_parent = ''threadsafe''"
    "current_test_info sample_parent = Some ?i" "death_test_count (result_of ?i) = int (length [sample_site 11])"
    "k_pipe sample_parent = Sys_ok (5, 6) # []" "GetArgvsForDeathTestChildProcess sample_parent = ''./t'' # []"
    by (simp_all add: sample_parent_def sample_proc_def new_TestResult_def increment_death_test_count_def
        GetArgvsForDeathTestChildProcess_def GetInjectableArgvs_def)
  have site_texts: "site_statement ?s = ''1 / 0''" "site_regex ?s = sample_regex" "site_file ?s = ''t.cc''"
    "site_line ?s = 12"
    by (simp_all add: sample_site_def)
  obtain pp' where run: "GTEST_DEATH_TEST (\<lambda>t re. PartialMatch (Some t) re) (site_file ?s) (site_line ?s)
      (site_statement ?s) exits_loudly (ExitedWithCode 3) (site_regex ?s) sample_parent =
      Some (Inl (Execs (arg_vector sample_command)), pp')"
    using sample_parent_executes unfolding site_texts by blast
  have names: "CHR 0x00 \<notin> set (test_case_name ?i)" "CHR 0x00 \<notin> set (test_name ?i)"
    by (simp_all add: new_TestInfo_def)
  have site: "CHR 0x00 \<notin> set (site_file ?s)" "CHR ''|'' \<notin> set (site_file ?s)" "0 \<le> sint (site_line ?s)"
    by (simp_all add: sample_site_def)
  have small: "int (length [sample_site 11]) + 1 < 2 ^ 31" "0 \<le> sint (6 :: c_int)" by simp_all
  have cmd: "arg_vector sample_command = arg_vector sample_command"
    "arg_count sample_command = length (arg_vector sample_command) - 1"
    by (simp_all add: sample_command_def exec_arguments_list)
  have proc: "FLAG_internal_run_death_test ?p = FLAGS_internal_run_death_test (gtest_flags c')"
    "FLAG_death_test_style ?p = ''threadsafe''" "current_test_info ?p = Some (new_TestInfo ''Math'' ''Div'' None None 0)"
    "death_test_count (result_of (new_TestInfo ''Math'' ''Div'' None None 0)) = 0"
    by (simp_all add: sample_proc_def new_TestInfo_def new_TestResult_def)
  note found = threadsafe_child_runs_the_test [OF parent run names site small cmd c' proc]
  have texts: "test_case_name ?i @ ''.'' @ test_name ?i = ''Math.Div''"
    "replicate (length [sample_site 11]) (True, None) = [(True, None)]"
    by (simp_all add: new_TestInfo_def)
  show ?thesis
    using found c' unfolding texts site_texts by blast
qed

end
