(* ===== verification/Gtest_Console.thy ===== *)
theory Gtest_Console
  imports Gtest_Registry Gtest_Flags
begin

text \<open>
  The console printer of googletest: \<open>PrettyUnitTestResultPrinter\<close> of \<open>src/gtest.cc\<close> and the colours of
  the terminal.  What is printed is a list of pieces with their colours; \<open>render\<close> is what reaches the
  terminal.  A POSIX terminal takes escape sequences.
\<close>

section \<open>Formatting\<close>

definition FormatCountableNoun :: "int \<Rightarrow> string \<Rightarrow> string \<Rightarrow> string" where
  "FormatCountableNoun n singular_form plural_form =
     StreamableToString (int_string n) @ '' '' @ (if n = 1 then singular_form else plural_form)"

definition FormatTestCount :: "int \<Rightarrow> string" where
  "FormatTestCount test_count = FormatCountableNoun test_count ''test'' ''tests''"

definition FormatTestCaseCount :: "int \<Rightarrow> string" where
  "FormatTestCaseCount test_case_count = FormatCountableNoun test_case_count ''test case'' ''test cases''"

text \<open>The conversion \<open>%2d\<close>.\<close>

definition int_width2 :: "int \<Rightarrow> string" where
  "int_width2 n = replicate (2 - length (int_string n)) CHR '' '' @ int_string n"

section \<open>Colours\<close>

definition GetAnsiColorCode :: "GTestColor \<Rightarrow> string option" where
  "GetAnsiColorCode color =
     (case color of COLOR_RED \<Rightarrow> Some ''1'' | COLOR_GREEN \<Rightarrow> Some ''2'' | COLOR_YELLOW \<Rightarrow> Some ''3''
      | COLOR_DEFAULT \<Rightarrow> None)"

definition colour_terminals :: "string list" where
  "colour_terminals =
     [''xterm'', ''xterm-color'', ''xterm-256color'', ''screen'', ''screen-256color'', ''tmux'',
      ''tmux-256color'', ''rxvt-unicode'', ''rxvt-unicode-256color'', ''linux'', ''cygwin'']"

definition ShouldUseColor :: "platform \<Rightarrow> string \<Rightarrow> string option \<Rightarrow> bool \<Rightarrow> bool" where
  "ShouldUseColor p gtest_color term_variable stdout_is_tty =
     (if CaseInsensitiveCStringEquals (Some gtest_color) (Some ''auto'') then
        (case p of
           Windows \<Rightarrow> stdout_is_tty
         | Posix \<Rightarrow>
             let term_supports_color =
               list_ex (\<lambda>t. CStringEquals term_variable (Some t)) colour_terminals in
             stdout_is_tty \<and> term_supports_color)
      else
        CaseInsensitiveCStringEquals (Some gtest_color) (Some ''yes'') \<or>
        CaseInsensitiveCStringEquals (Some gtest_color) (Some ''true'') \<or>
        CaseInsensitiveCStringEquals (Some gtest_color) (Some ''t'') \<or>
        CStringEquals (Some gtest_color) (Some ''1''))"

type_synonym printed = "(GTestColor \<times> string) list"

definition ColoredPrintf :: "GTestColor \<Rightarrow> string \<Rightarrow> printed" where
  "ColoredPrintf color s = [(color, s)]"

definition print_plain :: "string \<Rightarrow> printed" where
  "print_plain s = [(COLOR_DEFAULT, s)]"

text \<open>The body of \<open>ColoredPrintf\<close> for a piece; plain \<open>printf\<close> prints a piece of the default colour.\<close>

definition render_piece :: "bool \<Rightarrow> GTestColor \<times> string \<Rightarrow> string" where
  "render_piece in_color_mode piece =
     (let use_color = in_color_mode \<and> fst piece \<noteq> COLOR_DEFAULT in
      if \<not> use_color then snd piece
      else [CHR 0x1B] @ ''[0;3'' @ (case GetAnsiColorCode (fst piece) of None \<Rightarrow> ''(null)'' | Some digit \<Rightarrow> digit) @ ''m'' @
        snd piece @ [CHR 0x1B] @ ''[m'')"

definition render :: "bool \<Rightarrow> printed \<Rightarrow> string" where
  "render in_color_mode pieces = concat (map (render_piece in_color_mode) pieces)"

section \<open>The callbacks\<close>

definition PrintFullTestCommentIfPresent :: "TestInfo \<Rightarrow> printed" where
  "PrintFullTestCommentIfPresent t =
     (if type_param t \<noteq> None \<or> value_param t \<noteq> None then
        print_plain '', where '' @
        (case type_param t of
           None \<Rightarrow> []
         | Some tp \<Rightarrow> print_plain (kTypeParamLabel @ '' = '' @ tp) @
             (if value_param t \<noteq> None then print_plain '' and '' else [])) @
        (case value_param t of
           None \<Rightarrow> []
         | Some vp \<Rightarrow> print_plain (kValueParamLabel @ '' = '' @ vp))
      else [])"

definition PrintTestName :: "string \<Rightarrow> string \<Rightarrow> printed" where
  "PrintTestName a_case a_test = print_plain (c_text a_case @ ''.'' @ c_text a_test)"

text \<open>
  What the printer reads: the flags, the environment variables and the elapsed time of the unit test.
  \<open>Inl\<close>: the process exits in \<open>ShouldShard\<close>.
\<close>

definition newline :: string where "newline = [CHR 0x0A]"

definition console_OnTestIterationStart ::
    "GTestFlags \<Rightarrow> (string \<Rightarrow> string option) \<Rightarrow> UnitTestImpl \<Rightarrow> int \<Rightarrow> string + printed" where
  "console_OnTestIterationStart fl env u iteration =
     (let repeating = (if FLAGS_repeat fl \<noteq> 1
            then print_plain (newline @ ''Repeating all tests (iteration '' @ int_string (iteration + 1) @ '') . . .'' @
              newline @ newline) else []);
          flt = c_text (FLAGS_filter fl);
          filter_note = (if flt \<noteq> kUniversalFilter
            then ColoredPrintf COLOR_YELLOW (''Note: Google Test filter = '' @ flt @ newline) else []);
          shuffle_note = (if FLAGS_shuffle fl
            then ColoredPrintf COLOR_YELLOW (''Note: Randomizing tests' orders with a seed of '' @
              int_string (random_seed u) @ '' .'' @ newline) else []);
          running = ColoredPrintf COLOR_GREEN ''[==========] '' @
            print_plain (''Running '' @ FormatTestCount (all_test_to_run_count u) @ '' from '' @
              FormatTestCaseCount (test_case_to_run_count u) @ ''.'' @ newline) in
      case ShouldShard env kTestTotalShards kTestShardIndex False of
        Inl out \<Rightarrow> Inl out
      | Inr sharded \<Rightarrow>
          if sharded then
            (case Int32FromEnvOrDie env kTestShardIndex (-1) of
               Inl out \<Rightarrow> Inl out
             | Inr shard_index \<Rightarrow>
                 Inr (repeating @ filter_note @
                   ColoredPrintf COLOR_YELLOW (''Note: This is test shard '' @ int_string (shard_index + 1) @ '' of '' @
                     (case env kTestTotalShards of None \<Rightarrow> ''(null)'' | Some s \<Rightarrow> s) @ ''.'' @ newline) @
                   shuffle_note @ running))
          else Inr (repeating @ filter_note @ shuffle_note @ running))"

definition console_OnEnvironmentsSetUpStart :: printed where
  "console_OnEnvironmentsSetUpStart =
     ColoredPrintf COLOR_GREEN ''[----------] '' @ print_plain (''Global test environment set-up.'' @ newline)"

definition console_OnTestCaseStart :: "TestCase \<Rightarrow> printed" where
  "console_OnTestCaseStart c =
     (let counts = FormatCountableNoun (test_to_run_count c) ''test'' ''tests'' in
      ColoredPrintf COLOR_GREEN ''[----------] '' @
      print_plain (counts @ '' from '' @ c_text (case_name c)) @
      (case case_type_param c of
         None \<Rightarrow> print_plain newline
       | Some tp \<Rightarrow> print_plain ('', where '' @ kTypeParamLabel @ '' = '' @ tp @ newline)))"

definition console_OnTestStart :: "TestInfo \<Rightarrow> printed" where
  "console_OnTestStart t =
     ColoredPrintf COLOR_GREEN ''[ RUN      ] '' @ PrintTestName (test_case_name t) (test_name t) @ print_plain newline"

definition console_OnTestPartResult :: "bool \<Rightarrow> TestPartResult \<Rightarrow> printed" where
  "console_OnTestPartResult msc result =
     (if part_type result = kSuccess then [] else print_plain (PrintTestPartResult msc result))"

definition console_OnTestEnd :: "GTestFlags \<Rightarrow> TestInfo \<Rightarrow> printed" where
  "console_OnTestEnd fl t =
     (if Passed (result_of t) then ColoredPrintf COLOR_GREEN ''[       OK ] ''
      else ColoredPrintf COLOR_RED ''[  FAILED  ] '') @
     PrintTestName (test_case_name t) (test_name t) @
     (if Failed (result_of t) then PrintFullTestCommentIfPresent t else []) @
     (if FLAGS_print_time fl
      then print_plain ('' ('' @ StreamableToString (int_string (result_elapsed_time (result_of t))) @ '' ms)'' @ newline)
      else print_plain newline)"

definition console_OnTestCaseEnd :: "GTestFlags \<Rightarrow> TestCase \<Rightarrow> printed" where
  "console_OnTestCaseEnd fl c =
     (if \<not> FLAGS_print_time fl then []
      else
        let counts = FormatCountableNoun (test_to_run_count c) ''test'' ''tests'' in
        ColoredPrintf COLOR_GREEN ''[----------] '' @
        print_plain (counts @ '' from '' @ c_text (case_name c) @ '' ('' @
          StreamableToString (int_string (case_elapsed_time c)) @ '' ms total)'' @ newline @ newline))"

definition console_OnEnvironmentsTearDownStart :: printed where
  "console_OnEnvironmentsTearDownStart =
     ColoredPrintf COLOR_GREEN ''[----------] '' @ print_plain (''Global test environment tear-down'' @ newline)"

section \<open>The list of failed tests\<close>

definition failed_test_line :: "TestCase \<Rightarrow> TestInfo \<Rightarrow> printed" where
  "failed_test_line c t =
     ColoredPrintf COLOR_RED ''[  FAILED  ] '' @ print_plain (c_text (case_name c) @ ''.'' @ c_text (test_name t)) @
     PrintFullTestCommentIfPresent t @ print_plain newline"

text \<open>The inner loop from \<open>j\<close> and the outer loop from \<open>i\<close>; a null pointer would be dereferenced.\<close>

function print_failed_in_case :: "TestCase \<Rightarrow> nat \<Rightarrow> printed result" where
  "print_failed_in_case c j =
     (if total_test_count c \<le> int j then Inr []
      else
        case GetTestInfo c (int j) of
          None \<Rightarrow> Inl (Undefined_behaviour ''null TestInfo'')
        | Some t \<Rightarrow>
            if \<not> should_run t \<or> Passed (result_of t) then print_failed_in_case c (j + 1)
            else bind_result (print_failed_in_case c (j + 1)) (\<lambda>rest. Inr (failed_test_line c t @ rest)))"
  by pat_completeness auto

termination
  by (relation "measure (\<lambda>(c, j). length (test_info_list c) - j)") (auto simp: total_test_count_def)

declare print_failed_in_case.simps [simp del]

function print_failed_in_cases :: "UnitTestImpl \<Rightarrow> nat \<Rightarrow> printed result" where
  "print_failed_in_cases u i =
     (if total_test_case_count u \<le> int i then Inr []
      else
        case GetTestCase u (int i) of
          None \<Rightarrow> Inl (Undefined_behaviour ''null TestCase'')
        | Some c \<Rightarrow>
            if \<not> case_should_run c \<or> failed_test_count c = 0 then print_failed_in_cases u (i + 1)
            else
              bind_result (print_failed_in_case c 0) (\<lambda>here.
              bind_result (print_failed_in_cases u (i + 1)) (\<lambda>rest. Inr (here @ rest))))"
  by pat_completeness auto

termination
  by (relation "measure (\<lambda>(u, i). length (test_cases u) - i)") (auto simp: total_test_case_count_def)

declare print_failed_in_cases.simps [simp del]

definition PrintFailedTests :: "UnitTestImpl \<Rightarrow> printed result" where
  "PrintFailedTests u = (if all_failed_test_count u = 0 then Inr [] else print_failed_in_cases u 0)"

text \<open>The three parts of the summary.\<close>

definition summary_ran :: "GTestFlags \<Rightarrow> UnitTestImpl \<Rightarrow> int \<Rightarrow> printed" where
  "summary_ran fl u unit_elapsed_time =
     ColoredPrintf COLOR_GREEN ''[==========] '' @
     print_plain (FormatTestCount (all_test_to_run_count u) @ '' from '' @
       FormatTestCaseCount (test_case_to_run_count u) @ '' ran.'') @
     (if FLAGS_print_time fl
      then print_plain ('' ('' @ StreamableToString (int_string unit_elapsed_time) @ '' ms total)'') else []) @
     print_plain newline @
     ColoredPrintf COLOR_GREEN ''[  PASSED  ] '' @
     print_plain (FormatTestCount (all_successful_test_count u) @ ''.'' @ newline)"

definition summary_failed :: "int \<Rightarrow> printed \<Rightarrow> printed" where
  "summary_failed num_failures listed =
     ColoredPrintf COLOR_RED ''[  FAILED  ] '' @
     print_plain (FormatTestCount num_failures @ '', listed below:'' @ newline) @ listed @
     print_plain (newline @ int_width2 num_failures @ '' FAILED '' @
       (if num_failures = 1 then ''TEST'' else ''TESTS'') @ newline)"

definition summary_disabled :: "GTestFlags \<Rightarrow> UnitTestImpl \<Rightarrow> printed" where
  "summary_disabled fl u =
     (let num_failures = all_failed_test_count u; num_disabled = all_reportable_disabled_test_count u in
      if num_disabled \<noteq> 0 \<and> \<not> FLAGS_also_run_disabled_tests fl then
        (if num_failures = 0 then print_plain newline else []) @
        ColoredPrintf COLOR_YELLOW (''  YOU HAVE '' @ int_string num_disabled @ '' DISABLED '' @
          (if num_disabled = 1 then ''TEST'' else ''TESTS'') @ newline @ newline)
      else [])"

definition console_OnTestIterationEnd :: "GTestFlags \<Rightarrow> UnitTestImpl \<Rightarrow> int \<Rightarrow> printed result" where
  "console_OnTestIterationEnd fl u unit_elapsed_time =
     (if unit_Passed u then Inr (summary_ran fl u unit_elapsed_time @ summary_disabled fl u)
      else
        bind_result (PrintFailedTests u) (\<lambda>listed.
          Inr (summary_ran fl u unit_elapsed_time @ summary_failed (all_failed_test_count u) listed @
            summary_disabled fl u)))"

section \<open>Colours do not change the text\<close>

text \<open>A terminal's reader of escape sequences: what is left of the text without them.\<close>

function strip_escapes :: "string \<Rightarrow> string" where
  "strip_escapes s =
     (case s of
        [] \<Rightarrow> []
      | c # rest \<Rightarrow>
          if c = CHR 0x1B then strip_escapes (drop 1 (dropWhile (\<lambda>d. d \<noteq> CHR ''m'') rest))
          else c # strip_escapes rest)"
  by pat_completeness auto

termination
  by (relation "measure length") (auto simp: length_dropWhile_le less_Suc_eq_le intro: le_trans [OF diff_le_self])

declare strip_escapes.simps [simp del]

lemma strip_escapes_simps [simp]:
  "strip_escapes [] = []"
  "c \<noteq> CHR 0x1B \<Longrightarrow> strip_escapes (c # rest) = c # strip_escapes rest"
  "strip_escapes (CHR 0x1B # rest) = strip_escapes (drop 1 (dropWhile (\<lambda>d. d \<noteq> CHR ''m'') rest))"
  by (subst strip_escapes.simps, simp)+

lemma strip_plain: "CHR 0x1B \<notin> set t \<Longrightarrow> strip_escapes (t @ rest) = t @ strip_escapes rest"
  by (induction t) auto

lemma colours_strip:
  "\<forall>piece \<in> set pieces. CHR 0x1B \<notin> set (snd piece) \<Longrightarrow>
     strip_escapes (render in_color_mode pieces) = render False pieces"
proof (induction pieces)
  case (Cons piece pieces)
  obtain color t where piece: "piece = (color, t)" by (cases piece)
  have t: "CHR 0x1B \<notin> set t" using Cons.prems piece by simp
  have IH: "strip_escapes (render in_color_mode pieces) = render False pieces" using Cons by simp
  have "strip_escapes (render_piece in_color_mode (color, t) @ rest) = t @ strip_escapes rest" for rest
    using t by (cases color; cases in_color_mode)
      (simp_all add: render_piece_def GetAnsiColorCode_def strip_plain)
  then show ?case using IH by (simp add: render_def piece) (simp add: render_piece_def)
qed (simp add: render_def)

section \<open>The printed list is the list of failed tests\<close>

lemma nth_indices:
  assumes "case_ok c"
  shows "mset (map (\<lambda>i. test_info_list c ! nat i) (test_indices c)) = mset (test_info_list c)"
proof -
  have "mset (map (\<lambda>i. test_info_list c ! nat i) (test_indices c)) =
      image_mset (\<lambda>i. test_info_list c ! nat i) (mset (map int [0..<length (test_info_list c)]))"
    using assms unfolding case_ok_def by simp
  also have "\<dots> = mset (map (\<lambda>i. test_info_list c ! i) [0..<length (test_info_list c)])"
    by (simp add: multiset.map_comp comp_def)
  also have "\<dots> = mset (test_info_list c)" by (simp add: map_nth)
  finally show ?thesis .
qed

lemma GetTestInfo_ordered:
  assumes "case_ok c" and "j < length (test_info_list c)"
  shows "GetTestInfo c (int j) = Some (test_info_list c ! nat (test_indices c ! j))"
proof -
  have len: "length (test_indices c) = length (test_info_list c)"
    using assms(1) by (rule case_ok_length)
  have "set (test_indices c) = int ` {0..<length (test_info_list c)}"
    using assms(1) unfolding case_ok_def by (metis list.set_map set_mset_mset set_upt)
  then have "0 \<le> test_indices c ! j"
    using assms(2) len nth_mem [of j "test_indices c"] by auto
  then show ?thesis
    using assms(2) len by (simp add: GetTestInfo_def GetElementOr_def Let_def)
qed

lemma print_failed_in_case_list:
  assumes ok: "case_ok c" and "j \<le> length (test_info_list c)"
  shows "print_failed_in_case c j =
    Inr (concat (map (failed_test_line c)
      (filter TestFailed (map (\<lambda>i. test_info_list c ! nat i) (drop j (test_indices c))))))"
  using assms(2)
proof (induction "length (test_info_list c) - j" arbitrary: j)
  case 0
  then show ?case
    using case_ok_length [OF ok] by (subst print_failed_in_case.simps) (simp add: total_test_count_def)
next
  case (Suc n)
  let ?t = "test_info_list c ! nat (test_indices c ! j)"
  have j: "j < length (test_info_list c)" using Suc by simp
  then have d: "drop j (test_indices c) = test_indices c ! j # drop (j + 1) (test_indices c)"
    using case_ok_length [OF ok] by (simp add: Cons_nth_drop_Suc)
  have IH: "print_failed_in_case c (j + 1) =
      Inr (concat (map (failed_test_line c)
        (filter TestFailed (map (\<lambda>i. test_info_list c ! nat i) (drop (j + 1) (test_indices c))))))"
    using Suc.hyps(1) [of "j + 1"] Suc.hyps(2) j by simp
  have "(should_run ?t \<longrightarrow> Passed (result_of ?t)) \<longleftrightarrow> \<not> TestFailed ?t"
    by (auto simp: TestFailed_def Passed_def)
  then show ?case
    using j IH GetTestInfo_ordered [OF ok j] unfolding d
    by (subst print_failed_in_case.simps) (auto simp: total_test_count_def simp del: drop_Suc)
qed

text \<open>The failed tests of a unit test, with their test cases.\<close>

definition failed_tests :: "UnitTestImpl \<Rightarrow> (TestCase \<times> TestInfo) list" where
  "failed_tests u =
     concat (map (\<lambda>c. map (Pair c) (filter TestFailed (test_info_list c))) (test_cases u))"

lemma length_failed_tests: "all_failed_test_count u = int (length (failed_tests u))"
proof -
  have "sum_from 0 failed_test_count cs =
      int (length (concat (map (\<lambda>c. map (Pair c) (filter TestFailed (test_info_list c))) cs)))" for cs
  proof (induction cs)
    case (Cons c cs)
    have "sum_from 0 failed_test_count (c # cs) = failed_test_count c + sum_from 0 failed_test_count cs"
      using sum_from_shift [of "failed_test_count c" failed_test_count cs] by simp
    moreover have "failed_test_count c = int (length (filter TestFailed (test_info_list c)))"
      by (simp add: failed_test_count_def CountIf_length)
    ultimately show ?case using Cons by simp
  qed simp
  then show ?thesis by (simp add: all_failed_test_count_def SumOverTestCaseList_def failed_tests_def)
qed

definition runs_its_tests :: "TestCase \<Rightarrow> bool" where
  "runs_its_tests c \<longleftrightarrow> (\<forall>t \<in> set (test_info_list c). should_run t \<longrightarrow> case_should_run c)"

definition valid_case_indices :: "UnitTestImpl \<Rightarrow> bool" where
  "valid_case_indices u \<longleftrightarrow>
     length (test_case_indices u) = length (test_cases u) \<and> (\<forall>i \<in> set (test_case_indices u). 0 \<le> i)"

lemma print_failed_in_cases_list:
  assumes idx: "valid_case_indices u" and ok: "\<forall>c \<in> set (test_cases u). case_ok c \<and> runs_its_tests c"
    and "i \<le> length (test_cases u)"
  shows "\<exists>ts. print_failed_in_cases u i = Inr (concat (map (\<lambda>(c, t). failed_test_line c t) ts)) \<and>
    mset ts = mset (concat (map (\<lambda>c. map (Pair c) (filter TestFailed (test_info_list c))) (drop i (test_cases u))))"
  using assms(3)
proof (induction "length (test_cases u) - i" arbitrary: i)
  case 0
  then show ?case
    by (subst print_failed_in_cases.simps) (auto simp: total_test_case_count_def intro!: exI [of _ "[]"])
next
  case (Suc n)
  let ?c = "test_cases u ! i"
  have i: "i < length (test_cases u)" using Suc by simp
  have c: "case_ok ?c" "runs_its_tests ?c" using ok i by auto
  have "\<not> test_case_indices u ! i < 0"
  proof -
    have "test_case_indices u ! i \<in> set (test_case_indices u)"
      using idx i by (simp add: valid_case_indices_def)
    then show ?thesis using idx unfolding valid_case_indices_def not_less by blast
  qed
  then have get: "GetTestCase u (int i) = Some ?c"
    using idx i by (simp add: GetTestCase_def GetElementOr_def Let_def valid_case_indices_def)
  have d: "drop i (test_cases u) = ?c # drop (i + 1) (test_cases u)"
    using i by (simp add: Cons_nth_drop_Suc)
  have "n = length (test_cases u) - (i + 1)" "i + 1 \<le> length (test_cases u)" using Suc.hyps(2) i by simp_all
  from Suc.hyps(1) [OF this] obtain ts where ts: "print_failed_in_cases u (i + 1) = Inr (concat (map (\<lambda>(c, t). failed_test_line c t) ts))"
    "mset ts = mset (concat (map (\<lambda>c. map (Pair c) (filter TestFailed (test_info_list c))) (drop (i + 1) (test_cases u))))"
    by blast
  have n: "failed_test_count ?c = 0 \<longleftrightarrow> filter TestFailed (test_info_list ?c) = []"
    by (simp add: failed_test_count_def CountIf_length)
  have nr: "\<not> case_should_run ?c \<Longrightarrow> filter TestFailed (test_info_list ?c) = []"
    using c(2) by (auto simp: runs_its_tests_def TestFailed_def filter_empty_conv)
  show ?case
  proof (cases "\<not> case_should_run ?c \<or> failed_test_count ?c = 0")
    case True
    then have "filter TestFailed (test_info_list ?c) = []" using n nr by blast
    then show ?thesis
      using True i get ts unfolding d
      by (subst print_failed_in_cases.simps) (auto simp: total_test_case_count_def intro!: exI [of _ ts])
  next
    case False
    let ?f = "filter TestFailed (map (\<lambda>i. test_info_list ?c ! nat i) (test_indices ?c))"
    have "mset ?f = mset (filter TestFailed (test_info_list ?c))"
      using nth_indices [OF c(1)] by (metis mset_filter)
    then have "mset (map (Pair ?c) ?f) = mset (map (Pair ?c) (filter TestFailed (test_info_list ?c)))"
      by simp
    moreover have "concat (map (failed_test_line ?c) ?f) =
        concat (map (\<lambda>(c, t). failed_test_line c t) (map (Pair ?c) ?f))" by (simp add: comp_def)
    ultimately show ?thesis
      using False i get ts print_failed_in_case_list [OF c(1), of 0] unfolding d
      by (subst print_failed_in_cases.simps)
        (auto simp: total_test_case_count_def intro!: exI [of _ "map (Pair ?c) ?f @ ts"])
  qed
qed

section \<open>The text of the summary\<close>

text \<open>The summary that the user reads, written out over the tests.\<close>

definition noun :: "nat \<Rightarrow> string \<Rightarrow> string" where
  "noun n s = dec_string n @ '' '' @ s @ (if n = 1 then [] else ''s'')"

definition comment_text :: "TestInfo \<Rightarrow> string" where
  "comment_text t =
     (case (type_param t, value_param t) of
        (None, None) \<Rightarrow> []
      | (Some tp, None) \<Rightarrow> '', where TypeParam = '' @ tp
      | (None, Some vp) \<Rightarrow> '', where GetParam() = '' @ vp
      | (Some tp, Some vp) \<Rightarrow> '', where TypeParam = '' @ tp @ '' and GetParam() = '' @ vp)"

definition failures_text :: "(TestCase \<times> TestInfo) list \<Rightarrow> string" where
  "failures_text ts =
     ''[  FAILED  ] '' @ noun (length ts) ''test'' @ '', listed below:'' @ newline @
     concat (map (\<lambda>(c, t). ''[  FAILED  ] '' @ c_text (case_name c) @ ''.'' @ c_text (test_name t) @
       comment_text t @ newline) ts) @ newline @
     (if length ts < 10 then '' '' else []) @ dec_string (length ts) @ '' FAILED '' @
     (if length ts = 1 then ''TEST'' else ''TESTS'') @ newline"

definition disabled_text :: "nat \<Rightarrow> string" where
  "disabled_text n =
     ''  YOU HAVE '' @ dec_string n @ '' DISABLED '' @ (if n = 1 then ''TEST'' else ''TESTS'') @ newline @ newline"

definition summary_text :: "GTestFlags \<Rightarrow> int \<Rightarrow> UnitTestImpl \<Rightarrow> (TestCase \<times> TestInfo) list \<Rightarrow> string" where
  "summary_text fl elapsed u ts =
     (let run = filter should_run (all_tests u);
          passed = filter (\<lambda>t. \<not> Failed (result_of t)) run;
          cases = filter case_should_run (test_cases u);
          disabled = filter (\<lambda>t. is_disabled t \<and> is_reportable t) (all_tests u) in
      ''[==========] '' @ noun (length run) ''test'' @ '' from '' @ noun (length cases) ''test case'' @ '' ran.'' @
      (if FLAGS_print_time fl then '' ('' @ int_string elapsed @ '' ms total)'' else []) @ newline @
      ''[  PASSED  ] '' @ noun (length passed) ''test'' @ ''.'' @ newline @
      (if ts = [] \<and> \<not> Failed (ad_hoc_test_result u) then [] else failures_text ts) @
      (if disabled = [] \<or> FLAGS_also_run_disabled_tests fl then []
       else (if ts = [] then newline else []) @ disabled_text (length disabled)))"

lemma render_plain [simp]:
  "render False [] = []" "render False (xs @ ys) = render False xs @ render False ys"
  "render False (ColoredPrintf color s) = s" "render False (print_plain s) = s"
  by (simp_all add: render_def render_piece_def ColoredPrintf_def print_plain_def)

lemma render_concat: "render False (concat (map f xs)) = concat (map (\<lambda>x. render False (f x)) xs)"
  by (induction xs) simp_all

lemma FormatCountableNoun_noun:
  "plural = singular @ ''s'' \<Longrightarrow> FormatCountableNoun (int n) singular plural = noun n singular"
  by (simp add: FormatCountableNoun_def StreamableToString_int noun_def) (simp add: int_string_def)

lemma FormatTestCount_noun: "FormatTestCount (int n) = noun n ''test''"
  unfolding FormatTestCount_def by (rule FormatCountableNoun_noun) simp

lemma FormatTestCaseCount_noun: "FormatTestCaseCount (int n) = noun n ''test case''"
  unfolding FormatTestCaseCount_def by (rule FormatCountableNoun_noun) simp

lemma int_width2_nat: "int_width2 (int n) = (if n < 10 then '' '' else []) @ dec_string n"
proof (cases "n < 10")
  case True
  then show ?thesis by (simp add: int_width2_def int_string_def dec_string.simps)
next
  case False
  then have "2 \<le> length (dec_string n)"
    using dec_string_nonempty [of "n div 10"] by (subst dec_string.simps) (simp add: Suc_le_eq)
  with False show ?thesis by (simp add: int_width2_def int_string_def)
qed

lemma render_comment: "render False (PrintFullTestCommentIfPresent t) = comment_text t"
  by (cases "type_param t"; cases "value_param t")
    (simp_all add: PrintFullTestCommentIfPresent_def comment_text_def kTypeParamLabel_def kValueParamLabel_def)

lemma render_failed_test_line:
  "render False (failed_test_line c t) =
     ''[  FAILED  ] '' @ c_text (case_name c) @ ''.'' @ c_text (test_name t) @ comment_text t @ newline"
  by (simp add: failed_test_line_def render_comment)

lemma render_summary_failed:
  "render False (summary_failed (int (length ts)) (concat (map (\<lambda>(c, t). failed_test_line c t) ts))) =
     failures_text ts"
  by (simp add: summary_failed_def failures_text_def FormatTestCount_noun int_width2_nat render_concat
      split_def render_failed_test_line)

text \<open>The counts of the registry are those of the tests.\<close>

lemma sum_counts:
  assumes "\<And>c. f c = int (length (filter p (test_info_list c)))"
  shows "SumOverTestCaseList (test_cases u) f = int (length (filter p (all_tests u)))"
proof -
  have "SumOverTestCaseList cs f = int (length (filter p (concat (map test_info_list cs))))" for cs
  proof (induction cs)
    case (Cons c cs)
    then show ?case using sum_from_shift [of "f c" f cs] assms [of c] by (simp add: SumOverTestCaseList_def)
  qed (simp add: SumOverTestCaseList_def)
  then show ?thesis by (simp add: all_tests_def)
qed

lemma counts:
  "all_test_to_run_count u = int (length (filter should_run (all_tests u)))"
  "all_successful_test_count u =
     int (length (filter (\<lambda>t. \<not> Failed (result_of t)) (filter should_run (all_tests u))))"
  "all_reportable_disabled_test_count u =
     int (length (filter (\<lambda>t. is_disabled t \<and> is_reportable t) (all_tests u)))"
  "test_case_to_run_count u = int (length (filter case_should_run (test_cases u)))"
proof -
  show "all_test_to_run_count u = int (length (filter should_run (all_tests u)))"
    unfolding all_test_to_run_count_def by (rule sum_counts) (simp add: test_to_run_count_def CountIf_length)
  show "all_successful_test_count u =
     int (length (filter (\<lambda>t. \<not> Failed (result_of t)) (filter should_run (all_tests u))))"
    unfolding all_successful_test_count_def filter_filter
    by (rule sum_counts) (simp add: successful_test_count_def CountIf_length TestPassed_def [abs_def] Passed_def)
  show "all_reportable_disabled_test_count u =
     int (length (filter (\<lambda>t. is_disabled t \<and> is_reportable t) (all_tests u)))"
    unfolding all_reportable_disabled_test_count_def
    by (rule sum_counts)
      (simp add: reportable_disabled_test_count_def CountIf_length TestReportableDisabled_def [abs_def] conj_commute)
  show "test_case_to_run_count u = int (length (filter case_should_run (test_cases u)))"
    by (simp add: test_case_to_run_count_def CountIf_length)
qed

lemma render_summary_ran:
  "render False (summary_ran fl u elapsed) =
     ''[==========] '' @ noun (length (filter should_run (all_tests u))) ''test'' @ '' from '' @
     noun (length (filter case_should_run (test_cases u))) ''test case'' @ '' ran.'' @
     (if FLAGS_print_time fl then '' ('' @ int_string elapsed @ '' ms total)'' else []) @ newline @
     ''[  PASSED  ] '' @
     noun (length (filter (\<lambda>t. \<not> Failed (result_of t)) (filter should_run (all_tests u)))) ''test'' @ ''.'' @ newline"
  by (simp add: summary_ran_def counts FormatTestCount_noun FormatTestCaseCount_noun StreamableToString_int
      del: filter_filter)

lemma render_summary_disabled:
  assumes "all_failed_test_count u = int n"
  shows "render False (summary_disabled fl u) =
    (let disabled = filter (\<lambda>t. is_disabled t \<and> is_reportable t) (all_tests u) in
     if disabled = [] \<or> FLAGS_also_run_disabled_tests fl then []
     else (if n = 0 then newline else []) @ disabled_text (length disabled))"
  using assms by (simp add: summary_disabled_def counts disabled_text_def Let_def int_string_def)

lemma unit_fails:
  assumes "\<forall>c \<in> set (test_cases u). runs_its_tests c"
  shows "unit_Passed u \<longleftrightarrow> failed_tests u = [] \<and> \<not> Failed (ad_hoc_test_result u)"
proof -
  have "failed_test_case_count u > 0 \<longleftrightarrow>
      (\<exists>c \<in> set (test_cases u). case_should_run c \<and> filter TestFailed (test_info_list c) \<noteq> [])"
    by (auto simp: failed_test_case_count_def CountIf_length TestCaseFailed_def case_Failed_def failed_test_count_def
        filter_empty_conv)
  also have "\<dots> \<longleftrightarrow> (\<exists>c \<in> set (test_cases u). filter TestFailed (test_info_list c) \<noteq> [])"
    using assms by (auto simp: runs_its_tests_def TestFailed_def filter_empty_conv)
  also have "\<dots> \<longleftrightarrow> failed_tests u \<noteq> []" by (auto simp: failed_tests_def)
  finally show ?thesis by (auto simp: unit_Passed_def unit_Failed_def)
qed

text \<open>A program of three tests whose last one failed.\<close>

definition sample_failed :: UnitTestImpl where
  "sample_failed =
     (let u = fst (projr (FilterTests (\<lambda>_. None) ''*'' False False (sample_state 3)));
          mark = (\<lambda>t. if test_name t = ''c''
            then t\<lparr> result_of := AddTestPartResult (new_TestPartResult kFatalFailure None (-1) ''x'') (result_of t) \<rparr>
            else t) in
      u\<lparr> test_cases := map (\<lambda>c. c\<lparr> test_info_list := map mark (test_info_list c) \<rparr>) (test_cases u) \<rparr>)"

text \<open>C39: the console lists the failed tests: at the end of an iteration the printer returns, and its text
  is the summary: how many tests of how many test cases ran (with the time, when times are printed) and
  how many passed; when a test failed, or something outside of the tests, the number of failed tests,
  one line for each test that ran and failed and no other, with its name and its parameters, and the
  number again; and the number of disabled tests, unless they were run as well. The numbers of passed and
  failed tests add up to the number of tests run, and the colours of a terminal add nothing to the text.\<close>

theorem console_lists_failed_tests:
  assumes ok: "well_registered u" "valid_case_indices u" "\<forall>c \<in> set (test_cases u). runs_its_tests c"
  shows "\<exists>out ts. console_OnTestIterationEnd fl u elapsed = Inr out \<and>
    render False out = summary_text fl elapsed u ts \<and>
    mset ts = mset (failed_tests u) \<and>
    length (filter should_run (all_tests u)) =
      length (filter (\<lambda>t. should_run t \<and> \<not> Failed (result_of t)) (all_tests u)) + length ts \<and>
    ((\<forall>piece \<in> set out. CHR 0x1B \<notin> set (snd piece)) \<longrightarrow>
      strip_escapes (render in_color_mode out) = summary_text fl elapsed u ts)"
proof -
  have cases: "\<forall>c \<in> set (test_cases u). case_ok c \<and> runs_its_tests c"
    using ok by (auto simp: well_registered_def)
  obtain ts where ts: "PrintFailedTests u = Inr (concat (map (\<lambda>(c, t). failed_test_line c t) ts))"
    "mset ts = mset (failed_tests u)"
  proof (cases "all_failed_test_count u = 0")
    case True
    then have "failed_tests u = []" using length_failed_tests [of u] by simp
    then show ?thesis using that [of "[]"] True by (simp add: PrintFailedTests_def)
  next
    case False
    then show ?thesis
      using that print_failed_in_cases_list [OF ok(2) cases, of 0]
      by (auto simp: PrintFailedTests_def failed_tests_def)
  qed
  have len: "all_failed_test_count u = int (length ts)"
    using length_failed_tests [of u] mset_eq_length [OF ts(2)] by simp
  have passed: "unit_Passed u \<longleftrightarrow> ts = [] \<and> \<not> Failed (ad_hoc_test_result u)"
    using unit_fails [OF ok(3)] mset_eq_length [OF ts(2)] by auto
  let ?out = "summary_ran fl u elapsed @
      (if unit_Passed u then []
       else summary_failed (int (length ts)) (concat (map (\<lambda>(c, t). failed_test_line c t) ts))) @
      summary_disabled fl u"
  have out: "console_OnTestIterationEnd fl u elapsed = Inr ?out"
    using ts(1) len by (simp add: console_OnTestIterationEnd_def)
  moreover have printed: "render False ?out = summary_text fl elapsed u ts"
    unfolding summary_text_def Let_def passed
    by (simp add: render_summary_ran render_summary_failed render_summary_disabled [OF len])
  moreover have "length (filter should_run (all_tests u)) =
      length (filter (\<lambda>t. should_run t \<and> \<not> Failed (result_of t)) (all_tests u)) + length ts"
    using run_counts [of u] len counts(1,2) [of u] by simp
  moreover have "strip_escapes (render in_color_mode ?out) = summary_text fl elapsed u ts"
    if "\<forall>piece \<in> set ?out. CHR 0x1B \<notin> set (snd piece)"
    using colours_strip [OF that] printed by simp
  ultimately show ?thesis using ts(2) by (intro exI [of _ ?out] exI [of _ ts] conjI) blast+
qed

theorem console_lists_failed_tests_witness:
  "\<exists>out. console_OnTestIterationEnd (initial_flags (\<lambda>_. None) None) sample_failed 7 = Inr out \<and>
     render False out =
       ''[==========] 3 tests from 2 test cases ran. (7 ms total)'' @ newline @
       ''[  PASSED  ] 2 tests.'' @ newline @
       ''[  FAILED  ] 1 test, listed below:'' @ newline @
       ''[  FAILED  ] Foo.c'' @ newline @ newline @
       '' 1 FAILED TEST'' @ newline"
proof -
  have ok: "well_registered sample_failed" "valid_case_indices sample_failed"
    "\<forall>c \<in> set (test_cases sample_failed). runs_its_tests c"
    by code_simp+
  let ?fl = "initial_flags (\<lambda>_. None) None" and ?f = "failed_tests sample_failed"
  have "length ?f = 1" by code_simp
  then obtain x where x: "?f = [x]" by (auto simp: length_Suc_conv)
  have "summary_text ?fl 7 sample_failed ?f =
       ''[==========] 3 tests from 2 test cases ran. (7 ms total)'' @ newline @
       ''[  PASSED  ] 2 tests.'' @ newline @
       ''[  FAILED  ] 1 test, listed below:'' @ newline @
       ''[  FAILED  ] Foo.c'' @ newline @ newline @
       '' 1 FAILED TEST'' @ newline"
    by code_simp
  then show ?thesis
    using console_lists_failed_tests [OF ok, of ?fl 7 False] unfolding x by auto
qed

text \<open>
  A failure outside of the tests, in an environment or in the set-up of a test case, fails the iteration
  but no test: the console announces a list of no tests and counts no failed test.
\<close>

lemma failure_outside_tests:
  assumes "all_failed_test_count u = 0" and "Failed (ad_hoc_test_result u)"
  shows "console_OnTestIterationEnd fl u elapsed =
    Inr (summary_ran fl u elapsed @ summary_failed 0 [] @ summary_disabled fl u)"
    and "render False (summary_failed 0 []) =
      ''[  FAILED  ] 0 tests, listed below:'' @ newline @ newline @ '' 0 FAILED TESTS'' @ newline"
proof -
  show "console_OnTestIterationEnd fl u elapsed =
    Inr (summary_ran fl u elapsed @ summary_failed 0 [] @ summary_disabled fl u)"
    using assms by (simp add: console_OnTestIterationEnd_def unit_Passed_def unit_Failed_def PrintFailedTests_def)
  have "render False (summary_failed 0 []) = failures_text []" using render_summary_failed [of "[]"] by simp
  also have "\<dots> = ''[  FAILED  ] 0 tests, listed below:'' @ newline @ newline @ '' 0 FAILED TESTS'' @ newline"
    by code_simp
  finally show "render False (summary_failed 0 []) =
      ''[  FAILED  ] 0 tests, listed below:'' @ newline @ newline @ '' 0 FAILED TESTS'' @ newline" .
qed

end
