(* ===== verification/Gtest_Mutex.thy ===== *)
theory Gtest_Mutex
  imports Prelude
begin

text \<open>
  The mutexes of googletest (\<open>include/gtest/internal/gtest-port.h\<close>, \<open>src/gtest-port.cc\<close>): \<open>MutexBase\<close> on
  POSIX threads and the lazily initialised \<open>Mutex\<close> of Windows.  A step is one access to the shared
  members by one thread, so that every interleaving is a run; \<open>pthread_mutex_t\<close>, a critical section
  and \<open>InterlockedCompareExchange\<close> do what their documentation says.  A thread takes the mutex only
  when it does not hold it and releases it only when it does, which is what a scoped lock ensures; it
  may call \<open>AssertHeld\<close> at any time.
\<close>

type_synonym thread_id = nat

section \<open>The contract of a lock\<close>

text \<open>
  A lock is a step relation between the states of the program, with the threads that are inside of
  their critical sections.  A client of it has data that a thread changes only while it is inside.
\<close>

inductive guarded_run ::
    "(thread_id \<Rightarrow> 'w \<Rightarrow> 'w \<Rightarrow> bool) \<Rightarrow> (thread_id \<Rightarrow> 'w \<Rightarrow> bool) \<Rightarrow>
      'w \<times> 'd \<Rightarrow> (thread_id \<times> ('d \<Rightarrow> 'd)) list \<Rightarrow> 'w \<times> 'd \<Rightarrow> bool"
  for step :: "thread_id \<Rightarrow> 'w \<Rightarrow> 'w \<Rightarrow> bool" and inside :: "thread_id \<Rightarrow> 'w \<Rightarrow> bool" where
  finish: "guarded_run step inside c [] c"
| lock_step: "\<lbrakk>step t w w'; guarded_run step inside (w', d) xs c\<rbrakk> \<Longrightarrow> guarded_run step inside (w, d) xs c"
| access: "\<lbrakk>inside t w; guarded_run step inside (w, f d) xs c\<rbrakk> \<Longrightarrow>
    guarded_run step inside (w, d) ((t, f) # xs) c"

locale lock_protocol =
  fixes step :: "thread_id \<Rightarrow> 'w \<Rightarrow> 'w \<Rightarrow> bool" and start :: 'w
    and inside :: "thread_id \<Rightarrow> 'w \<Rightarrow> bool" and ok :: "'w \<Rightarrow> bool"
  assumes ok_start: "ok start"
    and ok_step: "ok w \<Longrightarrow> step t w w' \<Longrightarrow> ok w'"
    and exclusive: "ok w \<Longrightarrow> inside t w \<Longrightarrow> inside u w \<Longrightarrow> t = u"
    and keeps: "ok w \<Longrightarrow> inside t w \<Longrightarrow> step u w w' \<Longrightarrow> u \<noteq> t \<Longrightarrow> inside t w'"
begin

lemma ok_reachable: "(\<lambda>w w'. \<exists>t. step t w w')\<^sup>*\<^sup>* start w \<Longrightarrow> ok w"
  by (induction rule: rtranclp_induct) (auto intro: ok_start ok_step)

text \<open>While a thread stays inside, only its own accesses change the data.\<close>

lemma section_is_atomic:
  assumes "guarded_run step' inside (w, d) xs (w', d')" and "ok w" and "inside t w"
    and "\<And>u v v'. step' u v v' \<Longrightarrow> step u v v' \<and> u \<noteq> t"
  shows "(\<forall>(u, f) \<in> set xs. u = t) \<and> d' = foldl (\<lambda>x f. f x) d (map snd xs) \<and> inside t w'"
  using assms(1-3)
proof (induction "(w, d)" xs "(w', d')" arbitrary: w d rule: guarded_run.induct)
  case finish
  then show ?case by simp
next
  case (lock_step u w v d xs)
  then show ?case using assms(4) ok_step keeps by blast
next
  case (access u w f d xs)
  then show ?case using exclusive by fastforce
qed

end

section \<open>\<open>MutexBase\<close> on POSIX threads\<close>

text \<open>The mutex of the C library is the thread that holds it, if any.\<close>

record MutexBase =
  pthread_mutex :: "thread_id option"
  has_owner :: bool
  owner :: thread_id

text \<open>
  Where a thread is: outside, in \<open>Lock\<close> after \<open>pthread_mutex_lock\<close> and after the write of \<open>owner_\<close>,
  inside, in \<open>Unlock\<close> after the write of \<open>has_owner_\<close>; in \<open>AssertHeld\<close> after it has read \<open>has_owner_\<close>; after
  an \<open>AssertHeld\<close> that aborted, with whether the thread was inside; after one that passed outside.
\<close>

datatype posix_pc =
    Outside
  | Locked
  | Owner_written
  | Inside
  | Releasing
  | Comparing bool
  | Assert_aborts bool
  | Assert_passes_outside

record posix_world =
  mutex :: MutexBase
  pc_of :: "thread_id \<Rightarrow> posix_pc"

definition posix_start :: "thread_id \<Rightarrow> posix_world" where
  "posix_start garbage =
     \<lparr> mutex = \<lparr> pthread_mutex = None, has_owner = False, owner = garbage \<rparr>, pc_of = (\<lambda>_. Outside) \<rparr>"

definition go :: "thread_id \<Rightarrow> posix_pc \<Rightarrow> MutexBase \<Rightarrow> posix_world \<Rightarrow> posix_world" where
  "go t pc m w = w\<lparr> mutex := m, pc_of := (pc_of w)(t := pc) \<rparr>"

datatype mutex_call = Call_Lock | Call_Unlock | Call_AssertHeld

text \<open>The next access of thread \<open>t\<close>, with the call it makes when it is between calls; \<open>None\<close> when it is
  blocked or has aborted.\<close>

definition posix_act :: "mutex_call \<Rightarrow> thread_id \<Rightarrow> posix_world \<Rightarrow> posix_world option" where
  "posix_act call t w =
     (let m = mutex w in
      case pc_of w t of
        Outside \<Rightarrow>
          (case call of
             Call_Lock \<Rightarrow>
               if pthread_mutex m = None then Some (go t Locked (m\<lparr> pthread_mutex := Some t \<rparr>) w) else None
           | Call_Unlock \<Rightarrow> None
           | Call_AssertHeld \<Rightarrow>
               Some (go t (if has_owner m then Comparing False else Assert_aborts False) m w))
      | Locked \<Rightarrow> Some (go t Owner_written (m\<lparr> owner := t \<rparr>) w)
      | Owner_written \<Rightarrow> Some (go t Inside (m\<lparr> has_owner := True \<rparr>) w)
      | Inside \<Rightarrow>
          (case call of
             Call_Lock \<Rightarrow> None
           | Call_Unlock \<Rightarrow> Some (go t Releasing (m\<lparr> has_owner := False \<rparr>) w)
           | Call_AssertHeld \<Rightarrow>
               Some (go t (if has_owner m then Comparing True else Assert_aborts True) m w))
      | Releasing \<Rightarrow> Some (go t Outside (m\<lparr> pthread_mutex := None \<rparr>) w)
      | Comparing held \<Rightarrow>
          Some (go t (if owner m \<noteq> t then Assert_aborts held
                      else if held then Inside else Assert_passes_outside) m w)
      | Assert_aborts held \<Rightarrow> None
      | Assert_passes_outside \<Rightarrow> None)"

definition posix_step :: "thread_id \<Rightarrow> posix_world \<Rightarrow> posix_world \<Rightarrow> bool" where
  "posix_step t w w' \<longleftrightarrow> (\<exists>call. posix_act call t w = Some w')"

text \<open>The positions at which a thread holds the mutex, and those inside the critical section.\<close>

definition holds_pc :: "posix_pc \<Rightarrow> bool" where
  "holds_pc pc \<longleftrightarrow> pc \<in> {Locked, Owner_written, Inside, Releasing, Comparing True}"

definition posix_inside :: "thread_id \<Rightarrow> posix_world \<Rightarrow> bool" where
  "posix_inside t w \<longleftrightarrow> pc_of w t \<in> {Inside, Comparing True}"

text \<open>What the position of a thread says of the mutex.\<close>

fun posix_thread_ok :: "MutexBase \<Rightarrow> thread_id \<Rightarrow> posix_pc \<Rightarrow> bool" where
  "posix_thread_ok m t Outside \<longleftrightarrow> pthread_mutex m \<noteq> Some t"
| "posix_thread_ok m t Locked \<longleftrightarrow> pthread_mutex m = Some t \<and> \<not> has_owner m"
| "posix_thread_ok m t Owner_written \<longleftrightarrow> pthread_mutex m = Some t \<and> \<not> has_owner m \<and> owner m = t"
| "posix_thread_ok m t Inside \<longleftrightarrow> pthread_mutex m = Some t \<and> has_owner m \<and> owner m = t"
| "posix_thread_ok m t Releasing \<longleftrightarrow> pthread_mutex m = Some t \<and> \<not> has_owner m"
| "posix_thread_ok m t (Comparing held) \<longleftrightarrow>
     (if held then pthread_mutex m = Some t \<and> has_owner m \<and> owner m = t
      else pthread_mutex m \<noteq> Some t \<and> owner m \<noteq> t)"
| "posix_thread_ok m t (Assert_aborts held) \<longleftrightarrow> \<not> held \<and> pthread_mutex m \<noteq> Some t"
| "posix_thread_ok m t Assert_passes_outside \<longleftrightarrow> False"

definition posix_ok :: "posix_world \<Rightarrow> bool" where
  "posix_ok w \<longleftrightarrow>
     (\<forall>t. posix_thread_ok (mutex w) t (pc_of w t)) \<and>
     (\<forall>t. pthread_mutex (mutex w) = Some t \<longrightarrow> holds_pc (pc_of w t)) \<and>
     (has_owner (mutex w) \<longrightarrow> pthread_mutex (mutex w) \<noteq> None)"

lemma posix_ok_start: "posix_ok (posix_start g)"
  by (simp add: posix_ok_def posix_start_def)

lemma posix_thread_ok_others:
  "\<lbrakk>posix_thread_ok m u pc; pthread_mutex m \<noteq> Some u; pthread_mutex m' \<noteq> Some u;
    owner m' = owner m \<or> owner m' \<noteq> u\<rbrakk> \<Longrightarrow> posix_thread_ok m' u pc"
  by (cases pc) (auto split: if_splits)

lemma posix_owner: "posix_ok w \<Longrightarrow> has_owner (mutex w) \<Longrightarrow> pthread_mutex (mutex w) = Some (owner (mutex w))"
proof -
  assume ok: "posix_ok w" and h: "has_owner (mutex w)"
  then obtain t where t: "pthread_mutex (mutex w) = Some t" by (auto simp: posix_ok_def)
  then have "holds_pc (pc_of w t)" "posix_thread_ok (mutex w) t (pc_of w t)" using ok by (auto simp: posix_ok_def)
  then show ?thesis using h t by (cases "pc_of w t") (auto simp: holds_pc_def split: if_splits)
qed

text \<open>A step of \<open>t\<close> keeps the invariant when it keeps it for \<open>t\<close> and does not disturb the others.\<close>

lemma posix_ok_go:
  assumes ok: "posix_ok w" and t: "posix_thread_ok m t pc"
    and own: "pthread_mutex m = Some t \<Longrightarrow> holds_pc pc"
    and pm: "pthread_mutex m = pthread_mutex (mutex w) \<or>
      (pthread_mutex m \<in> {None, Some t} \<and> pthread_mutex (mutex w) \<in> {None, Some t})"
    and o: "owner m = owner (mutex w) \<or> owner m = t"
    and h: "has_owner m \<Longrightarrow> pthread_mutex m \<noteq> None"
    and same: "pthread_mutex (mutex w) \<noteq> Some t \<Longrightarrow> pthread_mutex m \<noteq> Some t \<Longrightarrow> m = mutex w"
  shows "posix_ok (go t pc m w)"
proof -
  have "posix_thread_ok m u (pc_of w u)" if "u \<noteq> t" for u
  proof (cases "pthread_mutex (mutex w) = Some t \<or> pthread_mutex m = Some t")
    case True
    then have "pthread_mutex (mutex w) \<noteq> Some u" "pthread_mutex m \<noteq> Some u" using pm that by auto
    then show ?thesis
      using posix_thread_ok_others [of "mutex w" u "pc_of w u" m] ok o that by (auto simp: posix_ok_def)
  next
    case False
    then show ?thesis using same ok by (auto simp: posix_ok_def)
  qed
  moreover have "holds_pc (pc_of w u)" if "u \<noteq> t" "pthread_mutex m = Some u" for u
    using that pm ok by (auto simp: posix_ok_def)
  ultimately show ?thesis using t own h by (auto simp: posix_ok_def go_def)
qed

lemma posix_ok_act:
  assumes ok: "posix_ok w" and act: "posix_act call t w = Some w'"
  shows "posix_ok w'"
proof -
  have t: "posix_thread_ok (mutex w) t (pc_of w t)"
    and own: "pthread_mutex (mutex w) = Some t \<Longrightarrow> holds_pc (pc_of w t)" using ok by (auto simp: posix_ok_def)
  note o = posix_owner [OF ok]
  show ?thesis
  proof (cases "pc_of w t")
    case Outside
    show ?thesis
      using act t Outside ok o
      by (auto simp: posix_act_def Let_def holds_pc_def split: mutex_call.splits if_splits
          intro!: posix_ok_go)
  next
    case Inside
    then show ?thesis
      using act t ok o
      by (auto simp: posix_act_def Let_def holds_pc_def split: mutex_call.splits if_splits
          intro!: posix_ok_go)
  next
    case (Comparing held)
    then show ?thesis
      using act t ok o
      by (cases held) (auto simp: posix_act_def Let_def holds_pc_def split: if_splits intro!: posix_ok_go)
  qed (use act t ok in \<open>auto simp: posix_act_def Let_def holds_pc_def intro!: posix_ok_go\<close>)
qed

lemma posix_ok_step: "posix_ok w \<Longrightarrow> posix_step t w w' \<Longrightarrow> posix_ok w'"
  using posix_ok_act unfolding posix_step_def by blast

lemma posix_inside_holds:
  assumes "posix_ok w" and "posix_inside t w"
  shows "pthread_mutex (mutex w) = Some t" "has_owner (mutex w)" "owner (mutex w) = t"
proof -
  have "posix_thread_ok (mutex w) t (pc_of w t)" using assms(1) unfolding posix_ok_def by blast
  then show "pthread_mutex (mutex w) = Some t" "has_owner (mutex w)" "owner (mutex w) = t"
    using assms(2) by (auto simp: posix_inside_def)
qed

lemma posix_act_go: "posix_act call t w = Some w' \<Longrightarrow> \<exists>pc m. w' = go t pc m w"
  unfolding posix_act_def Let_def
  by (cases "pc_of w t"; cases call) (simp_all split: if_splits, blast+)

lemma posix_step_others: "posix_step u w w' \<Longrightarrow> u \<noteq> t \<Longrightarrow> pc_of w' t = pc_of w t"
  unfolding posix_step_def by (auto dest!: posix_act_go simp: go_def)

interpretation posix_lock: lock_protocol posix_step "posix_start g" posix_inside posix_ok for g
proof
  fix w w' t u
  show "posix_ok (posix_start g)" by (rule posix_ok_start)
  show "posix_ok w \<Longrightarrow> posix_step t w w' \<Longrightarrow> posix_ok w'" by (rule posix_ok_step)
  show "posix_ok w \<Longrightarrow> posix_inside t w \<Longrightarrow> posix_inside u w \<Longrightarrow> t = u"
    using posix_inside_holds(1) [of w t] posix_inside_holds(1) [of w u] by simp
  show "posix_ok w \<Longrightarrow> posix_inside t w \<Longrightarrow> posix_step u w w' \<Longrightarrow> u \<noteq> t \<Longrightarrow> posix_inside t w'"
    using posix_step_others by (simp add: posix_inside_def)
qed

section \<open>\<open>Mutex\<close> on Windows\<close>

text \<open>A critical section: none, allocated, or initialised with the thread that has entered it, if any.\<close>

datatype critical_section = Null_section | Raw_section | Section "thread_id option"

record win_mutex =
  is_static :: bool
  critical_section_init_phase :: int
  section_of :: critical_section
  owner_thread_id :: thread_id
  sections_made :: nat

text \<open>The calls, \<open>AssertHeld\<close> with whether the thread is inside; the positions in a call.\<close>

datatype win_call = Win_lock | Win_unlock | Win_assert bool

datatype win_pc =
    W_outside
  | W_inside
  | Lazy_init win_call
  | Init_owner win_call
  | Init_new win_call
  | Init_section win_call
  | Init_publish win_call
  | Spinning win_call
  | Entering
  | Writing_owner
  | Clearing_owner
  | Leaving
  | Asserting bool
  | W_assert_aborts bool
  | W_assert_passes_outside
  | W_check_fails
  | W_crashes

record win_world =
  win :: win_mutex
  win_pc_of :: "thread_id \<Rightarrow> win_pc"

text \<open>A static mutex is zero-initialised by the linker; the constructor initialises a dynamic one.\<close>

definition win_start :: "bool \<Rightarrow> win_world" where
  "win_start static =
     \<lparr> win = \<lparr> is_static = static, critical_section_init_phase = 0,
               section_of = (if static then Null_section else Section None),
               owner_thread_id = 0, sections_made = (if static then 0 else 1) \<rparr>,
       win_pc_of = (\<lambda>_. W_outside) \<rparr>"

definition InterlockedCompareExchange :: "int \<Rightarrow> int \<Rightarrow> win_mutex \<Rightarrow> int \<times> win_mutex" where
  "InterlockedCompareExchange exchange comparand m =
     (let old = critical_section_init_phase m in
      (old, if old = comparand then m\<lparr> critical_section_init_phase := exchange \<rparr> else m))"

text \<open>Where a call goes on after \<open>ThreadSafeLazyInit\<close>, and where it starts.\<close>

definition after_init :: "win_call \<Rightarrow> win_pc" where
  "after_init c = (case c of Win_lock \<Rightarrow> Entering | Win_unlock \<Rightarrow> Clearing_owner | Win_assert held \<Rightarrow> Asserting held)"

definition begin_call :: "win_mutex \<Rightarrow> win_call \<Rightarrow> win_pc" where
  "begin_call m c = (if is_static m then Lazy_init c else after_init c)"

text \<open>The accesses of \<open>ThreadSafeLazyInit\<close>.\<close>

definition lazy_init_act :: "win_pc \<Rightarrow> win_mutex \<Rightarrow> win_pc \<times> win_mutex" where
  "lazy_init_act pc m =
     (case pc of
        Lazy_init c \<Rightarrow>
          (let (old, m') = InterlockedCompareExchange 1 0 m in
           (if old = 0 then Init_owner c else if old = 1 then Spinning c
            else if old = 2 then after_init c else W_check_fails, m'))
      | Init_owner c \<Rightarrow> (Init_new c, m\<lparr> owner_thread_id := 0 \<rparr>)
      | Init_new c \<Rightarrow> (Init_section c, m\<lparr> section_of := Raw_section, sections_made := sections_made m + 1 \<rparr>)
      | Init_section c \<Rightarrow>
          (if section_of m = Null_section then W_crashes else Init_publish c, m\<lparr> section_of := Section None \<rparr>)
      | Init_publish c \<Rightarrow>
          (let (old, m') = InterlockedCompareExchange 2 1 m in
           (if old = 1 then after_init c else W_check_fails, m'))
      | Spinning c \<Rightarrow>
          (let (old, m') = InterlockedCompareExchange 2 2 m in
           (if old \<noteq> 2 then Spinning c else after_init c, m'))
      | _ \<Rightarrow> (pc, m))"

text \<open>The next access of thread \<open>t\<close>: its new position and the mutex; \<open>None\<close> when it is blocked or has
  ended.\<close>

definition win_mutex_act :: "mutex_call \<Rightarrow> thread_id \<Rightarrow> win_pc \<Rightarrow> win_mutex \<Rightarrow> (win_pc \<times> win_mutex) option" where
  "win_mutex_act call t pc m =
     (case pc of
        W_outside \<Rightarrow>
          (case call of
             Call_Lock \<Rightarrow> Some (begin_call m Win_lock, m)
           | Call_Unlock \<Rightarrow> None
           | Call_AssertHeld \<Rightarrow> Some (begin_call m (Win_assert False), m))
      | W_inside \<Rightarrow>
          (case call of
             Call_Lock \<Rightarrow> None
           | Call_Unlock \<Rightarrow> Some (begin_call m Win_unlock, m)
           | Call_AssertHeld \<Rightarrow> Some (begin_call m (Win_assert True), m))
      | Entering \<Rightarrow>
          (case section_of m of
             Section None \<Rightarrow> Some (Writing_owner, m\<lparr> section_of := Section (Some t) \<rparr>)
           | Section (Some _) \<Rightarrow> None
           | _ \<Rightarrow> Some (W_crashes, m))
      | Writing_owner \<Rightarrow> Some (W_inside, m\<lparr> owner_thread_id := t \<rparr>)
      | Clearing_owner \<Rightarrow> Some (Leaving, m\<lparr> owner_thread_id := 0 \<rparr>)
      | Leaving \<Rightarrow>
          (if section_of m = Section (Some t) then Some (W_outside, m\<lparr> section_of := Section None \<rparr>)
           else Some (W_crashes, m))
      | Asserting held \<Rightarrow>
          Some (if owner_thread_id m \<noteq> t then W_assert_aborts held
                else if held then W_inside else W_assert_passes_outside, m)
      | W_assert_aborts _ \<Rightarrow> None
      | W_assert_passes_outside \<Rightarrow> None
      | W_check_fails \<Rightarrow> None
      | W_crashes \<Rightarrow> None
      | _ \<Rightarrow> Some (lazy_init_act pc m))"

definition win_act :: "mutex_call \<Rightarrow> thread_id \<Rightarrow> win_world \<Rightarrow> win_world option" where
  "win_act call t w =
     map_option (\<lambda>(pc, m). w\<lparr> win := m, win_pc_of := (win_pc_of w)(t := pc) \<rparr>)
       (win_mutex_act call t (win_pc_of w t) (win w))"

text \<open>0 is no thread id.\<close>

definition win_step :: "thread_id \<Rightarrow> win_world \<Rightarrow> win_world \<Rightarrow> bool" where
  "win_step t w w' \<longleftrightarrow> t \<noteq> 0 \<and> (\<exists>call. win_act call t w = Some w')"

text \<open>What the position of a thread says of the mutex; \<open>i\<close> is the thread that initialises it.\<close>

definition usable :: "win_mutex \<Rightarrow> bool" where
  "usable m \<longleftrightarrow> is_static m \<longrightarrow> critical_section_init_phase m = 2"

definition apart :: "win_mutex \<Rightarrow> thread_id \<Rightarrow> bool" where
  "apart m t \<longleftrightarrow> section_of m \<noteq> Section (Some t) \<and> owner_thread_id m \<noteq> t"

definition holding :: "win_mutex \<Rightarrow> thread_id \<Rightarrow> bool" where
  "holding m t \<longleftrightarrow> usable m \<and> section_of m = Section (Some t) \<and> owner_thread_id m = t"

fun held_by_call :: "win_call \<Rightarrow> bool" where
  "held_by_call Win_lock \<longleftrightarrow> False"
| "held_by_call Win_unlock \<longleftrightarrow> True"
| "held_by_call (Win_assert held) \<longleftrightarrow> held"

definition call_ok :: "win_mutex \<Rightarrow> thread_id \<Rightarrow> win_call \<Rightarrow> bool" where
  "call_ok m t c \<longleftrightarrow> (if held_by_call c then holding m t else apart m t)"

definition initialising :: "win_pc \<Rightarrow> bool" where
  "initialising pc \<longleftrightarrow> (\<exists>c. pc \<in> {Init_owner c, Init_new c, Init_section c, Init_publish c})"

definition init_state :: "win_mutex \<Rightarrow> critical_section \<Rightarrow> bool" where
  "init_state m sec \<longleftrightarrow> is_static m \<and> critical_section_init_phase m = 1 \<and> section_of m = sec \<and>
     sections_made m = (if sec = Null_section then 0 else 1)"

fun win_thread_ok :: "thread_id \<Rightarrow> win_mutex \<Rightarrow> thread_id \<Rightarrow> win_pc \<Rightarrow> bool" where
  "win_thread_ok i m t W_outside \<longleftrightarrow> apart m t"
| "win_thread_ok i m t W_inside \<longleftrightarrow> holding m t"
| "win_thread_ok i m t (Lazy_init c) \<longleftrightarrow> is_static m \<and> call_ok m t c"
| "win_thread_ok i m t (Init_owner c) \<longleftrightarrow> t = i \<and> init_state m Null_section \<and> call_ok m t c"
| "win_thread_ok i m t (Init_new c) \<longleftrightarrow> t = i \<and> init_state m Null_section \<and> call_ok m t c"
| "win_thread_ok i m t (Init_section c) \<longleftrightarrow> t = i \<and> init_state m Raw_section \<and> call_ok m t c"
| "win_thread_ok i m t (Init_publish c) \<longleftrightarrow> t = i \<and> init_state m (Section None) \<and> call_ok m t c"
| "win_thread_ok i m t (Spinning c) \<longleftrightarrow>
     is_static m \<and> critical_section_init_phase m \<in> {1, 2} \<and> \<not> held_by_call c \<and> apart m t"
| "win_thread_ok i m t Entering \<longleftrightarrow> usable m \<and> apart m t"
| "win_thread_ok i m t Writing_owner \<longleftrightarrow> usable m \<and> section_of m = Section (Some t)"
| "win_thread_ok i m t Clearing_owner \<longleftrightarrow> holding m t"
| "win_thread_ok i m t Leaving \<longleftrightarrow> usable m \<and> section_of m = Section (Some t) \<and> owner_thread_id m \<noteq> t"
| "win_thread_ok i m t (Asserting held) \<longleftrightarrow> (if held then holding m t else usable m \<and> apart m t)"
| "win_thread_ok i m t (W_assert_aborts held) \<longleftrightarrow> \<not> held \<and> apart m t"
| "win_thread_ok i m t W_assert_passes_outside \<longleftrightarrow> False"
| "win_thread_ok i m t W_check_fails \<longleftrightarrow> False"
| "win_thread_ok i m t W_crashes \<longleftrightarrow> False"

definition win_mutex_ok :: "win_mutex \<Rightarrow> bool" where
  "win_mutex_ok m \<longleftrightarrow>
     (if is_static m then
        critical_section_init_phase m \<in> {0, 1, 2} \<and>
        (critical_section_init_phase m = 0 \<longrightarrow> section_of m = Null_section \<and> sections_made m = 0) \<and>
        (critical_section_init_phase m = 1 \<longrightarrow> sections_made m \<le> 1 \<and> (\<forall>t. section_of m \<noteq> Section (Some t))) \<and>
        (critical_section_init_phase m = 2 \<longrightarrow> (\<exists>h. section_of m = Section h) \<and> sections_made m = 1)
      else critical_section_init_phase m = 0 \<and> (\<exists>h. section_of m = Section h) \<and> sections_made m = 1)"

definition win_ok_by :: "thread_id \<Rightarrow> win_world \<Rightarrow> bool" where
  "win_ok_by i w \<longleftrightarrow>
     (\<forall>t. t \<noteq> 0 \<longrightarrow> win_thread_ok i (win w) t (win_pc_of w t)) \<and> win_pc_of w 0 = W_outside \<and>
     win_mutex_ok (win w) \<and>
     (critical_section_init_phase (win w) = 1 \<longrightarrow> i \<noteq> 0 \<and> initialising (win_pc_of w i))"

definition win_ok :: "win_world \<Rightarrow> bool" where
  "win_ok w \<longleftrightarrow> (\<exists>i. win_ok_by i w)"

lemma win_ok_start: "win_ok (win_start static)"
  by (auto simp: win_ok_def win_ok_by_def win_start_def win_mutex_ok_def apart_def)

lemmas win_defs = usable_def apart_def holding_def call_ok_def init_state_def

text \<open>A change of the mutex by another thread that holds it, or initialises it, does not disturb \<open>u\<close>.\<close>

lemma win_thread_ok_others:
  "\<lbrakk>win_thread_ok i m u pc; \<not> initialising pc; section_of m \<noteq> Section (Some u);
    section_of m' \<noteq> Section (Some u); owner_thread_id m' = owner_thread_id m \<or> owner_thread_id m' \<noteq> u;
    is_static m' = is_static m; usable m \<Longrightarrow> usable m';
    critical_section_init_phase m \<in> {1, 2} \<Longrightarrow> critical_section_init_phase m' \<in> {1, 2}\<rbrakk> \<Longrightarrow>
   win_thread_ok i' m' u pc"
  by (cases pc) (auto simp: initialising_def apart_def holding_def call_ok_def split: if_splits)

lemma win_ok_same:
  assumes ok: "win_ok_by i w" and t: "t \<noteq> 0" "win_thread_ok i (win w) t pc" "\<not> initialising (win_pc_of w t)"
  shows "win_ok_by i (w\<lparr> win_pc_of := (win_pc_of w)(t := pc) \<rparr>)"
proof -
  have "critical_section_init_phase (win w) = 1 \<Longrightarrow> i \<noteq> t" using ok t(3) by (auto simp: win_ok_by_def)
  then show ?thesis using ok t by (auto simp: win_ok_by_def)
qed

abbreviation own_sections :: "thread_id \<Rightarrow> critical_section set" where
  "own_sections t \<equiv> {Null_section, Raw_section, Section None, Section (Some t)}"

lemma win_ok_own:
  assumes ok: "win_ok_by i w" and t: "t \<noteq> 0" "win_thread_ok i' m t pc"
    and alone: "\<And>u. u \<noteq> 0 \<Longrightarrow> u \<noteq> t \<Longrightarrow> \<not> initialising (win_pc_of w u)"
    and s: "section_of (win w) \<in> own_sections t" "section_of m \<in> own_sections t"
    and o: "owner_thread_id m \<in> {owner_thread_id (win w), 0, t}"
    and static: "is_static m = is_static (win w)" and us: "usable (win w) \<Longrightarrow> usable m"
    and phase: "critical_section_init_phase (win w) \<in> {1, 2} \<Longrightarrow> critical_section_init_phase m \<in> {1, 2}"
    and m: "win_mutex_ok m" "critical_section_init_phase m = 1 \<Longrightarrow> i' = t \<and> initialising pc"
  shows "win_ok_by i' (w\<lparr> win := m, win_pc_of := (win_pc_of w)(t := pc) \<rparr>)"
proof -
  have "win_thread_ok i' m u (win_pc_of w u)" if u: "u \<noteq> 0" "u \<noteq> t" for u
  proof (rule win_thread_ok_others)
    show "win_thread_ok i (win w) u (win_pc_of w u)" using ok u by (simp add: win_ok_by_def)
    show "\<not> initialising (win_pc_of w u)" using alone u by simp
    show "section_of (win w) \<noteq> Section (Some u)" using s(1) u by auto
    show "section_of m \<noteq> Section (Some u)" using s(2) u by auto
    show "owner_thread_id m = owner_thread_id (win w) \<or> owner_thread_id m \<noteq> u" using o u by auto
    show "is_static m = is_static (win w)" by (rule static)
    show "usable (win w) \<Longrightarrow> usable m" by (rule us)
    show "critical_section_init_phase (win w) \<in> {1, 2} \<Longrightarrow> critical_section_init_phase m \<in> {1, 2}"
      by (rule phase)
  qed
  then show ?thesis using ok t m by (simp add: win_ok_by_def)
qed

text \<open>Only the thread that initialises the mutex is initialising it.\<close>

lemma win_only_initialiser:
  assumes "win_ok_by i w" and "u \<noteq> 0" and "initialising (win_pc_of w u)"
  shows "u = i" and "critical_section_init_phase (win w) = 1" and "is_static (win w)"
proof -
  have "win_thread_ok i (win w) u (win_pc_of w u)" using assms by (simp add: win_ok_by_def)
  then show "u = i" "critical_section_init_phase (win w) = 1" "is_static (win w)"
    using assms(3) by (auto simp: initialising_def init_state_def)
qed

lemma usable_alone:
  assumes "win_ok_by i w" and "usable (win w)" and "u \<noteq> 0"
  shows "\<not> initialising (win_pc_of w u)"
  using win_only_initialiser [OF assms(1,3)] assms(2) by (auto simp: usable_def)

lemma win_thread: "win_ok_by i w \<Longrightarrow> t \<noteq> 0 \<Longrightarrow> win_thread_ok i (win w) t (win_pc_of w t)"
  by (simp add: win_ok_by_def)

lemma win_mutex: "win_ok_by i w \<Longrightarrow> win_mutex_ok (win w)"
  by (simp add: win_ok_by_def)

abbreviation win_go :: "win_world \<Rightarrow> thread_id \<Rightarrow> win_pc \<times> win_mutex \<Rightarrow> win_world" where
  "win_go w t r \<equiv> w\<lparr> win := snd r, win_pc_of := (win_pc_of w)(t := fst r) \<rparr>"

text \<open>The steps of a usable mutex by a thread that enters, holds or leaves.\<close>

lemma win_ok_usable:
  assumes ok: "win_ok_by i w" and t: "t \<noteq> 0" and us: "usable (win w)"
    and s: "section_of (win w) \<in> {Section None, Section (Some t)}" "section_of m \<in> {Section None, Section (Some t)}"
    and o: "owner_thread_id m \<in> {owner_thread_id (win w), 0, t}"
    and same: "is_static m = is_static (win w)" "sections_made m = sections_made (win w)"
      "critical_section_init_phase m = critical_section_init_phase (win w)"
    and pc: "win_thread_ok i m t pc" "\<not> initialising pc"
  shows "win_ok_by i (win_go w t (pc, m))"
proof -
  have m: "win_mutex_ok m"
    using win_mutex [OF ok] same s(2) us by (auto simp: win_mutex_ok_def usable_def)
  have p: "critical_section_init_phase m \<noteq> 1"
    using us same m by (auto simp: usable_def win_mutex_ok_def split: if_splits)
  have "win_ok_by i (w\<lparr> win := m, win_pc_of := (win_pc_of w)(t := pc) \<rparr>)"
    by (rule win_ok_own [OF ok t pc(1)]) (use usable_alone [OF ok us] s o same us m p in \<open>auto simp: usable_def\<close>)
  then show ?thesis by simp
qed

lemma after_init_ok: "usable m \<Longrightarrow> call_ok m t c \<Longrightarrow> win_thread_ok i m t (after_init c)"
  by (cases c) (auto simp: after_init_def call_ok_def)

lemma begin_call_ok: "call_ok m t c \<Longrightarrow> win_thread_ok i m t (begin_call m c)"
  using after_init_ok [of m t c i] by (auto simp: begin_call_def usable_def)

lemma not_initialising [simp]:
  "\<not> initialising W_outside" "\<not> initialising W_inside" "\<not> initialising (Lazy_init c)"
  "\<not> initialising (Spinning c)" "\<not> initialising Entering" "\<not> initialising Writing_owner"
  "\<not> initialising Clearing_owner" "\<not> initialising Leaving" "\<not> initialising (Asserting h)"
  "\<not> initialising (W_assert_aborts h)" "\<not> initialising (after_init c)"
  "initialising (Init_owner c)" "initialising (Init_new c)" "initialising (Init_section c)"
  "initialising (Init_publish c)"
  by (auto simp: initialising_def after_init_def split: win_call.split)

lemma win_ok_lazy:
  assumes ok: "win_ok_by i w" and t: "t \<noteq> 0" and pc: "win_pc_of w t = Lazy_init c"
  shows "\<exists>i'. win_ok_by i' (win_go w t (lazy_init_act (Lazy_init c) (win w)))"
proof -
  let ?m = "win w"
  have th: "is_static ?m" "call_ok ?m t c" using win_thread [OF ok t] pc by simp_all
  have m: "win_mutex_ok ?m" by (rule win_mutex [OF ok])
  then consider "critical_section_init_phase ?m = 0" | "critical_section_init_phase ?m = 1"
    | "critical_section_init_phase ?m = 2" using th by (auto simp: win_mutex_ok_def)
  then show ?thesis
  proof cases
    case 1
    have sec: "section_of ?m = Null_section" "sections_made ?m = 0" using 1 m th by (auto simp: win_mutex_ok_def)
    have alone: "\<not> initialising (win_pc_of w u)" if "u \<noteq> 0" for u
      using win_only_initialiser(2) [OF ok that] 1 by auto
    let ?n = "?m\<lparr> critical_section_init_phase := 1 \<rparr>"
    have "win_ok_by t (w\<lparr> win := ?n, win_pc_of := (win_pc_of w)(t := Init_owner c) \<rparr>)"
    proof (rule win_ok_own [OF ok t])
      show "win_thread_ok t ?n t (Init_owner c)"
        using th sec by (auto simp: win_defs split: if_splits)
      show "win_mutex_ok ?n" using th sec by (simp add: win_mutex_ok_def)
    qed (use alone sec th 1 in \<open>auto simp: usable_def\<close>)
    then show ?thesis using 1 by (auto simp: lazy_init_act_def InterlockedCompareExchange_def)
  next
    case 2
    have "\<not> held_by_call c" using th 2 m by (auto simp: call_ok_def holding_def usable_def)
    then have "win_thread_ok i ?m t (Spinning c)" using th 2 by (simp add: call_ok_def)
    then have "win_ok_by i (w\<lparr> win_pc_of := (win_pc_of w)(t := Spinning c) \<rparr>)"
      by (rule win_ok_same [OF ok t]) (simp add: pc)
    then show ?thesis using 2 by (auto simp: lazy_init_act_def InterlockedCompareExchange_def)
  next
    case 3
    then have "win_thread_ok i ?m t (after_init c)" using th by (intro after_init_ok) (auto simp: usable_def)
    then have "win_ok_by i (w\<lparr> win_pc_of := (win_pc_of w)(t := after_init c) \<rparr>)"
      by (rule win_ok_same [OF ok t]) (simp add: pc)
    then show ?thesis using 3 by (auto simp: lazy_init_act_def InterlockedCompareExchange_def)
  qed
qed

lemma win_ok_initialise:
  assumes ok: "win_ok_by i w" and t: "t \<noteq> 0" and pc: "win_pc_of w t = pc" "initialising pc"
  shows "win_ok_by i (win_go w t (lazy_init_act pc (win w)))"
proof -
  let ?m = "win w"
  note only = win_only_initialiser [OF ok t, unfolded pc(1), OF pc(2)]
  have alone: "\<not> initialising (win_pc_of w u)" if "u \<noteq> 0" "u \<noteq> t" for u
    using win_only_initialiser(1) [OF ok that(1)] only(1) that(2) by auto
  have th: "win_thread_ok i ?m t pc" using win_thread [OF ok t] pc(1) by simp
  have own: "win_ok_by i (w\<lparr> win := m, win_pc_of := (win_pc_of w)(t := pc') \<rparr>)"
    if "win_thread_ok i m t pc'" "section_of ?m \<in> own_sections t" "section_of m \<in> own_sections t"
      "owner_thread_id m \<in> {owner_thread_id ?m, 0}" "is_static m = is_static ?m"
      "critical_section_init_phase m \<in> {1, 2}" "win_mutex_ok m"
      "critical_section_init_phase m = 1 \<Longrightarrow> initialising pc'" for m pc'
    by (rule win_ok_own [OF ok t that(1)]) (use alone that only in \<open>auto simp: usable_def\<close>)
  from pc(2) consider c where "pc = Init_owner c" | c where "pc = Init_new c"
    | c where "pc = Init_section c" | c where "pc = Init_publish c" by (auto simp: initialising_def)
  then show ?thesis
  proof cases
    case (1 c)
    then show ?thesis using th t own [of "?m\<lparr> owner_thread_id := 0 \<rparr>" "Init_new c"]
      by (auto simp: lazy_init_act_def win_defs win_mutex_ok_def split: if_splits)
  next
    case (2 c)
    then show ?thesis using th t
        own [of "?m\<lparr> section_of := Raw_section, sections_made := sections_made ?m + 1 \<rparr>" "Init_section c"]
      by (auto simp: lazy_init_act_def win_defs win_mutex_ok_def split: if_splits)
  next
    case (3 c)
    then show ?thesis using th t own [of "?m\<lparr> section_of := Section None \<rparr>" "Init_publish c"]
      by (auto simp: lazy_init_act_def win_defs win_mutex_ok_def split: if_splits)
  next
    case (4 c)
    let ?n = "?m\<lparr> critical_section_init_phase := 2 \<rparr>"
    have "win_thread_ok i ?n t (after_init c)"
      using th 4 by (intro after_init_ok) (auto simp: win_defs split: if_splits)
    then show ?thesis using th t 4 own [of ?n "after_init c"]
      by (auto simp: lazy_init_act_def InterlockedCompareExchange_def win_defs win_mutex_ok_def split: if_splits)
  qed
qed

lemma win_ok_act:
  assumes ok: "win_ok_by i w" and t: "t \<noteq> 0"
    and act: "win_mutex_act call t (win_pc_of w t) (win w) = Some r"
  shows "\<exists>i'. win_ok_by i' (win_go w t r)"
proof -
  let ?m = "win w"
  have th: "win_thread_ok i ?m t (win_pc_of w t)" by (rule win_thread [OF ok t])
  have same: "\<exists>i'. win_ok_by i' (win_go w t r)"
    if "r = (pc, ?m)" "win_thread_ok i ?m t pc" "\<not> initialising (win_pc_of w t)" for pc
    using win_ok_same [OF ok t that(2,3)] that(1) by auto
  have usable: "\<exists>i'. win_ok_by i' (win_go w t r)"
    if "r = (pc, m)" "usable ?m" "section_of ?m \<in> {Section None, Section (Some t)}"
      "section_of m \<in> {Section None, Section (Some t)}" "owner_thread_id m \<in> {owner_thread_id ?m, 0, t}"
      "is_static m = is_static ?m" "sections_made m = sections_made ?m"
      "critical_section_init_phase m = critical_section_init_phase ?m"
      "win_thread_ok i m t pc" "\<not> initialising pc" for pc m
    using win_ok_usable [OF ok t that(2-10)] that(1) by blast
  show ?thesis
  proof (cases "win_pc_of w t")
    case W_outside
    then obtain c where "r = (begin_call ?m c, ?m)" "\<not> held_by_call c"
      using act by (auto simp: win_mutex_act_def split: mutex_call.splits)
    then show ?thesis using same [of "begin_call ?m c"] begin_call_ok [of ?m t c i] th W_outside
      by (simp add: call_ok_def)
  next
    case W_inside
    then obtain c where "r = (begin_call ?m c, ?m)" "held_by_call c"
      using act by (auto simp: win_mutex_act_def split: mutex_call.splits)
    then show ?thesis using same [of "begin_call ?m c"] begin_call_ok [of ?m t c i] th W_inside
      by (simp add: call_ok_def)
  next
    case (Lazy_init c)
    then show ?thesis using win_ok_lazy [OF ok t Lazy_init] act by (simp add: win_mutex_act_def)
  next
    case (Init_owner c)
    then show ?thesis using win_ok_initialise [OF ok t Init_owner] act by (auto simp: win_mutex_act_def)
  next
    case (Init_new c)
    then show ?thesis using win_ok_initialise [OF ok t Init_new] act by (auto simp: win_mutex_act_def)
  next
    case (Init_section c)
    then show ?thesis using win_ok_initialise [OF ok t Init_section] act by (auto simp: win_mutex_act_def)
  next
    case (Init_publish c)
    then show ?thesis using win_ok_initialise [OF ok t Init_publish] act by (auto simp: win_mutex_act_def)
  next
    case (Spinning c)
    let ?pc = "if critical_section_init_phase ?m \<noteq> 2 then Spinning c else after_init c"
    have "win_thread_ok i ?m t ?pc"
      using th Spinning after_init_ok [of ?m t c i] by (auto simp: usable_def call_ok_def)
    moreover have "r = (?pc, ?m)"
      using act Spinning by (auto simp: win_mutex_act_def lazy_init_act_def InterlockedCompareExchange_def)
    ultimately show ?thesis using same Spinning by simp
  next
    case Entering
    have "\<exists>h. section_of ?m = Section h" using win_mutex [OF ok] th Entering
      by (auto simp: win_mutex_ok_def usable_def split: if_splits)
    then have "section_of ?m = Section None" "r = (Writing_owner, ?m\<lparr> section_of := Section (Some t) \<rparr>)"
      using act Entering by (auto simp: win_mutex_act_def split: option.splits)
    then show ?thesis using usable th Entering by (simp add: usable_def)
  next
    case Writing_owner
    then have "r = (W_inside, ?m\<lparr> owner_thread_id := t \<rparr>)" using act by (simp add: win_mutex_act_def)
    then show ?thesis using usable th Writing_owner by (simp add: usable_def holding_def)
  next
    case Clearing_owner
    then have "r = (Leaving, ?m\<lparr> owner_thread_id := 0 \<rparr>)" using act by (simp add: win_mutex_act_def)
    then show ?thesis using usable th Clearing_owner t by (simp add: usable_def holding_def)
  next
    case Leaving
    then have "r = (W_outside, ?m\<lparr> section_of := Section None \<rparr>)" using act th
      by (simp add: win_mutex_act_def)
    then show ?thesis using usable th Leaving by (simp add: apart_def)
  next
    case (Asserting h)
    then show ?thesis using act th same by (auto simp: win_mutex_act_def holding_def apart_def split: if_splits)
  qed (use act in \<open>simp_all add: win_mutex_act_def\<close>)
qed

lemma win_act_go:
  "win_mutex_act call t (win_pc_of w t) (win w) = Some r \<Longrightarrow> win_act call t w = Some (win_go w t r)"
  by (cases r) (simp add: win_act_def)

lemma win_ok_step: "win_ok w \<Longrightarrow> win_step t w w' \<Longrightarrow> win_ok w'"
  using win_ok_act unfolding win_ok_def win_step_def win_act_def by (fastforce simp: split_def)

text \<open>From entering to the start of leaving a thread is inside.\<close>

definition win_inside :: "thread_id \<Rightarrow> win_world \<Rightarrow> bool" where
  "win_inside t w \<longleftrightarrow>
     win_pc_of w t \<in> {W_inside, Lazy_init Win_unlock, Lazy_init (Win_assert True), Asserting True, Clearing_owner}"

lemma win_inside_holds:
  assumes "win_ok w" and "win_inside t w"
  shows "section_of (win w) = Section (Some t)"
proof -
  obtain i where i: "win_ok_by i w" using assms(1) by (auto simp: win_ok_def)
  then have "t \<noteq> 0" using assms(2) by (auto simp: win_ok_by_def win_inside_def intro: ccontr)
  from win_thread [OF i this] show ?thesis
    using assms(2) by (auto simp: win_inside_def call_ok_def holding_def)
qed

lemma win_step_others: "win_step u w w' \<Longrightarrow> u \<noteq> t \<Longrightarrow> win_pc_of w' t = win_pc_of w t"
  by (auto simp: win_step_def win_act_def)

interpretation win_lock: lock_protocol win_step "win_start static" win_inside win_ok for static
proof
  fix w w' t u
  show "win_ok (win_start static)" by (rule win_ok_start)
  show "win_ok w \<Longrightarrow> win_step t w w' \<Longrightarrow> win_ok w'" by (rule win_ok_step)
  show "win_ok w \<Longrightarrow> win_inside t w \<Longrightarrow> win_inside u w \<Longrightarrow> t = u"
    using win_inside_holds [of w t] win_inside_holds [of w u] by simp
  show "win_ok w \<Longrightarrow> win_inside t w \<Longrightarrow> win_step u w w' \<Longrightarrow> u \<noteq> t \<Longrightarrow> win_inside t w'"
    using win_step_others by (simp add: win_inside_def)
qed

text \<open>The thread that initialises a mutex is never blocked: its own steps end the spinning of the others.\<close>

fun init_rank :: "win_pc \<Rightarrow> nat" where
  "init_rank (Init_owner c) = 3"
| "init_rank (Init_new c) = 2"
| "init_rank (Init_section c) = 1"
| "init_rank pc = 0"

lemma initialiser_finishes:
  assumes "win_ok_by i w" and "critical_section_init_phase (win w) = 1"
  shows "\<exists>w'. (win_step i)\<^sup>*\<^sup>* w w' \<and> critical_section_init_phase (win w') = 2"
  using assms
proof (induction "init_rank (win_pc_of w i)" arbitrary: w rule: less_induct)
  case less
  let ?r = "lazy_init_act (win_pc_of w i) (win w)"
  have i: "i \<noteq> 0" "initialising (win_pc_of w i)" using less.prems by (auto simp: win_ok_by_def)
  have ok: "win_ok_by i (win_go w i ?r)" by (rule win_ok_initialise [OF less.prems(1) i(1) refl i(2)])
  have "win_mutex_act Call_Lock i (win_pc_of w i) (win w) = Some ?r"
    using i(2) by (auto simp: initialising_def win_mutex_act_def)
  from win_act_go [OF this] have step: "win_step i w (win_go w i ?r)" using i(1) unfolding win_step_def by blast
  show ?case
  proof (cases "critical_section_init_phase (snd ?r) = 2")
    case True
    then show ?thesis using step by (intro exI [of _ "win_go w i ?r"]) auto
  next
    case False
    then have r: "init_rank (fst ?r) < init_rank (win_pc_of w i)" "critical_section_init_phase (snd ?r) = 1"
      using i(2) less.prems win_thread [OF less.prems(1) i(1)]
      by (auto simp: initialising_def lazy_init_act_def InterlockedCompareExchange_def init_state_def)
    then obtain w' where "(win_step i)\<^sup>*\<^sup>* (win_go w i ?r) w'" "critical_section_init_phase (win w') = 2"
      using less.hyps [of "win_go w i ?r"] ok by auto
    then show ?thesis using converse_rtranclp_into_rtranclp [of "win_step i", OF step] by blast
  qed
qed

lemma spinner_leaves:
  assumes "critical_section_init_phase (win w) = 2" and "win_pc_of w t = Spinning c" and "t \<noteq> 0"
  shows "(\<exists>w'. win_step t w w') \<and> (\<forall>w'. win_step t w w' \<longrightarrow> win_pc_of w' t = after_init c)"
  using assms
  by (auto simp: win_step_def win_act_def win_mutex_act_def lazy_init_act_def InterlockedCompareExchange_def)

section \<open>Runs\<close>

text \<open>The state after a schedule of calls, when none of its accesses is blocked.\<close>

fun posix_run :: "(mutex_call \<times> thread_id) list \<Rightarrow> posix_world \<Rightarrow> posix_world option" where
  "posix_run [] w = Some w"
| "posix_run ((call, t) # xs) w =
     (case posix_act call t w of None \<Rightarrow> None | Some w' \<Rightarrow> posix_run xs w')"

fun win_run :: "(mutex_call \<times> thread_id) list \<Rightarrow> win_world \<Rightarrow> win_world option" where
  "win_run [] w = Some w"
| "win_run ((call, t) # xs) w =
     (if t = 0 then None else case win_act call t w of None \<Rightarrow> None | Some w' \<Rightarrow> win_run xs w')"

lemma posix_run_steps: "posix_run xs w = Some w' \<Longrightarrow> (\<lambda>w w'. \<exists>t. posix_step t w w')\<^sup>*\<^sup>* w w'"
proof (induction xs w rule: posix_run.induct)
  case (2 call t xs w)
  then obtain v where "posix_act call t w = Some v" "posix_run xs v = Some w'" by (auto split: option.splits)
  then show ?case using 2(1) by (auto simp: posix_step_def intro: converse_rtranclp_into_rtranclp)
qed simp

lemma win_run_steps: "win_run xs w = Some w' \<Longrightarrow> (\<lambda>w w'. \<exists>t. win_step t w w')\<^sup>*\<^sup>* w w'"
proof (induction xs w rule: win_run.induct)
  case (2 call t xs w)
  then obtain v where "t \<noteq> 0" "win_act call t w = Some v" "win_run xs v = Some w'"
    by (auto split: option.splits if_splits)
  then show ?case using 2(1) by (auto simp: win_step_def intro: converse_rtranclp_into_rtranclp)
qed simp

section \<open>Properties\<close>

text \<open>C40: the mutex of POSIX threads: in every interleaving, at most one thread is inside of its critical
  section, it is the one that holds the mutex of the library, and no other thread leaves that state for
  it; \<open>AssertHeld\<close>, although it reads the two members without the lock, aborts only in a thread that is
  outside and passes only in the one that is inside.\<close>

theorem posix_mutex_correct:
  assumes "(\<lambda>w w'. \<exists>t. posix_step t w w')\<^sup>*\<^sup>* (posix_start garbage) w"
  shows "(\<forall>t u. posix_inside t w \<and> posix_inside u w \<longrightarrow> t = u) \<and>
    (\<forall>t. posix_inside t w \<longrightarrow> pthread_mutex (mutex w) = Some t \<and>
      (\<forall>u w'. u \<noteq> t \<and> posix_step u w w' \<longrightarrow> posix_inside t w')) \<and>
    (\<forall>t. pc_of w t \<noteq> Assert_aborts True \<and> pc_of w t \<noteq> Assert_passes_outside)"
proof -
  have ok: "posix_ok w" by (rule posix_lock.ok_reachable [OF assms])
  have "pc_of w t \<noteq> Assert_aborts True \<and> pc_of w t \<noteq> Assert_passes_outside" for t
  proof -
    have "posix_thread_ok (mutex w) t (pc_of w t)" using ok by (simp add: posix_ok_def)
    then show ?thesis by auto
  qed
  then show ?thesis
    using posix_lock.exclusive [OF ok] posix_lock.keeps [OF ok] posix_inside_holds(1) [OF ok] by blast
qed

theorem posix_mutex_correct_witness:
  "\<exists>w. posix_run [(Call_Lock, 1), (Call_Lock, 1), (Call_AssertHeld, 2), (Call_Lock, 1), (Call_AssertHeld, 1)]
      (posix_start 2) = Some w \<and>
    posix_inside 1 w \<and> (\<forall>u. posix_inside u w \<longrightarrow> u = 1) \<and> pc_of w 2 = Assert_aborts False"
proof -
  let ?xs = "[(Call_Lock, 1), (Call_Lock, 1), (Call_AssertHeld, 2), (Call_Lock, 1), (Call_AssertHeld, 1)]"
  have "posix_run ?xs (posix_start 2) \<noteq> None" "posix_inside 1 (the (posix_run ?xs (posix_start 2)))"
    "pc_of (the (posix_run ?xs (posix_start 2))) 2 = Assert_aborts False"
    by code_simp+
  then obtain w where w: "posix_run ?xs (posix_start 2) = Some w" "posix_inside 1 w" "pc_of w 2 = Assert_aborts False"
    by auto
  then show ?thesis using posix_mutex_correct [OF posix_run_steps [OF w(1)]] by blast
qed

text \<open>C13: the static mutex of Windows: however the threads interleave from the first use on, the critical
  section is created once, entered only when it is initialised, by at most one thread at a time; no
  check fails; \<open>AssertHeld\<close> is exact; and while it is being initialised, steps of the one thread that does
  it always end the initialisation, after which every thread that spins goes on with its call at its
  next step.\<close>

theorem static_mutex_correct:
  assumes "(\<lambda>w w'. \<exists>t. win_step t w w')\<^sup>*\<^sup>* (win_start static) w"
  shows "(\<forall>t u. win_inside t w \<and> win_inside u w \<longrightarrow> t = u) \<and> sections_made (win w) \<le> 1 \<and>
    (\<forall>t. win_pc_of w t \<notin> {W_crashes, W_check_fails, W_assert_aborts True, W_assert_passes_outside}) \<and>
    (critical_section_init_phase (win w) = 1 \<longrightarrow>
      (\<exists>i w'. (win_step i)\<^sup>*\<^sup>* w w' \<and> critical_section_init_phase (win w') = 2)) \<and>
    (critical_section_init_phase (win w) = 2 \<longrightarrow>
      (\<forall>t c. win_pc_of w t = Spinning c \<longrightarrow>
        (\<exists>w'. win_step t w w') \<and> (\<forall>w'. win_step t w w' \<longrightarrow> win_pc_of w' t = after_init c)))"
proof -
  have ok: "win_ok w" by (rule win_lock.ok_reachable [OF assms])
  then obtain i where i: "win_ok_by i w" by (auto simp: win_ok_def)
  have "win_pc_of w t \<notin> {W_crashes, W_check_fails, W_assert_aborts True, W_assert_passes_outside}" for t
  proof (cases "t = 0")
    case False
    from win_thread [OF i this] show ?thesis by auto
  qed (use i in \<open>simp add: win_ok_by_def\<close>)
  moreover have "sections_made (win w) \<le> 1" using win_mutex [OF i] by (auto simp: win_mutex_ok_def split: if_splits)
  moreover have "(\<exists>w'. win_step t w w') \<and> (\<forall>w'. win_step t w w' \<longrightarrow> win_pc_of w' t = after_init c)"
    if "critical_section_init_phase (win w) = 2" "win_pc_of w t = Spinning c" for t c
  proof -
    have "t \<noteq> 0" using i that(2) by (auto simp: win_ok_by_def intro: ccontr)
    then show ?thesis using spinner_leaves [OF that] by blast
  qed
  ultimately show ?thesis using win_lock.exclusive [OF ok] initialiser_finishes [OF i] by blast
qed

theorem static_mutex_correct_witness:
  "\<exists>w. win_run (map (Pair Call_Lock) [1, 1, 2, 2, 1, 1, 1, 2, 1, 1, 1, 2]) (win_start True) = Some w \<and>
    win_inside 1 w \<and> \<not> win_inside 2 w \<and> sections_made (win w) = 1"
proof -
  let ?xs = "map (Pair Call_Lock) [1, 1, 2, 2, 1, 1, 1, 2, 1, 1, 1, 2]"
  have "win_run ?xs (win_start True) \<noteq> None" "win_inside 1 (the (win_run ?xs (win_start True)))"
    "sections_made (win (the (win_run ?xs (win_start True)))) = 1"
    by code_simp+
  then obtain w where w: "win_run ?xs (win_start True) = Some w" "win_inside 1 w" "sections_made (win w) = 1" by auto
  from static_mutex_correct [OF win_run_steps [OF w(1)]] have "\<not> win_inside 2 w" using w(2) by fastforce
  then show ?thesis using w by blast
qed

end
