(* ===== verification/Gtest_ThreadLocal.thy ===== *)
theory Gtest_ThreadLocal
  imports Ordered_Map
begin

text \<open>
  \<open>ThreadLocal\<close> of googletest on both kinds of platform: with the keys of POSIX threads
  (\<open>include/gtest/internal/gtest-port.h\<close>) and with the registry of Windows (\<open>ThreadLocalRegistryImpl\<close> of
  \<open>src/gtest-port.cc\<close>), whose operations run under its mutex.  A value lives in a holder on the heap;
  deleting a holder twice or using a deleted one is undefined behaviour.  The end of a thread is an
  operation: the C library calls the destructor of each key, and the watcher of the registry calls
  \<open>OnThreadExit\<close> (the id of the thread is not given to another while the watcher has its handle).
\<close>

type_synonym thread_id = nat
type_synonym tl = nat

section \<open>Holders\<close>

record 'v holders =
  held :: "nat \<Rightarrow> 'v option"
  made :: nat
  freed :: "nat list"

definition no_holders :: "'v holders" where
  "no_holders = \<lparr> held = (\<lambda>_. None), made = 0, freed = [] \<rparr>"

text \<open>\<open>MakeNewHolder\<close> of the factory with the value each thread starts with.\<close>

definition MakeNewHolder :: "'v \<Rightarrow> 'v holders \<Rightarrow> nat \<times> 'v holders" where
  "MakeNewHolder v hs = (made hs, hs\<lparr> held := (held hs)(made hs \<mapsto> v), made := made hs + 1 \<rparr>)"

definition dangling_holder :: exn where
  "dangling_holder = Undefined_behaviour ''dangling ThreadLocalValueHolder''"

definition delete_holder :: "nat \<Rightarrow> 'v holders \<Rightarrow> 'v holders result" where
  "delete_holder h hs =
     (if held hs h = None then Inl dangling_holder
      else Inr (hs\<lparr> held := (held hs)(h := None), freed := freed hs @ [h] \<rparr>))"

primrec delete_holders :: "nat list \<Rightarrow> 'v holders \<Rightarrow> 'v holders result" where
  "delete_holders [] hs = Inr hs"
| "delete_holders (h # later) hs = bind_result (delete_holder h hs) (delete_holders later)"

definition read_holder :: "nat \<Rightarrow> 'v holders \<Rightarrow> 'v result" where
  "read_holder h hs = (case held hs h of None \<Rightarrow> Inl dangling_holder | Some v \<Rightarrow> Inr v)"

definition write_holder :: "nat \<Rightarrow> 'v \<Rightarrow> 'v holders \<Rightarrow> 'v holders result" where
  "write_holder h v hs =
     (if held hs h = None then Inl dangling_holder else Inr (hs\<lparr> held := (held hs)(h \<mapsto> v) \<rparr>))"

section \<open>POSIX threads\<close>

text \<open>The keys in use, what \<open>pthread_getspecific\<close> returns, and the values of the factories of the
  instances there are.\<close>

record 'v pthread_tls =
  p_holders :: "'v holders"
  p_keys :: "tl list"
  p_specific :: "tl \<Rightarrow> thread_id \<Rightarrow> nat option"
  p_default :: "tl \<rightharpoonup> 'v"

definition dead_instance :: exn where
  "dead_instance = Undefined_behaviour ''dangling ThreadLocal''"

definition posix_ThreadLocal :: "tl \<Rightarrow> 'v \<Rightarrow> 'v pthread_tls \<Rightarrow> 'v pthread_tls" where
  "posix_ThreadLocal k v s =
     s\<lparr> p_keys := p_keys s @ [k], p_specific := (p_specific s)(k := (\<lambda>_. None)),
        p_default := (p_default s)(k \<mapsto> v) \<rparr>"

definition pthread_setspecific :: "tl \<Rightarrow> thread_id \<Rightarrow> nat option \<Rightarrow> 'v pthread_tls \<Rightarrow> 'v pthread_tls" where
  "pthread_setspecific k t h s = s\<lparr> p_specific := (p_specific s)(k := (p_specific s k)(t := h)) \<rparr>"

definition posix_GetOrCreateValue :: "thread_id \<Rightarrow> tl \<Rightarrow> 'v pthread_tls \<Rightarrow> (nat \<times> 'v pthread_tls) result" where
  "posix_GetOrCreateValue t k s =
     (case p_default s k of
        None \<Rightarrow> Inl dead_instance
      | Some v \<Rightarrow>
          (case p_specific s k t of
             Some h \<Rightarrow> if held (p_holders s) h = None then Inl dangling_holder else Inr (h, s)
           | None \<Rightarrow>
               let (new_holder, hs) = MakeNewHolder v (p_holders s) in
               Inr (new_holder, pthread_setspecific k t (Some new_holder) (s\<lparr> p_holders := hs \<rparr>))))"

definition posix_get :: "thread_id \<Rightarrow> tl \<Rightarrow> 'v pthread_tls \<Rightarrow> ('v \<times> 'v pthread_tls) result" where
  "posix_get t k s =
     bind_result (posix_GetOrCreateValue t k s) (\<lambda>(h, s').
     bind_result (read_holder h (p_holders s')) (\<lambda>v. Inr (v, s')))"

definition posix_set :: "thread_id \<Rightarrow> tl \<Rightarrow> 'v \<Rightarrow> 'v pthread_tls \<Rightarrow> 'v pthread_tls result" where
  "posix_set t k v s =
     bind_result (posix_GetOrCreateValue t k s) (\<lambda>(h, s').
     bind_result (write_holder h v (p_holders s')) (\<lambda>hs. Inr (s'\<lparr> p_holders := hs \<rparr>)))"

definition DeleteThreadLocalValue :: "nat option \<Rightarrow> 'v pthread_tls \<Rightarrow> 'v pthread_tls result" where
  "DeleteThreadLocalValue value_holder s =
     (case value_holder of
        None \<Rightarrow> Inr s
      | Some h \<Rightarrow> bind_result (delete_holder h (p_holders s)) (\<lambda>hs. Inr (s\<lparr> p_holders := hs \<rparr>)))"

text \<open>At the end of a thread, for each key: a value that is not null is set to null and passed to the
  destructor.\<close>

primrec posix_exit_keys :: "thread_id \<Rightarrow> tl list \<Rightarrow> 'v pthread_tls \<Rightarrow> 'v pthread_tls result" where
  "posix_exit_keys t [] s = Inr s"
| "posix_exit_keys t (k # later) s =
     (case p_specific s k t of
        None \<Rightarrow> posix_exit_keys t later s
      | Some h \<Rightarrow>
          bind_result (DeleteThreadLocalValue (Some h) (pthread_setspecific k t None s)) (posix_exit_keys t later))"

definition posix_exit :: "thread_id \<Rightarrow> 'v pthread_tls \<Rightarrow> 'v pthread_tls result" where
  "posix_exit t s = posix_exit_keys t (p_keys s) s"

definition posix_destroy :: "thread_id \<Rightarrow> tl \<Rightarrow> 'v pthread_tls \<Rightarrow> 'v pthread_tls result" where
  "posix_destroy t k s =
     (if p_default s k = None then Inl dead_instance
      else bind_result (DeleteThreadLocalValue (p_specific s k t) s) (\<lambda>s'.
        Inr (s'\<lparr> p_keys := removeAll k (p_keys s'), p_default := (p_default s')(k := None) \<rparr>)))"

section \<open>The registry of Windows\<close>

type_synonym ThreadLocalValues = "(tl, nat) omap"

record 'v win_tls =
  w_holders :: "'v holders"
  w_map :: "(thread_id, ThreadLocalValues) omap"
  w_watched :: "thread_id list"
  w_default :: "tl \<rightharpoonup> 'v"

definition win_ThreadLocal :: "tl \<Rightarrow> 'v \<Rightarrow> 'v win_tls \<Rightarrow> 'v win_tls" where
  "win_ThreadLocal k v s = s\<lparr> w_default := (w_default s)(k \<mapsto> v) \<rparr>"

definition GetValueOnCurrentThread :: "thread_id \<Rightarrow> tl \<Rightarrow> 'v win_tls \<Rightarrow> (nat \<times> 'v win_tls) result" where
  "GetValueOnCurrentThread t k s =
     (case w_default s k of
        None \<Rightarrow> Inl dead_instance
      | Some v \<Rightarrow>
          let s1 = (if om_find (w_map s) t = None
                    then s\<lparr> w_map := om_set t [] (w_map s), w_watched := w_watched s @ [t] \<rparr> else s);
              thread_local_values = the (om_find (w_map s1) t) in
          case om_find thread_local_values k of
            Some h \<Rightarrow> if held (w_holders s1) h = None then Inl dangling_holder else Inr (h, s1)
          | None \<Rightarrow>
              let (new_holder, hs) = MakeNewHolder v (w_holders s1) in
              Inr (new_holder,
                s1\<lparr> w_holders := hs, w_map := om_set t (om_set k new_holder thread_local_values) (w_map s1) \<rparr>))"

definition win_get :: "thread_id \<Rightarrow> tl \<Rightarrow> 'v win_tls \<Rightarrow> ('v \<times> 'v win_tls) result" where
  "win_get t k s =
     bind_result (GetValueOnCurrentThread t k s) (\<lambda>(h, s').
     bind_result (read_holder h (w_holders s')) (\<lambda>v. Inr (v, s')))"

definition win_set :: "thread_id \<Rightarrow> tl \<Rightarrow> 'v \<Rightarrow> 'v win_tls \<Rightarrow> 'v win_tls result" where
  "win_set t k v s =
     bind_result (GetValueOnCurrentThread t k s) (\<lambda>(h, s').
     bind_result (write_holder h v (w_holders s')) (\<lambda>hs. Inr (s'\<lparr> w_holders := hs \<rparr>)))"

definition om_erase :: "'k \<Rightarrow> ('k, 'v) omap \<Rightarrow> ('k, 'v) omap" where
  "om_erase k m = filter (\<lambda>(k', v). k' \<noteq> k) m"

text \<open>The loop of \<open>OnThreadLocalDestroyed\<close> over the threads: the holders it takes out of the map.\<close>

primrec take_holders :: "tl \<Rightarrow> (thread_id, ThreadLocalValues) omap \<Rightarrow> nat list \<times> (thread_id, ThreadLocalValues) omap" where
  "take_holders k [] = ([], [])"
| "take_holders k (it # later) =
     (let (value_holders, m) = take_holders k later in
      case om_find (snd it) k of
        None \<Rightarrow> (value_holders, it # m)
      | Some h \<Rightarrow> (h # value_holders, (fst it, om_erase k (snd it)) # m))"

definition OnThreadLocalDestroyed :: "tl \<Rightarrow> 'v win_tls \<Rightarrow> 'v win_tls result" where
  "OnThreadLocalDestroyed k s =
     (let (value_holders, m) = take_holders k (w_map s) in
      bind_result (delete_holders value_holders (w_holders s)) (\<lambda>hs.
        Inr (s\<lparr> w_map := m, w_holders := hs \<rparr>)))"

definition win_destroy :: "tl \<Rightarrow> 'v win_tls \<Rightarrow> 'v win_tls result" where
  "win_destroy k s =
     (if w_default s k = None then Inl dead_instance
      else bind_result (OnThreadLocalDestroyed k s) (\<lambda>s'. Inr (s'\<lparr> w_default := (w_default s')(k := None) \<rparr>)))"

definition OnThreadExit :: "thread_id \<Rightarrow> 'v win_tls \<Rightarrow> 'v win_tls result" where
  "OnThreadExit t s =
     (if t = 0 then Inl (Runtime_error ''Condition thread_id != 0 failed. '')
      else case om_find (w_map s) t of
        None \<Rightarrow> Inr s
      | Some thread_local_values \<Rightarrow>
          bind_result (delete_holders (map snd thread_local_values) (w_holders s)) (\<lambda>hs.
            Inr (s\<lparr> w_map := om_erase t (w_map s), w_holders := hs \<rparr>)))"

text \<open>Only a thread that has a watcher is noticed when it ends.\<close>

definition win_exit :: "thread_id \<Rightarrow> 'v win_tls \<Rightarrow> 'v win_tls result" where
  "win_exit t s =
     (if t \<in> set (w_watched s) then OnThreadExit t (s\<lparr> w_watched := removeAll t (w_watched s) \<rparr>) else Inr s)"

section \<open>What a thread-local value is\<close>

record 'v tls_spec =
  s_default :: "tl \<rightharpoonup> 'v"
  s_value :: "(tl \<times> thread_id) \<rightharpoonup> 'v"

datatype 'v tls_op = Create tl 'v | Get tl | Put tl 'v | Exit | Destroy tl

definition put_value :: "tl \<times> thread_id \<Rightarrow> 'v option \<Rightarrow> 'v tls_spec \<Rightarrow> 'v tls_spec" where
  "put_value x v a = a\<lparr> s_value := (s_value a)(x := v) \<rparr>"

definition clear_values :: "(tl \<times> thread_id) set \<Rightarrow> 'v tls_spec \<Rightarrow> 'v tls_spec" where
  "clear_values S a = a\<lparr> s_value := s_value a |` (- S) \<rparr>"

fun spec_tls :: "thread_id \<Rightarrow> 'v tls_op \<Rightarrow> 'v tls_spec \<Rightarrow> 'v option \<times> 'v tls_spec" where
  "spec_tls t (Create k v) a = (None, a\<lparr> s_default := (s_default a)(k \<mapsto> v) \<rparr>)"
| "spec_tls t (Get k) a =
     (let v = (case s_value a (k, t) of None \<Rightarrow> s_default a k | Some v \<Rightarrow> Some v) in (v, put_value (k, t) v a))"
| "spec_tls t (Put k v) a = (None, put_value (k, t) (Some v) a)"
| "spec_tls t Exit a = (None, clear_values (UNIV \<times> {t}) a)"
| "spec_tls t (Destroy k) a = (None, (clear_values ({k} \<times> UNIV) a)\<lparr> s_default := (s_default a)(k := None) \<rparr>)"

text \<open>The rules of use: an instance is created once, used while it exists, and destroyed when all other
  threads with a value of it have ended.\<close>

fun legal_tls :: "thread_id \<Rightarrow> 'v tls_op \<Rightarrow> 'v tls_spec \<Rightarrow> bool" where
  "legal_tls t (Create k v) a \<longleftrightarrow> t \<noteq> 0 \<and> s_default a k = None"
| "legal_tls t (Get k) a \<longleftrightarrow> t \<noteq> 0 \<and> s_default a k \<noteq> None"
| "legal_tls t (Put k v) a \<longleftrightarrow> t \<noteq> 0 \<and> s_default a k \<noteq> None"
| "legal_tls t Exit a \<longleftrightarrow> t \<noteq> 0"
| "legal_tls t (Destroy k) a \<longleftrightarrow> t \<noteq> 0 \<and> s_default a k \<noteq> None \<and> (\<forall>u. u \<noteq> t \<longrightarrow> s_value a (k, u) = None)"

fun posix_exec_tls :: "thread_id \<Rightarrow> 'v tls_op \<Rightarrow> 'v pthread_tls \<Rightarrow> ('v option \<times> 'v pthread_tls) result" where
  "posix_exec_tls t (Create k v) s = Inr (None, posix_ThreadLocal k v s)"
| "posix_exec_tls t (Get k) s = bind_result (posix_get t k s) (\<lambda>(v, s'). Inr (Some v, s'))"
| "posix_exec_tls t (Put k v) s = bind_result (posix_set t k v s) (\<lambda>s'. Inr (None, s'))"
| "posix_exec_tls t Exit s = bind_result (posix_exit t s) (\<lambda>s'. Inr (None, s'))"
| "posix_exec_tls t (Destroy k) s = bind_result (posix_destroy t k s) (\<lambda>s'. Inr (None, s'))"

fun win_exec_tls :: "thread_id \<Rightarrow> 'v tls_op \<Rightarrow> 'v win_tls \<Rightarrow> ('v option \<times> 'v win_tls) result" where
  "win_exec_tls t (Create k v) s = Inr (None, win_ThreadLocal k v s)"
| "win_exec_tls t (Get k) s = bind_result (win_get t k s) (\<lambda>(v, s'). Inr (Some v, s'))"
| "win_exec_tls t (Put k v) s = bind_result (win_set t k v s) (\<lambda>s'. Inr (None, s'))"
| "win_exec_tls t Exit s = bind_result (win_exit t s) (\<lambda>s'. Inr (None, s'))"
| "win_exec_tls t (Destroy k) s = bind_result (win_destroy k s) (\<lambda>s'. Inr (None, s'))"

text \<open>A program is a list of operations with their threads; its run collects what the calls of \<open>get\<close>
  return.\<close>

primrec tls_run :: "(thread_id \<Rightarrow> 'v tls_op \<Rightarrow> 's \<Rightarrow> ('v option \<times> 's) result) \<Rightarrow>
    (thread_id \<times> 'v tls_op) list \<Rightarrow> 's \<Rightarrow> ('v option list \<times> 's) result" where
  "tls_run exec [] s = Inr ([], s)"
| "tls_run exec (x # xs) s =
     bind_result (exec (fst x) (snd x) s) (\<lambda>(r, s').
     bind_result (tls_run exec xs s') (\<lambda>(rs, s''). Inr (r # rs, s'')))"

primrec spec_tls_run :: "(thread_id \<times> 'v tls_op) list \<Rightarrow> 'v tls_spec \<Rightarrow> 'v option list \<times> 'v tls_spec" where
  "spec_tls_run [] a = ([], a)"
| "spec_tls_run (x # xs) a =
     (let (r, a') = spec_tls (fst x) (snd x) a; (rs, a'') = spec_tls_run xs a' in (r # rs, a''))"

primrec legal_tls_run :: "(thread_id \<times> 'v tls_op) list \<Rightarrow> 'v tls_spec \<Rightarrow> bool" where
  "legal_tls_run [] a \<longleftrightarrow> True"
| "legal_tls_run (x # xs) a \<longleftrightarrow>
     legal_tls (fst x) (snd x) a \<and> legal_tls_run xs (snd (spec_tls (fst x) (snd x) a))"

section \<open>Where the values are\<close>

text \<open>The holder of each value: every holder that is not deleted has exactly one place.\<close>

definition placed :: "('x \<rightharpoonup> 'v) \<Rightarrow> ('x \<rightharpoonup> nat) \<Rightarrow> 'v holders \<Rightarrow> bool" where
  "placed vals loc hs \<longleftrightarrow>
     vals = held hs \<circ>\<^sub>m loc \<and> ran loc = dom (held hs) \<and> inj_on loc (dom loc) \<and>
     {..<made hs} = set (freed hs) \<union> dom (held hs) \<and> set (freed hs) \<inter> dom (held hs) = {} \<and>
     distinct (freed hs)"

lemma placed_held:
  assumes a: "placed vals loc hs" and x: "loc x = Some h"
  shows "held hs h \<noteq> None" "vals x = held hs h"
proof -
  have "h \<in> dom (held hs)" using a ranI [of loc x h, OF x] by (simp add: placed_def)
  then show "held hs h \<noteq> None" by (simp add: domIff)
  show "vals x = held hs h" using a x by (simp add: placed_def)
qed

lemma placed_None: "placed vals loc hs \<Longrightarrow> vals x = None \<longleftrightarrow> loc x = None"
  using placed_held [of vals loc hs x] by (cases "loc x") (auto simp: placed_def)

lemma placed_inj: "placed vals loc hs \<Longrightarrow> loc x = Some h \<Longrightarrow> loc y = Some h \<Longrightarrow> x = y"
  unfolding placed_def by (metis domI inj_onD)

lemma placed_make:
  assumes a: "placed vals loc hs" and x: "loc x = None"
  shows "placed (vals(x \<mapsto> v)) (loc(x \<mapsto> made hs)) (snd (MakeNewHolder v hs))"
proof -
  have new: "made hs \<notin> dom (held hs)" "made hs \<notin> set (freed hs)" "made hs \<notin> ran loc"
    using a unfolding placed_def by (metis UnCI lessThan_iff less_irrefl)+
  then have loc: "loc y \<noteq> Some (made hs)" for y using ranI [of loc y "made hs"] by blast
  have 1: "vals(x \<mapsto> v) = (held hs)(made hs \<mapsto> v) \<circ>\<^sub>m loc(x \<mapsto> made hs)"
    using a loc by (intro ext) (simp add: placed_def map_comp_def split: option.split)
  have 2: "ran (loc(x \<mapsto> made hs)) = insert (made hs) (ran loc)" using x by (rule ran_map_upd)
  have 3: "inj_on (loc(x \<mapsto> made hs)) (dom (loc(x \<mapsto> made hs)))"
  proof (rule inj_onI)
    fix y z
    assume "y \<in> dom (loc(x \<mapsto> made hs))" "(loc(x \<mapsto> made hs)) y = (loc(x \<mapsto> made hs)) z"
    note yz = this
    show "y = z"
    proof (cases "y = x \<or> z = x")
      case True
      then show ?thesis using yz(2) loc [of y] loc [of z] by (auto split: if_splits)
    next
      case False
      then have "y \<in> dom loc" "loc y = loc z" using yz by simp_all
      then show ?thesis using placed_inj [OF a] by (metis domD)
    qed
  qed
  show ?thesis
    using a new(1,2) 1 2 3 unfolding placed_def MakeNewHolder_def by (auto simp: lessThan_Suc)
qed

lemma placed_write:
  assumes a: "placed vals loc hs" and x: "loc x = Some h"
  shows "\<exists>hs'. write_holder h v hs = Inr hs' \<and> placed (vals(x \<mapsto> v)) loc hs'"
proof -
  have h: "held hs h \<noteq> None" by (rule placed_held(1) [OF a x])
  have 1: "vals(x \<mapsto> v) = (held hs)(h \<mapsto> v) \<circ>\<^sub>m loc"
    using a placed_inj [OF a x] by (intro ext) (auto simp: placed_def map_comp_def x split: option.split)
  have 2: "dom ((held hs)(h \<mapsto> v)) = dom (held hs)" using h by auto
  have "placed (vals(x \<mapsto> v)) loc (hs\<lparr> held := (held hs)(h \<mapsto> v) \<rparr>)"
    using a unfolding placed_def 1 by (simp add: 2 del: dom_fun_upd)
  then show ?thesis using h by (simp add: write_holder_def)
qed

lemma placed_delete:
  assumes a: "placed vals loc hs" and x: "loc x = Some h"
  shows "\<exists>hs'. delete_holder h hs = Inr hs' \<and> placed (vals(x := None)) (loc(x := None)) hs'"
proof -
  have h: "held hs h \<noteq> None" by (rule placed_held(1) [OF a x])
  have 1: "vals(x := None) = (held hs)(h := None) \<circ>\<^sub>m loc(x := None)"
  proof
    fix y
    have "y \<noteq> x \<Longrightarrow> loc y \<noteq> Some h" using placed_inj [OF a x] by blast
    then show "(vals(x := None)) y = ((held hs)(h := None) \<circ>\<^sub>m loc(x := None)) y"
      using a by (cases "y = x") (auto simp: placed_def map_comp_def split: option.split)
  qed
  have 2: "ran (loc(x := None)) = ran loc - {h}"
  proof (rule set_eqI)
    fix b
    have "b \<in> ran (loc(x := None)) \<longleftrightarrow> (\<exists>y. y \<noteq> x \<and> loc y = Some b)" by (auto simp: ran_def split: if_splits)
    also have "\<dots> \<longleftrightarrow> (\<exists>y. loc y = Some b) \<and> b \<noteq> h"
      using x placed_inj [OF a] by (metis option.inject)
    also have "\<dots> \<longleftrightarrow> b \<in> ran loc - {h}" by (simp add: ran_def)
    finally show "b \<in> ran (loc(x := None)) \<longleftrightarrow> b \<in> ran loc - {h}" .
  qed
  have 3: "inj_on (loc(x := None)) (dom (loc(x := None)))"
  proof (rule inj_onI)
    fix y z
    assume "y \<in> dom (loc(x := None))" "(loc(x := None)) y = (loc(x := None)) z"
    then have "y \<in> dom loc" "y \<noteq> x" "(loc(x := None)) y = (loc(x := None)) z" by simp_all
    moreover from this have "z \<noteq> x" by (metis domIff fun_upd_other fun_upd_same)
    ultimately have "y \<in> dom loc" "loc y = loc z" by simp_all
    then show "y = z" using placed_inj [OF a] by (metis domD)
  qed
  have 4: "h \<notin> set (freed hs)" using a h by (auto simp: placed_def)
  have 5: "h \<in> dom (held hs)" using h by (simp add: domIff)
  have "placed (vals(x := None)) (loc(x := None))
      (hs\<lparr> held := (held hs)(h := None), freed := freed hs @ [h] \<rparr>)"
    using a 3 4 5 unfolding placed_def 1 2 by (simp only: holders.simps dom_fun_upd) auto
  then show ?thesis using h by (simp add: delete_holder_def)
qed

lemma placed_delete_all:
  assumes "placed vals loc hs" and "distinct xs" and "\<forall>x \<in> set xs. loc x \<noteq> None"
  shows "\<exists>hs'. delete_holders (map (\<lambda>x. the (loc x)) xs) hs = Inr hs' \<and>
    placed (vals |` (- set xs)) (loc |` (- set xs)) hs'"
  using assms
proof (induction xs arbitrary: vals loc hs)
  case Nil
  have "m |` UNIV = m" for m :: "'x \<rightharpoonup> 'y" by (simp add: restrict_map_def)
  then show ?case using Nil by (simp add: restrict_map_def)
next
  case (Cons x xs)
  then obtain h where h: "loc x = Some h" by auto
  from placed_delete [OF Cons.prems(1) h] obtain hs1 where hs1: "delete_holder h hs = Inr hs1"
    "placed (vals(x := None)) (loc(x := None)) hs1" by blast
  have d: "distinct xs" "\<forall>y \<in> set xs. (loc(x := None)) y \<noteq> None" using Cons.prems(2,3) by auto
  from Cons.IH [OF hs1(2) d] obtain hs' where hs': "delete_holders (map (\<lambda>y. the ((loc(x := None)) y)) xs) hs1 = Inr hs'"
    "placed (vals(x := None) |` (- set xs)) (loc(x := None) |` (- set xs)) hs'"
    by blast
  have m: "map (\<lambda>y. the ((loc(x := None)) y)) xs = map (\<lambda>y. the (loc y)) xs"
    using Cons.prems(2) by (intro map_cong) auto
  have r: "f(x := None) |` (- set xs) = f |` (- set (x # xs))" for f :: "'a \<rightharpoonup> 'c"
    by (auto simp: fun_eq_iff restrict_map_def)
  show ?case using hs1(1) hs' unfolding m r by (intro exI [of _ hs']) (simp add: h)
qed

lemma placed_restrict: "placed vals loc hs \<Longrightarrow> \<forall>x \<in> S. loc x = None \<Longrightarrow> vals |` (- S) = vals"
  by (intro ext) (auto simp: restrict_map_def placed_None [symmetric])

section \<open>The contract of a platform\<close>

definition no_values :: "'v tls_spec" where
  "no_values = \<lparr> s_default = Map.empty, s_value = Map.empty \<rparr>"

locale thread_locals =
  fixes exec :: "thread_id \<Rightarrow> 'v tls_op \<Rightarrow> 's \<Rightarrow> ('v option \<times> 's) result" and start :: 's
    and heap :: "'s \<Rightarrow> 'v holders" and refines :: "'v tls_spec \<Rightarrow> 's \<Rightarrow> bool"
  assumes starts: "refines no_values start"
    and simulates: "refines a s \<Longrightarrow> legal_tls t op a \<Longrightarrow>
      \<exists>s'. exec t op s = Inr (fst (spec_tls t op a), s') \<and> refines (snd (spec_tls t op a)) s'"
    and counted: "refines a s \<Longrightarrow> \<exists>loc. placed (s_value a) loc (heap s)"
begin

lemma run_simulates:
  "refines a s \<Longrightarrow> legal_tls_run xs a \<Longrightarrow>
     \<exists>s'. tls_run exec xs s = Inr (fst (spec_tls_run xs a), s') \<and> refines (snd (spec_tls_run xs a)) s'"
proof (induction xs arbitrary: a s)
  case (Cons x xs)
  obtain s1 where s1: "exec (fst x) (snd x) s = Inr (fst (spec_tls (fst x) (snd x) a), s1)"
    "refines (snd (spec_tls (fst x) (snd x) a)) s1"
    using simulates Cons.prems by fastforce
  then show ?case using Cons.IH [OF s1(2)] Cons.prems(2) by (auto simp: split_def Let_def)
qed simp

lemma run_from_start:
  assumes "legal_tls_run xs no_values"
  shows "\<exists>s'. tls_run exec xs start = Inr (fst (spec_tls_run xs no_values), s') \<and>
    distinct (freed (heap s')) \<and> set (freed (heap s')) \<inter> dom (held (heap s')) = {} \<and>
    {..<made (heap s')} = set (freed (heap s')) \<union> dom (held (heap s')) \<and>
    (snd (spec_tls_run xs no_values) = no_values \<longrightarrow> set (freed (heap s')) = {..<made (heap s')})"
proof -
  obtain s' where s': "tls_run exec xs start = Inr (fst (spec_tls_run xs no_values), s')"
    "refines (snd (spec_tls_run xs no_values)) s'" using run_simulates [OF starts assms] by blast
  obtain loc where p: "placed (s_value (snd (spec_tls_run xs no_values))) loc (heap s')" using counted [OF s'(2)] ..
  have "dom (held (heap s')) = {}" if "snd (spec_tls_run xs no_values) = no_values"
  proof -
    have "loc x = None" for x using placed_None [OF p, of x] that by (simp add: no_values_def)
    then have "ran loc = {}" by (simp add: ran_def)
    then show ?thesis using p by (simp add: placed_def)
  qed
  then show ?thesis using s'(1) p by (auto simp: placed_def)
qed

end

section \<open>POSIX threads keep it\<close>

definition posix_loc :: "'v pthread_tls \<Rightarrow> tl \<times> thread_id \<rightharpoonup> nat" where
  "posix_loc s = (\<lambda>x. if fst x \<in> set (p_keys s) then p_specific s (fst x) (snd x) else None)"

definition posix_refines :: "'v tls_spec \<Rightarrow> 'v pthread_tls \<Rightarrow> bool" where
  "posix_refines a s \<longleftrightarrow>
     placed (s_value a) (posix_loc s) (p_holders s) \<and> p_default s = s_default a \<and>
     set (p_keys s) = dom (s_default a) \<and> distinct (p_keys s)"

definition posix_tls_start :: "'v pthread_tls" where
  "posix_tls_start = \<lparr> p_holders = no_holders, p_keys = [], p_specific = (\<lambda>_ _. None), p_default = Map.empty \<rparr>"

lemma posix_loc_specific:
  "k \<in> set (p_keys s) \<Longrightarrow> posix_loc (pthread_setspecific k t h s) = (posix_loc s)((k, t) := h)"
  by (auto simp: posix_loc_def pthread_setspecific_def fun_eq_iff)

lemma posix_loc_holders [simp]: "posix_loc (s\<lparr> p_holders := hs \<rparr>) = posix_loc s"
  by (simp add: posix_loc_def fun_eq_iff)

text \<open>\<open>GetOrCreateValue\<close> returns the holder of the current value, made with the default if need be.\<close>

lemma posix_GetOrCreateValue_ok:
  fixes t :: thread_id
  assumes a: "posix_refines a s" and k: "s_default a k = Some d"
  defines "v \<equiv> (case s_value a (k, t) of None \<Rightarrow> d | Some v \<Rightarrow> v)"
  shows "\<exists>h s'. posix_GetOrCreateValue t k s = Inr (h, s') \<and> posix_refines (put_value (k, t) (Some v) a) s' \<and>
    posix_loc s' (k, t) = Some h \<and> held (p_holders s') h = Some v"
proof -
  have p: "placed (s_value a) (posix_loc s) (p_holders s)" and key: "k \<in> set (p_keys s)"
    and d: "p_default s k = Some d" using a k by (auto simp: posix_refines_def)
  have loc: "posix_loc s (k, t) = p_specific s k t" using key by (simp add: posix_loc_def)
  show ?thesis
  proof (cases "p_specific s k t")
    case None
    let ?s = "pthread_setspecific k t (Some (made (p_holders s)))
      (s\<lparr> p_holders := snd (MakeNewHolder d (p_holders s)) \<rparr>)"
    have "s_value a (k, t) = None" using placed_None [OF p, of "(k, t)"] loc None by simp
    then have v: "v = d" by (simp add: v_def)
    have "posix_loc ?s = (posix_loc s)((k, t) \<mapsto> made (p_holders s))"
      using key by (subst posix_loc_specific) simp_all
    then have "posix_refines (put_value (k, t) (Some d) a) ?s"
      using placed_make [OF p, of "(k, t)" d] loc None a
      by (simp add: posix_refines_def put_value_def pthread_setspecific_def)
    then show ?thesis using None d v key \<open>posix_loc ?s = _\<close>
      by (auto simp: posix_GetOrCreateValue_def MakeNewHolder_def pthread_setspecific_def)
  next
    case (Some h)
    then have h: "held (p_holders s) h \<noteq> None" "s_value a (k, t) = held (p_holders s) h"
      using placed_held [OF p, of "(k, t)" h] loc by simp_all
    then have v: "held (p_holders s) h = Some v" by (auto simp: v_def)
    then have "put_value (k, t) (Some v) a = a" using h by (simp add: put_value_def fun_upd_idem)
    then show ?thesis using Some d h v loc a by (auto simp: posix_GetOrCreateValue_def)
  qed
qed

lemma put_value_twice [simp]: "put_value x v (put_value x u a) = put_value x v a"
  by (simp add: put_value_def)

lemma posix_delete_ok:
  assumes a: "posix_refines a s" and k: "k \<in> set (p_keys s)" and h: "p_specific s k t = Some h"
  shows "\<exists>s'. DeleteThreadLocalValue (Some h) (pthread_setspecific k t None s) = Inr s' \<and>
    posix_refines (put_value (k, t) None a) s' \<and> p_keys s' = p_keys s \<and>
    p_specific s' = p_specific (pthread_setspecific k t None s)"
proof -
  have p: "placed (s_value a) (posix_loc s) (p_holders s)" using a by (simp add: posix_refines_def)
  have "posix_loc s (k, t) = Some h" using k h by (simp add: posix_loc_def)
  from placed_delete [OF p this] obtain hs where hs: "delete_holder h (p_holders s) = Inr hs"
    "placed ((s_value a)((k, t) := None)) ((posix_loc s)((k, t) := None)) hs" by blast
  let ?s = "(pthread_setspecific k t None s)\<lparr> p_holders := hs \<rparr>"
  have "posix_refines (put_value (k, t) None a) ?s"
    using hs(2) a posix_loc_specific [OF k, of t None]
    by (simp add: posix_refines_def put_value_def) (simp add: pthread_setspecific_def)
  then show ?thesis using hs(1) by (simp add: DeleteThreadLocalValue_def) (simp add: pthread_setspecific_def)
qed

lemma posix_exit_keys_ok:
  assumes "posix_refines a s" and "set ks \<subseteq> set (p_keys s)" and "distinct ks"
  shows "\<exists>s'. posix_exit_keys t ks s = Inr s' \<and> posix_refines (clear_values (set ks \<times> {t}) a) s'"
  using assms
proof (induction ks arbitrary: a s)
  case Nil
  then show ?case by (simp add: clear_values_def restrict_map_def)
next
  case (Cons k ks)
  show ?case
  proof (cases "p_specific s k t")
    case None
    have p: "placed (s_value a) (posix_loc s) (p_holders s)" using Cons.prems by (simp add: posix_refines_def)
    have "s_value a (k, t) = None" using placed_None [OF p, of "(k, t)"] None by (simp add: posix_loc_def)
    then have "clear_values (set (k # ks) \<times> {t}) a = clear_values (set ks \<times> {t}) a"
      by (auto simp: clear_values_def fun_eq_iff restrict_map_def)
    then show ?thesis using Cons None by simp
  next
    case (Some h)
    from posix_delete_ok [OF Cons.prems(1) _ Some] Cons.prems(2) obtain s1 where s1:
      "DeleteThreadLocalValue (Some h) (pthread_setspecific k t None s) = Inr s1"
      "posix_refines (put_value (k, t) None a) s1" "p_keys s1 = p_keys s" by auto
    have "clear_values (set ks \<times> {t}) (put_value (k, t) None a) = clear_values (set (k # ks) \<times> {t}) a"
      by (auto simp: clear_values_def put_value_def fun_eq_iff restrict_map_def)
    then show ?thesis using Cons.IH [OF s1(2)] Cons.prems s1 Some by auto
  qed
qed

lemma posix_value_key: "posix_refines a s \<Longrightarrow> s_value a (k, t) \<noteq> None \<Longrightarrow> k \<in> set (p_keys s)"
  using placed_None [of "s_value a" "posix_loc s" "p_holders s" "(k, t)"]
  by (auto simp: posix_refines_def posix_loc_def split: if_splits)

lemma posix_exit_ok:
  assumes a: "posix_refines a s"
  shows "\<exists>s'. posix_exit t s = Inr s' \<and> posix_refines (clear_values (UNIV \<times> {t}) a) s'"
proof -
  have "clear_values (UNIV \<times> {t}) a = clear_values (set (p_keys s) \<times> {t}) a"
  proof -
    have "s_value a |` (- (UNIV \<times> {t})) = s_value a |` (- (set (p_keys s) \<times> {t}))"
    proof
      fix x
      have "fst x \<notin> set (p_keys s) \<Longrightarrow> s_value a x = None"
        using posix_value_key [OF a, of "fst x" "snd x"] by (metis prod.collapse)
      then show "(s_value a |` (- (UNIV \<times> {t}))) x = (s_value a |` (- (set (p_keys s) \<times> {t}))) x"
        by (cases x) (auto simp: restrict_map_def)
    qed
    then show ?thesis by (simp add: clear_values_def)
  qed
  then show ?thesis using posix_exit_keys_ok [OF a subset_refl] a
    by (simp add: posix_exit_def posix_refines_def)
qed

lemma posix_destroy_ok:
  assumes a: "posix_refines a s" and k: "s_default a k \<noteq> None" and others: "\<forall>u. u \<noteq> t \<longrightarrow> s_value a (k, u) = None"
  shows "\<exists>s'. posix_destroy t k s = Inr s' \<and>
    posix_refines ((clear_values ({k} \<times> UNIV) a)\<lparr> s_default := (s_default a)(k := None) \<rparr>) s'"
proof -
  have p: "placed (s_value a) (posix_loc s) (p_holders s)" and key: "k \<in> set (p_keys s)"
    and d: "p_default s = s_default a" using a k by (auto simp: posix_refines_def)
  let ?drop = "\<lambda>s'. s'\<lparr> p_keys := removeAll k (p_keys s'), p_default := (p_default s')(k := None) \<rparr>"
  have loc: "posix_loc (?drop s) = (posix_loc s)((k, t) := None)"
  proof
    fix x
    have "posix_loc s (k, u) = None" if "u \<noteq> t" for u using placed_None [OF p, of "(k, u)"] others that by simp
    then show "posix_loc (?drop s) x = ((posix_loc s)((k, t) := None)) x"
      by (cases x) (auto simp: posix_loc_def)
  qed
  have val: "(clear_values ({k} \<times> UNIV) a) = put_value (k, t) None a"
    using others by (fastforce simp: clear_values_def put_value_def fun_eq_iff restrict_map_def)
  have keys: "set (removeAll k (p_keys s)) = dom ((s_default a)(k := None))" "distinct (removeAll k (p_keys s))"
    using a by (auto simp: posix_refines_def distinct_removeAll)
  show ?thesis
  proof (cases "p_specific s k t")
    case None
    then have l: "posix_loc s (k, t) = None" by (simp add: posix_loc_def)
    then have "(posix_loc s)((k, t) := None) = posix_loc s" "s_value a (k, t) = None"
      using placed_None [OF p, of "(k, t)"] by (auto simp: fun_eq_iff)
    then show ?thesis using None p loc val keys k d
      by (simp add: posix_destroy_def DeleteThreadLocalValue_def posix_refines_def put_value_def fun_upd_idem)
  next
    case (Some h)
    then have "posix_loc s (k, t) = Some h" using key by (simp add: posix_loc_def)
    from placed_delete [OF p this] obtain hs where hs: "delete_holder h (p_holders s) = Inr hs"
      "placed ((s_value a)((k, t) := None)) ((posix_loc s)((k, t) := None)) hs" by blast
    have "posix_loc (?drop (s\<lparr> p_holders := hs \<rparr>)) = posix_loc (?drop s)" by (intro ext) (simp add: posix_loc_def)
    then show ?thesis using Some hs loc val keys k d
      by (simp add: posix_destroy_def DeleteThreadLocalValue_def posix_refines_def put_value_def)
  qed
qed

lemma posix_simulates:
  assumes a: "posix_refines a s" and l: "legal_tls t op a"
  shows "\<exists>s'. posix_exec_tls t op s = Inr (fst (spec_tls t op a), s') \<and> posix_refines (snd (spec_tls t op a)) s'"
proof (cases op)
  case (Create k v)
  have key: "k \<notin> set (p_keys s)" using a l Create by (auto simp: posix_refines_def)
  have "posix_loc (posix_ThreadLocal k v s) = posix_loc s"
    using key by (auto simp: posix_loc_def posix_ThreadLocal_def fun_eq_iff)
  then show ?thesis using a key Create by (simp add: posix_refines_def) (simp add: posix_ThreadLocal_def)
next
  case (Get k)
  then obtain d where "s_default a k = Some d" using l by auto
  from posix_GetOrCreateValue_ok [OF a this, of t] show ?thesis
    using Get \<open>s_default a k = Some d\<close>
    by (auto simp: posix_get_def read_holder_def Let_def split: option.splits)
next
  case (Put k v)
  then obtain d where "s_default a k = Some d" using l by auto
  from posix_GetOrCreateValue_ok [OF a this, of t] obtain h s1 u where s1: "posix_GetOrCreateValue t k s = Inr (h, s1)"
    "posix_refines (put_value (k, t) (Some u) a) s1" "posix_loc s1 (k, t) = Some h" by blast
  then have p: "placed ((s_value a)((k, t) \<mapsto> u)) (posix_loc s1) (p_holders s1)"
    by (simp add: posix_refines_def put_value_def)
  from placed_write [OF p s1(3), of v] show ?thesis
    using s1 Put by (auto simp: posix_set_def posix_refines_def put_value_def)
next
  case Exit
  then show ?thesis using posix_exit_ok [OF a, of t] by auto
next
  case (Destroy k)
  then show ?thesis using posix_destroy_ok [OF a, of k t] l by auto
qed

interpretation posix_threads: thread_locals posix_exec_tls posix_tls_start p_holders posix_refines
proof
  show "posix_refines no_values posix_tls_start"
    by (auto simp: posix_refines_def posix_tls_start_def no_values_def placed_def posix_loc_def no_holders_def)
  show "posix_refines a s \<Longrightarrow> legal_tls t op a \<Longrightarrow>
      \<exists>s'. posix_exec_tls t op s = Inr (fst (spec_tls t op a), s') \<and> posix_refines (snd (spec_tls t op a)) s'"
    for a :: "'v tls_spec" and s t op by (rule posix_simulates)
  show "posix_refines a s \<Longrightarrow> \<exists>loc. placed (s_value a) loc (p_holders s)" for a :: "'v tls_spec" and s
    by (auto simp: posix_refines_def)
qed

section \<open>The registry keeps it\<close>

definition win_loc :: "'v win_tls \<Rightarrow> tl \<times> thread_id \<rightharpoonup> nat" where
  "win_loc s = (\<lambda>x. Option.bind (om_find (w_map s) (snd x)) (\<lambda>vs. om_find vs (fst x)))"

definition registry_wf :: "(thread_id, ThreadLocalValues) omap \<Rightarrow> bool" where
  "registry_wf m \<longleftrightarrow> om_wf m \<and> (\<forall>it \<in> set m. om_wf (snd it))"

definition win_refines :: "'v tls_spec \<Rightarrow> 'v win_tls \<Rightarrow> bool" where
  "win_refines a s \<longleftrightarrow>
     placed (s_value a) (win_loc s) (w_holders s) \<and> w_default s = s_default a \<and> registry_wf (w_map s) \<and>
     set (w_watched s) = fst ` set (w_map s) \<and> fst ` dom (s_value a) \<subseteq> dom (s_default a)"

definition win_tls_start :: "'v win_tls" where
  "win_tls_start = \<lparr> w_holders = no_holders, w_map = [], w_watched = [], w_default = Map.empty \<rparr>"

lemma registry_wf_set: "registry_wf m \<Longrightarrow> om_wf vs \<Longrightarrow> registry_wf (om_set t vs m)"
  using set_om_set [of t vs m] by (auto simp: registry_wf_def)

lemma registry_wf_find: "registry_wf m \<Longrightarrow> om_find m t = Some vs \<Longrightarrow> om_wf vs"
  using om_find_in_set [of m t vs] by (fastforce simp: registry_wf_def)

lemma om_find_filter: "om_find (filter (\<lambda>(k', v). k' \<noteq> k) m) k' = (if k' = k then None else om_find m k')"
  by (induction m) auto

lemma om_wf_filter: "om_wf m \<Longrightarrow> om_wf (filter P m)"
proof (induction m)
  case (Cons x m)
  then show ?case by (cases x) (auto simp: om_wf_Cons)
qed simp

lemma om_erase_simps [simp]:
  "om_find (om_erase k m) k' = (if k' = k then None else om_find m k')"
  "om_wf m \<Longrightarrow> om_wf (om_erase k m)" "fst ` set (om_erase k m) = fst ` set m - {k}"
  by (auto simp: om_erase_def om_find_filter om_wf_filter image_iff split: prod.splits)

text \<open>An entry for the thread with no values changes nothing.\<close>

lemma GetValueOnCurrentThread_ok:
  fixes t :: thread_id
  assumes a: "win_refines a s" and k: "s_default a k = Some d"
  defines "v \<equiv> (case s_value a (k, t) of None \<Rightarrow> d | Some v \<Rightarrow> v)"
  shows "\<exists>h s'. GetValueOnCurrentThread t k s = Inr (h, s') \<and> win_refines (put_value (k, t) (Some v) a) s' \<and>
    win_loc s' (k, t) = Some h \<and> held (w_holders s') h = Some v"
proof -
  define s1 where "s1 = (if om_find (w_map s) t = None
    then s\<lparr> w_map := om_set t [] (w_map s), w_watched := w_watched s @ [t] \<rparr> else s)"
  have loc: "win_loc s1 = win_loc s"
  proof
    fix x show "win_loc s1 x = win_loc s x"
      by (cases "snd x = t") (auto simp: win_loc_def s1_def)
  qed
  have same: "w_holders s1 = w_holders s" "w_default s1 = w_default s" by (simp_all add: s1_def)
  have wf: "registry_wf (w_map s1)" "set (w_watched s1) = fst ` set (w_map s1)"
    using a registry_wf_set [of "w_map s" "[]" t] by (auto simp: s1_def win_refines_def)
  obtain vs where vs: "om_find (w_map s1) t = Some vs"
    by (cases "om_find (w_map s) t") (auto simp: s1_def)
  have tin: "t \<in> fst ` set (w_map s1)" using om_find_in_set [OF vs] by force
  have ov: "om_wf vs" by (rule registry_wf_find [OF wf(1) vs])
  have p: "placed (s_value a) (win_loc s1) (w_holders s1)" using a loc same by (simp add: win_refines_def)
  have l: "win_loc s1 (k, t) = om_find vs k" using vs by (simp add: win_loc_def)
  have d: "w_default s k = Some d" using a k by (simp add: win_refines_def)
  have get: "GetValueOnCurrentThread t k s = (case om_find vs k of
      Some h \<Rightarrow> if held (w_holders s1) h = None then Inl dangling_holder else Inr (h, s1)
    | None \<Rightarrow> Inr (made (w_holders s1), s1\<lparr> w_holders := snd (MakeNewHolder d (w_holders s1)),
        w_map := om_set t (om_set k (made (w_holders s1)) vs) (w_map s1) \<rparr>))"
    unfolding GetValueOnCurrentThread_def Let_def s1_def [symmetric] d
    by (simp add: vs MakeNewHolder_def split: option.split)
  have dom: "fst ` dom (s_value (put_value (k, t) (Some v) a)) \<subseteq> dom (s_default a)"
    using a k by (auto simp: win_refines_def put_value_def split: if_splits)
  show ?thesis
  proof (cases "om_find vs k")
    case None
    let ?s = "s1\<lparr> w_holders := snd (MakeNewHolder d (w_holders s1)),
        w_map := om_set t (om_set k (made (w_holders s1)) vs) (w_map s1) \<rparr>"
    have v: "v = d" using placed_None [OF p, of "(k, t)"] l None by (simp add: v_def)
    have loc': "win_loc ?s = (win_loc s1)((k, t) \<mapsto> made (w_holders s1))"
    proof
      fix x show "win_loc ?s x = ((win_loc s1)((k, t) \<mapsto> made (w_holders s1))) x"
        using vs by (cases x) (auto simp: win_loc_def)
    qed
    have "placed ((s_value a)((k, t) \<mapsto> v)) (win_loc ?s) (w_holders ?s)"
      using placed_make [OF p, of "(k, t)" d] l None loc' v by simp
    then have "win_refines (put_value (k, t) (Some v) a) ?s"
      using a same wf dom ov vs registry_wf_set [OF wf(1) om_set_wf [OF ov], of t k "made (w_holders s1)"]
        insert_absorb [OF tin] by (simp add: win_refines_def put_value_def)
    then show ?thesis using get None loc' v by (auto simp: MakeNewHolder_def)
  next
    case (Some h)
    then have h: "held (w_holders s1) h \<noteq> None" "s_value a (k, t) = held (w_holders s1) h"
      using placed_held [OF p, of "(k, t)" h] l by simp_all
    then have v: "held (w_holders s1) h = Some v" by (auto simp: v_def)
    then have "put_value (k, t) (Some v) a = a" using h by (simp add: put_value_def fun_upd_idem)
    moreover have "win_refines a s1" using a p wf same by (simp add: win_refines_def)
    ultimately show ?thesis using get Some h v l by auto
  qed
qed

lemma take_holders_ok:
  assumes "registry_wf m"
  shows "fst (take_holders k m) = map (\<lambda>it. the (om_find (snd it) k)) (filter (\<lambda>it. om_find (snd it) k \<noteq> None) m)"
    "om_find (snd (take_holders k m)) t = map_option (om_erase k) (om_find m t)"
    "registry_wf (snd (take_holders k m))" "fst ` set (snd (take_holders k m)) = fst ` set m"
proof -
  have erase: "om_erase k vs = vs" if "om_find vs k = None" for vs :: ThreadLocalValues
    using that unfolding om_erase_def om_find_None by (intro filter_True) force
  show "fst (take_holders k m) = map (\<lambda>it. the (om_find (snd it) k)) (filter (\<lambda>it. om_find (snd it) k \<noteq> None) m)"
    by (induction m) (auto simp: Let_def split_def split: option.split)
  have m: "snd (take_holders k m) = map (\<lambda>it. (fst it, om_erase k (snd it))) m"
    by (induction m) (auto simp: Let_def split_def erase split: option.split)
  show "om_find (snd (take_holders k m)) t = map_option (om_erase k) (om_find m t)"
    unfolding m by (induction m) auto
  show "registry_wf (snd (take_holders k m))"
  proof -
    have "om_wf (map (\<lambda>it. (fst it, om_erase k (snd it))) m) = om_wf m" by (simp add: om_wf_def comp_def)
    then show ?thesis using assms unfolding m by (simp add: registry_wf_def)
  qed
  show "fst ` set (snd (take_holders k m)) = fst ` set m" unfolding m by force
qed

lemma win_value_default: "win_refines a s \<Longrightarrow> s_value a (k, t) = Some v \<Longrightarrow> \<exists>d. s_default a k = Some d"
  unfolding win_refines_def by (metis domI domD fst_conv image_subset_iff)

lemma win_destroy_ok:
  assumes a: "win_refines a s" and k: "s_default a k \<noteq> None"
  shows "\<exists>s'. win_destroy k s = Inr s' \<and>
    win_refines ((clear_values ({k} \<times> UNIV) a)\<lparr> s_default := (s_default a)(k := None) \<rparr>) s'"
proof -
  let ?m = "w_map s"
  have p: "placed (s_value a) (win_loc s) (w_holders s)" and wf: "registry_wf ?m"
    using a by (simp_all add: win_refines_def)
  note th = take_holders_ok [OF wf, of k]
  define xs where "xs = map (\<lambda>it. (k, fst it)) (filter (\<lambda>it. om_find (snd it) k \<noteq> None) ?m)"
  have om: "om_wf ?m" using wf by (simp add: registry_wf_def)
  have find: "om_find ?m (fst it) = Some (snd it)" if "it \<in> set ?m" for it
    using om_find_of_set [OF om, of "fst it" "snd it"] that by simp
  have "distinct (map fst ?m)" using om by (simp add: om_wf_def strict_sorted_iff)
  then have d: "distinct xs"
    unfolding xs_def by (auto simp: distinct_map inj_on_def distinct_filter)
  have l: "\<forall>x \<in> set xs. win_loc s x \<noteq> None" by (auto simp: xs_def win_loc_def find)
  have hold: "map (\<lambda>x. the (win_loc s x)) xs = fst (take_holders k ?m)"
    unfolding th(1) xs_def by (auto simp: win_loc_def find)
  have rest: "f |` (- set xs) = f |` (- ({k} \<times> UNIV))" if "\<And>x. win_loc s x = None \<Longrightarrow> f x = None" for f :: "tl \<times> thread_id \<rightharpoonup> 'z"
  proof
    fix x
    have "fst x = k \<Longrightarrow> x \<notin> set xs \<Longrightarrow> f x = None"
    proof (rule ccontr)
      assume x: "fst x = k" "x \<notin> set xs" and "f x \<noteq> None"
      then have "win_loc s x \<noteq> None" using that [of x] by argo
      then obtain vs where "om_find ?m (snd x) = Some vs" "om_find vs k \<noteq> None"
        using x(1) by (auto simp: win_loc_def bind_eq_Some_conv)
      then have "(snd x, vs) \<in> set (filter (\<lambda>it. om_find (snd it) k \<noteq> None) ?m)" by (simp add: om_find_in_set)
      then have "(\<lambda>it. (k, fst it)) (snd x, vs) \<in> set xs" unfolding xs_def set_map by (rule imageI)
      then show False using x by (metis fst_conv prod.collapse)
    qed
    moreover have "fst x = k" if "x \<in> set xs" using that by (auto simp: xs_def)
    ultimately show "(f |` (- set xs)) x = (f |` (- ({k} \<times> UNIV))) x"
      by (cases x) (auto simp: restrict_map_def)
  qed
  from placed_delete_all [OF p d l] obtain hs where hs: "delete_holders (fst (take_holders k ?m)) (w_holders s) = Inr hs"
    "placed (s_value a |` (- set xs)) (win_loc s |` (- set xs)) hs" unfolding hold by blast
  let ?s = "s\<lparr> w_map := snd (take_holders k ?m), w_holders := hs, w_default := (w_default s)(k := None) \<rparr>"
  have "win_loc ?s = win_loc s |` (- ({k} \<times> UNIV))"
  proof
    fix x show "win_loc ?s x = (win_loc s |` (- ({k} \<times> UNIV))) x"
      by (cases x; cases "om_find ?m (snd x)") (auto simp: win_loc_def th(2) restrict_map_def)
  qed
  moreover have "s_value a |` (- set xs) = s_value a |` (- ({k} \<times> UNIV))"
    by (rule rest) (use placed_None [OF p] in blast)
  moreover have "win_loc s |` (- set xs) = win_loc s |` (- ({k} \<times> UNIV))" by (rule rest)
  ultimately have "placed (s_value a |` (- ({k} \<times> UNIV))) (win_loc ?s) hs" using hs(2) by simp
  moreover have "fst ` dom (s_value a |` (- ({k} \<times> UNIV))) \<subseteq> dom ((s_default a)(k := None))"
    using win_value_default [OF a] by (auto simp: restrict_map_def split: if_splits)
  ultimately have "win_refines ((clear_values ({k} \<times> UNIV) a)\<lparr> s_default := (s_default a)(k := None) \<rparr>) ?s"
    using a th(3,4) by (simp add: win_refines_def clear_values_def)
  moreover have "win_destroy k s = Inr ?s"
    using a k hs(1) by (auto simp: win_destroy_def OnThreadLocalDestroyed_def split_def Let_def win_refines_def)
  ultimately show ?thesis by blast
qed

lemma win_exit_ok:
  assumes a: "win_refines a s" and t: "t \<noteq> 0"
  shows "\<exists>s'. win_exit t s = Inr s' \<and> win_refines (clear_values (UNIV \<times> {t}) a) s'"
proof -
  have p: "placed (s_value a) (win_loc s) (w_holders s)" and wf: "registry_wf (w_map s)"
    and watched: "set (w_watched s) = fst ` set (w_map s)" using a by (simp_all add: win_refines_def)
  show ?thesis
  proof (cases "om_find (w_map s) t")
    case None
    then have "t \<notin> set (w_watched s)" using watched by (simp add: om_find_None)
    moreover have "s_value a |` (- (UNIV \<times> {t})) = s_value a"
      by (rule placed_restrict [OF p]) (auto simp: win_loc_def None)
    ultimately show ?thesis using a by (simp add: win_exit_def clear_values_def)
  next
    case (Some vs)
    then have w: "t \<in> set (w_watched s)" using watched om_find_in_set [OF Some] by force
    define xs where "xs = map (\<lambda>v. (fst v, t)) vs"
    have ov: "om_wf vs" by (rule registry_wf_find [OF wf Some])
    have find: "om_find vs (fst v) = Some (snd v)" if "v \<in> set vs" for v
      using om_find_of_set [OF ov, of "fst v" "snd v"] that by simp
    have "distinct (map fst vs)" using ov by (simp add: om_wf_def strict_sorted_iff)
    then have d: "distinct xs" unfolding xs_def by (auto simp: distinct_map inj_on_def)
    have l: "\<forall>x \<in> set xs. win_loc s x \<noteq> None" by (auto simp: xs_def win_loc_def Some find)
    have hold: "map (\<lambda>x. the (win_loc s x)) xs = map snd vs"
      unfolding xs_def by (simp add: win_loc_def Some find)
    have loc: "win_loc s |` (- set xs) = win_loc s |` (- (UNIV \<times> {t}))"
    proof
      fix x show "(win_loc s |` (- set xs)) x = (win_loc s |` (- (UNIV \<times> {t}))) x"
      proof (cases "snd x = t \<and> x \<notin> set xs")
        case True
        then have "fst x \<notin> fst ` set vs" unfolding xs_def by (auto simp: image_iff prod_eq_iff)
        then show ?thesis using True Some by (simp add: win_loc_def restrict_map_def om_find_None)
      next
        case False
        then show ?thesis by (cases x) (auto simp: restrict_map_def xs_def)
      qed
    qed
    have val: "s_value a |` (- set xs) = s_value a |` (- (UNIV \<times> {t}))"
    proof
      fix x show "(s_value a |` (- set xs)) x = (s_value a |` (- (UNIV \<times> {t}))) x"
        using fun_cong [OF loc, of x] placed_None [OF p, of x]
        by (auto simp: restrict_map_def split: if_splits)
    qed
    from placed_delete_all [OF p d l] obtain hs where hs: "delete_holders (map snd vs) (w_holders s) = Inr hs"
      "placed (s_value a |` (- (UNIV \<times> {t}))) (win_loc s |` (- (UNIV \<times> {t}))) hs" unfolding hold loc val by blast
    let ?s = "s\<lparr> w_map := om_erase t (w_map s), w_holders := hs, w_watched := removeAll t (w_watched s) \<rparr>"
    have "win_loc ?s = win_loc s |` (- (UNIV \<times> {t}))"
    proof
      fix x show "win_loc ?s x = (win_loc s |` (- (UNIV \<times> {t}))) x"
        by (cases x) (simp add: win_loc_def restrict_map_def)
    qed
    moreover have "registry_wf (om_erase t (w_map s))"
      using wf by (auto simp: registry_wf_def om_erase_def om_wf_filter)
    moreover have "fst ` dom (s_value a |` (- (UNIV \<times> {t}))) \<subseteq> dom (s_default a)"
      using win_value_default [OF a] by (auto simp: restrict_map_def split: if_splits)
    ultimately have "win_refines (clear_values (UNIV \<times> {t}) a) ?s"
      using a hs(2) watched by (simp add: win_refines_def clear_values_def)
    moreover have "win_exit t s = Inr ?s"
      using w t Some hs(1) by (simp add: win_exit_def OnThreadExit_def)
    ultimately show ?thesis by blast
  qed
qed

lemma win_simulates:
  assumes a: "win_refines a s" and l: "legal_tls t op a"
  shows "\<exists>s'. win_exec_tls t op s = Inr (fst (spec_tls t op a), s') \<and> win_refines (snd (spec_tls t op a)) s'"
proof (cases op)
  case (Create k v)
  then show ?thesis using a win_value_default [OF a] by (auto simp: win_refines_def win_ThreadLocal_def win_loc_def)
next
  case (Get k)
  then obtain d where d: "s_default a k = Some d" using l by auto
  from GetValueOnCurrentThread_ok [OF a d, of t] show ?thesis
    using Get d by (auto simp: win_get_def read_holder_def Let_def split: option.splits)
next
  case (Put k v)
  then obtain d where d: "s_default a k = Some d" using l by auto
  from GetValueOnCurrentThread_ok [OF a d, of t] obtain h s1 u where s1: "GetValueOnCurrentThread t k s = Inr (h, s1)"
    "win_refines (put_value (k, t) (Some u) a) s1" "win_loc s1 (k, t) = Some h" by blast
  then have p: "placed ((s_value a)((k, t) \<mapsto> u)) (win_loc s1) (w_holders s1)"
    by (simp add: win_refines_def put_value_def)
  have "win_loc (s1\<lparr> w_holders := hs \<rparr>) = win_loc s1" for hs by (simp add: win_loc_def)
  with placed_write [OF p s1(3), of v] show ?thesis
    using s1 Put by (auto simp: win_set_def win_refines_def put_value_def split: if_splits)
next
  case Exit
  then show ?thesis using win_exit_ok [OF a, of t] l by auto
next
  case (Destroy k)
  then show ?thesis using win_destroy_ok [OF a, of k] l by auto
qed

interpretation win_threads: thread_locals win_exec_tls win_tls_start w_holders win_refines
proof
  show "win_refines no_values win_tls_start"
    by (auto simp: win_refines_def win_tls_start_def no_values_def placed_def win_loc_def no_holders_def
        registry_wf_def om_wf_def)
  show "win_refines a s \<Longrightarrow> legal_tls t op a \<Longrightarrow>
      \<exists>s'. win_exec_tls t op s = Inr (fst (spec_tls t op a), s') \<and> win_refines (snd (spec_tls t op a)) s'"
    for a :: "'v tls_spec" and s t op by (rule win_simulates)
  show "win_refines a s \<Longrightarrow> \<exists>loc. placed (s_value a) loc (w_holders s)" for a :: "'v tls_spec" and s
    by (auto simp: win_refines_def)
qed

section \<open>Properties\<close>

text \<open>C16: thread-local values are the same on both platforms: for every legal program, in any order of the
  operations of its threads, the keys of POSIX threads and the registry of Windows return exactly the
  values of the specification (the value a thread stored last in an instance, else the initial one), never
  touch a deleted holder, and delete each holder once; when all threads and instances are gone, every
  holder made has been deleted.\<close>

theorem thread_local_platforms_agree:
  assumes "legal_tls_run xs (no_values :: 'v tls_spec)"
    and "spec_tls_run xs (no_values :: 'v tls_spec) = (rs, a)"
  shows "\<exists>p w. tls_run posix_exec_tls xs posix_tls_start = Inr (rs, p) \<and>
    tls_run win_exec_tls xs win_tls_start = Inr (rs, w) \<and>
    (\<forall>hs \<in> {p_holders p, w_holders w}.
      distinct (freed hs) \<and> set (freed hs) \<inter> dom (held hs) = {} \<and>
      {..<made hs} = set (freed hs) \<union> dom (held hs) \<and>
      (a = no_values \<longrightarrow> set (freed hs) = {..<made hs}))"
proof -
  obtain p where p: "tls_run posix_exec_tls xs posix_tls_start = Inr (rs, p)"
    "distinct (freed (p_holders p))" "set (freed (p_holders p)) \<inter> dom (held (p_holders p)) = {}"
    "{..<made (p_holders p)} = set (freed (p_holders p)) \<union> dom (held (p_holders p))"
    "a = no_values \<longrightarrow> set (freed (p_holders p)) = {..<made (p_holders p)}"
    using posix_threads.run_from_start [OF assms(1)] unfolding assms(2) fst_conv snd_conv by blast
  obtain w where w: "tls_run win_exec_tls xs win_tls_start = Inr (rs, w)"
    "distinct (freed (w_holders w))" "set (freed (w_holders w)) \<inter> dom (held (w_holders w)) = {}"
    "{..<made (w_holders w)} = set (freed (w_holders w)) \<union> dom (held (w_holders w))"
    "a = no_values \<longrightarrow> set (freed (w_holders w)) = {..<made (w_holders w)}"
    using win_threads.run_from_start [OF assms(1)] unfolding assms(2) fst_conv snd_conv by blast
  have "distinct (freed hs) \<and> set (freed hs) \<inter> dom (held hs) = {} \<and>
      {..<made hs} = set (freed hs) \<union> dom (held hs) \<and> (a = no_values \<longrightarrow> set (freed hs) = {..<made hs})"
    if "hs \<in> {p_holders p, w_holders w}" for hs
  proof -
    from that consider "hs = p_holders p" | "hs = w_holders w" by blast
    then show ?thesis by cases (use p(2-5) w(2-5) in blast)+
  qed
  then show ?thesis using p(1) w(1) by blast
qed

definition sample_threads :: "(thread_id \<times> nat tls_op) list" where
  "sample_threads =
     [(1, Create 10 5), (2, Get 10), (2, Put 10 7), (1, Put 10 6), (2, Get 10), (2, Exit), (1, Get 10),
      (1, Destroy 10)]"

theorem thread_local_platforms_agree_witness:
  "\<exists>p w. tls_run posix_exec_tls sample_threads posix_tls_start =
      Inr ([None, Some 5, None, None, Some 7, None, Some 6, None], p) \<and>
    tls_run win_exec_tls sample_threads win_tls_start =
      Inr ([None, Some 5, None, None, Some 7, None, Some 6, None], w) \<and>
    set (freed (p_holders p)) = {..<made (p_holders p)} \<and> set (freed (w_holders w)) = {..<made (w_holders w)}"
proof -
  note defs = sample_threads_def no_values_def put_value_def clear_values_def restrict_map_def Let_def
  have l: "legal_tls_run sample_threads no_values" by (simp add: defs)
  have f: "fst (spec_tls_run sample_threads no_values) = [None, Some 5, None, None, Some 7, None, Some 6, None]"
    by (simp add: defs)
  have g: "snd (spec_tls_run sample_threads no_values) = no_values"
    by (simp add: defs fun_eq_iff)
  have "spec_tls_run sample_threads no_values =
      ([None, Some 5, None, None, Some 7, None, Some 6, None], no_values)"
    by (rule prod_eqI) (simp_all only: f g fst_conv snd_conv)
  from thread_local_platforms_agree [OF l this] obtain p where
    "\<exists>w. tls_run posix_exec_tls sample_threads posix_tls_start =
      Inr ([None, Some 5, None, None, Some 7, None, Some 6, None], p) \<and>
    tls_run win_exec_tls sample_threads win_tls_start =
      Inr ([None, Some 5, None, None, Some 7, None, Some 6, None], w) \<and>
    (\<forall>hs \<in> {p_holders p, w_holders w}. distinct (freed hs) \<and> set (freed hs) \<inter> dom (held hs) = {} \<and>
      {..<made hs} = set (freed hs) \<union> dom (held hs) \<and>
      ((no_values :: nat tls_spec) = no_values \<longrightarrow> set (freed hs) = {..<made hs}))" ..
  then obtain w where pw: "tls_run posix_exec_tls sample_threads posix_tls_start =
      Inr ([None, Some 5, None, None, Some 7, None, Some 6, None], p) \<and>
    tls_run win_exec_tls sample_threads win_tls_start =
      Inr ([None, Some 5, None, None, Some 7, None, Some 6, None], w) \<and>
    (\<forall>hs \<in> {p_holders p, w_holders w}. distinct (freed hs) \<and> set (freed hs) \<inter> dom (held hs) = {} \<and>
      {..<made hs} = set (freed hs) \<union> dom (held hs) \<and>
      ((no_values :: nat tls_spec) = no_values \<longrightarrow> set (freed hs) = {..<made hs}))" ..
  then have hs: "\<forall>hs \<in> {p_holders p, w_holders w}. set (freed hs) = {..<made hs}" by blast
  have "set (freed (p_holders p)) = {..<made (p_holders p)}" by (rule bspec [OF hs]) simp
  moreover have "set (freed (w_holders w)) = {..<made (w_holders w)}" by (rule bspec [OF hs]) simp
  ultimately show ?thesis using pw by (intro exI conjI) (erule conjunct1, (erule conjunct1 [OF conjunct2])+)
qed

end
