(* ===== verification/Gtest_Thread.thy ===== *)
theory Gtest_Thread
  imports Prelude
begin

text \<open>
  \<open>Notification\<close> and \<open>ThreadWithParam\<close> on POSIX threads, and the two owners of a single resource,
  \<open>scoped_ptr\<close> and \<open>AutoHandle\<close> (\<open>include/gtest/internal/gtest-port.h\<close>, \<open>src/gtest-port.cc\<close>).
\<close>

section \<open>Threads that wait for a notification\<close>

text \<open>Where the new thread is: before \<open>pthread_create\<close>, at the look at \<open>notified_\<close>, asleep, at the call of
  the function, at its end.\<close>

datatype thread_pc = Not_created | Looking | Sleeping | Calling | Returned_from

text \<open>\<open>called\<close> collects the parameters of the calls of \<open>func_\<close>, \<open>pthread_joins\<close> counts the calls of
  \<open>pthread_join\<close>, of which a second one for a thread is undefined.\<close>

record 'p thread_state =
  param :: 'p
  waits :: bool
  notified :: bool
  thread_at :: thread_pc
  called :: "'p list"
  finished :: bool
  pthread_joins :: nat

datatype thread_event = Construct_thread | Notify | Join | Thread_step

definition WaitForNotification_look :: "'p thread_state \<Rightarrow> thread_pc" where
  "WaitForNotification_look s = (if notified s then Calling else Sleeping)"

text \<open>One step of the controller or of the thread; \<open>None\<close> when it is not possible.\<close>

fun thread_act :: "thread_event \<Rightarrow> 'p thread_state \<Rightarrow> 'p thread_state option" where
  "thread_act Construct_thread s =
     (if thread_at s = Not_created then Some (s\<lparr> thread_at := (if waits s then Looking else Calling) \<rparr>) else None)"
| "thread_act Notify s = Some (s\<lparr> notified := True \<rparr>)"
| "thread_act Join s =
     (if thread_at s = Not_created then None
      else if \<not> finished s then
        (if thread_at s = Returned_from then Some (s\<lparr> finished := True, pthread_joins := pthread_joins s + 1 \<rparr>)
         else None)
      else Some s)"
| "thread_act Thread_step s =
     (case thread_at s of
        Looking \<Rightarrow> Some (s\<lparr> thread_at := WaitForNotification_look s \<rparr>)
      | Sleeping \<Rightarrow> Some (s\<lparr> thread_at := Looking \<rparr>)
      | Calling \<Rightarrow> Some (s\<lparr> called := called s @ [param s], thread_at := Returned_from \<rparr>)
      | _ \<Rightarrow> None)"

definition new_thread :: "'p \<Rightarrow> bool \<Rightarrow> 'p thread_state" where
  "new_thread p with_notification =
     \<lparr> param = p, waits = with_notification, notified = False, thread_at = Not_created, called = [],
       finished = False, pthread_joins = 0 \<rparr>"

inductive thread_reach :: "'p thread_state \<Rightarrow> 'p thread_state \<Rightarrow> bool" for s0 :: "'p thread_state" where
  start: "thread_reach s0 s0"
| act: "thread_reach s0 s \<Longrightarrow> thread_act e s = Some s' \<Longrightarrow> thread_reach s0 s'"

definition thread_ok :: "'p thread_state \<Rightarrow> bool" where
  "thread_ok s \<longleftrightarrow>
     called s = (if thread_at s = Returned_from then [param s] else []) \<and>
     (thread_at s \<in> {Calling, Returned_from} \<and> waits s \<longrightarrow> notified s) \<and>
     (finished s \<longrightarrow> thread_at s = Returned_from) \<and> pthread_joins s = (if finished s then 1 else 0)"

lemma thread_ok_act: "thread_ok s \<Longrightarrow> thread_act e s = Some s' \<Longrightarrow> thread_ok s' \<and> param s' = param s \<and> waits s' = waits s"
  by (cases e) (auto simp: thread_ok_def WaitForNotification_look_def split: if_splits thread_pc.splits)

lemma thread_reach_ok:
  assumes "thread_reach (new_thread p n) s"
  shows "thread_ok s \<and> param s = p \<and> waits s = n"
  using assms
proof induction
  case start
  show ?case by (simp add: thread_ok_def new_thread_def)
next
  case (act s e s')
  then show ?case using thread_ok_act by fastforce
qed

text \<open>The function is called once, after the notification, with its parameter; once \<open>Join\<close> has returned
  it has been called, and the thread is joined once however often \<open>Join\<close> is called.\<close>

lemma thread_calls_once:
  assumes "thread_reach (new_thread p n) s"
  shows "called s \<in> {[], [p]}" "called s \<noteq> [] \<Longrightarrow> n \<Longrightarrow> notified s" "finished s \<Longrightarrow> called s = [p]"
    "pthread_joins s \<le> 1"
  using thread_reach_ok [OF assms] by (auto simp: thread_ok_def split: if_splits)

primrec thread_acts :: "thread_event list \<Rightarrow> 'p thread_state \<Rightarrow> 'p thread_state option" where
  "thread_acts [] s = Some s"
| "thread_acts (e # es) s = (case thread_act e s of None \<Rightarrow> None | Some s' \<Rightarrow> thread_acts es s')"

text \<open>Three steps of a thread that has been notified end it, wherever it is, and then \<open>Join\<close> returns.\<close>

lemma notified_thread_ends:
  assumes "thread_at s \<noteq> Not_created" and "notified s"
  shows "\<exists>n \<le> 3. \<exists>s'. thread_acts (replicate n Thread_step @ [Join]) s = Some s' \<and> finished s'"
proof (cases "thread_at s")
  case Looking
  then show ?thesis using assms(2)
    by (intro exI [of _ 2]) (simp add: numeral_2_eq_2 WaitForNotification_look_def)
next
  case Sleeping
  then show ?thesis using assms(2)
    by (intro exI [of _ 3]) (simp add: numeral_3_eq_3 WaitForNotification_look_def)
next
  case Calling
  then show ?thesis by (intro exI [of _ 1]) simp
next
  case Returned_from
  then show ?thesis by (intro exI [of _ 0]) simp
qed (use assms in simp)

section \<open>Owners of one resource\<close>

text \<open>An owner has the resource it owns, 0 for a null pointer, and what it has released.\<close>

record owner_state =
  resource :: nat
  released :: "nat list"

definition release_resource :: "owner_state \<Rightarrow> owner_state" where
  "release_resource s = s\<lparr> released := released s @ [resource s] \<rparr>"

text \<open>\<open>delete\<close> of a null pointer does nothing.\<close>

definition scoped_ptr_reset :: "nat \<Rightarrow> owner_state \<Rightarrow> owner_state result" where
  "scoped_ptr_reset p s =
     Inr (if p \<noteq> resource s then (if resource s \<noteq> 0 then release_resource s else s)\<lparr> resource := p \<rparr> else s)"

definition scoped_ptr_release :: "owner_state \<Rightarrow> nat \<times> owner_state" where
  "scoped_ptr_release s = (resource s, s\<lparr> resource := 0 \<rparr>)"

text \<open>\<open>AutoHandle\<close>: Windows uses two values for an invalid handle.\<close>

definition INVALID_HANDLE_VALUE :: nat where
  "INVALID_HANDLE_VALUE = 2 ^ 64 - 1"

definition IsCloseable :: "owner_state \<Rightarrow> bool" where
  "IsCloseable s \<longleftrightarrow> resource s \<noteq> 0 \<and> resource s \<noteq> INVALID_HANDLE_VALUE"

definition AutoHandle_Reset :: "nat \<Rightarrow> owner_state \<Rightarrow> owner_state result" where
  "AutoHandle_Reset h s =
     (if resource s \<noteq> h then Inr ((if IsCloseable s then release_resource s else s)\<lparr> resource := h \<rparr>)
      else if IsCloseable s then
        Inl (Runtime_error (''Condition !IsCloseable() failed. Resetting a valid handle to itself is likely '' @
          ''a programmer error and thus not allowed.''))
      else Inr s)"

text \<open>The contract of an owner: a new resource takes the place of the old one, which is released if it is
  one; \<open>none\<close> is what the destructor resets to.\<close>

locale resource_owner =
  fixes reset :: "nat \<Rightarrow> owner_state \<Rightarrow> owner_state result" and valid :: "nat \<Rightarrow> bool" and none :: nat
  assumes none: "\<not> valid none"
    and reset_new: "r \<noteq> resource s \<Longrightarrow>
      reset r s = Inr (\<lparr> resource = r, released = released s @ filter valid [resource s] \<rparr>)"
    and reset_none: "resource s = none \<Longrightarrow> reset none s = Inr s"
begin

text \<open>An owner that is reset to distinct resources and then destroyed has released each of them once, in
  order.\<close>

lemma resets_release_all:
  assumes "distinct (resource s # rs)" and "\<forall>r \<in> set rs. valid r"
  shows "\<exists>s'. foldl (\<lambda>r p. bind_result r (reset p)) (Inr s) (rs @ [none]) = Inr s' \<and> resource s' = none \<and>
    released s' = released s @ filter valid [resource s] @ rs"
  using assms
proof (induction rs arbitrary: s)
  case Nil
  then show ?case using none by (cases "resource s = none") (auto simp: reset_none reset_new)
next
  case (Cons r rs)
  let ?s = "\<lparr> resource = r, released = released s @ filter valid [resource s] \<rparr>"
  have "\<exists>s'. foldl (\<lambda>r p. bind_result r (reset p)) (Inr ?s) (rs @ [none]) = Inr s' \<and> resource s' = none \<and>
      released s' = released ?s @ filter valid [resource ?s] @ rs"
    by (rule Cons.IH) (use Cons.prems in auto)
  then show ?case using Cons.prems reset_new [of r s] by simp
qed

end

interpretation scoped_ptr_owner: resource_owner scoped_ptr_reset "\<lambda>r. r \<noteq> 0" 0
  by unfold_locales (simp_all add: scoped_ptr_reset_def release_resource_def)

interpretation handle_owner: resource_owner AutoHandle_Reset
    "\<lambda>r. r \<noteq> 0 \<and> r \<noteq> INVALID_HANDLE_VALUE" INVALID_HANDLE_VALUE
  by unfold_locales (simp_all add: AutoHandle_Reset_def IsCloseable_def release_resource_def)

text \<open>Resetting a pointer to itself is ignored, a handle to itself aborts; a released pointer is not
  deleted.\<close>

lemma reset_to_itself:
  "scoped_ptr_reset (resource s) s = Inr s"
  "IsCloseable s \<Longrightarrow> \<exists>e. AutoHandle_Reset (resource s) s = Inl (Runtime_error e)"
  by (simp_all add: scoped_ptr_reset_def AutoHandle_Reset_def)

lemma released_pointer_survives:
  "scoped_ptr_release s = (p, s') \<Longrightarrow> \<exists>s''. scoped_ptr_reset 0 s' = Inr s'' \<and> released s'' = released s"
  by (auto simp: scoped_ptr_release_def scoped_ptr_reset_def)

end
