(* ===== verification/Gtest_PosixRE.thy ===== *)
theory Gtest_PosixRE
  imports Prelude
begin

text \<open>
  \<open>RE\<close> over the regular expressions of the C library (\<open>src/gtest-port.cc\<close>, the implementation used where
  \<open>regex.h\<close> exists).  \<open>regcomp\<close> and \<open>regexec\<close> are arguments: what a pattern compiles to, if it does, and
  whether a compiled pattern matches.  The state counts the compiled patterns that have not been freed;
  using or freeing a pattern that was not compiled is undefined behaviour.
\<close>

record 'r RE =
  re_pattern :: string
  is_valid :: bool
  full_regex :: "'r option"
  partial_regex :: "'r option"

definition c_string :: "string \<Rightarrow> string" where
  "c_string s = takeWhile (\<lambda>c. c \<noteq> CHR 0x00) s"

text \<open>\<open>snprintf\<close> into a buffer of the given size: what does not fit, with the terminator, is cut off.\<close>

definition snprintf_full :: "nat \<Rightarrow> string \<Rightarrow> string" where
  "snprintf_full len regex = take (len - 1) (''^('' @ regex @ '')$'')"

definition full_pattern :: "string \<Rightarrow> string" where
  "full_pattern regex = snprintf_full (length regex + 10) regex"

definition invalid_regex :: "string \<Rightarrow> string" where
  "invalid_regex regex = ''Regular expression \"'' @ regex @ ''\" is not a valid POSIX Extended regular expression.''"

text \<open>\<open>Init\<close>: the messages of the failed expectation, the object, and the patterns compiled.\<close>

definition Init :: "(string \<Rightarrow> 'r option) \<Rightarrow> string \<Rightarrow> nat \<Rightarrow> string list \<times> 'r RE \<times> nat" where
  "Init regcomp text live =
     (let regex = c_string text;
          full = regcomp (full_pattern regex);
          valid = full \<noteq> None;
          partial_text = (if regex = [] then ''()'' else regex);
          part = (if valid then regcomp partial_text else None);
          valid' = (valid \<and> part \<noteq> None)
      in (if valid' then [] else [invalid_regex regex],
          \<lparr> re_pattern = regex, is_valid = valid', full_regex = full, partial_regex = part \<rparr>,
          live + (if full = None then 0 else 1) + (if part = None then 0 else 1)))"

definition regfree :: "'r option \<Rightarrow> nat \<Rightarrow> nat result" where
  "regfree r live = (if r = None then Inl (Undefined_behaviour ''regfree of an invalid regex'') else Inr (live - 1))"

definition RE_destroy :: "'r RE \<Rightarrow> nat \<Rightarrow> nat result" where
  "RE_destroy re live =
     (if is_valid re then bind_result (regfree (partial_regex re) live) (regfree (full_regex re)) else Inr live)"

definition regexec_of :: "('r \<Rightarrow> string \<Rightarrow> bool) \<Rightarrow> 'r option \<Rightarrow> string \<Rightarrow> bool result" where
  "regexec_of regexec r str =
     (case r of None \<Rightarrow> Inl (Undefined_behaviour ''regexec of an invalid regex'') | Some r \<Rightarrow> Inr (regexec r (c_string str)))"

definition FullMatch :: "('r \<Rightarrow> string \<Rightarrow> bool) \<Rightarrow> string \<Rightarrow> 'r RE \<Rightarrow> bool result" where
  "FullMatch regexec str re = (if \<not> is_valid re then Inr False else regexec_of regexec (full_regex re) str)"

definition PartialMatch :: "('r \<Rightarrow> string \<Rightarrow> bool) \<Rightarrow> string \<Rightarrow> 'r RE \<Rightarrow> bool result" where
  "PartialMatch regexec str re = (if \<not> is_valid re then Inr False else regexec_of regexec (partial_regex re) str)"

definition RE_copy :: "(string \<Rightarrow> 'r option) \<Rightarrow> 'r RE \<Rightarrow> nat \<Rightarrow> string list \<times> 'r RE \<times> nat" where
  "RE_copy regcomp other = Init regcomp (re_pattern other)"

section \<open>What holds of an object\<close>

lemma full_pattern_fits: "full_pattern regex = ''^('' @ regex @ '')$''"
  by (simp add: full_pattern_def snprintf_full_def)

lemma c_string_idem [simp]: "c_string (c_string s) = c_string s"
  by (simp add: c_string_def takeWhile_idem)

text \<open>A valid object has both patterns; a copy of an object is the same object.\<close>

lemma Init_valid:
  "Init regcomp text live = (ms, re, live') \<Longrightarrow> is_valid re \<Longrightarrow>
     full_regex re = regcomp (''^('' @ c_string text @ '')$'') \<and> full_regex re \<noteq> None \<and> partial_regex re \<noteq> None \<and>
     partial_regex re = regcomp (if c_string text = [] then ''()'' else c_string text) \<and> ms = []"
  by (auto simp: Init_def Let_def full_pattern_fits split: if_splits)

lemma RE_copy_same:
  "Init regcomp text live = (ms, re, live') \<Longrightarrow> \<exists>n. RE_copy regcomp re live' = (ms, re, n)"
  by (auto simp: Init_def RE_copy_def Let_def)

text \<open>Matching never uses a pattern that was not compiled, and an invalid object matches nothing.\<close>

lemma matching_defined:
  assumes "Init regcomp text live = (ms, re, live')"
  shows "\<exists>b. FullMatch regexec str re = Inr b \<and> (b \<longrightarrow> is_valid re)"
    "\<exists>b. PartialMatch regexec str re = Inr b \<and> (b \<longrightarrow> is_valid re)"
proof -
  have v: "\<exists>r r'. full_regex re = Some r \<and> partial_regex re = Some r'" if "is_valid re"
    using Init_valid [OF assms that] by blast
  then show "\<exists>b. FullMatch regexec str re = Inr b \<and> (b \<longrightarrow> is_valid re)"
    by (cases "is_valid re") (auto simp: FullMatch_def regexec_of_def)
  show "\<exists>b. PartialMatch regexec str re = Inr b \<and> (b \<longrightarrow> is_valid re)"
    using v by (cases "is_valid re") (auto simp: PartialMatch_def regexec_of_def)
qed

text \<open>The life of an object is defined and frees what it compiled, except that it loses the full pattern
  when that compiles although the pattern itself does not.\<close>

lemma life_of_RE:
  assumes "Init regcomp text live = (ms, re, live')"
  shows "RE_destroy re live' =
    Inr (live + (if regcomp (full_pattern (c_string text)) \<noteq> None \<and>
                    regcomp (if c_string text = [] then ''()'' else c_string text) = None then 1 else 0))"
  using assms by (auto simp: Init_def RE_destroy_def regfree_def Let_def)

text \<open>The test of parentheses that \<open>regcomp\<close> makes: the pattern \<open>a)(b\<close> compiles only inside of a group.\<close>

primrec balanced :: "nat \<Rightarrow> string \<Rightarrow> bool" where
  "balanced n [] \<longleftrightarrow> n = 0"
| "balanced n (c # s) \<longleftrightarrow>
     (if c = CHR ''('' then balanced (n + 1) s
      else if c = CHR '')'' then n > 0 \<and> balanced (n - 1) s
      else balanced n s)"

lemma unbalanced_regex_leaks:
  "(case Init (\<lambda>p. if balanced 0 p then Some p else None) ''a)(b'' 0 of
      (ms, re, live) \<Rightarrow> ms = [invalid_regex ''a)(b''] \<and> live = 1 \<and> RE_destroy re live = Inr 1)"
  by code_simp

end
