(* ===== verification/Gtest_DeathWindows.thy ===== *)
theory Gtest_DeathWindows
  imports Gtest_DeathRun
begin

text \<open>
  \<open>WindowsDeathTest\<close> (\<open>src/gtest-death-test.cc\<close>): the flag with the handles of the pipe and the event that
  the parent gives to the child, how the child takes them over (\<open>GetStatusFileDescriptor\<close>), and how the
  parent waits (\<open>Wait\<close>).  Two processes run side by side: a step is one call of one of them, with what
  Windows answers to it where it may refuse.  \<open>handle_lost\<close> records that a handle was duplicated after
  the parent had closed it, \<open>sent\<close> what was ever written to the pipe.
\<close>

type_synonym process_id = "32 word"

section \<open>The internal flag\<close>

text \<open>\<open>ParseNaturalNumber\<close> for an unsigned type.\<close>

definition ParseNaturalNumber_unsigned :: "string \<Rightarrow> 'w::len word option" where
  "ParseNaturalNumber_unsigned str =
     (if str = [] \<or> \<not> is_digit (hd str) then None
      else
        let t = c_text str;
            n = dec_value (takeWhile is_digit t);
            parsed = (if 2 ^ 64 \<le> n then - 1 else of_nat n :: 64 word);
            parse_success = (dropWhile is_digit t = [] \<and> n < 2 ^ 64);
            result = (ucast parsed :: 'w word) in
        if parse_success \<and> ucast result = parsed then Some result else None)"

definition windows_flag_value :: "string \<Rightarrow> c_int \<Rightarrow> int \<Rightarrow> process_id \<Rightarrow> size_t \<Rightarrow> size_t \<Rightarrow> string" where
  "windows_flag_value file line death_test_index pid write_handle event_handle =
     file @ ''|'' @ StreamableToString (int_string (sint line)) @ ''|'' @
     StreamableToString (int_string death_test_index) @ ''|'' @
     StreamableToString (int_string (uint pid)) @
     ''|'' @ StreamableToString (int_string (uint write_handle)) @
     ''|'' @ StreamableToString (int_string (uint event_handle))"

text \<open>The arguments are those of this process, the filter for the test and the flag.\<close>

definition windows_command_line :: "string \<Rightarrow> TestInfo \<Rightarrow> string \<Rightarrow> string" where
  "windows_command_line own info value =
     own @ '' '' @ exec_filter_flag info @ '' '' @ [CHR 0x22] @
     ''--'' @ GTEST_FLAG_PREFIX @ kInternalRunDeathTestFlag @ ''='' @ value @ [CHR 0x22]"

record windows_fields =
  wf_file :: string
  wf_line :: c_int
  wf_index :: c_int
  wf_parent :: process_id
  wf_write :: size_t
  wf_event :: size_t

definition windows_flag_fields :: "string \<Rightarrow> windows_fields option" where
  "windows_flag_fields flag =
     (case SplitString (c_text flag) CHR ''|'' of
        [file, f1, f2, f3, f4, f5] \<Rightarrow>
          (case (ParseNaturalNumber f1, ParseNaturalNumber f2, ParseNaturalNumber_unsigned f3,
                 ParseNaturalNumber_unsigned f4, ParseNaturalNumber_unsigned f5) of
             (Some line, Some idx, Some parent, Some write, Some event) \<Rightarrow>
               Some \<lparr> wf_file = file, wf_line = line, wf_index = idx, wf_parent = parent,
                      wf_write = write, wf_event = event \<rparr>
           | _ \<Rightarrow> None)
      | _ \<Rightarrow> None)"

section \<open>The two processes\<close>

datatype child_pc =
    C_parse
  | C_open_parent windows_fields
  | C_dup_write bool windows_fields
  | C_dup_event windows_fields
  | C_open_fd windows_fields
  | C_signal
  | C_runs
  | C_exits c_int
  | C_ended c_int

datatype parent_pc =
    P_wait
  | P_release_write
  | P_release_event
  | P_read
  | P_internal_error string
  | P_join DeathTestOutcome
  | P_exit_code DeathTestOutcome
  | P_done DeathTestOutcome c_int
  | P_fatal string
  | P_unexpected char
  | P_check_fails

text \<open>The handles that are open in the parent; the number of handles of the child to the write end of
  the pipe, among them the one it inherits.\<close>

record windows_world =
  write_handle :: size_t
  event_handle :: size_t
  parent_open :: "size_t set"
  child_flag :: string
  child_writers :: nat
  event_set :: bool
  pipe :: string
  sent :: string
  handle_lost :: bool
  child_says :: string
  parent_at :: parent_pc
  child_at :: child_pc

text \<open>After \<open>AssumeRole\<close> has created the child.\<close>

definition windows_start :: "string \<Rightarrow> size_t \<Rightarrow> size_t \<Rightarrow> windows_world" where
  "windows_start flag wh eh =
     \<lparr> write_handle = wh, event_handle = eh, parent_open = {wh, eh}, child_flag = flag, child_writers = 1,
       event_set = False, pipe = [], sent = [], handle_lost = False, child_says = [], parent_at = P_wait,
       child_at = C_parse \<rparr>"

section \<open>The child\<close>

text \<open>What the child meets: its call succeeds or is refused, it dies, its statement ends the process, or
  it reports to the parent.\<close>

datatype child_event =
    Proceeds
  | Refused
  | Dies c_int
  | Reports AbortReason
  | Reports_internal string

text \<open>The end of a process closes its handles; \<open>abort\<close> ends with code 3.\<close>

definition child_end :: "c_int \<Rightarrow> windows_world \<Rightarrow> windows_world" where
  "child_end n w = w\<lparr> child_at := C_ended n, child_writers := 0 \<rparr>"

definition child_abort :: "string \<Rightarrow> windows_world \<Rightarrow> windows_world" where
  "child_abort msg w = child_end 3 (w\<lparr> child_says := child_says w @ msg \<rparr>)"

definition write_pipe :: "string \<Rightarrow> windows_world \<Rightarrow> windows_world" where
  "write_pipe s w = w\<lparr> pipe := pipe w @ s, sent := sent w @ s \<rparr>"

definition pipe_handle_message :: "windows_fields \<Rightarrow> string" where
  "pipe_handle_message f =
     ''Unable to duplicate the pipe handle '' @ StreamableToString (int_string (uint (wf_write f))) @
     '' from the parent process '' @ StreamableToString (int_string (uint (wf_parent f)))"

definition event_handle_message :: "windows_fields \<Rightarrow> string" where
  "event_handle_message f =
     ''Unable to duplicate the event handle '' @ StreamableToString (int_string (uint (wf_event f))) @
     '' from the parent process '' @ StreamableToString (int_string (uint (wf_parent f)))"

definition descriptor_message :: "windows_fields \<Rightarrow> string" where
  "descriptor_message f =
     ''Unable to convert pipe handle '' @ StreamableToString (int_string (uint (wf_write f))) @
     '' to a file descriptor''"

text \<open>\<open>OpenProcess\<close> answers a refusal with a null handle, which the check for
  \<open>INVALID_HANDLE_VALUE\<close> lets pass; \<open>DuplicateHandle\<close> then fails.\<close>

definition GetStatusFileDescriptor_act :: "bool \<Rightarrow> child_pc \<Rightarrow> windows_world \<Rightarrow> windows_world" where
  "GetStatusFileDescriptor_act granted pc w =
     (case pc of
        C_open_parent f \<Rightarrow> w\<lparr> child_at := C_dup_write granted f \<rparr>
      | C_dup_write opened f \<Rightarrow>
          if granted \<and> opened \<and> wf_write f \<in> parent_open w then
            w\<lparr> child_writers := child_writers w + 1, child_at := C_dup_event f \<rparr>
          else child_abort (pipe_handle_message f)
            (w\<lparr> handle_lost := (handle_lost w \<or> opened \<and> wf_write f \<notin> parent_open w) \<rparr>)
      | C_dup_event f \<Rightarrow>
          if granted \<and> wf_event f \<in> parent_open w then w\<lparr> child_at := C_open_fd f \<rparr>
          else child_abort (event_handle_message f)
            (w\<lparr> handle_lost := (handle_lost w \<or> wf_event f \<notin> parent_open w) \<rparr>)
      | C_open_fd f \<Rightarrow>
          if granted then w\<lparr> child_at := C_signal \<rparr> else child_abort (descriptor_message f) w
      | C_signal \<Rightarrow> w\<lparr> event_set := True, child_at := C_runs \<rparr>
      | _ \<Rightarrow> w)"

definition child_act :: "child_event \<Rightarrow> windows_world \<Rightarrow> windows_world option" where
  "child_act e w =
     (case child_at w of
        C_ended n \<Rightarrow> None
      | pc \<Rightarrow>
          (case e of
             Dies n \<Rightarrow> Some (child_end n w)
           | Proceeds \<Rightarrow>
               (case pc of
                  C_parse \<Rightarrow>
                    (case windows_flag_fields (child_flag w) of
                       None \<Rightarrow> Some (child_abort (''Bad --gtest_internal_run_death_test flag: '' @ child_flag w) w)
                     | Some f \<Rightarrow> Some (w\<lparr> child_at := C_open_parent f \<rparr>))
                | C_runs \<Rightarrow> None
                | C_exits n \<Rightarrow> Some (child_end n w)
                | _ \<Rightarrow> Some (GetStatusFileDescriptor_act True pc w))
           | Refused \<Rightarrow>
               (if pc \<in> {C_parse, C_signal, C_runs} \<or> (\<exists>n. pc = C_exits n) then None
                else Some (GetStatusFileDescriptor_act False pc w))
           | Reports reason \<Rightarrow>
               (if pc = C_runs then Some ((write_pipe [status_ch reason] w)\<lparr> child_at := C_exits 1 \<rparr>) else None)
           | Reports_internal msg \<Rightarrow>
               (if pc = C_runs then
                  Some ((write_pipe (kDeathTestInternalError # c_text msg) w)\<lparr> child_at := C_exits 1 \<rparr>)
                else None)))"

section \<open>The parent\<close>

text \<open>A read of the pipe blocks while there is a handle to its write end and nothing to read.\<close>

definition writers :: "windows_world \<Rightarrow> nat" where
  "writers w = child_writers w + (if write_handle w \<in> parent_open w then 1 else 0)"

definition child_has_ended :: "windows_world \<Rightarrow> bool" where
  "child_has_ended w = (case child_at w of C_ended n \<Rightarrow> True | _ \<Rightarrow> False)"

text \<open>Where \<open>ReadAndInterpretStatusByte\<close> goes on with the byte.\<close>

definition status_pc :: "char \<Rightarrow> parent_pc" where
  "status_pc flag =
     (if flag = kDeathTestReturned then P_join RETURNED
      else if flag = kDeathTestThrew then P_join THREW
      else if flag = kDeathTestLived then P_join LIVED
      else if flag = kDeathTestInternalError then P_internal_error []
      else P_unexpected flag)"

definition check_parent :: "bool \<Rightarrow> windows_world \<Rightarrow> windows_world option \<Rightarrow> windows_world option" where
  "check_parent refused w next = (if refused then Some (w\<lparr> parent_at := P_check_fails, parent_open := {} \<rparr>) else next)"

definition parent_act :: "bool \<Rightarrow> windows_world \<Rightarrow> windows_world option" where
  "parent_act refused w =
     (case parent_at w of
        P_wait \<Rightarrow>
          check_parent refused w
            (if child_has_ended w \<or> event_set w then Some (w\<lparr> parent_at := P_release_write \<rparr>) else None)
      | P_release_write \<Rightarrow>
          Some (w\<lparr> parent_open := parent_open w - {write_handle w}, parent_at := P_release_event \<rparr>)
      | P_release_event \<Rightarrow>
          Some (w\<lparr> parent_open := parent_open w - {event_handle w}, parent_at := P_read \<rparr>)
      | P_read \<Rightarrow>
          (case pipe w of
             flag # rest \<Rightarrow> Some (w\<lparr> pipe := rest, parent_at := status_pc flag \<rparr>)
           | [] \<Rightarrow> if writers w = 0 then Some (w\<lparr> parent_at := P_join DIED \<rparr>) else None)
      | P_internal_error error \<Rightarrow>
          (if pipe w \<noteq> [] then
             Some (w\<lparr> pipe := drop 255 (pipe w), parent_at := P_internal_error (error @ take 255 (pipe w)) \<rparr>)
           else if writers w = 0 then Some (w\<lparr> parent_at := P_fatal error \<rparr>) else None)
      | P_join outcome \<Rightarrow>
          check_parent refused w
            (if child_has_ended w then Some (w\<lparr> parent_at := P_exit_code outcome \<rparr>) else None)
      | P_exit_code outcome \<Rightarrow>
          check_parent refused w
            (case child_at w of
               C_ended n \<Rightarrow> Some (w\<lparr> parent_at := P_done outcome n \<rparr>)
             | _ \<Rightarrow> None)
      | P_done outcome status \<Rightarrow> None
      | P_fatal msg \<Rightarrow> None
      | P_unexpected flag \<Rightarrow> None
      | P_check_fails \<Rightarrow> None)"

inductive windows_step :: "windows_world \<Rightarrow> windows_world \<Rightarrow> bool" where
  of_parent: "parent_act refused w = Some w' \<Longrightarrow> windows_step w w'"
| of_child: "child_act e w = Some w' \<Longrightarrow> windows_step w w'"

inductive_cases windows_stepE: "windows_step w w'"

text \<open>The outcome that belongs to what was sent.\<close>

definition outcome_of :: "string \<Rightarrow> DeathTestOutcome option" where
  "outcome_of s =
     (if s = [] then Some DIED
      else if s = [kDeathTestReturned] then Some RETURNED
      else if s = [kDeathTestThrew] then Some THREW
      else if s = [kDeathTestLived] then Some LIVED
      else None)"

text \<open>The parent interprets a byte as the forking death tests do.\<close>

lemma status_pc_status_flag:
  "status_pc flag = P_join outcome \<Longrightarrow> status_flag flag dt p = Some (Inr (dt\<lparr> dt_outcome := outcome \<rparr>), p)"
  by (auto simp: status_pc_def status_flag_def op_evaluation split: if_splits)

section \<open>The flag is read back\<close>

lemma ParseNaturalNumber_unsigned_uint:
  assumes "LENGTH('w::len) \<le> 64"
  shows "ParseNaturalNumber_unsigned (int_string (uint x)) = Some (x :: 'w word)"
proof -
  have s: "int_string (uint x) = dec_string (unat x)" by (simp add: int_string_def)
  have ds: "list_all is_digit (dec_string (unat x))" by (rule dec_string_digits)
  then have nn: "CHR 0x00 \<notin> set (dec_string (unat x))"
    using is_digit_not_nul by (auto simp: list_all_iff)
  have d: "takeWhile is_digit (dec_string (unat x)) = dec_string (unat x)"
    "dropWhile is_digit (dec_string (unat x)) = []"
    using ds by (auto simp: list_all_iff takeWhile_eq_all_conv)
  have h: "is_digit (hd (dec_string (unat x)))"
    using ds dec_string_nonempty [of "unat x"] by (simp add: list_all_iff)
  have "unat x < 2 ^ LENGTH('w)" by (rule unsigned_less)
  also have "\<dots> \<le> (2 :: nat) ^ 64" using assms by (rule power_increasing) simp
  finally have lt: "(unat x < 2 ^ 64) = True" "(2 ^ 64 \<le> unat x) = False" by simp_all
  have w: "(of_nat (unat x) :: 64 word) = ucast x" by simp
  have u: "(ucast (ucast x :: 64 word) :: 'w word) = x"
    using assms by (intro bit_word_eqI) (auto simp: bit_simps)
  show ?thesis
    unfolding ParseNaturalNumber_unsigned_def s c_text_no_nul [OF nn] Let_def dec_value_dec_string d lt if_False w u
    by (simp only: dec_string_nonempty h simp_thms if_True if_False)
qed

definition flag_ok :: "string \<Rightarrow> c_int \<Rightarrow> int \<Rightarrow> bool" where
  "flag_ok file line k \<longleftrightarrow> CHR 0x00 \<notin> set file \<and> CHR ''|'' \<notin> set file \<and> 0 \<le> sint line \<and> 0 \<le> k \<and> k < 2 ^ 31"

lemma windows_flag_read_back:
  assumes "flag_ok file line k"
  shows "windows_flag_fields (windows_flag_value file line k pid wh eh) =
    Some \<lparr> wf_file = file, wf_line = line, wf_index = word_of_int k, wf_parent = pid, wf_write = wh, wf_event = eh \<rparr>"
proof -
  let ?v = "windows_flag_value file line k pid wh eh"
  have v: "?v = file @ CHR ''|'' # int_string (sint line) @ CHR ''|'' # int_string k @ CHR ''|'' #
      int_string (uint pid) @ CHR ''|'' # int_string (uint wh) @ CHR ''|'' # int_string (uint eh)"
    by (simp add: windows_flag_value_def StreamableToString_int)
  have nn: "c_text ?v = ?v"
    using assms int_string_no_nul unfolding v by (intro c_text_no_nul) (simp add: flag_ok_def)
  have "SplitString ?v CHR ''|'' =
      [file, int_string (sint line), int_string k, int_string (uint pid), int_string (uint wh), int_string (uint eh)]"
    unfolding v using assms by (simp add: SplitString_first SplitString_last int_string_no_bar flag_ok_def)
  moreover have "ParseNaturalNumber (int_string (sint line)) = Some line"
    "ParseNaturalNumber (int_string k) = Some (word_of_int k)"
    using ParseNaturalNumber_int_string [of "sint line"] ParseNaturalNumber_int_string [of k] assms
      sint_lt [of line] by (simp_all add: flag_ok_def)
  moreover have "ParseNaturalNumber_unsigned (int_string (uint pid)) = Some pid"
    "ParseNaturalNumber_unsigned (int_string (uint wh)) = Some wh"
    "ParseNaturalNumber_unsigned (int_string (uint eh)) = Some eh"
    by (rule ParseNaturalNumber_unsigned_uint; simp)+
  ultimately show ?thesis by (simp add: windows_flag_fields_def nn)
qed

section \<open>The hand-over of the pipe\<close>

definition given :: "windows_world \<Rightarrow> windows_fields \<Rightarrow> bool" where
  "given w f \<longleftrightarrow> wf_write f = write_handle w \<and> wf_event f = event_handle w"

fun child_ok :: "windows_world \<Rightarrow> child_pc \<Rightarrow> bool" where
  "child_ok w C_parse \<longleftrightarrow> sent w = []"
| "child_ok w (C_open_parent f) \<longleftrightarrow> sent w = [] \<and> given w f"
| "child_ok w (C_dup_write opened f) \<longleftrightarrow> sent w = [] \<and> given w f"
| "child_ok w (C_dup_event f) \<longleftrightarrow> sent w = [] \<and> given w f"
| "child_ok w (C_open_fd f) \<longleftrightarrow> sent w = []"
| "child_ok w C_signal \<longleftrightarrow> sent w = []"
| "child_ok w C_runs \<longleftrightarrow> sent w = []"
| "child_ok w (C_exits n) \<longleftrightarrow> True"
| "child_ok w (C_ended n) \<longleftrightarrow> True"

definition handed_over :: "windows_world \<Rightarrow> bool" where
  "handed_over w \<longleftrightarrow> event_set w \<or> child_has_ended w"

definition signal_ok :: "windows_world \<Rightarrow> bool" where
  "signal_ok w \<longleftrightarrow> (event_set w \<longrightarrow> child_at w = C_runs \<or> (\<exists>n. child_at w \<in> {C_exits n, C_ended n}))"

definition sent_ok :: "windows_world \<Rightarrow> bool" where
  "sent_ok w \<longleftrightarrow> outcome_of (sent w) \<noteq> None \<or> (\<exists>m. sent w = kDeathTestInternalError # m)"

fun parent_ok :: "windows_world \<Rightarrow> parent_pc \<Rightarrow> bool" where
  "parent_ok w P_wait \<longleftrightarrow>
     {write_handle w, event_handle w} \<subseteq> parent_open w \<and> \<not> handle_lost w \<and> pipe w = sent w"
| "parent_ok w P_release_write \<longleftrightarrow> handed_over w \<and> \<not> handle_lost w \<and> pipe w = sent w"
| "parent_ok w P_release_event \<longleftrightarrow>
     handed_over w \<and> \<not> handle_lost w \<and> pipe w = sent w \<and> write_handle w \<notin> parent_open w"
| "parent_ok w P_read \<longleftrightarrow>
     handed_over w \<and> \<not> handle_lost w \<and> pipe w = sent w \<and> write_handle w \<notin> parent_open w"
| "parent_ok w (P_internal_error err) \<longleftrightarrow>
     handed_over w \<and> \<not> handle_lost w \<and> write_handle w \<notin> parent_open w \<and>
     sent w = kDeathTestInternalError # err @ pipe w"
| "parent_ok w (P_join oc) \<longleftrightarrow>
     handed_over w \<and> \<not> handle_lost w \<and> outcome_of (sent w) = Some oc \<and> (oc = DIED \<longrightarrow> child_has_ended w)"
| "parent_ok w (P_exit_code oc) \<longleftrightarrow> child_has_ended w \<and> \<not> handle_lost w \<and> outcome_of (sent w) = Some oc"
| "parent_ok w (P_done oc n) \<longleftrightarrow> child_at w = C_ended n \<and> \<not> handle_lost w \<and> outcome_of (sent w) = Some oc"
| "parent_ok w (P_fatal msg) \<longleftrightarrow> child_has_ended w \<and> \<not> handle_lost w \<and> sent w = kDeathTestInternalError # msg"
| "parent_ok w (P_unexpected flag) \<longleftrightarrow> False"
| "parent_ok w P_check_fails \<longleftrightarrow> True"

definition windows_ok :: "windows_world \<Rightarrow> bool" where
  "windows_ok w \<longleftrightarrow>
     (\<exists>f. windows_flag_fields (child_flag w) = Some f \<and> given w f) \<and>
     write_handle w \<noteq> event_handle w \<and> (child_writers w = 0 \<longleftrightarrow> child_has_ended w) \<and>
     signal_ok w \<and> sent_ok w \<and> child_ok w (child_at w) \<and>
     (sent w \<noteq> [] \<longrightarrow> (\<exists>n. child_at w \<in> {C_exits n, C_ended n})) \<and> parent_ok w (parent_at w)"

lemma windows_ok_start:
  "flag_ok file line k \<Longrightarrow> wh \<noteq> eh \<Longrightarrow> windows_ok (windows_start (windows_flag_value file line k pid wh eh) wh eh)"
  by (simp add: windows_ok_def windows_start_def windows_flag_read_back given_def child_has_ended_def
      signal_ok_def sent_ok_def outcome_of_def)

lemmas windows_defs = windows_ok_def given_def child_has_ended_def handed_over_def signal_ok_def sent_ok_def

lemma status_bytes [simp]:
  "kDeathTestReturned = CHR ''R''" "kDeathTestThrew = CHR ''T''" "kDeathTestLived = CHR ''L''"
  "kDeathTestInternalError = CHR ''I''"
  by (simp_all add: kDeathTestReturned_def kDeathTestThrew_def kDeathTestLived_def kDeathTestInternalError_def)

lemma outcome_of_report [simp]: "outcome_of [status_ch reason] \<noteq> None"
  by (cases reason) (simp_all add: outcome_of_def status_ch_def)

text \<open>The parent changes only its own part of the state.\<close>

lemma parent_frame:
  assumes "windows_ok w" and "parent_ok v (parent_at v)"
    and "v = w\<lparr> parent_at := parent_at v, parent_open := parent_open v, pipe := pipe v \<rparr>"
  shows "windows_ok v"
proof -
  have *: "write_handle v = write_handle w" "event_handle v = event_handle w" "child_flag v = child_flag w"
    "child_writers v = child_writers w" "event_set v = event_set w" "sent v = sent w" "child_at v = child_at w"
    using arg_cong [OF assms(3), of write_handle] arg_cong [OF assms(3), of event_handle]
      arg_cong [OF assms(3), of child_flag] arg_cong [OF assms(3), of child_writers]
      arg_cong [OF assms(3), of event_set] arg_cong [OF assms(3), of sent] arg_cong [OF assms(3), of child_at]
    by simp_all
  moreover have "child_ok v (child_at w) = child_ok w (child_at w)"
    by (cases "child_at w") (simp_all add: given_def *)
  ultimately show ?thesis
    using assms(1,2) by (simp add: windows_ok_def given_def child_has_ended_def signal_ok_def sent_ok_def)
qed

lemma windows_okD:
  assumes "windows_ok w"
  shows "parent_ok w (parent_at w)" "child_ok w (child_at w)" "child_writers w = 0 \<longleftrightarrow> child_has_ended w"
    "write_handle w \<noteq> event_handle w" "sent_ok w" "signal_ok w"
  using assms by (simp_all add: windows_ok_def)

lemma status_pc_ok:
  assumes "sent_ok w" and "sent w = flag # rest" and "handed_over w" and "\<not> handle_lost w"
    and "write_handle w \<notin> parent_open w"
  shows "parent_ok (w\<lparr> pipe := rest, parent_at := status_pc flag \<rparr>) (status_pc flag)"
  using assms
  by (auto simp: sent_ok_def status_pc_def outcome_of_def handed_over_def child_has_ended_def split: if_splits)

lemma parent_keeps:
  assumes ok: "windows_ok w" and act: "parent_act refused w = Some w'"
  shows "windows_ok w'"
proof (rule parent_frame [OF ok])
  note D = windows_okD [OF ok]
  show "w' = w\<lparr> parent_at := parent_at w', parent_open := parent_open w', pipe := pipe w' \<rparr>"
    using act by (cases "parent_at w")
      (auto simp: parent_act_def check_parent_def split: if_splits list.splits child_pc.splits)
  show "parent_ok w' (parent_at w')"
  proof (cases "parent_at w")
    case P_read
    show ?thesis
    proof (cases "pipe w")
      case Nil
      then show ?thesis using P_read D(1,3) act
        by (auto simp: parent_act_def writers_def outcome_of_def handed_over_def child_has_ended_def split: if_splits)
    next
      case (Cons flag rest)
      have s: "sent w = flag # rest" "handed_over w" "\<not> handle_lost w" "write_handle w \<notin> parent_open w"
        using P_read D(1) Cons by auto
      have "w' = w\<lparr> pipe := rest, parent_at := status_pc flag \<rparr>" using P_read Cons act by (simp add: parent_act_def)
      then show ?thesis using status_pc_ok [OF D(5) s] by simp
    qed
  next
    case (P_internal_error e)
    then show ?thesis using D(1,3) act
      by (auto simp: parent_act_def writers_def handed_over_def child_has_ended_def split: if_splits)
  qed (use D(1,4) act in \<open>auto simp: parent_act_def check_parent_def handed_over_def child_has_ended_def
      split: if_splits child_pc.splits\<close>)
qed

text \<open>A step of the child keeps what the parent relies on.\<close>

lemma parent_ok_mono:
  assumes "parent_ok w pc" and "write_handle v = write_handle w" and "event_handle v = event_handle w"
    and "parent_open v = parent_open w"
    and "handle_lost v \<Longrightarrow> handle_lost w \<or> pc = P_check_fails" and "handed_over w \<Longrightarrow> handed_over v"
    and "sent w \<noteq> [] \<or> child_has_ended w \<Longrightarrow> sent v = sent w \<and> pipe v = pipe w"
    and "pipe w = sent w \<Longrightarrow> pipe v = sent v"
    and "child_has_ended w \<Longrightarrow> child_at v = child_at w"
  shows "parent_ok v pc"
  using assms by (cases pc) (auto simp: child_has_ended_def outcome_of_def split: if_splits)

lemma before_hand_over:
  assumes "windows_ok w" and "\<not> handed_over w"
  shows "parent_at w = P_check_fails \<or> parent_at w = P_wait \<and> {write_handle w, event_handle w} \<subseteq> parent_open w"
  using windows_okD(1) [OF assms(1)] assms(2)
  by (cases "parent_at w") (auto simp: handed_over_def child_has_ended_def)

lemma child_frame:
  assumes ok: "windows_ok w" and alive: "\<not> child_has_ended w"
    and same: "write_handle v = write_handle w" "event_handle v = event_handle w" "parent_open v = parent_open w"
      "child_flag v = child_flag w" "parent_at v = parent_at w"
    and lost: "handle_lost v \<Longrightarrow> handle_lost w \<or> parent_at w = P_check_fails"
    and over: "handed_over w \<Longrightarrow> handed_over v" and writers: "child_writers v = 0 \<longleftrightarrow> child_has_ended v"
    and signal: "signal_ok v" and child: "child_ok v (child_at v)"
    and s: "sent v = sent w \<and> pipe v = pipe w \<and> (sent w = [] \<or> (\<exists>n. child_at v \<in> {C_exits n, C_ended n})) \<or>
      sent w = [] \<and> (\<exists>m. sent v = m \<and> pipe v = pipe w @ m) \<and> sent_ok v \<and> (\<exists>n. child_at v = C_exits n)"
  shows "windows_ok v"
proof -
  note D = windows_okD [OF ok]
  have "parent_ok v (parent_at v)"
    unfolding same(5) by (rule parent_ok_mono [OF D(1)]) (use same lost over s alive in auto)
  moreover have "sent_ok v" using s D(5) by (auto simp: sent_ok_def)
  ultimately show ?thesis
    using ok same writers signal child s by (auto simp: windows_ok_def given_def)
qed

lemma child_end_ok: "windows_ok w \<Longrightarrow> \<not> child_has_ended w \<Longrightarrow> windows_ok (child_end n w)"
  by (rule child_frame [of w])
    (auto simp: child_end_def child_has_ended_def handed_over_def signal_ok_def windows_okD(5))

lemma child_abort_ok:
  assumes "windows_ok w" and "\<not> child_has_ended w" and "b \<Longrightarrow> parent_at w = P_check_fails"
  shows "windows_ok (child_abort msg (w\<lparr> handle_lost := (handle_lost w \<or> b) \<rparr>))"
  by (rule child_frame [OF assms(1,2)])
    (use assms(3) in \<open>auto simp: child_abort_def child_end_def child_has_ended_def handed_over_def signal_ok_def\<close>)

lemma child_abort_ok': "windows_ok w \<Longrightarrow> \<not> child_has_ended w \<Longrightarrow> windows_ok (child_abort msg w)"
  using child_abort_ok [of w False msg] by simp

text \<open>A child that moves to another position without reporting.\<close>

lemma child_move:
  assumes ok: "windows_ok w" and alive: "\<not> child_has_ended w" "sent w = []" "\<not> event_set w"
    and child: "child_ok w pc" "\<forall>n. pc \<notin> {C_exits n, C_ended n}" and n: "n \<ge> child_writers w"
  shows "windows_ok (w\<lparr> child_writers := n, child_at := pc \<rparr>)"
proof (rule child_frame [OF ok alive(1)])
  show "child_writers (w\<lparr>child_writers := n, child_at := pc\<rparr>) = 0 \<longleftrightarrow>
      child_has_ended (w\<lparr>child_writers := n, child_at := pc\<rparr>)"
    using windows_okD(3) [OF ok] n alive(1) child(2) by (cases pc) (auto simp: child_has_ended_def)
  show "child_ok (w\<lparr>child_writers := n, child_at := pc\<rparr>) (child_at (w\<lparr>child_writers := n, child_at := pc\<rparr>))"
    using child(1) by (cases pc) (auto simp: given_def)
qed (use alive in \<open>auto simp: handed_over_def signal_ok_def\<close>)

lemma GetStatusFileDescriptor_ok:
  assumes ok: "windows_ok w" and pc: "child_at w = pc" "pc \<notin> {C_parse, C_runs}" "\<forall>n. pc \<notin> {C_exits n, C_ended n}"
  shows "windows_ok (GetStatusFileDescriptor_act granted pc w)"
proof -
  note D = windows_okD [OF ok]
  have alive: "\<not> child_has_ended w" using pc by (auto simp: child_has_ended_def split: child_pc.splits)
  have e: "\<not> event_set w" using D(6) pc by (auto simp: signal_ok_def)
  have h: "parent_at w = P_check_fails \<or> {write_handle w, event_handle w} \<subseteq> parent_open w"
    using before_hand_over [OF ok] alive e by (auto simp: handed_over_def)
  have s: "sent w = []" using D(2) pc by (cases pc) auto
  note move = child_move [OF ok alive s e]
  show ?thesis
  proof (cases pc)
    case (C_open_parent f)
    then show ?thesis using move [of "C_dup_write granted f" "child_writers w"] D(2) pc
      by (auto simp: GetStatusFileDescriptor_act_def)
  next
    case (C_dup_write opened f)
    have g: "given w f" using D(2) pc C_dup_write by simp
    show ?thesis
    proof (cases "granted \<and> opened \<and> wf_write f \<in> parent_open w")
      case True
      then show ?thesis using move [of "C_dup_event f" "child_writers w + 1"] C_dup_write g s
        by (simp add: GetStatusFileDescriptor_act_def)
    next
      case False
      show ?thesis unfolding C_dup_write GetStatusFileDescriptor_act_def child_pc.case if_not_P [OF False]
        by (rule child_abort_ok [OF ok alive]) (use h g in \<open>auto simp: given_def\<close>)
    qed
  next
    case (C_dup_event f)
    have g: "given w f" using D(2) pc C_dup_event by simp
    show ?thesis
    proof (cases "granted \<and> wf_event f \<in> parent_open w")
      case True
      then show ?thesis using move [of "C_open_fd f" "child_writers w"] C_dup_event s
        by (simp add: GetStatusFileDescriptor_act_def)
    next
      case False
      show ?thesis unfolding C_dup_event GetStatusFileDescriptor_act_def child_pc.case if_not_P [OF False]
        by (rule child_abort_ok [OF ok alive]) (use h g in \<open>auto simp: given_def\<close>)
    qed
  next
    case (C_open_fd f)
    then show ?thesis using move [of C_signal "child_writers w"] s child_abort_ok' [OF ok alive]
      by (simp add: GetStatusFileDescriptor_act_def)
  next
    case C_signal
    have "windows_ok (w\<lparr> event_set := True, child_at := C_runs \<rparr>)"
      by (rule child_frame [OF ok alive])
        (use s D(3) alive in \<open>auto simp: handed_over_def signal_ok_def child_has_ended_def\<close>)
    then show ?thesis using C_signal by (simp add: GetStatusFileDescriptor_act_def)
  qed (use pc in auto)
qed

lemma child_report_ok:
  assumes ok: "windows_ok w" and pc: "child_at w = C_runs"
    and s: "outcome_of m \<noteq> None \<or> (\<exists>t. m = kDeathTestInternalError # t)"
  shows "windows_ok ((write_pipe m w)\<lparr> child_at := C_exits n \<rparr>)"
proof (rule child_frame [OF ok])
  note D = windows_okD [OF ok]
  show "\<not> child_has_ended w" using pc by (simp add: child_has_ended_def)
  have "sent w = []" using D(2) pc by simp
  then show "sent (write_pipe m w\<lparr>child_at := C_exits n\<rparr>) = sent w \<and> pipe (write_pipe m w\<lparr>child_at := C_exits n\<rparr>) = pipe w \<and>
      (sent w = [] \<or> (\<exists>n'. child_at (write_pipe m w\<lparr>child_at := C_exits n\<rparr>) \<in> {C_exits n', C_ended n'})) \<or>
    sent w = [] \<and> (\<exists>m'. sent (write_pipe m w\<lparr>child_at := C_exits n\<rparr>) = m' \<and>
      pipe (write_pipe m w\<lparr>child_at := C_exits n\<rparr>) = pipe w @ m') \<and>
    sent_ok (write_pipe m w\<lparr>child_at := C_exits n\<rparr>) \<and>
    (\<exists>n'. child_at (write_pipe m w\<lparr>child_at := C_exits n\<rparr>) = C_exits n')"
    using s by (auto simp: write_pipe_def sent_ok_def)
qed (use pc windows_okD(3) [OF ok] in
    \<open>auto simp: write_pipe_def handed_over_def signal_ok_def child_has_ended_def\<close>)

lemma child_keeps:
  assumes ok: "windows_ok w" and act: "child_act e w = Some w'"
  shows "windows_ok w'"
proof -
  note D = windows_okD [OF ok]
  have alive: "\<not> child_has_ended w"
    using act by (auto simp: child_act_def child_has_ended_def split: child_pc.splits)
  show ?thesis
  proof (cases "\<exists>n. e = Dies n")
    case True
    then have "\<exists>n. w' = child_end n w" using act by (auto simp: child_act_def split: child_pc.splits)
    then show ?thesis using child_end_ok [OF ok alive] by blast
  next
    case False
    show ?thesis
    proof (cases "child_at w")
      case C_parse
      obtain f where f: "windows_flag_fields (child_flag w) = Some f" "given w f"
        using ok unfolding windows_ok_def by blast
      have "\<not> event_set w" "sent w = []" using D(2,6) C_parse by (auto simp: signal_ok_def)
      then have "windows_ok (w\<lparr> child_writers := child_writers w, child_at := C_open_parent f \<rparr>)"
        by (intro child_move [OF ok alive]) (simp_all add: f)
      moreover have "w' = w\<lparr> child_writers := child_writers w, child_at := C_open_parent f \<rparr>"
        using act C_parse f False by (auto simp: child_act_def split: child_event.splits)
      ultimately show ?thesis by simp
    next
      case C_runs
      then have "(\<exists>r. w' = (write_pipe [status_ch r] w)\<lparr> child_at := C_exits 1 \<rparr>) \<or>
          (\<exists>m. w' = (write_pipe (kDeathTestInternalError # c_text m) w)\<lparr> child_at := C_exits 1 \<rparr>)"
        using act False by (auto simp: child_act_def split: child_event.splits)
      then show ?thesis using child_report_ok [OF ok C_runs] outcome_of_report by blast
    next
      case (C_exits n)
      then have "w' = child_end n w" using act False by (auto simp: child_act_def split: child_event.splits)
      then show ?thesis using child_end_ok [OF ok alive] by simp
    next
      case (C_ended n)
      then show ?thesis using alive by (simp add: child_has_ended_def)
    qed (use act False in \<open>auto simp: child_act_def split: child_event.splits
        intro!: GetStatusFileDescriptor_ok [OF ok]\<close>)
  qed
qed

lemma windows_reachable_ok:
  assumes "windows_step\<^sup>*\<^sup>* w w'" and "windows_ok w"
  shows "windows_ok w'"
  using assms by (induction rule: rtranclp_induct) (auto elim!: windows_stepE intro: parent_keeps child_keeps)

section \<open>The parent ends after the child\<close>

definition parent_go :: "windows_world \<Rightarrow> windows_world \<Rightarrow> bool" where
  "parent_go w w' \<longleftrightarrow> parent_act False w = Some w'"

fun parent_finished :: "parent_pc \<Rightarrow> bool" where
  "parent_finished (P_done oc n) \<longleftrightarrow> True"
| "parent_finished (P_fatal msg) \<longleftrightarrow> True"
| "parent_finished _ \<longleftrightarrow> False"

fun parent_rank :: "parent_pc \<Rightarrow> nat" where
  "parent_rank P_wait = 7"
| "parent_rank P_release_write = 6"
| "parent_rank P_release_event = 5"
| "parent_rank P_read = 4"
| "parent_rank (P_internal_error err) = 3"
| "parent_rank (P_join oc) = 2"
| "parent_rank (P_exit_code oc) = 1"
| "parent_rank _ = 0"

lemma parent_progress:
  assumes ok: "windows_ok w" and ended: "child_has_ended w"
    and pc: "parent_at w \<noteq> P_check_fails" "\<not> parent_finished (parent_at w)"
  shows "\<exists>v. parent_go w v \<and> child_has_ended v \<and> parent_at v \<noteq> P_check_fails \<and>
    parent_rank (parent_at v) + length (pipe v) < parent_rank (parent_at w) + length (pipe w)"
proof -
  note D = windows_okD [OF ok]
  have c: "child_writers w = 0" using D(3) ended by simp
  obtain n where n: "child_at w = C_ended n" using ended by (auto simp: child_has_ended_def split: child_pc.splits)
  show ?thesis
  proof (cases "parent_at w")
    case P_read
    show ?thesis
    proof (cases "pipe w")
      case Nil
      then show ?thesis using P_read D(1) c ended
        by (simp add: parent_go_def parent_act_def writers_def child_has_ended_def)
    next
      case (Cons flag rest)
      have s: "sent w = flag # rest" "handed_over w" "\<not> handle_lost w" "write_handle w \<notin> parent_open w"
        using P_read D(1) Cons by auto
      have "parent_ok (w\<lparr> pipe := rest, parent_at := status_pc flag \<rparr>) (status_pc flag)"
        by (rule status_pc_ok [OF D(5) s])
      then have "status_pc flag \<noteq> P_check_fails" "parent_rank (status_pc flag) \<le> 3"
        by (auto simp: status_pc_def)
      then show ?thesis using P_read Cons ended
        by (simp add: parent_go_def parent_act_def child_has_ended_def)
    qed
  next
    case (P_internal_error e)
    then show ?thesis using D(1) c ended
      by (cases "pipe w = []") (auto simp: parent_go_def parent_act_def writers_def child_has_ended_def)
  qed (use D(1) n pc in \<open>auto simp: parent_go_def parent_act_def check_parent_def child_has_ended_def\<close>)
qed

lemma parent_finishes:
  assumes "windows_ok w" and "child_has_ended w" and "parent_at w \<noteq> P_check_fails"
  shows "\<exists>v. parent_go\<^sup>*\<^sup>* w v \<and> parent_finished (parent_at v)"
  using assms
proof (induction "parent_rank (parent_at w) + length (pipe w)" arbitrary: w rule: less_induct)
  case less
  show ?case
  proof (cases "parent_finished (parent_at w)")
    case False
    from parent_progress [OF less.prems False] obtain v where v: "parent_go w v" "child_has_ended v"
      "parent_at v \<noteq> P_check_fails"
      "parent_rank (parent_at v) + length (pipe v) < parent_rank (parent_at w) + length (pipe w)" by blast
    have "windows_ok v" using v(1) parent_keeps [OF less.prems(1)] by (simp add: parent_go_def)
    from less.hyps [OF v(4) this v(2,3)] show ?thesis
      using v(1) by (blast intro: converse_rtranclp_into_rtranclp)
  qed blast
qed

text \<open>When the process of the parent cannot be opened, the child complains about the handle of the pipe.\<close>

lemma refused_parent_message:
  assumes "child_at w = C_open_parent f"
  shows "\<exists>v. child_act Refused w = Some v \<and> (\<exists>u. child_act Proceeds v = Some u \<and>
    child_says u = child_says w @ pipe_handle_message f \<and> child_at u = C_ended 3)"
  using assms
  by (simp add: child_act_def GetStatusFileDescriptor_act_def child_abort_def child_end_def)

section \<open>Properties\<close>

text \<open>The state after a schedule: \<open>None\<close> for a call of the parent, else what the child meets.\<close>

fun windows_run :: "child_event option list \<Rightarrow> windows_world \<Rightarrow> windows_world option" where
  "windows_run [] w = Some w"
| "windows_run (None # xs) w = (case parent_act False w of None \<Rightarrow> None | Some v \<Rightarrow> windows_run xs v)"
| "windows_run (Some e # xs) w = (case child_act e w of None \<Rightarrow> None | Some v \<Rightarrow> windows_run xs v)"

lemma windows_run_steps: "windows_run xs w = Some w' \<Longrightarrow> windows_step\<^sup>*\<^sup>* w w'"
proof (induction xs w rule: windows_run.induct)
  case (2 xs w)
  then show ?case
    by (auto split: option.splits intro: converse_rtranclp_into_rtranclp of_parent)
next
  case (3 e xs w)
  then show ?case
    by (auto split: option.splits intro: converse_rtranclp_into_rtranclp of_child)
qed simp

text \<open>C17: the death tests of Windows: the child reads back the handles that the parent passes by its
  command line; however the two processes interleave, the parent does not close its handle to the pipe
  before the child has its own or is dead; when the parent is done, its status is the exit code of the
  child and its outcome is what the child reported, death exactly when it reported nothing; a failure of
  the framework in the child reaches the log of the parent whole; and once the child has ended, the
  parent always ends.\<close>

theorem windows_death_test_handshake:
  assumes "flag_ok file line k" and "wh \<noteq> eh"
    and "windows_step\<^sup>*\<^sup>* (windows_start (windows_flag_value file line k pid wh eh) wh eh) w"
    and "parent_at w \<noteq> P_check_fails"
  shows "\<not> handle_lost w \<and>
    (\<forall>oc n. parent_at w = P_done oc n \<longrightarrow>
      child_at w = C_ended n \<and> outcome_of (sent w) = Some oc \<and> (oc = DIED \<longleftrightarrow> sent w = [])) \<and>
    (\<forall>msg. parent_at w = P_fatal msg \<longrightarrow> sent w = kDeathTestInternalError # msg) \<and>
    (child_has_ended w \<longrightarrow> (\<exists>v. parent_go\<^sup>*\<^sup>* w v \<and> parent_finished (parent_at v)))"
proof -
  have ok: "windows_ok w" by (rule windows_reachable_ok [OF assms(3) windows_ok_start [OF assms(1,2)]])
  have "\<not> handle_lost w"
    using windows_okD(1) [OF ok] assms(4) by (cases "parent_at w") simp_all
  moreover have "child_at w = C_ended n \<and> outcome_of (sent w) = Some oc \<and> (oc = DIED \<longleftrightarrow> sent w = [])"
    if "parent_at w = P_done oc n" for oc n
    using windows_okD(1) [OF ok] that by (auto simp: outcome_of_def split: if_splits)
  moreover have "sent w = kDeathTestInternalError # msg" if "parent_at w = P_fatal msg" for msg
    using windows_okD(1) [OF ok] that by simp
  ultimately show ?thesis using parent_finishes [OF ok _ assms(4)] by blast
qed

definition sample_windows :: windows_world where
  "sample_windows = windows_start (windows_flag_value ''a.cc'' 12 1 4711 64 68) 64 68"

definition sample_schedule :: "child_event option list" where
  "sample_schedule =
     replicate 6 (Some Proceeds) @ [None, Some (Reports TEST_DID_NOT_DIE), None, None, None, Some Proceeds, None, None]"

theorem windows_death_test_handshake_witness:
  "\<exists>w. windows_run sample_schedule sample_windows = Some w \<and>
    parent_at w = P_done LIVED 1 \<and> child_at w = C_ended 1 \<and> sent w = ''L'' \<and> \<not> handle_lost w"
proof -
  have "windows_flag_fields (windows_flag_value ''a.cc'' 12 1 4711 64 68) =
      Some \<lparr> wf_file = ''a.cc'', wf_line = 12, wf_index = 1, wf_parent = 4711, wf_write = 64, wf_event = 68 \<rparr>"
    by (subst windows_flag_read_back) (simp_all add: flag_ok_def)
  then obtain w where w: "windows_run sample_schedule sample_windows = Some w" "parent_at w = P_done LIVED 1"
      "sent w = ''L''"
    by (simp add: sample_schedule_def sample_windows_def windows_start_def numeral_eq_Suc child_act_def
        GetStatusFileDescriptor_act_def parent_act_def check_parent_def child_has_ended_def write_pipe_def
        status_ch_def status_pc_def child_end_def)
  have "flag_ok ''a.cc'' 12 1" by (simp add: flag_ok_def)
  from windows_death_test_handshake [OF this _ windows_run_steps [OF w(1) [unfolded sample_windows_def]]]
  have "\<not> handle_lost w \<and> child_at w = C_ended 1" using w(2) by simp
  then show ?thesis using w by blast
qed

end
