(* ===== verification/Spec2Isabelle.thy ===== *)
theory Spec2Isabelle
  imports Services Interleaving Gtest_Regex Gtest_Verdict Gtest_Assert Gtest_Flags Gtest_Xml Gtest_Stream Gtest_Typed
    Gtest_LinkedPtr Gtest_DeathRun Gtest_Console Gtest_Mutex Gtest_ThreadLocal Gtest_Thread Gtest_PosixRE
    Gtest_DeathWindows
begin

text \<open>
  A model of rosbridge_client_cpp, a C++ client library for the rosbridge protocol of ROS, of
  the JSON library picojson it is built on, and of the test framework googletest in the repository,
  which runs its tests. Paths are relative to \<open>src/\<close>; the code is in \<open>src/*.cpp\<close>,
  \<open>include/rosbridge_client_cpp/*.h\<close> and \<open>googletest-1.8.0/\<close>.

  The client. A \<open>RosbridgeClient\<close> owns a \<open>Connection\<close>, whose detached runner thread keeps a
  websocket to the server open, and a timer thread that calls \<open>talk\<close> every five milliseconds.
  Endpoints (\<open>Publisher\<close>, \<open>Subscriber\<close>, \<open>ServiceServer\<close>, \<open>ServiceClient\<close>) share bounded queues
  with the client: they push messages into a \<open>TalkerQueue\<close>, from which \<open>talk\<close> sends one message per
  round, and read messages from a \<open>ListenerQueue\<close>, into which \<open>listen\<close> puts what the server sends
  under the name of a topic or service. A \<open>TalkerQueue\<close> has a head message (advertise or
  subscribe) that is sent again after every reconnection, which \<open>resetTalkers\<close> arranges from the
  open handler. Messages are JSON objects.

  The test framework. The macros of a test program register \<open>TestInfo\<close>s with \<open>UnitTestImpl\<close>, which
  keeps them in test cases. \<open>RUN_ALL_TESTS()\<close> filters them, distributes them over shards, and for
  each iteration shuffles them, runs environments, test cases and tests, whose code reports results
  through a chain of reporters to the current test or the ad hoc result, and notifies the event
  listeners. The exit status is 1 if an iteration failed.

  Conventions. Classes are records and enumerations datatypes; an operation is one function from
  the state to the new state. Fallible code returns \<open>exn + 'a\<close> (Prelude), with a constructor for
  undefined behaviour (an empty \<open>front()\<close>, a dangling reference), so that safety is a statement
  about results. An \<open>int\<close> queue size is a 32-bit word that the comparison with \<open>size()\<close> converts to
  64 bits. A \<open>shared_ptr\<close> to a queue is an address in a store, so that sharing is visible. Threads
  are modelled by actions as small as the other threads can observe, and by what a thread sees at
  each look at shared state.

  The theories, in the order of the code:

  \<^item> Prelude: exceptions, results, machine integers, the last elements of a list, decimal numerals.
  \<^item> Ordered_Map: \<open>std::map\<close> as an association list in key order, and the interface
    \<open>keyed_store\<close> (lookup after update, extensionality) the JSON objects rest on.
  \<^item> Binary64: IEEE doubles as sign, integer and exponent, exactly rounded reading (\<open>strtod\<close>)
    and printing (\<open>%.f\<close>, \<open>%.17g\<close>); reading what was printed gives the same number.
  \<^item> Json_Value, Json_Serialize, Json_Parse: \<open>vendor/picojson.h\<close>. The parser has fuel
    \<open>2 * length + 1\<close>, because every call of its functions has consumed a character since the last
    call but one; \<open>parse_at_not_None\<close> shows that it always suffices.
  \<^item> Json_Roundtrip: the parser inverts the serializer. Json_Faults: what the parser does with
    any other text, and with an object cut off after a member.
  \<^item> Op: \<open>op.h\<close>, \<open>op.cpp\<close>. Utils and Timer: \<open>utils.h\<close>, \<open>utils.cpp\<close>. The actions of a timer
    include an exception of its function, which ends the program.
  \<^item> Messages: \<open>serializer.h\<close>, \<open>unserializer.h\<close>. Accessors of a received message store nulls
    under missing keys; \<open>looks_same\<close> is what they cannot tell apart. The datatype \<open>message\<close> is the
    abstract content of a message, which the round trip refers to.
  \<^item> Queues: \<open>queues.h\<close>, \<open>queues.cpp\<close>. The locales \<open>consumable\<close> (next, pop and empty against the
    sequence of pending messages) and \<open>bounded_buffer\<close> (a producer's view) are interpreted on
    both queues; the properties of the queues, of the talker and of the listener threads rest on
    their facts.
  \<^item> Connection: \<open>connection.h\<close>. The steps of the runner thread, with the events of the websocket
    library as input; the closures \<open>active\<close> and \<open>message_sender\<close> as what they refer to.
  \<^item> Client: \<open>rosbridgeclient.h\<close>, \<open>rosbridgeclient.cpp\<close>. The state \<open>world\<close> has the two stores of
    queues and the members of the client. \<open>outboxes\<close> abstracts the queues to the lists of pending
    messages; a round of \<open>talk\<close> takes the first message of each.
  \<^item> Interleaving: all interleavings of the operations of \<open>talk\<close> on one queue with pushes, resets
    and the state of the connection.
  \<^item> Topics: \<open>publisher.*\<close>, \<open>subscriber.*\<close>. Services: \<open>serviceserver.*\<close>, \<open>serviceclient.*\<close>, and the
    two end-to-end properties.

  The theories of the test framework (files under \<open>googletest-1.8.0/\<close>):

  \<^item> Gtest_Regex: the regular expressions of \<open>src/gtest-port.cc\<close>. The matcher runs on a buffer with its
    terminator, reading behind it is undefined behaviour; the language of a pattern is defined
    apart from it.
  \<^item> Gtest_String: \<open>String\<close>, \<open>Message\<close> and the conversion of wide strings to UTF-8, with the decoder of
    UTF-8 they are measured by.
  \<^item> Gtest_FilePath: \<open>src/gtest-filepath.cc\<close>. The file system is a record of its answers.
    \<open>CreateDirectoriesRecursively\<close> is a \<open>partial_function\<close>, since it may not return.
  \<^item> Gtest_Port: \<open>ParseInt32\<close> with \<open>strtol\<close>, the environment variables. Gtest_Filter: glob patterns.
    Gtest_Random: the generator and the shuffle. Gtest_Result: \<open>TestPartResult\<close>, \<open>TestResult\<close>.
  \<^item> Gtest_UnitTest: the registry of tests, its counts, sharding, filtering, listing and shuffling.
    Gtest_Registry: its invariants. Gtest_Listeners: \<open>TestEventListeners\<close>.
  \<^item> Gtest_Run: reporters, traces, exceptions and the running of tests. The code of the user is a
    script of statements; \<open>run_loop\<close> is a \<open>partial_function\<close>, since a negative repeat count never
    ends. Gtest_Verdict: what a script delivers and what a run of all tests returns.
  \<^item> Gtest_Diff: the edit distance and the unified diff of \<open>src/gtest.cc\<close>, on the costs of
    Double_Arith (addition and comparison of doubles); its reference is \<open>patch\<close>, which applies
    hunks as \<open>patch(1)\<close> does. Gtest_DiffText: a reader of unified diffs, and what it makes of the
    printed text. Gtest_Printers: \<open>src/gtest-printers.cc\<close>, \<open>gtest-printers.h\<close>, with a reader of C++
    string literals. Gtest_Float: \<open>FloatingPoint\<close> on the bits of any IEEE format.
  \<^item> Gtest_Assert: \<open>AssertionResult\<close> and the comparisons behind the assertion macros, built on the three.
  \<^item> Gtest_Flags: the flags, their parsing and \<open>InitGoogleTest\<close>. \<open>argv\<close> is a list that is shifted in
    place; \<open>parse_each\<close> is the pass over the arguments it refines.
  \<^item> Gtest_Xml: the XML report, with a reader of XML; the keys of recorded properties have to be names
    of XML, which the code does not check. Gtest_Stream: the streaming listener and its
    socket, with a reader of its lines. Gtest_Console: the console printer; what it prints is a list
    of coloured pieces, \<open>render\<close> is the text with its escape sequences, and \<open>summary_text\<close> is the text
    of the summary over the tests.
  \<^item> Gtest_LinkedPtr: \<open>linked_ptr\<close> (\<open>gtest-linked_ptr.h\<close>) in a store of cells. The walks around a ring
    are \<open>partial_function\<close>s; the specification is a map of owners and a list of deleted objects.
  \<^item> Gtest_Mutex: the mutexes of POSIX threads and of Windows (\<open>gtest-port.h\<close>, \<open>src/gtest-port.cc\<close>) as step
    relations whose steps are single accesses to the shared members. The locale \<open>lock_protocol\<close> is the
    contract of a lock, with what a client of it gets; it is interpreted on both. Gtest_ThreadLocal:
    \<open>ThreadLocal\<close> with POSIX keys and with the registry of Windows, two implementations of one
    specification (\<open>spec_tls\<close>), which the locale \<open>thread_locals\<close> relates. Gtest_Thread: \<open>Notification\<close>,
    \<open>ThreadWithParam\<close>, \<open>scoped_ptr\<close> and \<open>AutoHandle\<close>. Gtest_PosixRE: the class \<open>RE\<close> over \<open>regex.h\<close>.
  \<^item> Gtest_DeathTest, Gtest_DeathRun: death tests on Linux (\<open>src/gtest-death-test.cc\<close>,
    \<open>gtest-death-test.h\<close>). A process is the record \<open>proc\<close>; an operation returns the new state with a
    value or the way the process ended, or nothing when a system call never returns. The answers of
    the kernel to the calls still to come are lists in the state, so that \<open>fork\<close> is one program run on
    two states; \<open>ends_as\<close> says which program an operation can become. Gtest_DeathWindows: \<open>WindowsDeathTest\<close> as two processes whose calls interleave.
  \<^item> Gtest_Params: the generators of parameters (\<open>gtest-param-util.h\<close>). The locale \<open>param_sequence\<close> is the
    contract of a generator and its iterators; it is interpreted on \<open>Range\<close> and \<open>ValuesIn\<close>, and a
    sublocale shows that \<open>Combine\<close> keeps it. Gtest_ParamTests: the registration of parameterised
    tests over any such generators (\<open>yields\<close>). Gtest_Typed: typed tests (\<open>gtest-typed-test.cc\<close>).

  What the properties show. Messages survive the wire; a queue delivers its head and its last
  messages in order; every interleaving of the talker is defined; a reconnection declares every
  endpoint before anything else; what is published reaches the callbacks and a call returns the
  server's answer; a message is sent exactly when the connection is open; only an exception of its
  function ends a timer's program; the loops end. For the test framework: matching agrees with the language of the
  patterns, the registry holds what was registered, each test runs on one shard and a shuffled run
  visits each test case once, results reach the reporter around them, and the exit status tells
  whether anything failed; a printed diff is a patch, a printed string is a literal of itself, a command line
  sets exactly its flags, reports and streams read back as what was reported, parameterised and
  typed tests are registered once for each of their instances, the parent of a death test passes it
  exactly when the statement died as expected, the program a parent re-executes runs the statement that the parent is at, smart
  pointers delete each object once, a mutex admits one thread at a time and is created once however
  its first users interleave, thread-local values are the same on both platforms, and on Windows the
  child of a death test gets the pipe however the processes interleave. Other lemmas state defects of the code as theorems about
  concrete runs: messages lost by a push or a reset between \<open>next\<close> and \<open>pop\<close>, stale closures after
  an exception, an uncaught exception in the subscriber, races of the destructors, truncated
  messages that are accepted, and a few more.

  Parameters. The clock, random draws, user callbacks, libcurl's transfer and the events of the
  websocket library are arguments. Rounds of threads are counted by an argument; the theorems say
  how many are enough. The code of a test, the answers of the file system and of
  the kernel, and \<open>regcomp\<close> with \<open>regexec\<close>, are arguments; recursions
  over the patterns and the command line are structural or have a measure, without fuel.

  Not modelled: the vendored \<open>optional.h\<close> (HOL's option), websocketpp and asio (events), logging,
  the stream operators and unused parse contexts of picojson, unsynchronised memory accesses below
  the level of a queue operation, stack depth. Of googletest: the memory
  model below single accesses of a mutex, the creation of threads on Windows,
  death tests on QNX, structured exceptions and HRESULTs of Windows, the generated
  lists of types, tuples and predicate assertions. How a stream prints a floating-point
  number is an argument; the integers that only count (lines, tests, indices of iterators) are
  unbounded.
\<close>

end
